(* ===== verification/Go_Prelude.thy ===== *)
theory Go_Prelude
  imports Complex_Main "HOL-Library.AList"
begin

text \<open>
  What the components share: Go's \<open>(value, error)\<close> results as sums, its error-only results as
  options, the loops "return the first error", Go maps as association lists, and the values an
  \<open>any\<close> holds once JSON or CBOR has been decoded.

  \<^item> \<open>Inl e\<close> is a non-nil error, \<open>Inr v\<close> a value with a nil error.
  \<^item> An operation that returns an error alone is an option: \<open>None\<close> is nil.
  \<^item> A Go map is an association list with distinct keys; \<open>map_of\<close> looks a key up, the length is
    \<open>len\<close>, and the order of the list is the (unspecified) order a \<open>range\<close> visits it in, so a
    statement about every such list is a statement about every iteration order.
\<close>

named_theorems result_simps \<open>evaluation of results and first-error loops\<close>
named_theorems gomap_simps \<open>Go maps as association lists\<close>

section \<open>Results\<close>

type_synonym ('e, 'a) result = "'e + 'a"

definition is_ok :: "'e + 'a \<Rightarrow> bool" where
  "is_ok r = (case r of Inl _ \<Rightarrow> False | Inr _ \<Rightarrow> True)"

definition rbind :: "'e + 'a \<Rightarrow> ('a \<Rightarrow> 'e + 'b) \<Rightarrow> 'e + 'b" where
  "rbind r f = (case r of Inl e \<Rightarrow> Inl e | Inr v \<Rightarrow> f v)"

definition rmap :: "('a \<Rightarrow> 'b) \<Rightarrow> 'e + 'a \<Rightarrow> 'e + 'b" where
  "rmap f r = (case r of Inl e \<Rightarrow> Inl e | Inr v \<Rightarrow> Inr (f v))"

definition wrap_err :: "('e \<Rightarrow> 'f) \<Rightarrow> 'e + 'a \<Rightarrow> 'f + 'a" where
  "wrap_err w r = (case r of Inl e \<Rightarrow> Inl (w e) | Inr v \<Rightarrow> Inr v)"

definition require :: "bool \<Rightarrow> 'e \<Rightarrow> 'e option" where
  "require b e = (if b then None else Some e)"

text \<open>\<open>a ;; b\<close> of error-only steps: the second runs only when the first returned nil.\<close>

definition and_then :: "'e option \<Rightarrow> 'e option \<Rightarrow> 'e option" where
  "and_then a b = (case a of None \<Rightarrow> b | Some e \<Rightarrow> Some e)"

lemma is_ok_simps [simp, result_simps]:
  "is_ok (Inl e) = False" "is_ok (Inr v) = True"
  by (simp_all add: is_ok_def)

lemma rbind_simps [simp, result_simps]:
  "rbind (Inl e) f = Inl e" "rbind (Inr v) f = f v"
  by (simp_all add: rbind_def)

lemma rmap_simps [simp, result_simps]:
  "rmap f (Inl e) = Inl e" "rmap f (Inr v) = Inr (f v)"
  by (simp_all add: rmap_def)

lemma wrap_err_simps [simp, result_simps]:
  "wrap_err w (Inl e) = Inl (w e)" "wrap_err w (Inr v) = Inr v"
  by (simp_all add: wrap_err_def)

lemma and_then_simps [simp, result_simps]:
  "and_then None b = b" "and_then (Some e) b = Some e"
  by (simp_all add: and_then_def)

lemma require_simps [simp, result_simps]:
  "require True e = None" "require False e = Some e"
  by (simp_all add: require_def)

lemma rbind_Inr_iff: "rbind r f = Inr w \<longleftrightarrow> (\<exists>v. r = Inr v \<and> f v = Inr w)"
  by (cases r) auto

lemma rmap_Inr_iff: "rmap f r = Inr w \<longleftrightarrow> (\<exists>v. r = Inr v \<and> w = f v)"
  by (cases r) auto

lemma wrap_err_Inr_iff [simp]: "wrap_err w r = Inr v \<longleftrightarrow> r = Inr v"
  by (cases r) auto

text \<open>When a chain of fallible steps succeeds: each step does.\<close>

lemma case_sum_Inr_iff: "(case r of Inl e \<Rightarrow> Inl (g e) | Inr v \<Rightarrow> f v) = Inr w \<longleftrightarrow> (\<exists>v. r = Inr v \<and> f v = Inr w)"
  by (cases r) auto

lemma case_option_Inr_iff: "(case r of None \<Rightarrow> Inl e | Some v \<Rightarrow> f v) = Inr w \<longleftrightarrow> (\<exists>v. r = Some v \<and> f v = Inr w)"
  by (cases r) auto

lemma case_err_Inr_iff: "(case r of None \<Rightarrow> k | Some e \<Rightarrow> Inl (g e)) = Inr w \<longleftrightarrow> r = None \<and> k = Inr w"
  by (cases r) auto

lemma if_Inr_iff: "(if b then Inl e else k) = Inr w \<longleftrightarrow> \<not> b \<and> k = Inr w"
  by simp

lemma case_err_None_iff: "(case r of Inl e \<Rightarrow> Some (g e) | Inr v \<Rightarrow> f v) = None \<longleftrightarrow> (\<exists>v. r = Inr v \<and> f v = None)"
  by (cases r) auto

lemma if_None_iff: "(if b then Some e else k) = None \<longleftrightarrow> \<not> b \<and> k = None"
  by simp

lemma is_ok_iff: "is_ok r \<longleftrightarrow> (\<exists>v. r = Inr v)"
  by (cases r) auto

lemma is_ok_wrap_err [simp]: "is_ok (wrap_err w r) = is_ok r"
  by (cases r) auto

lemma and_then_None_iff [simp]: "and_then a b = None \<longleftrightarrow> a = None \<and> b = None"
  by (cases a) auto

lemmas ok_iffs = case_sum_Inr_iff case_option_Inr_iff case_err_Inr_iff if_Inr_iff rbind_Inr_iff rmap_Inr_iff
  case_err_None_iff if_None_iff and_then_None_iff

lemma require_None_iff [simp]: "require b e = None \<longleftrightarrow> b"
  by (simp add: require_def)

section \<open>Loops that stop at the first error\<close>

text \<open>\<open>for i, x := range xs { if err := f(i, x); err != nil { return err } }\<close>, counting from \<open>n\<close>.\<close>

fun first_err :: "(nat \<Rightarrow> 'a \<Rightarrow> 'e option) \<Rightarrow> nat \<Rightarrow> 'a list \<Rightarrow> 'e option" where
  "first_err f n [] = None"
| "first_err f n (x # xs) = and_then (f n x) (first_err f (Suc n) xs)"

lemma first_err_None_iff:
  "first_err f n xs = None \<longleftrightarrow> (\<forall>i < length xs. f (n + i) (xs ! i) = None)"
proof (induction xs arbitrary: n)
  case (Cons x xs)
  have "(\<forall>i < length (x # xs). f (n + i) ((x # xs) ! i) = None) \<longleftrightarrow>
      f n x = None \<and> (\<forall>i < length xs. f (Suc n + i) (xs ! i) = None)"
    by (simp add: All_less_Suc2)
  with Cons.IH [of "Suc n"] show ?case by simp
qed simp

text \<open>Where the index only labels the error, the loop accepts when every element passes.\<close>

lemma first_err_label:
  assumes "\<And>i x. f i x = None \<longleftrightarrow> P x"
  shows "first_err f n xs = None \<longleftrightarrow> (\<forall>x \<in> set xs. P x)"
  using assms by (induction xs arbitrary: n) auto

lemma first_err_Some:
  assumes "first_err f n xs = Some e"
  shows "\<exists>i < length xs. f (n + i) (xs ! i) = Some e \<and> (\<forall>j < i. f (n + j) (xs ! j) = None)"
  using assms
proof (induction xs arbitrary: n)
  case (Cons x xs)
  show ?case
  proof (cases "f n x")
    case None
    with Cons.prems have "first_err f (Suc n) xs = Some e" by simp
    then obtain i where "i < length xs" "f (Suc n + i) (xs ! i) = Some e"
      "\<forall>j < i. f (Suc n + j) (xs ! j) = None"
      using Cons.IH by blast
    with None show ?thesis
      by (intro exI [of _ "Suc i"]) (auto simp: All_less_Suc2)
  next
    case (Some e')
    with Cons.prems show ?thesis by (intro exI [of _ 0]) auto
  qed
qed simp

section \<open>Go maps\<close>

type_synonym ('k, 'v) gomap = "('k \<times> 'v) list"

abbreviation gm_get :: "('k, 'v) gomap \<Rightarrow> 'k \<Rightarrow> 'v option" where
  "gm_get m k \<equiv> map_of m k"

abbreviation gm_put :: "'k \<Rightarrow> 'v \<Rightarrow> ('k, 'v) gomap \<Rightarrow> ('k, 'v) gomap" where
  "gm_put k v m \<equiv> AList.update k v m"

abbreviation gm_del :: "'k \<Rightarrow> ('k, 'v) gomap \<Rightarrow> ('k, 'v) gomap" where
  "gm_del k m \<equiv> AList.delete k m"

definition gm_ok :: "('k, 'v) gomap \<Rightarrow> bool" where
  "gm_ok m = distinct (map fst m)"

lemma gm_ok_simps [simp, gomap_simps]:
  "gm_ok []" "gm_ok ((k, v) # m) \<longleftrightarrow> k \<notin> fst ` set m \<and> gm_ok m"
  by (simp_all add: gm_ok_def)

lemma gm_ok_put [simp, gomap_simps]: "gm_ok m \<Longrightarrow> gm_ok (gm_put k v m)"
  by (simp add: gm_ok_def distinct_update)

lemma gm_ok_del [simp, gomap_simps]: "gm_ok m \<Longrightarrow> gm_ok (gm_del k m)"
  by (simp add: gm_ok_def distinct_delete)

lemma gm_ok_filter [simp, gomap_simps]: "gm_ok m \<Longrightarrow> gm_ok (filter P m)"
  by (induction m) (auto simp: gm_ok_def)

lemma gm_get_put [simp, gomap_simps]: "gm_get (gm_put k v m) = (gm_get m)(k \<mapsto> v)"
  by (rule update_conv')

lemma gm_get_del [simp, gomap_simps]: "gm_get (gm_del k m) = (gm_get m)(k := None)"
  by (rule delete_conv')

lemma gm_get_filter [gomap_simps]:
  assumes "gm_ok m"
  shows "gm_get (filter (\<lambda>(k, v). P k v) m) k =
    (case gm_get m k of None \<Rightarrow> None | Some v \<Rightarrow> if P k v then Some v else None)"
  using assms
proof (induction m)
  case (Cons a m)
  obtain k' v where a: "a = (k', v)" by (cases a)
  have "k' = k \<Longrightarrow> gm_get m k = None"
    using Cons.prems by (auto simp: a map_of_eq_None_iff)
  with Cons show ?case by (auto simp: a split: option.splits)
qed simp

lemma gm_len_put:
  "gm_ok m \<Longrightarrow> length (gm_put k v m) = (if gm_get m k = None then Suc (length m) else length m)"
  by (induction m) auto

lemma update_fresh: "k \<notin> fst ` set m \<Longrightarrow> gm_put k v m = m @ [(k, v)]"
  by (induction m) auto

lemma gm_len_card: "gm_ok m \<Longrightarrow> length m = card (dom (gm_get m))"
  by (metis distinct_card dom_map_of_conv_image_fst gm_ok_def length_map set_map)

section \<open>Decoded values\<close>

text \<open>
  What Go's \<open>any\<close> holds where this program reads one: the results of decoding JSON
  (\<open>nil\<close>, \<open>bool\<close>, \<open>float64\<close>, \<open>string\<close>, \<open>[]any\<close>, \<open>map[string]any\<close>), an integer of any Go width
  (a CBOR integer, or a query built in Go), a \<open>json.Number\<close>, a byte string, a CBOR tag and a
  \<open>time.Time\<close>. A float is a rational, an infinity or NaN (a \<open>float32\<close> converts to \<open>float64\<close>
  exactly, so the two are one constructor); a \<open>time.Time\<close> is its UTC RFC 3339 rendering, the
  only thing the program reads of one.
\<close>

datatype gofloat = Finite rat | Inf | NegInf | NaN

datatype goval =
    GNil
  | GBool bool
  | GStr string
  | GInt int
  | GFloat gofloat
  | GNumber string
  | GBytes "nat list"
  | GTag nat goval
  | GTime string
  | GArr "goval list"
  | GObj "(string \<times> goval) list"

text \<open>A decoded value whose objects are Go maps: no two members of one object share a name.\<close>

fun goval_ok :: "goval \<Rightarrow> bool" where
  "goval_ok (GArr vs) = (\<forall>v \<in> set vs. goval_ok v)"
| "goval_ok (GObj kvs) = (gm_ok kvs \<and> (\<forall>kv \<in> set kvs. goval_ok (snd kv)))"
| "goval_ok (GTag n v) = goval_ok v"
| "goval_ok _ = True"

text \<open>\<open>v.(map[string]any)\<close>, \<open>v.([]any)\<close> and \<open>v.(string)\<close>: the type assertions with their \<open>ok\<close>.\<close>

fun as_obj :: "goval \<Rightarrow> (string \<times> goval) list option" where
  "as_obj (GObj kvs) = Some kvs"
| "as_obj _ = None"

fun as_arr :: "goval \<Rightarrow> goval list option" where
  "as_arr (GArr vs) = Some vs"
| "as_arr _ = None"

fun as_str :: "goval \<Rightarrow> string option" where
  "as_str (GStr s) = Some s"
| "as_str _ = None"

lemma as_obj_Some [simp]:
  "as_obj v = Some kvs \<longleftrightarrow> v = GObj kvs" "Some kvs = as_obj v \<longleftrightarrow> v = GObj kvs"
  by (cases v; auto)+

lemma as_arr_Some [simp]:
  "as_arr v = Some vs \<longleftrightarrow> v = GArr vs" "Some vs = as_arr v \<longleftrightarrow> v = GArr vs"
  by (cases v; auto)+

lemma as_str_Some [simp]:
  "as_str v = Some s \<longleftrightarrow> v = GStr s" "Some s = as_str v \<longleftrightarrow> v = GStr s"
  by (cases v; auto)+

lemma member_size: "gm_get kvs k = Some v \<Longrightarrow> size v < size (GObj kvs)"
  by (induction kvs) (auto split: if_splits)

section \<open>Case folding\<close>

text \<open>
  \<open>strings.EqualFold\<close> against an ASCII name, on UTF-8: ASCII letters fold to lower case, and the two
  other characters whose simple folding is ASCII, U+017F and U+212A, fold to s and k.
\<close>

definition fold_ascii :: "nat \<Rightarrow> nat" where
  "fold_ascii c = (if 65 \<le> c \<and> c \<le> 90 then c + 32 else c)"

fun fold_bytes :: "nat list \<Rightarrow> nat list" where
  "fold_bytes (c # b # d # r) =
     (if c = 197 \<and> b = 191 then 115 # fold_bytes (d # r)
      else if c = 226 \<and> b = 132 \<and> d = 170 then 107 # fold_bytes r
      else fold_ascii c # fold_bytes (b # d # r))"
| "fold_bytes [c, b] = (if c = 197 \<and> b = 191 then [115] else [fold_ascii c, fold_ascii b])"
| "fold_bytes cs = map fold_ascii cs"

definition EqualFold :: "string \<Rightarrow> string \<Rightarrow> bool" where
  "EqualFold s name = (fold_bytes (map of_char s) = fold_bytes (map of_char name))"

end
