(* ===== verification/Go_Text.thy ===== *)
theory Go_Text
  imports Go_Prelude
begin

text \<open>
  Of Go's text what the components use: \<open>range\<close> over a string, which decodes UTF-8, \<open>strings.Builder.WriteRune\<close>, which
  encodes it, \<open>%d\<close> of a length, and the length-prefixed parts (\<open>"%d:%s"\<close>) that several identifiers are hashes of.
\<close>

section \<open>UTF-8\<close>

definition bytes_of :: "string \<Rightarrow> nat list" where
  "bytes_of s = map of_char s"

definition string_of :: "nat list \<Rightarrow> string" where
  "string_of bs = map char_of bs"

abbreviation RuneError :: nat where "RuneError \<equiv> 65533"

definition cont :: "nat \<Rightarrow> bool" where
  "cont b = (128 \<le> b \<and> b \<le> 191)"

text \<open>\<open>utf8.DecodeRune\<close>: a rune and its width; a byte that starts no valid sequence is RuneError, alone.\<close>

fun decode_rune :: "nat list \<Rightarrow> nat \<times> nat" where
  "decode_rune [] = (RuneError, 0)"
| "decode_rune (a # r) =
     (if a < 128 then (a, 1)
      else case r of
        [] \<Rightarrow> (RuneError, 1)
      | b # r2 \<Rightarrow>
        (if 194 \<le> a \<and> a \<le> 223 then (if cont b then ((a - 192) * 64 + (b - 128), 2) else (RuneError, 1))
         else case r2 of
           [] \<Rightarrow> (RuneError, 1)
         | c # r3 \<Rightarrow>
           (if 224 \<le> a \<and> a \<le> 239 then
              (if cont b \<and> cont c \<and> (a = 224 \<longrightarrow> 160 \<le> b) \<and> (a = 237 \<longrightarrow> b \<le> 159)
               then ((a - 224) * 4096 + (b - 128) * 64 + (c - 128), 3) else (RuneError, 1))
            else case r3 of
              [] \<Rightarrow> (RuneError, 1)
            | d # r4 \<Rightarrow>
              (if 240 \<le> a \<and> a \<le> 244 \<and> cont b \<and> cont c \<and> cont d \<and> (a = 240 \<longrightarrow> 144 \<le> b) \<and> (a = 244 \<longrightarrow> b \<le> 143)
               then ((a - 240) * 262144 + (b - 128) * 4096 + (c - 128) * 64 + (d - 128), 4)
               else (RuneError, 1)))))"

lemma decode_rune_width: "bs \<noteq> [] \<Longrightarrow> 1 \<le> snd (decode_rune bs)"
  by (cases bs) (auto split: list.splits)

text \<open>The runes \<open>range\<close> visits.\<close>

function runes_of :: "nat list \<Rightarrow> nat list" where
  "runes_of [] = []"
| "runes_of (a # r) = (case decode_rune (a # r) of (c, w) \<Rightarrow> c # runes_of (drop w (a # r)))"
  by pat_completeness auto
termination
proof (relation "measure length", goal_cases)
  case (2 a r c w)
  then have "1 \<le> w" using decode_rune_width [of "a # r"] by (metis list.distinct(1) snd_conv)
  then show ?case by simp
qed simp

definition encode_rune :: "nat \<Rightarrow> nat list" where
  "encode_rune r =
     (if r < 128 then [r]
      else if r < 2048 then [192 + r div 64, 128 + r mod 64]
      else if r < 65536 then [224 + r div 4096, 128 + r div 64 mod 64, 128 + r mod 64]
      else [240 + r div 262144, 128 + r div 4096 mod 64, 128 + r div 64 mod 64, 128 + r mod 64])"

text \<open>A Unicode scalar value, which is what \<open>range\<close> yields.\<close>

definition scalar :: "nat \<Rightarrow> bool" where
  "scalar r = (r < 55296 \<or> (57344 \<le> r \<and> r < 1114112))"

lemma encode_rune_length: "length (encode_rune r) \<le> 4" "encode_rune r \<noteq> []"
  by (simp_all add: encode_rune_def)

text \<open>The base-64 digits of a rune.\<close>

lemma digits64:
  obtains d0 d1 d2 q3 :: nat where
    "d0 < 64" "d1 < 64" "d2 < 64" "r = ((q3 * 64 + d2) * 64 + d1) * 64 + d0"
    "r mod 64 = d0" "r div 64 mod 64 = d1" "r div 4096 mod 64 = d2" "r div 262144 = q3"
    "r div 64 = (q3 * 64 + d2) * 64 + d1" "r div 4096 = q3 * 64 + d2"
proof -
  have q2: "r div 4096 = r div 64 div 64" and q3: "r div 262144 = r div 64 div 64 div 64"
    by (simp_all add: div_mult2_eq [symmetric])
  show ?thesis
  proof (rule that)
    show "r div 4096 = r div 262144 * 64 + r div 4096 mod 64" unfolding q2 q3 by simp
    show "r div 64 = (r div 262144 * 64 + r div 4096 mod 64) * 64 + r div 64 mod 64" unfolding q2 q3 by simp
    show "r = ((r div 262144 * 64 + r div 4096 mod 64) * 64 + r div 64 mod 64) * 64 + r mod 64"
      unfolding q2 q3 by simp
  qed simp_all
qed

lemma decode_encode_rune:
  assumes "scalar r" shows "decode_rune (encode_rune r @ bs) = (r, length (encode_rune r))"
proof -
  obtain d0 d1 d2 q3 :: nat where d: "d0 < 64" "d1 < 64" "d2 < 64"
    and r': "r = ((q3 * 64 + d2) * 64 + d1) * 64 + d0"
    and digits: "r mod 64 = d0" "r div 64 mod 64 = d1" "r div 4096 mod 64 = d2" "r div 262144 = q3"
      "r div 64 = (q3 * 64 + d2) * 64 + d1" "r div 4096 = q3 * 64 + d2"
    by (rule digits64)
  from r' have r: "r = 262144 * q3 + 4096 * d2 + 64 * d1 + d0" by simp
  consider "r < 128" | "128 \<le> r" "r < 2048" | "2048 \<le> r" "r < 65536" | "65536 \<le> r" by linarith
  then show ?thesis
  proof cases
    case 1
    then show ?thesis by (simp add: encode_rune_def)
  next
    case 2
    with r d have "q3 < 1" by linarith
    moreover from 2 r d have "d2 < 1" by linarith
    ultimately have "q3 = 0" "d2 = 0" by simp_all
    moreover from this have "2 \<le> d1" "d1 < 32" using 2 r d by linarith+
    ultimately have "q3 = 0" "d2 = 0" "2 \<le> d1" "d1 < 32" by simp_all
    with 2 d have "decode_rune ([192 + d1, 128 + d0] @ bs) = (d1 * 64 + d0, 2)" by (simp add: cont_def)
    moreover have "encode_rune r = [192 + d1, 128 + d0]" "r = d1 * 64 + d0"
      using 2 digits r \<open>q3 = 0\<close> \<open>d2 = 0\<close> by (simp_all add: encode_rune_def)
    ultimately show ?thesis by simp
  next
    case 3
    with r have "q3 < 1" and hi: "d2 < 16" using d by linarith+
    then have q: "q3 = 0" by simp
    have lo: "d2 = 0 \<Longrightarrow> 32 \<le> d1" using 3 r d q by simp
    have sur: "d2 = 13 \<Longrightarrow> d1 < 32" using assms r d q by (auto simp: scalar_def)
    from d lo hi sur have "decode_rune ([224 + d2, 128 + d1, 128 + d0] @ bs) = (d2 * 4096 + d1 * 64 + d0, 3)"
      by (simp add: cont_def) linarith
    moreover have "encode_rune r = [224 + d2, 128 + d1, 128 + d0]" "r = d2 * 4096 + d1 * 64 + d0"
      using 3 digits r q by (simp_all add: encode_rune_def)
    ultimately show ?thesis by simp
  next
    case 4
    have top: "r < 1114112" using assms by (auto simp: scalar_def)
    with r have q: "q3 < 5" using d by linarith
    have lo: "q3 = 0 \<Longrightarrow> 16 \<le> d2" and hi: "q3 = 4 \<Longrightarrow> d2 < 16" using top r d 4 by simp_all
    have "decode_rune ([240 + q3, 128 + d2, 128 + d1, 128 + d0] @ bs) =
        (q3 * 262144 + d2 * 4096 + d1 * 64 + d0, 4)"
      using d q lo hi by (simp add: cont_def) linarith
    moreover have "encode_rune r = [240 + q3, 128 + d2, 128 + d1, 128 + d0]"
        "r = q3 * 262144 + d2 * 4096 + d1 * 64 + d0"
      using 4 digits r by (simp_all add: encode_rune_def)
    ultimately show ?thesis by simp
  qed
qed

lemma decode_rune_scalar: "scalar (fst (decode_rune bs))"
proof (cases bs)
  case (Cons a r)
  have bad: "scalar RuneError" by (simp add: scalar_def)
  have two: "scalar ((a - 192) * 64 + (b - 128))" if "a \<le> 223" "cont b" for b
    using that by (auto simp: scalar_def cont_def)
  have three: "scalar ((a - 224) * 4096 + (b - 128) * 64 + (c - 128))"
    if "a \<le> 239" "cont b" "cont c" "a = 237 \<longrightarrow> b \<le> 159" for b c
  proof -
    have bc: "(b - 128) * 64 + (c - 128) < 4096" using that by (auto simp: cont_def)
    consider "a \<le> 236" | "a = 237" | "238 \<le> a" by linarith
    then show ?thesis
    proof cases
      case 1
      then have "(a - 224) * 4096 \<le> 12 * 4096" by simp
      with bc show ?thesis unfolding scalar_def by linarith
    next
      case 2
      with that have "(b - 128) * 64 \<le> 31 * 64" "c - 128 < 64" by (auto simp: cont_def)
      with 2 show ?thesis unfolding scalar_def by simp
    next
      case 3
      with that(1) have "14 * 4096 \<le> (a - 224) * 4096" "(a - 224) * 4096 \<le> 15 * 4096" by simp_all
      with bc show ?thesis unfolding scalar_def by linarith
    qed
  qed
  have four: "scalar ((a - 240) * 262144 + (b - 128) * 4096 + (c - 128) * 64 + (d - 128))"
    if "a \<le> 244" "cont b" "cont c" "cont d" "a = 240 \<longrightarrow> 144 \<le> b" "a = 244 \<longrightarrow> b \<le> 143" "240 \<le> a" for b c d
  proof -
    have cd: "(c - 128) * 64 + (d - 128) < 4096" using that by (auto simp: cont_def)
    have b: "b - 128 < 64" "a = 240 \<longrightarrow> 16 \<le> b - 128" "a = 244 \<longrightarrow> b - 128 < 16" using that by (auto simp: cont_def)
    have "a = 240 \<or> (241 \<le> a \<and> a \<le> 243) \<or> a = 244" using that by linarith
    then consider "a = 240" | "241 \<le> a" "a \<le> 243" | "a = 244" by blast
    then show ?thesis
    proof cases
      case 2
      then have "1 * 262144 \<le> (a - 240) * 262144" "(a - 240) * 262144 \<le> 3 * 262144" by simp_all
      with b cd show ?thesis unfolding scalar_def by linarith
    qed (use b cd in \<open>simp_all add: scalar_def\<close>)
  qed
  show ?thesis unfolding Cons
    using bad two three four by (auto simp: scalar_def [of a] split: list.splits)
qed (simp add: scalar_def)

lemma runes_encode:
  assumes "scalar r" shows "runes_of (encode_rune r @ bs) = r # runes_of bs"
proof -
  obtain a t where enc: "encode_rune r @ bs = a # t" using encode_rune_length(2) [of r] by (cases "encode_rune r @ bs") auto
  from decode_encode_rune [OF assms, of bs] enc
  have "decode_rune (a # t) = (r, length (encode_rune r))" by simp
  then have "runes_of (a # t) = r # runes_of (drop (length (encode_rune r)) (a # t))"
    by (simp del: decode_rune.simps)
  with enc show ?thesis by (metis append_eq_conv_conj)
qed

lemma runes_of_concat:
  "\<forall>r \<in> set rs. scalar r \<Longrightarrow> runes_of (concat (map encode_rune rs)) = rs"
  by (induction rs) (simp_all add: runes_encode)

lemma runes_of_scalar: "\<forall>r \<in> set (runes_of bs). scalar r"
proof (induction bs rule: runes_of.induct)
  case (2 a r)
  obtain c w where d: "decode_rune (a # r) = (c, w)" by (cases "decode_rune (a # r)")
  have "scalar c" using decode_rune_scalar [of "a # r"] d by simp
  with 2 [OF d [symmetric]] d show ?case by (simp del: decode_rune.simps)
qed simp

section \<open>Length-prefixed parts\<close>

fun dec_digits :: "nat \<Rightarrow> string" where
  "dec_digits n = (if n < 10 then [char_of (48 + n)] else dec_digits (n div 10) @ [char_of (48 + n mod 10)])"

declare dec_digits.simps [simp del]

definition len_part :: "string \<Rightarrow> string" where
  "len_part p = dec_digits (length p) @ '':'' @ p"

definition len_parts :: "string list \<Rightarrow> string" where
  "len_parts parts = concat (map len_part parts)"

text \<open>No two lists of parts are written alike.\<close>

definition dec_value :: "string \<Rightarrow> nat" where
  "dec_value s = foldl (\<lambda>v c. 10 * v + (of_char c - 48)) 0 s"

lemma of_digit: "m < 10 \<Longrightarrow> of_char (char_of (48 + m :: nat) :: char) = 48 + m"
  by (simp add: of_char_of)

lemma dec_value_digits: "dec_value (dec_digits n) = n"
proof (induction n rule: dec_digits.induct)
  case (1 n)
  then show ?case
    using of_digit [of n] of_digit [of "n mod 10"] by (cases "n < 10") (simp_all add: dec_digits.simps [of n] dec_value_def)
qed

lemma dec_digits_inj: "dec_digits m = dec_digits n \<Longrightarrow> m = n"
  by (metis dec_value_digits)

lemma dec_digits_no_colon: "CHR '':'' \<notin> set (dec_digits n)"
proof (induction n rule: dec_digits.induct)
  case (1 n)
  have digit: "CHR '':'' \<noteq> char_of (48 + m)" if "m < 10" for m :: nat
  proof
    assume "CHR '':'' = (char_of (48 + m) :: char)"
    then have "of_char CHR '':'' = (of_char (char_of (48 + m) :: char) :: nat)" by (rule arg_cong)
    with that show False by (simp add: of_digit)
  qed
  show ?case using 1 digit [of n] digit [of "n mod 10"] by (simp add: dec_digits.simps [of n])
qed

lemma takeWhile_colon: "CHR '':'' \<notin> set xs \<Longrightarrow> takeWhile (\<lambda>c. c \<noteq> CHR '':'') (xs @ '':'' @ r) = xs"
  by (induction xs) auto

lemma len_part_inj:
  assumes "len_part p @ r = len_part q @ s"
  shows "p = q \<and> r = s"
proof -
  have *: "dec_digits (length p) @ '':'' @ (p @ r) = dec_digits (length q) @ '':'' @ (q @ s)"
    using assms by (simp add: len_part_def)
  from arg_cong [OF *, of "takeWhile (\<lambda>c. c \<noteq> CHR '':'')"] have d: "dec_digits (length p) = dec_digits (length q)"
    by (simp only: takeWhile_colon [OF dec_digits_no_colon])
  with * have "p @ r = q @ s" by simp
  with dec_digits_inj [OF d] show ?thesis by simp
qed

lemma len_part_nonempty: "len_part p \<noteq> []"
  by (simp add: len_part_def)

lemma len_parts_inj: "len_parts ps = len_parts qs \<Longrightarrow> ps = qs"
proof (induction ps arbitrary: qs)
  case Nil
  then show ?case using len_part_nonempty by (cases qs) (auto simp: len_parts_def)
next
  case (Cons p ps)
  then obtain q qs' where qs: "qs = q # qs'" using len_part_nonempty [of p] by (cases qs) (auto simp: len_parts_def)
  with Cons.prems have "len_part p @ len_parts ps = len_part q @ len_parts qs'" by (simp add: len_parts_def)
  from len_part_inj [OF this] Cons.IH qs show ?case by simp
qed

end
