(* ===== verification/Dcql_Path.thy ===== *)
theory Dcql_Path
  imports Go_Prelude
begin

text \<open>
  Claims Path Pointers, \<open>src/dcql/path.go\<close>: the path elements and their JSON form, \<open>Path.Select\<close>
  with its three element-wise selections, \<open>Path.Covers\<close>, \<open>withIndicesWidened\<close> and
  \<open>MdocNamespaceAndElement\<close>. The lemmas give \<open>Select\<close> a depth-first reference meaning
  (\<open>values_at\<close>), characterise exactly when it succeeds, and say what \<open>Covers\<close> and the widening of
  indices do and do not promise of it.
\<close>

section \<open>Path elements\<close>

text \<open>\<open>PathElement\<close> has a kind and the fields the kind uses; no other kind can be built.\<close>

datatype path_element = PathKey string | Wildcard | PathIndex int

type_synonym path = "path_element list"

datatype path_error =
    PathEmpty
  | SelectionEmpty
  | NotAnObject string
  | WildcardNotArray
  | IndexNotArray int
  | IndexPanic int
  | NegativeIndex int
  | BadElement

fun IsKey :: "path_element \<Rightarrow> bool" where
  "IsKey (PathKey k) = True"
| "IsKey _ = False"

fun IsWildcard :: "path_element \<Rightarrow> bool" where
  "IsWildcard Wildcard = True"
| "IsWildcard _ = False"

fun IsIndex :: "path_element \<Rightarrow> bool" where
  "IsIndex (PathIndex i) = True"
| "IsIndex _ = False"

text \<open>\<open>Key\<close> and \<open>Index\<close> read the struct's fields, which are zero when the kind has no use for them.\<close>

fun Key :: "path_element \<Rightarrow> string" where
  "Key (PathKey k) = k"
| "Key _ = []"

fun Index :: "path_element \<Rightarrow> int" where
  "Index (PathIndex i) = i"
| "Index _ = 0"

lemma IsKey_iff: "IsKey e \<longleftrightarrow> (\<exists>k. e = PathKey k)"
  by (cases e) auto

lemma key_pair_iff:
  "length p = 2 \<and> IsKey (p ! 0) \<and> IsKey (p ! 1) \<longleftrightarrow> (\<exists>n e. p = [PathKey n, PathKey e])"
  by (auto simp: numeral_2_eq_2 length_Suc_conv IsKey_iff)

subsection \<open>The JSON form\<close>

text \<open>
  A JSON value as far as a path element tells values apart: null, a string, a number written as an
  integer, anything else. \<open>json.Unmarshal\<close> into a Go \<open>int\<close> takes an integer literal within 64 bits.
  Keys are taken to be valid UTF-8, as those read from JSON are; \<open>json.Marshal\<close> would replace the invalid bytes of another.
\<close>

datatype jwire = WNull | WString string | WInt int | WOther

definition int64_range :: "int \<Rightarrow> bool" where
  "int64_range i = (- (2 ^ 63) \<le> i \<and> i < 2 ^ 63)"

fun MarshalJSON :: "path_element \<Rightarrow> jwire" where
  "MarshalJSON (PathKey k) = WString k"
| "MarshalJSON Wildcard = WNull"
| "MarshalJSON (PathIndex i) = WInt i"

fun UnmarshalJSON :: "jwire \<Rightarrow> path_error + path_element" where
  "UnmarshalJSON WNull = Inr Wildcard"
| "UnmarshalJSON (WString s) = Inr (PathKey s)"
| "UnmarshalJSON (WInt i) =
     (if \<not> int64_range i then Inl BadElement
      else if i < 0 then Inl (NegativeIndex i)
      else Inr (PathIndex i))"
| "UnmarshalJSON WOther = Inl BadElement"

text \<open>A path decoded from a JSON array: each element in turn, stopping at the first it refuses.\<close>

fun UnmarshalPath :: "jwire list \<Rightarrow> path_error + path" where
  "UnmarshalPath [] = Inr []"
| "UnmarshalPath (w # ws) =
     rbind (UnmarshalJSON w) (\<lambda>e. rmap (\<lambda>es. e # es) (UnmarshalPath ws))"

section \<open>Selection\<close>

definition Path_Validate :: "path \<Rightarrow> path_error option" where
  "Path_Validate p = (if length p = 0 then Some PathEmpty else None)"

fun selectKey :: "string \<Rightarrow> goval list \<Rightarrow> path_error + goval list" where
  "selectKey key [] = Inr []"
| "selectKey key (v # vs) =
     (case as_obj v of
        None \<Rightarrow> Inl (NotAnObject key)
      | Some obj \<Rightarrow>
          rmap (\<lambda>nxt. case gm_get obj key of None \<Rightarrow> nxt | Some child \<Rightarrow> child # nxt)
            (selectKey key vs))"

fun selectWildcard :: "goval list \<Rightarrow> path_error + goval list" where
  "selectWildcard [] = Inr []"
| "selectWildcard (v # vs) =
     (case as_arr v of
        None \<Rightarrow> Inl WildcardNotArray
      | Some arr \<Rightarrow> rmap (\<lambda>nxt. arr @ nxt) (selectWildcard vs))"

text \<open>\<open>index < len(arr)\<close> holds for a negative index too, and \<open>arr[index]\<close> then panics.\<close>

fun selectIndex :: "int \<Rightarrow> goval list \<Rightarrow> path_error + goval list" where
  "selectIndex index [] = Inr []"
| "selectIndex index (v # vs) =
     (case as_arr v of
        None \<Rightarrow> Inl (IndexNotArray index)
      | Some arr \<Rightarrow>
          (if index < int (length arr) then
             (if index < 0 then Inl (IndexPanic index)
              else rmap (\<lambda>nxt. arr ! nat index # nxt) (selectIndex index vs))
           else selectIndex index vs))"

definition selectFrom :: "path_element \<Rightarrow> goval list \<Rightarrow> path_error + goval list" where
  "selectFrom elem selection =
     (if IsKey elem then selectKey (Key elem) selection
      else if IsWildcard elem then selectWildcard selection
      else selectIndex (Index elem) selection)"

fun select_steps :: "path \<Rightarrow> goval list \<Rightarrow> path_error + goval list" where
  "select_steps [] selection = Inr selection"
| "select_steps (elem # es) selection =
     rbind (selectFrom elem selection)
       (\<lambda>nxt. if length nxt = 0 then Inl SelectionEmpty else select_steps es nxt)"

definition Path_Select :: "path \<Rightarrow> goval \<Rightarrow> path_error + goval list" where
  "Path_Select p doc =
     (case Path_Validate p of
        Some e \<Rightarrow> Inl e
      | None \<Rightarrow> select_steps p [doc])"

definition withIndicesWidened :: "path \<Rightarrow> path" where
  "withIndicesWidened p = map (\<lambda>elem. if IsIndex elem then Wildcard else elem) p"

section \<open>Covering\<close>

definition covers_elem :: "path_element \<Rightarrow> path_element \<Rightarrow> bool" where
  "covers_elem a b =
     (if IsWildcard a \<and> (IsWildcard b \<or> IsIndex b) then True
      else if IsKey a \<and> IsKey b \<and> Key a = Key b then True
      else if IsIndex a \<and> IsIndex b \<and> Index a = Index b then True
      else False)"

definition Path_Covers :: "path \<Rightarrow> path \<Rightarrow> bool" where
  "Path_Covers p q =
     (if length p = 0 \<or> length p > length q then False
      else list_all2 covers_elem p (take (length p) q))"

definition MdocNamespaceAndElement :: "path \<Rightarrow> (string \<times> string) option" where
  "MdocNamespaceAndElement p =
     (if length p \<noteq> 2 \<or> \<not> IsKey (p ! 0) \<or> \<not> IsKey (p ! 1) then None
      else Some (Key (p ! 0), Key (p ! 1)))"

section \<open>What a path means\<close>

text \<open>
  The reference meaning: the values an element reaches from one value, and a path depth first. A
  value has the right shape for an element when the selection does not fail on it.
\<close>

fun children :: "path_element \<Rightarrow> goval \<Rightarrow> goval list" where
  "children (PathKey k) v =
     (case as_obj v of
        None \<Rightarrow> []
      | Some obj \<Rightarrow> (case gm_get obj k of None \<Rightarrow> [] | Some c \<Rightarrow> [c]))"
| "children Wildcard v = (case as_arr v of None \<Rightarrow> [] | Some arr \<Rightarrow> arr)"
| "children (PathIndex i) v =
     (case as_arr v of
        None \<Rightarrow> []
      | Some arr \<Rightarrow> (if 0 \<le> i \<and> i < int (length arr) then [arr ! nat i] else []))"

fun shaped :: "path_element \<Rightarrow> goval \<Rightarrow> bool" where
  "shaped (PathKey k) v = (as_obj v \<noteq> None)"
| "shaped Wildcard v = (as_arr v \<noteq> None)"
| "shaped (PathIndex i) v = (as_arr v \<noteq> None \<and> 0 \<le> i)"

fun values_at :: "path \<Rightarrow> goval \<Rightarrow> goval list" where
  "values_at [] v = [v]"
| "values_at (e # es) v = concat (map (values_at es) (children e v))"

text \<open>The element \<open>v\<close> is \<open>u\<close>, or inside it.\<close>

inductive inside :: "goval \<Rightarrow> goval \<Rightarrow> bool" where
  inside_refl: "inside v v"
| inside_member: "(k, c) \<in> set kvs \<Longrightarrow> inside v c \<Longrightarrow> inside v (GObj kvs)"
| inside_elem: "c \<in> set vs \<Longrightarrow> inside v c \<Longrightarrow> inside v (GArr vs)"

definition index_ok :: "path_element \<Rightarrow> bool" where
  "index_ok e = (IsIndex e \<longrightarrow> 0 \<le> Index e \<and> Index e < 2 ^ 63)"

subsection \<open>One step\<close>

lemma selectKey_iff:
  "selectKey k vs = Inr out \<longleftrightarrow>
     (\<forall>v \<in> set vs. shaped (PathKey k) v) \<and> out = concat (map (children (PathKey k)) vs)"
proof (induction vs arbitrary: out)
  case (Cons v vs)
  then show ?case by (cases v) (auto simp: rmap_Inr_iff split: option.splits)
qed auto

lemma selectWildcard_iff:
  "selectWildcard vs = Inr out \<longleftrightarrow>
     (\<forall>v \<in> set vs. shaped Wildcard v) \<and> out = concat (map (children Wildcard) vs)"
proof (induction vs arbitrary: out)
  case (Cons v vs)
  then show ?case by (cases v) (auto simp: rmap_Inr_iff split: option.splits)
qed auto

lemma selectIndex_iff:
  "selectIndex i vs = Inr out \<longleftrightarrow>
     (\<forall>v \<in> set vs. shaped (PathIndex i) v) \<and> out = concat (map (children (PathIndex i)) vs)"
proof (induction vs arbitrary: out)
  case (Cons v vs)
  then show ?case by (cases v) (auto simp: rmap_Inr_iff split: option.splits)
qed auto

lemma selectFrom_iff:
  "selectFrom e vs = Inr out \<longleftrightarrow>
     (\<forall>v \<in> set vs. shaped e v) \<and> out = concat (map (children e) vs)"
  by (cases e)
    (simp_all only: selectFrom_def IsKey.simps IsWildcard.simps Key.simps Index.simps if_True
       if_False selectKey_iff selectWildcard_iff selectIndex_iff)

lemma selectIndex_no_panic: "0 \<le> i \<Longrightarrow> selectIndex i vs \<noteq> Inl (IndexPanic j)"
proof (induction vs)
  case (Cons v vs)
  then show ?case by (cases "selectIndex i vs") (auto split: option.splits)
qed simp

lemma selectKey_error: "selectKey k vs = Inl e \<Longrightarrow> e = NotAnObject k"
proof (induction vs)
  case (Cons v vs)
  then show ?case by (cases "selectKey k vs") (auto split: option.splits)
qed simp

lemma selectWildcard_error: "selectWildcard vs = Inl e \<Longrightarrow> e = WildcardNotArray"
proof (induction vs)
  case (Cons v vs)
  then show ?case by (cases "selectWildcard vs") (auto split: option.splits)
qed simp

subsection \<open>Whole paths\<close>

lemma values_at_append:
  "values_at (p @ q) v = concat (map (values_at q) (values_at p v))"
proof (induction p arbitrary: v)
  case (Cons e p)
  have "concat (map (values_at (p @ q)) vs) =
      concat (map (values_at q) (concat (map (values_at p) vs)))" for vs
    by (induction vs) (simp_all add: Cons.IH)
  then show ?case by simp
qed simp

definition shapes_ok :: "path \<Rightarrow> goval list \<Rightarrow> bool" where
  "shapes_ok p sel =
     (\<forall>es e rest. p = es @ e # rest \<longrightarrow>
        (\<forall>u \<in> set sel. \<forall>v \<in> set (values_at es u). shaped e v))"

lemma shapes_ok_Nil [simp]: "shapes_ok [] sel"
  by (simp add: shapes_ok_def)

lemma shapes_ok_Cons:
  "shapes_ok (e # es) sel \<longleftrightarrow>
     (\<forall>v \<in> set sel. shaped e v) \<and> shapes_ok es (concat (map (children e) sel))"
  (is "?l \<longleftrightarrow> ?r")
proof
  assume l: ?l
  have "\<forall>v \<in> set sel. shaped e v"
    using l unfolding shapes_ok_def by (auto dest!: spec [of _ "[]"])
  moreover have "shapes_ok es (concat (map (children e) sel))"
    unfolding shapes_ok_def
  proof (intro allI impI ballI)
    fix fs f rest u v
    assume "es = fs @ f # rest" "u \<in> set (concat (map (children e) sel))"
      "v \<in> set (values_at fs u)"
    then show "shaped f v"
      using l unfolding shapes_ok_def by (auto dest!: spec [of _ "e # fs"])
  qed
  ultimately show ?r ..
next
  assume ?r
  then show ?l
    unfolding shapes_ok_def by (fastforce simp: Cons_eq_append_conv)
qed

lemma concat_values_at_Cons:
  "concat (map (values_at (e # es)) sel) =
     concat (map (values_at es) (concat (map (children e) sel)))"
  by (induction sel) auto

lemma select_steps_iff:
  "select_steps p sel = Inr out \<longleftrightarrow>
     out = concat (map (values_at p) sel) \<and> (p \<noteq> [] \<longrightarrow> out \<noteq> []) \<and> shapes_ok p sel"
proof (induction p arbitrary: sel out)
  case Nil
  show ?case by (auto simp: map_idI concat_map_singleton [where f = id, simplified])
next
  case (Cons e es)
  let ?nxt = "concat (map (children e) sel)"
  show ?case
  proof (cases "\<forall>v \<in> set sel. shaped e v")
    case True
    then have "selectFrom e sel = Inr ?nxt" by (simp add: selectFrom_iff)
    then show ?thesis
      using Cons.IH [of ?nxt out] True
      by (auto simp: shapes_ok_Cons concat_values_at_Cons simp del: values_at.simps)
  next
    case False
    then have "\<nexists>nxt. selectFrom e sel = Inr nxt" by (auto simp: selectFrom_iff)
    then obtain er where "selectFrom e sel = Inl er"
      by (cases "selectFrom e sel") auto
    with False show ?thesis by (simp add: shapes_ok_Cons)
  qed
qed

lemma Path_Select_iff:
  "Path_Select p doc = Inr out \<longleftrightarrow>
     p \<noteq> [] \<and> out = values_at p doc \<and> out \<noteq> [] \<and> shapes_ok p [doc]"
  by (auto simp: Path_Select_def Path_Validate_def select_steps_iff)

lemma select_steps_no_panic:
  "\<forall>e \<in> set p. IsIndex e \<longrightarrow> 0 \<le> Index e \<Longrightarrow> select_steps p sel \<noteq> Inl (IndexPanic j)"
proof (induction p arbitrary: sel)
  case (Cons e es)
  have "selectFrom e sel \<noteq> Inl (IndexPanic j)"
    using Cons.prems
    by (cases e) (auto simp: selectFrom_def selectIndex_no_panic dest: selectKey_error selectWildcard_error)
  then show ?case
    using Cons by (cases "selectFrom e sel") auto
qed simp

subsection \<open>Covering and widening\<close>

lemma children_cover:
  assumes "covers_elem a b"
  shows "set (children b v) \<subseteq> set (children a v)"
  using assms
  by (cases a; cases b) (auto simp: covers_elem_def split: option.splits if_splits)

lemma values_at_cover:
  "list_all2 covers_elem p q \<Longrightarrow> set (values_at q v) \<subseteq> set (values_at p v)"
proof (induction arbitrary: v rule: list_all2_induct)
  case (Cons a p b q)
  then show ?case using children_cover [of a b v] by fastforce
qed simp

lemma inside_nth:
  "0 \<le> i \<Longrightarrow> i < int (length vs) \<Longrightarrow> inside w (vs ! nat i) \<Longrightarrow> inside w (GArr vs)"
  by (rule inside_elem [OF nth_mem]) auto

lemma children_inside: "c \<in> set (children e v) \<Longrightarrow> inside w c \<Longrightarrow> inside w v"
  by (cases e)
    (auto split: option.splits if_splits
      intro: inside_elem inside_member [OF map_of_SomeD] inside_nth dest: sym [of "Some _"])

lemma values_at_inside: "w \<in> set (values_at p v) \<Longrightarrow> inside w v"
proof (induction p arbitrary: v)
  case (Cons e p)
  then show ?case by (auto intro: children_inside)
qed (simp add: inside_refl)

lemma covers_widened: "list_all2 covers_elem (withIndicesWidened p) p"
proof (induction p)
  case (Cons e p)
  have "covers_elem (if IsIndex e then Wildcard else e) e"
    by (cases e) (auto simp: covers_elem_def)
  with Cons show ?case by (simp add: withIndicesWidened_def)
qed (simp add: withIndicesWidened_def)

lemma covers_elem_exact: "covers_elem a b \<Longrightarrow> a \<noteq> Wildcard \<Longrightarrow> a = b"
  by (cases a; cases b) (auto simp: covers_elem_def split: if_splits)

lemma covers_exact:
  "list_all2 covers_elem p q \<Longrightarrow> Wildcard \<notin> set p \<Longrightarrow> p = q"
  by (induction rule: list_all2_induct) (auto dest: covers_elem_exact)

lemma Path_CoversD:
  assumes "Path_Covers p q"
  shows "p \<noteq> []" "list_all2 covers_elem p (take (length p) q)"
  using assms by (auto simp: Path_Covers_def split: if_splits)

lemma shapes_ok_prefix: "shapes_ok (p @ r) sel \<Longrightarrow> shapes_ok p sel"
  unfolding shapes_ok_def by (metis append.assoc append_Cons)

lemma Path_Select_prefix:
  assumes "Path_Select (p @ r) doc = Inr out" and "p \<noteq> []"
  shows "Path_Select p doc = Inr (values_at p doc)"
  using assms shapes_ok_prefix by (auto simp: Path_Select_iff values_at_append)

section \<open>Properties\<close>

text \<open>\<open>Path.Select\<close> walks a path level by level over every value selected so far; its result is
  exactly what following the path depth first from the credential reaches, in that order. It
  succeeds when the path is non-empty, something is reached, and every value met on the way has the
  shape the next component needs; otherwise it fails.\<close>

theorem select_meaning:
  "Path_Select p doc = Inr out \<longleftrightarrow>
     p \<noteq> [] \<and> out = values_at p doc \<and> out \<noteq> [] \<and>
     (\<forall>es e rest. p = es @ e # rest \<longrightarrow> (\<forall>v \<in> set (values_at es doc). shaped e v))"
  by (simp add: Path_Select_iff shapes_ok_def)

theorem select_meaning_witness:
  "Path_Select [PathKey ''d'', Wildcard, PathKey ''t'']
     (GObj [(''d'', GArr [GObj [(''t'', GStr ''BSc'')], GObj [(''t'', GStr ''MSc'')]])]) =
       Inr [GStr ''BSc'', GStr ''MSc'']"
proof -
  let ?p = "[PathKey ''d'', Wildcard, PathKey ''t'']"
  let ?d = "GObj [(''d'', GArr [GObj [(''t'', GStr ''BSc'')], GObj [(''t'', GStr ''MSc'')]])]"
  have "\<forall>es e rest. ?p = es @ e # rest \<longrightarrow> (\<forall>v \<in> set (values_at es ?d). shaped e v)"
    by (auto simp: Cons_eq_append_conv)
  then show ?thesis
    by (intro select_meaning [THEN iffD2]) simp
qed

text \<open>Where \<open>p.Covers(q)\<close> and both select from one credential, everything \<open>q\<close> selects is a value
  \<open>p\<close> selects, or lies inside one.\<close>

theorem covers_sound:
  assumes "Path_Covers p q" and "Path_Select p doc = Inr ps" and "Path_Select q doc = Inr qs"
  shows "\<forall>v \<in> set qs. \<exists>u \<in> set ps. inside v u"
proof
  fix v assume "v \<in> set qs"
  then have "v \<in> set (values_at (take (length p) q @ drop (length p) q) doc)"
    using assms(3) by (simp add: Path_Select_iff)
  then obtain u where "u \<in> set (values_at (take (length p) q) doc)"
    and "v \<in> set (values_at (drop (length p) q) u)"
    unfolding values_at_append by auto
  moreover have "set (values_at (take (length p) q) doc) \<subseteq> set ps"
    using values_at_cover [OF Path_CoversD(2) [OF assms(1)]] assms(2)
    by (simp add: Path_Select_iff)
  ultimately show "\<exists>u \<in> set ps. inside v u" using values_at_inside by blast
qed

theorem covers_sound_witness:
  "inside (GStr ''BSc'') (GObj [(''t'', GStr ''BSc'')])"
  using covers_sound [of "[PathKey ''d'', Wildcard]" "[PathKey ''d'', PathIndex 0, PathKey ''t'']"
      "GObj [(''d'', GArr [GObj [(''t'', GStr ''BSc'')]])]" "[GObj [(''t'', GStr ''BSc'')]]" "[GStr ''BSc'']"]
  by (simp add: Path_Covers_def covers_elem_def Path_Select_def Path_Validate_def selectFrom_def)

text \<open>A covering path without wildcards selects from every credential the covered path selects
  from: \<open>Covers\<close> then promises the selection, not only its contents.\<close>

theorem covers_exact_selects:
  assumes "Path_Covers p q" and "Wildcard \<notin> set p" and "Path_Select q doc = Inr qs"
  shows "Path_Select p doc = Inr (values_at p doc)"
proof -
  have "p = take (length p) q"
    using covers_exact [OF Path_CoversD(2) [OF assms(1)] assms(2)] .
  then have "Path_Select (p @ drop (length p) q) doc = Inr qs"
    using assms(3) by (metis append_take_drop_id)
  then show ?thesis using Path_Select_prefix Path_CoversD(1) [OF assms(1)] by blast
qed

theorem covers_exact_selects_witness:
  "Path_Select [PathKey ''a''] (GObj [(''a'', GObj [(''s'', GStr ''x'')])]) =
     Inr [GObj [(''s'', GStr ''x'')]]"
  using covers_exact_selects [of "[PathKey ''a'']" "[PathKey ''a'', PathKey ''s'']"
      "GObj [(''a'', GObj [(''s'', GStr ''x'')])]" "[GStr ''x'']"]
  by (simp add: Path_Covers_def covers_elem_def Path_Select_def Path_Validate_def selectFrom_def)

text \<open>A wildcard in the covering path breaks that promise. There is a credential from which the
  covered path \<open>["a", 0, "b"]\<close> selects, while the path that covers it, which is also what
  \<open>withIndicesWidened\<close> makes of it, fails on a sibling element of another type.\<close>

theorem widened_select_fails:
  "\<exists>p doc v. Path_Covers (withIndicesWidened p) p \<and> Path_Select p doc = Inr [v] \<and>
     Path_Select (withIndicesWidened p) doc = Inl (NotAnObject ''b'')"
proof (intro exI conjI)
  let ?p = "[PathKey ''a'', PathIndex 0, PathKey ''b'']"
  let ?d = "GObj [(''a'', GArr [GObj [(''b'', GBool True)], GStr ''x''])]"
  show "Path_Covers (withIndicesWidened ?p) ?p"
    by (simp add: Path_Covers_def withIndicesWidened_def covers_elem_def)
  show "Path_Select ?p ?d = Inr [GBool True]"
    by (simp add: Path_Select_def Path_Validate_def selectFrom_def)
  show "Path_Select (withIndicesWidened ?p) ?d = Inl (NotAnObject ''b'')"
    by (simp add: Path_Select_def Path_Validate_def selectFrom_def withIndicesWidened_def)
qed

text \<open>A path decoded from JSON encodes back to the JSON it came from, and \<open>Select\<close> never panics
  on it: the decoder refuses the negative index that would index an array out of range.\<close>

theorem decoded_path_roundtrip:
  assumes "UnmarshalPath ws = Inr p"
  shows "map MarshalJSON p = ws \<and> Path_Select p doc \<noteq> Inl (IndexPanic j)"
proof
  have elem: "MarshalJSON e = w \<and> index_ok e" if "UnmarshalJSON w = Inr e" for w e
    using that by (cases w) (auto simp: index_ok_def int64_range_def split: if_splits)
  have all: "map MarshalJSON p = ws \<and> (\<forall>e \<in> set p. index_ok e)"
    using assms
    by (induction ws arbitrary: p) (auto simp: rbind_Inr_iff rmap_Inr_iff dest!: elem)
  then show "map MarshalJSON p = ws" ..
  show "Path_Select p doc \<noteq> Inl (IndexPanic j)"
    using all select_steps_no_panic [of p "[doc]" j]
    by (auto simp: Path_Select_def Path_Validate_def index_ok_def)
qed

theorem decoded_path_roundtrip_witness:
  "map MarshalJSON [PathKey ''d'', PathIndex 1] = [WString ''d'', WInt 1] \<and>
   Path_Select [PathKey ''d'', PathIndex 1] (GArr []) \<noteq> Inl (IndexPanic 0)"
  by (rule decoded_path_roundtrip) (simp add: int64_range_def)

end
