(* ===== verification/Dcql_Query.thy ===== *)
theory Dcql_Query
  imports Dcql_Path
begin

text \<open>
  DCQL queries and their validation, \<open>src/dcql/query.go\<close>, with the format-specific \<open>meta\<close> of
  \<open>src/dcql/meta.go\<close> (\<open>SDJWTVCMeta\<close>, \<open>MdocMeta\<close>, \<open>validate\<close>) and the constructors of
  \<open>src/dcql/constructors.go\<close>. A slice whose nil-ness the code tests is an option; \<open>meta\<close>, a raw JSON
  message, is the outcome of decoding it. The lemmas show \<open>Query.Validate\<close> accepts exactly the
  well-formed queries of a declarative specification.
\<close>

section \<open>The query types\<close>

text \<open>A \<open>json.RawMessage\<close>: no bytes, bytes \<open>strictjson\<close> refuses, or the value they hold.\<close>

datatype raw_meta = MetaAbsent | MetaBad | MetaJSON goval

record claims_query =
  cl_ID :: string
  cl_Path :: path
  cl_Values :: "goval list option"
  cl_IntentToRetain :: "bool option"

record trusted_authorities_query =
  ta_Type :: string
  ta_Values :: "string list"

record credential_query =
  cq_ID :: string
  cq_Format :: string
  cq_Meta :: raw_meta
  cq_Multiple :: bool
  cq_TrustedAuthorities :: "trusted_authorities_query list"
  cq_RequireCryptographicHolderBinding :: "bool option"
  cq_Claims :: "claims_query list option"
  cq_ClaimSets :: "string list list option"

record credential_set_query =
  cs_Options :: "string list list"
  cs_Required :: "bool option"

record query =
  q_Credentials :: "credential_query list"
  q_CredentialSets :: "credential_set_query list"

text \<open>The elements of a slice that may be nil.\<close>

definition elems :: "'a list option \<Rightarrow> 'a list" where
  "elems xs = (case xs of None \<Rightarrow> [] | Some ys \<Rightarrow> ys)"

lemma elems_simps [simp]: "elems None = []" "elems (Some xs) = xs"
  by (simp_all add: elems_def)

datatype dcql_error =
    CredentialsEmpty
  | TooMany string nat nat
  | AtCredential nat dcql_error
  | AtCredentialSet nat dcql_error
  | AtField string nat dcql_error
  | BadID
  | DuplicateID string
  | FormatRequired
  | MetaRequired
  | MetaNotJSON
  | MetaNotObject
  | MetaType
  | MetaCase string
  | VctEmpty
  | VctTooMany nat
  | VctBlank
  | DoctypeRequired
  | PresentButEmpty string
  | ClaimIDRequired
  | BadClaimID
  | BadPath path_error
  | ValueKind nat
  | IntentToRetainFormat
  | MdocPathForm
  | DuplicatePath
  | SetEmpty
  | UnknownRef string
  | RefTwice string
  | TypeRequired
  | ValuesRequired

definition MaxCredentialQueries :: nat where "MaxCredentialQueries = 64"
definition MaxCredentialSets :: nat where "MaxCredentialSets = 64"
definition MaxCredentialSetOptions :: nat where "MaxCredentialSetOptions = 64"
definition MaxClaimsPerCredential :: nat where "MaxClaimsPerCredential = 256"
definition MaxClaimSets :: nat where "MaxClaimSets = 64"
definition MaxValuesPerClaim :: nat where "MaxValuesPerClaim = 64"
definition MaxPathLength :: nat where "MaxPathLength = 32"
definition MaxTrustedAuthorities :: nat where "MaxTrustedAuthorities = 16"
definition MaxTrustedAuthorityValues :: nat where "MaxTrustedAuthorityValues = 64"
definition MaxVCTValues :: nat where "MaxVCTValues = 64"

lemmas max_defs = MaxCredentialQueries_def MaxCredentialSets_def MaxCredentialSetOptions_def
  MaxClaimsPerCredential_def MaxClaimSets_def MaxValuesPerClaim_def MaxPathLength_def
  MaxTrustedAuthorities_def MaxTrustedAuthorityValues_def MaxVCTValues_def

definition at_most :: "string \<Rightarrow> 'a list \<Rightarrow> nat \<Rightarrow> dcql_error option" where
  "at_most what xs n = (if length xs > n then Some (TooMany what (length xs) n) else None)"

lemma at_most_None [simp]: "at_most what xs n = None \<longleftrightarrow> length xs \<le> n"
  by (simp add: at_most_def)

section \<open>Identifiers\<close>

definition id_chars :: string where
  "id_chars = ''ABCDEFGHIJKLMNOPQRSTUVWXYZabcdefghijklmnopqrstuvwxyz0123456789_-''"

definition idPattern :: "string \<Rightarrow> bool" where
  "idPattern s = (s \<noteq> [] \<and> list_all (\<lambda>c. c \<in> set id_chars) s)"

section \<open>Meta\<close>

text \<open>\<open>strictjson\<close>'s check that no member names the field in another case.\<close>

definition case_clash :: "string \<Rightarrow> (string \<times> goval) list \<Rightarrow> string option" where
  "case_clash name kvs =
     map_option fst (List.find (\<lambda>(k, _). k \<noteq> name \<and> EqualFold k name) kvs)"

text \<open>Decoding a JSON value into a Go \<open>string\<close> or \<open>[]string\<close>: null leaves the zero value.\<close>

fun dec_string :: "goval \<Rightarrow> dcql_error + string" where
  "dec_string (GStr s) = Inr s"
| "dec_string GNil = Inr []"
| "dec_string _ = Inl MetaType"

fun dec_strings :: "goval list \<Rightarrow> dcql_error + string list" where
  "dec_strings [] = Inr []"
| "dec_strings (v # vs) = rbind (dec_string v) (\<lambda>s. rmap (\<lambda>ss. s # ss) (dec_strings vs))"

fun dec_string_slice :: "goval \<Rightarrow> dcql_error + string list" where
  "dec_string_slice (GArr vs) = dec_strings vs"
| "dec_string_slice GNil = Inr []"
| "dec_string_slice _ = Inl MetaType"

definition dec_field :: "string \<Rightarrow> 'a \<Rightarrow> (goval \<Rightarrow> dcql_error + 'a) \<Rightarrow> raw_meta \<Rightarrow> dcql_error + 'a" where
  "dec_field name zero dec m =
     (case m of
        MetaAbsent \<Rightarrow> Inl MetaNotJSON
      | MetaBad \<Rightarrow> Inl MetaNotJSON
      | MetaJSON (GObj kvs) \<Rightarrow>
          (case case_clash name kvs of
             Some k \<Rightarrow> Inl (MetaCase k)
           | None \<Rightarrow> (case gm_get kvs name of None \<Rightarrow> Inr zero | Some v \<Rightarrow> dec v))
      | MetaJSON GNil \<Rightarrow> Inr zero
      | MetaJSON _ \<Rightarrow> Inl MetaType)"

text \<open>\<open>SDJWTVCMeta\<close> is its \<open>vct_values\<close>, \<open>MdocMeta\<close> its \<open>doctype_value\<close>.\<close>

definition SDJWTVCMeta :: "credential_query \<Rightarrow> dcql_error + string list" where
  "SDJWTVCMeta c = dec_field ''vct_values'' [] dec_string_slice (cq_Meta c)"

definition MdocMeta :: "credential_query \<Rightarrow> dcql_error + string" where
  "MdocMeta c = dec_field ''doctype_value'' [] dec_string (cq_Meta c)"

definition SDJWTVCMeta_validate :: "string list \<Rightarrow> dcql_error option" where
  "SDJWTVCMeta_validate vcts =
     (if length vcts = 0 then Some VctEmpty
      else if length vcts > MaxVCTValues then Some (VctTooMany (length vcts))
      else if \<exists>v \<in> set vcts. v = [] then Some VctBlank
      else None)"

definition formatSDJWTVC :: string where "formatSDJWTVC = ''dc+sd-jwt''"
definition formatMdoc :: string where "formatMdoc = ''mso_mdoc''"

definition validateMeta :: "credential_query \<Rightarrow> dcql_error option" where
  "validateMeta c =
     (case cq_Meta c of
        MetaAbsent \<Rightarrow> Some MetaRequired
      | MetaBad \<Rightarrow> Some MetaNotJSON
      | MetaJSON probe \<Rightarrow>
          (if as_obj probe = None then Some MetaNotObject
           else if cq_Format c = formatSDJWTVC then
             (case SDJWTVCMeta c of Inl e \<Rightarrow> Some e | Inr vcts \<Rightarrow> SDJWTVCMeta_validate vcts)
           else if cq_Format c = formatMdoc then
             (case MdocMeta c of
                Inl e \<Rightarrow> Some e
              | Inr doctype \<Rightarrow> require (doctype \<noteq> []) DoctypeRequired)
           else None))"

section \<open>Claims\<close>

text \<open>\<open>json.Number.Int64\<close>: an optional sign and decimal digits, within 64 bits.\<close>

fun digits_val :: "string \<Rightarrow> int \<Rightarrow> int option" where
  "digits_val [] acc = Some acc"
| "digits_val (c # cs) acc =
     (if 48 \<le> (of_char c :: int) \<and> (of_char c :: int) \<le> 57
      then digits_val cs (10 * acc + (of_char c - 48)) else None)"

definition parse_int64 :: "string \<Rightarrow> int option" where
  "parse_int64 s =
     (let (neg, ds) = (case s of
            c # r \<Rightarrow> (if c = CHR ''-'' then (True, r) else if c = CHR ''+'' then (False, r) else (False, s))
          | [] \<Rightarrow> (False, []))
      in if ds = [] then None
         else (case digits_val ds 0 of
             None \<Rightarrow> None
           | Some n \<Rightarrow> (let i = (if neg then - n else n) in if int64_range i then Some i else None)))"

fun isValuesElement :: "goval \<Rightarrow> bool" where
  "isValuesElement (GStr s) = True"
| "isValuesElement (GBool b) = True"
| "isValuesElement (GInt i) = True"
| "isValuesElement (GFloat (Finite r)) = (r = of_int \<lfloor>r\<rfloor>)"
| "isValuesElement (GFloat _) = False"
| "isValuesElement (GNumber s) = (parse_int64 s \<noteq> None)"
| "isValuesElement _ = False"

definition ClaimsQuery_Validate :: "bool \<Rightarrow> claims_query \<Rightarrow> dcql_error option" where
  "ClaimsQuery_Validate requireID c =
     (if requireID \<and> cl_ID c = [] then Some ClaimIDRequired
      else if cl_ID c \<noteq> [] \<and> \<not> idPattern (cl_ID c) then Some BadClaimID
      else case Path_Validate (cl_Path c) of
        Some e \<Rightarrow> Some (BadPath e)
      | None \<Rightarrow>
          (if cl_Values c = Some [] then Some (PresentButEmpty ''values'')
           else first_err (\<lambda>i v. require (isValuesElement v) (ValueKind i)) 0 (elems (cl_Values c))))"

definition validateClaimFormat :: "credential_query \<Rightarrow> claims_query \<Rightarrow> dcql_error option" where
  "validateClaimFormat c cl =
     (if cq_Format c \<noteq> ''mso_mdoc'' then
        (if cl_IntentToRetain cl \<noteq> None then Some IntentToRetainFormat else None)
      else if length (cl_Path cl) \<noteq> 2 \<or> \<not> IsKey (cl_Path cl ! 0) \<or> \<not> IsKey (cl_Path cl ! 1)
      then Some MdocPathForm
      else None)"

text \<open>
  The loop of \<open>validateClaims\<close>, with the ids and the encoded paths seen so far; \<open>json.Marshal\<close> of a
  path is the list of its elements' JSON forms.
\<close>

fun validate_claims_loop ::
  "credential_query \<Rightarrow> bool \<Rightarrow> nat \<Rightarrow> string list \<Rightarrow> jwire list list \<Rightarrow> claims_query list
     \<Rightarrow> dcql_error + string list" where
  "validate_claims_loop c req i ids paths [] = Inr ids"
| "validate_claims_loop c req i ids paths (cl # cls) =
     (case and_then (ClaimsQuery_Validate req cl) (validateClaimFormat c cl) of
        Some e \<Rightarrow> Inl (AtField ''claims'' i e)
      | None \<Rightarrow>
          (if cl_ID cl \<noteq> [] \<and> cl_ID cl \<in> set ids
           then Inl (AtField ''claims'' i (DuplicateID (cl_ID cl)))
           else if map MarshalJSON (cl_Path cl) \<in> set paths
           then Inl (AtField ''claims'' i DuplicatePath)
           else validate_claims_loop c req (Suc i)
             (if cl_ID cl \<noteq> [] then cl_ID cl # ids else ids)
             (map MarshalJSON (cl_Path cl) # paths) cls))"

definition validateClaims :: "credential_query \<Rightarrow> dcql_error + string list" where
  "validateClaims c =
     (if cq_Claims c = Some [] then Inl (PresentButEmpty ''claims'')
      else if cq_ClaimSets c = Some [] then Inl (PresentButEmpty ''claim_sets'')
      else validate_claims_loop c (length (elems (cq_ClaimSets c)) > 0) 0 [] [] (elems (cq_Claims c)))"

text \<open>A list of references: each known, none listed before. Both kinds of set are checked so.\<close>

definition check_refs :: "string list \<Rightarrow> string list \<Rightarrow> dcql_error option" where
  "check_refs known refs =
     (if length refs = 0 then Some SetEmpty
      else first_err (\<lambda>j ref.
        if ref \<notin> set known then Some (UnknownRef ref)
        else if ref \<in> set (take j refs) then Some (RefTwice ref)
        else None) 0 refs)"

definition validateClaimSets :: "credential_query \<Rightarrow> string list \<Rightarrow> dcql_error option" where
  "validateClaimSets c claimIDs =
     first_err (\<lambda>i refs. map_option (AtField ''claim_sets'' i) (check_refs claimIDs refs)) 0
       (elems (cq_ClaimSets c))"

definition TrustedAuthoritiesQuery_Validate :: "trusted_authorities_query \<Rightarrow> dcql_error option" where
  "TrustedAuthoritiesQuery_Validate t =
     (if ta_Type t = [] then Some TypeRequired
      else if length (ta_Values t) = 0 then Some ValuesRequired
      else None)"

definition validateTrustedAuthorities :: "credential_query \<Rightarrow> dcql_error option" where
  "validateTrustedAuthorities c =
     first_err (\<lambda>i ta. map_option (AtField ''trusted_authorities'' i)
       (TrustedAuthoritiesQuery_Validate ta)) 0 (cq_TrustedAuthorities c)"

definition CredentialQuery_Validate :: "credential_query \<Rightarrow> dcql_error option" where
  "CredentialQuery_Validate c =
     (if cq_ID c = [] \<or> \<not> idPattern (cq_ID c) then Some BadID
      else if cq_Format c = [] then Some FormatRequired
      else case validateMeta c of
        Some e \<Rightarrow> Some e
      | None \<Rightarrow>
          (case validateClaims c of
             Inl e \<Rightarrow> Some e
           | Inr claimIDs \<Rightarrow>
               and_then (validateClaimSets c claimIDs) (validateTrustedAuthorities c)))"

definition RequiresCryptographicHolderBinding :: "credential_query \<Rightarrow> bool" where
  "RequiresCryptographicHolderBinding c =
     (case cq_RequireCryptographicHolderBinding c of None \<Rightarrow> True | Some b \<Rightarrow> b)"

section \<open>Sizes\<close>

definition checkNestedSize :: "credential_query \<Rightarrow> dcql_error option" where
  "checkNestedSize cq =
     and_then (first_err (\<lambda>j st. map_option (AtField ''claim_sets'' j)
         (at_most ''claims'' st MaxClaimsPerCredential)) 0 (elems (cq_ClaimSets cq)))
    (and_then (first_err (\<lambda>j ta. map_option (AtField ''trusted_authorities'' j)
         (at_most ''values'' (ta_Values ta) MaxTrustedAuthorityValues)) 0 (cq_TrustedAuthorities cq))
       (first_err (\<lambda>j c. map_option (AtField ''claims'' j)
         (and_then (at_most ''values'' (elems (cl_Values c)) MaxValuesPerClaim)
            (at_most ''path'' (cl_Path c) MaxPathLength))) 0 (elems (cq_Claims cq))))"

definition checkSize :: "query \<Rightarrow> dcql_error option" where
  "checkSize q =
     and_then (at_most ''credentials'' (q_Credentials q) MaxCredentialQueries)
    (and_then (at_most ''credential_sets'' (q_CredentialSets q) MaxCredentialSets)
    (and_then (first_err (\<lambda>i cs. map_option (AtCredentialSet i)
         (at_most ''options'' (cs_Options cs) MaxCredentialSetOptions)) 0 (q_CredentialSets q))
       (first_err (\<lambda>i cq. map_option (AtCredential i)
         (and_then (at_most ''claims'' (elems (cq_Claims cq)) MaxClaimsPerCredential)
         (and_then (at_most ''claim_sets'' (elems (cq_ClaimSets cq)) MaxClaimSets)
         (and_then (at_most ''trusted_authorities'' (cq_TrustedAuthorities cq) MaxTrustedAuthorities)
            (checkNestedSize cq))))) 0 (q_Credentials q))))"

section \<open>Credential sets and the whole query\<close>

definition IsRequired :: "credential_set_query \<Rightarrow> bool" where
  "IsRequired c = (case cs_Required c of None \<Rightarrow> True | Some b \<Rightarrow> b)"

definition CredentialSetQuery_Validate :: "string list \<Rightarrow> credential_set_query \<Rightarrow> dcql_error option" where
  "CredentialSetQuery_Validate knownIDs c =
     (if length (cs_Options c) = 0 then Some ValuesRequired
      else first_err (\<lambda>i opt. map_option (AtField ''options'' i) (check_refs knownIDs opt)) 0
        (cs_Options c))"

fun validate_credentials :: "nat \<Rightarrow> string list \<Rightarrow> credential_query list \<Rightarrow> dcql_error + string list" where
  "validate_credentials i ids [] = Inr ids"
| "validate_credentials i ids (cq # cqs) =
     (case CredentialQuery_Validate cq of
        Some e \<Rightarrow> Inl (AtCredential i e)
      | None \<Rightarrow>
          (if cq_ID cq \<in> set ids then Inl (AtCredential i (DuplicateID (cq_ID cq)))
           else validate_credentials (Suc i) (cq_ID cq # ids) cqs))"

definition Query_Validate :: "query \<Rightarrow> dcql_error option" where
  "Query_Validate q =
     (if length (q_Credentials q) = 0 then Some CredentialsEmpty
      else case checkSize q of
        Some e \<Rightarrow> Some e
      | None \<Rightarrow>
          (case validate_credentials 0 [] (q_Credentials q) of
             Inl e \<Rightarrow> Some e
           | Inr ids \<Rightarrow>
               first_err (\<lambda>i cs. map_option (AtCredentialSet i) (CredentialSetQuery_Validate ids cs)) 0
                 (q_CredentialSets q)))"

section \<open>Constructors\<close>

definition KeyPath :: "string list \<Rightarrow> path" where
  "KeyPath keys = map PathKey keys"

definition newCredentialQuery :: "string \<Rightarrow> string \<Rightarrow> goval \<Rightarrow> path list \<Rightarrow> credential_query" where
  "newCredentialQuery i f meta claims =
     \<lparr> cq_ID = i, cq_Format = f, cq_Meta = MetaJSON meta, cq_Multiple = False,
       cq_TrustedAuthorities = [], cq_RequireCryptographicHolderBinding = None,
       cq_Claims = (if claims = [] then None
          else Some (map (\<lambda>p. \<lparr> cl_ID = [], cl_Path = p, cl_Values = None, cl_IntentToRetain = None \<rparr>) claims)),
       cq_ClaimSets = None \<rparr>"

definition SDJWTVCQuery :: "string \<Rightarrow> string \<Rightarrow> path list \<Rightarrow> credential_query" where
  "SDJWTVCQuery i vct claims =
     newCredentialQuery i formatSDJWTVC (GObj [(''vct_values'', GArr [GStr vct])]) claims"

definition MdocQuery :: "string \<Rightarrow> string \<Rightarrow> path list \<Rightarrow> credential_query" where
  "MdocQuery i docType claims =
     newCredentialQuery i formatMdoc (GObj [(''doctype_value'', GStr docType)]) claims"

section \<open>What a valid query is\<close>

definition refs_wf :: "string list \<Rightarrow> string list \<Rightarrow> bool" where
  "refs_wf known refs \<longleftrightarrow> refs \<noteq> [] \<and> set refs \<subseteq> set known \<and> distinct refs"

definition claim_wf :: "credential_query \<Rightarrow> claims_query \<Rightarrow> bool" where
  "claim_wf c cl \<longleftrightarrow>
     (elems (cq_ClaimSets c) \<noteq> [] \<longrightarrow> cl_ID cl \<noteq> []) \<and>
     (cl_ID cl \<noteq> [] \<longrightarrow> idPattern (cl_ID cl)) \<and>
     cl_Path cl \<noteq> [] \<and> cl_Values cl \<noteq> Some [] \<and>
     (\<forall>v \<in> set (elems (cl_Values cl)). isValuesElement v) \<and>
     (if cq_Format c = ''mso_mdoc'' then \<exists>n e. cl_Path cl = [PathKey n, PathKey e]
      else cl_IntentToRetain cl = None)"

definition claim_ids :: "claims_query list \<Rightarrow> string list" where
  "claim_ids cls = filter (\<lambda>s. s \<noteq> []) (map cl_ID cls)"

definition meta_wf :: "credential_query \<Rightarrow> bool" where
  "meta_wf c \<longleftrightarrow>
     (\<exists>kvs. cq_Meta c = MetaJSON (GObj kvs)) \<and>
     (cq_Format c = formatSDJWTVC \<longrightarrow>
        (\<exists>vcts. SDJWTVCMeta c = Inr vcts \<and> vcts \<noteq> [] \<and> length vcts \<le> MaxVCTValues \<and> [] \<notin> set vcts)) \<and>
     (cq_Format c = formatMdoc \<longrightarrow> (\<exists>d. MdocMeta c = Inr d \<and> d \<noteq> []))"

definition credential_wf :: "credential_query \<Rightarrow> bool" where
  "credential_wf c \<longleftrightarrow>
     idPattern (cq_ID c) \<and> cq_Format c \<noteq> [] \<and> meta_wf c \<and>
     cq_Claims c \<noteq> Some [] \<and> cq_ClaimSets c \<noteq> Some [] \<and>
     (\<forall>cl \<in> set (elems (cq_Claims c)). claim_wf c cl) \<and>
     distinct (claim_ids (elems (cq_Claims c))) \<and>
     distinct (map cl_Path (elems (cq_Claims c))) \<and>
     (\<forall>refs \<in> set (elems (cq_ClaimSets c)). refs_wf (claim_ids (elems (cq_Claims c))) refs) \<and>
     (\<forall>ta \<in> set (cq_TrustedAuthorities c). ta_Type ta \<noteq> [] \<and> ta_Values ta \<noteq> [])"

definition credential_sized :: "credential_query \<Rightarrow> bool" where
  "credential_sized c \<longleftrightarrow>
     length (elems (cq_Claims c)) \<le> 256 \<and> length (elems (cq_ClaimSets c)) \<le> 64 \<and>
     length (cq_TrustedAuthorities c) \<le> 16 \<and>
     (\<forall>st \<in> set (elems (cq_ClaimSets c)). length st \<le> 256) \<and>
     (\<forall>ta \<in> set (cq_TrustedAuthorities c). length (ta_Values ta) \<le> 64) \<and>
     (\<forall>cl \<in> set (elems (cq_Claims c)). length (elems (cl_Values cl)) \<le> 64 \<and> length (cl_Path cl) \<le> 32)"

definition query_wf :: "query \<Rightarrow> bool" where
  "query_wf q \<longleftrightarrow>
     q_Credentials q \<noteq> [] \<and> length (q_Credentials q) \<le> 64 \<and> length (q_CredentialSets q) \<le> 64 \<and>
     (\<forall>c \<in> set (q_Credentials q). credential_wf c \<and> credential_sized c) \<and>
     distinct (map cq_ID (q_Credentials q)) \<and>
     (\<forall>cs \<in> set (q_CredentialSets q).
        cs_Options cs \<noteq> [] \<and> length (cs_Options cs) \<le> 64 \<and>
        (\<forall>opt \<in> set (cs_Options cs). refs_wf (map cq_ID (q_Credentials q)) opt))"

subsection \<open>The checks against it\<close>

lemma distinct_take_iff: "(\<forall>j < length xs. xs ! j \<notin> set (take j xs)) \<longleftrightarrow> distinct xs"
proof (induction xs rule: rev_induct)
  case (snoc x xs)
  have "(\<forall>j < length (xs @ [x]). (xs @ [x]) ! j \<notin> set (take j (xs @ [x]))) \<longleftrightarrow>
      (\<forall>j < length xs. xs ! j \<notin> set (take j xs)) \<and> x \<notin> set xs"
    by (auto simp: All_less_Suc nth_append)
  with snoc show ?case by simp
qed simp

lemma check_refs_None: "check_refs known refs = None \<longleftrightarrow> refs_wf known refs"
proof -
  have "first_err (\<lambda>j ref. if ref \<notin> set known then Some (UnknownRef ref)
        else if ref \<in> set (take j refs) then Some (RefTwice ref) else None) 0 refs = None \<longleftrightarrow>
      (\<forall>j < length refs. refs ! j \<in> set known) \<and> (\<forall>j < length refs. refs ! j \<notin> set (take j refs))"
    unfolding first_err_None_iff by auto
  also have "\<dots> \<longleftrightarrow> set refs \<subseteq> set known \<and> distinct refs"
    unfolding distinct_take_iff by (auto simp: in_set_conv_nth subset_iff)
  finally show ?thesis by (auto simp: check_refs_def refs_wf_def)
qed

lemma MarshalJSON_inj: "inj MarshalJSON"
proof (rule injI)
  show "a = b" if "MarshalJSON a = MarshalJSON b" for a b
    using that by (cases a; cases b) auto
qed

lemma validate_claims_loop_iff:
  "validate_claims_loop c req i ids paths cls = Inr out \<longleftrightarrow>
     (\<forall>cl \<in> set cls. ClaimsQuery_Validate req cl = None \<and> validateClaimFormat c cl = None) \<and>
     distinct (claim_ids cls) \<and> set (claim_ids cls) \<inter> set ids = {} \<and>
     distinct (map cl_Path cls) \<and> (\<lambda>cl. map MarshalJSON (cl_Path cl)) ` set cls \<inter> set paths = {} \<and>
     out = rev (claim_ids cls) @ ids"
proof (induction cls arbitrary: i ids paths)
  case (Cons cl cls)
  have inj: "map MarshalJSON p = map MarshalJSON r \<longleftrightarrow> p = r" for p r
    using MarshalJSON_inj by (simp add: inj_map_eq_map)
  show ?case
    by (auto simp: Cons.IH claim_ids_def inj image_iff split: option.splits)
qed (auto simp: claim_ids_def)

lemma claim_checks_None:
  "ClaimsQuery_Validate (length (elems (cq_ClaimSets c)) > 0) cl = None \<and> validateClaimFormat c cl = None
     \<longleftrightarrow> claim_wf c cl"
proof -
  have vals: "first_err (\<lambda>i v. require (isValuesElement v) (ValueKind i)) 0 vs = None \<longleftrightarrow>
      (\<forall>v \<in> set vs. isValuesElement v)" for vs
    by (rule first_err_label) simp
  show ?thesis
    unfolding ClaimsQuery_Validate_def validateClaimFormat_def claim_wf_def Path_Validate_def
    using key_pair_iff [of "cl_Path cl"] by (auto simp: vals)
qed

lemma validateMeta_None: "validateMeta c = None \<longleftrightarrow> meta_wf c"
proof -
  have *: "SDJWTVCMeta_validate vcts = None \<longleftrightarrow> vcts \<noteq> [] \<and> length vcts \<le> MaxVCTValues \<and> [] \<notin> set vcts" for vcts
    by (auto simp: SDJWTVCMeta_validate_def)
  show ?thesis
  proof (cases "cq_Meta c")
    case (MetaJSON v)
    then show ?thesis
      by (cases "as_obj v")
        (auto simp: validateMeta_def meta_wf_def * formatSDJWTVC_def formatMdoc_def split: sum.splits)
  qed (auto simp: validateMeta_def meta_wf_def)
qed

definition claims_wf :: "credential_query \<Rightarrow> bool" where
  "claims_wf c \<longleftrightarrow>
     cq_Claims c \<noteq> Some [] \<and> cq_ClaimSets c \<noteq> Some [] \<and>
     (\<forall>cl \<in> set (elems (cq_Claims c)). claim_wf c cl) \<and>
     distinct (claim_ids (elems (cq_Claims c))) \<and> distinct (map cl_Path (elems (cq_Claims c)))"

lemma validateClaims_iff:
  "validateClaims c = Inr ids \<longleftrightarrow> claims_wf c \<and> ids = rev (claim_ids (elems (cq_Claims c)))"
  unfolding validateClaims_def claims_wf_def claim_checks_None [symmetric]
  by (auto simp: validate_claims_loop_iff)

lemma refs_wf_rev [simp]: "refs_wf (rev ids) refs \<longleftrightarrow> refs_wf ids refs"
  by (simp add: refs_wf_def)

lemma validateClaimSets_None:
  "validateClaimSets c ids = None \<longleftrightarrow> (\<forall>refs \<in> set (elems (cq_ClaimSets c)). refs_wf ids refs)"
  unfolding validateClaimSets_def by (rule first_err_label) (simp add: check_refs_None)

lemma validateTrustedAuthorities_None:
  "validateTrustedAuthorities c = None \<longleftrightarrow>
     (\<forall>ta \<in> set (cq_TrustedAuthorities c). ta_Type ta \<noteq> [] \<and> ta_Values ta \<noteq> [])"
  unfolding validateTrustedAuthorities_def
  by (rule first_err_label) (simp add: TrustedAuthoritiesQuery_Validate_def)

lemma CredentialQuery_Validate_None: "CredentialQuery_Validate c = None \<longleftrightarrow> credential_wf c"
proof -
  have split: "credential_wf c \<longleftrightarrow>
      idPattern (cq_ID c) \<and> cq_Format c \<noteq> [] \<and> validateMeta c = None \<and> claims_wf c \<and>
      validateClaimSets c (rev (claim_ids (elems (cq_Claims c)))) = None \<and>
      validateTrustedAuthorities c = None"
    by (auto simp: credential_wf_def claims_wf_def validateMeta_None validateClaimSets_None
      validateTrustedAuthorities_None)
  show ?thesis
  proof (cases "claims_wf c")
    case True
    then have "validateClaims c = Inr (rev (claim_ids (elems (cq_Claims c))))"
      by (simp add: validateClaims_iff)
    with True show ?thesis
      unfolding split by (auto simp: CredentialQuery_Validate_def idPattern_def split: option.splits)
  next
    case False
    then obtain e where "validateClaims c = Inl e"
      by (cases "validateClaims c") (auto simp: validateClaims_iff)
    with False show ?thesis
      unfolding split by (auto simp: CredentialQuery_Validate_def split: option.splits)
  qed
qed

lemma checkSize_None:
  "checkSize q = None \<longleftrightarrow>
     length (q_Credentials q) \<le> 64 \<and> length (q_CredentialSets q) \<le> 64 \<and>
     (\<forall>cs \<in> set (q_CredentialSets q). length (cs_Options cs) \<le> 64) \<and>
     (\<forall>c \<in> set (q_Credentials q). credential_sized c)"
proof -
  have nested: "checkNestedSize c = None \<longleftrightarrow>
     (\<forall>st \<in> set (elems (cq_ClaimSets c)). length st \<le> 256) \<and>
     (\<forall>ta \<in> set (cq_TrustedAuthorities c). length (ta_Values ta) \<le> 64) \<and>
     (\<forall>cl \<in> set (elems (cq_Claims c)). length (elems (cl_Values cl)) \<le> 64 \<and> length (cl_Path cl) \<le> 32)" for c
    unfolding checkNestedSize_def and_then_None_iff max_defs
    by (subst (1 2 3) first_err_label; simp)
  show ?thesis
    unfolding checkSize_def and_then_None_iff max_defs credential_sized_def
    by (subst (1 2) first_err_label; simp add: nested)
qed

lemma validate_credentials_iff:
  "validate_credentials i ids cqs = Inr out \<longleftrightarrow>
     (\<forall>c \<in> set cqs. credential_wf c) \<and> distinct (map cq_ID cqs) \<and>
     cq_ID ` set cqs \<inter> set ids = {} \<and> out = rev (map cq_ID cqs) @ ids"
  by (induction cqs arbitrary: i ids)
    (auto simp: CredentialQuery_Validate_None [symmetric] split: option.splits)

lemma CredentialSetQuery_Validate_None:
  "CredentialSetQuery_Validate ids cs = None \<longleftrightarrow>
     cs_Options cs \<noteq> [] \<and> (\<forall>opt \<in> set (cs_Options cs). refs_wf ids opt)"
proof -
  have "first_err (\<lambda>i opt. map_option (AtField ''options'' i) (check_refs ids opt)) 0 (cs_Options cs) = None
      \<longleftrightarrow> (\<forall>opt \<in> set (cs_Options cs). refs_wf ids opt)"
    by (rule first_err_label) (simp add: check_refs_None)
  then show ?thesis by (simp add: CredentialSetQuery_Validate_def)
qed

lemma credential_sets_None:
  "first_err (\<lambda>i cs. map_option (AtCredentialSet i) (CredentialSetQuery_Validate ids cs)) 0 css = None \<longleftrightarrow>
     (\<forall>cs \<in> set css. cs_Options cs \<noteq> [] \<and> (\<forall>opt \<in> set (cs_Options cs). refs_wf ids opt))"
  by (rule first_err_label) (simp add: CredentialSetQuery_Validate_None)

lemma Query_Validate_wf: "Query_Validate q = None \<longleftrightarrow> query_wf q"
proof -
  show ?thesis
  proof (cases "validate_credentials 0 [] (q_Credentials q)")
    case (Inl e)
    then have "\<not> ((\<forall>c \<in> set (q_Credentials q). credential_wf c) \<and> distinct (map cq_ID (q_Credentials q)))"
      using validate_credentials_iff [of 0 "[]" "q_Credentials q"] by auto
    with Inl show ?thesis
      by (auto simp: Query_Validate_def query_wf_def split: option.splits)
  next
    case (Inr ids)
    then have "Query_Validate q = None \<longleftrightarrow> q_Credentials q \<noteq> [] \<and> checkSize q = None \<and>
        (\<forall>cs \<in> set (q_CredentialSets q). cs_Options cs \<noteq> [] \<and> (\<forall>opt \<in> set (cs_Options cs). refs_wf ids opt))"
      by (auto simp: Query_Validate_def credential_sets_None split: option.splits)
    moreover have "ids = rev (map cq_ID (q_Credentials q))" "\<forall>c \<in> set (q_Credentials q). credential_wf c"
      "distinct (map cq_ID (q_Credentials q))"
      using Inr validate_credentials_iff [of 0 "[]" "q_Credentials q" ids] by auto
    ultimately show ?thesis
      unfolding checkSize_None query_wf_def by auto
  qed
qed

section \<open>Properties\<close>

text \<open>C38: \<open>Query.Validate\<close> accepts exactly the well-formed queries: at least one credential query, every
  size within its bound, well-formed and distinct ids, a meta of the format's type, claims that are
  individually valid and mutually distinct in id and path, and claim sets and credential sets that
  are non-empty, name only what the query defines, and name nothing twice.\<close>

theorem query_validate_iff: "Query_Validate q = None \<longleftrightarrow> query_wf q"
  by (rule Query_Validate_wf)

text \<open>The query constructors build what validation accepts: \<open>SDJWTVCQuery\<close> with a well-formed id, a
  non-empty vct and distinct, non-empty paths within the size bounds is a valid query.\<close>

theorem sdjwt_query_valid:
  assumes "idPattern i" and "vct \<noteq> []" and "distinct claims" and "length claims \<le> 256"
    and "\<forall>p \<in> set claims. p \<noteq> [] \<and> length p \<le> 32"
  shows "Query_Validate \<lparr> q_Credentials = [SDJWTVCQuery i vct claims], q_CredentialSets = [] \<rparr> = None"
proof -
  let ?c = "SDJWTVCQuery i vct claims"
  have "meta_wf ?c"
    by (simp add: meta_wf_def SDJWTVCQuery_def newCredentialQuery_def SDJWTVCMeta_def dec_field_def
      case_clash_def formatSDJWTVC_def formatMdoc_def max_defs assms(2) [symmetric] assms(2))
  moreover have "map cl_Path (elems (cq_Claims ?c)) = claims" "claim_ids (elems (cq_Claims ?c)) = []"
    by (auto simp: SDJWTVCQuery_def newCredentialQuery_def claim_ids_def comp_def)
  moreover have "\<forall>cl \<in> set (elems (cq_Claims ?c)). claim_wf ?c cl"
    using assms by (auto simp: claim_wf_def SDJWTVCQuery_def newCredentialQuery_def formatSDJWTVC_def)
  ultimately have "credential_wf ?c"
    using assms by (simp add: credential_wf_def) (simp add: SDJWTVCQuery_def newCredentialQuery_def formatSDJWTVC_def)
  moreover have "credential_sized ?c"
    using assms by (auto simp: credential_sized_def SDJWTVCQuery_def newCredentialQuery_def)
  ultimately show ?thesis by (simp add: Query_Validate_wf query_wf_def)
qed

theorem sdjwt_query_valid_witness:
  "Query_Validate \<lparr> q_Credentials = [SDJWTVCQuery ''pid'' ''urn:eudi:pid:1'' [KeyPath [''given_name'']]],
     q_CredentialSets = [] \<rparr> = None"
  by (rule sdjwt_query_valid) (simp_all add: idPattern_def id_chars_def KeyPath_def)

end
