(* ===== verification/B64url.thy ===== *)
theory B64url
  imports Go_Prelude
begin

text \<open>
  \<open>src/internal/b64url/b64url.go\<close>: base64url as JOSE uses it, without padding, and of
  \<open>encoding/base64\<close> what it calls: \<open>RawURLEncoding.EncodeToString\<close>, and \<open>Strict\<close>'s decoder on
  strings of the alphabet. A byte is a natural number below 256. The properties say that each byte
  string has exactly one accepted encoding.
\<close>

definition b64url_alphabet :: string where
  "b64url_alphabet = ''ABCDEFGHIJKLMNOPQRSTUVWXYZabcdefghijklmnopqrstuvwxyz0123456789-_''"

definition b64url_char :: "nat \<Rightarrow> char" where
  "b64url_char n = b64url_alphabet ! (n mod 64)"

text \<open>\<open>base64.RawURLEncoding.EncodeToString\<close>: three bytes to four characters, no padding.\<close>

fun EncodeToString :: "nat list \<Rightarrow> string" where
  "EncodeToString [] = []"
| "EncodeToString [a] = [b64url_char (a div 4), b64url_char ((a mod 4) * 16)]"
| "EncodeToString [a, b] =
     [b64url_char (a div 4), b64url_char ((a mod 4) * 16 + b div 16), b64url_char ((b mod 16) * 4)]"
| "EncodeToString (a # b # c # r) =
     [b64url_char (a div 4), b64url_char ((a mod 4) * 16 + b div 16),
      b64url_char ((b mod 16) * 4 + c div 64), b64url_char (c mod 64)] @ EncodeToString r"

datatype b64_error = IllegalByte char nat | CorruptInput

definition isAlphabet :: "char \<Rightarrow> bool" where
  "isAlphabet c =
     (let n = of_char c :: nat in
      65 \<le> n \<and> n \<le> 90 \<or> 97 \<le> n \<and> n \<le> 122 \<or> 48 \<le> n \<and> n \<le> 57 \<or> c = CHR ''-'' \<or> c = CHR ''_'')"

definition b64_index :: "char \<Rightarrow> nat" where
  "b64_index c = length (takeWhile (\<lambda>a. a \<noteq> c) b64url_alphabet)"

text \<open>\<open>strict.DecodeString\<close> on the values of alphabet characters: the unused trailing bits must be zero,
  and one character alone is no byte.\<close>

fun strict_decode :: "nat list \<Rightarrow> b64_error + nat list" where
  "strict_decode [] = Inr []"
| "strict_decode [a] = Inl CorruptInput"
| "strict_decode [a, b] = (if b mod 16 \<noteq> 0 then Inl CorruptInput else Inr [a * 4 + b div 16])"
| "strict_decode [a, b, c] =
     (if c mod 4 \<noteq> 0 then Inl CorruptInput else Inr [a * 4 + b div 16, (b mod 16) * 16 + c div 4])"
| "strict_decode (a # b # c # d # r) =
     rmap (\<lambda>bs. [a * 4 + b div 16, (b mod 16) * 16 + c div 4, (c mod 4) * 64 + d] @ bs) (strict_decode r)"

fun illegal_byte :: "nat \<Rightarrow> string \<Rightarrow> b64_error option" where
  "illegal_byte i [] = None"
| "illegal_byte i (c # s) = (if \<not> isAlphabet c then Some (IllegalByte c i) else illegal_byte (Suc i) s)"

definition DecodeString :: "string \<Rightarrow> b64_error + nat list" where
  "DecodeString s =
     (case illegal_byte 0 s of
        Some e \<Rightarrow> Inl e
      | None \<Rightarrow> strict_decode (map b64_index s))"

text \<open>\<open>base64.RawURLEncoding.DecodeString\<close>, which other code calls directly: it passes over line breaks and ignores the unused
  trailing bits.\<close>

definition line_break :: "char \<Rightarrow> bool" where
  "line_break c = (c = CHR 0x0A \<or> c = CHR 0x0D)"

definition clear_tail :: "nat list \<Rightarrow> nat list" where
  "clear_tail xs =
     (if length xs mod 4 = 2 then butlast xs @ [last xs div 16 * 16]
      else if length xs mod 4 = 3 then butlast xs @ [last xs div 4 * 4]
      else xs)"

definition RawURLDecode :: "string \<Rightarrow> nat list option" where
  "RawURLDecode s =
     (let s = filter (\<lambda>c. \<not> line_break c) s in
      if list_all isAlphabet s then
        (case strict_decode (clear_tail (map b64_index s)) of Inl _ \<Rightarrow> None | Inr bs \<Rightarrow> Some bs)
      else None)"

section \<open>The alphabet\<close>

lemma length_alphabet: "length b64url_alphabet = 64"
  by (simp add: b64url_alphabet_def)

lemma distinct_alphabet: "distinct b64url_alphabet"
  by (simp add: b64url_alphabet_def)

lemma b64url_char_in: "b64url_char n \<in> set b64url_alphabet"
  by (simp add: b64url_char_def length_alphabet)

lemma alphabet_codes:
  "b64url_alphabet = map char_of ([65..<91] @ [97..<123] @ [48..<58] @ [45, 95 :: nat])"
  by (simp add: b64url_alphabet_def upt_rec char_of_def bit_0)

lemma char_of_eq: "n < 256 \<Longrightarrow> c = char_of n \<longleftrightarrow> of_char c = (n :: nat)"
  by (metis char_of_char of_char_of mod_less)

lemma isAlphabet_iff: "isAlphabet c \<longleftrightarrow> c \<in> set b64url_alphabet"
proof -
  have codes: "c \<in> set b64url_alphabet \<longleftrightarrow>
      of_char c \<in> set ([65..<91] @ [97..<123] @ [48..<58] @ [45, 95 :: nat])" (is "_ \<longleftrightarrow> of_char c \<in> ?codes")
  proof -
    have less: "\<forall>n \<in> ?codes. n < 256" by auto
    have "c \<in> set b64url_alphabet \<longleftrightarrow> (\<exists>n \<in> ?codes. c = char_of n)"
      unfolding alphabet_codes set_map by blast
    also have "\<dots> \<longleftrightarrow> (\<exists>n \<in> ?codes. of_char c = n)"
      using less char_of_eq by blast
    finally show ?thesis by blast
  qed
  have marks: "c = CHR ''-'' \<longleftrightarrow> of_char c = (45 :: nat)" "c = CHR ''_'' \<longleftrightarrow> of_char c = (95 :: nat)"
    using char_of_eq [of 45 c] char_of_eq [of 95 c] by (simp_all add: char_of_def bit_0)
  show ?thesis
    unfolding isAlphabet_def Let_def marks codes set_append set_upt by (simp del: of_char_eq_iff) linarith
qed

lemma length_takeWhile_neq: "c \<in> set xs \<Longrightarrow> length (takeWhile (\<lambda>a. a \<noteq> c) xs) < length xs"
  by (induction xs) auto

lemma b64_index_less: "c \<in> set b64url_alphabet \<Longrightarrow> b64_index c < 64"
  unfolding b64_index_def length_alphabet [symmetric] by (rule length_takeWhile_neq)

lemma b64_char_index: "c \<in> set b64url_alphabet \<Longrightarrow> b64url_char (b64_index c) = c"
proof -
  assume c: "c \<in> set b64url_alphabet"
  then have "length (takeWhile (\<lambda>a. a \<noteq> c) b64url_alphabet) < length b64url_alphabet"
    using b64_index_less by (simp add: b64_index_def length_alphabet)
  from nth_length_takeWhile [OF this] show ?thesis
    using b64_index_less [OF c] by (simp add: b64url_char_def b64_index_def)
qed

lemma b64_index_char: "b64_index (b64url_char n) = n mod 64"
proof -
  have "b64_index (b64url_char n) < 64" by (rule b64_index_less [OF b64url_char_in])
  moreover have "b64url_alphabet ! b64_index (b64url_char n) = b64url_alphabet ! (n mod 64)"
    using b64_char_index [OF b64url_char_in, of n] calculation by (simp add: b64url_char_def)
  ultimately show ?thesis
    using distinct_alphabet by (simp add: nth_eq_iff_index_eq length_alphabet)
qed

lemma illegal_byte_None: "illegal_byte i s = None \<longleftrightarrow> set s \<subseteq> set b64url_alphabet"
  by (induction s arbitrary: i) (auto simp: isAlphabet_iff)

lemma DecodeString_Inr:
  "DecodeString s = Inr bs \<longleftrightarrow> set s \<subseteq> set b64url_alphabet \<and> strict_decode (map b64_index s) = Inr bs"
  using illegal_byte_None [of 0 s] by (auto simp: DecodeString_def split: option.splits)

section \<open>Round trips\<close>

lemma EncodeToString_alphabet: "set (EncodeToString bs) \<subseteq> set b64url_alphabet"
  by (induction bs rule: EncodeToString.induct) (simp_all add: b64url_char_in)

lemma strict_decode_encode:
  "\<forall>b \<in> set bs. b < 256 \<Longrightarrow> strict_decode (map b64_index (EncodeToString bs)) = Inr bs"
proof (induction bs rule: EncodeToString.induct)
  case (2 a)
  then have "a div 4 < 64" by auto
  then show ?case by (simp add: b64_index_char)
next
  case (3 a b)
  then have "a div 4 < 64" "b div 16 < 16" by auto
  then show ?case by (simp add: b64_index_char)
next
  case (4 a b c r)
  then have "a div 4 < 64" "b div 16 < 16" "c div 64 < 4" by auto
  with 4 show ?case by (simp add: b64_index_char)
qed simp

text \<open>On the values of characters: decoding inverts to the same values.\<close>

fun encode_values :: "nat list \<Rightarrow> nat list" where
  "encode_values [] = []"
| "encode_values [a] = [a div 4, (a mod 4) * 16]"
| "encode_values [a, b] = [a div 4, (a mod 4) * 16 + b div 16, (b mod 16) * 4]"
| "encode_values (a # b # c # r) =
     [a div 4, (a mod 4) * 16 + b div 16, (b mod 16) * 4 + c div 64, c mod 64] @ encode_values r"

lemma EncodeToString_values: "EncodeToString bs = map b64url_char (encode_values bs)"
  by (induction bs rule: EncodeToString.induct) simp_all

lemma strict_decode_values:
  assumes "\<forall>v \<in> set vs. v < 64" and "strict_decode vs = Inr bs"
  shows "encode_values bs = vs \<and> (\<forall>b \<in> set bs. b < 256)"
  using assms
proof (induction vs arbitrary: bs rule: strict_decode.induct)
  case (3 a b)
  then show ?case by (auto split: if_splits)
next
  case (4 a b c)
  then show ?case by (auto split: if_splits)
next
  case (5 a b c d r)
  then obtain bs' where "strict_decode r = Inr bs'"
    "bs = [a * 4 + b div 16, (b mod 16) * 16 + c div 4, (c mod 4) * 64 + d] @ bs'"
    by (auto simp: rmap_Inr_iff)
  with 5 show ?case by auto
qed auto

section \<open>Properties\<close>

text \<open>Every byte string decodes back from its encoding.\<close>

theorem b64_decode_encode:
  assumes "\<forall>b \<in> set bs. b < 256"
  shows "DecodeString (EncodeToString bs) = Inr bs"
  using strict_decode_encode [OF assms] EncodeToString_alphabet by (simp add: DecodeString_Inr)

theorem b64_decode_encode_witness: "DecodeString (EncodeToString [251, 255, 1, 2]) = Inr [251, 255, 1, 2]"
  by (rule b64_decode_encode) simp

text \<open>A value has one accepted encoding: what decodes is a string of bytes whose encoding is the
  string decoded, so no line break, padding or stray trailing bit is ever accepted.\<close>

theorem b64_encode_decode:
  assumes "DecodeString s = Inr bs"
  shows "EncodeToString bs = s \<and> (\<forall>b \<in> set bs. b < 256)"
proof -
  from assms have s: "set s \<subseteq> set b64url_alphabet" "strict_decode (map b64_index s) = Inr bs"
    by (simp_all add: DecodeString_Inr)
  then have "encode_values bs = map b64_index s \<and> (\<forall>b \<in> set bs. b < 256)"
    by (intro strict_decode_values) (auto intro: b64_index_less)
  moreover from s(1) have "map b64url_char (map b64_index s) = s"
    by (induction s) (auto simp: b64_char_index)
  ultimately show ?thesis by (simp add: EncodeToString_values)
qed

theorem b64_encode_decode_witness: "EncodeToString [97] = ''YQ''"
  using b64_encode_decode [of "''YQ''" "[97]"]
  by (simp add: DecodeString_def isAlphabet_def b64_index_def b64url_alphabet_def)

end
