(* ===== verification/Dcql_Match.thy ===== *)
theory Dcql_Match
  imports B64url Dcql_Query
begin

text \<open>
  Matching a credential against a credential query: value filters (\<open>src/dcql/values.go\<close>) and claim
  selection (\<open>src/dcql/meta.go\<close>), for SD-JWT VC claims as the Wallet holds them, for what a Verifier
  receives, and for mdoc name spaces. The lemmas relate the memoised search over \<open>claim_sets\<close> to
  the first satisfiable option, and the Wallet's check to the Verifier's.

  \<open>ratOf\<close> stands for \<open>big.Rat.SetString\<close> on a \<open>json.Number\<close>'s text.
\<close>

section \<open>Values\<close>

fun jsonValue :: "goval \<Rightarrow> goval" where
  "jsonValue (GTag n content) = jsonValue content"
| "jsonValue (GTime t) = GStr t"
| "jsonValue (GBytes bs) = GStr (EncodeToString bs)"
| "jsonValue v = v"

fun number :: "(string \<Rightarrow> rat option) \<Rightarrow> goval \<Rightarrow> rat option" where
  "number ratOf (GInt i) = Some (of_int i)"
| "number ratOf (GFloat (Finite r)) = Some r"
| "number ratOf (GFloat _) = None"
| "number ratOf (GNumber s) = ratOf s"
| "number ratOf _ = None"

definition valueEquals :: "(string \<Rightarrow> rat option) \<Rightarrow> goval \<Rightarrow> goval \<Rightarrow> bool" where
  "valueEquals ratOf got want =
     (let got = jsonValue got in
      case want of
        GStr w \<Rightarrow> got = GStr w
      | GBool w \<Rightarrow> got = GBool w
      | _ \<Rightarrow>
          (case number ratOf want of
             None \<Rightarrow> False
           | Some wn \<Rightarrow> number ratOf got = Some wn))"

definition anyValueMatches :: "(string \<Rightarrow> rat option) \<Rightarrow> goval list \<Rightarrow> goval list \<Rightarrow> bool" where
  "anyValueMatches ratOf selected want =
     list_ex (\<lambda>got. list_ex (\<lambda>w. valueEquals ratOf got w) want) selected"

section \<open>Selecting claims\<close>

datatype match_error =
    MetaErr dcql_error
  | VctMismatch "string list"
  | DoctypeMismatch string
  | SelectErr path_error
  | NotMdocPath
  | NoNamespace string
  | NoElement string string
  | NotPresent path match_error
  | NoRequestedValue path
  | UnknownClaim string
  | ClaimErr string match_error
  | NoClaimSet "match_error option"

type_synonym presence = "path \<Rightarrow> match_error + goval list"

definition presentAt :: "(string \<Rightarrow> rat option) \<Rightarrow> presence \<Rightarrow> claims_query \<Rightarrow> match_error option" where
  "presentAt ratOf present cl =
     (case present (cl_Path cl) of
        Inl e \<Rightarrow> Some (NotPresent (cl_Path cl) e)
      | Inr selected \<Rightarrow>
          (if length (elems (cl_Values cl)) > 0 \<and> \<not> anyValueMatches ratOf selected (elems (cl_Values cl))
           then Some (NoRequestedValue (cl_Path cl)) else None))"

text \<open>\<open>byID\<close>: the claims by id, a later one replacing an earlier one of its id.\<close>

fun index_claims :: "claims_query list \<Rightarrow> (string, claims_query) gomap \<Rightarrow> (string, claims_query) gomap" where
  "index_claims [] byID = byID"
| "index_claims (cl # cls) byID = index_claims cls (gm_put (cl_ID cl) cl byID)"

text \<open>\<open>presentOnce\<close>: the check's outcome for a claim, kept in \<open>checked\<close> under the claim's id.\<close>

definition presentOnce ::
  "(claims_query \<Rightarrow> match_error option) \<Rightarrow> claims_query \<Rightarrow> (string, match_error option) gomap
     \<Rightarrow> match_error option \<times> (string, match_error option) gomap" where
  "presentOnce check cl checked =
     (case gm_get checked (cl_ID cl) of
        Some err \<Rightarrow> (err, checked)
      | None \<Rightarrow> (let err = check cl in (err, gm_put (cl_ID cl) err checked)))"

fun claimSetOptionPaths ::
  "(claims_query \<Rightarrow> match_error option) \<Rightarrow> (string, claims_query) gomap \<Rightarrow> string list
     \<Rightarrow> (string, match_error option) gomap
     \<Rightarrow> (match_error + path list) \<times> (string, match_error option) gomap" where
  "claimSetOptionPaths check byID [] checked = (Inr [], checked)"
| "claimSetOptionPaths check byID (i # ids) checked =
     (case gm_get byID i of
        None \<Rightarrow> (Inl (UnknownClaim i), checked)
      | Some cl \<Rightarrow>
          (case presentOnce check cl checked of
             (Some e, checked') \<Rightarrow> (Inl (ClaimErr i e), checked')
           | (None, checked') \<Rightarrow>
               (case claimSetOptionPaths check byID ids checked' of
                  (r, checked'') \<Rightarrow> (rmap (\<lambda>ps. cl_Path cl # ps) r, checked''))))"

fun try_options ::
  "(claims_query \<Rightarrow> match_error option) \<Rightarrow> (string, claims_query) gomap \<Rightarrow> match_error option
     \<Rightarrow> (string, match_error option) gomap \<Rightarrow> string list list \<Rightarrow> match_error + path list" where
  "try_options check byID lastErr checked [] = Inl (NoClaimSet lastErr)"
| "try_options check byID lastErr checked (option # options) =
     (case claimSetOptionPaths check byID option checked of
        (Inl e, checked') \<Rightarrow> try_options check byID (Some e) checked' options
      | (Inr paths, checked') \<Rightarrow> Inr paths)"

fun all_claim_paths :: "(claims_query \<Rightarrow> match_error option) \<Rightarrow> claims_query list \<Rightarrow> match_error + path list" where
  "all_claim_paths check [] = Inr []"
| "all_claim_paths check (cl # cls) =
     (case check cl of
        Some e \<Rightarrow> Inl e
      | None \<Rightarrow> rmap (\<lambda>ps. cl_Path cl # ps) (all_claim_paths check cls))"

definition selectedClaimPaths ::
  "(string \<Rightarrow> rat option) \<Rightarrow> credential_query \<Rightarrow> presence \<Rightarrow> match_error + path list" where
  "selectedClaimPaths ratOf c present =
     (if length (elems (cq_ClaimSets c)) = 0
      then all_claim_paths (presentAt ratOf present) (elems (cq_Claims c))
      else try_options (presentAt ratOf present) (index_claims (elems (cq_Claims c)) []) None []
        (elems (cq_ClaimSets c)))"

section \<open>The two formats\<close>

text \<open>A \<open>dc+sd-jwt\<close> credential's claims are a JSON object.\<close>

type_synonym claims = "(string \<times> goval) list"

fun non_empty_strings :: "goval list \<Rightarrow> string list" where
  "non_empty_strings [] = []"
| "non_empty_strings (t # ts) =
     (case as_str t of
        Some s \<Rightarrow> (if s \<noteq> [] then s # non_empty_strings ts else non_empty_strings ts)
      | None \<Rightarrow> non_empty_strings ts)"

definition credentialTypes :: "claims \<Rightarrow> string list" where
  "credentialTypes cs =
     (case Option.bind (gm_get cs ''vct'') as_str of
        Some vct \<Rightarrow> (if vct \<noteq> [] then [vct] else []) | None \<Rightarrow> []) @
     (case Option.bind (gm_get cs ''aka_vcts'') as_arr of
        Some aka \<Rightarrow> non_empty_strings aka | None \<Rightarrow> [])"

definition checkVCT :: "credential_query \<Rightarrow> claims \<Rightarrow> match_error option" where
  "checkVCT c cs =
     (case SDJWTVCMeta c of
        Inl e \<Rightarrow> Some (MetaErr e)
      | Inr vcts \<Rightarrow>
          (if length vcts > 0 \<and> \<not> list_ex (\<lambda>t. t \<in> set vcts) (credentialTypes cs)
           then Some (VctMismatch vcts) else None))"

definition select_in :: "claims \<Rightarrow> presence" where
  "select_in cs p = wrap_err SelectErr (Path_Select p (GObj cs))"

definition SelectedSDJWTVCClaimPaths ::
  "(string \<Rightarrow> rat option) \<Rightarrow> credential_query \<Rightarrow> claims \<Rightarrow> match_error + path list" where
  "SelectedSDJWTVCClaimPaths ratOf c cs =
     (case checkVCT c cs of
        Some e \<Rightarrow> Inl e
      | None \<Rightarrow> selectedClaimPaths ratOf c (select_in cs))"

definition SatisfiedBySDJWTVCClaims ::
  "(string \<Rightarrow> rat option) \<Rightarrow> credential_query \<Rightarrow> claims \<Rightarrow> match_error option" where
  "SatisfiedBySDJWTVCClaims ratOf c cs =
     (case SelectedSDJWTVCClaimPaths ratOf c cs of Inl e \<Rightarrow> Some e | Inr _ \<Rightarrow> None)"

definition SatisfiedBySDJWTVCPresentation ::
  "(string \<Rightarrow> rat option) \<Rightarrow> credential_query \<Rightarrow> claims \<Rightarrow> match_error option" where
  "SatisfiedBySDJWTVCPresentation ratOf c cs =
     (case checkVCT c cs of
        Some e \<Rightarrow> Some e
      | None \<Rightarrow>
          (case selectedClaimPaths ratOf c (\<lambda>p. select_in cs (withIndicesWidened p)) of
             Inl e \<Rightarrow> Some e | Inr _ \<Rightarrow> None))"

text \<open>An mdoc's disclosed name spaces: a map from name space to a map of elements.\<close>

type_synonym namespaces = "(string, (string, goval) gomap) gomap"

definition mdoc_present :: "namespaces \<Rightarrow> presence" where
  "mdoc_present nameSpaces p =
     (case MdocNamespaceAndElement p of
        None \<Rightarrow> Inl NotMdocPath
      | Some (namespace, element) \<Rightarrow>
          (case gm_get nameSpaces namespace of
             None \<Rightarrow> Inl (NoNamespace namespace)
           | Some elements \<Rightarrow>
               (case gm_get elements element of
                  None \<Rightarrow> Inl (NoElement namespace element)
                | Some value \<Rightarrow> Inr [value])))"

definition SelectedMdocClaimPaths ::
  "(string \<Rightarrow> rat option) \<Rightarrow> credential_query \<Rightarrow> string \<Rightarrow> namespaces \<Rightarrow> match_error + path list" where
  "SelectedMdocClaimPaths ratOf c docType nameSpaces =
     (case MdocMeta c of
        Inl e \<Rightarrow> Inl (MetaErr e)
      | Inr doctype \<Rightarrow>
          (if doctype \<noteq> [] \<and> docType \<noteq> doctype then Inl (DoctypeMismatch doctype)
           else selectedClaimPaths ratOf c (mdoc_present nameSpaces)))"

definition SatisfiedByMdocClaims ::
  "(string \<Rightarrow> rat option) \<Rightarrow> credential_query \<Rightarrow> string \<Rightarrow> namespaces \<Rightarrow> match_error option" where
  "SatisfiedByMdocClaims ratOf c docType nameSpaces =
     (case SelectedMdocClaimPaths ratOf c docType nameSpaces of Inl e \<Rightarrow> Some e | Inr _ \<Rightarrow> None)"

section \<open>The first satisfiable option\<close>

text \<open>The claim an id names: the last of that id.\<close>

definition claim_named :: "credential_query \<Rightarrow> string \<Rightarrow> claims_query option" where
  "claim_named c i = List.find (\<lambda>cl. cl_ID cl = i) (rev (elems (cq_Claims c)))"

text \<open>An option holds when each id it lists names a claim that passes the check.\<close>

definition option_holds ::
  "(claims_query \<Rightarrow> match_error option) \<Rightarrow> (string \<Rightarrow> claims_query option) \<Rightarrow> string list \<Rightarrow> bool" where
  "option_holds check named ids =
     (\<forall>i \<in> set ids. case named i of None \<Rightarrow> False | Some cl \<Rightarrow> check cl = None)"

definition option_paths :: "(string \<Rightarrow> claims_query option) \<Rightarrow> string list \<Rightarrow> path list" where
  "option_paths named ids = map (\<lambda>i. cl_Path (the (named i))) ids"

lemma find_append:
  "List.find P (xs @ ys) = (case List.find P xs of None \<Rightarrow> List.find P ys | Some x \<Rightarrow> Some x)"
  by (induction xs) auto

lemma index_claims_get:
  "gm_get (index_claims cls byID) i =
     (case List.find (\<lambda>cl. cl_ID cl = i) (rev cls) of None \<Rightarrow> gm_get byID i | Some cl \<Rightarrow> Some cl)"
proof (induction cls arbitrary: byID)
  case (Cons cl cls)
  show ?case by (simp add: Cons.IH find_append split: option.splits)
qed simp

lemma index_claims_named: "gm_get (index_claims (elems (cq_Claims c)) []) = claim_named c"
  by (rule ext) (simp add: index_claims_get claim_named_def split: option.splits)

lemma claim_named_ID: "claim_named c i = Some cl \<Longrightarrow> cl_ID cl = i \<and> cl \<in> set (elems (cq_Claims c))"
  by (auto simp: claim_named_def find_Some_iff) (metis length_rev nth_mem set_rev)

text \<open>What \<open>checked\<close> holds is what the check says of the claim with that id.\<close>

definition memo_ok ::
  "(claims_query \<Rightarrow> match_error option) \<Rightarrow> (string \<Rightarrow> claims_query option)
     \<Rightarrow> (string, match_error option) gomap \<Rightarrow> bool" where
  "memo_ok check named checked =
     (\<forall>i err. gm_get checked i = Some err \<longrightarrow> (\<exists>cl. named i = Some cl \<and> err = check cl))"

lemma presentOnce_memo:
  assumes "memo_ok check named checked" and "named i = Some cl" and "cl_ID cl = i"
  shows "\<exists>checked'. presentOnce check cl checked = (check cl, checked') \<and> memo_ok check named checked'"
proof (cases "gm_get checked (cl_ID cl)")
  case None
  with assms show ?thesis by (auto simp: presentOnce_def memo_ok_def Let_def)
next
  case (Some err)
  moreover from Some assms have "err = check cl" by (fastforce simp: memo_ok_def Let_def)
  ultimately show ?thesis using assms(1) by (simp add: presentOnce_def)
qed

lemma claimSetOptionPaths_memo:
  assumes "memo_ok check named checked" and "gm_get byID = named"
    and "\<And>i cl. named i = Some cl \<Longrightarrow> cl_ID cl = i"
  shows "\<exists>r checked'. claimSetOptionPaths check byID ids checked = (r, checked') \<and>
     memo_ok check named checked' \<and>
     (\<forall>ps. r = Inr ps \<longleftrightarrow> option_holds check named ids \<and> ps = option_paths named ids)"
  using assms(1)
proof (induction ids arbitrary: checked)
  case (Cons i ids)
  show ?case
  proof (cases "named i")
    case None
    with Cons.prems assms(2) show ?thesis by (simp add: option_holds_def)
  next
    case (Some cl)
    obtain checked' where once: "presentOnce check cl checked = (check cl, checked')"
      and "memo_ok check named checked'"
      using presentOnce_memo [OF Cons.prems Some assms(3) [OF Some]] by blast
    then obtain r checked'' where
      "claimSetOptionPaths check byID ids checked' = (r, checked'')" "memo_ok check named checked''"
      "\<forall>ps. r = Inr ps \<longleftrightarrow> option_holds check named ids \<and> ps = option_paths named ids"
      using Cons.IH by blast
    with Some once assms(2) \<open>memo_ok check named checked'\<close> show ?thesis
      by (cases "check cl") (auto simp: option_holds_def option_paths_def rmap_Inr_iff)
  qed
qed (auto simp: option_holds_def option_paths_def)

lemma try_options_memo:
  assumes "memo_ok check named checked" and "gm_get byID = named"
    and "\<And>i cl. named i = Some cl \<Longrightarrow> cl_ID cl = i"
  shows "try_options check byID lastErr checked opts = Inr ps \<longleftrightarrow>
     map_option (option_paths named) (List.find (option_holds check named) opts) = Some ps"
  using assms(1)
proof (induction opts arbitrary: checked lastErr)
  case (Cons opt opts)
  obtain r checked' where
    "claimSetOptionPaths check byID opt checked = (r, checked')" "memo_ok check named checked'"
    "\<forall>ps. r = Inr ps \<longleftrightarrow> option_holds check named opt \<and> ps = option_paths named opt"
    using claimSetOptionPaths_memo [OF Cons.prems assms(2,3)] by blast
  with Cons.IH show ?case by (cases r) auto
qed simp

lemma all_claim_paths_iff:
  "all_claim_paths check cls = Inr ps \<longleftrightarrow> (\<forall>cl \<in> set cls. check cl = None) \<and> ps = map cl_Path cls"
  by (induction cls arbitrary: ps) (auto simp: rmap_Inr_iff split: option.splits)

lemma selectedClaimPaths_iff:
  "selectedClaimPaths ratOf c present = Inr ps \<longleftrightarrow>
     (if elems (cq_ClaimSets c) = []
      then (\<forall>cl \<in> set (elems (cq_Claims c)). presentAt ratOf present cl = None) \<and>
        ps = map cl_Path (elems (cq_Claims c))
      else map_option (option_paths (claim_named c))
        (List.find (option_holds (presentAt ratOf present) (claim_named c)) (elems (cq_ClaimSets c))) = Some ps)"
proof -
  have "memo_ok (presentAt ratOf present) (claim_named c) []"
    by (simp add: memo_ok_def)
  from try_options_memo [OF this index_claims_named] claim_named_ID
  have "try_options (presentAt ratOf present) (index_claims (elems (cq_Claims c)) []) None []
      (elems (cq_ClaimSets c)) = Inr ps \<longleftrightarrow>
    map_option (option_paths (claim_named c))
      (List.find (option_holds (presentAt ratOf present) (claim_named c)) (elems (cq_ClaimSets c))) = Some ps"
    by blast
  then show ?thesis by (simp add: selectedClaimPaths_def all_claim_paths_iff)
qed

section \<open>The Wallet's check and the Verifier's\<close>

lemma anyValueMatches_mono:
  "anyValueMatches ratOf sel want \<Longrightarrow> set sel \<subseteq> set sel' \<Longrightarrow> anyValueMatches ratOf sel' want"
  by (auto simp: anyValueMatches_def list_ex_iff)

text \<open>One presence finds at least what another finds, at every path of a credential query.\<close>

definition presence_le :: "credential_query \<Rightarrow> presence \<Rightarrow> presence \<Rightarrow> bool" where
  "presence_le c pr pr' =
     (\<forall>cl \<in> set (elems (cq_Claims c)). \<forall>sel. pr (cl_Path cl) = Inr sel \<longrightarrow>
        (\<exists>sel'. pr' (cl_Path cl) = Inr sel' \<and> set sel \<subseteq> set sel'))"

lemma presentAt_le:
  assumes "presence_le c pr pr'" and "cl \<in> set (elems (cq_Claims c))" and "presentAt ratOf pr cl = None"
  shows "presentAt ratOf pr' cl = None"
proof -
  from assms(3) obtain sel where sel: "pr (cl_Path cl) = Inr sel"
    "elems (cl_Values cl) \<noteq> [] \<longrightarrow> anyValueMatches ratOf sel (elems (cl_Values cl))"
    by (auto simp: presentAt_def split: sum.splits if_splits)
  from assms(1,2) sel(1) obtain sel' where "pr' (cl_Path cl) = Inr sel'" "set sel \<subseteq> set sel'"
    unfolding presence_le_def by blast
  with sel(2) show ?thesis by (auto simp: presentAt_def dest: anyValueMatches_mono)
qed

lemma selectedClaimPaths_le:
  assumes "presence_le c pr pr'" and "is_ok (selectedClaimPaths ratOf c pr)"
  shows "is_ok (selectedClaimPaths ratOf c pr')"
proof (cases "elems (cq_ClaimSets c) = []")
  case True
  with assms show ?thesis
    by (auto simp: is_ok_iff selectedClaimPaths_iff intro: presentAt_le)
next
  case False
  have mono: "option_holds (presentAt ratOf pr') (claim_named c) ids"
    if "option_holds (presentAt ratOf pr) (claim_named c) ids" for ids
    using that assms(1)
    by (auto simp: option_holds_def split: option.splits dest: claim_named_ID intro: presentAt_le)
  from False assms(2) obtain ids where "ids \<in> set (elems (cq_ClaimSets c))"
    "option_holds (presentAt ratOf pr) (claim_named c) ids"
    by (auto simp: is_ok_iff selectedClaimPaths_iff find_Some_iff) (meson nth_mem)
  with mono have "List.find (option_holds (presentAt ratOf pr') (claim_named c)) (elems (cq_ClaimSets c)) \<noteq> None"
    by (auto simp: find_None_iff)
  with False show ?thesis by (auto simp: is_ok_iff selectedClaimPaths_iff)
qed

lemma SatisfiedBySDJWTVCClaims_None:
  "SatisfiedBySDJWTVCClaims ratOf c cs = None \<longleftrightarrow>
     checkVCT c cs = None \<and> is_ok (selectedClaimPaths ratOf c (select_in cs))"
  by (auto simp: SatisfiedBySDJWTVCClaims_def SelectedSDJWTVCClaimPaths_def is_ok_def
    split: option.splits sum.splits)

lemma SatisfiedBySDJWTVCPresentation_None:
  "SatisfiedBySDJWTVCPresentation ratOf c cs = None \<longleftrightarrow>
     checkVCT c cs = None \<and> is_ok (selectedClaimPaths ratOf c (\<lambda>p. select_in cs (withIndicesWidened p)))"
  by (auto simp: SatisfiedBySDJWTVCPresentation_def is_ok_def split: option.splits sum.splits)

lemma map_find_Some_iff:
  "map_option f (List.find P xs) = Some y \<longleftrightarrow>
     (\<exists>before x after. xs = before @ x # after \<and> (\<forall>z \<in> set before. \<not> P z) \<and> P x \<and> y = f x)"
proof
  assume "map_option f (List.find P xs) = Some y"
  then obtain x where "List.find P xs = Some x" "y = f x" by auto
  moreover from this(1) have "\<exists>before after. xs = before @ x # after \<and> (\<forall>z \<in> set before. \<not> P z) \<and> P x"
  proof (induction xs)
    case (Cons a xs)
    then show ?case
      by (cases "P a") (force intro: exI [of _ "[]"] exI [of _ "a # before" for before])+
  qed simp
  ultimately show "\<exists>before x after. xs = before @ x # after \<and> (\<forall>z \<in> set before. \<not> P z) \<and> P x \<and> y = f x"
    by blast
next
  assume "\<exists>before x after. xs = before @ x # after \<and> (\<forall>z \<in> set before. \<not> P z) \<and> P x \<and> y = f x"
  then obtain before x after where "xs = before @ x # after" "\<forall>z \<in> set before. \<not> P z" "P x" "y = f x"
    by blast
  moreover from this(2,3) have "List.find P (before @ x # after) = Some x" by (induction before) auto
  ultimately show "map_option f (List.find P xs) = Some y" by simp
qed

section \<open>Properties\<close>

text \<open>C39: What matching returns. Without claim sets it is every requested path, when each claim is
  there with one of its values; with claim sets it is the paths of the first option all of whose
  claims are. The search looks each claim up once and keeps the outcome by id; that memory never
  changes the result.\<close>

theorem selected_claim_paths:
  "selectedClaimPaths ratOf c present = Inr ps \<longleftrightarrow>
     (if elems (cq_ClaimSets c) = []
      then (\<forall>cl \<in> set (elems (cq_Claims c)). presentAt ratOf present cl = None) \<and>
        ps = map cl_Path (elems (cq_Claims c))
      else \<exists>before ids after. elems (cq_ClaimSets c) = before @ ids # after \<and>
        (\<forall>o' \<in> set before. \<not> option_holds (presentAt ratOf present) (claim_named c) o') \<and>
        option_holds (presentAt ratOf present) (claim_named c) ids \<and>
        ps = option_paths (claim_named c) ids)"
  by (simp only: selectedClaimPaths_iff map_find_Some_iff)

theorem selected_claim_paths_witness:
  "selectedClaimPaths (\<lambda>_. None)
     \<lparr> cq_ID = ''c'', cq_Format = ''dc+sd-jwt'', cq_Meta = MetaJSON (GObj []), cq_Multiple = False,
       cq_TrustedAuthorities = [], cq_RequireCryptographicHolderBinding = None,
       cq_Claims = Some
         [\<lparr> cl_ID = ''a'', cl_Path = [PathKey ''email''], cl_Values = None, cl_IntentToRetain = None \<rparr>,
          \<lparr> cl_ID = ''b'', cl_Path = [PathKey ''name''], cl_Values = Some [GStr ''Ann''], cl_IntentToRetain = None \<rparr>],
       cq_ClaimSets = Some [[''a''], [''b'']] \<rparr>
     (select_in [(''name'', GStr ''Ann'')]) = Inr [[PathKey ''name'']]"
  by (rule selected_claim_paths [THEN iffD2])
    (simp add: option_holds_def option_paths_def claim_named_def presentAt_def select_in_def
      Path_Select_def Path_Validate_def selectFrom_def anyValueMatches_def valueEquals_def
      exI [of _ "[[''a'']]"])

text \<open>The Verifier accepts what the Wallet judged to satisfy the query, on the same claims,
  whenever each requested path the Wallet could follow can also be followed with its array indices
  widened to wildcards.\<close>

theorem presentation_satisfies:
  assumes "SatisfiedBySDJWTVCClaims ratOf c cs = None"
    and "\<forall>cl \<in> set (elems (cq_Claims c)).
      is_ok (Path_Select (cl_Path cl) (GObj cs)) \<longrightarrow>
      is_ok (Path_Select (withIndicesWidened (cl_Path cl)) (GObj cs))"
  shows "SatisfiedBySDJWTVCPresentation ratOf c cs = None"
proof -
  have "presence_le c (select_in cs) (\<lambda>p. select_in cs (withIndicesWidened p))"
    unfolding presence_le_def
  proof (intro ballI allI impI)
    fix cl sel
    assume cl: "cl \<in> set (elems (cq_Claims c))" and "select_in cs (cl_Path cl) = Inr sel"
    then have sel: "Path_Select (cl_Path cl) (GObj cs) = Inr sel" by (simp add: select_in_def)
    with assms(2) cl obtain sel' where
      sel': "Path_Select (withIndicesWidened (cl_Path cl)) (GObj cs) = Inr sel'"
      by (fastforce simp: is_ok_iff)
    with sel have "set sel \<subseteq> set sel'"
      using values_at_cover [OF covers_widened] by (simp add: Path_Select_iff)
    with sel' show "\<exists>sel'. select_in cs (withIndicesWidened (cl_Path cl)) = Inr sel' \<and> set sel \<subseteq> set sel'"
      by (simp add: select_in_def)
  qed
  with assms(1) show ?thesis
    by (auto simp: SatisfiedBySDJWTVCClaims_None SatisfiedBySDJWTVCPresentation_None
      intro: selectedClaimPaths_le)
qed

theorem presentation_satisfies_witness:
  "SatisfiedBySDJWTVCPresentation (\<lambda>_. None) (SDJWTVCQuery ''q'' ''v'' [[PathKey ''d'', PathIndex 0]])
     [(''vct'', GStr ''v''), (''d'', GArr [GStr ''BSc'', GStr ''MSc''])] = None"
  by (rule presentation_satisfies)
    (simp_all add: SatisfiedBySDJWTVCClaims_None checkVCT_def SDJWTVCQuery_def newCredentialQuery_def
      SDJWTVCMeta_def dec_field_def case_clash_def credentialTypes_def selectedClaimPaths_def presentAt_def
      select_in_def Path_Select_def Path_Validate_def selectFrom_def withIndicesWidened_def)

text \<open>Without that condition it does not. There is a valid query and a credential presented whole,
  with nothing withheld, that the Wallet's check accepts and the Verifier's refuses: the index of the
  requested path is widened to a wildcard, which fails on an array element of another type that
  nobody asked for.\<close>

theorem presentation_refuses_whole_credential:
  "\<exists>c cs. Query_Validate \<lparr> q_Credentials = [c], q_CredentialSets = [] \<rparr> = None \<and>
     goval_ok (GObj cs) \<and>
     SatisfiedBySDJWTVCClaims ratOf c cs = None \<and>
     SatisfiedBySDJWTVCPresentation ratOf c cs =
       Some (NotPresent [PathKey ''d'', PathIndex 0, PathKey ''t''] (SelectErr (NotAnObject ''t'')))"
proof (intro exI conjI)
  let ?c = "SDJWTVCQuery ''q'' ''v'' [[PathKey ''d'', PathIndex 0, PathKey ''t'']]"
  let ?cs = "[(''vct'', GStr ''v''), (''d'', GArr [GObj [(''t'', GStr ''BSc'')], GStr ''x''])]"
  note defs = checkVCT_def SDJWTVCQuery_def newCredentialQuery_def SDJWTVCMeta_def dec_field_def
    case_clash_def credentialTypes_def selectedClaimPaths_def presentAt_def select_in_def
    Path_Select_def Path_Validate_def selectFrom_def withIndicesWidened_def
  show "Query_Validate \<lparr> q_Credentials = [?c], q_CredentialSets = [] \<rparr> = None"
    by (simp add: Query_Validate_wf query_wf_def credential_wf_def credential_sized_def meta_wf_def
      claim_wf_def claim_ids_def idPattern_def id_chars_def formatSDJWTVC_def formatMdoc_def max_defs defs)
  show "goval_ok (GObj ?cs)" by simp
  show "SatisfiedBySDJWTVCClaims ratOf ?c ?cs = None"
    by (simp add: SatisfiedBySDJWTVCClaims_None defs)
  show "SatisfiedBySDJWTVCPresentation ratOf ?c ?cs =
       Some (NotPresent [PathKey ''d'', PathIndex 0, PathKey ''t''] (SelectErr (NotAnObject ''t'')))"
    by (simp add: SatisfiedBySDJWTVCPresentation_def defs)
qed

end
