(* ===== verification/Dcql_Answered.thy ===== *)
theory Dcql_Answered
  imports Dcql_Query "HOL-Library.List_Lexorder" "HOL-Library.Char_ord"
begin

text \<open>
  \<open>src/dcql/answered.go\<close>: whether the credential queries a response answers are a selection the
  query asks for. \<open>CheckAnswered\<close> first narrows each credential set to the options the answer
  contains whole (\<open>answeredOptions\<close>), then searches depth first for one option per set that together
  cover every answered id (\<open>cover\<close>, \<open>pick\<close>), counting in a map how many chosen options include each id
  and undoing the count when it backtracks. The search stops after \<open>maxOptionCombinations\<close> attempts.

  The lemmas show that backtracking restores the counts, that an answer of the search is right
  whenever the budget did not run out, and how large a query may be for the budget to suffice.
\<close>

definition maxOptionCombinations :: nat where "maxOptionCombinations = 10000"

datatype answered_error =
    NotOneOfTheQueries string
  | QueryNotAnswered string
  | SetNotAnswered nat
  | NotInAnsweredOption string
  | TooManyCombinations
  | MoreThanOneOption

text \<open>A \<open>map[string]bool\<close>, indexed: absent is false.\<close>

definition flag :: "(string, bool) gomap \<Rightarrow> string \<Rightarrow> bool" where
  "flag m i = (case gm_get m i of None \<Rightarrow> False | Some b \<Rightarrow> b)"

definition sortedIDs :: "(string, bool) gomap \<Rightarrow> string list" where
  "sortedIDs m = sort (map fst (filter snd m))"

fun checkKnown :: "query \<Rightarrow> string list \<Rightarrow> answered_error option" where
  "checkKnown q [] = None"
| "checkKnown q (i # ids) =
     (if \<not> list_ex (\<lambda>cq. cq_ID cq = i) (q_Credentials q) then Some (NotOneOfTheQueries i)
      else checkKnown q ids)"

fun all_answered :: "(string, bool) gomap \<Rightarrow> credential_query list \<Rightarrow> answered_error option" where
  "all_answered answered [] = None"
| "all_answered answered (cq # cqs) =
     (if \<not> flag answered (cq_ID cq) then Some (QueryNotAnswered (cq_ID cq))
      else all_answered answered cqs)"

definition checkAllAnswered :: "query \<Rightarrow> (string, bool) gomap \<Rightarrow> answered_error option" where
  "checkAllAnswered q answered = all_answered answered (q_Credentials q)"

section \<open>The options an answer includes whole\<close>

definition whole_options :: "(string, bool) gomap \<Rightarrow> string list list \<Rightarrow> string list list" where
  "whole_options answered options = filter (\<lambda>option. \<not> list_ex (\<lambda>i. \<not> flag answered i) option) options"

definition mark :: "string list \<Rightarrow> (string, bool) gomap \<Rightarrow> (string, bool) gomap" where
  "mark option reachable = fold (\<lambda>i. gm_put i True) option reachable"

text \<open>The loop over the credential sets, from set \<open>i\<close>; the empty list stands for Go's nil, the set left
  out.\<close>

fun answered_options_from ::
  "(string, bool) gomap \<Rightarrow> nat \<Rightarrow> (string, bool) gomap \<Rightarrow> credential_set_query list
     \<Rightarrow> answered_error + string list list list \<times> (string, bool) gomap" where
  "answered_options_from answered i reachable [] = Inr ([], reachable)"
| "answered_options_from answered i reachable (cs # sets) =
     (let whole = whole_options answered (cs_Options cs);
          reachable' = fold mark whole reachable
      in if IsRequired cs \<and> length whole = 0 then Inl (SetNotAnswered i)
         else rmap (\<lambda>(choices, r). ((if IsRequired cs then whole else whole @ [[]]) # choices, r))
                (answered_options_from answered (Suc i) reachable' sets))"

definition answeredOptions ::
  "query \<Rightarrow> (string, bool) gomap \<Rightarrow> answered_error + string list list list \<times> (string, bool) gomap" where
  "answeredOptions q answered = answered_options_from answered 0 [] (q_CredentialSets q)"

section \<open>The search\<close>

record cover =
  c_covered :: "(string, int) gomap"
  c_tried :: nat

definition covered_count :: "cover \<Rightarrow> string \<Rightarrow> int" where
  "covered_count c i = (case gm_get (c_covered c) i of None \<Rightarrow> 0 | Some n \<Rightarrow> n)"

definition cover_add :: "string list \<Rightarrow> int \<Rightarrow> cover \<Rightarrow> cover" where
  "cover_add option n c =
     fold (\<lambda>i c. c \<lparr> c_covered := gm_put i (covered_count c i + n) (c_covered c) \<rparr>) option c"

text \<open>\<open>pick ids choices c\<close> is \<open>c.pick(i)\<close> where \<open>choices\<close> are those of set \<open>i\<close> onwards;
  \<open>pick_options\<close> is its loop over the options of one set.\<close>

function pick :: "string list \<Rightarrow> string list list list \<Rightarrow> cover \<Rightarrow> (answered_error + bool) \<times> cover"
  and pick_options ::
    "string list \<Rightarrow> string list list \<Rightarrow> string list list list \<Rightarrow> cover \<Rightarrow> (answered_error + bool) \<times> cover"
where
  "pick ids [] c = (Inr (\<not> list_ex (\<lambda>i. covered_count c i = 0) ids), c)"
| "pick ids (options # choices) c = pick_options ids options choices c"
| "pick_options ids [] choices c = (Inr False, c)"
| "pick_options ids (option # options) choices c =
     (let c = c \<lparr> c_tried := c_tried c + 1 \<rparr>
      in if c_tried c > maxOptionCombinations then (Inl TooManyCombinations, c)
         else (case pick ids choices (cover_add option 1 c) of
             (Inl e, c) \<Rightarrow> (Inl e, c)
           | (Inr found, c) \<Rightarrow>
               if found then (Inr True, c)
               else pick_options ids options choices (cover_add option (-1) c)))"
  by pat_completeness auto
termination
  by (relation "measures
    [case_sum (\<lambda>(ids, choices, c). length choices) (\<lambda>(ids, options, choices, c). length choices),
     case_sum (\<lambda>(ids, choices, c). 0) (\<lambda>(ids, options, choices, c). Suc (length options))]") auto

definition coverExactly :: "string list \<Rightarrow> string list list list \<Rightarrow> answered_error + bool" where
  "coverExactly ids choices = fst (pick ids choices \<lparr> c_covered = [], c_tried = 0 \<rparr>)"

fun not_reachable :: "(string, bool) gomap \<Rightarrow> string list \<Rightarrow> answered_error option" where
  "not_reachable reachable [] = None"
| "not_reachable reachable (i # ids) =
     (if \<not> flag reachable i then Some (NotInAnsweredOption i) else not_reachable reachable ids)"

definition CheckAnswered :: "query \<Rightarrow> (string, bool) gomap \<Rightarrow> answered_error option" where
  "CheckAnswered q answered =
     (let ids = sortedIDs answered in
      case checkKnown q ids of
        Some e \<Rightarrow> Some e
      | None \<Rightarrow>
          (if length (q_CredentialSets q) = 0 then checkAllAnswered q answered
           else case answeredOptions q answered of
             Inl e \<Rightarrow> Some e
           | Inr (choices, reachable) \<Rightarrow>
               (case not_reachable reachable ids of
                  Some e \<Rightarrow> Some e
                | None \<Rightarrow>
                    (case coverExactly ids choices of
                       Inl e \<Rightarrow> Some e
                     | Inr found \<Rightarrow> if \<not> found then Some MoreThanOneOption else None))))"

section \<open>What the search promises\<close>

text \<open>A selection of one option per set covers the ids; the number of attempts a full search makes.\<close>

definition covers_ids :: "string list \<Rightarrow> string list list \<Rightarrow> bool" where
  "covers_ids ids chosen = (\<forall>i \<in> set ids. \<exists>option \<in> set chosen. i \<in> set option)"

fun attempts :: "string list list list \<Rightarrow> nat" where
  "attempts [] = 0"
| "attempts (options # choices) = length options * Suc (attempts choices)"

definition selection :: "string list list list \<Rightarrow> string list list \<Rightarrow> bool" where
  "selection choices chosen = list_all2 (\<lambda>options option. option \<in> set options) choices chosen"

lemma selection_simps [simp]:
  "selection [] chosen \<longleftrightarrow> chosen = []"
  "selection (options # choices) chosen \<longleftrightarrow>
     (\<exists>option rest. chosen = option # rest \<and> option \<in> set options \<and> selection choices rest)"
  by (auto simp: selection_def list_all2_Cons1)

text \<open>What the count of an id becomes when options are added to it.\<close>

lemma cover_add_tried [simp]: "c_tried (cover_add option n c) = c_tried c"
proof -
  have "c_tried (fold (\<lambda>i c. c \<lparr> c_covered := gm_put i (covered_count c i + n) (c_covered c) \<rparr>) option c) =
      c_tried c" for c
    by (induction option arbitrary: c) auto
  then show ?thesis by (simp add: cover_add_def)
qed

lemma covered_count_tried [simp]: "covered_count (c \<lparr> c_tried := n \<rparr>) = covered_count c"
  by (simp add: covered_count_def fun_eq_iff)

lemma cover_add_count [simp]:
  "covered_count (cover_add option n c) i = covered_count c i + n * int (count_list option i)"
proof (induction option arbitrary: c)
  case (Cons a option)
  have step: "covered_count (c \<lparr> c_covered := gm_put a (covered_count c a + n) (c_covered c) \<rparr>) i =
      covered_count c i + (if a = i then n else 0)"
    by (simp add: covered_count_def)
  have "cover_add (a # option) n c =
      cover_add option n (c \<lparr> c_covered := gm_put a (covered_count c a + n) (c_covered c) \<rparr>)"
    by (simp add: cover_add_def)
  with Cons.IH step show ?case by (simp add: algebra_simps)
qed (simp add: cover_add_def)

text \<open>The contract of the search from a state with no negative count: what its answer means, and that it
  leaves every count as it found it when it reports nothing found.\<close>

definition covers_from :: "string list \<Rightarrow> cover \<Rightarrow> string list list \<Rightarrow> bool" where
  "covers_from ids c chosen =
     (\<forall>i \<in> set ids. covered_count c i > 0 \<or> (\<exists>option \<in> set chosen. i \<in> set option))"

definition counts_ok :: "cover \<Rightarrow> bool" where
  "counts_ok c = (\<forall>i. covered_count c i \<ge> 0)"

definition search_ok :: "string list \<Rightarrow> (string list list \<Rightarrow> bool) \<Rightarrow> nat \<Rightarrow> cover
     \<Rightarrow> (answered_error + bool) \<times> cover \<Rightarrow> bool" where
  "search_ok ids sel budget c res =
     (case res of
        (Inl e, c') \<Rightarrow> e = TooManyCombinations \<and> maxOptionCombinations < c_tried c + budget
      | (Inr True, c') \<Rightarrow> (\<exists>chosen. sel chosen \<and> covers_from ids c chosen)
      | (Inr False, c') \<Rightarrow> (\<forall>chosen. sel chosen \<longrightarrow> \<not> covers_from ids c chosen) \<and>
          covered_count c' = covered_count c \<and> c_tried c' \<le> c_tried c + budget)"

lemma covers_from_add:
  assumes "counts_ok c"
  shows "covers_from ids (cover_add option 1 c) chosen \<longleftrightarrow> covers_from ids c (option # chosen)"
proof -
  have "covered_count c i + int (count_list option i) > 0 \<longleftrightarrow> covered_count c i > 0 \<or> i \<in> set option" for i
  proof -
    have "i \<in> set option \<longleftrightarrow> 0 < count_list option i"
      by (metis count_list_0_iff neq0_conv)
    with assms show ?thesis by (auto simp: counts_ok_def add_pos_nonneg add_nonneg_pos)
  qed
  then show ?thesis by (auto simp: covers_from_def)
qed

lemma covers_from_cong:
  "covered_count c = covered_count c' \<Longrightarrow> covers_from ids c chosen = covers_from ids c' chosen"
  by (simp add: covers_from_def)

lemma counts_ok_add: "counts_ok c \<Longrightarrow> n \<ge> 0 \<Longrightarrow> counts_ok (cover_add option n c)"
  by (simp add: counts_ok_def)

lemma pick_search_ok:
  "counts_ok c \<Longrightarrow> search_ok ids (selection choices) (attempts choices) c (pick ids choices c)"
  "counts_ok c \<Longrightarrow> search_ok ids (selection (options # choices)) (length options * Suc (attempts choices)) c
     (pick_options ids options choices c)"
proof (induction ids choices c and ids options choices c rule: pick_pick_options.induct)
  case (1 ids c)
  then have "(\<not> list_ex (\<lambda>i. covered_count c i = 0) ids) \<longleftrightarrow> covers_from ids c []"
    by (auto simp: list_ex_iff covers_from_def counts_ok_def order.strict_iff_order)
  then show ?case by (auto simp: search_ok_def split: bool.splits)
next
  case (2 ids options choices c)
  then show ?case by simp
next
  case (3 ids choices c)
  then show ?case by (simp add: search_ok_def)
next
  case (4 ids option options choices c)
  define c1 where "c1 = c \<lparr> c_tried := c_tried c + 1 \<rparr>"
  have c1: "counts_ok c1" "covered_count c1 = covered_count c" "c_tried c1 = c_tried c + 1"
    using 4(3) by (simp_all add: c1_def counts_ok_def)
  show ?case
  proof (cases "c_tried c1 > maxOptionCombinations")
    case True
    then show ?thesis by (simp add: search_ok_def c1_def)
  next
    case False
    obtain r c2 where res: "pick ids choices (cover_add option 1 c1) = (r, c2)"
      by (cases "pick ids choices (cover_add option 1 c1)")
    have ih: "search_ok ids (selection choices) (attempts choices) (cover_add option 1 c1) (r, c2)"
      using 4(1) [OF c1_def] False counts_ok_add [OF c1(1)] unfolding res by simp
    have add: "covers_from ids (cover_add option 1 c1) chosen \<longleftrightarrow> covers_from ids c (option # chosen)"
      for chosen
      using covers_from_add [OF c1(1)] covers_from_cong [OF c1(2)] by simp
    consider e where "r = Inl e" | "r = Inr True" | "r = Inr False"
      by (cases r) auto
    then show ?thesis
    proof cases
      case 1
      with res ih False c1(3) show ?thesis by (simp add: search_ok_def c1_def)
    next
      case 2
      with ih obtain chosen where "selection choices chosen" "covers_from ids c (option # chosen)"
        unfolding search_ok_def using add by auto
      with 2 res False show ?thesis by (auto simp: search_ok_def c1_def Let_def)
    next
      case 3
      let ?c3 = "cover_add option (-1) c2"
      from 3 ih have none: "\<And>chosen. selection choices chosen \<Longrightarrow> \<not> covers_from ids c (option # chosen)"
        and c2: "covered_count c2 = covered_count (cover_add option 1 c1)"
          "c_tried c2 \<le> c_tried c + 1 + attempts choices"
        using c1(3) by (simp_all add: search_ok_def add)
      have c3: "covered_count ?c3 = covered_count c" "c_tried ?c3 \<le> c_tried c + Suc (attempts choices)"
        using c2 c1 by (auto simp: fun_eq_iff)
      have "counts_ok ?c3" using 4(3) c3(1) by (simp add: counts_ok_def)
      with 4(2) [OF c1_def _ res [symmetric]] False 3
      have rest: "search_ok ids (selection (options # choices)) (length options * Suc (attempts choices)) ?c3
          (pick_options ids options choices ?c3)"
        by (simp del: selection_simps)
      have eq: "pick_options ids (option # options) choices c = pick_options ids options choices ?c3"
        using False res 3 by (simp add: c1_def Let_def)
      obtain r' c4 where res': "pick_options ids options choices ?c3 = (r', c4)"
        by (cases "pick_options ids options choices ?c3")
      consider e where "r' = Inl e" | "r' = Inr True" | "r' = Inr False"
        by (cases r') auto
      then show ?thesis
        using rest none c3(2) unfolding eq res'
        by cases (auto simp: search_ok_def c3(1) covers_from_cong [OF c3(1)])
    qed
  qed
qed

section \<open>What the answer must be\<close>

text \<open>OpenID4VP section 6.4.2: every id is a credential query's; without credential sets all are
  answered, with them the ids are those of one option of each required set and of one or none of
  each optional one.\<close>

definition set_choice :: "credential_set_query \<Rightarrow> string list \<Rightarrow> bool" where
  "set_choice cs option = (option \<in> set (cs_Options cs) \<or> \<not> IsRequired cs \<and> option = [])"

definition answer_ok :: "query \<Rightarrow> (string \<Rightarrow> bool) \<Rightarrow> bool" where
  "answer_ok q answered =
     ((\<forall>i. answered i \<longrightarrow> i \<in> cq_ID ` set (q_Credentials q)) \<and>
      (if q_CredentialSets q = [] then \<forall>cq \<in> set (q_Credentials q). answered (cq_ID cq)
       else \<exists>chosen. list_all2 set_choice (q_CredentialSets q) chosen \<and>
         (\<forall>i. answered i \<longleftrightarrow> (\<exists>option \<in> set chosen. i \<in> set option))))"

definition set_combinations :: "credential_set_query list \<Rightarrow> nat" where
  "set_combinations sets =
     foldr (\<lambda>cs n. (length (cs_Options cs) + (if IsRequired cs then 0 else 1)) * Suc n) sets 0"

lemma answer_ok_setsI:
  assumes "list_all2 set_choice (q_CredentialSets q) chosen"
    and "\<forall>i. answered i \<longleftrightarrow> (\<exists>option \<in> set chosen. i \<in> set option)"
    and "\<forall>i. answered i \<longrightarrow> i \<in> cq_ID ` set (q_Credentials q)" and "q_CredentialSets q \<noteq> []"
  shows "answer_ok q answered"
  unfolding answer_ok_def if_not_P [OF assms(4)] using assms(1,2,3) by (intro conjI exI)

lemma set_sortedIDs:
  assumes "gm_ok m"
  shows "set (sortedIDs m) = {i. flag m i}"
proof -
  have "flag m i \<longleftrightarrow> gm_get m i = Some True" for i
    by (simp add: flag_def split: option.splits)
  then have "(i, True) \<in> set m \<longleftrightarrow> flag m i" for i
    using assms by (simp add: gm_ok_def)
  then show ?thesis by (force simp: sortedIDs_def)
qed

lemma checkKnown_None: "checkKnown q ids = None \<longleftrightarrow> set ids \<subseteq> cq_ID ` set (q_Credentials q)"
  by (induction ids) (auto simp: list_ex_iff)

lemma all_answered_None: "all_answered answered cqs = None \<longleftrightarrow> (\<forall>cq \<in> set cqs. flag answered (cq_ID cq))"
  by (induction cqs) auto

lemma not_reachable_None: "not_reachable r ids = None \<longleftrightarrow> (\<forall>i \<in> set ids. flag r i)"
  by (induction ids) auto

lemma set_whole_options:
  "set (whole_options answered options) = {option \<in> set options. \<forall>i \<in> set option. flag answered i}"
  by (auto simp: whole_options_def list_ex_iff)

lemma flag_mark: "flag (mark option r) i \<longleftrightarrow> flag r i \<or> i \<in> set option"
proof (induction option arbitrary: r)
  case (Cons a option)
  have "mark (a # option) r = mark option (gm_put a True r)" by (simp add: mark_def)
  with Cons show ?case by (auto simp: flag_def)
qed (simp add: mark_def)

lemma flag_marks: "flag (fold mark options r) i \<longleftrightarrow> flag r i \<or> (\<exists>option \<in> set options. i \<in> set option)"
  by (induction options arbitrary: r) (auto simp: flag_mark)

text \<open>The options of one set that remain, with leaving it out.\<close>

definition set_choices :: "(string, bool) gomap \<Rightarrow> credential_set_query \<Rightarrow> string list list" where
  "set_choices answered cs =
     whole_options answered (cs_Options cs) @ (if IsRequired cs then [] else [[]])"

lemma set_choices_Nil:
  "set_choices answered cs = [] \<longleftrightarrow> IsRequired cs \<and> whole_options answered (cs_Options cs) = []"
  by (simp add: set_choices_def)

lemma answered_options_from_Inr:
  "answered_options_from answered i r sets = Inr (choices, r') \<longleftrightarrow>
     (\<forall>cs \<in> set sets. set_choices answered cs \<noteq> []) \<and> choices = map (set_choices answered) sets \<and>
     r' = fold (\<lambda>cs. fold mark (whole_options answered (cs_Options cs))) sets r"
  by (induction sets arbitrary: i r choices)
    (auto simp: Let_def rmap_Inr_iff set_choices_def)

lemma answered_options_from_Inl:
  "answered_options_from answered i r sets = Inl e \<Longrightarrow> \<exists>cs \<in> set sets. set_choices answered cs = []"
  by (induction sets arbitrary: i r)
    (auto simp: Let_def rmap_def set_choices_Nil split: if_splits sum.splits)

lemma flag_reachable:
  "flag (fold (\<lambda>cs. fold mark (whole_options answered (cs_Options cs))) sets r) i \<longleftrightarrow>
     flag r i \<or> (\<exists>cs \<in> set sets. \<exists>option \<in> set (set_choices answered cs). i \<in> set option)"
  by (induction sets arbitrary: r) (auto simp: flag_marks set_choices_def split: if_splits)

lemma selection_set_choices:
  "selection (map (set_choices answered) sets) chosen \<longleftrightarrow>
     list_all2 set_choice sets chosen \<and> (\<forall>option \<in> set chosen. \<forall>i \<in> set option. flag answered i)"
  by (induction sets arbitrary: chosen)
    (auto simp: list_all2_Cons1 set_choices_def set_choice_def set_whole_options split: if_splits)

lemma selectionD_choices: "selection choices chosen \<Longrightarrow> \<forall>options \<in> set choices. options \<noteq> []"
  by (induction choices arbitrary: chosen) auto

lemma selectionD_option:
  "selection choices chosen \<Longrightarrow> option \<in> set chosen \<Longrightarrow> \<exists>options \<in> set choices. option \<in> set options"
  by (induction choices arbitrary: chosen) (auto, blast)

lemma coverExactly_ok:
  "coverExactly ids choices = Inr True \<longleftrightarrow>
     coverExactly ids choices \<noteq> Inl TooManyCombinations \<and>
     (\<exists>chosen. selection choices chosen \<and> covers_ids ids chosen)"
  "coverExactly ids choices = Inl e \<Longrightarrow> e = TooManyCombinations"
  "attempts choices \<le> maxOptionCombinations \<Longrightarrow> coverExactly ids choices \<noteq> Inl e"
proof -
  let ?c = "\<lparr> c_covered = [], c_tried = 0 \<rparr>"
  have ok: "search_ok ids (selection choices) (attempts choices) ?c (pick ids choices ?c)"
    by (rule pick_search_ok) (simp add: counts_ok_def covered_count_def)
  have covers: "covers_from ids ?c chosen \<longleftrightarrow> covers_ids ids chosen" for chosen
    by (simp add: covers_from_def covers_ids_def covered_count_def)
  obtain r c' where res: "pick ids choices ?c = (r, c')" by (cases "pick ids choices ?c")
  show "coverExactly ids choices = Inr True \<longleftrightarrow>
     coverExactly ids choices \<noteq> Inl TooManyCombinations \<and>
     (\<exists>chosen. selection choices chosen \<and> covers_ids ids chosen)"
    using ok unfolding res coverExactly_def
    by (cases r) (auto simp: search_ok_def covers split: bool.splits)
  show "coverExactly ids choices = Inl e \<Longrightarrow> e = TooManyCombinations"
    using ok unfolding res coverExactly_def by (auto simp: search_ok_def)
  show "attempts choices \<le> maxOptionCombinations \<Longrightarrow> coverExactly ids choices \<noteq> Inl e"
    using ok unfolding res coverExactly_def by (auto simp: search_ok_def)
qed

lemma attempts_choices: "attempts (map (set_choices answered) sets) \<le> set_combinations sets"
proof (induction sets)
  case (Cons cs sets)
  have "length (set_choices answered cs) \<le> length (cs_Options cs) + (if IsRequired cs then 0 else 1)"
    by (simp add: set_choices_def whole_options_def)
  with Cons.IH show ?case
    unfolding set_combinations_def list.map attempts.simps foldr.simps comp_def by (intro mult_le_mono) simp_all
qed (simp add: set_combinations_def)

text \<open>With credential sets: the search decides.\<close>

lemma sets_answer_iff:
  assumes "\<forall>i. i \<in> set ids \<longleftrightarrow> flag answered i"
  shows "(\<exists>chosen. list_all2 set_choice sets chosen \<and>
        (\<forall>i. flag answered i \<longleftrightarrow> (\<exists>option \<in> set chosen. i \<in> set option))) \<longleftrightarrow>
    (\<exists>chosen. selection (map (set_choices answered) sets) chosen \<and> covers_ids ids chosen)"
  unfolding selection_set_choices covers_ids_def using assms by blast

lemma sets_answer_reachable:
  assumes "selection (map (set_choices answered) sets) chosen" and "covers_ids ids chosen" and "i \<in> set ids"
  shows "flag (fold (\<lambda>cs. fold mark (whole_options answered (cs_Options cs))) sets []) i"
  using assms selectionD_option [OF assms(1)] unfolding covers_ids_def flag_reachable by fastforce

lemma CheckAnswered_exact:
  assumes "gm_ok answered" and "CheckAnswered q answered \<noteq> Some TooManyCombinations"
  shows "CheckAnswered q answered = None \<longleftrightarrow> answer_ok q (flag answered)"
proof (cases "checkKnown q (sortedIDs answered) = None")
  case False
  moreover from False have "\<not> answer_ok q (flag answered)"
    using set_sortedIDs [OF assms(1)] unfolding checkKnown_None answer_ok_def by auto
  ultimately show ?thesis by (auto simp: CheckAnswered_def Let_def)
next
  case known: True
  have ids: "\<forall>i. i \<in> set (sortedIDs answered) \<longleftrightarrow> flag answered i"
    using set_sortedIDs [OF assms(1)] by auto
  have in_query: "\<forall>i. flag answered i \<longrightarrow> i \<in> cq_ID ` set (q_Credentials q)"
    using known ids unfolding checkKnown_None by auto
  show ?thesis
  proof (cases "q_CredentialSets q = []")
    case True
    with known in_query show ?thesis
      by (simp add: CheckAnswered_def answer_ok_def checkAllAnswered_def all_answered_None)
  next
    case sets: False
    let ?sets = "q_CredentialSets q" and ?ids = "sortedIDs answered"
    let ?choices = "map (set_choices answered) ?sets"
    let ?ok = "\<exists>chosen. selection ?choices chosen \<and> covers_ids ?ids chosen"
    have spec: "answer_ok q (flag answered) \<longleftrightarrow> ?ok"
      using in_query sets sets_answer_iff [OF ids, of ?sets] by (simp add: answer_ok_def)
    show ?thesis
    proof (cases "answeredOptions q answered")
      case (Inl e)
      then have "\<not> ?ok"
        using answered_options_from_Inl selectionD_choices unfolding answeredOptions_def by fastforce
      with Inl known sets spec show ?thesis by (simp add: CheckAnswered_def)
    next
      case (Inr cr)
      then obtain r where "cr = (?choices, r)"
        and r: "r = fold (\<lambda>cs. fold mark (whole_options answered (cs_Options cs))) ?sets []"
        by (cases cr) (auto simp: answeredOptions_def answered_options_from_Inr)
      with Inr known sets have run: "CheckAnswered q answered =
          (case not_reachable r ?ids of Some e \<Rightarrow> Some e
           | None \<Rightarrow> (case coverExactly ?ids ?choices of Inl e \<Rightarrow> Some e
               | Inr found \<Rightarrow> if \<not> found then Some MoreThanOneOption else None))"
        by (simp add: CheckAnswered_def Let_def)
      show ?thesis
      proof (cases "not_reachable r ?ids = None")
        case False
        then have "\<not> ?ok"
          using sets_answer_reachable [of answered ?sets _ ?ids] r unfolding not_reachable_None by blast
        with False spec run show ?thesis by auto
      next
        case True
        with run have run: "CheckAnswered q answered =
            (case coverExactly ?ids ?choices of Inl e \<Rightarrow> Some e
             | Inr found \<Rightarrow> if \<not> found then Some MoreThanOneOption else None)"
          by simp
        with assms(2) coverExactly_ok(2) have "coverExactly ?ids ?choices \<noteq> Inl TooManyCombinations" by auto
        with spec coverExactly_ok(1,2) [of ?ids ?choices] run show ?thesis
          by (cases "coverExactly ?ids ?choices") auto
      qed
    qed
  qed
qed

lemma CheckAnswered_not_too_many:
  assumes "set_combinations (q_CredentialSets q) \<le> maxOptionCombinations"
  shows "CheckAnswered q answered \<noteq> Some TooManyCombinations"
proof -
  have "checkKnown q ids \<noteq> Some TooManyCombinations" for ids
    by (induction ids) auto
  moreover have "all_answered answered cqs \<noteq> Some TooManyCombinations" for cqs
    by (induction cqs) auto
  moreover have "not_reachable r ids \<noteq> Some TooManyCombinations" for r ids
    by (induction ids) auto
  moreover have "answered_options_from answered i r sets \<noteq> Inl TooManyCombinations" for i r sets
    by (induction sets arbitrary: i r) (auto simp: Let_def rmap_def split: sum.splits)
  moreover have "coverExactly ids choices \<noteq> Inl e"
    if "answeredOptions q answered = Inr (choices, r)" for ids choices r e
  proof (rule coverExactly_ok(3))
    from that have "choices = map (set_choices answered) (q_CredentialSets q)"
      by (simp add: answeredOptions_def answered_options_from_Inr)
    with attempts_choices assms show "attempts choices \<le> maxOptionCombinations"
      using le_trans by blast
  qed
  ultimately show ?thesis
    by (auto simp: CheckAnswered_def Let_def checkAllAnswered_def answeredOptions_def
      split: option.splits sum.splits if_splits)
qed

section \<open>Properties\<close>

text \<open>A query of two credential sets that share a credential, for the witnesses.\<close>

definition two_sets_query :: query where
  "two_sets_query =
     \<lparr> q_Credentials = [SDJWTVCQuery ''a'' ''v'' [], SDJWTVCQuery ''b'' ''v'' [], SDJWTVCQuery ''c'' ''v'' []],
       q_CredentialSets =
         [\<lparr> cs_Options = [[''a''], [''b'', ''c'']], cs_Required = None \<rparr>,
          \<lparr> cs_Options = [[''c'']], cs_Required = Some False \<rparr>] \<rparr>"

text \<open>C37: Whenever \<open>CheckAnswered\<close> does not give up, it accepts exactly the selections of section 6.4.2;
  and it does not give up on any query whose credential sets allow at most \<open>maxOptionCombinations\<close>
  partial combinations.\<close>

theorem check_answered_exact:
  assumes "gm_ok answered"
    and "set_combinations (q_CredentialSets q) \<le> maxOptionCombinations \<or>
      CheckAnswered q answered \<noteq> Some TooManyCombinations"
  shows "CheckAnswered q answered = None \<longleftrightarrow> answer_ok q (flag answered)"
  using assms CheckAnswered_exact CheckAnswered_not_too_many by blast

theorem check_answered_exact_witness:
  "CheckAnswered two_sets_query [(''c'', True), (''a'', False), (''b'', True)] = None"
proof (rule check_answered_exact [THEN iffD2])
  let ?flag = "flag [(''c'', True), (''a'', False), (''b'', True)]"
  have "list_all2 set_choice (q_CredentialSets two_sets_query) [[''b'', ''c''], [''c'']]"
    by (simp add: two_sets_query_def set_choice_def)
  moreover have "\<forall>i. ?flag i \<longleftrightarrow> (\<exists>option \<in> set [[''b'', ''c''], [''c'']]. i \<in> set option)"
    by (auto simp: flag_def)
  moreover have "\<forall>i. ?flag i \<longrightarrow> i \<in> cq_ID ` set (q_Credentials two_sets_query)"
    by (auto simp: flag_def two_sets_query_def SDJWTVCQuery_def newCredentialQuery_def)
  moreover have "q_CredentialSets two_sets_query \<noteq> []" by (simp add: two_sets_query_def)
  ultimately show "answer_ok two_sets_query ?flag" by (rule answer_ok_setsI)
qed (simp_all add: two_sets_query_def set_combinations_def maxOptionCombinations_def IsRequired_def)

text \<open>Accepting is always right, however the search ended: what \<open>CheckAnswered\<close> accepts is a selection
  the query asks for, with nothing answered beyond one option of each set.\<close>

theorem check_answered_sound:
  assumes "gm_ok answered" and "CheckAnswered q answered = None"
  shows "answer_ok q (flag answered)"
  using CheckAnswered_exact [OF assms(1), of q] assms(2) by simp

theorem check_answered_sound_witness:
  "answer_ok two_sets_query (flag [(''a'', True)])"
proof (rule check_answered_sound)
  have "sortedIDs [(''a'', True)] = [''a'']" by (simp add: sortedIDs_def)
  moreover have "checkKnown two_sets_query [''a''] = None"
    by (simp add: two_sets_query_def SDJWTVCQuery_def newCredentialQuery_def)
  moreover have "answeredOptions two_sets_query [(''a'', True)] = Inr ([[[''a'']], [[]]], [(''a'', True)])"
    by (simp add: answeredOptions_def whole_options_def IsRequired_def flag_def mark_def rmap_def
      two_sets_query_def Let_def)
  moreover have "coverExactly [''a''] [[[''a'']], [[]]] = Inr True"
    by (simp add: coverExactly_def cover_add_def covered_count_def maxOptionCombinations_def Let_def)
  moreover have "q_CredentialSets two_sets_query \<noteq> []" by (simp add: two_sets_query_def)
  ultimately show "CheckAnswered two_sets_query [(''a'', True)] = None"
    by (simp add: CheckAnswered_def Let_def flag_def)
qed simp

end
