(* ===== verification/Status_Bits.thy ===== *)
theory Status_Bits
  imports B64url "HOL-Library.Word"
begin

unbundle bit_operations_syntax

text \<open>
  \<open>src/statuslist/bits.go\<close>, \<open>statuslist.go\<close>, the tail of \<open>check.go\<close> and \<open>claim.go\<close>: the bit-packed,
  compressed list of statuses and the two ways the library reads one. \<open>Decode\<close> decompresses the
  whole list and \<open>Status\<close> streams to the one byte it needs; both refuse a list that inflates past
  \<open>maxDecompressedSize\<close>.

  zlib is a parameter: \<open>inflate raw\<close> is an error of opening the stream, or the bytes the reader
  delivers in order, with the error it then reports in place of end of file, if any. A byte is a
  \<open>8 word\<close>; Go's \<open>int\<close> index and \<open>Bits\<close> are integers, and what \<open>append\<close>ing to or indexing a slice needs of
  them is written out.
\<close>

type_synonym byte = "8 word"

datatype status_error =
    InvalidBits int
  | DoesNotFit nat
  | NegativeIndex int
  | OutOfBounds int
  | CompressFails
  | DecodeLst b64_error
  | ZlibReader
  | Decompress
  | TooLarge

section \<open>Packing\<close>

definition Bits_valid :: "int \<Rightarrow> bool" where
  "Bits_valid b = (b = 1 \<or> b = 2 \<or> b = 4 \<or> b = 8)"

definition perByte :: "int \<Rightarrow> nat" where
  "perByte b = 8 div nat b"

text \<open>\<open>uint8(1<<uint(b)) - 1\<close>: the shift is of an 8-bit word, so \<open>Bits8\<close> shifts everything out.\<close>

definition bits_mask :: "int \<Rightarrow> byte" where
  "bits_mask b = push_bit (nat b) 1 - 1"

definition bit_offset :: "int \<Rightarrow> nat \<Rightarrow> nat" where
  "bit_offset b idx = (idx mod perByte b) * nat b"

text \<open>The loop of \<open>Pack\<close> from index \<open>idx\<close>.\<close>

fun pack_from :: "int \<Rightarrow> nat \<Rightarrow> byte list \<Rightarrow> byte list \<Rightarrow> status_error + byte list" where
  "pack_from b idx [] packed = Inr packed"
| "pack_from b idx (status # statuses) packed =
     (if status > bits_mask b then Inl (DoesNotFit idx)
      else
        (let byteIdx = idx div perByte b
         in pack_from b (Suc idx) statuses
              (packed[byteIdx := packed ! byteIdx OR push_bit (bit_offset b idx) (status AND bits_mask b)])))"

definition Pack :: "int \<Rightarrow> byte list \<Rightarrow> status_error + byte list" where
  "Pack b statuses =
     (if \<not> Bits_valid b then Inl (InvalidBits b)
      else pack_from b 0 statuses (replicate ((length statuses + perByte b - 1) div perByte b) 0))"

definition Unpack :: "int \<Rightarrow> byte list \<Rightarrow> int \<Rightarrow> status_error + byte" where
  "Unpack b packed idx =
     (if \<not> Bits_valid b then Inl (InvalidBits b)
      else if idx < 0 then Inl (NegativeIndex idx)
      else
        (let byteIdx = nat idx div perByte b
         in if byteIdx \<ge> length packed then Inl (OutOfBounds idx)
            else Inr (drop_bit (bit_offset b (nat idx)) (packed ! byteIdx) AND bits_mask b)))"

section \<open>The compressed list\<close>

definition maxDecompressedSize :: nat where
  "maxDecompressedSize = push_bit 20 16"

record status_list =
  sl_Bits :: int
  sl_Lst :: string
  sl_AggregationURI :: string

record decoded_list =
  d_Bits :: int
  d_Packed :: "byte list"

type_synonym inflater = "nat list \<Rightarrow> (status_error + byte list \<times> bool)"

text \<open>\<open>compress\<close>: the smaller of the two streams zlib makes, \<open>deflate\<close> at the default level and at
  Huffman-only, the default one when they are as long.\<close>

definition compress :: "(bool \<Rightarrow> byte list \<Rightarrow> nat list option) \<Rightarrow> byte list \<Rightarrow> status_error + nat list" where
  "compress deflate b =
     (case deflate False b of
        None \<Rightarrow> Inl CompressFails
      | Some best \<Rightarrow>
          (case deflate True b of
             None \<Rightarrow> Inl CompressFails
           | Some huffman \<Rightarrow> Inr (if length huffman < length best then huffman else best)))"

definition StatusList_New ::
  "(bool \<Rightarrow> byte list \<Rightarrow> nat list option) \<Rightarrow> int \<Rightarrow> byte list \<Rightarrow> string \<Rightarrow> status_error + status_list" where
  "StatusList_New deflate b statuses aggregationURI =
     rbind (Pack b statuses) (\<lambda>packed.
     rbind (compress deflate packed) (\<lambda>compressed.
     Inr \<lparr> sl_Bits = b, sl_Lst = EncodeToString compressed, sl_AggregationURI = aggregationURI \<rparr>))"

text \<open>\<open>decompress\<close>: \<open>io.ReadAll\<close> through a reader limited to one byte past the bound, and only then the
  checks. The stream's error is seen only when the limit is not reached first; \<open>Close\<close>, after the
  whole stream was read to its checksum, has nothing left to report.\<close>

definition decompress :: "inflater \<Rightarrow> nat list \<Rightarrow> status_error + byte list" where
  "decompress inflate raw =
     (case inflate raw of
        Inl e \<Rightarrow> Inl ZlibReader
      | Inr (stream, fails) \<Rightarrow>
          (let out = take (maxDecompressedSize + 1) stream
           in if length stream \<le> maxDecompressedSize \<and> fails then Inl Decompress
              else if length out > maxDecompressedSize then Inl TooLarge
              else Inr out))"

text \<open>\<open>decompressedByte\<close> reads through one limited reader in three steps: skip \<open>idx\<close> bytes, read one,
  count the rest. \<open>limited_read n\<close> is what reading up to \<open>n\<close> bytes leaves: the bytes, whether the
  reader then reported an error (\<open>Some True\<close>), end of file (\<open>Some False\<close>) or nothing, and the reader.\<close>

record limited_reader =
  lr_rest :: "byte list"
  lr_fails :: bool
  lr_left :: nat

definition limited_read :: "nat \<Rightarrow> limited_reader \<Rightarrow> byte list \<times> bool option \<times> limited_reader" where
  "limited_read n r =
     (let k = min n (min (lr_left r) (length (lr_rest r)));
          r' = r \<lparr> lr_rest := drop k (lr_rest r), lr_left := lr_left r - k \<rparr>
      in (take k (lr_rest r),
          if k = n then None
          else if lr_left r' = 0 then Some False
          else Some (lr_fails r), r'))"

text \<open>\<open>io.Copy\<close> of all that is left: the count, and whether it failed.\<close>

definition limited_drain :: "limited_reader \<Rightarrow> nat \<times> bool" where
  "limited_drain r =
     (if lr_left r \<le> length (lr_rest r) then (lr_left r, False)
      else (length (lr_rest r), lr_fails r))"

definition decompressedByte :: "inflater \<Rightarrow> nat list \<Rightarrow> nat \<Rightarrow> status_error + byte option" where
  "decompressedByte inflate raw idx =
     (case inflate raw of
        Inl e \<Rightarrow> Inl ZlibReader
      | Inr (stream, fails) \<Rightarrow>
          (let bounded = \<lparr> lr_rest = stream, lr_fails = fails, lr_left = maxDecompressedSize + 1 \<rparr>
           in case limited_read idx bounded of
                (_, Some failed, _) \<Rightarrow> if failed then Inl Decompress else Inr None
              | (_, None, bounded) \<Rightarrow>
                  (case limited_read 1 bounded of
                     (_, Some failed, _) \<Rightarrow> if failed then Inl Decompress else Inr None
                   | (one, None, bounded) \<Rightarrow>
                       (case limited_drain bounded of
                          (rest, failed) \<Rightarrow>
                            if failed then Inl Decompress
                            else if idx + 1 + rest > maxDecompressedSize then Inl TooLarge
                            else Inr (Some (one ! 0))))))"

definition StatusList_Decode :: "inflater \<Rightarrow> status_list \<Rightarrow> status_error + decoded_list" where
  "StatusList_Decode inflate sl =
     (if \<not> Bits_valid (sl_Bits sl) then Inl (InvalidBits (sl_Bits sl))
      else
        rbind (wrap_err DecodeLst (DecodeString (sl_Lst sl))) (\<lambda>raw.
        rbind (decompress inflate raw) (\<lambda>packed.
        Inr \<lparr> d_Bits = sl_Bits sl, d_Packed = packed \<rparr>)))"

definition Decoded_Status :: "decoded_list \<Rightarrow> int \<Rightarrow> status_error + byte" where
  "Decoded_Status d idx = Unpack (d_Bits d) (d_Packed d) idx"

definition StatusList_Status :: "inflater \<Rightarrow> status_list \<Rightarrow> int \<Rightarrow> status_error + byte" where
  "StatusList_Status inflate sl idx =
     (if \<not> Bits_valid (sl_Bits sl) then Inl (InvalidBits (sl_Bits sl))
      else if idx < 0 then Inl (NegativeIndex idx)
      else
        (let byteIdx = nat idx div perByte (sl_Bits sl)
         in if byteIdx \<ge> maxDecompressedSize then Inl (OutOfBounds idx)
            else
              rbind (wrap_err DecodeLst (DecodeString (sl_Lst sl))) (\<lambda>raw.
              rbind (decompressedByte inflate raw byteIdx) (\<lambda>found.
              (case found of
                 None \<Rightarrow> Inl (OutOfBounds idx)
               | Some b \<Rightarrow> Inr (drop_bit (bit_offset (sl_Bits sl) (nat idx)) b AND bits_mask (sl_Bits sl)))))))"

section \<open>The claim that names a list\<close>

datatype claim_error =
    NoStatusList
  | StatusListNotObject
  | NoIdx
  | IdxNotInteger
  | NoURI
  | SubMismatch
  | StatusErr status_error

record status_list_ref =
  ref_Idx :: nat
  ref_URI :: string

definition StatusListRef_Claim :: "status_list_ref \<Rightarrow> (string \<times> goval) list" where
  "StatusListRef_Claim ref =
     [(''status_list'', GObj [(''idx'', GInt (int (ref_Idx ref))), (''uri'', GStr (ref_URI ref))])]"

definition ParseStatusClaim :: "(string \<times> goval) list \<Rightarrow> claim_error + status_list_ref" where
  "ParseStatusClaim status =
     (case gm_get status ''status_list'' of
        None \<Rightarrow> Inl NoStatusList
      | Some (GObj m) \<Rightarrow>
          (case gm_get m ''idx'' of
             None \<Rightarrow> Inl NoIdx
           | Some (GFloat (Finite r)) \<Rightarrow>
               (if r < 0 \<or> r > 2 ^ 53 \<or> r \<noteq> of_int (if 0 \<le> r then floor r else - floor (- r)) then Inl IdxNotInteger
                else (case gm_get m ''uri'' of
                    Some (GStr uri) \<Rightarrow>
                      if uri = [] then Inl NoURI else Inr \<lparr> ref_Idx = nat (floor r), ref_URI = uri \<rparr>
                  | _ \<Rightarrow> Inl NoURI))
           | Some _ \<Rightarrow> Inl IdxNotInteger)
      | Some _ \<Rightarrow> Inl StatusListNotObject)"

text \<open>\<open>checkClaims\<close>: the list must be the one the token's claim names, and the index one an \<open>int\<close> holds.\<close>

definition checkClaims ::
  "inflater \<Rightarrow> string \<Rightarrow> status_list \<Rightarrow> status_list_ref \<Rightarrow> decoded_list option \<Rightarrow> claim_error + byte" where
  "checkClaims inflate sub sl ref decoded =
     (if sub \<noteq> ref_URI ref then Inl SubMismatch
      else if ref_Idx ref > 2 ^ 63 - 1 then Inl (StatusErr (OutOfBounds (int (ref_Idx ref))))
      else wrap_err StatusErr
        (case decoded of
           Some d \<Rightarrow> Decoded_Status d (int (ref_Idx ref))
         | None \<Rightarrow> StatusList_Status inflate sl (int (ref_Idx ref))))"

definition StatusValid :: byte where "StatusValid = 0"
definition StatusInvalid :: byte where "StatusInvalid = 1"

definition failClosed :: "claim_error + byte \<Rightarrow> byte \<times> claim_error option" where
  "failClosed r = (case r of Inl e \<Rightarrow> (StatusInvalid, Some e) | Inr status \<Rightarrow> (status, None))"

section \<open>Words of slots\<close>

text \<open>A byte holds \<open>perByte\<close> slots of \<open>m\<close> bits; writing one leaves the others.\<close>

lemma bits_mask_eq: "bits_mask b = mask (nat b)"
  by (simp add: bits_mask_def mask_eq_exp_minus_1 push_bit_eq_mult)

lemma Bits_validD:
  assumes "Bits_valid b"
  shows "perByte b * nat b = 8" and "0 < perByte b" and "0 < nat b"
  using assms by (auto simp: Bits_valid_def perByte_def)

lemma fits_mask:
  assumes "Bits_valid b" and "s \<le> bits_mask b"
  shows "s AND bits_mask b = s"
proof -
  have "unat s < 256" using unsigned_less [of s] by simp
  then have "unat s < 2 ^ nat b"
    using assms by (auto simp: Bits_valid_def bits_mask_def word_le_nat_alt)
  then have "unat (take_bit (nat b) s) = unat s"
    by (simp add: unsigned_take_bit_eq take_bit_nat_eq_self)
  then have "take_bit (nat b) s = s" by (simp add: word_unat_eq_iff)
  then show ?thesis by (simp add: bits_mask_eq take_bit_eq_mask)
qed

lemma bit_slot:
  fixes w :: byte
  shows "bit (drop_bit k w AND mask m) n \<longleftrightarrow> n < m \<and> bit w (k + n)"
  by (auto simp: bit_and_iff bit_drop_bit_eq bit_mask_iff dest: bit_imp_le_length)

lemma slot_write_other:
  fixes w s :: byte
  assumes "i \<noteq> j"
  shows "drop_bit (i * m) (w OR push_bit (j * m) (s AND mask m)) AND mask m = drop_bit (i * m) w AND mask m"
proof (rule bit_word_eqI)
  fix n
  have "\<not> (n < m \<and> j * m \<le> i * m + n \<and> i * m + n - j * m < m)"
  proof
    assume n: "n < m \<and> j * m \<le> i * m + n \<and> i * m + n - j * m < m"
    then have "i * m + n < Suc j * m" "j * m < Suc i * m" by auto
    then have "j < Suc i" "i < Suc j"
      by (metis mult_less_cancel2, metis add_lessD1 mult_less_cancel2)
    with assms show False by simp
  qed
  then show "bit (drop_bit (i * m) (w OR push_bit (j * m) (s AND mask m)) AND mask m) n =
      bit (drop_bit (i * m) w AND mask m) n"
    by (auto simp: bit_slot bit_or_iff bit_push_bit_iff bit_and_iff bit_mask_iff bit_drop_bit_eq)
qed

lemma slot_write_same:
  fixes w s :: byte
  assumes "drop_bit k w AND mask m = 0" and "k + m \<le> 8"
  shows "drop_bit k (w OR push_bit k (s AND mask m)) AND mask m = s AND mask m"
proof (rule bit_word_eqI)
  fix n
  have "n < m \<Longrightarrow> \<not> bit w (k + n)" using assms(1) bit_slot [of k w m n] by simp
  with assms(2) show "bit (drop_bit k (w OR push_bit k (s AND mask m)) AND mask m) n = bit (s AND mask m) n"
    unfolding bit_slot by (auto simp: bit_or_iff bit_push_bit_iff bit_and_iff bit_mask_iff)
qed

text \<open>The status in slot \<open>idx\<close> of a packed array.\<close>

definition slot :: "int \<Rightarrow> byte list \<Rightarrow> nat \<Rightarrow> byte" where
  "slot b packed idx = drop_bit (bit_offset b idx) (packed ! (idx div perByte b)) AND bits_mask b"

definition put_slot :: "int \<Rightarrow> nat \<Rightarrow> byte \<Rightarrow> byte list \<Rightarrow> byte list" where
  "put_slot b idx status packed =
     packed[idx div perByte b :=
       packed ! (idx div perByte b) OR push_bit (bit_offset b idx) (status AND bits_mask b)]"

lemma length_put_slot [simp]: "length (put_slot b idx status packed) = length packed"
  by (simp add: put_slot_def)

lemma slot_put_other:
  assumes "i \<noteq> idx"
  shows "slot b (put_slot b idx status packed) i = slot b packed i"
proof (cases "idx div perByte b < length packed \<and> i div perByte b = idx div perByte b")
  case True
  with assms have "i mod perByte b \<noteq> idx mod perByte b"
    by (metis div_mult_mod_eq)
  from slot_write_other [OF this] True show ?thesis
    unfolding slot_def put_slot_def bit_offset_def bits_mask_eq by (simp only: nth_list_update_eq)
next
  case False
  then show ?thesis by (auto simp: slot_def put_slot_def nth_list_update not_less list_update_beyond)
qed

lemma slot_put_same:
  assumes "Bits_valid b" and "idx div perByte b < length packed" and "slot b packed idx = 0"
    and "status \<le> bits_mask b"
  shows "slot b (put_slot b idx status packed) idx = status"
proof -
  have "Suc (idx mod perByte b) * nat b \<le> perByte b * nat b"
    using Bits_validD [OF assms(1)] by (intro mult_right_mono) (auto simp: Suc_le_eq)
  then have "bit_offset b idx + nat b \<le> 8"
    using Bits_validD [OF assms(1)] by (simp add: bit_offset_def add.commute)
  with slot_write_same assms(2,3) have "slot b (put_slot b idx status packed) idx = status AND bits_mask b"
    unfolding slot_def put_slot_def bits_mask_eq by (simp only: nth_list_update_eq)
  with fits_mask [OF assms(1,4)] show ?thesis by simp
qed

section \<open>What packing writes\<close>

lemma pack_from_step:
  "pack_from b idx (status # statuses) packed =
     (if status > bits_mask b then Inl (DoesNotFit idx)
      else pack_from b (Suc idx) statuses (put_slot b idx status packed))"
  by (simp add: put_slot_def Let_def)

lemma pack_from_Inr:
  assumes "Bits_valid b" and "idx + length statuses \<le> length packed * perByte b"
    and "\<forall>i \<ge> idx. i < length packed * perByte b \<longrightarrow> slot b packed i = 0"
    and "pack_from b idx statuses packed = Inr out"
  shows "length out = length packed \<and> (\<forall>s \<in> set statuses. s \<le> bits_mask b) \<and>
    (\<forall>i < length packed * perByte b. slot b out i =
       (if i < idx then slot b packed i
        else if i - idx < length statuses then statuses ! (i - idx) else 0))"
  using assms(2-4)
proof (induction statuses arbitrary: idx packed)
  case (Cons s statuses)
  let ?p = "put_slot b idx s packed"
  from Cons.prems(3) have fits: "s \<le> bits_mask b" and
    run: "pack_from b (Suc idx) statuses ?p = Inr out"
    unfolding pack_from_step by (auto split: if_splits)
  have idx: "idx < length packed * perByte b" using Cons.prems(1) by simp
  then have byte: "idx div perByte b < length packed" by (simp add: less_mult_imp_div_less)
  have here: "slot b ?p idx = s"
    using slot_put_same [OF assms(1) byte _ fits] Cons.prems(2) idx by simp
  have "\<forall>i \<ge> Suc idx. i < length ?p * perByte b \<longrightarrow> slot b ?p i = 0"
    using Cons.prems(2) by (simp add: slot_put_other)
  from Cons.IH [OF _ this run] Cons.prems(1)
  have ih: "length out = length packed" "\<forall>s \<in> set statuses. s \<le> bits_mask b"
    "\<forall>i < length packed * perByte b. slot b out i =
       (if i < Suc idx then slot b ?p i
        else if i - Suc idx < length statuses then statuses ! (i - Suc idx) else 0)"
    by auto
  have "slot b out i =
       (if i < idx then slot b packed i
        else if i - idx < length (s # statuses) then (s # statuses) ! (i - idx) else 0)"
    if i: "i < length packed * perByte b" for i
  proof -
    consider "i < idx" | "i = idx" | "idx < i" by linarith
    then show ?thesis
    proof cases
      case 3
      then have "i - idx = Suc (i - Suc idx)" by simp
      with 3 ih(3) i show ?thesis by simp
    qed (use ih(3) i here in \<open>simp_all add: slot_put_other\<close>)
  qed
  with ih(1,2) fits show ?case by simp
qed auto

lemma pack_from_fits:
  "\<forall>s \<in> set statuses. s \<le> bits_mask b \<Longrightarrow> is_ok (pack_from b idx statuses packed)"
  by (induction statuses arbitrary: idx packed) (auto simp: Let_def not_less is_ok_def)

lemma slot_zeros: "i div perByte b < n \<Longrightarrow> slot b (replicate n 0) i = 0"
  by (simp add: slot_def)

lemma packed_capacity:
  assumes "Bits_valid b"
  shows "n \<le> ((n + perByte b - 1) div perByte b) * perByte b"
  using assms by (auto simp: Bits_valid_def perByte_def)

lemma Pack_Inr:
  assumes "Pack b statuses = Inr packed"
  shows "Bits_valid b" and "length packed = (length statuses + perByte b - 1) div perByte b"
    and "\<forall>s \<in> set statuses. s \<le> bits_mask b"
    and "\<forall>i < length packed * perByte b. slot b packed i =
      (if i < length statuses then statuses ! i else 0)"
proof -
  let ?n = "(length statuses + perByte b - 1) div perByte b"
  from assms show valid: "Bits_valid b" by (auto simp: Pack_def split: if_splits)
  with assms have run: "pack_from b 0 statuses (replicate ?n 0) = Inr packed"
    by (simp add: Pack_def)
  have zero: "\<forall>i \<ge> 0. i < length (replicate ?n (0 :: byte)) * perByte b \<longrightarrow> slot b (replicate ?n 0) i = 0"
    by (simp add: slot_zeros less_mult_imp_div_less)
  have "0 + length statuses \<le> length (replicate ?n (0 :: byte)) * perByte b"
    using packed_capacity [OF valid] by simp
  from pack_from_Inr [OF valid this zero run]
  show "length packed = ?n" "\<forall>s \<in> set statuses. s \<le> bits_mask b"
    "\<forall>i < length packed * perByte b. slot b packed i = (if i < length statuses then statuses ! i else 0)"
    by auto
qed

lemma Unpack_slot:
  "Bits_valid b \<Longrightarrow> i < length packed * perByte b \<Longrightarrow> Unpack b packed (int i) = Inr (slot b packed i)"
  using Bits_validD(2) [of b]
  by (simp add: Unpack_def slot_def less_mult_imp_div_less not_le Let_def)

lemma Unpack_Inr:
  "Unpack b packed idx = Inr v \<longleftrightarrow>
     Bits_valid b \<and> 0 \<le> idx \<and> nat idx div perByte b < length packed \<and>
     v = drop_bit (bit_offset b (nat idx)) (packed ! (nat idx div perByte b)) AND bits_mask b"
  by (auto simp: Unpack_def Let_def)

section \<open>Reading one byte and reading all\<close>

lemma decompress_Inr:
  "decompress inflate raw = Inr out \<longleftrightarrow>
     inflate raw = Inr (out, False) \<and> length out \<le> maxDecompressedSize"
  by (auto simp: decompress_def Let_def split: sum.splits prod.splits)

lemma decompressedByte_read:
  assumes "inflate raw = Inr (stream, fails)" and "idx < maxDecompressedSize"
  shows "decompressedByte inflate raw idx =
    (if length stream \<le> idx then (if fails then Inl Decompress else Inr None)
     else if length stream > maxDecompressedSize then Inl TooLarge
     else if fails then Inl Decompress
     else Inr (Some (stream ! idx)))"
proof (cases "length stream \<le> idx")
  case True
  then consider "length stream < idx" | "length stream = idx" by linarith
  then show ?thesis
    by cases (use assms in \<open>auto simp: decompressedByte_def limited_read_def Let_def min_def\<close>)
next
  case False
  with assms(2) have first: "min idx (min (maxDecompressedSize + 1) (length stream)) = idx"
    and one: "take 1 (drop idx stream) = [stream ! idx]"
    by (auto simp: take_Suc hd_drop_conv_nth)
  from False assms(2) have "min 1 (min (maxDecompressedSize + 1 - idx) (length stream - idx)) = 1"
    by auto
  with first one False assms show ?thesis
    by (auto simp: decompressedByte_def limited_read_def limited_drain_def Let_def)
qed

lemma decompressedByte_Inr:
  assumes "idx < maxDecompressedSize"
  shows "decompressedByte inflate raw idx = Inr (Some b) \<longleftrightarrow>
    (\<exists>out. decompress inflate raw = Inr out \<and> idx < length out \<and> b = out ! idx)"
proof (cases "inflate raw")
  case (Inl e)
  then show ?thesis by (simp add: decompressedByte_def decompress_Inr)
next
  case (Inr sf)
  then show ?thesis
    by (cases sf) (auto simp: decompressedByte_read [OF _ assms] decompress_Inr not_less)
qed

lemma Status_Inr:
  "StatusList_Status inflate sl idx = Inr v \<longleftrightarrow>
     (\<exists>d. StatusList_Decode inflate sl = Inr d \<and> Decoded_Status d idx = Inr v)"
proof (cases "Bits_valid (sl_Bits sl) \<and> 0 \<le> idx \<and> nat idx div perByte (sl_Bits sl) < maxDecompressedSize")
  case True
  let ?i = "nat idx div perByte (sl_Bits sl)"
  have run: "StatusList_Status inflate sl idx = Inr v \<longleftrightarrow>
      (\<exists>raw b. DecodeString (sl_Lst sl) = Inr raw \<and> decompressedByte inflate raw ?i = Inr (Some b) \<and>
        v = drop_bit (bit_offset (sl_Bits sl) (nat idx)) b AND bits_mask (sl_Bits sl))"
    using True by (fastforce simp: StatusList_Status_def Let_def rbind_Inr_iff split: option.splits)
  show ?thesis
    unfolding run decompressedByte_Inr [OF conjunct2 [OF conjunct2 [OF True]]]
    using True
    by (fastforce simp: StatusList_Decode_def rbind_Inr_iff Decoded_Status_def Unpack_Inr)
next
  case False
  then show ?thesis
    by (fastforce simp: StatusList_Status_def StatusList_Decode_def Decoded_Status_def Unpack_Inr Let_def
      rbind_Inr_iff decompress_Inr split: if_splits)
qed

lemma New_Status:
  assumes "\<And>level b raw. deflate level b = Some raw \<Longrightarrow> inflate raw = Inr (b, False) \<and> (\<forall>x \<in> set raw. x < 256)"
    and "StatusList_New deflate b statuses uri = Inr sl"
    and "length statuses \<le> maxDecompressedSize * perByte b" and "i < length statuses"
  shows "StatusList_Status inflate sl (int i) = Inr (statuses ! i)"
proof -
  from assms(2) obtain packed raw level where packed: "Pack b statuses = Inr packed"
    and raw: "deflate level packed = Some raw"
    and sl: "sl = \<lparr> sl_Bits = b, sl_Lst = EncodeToString raw, sl_AggregationURI = uri \<rparr>"
    by (fastforce simp: StatusList_New_def rbind_Inr_iff compress_def split: option.splits if_splits)
  note valid = Pack_Inr(1) [OF packed] and len = Pack_Inr(2) [OF packed]
  have "length packed \<le> maxDecompressedSize"
    using valid assms(3) unfolding len by (auto simp: Bits_valid_def perByte_def)
  then have decode: "StatusList_Decode inflate sl = Inr \<lparr> d_Bits = b, d_Packed = packed \<rparr>"
    using assms(1) [OF raw] assms(3) valid strict_decode_encode [of raw] EncodeToString_alphabet
    by (simp add: sl StatusList_Decode_def rbind_Inr_iff decompress_Inr DecodeString_Inr)
  have "i < length packed * perByte b"
    using packed_capacity [OF valid, of "length statuses"] assms(4) unfolding len by linarith
  then have "Unpack b packed (int i) = Inr (statuses ! i)"
    using Pack_Inr(4) [OF packed] assms(4) by (simp add: Unpack_slot [OF valid])
  with decode show ?thesis by (simp add: Status_Inr Decoded_Status_def)
qed

section \<open>Properties\<close>

text \<open>Packing then reading gives every status back, and a zero status in the padding of the last
  byte; \<open>Pack\<close> fails exactly on an invalid width or a status too wide for it.\<close>

theorem pack_unpack:
  "(is_ok (Pack b statuses) \<longleftrightarrow> Bits_valid b \<and> (\<forall>s \<in> set statuses. s \<le> bits_mask b)) \<and>
   (\<forall>packed i. Pack b statuses = Inr packed \<and> i < length packed * perByte b \<longrightarrow>
      Unpack b packed (int i) = Inr (if i < length statuses then statuses ! i else 0))"
proof (intro conjI allI impI)
  show "is_ok (Pack b statuses) \<longleftrightarrow> Bits_valid b \<and> (\<forall>s \<in> set statuses. s \<le> bits_mask b)"
    using Pack_Inr(1,3) pack_from_fits by (fastforce simp: Pack_def is_ok_iff)
  fix packed i
  assume "Pack b statuses = Inr packed \<and> i < length packed * perByte b"
  with Pack_Inr(1,4) [of b statuses packed]
  show "Unpack b packed (int i) = Inr (if i < length statuses then statuses ! i else 0)"
    by (simp add: Unpack_slot)
qed

theorem pack_unpack_witness:
  "is_ok (Pack 2 [1, 3, 0, 2, 1])"
  by (rule conjunct1 [OF pack_unpack, THEN iffD2]) (simp add: Bits_valid_def bits_mask_def)

text \<open>Streaming to one status and decoding the whole list agree: they return the same status for the
  same indices, and fail together, on every list an issuer could send, however it inflates.\<close>

theorem status_streaming_agrees:
  "StatusList_Status inflate sl idx = Inr v \<longleftrightarrow>
     (\<exists>d. StatusList_Decode inflate sl = Inr d \<and> Decoded_Status d idx = Inr v)"
  by (rule Status_Inr)

text \<open>What \<open>New\<close> builds reads back, when zlib inflates what it deflated: every status put in is the
  status \<open>Status\<close> reports.\<close>

theorem new_list_reads_back:
  assumes "\<And>level b raw. deflate level b = Some raw \<Longrightarrow> inflate raw = Inr (b, False) \<and> (\<forall>x \<in> set raw. x < 256)"
    and "StatusList_New deflate b statuses uri = Inr sl"
    and "length statuses \<le> maxDecompressedSize * perByte b" and "i < length statuses"
  shows "StatusList_Status inflate sl (int i) = Inr (statuses ! i)"
  by (rule New_Status [OF assms])

theorem new_list_reads_back_witness:
  "StatusList_Status (\<lambda>raw. Inr (map of_nat raw, False))
     \<lparr> sl_Bits = 2, sl_Lst = EncodeToString [13, 2], sl_AggregationURI = [] \<rparr> 4 = Inr 2"
proof -
  have byte: "unat (x :: byte) < 256" for x using unsigned_less [of x] by simp
  have packed: "Pack 2 [1, 3, 0, 0, 2] = Inr [13, 2]"
    by code_simp
  have "StatusList_New (\<lambda>_ b. Some (map unat b)) 2 [1, 3, 0, 0, 2] [] =
      Inr \<lparr> sl_Bits = 2, sl_Lst = EncodeToString [13, 2], sl_AggregationURI = [] \<rparr>"
    using packed by (simp add: StatusList_New_def rbind_def compress_def)
  from new_list_reads_back [OF _ this, of "\<lambda>raw. Inr (map of_nat raw, False)" 4]
  show ?thesis by (simp add: byte maxDecompressedSize_def perByte_def comp_def)
qed

text \<open>The status of a reference, read from a token's claims: the list is the one the claim names, it decompresses whole within the bound
  (or was kept decompressed), and this is the status at the index.\<close>

definition status_reads ::
  "inflater \<Rightarrow> string \<Rightarrow> status_list \<Rightarrow> status_list_ref \<Rightarrow> decoded_list option \<Rightarrow> byte \<Rightarrow> bool" where
  "status_reads inflate sub sl ref decoded status =
     (sub = ref_URI ref \<and> ref_Idx ref < 2 ^ 63 \<and>
      (\<exists>d. (case decoded of None \<Rightarrow> StatusList_Decode inflate sl = Inr d | Some kept \<Rightarrow> kept = d) \<and>
         Unpack (d_Bits d) (d_Packed d) (int (ref_Idx ref)) = Inr status))"

lemma checkClaims_reads: "checkClaims inflate sub sl ref decoded = Inr status \<longleftrightarrow> status_reads inflate sub sl ref decoded status"
  by (cases decoded) (auto simp: status_reads_def checkClaims_def Status_Inr Decoded_Status_def Unpack_Inr)

text \<open>C40: A status check, once its token has been verified, fails closed. It returns a status without an error exactly when the token is
  for the list the claim names and that status is the one at the claim's index of the whole list, which decompresses within the bound (or was
  kept decompressed); every error, of this or of an earlier step, comes with \<open>INVALID\<close>; so \<open>VALID\<close> is returned exactly when the
  status there is zero.\<close>

theorem valid_status_only:
  "(\<forall>status. failClosed (checkClaims inflate sub sl ref decoded) = (status, None) \<longleftrightarrow> status_reads inflate sub sl ref decoded status) \<and>
   (\<forall>status e. failClosed (checkClaims inflate sub sl ref decoded) = (status, Some e) \<longleftrightarrow>
      status = StatusInvalid \<and> checkClaims inflate sub sl ref decoded = Inl e) \<and>
   (\<forall>e. failClosed (Inl e) = (StatusInvalid, Some e)) \<and>
   (fst (failClosed (checkClaims inflate sub sl ref decoded)) = StatusValid \<longleftrightarrow> status_reads inflate sub sl ref decoded 0)"
proof -
  have "failClosed r = (status, None) \<longleftrightarrow> r = Inr status" "failClosed r = (status, Some e) \<longleftrightarrow> status = StatusInvalid \<and> r = Inl e"
    "fst (failClosed r) = StatusValid \<longleftrightarrow> r = Inr 0" for r status e
    by (auto simp: failClosed_def StatusValid_def StatusInvalid_def split: sum.splits)
  then show ?thesis by (simp add: failClosed_def checkClaims_reads)
qed

text \<open>A claim written for a token reads back as the same reference once it has been through JSON,
  where every number is a float, for every index a float holds exactly.\<close>

theorem status_claim_roundtrip:
  assumes "idx \<le> 2 ^ 53" and "uri \<noteq> []"
  shows "ParseStatusClaim
      [(''status_list'', GObj [(''idx'', GFloat (Finite (of_nat idx))), (''uri'', GStr uri)])] =
    Inr \<lparr> ref_Idx = idx, ref_URI = uri \<rparr>"
proof -
  have "rat_of_nat idx \<le> 2 ^ 53" using assms(1) by (metis of_nat_le_iff of_nat_numeral of_nat_power)
  with assms show ?thesis by (simp add: ParseStatusClaim_def)
qed

theorem status_claim_roundtrip_witness:
  "ParseStatusClaim [(''status_list'', GObj [(''idx'', GFloat (Finite 7)), (''uri'', GStr ''u'')])] =
     Inr \<lparr> ref_Idx = 7, ref_URI = ''u'' \<rparr>"
  using status_claim_roundtrip [of 7 "''u''"] by simp

end
