(* ===== verification/Status_Store.thy ===== *)
theory Status_Store
  imports Status_Bits
begin

text \<open>
  The index stores of \<open>src/statuslist/allocator.go\<close> (\<open>IndexStore\<close>, \<open>BatchIndexStore\<close>) and
  \<open>src/statuslist/memory_index_store.go\<close>. An index is a \<open>uint64\<close>, a natural number here; a list's size is an \<open>int\<close>.

  The Go interfaces are a record of operations over a state the store alone knows; the locales
  \<open>index_store\<close> and \<open>batch_index_store\<close> are what the interfaces' comments promise, over the map from
  list and index to status a state stands for. \<open>MemoryIndexStore\<close> keeps a map of maps and is an
  interpretation of both. The shared lemmas say what any sequence of calls on a store that keeps
  the contract, from any number of processes, can do.
\<close>

datatype store_error = IndexTaken | IndexNotReserved | StoreFails

type_synonym index_map = "(string \<times> nat) \<Rightarrow> byte option"

record 's index_store_ops =
  op_Reserve :: "'s \<Rightarrow> string \<Rightarrow> nat \<Rightarrow> store_error option \<times> 's"
  op_Reserved :: "'s \<Rightarrow> string \<Rightarrow> store_error + nat"
  op_SetStatus :: "'s \<Rightarrow> string \<Rightarrow> nat \<Rightarrow> byte \<Rightarrow> store_error option \<times> 's"
  op_Status :: "'s \<Rightarrow> string \<Rightarrow> nat \<Rightarrow> store_error + byte"
  op_Statuses :: "'s \<Rightarrow> string \<Rightarrow> int \<Rightarrow> store_error + byte list"
  op_Delete :: "'s \<Rightarrow> string \<Rightarrow> store_error option \<times> 's"
  op_ReserveEach :: "('s \<Rightarrow> string \<Rightarrow> nat list \<Rightarrow> (store_error + nat list) \<times> 's) option"

section \<open>The contract\<close>

text \<open>The reserved indices of a list, and what reserving several makes of the map.\<close>

definition reserved_of :: "index_map \<Rightarrow> string \<Rightarrow> nat set" where
  "reserved_of m u = {i. m (u, i) \<noteq> None}"

definition reserve_all :: "string \<Rightarrow> nat list \<Rightarrow> index_map \<Rightarrow> index_map" where
  "reserve_all u idxs m = (\<lambda>(u', i). if u' = u \<and> i \<in> set idxs then Some StatusValid else m (u', i))"

definition forget_list :: "string \<Rightarrow> index_map \<Rightarrow> index_map" where
  "forget_list u m = (\<lambda>(u', i). if u' = u then None else m (u', i))"

lemma reserve_all_simps [simp]:
  "reserve_all u [] m = m"
  "reserve_all u (i # idxs) m = (reserve_all u idxs m)((u, i) \<mapsto> StatusValid)"
  by (auto simp: reserve_all_def fun_eq_iff)

lemma reserve_all_append: "reserve_all u (is @ js) m = reserve_all u js (reserve_all u is m)"
  by (auto simp: reserve_all_def fun_eq_iff)

text \<open>A call that fails for another reason than the documented ones may or may not have been carried
  out: its caller cannot know. It never takes back a reservation.\<close>

locale index_store =
  fixes ops :: "'s index_store_ops" and rep :: "'s \<Rightarrow> index_map" and inv :: "'s \<Rightarrow> bool"
  assumes reserve_inv: "inv s \<Longrightarrow> op_Reserve ops s u i = (r, s') \<Longrightarrow> inv s'"
    and reserve_done: "inv s \<Longrightarrow> op_Reserve ops s u i = (None, s') \<Longrightarrow>
      rep s (u, i) = None \<and> rep s' = (rep s)((u, i) \<mapsto> StatusValid)"
    and reserve_taken: "inv s \<Longrightarrow> op_Reserve ops s u i = (Some IndexTaken, s') \<Longrightarrow>
      rep s (u, i) \<noteq> None \<and> rep s' = rep s"
    and reserve_fails: "inv s \<Longrightarrow> op_Reserve ops s u i = (Some e, s') \<Longrightarrow>
      rep s \<subseteq>\<^sub>m rep s' \<and> (\<forall>k. k \<noteq> (u, i) \<longrightarrow> rep s' k = rep s k)"
    and reserved_counts: "inv s \<Longrightarrow> op_Reserved ops s u = Inr n \<Longrightarrow>
      finite (reserved_of (rep s) u) \<and> n = card (reserved_of (rep s) u)"
    and set_status_inv: "inv s \<Longrightarrow> op_SetStatus ops s u i st = (r, s') \<Longrightarrow> inv s'"
    and set_status_done: "inv s \<Longrightarrow> op_SetStatus ops s u i st = (None, s') \<Longrightarrow>
      rep s (u, i) \<noteq> None \<and> rep s' = (rep s)((u, i) \<mapsto> st)"
    and set_status_fails: "inv s \<Longrightarrow> op_SetStatus ops s u i st = (Some e, s') \<Longrightarrow>
      dom (rep s') = dom (rep s) \<and> (e = IndexNotReserved \<longrightarrow> rep s (u, i) = None \<and> rep s' = rep s)"
    and status_reads: "inv s \<Longrightarrow> op_Status ops s u i = Inr st \<Longrightarrow> rep s (u, i) = Some st"
    and statuses_reads: "inv s \<Longrightarrow> op_Statuses ops s u k = Inr sts \<Longrightarrow>
      length sts = nat k \<and> (\<forall>i < nat k. sts ! i = (case rep s (u, i) of None \<Rightarrow> StatusValid | Some st \<Rightarrow> st)) \<and>
      (\<forall>i \<in> reserved_of (rep s) u. int i < k)"
    and delete_inv: "inv s \<Longrightarrow> op_Delete ops s u = (r, s') \<Longrightarrow> inv s'"
    and delete_done: "inv s \<Longrightarrow> op_Delete ops s u = (None, s') \<Longrightarrow> rep s' = forget_list u (rep s)"
    and delete_fails: "inv s \<Longrightarrow> op_Delete ops s u = (r, s') \<Longrightarrow>
      \<forall>u' i. u' \<noteq> u \<longrightarrow> rep s' (u', i) = rep s (u', i)"

locale batch_index_store = index_store +
  assumes reserve_each_inv: "op_ReserveEach ops = Some f \<Longrightarrow> inv s \<Longrightarrow> f s u idxs = (r, s') \<Longrightarrow> inv s'"
    and reserve_each_done: "op_ReserveEach ops = Some f \<Longrightarrow> inv s \<Longrightarrow> distinct idxs \<Longrightarrow>
      f s u idxs = (Inr got, s') \<Longrightarrow>
      distinct got \<and> set got = {i \<in> set idxs. rep s (u, i) = None} \<and> rep s' = reserve_all u got (rep s)"
    and reserve_each_fails: "op_ReserveEach ops = Some f \<Longrightarrow> inv s \<Longrightarrow> f s u idxs = (Inl e, s') \<Longrightarrow>
      rep s \<subseteq>\<^sub>m rep s'"

section \<open>Interleaved calls\<close>

text \<open>A call of the store by some process, and the state after a sequence of them.\<close>

datatype store_call =
    CallReserve string nat
  | CallSetStatus string nat byte
  | CallDelete string

fun store_step :: "'s index_store_ops \<Rightarrow> store_call \<Rightarrow> 's \<Rightarrow> store_error option \<times> 's" where
  "store_step ops (CallReserve u i) s = op_Reserve ops s u i"
| "store_step ops (CallSetStatus u i st) s = op_SetStatus ops s u i st"
| "store_step ops (CallDelete u) s = op_Delete ops s u"

text \<open>The calls of a sequence with the answer each got.\<close>

fun store_run :: "'s index_store_ops \<Rightarrow> store_call list \<Rightarrow> 's \<Rightarrow> (store_call \<times> store_error option) list" where
  "store_run ops [] s = []"
| "store_run ops (c # cs) s = (case store_step ops c s of (r, s') \<Rightarrow> (c, r) # store_run ops cs s')"

context index_store
begin

lemma step_inv: "inv s \<Longrightarrow> store_step ops c s = (r, s') \<Longrightarrow> inv s'"
  by (cases c) (auto intro: reserve_inv set_status_inv delete_inv)

lemma step_keeps_reserved:
  assumes "inv s" and "store_step ops c s = (r, s')" and "c \<noteq> CallDelete u" and "rep s (u, i) \<noteq> None"
  shows "rep s' (u, i) \<noteq> None"
proof (cases c)
  case (CallReserve u' i')
  show ?thesis
  proof (cases r)
    case None
    with CallReserve assms reserve_done [of s u' i' s'] show ?thesis by auto
  next
    case (Some e)
    with CallReserve assms(1,2) have "rep s \<subseteq>\<^sub>m rep s'" using reserve_fails by auto
    with assms(4) show ?thesis by (metis domIff map_le_def)
  qed
next
  case (CallSetStatus u' i' st)
  show ?thesis
  proof (cases r)
    case None
    with CallSetStatus assms set_status_done [of s u' i' st s'] show ?thesis by auto
  next
    case (Some e)
    with CallSetStatus assms(1,2) have "dom (rep s') = dom (rep s)" using set_status_fails by auto
    with assms(4) show ?thesis by (metis domIff)
  qed
next
  case (CallDelete u')
  with assms delete_fails [of s u' r s'] show ?thesis by auto
qed

lemma reserved_stays_reserved:
  assumes "inv s" and "rep s (u, i) \<noteq> None" and "CallDelete u \<notin> set cs"
  shows "(CallReserve u i, None) \<notin> set (store_run ops cs s)"
  using assms
proof (induction cs arbitrary: s)
  case (Cons c cs)
  obtain r s' where step: "store_step ops c s = (r, s')" by (cases "store_step ops c s")
  have "inv s'" using step_inv [OF Cons.prems(1) step] .
  moreover have "rep s' (u, i) \<noteq> None"
    using step_keeps_reserved [OF Cons.prems(1) step] Cons.prems(2,3) by auto
  ultimately have "(CallReserve u i, None) \<notin> set (store_run ops cs s')"
    using Cons.IH Cons.prems(3) by simp
  moreover have "(c, r) \<noteq> (CallReserve u i, None)"
    using reserve_done [OF Cons.prems(1), of u i s'] step Cons.prems(2) by (cases r) auto
  ultimately show ?case by (auto simp: step)
qed simp

text \<open>Whoever makes the calls and in whatever order, a reservation is granted at most once.\<close>

lemma granted_once:
  assumes "inv s" and "CallDelete u \<notin> set cs"
  shows "count_list (store_run ops cs s) (CallReserve u i, None) \<le> 1"
  using assms
proof (induction cs arbitrary: s)
  case (Cons c cs)
  obtain r s' where step: "store_step ops c s = (r, s')" by (cases "store_step ops c s")
  have inv: "inv s'" using step_inv [OF Cons.prems(1) step] .
  show ?case
  proof (cases "(c, r) = (CallReserve u i, None)")
    case True
    then have "rep s' (u, i) \<noteq> None" using reserve_done [OF Cons.prems(1)] step by auto
    then have "(CallReserve u i, None) \<notin> set (store_run ops cs s')"
      using reserved_stays_reserved [OF inv] Cons.prems(2) by simp
    with True step show ?thesis by (simp add: count_list_0_iff)
  next
    case False
    then have "count_list (store_run ops (c # cs) s) (CallReserve u i, None) =
        count_list (store_run ops cs s') (CallReserve u i, None)"
      by (auto simp: step)
    with Cons.IH [OF inv] Cons.prems(2) show ?thesis by simp
  qed
qed simp

end

section \<open>The store in memory\<close>

type_synonym mem_lists = "(string, (nat, byte) gomap) gomap"

text \<open>\<open>s.list(uri)\<close>: the list's map, and the state with it made.\<close>

definition mem_list :: "mem_lists \<Rightarrow> string \<Rightarrow> (nat, byte) gomap \<times> mem_lists" where
  "mem_list s uri =
     (case gm_get s uri of
        Some list \<Rightarrow> (list, s)
      | None \<Rightarrow> ([], gm_put uri [] s))"

definition mem_Reserve :: "mem_lists \<Rightarrow> string \<Rightarrow> nat \<Rightarrow> store_error option \<times> mem_lists" where
  "mem_Reserve s uri idx =
     (case mem_list s uri of
        (list, s) \<Rightarrow>
          (if gm_get list idx \<noteq> None then (Some IndexTaken, s)
           else (None, gm_put uri (gm_put idx StatusValid list) s)))"

fun mem_reserve_each :: "nat list \<Rightarrow> (nat, byte) gomap \<Rightarrow> nat list \<times> (nat, byte) gomap" where
  "mem_reserve_each [] list = ([], list)"
| "mem_reserve_each (idx # idxs) list =
     (if gm_get list idx = None
      then (case mem_reserve_each idxs (gm_put idx StatusValid list) of (reserved, list) \<Rightarrow> (idx # reserved, list))
      else mem_reserve_each idxs list)"

definition mem_ReserveEach :: "mem_lists \<Rightarrow> string \<Rightarrow> nat list \<Rightarrow> (store_error + nat list) \<times> mem_lists" where
  "mem_ReserveEach s uri idxs =
     (case mem_list s uri of
        (list, s) \<Rightarrow>
          (case mem_reserve_each idxs list of
             (reserved, list) \<Rightarrow> (Inr reserved, gm_put uri list s)))"

text \<open>Reading a map that is nil: every index is absent.\<close>

definition mem_read :: "mem_lists \<Rightarrow> string \<Rightarrow> (nat, byte) gomap" where
  "mem_read s uri = (case gm_get s uri of None \<Rightarrow> [] | Some list \<Rightarrow> list)"

definition mem_Reserved :: "mem_lists \<Rightarrow> string \<Rightarrow> store_error + nat" where
  "mem_Reserved s uri = Inr (length (mem_read s uri))"

definition mem_SetStatus :: "mem_lists \<Rightarrow> string \<Rightarrow> nat \<Rightarrow> byte \<Rightarrow> store_error option \<times> mem_lists" where
  "mem_SetStatus s uri idx status =
     (if gm_get (mem_read s uri) idx = None then (Some IndexNotReserved, s)
      else (None, gm_put uri (gm_put idx status (mem_read s uri)) s))"

definition mem_Status :: "mem_lists \<Rightarrow> string \<Rightarrow> nat \<Rightarrow> store_error + byte" where
  "mem_Status s uri idx =
     (case gm_get (mem_read s uri) idx of
        None \<Rightarrow> Inl IndexNotReserved
      | Some status \<Rightarrow> Inr status)"

fun mem_fill :: "int \<Rightarrow> (nat, byte) gomap \<Rightarrow> byte list \<Rightarrow> store_error + byte list" where
  "mem_fill n [] statuses = Inr statuses"
| "mem_fill n ((idx, status) # list) statuses =
     (if int idx \<ge> n then Inl StoreFails else mem_fill n list (statuses[idx := status]))"

definition mem_Statuses :: "mem_lists \<Rightarrow> string \<Rightarrow> int \<Rightarrow> store_error + byte list" where
  "mem_Statuses s uri n =
     (if n < 0 then Inl StoreFails
      else mem_fill n (mem_read s uri) (replicate (nat n) 0))"

definition mem_Delete :: "mem_lists \<Rightarrow> string \<Rightarrow> store_error option \<times> mem_lists" where
  "mem_Delete s uri = (None, gm_del uri s)"

definition MemoryIndexStore :: "mem_lists index_store_ops" where
  "MemoryIndexStore =
     \<lparr> op_Reserve = mem_Reserve, op_Reserved = mem_Reserved, op_SetStatus = mem_SetStatus,
       op_Status = mem_Status, op_Statuses = mem_Statuses, op_Delete = mem_Delete,
       op_ReserveEach = Some mem_ReserveEach \<rparr>"

definition mem_rep :: "mem_lists \<Rightarrow> index_map" where
  "mem_rep s = (\<lambda>(u, i). gm_get (mem_read s u) i)"

text \<open>The keys of a Go map are distinct, and a \<open>uint64\<close> is not negative.\<close>

definition mem_ok :: "mem_lists \<Rightarrow> bool" where
  "mem_ok s = (gm_ok s \<and> (\<forall>u. gm_ok (mem_read s u)))"

lemma mem_read_put [simp]: "mem_read (gm_put u l s) u' = (if u' = u then l else mem_read s u')"
  by (simp add: mem_read_def)

lemma mem_read_del [simp]: "mem_read (gm_del u s) u' = (if u' = u then [] else mem_read s u')"
  by (simp add: mem_read_def)

lemma mem_list_read: "mem_list s u = (l, s') \<Longrightarrow> l = mem_read s u \<and> mem_rep s' = mem_rep s \<and> (mem_ok s \<longrightarrow> mem_ok s')"
  by (auto simp: mem_list_def mem_rep_def mem_ok_def mem_read_def fun_eq_iff
    split: option.splits if_splits)

lemma mem_ok_put: "mem_ok s \<Longrightarrow> gm_ok l \<Longrightarrow> mem_ok (gm_put u l s)"
  by (simp add: mem_ok_def)

lemma mem_rep_put:
  "mem_rep (gm_put u l s) = (\<lambda>(u', i). if u' = u then gm_get l i else mem_rep s (u', i))"
  by (auto simp: mem_rep_def fun_eq_iff)

lemma mem_reserve_each:
  "mem_reserve_each idxs l = (got, l') \<Longrightarrow> distinct idxs \<Longrightarrow>
     distinct got \<and> set got = {i \<in> set idxs. gm_get l i = None} \<and>
     gm_get l' = (\<lambda>i. if i \<in> set got then Some StatusValid else gm_get l i)"
proof (induction idxs arbitrary: l got l')
  case (Cons i idxs)
  show ?case
  proof (cases "gm_get l i")
    case None
    then obtain got' where run: "mem_reserve_each idxs (gm_put i StatusValid l) = (got', l')" "got = i # got'"
      using Cons.prems by (auto split: prod.splits)
    from Cons.IH [OF run(1)] Cons.prems(2) None run(2) show ?thesis by (auto simp: fun_eq_iff)
  next
    case (Some st)
    then have run: "mem_reserve_each idxs l = (got, l')" using Cons.prems(1) by simp
    have "{j \<in> set (i # idxs). gm_get l j = None} = {j \<in> set idxs. gm_get l j = None}"
      using Some by auto
    with Cons.IH [OF run] Cons.prems(2) show ?thesis by simp
  qed
qed simp

lemma mem_reserve_each_ok: "mem_reserve_each idxs l = (got, l') \<Longrightarrow> gm_ok l \<Longrightarrow> gm_ok l'"
  by (induction idxs arbitrary: l got l') (auto split: if_splits prod.splits)

lemma mem_read_rep: "gm_get (mem_read s u) i = mem_rep s (u, i)"
  by (simp add: mem_rep_def)

lemma mem_read_ok: "mem_ok s \<Longrightarrow> gm_ok (mem_read s u)"
  by (simp add: mem_ok_def)

lemma reserved_of_mem: "reserved_of (mem_rep s) u = dom (gm_get (mem_read s u))"
  by (auto simp: reserved_of_def mem_rep_def)

lemma mem_fill_Inr:
  assumes "mem_fill n l sts = Inr out" and "gm_ok l" and "length sts = nat n"
  shows "length out = nat n \<and> (\<forall>i \<in> dom (gm_get l). int i < n) \<and>
    (\<forall>i < nat n. out ! i = (case gm_get l i of None \<Rightarrow> sts ! i | Some st \<Rightarrow> st))"
  using assms
proof (induction l arbitrary: sts)
  case (Cons a l)
  obtain idx st where a: "a = (idx, st)" by (cases a)
  from Cons.prems(1) have n: "int idx < n" and run: "mem_fill n l (sts[idx := st]) = Inr out"
    by (auto simp: a split: if_splits)
  have fresh: "gm_get l idx = None" using Cons.prems(2) by (simp add: a map_of_eq_None_iff)
  from Cons.IH [OF run] Cons.prems(2,3)
  have ih: "length out = nat n" "\<forall>i \<in> dom (gm_get l). int i < n"
    "\<forall>i < nat n. out ! i = (case gm_get l i of None \<Rightarrow> sts[idx := st] ! i | Some st \<Rightarrow> st)"
    by (simp_all add: a)
  then show ?case
    using n fresh Cons.prems(3) by (auto simp: a nth_list_update split: option.splits)
qed simp

section \<open>It keeps the contract\<close>

lemma mem_Reserve_cases:
  assumes "mem_ok s" and "mem_Reserve s u i = (r, s')"
  shows "mem_ok s' \<and>
    (r = None \<and> mem_rep s (u, i) = None \<and> mem_rep s' = (mem_rep s)((u, i) \<mapsto> StatusValid) \<or>
     r = Some IndexTaken \<and> mem_rep s (u, i) \<noteq> None \<and> mem_rep s' = mem_rep s)"
proof -
  obtain l s1 where l: "mem_list s u = (l, s1)" by (cases "mem_list s u")
  have s1: "l = mem_read s u" "mem_rep s1 = mem_rep s" "mem_ok s1"
    using mem_list_read [OF l] assms(1) by auto
  show ?thesis
  proof (cases "mem_rep s (u, i)")
    case None
    then have run: "r = None" "s' = gm_put u (gm_put i StatusValid l) s1"
      using assms(2) l s1 by (auto simp: mem_Reserve_def mem_read_rep)
    have "gm_ok (gm_put i StatusValid l)" using mem_read_ok [OF assms(1)] s1(1) by simp
    with run s1 None show ?thesis
      by (auto simp: mem_ok_put mem_rep_put fun_eq_iff mem_read_rep)
  next
    case (Some st)
    with assms(2) l s1 show ?thesis by (auto simp: mem_Reserve_def mem_read_rep)
  qed
qed

lemma mem_SetStatus_cases:
  assumes "mem_ok s" and "mem_SetStatus s u i st = (r, s')"
  shows "mem_ok s' \<and>
    (r = None \<and> mem_rep s (u, i) \<noteq> None \<and> mem_rep s' = (mem_rep s)((u, i) \<mapsto> st) \<or>
     r = Some IndexNotReserved \<and> mem_rep s (u, i) = None \<and> mem_rep s' = mem_rep s)"
proof (cases "mem_rep s (u, i)")
  case (Some st')
  then have "r = None" "s' = gm_put u (gm_put i st (mem_read s u)) s"
    using assms(2) by (auto simp: mem_SetStatus_def mem_read_rep)
  with Some mem_read_ok [OF assms(1), of u] assms(1) show ?thesis
    by (auto simp: mem_ok_put mem_rep_put fun_eq_iff mem_read_rep)
qed (use assms in \<open>auto simp: mem_SetStatus_def mem_read_rep\<close>)

lemma mem_ReserveEach_cases:
  assumes "mem_ok s" and "mem_ReserveEach s u idxs = (r, s')"
  shows "mem_ok s' \<and> (\<exists>got. r = Inr got \<and> (distinct idxs \<longrightarrow>
      distinct got \<and> set got = {i \<in> set idxs. mem_rep s (u, i) = None} \<and>
      mem_rep s' = reserve_all u got (mem_rep s)))"
proof -
  obtain l s1 where l: "mem_list s u = (l, s1)" by (cases "mem_list s u")
  have s1: "l = mem_read s u" "mem_rep s1 = mem_rep s" "mem_ok s1"
    using mem_list_read [OF l] assms(1) by auto
  obtain got l' where each: "mem_reserve_each idxs l = (got, l')" by (cases "mem_reserve_each idxs l")
  with assms(2) l have run: "r = Inr got" "s' = gm_put u l' s1" by (auto simp: mem_ReserveEach_def)
  have "mem_ok s'"
    using mem_reserve_each_ok [OF each] mem_read_ok [OF assms(1)] s1 run(2) by (simp add: mem_ok_put)
  moreover have "distinct got \<and> set got = {i \<in> set idxs. mem_rep s (u, i) = None} \<and>
      mem_rep s' = reserve_all u got (mem_rep s)" if "distinct idxs"
    using mem_reserve_each [OF each that] s1(1,2) run(2)
    by (auto simp: mem_read_rep mem_rep_put reserve_all_def fun_eq_iff)
  ultimately show ?thesis using run(1) by blast
qed

lemma mem_Statuses_Inr:
  assumes "mem_ok s" and "mem_Statuses s u n = Inr sts"
  shows "length sts = nat n \<and>
    (\<forall>i < nat n. sts ! i = (case mem_rep s (u, i) of None \<Rightarrow> StatusValid | Some st \<Rightarrow> st)) \<and>
    (\<forall>i \<in> reserved_of (mem_rep s) u. int i < n)"
proof -
  from assms(2) have "mem_fill n (mem_read s u) (replicate (nat n) 0) = Inr sts"
    by (auto simp: mem_Statuses_def split: if_splits)
  from mem_fill_Inr [OF this mem_read_ok [OF assms(1)]] show ?thesis
    by (auto simp: reserved_of_mem mem_read_rep StatusValid_def split: option.splits)
qed

lemma mem_Delete_cases:
  assumes "mem_ok s" and "mem_Delete s u = (r, s')"
  shows "mem_ok s' \<and> r = None \<and> mem_rep s' = forget_list u (mem_rep s)"
  using assms by (auto simp: mem_Delete_def mem_ok_def mem_rep_def forget_list_def fun_eq_iff)

lemma mem_Reserved_card:
  assumes "mem_ok s" and "mem_Reserved s u = Inr n"
  shows "finite (reserved_of (mem_rep s) u) \<and> n = card (reserved_of (mem_rep s) u)"
  using assms mem_read_ok [OF assms(1), of u]
  by (auto simp: mem_Reserved_def reserved_of_mem finite_dom_map_of gm_len_card)

lemma mem_Status_Inr: "mem_Status s u i = Inr st \<longleftrightarrow> mem_rep s (u, i) = Some st"
  by (auto simp: mem_Status_def mem_read_rep split: option.splits)

lemmas mem_ops = MemoryIndexStore_def index_store_ops.simps

interpretation mem: batch_index_store MemoryIndexStore mem_rep mem_ok
proof unfold_locales
  fix s s' :: mem_lists and u i st r n sts e f idxs got
  note ops = mem_ops
  show "mem_ok s'" if "mem_ok s" "op_Reserve MemoryIndexStore s u i = (r, s')"
    using mem_Reserve_cases that by (simp add: ops)
  show "mem_rep s (u, i) = None \<and> mem_rep s' = (mem_rep s)((u, i) \<mapsto> StatusValid)"
    if "mem_ok s" "op_Reserve MemoryIndexStore s u i = (None, s')"
    using mem_Reserve_cases [of s u i None s'] that by (simp add: ops)
  show "mem_rep s (u, i) \<noteq> None \<and> mem_rep s' = mem_rep s"
    if "mem_ok s" "op_Reserve MemoryIndexStore s u i = (Some IndexTaken, s')"
    using mem_Reserve_cases [of s u i "Some IndexTaken" s'] that by (simp add: ops)
  show "mem_rep s \<subseteq>\<^sub>m mem_rep s' \<and> (\<forall>k. k \<noteq> (u, i) \<longrightarrow> mem_rep s' k = mem_rep s k)"
    if "mem_ok s" "op_Reserve MemoryIndexStore s u i = (Some e, s')"
    using mem_Reserve_cases [of s u i "Some e" s'] that by (simp add: ops)
  show "finite (reserved_of (mem_rep s) u) \<and> n = card (reserved_of (mem_rep s) u)"
    if "mem_ok s" "op_Reserved MemoryIndexStore s u = Inr n"
    using mem_Reserved_card that by (simp add: ops)
  show "mem_ok s'" if "mem_ok s" "op_SetStatus MemoryIndexStore s u i st = (r, s')"
    using mem_SetStatus_cases that by (simp add: ops)
  show "mem_rep s (u, i) \<noteq> None \<and> mem_rep s' = (mem_rep s)((u, i) \<mapsto> st)"
    if "mem_ok s" "op_SetStatus MemoryIndexStore s u i st = (None, s')"
    using mem_SetStatus_cases [of s u i st None s'] that by (simp add: ops)
  show "dom (mem_rep s') = dom (mem_rep s) \<and>
      (e = IndexNotReserved \<longrightarrow> mem_rep s (u, i) = None \<and> mem_rep s' = mem_rep s)"
    if "mem_ok s" "op_SetStatus MemoryIndexStore s u i st = (Some e, s')"
    using mem_SetStatus_cases [of s u i st "Some e" s'] that by (simp add: ops)
  show "mem_rep s (u, i) = Some st" if "mem_ok s" "op_Status MemoryIndexStore s u i = Inr st"
    using that by (simp add: ops mem_Status_Inr)
  show "length sts = nat m \<and>
      (\<forall>i < nat m. sts ! i = (case mem_rep s (u, i) of None \<Rightarrow> StatusValid | Some st \<Rightarrow> st)) \<and>
      (\<forall>i \<in> reserved_of (mem_rep s) u. int i < m)"
    if "mem_ok s" "op_Statuses MemoryIndexStore s u m = Inr sts" for m
    using mem_Statuses_Inr that by (simp add: ops)
  show "mem_ok s'" if "mem_ok s" "op_Delete MemoryIndexStore s u = (r, s')"
    using mem_Delete_cases that by (simp add: ops)
  show "mem_rep s' = forget_list u (mem_rep s)"
    if "mem_ok s" "op_Delete MemoryIndexStore s u = (None, s')"
    using mem_Delete_cases that by (simp add: ops)
  show "\<forall>u' i. u' \<noteq> u \<longrightarrow> mem_rep s' (u', i) = mem_rep s (u', i)"
    if "mem_ok s" "op_Delete MemoryIndexStore s u = (r, s')"
    using mem_Delete_cases [of s u r s'] that by (simp add: ops forget_list_def)
  show "mem_ok s'"
    if "op_ReserveEach MemoryIndexStore = Some f" "mem_ok s" "f s u idxs = (q, s')" for q
    using mem_ReserveEach_cases that by (auto simp: ops)
  show "distinct got \<and> set got = {i \<in> set idxs. mem_rep s (u, i) = None} \<and>
      mem_rep s' = reserve_all u got (mem_rep s)"
    if "op_ReserveEach MemoryIndexStore = Some f" "mem_ok s" "distinct idxs" "f s u idxs = (Inr got, s')"
    using mem_ReserveEach_cases [of s u idxs "Inr got" s'] that by (auto simp: ops)
  show "mem_rep s \<subseteq>\<^sub>m mem_rep s'"
    if "op_ReserveEach MemoryIndexStore = Some f" "mem_ok s" "f s u idxs = (Inl e, s')"
    using mem_ReserveEach_cases [of s u idxs "Inl e" s'] that by (auto simp: ops)
qed

section \<open>Properties\<close>

text \<open>An index of a list is granted at most once: of any sequence of calls, by any number of
  processes sharing the store in any order, at most one \<open>Reserve\<close> of it succeeds until the list is
  deleted.\<close>

theorem memory_store_grants_once:
  assumes "mem_ok s" and "CallDelete u \<notin> set cs"
  shows "count_list (store_run MemoryIndexStore cs s) (CallReserve u i, None) \<le> 1"
  using assms by (rule mem.granted_once)

theorem memory_store_grants_once_witness:
  "count_list (store_run MemoryIndexStore
      [CallReserve ''u'' 3, CallSetStatus ''u'' 3 1, CallReserve ''u'' 3, CallDelete ''v'', CallReserve ''u'' 3] [])
    (CallReserve ''u'' 3, None) \<le> 1"
  by (rule memory_store_grants_once) (simp_all add: mem_ok_def mem_read_def)

text \<open>The published statuses are the recorded ones: the list \<open>Statuses\<close> returns has the requested
  size, the status last set at every reserved index, and \<open>VALID\<close> elsewhere; it fails exactly when a
  reserved index would fall outside it.\<close>

theorem memory_statuses:
  assumes "mem_ok s" and "0 \<le> n"
  shows "mem_Statuses s u n =
    (if \<forall>i \<in> reserved_of (mem_rep s) u. int i < n
     then Inr (map (\<lambda>i. case mem_rep s (u, i) of None \<Rightarrow> StatusValid | Some st \<Rightarrow> st) [0..<nat n])
     else Inl StoreFails)"
proof -
  have fails: "mem_fill n l sts = Inl e \<Longrightarrow> e = StoreFails \<and> (\<exists>i \<in> fst ` set l. n \<le> int i)" for l sts e
    by (induction l arbitrary: sts) (force split: if_splits)+
  show ?thesis
  proof (cases "mem_Statuses s u n")
    case (Inl e)
    then have "mem_fill n (mem_read s u) (replicate (nat n) 0) = Inl e"
      using assms(2) by (simp add: mem_Statuses_def)
    from fails [OF this] have "e = StoreFails" "\<not> (\<forall>i \<in> reserved_of (mem_rep s) u. int i < n)"
      unfolding reserved_of_mem dom_map_of_conv_image_fst by force+
    with Inl show ?thesis by simp
  next
    case (Inr sts)
    from mem_Statuses_Inr [OF assms(1) Inr] Inr show ?thesis
      by (auto intro: nth_equalityI)
  qed
qed

theorem memory_statuses_witness:
  "mem_Statuses [(''u'', [(1, 2)])] ''u'' 3 = Inr [0, 2, 0]"
  using memory_statuses [of "[(''u'', [(1, 2)])]" 3 "''u''"]
  by (simp add: mem_ok_def mem_read_def mem_rep_def reserved_of_def StatusValid_def upt_rec split: if_splits)

end
