(* ===== verification/Status_Allocator.thy ===== *)
theory Status_Allocator
  imports Status_Store
begin

text \<open>
  \<open>src/statuslist/allocator.go\<close>: the allocator that hands out indices of status lists at random.
  Its store is a parameter of type \<open>index_store_ops\<close>; the random source is the list of 64-bit
  values its reader yields, each of eight bytes in big-endian order, ending where it fails; and
  \<open>url.Parse\<close> is a parameter. \<open>float64\<close> arithmetic, which sets how far a list fills, is rounding to 53
  bits on rationals. The store calls of one \<open>Allocate\<close> run as one step, with no other call between them.

  The lemmas are proved once for every store that keeps the contract of \<open>index_store\<close>.
\<close>

section \<open>Drawing an index\<close>

text \<open>\<open>bits.Len64\<close>, on the values of a \<open>uint64\<close>.\<close>

fun bit_len :: "nat \<Rightarrow> nat" where
  "bit_len n = (if n = 0 then 0 else Suc (bit_len (n div 2)))"

declare bit_len.simps [simp del]

definition index_mask :: "nat \<Rightarrow> 64 word" where
  "index_mask n = (let k = bit_len (n - 1) in if k < 64 then push_bit k 1 - 1 else - 1)"

fun randomIndex :: "64 word list \<Rightarrow> nat \<Rightarrow> nat option \<times> 64 word list" where
  "randomIndex [] n = (None, [])"
| "randomIndex (r # rs) n =
     (let idx = unat (r AND index_mask n) in if idx < n then (Some idx, rs) else randomIndex rs n)"

lemma randomIndex_Some:
  "randomIndex rs n = (Some i, rs') \<Longrightarrow> i < n \<and> length rs' < length rs"
  by (induction rs) (auto simp: Let_def less_SucI split: if_splits)

section \<open>Settings\<close>

record allocator_list =
  li_URI :: string
  li_Size :: int

record allocator_check =
  ck_lists :: "allocator_list list"
  ck_bits :: int
  ck_fillLimit :: gofloat
  ck_full :: nat

record 's allocator =
  al_Lists :: "allocator_list list"
  al_Store :: "'s index_store_ops option"
  al_Bits :: int
  al_FillLimit :: gofloat
  al_checked :: "allocator_check option"

datatype list_error = BadURI | SizeNotPositive | SizeNotWholeBytes | SizeTooLarge | AllowsNoIndex

datatype alloc_error =
    StoreRequired
  | NoLists
  | BadBits
  | BadFillLimit
  | ListInvalid nat list_error
  | ListTwice nat
  | CountFails store_error
  | DrawFails
  | ReserveFails store_error
  | BadReport nat
  | NoFreeIndex
  | ListsFull
  | BadN int
  | NotAList
  | OutsideList
  | StatusTooWide
  | StoreCall store_error
  | WrongLength

definition DefaultFillLimit :: rat where "DefaultFillLimit = 1 / 2"
definition MaxFillLimit :: rat where "MaxFillLimit = 3 / 4"
definition maxAllocateAttempts :: nat where "maxAllocateAttempts = 128"
definition maxListBytes :: nat where "maxListBytes = maxDecompressedSize"
definition MaxAllocateN :: nat where "MaxAllocateN = 1024"
definition allocateChunk :: nat where "allocateChunk = 64"

text \<open>Go's comparisons of floats: \<open>NaN\<close> is equal to nothing and compares false.\<close>

definition float_eq :: "gofloat \<Rightarrow> gofloat \<Rightarrow> bool" where
  "float_eq x y = (x = y \<and> x \<noteq> NaN)"

fun float_less :: "gofloat \<Rightarrow> gofloat \<Rightarrow> bool" where
  "float_less (Finite x) (Finite y) = (x < y)"
| "float_less NegInf y = (y \<noteq> NaN \<and> y \<noteq> NegInf)"
| "float_less x Inf = (x \<noteq> NaN \<and> x \<noteq> Inf)"
| "float_less x y = False"

definition fill_limit_of :: "gofloat \<Rightarrow> gofloat" where
  "fill_limit_of f = (if float_eq f (Finite 0) then Finite DefaultFillLimit else f)"

definition fillLimit :: "'s allocator \<Rightarrow> gofloat" where
  "fillLimit a = fill_limit_of (al_FillLimit a)"

definition allocator_bits :: "'s allocator \<Rightarrow> int" where
  "allocator_bits a = (if al_Bits a = 0 then 1 else al_Bits a)"

text \<open>Rounding a positive rational to a \<open>float64\<close>, to nearest and ties to even, below the overflow
  threshold: to a multiple of the unit in the last place, no smaller than the least subnormal.\<close>

definition pow2 :: "int \<Rightarrow> rat" where
  "pow2 e = (if e \<ge> 0 then 2 ^ nat e else 1 / 2 ^ nat (- e))"

definition exponent :: "rat \<Rightarrow> int" where
  "exponent x =
     (case quotient_of x of (n, d) \<Rightarrow>
        (let e = int (bit_len (nat n)) - int (bit_len (nat d)) in if pow2 e \<le> x then e else e - 1))"

definition round_even :: "rat \<Rightarrow> int" where
  "round_even x =
     (let f = floor x; r = x - of_int f
      in if r < 1 / 2 \<or> r = 1 / 2 \<and> even f then f else f + 1)"

definition float64 :: "rat \<Rightarrow> rat" where
  "float64 x =
     (if x \<le> 0 then 0
      else (let ulp = pow2 (max (exponent x - 52) (-1074)) in of_int (round_even (x / ulp)) * ulp))"

text \<open>\<open>limit\<close> is only called once \<open>FillLimit\<close> was found to be a number between 0 and \<open>MaxFillLimit\<close> and
  \<open>Size\<close> to be positive, so the product is positive and finite and \<open>int\<close> rounds it down.\<close>

definition limit_at :: "gofloat \<Rightarrow> allocator_list \<Rightarrow> int" where
  "limit_at fill list =
     (case fill of
        Finite r \<Rightarrow> floor (float64 (r * float64 (of_int (li_Size list))))
      | _ \<Rightarrow> 0)"

definition limit :: "'s allocator \<Rightarrow> allocator_list \<Rightarrow> int" where
  "limit a list = limit_at (fillLimit a) list"

text \<open>What \<open>validateList\<close> reads of \<open>url.Parse\<close>'s result.\<close>

record url_parts =
  url_Scheme :: string
  url_Host :: string
  url_HasUser :: bool
  url_Fragment :: string

definition validateList ::
  "(string \<Rightarrow> url_parts option) \<Rightarrow> 's allocator \<Rightarrow> allocator_list \<Rightarrow> list_error option" where
  "validateList url_Parse a list =
     (let ok = (case url_Parse (li_URI list) of
           None \<Rightarrow> False
         | Some u \<Rightarrow> url_Scheme u = ''https'' \<and> url_Host u \<noteq> [] \<and> \<not> url_HasUser u \<and> url_Fragment u = []);
          perByte = int (perByte (allocator_bits a))
      in if \<not> ok then Some BadURI
         else if li_Size list \<le> 0 then Some SizeNotPositive
         else if li_Size list mod perByte \<noteq> 0 then Some SizeNotWholeBytes
         else if li_Size list div perByte > int maxListBytes then Some SizeTooLarge
         else if limit a list < 1 then Some AllowsNoIndex
         else None)"

fun validate_lists ::
  "(string \<Rightarrow> url_parts option) \<Rightarrow> 's allocator \<Rightarrow> nat \<Rightarrow> string list \<Rightarrow> allocator_list list \<Rightarrow> alloc_error option"
where
  "validate_lists url_Parse a i seen [] = None"
| "validate_lists url_Parse a i seen (list # rest) =
     (case validateList url_Parse a list of
        Some e \<Rightarrow> Some (ListInvalid i e)
      | None \<Rightarrow>
          (if li_URI list \<in> set seen then Some (ListTwice i)
           else validate_lists url_Parse a (Suc i) (li_URI list # seen) rest))"

definition allocator_validate :: "(string \<Rightarrow> url_parts option) \<Rightarrow> 's allocator \<Rightarrow> alloc_error option" where
  "allocator_validate url_Parse a =
     (if Option.is_none (al_Store a) then Some StoreRequired
      else if length (al_Lists a) = 0 then Some NoLists
      else if al_Bits a \<noteq> 0 \<and> \<not> Bits_valid (al_Bits a) then Some BadBits
      else if al_FillLimit a = NaN \<or> float_less (al_FillLimit a) (Finite 0) \<or>
        float_less (Finite MaxFillLimit) (al_FillLimit a) then Some BadFillLimit
      else validate_lists url_Parse a 0 [] (al_Lists a))"

text \<open>\<open>check\<close>: the settings as last accepted, or validated afresh with no list known to be full.\<close>

definition check_settings ::
  "(string \<Rightarrow> url_parts option) \<Rightarrow> 's allocator \<Rightarrow> (alloc_error + allocator_check) \<times> 's allocator" where
  "check_settings url_Parse a =
     (let fresh =
        (case allocator_validate url_Parse a of
           Some e \<Rightarrow> (Inl e, a)
         | None \<Rightarrow>
             (let c = \<lparr> ck_lists = al_Lists a, ck_bits = al_Bits a, ck_fillLimit = al_FillLimit a, ck_full = 0 \<rparr>
              in (Inr c, a \<lparr> al_checked := Some c \<rparr>)))
      in case al_checked a of
           None \<Rightarrow> fresh
         | Some c \<Rightarrow>
             (if \<not> Option.is_none (al_Store a) \<and> al_Bits a = ck_bits c \<and> float_eq (al_FillLimit a) (ck_fillLimit c) \<and>
                al_Lists a = ck_lists c then (Inr c, a)
              else fresh))"

definition filled :: "nat \<Rightarrow> 's allocator \<Rightarrow> 's allocator" where
  "filled i a = a \<lparr> al_checked := map_option (\<lambda>c. c \<lparr> ck_full := max (ck_full c) (i + 1) \<rparr>) (al_checked a) \<rparr>"

section \<open>Allocating one index\<close>

text \<open>What a call of the allocator changes: the store, how much of the random source is left, and the
  allocator's own memory.\<close>

record 's world =
  w_store :: 's
  w_rand :: "64 word list"
  w_alloc :: "'s allocator"

fun reserveIn ::
  "'s index_store_ops \<Rightarrow> allocator_list \<Rightarrow> nat \<Rightarrow> 's world \<Rightarrow> (alloc_error + status_list_ref option) \<times> 's world"
where
  "reserveIn ops list 0 w = (Inr None, w)"
| "reserveIn ops list (Suc attempts) w =
     (case randomIndex (w_rand w) (nat (li_Size list)) of
        (None, rs) \<Rightarrow> (Inl DrawFails, w \<lparr> w_rand := rs \<rparr>)
      | (Some idx, rs) \<Rightarrow>
          (case op_Reserve ops (w_store w) (li_URI list) idx of
             (None, s) \<Rightarrow> (Inr (Some \<lparr> ref_Idx = idx, ref_URI = li_URI list \<rparr>), w \<lparr> w_rand := rs, w_store := s \<rparr>)
           | (Some e, s) \<Rightarrow>
               (if e \<noteq> IndexTaken then (Inl (ReserveFails e), w \<lparr> w_rand := rs, w_store := s \<rparr>)
                else reserveIn ops list attempts (w \<lparr> w_rand := rs, w_store := s \<rparr>))))"

text \<open>The loop of \<open>Allocate\<close>, from list \<open>i\<close> of the accepted lists.\<close>

fun allocate_from ::
  "'s index_store_ops \<Rightarrow> nat \<Rightarrow> allocator_list list \<Rightarrow> bool \<Rightarrow> 's world \<Rightarrow> (alloc_error + status_list_ref) \<times> 's world"
where
  "allocate_from ops i [] exhausted w = (Inl (if exhausted then NoFreeIndex else ListsFull), w)"
| "allocate_from ops i (list # rest) exhausted w =
     (case op_Reserved ops (w_store w) (li_URI list) of
        Inl e \<Rightarrow> (Inl (CountFails e), w)
      | Inr reserved \<Rightarrow>
          (if int reserved \<ge> limit (w_alloc w) list
           then allocate_from ops (Suc i) rest exhausted
                  (if exhausted then w else w \<lparr> w_alloc := filled i (w_alloc w) \<rparr>)
           else case reserveIn ops list maxAllocateAttempts w of
             (Inl e, w) \<Rightarrow> (Inl e, w)
           | (Inr (Some ref), w) \<Rightarrow> (Inr ref, w)
           | (Inr None, w) \<Rightarrow> allocate_from ops (Suc i) rest True w))"

definition Allocate ::
  "(string \<Rightarrow> url_parts option) \<Rightarrow> 's world \<Rightarrow> (alloc_error + status_list_ref) \<times> 's world" where
  "Allocate url_Parse w =
     (case check_settings url_Parse (w_alloc w) of
        (Inl e, a) \<Rightarrow> (Inl e, w \<lparr> w_alloc := a \<rparr>)
      | (Inr c, a) \<Rightarrow>
          (case al_Store a of
             None \<Rightarrow> (Inl StoreRequired, w)
           | Some ops \<Rightarrow>
               allocate_from ops (ck_full c) (drop (ck_full c) (ck_lists c)) False (w \<lparr> w_alloc := a \<rparr>)))"

section \<open>Allocating a batch\<close>

text \<open>The inner loop of \<open>reserveEachIn\<close>: draw until \<open>need\<close> indices not tried before are drawn, or all of
  the list was tried.\<close>

function draw_more ::
  "nat \<Rightarrow> int \<Rightarrow> nat list \<Rightarrow> nat list \<Rightarrow> 64 word list \<Rightarrow> (nat list \<times> nat list) option \<times> 64 word list"
where
  "draw_more need n draw tried rs =
     (if length draw < need then
        (case randomIndex rs (nat n) of
           (None, rs') \<Rightarrow> (None, rs')
         | (Some idx, rs') \<Rightarrow>
             (let new = idx \<notin> set tried;
                  tried' = (if new then idx # tried else tried);
                  draw' = (if new then draw @ [idx] else draw)
              in if int (length tried') = n then (Some (draw', tried'), rs')
                 else draw_more need n draw' tried' rs'))
      else (Some (draw, tried), rs))"
  by pat_completeness auto
termination
  by (relation "measure (\<lambda>(need, n, draw, tried, rs). length rs)") (auto dest!: sym [of "(_, _)"] randomIndex_Some)

fun reserve_singles ::
  "'s index_store_ops \<Rightarrow> string \<Rightarrow> nat list \<Rightarrow> 's \<Rightarrow> (alloc_error + nat list) \<times> 's" where
  "reserve_singles ops uri [] s = (Inr [], s)"
| "reserve_singles ops uri (idx # draw) s =
     (case op_Reserve ops s uri idx of
        (None, s) \<Rightarrow>
          (case reserve_singles ops uri draw s of
             (Inl e, s) \<Rightarrow> (Inl e, s)
           | (Inr got, s) \<Rightarrow> (Inr (idx # got), s))
      | (Some e, s) \<Rightarrow>
          (if e \<noteq> IndexTaken then (Inl (ReserveFails e), s) else reserve_singles ops uri draw s))"

text \<open>An index the store reports that was not asked for, or that it reports twice.\<close>

fun unasked :: "nat list \<Rightarrow> nat list \<Rightarrow> nat option" where
  "unasked asked [] = None"
| "unasked asked (idx # reserved) =
     (if idx \<notin> set asked then Some idx else unasked (removeAll idx asked) reserved)"

definition reserve_drawn ::
  "'s index_store_ops \<Rightarrow> string \<Rightarrow> nat list \<Rightarrow> 's \<Rightarrow> (alloc_error + nat list) \<times> 's" where
  "reserve_drawn ops uri draw s =
     (case op_ReserveEach ops of
        Some each \<Rightarrow>
          (case each s uri draw of
             (Inl e, s) \<Rightarrow> (Inl (ReserveFails e), s)
           | (Inr reserved, s) \<Rightarrow>
               (case unasked draw reserved of
                  Some idx \<Rightarrow> (Inl (BadReport idx), s)
                | None \<Rightarrow> (Inr reserved, s)))
      | None \<Rightarrow> reserve_singles ops uri draw s)"

fun reserve_rounds ::
  "'s index_store_ops \<Rightarrow> allocator_list \<Rightarrow> nat \<Rightarrow> nat \<Rightarrow> nat list \<Rightarrow> nat list \<Rightarrow> 's world
     \<Rightarrow> (alloc_error + nat list) \<times> 's world" where
  "reserve_rounds ops list want 0 got tried w = (Inr got, w)"
| "reserve_rounds ops list want (Suc rounds) got tried w =
     (case draw_more (want - length got) (li_Size list) [] tried (w_rand w) of
        (None, rs) \<Rightarrow> (Inl DrawFails, w \<lparr> w_rand := rs \<rparr>)
      | (Some (draw, tried), rs) \<Rightarrow>
          (if length draw = 0 then (Inr got, w \<lparr> w_rand := rs \<rparr>)
           else case reserve_drawn ops (li_URI list) draw (w_store w) of
             (Inl e, s) \<Rightarrow> (Inl e, w \<lparr> w_rand := rs, w_store := s \<rparr>)
           | (Inr reserved, s) \<Rightarrow>
               (if length (got @ reserved) = want then (Inr (got @ reserved), w \<lparr> w_rand := rs, w_store := s \<rparr>)
                else reserve_rounds ops list want rounds (got @ reserved) tried
                       (w \<lparr> w_rand := rs, w_store := s \<rparr>))))"

definition reserveEachIn ::
  "'s index_store_ops \<Rightarrow> allocator_list \<Rightarrow> nat \<Rightarrow> 's world \<Rightarrow> (alloc_error + nat list) \<times> 's world" where
  "reserveEachIn ops list want w = reserve_rounds ops list want maxAllocateAttempts [] [] w"

text \<open>One round of the loop of \<open>AllocateN\<close> on list \<open>i\<close>: an error, or whether to move to the next list,
  the references so far, and whether some list's free indices were not found.\<close>

definition n_round ::
  "'s index_store_ops \<Rightarrow> nat \<Rightarrow> nat \<Rightarrow> allocator_list \<Rightarrow> status_list_ref list \<Rightarrow> bool \<Rightarrow> 's world
     \<Rightarrow> (alloc_error + bool \<times> status_list_ref list \<times> bool) \<times> 's world" where
  "n_round ops n i list refs exhausted w =
     (case op_Reserved ops (w_store w) (li_URI list) of
        Inl e \<Rightarrow> (Inl (CountFails e), w)
      | Inr reserved \<Rightarrow>
          (let room = limit (w_alloc w) list - int reserved in
           if room \<le> 0
           then (Inr (True, refs, exhausted), if exhausted then w else w \<lparr> w_alloc := filled i (w_alloc w) \<rparr>)
           else
             (let want = min (n - length refs) (min (nat room) allocateChunk) in
              case reserveEachIn ops list want w of
                (Inl e, w1) \<Rightarrow> (Inl e, w1)
              | (Inr got, w1) \<Rightarrow>
                  (let refs1 = refs @ map (\<lambda>idx. \<lparr> ref_Idx = idx, ref_URI = li_URI list \<rparr>) got in
                   if length got < want then (Inr (True, refs1, True), w1)
                   else (Inr (int want = room, refs1, exhausted), w1)))))"

lemma n_round_again:
  assumes "n_round ops n i list refs ex w = (Inr (False, refs', ex'), w')" and "length refs < n"
  shows "length refs < length refs'"
  using assms
  by (auto simp: n_round_def Let_def allocateChunk_def min_def split: sum.splits prod.splits if_splits)

text \<open>The loop, from list \<open>i\<close>.\<close>

function allocate_n_from ::
  "'s index_store_ops \<Rightarrow> nat \<Rightarrow> nat \<Rightarrow> allocator_list list \<Rightarrow> status_list_ref list \<Rightarrow> bool \<Rightarrow> 's world
     \<Rightarrow> (alloc_error + status_list_ref list) \<times> 's world" where
  "allocate_n_from ops n i ls refs exhausted w =
     (if ls = [] \<or> \<not> length refs < n
      then (if length refs = n then Inr refs else Inl (if exhausted then NoFreeIndex else ListsFull), w)
      else (case n_round ops n i (hd ls) refs exhausted w of
          (Inl e, w1) \<Rightarrow> (Inl e, w1)
        | (Inr (adv, refs1, exhausted1), w1) \<Rightarrow>
            (if adv then allocate_n_from ops n (Suc i) (tl ls) refs1 exhausted1 w1
             else allocate_n_from ops n i ls refs1 exhausted1 w1)))"
  by pat_completeness auto

lemma n_round_grows:
  assumes "n_round ops n i list refs ex w = (Inr (adv, refs', ex'), w')"
  shows "length refs \<le> length refs'"
  using assms by (auto simp: n_round_def Let_def split: sum.splits prod.splits if_splits)

termination allocate_n_from
proof (relation "measure (\<lambda>(ops, n, i, ls, refs, ex, w). length ls + (n - length refs))",
    simp_all only: in_measure split_conv wf_measure)
  fix ops :: "'s index_store_ops" and n i ls refs exhausted w w1 b refs1 ex1
    and r1 :: "status_list_ref list \<times> bool"
  assume more: "\<not> (ls = [] \<or> \<not> length refs < n)"
    and run: "(Inr b, w1) = n_round ops n i (hd ls) refs exhausted w"
    and r1: "(refs1, ex1) = r1"
  show "length (tl ls) + (n - length refs1) < length ls + (n - length refs)" if "(True, r1) = b"
  proof -
    from run r1 that have "length refs \<le> length refs1" using n_round_grows by metis
    with more show ?thesis by (cases ls) auto
  qed
  show "length ls + (n - length refs1) < length ls + (n - length refs)" if "(False, r1) = b"
  proof -
    from run r1 that more have "length refs < length refs1" using n_round_again by metis
    with more show ?thesis by auto
  qed
qed

declare allocate_n_from.simps [simp del] draw_more.simps [simp del]

definition AllocateN ::
  "(string \<Rightarrow> url_parts option) \<Rightarrow> int \<Rightarrow> 's world \<Rightarrow> (alloc_error + status_list_ref list) \<times> 's world" where
  "AllocateN url_Parse n w =
     (if n < 1 \<or> n > int MaxAllocateN then (Inl (BadN n), w)
      else case check_settings url_Parse (w_alloc w) of
        (Inl e, a) \<Rightarrow> (Inl e, w \<lparr> w_alloc := a \<rparr>)
      | (Inr c, a) \<Rightarrow>
          (case al_Store a of
             None \<Rightarrow> (Inl StoreRequired, w)
           | Some ops \<Rightarrow>
               allocate_n_from ops (nat n) (ck_full c) (drop (ck_full c) (ck_lists c)) [] False
                 (w \<lparr> w_alloc := a \<rparr>)))"

section \<open>Statuses\<close>

fun list_named :: "status_list_ref \<Rightarrow> allocator_list list \<Rightarrow> alloc_error + allocator_list" where
  "list_named ref [] = Inl NotAList"
| "list_named ref (list # rest) =
     (if li_URI list \<noteq> ref_URI ref then list_named ref rest
      else if ref_Idx ref \<ge> nat (li_Size list) then Inl OutsideList
      else Inr list)"

definition listFor ::
  "(string \<Rightarrow> url_parts option) \<Rightarrow> status_list_ref \<Rightarrow> 's allocator \<Rightarrow> (alloc_error + allocator_list) \<times> 's allocator"
where
  "listFor url_Parse ref a =
     (case check_settings url_Parse a of
        (Inl e, a) \<Rightarrow> (Inl e, a)
      | (Inr c, a) \<Rightarrow> (list_named ref (ck_lists c), a))"

definition Allocator_SetStatus ::
  "(string \<Rightarrow> url_parts option) \<Rightarrow> status_list_ref \<Rightarrow> byte \<Rightarrow> 's world \<Rightarrow> alloc_error option \<times> 's world" where
  "Allocator_SetStatus url_Parse ref status w =
     (case listFor url_Parse ref (w_alloc w) of
        (Inl e, a) \<Rightarrow> (Some e, w \<lparr> w_alloc := a \<rparr>)
      | (Inr list, a) \<Rightarrow>
          (if status > bits_mask (allocator_bits a) then (Some StatusTooWide, w \<lparr> w_alloc := a \<rparr>)
           else case al_Store a of
             None \<Rightarrow> (Some StoreRequired, w)
           | Some ops \<Rightarrow>
               (case op_SetStatus ops (w_store w) (ref_URI ref) (ref_Idx ref) status of
                  (r, s) \<Rightarrow> (map_option StoreCall r, w \<lparr> w_alloc := a, w_store := s \<rparr>))))"

text \<open>With an error the status returned is \<open>INVALID\<close>.\<close>

definition Allocator_Status ::
  "(string \<Rightarrow> url_parts option) \<Rightarrow> status_list_ref \<Rightarrow> 's world \<Rightarrow> byte \<times> alloc_error option" where
  "Allocator_Status url_Parse ref w =
     (case listFor url_Parse ref (w_alloc w) of
        (Inl e, a) \<Rightarrow> (StatusInvalid, Some e)
      | (Inr list, a) \<Rightarrow>
          (case al_Store a of
             None \<Rightarrow> (StatusInvalid, Some StoreRequired)
           | Some ops \<Rightarrow>
               (case op_Status ops (w_store w) (ref_URI ref) (ref_Idx ref) of
                  Inl e \<Rightarrow> (StatusInvalid, Some (StoreCall e))
                | Inr status \<Rightarrow> (status, None))))"

definition Allocator_Statuses ::
  "(string \<Rightarrow> url_parts option) \<Rightarrow> string \<Rightarrow> 's world \<Rightarrow> alloc_error + byte list" where
  "Allocator_Statuses url_Parse uri w =
     (case listFor url_Parse \<lparr> ref_Idx = 0, ref_URI = uri \<rparr> (w_alloc w) of
        (Inl e, a) \<Rightarrow> Inl e
      | (Inr list, a) \<Rightarrow>
          (case al_Store a of
             None \<Rightarrow> Inl StoreRequired
           | Some ops \<Rightarrow>
               (case op_Statuses ops (w_store w) uri (li_Size list) of
                  Inl e \<Rightarrow> Inl (StoreCall e)
                | Inr statuses \<Rightarrow>
                    (if int (length statuses) \<noteq> li_Size list then Inl WrongLength else Inr statuses))))"

record list_fill =
  lf_URI :: string
  lf_Size :: int
  lf_Limit :: int
  lf_Reserved :: nat

definition ListFill_Full :: "list_fill \<Rightarrow> bool" where
  "ListFill_Full f = (int (lf_Reserved f) \<ge> lf_Limit f)"

definition ListFill_Free :: "list_fill \<Rightarrow> int" where
  "ListFill_Free f = max (lf_Limit f - int (lf_Reserved f)) 0"

fun fill_lists :: "'s index_store_ops \<Rightarrow> 's allocator \<Rightarrow> 's \<Rightarrow> allocator_list list \<Rightarrow> alloc_error + list_fill list" where
  "fill_lists ops a s [] = Inr []"
| "fill_lists ops a s (list # rest) =
     (case op_Reserved ops s (li_URI list) of
        Inl e \<Rightarrow> Inl (CountFails e)
      | Inr reserved \<Rightarrow>
          rmap (\<lambda>fs. \<lparr> lf_URI = li_URI list, lf_Size = li_Size list, lf_Limit = limit a list, lf_Reserved = reserved \<rparr> # fs)
            (fill_lists ops a s rest))"

definition Allocator_Fill :: "(string \<Rightarrow> url_parts option) \<Rightarrow> 's world \<Rightarrow> alloc_error + list_fill list" where
  "Allocator_Fill url_Parse w =
     (case check_settings url_Parse (w_alloc w) of
        (Inl e, a) \<Rightarrow> Inl e
      | (Inr c, a) \<Rightarrow>
          (case al_Store a of
             None \<Rightarrow> Inl StoreRequired
           | Some ops \<Rightarrow> fill_lists ops a (w_store w) (ck_lists c)))"

section \<open>Random indices\<close>

lemma bit_len_bounds:
  shows "n < 2 ^ bit_len n" and "n > 0 \<Longrightarrow> 2 ^ (bit_len n - 1) \<le> n"
proof -
  have "n < 2 ^ bit_len n \<and> (n > 0 \<longrightarrow> 2 ^ (bit_len n - 1) \<le> n)"
  proof (induction n rule: bit_len.induct)
    case (1 n)
    show ?case
    proof (cases "n = 0")
      case False
      with 1 have ih: "n div 2 < 2 ^ bit_len (n div 2)"
        "n div 2 > 0 \<longrightarrow> 2 ^ (bit_len (n div 2) - 1) \<le> n div 2"
        by auto
      have step: "bit_len n = Suc (bit_len (n div 2))" using False by (subst bit_len.simps) simp
      show ?thesis
      proof (cases "n div 2 = 0")
        case True
        with False have "n = 1" by auto
        then show ?thesis by (simp add: bit_len.simps)
      next
        case half: False
        then have "bit_len (n div 2) \<noteq> 0" by (subst bit_len.simps) simp
        then have "bit_len (n div 2) = Suc (bit_len (n div 2) - 1)" by simp
        with ih half have "2 ^ bit_len (n div 2) \<le> 2 * (n div 2)"
          by (metis gr0I mult_le_mono2 power_Suc)
        with ih False show ?thesis unfolding step by auto
      qed
    qed (simp add: bit_len.simps)
  qed
  then show "n < 2 ^ bit_len n" "n > 0 \<Longrightarrow> 2 ^ (bit_len n - 1) \<le> n" by auto
qed

lemma bit_len_le: "n < 2 ^ k \<Longrightarrow> bit_len n \<le> k"
proof (rule ccontr)
  assume n: "n < 2 ^ k" and "\<not> bit_len n \<le> k"
  then have "k \<le> bit_len n - 1" "n > 0"
    by (auto simp: bit_len.simps [of 0] intro: gr0I)
  then have "2 ^ k \<le> n"
    using bit_len_bounds(2) [of n] power_increasing [of k "bit_len n - 1" "2 :: nat"] by linarith
  with n show False by simp
qed

lemma index_mask_mask:
  assumes "n \<le> 2 ^ 64"
  shows "index_mask n = mask (bit_len (n - 1))"
proof -
  have "n - 1 < 2 ^ 64" using assms by (cases n) auto
  then have "bit_len (n - 1) \<le> 64" by (rule bit_len_le)
  then show ?thesis
    by (auto simp: index_mask_def Let_def mask_eq_exp_minus_1 push_bit_eq_mult le_less)
qed

lemma unat_and_mask: "unat (r AND mask k :: 64 word) = unat r mod 2 ^ k"
  unfolding take_bit_eq_mask [symmetric] unsigned_take_bit_eq by (rule take_bit_eq_mod)

lemma randomIndex_length: "randomIndex rs n = (r, rs') \<Longrightarrow> length rs' \<le> length rs"
  by (induction rs) (auto simp: Let_def le_SucI split: if_splits)

lemma card_words:
  fixes P :: "nat \<Rightarrow> bool"
  shows "card {r :: 64 word. P (unat r)} = card {x. x < 2 ^ 64 \<and> P x}"
proof (rule bij_betw_same_card [of unat])
  have "unat (r :: 64 word) < 2 ^ 64" for r using unsigned_less [of r] by simp
  moreover have "x < 2 ^ 64 \<Longrightarrow> unat (of_nat x :: 64 word) = x" for x
    by (simp add: unat_of_nat take_bit_nat_eq_self)
  ultimately show "bij_betw unat {r :: 64 word. P (unat r)} {x. x < 2 ^ 64 \<and> P x}"
    by (intro bij_betw_byWitness [where f' = of_nat]) auto
qed

lemma card_residues:
  fixes i k m :: nat
  assumes "i < 2 ^ k" and "k \<le> m"
  shows "card {x. x < 2 ^ m \<and> x mod 2 ^ k = i} = 2 ^ (m - k)"
proof -
  have split: "(2 :: nat) ^ m = 2 ^ (m - k) * 2 ^ k"
    using assms(2) by (simp add: power_add [symmetric])
  have "{x. x < 2 ^ m \<and> x mod 2 ^ k = i} = (\<lambda>q. q * 2 ^ k + i) ` {..<2 ^ (m - k)}"
  proof (intro equalityI subsetI)
    fix x assume x: "x \<in> {x. x < 2 ^ m \<and> x mod 2 ^ k = i}"
    then have "x = (x div 2 ^ k) * 2 ^ k + i" by (metis (mono_tags) div_mult_mod_eq mem_Collect_eq)
    moreover from x have "x div 2 ^ k < 2 ^ (m - k)"
      using split by (simp add: less_mult_imp_div_less)
    ultimately show "x \<in> (\<lambda>q. q * 2 ^ k + i) ` {..<2 ^ (m - k)}" by blast
  next
    fix x assume "x \<in> (\<lambda>q. q * 2 ^ k + i) ` {..<2 ^ (m - k)}"
    then obtain q where q: "q < 2 ^ (m - k)" "x = q * 2 ^ k + i" by auto
    then have "Suc q * 2 ^ k \<le> 2 ^ (m - k) * 2 ^ k" by (intro mult_right_mono) auto
    with q assms(1) show "x \<in> {x. x < 2 ^ m \<and> x mod 2 ^ k = i}" by (simp add: split)
  qed
  moreover have "inj_on (\<lambda>q :: nat. q * 2 ^ k + i) {..<2 ^ (m - k)}" by (auto simp: inj_on_def)
  ultimately show ?thesis by (simp add: card_image)
qed

section \<open>How far a list fills\<close>

lemma pow2_pos: "pow2 e > 0"
  by (simp add: pow2_def)

lemma pow2_add: "pow2 (a + b) = pow2 a * pow2 b"
proof -
  have "pow2 e = (2 :: rat) powi e" for e
    by (auto simp: pow2_def power_int_def field_simps)
  then show ?thesis by (simp add: power_int_add)
qed

lemma exponent_le: assumes "x > 0" shows "pow2 (exponent x) \<le> x"
proof -
  obtain n d where nd: "quotient_of x = (n, d)" by (cases "quotient_of x")
  have d: "d > 0" using quotient_of_denom_pos [OF nd] .
  have x: "x = of_int n / of_int d" using quotient_of_div [OF nd] .
  with assms d have n: "n > 0" by (simp add: zero_less_divide_iff)
  let ?e = "int (bit_len (nat n)) - int (bit_len (nat d))"
  have ln: "2 ^ (bit_len (nat n) - 1) \<le> nat n" using bit_len_bounds(2) [of "nat n"] n by auto
  have "bit_len (nat n) \<noteq> 0" using n by (subst bit_len.simps) simp
  then have "(2 :: rat) ^ bit_len (nat n) = 2 * 2 ^ (bit_len (nat n) - 1)"
    by (metis Suc_diff_1 neq0_conv power_Suc)
  moreover have "(2 :: rat) ^ (bit_len (nat n) - 1) \<le> of_int n"
    using ln n by (metis nat_0_le of_nat_le_iff of_nat_numeral of_nat_power order_less_imp_le of_int_of_nat_eq)
  ultimately have num: "(2 :: rat) ^ bit_len (nat n) \<le> 2 * of_int n" by simp
  have "nat d < 2 ^ bit_len (nat d)" by (rule bit_len_bounds(1))
  then have den: "of_int d \<le> (2 :: rat) ^ bit_len (nat d)"
    using d by (metis less_imp_le of_int_of_nat_eq nat_0_le of_nat_le_iff of_nat_numeral of_nat_power)
  have "pow2 ?e = 2 ^ bit_len (nat n) / 2 ^ bit_len (nat d)"
    by (auto simp: pow2_def field_simps power_add [symmetric] nat_diff_distrib)
  also have "\<dots> \<le> 2 * of_int n / of_int d"
    using num den d n by (intro frac_le) auto
  finally have "pow2 (?e - 1) \<le> x"
    using pow2_add [of "?e - 1" 1] by (simp add: x pow2_def [of 1])
  then show ?thesis by (auto simp: exponent_def nd Let_def)
qed

lemma round_even_le: "of_int (round_even x) \<le> x + 1 / 2"
  by (auto simp: round_even_def Let_def) linarith+

lemma round_even_ge: "x - 1 / 2 \<le> of_int (round_even x)"
  by (auto simp: round_even_def Let_def) linarith+

lemma float64_near:
  assumes "x > 0"
  shows "float64 x \<le> x + x / 2 ^ 53 \<or> float64 x \<le> x + pow2 (-1074) / 2"
proof -
  let ?ulp = "pow2 (max (exponent x - 52) (-1074))"
  have "float64 x = of_int (round_even (x / ?ulp)) * ?ulp" using assms by (simp add: float64_def Let_def)
  also have "\<dots> \<le> (x / ?ulp + 1 / 2) * ?ulp"
    using round_even_le pow2_pos by (simp add: mult_right_mono less_imp_le)
  also have "\<dots> = x + ?ulp / 2" using pow2_pos [of "max (exponent x - 52) (-1074)"] by (simp add: field_simps)
  finally have near: "float64 x \<le> x + ?ulp / 2" .
  have "pow2 (exponent x - 52) * pow2 52 \<le> x"
    using exponent_le [OF assms] pow2_add [of "exponent x - 52" 52] by simp
  then have "pow2 (exponent x - 52) \<le> x / 2 ^ 52" by (simp add: pow2_def [of 52] field_simps)
  with near show ?thesis by (auto simp: max_def split: if_splits)
qed

lemma float64_int:
  assumes "0 < n" and "n \<le> 2 ^ 52"
  shows "float64 (of_int n) \<le> of_int n + 1 / 2"
proof -
  have "rat_of_int n \<le> 2 ^ 52" using assms(2) by (metis of_int_le_iff of_int_numeral of_int_power)
  then have "rat_of_int n / 2 ^ 53 \<le> 1 / 2" by simp
  moreover have "pow2 (-1074) / 2 \<le> 1 / 2" by (simp add: pow2_def)
  moreover have "float64 (of_int n) \<le> of_int n + of_int n / 2 ^ 53 \<or>
      float64 (of_int n) \<le> of_int n + pow2 (-1074) / 2"
    using assms(1) by (intro float64_near) simp
  ultimately show ?thesis by linarith
qed

lemma limit_le_size:
  assumes "r \<le> MaxFillLimit" and "0 < li_Size list" and "li_Size list \<le> 2 ^ 52"
  shows "limit_at (Finite r) list \<le> li_Size list"
proof -
  let ?n = "rat_of_int (li_Size list)" and ?f = "float64 (of_int (li_Size list))"
  have f: "?f \<le> ?n + 1 / 2" using float64_int assms(2,3) .
  have n1: "?n \<ge> 1" using assms(2) by simp
  show ?thesis
  proof (cases "r * ?f > 0")
    case True
    have "?f \<ge> 0" by (auto simp: float64_def Let_def round_even_def less_imp_le [OF pow2_pos]
      intro!: mult_nonneg_nonneg divide_nonneg_pos pow2_pos)
    then have "r * ?f \<le> 3 / 4 * ?f" using assms(1) by (intro mult_right_mono) (simp_all add: MaxFillLimit_def)
    also have "\<dots> \<le> 3 / 4 * (?n + 1 / 2)" using f by (intro mult_left_mono) simp_all
    finally have "float64 (r * ?f) < ?n + 1"
      using float64_near [OF True] n1 by (auto simp: pow2_def)
    then show ?thesis by (simp add: limit_at_def floor_le_iff)
  next
    case False
    then show ?thesis using assms(2) by (simp add: limit_at_def float64_def)
  qed
qed

section \<open>Allocating, on any store that keeps the contract\<close>

text \<open>A list a check has found full, and what an allocator remembers being true.\<close>

definition full_at :: "index_map \<Rightarrow> gofloat \<Rightarrow> allocator_list \<Rightarrow> bool" where
  "full_at m fill list =
     (finite (reserved_of m (li_URI list)) \<and>
      limit_at (fill_limit_of fill) list \<le> int (card (reserved_of m (li_URI list))))"

definition remembers :: "index_map \<Rightarrow> 's allocator \<Rightarrow> bool" where
  "remembers m a =
     (\<forall>c. al_checked a = Some c \<longrightarrow>
        (\<forall>list \<in> set (take (ck_full c) (ck_lists c)). full_at m (ck_fillLimit c) list))"

lemma limit_full: "limit a list = limit_at (fill_limit_of (al_FillLimit a)) list"
  by (simp add: limit_def fillLimit_def)

lemma filled_simps [simp]:
  "al_FillLimit (filled i a) = al_FillLimit a" "al_Lists (filled i a) = al_Lists a"
  "al_Bits (filled i a) = al_Bits a" "al_Store (filled i a) = al_Store a" "limit (filled i a) = limit a"
  by (simp_all add: filled_def limit_def fillLimit_def fun_eq_iff)

text \<open>Some reservations more, of the indices of one list, on which nothing else depends.\<close>

definition reserves_more :: "index_map \<Rightarrow> index_map \<Rightarrow> bool" where
  "reserves_more m m' = (m \<subseteq>\<^sub>m m' \<and> (\<forall>u. finite (reserved_of m u) \<longrightarrow> finite (reserved_of m' u)))"

lemma reserves_more_refl [simp]: "reserves_more m m"
  by (simp add: reserves_more_def)

lemma reserves_more_trans: "reserves_more m m' \<Longrightarrow> reserves_more m' m'' \<Longrightarrow> reserves_more m m''"
  unfolding reserves_more_def using map_le_trans by blast

lemma reserved_of_mono: "m \<subseteq>\<^sub>m m' \<Longrightarrow> reserved_of m u \<subseteq> reserved_of m' u"
  unfolding reserved_of_def map_le_def dom_def by fastforce

lemma full_at_mono: "reserves_more m m' \<Longrightarrow> full_at m fill list \<Longrightarrow> full_at m' fill list"
  unfolding reserves_more_def full_at_def
  using reserved_of_mono card_mono by (metis of_nat_mono order_trans)

lemma reserves_more_update:
  "m k = None \<Longrightarrow> reserves_more m (m(k \<mapsto> st))"
proof -
  assume "m k = None"
  then have "m \<subseteq>\<^sub>m m(k \<mapsto> st)" by (auto simp: map_le_def)
  moreover have "reserved_of (m(k \<mapsto> st)) u \<subseteq> insert (snd k) (reserved_of m u)" for u
    by (auto simp: reserved_of_def split: if_splits)
  ultimately show ?thesis unfolding reserves_more_def by (meson finite_insert finite_subset)
qed

lemma reserves_more_all: "\<forall>i \<in> set is. m (u, i) = None \<Longrightarrow> reserves_more m (reserve_all u is m)"
proof -
  assume "\<forall>i \<in> set is. m (u, i) = None"
  then have "m \<subseteq>\<^sub>m reserve_all u is m" by (auto simp: map_le_def reserve_all_def)
  moreover have "reserved_of (reserve_all u is m) u' \<subseteq> set is \<union> reserved_of m u'" for u'
    by (auto simp: reserved_of_def reserve_all_def split: if_splits)
  ultimately show ?thesis unfolding reserves_more_def by (meson finite_Un finite_set finite_subset)
qed

context index_store
begin

abbreviation wrep :: "'s world \<Rightarrow> index_map" where "wrep w \<equiv> rep (w_store w)"
abbreviation winv :: "'s world \<Rightarrow> bool" where "winv w \<equiv> inv (w_store w)"

text \<open>How one call can end: with the reservation of an index that was free, or with none. When the store
  itself fails, one may have been made that no caller hears of.\<close>

definition granted :: "'s world \<Rightarrow> status_list_ref \<Rightarrow> 's world \<Rightarrow> bool" where
  "granted w ref w' =
     (wrep w (ref_URI ref, ref_Idx ref) = None \<and>
      wrep w' = (wrep w)((ref_URI ref, ref_Idx ref) \<mapsto> StatusValid))"

lemma reserve_more: "inv s \<Longrightarrow> op_Reserve ops s u i = (r, s') \<Longrightarrow> reserves_more (rep s) (rep s')"
proof (cases r)
  case None
  assume "inv s" "op_Reserve ops s u i = (r, s')"
  with None reserve_done [of s u i s'] show ?thesis using reserves_more_update by simp
next
  case (Some e)
  assume "inv s" "op_Reserve ops s u i = (r, s')"
  with Some have le: "rep s \<subseteq>\<^sub>m rep s'" and same: "\<forall>k. k \<noteq> (u, i) \<longrightarrow> rep s' k = rep s k"
    using reserve_fails by auto
  have "reserved_of (rep s') u' \<subseteq> insert i (reserved_of (rep s) u')" for u'
    using same by (auto simp: reserved_of_def)
  with le show ?thesis unfolding reserves_more_def by (meson finite_insert finite_subset)
qed

lemma reserveIn_spec:
  assumes "reserveIn ops list n w = (r, w')" and "winv w"
  shows "winv w' \<and> w_alloc w' = w_alloc w \<and> reserves_more (wrep w) (wrep w') \<and>
    (\<forall>ref. r = Inr (Some ref) \<longrightarrow> granted w ref w' \<and> ref_URI ref = li_URI list \<and> ref_Idx ref < nat (li_Size list)) \<and>
    (r = Inr None \<or> r = Inl DrawFails \<longrightarrow> wrep w' = wrep w) \<and> (\<forall>e. r = Inl e \<longrightarrow> e \<noteq> ListsFull)"
  using assms
proof (induction n arbitrary: w)
  case (Suc n)
  obtain i rs where draw: "randomIndex (w_rand w) (nat (li_Size list)) = (i, rs)"
    by (cases "randomIndex (w_rand w) (nat (li_Size list))")
  show ?case
  proof (cases i)
    case None
    with Suc.prems draw show ?thesis by auto
  next
    case (Some idx)
    have idx: "idx < nat (li_Size list)" using randomIndex_Some draw Some by simp
    obtain q s where res: "op_Reserve ops (w_store w) (li_URI list) idx = (q, s)"
      by (cases "op_Reserve ops (w_store w) (li_URI list) idx")
    have s: "inv s" using reserve_inv [OF Suc.prems(2) res] .
    note more = reserve_more [OF Suc.prems(2) res]
    consider "q = None" | "q = Some IndexTaken" | e where "q = Some e" "e \<noteq> IndexTaken"
      by (cases q) auto
    then show ?thesis
    proof cases
      case 1
      with Suc.prems draw Some res
      have "r = Inr (Some \<lparr> ref_Idx = idx, ref_URI = li_URI list \<rparr>)" "w' = w \<lparr> w_rand := rs, w_store := s \<rparr>"
        by auto
      with reserve_done [OF Suc.prems(2) res [unfolded 1]] s more idx show ?thesis
        by (simp add: granted_def del: fun_upd_apply)
    next
      case 2
      then have taken: "rep s = wrep w" using reserve_taken [OF Suc.prems(2)] res by simp
      from 2 Suc.prems draw Some res have "reserveIn ops list n (w \<lparr> w_rand := rs, w_store := s \<rparr>) = (r, w')"
        by simp
      from Suc.IH [OF this] s taken show ?thesis by (auto simp: granted_def)
    next
      case 3
      with Suc.prems draw Some res have "r = Inl (ReserveFails e)" "w' = w \<lparr> w_rand := rs, w_store := s \<rparr>"
        by auto
      with s more show ?thesis by simp
    qed
  qed
qed auto

lemma allocate_from_spec:
  assumes "allocate_from ops i ls ex w = (r, w')" and "winv w"
  shows "winv w' \<and> reserves_more (wrep w) (wrep w') \<and>
    al_FillLimit (w_alloc w') = al_FillLimit (w_alloc w) \<and>
    (\<forall>ref. r = Inr ref \<longrightarrow> granted w ref w' \<and>
       (\<exists>list \<in> set ls. ref_URI ref = li_URI list \<and> ref_Idx ref < nat (li_Size list) \<and>
          int (card (reserved_of (wrep w) (li_URI list))) < limit (w_alloc w) list)) \<and>
    (r = Inl ListsFull \<longrightarrow> \<not> ex \<and> wrep w' = wrep w \<and>
       (\<forall>list \<in> set ls. full_at (wrep w) (al_FillLimit (w_alloc w)) list))"
  using assms
proof (induction ls arbitrary: i ex w)
  case Nil
  then show ?case by (auto split: if_splits)
next
  case (Cons list ls)
  show ?case
  proof (cases "op_Reserved ops (w_store w) (li_URI list)")
    case (Inl e)
    with Cons.prems show ?thesis by auto
  next
    case (Inr n)
    then have n: "finite (reserved_of (wrep w) (li_URI list))" "n = card (reserved_of (wrep w) (li_URI list))"
      using reserved_counts [OF Cons.prems(2)] by auto
    show ?thesis
    proof (cases "int n \<ge> limit (w_alloc w) list")
      case True
      define w1 where "w1 = (if ex then w else w \<lparr> w_alloc := filled i (w_alloc w) \<rparr>)"
      have w1: "w_store w1 = w_store w" "al_FillLimit (w_alloc w1) = al_FillLimit (w_alloc w)"
        "limit (w_alloc w1) = limit (w_alloc w)"
        by (auto simp: w1_def)
      have run: "allocate_from ops (Suc i) ls ex w1 = (r, w')"
        using Cons.prems(1) Inr True by (simp add: w1_def)
      have full: "full_at (wrep w) (al_FillLimit (w_alloc w)) list"
        using True n by (simp add: full_at_def limit_full)
      from Cons.IH [OF run] Cons.prems(2) w1 full show ?thesis by (auto simp: granted_def)
    next
      case False
      obtain q w1 where res: "reserveIn ops list maxAllocateAttempts w = (q, w1)"
        by (cases "reserveIn ops list maxAllocateAttempts w")
      note spec = reserveIn_spec [OF res Cons.prems(2)]
      consider e where "q = Inl e" | ref where "q = Inr (Some ref)" | "q = Inr None"
        by (metis option.exhaust sum.exhaust)
      then show ?thesis
      proof cases
        case 1
        with Cons.prems(1) Inr False res spec show ?thesis by auto
      next
        case 2
        with Cons.prems(1) Inr False res have "r = Inr ref" "w' = w1" by auto
        with 2 spec n False show ?thesis by auto
      next
        case 3
        with Cons.prems(1) Inr False res have run: "allocate_from ops (Suc i) ls True w1 = (r, w')" by auto
        from Cons.IH [OF run] spec 3 show ?thesis by (auto simp: granted_def)
      qed
    qed
  qed
qed

end

section \<open>Allocating a batch, on any store that keeps the contract\<close>

lemma draw_more_spec:
  "draw_more need n draw tried rs = (Some (draw', tried'), rs') \<Longrightarrow>
     distinct draw \<Longrightarrow> set draw \<subseteq> set tried \<Longrightarrow> length draw \<le> need \<Longrightarrow> \<forall>i \<in> set draw. i < nat n \<Longrightarrow>
     distinct draw' \<and> length draw' \<le> need \<and> (\<forall>i \<in> set draw'. i < nat n)"
proof (induction need n draw tried rs arbitrary: draw' tried' rs' rule: draw_more.induct)
  case (1 need n draw tried rs)
  show ?case
  proof (cases "length draw < need")
    case False
    with 1 show ?thesis by (simp add: draw_more.simps [of need n draw tried rs])
  next
    case less: True
    obtain q rs1 where draw: "randomIndex rs (nat n) = (q, rs1)" by (cases "randomIndex rs (nat n)")
    show ?thesis
    proof (cases q)
      case None
      with 1(2) less draw show ?thesis by (simp add: draw_more.simps [of need n draw tried rs])
    next
      case (Some idx)
      have idx: "idx < nat n" using randomIndex_Some draw Some by simp
      define t where "t = (if idx \<notin> set tried then idx # tried else tried)"
      define d where "d = (if idx \<notin> set tried then draw @ [idx] else draw)"
      have d: "distinct d" "set d \<subseteq> set t" "length d \<le> need" "\<forall>i \<in> set d. i < nat n"
        using 1(3-6) less idx by (auto simp: d_def t_def)
      show ?thesis
      proof (cases "int (length t) = n")
        case True
        with 1(2) less draw Some have "draw' = d"
          by (simp add: draw_more.simps [of need n draw tried rs] Let_def t_def d_def split: if_splits)
        with d show ?thesis by simp
      next
        case False
        with 1(2) less draw Some have "draw_more need n d t rs1 = (Some (draw', tried'), rs')"
          by (simp add: draw_more.simps [of need n draw tried rs] Let_def t_def d_def split: if_splits)
        with 1(1) [OF less draw [symmetric] Some refl t_def d_def False _ d] show ?thesis by blast
      qed
    qed
  qed
qed

text \<open>The key under which a store keeps a reference, and what granting several makes of the map.\<close>

definition ref_key :: "status_list_ref \<Rightarrow> string \<times> nat" where
  "ref_key ref = (ref_URI ref, ref_Idx ref)"

definition grants :: "index_map \<Rightarrow> status_list_ref list \<Rightarrow> index_map \<Rightarrow> bool" where
  "grants m refs m' =
     (distinct refs \<and> (\<forall>ref \<in> set refs. m (ref_key ref) = None) \<and>
      (\<forall>k. m' k = (if k \<in> ref_key ` set refs then Some StatusValid else m k)))"

lemma inj_ref_key: "ref_key r = ref_key r' \<longleftrightarrow> r = r'"
  by (cases r; cases r') (auto simp: ref_key_def)

lemma grants_Nil [simp]: "grants m [] m' \<longleftrightarrow> m' = m"
  by (auto simp: grants_def fun_eq_iff)

lemma grants_append:
  assumes "grants m rs m1" and "grants m1 rs' m2"
  shows "grants m (rs @ rs') m2"
proof -
  have m1: "m1 k = (if k \<in> ref_key ` set rs then Some StatusValid else m k)" for k
    using assms(1) unfolding grants_def by blast
  have m2: "m2 k = (if k \<in> ref_key ` set rs' then Some StatusValid else m1 k)" for k
    using assms(2) unfolding grants_def by blast
  have free: "m1 (ref_key r) = None" if "r \<in> set rs'" for r
    using assms(2) that unfolding grants_def by blast
  then have "m (ref_key r) = None \<and> r \<notin> set rs" if "r \<in> set rs'" for r
    using that m1 [of "ref_key r"] by (auto split: if_splits)
  with assms m1 m2 show ?thesis unfolding grants_def by (simp add: image_Un) blast
qed

definition refs_in :: "string \<Rightarrow> nat list \<Rightarrow> status_list_ref list" where
  "refs_in u idxs = map (\<lambda>idx. \<lparr> ref_Idx = idx, ref_URI = u \<rparr>) idxs"

lemma grants_refs_in:
  "grants m (refs_in u got) m' \<longleftrightarrow>
     distinct got \<and> (\<forall>i \<in> set got. m (u, i) = None) \<and> m' = reserve_all u got m"
proof -
  have "distinct (refs_in u got) \<longleftrightarrow> distinct got"
    by (auto simp: refs_in_def distinct_map inj_on_def)
  moreover have "ref_key ` set (refs_in u got) = Pair u ` set got"
    by (force simp: refs_in_def ref_key_def)
  ultimately show ?thesis
    by (auto simp: grants_def reserve_all_def fun_eq_iff refs_in_def ref_key_def image_iff)
qed

lemma grants_more: "grants m refs m' \<Longrightarrow> reserves_more m m'"
proof -
  assume g: "grants m refs m'"
  then have "m \<subseteq>\<^sub>m m'" by (auto simp: grants_def map_le_def)
  moreover have "reserved_of m' u \<subseteq> ref_Idx ` set refs \<union> reserved_of m u" for u
    using g by (auto simp: grants_def reserved_of_def ref_key_def split: if_splits)
  ultimately show ?thesis unfolding reserves_more_def by (meson finite_Un finite_imageI finite_set finite_subset)
qed

lemma grants_refs_in_card:
  assumes "grants m (refs_in u got) m'" and "finite (reserved_of m u)"
  shows "finite (reserved_of m' u) \<and> card (reserved_of m' u) = card (reserved_of m u) + length got"
    and "u' \<noteq> u \<Longrightarrow> reserved_of m' u' = reserved_of m u'"
proof -
  from assms(1) have m': "distinct got" "\<forall>i \<in> set got. m (u, i) = None" "m' = reserve_all u got m"
    by (auto simp: grants_refs_in)
  then have "reserved_of m' u = reserved_of m u \<union> set got"
    by (auto simp: reserved_of_def reserve_all_def)
  moreover have "reserved_of m u \<inter> set got = {}" using m'(2) by (auto simp: reserved_of_def)
  ultimately show "finite (reserved_of m' u) \<and> card (reserved_of m' u) = card (reserved_of m u) + length got"
    using assms(2) m'(1) by (simp add: card_Un_disjoint distinct_card)
  show "u' \<noteq> u \<Longrightarrow> reserved_of m' u' = reserved_of m u'"
    by (auto simp: m'(3) reserved_of_def reserve_all_def)
qed

definition limits_kept :: "gofloat \<Rightarrow> allocator_list list \<Rightarrow> index_map \<Rightarrow> index_map \<Rightarrow> bool" where
  "limits_kept fill all_lists m m' =
     (\<forall>u. reserved_of m' u = reserved_of m u \<or>
        (\<exists>list \<in> set all_lists. li_URI list = u \<and>
           int (card (reserved_of m' u)) \<le> limit_at (fill_limit_of fill) list))"

definition refs_within :: "allocator_list list \<Rightarrow> status_list_ref list \<Rightarrow> bool" where
  "refs_within all_lists refs =
     (\<forall>ref \<in> set refs. \<exists>list \<in> set all_lists. ref_URI ref = li_URI list \<and> ref_Idx ref < nat (li_Size list))"

lemma limits_kept_step:
  assumes "limits_kept fill all_lists m m1" and "grants m1 (refs_in (li_URI list) got) m2"
    and "got \<noteq> [] \<longrightarrow> int (card (reserved_of m2 (li_URI list))) \<le> limit_at (fill_limit_of fill) list"
    and "list \<in> set all_lists"
  shows "limits_kept fill all_lists m m2"
  unfolding limits_kept_def
proof
  fix u
  have same: "reserved_of m2 u = reserved_of m1 u" if "u \<noteq> li_URI list \<or> got = []"
    using assms(2) that by (auto simp: grants_refs_in reserved_of_def reserve_all_def)
  show "reserved_of m2 u = reserved_of m u \<or> (\<exists>list \<in> set all_lists. li_URI list = u \<and>
      int (card (reserved_of m2 u)) \<le> limit_at (fill_limit_of fill) list)"
  proof (cases "u \<noteq> li_URI list \<or> got = []")
    case True
    with same assms(1) show ?thesis unfolding limits_kept_def by simp
  next
    case False
    with assms(3,4) show ?thesis by auto
  qed
qed

context batch_index_store
begin

lemma reserve_singles_spec:
  "reserve_singles ops u draw s = (r, s') \<Longrightarrow> inv s \<Longrightarrow> distinct draw \<Longrightarrow>
     inv s' \<and> reserves_more (rep s) (rep s') \<and>
     (\<forall>got. r = Inr got \<longrightarrow> grants (rep s) (refs_in u got) (rep s') \<and> set got \<subseteq> set draw)"
proof (induction draw arbitrary: s r s')
  case Nil
  then show ?case by (auto simp: refs_in_def)
next
  case (Cons i draw)
  obtain q s1 where res: "op_Reserve ops s u i = (q, s1)" by (cases "op_Reserve ops s u i")
  have s1: "inv s1" using reserve_inv [OF Cons.prems(2) res] .
  note more = reserve_more [OF Cons.prems(2) res]
  obtain r' s2 where rest: "reserve_singles ops u draw s1 = (r', s2)"
    by (cases "reserve_singles ops u draw s1")
  note ih = Cons.IH [OF rest s1] and trans = reserves_more_trans [OF more]
  consider "q = None" | "q = Some IndexTaken" | e where "q = Some e" "e \<noteq> IndexTaken"
    by (cases q) auto
  then show ?case
  proof cases
    case 1
    then have step: "rep s (u, i) = None" "rep s1 = (rep s)((u, i) \<mapsto> StatusValid)"
      using reserve_done [OF Cons.prems(2)] res by auto
    have one: "grants (rep s) (refs_in u [i]) (rep s1)" using step by (simp add: grants_refs_in)
    have "grants (rep s) (refs_in u (i # got)) (rep s2)" if "grants (rep s1) (refs_in u got) (rep s2)" for got
      using grants_append [OF one that] by (simp add: refs_in_def)
    with 1 Cons.prems res rest ih trans show ?thesis by (cases r') auto
  next
    case 2
    then have "rep s1 = rep s" using reserve_taken [OF Cons.prems(2)] res by auto
    with 2 Cons.prems res rest ih show ?thesis by auto
  next
    case 3
    with Cons.prems res s1 more show ?thesis by auto
  qed
qed

lemma reserve_drawn_spec:
  assumes "reserve_drawn ops u draw s = (r, s')" and "inv s" and "distinct draw"
  shows "inv s' \<and> (\<forall>got. r = Inr got \<longrightarrow> grants (rep s) (refs_in u got) (rep s') \<and> set got \<subseteq> set draw)"
proof (cases "op_ReserveEach ops")
  case None
  with assms reserve_singles_spec [of u draw s r s'] show ?thesis by (simp add: reserve_drawn_def)
next
  case (Some each)
  obtain q s1 where res: "each s u draw = (q, s1)" by (cases "each s u draw")
  have s1: "inv s1" using reserve_each_inv [OF Some assms(2) res] .
  show ?thesis
  proof (cases q)
    case (Inl e)
    with assms Some res s1 show ?thesis by (auto simp: reserve_drawn_def)
  next
    case (Inr got)
    have "distinct got \<and> set got = {i \<in> set draw. rep s (u, i) = None} \<and> rep s1 = reserve_all u got (rep s)"
      using reserve_each_done [OF Some assms(2,3)] res Inr by blast
    then have "grants (rep s) (refs_in u got) (rep s1)" "set got \<subseteq> set draw" by (auto simp: grants_refs_in)
    with assms Some res s1 Inr show ?thesis by (auto simp: reserve_drawn_def split: option.splits)
  qed
qed

lemma reserve_rounds_spec:
  assumes "reserve_rounds ops list want n got tried w = (r, w')" and "winv w" and "length got \<le> want"
    and "\<forall>i \<in> set got. i < nat (li_Size list)"
    and "grants m (refs_in (li_URI list) got) (wrep w)"
  shows "winv w' \<and> w_alloc w' = w_alloc w \<and>
    (\<forall>all. r = Inr all \<longrightarrow> grants m (refs_in (li_URI list) all) (wrep w') \<and> length all \<le> want \<and>
       (\<forall>i \<in> set all. i < nat (li_Size list))) \<and> (\<forall>e. r = Inl e \<longrightarrow> e \<noteq> ListsFull)"
  using assms
proof (induction n arbitrary: got tried w)
  case (Suc n)
  obtain q rs where draw: "draw_more (want - length got) (li_Size list) [] tried (w_rand w) = (q, rs)"
    by (cases "draw_more (want - length got) (li_Size list) [] tried (w_rand w)")
  show ?case
  proof (cases q)
    case None
    with Suc.prems draw show ?thesis by auto
  next
    case (Some dt)
    then obtain d t where q: "q = Some (d, t)" by (cases dt) auto
    have d: "distinct d" "length d \<le> want - length got" "\<forall>i \<in> set d. i < nat (li_Size list)"
      using draw_more_spec [OF draw [unfolded q]] by auto
    show ?thesis
    proof (cases "d = []")
      case True
      with Suc.prems draw q show ?thesis by auto
    next
      case False
      obtain p s where res: "reserve_drawn ops (li_URI list) d (w_store w) = (p, s)"
        by (cases "reserve_drawn ops (li_URI list) d (w_store w)")
      note spec = reserve_drawn_spec [OF res Suc.prems(2) d(1)]
      show ?thesis
      proof (cases p)
        case (Inl e)
        moreover from res Inl have "e \<noteq> ListsFull"
        proof -
          have "reserve_singles ops u draw s \<noteq> (Inl ListsFull, s')" for u draw s s'
            by (induction draw arbitrary: s) (auto split: prod.splits option.splits sum.splits)
          with res Inl show ?thesis
            by (auto simp: reserve_drawn_def split: option.splits prod.splits sum.splits)
        qed
        ultimately show ?thesis using Suc.prems draw q False res spec by auto
      next
        case (Inr more)
        let ?w = "w \<lparr> w_rand := rs, w_store := s \<rparr>"
        from Inr spec have more: "grants (wrep w) (refs_in (li_URI list) more) (rep s)" "set more \<subseteq> set d" "inv s"
          by auto
        have got: "grants m (refs_in (li_URI list) (got @ more)) (wrep ?w)"
          using grants_append [OF Suc.prems(5) more(1)] by (simp add: refs_in_def)
        have "distinct more" using more(1) by (simp add: grants_refs_in)
        then have len: "length (got @ more) \<le> want"
          using more(2) d(1,2) Suc.prems(3) card_mono [of "set d" "set more"] by (simp add: distinct_card)
        have less: "\<forall>i \<in> set (got @ more). i < nat (li_Size list)"
          using Suc.prems(4) more(2) d(3) by auto
        show ?thesis
        proof (cases "length (got @ more) = want")
          case True
          with Suc.prems(1) draw q False res Inr have "r = Inr (got @ more)" "w' = ?w" by auto
          with got len less more(3) show ?thesis by simp
        next
          case notyet: False
          with Suc.prems(1) draw q False res Inr
          have "reserve_rounds ops list want n (got @ more) t ?w = (r, w')" by auto
          from Suc.IH [OF this _ len less got] more(3) show ?thesis by simp
        qed
      qed
    qed
  qed
qed auto

lemma n_round_spec:
  assumes "n_round ops n i list refs ex w = (Inr (adv, refs', ex'), w')" and "winv w" and "length refs < n"
  shows "winv w' \<and> al_FillLimit (w_alloc w') = al_FillLimit (w_alloc w) \<and> length refs' \<le> n \<and>
    (ex \<longrightarrow> ex') \<and>
    (\<exists>got. refs' = refs @ refs_in (li_URI list) got \<and> grants (wrep w) (refs_in (li_URI list) got) (wrep w') \<and>
       (\<forall>j \<in> set got. j < nat (li_Size list)) \<and>
       (got \<noteq> [] \<longrightarrow> int (card (reserved_of (wrep w') (li_URI list))) \<le> limit (w_alloc w) list) \<and>
       (adv \<longrightarrow> ex' \<or> full_at (wrep w') (al_FillLimit (w_alloc w)) list))"
proof (cases "op_Reserved ops (w_store w) (li_URI list)")
  case (Inl e)
  with assms show ?thesis by (simp add: n_round_def)
next
  case (Inr c)
  then have c: "finite (reserved_of (wrep w) (li_URI list))" "c = card (reserved_of (wrep w) (li_URI list))"
    using reserved_counts [OF assms(2)] by auto
  define room where "room = limit (w_alloc w) list - int c"
  show ?thesis
  proof (cases "room \<le> 0")
    case True
    with Inr assms(1) have "adv" "refs' = refs" "ex' = ex"
      "w' = (if ex then w else w \<lparr> w_alloc := filled i (w_alloc w) \<rparr>)"
      by (auto simp: n_round_def room_def Let_def)
    moreover have "full_at (wrep w) (al_FillLimit (w_alloc w)) list"
      using True c by (simp add: full_at_def limit_full room_def)
    ultimately show ?thesis using assms(2,3) by (auto intro!: exI [of _ "[]"] simp: refs_in_def)
  next
    case False
    define want where "want = min (n - length refs) (min (nat room) allocateChunk)"
    obtain q w1 where res: "reserveEachIn ops list want w = (q, w1)" by (cases "reserveEachIn ops list want w")
    with Inr assms(1) False obtain got where q: "q = Inr got"
      by (auto simp: n_round_def room_def want_def Let_def split: sum.splits)
    from Inr assms(1) False res q have run: "w' = w1" "refs' = refs @ refs_in (li_URI list) got"
      "ex' = (ex \<or> length got < want)" "adv = (length got < want \<or> int want = room)"
      by (auto simp: n_round_def room_def [symmetric] want_def [symmetric] Let_def refs_in_def split: if_splits)
    have "grants (wrep w) (refs_in (li_URI list) []) (wrep w)" by (simp add: refs_in_def)
    from reserve_rounds_spec [OF res [unfolded reserveEachIn_def] assms(2) _ _ this] q
    have spec: "winv w1" "w_alloc w1 = w_alloc w" "grants (wrep w) (refs_in (li_URI list) got) (wrep w1)"
      "length got \<le> want" "\<forall>j \<in> set got. j < nat (li_Size list)"
      by auto
    have card: "finite (reserved_of (wrep w1) (li_URI list))"
      "card (reserved_of (wrep w1) (li_URI list)) = c + length got"
      using grants_refs_in_card(1) [OF spec(3) c(1)] c(2) by auto
    have want: "int want \<le> room" "want \<le> n - length refs" using False by (auto simp: want_def)
    have "int (card (reserved_of (wrep w1) (li_URI list))) \<le> limit (w_alloc w) list"
      using card(2) spec(4) want(1) by (simp add: room_def)
    moreover have "full_at (wrep w1) (al_FillLimit (w_alloc w)) list" if "\<not> length got < want" "int want = room"
      using that card spec(4) by (simp add: full_at_def limit_full room_def)
    ultimately show ?thesis
      using spec run want(2) assms(3) by (auto simp: refs_in_def intro!: exI [of _ got])
  qed
qed

lemma n_round_fails:
  assumes "n_round ops n i list refs ex w = (Inl e, w')" and "winv w"
  shows "winv w' \<and> e \<noteq> ListsFull"
proof (cases "op_Reserved ops (w_store w) (li_URI list)")
  case (Inl e')
  with assms show ?thesis by (auto simp: n_round_def)
next
  case (Inr c)
  define want where "want = min (n - length refs) (min (nat (limit (w_alloc w) list - int c)) allocateChunk)"
  from Inr assms(1) have "reserveEachIn ops list want w = (Inl e, w')"
    by (auto simp: n_round_def want_def Let_def split: if_splits sum.splits prod.splits)
  then have run: "reserve_rounds ops list want maxAllocateAttempts [] [] w = (Inl e, w')"
    by (simp add: reserveEachIn_def)
  have "grants (wrep w) (refs_in (li_URI list) []) (wrep w)" by (simp add: refs_in_def)
  from reserve_rounds_spec [OF run assms(2) _ _ this] show ?thesis by simp
qed

lemma allocate_n_from_spec:
  assumes "allocate_n_from ops n i ls refs ex w = (r, w')" and "winv w" and "length refs \<le> n"
    and "grants m refs (wrep w)" and "refs_within all_lists refs" and "set ls \<subseteq> set all_lists"
    and "limits_kept fill all_lists m (wrep w)" and "al_FillLimit (w_alloc w) = fill"
  shows "winv w' \<and>
    (\<forall>all. r = Inr all \<longrightarrow> length all = n \<and> grants m all (wrep w') \<and> refs_within all_lists all \<and>
       limits_kept fill all_lists m (wrep w')) \<and>
    (r = Inl ListsFull \<longrightarrow> \<not> ex \<and> (\<forall>list \<in> set ls. full_at (wrep w') fill list) \<and>
       reserves_more (wrep w) (wrep w'))"
  using assms
proof (induction "length ls + (n - length refs)" arbitrary: i ls refs ex w rule: less_induct)
  case less
  show ?case
  proof (cases "ls = [] \<or> \<not> length refs < n")
    case True
    then have "r = (if length refs = n then Inr refs else Inl (if ex then NoFreeIndex else ListsFull))" "w' = w"
      using less.prems(1) by (auto simp: allocate_n_from.simps [of ops n i ls])
    with True less.prems show ?thesis by auto
  next
    case False
    then obtain list rest where ls: "ls = list # rest" and short: "length refs < n" by (cases ls) auto
    obtain q w1 where res: "n_round ops n i list refs ex w = (q, w1)" by (cases "n_round ops n i list refs ex w")
    show ?thesis
    proof (cases q)
      case (Inl e)
      with less.prems(1) False res ls have "r = Inl e" "w' = w1"
        by (auto simp: allocate_n_from.simps [of ops n i "list # rest"])
      with n_round_fails [OF res [unfolded Inl] less.prems(2)] show ?thesis by simp
    next
      case (Inr p)
      then obtain adv refs1 ex1 where q: "q = Inr (adv, refs1, ex1)" by (cases p) auto
      from n_round_spec [OF res [unfolded q] less.prems(2) short, unfolded limit_full less.prems(8)]
      obtain got where
        w1: "winv w1" "al_FillLimit (w_alloc w1) = fill" "length refs1 \<le> n" "ex \<longrightarrow> ex1" and
        refs1: "refs1 = refs @ refs_in (li_URI list) got" and
        got: "grants (wrep w) (refs_in (li_URI list) got) (wrep w1)" "\<forall>j \<in> set got. j < nat (li_Size list)"
          "got \<noteq> [] \<longrightarrow> int (card (reserved_of (wrep w1) (li_URI list))) \<le> limit_at (fill_limit_of fill) list" and
        adv: "adv \<longrightarrow> ex1 \<or> full_at (wrep w1) fill list"
        by blast
      have g: "grants m refs1 (wrep w1)" using grants_append [OF less.prems(4) got(1)] refs1 by simp
      have within: "refs_within all_lists refs1"
        using less.prems(5,6) got(2) ls unfolding refs1 refs_within_def by (auto simp: refs_in_def)
      have kept: "limits_kept fill all_lists m (wrep w1)"
        using limits_kept_step [OF less.prems(7) got(1,3)] less.prems(6) ls by simp
      note more = grants_more [OF got(1)]
      show ?thesis
      proof (cases adv)
        case True
        with less.prems(1) False res q ls have run: "allocate_n_from ops n (Suc i) rest refs1 ex1 w1 = (r, w')"
          by (simp add: allocate_n_from.simps [of ops n i "list # rest"])
        have "length refs \<le> length refs1" by (simp add: refs1)
        then have dec: "length rest + (n - length refs1) < length ls + (n - length refs)" by (simp add: ls)
        have "set rest \<subseteq> set all_lists" using less.prems(6) ls by simp
        from less.hyps [OF dec run w1(1,3) g within this kept w1(2)]
        show ?thesis
          using True adv w1(4) ls more by (auto intro: full_at_mono reserves_more_trans)
      next
        case again: False
        with less.prems(1) False res q ls have run: "allocate_n_from ops n i ls refs1 ex1 w1 = (r, w')"
          by (simp add: allocate_n_from.simps [of ops n i "list # rest"])
        have "length refs < length refs1" using n_round_again res q again short by metis
        with short have dec: "length ls + (n - length refs1) < length ls + (n - length refs)" by simp
        from less.hyps [OF dec run w1(1,3) g within less.prems(6) kept w1(2)]
        show ?thesis using w1(4) more by (auto intro: reserves_more_trans)
      qed
    qed
  qed
qed

end

section \<open>The calls\<close>

lemma check_settings_spec:
  assumes "check_settings url_Parse a = (r, a')"
  shows "al_Store a' = al_Store a \<and> al_FillLimit a' = al_FillLimit a \<and>
    al_Lists a' = al_Lists a \<and> al_Bits a' = al_Bits a \<and> (remembers m a \<longrightarrow> remembers m a') \<and>
    (\<forall>e. r = Inl e \<longrightarrow> e \<noteq> ListsFull) \<and>
    (\<forall>c. r = Inr c \<longrightarrow> ck_lists c = al_Lists a \<and> ck_fillLimit c = al_FillLimit a \<and> al_checked a' = Some c)"
proof -
  have "validate_lists url_Parse b i seen ls \<noteq> Some ListsFull" for b :: "'s allocator" and i seen ls
    by (induction ls arbitrary: i seen) (auto split: option.splits)
  then have "allocator_validate url_Parse a \<noteq> Some ListsFull" by (auto simp: allocator_validate_def)
  with assms show ?thesis
    by (auto simp: check_settings_def Let_def float_eq_def remembers_def split: option.splits if_splits)
qed

text \<open>What a call of \<open>Allocate\<close> does, whatever the store, as long as it keeps the contract.\<close>

context index_store
begin

lemma Allocate_run:
  assumes "Allocate url_Parse w = (r, w')" and "al_Store (w_alloc w) = Some ops" and "winv w"
    and "remembers (wrep w) (w_alloc w)"
  shows "(\<forall>ref. r = Inr ref \<longrightarrow> granted w ref w' \<and>
       (\<exists>list \<in> set (al_Lists (w_alloc w)). ref_URI ref = li_URI list \<and> ref_Idx ref < nat (li_Size list) \<and>
          int (card (reserved_of (wrep w) (li_URI list))) < limit (w_alloc w) list)) \<and>
    (r = Inl ListsFull \<longrightarrow> wrep w' = wrep w \<and>
       (\<forall>list \<in> set (al_Lists (w_alloc w)). full_at (wrep w) (al_FillLimit (w_alloc w)) list))"
proof -
  obtain q a where chk: "check_settings url_Parse (w_alloc w) = (q, a)"
    by (cases "check_settings url_Parse (w_alloc w)")
  note a = check_settings_spec [OF chk, where m = "wrep w"]
  show ?thesis
  proof (cases q)
    case (Inl e)
    with assms(1) chk a show ?thesis by (auto simp: Allocate_def)
  next
    case (Inr c)
    with a have c: "ck_lists c = al_Lists (w_alloc w)" "ck_fillLimit c = al_FillLimit (w_alloc w)"
      "al_checked a = Some c" "remembers (wrep w) a"
      using assms(4) by auto
    have run: "allocate_from ops (ck_full c) (drop (ck_full c) (al_Lists (w_alloc w))) False (w \<lparr> w_alloc := a \<rparr>) = (r, w')"
      using assms(1,2) chk a Inr c(1) by (auto simp: Allocate_def)
    have lim: "limit a = limit (w_alloc w)" using a by (simp add: limit_full fun_eq_iff)
    have known: "\<forall>list \<in> set (take (ck_full c) (al_Lists (w_alloc w))). full_at (wrep w) (al_FillLimit (w_alloc w)) list"
      using c by (simp add: remembers_def)
    have split: "set (al_Lists (w_alloc w)) =
        set (take (ck_full c) (al_Lists (w_alloc w))) \<union> set (drop (ck_full c) (al_Lists (w_alloc w)))"
      by (metis append_take_drop_id set_append)
    from allocate_from_spec [OF run] assms(3) a lim known show ?thesis
      unfolding split by (auto simp: granted_def)
  qed
qed

end

context batch_index_store
begin

lemma AllocateN_run:
  assumes "AllocateN url_Parse n w = (r, w')" and "al_Store (w_alloc w) = Some ops" and "winv w"
    and "remembers (wrep w) (w_alloc w)"
  shows "(\<forall>refs. r = Inr refs \<longrightarrow> int (length refs) = n \<and> grants (wrep w) refs (wrep w') \<and>
       refs_within (al_Lists (w_alloc w)) refs \<and>
       limits_kept (al_FillLimit (w_alloc w)) (al_Lists (w_alloc w)) (wrep w) (wrep w')) \<and>
    (r = Inl ListsFull \<longrightarrow>
       (\<forall>list \<in> set (al_Lists (w_alloc w)). full_at (wrep w') (al_FillLimit (w_alloc w)) list))"
proof (cases "n < 1 \<or> n > int MaxAllocateN")
  case True
  with assms(1) show ?thesis by (auto simp: AllocateN_def)
next
  case n: False
  obtain q a where chk: "check_settings url_Parse (w_alloc w) = (q, a)"
    by (cases "check_settings url_Parse (w_alloc w)")
  note a = check_settings_spec [OF chk, where m = "wrep w"]
  show ?thesis
  proof (cases q)
    case (Inl e)
    with assms(1) n chk a show ?thesis by (auto simp: AllocateN_def)
  next
    case (Inr c)
    let ?L = "al_Lists (w_alloc w)" and ?F = "al_FillLimit (w_alloc w)" and ?w = "w \<lparr> w_alloc := a \<rparr>"
    from Inr a have c: "ck_lists c = ?L" "ck_fillLimit c = ?F" "al_checked a = Some c" "remembers (wrep w) a"
      using assms(4) by auto
    have run: "allocate_n_from ops (nat n) (ck_full c) (drop (ck_full c) ?L) [] False ?w = (r, w')"
      using assms(1,2) n chk a Inr c(1) by (auto simp: AllocateN_def)
    have known: "\<forall>list \<in> set (take (ck_full c) ?L). full_at (wrep w) ?F list"
      using c by (simp add: remembers_def)
    have split: "set ?L = set (take (ck_full c) ?L) \<union> set (drop (ck_full c) ?L)"
      by (metis append_take_drop_id set_append)
    have spec: "winv w' \<and>
      (\<forall>all. r = Inr all \<longrightarrow> length all = nat n \<and> grants (wrep w) all (wrep w') \<and> refs_within ?L all \<and>
         limits_kept ?F ?L (wrep w) (wrep w')) \<and>
      (r = Inl ListsFull \<longrightarrow> \<not> False \<and> (\<forall>list \<in> set (drop (ck_full c) ?L). full_at (wrep w') ?F list) \<and>
         reserves_more (wrep ?w) (wrep w'))"
      by (rule allocate_n_from_spec [OF run])
        (use assms(3) a in \<open>auto simp: refs_within_def limits_kept_def dest: in_set_dropD\<close>)
    have "full_at (wrep w') ?F list" if "list \<in> set ?L" "r = Inl ListsFull" for list
      using that known spec unfolding split by (auto intro: full_at_mono)
    with spec n show ?thesis by auto
  qed
qed

end

lemma accepted_lists:
  assumes "allocator_validate url_Parse a = None" and "list \<in> set (al_Lists a)"
  shows "li_Size list \<le> int (maxDecompressedSize * perByte (allocator_bits a)) \<and>
    1 \<le> limit a list \<and> limit a list \<le> li_Size list \<and>
    (length statuses = nat (li_Size list) \<longrightarrow> Pack (allocator_bits a) statuses = Inr packed \<longrightarrow>
       length packed \<le> maxDecompressedSize \<and> length packed * perByte (allocator_bits a) = length statuses)"
proof -
  have each: "\<forall>list \<in> set ls. validateList url_Parse a list = None"
    if "validate_lists url_Parse a i seen ls = None" for i seen ls
    using that by (induction ls arbitrary: i seen) (auto split: option.splits if_splits)
  from assms(1) have "validate_lists url_Parse a 0 [] (al_Lists a) = None"
    and bits: "Bits_valid (allocator_bits a)"
    and fill: "al_FillLimit a \<noteq> NaN" "\<not> float_less (Finite MaxFillLimit) (al_FillLimit a)"
      "\<not> float_less (al_FillLimit a) (Finite 0)"
    by (auto simp: allocator_validate_def allocator_bits_def Bits_valid_def split: if_splits)
  from each [OF this(1)] assms(2) have "validateList url_Parse a list = None" by blast
  then have ok: "0 < li_Size list" "li_Size list mod int (perByte (allocator_bits a)) = 0"
    "li_Size list div int (perByte (allocator_bits a)) \<le> int maxDecompressedSize" "1 \<le> limit a list"
    by (simp_all add: validateList_def Let_def maxListBytes_def split: if_splits)
  have per: "0 < perByte (allocator_bits a)" "perByte (allocator_bits a) \<le> 8"
    using bits by (auto simp: Bits_valid_def perByte_def)
  have div: "li_Size list = li_Size list div int (perByte (allocator_bits a)) * int (perByte (allocator_bits a))"
    using ok(2) by (metis add.right_neutral div_mult_mod_eq)
  have "li_Size list \<le> int maxDecompressedSize * 8"
    by (subst div) (use ok(1,3) per in \<open>auto intro!: mult_mono simp: pos_imp_zdiv_nonneg_iff\<close>)
  also have "\<dots> \<le> 2 ^ 52" by (simp add: maxDecompressedSize_def)
  finally have size: "li_Size list \<le> 2 ^ 52" .
  have "\<exists>r. fill_limit_of (al_FillLimit a) = Finite r \<and> r \<le> MaxFillLimit"
    using fill by (cases "al_FillLimit a")
      (auto simp: fill_limit_of_def float_eq_def DefaultFillLimit_def MaxFillLimit_def intro: exI [of _ "1 / 2"])
  then have lim: "limit a list \<le> li_Size list"
    using limit_le_size [OF _ ok(1) size] by (auto simp: limit_full)
  have "length packed \<le> maxDecompressedSize \<and> length packed * perByte (allocator_bits a) = length statuses"
    if "length statuses = nat (li_Size list)" "Pack (allocator_bits a) statuses = Inr packed"
  proof -
    define q where "q = nat (li_Size list div int (perByte (allocator_bits a)))"
    have n: "length statuses = q * perByte (allocator_bits a)"
      using that(1) div ok(1) by (metis nat_int nat_mult_distrib of_nat_0_le_iff pos_imp_zdiv_nonneg_iff
        of_nat_0_less_iff per(1) order_less_imp_le q_def)
    have "(q * p + p - 1) div p = q" if "0 < p" for p
      using that by (intro div_nat_eqI) (simp_all add: mult.commute)
    with per(1) have "length packed = q" unfolding Pack_Inr(2) [OF that(2)] n by blast
    moreover have "q \<le> maxDecompressedSize" using ok(3) by (simp add: q_def nat_le_iff)
    ultimately show ?thesis using n by simp
  qed
  moreover have "li_Size list \<le> int (maxDecompressedSize * perByte (allocator_bits a))"
    by (subst div) (use ok(3) in \<open>simp add: mult_right_mono\<close>)
  ultimately show ?thesis using ok(4) lim by blast
qed

lemma list_named_Inr:
  "list_named ref ls = Inr list \<Longrightarrow> list \<in> set ls \<and> li_URI list = ref_URI ref \<and> ref_Idx ref < nat (li_Size list)"
  by (induction ls) (auto split: if_splits)

lemma list_named_zero:
  "list_named ref ls = Inr list \<Longrightarrow> list_named \<lparr> ref_Idx = 0, ref_URI = ref_URI ref \<rparr> ls = Inr list"
  by (induction ls) (auto split: if_splits)

lemma listFor_Inr:
  assumes "listFor url_Parse ref a = (Inr list, a')"
  shows "list_named ref (al_Lists a) = Inr list \<and> al_Store a' = al_Store a \<and> al_Lists a' = al_Lists a \<and>
    al_Bits a' = al_Bits a"
proof -
  obtain q a1 where chk: "check_settings url_Parse a = (q, a1)" by (cases "check_settings url_Parse a")
  from check_settings_spec [OF chk] assms chk show ?thesis
    by (cases q) (auto simp: listFor_def)
qed

section \<open>Properties\<close>

lemma small_limit: "limit_at (Finite (1 / 2)) \<lparr> li_URI = u, li_Size = 8 \<rparr> = 4"
  by (simp add: limit_at_def float64_def exponent_def round_even_def bit_len.simps pow2_def quotient_of_int)

text \<open>An allocator of one list of eight one-bit statuses over the store in memory, in which index 3 is
  reserved, for the witnesses: half the list, four indices, may be reserved.\<close>

definition small_world :: "64 word list \<Rightarrow> mem_lists world" where
  "small_world rs =
     \<lparr> w_store = [(''u'', [(3, 0)])], w_rand = rs,
       w_alloc = \<lparr> al_Lists = [\<lparr> li_URI = ''u'', li_Size = 8 \<rparr>], al_Store = Some MemoryIndexStore, al_Bits = 0,
         al_FillLimit = Finite 0, al_checked = None \<rparr> \<rparr>"

definition any_https :: "string \<Rightarrow> url_parts option" where
  "any_https u = Some \<lparr> url_Scheme = ''https'', url_Host = ''h'', url_HasUser = False, url_Fragment = [] \<rparr>"

definition rep_full :: "mem_lists world \<Rightarrow> bool" where
  "rep_full w = list_all (\<lambda>list. limit (w_alloc w) list \<le> int (card (reserved_of (mem_rep (w_store w)) (li_URI list))))
     (al_Lists (w_alloc w))"

lemma small_world_ok: "mem_ok (w_store (small_world rs))"
  by (simp add: small_world_def mem_ok_def mem_read_def)

lemma small_world_remembers: "remembers m (w_alloc (small_world rs))"
  by (simp add: small_world_def remembers_def)

lemma small_world_store: "al_Store (w_alloc (small_world rs)) = Some MemoryIndexStore"
  by (simp add: small_world_def)

lemma small_world_check:
  "check_settings any_https (w_alloc (small_world rs)) =
     (let c = \<lparr> ck_lists = [\<lparr> li_URI = ''u'', li_Size = 8 \<rparr>], ck_bits = 0, ck_fillLimit = Finite 0, ck_full = 0 \<rparr>
      in (Inr c, w_alloc (small_world rs) \<lparr> al_checked := Some c \<rparr>))"
  by (simp add: small_world_def check_settings_def allocator_validate_def validateList_def any_https_def
    allocator_bits_def perByte_def limit_full fill_limit_of_def float_eq_def DefaultFillLimit_def small_limit
    maxListBytes_def maxDecompressedSize_def MaxFillLimit_def Let_def)

lemma small_world_recheck:
  "check_settings any_https (snd (check_settings any_https (w_alloc (small_world rs)))) =
     check_settings any_https (w_alloc (small_world rs))"
  unfolding small_world_check by (simp add: Let_def) (simp add: small_world_def check_settings_def float_eq_def)

lemma small_world_run:
  "Allocate any_https (small_world rs) =
     allocate_from MemoryIndexStore 0 [\<lparr> li_URI = ''u'', li_Size = 8 \<rparr>] False
       (small_world rs \<lparr> w_alloc := snd (check_settings any_https (w_alloc (small_world rs))) \<rparr>)"
  "AllocateN any_https 2 (small_world rs) =
     allocate_n_from MemoryIndexStore 2 0 [\<lparr> li_URI = ''u'', li_Size = 8 \<rparr>] [] False
       (small_world rs \<lparr> w_alloc := snd (check_settings any_https (w_alloc (small_world rs))) \<rparr>)"
  by (simp_all add: Allocate_def AllocateN_def MaxAllocateN_def small_world_check small_world_store Let_def)

lemma small_draws:
  "unat (11 AND index_mask 8) = 3" "unat (14 AND index_mask 8) = 6" "unat (9 AND index_mask 8) = 1"
  by code_simp+

lemmas attempts_left =
  maxAllocateAttempts_def reserveIn.simps(2) [where attempts = 127, simplified]
  reserveIn.simps(2) [where attempts = 126, simplified] reserve_rounds.simps(2) [where rounds = 127, simplified]
  reserve_rounds.simps(2) [where rounds = 126, simplified]

lemmas small_world_evals =
  small_world_def MemoryIndexStore_def mem_Reserved_def mem_Reserve_def mem_list_def mem_read_def limit_full
  fill_limit_of_def float_eq_def DefaultFillLimit_def small_limit attempts_left small_draws Let_def

text \<open>An index is drawn uniformly: of the values of a 64-bit draw, the same number select each index of
  the list, so no index is likelier than another; a draw that selects none is repeated.\<close>

theorem random_index_uniform:
  assumes "i < n" and "n \<le> 2 ^ 64"
  shows "card {r :: 64 word. randomIndex [r] n = (Some i, [])} = 2 ^ (64 - bit_len (n - 1))"
proof -
  have "n - 1 < 2 ^ bit_len (n - 1)" by (rule bit_len_bounds(1))
  then have i: "i < 2 ^ bit_len (n - 1)" using assms(1) by linarith
  have "n - 1 < 2 ^ 64" using assms by linarith
  then have k: "bit_len (n - 1) \<le> 64" by (rule bit_len_le)
  have "randomIndex [r] n = (Some i, []) \<longleftrightarrow> unat r mod 2 ^ bit_len (n - 1) = i" for r
    using assms(1) by (auto simp: Let_def index_mask_mask [OF assms(2)] unat_and_mask)
  then show ?thesis
    using card_words [of "\<lambda>x. x mod 2 ^ bit_len (n - 1) = i"] card_residues [OF i k] by simp
qed

theorem random_index_uniform_witness:
  "card {r :: 64 word. randomIndex [r] 3 = (Some 2, [])} = 2 ^ 62"
  using random_index_uniform [of 2 3] by (simp add: bit_len.simps)

text \<open>C30: An index allocated was never allocated before, whatever store the allocator has, so long as
  it keeps its contract: it was free, it is in range of a list that had not reached its limit, and
  its reservation is all that changed.\<close>

theorem allocate_fresh:
  assumes "index_store ops rep ok" and "ok (w_store w)" and "al_Store (w_alloc w) = Some ops"
    and "remembers (rep (w_store w)) (w_alloc w)" and "Allocate url_Parse w = (Inr ref, w')"
  shows "rep (w_store w) (ref_URI ref, ref_Idx ref) = None \<and>
    rep (w_store w') = (rep (w_store w))((ref_URI ref, ref_Idx ref) \<mapsto> StatusValid) \<and>
    (\<exists>list \<in> set (al_Lists (w_alloc w)). ref_URI ref = li_URI list \<and> ref_Idx ref < nat (li_Size list) \<and>
       int (card (reserved_of (rep (w_store w)) (li_URI list))) < limit (w_alloc w) list)"
  using index_store.Allocate_run [OF assms(1,5,3,2,4)] by (simp add: index_store.granted_def [OF assms(1)])

theorem allocate_fresh_witness:
  "mem_rep (w_store (small_world [])) (''u'', 6) = None"
proof -
  have "fst (Allocate any_https (small_world [11, 14, 9])) = Inr \<lparr> ref_Idx = 6, ref_URI = ''u'' \<rparr>"
    unfolding small_world_run small_world_check by (simp add: small_world_evals)
  then obtain w' where run: "Allocate any_https (small_world [11, 14, 9]) = (Inr \<lparr> ref_Idx = 6, ref_URI = ''u'' \<rparr>, w')"
    by (cases "Allocate any_https (small_world [11, 14, 9])") simp
  from allocate_fresh [OF mem.index_store_axioms small_world_ok small_world_store small_world_remembers run]
  show ?thesis by (simp add: small_world_def)
qed

text \<open>\<open>ErrListsFull\<close> is true: when \<open>Allocate\<close> returns it, every list, those it remembers as full
  included, holds at least as many reservations as its limit, and nothing was reserved.\<close>

theorem allocate_lists_full:
  assumes "index_store ops rep ok" and "ok (w_store w)" and "al_Store (w_alloc w) = Some ops"
    and "remembers (rep (w_store w)) (w_alloc w)" and "Allocate url_Parse w = (Inl ListsFull, w')"
  shows "rep (w_store w') = rep (w_store w) \<and>
    (\<forall>list \<in> set (al_Lists (w_alloc w)).
       limit (w_alloc w) list \<le> int (card (reserved_of (rep (w_store w)) (li_URI list))))"
  using index_store.Allocate_run [OF assms(1,5,3,2,4)] by (simp add: full_at_def limit_full)

theorem allocate_lists_full_witness:
  "rep_full (small_world [] \<lparr> w_store := [(''u'', [(3, 0), (1, 0), (2, 0), (7, 1)])] \<rparr>)"
proof -
  let ?w = "small_world [] \<lparr> w_store := [(''u'', [(3, 0), (1, 0), (2, 0), (7, 1)])] \<rparr>"
  have "fst (Allocate any_https ?w) = Inl ListsFull"
    by (simp add: Allocate_def small_world_check small_world_store Let_def)
      (simp add: small_world_evals filled_def)
  then obtain w' where run: "Allocate any_https ?w = (Inl ListsFull, w')"
    by (cases "Allocate any_https ?w") simp
  have "mem_ok (w_store ?w)" by (simp add: mem_ok_def mem_read_def)
  moreover have "al_Store (w_alloc ?w) = Some MemoryIndexStore" by (simp add: small_world_def)
  moreover have "remembers (mem_rep (w_store ?w)) (w_alloc ?w)" using small_world_remembers by simp
  ultimately show ?thesis
    using allocate_lists_full [OF mem.index_store_axioms _ _ _ run] by (simp add: rep_full_def small_world_def)
qed

text \<open>A batch is as good as its allocations one by one: \<open>AllocateN\<close> returns exactly \<open>n\<close> distinct
  references, each free before and in range of its list, reserves those and no other, and takes no
  list past its limit.\<close>

theorem allocate_n_fresh:
  assumes "batch_index_store ops rep ok" and "ok (w_store w)" and "al_Store (w_alloc w) = Some ops"
    and "remembers (rep (w_store w)) (w_alloc w)" and "AllocateN url_Parse n w = (Inr refs, w')"
  shows "int (length refs) = n \<and> grants (rep (w_store w)) refs (rep (w_store w')) \<and>
    refs_within (al_Lists (w_alloc w)) refs \<and>
    limits_kept (al_FillLimit (w_alloc w)) (al_Lists (w_alloc w)) (rep (w_store w)) (rep (w_store w'))"
  using batch_index_store.AllocateN_run [OF assms(1,5,3,2,4)] by simp

theorem allocate_n_fresh_witness:
  "limits_kept (Finite 0) [\<lparr> li_URI = ''u'', li_Size = 8 \<rparr>] (mem_rep (w_store (small_world [])))
     (mem_rep (w_store (snd (AllocateN any_https 2 (small_world [11, 14, 9])))))"
proof -
  let ?refs = "[\<lparr> ref_Idx = 6, ref_URI = ''u'' \<rparr>, \<lparr> ref_Idx = 1, ref_URI = ''u'' \<rparr>]"
  have "fst (AllocateN any_https 2 (small_world [11, 14, 9])) = Inr ?refs"
    unfolding small_world_run small_world_check
    by (simp add: small_world_evals allocate_n_from.simps n_round_def reserveEachIn_def draw_more.simps
      reserve_drawn_def mem_ReserveEach_def allocateChunk_def)
  then obtain w' where run: "AllocateN any_https 2 (small_world [11, 14, 9]) = (Inr ?refs, w')"
    by (cases "AllocateN any_https 2 (small_world [11, 14, 9])") simp
  from allocate_n_fresh [OF mem.batch_index_store_axioms small_world_ok small_world_store
      small_world_remembers run] run
  show ?thesis by (simp add: small_world_def)
qed

text \<open>The settings an allocator accepts make sense of every list: at least one index of it and at
  most all are handed out, whatever the rounding of the product of two floats does, and its packed
  form is a whole number of bytes that a Checker decompresses.\<close>

theorem accepted_settings:
  assumes "allocator_validate url_Parse a = None" and "list \<in> set (al_Lists a)"
  shows "1 \<le> limit a list \<and> limit a list \<le> li_Size list \<and>
    (length statuses = nat (li_Size list) \<longrightarrow> Pack (allocator_bits a) statuses = Inr packed \<longrightarrow>
       length packed \<le> maxDecompressedSize \<and> length packed * perByte (allocator_bits a) = length statuses)"
  using accepted_lists [OF assms] by blast

theorem accepted_settings_witness:
  "limit (w_alloc (small_world [])) \<lparr> li_URI = ''u'', li_Size = 8 \<rparr> \<le> 8"
  using accepted_settings [of any_https "w_alloc (small_world [])" "\<lparr> li_URI = ''u'', li_Size = 8 \<rparr>"]
  by (simp add: small_world_def allocator_validate_def validateList_def any_https_def
    allocator_bits_def perByte_def limit_full fill_limit_of_def float_eq_def DefaultFillLimit_def small_limit
    maxListBytes_def maxDecompressedSize_def MaxFillLimit_def Let_def)

text \<open>C23: Revocation reaches the reader. After \<open>SetStatus\<close> succeeds, the list published from \<open>Statuses\<close>
  gives a Checker exactly that status at the token's index, through packing, compression and
  base64url, when zlib inflates what it deflated.\<close>

theorem set_status_published:
  assumes "index_store ops rep ok" and "ok (w_store w)" and "al_Store (w_alloc w) = Some ops"
    and "allocator_validate url_Parse (w_alloc w) = None"
    and "Allocator_SetStatus url_Parse ref status w = (None, w1)"
    and "Allocator_Statuses url_Parse (ref_URI ref) w1 = Inr statuses"
    and "StatusList_New deflate (allocator_bits (w_alloc w)) statuses agg = Inr sl"
    and "\<And>level b raw. deflate level b = Some raw \<Longrightarrow> inflate raw = Inr (b, False) \<and> (\<forall>x \<in> set raw. x < 256)"
  shows "StatusList_Status inflate sl (int (ref_Idx ref)) = Inr status"
proof -
  obtain q a where lf: "listFor url_Parse ref (w_alloc w) = (q, a)" by (cases "listFor url_Parse ref (w_alloc w)")
  with assms(5) obtain list where q: "q = Inr list" by (cases q) (auto simp: Allocator_SetStatus_def)
  from listFor_Inr [OF lf [unfolded q]]
  have named: "list_named ref (al_Lists (w_alloc w)) = Inr list" and a: "al_Store a = Some ops"
    "al_Lists a = al_Lists (w_alloc w)" "al_Bits a = al_Bits (w_alloc w)"
    using assms(3) by auto
  obtain s where set: "op_SetStatus ops (w_store w) (ref_URI ref) (ref_Idx ref) status = (None, s)"
    and w1: "w_store w1 = s" "w_alloc w1 = a"
    using assms(5) lf q a by (auto simp: Allocator_SetStatus_def split: if_splits prod.splits)
  have s: "rep s (ref_URI ref, ref_Idx ref) = Some status" "ok s"
    using index_store.set_status_done [OF assms(1,2) set] index_store.set_status_inv [OF assms(1,2) set] by auto
  obtain q' a' where lf': "listFor url_Parse \<lparr> ref_Idx = 0, ref_URI = ref_URI ref \<rparr> a = (q', a')"
    by (cases "listFor url_Parse \<lparr> ref_Idx = 0, ref_URI = ref_URI ref \<rparr> a")
  with assms(6) w1 obtain list' where q': "q' = Inr list'" by (cases q') (auto simp: Allocator_Statuses_def)
  from listFor_Inr [OF lf' [unfolded q']] list_named_zero [OF named] a
  have same: "list' = list" "al_Store a' = Some ops" by auto
  have read: "op_Statuses ops s (ref_URI ref) (li_Size list) = Inr statuses" "int (length statuses) = li_Size list"
    using assms(6) w1 lf' q' same by (auto simp: Allocator_Statuses_def split: sum.splits if_splits)
  from index_store.statuses_reads [OF assms(1) s(2) read(1)] list_named_Inr [OF named] s(1)
  have at: "statuses ! ref_Idx ref = status" by auto
  have i: "ref_Idx ref < length statuses" using list_named_Inr [OF named] read(2) by linarith
  have "int (length statuses) \<le> int (maxDecompressedSize * perByte (allocator_bits (w_alloc w)))"
    using accepted_lists [OF assms(4)] list_named_Inr [OF named] unfolding read(2) by blast
  then have "length statuses \<le> maxDecompressedSize * perByte (allocator_bits (w_alloc w))" by linarith
  from New_Status [OF assms(8,7) this i] at show ?thesis by simp
qed

theorem set_status_published_witness:
  "StatusList_Status (\<lambda>raw. Inr (map of_nat raw, False))
     \<lparr> sl_Bits = 1, sl_Lst = EncodeToString [8], sl_AggregationURI = [] \<rparr> 3 = Inr 1"
proof -
  let ?ref = "\<lparr> ref_Idx = 3, ref_URI = ''u'' \<rparr>" and ?w = "small_world []"
  let ?w1 = "?w \<lparr> w_store := [(''u'', [(3, 1)])], w_alloc := snd (check_settings any_https (w_alloc ?w)) \<rparr>"
  have byte: "unat (x :: byte) < 256" for x using unsigned_less [of x] by simp
  have list: "listFor any_https ?ref (w_alloc ?w) =
      (Inr \<lparr> li_URI = ''u'', li_Size = 8 \<rparr>, snd (check_settings any_https (w_alloc ?w)))"
    by (simp add: listFor_def small_world_check Let_def)
  then have "Allocator_SetStatus any_https ?ref 1 ?w = (None, ?w1)"
    by (simp add: Allocator_SetStatus_def small_world_check Let_def)
      (simp add: small_world_def MemoryIndexStore_def mem_SetStatus_def mem_read_def allocator_bits_def bits_mask_def)
  moreover have "Allocator_Statuses any_https ''u'' ?w1 = Inr [0, 0, 0, 1, 0, 0, 0, 0]"
    by (simp add: Allocator_Statuses_def listFor_def small_world_recheck)
      (simp add: small_world_check Let_def, simp add: small_world_def MemoryIndexStore_def mem_Statuses_def mem_read_def numeral_eq_Suc)
  moreover have "Pack 1 [0, 0, 0, 1, 0, 0, 0, 0] = Inr [8]" by code_simp
  then have "StatusList_New (\<lambda>_ b. Some (map unat b)) (allocator_bits (w_alloc ?w)) [0, 0, 0, 1, 0, 0, 0, 0] [] =
      Inr \<lparr> sl_Bits = 1, sl_Lst = EncodeToString [8], sl_AggregationURI = [] \<rparr>"
    by (simp add: StatusList_New_def rbind_def compress_def small_world_def allocator_bits_def)
  moreover have "allocator_validate any_https (w_alloc ?w) = None"
    by (simp add: small_world_def allocator_validate_def validateList_def any_https_def
      allocator_bits_def perByte_def limit_full fill_limit_of_def float_eq_def DefaultFillLimit_def small_limit
      maxListBytes_def maxDecompressedSize_def MaxFillLimit_def Let_def)
  ultimately show ?thesis
    using set_status_published [OF mem.index_store_axioms small_world_ok small_world_store, where ref = ?ref]
    by (fastforce simp: byte comp_def)
qed

end
