(* ===== verification/Call_Budget.thy ===== *)
theory Call_Budget
  imports Go_Prelude
begin

text \<open>
  Sequences of calls on one shared object, each one step under the object's lock: what several
  goroutines or processes do to it is some such sequence. A call's outcome can be a grant (a nonce
  consumed, a code redeemed, an index reserved), and the object's state says how many grants are
  left. The locale \<open>call_budget\<close> is that accounting; its lemma bounds the grants of every sequence, and the
  stores are its interpretations.
\<close>

text \<open>The calls of a sequence with the outcome of each, and the state they leave.\<close>

fun call_trace :: "('c \<Rightarrow> 's \<Rightarrow> 'r \<times> 's) \<Rightarrow> 'c list \<Rightarrow> 's \<Rightarrow> ('c \<times> 'r) list" where
  "call_trace step [] s = []"
| "call_trace step (c # cs) s = (case step c s of (r, s') \<Rightarrow> (c, r) # call_trace step cs s')"

fun calls_state :: "('c \<Rightarrow> 's \<Rightarrow> 'r \<times> 's) \<Rightarrow> 'c list \<Rightarrow> 's \<Rightarrow> 's" where
  "calls_state step [] s = s"
| "calls_state step (c # cs) s = calls_state step cs (snd (step c s))"

definition grant_count :: "('c \<Rightarrow> 'r \<Rightarrow> bool) \<Rightarrow> ('c \<times> 'r) list \<Rightarrow> nat" where
  "grant_count grant tr = length (filter (\<lambda>(c, r). grant c r) tr)"

lemma grant_count_simps [simp]:
  "grant_count grant [] = 0"
  "grant_count grant ((c, r) # tr) = (if grant c r then 1 else 0) + grant_count grant tr"
  by (simp_all add: grant_count_def)

text \<open>\<open>left s\<close> grants remain; a call \<open>c\<close> allows \<open>gain c\<close> more, and a grant uses one up.\<close>

locale call_budget =
  fixes step :: "'c \<Rightarrow> 's \<Rightarrow> 'r \<times> 's" and ok :: "'s \<Rightarrow> bool"
    and grant :: "'c \<Rightarrow> 'r \<Rightarrow> bool" and left :: "'s \<Rightarrow> nat" and gain :: "'c \<Rightarrow> nat"
  assumes step_ok: "ok s \<Longrightarrow> step c s = (r, s') \<Longrightarrow> ok s'"
    and step_budget: "ok s \<Longrightarrow> step c s = (r, s') \<Longrightarrow>
      left s' + (if grant c r then 1 else 0) \<le> left s + gain c"
begin

lemma calls_ok: "ok s \<Longrightarrow> ok (calls_state step cs s)"
proof (induction cs arbitrary: s)
  case (Cons c cs)
  then show ?case by (cases "step c s") (auto dest: step_ok)
qed simp

lemma grants_le:
  "ok s \<Longrightarrow> grant_count grant (call_trace step cs s) + left (calls_state step cs s) \<le>
     left s + sum_list (map gain cs)"
proof (induction cs arbitrary: s)
  case (Cons c cs)
  obtain r s' where step: "step c s = (r, s')" by (cases "step c s")
  from Cons.IH [OF step_ok [OF Cons.prems step]] step_budget [OF Cons.prems step] step
  show ?case by (simp add: algebra_simps)
qed simp

lemma grants_bounded:
  "ok s \<Longrightarrow> grant_count grant (call_trace step cs s) \<le> left s + sum_list (map gain cs)"
  using grants_le [of s cs] by linarith

lemma no_gain_bounded:
  assumes "ok s" and "\<forall>c \<in> set cs. gain c = 0"
  shows "grant_count grant (call_trace step cs s) \<le> left s"
proof -
  have "sum_list (map gain cs) = 0" using assms(2) by (induction cs) auto
  with grants_bounded [OF assms(1), of cs] show ?thesis by simp
qed

end

end
