(* ===== verification/Storage.thy ===== *)
theory Storage
  imports Call_Budget
begin

text \<open>
  The in-memory stores of \<open>src/storage\<close>: nonces, pre-authorized codes, deferred transactions,
  notifications and credential offers, with the pruning they share. Each operation holds its
  store's lock throughout, so it is one function from state to outcome and state. A time is an
  integer, zero the zero \<open>time.Time\<close>; \<open>now\<close> is the clock where an operation may prune. The deep copies
  the stores make of slices have no counterpart: values here share nothing.

  The single-use promises of the interfaces are interpretations of \<open>call_budget\<close>.
\<close>

section \<open>Pruning\<close>

record pruner =
  pr_at :: nat

definition minPruneAt :: nat where "minPruneAt = 1024"

definition pruner_due :: "pruner \<Rightarrow> nat \<Rightarrow> bool" where
  "pruner_due p n = (\<not> n < max (pr_at p) minPruneAt)"

definition pruner_pruned :: "nat \<Rightarrow> pruner \<Rightarrow> pruner" where
  "pruner_pruned n p = p \<lparr> pr_at := 2 * n \<rparr>"

definition expired :: "int \<Rightarrow> int \<Rightarrow> bool" where
  "expired now e = (e \<noteq> 0 \<and> now > e)"

definition pruneMap :: "('k, 'v) gomap \<Rightarrow> int \<Rightarrow> ('v \<Rightarrow> int) \<Rightarrow> ('k, 'v) gomap" where
  "pruneMap m now expiresAt = filter (\<lambda>(k, v). \<not> expired now (expiresAt v)) m"

text \<open>What every store does before it adds an entry.\<close>

definition prune_store ::
  "pruner \<Rightarrow> int \<Rightarrow> ('v \<Rightarrow> int) \<Rightarrow> ('k, 'v) gomap \<Rightarrow> ('k, 'v) gomap \<times> pruner" where
  "prune_store p now expiresAt m =
     (if pruner_due p (length m)
      then (let m' = pruneMap m now expiresAt in (m', pruner_pruned (length m') p))
      else (m, p))"

lemma gm_get_pruneMap:
  "gm_ok m \<Longrightarrow> gm_get (pruneMap m now e) k =
     (case gm_get m k of None \<Rightarrow> None | Some v \<Rightarrow> if expired now (e v) then None else Some v)"
  by (simp add: pruneMap_def gm_get_filter split: option.splits)

lemma gm_ok_prune_store: "gm_ok m \<Longrightarrow> prune_store p now e m = (m', p') \<Longrightarrow> gm_ok m'"
  by (auto simp: prune_store_def pruneMap_def Let_def split: if_splits)

text \<open>Pruning drops only what has expired.\<close>

lemma prune_store_get:
  assumes "gm_ok m" and "prune_store p now e m = (m', p')"
  shows "gm_get m' k = gm_get m k \<or> (\<exists>v. gm_get m k = Some v \<and> expired now (e v) \<and> gm_get m' k = None)"
  using assms by (auto simp: prune_store_def Let_def gm_get_pruneMap split: if_splits option.splits)

lemma prune_store_subset:
  assumes "gm_ok m" and "prune_store p now e m = (m', p')" and "gm_get m' k = Some v"
  shows "gm_get m k = Some v"
  using prune_store_get [OF assms(1,2), of k] assms(3) by auto

section \<open>Nonces\<close>

record nonce_record =
  nr_Owner :: string
  nr_ExpiresAt :: int

record nonce_issuance =
  ni_Nonce :: string
  ni_Owner :: string
  ni_ExpiresAt :: int

record nonce_consumption =
  nc_Nonce :: string
  nc_Owner :: string

record nonce_store =
  ns_issued :: "(string, nonce_record) gomap"
  ns_prune :: pruner

datatype nonce_error = NonceUnknown

definition nonce_record_of :: "nonce_issuance \<Rightarrow> nonce_record" where
  "nonce_record_of issuance = \<lparr> nr_Owner = ni_Owner issuance, nr_ExpiresAt = ni_ExpiresAt issuance \<rparr>"

definition nonce_add :: "int \<Rightarrow> nonce_issuance \<Rightarrow> nonce_store \<Rightarrow> nonce_store" where
  "nonce_add now issuance s =
     (case prune_store (ns_prune s) now nr_ExpiresAt (ns_issued s) of
        (issued, p) \<Rightarrow>
          \<lparr> ns_issued = gm_put (ni_Nonce issuance) (nonce_record_of issuance) issued, ns_prune = p \<rparr>)"

definition NonceStore_Issue :: "int \<Rightarrow> nonce_issuance \<Rightarrow> nonce_store \<Rightarrow> nonce_error option \<times> nonce_store" where
  "NonceStore_Issue now issuance s = (None, nonce_add now issuance s)"

definition NonceStore_Consume ::
  "nonce_consumption \<Rightarrow> nonce_store \<Rightarrow> (nonce_error + nonce_record) \<times> nonce_store" where
  "NonceStore_Consume consumption s =
     (case gm_get (ns_issued s) (nc_Nonce consumption) of
        None \<Rightarrow> (Inl NonceUnknown, s)
      | Some record \<Rightarrow>
          (if nr_Owner record \<noteq> nc_Owner consumption then (Inl NonceUnknown, s)
           else (Inr record, s \<lparr> ns_issued := gm_del (nc_Nonce consumption) (ns_issued s) \<rparr>)))"

definition NonceStore_Spend :: "int \<Rightarrow> nonce_issuance \<Rightarrow> nonce_store \<Rightarrow> nonce_error option \<times> nonce_store" where
  "NonceStore_Spend now issuance s =
     (if gm_get (ns_issued s) (ni_Nonce issuance) \<noteq> None then (Some NonceUnknown, s)
      else (None, nonce_add now issuance s))"

text \<open>A call by some request, with the clock it reads.\<close>

datatype nonce_call =
    CIssue int nonce_issuance
  | CConsume nonce_consumption
  | CSpend int nonce_issuance

datatype nonce_outcome = NDone "nonce_error option" | NRecord "nonce_error + nonce_record"

fun nonce_step :: "nonce_call \<Rightarrow> nonce_store \<Rightarrow> nonce_outcome \<times> nonce_store" where
  "nonce_step (CIssue now i) s = (case NonceStore_Issue now i s of (r, s') \<Rightarrow> (NDone r, s'))"
| "nonce_step (CConsume c) s = (case NonceStore_Consume c s of (r, s') \<Rightarrow> (NRecord r, s'))"
| "nonce_step (CSpend now i) s = (case NonceStore_Spend now i s of (r, s') \<Rightarrow> (NDone r, s'))"

definition nonce_ok :: "nonce_store \<Rightarrow> bool" where
  "nonce_ok s = gm_ok (ns_issued s)"

lemma nonce_add_ok: "nonce_ok s \<Longrightarrow> nonce_ok (nonce_add now i s)"
  by (auto simp: nonce_ok_def nonce_add_def dest: gm_ok_prune_store split: prod.splits)

lemma nonce_step_ok: "nonce_ok s \<Longrightarrow> nonce_step c s = (r, s') \<Longrightarrow> nonce_ok s'"
  by (cases c) (auto simp: NonceStore_Issue_def NonceStore_Consume_def NonceStore_Spend_def nonce_ok_def
    nonce_add_ok [unfolded nonce_ok_def] split: option.splits if_splits)

lemma nonce_add_get:
  assumes "nonce_ok s"
  shows "gm_get (ns_issued (nonce_add now i s)) (ni_Nonce i) = Some (nonce_record_of i)"
    and "n \<noteq> ni_Nonce i \<Longrightarrow> gm_get (ns_issued (nonce_add now i s)) n = gm_get (ns_issued s) n \<or>
      (\<exists>r. gm_get (ns_issued s) n = Some r \<and> expired now (nr_ExpiresAt r) \<and>
        gm_get (ns_issued (nonce_add now i s)) n = None)"
proof -
  obtain m p where prune: "prune_store (ns_prune s) now nr_ExpiresAt (ns_issued s) = (m, p)"
    by (cases "prune_store (ns_prune s) now nr_ExpiresAt (ns_issued s)")
  then have add: "ns_issued (nonce_add now i s) = gm_put (ni_Nonce i) (nonce_record_of i) m"
    by (simp add: nonce_add_def)
  then show "gm_get (ns_issued (nonce_add now i s)) (ni_Nonce i) = Some (nonce_record_of i)" by simp
  assume "n \<noteq> ni_Nonce i"
  with prune_store_get [OF _ prune, of n] assms add
  show "gm_get (ns_issued (nonce_add now i s)) n = gm_get (ns_issued s) n \<or>
      (\<exists>r. gm_get (ns_issued s) n = Some r \<and> expired now (nr_ExpiresAt r) \<and>
        gm_get (ns_issued (nonce_add now i s)) n = None)"
    by (auto simp: nonce_ok_def)
qed

text \<open>Consuming a nonce: one grant for each time it was issued, or recorded as spent.\<close>

definition consumes :: "string \<Rightarrow> nonce_call \<Rightarrow> nonce_outcome \<Rightarrow> bool" where
  "consumes n c r = (\<exists>owner record. c = CConsume \<lparr> nc_Nonce = n, nc_Owner = owner \<rparr> \<and> r = NRecord (Inr record))"

definition nonce_held :: "string \<Rightarrow> nonce_store \<Rightarrow> nat" where
  "nonce_held n s = (if gm_get (ns_issued s) n = None then 0 else 1)"

fun nonce_adds :: "string \<Rightarrow> nonce_call \<Rightarrow> nat" where
  "nonce_adds n (CIssue now i) = (if ni_Nonce i = n then 1 else 0)"
| "nonce_adds n (CSpend now i) = (if ni_Nonce i = n then 1 else 0)"
| "nonce_adds n (CConsume c) = 0"

lemma nonce_held_add:
  assumes "nonce_ok s"
  shows "nonce_held n (nonce_add now i s) \<le> nonce_held n s + (if ni_Nonce i = n then 1 else 0)"
  using nonce_add_get(1) [OF assms, of now i] nonce_add_get(2) [OF assms, of n i now]
  by (cases "ni_Nonce i = n") (auto simp: nonce_held_def)

interpretation consume: call_budget nonce_step nonce_ok "consumes n" "nonce_held n" "nonce_adds n"
proof
  show "nonce_ok s'" if "nonce_ok s" "nonce_step c s = (r, s')" for s s' c r
    using nonce_step_ok that .
  show "nonce_held n s' + (if consumes n c r then 1 else 0) \<le> nonce_held n s + nonce_adds n c"
    if "nonce_ok s" "nonce_step c s = (r, s')" for s s' c r
  proof (cases c)
    case (CIssue now i)
    with that nonce_held_add [OF that(1), of n now i] show ?thesis
      by (auto simp: NonceStore_Issue_def consumes_def)
  next
    case (CConsume k)
    with that show ?thesis
      by (cases k) (auto simp: NonceStore_Consume_def consumes_def nonce_held_def split: option.splits if_splits)
  next
    case (CSpend now i)
    with that nonce_held_add [OF that(1), of n now i] show ?thesis
      by (auto simp: NonceStore_Spend_def consumes_def split: if_splits)
  qed
qed

text \<open>Spending a stateless nonce that is valid until \<open>t\<close>: while no clock has passed \<open>t\<close>, what records it is
  not pruned.\<close>

definition spends :: "string \<Rightarrow> int \<Rightarrow> nonce_call \<Rightarrow> nonce_outcome \<Rightarrow> bool" where
  "spends n t c r = (\<exists>now owner. c = CSpend now \<lparr> ni_Nonce = n, ni_Owner = owner, ni_ExpiresAt = t \<rparr> \<and> r = NDone None)"

definition unspent :: "string \<Rightarrow> int \<Rightarrow> nonce_store \<Rightarrow> nat" where
  "unspent n t s =
     (case gm_get (ns_issued s) n of Some r \<Rightarrow> (if nr_ExpiresAt r = t then 0 else 1) | None \<Rightarrow> 1)"

fun frees_nonce :: "string \<Rightarrow> int \<Rightarrow> nonce_call \<Rightarrow> nat" where
  "frees_nonce n t (CIssue now i) = (if now > t \<or> ni_Nonce i = n then 1 else 0)"
| "frees_nonce n t (CConsume c) = (if nc_Nonce c = n then 1 else 0)"
| "frees_nonce n t (CSpend now i) = (if now > t \<or> ni_Nonce i = n \<and> ni_ExpiresAt i \<noteq> t then 1 else 0)"

lemma unspent_le: "unspent n t s \<le> 1"
  by (simp add: unspent_def split: option.splits)

lemma unspent_add:
  assumes "nonce_ok s" and "now \<le> t" and "ni_Nonce i \<noteq> n"
  shows "unspent n t (nonce_add now i s) \<le> unspent n t s"
  using nonce_add_get(2) [OF assms(1), of n i now] assms(2,3)
  by (auto simp: unspent_def expired_def split: option.splits)

interpretation spend: call_budget nonce_step nonce_ok "spends n t" "unspent n t" "frees_nonce n t"
proof
  show "nonce_ok s'" if "nonce_ok s" "nonce_step c s = (r, s')" for s s' c r
    using nonce_step_ok that .
  show "unspent n t s' + (if spends n t c r then 1 else 0) \<le> unspent n t s + frees_nonce n t c"
    if ok: "nonce_ok s" and step: "nonce_step c s = (r, s')" for s s' c r
  proof (cases c)
    case (CIssue now i)
    with step have "s' = nonce_add now i s" by (simp add: NonceStore_Issue_def)
    with CIssue unspent_le [of n t s'] unspent_add [OF ok, of now t i n] show ?thesis
      by (auto simp: spends_def)
  next
    case (CConsume k)
    with step unspent_le [of n t s'] show ?thesis
      by (auto simp: NonceStore_Consume_def spends_def unspent_def split: option.splits if_splits)
  next
    case (CSpend now i)
    show ?thesis
    proof (cases "gm_get (ns_issued s) (ni_Nonce i) = None")
      case False
      with step CSpend show ?thesis by (auto simp: NonceStore_Spend_def spends_def)
    next
      case True
      with step CSpend have s': "s' = nonce_add now i s" "r = NDone None" by (auto simp: NonceStore_Spend_def)
      show ?thesis
      proof (cases "ni_Nonce i = n")
        case same: True
        have "gm_get (ns_issued s') n = Some (nonce_record_of i)"
          using nonce_add_get(1) [OF ok, of now i] s' same by simp
        with True same CSpend unspent_le [of n t s'] show ?thesis
          by (cases i) (auto simp: unspent_def spends_def nonce_record_of_def)
      next
        case False
        with CSpend s' unspent_le [of n t s'] unspent_add [OF ok, of now t i n] show ?thesis
          by (auto simp: spends_def)
      qed
    qed
  qed
qed

section \<open>Pre-authorized codes\<close>

record pre_authorized_record =
  pa_Owner :: string
  pa_TxCodeHash :: string
  pa_Scopes :: "string list"
  pa_CredentialConfigurationIDs :: "string list"
  pa_ExpiresAt :: int
  pa_Subject :: string

record pre_authorized_store =
  ps_issued :: "(string, pre_authorized_record) gomap"
  ps_attempts :: "(string, int) gomap"
  ps_prune :: pruner

datatype pre_authorized_error =
    PreAuthorizedCodeUnknown
  | TxCodeUnexpected
  | TxCodeRequired
  | TooManyTxCodeAttempts
  | WrongTxCode
  | NotAccepted string

definition code_attempts :: "pre_authorized_store \<Rightarrow> string \<Rightarrow> int" where
  "code_attempts s code = (case gm_get (ps_attempts s) code of None \<Rightarrow> 0 | Some n \<Rightarrow> n)"

definition forget_code :: "string \<Rightarrow> pre_authorized_store \<Rightarrow> pre_authorized_store" where
  "forget_code code s =
     s \<lparr> ps_issued := gm_del code (ps_issued s), ps_attempts := gm_del code (ps_attempts s) \<rparr>"

text \<open>The attempts of codes still issued.\<close>

definition live_attempts :: "(string, pre_authorized_record) gomap \<Rightarrow> (string, int) gomap \<Rightarrow> (string, int) gomap" where
  "live_attempts issued attempts = filter (\<lambda>(c, n). gm_get issued c \<noteq> None) attempts"

definition PreAuthorizedCodeStore_Issue ::
  "int \<Rightarrow> string \<Rightarrow> pre_authorized_record \<Rightarrow> pre_authorized_store \<Rightarrow> pre_authorized_store" where
  "PreAuthorizedCodeStore_Issue now code record s =
     (let s = (if pruner_due (ps_prune s) (length (ps_issued s))
        then (let issued = pruneMap (ps_issued s) now pa_ExpiresAt
              in \<lparr> ps_issued = issued,
                   ps_attempts = live_attempts issued (ps_attempts s),
                   ps_prune = pruner_pruned (length issued) (ps_prune s) \<rparr>)
        else s)
      in s \<lparr> ps_issued := gm_put code record (ps_issued s) \<rparr>)"

text \<open>The record, or the error with the count of wrong attempts.\<close>

definition PreAuthorizedCodeStore_Consume ::
  "string \<Rightarrow> string \<Rightarrow> int \<Rightarrow> (pre_authorized_record \<Rightarrow> string option) \<Rightarrow> pre_authorized_store
     \<Rightarrow> (pre_authorized_error \<times> int + pre_authorized_record) \<times> pre_authorized_store" where
  "PreAuthorizedCodeStore_Consume code wantTxCodeHash maxAttempts accept s =
     (case gm_get (ps_issued s) code of
        None \<Rightarrow> (Inl (PreAuthorizedCodeUnknown, 0), s)
      | Some record \<Rightarrow>
          (let attempts = code_attempts s code in
           if pa_TxCodeHash record = [] \<and> wantTxCodeHash \<noteq> [] then (Inl (TxCodeUnexpected, 0), s)
           else if pa_TxCodeHash record \<noteq> [] \<and> wantTxCodeHash = [] \<and> (maxAttempts \<le> 0 \<or> attempts < maxAttempts)
           then (Inl (TxCodeRequired, 0), s)
           else if pa_TxCodeHash record \<noteq> [] \<and> maxAttempts > 0 \<and> attempts \<ge> maxAttempts
           then (Inl (TooManyTxCodeAttempts, 0), forget_code code s)
           else if pa_TxCodeHash record \<noteq> [] \<and> wantTxCodeHash \<noteq> pa_TxCodeHash record
           then (let s = s \<lparr> ps_attempts := gm_put code (attempts + 1) (ps_attempts s) \<rparr>
                 in (Inl (WrongTxCode, attempts + 1),
                     if maxAttempts > 0 \<and> attempts + 1 \<ge> maxAttempts then forget_code code s else s))
           else (case accept record of
               Some e \<Rightarrow> (Inl (NotAccepted e, 0), s)
             | None \<Rightarrow> (Inr record, forget_code code s))))"

definition PreAuthorizedCodeStore_Invalidate :: "string \<Rightarrow> pre_authorized_store \<Rightarrow> pre_authorized_store" where
  "PreAuthorizedCodeStore_Invalidate code s = forget_code code s"

datatype code_call =
    CodeIssue int string pre_authorized_record
  | CodeConsume string string int "pre_authorized_record \<Rightarrow> string option"
  | CodeInvalidate string

datatype code_outcome = CodeDone | CodeConsumed "pre_authorized_error \<times> int + pre_authorized_record"

fun code_step :: "code_call \<Rightarrow> pre_authorized_store \<Rightarrow> code_outcome \<times> pre_authorized_store" where
  "code_step (CodeIssue now code record) s = (CodeDone, PreAuthorizedCodeStore_Issue now code record s)"
| "code_step (CodeConsume code want m accept) s =
     (case PreAuthorizedCodeStore_Consume code want m accept s of (r, s') \<Rightarrow> (CodeConsumed r, s'))"
| "code_step (CodeInvalidate code) s = (CodeDone, PreAuthorizedCodeStore_Invalidate code s)"

text \<open>Attempts are counted only for codes that are issued.\<close>

definition codes_ok :: "pre_authorized_store \<Rightarrow> bool" where
  "codes_ok s =
     (gm_ok (ps_issued s) \<and> gm_ok (ps_attempts s) \<and>
      (\<forall>c. gm_get (ps_issued s) c = None \<longrightarrow> gm_get (ps_attempts s) c = None) \<and> (\<forall>c. 0 \<le> code_attempts s c))"

lemma forget_code_get [simp]:
  "gm_get (ps_issued (forget_code code s)) = (gm_get (ps_issued s))(code := None)"
  "code_attempts (forget_code code s) c = (if c = code then 0 else code_attempts s c)"
  by (auto simp: forget_code_def code_attempts_def fun_eq_iff)

lemma forget_code_ok: "codes_ok s \<Longrightarrow> codes_ok (forget_code code s)"
  by (simp add: codes_ok_def) (simp add: forget_code_def)

lemma count_attempt_get [simp]:
  "code_attempts (s \<lparr> ps_attempts := gm_put code n (ps_attempts s) \<rparr>) c =
     (if c = code then n else code_attempts s c)"
  by (simp add: code_attempts_def)

lemma count_attempt_ok:
  "codes_ok s \<Longrightarrow> gm_get (ps_issued s) code \<noteq> None \<Longrightarrow> 0 \<le> n \<Longrightarrow>
     codes_ok (s \<lparr> ps_attempts := gm_put code n (ps_attempts s) \<rparr>)"
  by (auto simp: codes_ok_def)

lemma live_attempts_get:
  "gm_ok attempts \<Longrightarrow> gm_get (live_attempts issued attempts) c =
     (if gm_get issued c = None then None else gm_get attempts c)"
  using gm_get_filter [of attempts "\<lambda>c n. gm_get issued c \<noteq> None" c]
  by (auto simp: live_attempts_def split: option.splits)

lemma live_attempts_ok: "gm_ok attempts \<Longrightarrow> gm_ok (live_attempts issued attempts)"
  by (simp add: live_attempts_def)

lemma Issue_get:
  assumes "codes_ok s"
  shows "codes_ok (PreAuthorizedCodeStore_Issue now code record s)"
    and "gm_get (ps_issued (PreAuthorizedCodeStore_Issue now code record s)) code = Some record"
    and "c \<noteq> code \<Longrightarrow> gm_get (ps_issued (PreAuthorizedCodeStore_Issue now code record s)) c =
        gm_get (ps_issued s) c \<and>
        code_attempts (PreAuthorizedCodeStore_Issue now code record s) c = code_attempts s c \<or>
      gm_get (ps_issued (PreAuthorizedCodeStore_Issue now code record s)) c = None"
proof -
  have pm: "gm_get (pruneMap (ps_issued s) now pa_ExpiresAt) c =
      (case gm_get (ps_issued s) c of None \<Rightarrow> None | Some v \<Rightarrow> if expired now (pa_ExpiresAt v) then None else Some v)"
    for c
    using assms by (simp add: codes_ok_def gm_get_pruneMap)
  have ok: "gm_ok (pruneMap (ps_issued s) now pa_ExpiresAt)" "gm_ok (ps_attempts s)" "gm_ok (ps_issued s)"
    "\<forall>c. gm_get (ps_issued s) c = None \<longrightarrow> gm_get (ps_attempts s) c = None" "\<forall>c. 0 \<le> code_attempts s c"
    using assms by (auto simp: codes_ok_def pruneMap_def)
  show "codes_ok (PreAuthorizedCodeStore_Issue now code record s)"
    using ok by (auto simp: PreAuthorizedCodeStore_Issue_def codes_ok_def Let_def live_attempts_get live_attempts_ok
      code_attempts_def split: option.splits)
  show "gm_get (ps_issued (PreAuthorizedCodeStore_Issue now code record s)) code = Some record"
    by (simp add: PreAuthorizedCodeStore_Issue_def Let_def)
  assume "c \<noteq> code"
  then show "gm_get (ps_issued (PreAuthorizedCodeStore_Issue now code record s)) c =
        gm_get (ps_issued s) c \<and>
        code_attempts (PreAuthorizedCodeStore_Issue now code record s) c = code_attempts s c \<or>
      gm_get (ps_issued (PreAuthorizedCodeStore_Issue now code record s)) c = None"
    using ok(2,4) by (auto simp: PreAuthorizedCodeStore_Issue_def Let_def live_attempts_get pm
      code_attempts_def split: option.splits)
qed

text \<open>Everything \<open>Consume\<close> can do, by the record.\<close>

lemma Consume_cases:
  assumes "PreAuthorizedCodeStore_Consume code want m accept s = (r, s')"
  obtains (unchanged) e where "r = Inl (e, 0)" "s' = s" "e \<noteq> WrongTxCode"
  | (too_many) rec where "r = Inl (TooManyTxCodeAttempts, 0)" "s' = forget_code code s"
      "gm_get (ps_issued s) code = Some rec" "0 < m" "m \<le> code_attempts s code"
  | (wrong) rec where "r = Inl (WrongTxCode, code_attempts s code + 1)"
      "gm_get (ps_issued s) code = Some rec" "pa_TxCodeHash rec \<noteq> []" "want \<noteq> pa_TxCodeHash rec"
      "m \<le> 0 \<or> code_attempts s code < m"
      "s' = (let s1 = s \<lparr> ps_attempts := gm_put code (code_attempts s code + 1) (ps_attempts s) \<rparr> in
         if m > 0 \<and> code_attempts s code + 1 \<ge> m then forget_code code s1 else s1)"
  | (redeemed) rec where "r = Inr rec" "s' = forget_code code s" "gm_get (ps_issued s) code = Some rec"
      "want = pa_TxCodeHash rec" "accept rec = None"
      "pa_TxCodeHash rec = [] \<or> m \<le> 0 \<or> code_attempts s code < m"
proof (cases "gm_get (ps_issued s) code")
  case None
  with assms show ?thesis using unchanged by (auto simp: PreAuthorizedCodeStore_Consume_def)
next
  case (Some rec)
  consider "pa_TxCodeHash rec = []" "want \<noteq> []"
    | "pa_TxCodeHash rec \<noteq> []" "want = []" "m \<le> 0 \<or> code_attempts s code < m"
    | "pa_TxCodeHash rec \<noteq> []" "0 < m" "m \<le> code_attempts s code"
    | "pa_TxCodeHash rec \<noteq> []" "want \<noteq> []" "want \<noteq> pa_TxCodeHash rec" "m \<le> 0 \<or> code_attempts s code < m"
    | "want = pa_TxCodeHash rec" "pa_TxCodeHash rec = [] \<or> m \<le> 0 \<or> code_attempts s code < m"
    by (cases "pa_TxCodeHash rec = []"; cases "want = []"; cases "want = pa_TxCodeHash rec") force+
  then show ?thesis
  proof cases
    case 1
    with Some assms show ?thesis using unchanged by (auto simp: PreAuthorizedCodeStore_Consume_def Let_def)
  next
    case 2
    with Some assms show ?thesis using unchanged by (auto simp: PreAuthorizedCodeStore_Consume_def Let_def)
  next
    case 3
    with Some assms have "r = Inl (TooManyTxCodeAttempts, 0)" "s' = forget_code code s"
      by (auto simp: PreAuthorizedCodeStore_Consume_def Let_def)
    with 3 Some too_many show ?thesis by blast
  next
    case 4
    with Some assms have "r = Inl (WrongTxCode, code_attempts s code + 1)"
      "s' = (let s1 = s \<lparr> ps_attempts := gm_put code (code_attempts s code + 1) (ps_attempts s) \<rparr> in
         if m > 0 \<and> code_attempts s code + 1 \<ge> m then forget_code code s1 else s1)"
      by (auto simp: PreAuthorizedCodeStore_Consume_def Let_def)
    with 4 Some wrong show ?thesis by blast
  next
    case 5
    then have "\<not> (pa_TxCodeHash rec \<noteq> [] \<and> 0 < m \<and> m \<le> code_attempts s code)" by auto
    with 5 Some assms have "(case accept rec of Some e \<Rightarrow> (Inl (NotAccepted e, 0), s) | None \<Rightarrow> (Inr rec, forget_code code s)) = (r, s')"
      by (auto simp: PreAuthorizedCodeStore_Consume_def Let_def)
    then show ?thesis
      using 5 Some unchanged redeemed by (cases "accept rec") auto
  qed
qed

lemma code_step_ok:
  assumes "codes_ok s" and "code_step c s = (r, s')"
  shows "codes_ok s'"
proof (cases c)
  case (CodeIssue now code rec)
  with assms Issue_get(1) show ?thesis by auto
next
  case (CodeConsume code want m accept)
  with assms(2) obtain q where run: "PreAuthorizedCodeStore_Consume code want m accept s = (q, s')"
    by (auto split: prod.splits)
  have att: "0 \<le> code_attempts s code" using assms(1) by (simp add: codes_ok_def)
  from run show ?thesis
  proof (cases rule: Consume_cases)
    case (wrong rec)
    have "codes_ok (s \<lparr> ps_attempts := gm_put code (code_attempts s code + 1) (ps_attempts s) \<rparr>)"
      using count_attempt_ok [OF assms(1)] wrong(2) att by simp
    with wrong(6) forget_code_ok show ?thesis by (simp add: Let_def)
  qed (use assms(1) forget_code_ok in auto)
next
  case (CodeInvalidate code)
  with assms forget_code_ok show ?thesis by (auto simp: PreAuthorizedCodeStore_Invalidate_def)
qed

definition redeems :: "string \<Rightarrow> code_call \<Rightarrow> code_outcome \<Rightarrow> bool" where
  "redeems code c r =
     ((case c of CodeConsume code' want m accept \<Rightarrow> code' = code | _ \<Rightarrow> False) \<and>
      (case r of CodeConsumed (Inr rec) \<Rightarrow> True | _ \<Rightarrow> False))"

definition code_held :: "string \<Rightarrow> pre_authorized_store \<Rightarrow> nat" where
  "code_held code s = (if gm_get (ps_issued s) code = None then 0 else 1)"

fun code_issues :: "string \<Rightarrow> code_call \<Rightarrow> nat" where
  "code_issues code (CodeIssue now code' rec) = (if code' = code then 1 else 0)"
| "code_issues code _ = 0"

interpretation redeem: call_budget code_step codes_ok "redeems code" "code_held code" "code_issues code"
proof
  show "codes_ok s'" if "codes_ok s" "code_step c s = (r, s')" for s s' c r
    using code_step_ok that .
  show "code_held code s' + (if redeems code c r then 1 else 0) \<le> code_held code s + code_issues code c"
    if ok: "codes_ok s" and step: "code_step c s = (r, s')" for s s' c r
  proof (cases c)
    case (CodeIssue now code' rec)
    with step Issue_get(3) [OF ok, of code code' now rec] show ?thesis
      by (auto simp: code_held_def redeems_def)
  next
    case (CodeConsume code' want m accept)
    with step obtain q where q: "PreAuthorizedCodeStore_Consume code' want m accept s = (q, s')" "r = CodeConsumed q"
      by (auto split: prod.splits)
    from q(1) show ?thesis
      by (cases rule: Consume_cases)
        (use CodeConsume q(2) in \<open>auto simp: code_held_def redeems_def Let_def split: if_splits\<close>)
  next
    case (CodeInvalidate code')
    with step show ?thesis
      by (auto simp: PreAuthorizedCodeStore_Invalidate_def code_held_def redeems_def split: if_splits)
  qed
qed

text \<open>Guessing: each call that allows \<open>m\<close> attempts and compares a wrong Transaction Code.\<close>

definition guesses :: "string \<Rightarrow> int \<Rightarrow> code_call \<Rightarrow> code_outcome \<Rightarrow> bool" where
  "guesses code m c r =
     ((case c of CodeConsume code' want m' accept \<Rightarrow> code' = code \<and> m' = m | _ \<Rightarrow> False) \<and>
      (case r of CodeConsumed (Inl (e, n)) \<Rightarrow> e = WrongTxCode | _ \<Rightarrow> False))"

definition guesses_left :: "string \<Rightarrow> int \<Rightarrow> pre_authorized_store \<Rightarrow> nat" where
  "guesses_left code m s = (if gm_get (ps_issued s) code = None then 0 else nat (m - code_attempts s code))"

definition guess_gain :: "string \<Rightarrow> int \<Rightarrow> code_call \<Rightarrow> nat" where
  "guess_gain code m c = nat m * code_issues code c"

lemma guess_budget:
  assumes "0 < m" and ok: "codes_ok s" and step: "code_step c s = (r, s')"
  shows "guesses_left code m s' + (if guesses code m c r then 1 else 0) \<le> guesses_left code m s + guess_gain code m c"
proof (cases c)
  case (CodeIssue now code' rec)
  then have s': "s' = PreAuthorizedCodeStore_Issue now code' rec s" and r: "r = CodeDone" using step by auto
  show ?thesis
  proof (cases "code' = code")
    case True
    have "codes_ok s'" using code_step_ok [OF ok step] .
    then have "0 \<le> code_attempts s' code" by (simp add: codes_ok_def)
    then have "guesses_left code m s' \<le> nat m" by (auto simp: guesses_left_def)
    with True CodeIssue r show ?thesis by (simp add: guesses_def guess_gain_def)
  next
    case False
    with CodeIssue r s' Issue_get(3) [OF ok, of code code' now rec] show ?thesis
      by (auto simp: guesses_def guess_gain_def guesses_left_def)
  qed
next
  case (CodeConsume code' want m' accept)
  with step obtain q where q: "PreAuthorizedCodeStore_Consume code' want m' accept s = (q, s')" "r = CodeConsumed q"
    by (auto split: prod.splits)
  from q(1) show ?thesis
    by (cases rule: Consume_cases)
      (use CodeConsume q(2) assms(1) in \<open>auto simp: guesses_left_def guesses_def guess_gain_def Let_def split: if_splits\<close>)
next
  case (CodeInvalidate code')
  with step show ?thesis
    by (auto simp: PreAuthorizedCodeStore_Invalidate_def guesses_left_def guesses_def split: if_splits)
qed

section \<open>Deferred transactions\<close>

datatype deferred_status = DeferredPending | DeferredIssued | DeferredDenied

record deferred_record =
  dr_Owner :: string
  dr_ClientID :: string
  dr_Subject :: string
  dr_Status :: deferred_status
  dr_Credentials :: "goval list"
  dr_NotificationID :: string
  dr_CredentialConfigurationID :: string
  dr_BindingKeys :: "string list"
  dr_ExpiresAt :: int
  dr_KeyAttestations :: "string list"
  dr_ProofKeyHeaders :: "string list"
  dr_Reference :: string

record deferred_store =
  ds_records :: "(string, deferred_record) gomap"
  ds_invalidated :: "(string, bool) gomap"
  ds_prune :: pruner

datatype deferred_error = DeferredTransactionUnknown | TransactionIDRequired | TransactionIDInUse | UpdateFn string

definition is_invalidated :: "deferred_store \<Rightarrow> string \<Rightarrow> bool" where
  "is_invalidated s i = (gm_get (ds_invalidated s) i = Some True)"

definition pruneExpired :: "int \<Rightarrow> deferred_store \<Rightarrow> deferred_store" where
  "pruneExpired now s =
     (if \<not> pruner_due (ds_prune s) (length (ds_records s)) then s
      else
        (let records = pruneMap (ds_records s) now dr_ExpiresAt
         in \<lparr> ds_records = records,
              ds_invalidated = filter (\<lambda>(i, b). i \<in> fst ` set records) (ds_invalidated s),
              ds_prune = pruner_pruned (length records) (ds_prune s) \<rparr>))"

definition DeferredStore_Put :: "int \<Rightarrow> string \<Rightarrow> deferred_record \<Rightarrow> deferred_store \<Rightarrow> deferred_store" where
  "DeferredStore_Put now i record s =
     (let s = pruneExpired now s
      in s \<lparr> ds_records := gm_put i record (ds_records s), ds_invalidated := gm_del i (ds_invalidated s) \<rparr>)"

definition DeferredStore_Get :: "string \<Rightarrow> deferred_store \<Rightarrow> deferred_error + deferred_record" where
  "DeferredStore_Get i s =
     (if is_invalidated s i then Inl DeferredTransactionUnknown
      else (case gm_get (ds_records s) i of
          None \<Rightarrow> Inl DeferredTransactionUnknown
        | Some record \<Rightarrow> Inr record))"

definition DeferredStore_Create ::
  "int \<Rightarrow> string \<Rightarrow> deferred_record \<Rightarrow> deferred_store \<Rightarrow> deferred_error option \<times> deferred_store" where
  "DeferredStore_Create now i record s =
     (if i = [] then (Some TransactionIDRequired, s)
      else
        (let s = pruneExpired now s
         in if gm_get (ds_records s) i \<noteq> None \<or> is_invalidated s i then (Some TransactionIDInUse, s)
            else (None, s \<lparr> ds_records := gm_put i record (ds_records s) \<rparr>)))"

definition DeferredStore_Update ::
  "string \<Rightarrow> (deferred_record \<Rightarrow> string + deferred_record) \<Rightarrow> deferred_store \<Rightarrow> deferred_error option \<times> deferred_store"
where
  "DeferredStore_Update i fn s =
     (case gm_get (ds_records s) i of
        None \<Rightarrow> (Some DeferredTransactionUnknown, s)
      | Some stored \<Rightarrow>
          (if is_invalidated s i then (Some DeferredTransactionUnknown, s)
           else (case fn stored of
               Inl e \<Rightarrow> (Some (UpdateFn e), s)
             | Inr record \<Rightarrow> (None, s \<lparr> ds_records := gm_put i record (ds_records s) \<rparr>))))"

definition DeferredStore_Invalidate :: "string \<Rightarrow> deferred_store \<Rightarrow> deferred_error option \<times> deferred_store" where
  "DeferredStore_Invalidate i s =
     (case gm_get (ds_records s) i of
        None \<Rightarrow> (Some DeferredTransactionUnknown, s)
      | Some record \<Rightarrow>
          (if is_invalidated s i then (Some DeferredTransactionUnknown, s)
           else (None,
             s \<lparr> ds_records := gm_put i (record \<lparr> dr_Credentials := [] \<rparr>) (ds_records s),
                 ds_invalidated := gm_put i True (ds_invalidated s) \<rparr>)))"

datatype deferred_call =
    DPut int string deferred_record
  | DCreate int string deferred_record
  | DUpdate string "deferred_record \<Rightarrow> string + deferred_record"
  | DInvalidate string

fun deferred_step :: "deferred_call \<Rightarrow> deferred_store \<Rightarrow> deferred_error option \<times> deferred_store" where
  "deferred_step (DPut now i record) s = (None, DeferredStore_Put now i record s)"
| "deferred_step (DCreate now i record) s = DeferredStore_Create now i record s"
| "deferred_step (DUpdate i fn) s = DeferredStore_Update i fn s"
| "deferred_step (DInvalidate i) s = DeferredStore_Invalidate i s"

text \<open>A transaction is only invalidated while its record is kept, without credentials.\<close>

definition deferred_ok :: "deferred_store \<Rightarrow> bool" where
  "deferred_ok s =
     (gm_ok (ds_records s) \<and> gm_ok (ds_invalidated s) \<and>
      (\<forall>i. is_invalidated s i \<longrightarrow> (\<exists>r. gm_get (ds_records s) i = Some r \<and> dr_Credentials r = [])))"

lemma pruneExpired_get:
  assumes "deferred_ok s"
  shows "deferred_ok (pruneExpired now s)"
    and "gm_get (ds_records (pruneExpired now s)) i = gm_get (ds_records s) i \<and>
        is_invalidated (pruneExpired now s) i = is_invalidated s i \<or>
      (\<exists>r. gm_get (ds_records s) i = Some r \<and> expired now (dr_ExpiresAt r)) \<and>
        gm_get (ds_records (pruneExpired now s)) i = None \<and> \<not> is_invalidated (pruneExpired now s) i"
proof -
  let ?m = "pruneMap (ds_records s) now dr_ExpiresAt"
  have ok: "gm_ok (ds_records s)" "gm_ok (ds_invalidated s)" "gm_ok ?m"
    "\<forall>i. is_invalidated s i \<longrightarrow> (\<exists>r. gm_get (ds_records s) i = Some r \<and> dr_Credentials r = [])"
    using assms by (auto simp: deferred_ok_def pruneMap_def)
  have get: "gm_get ?m i = (case gm_get (ds_records s) i of None \<Rightarrow> None
      | Some v \<Rightarrow> if expired now (dr_ExpiresAt v) then None else Some v)" for i
    using ok(1) by (simp add: gm_get_pruneMap)
  have mem: "i \<in> fst ` set ?m \<longleftrightarrow> gm_get ?m i \<noteq> None" for i
    by (simp add: map_of_eq_None_iff)
  have inv: "gm_get (filter (\<lambda>(i, b). i \<in> fst ` set ?m) (ds_invalidated s)) i =
      (if gm_get ?m i = None then None else gm_get (ds_invalidated s) i)" for i
    using ok(2) gm_get_filter [of "ds_invalidated s" "\<lambda>i b. i \<in> fst ` set ?m" i] mem [of i]
    by (auto split: option.splits)
  have pruned: "is_invalidated (pruneExpired now s) i = (is_invalidated s i \<and> gm_get ?m i \<noteq> None)"
    "ds_records (pruneExpired now s) = ?m" if "pruner_due (ds_prune s) (length (ds_records s))" for i
    using that inv [of i] by (auto simp: pruneExpired_def is_invalidated_def Let_def)
  have same: "pruneExpired now s = s" if "\<not> pruner_due (ds_prune s) (length (ds_records s))"
    using that by (simp add: pruneExpired_def)
  show "deferred_ok (pruneExpired now s)"
  proof (cases "pruner_due (ds_prune s) (length (ds_records s))")
    case True
    have "gm_ok (ds_invalidated (pruneExpired now s))"
      using ok(2) True by (simp add: pruneExpired_def Let_def)
    with True ok pruned show ?thesis by (fastforce simp: deferred_ok_def get split: option.splits if_splits)
  qed (simp add: same assms)
  show "gm_get (ds_records (pruneExpired now s)) i = gm_get (ds_records s) i \<and>
        is_invalidated (pruneExpired now s) i = is_invalidated s i \<or>
      (\<exists>r. gm_get (ds_records s) i = Some r \<and> expired now (dr_ExpiresAt r)) \<and>
        gm_get (ds_records (pruneExpired now s)) i = None \<and> \<not> is_invalidated (pruneExpired now s) i"
  proof (cases "pruner_due (ds_prune s) (length (ds_records s))")
    case True
    with ok(4) pruned show ?thesis by (fastforce simp: get split: option.splits if_splits)
  qed (simp add: same)
qed

definition collects :: "string \<Rightarrow> deferred_call \<Rightarrow> deferred_error option \<Rightarrow> bool" where
  "collects i c r = (c = DInvalidate i \<and> r = None)"

definition collectable :: "string \<Rightarrow> deferred_store \<Rightarrow> nat" where
  "collectable i s = (if gm_get (ds_records s) i = None \<or> is_invalidated s i then 0 else 1)"

fun deferred_new :: "string \<Rightarrow> deferred_call \<Rightarrow> nat" where
  "deferred_new i (DPut now j record) = (if j = i then 1 else 0)"
| "deferred_new i (DCreate now j record) = (if j = i then 1 else 0)"
| "deferred_new i _ = 0"

lemma collectable_le: "collectable i s \<le> 1"
  by (simp add: collectable_def)

lemma collectable_pruned: "deferred_ok s \<Longrightarrow> collectable i (pruneExpired now s) \<le> collectable i s"
  using pruneExpired_get(2) [of s now i] by (auto simp: collectable_def)

lemma is_invalidated_simps [simp]:
  "is_invalidated (s \<lparr> ds_records := m \<rparr>) i = is_invalidated s i"
  "is_invalidated (s \<lparr> ds_records := m, ds_invalidated := gm_put j True (ds_invalidated s) \<rparr>) i =
     (i = j \<or> is_invalidated s i)"
  "is_invalidated (s \<lparr> ds_records := m, ds_invalidated := gm_del j (ds_invalidated s) \<rparr>) i =
     (i \<noteq> j \<and> is_invalidated s i)"
  by (auto simp: is_invalidated_def)

lemma deferred_step_ok:
  assumes "deferred_ok s" and "deferred_step c s = (r, s')"
  shows "deferred_ok s'"
proof (cases c)
  case (DPut now i rec)
  with assms pruneExpired_get(1) [OF assms(1), of now] show ?thesis
    by (auto simp: DeferredStore_Put_def deferred_ok_def Let_def)
next
  case (DCreate now i rec)
  with assms pruneExpired_get(1) [OF assms(1), of now] show ?thesis
    by (auto simp: DeferredStore_Create_def deferred_ok_def Let_def split: if_splits)
next
  case (DUpdate i fn)
  with assms show ?thesis
    by (auto simp: DeferredStore_Update_def deferred_ok_def split: option.splits if_splits sum.splits)
next
  case (DInvalidate i)
  with assms show ?thesis
    by (auto simp: DeferredStore_Invalidate_def deferred_ok_def split: option.splits if_splits)
qed

interpretation collect: call_budget deferred_step deferred_ok "collects i" "collectable i" "deferred_new i"
proof
  show "deferred_ok s'" if "deferred_ok s" "deferred_step c s = (r, s')" for s s' c r
    using deferred_step_ok that .
  show "collectable i s' + (if collects i c r then 1 else 0) \<le> collectable i s + deferred_new i c"
    if ok: "deferred_ok s" and step: "deferred_step c s = (r, s')" for s s' c r
  proof (cases c)
    case (DPut now j rec)
    with step have s': "s' = DeferredStore_Put now j rec s" by simp
    show ?thesis
    proof (cases "j = i")
      case False
      then have "collectable i s' = collectable i (pruneExpired now s)"
        by (simp add: s' DeferredStore_Put_def collectable_def Let_def)
      with collectable_pruned [OF ok, of i now] DPut False show ?thesis by (simp add: collects_def)
    qed (use DPut collectable_le [of i s'] in \<open>simp add: collects_def\<close>)
  next
    case (DCreate now j rec)
    show ?thesis
    proof (cases "j = i")
      case False
      with step DCreate have "collectable i s' \<le> max (collectable i s) (collectable i (pruneExpired now s))"
        by (auto simp: DeferredStore_Create_def collectable_def Let_def split: if_splits)
      with collectable_pruned [OF ok, of i now] DCreate show ?thesis by (simp add: collects_def)
    qed (use DCreate collectable_le [of i s'] in \<open>simp add: collects_def\<close>)
  next
    case (DUpdate j fn)
    with step show ?thesis
      by (auto simp: DeferredStore_Update_def collects_def collectable_def split: option.splits if_splits sum.splits)
  next
    case (DInvalidate j)
    with step show ?thesis
      by (auto simp: DeferredStore_Invalidate_def collects_def collectable_def split: option.splits if_splits)
  qed
qed

section \<open>Notifications and credential offers\<close>

text \<open>Both stores keep a record under a key until it expires and the store prunes.\<close>

record notification_record =
  no_Owner :: string
  no_ClientID :: string
  no_Subject :: string
  no_ExpiresAt :: int

record notification_store =
  nt_records :: "(string, notification_record) gomap"
  nt_prune :: pruner

definition NotificationStore_Issue ::
  "int \<Rightarrow> string \<Rightarrow> notification_record \<Rightarrow> notification_store \<Rightarrow> notification_store" where
  "NotificationStore_Issue now i record s =
     (case prune_store (nt_prune s) now no_ExpiresAt (nt_records s) of
        (m, p) \<Rightarrow> \<lparr> nt_records = gm_put i record m, nt_prune = p \<rparr>)"

definition NotificationStore_Get :: "string \<Rightarrow> notification_store \<Rightarrow> notification_record option" where
  "NotificationStore_Get i s = gm_get (nt_records s) i"

record 'o offer_record =
  co_Reference :: string
  co_Offer :: 'o
  co_ExpiresAt :: int

record 'o offer_store =
  of_records :: "(string, 'o offer_record) gomap"
  of_prune :: pruner

definition OfferStore_Store :: "int \<Rightarrow> 'o offer_record \<Rightarrow> 'o offer_store \<Rightarrow> 'o offer_store" where
  "OfferStore_Store now record s =
     (case prune_store (of_prune s) now co_ExpiresAt (of_records s) of
        (m, p) \<Rightarrow> \<lparr> of_records = gm_put (co_Reference record) record m, of_prune = p \<rparr>)"

definition OfferStore_Get :: "string \<Rightarrow> 'o offer_store \<Rightarrow> 'o offer_record option" where
  "OfferStore_Get reference s = gm_get (of_records s) reference"

section \<open>How large a store grows\<close>

text \<open>A store prunes before it would pass both \<open>minPruneAt\<close> and twice what the last pruning left.\<close>

definition store_bounded :: "('k, 'v) gomap \<Rightarrow> pruner \<Rightarrow> bool" where
  "store_bounded m p = (length m \<le> max (pr_at p) minPruneAt)"

lemma prune_store_bounded:
  assumes "gm_ok m" and "store_bounded m p" and "prune_store p now e m = (m', p')"
  shows "store_bounded (gm_put k v m') p'"
proof -
  have "length m' < max (pr_at p') minPruneAt"
    using assms(2,3) by (auto simp: prune_store_def store_bounded_def pruner_due_def pruner_pruned_def
      minPruneAt_def Let_def max_def split: if_splits)
  moreover have "length (gm_put k v m') \<le> Suc (length m')"
    using gm_len_put [OF gm_ok_prune_store [OF assms(1,3)], of k v] by (simp split: if_splits)
  ultimately show ?thesis by (simp add: store_bounded_def)
qed

section \<open>Properties\<close>

text \<open>A nonce is consumed at most as often as it was issued: whatever calls other requests make in
  between, at any time, each issued nonce proves at most one request fresh.\<close>

theorem nonce_consumed_once:
  assumes "nonce_ok s" and "gm_get (ns_issued s) n = None"
  shows "grant_count (consumes n) (call_trace nonce_step cs s) \<le> sum_list (map (nonce_adds n) cs)"
  using consume.grants_bounded [OF assms(1), of n cs] assms(2) by (simp add: nonce_held_def)

theorem nonce_consumed_once_witness:
  "grant_count (consumes ''n'') (call_trace nonce_step
      [CIssue 5 \<lparr> ni_Nonce = ''n'', ni_Owner = ''i'', ni_ExpiresAt = 9 \<rparr>,
       CConsume \<lparr> nc_Nonce = ''n'', nc_Owner = ''x'' \<rparr>,
       CConsume \<lparr> nc_Nonce = ''n'', nc_Owner = ''i'' \<rparr>, CConsume \<lparr> nc_Nonce = ''n'', nc_Owner = ''i'' \<rparr>]
      \<lparr> ns_issued = [], ns_prune = \<lparr> pr_at = 0 \<rparr> \<rparr>) \<le> 1"
  using nonce_consumed_once [of "\<lparr> ns_issued = [], ns_prune = \<lparr> pr_at = 0 \<rparr> \<rparr>" "''n''"
      "[CIssue 5 \<lparr> ni_Nonce = ''n'', ni_Owner = ''i'', ni_ExpiresAt = 9 \<rparr>,
       CConsume \<lparr> nc_Nonce = ''n'', nc_Owner = ''x'' \<rparr>,
       CConsume \<lparr> nc_Nonce = ''n'', nc_Owner = ''i'' \<rparr>, CConsume \<lparr> nc_Nonce = ''n'', nc_Owner = ''i'' \<rparr>]"]
  by (simp add: nonce_ok_def)

text \<open>A stateless nonce is spent at most once while it is valid: until a clock passes its expiry, no
  pruning lets a second \<open>Spend\<close> of it succeed.\<close>

theorem nonce_spent_once:
  assumes "nonce_ok s" and "\<forall>c \<in> set cs. frees_nonce n t c = 0"
  shows "grant_count (spends n t) (call_trace nonce_step cs s) \<le> 1"
  using spend.no_gain_bounded [OF assms] unspent_le order_trans by blast

theorem nonce_spent_once_witness:
  "grant_count (spends ''n'' 9) (call_trace nonce_step
      [CSpend 5 \<lparr> ni_Nonce = ''n'', ni_Owner = ''i'', ni_ExpiresAt = 9 \<rparr>,
       CIssue 7 \<lparr> ni_Nonce = ''m'', ni_Owner = ''i'', ni_ExpiresAt = 8 \<rparr>,
       CSpend 9 \<lparr> ni_Nonce = ''n'', ni_Owner = ''i'', ni_ExpiresAt = 9 \<rparr>]
      \<lparr> ns_issued = [], ns_prune = \<lparr> pr_at = 0 \<rparr> \<rparr>) \<le> 1"
  by (rule nonce_spent_once) (simp_all add: nonce_ok_def)

text \<open>A pre-authorized code is redeemed at most as often as it was issued, whatever
  calls other requests make in between.\<close>

theorem code_redeemed_once:
  assumes "codes_ok s" and "gm_get (ps_issued s) code = None"
  shows "grant_count (redeems code) (call_trace code_step cs s) \<le> sum_list (map (code_issues code) cs)"
  using redeem.grants_bounded [OF assms(1), of code cs] assms(2) by (simp add: code_held_def)

definition some_code :: pre_authorized_record where
  "some_code = \<lparr> pa_Owner = ''i'', pa_TxCodeHash = ''h'', pa_Scopes = [], pa_CredentialConfigurationIDs = [],
     pa_ExpiresAt = 9, pa_Subject = ''u'' \<rparr>"

definition no_codes :: pre_authorized_store where
  "no_codes = \<lparr> ps_issued = [], ps_attempts = [], ps_prune = \<lparr> pr_at = 0 \<rparr> \<rparr>"

lemma no_codes_ok: "codes_ok no_codes"
  by (simp add: no_codes_def codes_ok_def code_attempts_def)

theorem code_redeemed_once_witness:
  "grant_count (redeems ''c'') (call_trace code_step
      [CodeIssue 1 ''c'' some_code, CodeConsume ''c'' ''h'' 3 (\<lambda>_. None), CodeConsume ''c'' ''h'' 3 (\<lambda>_. None)] no_codes)
    \<le> 1"
  using code_redeemed_once [OF no_codes_ok, of "''c''"
      "[CodeIssue 1 ''c'' some_code, CodeConsume ''c'' ''h'' 3 (\<lambda>_. None), CodeConsume ''c'' ''h'' 3 (\<lambda>_. None)]"]
  by (simp add: no_codes_def)

text \<open>Redeeming a code returns its record only to the Transaction Code it was issued with, before too
  many wrong ones, and when the caller accepts the record; the code is gone in the same step.\<close>

theorem consume_result:
  assumes "PreAuthorizedCodeStore_Consume code want m accept s = (Inr record, s')"
  shows "gm_get (ps_issued s) code = Some record \<and> want = pa_TxCodeHash record \<and> accept record = None \<and>
    (pa_TxCodeHash record = [] \<or> m \<le> 0 \<or> code_attempts s code < m) \<and> s' = forget_code code s"
  using assms by (cases rule: Consume_cases) auto

theorem consume_result_witness:
  "pa_TxCodeHash some_code = ''h''"
  using consume_result [of "''c''" "''h''" 3 "\<lambda>_. None" "no_codes \<lparr> ps_issued := [(''c'', some_code)] \<rparr>" some_code]
  by (simp add: PreAuthorizedCodeStore_Consume_def some_code_def no_codes_def code_attempts_def Let_def)

text \<open>C28: At most \<open>m\<close> guesses of the Transaction Code of one issuance are compared, of any number made
  concurrently by any number of requests: the count and the comparison are one step.\<close>

theorem wrong_guesses_bounded:
  assumes "0 < m" and "codes_ok s" and "gm_get (ps_issued s) code = None"
  shows "grant_count (guesses code m) (call_trace code_step cs s) \<le>
    nat m * sum_list (map (code_issues code) cs)"
proof -
  have budget: "call_budget code_step codes_ok (guesses code m) (guesses_left code m) (guess_gain code m)"
    using code_step_ok guess_budget [OF assms(1)] by unfold_locales
  have "sum_list (map (guess_gain code m) cs) = nat m * sum_list (map (code_issues code) cs)"
    by (induction cs) (simp_all add: guess_gain_def algebra_simps)
  with call_budget.grants_bounded [OF budget assms(2), of cs] assms(3) show ?thesis
    by (simp add: guesses_left_def)
qed

theorem wrong_guesses_bounded_witness:
  "grant_count (guesses ''c'' 2) (call_trace code_step
      [CodeIssue 1 ''c'' some_code, CodeConsume ''c'' ''x'' 2 (\<lambda>_. None), CodeConsume ''c'' ''y'' 2 (\<lambda>_. None),
       CodeConsume ''c'' ''z'' 2 (\<lambda>_. None)] no_codes) \<le> 2"
  using wrong_guesses_bounded [OF _ no_codes_ok, of 2 "''c''"
      "[CodeIssue 1 ''c'' some_code, CodeConsume ''c'' ''x'' 2 (\<lambda>_. None), CodeConsume ''c'' ''y'' 2 (\<lambda>_. None),
       CodeConsume ''c'' ''z'' 2 (\<lambda>_. None)]"]
  by (simp add: no_codes_def)

text \<open>A deferred transaction's credentials are collected at most once per creation, whichever polls
  race, and once collected they are gone from the store, which answers the transaction as unknown.\<close>

theorem deferred_collected_once:
  assumes "deferred_ok s" and "gm_get (ds_records s) i = None"
  shows "grant_count (collects i) (call_trace deferred_step cs s) \<le> sum_list (map (deferred_new i) cs)"
  using collect.grants_bounded [OF assms(1), of i cs] assms(2) by (simp add: collectable_def)

definition some_deferred :: deferred_record where
  "some_deferred = \<lparr> dr_Owner = ''i'', dr_ClientID = ''c'', dr_Subject = ''u'', dr_Status = DeferredIssued,
     dr_Credentials = [GStr ''vc''], dr_NotificationID = [], dr_CredentialConfigurationID = ''pid'',
     dr_BindingKeys = [''k''], dr_ExpiresAt = 0, dr_KeyAttestations = [], dr_ProofKeyHeaders = [], dr_Reference = [] \<rparr>"

theorem deferred_collected_once_witness:
  "grant_count (collects ''t'') (call_trace deferred_step
      [DCreate 1 ''t'' some_deferred, DInvalidate ''t'', DInvalidate ''t'']
      \<lparr> ds_records = [], ds_invalidated = [], ds_prune = \<lparr> pr_at = 0 \<rparr> \<rparr>) \<le> 1"
  using deferred_collected_once [of "\<lparr> ds_records = [], ds_invalidated = [], ds_prune = \<lparr> pr_at = 0 \<rparr> \<rparr>" "''t''"
      "[DCreate 1 ''t'' some_deferred, DInvalidate ''t'', DInvalidate ''t'']"]
  by (simp add: deferred_ok_def is_invalidated_def)

text \<open>Unredeemed entries do not accumulate: no sequence of calls takes the nonce store past the larger
  of \<open>minPruneAt\<close> and twice what its last pruning left.\<close>

theorem nonce_store_bounded:
  assumes "nonce_ok s" and "store_bounded (ns_issued s) (ns_prune s)"
  shows "store_bounded (ns_issued (calls_state nonce_step cs s)) (ns_prune (calls_state nonce_step cs s))"
proof -
  have add: "store_bounded (ns_issued (nonce_add now i s)) (ns_prune (nonce_add now i s))"
    if "nonce_ok s" "store_bounded (ns_issued s) (ns_prune s)" for now i s
    using prune_store_bounded that by (auto simp: nonce_add_def nonce_ok_def split: prod.splits)
  have del: "store_bounded (gm_del k m) p" if "store_bounded m p"
    for k and m :: "(string, nonce_record) gomap" and p
    using that length_delete_le [of k m] by (simp add: store_bounded_def)
  have step: "store_bounded (ns_issued s') (ns_prune s')"
    if "nonce_ok s" "store_bounded (ns_issued s) (ns_prune s)" "nonce_step c s = (r, s')" for s c r s'
    using that add del by (cases c) (auto simp: NonceStore_Issue_def NonceStore_Consume_def NonceStore_Spend_def
      split: option.splits if_splits)
  from assms show ?thesis
  proof (induction cs arbitrary: s)
    case (Cons c cs)
    obtain r s' where run: "nonce_step c s = (r, s')" by (cases "nonce_step c s")
    from Cons.IH [OF nonce_step_ok [OF Cons.prems(1) run] step [OF Cons.prems run]] run show ?case by simp
  qed simp
qed

theorem nonce_store_bounded_witness:
  "store_bounded (ns_issued (calls_state nonce_step
      [CIssue 5 \<lparr> ni_Nonce = ''n'', ni_Owner = ''i'', ni_ExpiresAt = 9 \<rparr>] \<lparr> ns_issued = [], ns_prune = \<lparr> pr_at = 0 \<rparr> \<rparr>))
    (ns_prune (calls_state nonce_step
      [CIssue 5 \<lparr> ni_Nonce = ''n'', ni_Owner = ''i'', ni_ExpiresAt = 9 \<rparr>] \<lparr> ns_issued = [], ns_prune = \<lparr> pr_at = 0 \<rparr> \<rparr>))"
  by (rule nonce_store_bounded) (simp_all add: nonce_ok_def store_bounded_def)

end
