(* ===== verification/Tx_Store.thy ===== *)
theory Tx_Store
  imports Storage Dcql_Query
begin

text \<open>
  Presentation transactions and the store that keeps them: \<open>Transaction\<close> and the interface
  \<open>TransactionStore\<close> of \<open>src/verifier/transactions.go\<close>, and the in-memory store of
  \<open>src/storage/verifier_transaction_store.go\<close>. The interface is a record of functions, as a Go
  interface value is, and its promises are the locale \<open>transaction_store\<close>; the in-memory store
  is an interpretation. An \<open>Update\<close>'s function returns the updated transaction with what it leaves in its
  caller's variables. Type variables: \<open>'k\<close> the response decryption key (a nil pointer is \<open>None\<close>),
  \<open>'r\<close> a verified result. A nil \<open>BrowserBindingHash\<close> is the empty one: nothing here tells them apart.
\<close>

section \<open>Transactions and their errors\<close>

datatype TransactionStatus =
    TransactionPending
  | TransactionAwaitingRedirect
  | TransactionDone
  | TransactionClosed
  | TransactionExpired

record ('k, 'r) transaction =
  tx_ID :: string
  tx_KeyID :: string
  tx_State :: string
  tx_Nonce :: string
  tx_Query :: query
  tx_ResponseDecryptionKey :: "'k option"
  tx_RequestObject :: string
  tx_Origin :: string
  tx_MdocEncryptionInfo :: string
  tx_Owner :: string
  tx_BrowserBindingHash :: "nat list"
  tx_SameDevice :: bool
  tx_ExpiresAt :: int
  tx_RetainUntil :: int
  tx_Status :: TransactionStatus
  tx_ResponseCodeHash :: string
  tx_Result :: "'r option"
  tx_LastError :: string

datatype Reason =
    ReasonMalformed
  | ReasonStateMismatch
  | ReasonNotAnswered
  | ReasonUntrustedIssuer
  | ReasonInvalidCredential
  | ReasonHolderBinding
  | ReasonUnrequestedClaims
  | ReasonMdocDCAPIResponse

record ResponseError =
  re_Code :: string
  re_Description :: string
  re_State :: string

text \<open>
  The errors, as \<open>errors.As\<close> and \<open>errors.Is\<close> tell them apart: the sentinels, a Wallet's error
  response, the same for a request no longer pending, a refusal of \<open>Status\<close> or \<open>Accept\<close> with its
  text, a \<open>*Error\<close> with its reason, a fault of the Verifier's own, and any other.
\<close>

datatype tx_error =
    ErrTransactionUnknown
  | ErrTransactionExpired
  | ErrTransactionAnswered
  | ErrTransactionClosed
  | ErrWrongBrowser
  | WalletError ResponseError
  | NotPending tx_error ResponseError
  | AcceptError string
  | VerifyError Reason string
  | ServerFault tx_error
  | OtherError string

record 'r view =
  tv_ID :: string
  tv_Status :: TransactionStatus
  tv_Result :: "'r option"
  tv_LastError :: string

datatype 'r captured = NoCapture | Released "'r view" | WrongBrowser

section \<open>The interface\<close>

type_synonym ('k, 'r) tx_update = "('k, 'r) transaction \<Rightarrow> tx_error + ('k, 'r) transaction \<times> 'r captured"

record ('k, 'r, 's) store_ops =
  ts_Create :: "int \<Rightarrow> ('k, 'r) transaction \<Rightarrow> 's \<Rightarrow> tx_error option \<times> 's"
  ts_Get :: "string \<Rightarrow> 's \<Rightarrow> tx_error + ('k, 'r) transaction"
  ts_Update :: "string \<Rightarrow> ('k, 'r) tx_update \<Rightarrow> 's \<Rightarrow> (tx_error + 'r captured) \<times> 's"
  ts_IDByKeyID :: "string \<Rightarrow> 's \<Rightarrow> tx_error + string"
  ts_IDByResponseCode :: "string \<Rightarrow> 's \<Rightarrow> tx_error + string"

text \<open>
  What \<open>TransactionStore\<close> documents: \<open>Create\<close> saves under an unused ID (and may drop others),
  \<open>Update\<close> is one atomic step that saves what its function returns or changes nothing, a lookup by
  response code reflects the latest saved transaction. Any operation may fail with an error of the store's own.
\<close>

locale transaction_store =
  fixes ops :: "('k, 'r, 's) store_ops" and lookup :: "'s \<Rightarrow> string \<Rightarrow> ('k, 'r) transaction option"
    and ok :: "'s \<Rightarrow> bool"
  assumes get_saved: "ok s \<Longrightarrow> ts_Get ops i s = Inr tx \<Longrightarrow> lookup s i = Some tx"
    and create_ok: "ok s \<Longrightarrow> ts_Create ops now tx s = (r, s') \<Longrightarrow> ok s'"
    and create_saves: "ok s \<Longrightarrow> ts_Create ops now tx s = (None, s') \<Longrightarrow>
      lookup s (tx_ID tx) = None \<and> lookup s' (tx_ID tx) = Some tx"
    and create_keeps: "ok s \<Longrightarrow> ts_Create ops now tx s = (r, s') \<Longrightarrow>
      (r = None \<and> i = tx_ID tx) \<or> lookup s' i = lookup s i \<or> lookup s' i = None"
    and update_ok: "ok s \<Longrightarrow> ts_Update ops i fn s = (result, s') \<Longrightarrow> ok s'"
    and update_saves: "ok s \<Longrightarrow> ts_Update ops i fn s = (Inr c, s') \<Longrightarrow>
      \<exists>tx tx'. lookup s i = Some tx \<and> fn tx = Inr (tx', c) \<and> lookup s' = (lookup s)(i \<mapsto> tx'\<lparr> tx_ID := i \<rparr>)"
    and update_fails: "ok s \<Longrightarrow> ts_Update ops i fn s = (Inl e, s') \<Longrightarrow> lookup s' = lookup s"
    and code_saved: "ok s \<Longrightarrow> ts_IDByResponseCode ops h s = Inr i \<Longrightarrow>
      h \<noteq> [] \<and> (\<exists>tx. lookup s i = Some tx \<and> tx_ResponseCodeHash tx = h)"

section \<open>The store in memory\<close>

record ('k, 'r) tx_store =
  vs_byID :: "(string, ('k, 'r) transaction) gomap"
  vs_byKey :: "(string, string) gomap"
  vs_byCode :: "(string, string) gomap"
  vs_prune :: pruner

definition NewVerifierTransactionStore :: "('k, 'r) tx_store" where
  "NewVerifierTransactionStore = \<lparr> vs_byID = [], vs_byKey = [], vs_byCode = [], vs_prune = \<lparr> pr_at = 0 \<rparr> \<rparr>"

text \<open>Ten minutes, in nanoseconds.\<close>

definition expiryGrace :: int where
  "expiryGrace = 600000000000"

definition keep_until :: "('k, 'r) transaction \<Rightarrow> int" where
  "keep_until tx =
     (if tx_ExpiresAt tx = 0 then 0
      else if tx_ExpiresAt tx + expiryGrace > tx_RetainUntil tx then tx_ExpiresAt tx + expiryGrace
      else tx_RetainUntil tx)"

definition live_index :: "(string, 'v) gomap \<Rightarrow> (string, string) gomap \<Rightarrow> (string, string) gomap" where
  "live_index byID index = filter (\<lambda>(k, i). gm_get byID i \<noteq> None) index"

definition dropExpired :: "int \<Rightarrow> ('k, 'r) tx_store \<Rightarrow> ('k, 'r) tx_store" where
  "dropExpired now s =
     (let byID = pruneMap (vs_byID s) now keep_until
      in s \<lparr> vs_byID := byID, vs_byKey := live_index byID (vs_byKey s), vs_byCode := live_index byID (vs_byCode s) \<rparr>)"

definition tx_save :: "('k, 'r) transaction \<Rightarrow> ('k, 'r) tx_store \<Rightarrow> ('k, 'r) tx_store" where
  "tx_save tx s =
     s \<lparr> vs_byID := gm_put (tx_ID tx) tx (vs_byID s),
         vs_byKey := (if tx_KeyID tx \<noteq> [] then gm_put (tx_KeyID tx) (tx_ID tx) (vs_byKey s) else vs_byKey s),
         vs_byCode := (if tx_ResponseCodeHash tx \<noteq> []
           then gm_put (tx_ResponseCodeHash tx) (tx_ID tx) (vs_byCode s) else vs_byCode s) \<rparr>"

text \<open>What Create does before it saves.\<close>

definition tx_make_room :: "int \<Rightarrow> ('k, 'r) tx_store \<Rightarrow> ('k, 'r) tx_store" where
  "tx_make_room now s =
     (if pruner_due (vs_prune s) (length (vs_byID s))
      then (let s = dropExpired now s in s \<lparr> vs_prune := pruner_pruned (length (vs_byID s)) (vs_prune s) \<rparr>)
      else s)"

definition TxStore_Create ::
  "int \<Rightarrow> ('k, 'r) transaction \<Rightarrow> ('k, 'r) tx_store \<Rightarrow> tx_error option \<times> ('k, 'r) tx_store" where
  "TxStore_Create now tx s =
     (if tx_ID tx = [] then (Some (OtherError ''storage: transaction ID is required''), s)
      else if \<not> Option.is_none (gm_get (vs_byID s) (tx_ID tx))
      then (Some (OtherError ''storage: transaction ID is already in use''), s)
      else if tx_KeyID tx \<noteq> [] \<and> gm_get (vs_byKey s) (tx_KeyID tx) \<noteq> None
      then (Some (OtherError ''storage: transaction key ID is already in use''), s)
      else (None, tx_save tx (tx_make_room now s)))"

definition TxStore_Get :: "string \<Rightarrow> ('k, 'r) tx_store \<Rightarrow> tx_error + ('k, 'r) transaction" where
  "TxStore_Get i s =
     (case gm_get (vs_byID s) i of None \<Rightarrow> Inl ErrTransactionUnknown | Some tx \<Rightarrow> Inr tx)"

definition TxStore_Update ::
  "string \<Rightarrow> ('k, 'r) tx_update \<Rightarrow> ('k, 'r) tx_store \<Rightarrow> (tx_error + 'r captured) \<times> ('k, 'r) tx_store" where
  "TxStore_Update i fn s =
     (case gm_get (vs_byID s) i of
        None \<Rightarrow> (Inl ErrTransactionUnknown, s)
      | Some stored \<Rightarrow>
          (case fn stored of
             Inl e \<Rightarrow> (Inl e, s)
           | Inr (tx, c) \<Rightarrow>
               (let tx = tx \<lparr> tx_ID := i \<rparr>;
                    previousCode = tx_ResponseCodeHash stored;
                    s = (if previousCode \<noteq> [] \<and> previousCode \<noteq> tx_ResponseCodeHash tx
                         then s \<lparr> vs_byCode := gm_del previousCode (vs_byCode s) \<rparr> else s)
                in (Inr c, tx_save tx s))))"

definition TxStore_IDByKeyID :: "string \<Rightarrow> ('k, 'r) tx_store \<Rightarrow> tx_error + string" where
  "TxStore_IDByKeyID kid s =
     (case gm_get (vs_byKey s) kid of
        None \<Rightarrow> Inl ErrTransactionUnknown
      | Some i \<Rightarrow> (if kid = [] then Inl ErrTransactionUnknown else Inr i))"

definition TxStore_IDByResponseCode :: "string \<Rightarrow> ('k, 'r) tx_store \<Rightarrow> tx_error + string" where
  "TxStore_IDByResponseCode codeHash s =
     (case gm_get (vs_byCode s) codeHash of
        None \<Rightarrow> Inl ErrTransactionUnknown
      | Some i \<Rightarrow> (if codeHash = [] then Inl ErrTransactionUnknown else Inr i))"

definition memory_store :: "('k, 'r, ('k, 'r) tx_store) store_ops" where
  "memory_store = \<lparr> ts_Create = TxStore_Create, ts_Get = TxStore_Get, ts_Update = TxStore_Update,
     ts_IDByKeyID = TxStore_IDByKeyID, ts_IDByResponseCode = TxStore_IDByResponseCode \<rparr>"

lemma memory_store_simps [simp]:
  "ts_Create memory_store = TxStore_Create"
  "ts_Get memory_store = TxStore_Get"
  "ts_Update memory_store = TxStore_Update"
  "ts_IDByKeyID memory_store = TxStore_IDByKeyID"
  "ts_IDByResponseCode memory_store = TxStore_IDByResponseCode"
  by (simp_all add: memory_store_def)

definition vs_lookup :: "('k, 'r) tx_store \<Rightarrow> string \<Rightarrow> ('k, 'r) transaction option" where
  "vs_lookup s i = gm_get (vs_byID s) i"

text \<open>The maps have distinct keys, and every response code leads to a transaction that has it.\<close>

definition code_indexed :: "('k, 'r) tx_store \<Rightarrow> bool" where
  "code_indexed s = (gm_get (vs_byCode s) [] = None \<and> (\<forall>h i. gm_get (vs_byCode s) h = Some i \<longrightarrow>
     (\<exists>tx. gm_get (vs_byID s) i = Some tx \<and> tx_ResponseCodeHash tx = h)))"

definition tx_store_ok :: "('k, 'r) tx_store \<Rightarrow> bool" where
  "tx_store_ok s = (gm_ok (vs_byID s) \<and> gm_ok (vs_byCode s) \<and> code_indexed s)"

lemma new_tx_store_ok [simp]: "tx_store_ok NewVerifierTransactionStore"
  by (simp add: tx_store_ok_def code_indexed_def NewVerifierTransactionStore_def)

lemma dropExpired_get:
  assumes "gm_ok (vs_byID s)"
  shows "gm_get (vs_byID (dropExpired now s)) i =
    (case gm_get (vs_byID s) i of None \<Rightarrow> None | Some tx \<Rightarrow> if expired now (keep_until tx) then None else Some tx)"
  using assms by (simp add: dropExpired_def Let_def gm_get_pruneMap)

lemma dropExpired_ok:
  assumes "tx_store_ok s" shows "tx_store_ok (dropExpired now s)"
proof -
  have "gm_ok (vs_byID (dropExpired now s))"
    using assms by (simp add: tx_store_ok_def dropExpired_def Let_def pruneMap_def)
  moreover have "gm_ok (vs_byCode (dropExpired now s))"
    using assms by (simp add: tx_store_ok_def dropExpired_def Let_def live_index_def)
  moreover have "code_indexed (dropExpired now s)"
    unfolding code_indexed_def
  proof (intro conjI allI impI)
    show "gm_get (vs_byCode (dropExpired now s)) [] = None"
      using assms by (auto simp: tx_store_ok_def code_indexed_def dropExpired_def Let_def live_index_def gm_get_filter)
  next
    fix h i
    assume "gm_get (vs_byCode (dropExpired now s)) h = Some i"
    then have live: "gm_get (vs_byCode s) h = Some i" "gm_get (vs_byID (dropExpired now s)) i \<noteq> None"
      using assms by (auto simp: tx_store_ok_def dropExpired_def Let_def live_index_def gm_get_filter
        split: option.splits if_splits)
    obtain tx where "gm_get (vs_byID s) i = Some tx" "tx_ResponseCodeHash tx = h"
      using assms live(1) by (auto simp: tx_store_ok_def code_indexed_def)
    with live(2) assms show "\<exists>tx. gm_get (vs_byID (dropExpired now s)) i = Some tx \<and> tx_ResponseCodeHash tx = h"
      by (auto simp: dropExpired_get tx_store_ok_def split: if_splits)
  qed
  ultimately show ?thesis by (simp add: tx_store_ok_def)
qed

lemma tx_save_get [simp]: "vs_lookup (tx_save tx s) = (vs_lookup s)(tx_ID tx \<mapsto> tx)"
  by (rule ext) (simp add: vs_lookup_def tx_save_def)

text \<open>Saving keeps the invariant when no other code still leads to the saved transaction.\<close>

lemma tx_save_ok:
  assumes "tx_store_ok s"
    and "\<And>h. gm_get (vs_byCode s) h = Some (tx_ID tx) \<Longrightarrow> h = tx_ResponseCodeHash tx"
  shows "tx_store_ok (tx_save tx s)"
proof -
  have "\<exists>tx'. gm_get (vs_byID (tx_save tx s)) i = Some tx' \<and> tx_ResponseCodeHash tx' = h"
    if "gm_get (vs_byCode (tx_save tx s)) h = Some i" for h i
    using that assms(1) assms(2) [of h]
    by (auto simp: tx_save_def tx_store_ok_def code_indexed_def split: if_splits)
  moreover have "gm_get (vs_byCode (tx_save tx s)) [] = None"
    using assms(1) by (simp add: tx_save_def tx_store_ok_def code_indexed_def)
  ultimately show ?thesis
    using assms(1) by (simp add: tx_store_ok_def code_indexed_def) (simp add: tx_save_def)
qed

lemma tx_make_room:
  assumes "tx_store_ok s"
  shows "tx_store_ok (tx_make_room now s)"
    and "vs_lookup (tx_make_room now s) i = vs_lookup s i \<or> vs_lookup (tx_make_room now s) i = None"
  using assms dropExpired_ok [OF assms, of now] dropExpired_get [of s now i]
  by (auto simp: tx_make_room_def Let_def tx_store_ok_def code_indexed_def vs_lookup_def split: option.splits)

lemma create_cases [consumes 2]:
  assumes "tx_store_ok s" and "TxStore_Create now tx s = (r, s')"
  obtains (refused) e where "r = Some e" "s' = s"
  | (saved) s1 where "r = None" "s' = tx_save tx s1" "tx_store_ok s1" "vs_lookup s (tx_ID tx) = None"
      "\<And>i. vs_lookup s1 i = vs_lookup s i \<or> vs_lookup s1 i = None"
  using assms tx_make_room [OF assms(1), of now]
  by (auto simp: TxStore_Create_def Let_def vs_lookup_def Option.is_none_def split: if_splits)

lemma unindexed: "tx_store_ok s \<Longrightarrow> vs_lookup s i = None \<Longrightarrow> gm_get (vs_byCode s) h \<noteq> Some i"
  by (fastforce simp: tx_store_ok_def code_indexed_def vs_lookup_def)

lemma TxStore_Create_ok:
  assumes "tx_store_ok s" and "TxStore_Create now tx s = (r, s')" shows "tx_store_ok s'"
  using assms
proof (cases rule: create_cases)
  case (saved s1)
  then have "vs_lookup s1 (tx_ID tx) = None" by (metis)
  with unindexed [OF saved(3) this] saved show ?thesis by (auto intro: tx_save_ok)
next
  case (refused e)
  with assms(1) show ?thesis by simp
qed

lemma TxStore_Update_cases [consumes 1]:
  assumes "TxStore_Update i fn s = (r, s')"
  obtains (failed) e where "r = Inl e" "s' = s"
  | (saved) tx tx' c s1 where "vs_lookup s i = Some tx" "fn tx = Inr (tx', c)" "r = Inr c"
      "s1 = (if tx_ResponseCodeHash tx \<noteq> [] \<and> tx_ResponseCodeHash tx \<noteq> tx_ResponseCodeHash tx'
         then s \<lparr> vs_byCode := gm_del (tx_ResponseCodeHash tx) (vs_byCode s) \<rparr> else s)"
      "s' = tx_save (tx' \<lparr> tx_ID := i \<rparr>) s1"
proof (cases "gm_get (vs_byID s) i")
  case None
  with assms have "r = Inl ErrTransactionUnknown" "s' = s" by (simp_all add: TxStore_Update_def)
  then show ?thesis by (rule failed)
next
  case (Some tx)
  show ?thesis
  proof (cases "fn tx")
    case (Inl e)
    with Some assms have "r = Inl e" "s' = s" by (simp_all add: TxStore_Update_def)
    then show ?thesis by (rule failed)
  next
    case (Inr p)
    obtain tx' c where p: "p = (tx', c)" by (cases p)
    show ?thesis
      by (rule saved [of tx tx' c]) (use Some Inr p assms in \<open>auto simp: TxStore_Update_def vs_lookup_def Let_def\<close>)
  qed
qed

lemma TxStore_Update_ok:
  assumes "tx_store_ok s" and "TxStore_Update i fn s = (r, s')" shows "tx_store_ok s'"
  using assms(2)
proof (cases rule: TxStore_Update_cases)
  case (failed e)
  with assms(1) show ?thesis by simp
next
  case (saved tx tx' c s1)
  have code: "h = tx_ResponseCodeHash tx \<and> h \<noteq> []" if "gm_get (vs_byCode s) h = Some i" for h
    using that assms(1) saved(1) by (fastforce simp: tx_store_ok_def code_indexed_def vs_lookup_def)
  have s1: "tx_store_ok s1" "\<And>h. gm_get (vs_byCode s1) h = Some i \<Longrightarrow> h = tx_ResponseCodeHash tx'"
    using assms(1) saved(4) by (auto simp: tx_store_ok_def code_indexed_def dest!: code split: if_splits)
  show ?thesis unfolding saved(5) by (rule tx_save_ok [OF s1(1)]) (simp add: s1(2))
qed

text \<open>The in-memory store keeps the interface's promises.\<close>

interpretation txmem: transaction_store memory_store vs_lookup tx_store_ok
proof
  fix s s' :: "('k, 'r) tx_store" and tx :: "('k, 'r) transaction" and i h r now
  assume ok: "tx_store_ok s"
  show "vs_lookup s i = Some tx" if "ts_Get memory_store i s = Inr tx"
    using that by (auto simp: TxStore_Get_def vs_lookup_def split: option.splits)
  show "h \<noteq> [] \<and> (\<exists>tx. vs_lookup s i = Some tx \<and> tx_ResponseCodeHash tx = h)"
    if "ts_IDByResponseCode memory_store h s = Inr i"
    using that ok by (auto simp: TxStore_IDByResponseCode_def vs_lookup_def tx_store_ok_def code_indexed_def
      split: option.splits if_splits)
  show "tx_store_ok s'" if "ts_Create memory_store now tx s = (r, s')"
    using TxStore_Create_ok [OF ok] that by simp
  show "vs_lookup s (tx_ID tx) = None \<and> vs_lookup s' (tx_ID tx) = Some tx"
    if "ts_Create memory_store now tx s = (None, s')"
    using ok that [simplified] by (cases rule: create_cases) auto
  show "(r = None \<and> i = tx_ID tx) \<or> vs_lookup s' i = vs_lookup s i \<or> vs_lookup s' i = None"
    if "ts_Create memory_store now tx s = (r, s')"
    using ok that [simplified] by (cases rule: create_cases) auto
next
  fix s s' :: "('k, 'r) tx_store" and i fn r c and e :: tx_error
  assume ok: "tx_store_ok s"
  show "tx_store_ok s'" if "ts_Update memory_store i fn s = (r, s')"
    using TxStore_Update_ok [OF ok] that by simp
  show "\<exists>tx tx'. vs_lookup s i = Some tx \<and> fn tx = Inr (tx', c) \<and> vs_lookup s' = (vs_lookup s)(i \<mapsto> tx'\<lparr> tx_ID := i \<rparr>)"
    if "ts_Update memory_store i fn s = (Inr c, s')"
    using that [simplified]
  proof (cases rule: TxStore_Update_cases)
    case (saved tx tx' c' s1)
    have "vs_lookup s1 = vs_lookup s" using saved(4) by (auto simp: vs_lookup_def)
    with saved show ?thesis by auto
  qed simp
  show "vs_lookup s' = vs_lookup s" if "ts_Update memory_store i fn s = (Inl e, s')"
    using that [simplified] by (cases rule: TxStore_Update_cases) auto
qed

end
