(* ===== verification/Failure_Text.thy ===== *)
theory Failure_Text
  imports Tx_Store Go_Text
begin

text \<open>
  What a refused answer leaves for the Verifier's display: \<open>failureText\<close>, \<open>printableText\<close>,
  \<open>isErrorCode\<close> and \<open>errorCodeOf\<close> of \<open>src/verifier/transactions.go\<close>, \<open>Reason.description\<close> of
  \<open>src/verifier/errors.go\<close>. \<open>unicode.IsPrint\<close>, a table of the Unicode
  standard's, is a parameter.
\<close>

section \<open>LastError\<close>

definition maxFailureText :: nat where
  "maxFailureText = 256"

abbreviation ellipsis :: nat where "ellipsis \<equiv> 8230"

text \<open>The loop of \<open>printableText\<close>: \<open>b\<close> is what the builder holds.\<close>

fun print_runes :: "(nat \<Rightarrow> bool) \<Rightarrow> nat list \<Rightarrow> nat list \<Rightarrow> nat list" where
  "print_runes isPrint [] b = b"
| "print_runes isPrint (r # rs) b =
     (if maxFailureText \<le> length b then b @ encode_rune ellipsis
      else print_runes isPrint rs (b @ encode_rune (if isPrint r then r else 63)))"

definition printableText :: "(nat \<Rightarrow> bool) \<Rightarrow> string \<Rightarrow> string" where
  "printableText isPrint s = string_of (print_runes isPrint (runes_of (bytes_of s)) [])"

definition lower :: "char \<Rightarrow> bool" where
  "lower c = (97 \<le> (of_char c :: nat) \<and> (of_char c :: nat) \<le> 122)"

definition digit :: "char \<Rightarrow> bool" where
  "digit c = (48 \<le> (of_char c :: nat) \<and> (of_char c :: nat) \<le> 57)"

definition isErrorCode :: "string \<Rightarrow> bool" where
  "isErrorCode code =
     (if code = [] \<or> length code > 64 then False
      else list_all (\<lambda>r. lower r \<or> digit r \<or> r = CHR ''_'') code)"

definition errorCodeOf :: "string \<Rightarrow> string" where
  "errorCodeOf code =
     (if code = [] \<or> length code > 64 then ''invalid_request''
      else if list_all (\<lambda>r. lower r \<or> r = CHR ''_'') code then code
      else ''invalid_request'')"

fun reason_description :: "Reason \<Rightarrow> string" where
  "reason_description ReasonMalformed = ''it is malformed (malformed)''"
| "reason_description ReasonStateMismatch = ''its state isn't this request's (state_mismatch)''"
| "reason_description ReasonNotAnswered = ''what it presents doesn't answer the request (not_answered)''"
| "reason_description ReasonUntrustedIssuer = ''a credential's issuer isn't trusted for it (untrusted_issuer)''"
| "reason_description ReasonInvalidCredential = ''a credential's signature or validity failed (invalid_credential)''"
| "reason_description ReasonHolderBinding = ''a credential's holder binding failed (holder_binding)''"
| "reason_description ReasonUnrequestedClaims =
     ''a credential discloses claims the request didn't ask for (unrequested_claims)''"
| "reason_description ReasonMdocDCAPIResponse =
     ''the org-iso-mdoc response didn't decrypt or verify (mdoc_dcapi_response)''"

text \<open>\<open>errors.As(err, &walletErr)\<close>: the Wallet's error response in an error's chain.\<close>

fun wallet_error :: "tx_error \<Rightarrow> ResponseError option" where
  "wallet_error (WalletError w) = Some w"
| "wallet_error (NotPending e w) = Some w"
| "wallet_error (ServerFault e) = wallet_error e"
| "wallet_error _ = None"

fun accept_error :: "tx_error \<Rightarrow> string option" where
  "accept_error (AcceptError t) = Some t"
| "accept_error (ServerFault e) = accept_error e"
| "accept_error _ = None"

fun error_reason :: "tx_error \<Rightarrow> Reason option" where
  "error_reason (VerifyError r t) = Some r"
| "error_reason (ServerFault e) = error_reason e"
| "error_reason _ = None"

definition failureText :: "(nat \<Rightarrow> bool) \<Rightarrow> tx_error \<Rightarrow> string" where
  "failureText isPrint cause =
     (case wallet_error cause of
        Some w \<Rightarrow>
          (if isErrorCode (re_Code w) then ''an error response arrived: '' @ re_Code w
           else ''an error response arrived'')
      | None \<Rightarrow>
          (case accept_error cause of
             Some t \<Rightarrow> printableText isPrint t
           | None \<Rightarrow>
               (case error_reason cause of
                  Some r \<Rightarrow> ''the answer was refused: '' @ reason_description r
                | None \<Rightarrow>
                    ''the answer couldn't be verified: the Verifier's configuration is incomplete (see the returned error)'')))"

text \<open>What the builder holds is runes, each printable or one of the two the loop writes itself.\<close>

lemma print_runes_shape:
  assumes "\<forall>r \<in> set rs. scalar r" and "isPrint 63" and "isPrint ellipsis"
    and "b = concat (map encode_rune ws)" and "\<forall>r \<in> set ws. scalar r \<and> isPrint r" and "length b \<le> 259"
  shows "\<exists>ws'. print_runes isPrint rs b = concat (map encode_rune ws') \<and>
    (\<forall>r \<in> set ws'. scalar r \<and> isPrint r) \<and> length (print_runes isPrint rs b) \<le> 262"
  using assms
proof (induction rs arbitrary: b ws)
  case Nil
  then show ?case by auto
next
  case (Cons r rs)
  show ?case
  proof (cases "maxFailureText \<le> length b")
    case True
    have "encode_rune ellipsis = [226, 128, 166]" "scalar ellipsis" by (simp_all add: encode_rune_def scalar_def)
    with True Cons.prems show ?thesis
      by (intro exI [of _ "ws @ [ellipsis]"]) auto
  next
    case False
    define w where "w = (if isPrint r then r else 63)"
    have w: "scalar w" "isPrint w" using Cons.prems by (auto simp: w_def scalar_def)
    have "\<exists>ws'. print_runes isPrint rs (b @ encode_rune w) = concat (map encode_rune ws') \<and>
        (\<forall>r \<in> set ws'. scalar r \<and> isPrint r) \<and> length (print_runes isPrint rs (b @ encode_rune w)) \<le> 262"
      by (rule Cons.IH [of _ "ws @ [w]"])
        (use Cons.prems w False encode_rune_length(1) [of w] in \<open>auto simp: maxFailureText_def\<close>)
    with False show ?thesis by (simp add: w_def)
  qed
qed

lemma encode_rune_bytes: "scalar r \<Longrightarrow> \<forall>b \<in> set (encode_rune r). b < 256"
  by (auto simp: encode_rune_def scalar_def)

lemma bytes_of_string_of: "\<forall>b \<in> set bs. b < 256 \<Longrightarrow> bytes_of (string_of bs) = bs"
  by (induction bs) (auto simp: bytes_of_def string_of_def)

lemma printableText_shape:
  assumes "isPrint 63" and "isPrint ellipsis"
  shows "(\<forall>r \<in> set (runes_of (bytes_of (printableText isPrint t))). isPrint r)"
    and "length (printableText isPrint t) \<le> 262"
proof -
  obtain ws where ws: "print_runes isPrint (runes_of (bytes_of t)) [] = concat (map encode_rune ws)"
      "\<forall>r \<in> set ws. scalar r \<and> isPrint r"
    and len: "length (print_runes isPrint (runes_of (bytes_of t)) []) \<le> 262"
    using print_runes_shape [of "runes_of (bytes_of t)" isPrint "[]" "[]"] runes_of_scalar assms by auto
  have "bytes_of (printableText isPrint t) = concat (map encode_rune ws)"
    unfolding printableText_def ws(1) by (rule bytes_of_string_of) (use ws(2) encode_rune_bytes in auto)
  with ws(2) show "\<forall>r \<in> set (runes_of (bytes_of (printableText isPrint t))). isPrint r"
    by (simp add: runes_of_concat)
  show "length (printableText isPrint t) \<le> 262" using len by (simp add: printableText_def string_of_def)
qed

text \<open>Text of ASCII's printable characters reads as its own bytes.\<close>

definition ascii_text :: "string \<Rightarrow> bool" where
  "ascii_text s = list_all (\<lambda>c. 32 \<le> (of_char c :: nat) \<and> (of_char c :: nat) \<le> 126) s"

lemma runes_of_ascii: "\<forall>b \<in> set bs. b < 128 \<Longrightarrow> runes_of bs = bs"
  by (induction bs) simp_all

lemma ascii_text_printable:
  assumes "ascii_text s" and "\<And>r. 32 \<le> r \<Longrightarrow> r \<le> 126 \<Longrightarrow> isPrint r"
  shows "\<forall>r \<in> set (runes_of (bytes_of s)). isPrint r"
proof -
  have "\<forall>b \<in> set (bytes_of s). 32 \<le> b \<and> b \<le> 126"
    using assms(1) by (auto simp: ascii_text_def bytes_of_def list_all_iff)
  moreover from this have "runes_of (bytes_of s) = bytes_of s" by (intro runes_of_ascii) auto
  ultimately show ?thesis using assms(2) by auto
qed

lemma error_code_ascii: "isErrorCode code \<Longrightarrow> ascii_text code \<and> length code \<le> 64"
  by (auto simp: isErrorCode_def ascii_text_def list_all_iff lower_def digit_def split: if_splits)

lemma reason_description_ascii: "ascii_text (reason_description r) \<and> length (reason_description r) \<le> 90"
  by (cases r) (simp_all add: ascii_text_def)

text \<open>Unless a \<open>Status\<close> or \<open>Accept\<close> refusal gives it, the text is fixed but for an error code.\<close>

lemma failureText_fixed:
  assumes "accept_error cause = None \<or> wallet_error cause \<noteq> None"
  shows "ascii_text (failureText isPrint cause) \<and> length (failureText isPrint cause) \<le> 114"
proof (cases "wallet_error cause")
  case (Some w)
  then show ?thesis using error_code_ascii [of "re_Code w"] by (auto simp: failureText_def ascii_text_def)
next
  case None
  with assms have "accept_error cause = None" by simp
  with None show ?thesis using reason_description_ascii
    by (cases "error_reason cause") (auto simp: failureText_def ascii_text_def)
qed

text \<open>Whatever an answer's sender put in it, the text recorded for a refused answer is printable and
  at most 262 bytes long, for every table of printable runes that has ASCII's, and the ellipsis.\<close>

theorem failure_text_printable:
  assumes "\<And>r. 32 \<le> r \<Longrightarrow> r \<le> 126 \<Longrightarrow> isPrint r" and "isPrint 8230"
  shows "(\<forall>r \<in> set (runes_of (bytes_of (failureText isPrint cause))). isPrint r) \<and>
    length (failureText isPrint cause) \<le> 262"
proof (cases "accept_error cause = None \<or> wallet_error cause \<noteq> None")
  case True
  note fixed = failureText_fixed [OF this, of isPrint]
  have "\<forall>r \<in> set (runes_of (bytes_of (failureText isPrint cause))). isPrint r"
    by (rule ascii_text_printable) (use fixed assms(1) in blast)+
  with fixed show ?thesis by simp
next
  case False
  then obtain t where "failureText isPrint cause = printableText isPrint t" by (auto simp: failureText_def)
  with printableText_shape [of isPrint t] assms show ?thesis by simp
qed

lemma failure_text_printable_witness:
  "failureText (\<lambda>r. 32 \<le> r) (WalletError \<lparr> re_Code = ''access_denied'', re_Description = ''x'', re_State = ''s'' \<rparr>)
      = ''an error response arrived: access_denied'' \<and>
   length (failureText (\<lambda>r. 32 \<le> r) (AcceptError (replicate 300 (CHR ''a'')))) \<le> 262"
  using failure_text_printable [of "\<lambda>r. 32 \<le> r" "AcceptError (replicate 300 (CHR ''a''))"]
  by (simp add: failureText_def isErrorCode_def lower_def)

end
