(* ===== verification/Transactions.thy ===== *)
theory Transactions
  imports Failure_Text B64url "HOL-Library.Word"
begin

text \<open>
  The transactions of a Verifier, \<open>src/verifier/transactions.go\<close>, with the Digital Credentials API's
  (\<open>transactions_dcapi.go\<close>, \<open>handlePageAnswer\<close> of \<open>transactions_mdoc_dcapi.go\<close>), the parsing of a
  \<open>direct_post.jwt\<close> answer (\<open>response.go\<close>, \<open>response_key_id.go\<close>) and the replies of \<open>ResponseHandler\<close>
  (\<open>transactions_http.go\<close>), over any store of the interface.

  Parameters, in the record \<open>deps\<close>: SHA-256, the JWE header and decryption, strict JSON decoding of an answer,
  \<open>net/url\<close>'s encoding, \<open>Verifier.VerifyResponse\<close>, building a Request Object, origins, and the \<open>Status\<close>
  and \<open>Accept\<close> of the configuration. \<open>now\<close> arguments are readings of the clock, \<open>rnd\<close> arguments the bytes
  \<open>Random\<close> gives or \<open>None\<close> when it fails, and \<open>others\<close> is what other requests do to the store between
  the read an operation starts with and the update it ends with. Errors keep what \<open>errors.As\<close> sees, not the
  text wrapped around it.
\<close>

section \<open>Configuration and dependencies\<close>

text \<open>\<open>Verify.TrustedAuthorities\<close>: nil, an AKI checker without anchors, or one fit to verify.\<close>

datatype authorities_checker = NoChecker | UnverifiedAKI | VerifyingChecker

record transactions_config =
  tc_RequestURIBase :: string
  tc_Lifetime :: int
  tc_RedirectURI :: string
  tc_Origins :: "string list"
  tc_Scope :: string
  tc_ForgetResultOnRead :: bool
  tc_IssuerKeys :: bool
  tc_MdocIssuerKeys :: bool
  tc_MaxKeyBindingAge :: int
  tc_TrustedAuthorities :: authorities_checker

record parsed_response =
  pr_VPToken :: "(string, string list) gomap"
  pr_State :: string

record answer_wire =
  aw_VPToken :: "(string, string list) gomap"
  aw_State :: string
  aw_Error :: string
  aw_ErrorDescription :: string

record dcapi_wire =
  dw_Response :: string
  dw_Error :: string

record 'k built_request =
  br_KeyID :: string
  br_Nonce :: string
  br_Key :: "'k option"
  br_RequestObject :: string

record ('k, 'r) deps =
  d_sha256 :: "nat list \<Rightarrow> nat list"
  d_isPrint :: "nat \<Rightarrow> bool"
  d_withQuery :: "string \<Rightarrow> string \<Rightarrow> string \<Rightarrow> string"
  d_encodeQuery :: "(string \<times> string) list \<Rightarrow> string"
  d_jweHeader :: "string \<Rightarrow> (string \<times> goval) list option"
  d_jweDecrypt :: "'k \<Rightarrow> string \<Rightarrow> string option"
  d_answer :: "string \<Rightarrow> answer_wire option"
  d_dcapiAnswer :: "string \<Rightarrow> dcapi_wire option"
  d_encValues :: "string list"
  d_clientID :: string
  d_responseURI :: string
  d_build :: "query \<Rightarrow> string \<Rightarrow> tx_error + 'k built_request"
  d_buildDCAPI :: "query \<Rightarrow> string list \<Rightarrow> tx_error + 'k built_request"
  d_normalizeOrigin :: "string \<Rightarrow> string"
  d_checkPage :: "string \<Rightarrow> bool \<Rightarrow> tx_error option"
  d_verifyResponse :: "query \<Rightarrow> parsed_response \<Rightarrow> string \<Rightarrow> 'k option \<Rightarrow> string \<Rightarrow> tx_error + 'r"
  d_status :: "('r \<Rightarrow> string option) option"
  d_accept :: "(string \<Rightarrow> 'r \<Rightarrow> string option) option"

record ('k, 'r) transactions =
  t_cfg :: transactions_config
  t_owner :: string
  t_derived :: bool
  t_Production :: bool
  t_deps :: "('k, 'r) deps"

abbreviation dep :: "('k, 'r) transactions \<Rightarrow> (('k, 'r) deps \<Rightarrow> 'a) \<Rightarrow> 'a" where
  "dep t f \<equiv> f (t_deps t)"

abbreviation conf :: "('k, 'r) transactions \<Rightarrow> (transactions_config \<Rightarrow> 'a) \<Rightarrow> 'a" where
  "conf t f \<equiv> f (t_cfg t)"

section \<open>Tokens, bindings and scopes\<close>

definition randomToken :: "nat list option \<Rightarrow> tx_error + string" where
  "randomToken rnd =
     (case rnd of None \<Rightarrow> Inl (OtherError ''verifier: transactions: random'') | Some bs \<Rightarrow> Inr (EncodeToString bs))"

definition hashToken :: "('k, 'r) deps \<Rightarrow> string \<Rightarrow> string" where
  "hashToken d tok = EncodeToString (d_sha256 d (bytes_of tok))"

definition bindingMatches :: "('k, 'r) deps \<Rightarrow> nat list \<Rightarrow> string \<Rightarrow> bool" where
  "bindingMatches d hash binding = (if binding = [] then False else hash = d_sha256 d (bytes_of binding))"

definition ownerScope :: "('k, 'r) deps \<Rightarrow> transactions_config \<Rightarrow> string \<times> bool" where
  "ownerScope d cfg =
     (if tc_Scope cfg \<noteq> [] then (''scope:'' @ tc_Scope cfg, False)
      else (''derived:'' @
        EncodeToString (d_sha256 d (bytes_of (len_parts [d_clientID d, d_responseURI d, tc_RequestURIBase cfg]))),
        True))"

definition owns :: "('k, 'r) transactions \<Rightarrow> ('k, 'r) transaction \<Rightarrow> bool" where
  "owns t tx = (if tx_Owner tx = [] then t_derived t \<and> \<not> t_Production t else tx_Owner tx = t_owner t)"

section \<open>Reading and updating one's own transactions\<close>

definition tx_get ::
  "('k, 'r, 's) store_ops \<Rightarrow> ('k, 'r) transactions \<Rightarrow> string \<Rightarrow> 's \<Rightarrow> tx_error + ('k, 'r) transaction" where
  "tx_get ops t i s =
     rbind (ts_Get ops i s) (\<lambda>tx. if \<not> owns t tx then Inl ErrTransactionUnknown else Inr tx)"

definition owned :: "('k, 'r) transactions \<Rightarrow> ('k, 'r) tx_update \<Rightarrow> ('k, 'r) tx_update" where
  "owned t fn = (\<lambda>cur. if \<not> owns t cur then Inl ErrTransactionUnknown else fn cur)"

definition tx_update ::
  "('k, 'r, 's) store_ops \<Rightarrow> ('k, 'r) transactions \<Rightarrow> string \<Rightarrow> ('k, 'r) tx_update \<Rightarrow> 's
     \<Rightarrow> (tx_error + 'r captured) \<times> 's" where
  "tx_update ops t i fn s = ts_Update ops i (owned t fn) s"

definition checkPending :: "int \<Rightarrow> ('k, 'r) transaction \<Rightarrow> tx_error option" where
  "checkPending now tx =
     (if tx_Status tx = TransactionClosed then Some ErrTransactionClosed
      else if tx_Status tx \<noteq> TransactionPending then Some ErrTransactionAnswered
      else if \<not> now < tx_ExpiresAt tx then Some ErrTransactionExpired
      else None)"

definition viewOf :: "('k, 'r) transaction \<Rightarrow> TransactionStatus \<Rightarrow> 'r view" where
  "viewOf tx status =
     \<lparr> tv_ID = tx_ID tx, tv_Status = status,
       tv_Result = (if status = TransactionDone then tx_Result tx else None), tv_LastError = tx_LastError tx \<rparr>"

definition forget :: "('k, 'r) transaction \<Rightarrow> ('k, 'r) transaction" where
  "forget cur =
     cur \<lparr> tx_Status := TransactionClosed, tx_ResponseCodeHash := [], tx_Result := None, tx_LastError := [] \<rparr>"

definition release :: "transactions_config \<Rightarrow> ('k, 'r) transaction \<Rightarrow> 'r view \<times> ('k, 'r) transaction" where
  "release cfg cur =
     (viewOf cur TransactionDone, if tc_ForgetResultOnRead cfg then forget cur else cur)"

section \<open>The updates\<close>

text \<open>The functions the operations give the store's \<open>Update\<close>, each one atomic step.\<close>

definition complete_answer ::
  "('k, 'r) transactions \<Rightarrow> int \<Rightarrow> 'r \<Rightarrow> string \<Rightarrow> ('k, 'r) tx_update" where
  "complete_answer t now result code cur =
     (case checkPending now cur of
        Some e \<Rightarrow> Inl e
      | None \<Rightarrow>
          (let cur = cur \<lparr> tx_Result := Some result, tx_LastError := [] \<rparr>
           in Inr (if tx_SameDevice cur
                   then cur \<lparr> tx_Status := TransactionAwaitingRedirect, tx_ResponseCodeHash := hashToken (t_deps t) code \<rparr>
                   else cur \<lparr> tx_Status := TransactionDone \<rparr>, NoCapture)))"

definition complete_page_answer :: "('k, 'r) transactions \<Rightarrow> int \<Rightarrow> 'r \<Rightarrow> ('k, 'r) tx_update" where
  "complete_page_answer t now result cur =
     (case checkPending now cur of
        Some e \<Rightarrow> Inl e
      | None \<Rightarrow>
          (case release (t_cfg t) (cur \<lparr> tx_Result := Some result, tx_LastError := [], tx_Status := TransactionDone \<rparr>) of
             (view, cur) \<Rightarrow> Inr (cur, Released view)))"

definition record_failure :: "('k, 'r) transactions \<Rightarrow> tx_error \<Rightarrow> ('k, 'r) tx_update" where
  "record_failure t cause cur =
     (if tx_Status cur \<noteq> TransactionPending then Inl ErrTransactionAnswered
      else Inr (cur \<lparr> tx_LastError := failureText (dep t d_isPrint) cause \<rparr>, NoCapture))"

definition wrong_browser_text :: string where
  "wrong_browser_text = ''the wallet's redirect back arrived in a different browser than the one that asked''"

definition redeem_code :: "('k, 'r) transactions \<Rightarrow> int \<Rightarrow> string \<Rightarrow> string \<Rightarrow> ('k, 'r) tx_update" where
  "redeem_code t now codeHash browserBinding cur =
     (if tx_Status cur \<noteq> TransactionAwaitingRedirect \<or> tx_ResponseCodeHash cur = [] \<or> tx_ResponseCodeHash cur \<noteq> codeHash
      then Inl ErrTransactionUnknown
      else if \<not> now < tx_ExpiresAt cur then Inl ErrTransactionExpired
      else (let cur = cur \<lparr> tx_ResponseCodeHash := [] \<rparr> in
        if \<not> bindingMatches (t_deps t) (tx_BrowserBindingHash cur) browserBinding
        then Inr (cur \<lparr> tx_Status := TransactionClosed, tx_Result := None, tx_LastError := wrong_browser_text \<rparr>,
                  WrongBrowser)
        else (case release (t_cfg t) (cur \<lparr> tx_Status := TransactionDone \<rparr>) of
                (view, cur) \<Rightarrow> Inr (cur, Released view))))"

definition take_result :: "('k, 'r) transactions \<Rightarrow> ('k, 'r) tx_update" where
  "take_result t cur =
     (if tx_Status cur \<noteq> TransactionDone then Inr (cur, Released (viewOf cur (tx_Status cur)))
      else (case release (t_cfg t) cur of (view, cur) \<Rightarrow> Inr (cur, Released view)))"

definition close_tx :: "('k, 'r) tx_update" where
  "close_tx cur =
     Inr (if tx_Status cur = TransactionPending \<or> tx_Status cur = TransactionAwaitingRedirect
          then cur \<lparr> tx_Status := TransactionClosed, tx_ResponseCodeHash := [], tx_Result := None \<rparr>
          else cur, NoCapture)"

definition forget_tx :: "('k, 'r) tx_update" where
  "forget_tx cur = Inr (forget cur, NoCapture)"

section \<open>Beginning a request\<close>

definition lost_field :: "string \<Rightarrow> bool \<Rightarrow> string list" where
  "lost_field name same = (if \<not> same then [name] else [])"

text \<open>One second, in nanoseconds.\<close>

definition maxStoredTimeDrift :: int where
  "maxStoredTimeDrift = 1000000000"

definition closeTimes :: "int \<Rightarrow> int \<Rightarrow> bool" where
  "closeTimes a b = (let d = a - b in d > - maxStoredTimeDrift \<and> d < maxStoredTimeDrift)"

definition lostFields :: "('k, 'r) transaction \<Rightarrow> ('k, 'r) transaction \<Rightarrow> string list" where
  "lostFields tx saved =
     lost_field ''ID'' (tx_ID saved = tx_ID tx) @
     lost_field ''KeyID'' (tx_KeyID saved = tx_KeyID tx) @
     lost_field ''State'' (tx_State saved = tx_State tx) @
     lost_field ''Nonce'' (tx_Nonce saved = tx_Nonce tx) @
     lost_field ''ResponseDecryptionKey'' (tx_ResponseDecryptionKey tx = tx_ResponseDecryptionKey saved) @
     lost_field ''RequestObject'' (tx_RequestObject saved = tx_RequestObject tx) @
     lost_field ''Origin'' (tx_Origin saved = tx_Origin tx) @
     lost_field ''MdocEncryptionInfo'' (tx_MdocEncryptionInfo saved = tx_MdocEncryptionInfo tx) @
     lost_field ''Owner'' (tx_Owner saved = tx_Owner tx) @
     lost_field ''BrowserBindingHash'' (tx_BrowserBindingHash saved = tx_BrowserBindingHash tx) @
     lost_field ''SameDevice'' (tx_SameDevice saved = tx_SameDevice tx) @
     lost_field ''ExpiresAt'' (closeTimes (tx_ExpiresAt saved) (tx_ExpiresAt tx)) @
     lost_field ''RetainUntil'' (closeTimes (tx_RetainUntil saved) (tx_RetainUntil tx)) @
     lost_field ''Status'' (tx_Status saved = tx_Status tx)"

definition flowOf :: "('k, 'r) transaction \<Rightarrow> 32 word" where
  "flowOf tx =
     (if tx_MdocEncryptionInfo tx \<noteq> [] then push_bit 3 1
      else if tx_Origin tx \<noteq> [] then push_bit 2 1
      else if tx_SameDevice tx then push_bit 1 1
      else 1)"

text \<open>The state of a \<open>Transactions\<close> beside its store: the kinds of request seen kept.\<close>

definition tx_create ::
  "('k, 'r, 's) store_ops \<Rightarrow> int \<Rightarrow> ('k, 'r) transaction \<Rightarrow> 32 word \<times> 's \<Rightarrow> tx_error option \<times> 32 word \<times> 's" where
  "tx_create ops now tx ks =
     (case ks of (kept, s) \<Rightarrow>
        (case ts_Create ops now tx s of
           (Some e, s) \<Rightarrow> (Some e, kept, s)
         | (None, s) \<Rightarrow>
             (if and kept (flowOf tx) \<noteq> 0 then (None, kept, s)
              else (case ts_Get ops (tx_ID tx) s of
                  Inl e \<Rightarrow> (Some e, kept, s)
                | Inr saved \<Rightarrow>
                    (if lostFields tx saved \<noteq> []
                     then (Some (OtherError ''verifier: transactions: the store didn't keep the transaction''), kept, s)
                     else (None, or kept (flowOf tx), s))))))"

text \<open>The first credential query no configured resolver verifies, and the two preconditions of VerifyResponse.\<close>

definition checkMaxKeyBindingAgeRequired :: "int \<Rightarrow> query \<Rightarrow> tx_error option" where
  "checkMaxKeyBindingAgeRequired maxAge q =
     (if maxAge > 0 then None
      else first_err (\<lambda>_ cq. if cq_Format cq = formatSDJWTVC then Some (OtherError ''max_key_binding_age is required'') else None)
             0 (q_Credentials q))"

definition checkTrustedAuthoritiesConfigured :: "authorities_checker \<Rightarrow> query \<Rightarrow> tx_error option" where
  "checkTrustedAuthoritiesConfigured checker q =
     first_err (\<lambda>_ cq.
        if cq_TrustedAuthorities cq = [] then None
        else if checker = NoChecker then Some (OtherError ''trusted_authorities is required'')
        else if checker = UnverifiedAKI then Some (OtherError ''trusted_authorities: needs Roots or Anchors'')
        else None) 0 (q_Credentials q)"

definition checkVerifies :: "transactions_config \<Rightarrow> query \<Rightarrow> tx_error option" where
  "checkVerifies cfg q =
     and_then (first_err (\<lambda>_ cq.
        if cq_Format cq = formatSDJWTVC \<and> \<not> tc_IssuerKeys cfg then Some (OtherError ''Verify.IssuerKeys isn't set'')
        else if cq_Format cq = formatMdoc \<and> \<not> tc_MdocIssuerKeys cfg then Some (OtherError ''Verify.MdocIssuerKeys isn't set'')
        else None) 0 (q_Credentials q))
       (and_then (checkMaxKeyBindingAgeRequired (tc_MaxKeyBindingAge cfg) q)
          (checkTrustedAuthoritiesConfigured (tc_TrustedAuthorities cfg) q))"

definition MinBrowserBindingLength :: nat where
  "MinBrowserBindingLength = 16"

definition stateSeparator :: string where
  "stateSeparator = ''.''"

definition expiry :: "transactions_config \<Rightarrow> int \<Rightarrow> int \<times> int" where
  "expiry cfg now = (now + tc_Lifetime cfg, now + tc_Lifetime cfg + tc_Lifetime cfg)"

record begun =
  bg_ID :: string
  bg_Link :: string

text \<open>What \<open>Begin\<close> saves.\<close>

definition new_transaction ::
  "('k, 'r) transactions \<Rightarrow> int \<Rightarrow> string \<Rightarrow> string \<Rightarrow> query \<Rightarrow> 'k built_request \<Rightarrow> string \<Rightarrow> bool \<Rightarrow> ('k, 'r) transaction" where
  "new_transaction t now i state q built browserBinding sameDevice =
     \<lparr> tx_ID = i, tx_KeyID = br_KeyID built, tx_State = state, tx_Nonce = br_Nonce built, tx_Query = q,
       tx_ResponseDecryptionKey = br_Key built, tx_RequestObject = br_RequestObject built, tx_Origin = [],
       tx_MdocEncryptionInfo = [], tx_Owner = t_owner t,
       tx_BrowserBindingHash = dep t d_sha256 (bytes_of browserBinding), tx_SameDevice = sameDevice,
       tx_ExpiresAt = fst (expiry (t_cfg t) now), tx_RetainUntil = snd (expiry (t_cfg t) now),
       tx_Status = TransactionPending, tx_ResponseCodeHash = [], tx_Result = None, tx_LastError = [] \<rparr>"

definition begin_tx ::
  "('k, 'r) transactions \<Rightarrow> int \<Rightarrow> nat list option \<Rightarrow> nat list option \<Rightarrow> query \<Rightarrow> string \<Rightarrow> bool
     \<Rightarrow> tx_error + ('k, 'r) transaction" where
  "begin_tx t now rnd rnd' q browserBinding sameDevice =
     (if length browserBinding < MinBrowserBindingLength then Inl (OtherError ''a browser binding of at least 16 bytes is required'')
      else if conf t tc_RequestURIBase = [] then Inl (OtherError ''Begin needs TransactionsConfig.RequestURIBase'')
      else if sameDevice \<and> conf t tc_RedirectURI = [] then Inl (OtherError ''a same-device request needs TransactionsConfig.RedirectURI'')
      else (case checkVerifies (t_cfg t) q of
          Some e \<Rightarrow> Inl e
        | None \<Rightarrow>
            rbind (randomToken rnd) (\<lambda>i.
            rbind (randomToken rnd') (\<lambda>secret.
              (let state = i @ stateSeparator @ secret in
               rbind (dep t d_build q state) (\<lambda>built.
                 Inr (new_transaction t now i state q built browserBinding sameDevice)))))))"

definition Begin ::
  "('k, 'r, 's) store_ops \<Rightarrow> ('k, 'r) transactions \<Rightarrow> int \<Rightarrow> nat list option \<Rightarrow> nat list option \<Rightarrow> query \<Rightarrow> string \<Rightarrow> bool
     \<Rightarrow> 32 word \<times> 's \<Rightarrow> (tx_error + begun) \<times> 32 word \<times> 's" where
  "Begin ops t now rnd rnd' q browserBinding sameDevice ks =
     (case begin_tx t now rnd rnd' q browserBinding sameDevice of
        Inl e \<Rightarrow> (Inl e, ks)
      | Inr tx \<Rightarrow>
          (case tx_create ops now tx ks of
             (Some e, ks) \<Rightarrow> (Inl e, ks)
           | (None, ks) \<Rightarrow>
               (Inr \<lparr> bg_ID = tx_ID tx,
                      bg_Link = ''openid4vp://?'' @ dep t d_encodeQuery
                        [(''client_id'', dep t d_clientID), (''request_uri'', conf t tc_RequestURIBase @ ''/'' @ tx_ID tx)] \<rparr>, ks)))"

definition checkDCAPIOrigin :: "('k, 'r) transactions \<Rightarrow> string \<Rightarrow> tx_error option" where
  "checkDCAPIOrigin t origin =
     (if conf t tc_Origins \<noteq> [] then
        (if origin \<notin> set (conf t tc_Origins) then Some (OtherError ''origin isn't one of TransactionsConfig.Origins'') else None)
      else if t_Production t then Some (OtherError ''BeginDCAPI needs TransactionsConfig.Origins'')
      else dep t d_checkPage origin True)"

record begun_dcapi =
  bd_ID :: string
  bd_Protocol :: string
  bd_Request :: string

definition begin_dcapi_tx ::
  "('k, 'r) transactions \<Rightarrow> int \<Rightarrow> nat list option \<Rightarrow> query \<Rightarrow> string \<Rightarrow> string \<Rightarrow> tx_error + ('k, 'r) transaction \<times> string" where
  "begin_dcapi_tx t now rnd q browserBinding origin =
     (if length browserBinding < MinBrowserBindingLength then Inl (OtherError ''a browser binding of at least 16 bytes is required'')
      else (let origin = dep t d_normalizeOrigin origin in
        (case and_then (checkDCAPIOrigin t origin) (checkVerifies (t_cfg t) q) of
           Some e \<Rightarrow> Inl e
         | None \<Rightarrow>
             rbind (randomToken rnd) (\<lambda>i.
             rbind (dep t d_buildDCAPI q [origin]) (\<lambda>built.
               Inr ((new_transaction t now i [] q built browserBinding False)
                      \<lparr> tx_KeyID := [], tx_RequestObject := [], tx_Origin := origin \<rparr>, br_RequestObject built))))))"

definition BeginDCAPI ::
  "('k, 'r, 's) store_ops \<Rightarrow> ('k, 'r) transactions \<Rightarrow> int \<Rightarrow> nat list option \<Rightarrow> query \<Rightarrow> string \<Rightarrow> string
     \<Rightarrow> 32 word \<times> 's \<Rightarrow> (tx_error + begun_dcapi) \<times> 32 word \<times> 's" where
  "BeginDCAPI ops t now rnd q browserBinding origin ks =
     (case begin_dcapi_tx t now rnd q browserBinding origin of
        Inl e \<Rightarrow> (Inl e, ks)
      | Inr (tx, request) \<Rightarrow>
          (case tx_create ops now tx ks of
             (Some e, ks) \<Rightarrow> (Inl e, ks)
           | (None, ks) \<Rightarrow> (Inr \<lparr> bd_ID = tx_ID tx, bd_Protocol = ''openid4vp-v1-signed'', bd_Request = request \<rparr>, ks)))"

definition RequestObject ::
  "('k, 'r, 's) store_ops \<Rightarrow> ('k, 'r) transactions \<Rightarrow> int \<Rightarrow> string \<Rightarrow> 's \<Rightarrow> tx_error + string" where
  "RequestObject ops t now i s =
     rbind (tx_get ops t i s) (\<lambda>tx.
       if tx_Origin tx \<noteq> [] then Inl ErrTransactionUnknown
       else if \<not> now < tx_ExpiresAt tx then Inl ErrTransactionExpired
       else Inr (tx_RequestObject tx))"

section \<open>Reading an answer\<close>

definition ResponseKeyID :: "('k, 'r) deps \<Rightarrow> string \<Rightarrow> tx_error + string" where
  "ResponseKeyID d responseJWE =
     (case d_jweHeader d responseJWE of
        None \<Rightarrow> Inl (VerifyError ReasonMalformed ''response key id'')
      | Some header \<Rightarrow>
          (case gm_get header ''kid'' of
             Some (GStr kid) \<Rightarrow>
               (if kid = [] then Inl (VerifyError ReasonMalformed ''response key id: the JWE header has no kid'') else Inr kid)
           | _ \<Rightarrow> Inl (VerifyError ReasonMalformed ''response key id: the JWE header has no kid'')))"

definition header_enc :: "(string \<times> goval) list \<Rightarrow> string" where
  "header_enc header = (case gm_get header ''enc'' of Some (GStr e) \<Rightarrow> e | _ \<Rightarrow> [])"

definition ParseDirectPostJWTResponse ::
  "('k, 'r) deps \<Rightarrow> string \<Rightarrow> 'k option \<Rightarrow> tx_error + parsed_response" where
  "ParseDirectPostJWTResponse d responseJWE decryptionKey =
     (case decryptionKey of
        None \<Rightarrow> Inl (OtherError ''a decryption key is required'')
      | Some key \<Rightarrow>
          (case d_jweHeader d responseJWE of
             None \<Rightarrow> Inl (VerifyError ReasonMalformed ''decode header'')
           | Some header \<Rightarrow>
               (if \<not> Option.is_none (gm_get header ''zip'') then Inl (VerifyError ReasonMalformed ''a compressed (zip) response is not accepted'')
                else if header_enc header \<notin> set (d_encValues d)
                then Inl (VerifyError ReasonMalformed ''its enc isn't one this Verifier offered'')
                else (case d_jweDecrypt d key responseJWE of
                    None \<Rightarrow> Inl (VerifyError ReasonMalformed ''decrypt'')
                  | Some plaintext \<Rightarrow>
                      (case d_answer d plaintext of
                         None \<Rightarrow> Inl (VerifyError ReasonMalformed ''unmarshal'')
                       | Some wire \<Rightarrow>
                           (if aw_Error wire \<noteq> [] then
                              Inl (WalletError \<lparr> re_Code = aw_Error wire, re_Description = aw_ErrorDescription wire, re_State = aw_State wire \<rparr>)
                            else if aw_VPToken wire = [] then Inl (VerifyError ReasonMalformed ''vp_token is missing or empty'')
                            else Inr \<lparr> pr_VPToken = aw_VPToken wire, pr_State = aw_State wire \<rparr>))))))"

definition acceptVerified :: "('k, 'r) transactions \<Rightarrow> ('k, 'r) transaction \<Rightarrow> 'r \<Rightarrow> tx_error + 'r" where
  "acceptVerified t tx result =
     (case (case dep t d_status of None \<Rightarrow> None | Some check \<Rightarrow> check result) of
        Some e \<Rightarrow> Inl (AcceptError e)
      | None \<Rightarrow>
          (case (case dep t d_accept of None \<Rightarrow> None | Some accept \<Rightarrow> accept (tx_ID tx) result) of
             Some e \<Rightarrow> Inl (AcceptError e)
           | None \<Rightarrow> Inr result))"

definition verifyParsed :: "('k, 'r) transactions \<Rightarrow> ('k, 'r) transaction \<Rightarrow> parsed_response \<Rightarrow> tx_error + 'r" where
  "verifyParsed t tx parsed =
     rbind (dep t d_verifyResponse (tx_Query tx) parsed (tx_Nonce tx) (tx_ResponseDecryptionKey tx) (tx_Origin tx))
       (acceptVerified t tx)"

definition state_mismatch :: tx_error where
  "state_mismatch = VerifyError ReasonStateMismatch ''the response's state doesn't match the request''"

definition tx_verify :: "('k, 'r) transactions \<Rightarrow> ('k, 'r) transaction \<Rightarrow> string \<Rightarrow> tx_error + 'r" where
  "tx_verify t tx responseJWE =
     (case ParseDirectPostJWTResponse (t_deps t) responseJWE (tx_ResponseDecryptionKey tx) of
        Inl e \<Rightarrow>
          (case wallet_error e of
             Some w \<Rightarrow> (if re_State w \<noteq> tx_State tx then Inl state_mismatch else Inl e)
           | None \<Rightarrow> Inl e)
      | Inr parsed \<Rightarrow> (if pr_State parsed \<noteq> tx_State tx then Inl state_mismatch else verifyParsed t tx parsed))"

section \<open>Answering\<close>

record answered =
  an_ID :: string
  an_RedirectURI :: string

definition no_answer :: answered where
  "no_answer = \<lparr> an_ID = [], an_RedirectURI = [] \<rparr>"

fun is_outcome :: "tx_error \<Rightarrow> bool" where
  "is_outcome ErrTransactionUnknown = True"
| "is_outcome ErrTransactionExpired = True"
| "is_outcome ErrTransactionAnswered = True"
| "is_outcome ErrTransactionClosed = True"
| "is_outcome (NotPending e w) = is_outcome e"
| "is_outcome (ServerFault e) = is_outcome e"
| "is_outcome _ = False"

fun is_fault :: "tx_error \<Rightarrow> bool" where
  "is_fault (ServerFault e) = True"
| "is_fault (NotPending e w) = is_fault e"
| "is_fault _ = False"

definition storeFault :: "tx_error \<Rightarrow> tx_error" where
  "storeFault e = (if is_outcome e then e else if is_fault e then e else ServerFault e)"

definition recordFailure ::
  "('k, 'r, 's) store_ops \<Rightarrow> ('k, 'r) transactions \<Rightarrow> string \<Rightarrow> tx_error \<Rightarrow> 's \<Rightarrow> 's" where
  "recordFailure ops t i cause s = snd (tx_update ops t i (record_failure t cause) s)"

definition error_redirect :: "('k, 'r) transactions \<Rightarrow> string \<Rightarrow> string \<Rightarrow> answered" where
  "error_redirect t i code =
     \<lparr> an_ID = i, an_RedirectURI = dep t d_withQuery (conf t tc_RedirectURI) ''error'' (errorCodeOf code) \<rparr>"

definition answerNotPending ::
  "('k, 'r) transactions \<Rightarrow> ('k, 'r) transaction \<Rightarrow> string \<Rightarrow> tx_error \<Rightarrow> answered \<times> tx_error option" where
  "answerNotPending t tx responseJWE notPending =
     (case (case ParseDirectPostJWTResponse (t_deps t) responseJWE (tx_ResponseDecryptionKey tx) of
              Inl e \<Rightarrow> wallet_error e | Inr _ \<Rightarrow> None) of
        None \<Rightarrow> (no_answer, Some notPending)
      | Some w \<Rightarrow>
          (if re_State w \<noteq> tx_State tx then (no_answer, Some notPending)
           else (if tx_SameDevice tx then error_redirect t (tx_ID tx) (re_Code w) else no_answer, Some (NotPending notPending w))))"

definition answer_refused ::
  "('k, 'r) transactions \<Rightarrow> string \<Rightarrow> ('k, 'r) transaction \<Rightarrow> tx_error \<Rightarrow> answered \<times> tx_error option" where
  "answer_refused t i tx e =
     (case wallet_error e of
        Some w \<Rightarrow> (if tx_SameDevice tx then error_redirect t i (re_Code w) else no_answer, Some e)
      | None \<Rightarrow> (no_answer, Some e))"

definition HandleResponse ::
  "('k, 'r, 's) store_ops \<Rightarrow> ('k, 'r) transactions \<Rightarrow> int \<Rightarrow> int \<Rightarrow> nat list option \<Rightarrow> ('s \<Rightarrow> 's) \<Rightarrow> string \<Rightarrow> 's
     \<Rightarrow> (answered \<times> tx_error option) \<times> 's" where
  "HandleResponse ops t now now' rnd others responseJWE s =
     (case ResponseKeyID (t_deps t) responseJWE of
        Inl e \<Rightarrow> ((no_answer, Some e), s)
      | Inr kid \<Rightarrow>
          (case ts_IDByKeyID ops kid s of
             Inl e \<Rightarrow> ((no_answer, Some (storeFault e)), s)
           | Inr i \<Rightarrow>
               (case tx_get ops t i s of
                  Inl e \<Rightarrow> ((no_answer, Some (storeFault e)), s)
                | Inr tx \<Rightarrow>
                    (if tx_Origin tx \<noteq> [] then ((no_answer, Some ErrTransactionUnknown), s)
                     else (case checkPending now tx of
                         Some e \<Rightarrow> (answerNotPending t tx responseJWE e, s)
                       | None \<Rightarrow>
                           (let s = others s in
                            (case tx_verify t tx responseJWE of
                               Inl e \<Rightarrow> (answer_refused t i tx e, recordFailure ops t i e s)
                             | Inr result \<Rightarrow>
                                 (case (if tx_SameDevice tx then randomToken rnd else Inr []) of
                                    Inl e \<Rightarrow> ((no_answer, Some (ServerFault e)), s)
                                  | Inr code \<Rightarrow>
                                      (case tx_update ops t i (complete_answer t now' result code) s of
                                         (Inl e, s) \<Rightarrow> ((no_answer, Some (storeFault e)), s)
                                       | (Inr _, s) \<Rightarrow>
                                           ((\<lparr> an_ID = i, an_RedirectURI =
                                                 (if tx_SameDevice tx
                                                  then dep t d_withQuery (conf t tc_RedirectURI) ''response_code'' code
                                                  else []) \<rparr>, None), s))))))))))"

text \<open>\<open>strings.Cut\<close> at the separator.\<close>

definition cut_state :: "string \<Rightarrow> string option" where
  "cut_state state =
     (if CHR ''.'' \<in> set state then Some (takeWhile (\<lambda>c. c \<noteq> CHR ''.'') state) else None)"

definition HandleUnencryptedError ::
  "('k, 'r, 's) store_ops \<Rightarrow> ('k, 'r) transactions \<Rightarrow> int \<Rightarrow> string \<Rightarrow> string \<Rightarrow> 's \<Rightarrow> answered \<times> 's" where
  "HandleUnencryptedError ops t now code state s =
     (case cut_state state of
        None \<Rightarrow> (no_answer, s)
      | Some i \<Rightarrow>
          (if i = [] then (no_answer, s)
           else (case tx_get ops t i s of
               Inl e \<Rightarrow> (no_answer, s)
             | Inr tx \<Rightarrow>
                 (if tx_Origin tx \<noteq> [] \<or> state \<noteq> tx_State tx then (no_answer, s)
                  else (let w = \<lparr> re_Code = errorCodeOf code, re_Description = [], re_State = [] \<rparr>;
                            s = (if checkPending now tx = None then recordFailure ops t i (WalletError w) s else s)
                        in (if \<not> tx_SameDevice tx then \<lparr> an_ID = i, an_RedirectURI = [] \<rparr>
                            else \<lparr> an_ID = i, an_RedirectURI =
                              dep t d_withQuery (conf t tc_RedirectURI) ''error'' (re_Code w) \<rparr>, s))))))"

text \<open>\<open>ResponseHandler\<close>'s replies, and the branch it takes for a POST whose form parsed: the form's
  \<open>response\<close>, \<open>error\<close> and \<open>state\<close>.\<close>

datatype reply = ReplyOK string | ReplyRefused | ReplyServerError

definition reply_of :: "answered \<times> tx_error option \<Rightarrow> reply" where
  "reply_of a =
     (case a of (answered, err) \<Rightarrow>
        (case err of
           None \<Rightarrow> ReplyOK (an_RedirectURI answered)
         | Some e \<Rightarrow>
             (if wallet_error e \<noteq> None then ReplyOK (an_RedirectURI answered)
              else if is_fault e then ReplyServerError
              else ReplyRefused)))"

definition ResponseHandler ::
  "('k, 'r, 's) store_ops \<Rightarrow> ('k, 'r) transactions \<Rightarrow> int \<Rightarrow> int \<Rightarrow> nat list option \<Rightarrow> ('s \<Rightarrow> 's)
     \<Rightarrow> string \<Rightarrow> string \<Rightarrow> string \<Rightarrow> 's \<Rightarrow> reply \<times> 's" where
  "ResponseHandler ops t now now' rnd others response error state s =
     (if response = [] \<and> error \<noteq> []
      then (case HandleUnencryptedError ops t now error state s of (a, s) \<Rightarrow> (ReplyOK (an_RedirectURI a), s))
      else (case HandleResponse ops t now now' rnd others response s of (a, s) \<Rightarrow> (reply_of a, s)))"

section \<open>Releasing a result\<close>

text \<open>What an operation returns of its update; one that captures nothing (none of the callers') would leave the
  zero view.\<close>

definition view_of_captured :: "tx_error + 'r captured \<Rightarrow> tx_error + 'r view" where
  "view_of_captured r =
     (case r of
        Inl e \<Rightarrow> Inl e
      | Inr (Released v) \<Rightarrow> Inr v
      | Inr WrongBrowser \<Rightarrow> Inl ErrWrongBrowser
      | Inr NoCapture \<Rightarrow> Inr \<lparr> tv_ID = [], tv_Status = TransactionPending, tv_Result = None, tv_LastError = [] \<rparr>)"

definition Redeem ::
  "('k, 'r, 's) store_ops \<Rightarrow> ('k, 'r) transactions \<Rightarrow> int \<Rightarrow> ('s \<Rightarrow> 's) \<Rightarrow> string \<Rightarrow> string \<Rightarrow> 's \<Rightarrow> (tx_error + 'r view) \<times> 's" where
  "Redeem ops t now others responseCode browserBinding s =
     (if responseCode = [] then (Inl ErrTransactionUnknown, s)
      else (let codeHash = hashToken (t_deps t) responseCode in
        (case ts_IDByResponseCode ops codeHash s of
           Inl e \<Rightarrow> (Inl e, s)
         | Inr i \<Rightarrow>
             (case tx_update ops t i (redeem_code t now codeHash browserBinding) (others s) of
                (r, s) \<Rightarrow> (view_of_captured r, s)))))"

definition takeResult ::
  "('k, 'r, 's) store_ops \<Rightarrow> ('k, 'r) transactions \<Rightarrow> string \<Rightarrow> 's \<Rightarrow> (tx_error + 'r view) \<times> 's" where
  "takeResult ops t i s =
     (case tx_update ops t i (take_result t) s of (r, s) \<Rightarrow> (view_of_captured r, s))"

definition lookup_status :: "transactions_config \<Rightarrow> int \<Rightarrow> ('k, 'r) transaction \<Rightarrow> TransactionStatus" where
  "lookup_status cfg now tx =
     (let status = tx_Status tx in
      if (status = TransactionPending \<or> status = TransactionAwaitingRedirect) \<and> \<not> now < tx_ExpiresAt tx then TransactionExpired
      else if status = TransactionDone \<and> \<not> now < tx_ExpiresAt tx + tc_Lifetime cfg then TransactionExpired
      else status)"

definition Lookup ::
  "('k, 'r, 's) store_ops \<Rightarrow> ('k, 'r) transactions \<Rightarrow> int \<Rightarrow> ('s \<Rightarrow> 's) \<Rightarrow> string \<Rightarrow> string \<Rightarrow> 's \<Rightarrow> (tx_error + 'r view) \<times> 's" where
  "Lookup ops t now others i browserBinding s =
     (case tx_get ops t i s of
        Inl e \<Rightarrow> (Inl e, s)
      | Inr tx \<Rightarrow>
          (if \<not> bindingMatches (t_deps t) (tx_BrowserBindingHash tx) browserBinding then (Inl ErrWrongBrowser, s)
           else (let status = lookup_status (t_cfg t) now tx in
             if status = TransactionDone \<and> conf t tc_ForgetResultOnRead then takeResult ops t i (others s)
             else (Inr (viewOf tx status), s))))"

definition Close :: "('k, 'r, 's) store_ops \<Rightarrow> ('k, 'r) transactions \<Rightarrow> string \<Rightarrow> 's \<Rightarrow> tx_error option \<times> 's" where
  "Close ops t i s =
     (case tx_update ops t i close_tx s of (Inl e, s) \<Rightarrow> (Some e, s) | (Inr _, s) \<Rightarrow> (None, s))"

definition Forget :: "('k, 'r, 's) store_ops \<Rightarrow> ('k, 'r) transactions \<Rightarrow> string \<Rightarrow> 's \<Rightarrow> tx_error option \<times> 's" where
  "Forget ops t i s =
     (case tx_update ops t i forget_tx s of (Inl e, s) \<Rightarrow> (Some e, s) | (Inr _, s) \<Rightarrow> (None, s))"

definition handlePageAnswer ::
  "('k, 'r, 's) store_ops \<Rightarrow> ('k, 'r) transactions \<Rightarrow> int \<Rightarrow> int \<Rightarrow> ('s \<Rightarrow> 's) \<Rightarrow> string \<Rightarrow> string \<Rightarrow> bool
     \<Rightarrow> (('k, 'r) transaction \<Rightarrow> tx_error + 'r) \<Rightarrow> 's \<Rightarrow> (tx_error + 'r view) \<times> 's" where
  "handlePageAnswer ops t now now' others i browserBinding mdocRequest verify s =
     (case tx_get ops t i s of
        Inl e \<Rightarrow> (Inl (storeFault e), s)
      | Inr tx \<Rightarrow>
          (if tx_Origin tx = [] \<or> (tx_MdocEncryptionInfo tx \<noteq> []) \<noteq> mdocRequest then (Inl ErrTransactionUnknown, s)
           else if \<not> bindingMatches (t_deps t) (tx_BrowserBindingHash tx) browserBinding then (Inl ErrWrongBrowser, s)
           else (case checkPending now tx of
               Some e \<Rightarrow> (Inl e, s)
             | None \<Rightarrow>
                 (let s = others s in
                  (case verify tx of
                     Inl e \<Rightarrow> (Inl e, recordFailure ops t i e s)
                   | Inr result \<Rightarrow>
                       (case tx_update ops t i (complete_page_answer t now' result) s of
                          (Inl e, s) \<Rightarrow> (Inl (storeFault e), s)
                        | (Inr c, s) \<Rightarrow> (view_of_captured (Inr c), s)))))))"

text \<open>Twice a JWE's largest size, and room for what carries it.\<close>

definition MaxDCAPIResponseBytes :: nat where
  "MaxDCAPIResponseBytes = 2 * 1048576 + 4096"

definition verifyDCAPI :: "('k, 'r) transactions \<Rightarrow> string \<Rightarrow> ('k, 'r) transaction \<Rightarrow> tx_error + 'r" where
  "verifyDCAPI t data tx =
     (if length data > MaxDCAPIResponseBytes
      then Inl (VerifyError ReasonMalformed ''the Digital Credentials API response is too long'')
      else (case dep t d_dcapiAnswer data of
          None \<Rightarrow> Inl (VerifyError ReasonMalformed ''the Digital Credentials API response isn't a JSON object'')
        | Some answer \<Rightarrow>
            (if dw_Response answer = [] \<and> dw_Error answer \<noteq> []
             then Inl (WalletError \<lparr> re_Code = dw_Error answer, re_Description = [], re_State = [] \<rparr>)
             else if dw_Response answer = []
             then Inl (VerifyError ReasonMalformed ''the Digital Credentials API response has neither response nor error'')
             else rbind (ParseDirectPostJWTResponse (t_deps t) (dw_Response answer) (tx_ResponseDecryptionKey tx))
                    (verifyParsed t tx))))"

definition HandleDCAPIResponse ::
  "('k, 'r, 's) store_ops \<Rightarrow> ('k, 'r) transactions \<Rightarrow> int \<Rightarrow> int \<Rightarrow> ('s \<Rightarrow> 's) \<Rightarrow> string \<Rightarrow> string \<Rightarrow> string \<Rightarrow> 's
     \<Rightarrow> (tx_error + 'r view) \<times> 's" where
  "HandleDCAPIResponse ops t now now' others i browserBinding data s =
     handlePageAnswer ops t now now' others i browserBinding False (verifyDCAPI t data) s"

end
