(* ===== verification/Tx_Life.thy ===== *)
theory Tx_Life
  imports Transactions
begin

text \<open>
  The life of a presentation request: the updates of \<open>Transactions\<close> as atomic steps on a shared store,
  in any order and by any number of \<open>Transactions\<close>, an abstract life cycle they refine, and what follows:
  a request completes at most once, a result is released at most once where it is forgotten on its first read,
  only to the browser that asked, no refused answer cancels a request, and no reply tells whether one has been answered.
\<close>

section \<open>Calls on a shared store\<close>

datatype ('k, 'r) tx_call =
    CallCreate int "('k, 'r) transaction"
  | CallAnswer "('k, 'r) transactions" string int 'r string
  | CallPage "('k, 'r) transactions" string int 'r
  | CallFail "('k, 'r) transactions" string tx_error
  | CallRedeem "('k, 'r) transactions" string int string string
  | CallTake "('k, 'r) transactions" string
  | CallClose "('k, 'r) transactions" string
  | CallForget "('k, 'r) transactions" string

datatype 'r tx_outcome = Created "tx_error option" | Updated "tx_error + 'r captured"

text \<open>The transaction a call is about and the function it gives \<open>Update\<close>.\<close>

fun call_target :: "('k, 'r) tx_call \<Rightarrow> string" where
  "call_target (CallCreate now tx) = tx_ID tx"
| "call_target (CallAnswer t i now result code) = i"
| "call_target (CallPage t i now result) = i"
| "call_target (CallFail t i cause) = i"
| "call_target (CallRedeem t i now codeHash binding) = i"
| "call_target (CallTake t i) = i"
| "call_target (CallClose t i) = i"
| "call_target (CallForget t i) = i"

fun call_update :: "('k, 'r) tx_call \<Rightarrow> ('k, 'r) tx_update" where
  "call_update (CallCreate now tx) = (\<lambda>cur. Inl ErrTransactionUnknown)"
| "call_update (CallAnswer t i now result code) = owned t (complete_answer t now result code)"
| "call_update (CallPage t i now result) = owned t (complete_page_answer t now result)"
| "call_update (CallFail t i cause) = owned t (record_failure t cause)"
| "call_update (CallRedeem t i now codeHash binding) = owned t (redeem_code t now codeHash binding)"
| "call_update (CallTake t i) = owned t (take_result t)"
| "call_update (CallClose t i) = owned t close_tx"
| "call_update (CallForget t i) = owned t forget_tx"

fun is_create :: "('k, 'r) tx_call \<Rightarrow> bool" where
  "is_create (CallCreate now tx) = True"
| "is_create _ = False"

definition tx_step :: "('k, 'r, 's) store_ops \<Rightarrow> ('k, 'r) tx_call \<Rightarrow> 's \<Rightarrow> 'r tx_outcome \<times> 's" where
  "tx_step ops c s =
     (case c of
        CallCreate now tx \<Rightarrow> (case ts_Create ops now tx s of (r, s) \<Rightarrow> (Created r, s))
      | _ \<Rightarrow> (case ts_Update ops (call_target c) (call_update c) s of (r, s) \<Rightarrow> (Updated r, s)))"

lemma tx_step_create: "tx_step ops (CallCreate now tx) s = (case ts_Create ops now tx s of (r, s) \<Rightarrow> (Created r, s))"
  by (simp add: tx_step_def)

lemma tx_step_update:
  "\<not> is_create c \<Longrightarrow> tx_step ops c s = (case ts_Update ops (call_target c) (call_update c) s of (r, s) \<Rightarrow> (Updated r, s))"
  by (cases c) (simp_all add: tx_step_def)

section \<open>The life cycle\<close>

datatype 'r life = Open | Held string 'r | Shown 'r | Ended

definition life_of :: "('k, 'r) transaction \<Rightarrow> 'r life" where
  "life_of tx =
     (case (tx_Status tx, tx_Result tx) of
        (TransactionPending, _) \<Rightarrow> Open
      | (TransactionAwaitingRedirect, Some r) \<Rightarrow> Held (tx_ResponseCodeHash tx) r
      | (TransactionDone, Some r) \<Rightarrow> Shown r
      | _ \<Rightarrow> Ended)"

text \<open>The steps, labelled with the result a step releases. A held result is the one later shown.\<close>

inductive life_step :: "'r life \<Rightarrow> 'r option \<Rightarrow> 'r life \<Rightarrow> bool" where
  stay: "life_step l None l"
| hold: "life_step Open None (Held h r)"
| answer: "life_step Open None (Shown r)"
| page: "life_step Open (Some r) (Shown r)"
| page_once: "life_step Open (Some r) Ended"
| redeem: "life_step (Held h r) (Some r) (Shown r)"
| redeem_once: "life_step (Held h r) (Some r) Ended"
| reread: "life_step (Shown r) (Some r) (Shown r)"
| reread_once: "life_step (Shown r) (Some r) Ended"
| drop: "life_step l None Ended"

inductive_cases life_step_EndedE: "life_step Ended x l"

text \<open>What a transaction's fields say together.\<close>

definition tx_wf :: "('k, 'r) transaction \<Rightarrow> bool" where
  "tx_wf tx =
     (case tx_Status tx of
        TransactionPending \<Rightarrow> tx_Result tx = None \<and> tx_ResponseCodeHash tx = []
      | TransactionAwaitingRedirect \<Rightarrow> tx_Result tx \<noteq> None
      | TransactionDone \<Rightarrow> tx_Result tx \<noteq> None \<and> tx_ResponseCodeHash tx = []
      | TransactionClosed \<Rightarrow> tx_Result tx = None \<and> tx_ResponseCodeHash tx = []
      | TransactionExpired \<Rightarrow> False)"

definition tx_fresh :: "('k, 'r) transaction \<Rightarrow> bool" where
  "tx_fresh tx = (tx_Status tx = TransactionPending \<and> tx_Result tx = None \<and> tx_ResponseCodeHash tx = [])"

text \<open>Everything but the progress stays.\<close>

definition same_request :: "('k, 'r) transaction \<Rightarrow> ('k, 'r) transaction \<Rightarrow> bool" where
  "same_request tx tx' = (\<exists>st h r e.
     tx' = tx \<lparr> tx_Status := st, tx_ResponseCodeHash := h, tx_Result := r, tx_LastError := e \<rparr>)"

definition captured_result :: "'r captured \<Rightarrow> 'r option" where
  "captured_result c = (case c of Released v \<Rightarrow> tv_Result v | _ \<Rightarrow> None)"

lemmas update_defs = owned_def complete_answer_def complete_page_answer_def record_failure_def redeem_code_def
  take_result_def close_tx_def forget_tx_def forget_def release_def checkPending_def

lemma same_request_refl: "same_request tx tx"
  unfolding same_request_def
  by (rule exI [of _ "tx_Status tx"], rule exI [of _ "tx_ResponseCodeHash tx"], rule exI [of _ "tx_Result tx"],
    rule exI [of _ "tx_LastError tx"]) simp

text \<open>One update, whichever: it keeps the request and its well-formedness, and is a step of the life cycle.\<close>

lemma call_update_request:
  "call_update c tx = Inr (tx', x) \<Longrightarrow> same_request tx tx'"
  unfolding same_request_def
  by (cases c; cases tx) (auto simp: update_defs Let_def split: if_splits option.splits)

lemma call_update_wf:
  "call_update c tx = Inr (tx', x) \<Longrightarrow> tx_wf tx \<Longrightarrow> tx_wf tx'"
  by (cases c) (auto simp: update_defs Let_def tx_wf_def split: if_splits option.splits TransactionStatus.splits)

lemma call_update_life:
  assumes "call_update c tx = Inr (tx', x)" and "tx_wf tx"
  shows "life_step (life_of tx) (captured_result x) (life_of tx')"
  using assms
  by (cases c; cases "tx_Status tx")
    (auto simp: update_defs Let_def tx_wf_def life_of_def captured_result_def viewOf_def
      intro: life_step.intros split: if_splits option.splits)

lemma same_request_id: "same_request tx tx' \<Longrightarrow> tx_ID tx' = tx_ID tx"
  by (auto simp: same_request_def)

definition stored_ok :: "('s \<Rightarrow> string \<Rightarrow> ('k, 'r) transaction option) \<Rightarrow> 's \<Rightarrow> bool" where
  "stored_ok lookup s = (\<forall>i tx. lookup s i = Some tx \<longrightarrow> tx_ID tx = i \<and> tx_wf tx)"

fun call_ok :: "('k, 'r) tx_call \<Rightarrow> bool" where
  "call_ok (CallCreate now tx) = tx_fresh tx"
| "call_ok _ = True"

definition step_release :: "string \<Rightarrow> ('k, 'r) tx_call \<Rightarrow> 'r tx_outcome \<Rightarrow> 'r option" where
  "step_release i c r =
     (if call_target c = i then (case r of Updated (Inr x) \<Rightarrow> captured_result x | _ \<Rightarrow> None) else None)"

section \<open>Budgets\<close>

definition completes :: "string \<Rightarrow> ('k, 'r) tx_call \<Rightarrow> 'r tx_outcome \<Rightarrow> bool" where
  "completes i c r =
     (call_target c = i \<and> (case c of CallAnswer _ _ _ _ _ \<Rightarrow> True | CallPage _ _ _ _ \<Rightarrow> True | _ \<Rightarrow> False) \<and>
      (case r of Updated (Inr x) \<Rightarrow> True | _ \<Rightarrow> False))"

definition creates :: "string \<Rightarrow> ('k, 'r) tx_call \<Rightarrow> nat" where
  "creates i c = (if is_create c \<and> call_target c = i then 1 else 0)"

definition open_left :: "('s \<Rightarrow> string \<Rightarrow> ('k, 'r) transaction option) \<Rightarrow> string \<Rightarrow> 's \<Rightarrow> nat" where
  "open_left lookup i s =
     (case lookup s i of None \<Rightarrow> 0 | Some tx \<Rightarrow> if tx_Status tx = TransactionPending then 1 else 0)"

definition releases :: "string \<Rightarrow> ('k, 'r) tx_call \<Rightarrow> 'r tx_outcome \<Rightarrow> bool" where
  "releases i c r = (step_release i c r \<noteq> None)"

fun forgets :: "('k, 'r) tx_call \<Rightarrow> bool" where
  "forgets (CallPage t i now result) = conf t tc_ForgetResultOnRead"
| "forgets (CallRedeem t i now codeHash binding) = conf t tc_ForgetResultOnRead"
| "forgets (CallTake t i) = conf t tc_ForgetResultOnRead"
| "forgets _ = True"

definition release_gain :: "string \<Rightarrow> ('k, 'r) tx_call \<Rightarrow> nat" where
  "release_gain i c = (if is_create c \<and> call_target c = i \<or> \<not> forgets c then 1 else 0)"

definition release_left :: "('s \<Rightarrow> string \<Rightarrow> ('k, 'r) transaction option) \<Rightarrow> string \<Rightarrow> 's \<Rightarrow> nat" where
  "release_left lookup i s =
     (case lookup s i of None \<Rightarrow> 0 | Some tx \<Rightarrow> if tx_Status tx = TransactionClosed then 0 else 1)"

lemma complete_update:
  assumes "call_update c tx = Inr (tx', x)"
  shows "(case c of CallAnswer _ _ _ _ _ \<Rightarrow> True | CallPage _ _ _ _ \<Rightarrow> True | _ \<Rightarrow> False) \<Longrightarrow>
      tx_Status tx = TransactionPending \<and> tx_Status tx' \<noteq> TransactionPending"
    and "tx_Status tx' = TransactionPending \<Longrightarrow> tx_Status tx = TransactionPending"
  using assms by (cases c; auto simp: update_defs Let_def split: if_splits option.splits)+

lemma release_update:
  assumes "call_update c tx = Inr (tx', x)"
  shows "captured_result x \<noteq> None \<Longrightarrow> tx_Status tx \<noteq> TransactionClosed \<and> (forgets c \<longrightarrow> tx_Status tx' = TransactionClosed)"
    and "tx_Status tx = TransactionClosed \<Longrightarrow> tx_Status tx' = TransactionClosed"
  using assms
  by (cases c; auto simp: update_defs Let_def captured_result_def viewOf_def split: if_splits option.splits)+

section \<open>Over any store of the interface\<close>

context transaction_store begin

text \<open>A step, as its effect on one stored transaction.\<close>

lemma step_cases:
  assumes "ok s" and "tx_step ops c s = (r, s')"
  obtains (created) now tx where "c = CallCreate now tx" "r = Created None" "lookup s (tx_ID tx) = None"
      "lookup s' (tx_ID tx) = Some tx" "\<And>i. i = tx_ID tx \<or> lookup s' i = lookup s i \<or> lookup s' i = None"
  | (kept) "\<And>i. lookup s' i = lookup s i \<or> lookup s' i = None" "(\<exists>e. r = Created (Some e)) \<or> (\<exists>e. r = Updated (Inl e))"
  | (updated) tx tx' x where "\<not> is_create c" "lookup s (call_target c) = Some tx" "call_update c tx = Inr (tx', x)"
      "r = Updated (Inr x)" "lookup s' = (lookup s)(call_target c \<mapsto> tx'\<lparr> tx_ID := call_target c \<rparr>)"
proof (cases "is_create c")
  case True
  then obtain now tx where c: "c = CallCreate now tx" by (cases c) auto
  with assms(2) obtain q where q: "ts_Create ops now tx s = (q, s')" "r = Created q"
    by (cases "ts_Create ops now tx s") (auto simp: tx_step_create)
  have keeps: "(q = None \<and> i = tx_ID tx) \<or> lookup s' i = lookup s i \<or> lookup s' i = None" for i
    by (rule create_keeps [OF assms(1) q(1)])
  show ?thesis
  proof (cases q)
    case None
    with create_saves [OF assms(1), of now tx s'] q have saves: "lookup s (tx_ID tx) = None \<and> lookup s' (tx_ID tx) = Some tx"
      by simp
    show ?thesis by (rule created [OF c]) (use None q saves keeps in auto)
  next
    case (Some e)
    show ?thesis by (rule kept) (use Some q keeps in auto)
  qed
next
  case False
  obtain q where q: "ts_Update ops (call_target c) (call_update c) s = (q, s')" "r = Updated q"
    using assms(2) by (cases "ts_Update ops (call_target c) (call_update c) s") (auto simp: tx_step_update [OF False])
  show ?thesis
  proof (cases q)
    case (Inl e)
    show ?thesis by (rule kept) (use Inl q update_fails [OF assms(1)] in auto)
  next
    case (Inr x)
    with update_saves [OF assms(1)] q obtain tx tx' where "lookup s (call_target c) = Some tx"
      "call_update c tx = Inr (tx', x)" "lookup s' = (lookup s)(call_target c \<mapsto> tx'\<lparr> tx_ID := call_target c \<rparr>)"
      by metis
    with False Inr q show ?thesis by (intro updated) auto
  qed
qed

lemma step_ok: "ok s \<Longrightarrow> tx_step ops c s = (r, s') \<Longrightarrow> ok s'"
  by (cases "is_create c"; cases c)
    (auto simp: tx_step_create tx_step_update dest: create_ok update_ok split: prod.splits)

lemma step_stored_ok:
  assumes "ok s" and "stored_ok lookup s" and "call_ok c" and "tx_step ops c s = (r, s')"
  shows "stored_ok lookup s'"
  using assms(1,4)
proof (cases rule: step_cases)
  case (created now tx)
  with assms(3) have "tx_wf tx" by (simp add: tx_fresh_def tx_wf_def)
  with created assms(2) show ?thesis unfolding stored_ok_def by (metis option.sel option.discI)
next
  case kept
  with assms(2) show ?thesis unfolding stored_ok_def by (metis option.discI)
next
  case (updated tx tx' x)
  then have "tx_ID tx = call_target c" "tx_wf tx" using assms(2) by (simp_all add: stored_ok_def)
  with call_update_request [OF updated(3)] call_update_wf [OF updated(3)]
  have "tx'\<lparr> tx_ID := call_target c \<rparr> = tx'" "tx_wf tx'" "tx_ID tx' = call_target c"
    by (auto dest: same_request_id)
  with updated assms(2) show ?thesis by (auto simp: stored_ok_def)
qed

lemma calls_stored_ok:
  assumes "ok s" and "stored_ok lookup s" and "\<forall>c \<in> set cs. call_ok c"
  shows "ok (calls_state (tx_step ops) cs s) \<and> stored_ok lookup (calls_state (tx_step ops) cs s)"
  using assms
proof (induction cs arbitrary: s)
  case (Cons c cs)
  obtain r s' where step: "tx_step ops c s = (r, s')" by (cases "tx_step ops c s")
  with Cons.prems step_stored_ok [of s c r s'] step_ok [of s c r s'] Cons.IH [of s'] show ?case by simp
qed simp

lemma step_refines_life:
  assumes "ok s" and "stored_ok lookup s" and "tx_step ops c s = (r, s')"
    and "lookup s i = Some tx" and "lookup s' i = Some tx'"
  shows "life_step (life_of tx) (step_release i c r) (life_of tx') \<and> same_request tx tx'"
  using assms(1,3)
proof (cases rule: step_cases)
  case (created now tx0)
  with assms(4,5) created(5) [of i] have "tx' = tx" "step_release i c r = None" by (auto simp: step_release_def)
  then show ?thesis by (auto intro: life_step.stay same_request_refl)
next
  case kept
  with assms(4,5) kept(1) [of i] have "tx' = tx" "step_release i c r = None" by (auto simp: step_release_def)
  then show ?thesis by (auto intro: life_step.stay same_request_refl)
next
  case (updated tx0 tx1 x)
  show ?thesis
  proof (cases "i = call_target c")
    case True
    with updated assms(2,4) have eq: "tx0 = tx" "tx_ID tx = i" "tx_wf tx" by (auto simp: stored_ok_def)
    with updated True call_update_request [OF updated(3)] assms(5) have "tx' = tx1"
      by (auto dest!: same_request_id)
    with call_update_life [OF updated(3)] call_update_request [OF updated(3)] eq updated(4) True
    show ?thesis by (auto simp: step_release_def)
  next
    case False
    with updated assms(4,5) have "tx' = tx" "step_release i c r = None" by (auto simp: step_release_def)
    then show ?thesis by (auto intro: life_step.stay same_request_refl)
  qed
qed

lemma budget_cases:
  assumes "ok s" and "tx_step ops c s = (r, s')"
  obtains (gained) "is_create c" "call_target c = i" "r = Created None" "lookup s i = None"
  | (kept) "lookup s' i = lookup s i \<or> lookup s' i = None"
      "call_target c \<noteq> i \<or> (\<exists>e. r = Created e) \<or> (\<exists>e. r = Updated (Inl e))"
  | (updated) tx tx' x where "call_target c = i" "lookup s i = Some tx" "call_update c tx = Inr (tx', x)"
      "r = Updated (Inr x)" "lookup s' i = Some (tx'\<lparr> tx_ID := i \<rparr>)"
  using assms
proof (cases rule: step_cases)
  case (created now tx)
  with created(5) [of i] show ?thesis by (cases "tx_ID tx = i") (auto intro: gained that(2))
next
  case kept
  show ?thesis by (rule that(2)) (use kept in auto)
next
  case (updated tx tx' x)
  then show ?thesis by (cases "call_target c = i") (auto intro: that(2) that(3))
qed

lemma completes_budget: "call_budget (tx_step ops) ok (completes i) (open_left lookup i) (creates i)"
proof
  show "ok s'" if "ok s" "tx_step ops c s = (r, s')" for s s' c r
    using step_ok that .
  show "open_left lookup i s' + (if completes i c r then 1 else 0) \<le> open_left lookup i s + creates i c"
    if "ok s" "tx_step ops c s = (r, s')" for s s' c r
    using that
  proof (cases rule: budget_cases [where i = i])
    case gained
    then show ?thesis by (auto simp: creates_def completes_def open_left_def split: option.splits)
  next
    case kept
    then show ?thesis by (auto simp: completes_def open_left_def split: option.splits)
  next
    case (updated tx tx' x)
    with complete_update [OF updated(3)] show ?thesis
      by (auto simp: completes_def open_left_def)
  qed
qed

lemma releases_budget: "call_budget (tx_step ops) ok (releases i) (release_left lookup i) (release_gain i)"
proof
  show "ok s'" if "ok s" "tx_step ops c s = (r, s')" for s s' c r
    using step_ok that .
  show "release_left lookup i s' + (if releases i c r then 1 else 0) \<le> release_left lookup i s + release_gain i c"
    if "ok s" "tx_step ops c s = (r, s')" for s s' c r
    using that
  proof (cases rule: budget_cases [where i = i])
    case gained
    then show ?thesis
      by (auto simp: release_gain_def releases_def step_release_def release_left_def split: option.splits)
  next
    case kept
    then show ?thesis
      by (auto simp: releases_def step_release_def release_left_def split: option.splits if_splits)
  next
    case (updated tx tx' x)
    with release_update [OF updated(3)] show ?thesis
      by (auto simp: releases_def step_release_def release_left_def release_gain_def)
  qed
qed

end

end
