(* ===== verification/Tx_Props.thy ===== *)
theory Tx_Props
  imports Tx_Life
begin

text \<open>
  The properties of presentation transactions over the store in memory: the life cycle of
  \<open>Tx_Life\<close> for it, each operation as one step on it, to whom a result goes, what a reply tells, and that
  refused answers don't end a request.
\<close>

section \<open>Operations as steps\<close>

lemma update_as_step:
  "\<not> is_create c \<Longrightarrow> call_target c = i \<Longrightarrow> call_update c = owned t fn \<Longrightarrow>
     snd (tx_update ops t i fn s) = snd (tx_step ops c s)"
  by (simp add: tx_step_update tx_update_def split: prod.splits)

text \<open>What an operation does to the store: nothing, or one step on what others left of it.\<close>

definition one_step :: "('k, 'r, 's) store_ops \<Rightarrow> 's \<Rightarrow> 's \<Rightarrow> 's \<Rightarrow> bool" where
  "one_step ops s s1 s' = (s' = s \<or> s' = s1 \<or> (\<exists>c. \<not> is_create c \<and> s' = snd (tx_step ops c s1)))"

lemma one_stepI: "\<not> is_create c \<Longrightarrow> s' = snd (tx_step ops c s1) \<Longrightarrow> one_step ops s s1 s'"
  by (auto simp: one_step_def)

lemma one_step_none: "one_step ops s s1 s" "one_step ops s s1 s1"
  by (simp_all add: one_step_def)

lemma one_step_update:
  "call_update c = owned t fn \<Longrightarrow> \<not> is_create c \<Longrightarrow>
     one_step ops s s1 (snd (tx_update ops t (call_target c) fn s1))"
  by (rule one_stepI [of c]) (simp_all add: update_as_step)

lemmas one_step_updates =
  one_step_update [OF call_update.simps(2), simplified] one_step_update [OF call_update.simps(3), simplified]
  one_step_update [OF call_update.simps(5), simplified] one_step_update [OF call_update.simps(6), simplified]
  one_step_update [OF call_update.simps(7), simplified] one_step_update [OF call_update.simps(8), simplified]

lemma one_step_failure: "one_step ops s s1 (recordFailure ops t i cause s1)"
  unfolding recordFailure_def by (rule one_step_update [OF call_update.simps(4), simplified])

lemmas one_step_intros = one_step_none one_step_failure one_step_updates

lemma snd_case_update:
  "snd (case p of (r, s) \<Rightarrow> (f r, s)) = snd p"
  by (cases p) simp

lemma one_step_case_sum:
  "(\<And>e. one_step ops s s1 (snd (f e))) \<Longrightarrow> (\<And>v. one_step ops s s1 (snd (g v))) \<Longrightarrow>
     one_step ops s s1 (snd (case r of Inl e \<Rightarrow> f e | Inr v \<Rightarrow> g v))"
  by (cases r) auto

lemma snd_case_answer:
  "snd (case p of (Inl e, s) \<Rightarrow> (f e, s) | (Inr v, s) \<Rightarrow> (g v, s)) = snd p"
  by (auto split: prod.splits sum.splits)

lemma handle_response_step:
  "one_step ops s (others s) (snd (HandleResponse ops t now now' rnd others jwe s))"
  unfolding HandleResponse_def Let_def
  by (auto intro!: one_step_case_sum one_step_intros simp: snd_case_answer split: option.splits)

lemma handle_page_step:
  "one_step ops s (others s) (snd (handlePageAnswer ops t now now' others i binding m verify s))"
  unfolding handlePageAnswer_def Let_def
  by (auto intro!: one_step_case_sum one_step_intros simp: snd_case_answer split: option.splits)

lemma redeem_step: "one_step ops s (others s) (snd (Redeem ops t now others code binding s))"
  unfolding Redeem_def Let_def
  by (auto intro!: one_step_case_sum one_step_intros simp: snd_case_update)

lemma lookup_step: "one_step ops s (others s) (snd (Lookup ops t now others i binding s))"
  unfolding Lookup_def Let_def takeResult_def
  by (auto intro!: one_step_case_sum one_step_intros simp: snd_case_update)

lemma close_step: "one_step ops s s (snd (Close ops t i s))" "one_step ops s s (snd (Forget ops t i s))"
  unfolding Close_def Forget_def by (auto intro!: one_step_intros simp: snd_case_answer)

lemma unencrypted_step: "one_step ops s s (snd (HandleUnencryptedError ops t now code state s))"
  unfolding HandleUnencryptedError_def Let_def
  by (auto intro!: one_step_case_sum one_step_intros split: option.splits)

section \<open>A small Verifier, for the examples\<close>

text \<open>The hash is the identity; an answer is its own plaintext: \<open>vp\<close> verifies, \<open>no\<close> is an access_denied.\<close>

definition ex_answer :: "string \<Rightarrow> answer_wire option" where
  "ex_answer p =
     (if p = ''vp'' then Some \<lparr> aw_VPToken = [(''q'', [''vp''])], aw_State = ''t.s'', aw_Error = [], aw_ErrorDescription = [] \<rparr>
      else if p = ''no'' then Some \<lparr> aw_VPToken = [], aw_State = ''t.s'', aw_Error = ''access_denied'', aw_ErrorDescription = [] \<rparr>
      else None)"

definition ex_deps :: "(nat, nat) deps" where
  "ex_deps = \<lparr> d_sha256 = (\<lambda>bs. bs), d_isPrint = (\<lambda>r. 32 \<le> r), d_withQuery = (\<lambda>u k v. u @ k @ v),
     d_encodeQuery = (\<lambda>kvs. []), d_jweHeader = (\<lambda>j. Some [(''kid'', GStr ''k''), (''enc'', GStr ''A128GCM'')]),
     d_jweDecrypt = (\<lambda>k j. Some j), d_answer = ex_answer, d_dcapiAnswer = (\<lambda>j. None), d_encValues = [''A128GCM''],
     d_clientID = ''c'', d_responseURI = ''r'', d_build = (\<lambda>q st. Inl (OtherError [])),
     d_buildDCAPI = (\<lambda>q os. Inl (OtherError [])), d_normalizeOrigin = (\<lambda>u. u), d_checkPage = (\<lambda>u b. None),
     d_verifyResponse = (\<lambda>q p n k u. Inr 7), d_status = None, d_accept = None \<rparr>"

definition ex_cfg :: "bool \<Rightarrow> transactions_config" where
  "ex_cfg once = \<lparr> tc_RequestURIBase = ''u'', tc_Lifetime = 10, tc_RedirectURI = ''cb?'', tc_Origins = [], tc_Scope = ''s'',
     tc_ForgetResultOnRead = once, tc_IssuerKeys = True, tc_MdocIssuerKeys = True, tc_MaxKeyBindingAge = 1,
     tc_TrustedAuthorities = NoChecker \<rparr>"

definition ex_t :: "bool \<Rightarrow> (nat, nat) transactions" where
  "ex_t once = \<lparr> t_cfg = ex_cfg once, t_owner = ''scope:s'', t_derived = False, t_Production = False, t_deps = ex_deps \<rparr>"

definition ex_query :: query where
  "ex_query = \<lparr> q_Credentials = [], q_CredentialSets = [] \<rparr>"

definition ex_tx :: "bool \<Rightarrow> (nat, nat) transaction" where
  "ex_tx same = \<lparr> tx_ID = ''t'', tx_KeyID = ''k'', tx_State = ''t.s'', tx_Nonce = ''n'', tx_Query = ex_query,
     tx_ResponseDecryptionKey = Some 1, tx_RequestObject = ''jwt'', tx_Origin = [], tx_MdocEncryptionInfo = [],
     tx_Owner = ''scope:s'', tx_BrowserBindingHash = bytes_of ''cookie'', tx_SameDevice = same,
     tx_ExpiresAt = 10, tx_RetainUntil = 20, tx_Status = TransactionPending, tx_ResponseCodeHash = [],
     tx_Result = None, tx_LastError = [] \<rparr>"

definition ex_store :: "bool \<Rightarrow> (nat, nat) tx_store" where
  "ex_store same = snd (TxStore_Create 0 (ex_tx same) NewVerifierTransactionStore)"

lemmas ex_defs = ex_deps_def ex_cfg_def ex_t_def ex_tx_def ex_answer_def

lemma ex_store: "ex_store same =
  \<lparr> vs_byID = [(''t'', ex_tx same)], vs_byKey = [(''k'', ''t'')], vs_byCode = [], vs_prune = \<lparr> pr_at = 0 \<rparr> \<rparr>"
  by (simp add: ex_store_def TxStore_Create_def NewVerifierTransactionStore_def ex_tx_def tx_save_def tx_make_room_def
    pruner_due_def minPruneAt_def)

lemma ex_store_ok: "tx_store_ok (ex_store same)" "stored_ok vs_lookup (ex_store same)"
  by (auto simp: ex_store tx_store_ok_def code_indexed_def stored_ok_def vs_lookup_def ex_tx_def tx_wf_def)

section \<open>The life cycle\<close>

text \<open>C11: each step on the store, whoever takes it, is a step of the abstract life cycle for every transaction:
  the request itself never changes, and a result that is held for the redirect is the one shown, a released result
  is the one that was stored, and nothing leads back.\<close>

theorem tx_refines_life:
  assumes "tx_store_ok s" and "stored_ok vs_lookup s" and "tx_step memory_store c s = (r, s')"
    and "vs_lookup s i = Some tx" and "vs_lookup s' i = Some tx'"
  shows "life_step (life_of tx) (step_release i c r) (life_of tx') \<and> same_request tx tx'"
  by (rule txmem.step_refines_life [OF assms])

lemma tx_refines_life_witness:
  "life_step Open None (Shown (7 :: nat)) \<and>
   (\<exists>r s'. tx_step memory_store (CallAnswer (ex_t False) ''t'' 0 7 []) (ex_store False) = (r, s') \<and>
      life_of (the (vs_lookup s' ''t'')) = Shown 7)"
proof -
  let ?c = "CallAnswer (ex_t False) ''t'' 0 7 []"
  obtain r s' where step: "tx_step memory_store ?c (ex_store False) = (r, s')"
    by (cases "tx_step memory_store ?c (ex_store False)")
  then have s': "vs_lookup s' ''t'' = Some ((ex_tx False)\<lparr> tx_Status := TransactionDone, tx_Result := Some 7 \<rparr>)"
    "r = Updated (Inr NoCapture)"
    by (auto simp: tx_step_def ex_store TxStore_Update_def update_defs owns_def ex_t_def ex_tx_def vs_lookup_def tx_save_def)
  from tx_refines_life [OF ex_store_ok step _ s'(1), of "ex_tx False"] step s'
  show ?thesis by (simp add: ex_store vs_lookup_def life_of_def step_release_def captured_result_def ex_tx_def)
qed

section \<open>The index of keys\<close>

text \<open>Every transaction with a key is found by it.\<close>

definition keys_ok :: "('k, 'r) tx_store \<Rightarrow> bool" where
  "keys_ok s = (gm_ok (vs_byKey s) \<and>
     (\<forall>j tx. vs_lookup s j = Some tx \<longrightarrow> tx_KeyID tx \<noteq> [] \<longrightarrow> gm_get (vs_byKey s) (tx_KeyID tx) = Some j))"

lemma keys_make_room:
  assumes "tx_store_ok s" and "keys_ok s" shows "keys_ok (tx_make_room now s)"
proof (cases "pruner_due (vs_prune s) (length (vs_byID s))")
  case True
  have "gm_get (vs_byKey (tx_make_room now s)) (tx_KeyID tx) = Some j"
    if "vs_lookup (tx_make_room now s) j = Some tx" "tx_KeyID tx \<noteq> []" for j tx
  proof -
    have "vs_lookup s j = Some tx" using tx_make_room(2) [OF assms(1), of now j] that(1) by auto
    with that assms True show ?thesis
      by (simp add: keys_ok_def tx_make_room_def dropExpired_def Let_def live_index_def gm_get_filter vs_lookup_def)
  qed
  moreover have "gm_ok (vs_byKey (tx_make_room now s))"
    using assms(2) True by (simp add: keys_ok_def tx_make_room_def dropExpired_def Let_def live_index_def)
  ultimately show ?thesis by (simp add: keys_ok_def)
qed (use assms in \<open>simp add: tx_make_room_def\<close>)

lemma keys_save:
  assumes "keys_ok s"
    and "tx_KeyID tx \<noteq> [] \<Longrightarrow> gm_get (vs_byKey s) (tx_KeyID tx) = None \<or> gm_get (vs_byKey s) (tx_KeyID tx) = Some (tx_ID tx)"
  shows "keys_ok (tx_save tx s)"
proof -
  have "gm_get (vs_byKey (tx_save tx s)) (tx_KeyID new) = Some j"
    if stored: "vs_lookup (tx_save tx s) j = Some new" and key: "tx_KeyID new \<noteq> []" for j new
  proof (cases "j = tx_ID tx")
    case True
    with stored key show ?thesis by (auto simp: tx_save_def vs_lookup_def)
  next
    case False
    with stored key assms(1) have "gm_get (vs_byKey s) (tx_KeyID new) = Some j" by (auto simp: keys_ok_def)
    moreover from this False assms(2) key have "tx_KeyID new \<noteq> tx_KeyID tx" by auto
    ultimately show ?thesis by (simp add: tx_save_def)
  qed
  with assms(1) show ?thesis by (simp add: keys_ok_def tx_save_def)
qed

lemma make_room_keys: "gm_get (vs_byKey s) k = None \<Longrightarrow> keys_ok s \<Longrightarrow> gm_get (vs_byKey (tx_make_room now s)) k = None"
  by (simp add: tx_make_room_def dropExpired_def Let_def live_index_def gm_get_filter keys_ok_def)

lemma keys_step:
  assumes "tx_store_ok s" and "stored_ok vs_lookup s" and "keys_ok s" and "tx_step memory_store c s = (r, s')"
  shows "keys_ok s'"
proof (cases "is_create c")
  case True
  then obtain now tx where "c = CallCreate now tx" by (cases c) auto
  with assms(4) have "s' = s \<or> (s' = tx_save tx (tx_make_room now s) \<and>
      (tx_KeyID tx \<noteq> [] \<longrightarrow> gm_get (vs_byKey s) (tx_KeyID tx) = None))"
    by (auto simp: tx_step_def TxStore_Create_def split: if_splits)
  with assms(1,3) keys_make_room [of s now] make_room_keys [of s "tx_KeyID tx" now] show ?thesis
    by (auto intro: keys_save)
next
  case False
  obtain q where q: "TxStore_Update (call_target c) (call_update c) s = (q, s')"
    using assms(4) tx_step_update [OF False, of memory_store s]
    by (cases "TxStore_Update (call_target c) (call_update c) s") auto
  then show ?thesis
  proof (cases rule: TxStore_Update_cases)
    case (failed e)
    with assms(3) show ?thesis by simp
  next
    case (saved tx tx' y s1)
    from call_update_request [OF saved(2)] have same: "tx_KeyID tx' = tx_KeyID tx" by (auto simp: same_request_def)
    have s1: "keys_ok s1" "vs_byKey s1 = vs_byKey s" using saved(4) assms(3) by (auto simp: keys_ok_def vs_lookup_def)
    have "tx_KeyID tx \<noteq> [] \<Longrightarrow> gm_get (vs_byKey s) (tx_KeyID tx) = Some (call_target c)"
      using assms(3) saved(1) by (simp add: keys_ok_def)
    with same s1 show ?thesis unfolding saved(5) by (intro keys_save) simp_all
  qed
qed

text \<open>And a key leads only to the transaction that has it: the index keeps no entry of a transaction that is gone.\<close>

definition keys_lead :: "('k, 'r) tx_store \<Rightarrow> bool" where
  "keys_lead s = (\<forall>k j. gm_get (vs_byKey s) k = Some j \<longrightarrow> k \<noteq> [] \<and> (\<exists>tx. vs_lookup s j = Some tx \<and> tx_KeyID tx = k))"

lemma lead_make_room:
  assumes "tx_store_ok s" and "keys_ok s" and "keys_lead s" shows "keys_lead (tx_make_room now s)"
proof (cases "pruner_due (vs_prune s) (length (vs_byID s))")
  case True
  have "k \<noteq> [] \<and> (\<exists>tx. vs_lookup (tx_make_room now s) j = Some tx \<and> tx_KeyID tx = k)"
    if "gm_get (vs_byKey (tx_make_room now s)) k = Some j" for k j
  proof -
    from that True assms(2) have "gm_get (vs_byKey s) k = Some j" "vs_lookup (tx_make_room now s) j \<noteq> None"
      by (auto simp: keys_ok_def tx_make_room_def dropExpired_def Let_def live_index_def gm_get_filter vs_lookup_def
        split: option.splits if_splits)
    with assms(3) tx_make_room(2) [OF assms(1), of now j] show ?thesis by (auto simp: keys_lead_def)
  qed
  then show ?thesis by (simp add: keys_lead_def)
qed (use assms in \<open>simp add: tx_make_room_def\<close>)

lemma lead_save:
  assumes "keys_lead s" and "\<And>k. gm_get (vs_byKey s) k = Some (tx_ID tx) \<Longrightarrow> k = tx_KeyID tx"
  shows "keys_lead (tx_save tx s)"
proof -
  have "k \<noteq> [] \<and> (\<exists>tx'. vs_lookup (tx_save tx s) j = Some tx' \<and> tx_KeyID tx' = k)"
    if "gm_get (vs_byKey (tx_save tx s)) k = Some j" for k j
  proof -
    show ?thesis
    proof (cases "k = tx_KeyID tx \<and> k \<noteq> []")
      case True
      with that have "j = tx_ID tx" by (auto simp: tx_save_def split: if_splits)
      with True show ?thesis by auto
    next
      case False
      have "gm_get (vs_byKey (tx_save tx s)) k = gm_get (vs_byKey s) k" using False by (simp add: tx_save_def)
      with that have old: "gm_get (vs_byKey s) k = Some j" by simp
      with assms(1) have "k \<noteq> [] \<and> (\<exists>tx'. vs_lookup s j = Some tx' \<and> tx_KeyID tx' = k)" by (simp add: keys_lead_def)
      moreover have "j \<noteq> tx_ID tx" using assms(2) [of k] old False calculation by auto
      ultimately show ?thesis by simp
    qed
  qed
  then show ?thesis by (simp add: keys_lead_def)
qed

lemma lead_step:
  assumes "tx_store_ok s" and "keys_ok s" and "keys_lead s" and "tx_step memory_store c s = (r, s')"
  shows "keys_lead s'"
proof (cases "is_create c")
  case True
  then obtain now tx where "c = CallCreate now tx" by (cases c) auto
  with assms(4) have "s' = s \<or> (s' = tx_save tx (tx_make_room now s) \<and> vs_lookup s (tx_ID tx) = None)"
    by (auto simp: tx_step_def TxStore_Create_def vs_lookup_def Option.is_none_def split: if_splits)
  then show ?thesis
  proof
    assume s': "s' = tx_save tx (tx_make_room now s) \<and> vs_lookup s (tx_ID tx) = None"
    then have "vs_lookup (tx_make_room now s) (tx_ID tx) = None" using tx_make_room(2) [OF assms(1), of now "tx_ID tx"] by simp
    moreover have room: "keys_lead (tx_make_room now s)" by (rule lead_make_room [OF assms(1-3)])
    ultimately have "k = tx_KeyID tx" if "gm_get (vs_byKey (tx_make_room now s)) k = Some (tx_ID tx)" for k
      using that unfolding keys_lead_def by force
    with lead_save [OF room] s' show ?thesis by simp
  qed (use assms(3) in simp)
next
  case False
  obtain q where q: "TxStore_Update (call_target c) (call_update c) s = (q, s')"
    using assms(4) tx_step_update [OF False, of memory_store s]
    by (cases "TxStore_Update (call_target c) (call_update c) s") auto
  then show ?thesis
  proof (cases rule: TxStore_Update_cases)
    case (failed e)
    with assms(3) show ?thesis by simp
  next
    case (saved tx tx' y s1)
    from call_update_request [OF saved(2)] have same: "tx_KeyID tx' = tx_KeyID tx" by (auto simp: same_request_def)
    have s1: "keys_lead s1" "vs_byKey s1 = vs_byKey s" using saved(4) assms(3) by (auto simp: keys_lead_def vs_lookup_def)
    have "k = tx_KeyID tx" if "gm_get (vs_byKey s) k = Some (call_target c)" for k
      using that assms(3) saved(1) unfolding keys_lead_def by force
    with same s1 show ?thesis unfolding saved(5) by (intro lead_save) simp_all
  qed
qed

lemma calls_keys:
  assumes "tx_store_ok s" and "stored_ok vs_lookup s" and "keys_ok s" and "keys_lead s" and "\<forall>c \<in> set cs. call_ok c"
  shows "keys_ok (calls_state (tx_step memory_store) cs s) \<and> keys_lead (calls_state (tx_step memory_store) cs s)"
  using assms
proof (induction cs arbitrary: s)
  case (Cons c cs)
  obtain r s' where step: "tx_step memory_store c s = (r, s')" by (cases "tx_step memory_store c s")
  with Cons.prems have "tx_store_ok s'" "stored_ok vs_lookup s'" "keys_ok s'" "keys_lead s'"
    using txmem.step_ok txmem.step_stored_ok keys_step lead_step by (metis list.set_intros(1))+
  with Cons step show ?case by simp
qed simp

text \<open>C36: From an empty store, whatever the calls in whatever order, each stored transaction has the fields its
  status calls for, under its own ID; each response code in the index leads to a transaction that has it; and the index of key IDs
  leads from a key to a transaction exactly where that transaction is stored and has the key.\<close>

theorem tx_invariant:
  assumes "\<forall>c \<in> set cs. call_ok c" and "s = calls_state (tx_step memory_store) cs NewVerifierTransactionStore"
  shows "tx_store_ok s \<and> stored_ok vs_lookup s \<and>
    (\<forall>h i. gm_get (vs_byCode s) h = Some i \<longrightarrow> h \<noteq> [] \<and> (\<exists>tx. vs_lookup s i = Some tx \<and> tx_ResponseCodeHash tx = h)) \<and>
    (\<forall>k i. gm_get (vs_byKey s) k = Some i \<longleftrightarrow> k \<noteq> [] \<and> (\<exists>tx. vs_lookup s i = Some tx \<and> tx_KeyID tx = k))"
proof -
  have new: "stored_ok vs_lookup NewVerifierTransactionStore" "keys_ok NewVerifierTransactionStore" "keys_lead NewVerifierTransactionStore"
    by (simp_all add: stored_ok_def keys_ok_def keys_lead_def vs_lookup_def NewVerifierTransactionStore_def)
  have stored: "tx_store_ok s" "stored_ok vs_lookup s"
    unfolding assms(2) using txmem.calls_stored_ok [OF new_tx_store_ok new(1) assms(1)] by blast+
  have "keys_ok s" "keys_lead s" unfolding assms(2) using calls_keys [OF new_tx_store_ok new assms(1)] by blast+
  then have "gm_get (vs_byKey s) k = Some i \<longleftrightarrow> k \<noteq> [] \<and> (\<exists>tx. vs_lookup s i = Some tx \<and> tx_KeyID tx = k)" for k i
    by (auto simp: keys_ok_def keys_lead_def)
  moreover have "h \<noteq> [] \<and> (\<exists>tx. vs_lookup s i = Some tx \<and> tx_ResponseCodeHash tx = h)" if "gm_get (vs_byCode s) h = Some i" for h i
    using that stored(1) by (auto simp: tx_store_ok_def code_indexed_def vs_lookup_def)
  ultimately show ?thesis using stored by blast
qed

lemma tx_invariant_witness:
  "call_ok (CallCreate 0 (ex_tx True)) \<and>
   stored_ok vs_lookup (calls_state (tx_step memory_store)
     [CallCreate 0 (ex_tx True), CallAnswer (ex_t True) ''t'' 1 7 ''code''] NewVerifierTransactionStore)"
  using tx_invariant [of "[CallCreate 0 (ex_tx True), CallAnswer (ex_t True) ''t'' 1 7 ''code'']", OF _ refl]
  by (simp add: tx_fresh_def ex_tx_def)

text \<open>What Begin and BeginDCAPI save is such a new transaction.\<close>

lemma begin_fresh:
  "begin_tx t now rnd rnd' q binding same = Inr tx \<Longrightarrow> call_ok (CallCreate now tx)"
  "begin_dcapi_tx t now rnd q binding origin = Inr (tx, req) \<Longrightarrow> call_ok (CallCreate now tx)"
  by (auto simp: begin_tx_def begin_dcapi_tx_def new_transaction_def tx_fresh_def Let_def rbind_Inr_iff
    split: if_splits option.splits)

section \<open>Once\<close>

text \<open>C16: over any interleaved sequence of calls, a request is completed by an answer at most as often as it was
  created, however many answers verify.\<close>

theorem completed_once:
  assumes "tx_store_ok s"
  shows "grant_count (completes i) (call_trace (tx_step memory_store) cs s) \<le>
    open_left vs_lookup i s + sum_list (map (creates i) cs)"
  by (rule call_budget.grants_bounded [OF txmem.completes_budget assms])

lemma completed_once_witness:
  "grant_count (completes ''t'') (call_trace (tx_step memory_store)
     [CallAnswer (ex_t False) ''t'' 1 7 [], CallAnswer (ex_t False) ''t'' 1 8 []] (ex_store False)) \<le> 1"
  using completed_once [OF ex_store_ok(1), of "''t''" "[CallAnswer (ex_t False) ''t'' 1 7 [], CallAnswer (ex_t False) ''t'' 1 8 []]"]
  by (simp add: creates_def open_left_def ex_store vs_lookup_def ex_tx_def)

text \<open>C24: where every reader forgets a result as it reads it, a result is released at most once per request,
  to whichever of Redeem, Lookup and the page's answer is first.\<close>

theorem released_once:
  assumes "tx_store_ok s" and "\<forall>c \<in> set cs. forgets c"
  shows "grant_count (releases i) (call_trace (tx_step memory_store) cs s) \<le>
    release_left vs_lookup i s + sum_list (map (creates i) cs)"
proof -
  have "map (release_gain i) cs = map (creates i) cs"
    using assms(2) by (auto simp: release_gain_def creates_def)
  with call_budget.grants_bounded [OF txmem.releases_budget assms(1), of i cs] show ?thesis by simp
qed

lemma released_once_witness:
  "grant_count (releases ''t'') (call_trace (tx_step memory_store)
     [CallAnswer (ex_t True) ''t'' 1 7 [], CallTake (ex_t True) ''t'', CallTake (ex_t True) ''t''] (ex_store False)) \<le> 1"
  using released_once [OF ex_store_ok(1),
    of "[CallAnswer (ex_t True) ''t'' 1 7 [], CallTake (ex_t True) ''t'', CallTake (ex_t True) ''t'']" "''t''"]
  by (simp add: creates_def release_left_def ex_store vs_lookup_def ex_tx_def ex_t_def ex_cfg_def)

section \<open>To whom a result goes\<close>

lemma update_memory:
  assumes "tx_store_ok s" and "tx_update memory_store t i fn s = (Inr x, s')"
  obtains tx tx' where "vs_lookup s i = Some tx" "owns t tx" "fn tx = Inr (tx', x)"
    "vs_lookup s' = (vs_lookup s)(i \<mapsto> tx'\<lparr> tx_ID := i \<rparr>)"
proof -
  from assms(2) have "ts_Update memory_store i (owned t fn) s = (Inr x, s')" by (simp add: tx_update_def)
  from txmem.update_saves [OF assms(1) this] that show ?thesis by (auto simp: owned_def split: if_splits)
qed

lemma bindingMatches_iff: "bindingMatches d hash b \<longleftrightarrow> b \<noteq> [] \<and> hash = d_sha256 d (bytes_of b)"
  by (simp add: bindingMatches_def)

lemma redeem_code_Released:
  assumes "redeem_code t now h b tx = Inr (tx', Released v)"
  shows "tx_Status tx = TransactionAwaitingRedirect \<and> tx_ResponseCodeHash tx = h \<and> h \<noteq> [] \<and> now < tx_ExpiresAt tx \<and>
    bindingMatches (t_deps t) (tx_BrowserBindingHash tx) b \<and> tv_Result v = tx_Result tx \<and>
    tx_Status tx' \<noteq> TransactionAwaitingRedirect \<and> tx_ResponseCodeHash tx' = []"
  using assms by (auto simp: redeem_code_def release_def viewOf_def forget_def Let_def split: if_splits)

lemma redeem_code_WrongBrowser:
  assumes "redeem_code t now h b tx = Inr (tx', WrongBrowser)"
  shows "\<not> bindingMatches (t_deps t) (tx_BrowserBindingHash tx) b \<and> tx_Status tx' = TransactionClosed \<and>
    tx_Result tx' = None \<and> tx_ResponseCodeHash tx' = []"
  using assms by (auto simp: redeem_code_def release_def Let_def split: if_splits)

lemma redeem_code_outcome:
  "redeem_code t now h b tx = Inr (tx', c) \<Longrightarrow> c \<noteq> NoCapture"
  "redeem_code t now h b tx = Inl e \<Longrightarrow> e \<noteq> ErrWrongBrowser"
  by (auto simp: redeem_code_def release_def Let_def split: if_splits)

lemma redeem_update:
  assumes "tx_store_ok (others s)" and "Redeem memory_store t now others code b s = (r, s')"
    and "r = Inl ErrWrongBrowser \<or> (\<exists>v. r = Inr v)"
  obtains i tx tx' c where "vs_lookup (others s) i = Some tx" "owns t tx"
    "TxStore_IDByResponseCode (hashToken (t_deps t) code) s = Inr i"
    "redeem_code t now (hashToken (t_deps t) code) b tx = Inr (tx', c)"
    "vs_lookup s' i = Some (tx'\<lparr> tx_ID := i \<rparr>)" "r = view_of_captured (Inr c)"
proof -
  let ?h = "hashToken (t_deps t) code"
  have id: "TxStore_IDByResponseCode ?h s \<noteq> Inl ErrWrongBrowser"
    by (simp add: TxStore_IDByResponseCode_def split: option.splits)
  with assms(2,3) obtain i x where i: "TxStore_IDByResponseCode ?h s = Inr i"
    and upd: "tx_update memory_store t i (redeem_code t now ?h b) (others s) = (x, s')" "r = view_of_captured x"
    by (auto simp: Redeem_def Let_def split: if_splits sum.splits prod.splits)
  show thesis
  proof (cases x)
    case (Inl e)
    have "e \<noteq> ErrWrongBrowser"
      using upd(1) Inl
      by (auto simp: tx_update_def TxStore_Update_def owned_def Let_def dest!: redeem_code_outcome(2)
        split: option.splits sum.splits if_splits)
    with upd(2) Inl assms(3) show thesis by (auto simp: view_of_captured_def)
  next
    case (Inr c)
    show thesis
      by (rule update_memory [OF assms(1) upd(1) [unfolded Inr]], rule that) (use i upd(2) Inr in auto)
  qed
qed

text \<open>C18: \<open>Redeem\<close> releases a result only for the response_code of a transaction of this scope that is awaiting its
  redirect and hasn't expired, to the browser it began with, and the code is then spent. Arriving in another browser, the
  code ends the request and its result is gone.\<close>

theorem redeem_bound_browser:
  assumes "tx_store_ok (others s)" and "Redeem memory_store t now others code b s = (r, s')"
    and "r = Inl ErrWrongBrowser \<or> (\<exists>v. r = Inr v)"
  shows "\<exists>i tx tx'. vs_lookup (others s) i = Some tx \<and> vs_lookup s' i = Some tx' \<and> owns t tx \<and>
      tx_ResponseCodeHash tx' = [] \<and>
      (case r of
         Inr v \<Rightarrow> tx_Status tx = TransactionAwaitingRedirect \<and> tx_ResponseCodeHash tx = hashToken (t_deps t) code \<and>
           now < tx_ExpiresAt tx \<and> b \<noteq> [] \<and> tx_BrowserBindingHash tx = dep t d_sha256 (bytes_of b) \<and>
           tv_Result v = tx_Result tx
       | Inl _ \<Rightarrow> (b = [] \<or> tx_BrowserBindingHash tx \<noteq> dep t d_sha256 (bytes_of b)) \<and>
           tx_Status tx' = TransactionClosed \<and> tx_Result tx' = None)"
proof (rule redeem_update [OF assms])
  let ?h = "hashToken (t_deps t) code"
  fix i tx tx' c
  assume tx: "vs_lookup (others s) i = Some tx" "owns t tx" "vs_lookup s' i = Some (tx'\<lparr> tx_ID := i \<rparr>)"
    and fn: "redeem_code t now ?h b tx = Inr (tx', c)" and r: "r = view_of_captured (Inr c)"
  show ?thesis
  proof (cases c)
    case NoCapture
    with redeem_code_outcome(1) [OF fn] show ?thesis by simp
  next
    case (Released v)
    with redeem_code_Released [of t now ?h b tx tx' v] fn tx r show ?thesis
      by (intro exI [of _ i] exI [of _ tx] exI [of _ "tx'\<lparr> tx_ID := i \<rparr>"])
        (simp add: bindingMatches_iff view_of_captured_def)
  next
    case WrongBrowser
    with redeem_code_WrongBrowser [of t now ?h b tx tx'] fn tx r show ?thesis
      by (intro exI [of _ i] exI [of _ tx] exI [of _ "tx'\<lparr> tx_ID := i \<rparr>"])
        (simp add: bindingMatches_iff view_of_captured_def)
  qed
qed

text \<open>A same-device request answered, its code hash being the base64url of \<open>code\<close>.\<close>

definition ex_held :: "(nat, nat) tx_store" where
  "ex_held = snd (TxStore_Update ''t'' (owned (ex_t True) (complete_answer (ex_t True) 1 7 ''code'')) (ex_store True))"

lemma ex_hash: "hashToken ex_deps ''code'' = ''Y29kZQ''"
  by (simp add: hashToken_def ex_deps_def bytes_of_def b64url_char_def b64url_alphabet_def)

lemma ex_held: "ex_held = \<lparr> vs_byID = [(''t'', (ex_tx True)\<lparr> tx_Status := TransactionAwaitingRedirect,
    tx_ResponseCodeHash := ''Y29kZQ'', tx_Result := Some 7 \<rparr>)], vs_byKey = [(''k'', ''t'')],
    vs_byCode = [(''Y29kZQ'', ''t'')], vs_prune = \<lparr> pr_at = 0 \<rparr> \<rparr>"
  using ex_hash
  by (simp add: ex_held_def ex_store TxStore_Update_def update_defs owns_def ex_t_def ex_tx_def tx_save_def)

lemma ex_held_ok: "tx_store_ok ex_held"
  by (simp add: ex_held tx_store_ok_def code_indexed_def)

lemma ex_redeem:
  "fst (Redeem memory_store (ex_t True) 2 (\<lambda>s. s) ''code'' ''cookie'' ex_held) =
     Inr \<lparr> tv_ID = ''t'', tv_Status = TransactionDone, tv_Result = Some 7, tv_LastError = [] \<rparr>"
  using ex_hash
  by (simp add: Redeem_def ex_held TxStore_IDByResponseCode_def tx_update_def TxStore_Update_def update_defs owns_def
    ex_t_def ex_cfg_def ex_tx_def bindingMatches_def view_of_captured_def viewOf_def ex_deps_def Let_def)

lemma redeem_bound_browser_witness:
  "\<exists>i tx. vs_lookup ex_held i = Some tx \<and> tx_Result tx = Some 7 \<and> tx_BrowserBindingHash tx = bytes_of ''cookie''"
proof -
  obtain r s' where red: "Redeem memory_store (ex_t True) 2 (\<lambda>s. s) ''code'' ''cookie'' ex_held = (r, s')"
    by (cases "Redeem memory_store (ex_t True) 2 (\<lambda>s. s) ''code'' ''cookie'' ex_held")
  with ex_redeem have r: "r = Inr \<lparr> tv_ID = ''t'', tv_Status = TransactionDone, tv_Result = Some 7, tv_LastError = [] \<rparr>"
    by simp
  with redeem_bound_browser [OF ex_held_ok red] obtain i tx where "vs_lookup ex_held i = Some tx"
    "tx_BrowserBindingHash tx = dep (ex_t True) d_sha256 (bytes_of ''cookie'')" "tx_Result tx = Some 7" by auto
  then show ?thesis by (intro exI [of _ i] exI [of _ tx]) (simp add: ex_t_def ex_deps_def)
qed

text \<open>\<open>Lookup\<close> reports a result only of a transaction of this scope, to the browser it began with, and while the
  result is retained: within its lifetime of the request's expiry.\<close>

theorem lookup_bound_browser:
  assumes "tx_store_ok s" and "tx_store_ok (others s)"
    and "Lookup memory_store t now others i b s = (Inr v, s')" and "tv_Result v \<noteq> None"
  shows "\<exists>tx. vs_lookup s i = Some tx \<and> owns t tx \<and> b \<noteq> [] \<and> tx_BrowserBindingHash tx = dep t d_sha256 (bytes_of b) \<and>
    tx_Status tx = TransactionDone \<and> now < tx_ExpiresAt tx + conf t tc_Lifetime \<and>
    (conf t tc_ForgetResultOnRead \<longrightarrow>
      (\<exists>tx'. vs_lookup s' i = Some tx' \<and> tx_Status tx' = TransactionClosed \<and> tx_Result tx' = None))"
proof -
  obtain tx where get: "TxStore_Get i s = Inr tx" "owns t tx" "bindingMatches (t_deps t) (tx_BrowserBindingHash tx) b"
    and rest: "(if lookup_status (t_cfg t) now tx = TransactionDone \<and> conf t tc_ForgetResultOnRead
      then takeResult memory_store t i (others s) else (Inr (viewOf tx (lookup_status (t_cfg t) now tx)), s)) = (Inr v, s')"
    using assms(3) by (auto simp: Lookup_def tx_get_def rbind_def Let_def split: sum.splits if_splits)
  have tx: "vs_lookup s i = Some tx" using txmem.get_saved [OF assms(1)] get(1) by simp
  have shown: "lookup_status (t_cfg t) now tx = TransactionDone"
    using rest assms(4) by (auto simp: viewOf_def split: if_splits)
  then have status: "tx_Status tx = TransactionDone" "now < tx_ExpiresAt tx + conf t tc_Lifetime"
    by (auto simp: lookup_status_def Let_def split: if_splits)
  have "\<exists>tx'. vs_lookup s' i = Some tx' \<and> tx_Status tx' = TransactionClosed \<and> tx_Result tx' = None"
    if once: "conf t tc_ForgetResultOnRead"
  proof -
    from rest shown once obtain x where upd: "tx_update memory_store t i (take_result t) (others s) = (x, s')"
      "view_of_captured x = Inr v" by (auto simp: takeResult_def split: prod.splits)
    then obtain c where x: "x = Inr c" by (cases x) (auto simp: view_of_captured_def)
    from update_memory [OF assms(2) upd(1) [unfolded x]] obtain cur cur' where
      cur: "take_result t cur = Inr (cur', c)" "vs_lookup s' = (vs_lookup (others s))(i \<mapsto> cur'\<lparr> tx_ID := i \<rparr>)" by metis
    have "c = Released v" using upd(2) x assms(4)
      by (cases c) (auto simp: view_of_captured_def)
    with cur once assms(4) show ?thesis
      by (auto simp: take_result_def release_def forget_def viewOf_def split: if_splits)
  qed
  with tx get status show ?thesis by (auto simp: bindingMatches_iff)
qed

definition ex_shown :: "(nat, nat) tx_store" where
  "ex_shown = snd (TxStore_Update ''t'' (owned (ex_t True) (complete_answer (ex_t True) 1 7 [])) (ex_store False))"

lemma ex_shown: "ex_shown = \<lparr> vs_byID = [(''t'', (ex_tx False)\<lparr> tx_Status := TransactionDone, tx_Result := Some 7 \<rparr>)],
    vs_byKey = [(''k'', ''t'')], vs_byCode = [], vs_prune = \<lparr> pr_at = 0 \<rparr> \<rparr>"
  by (simp add: ex_shown_def ex_store TxStore_Update_def update_defs owns_def ex_t_def ex_tx_def tx_save_def)

lemma lookup_bound_browser_witness:
  "\<exists>v s'. Lookup memory_store (ex_t True) 12 (\<lambda>s. s) ''t'' ''cookie'' ex_shown = (Inr v, s') \<and> tv_Result v = Some 7 \<and>
     (\<exists>tx'. vs_lookup s' ''t'' = Some tx' \<and> tx_Result tx' = None)"
proof -
  have ok: "tx_store_ok ex_shown" by (simp add: ex_shown tx_store_ok_def code_indexed_def)
  obtain v s' where look: "Lookup memory_store (ex_t True) 12 (\<lambda>s. s) ''t'' ''cookie'' ex_shown = (Inr v, s')" "tv_Result v = Some 7"
    by (simp add: Lookup_def tx_get_def ex_shown TxStore_Get_def owns_def ex_t_def ex_cfg_def ex_tx_def bindingMatches_def
      ex_deps_def lookup_status_def takeResult_def tx_update_def TxStore_Update_def update_defs view_of_captured_def viewOf_def
      Let_def)
  with lookup_bound_browser [of ex_shown "\<lambda>s. s", OF ok ok look(1)] show ?thesis
    by (auto simp: ex_t_def ex_cfg_def)
qed

section \<open>What a reply tells\<close>

lemma verify_progress: "tx_ID tx' = tx_ID tx \<Longrightarrow> same_request tx tx' \<Longrightarrow> tx_verify t tx' jwe = tx_verify t tx jwe"
proof -
  assume "tx_ID tx' = tx_ID tx" and "same_request tx tx'"
  then have fields: "tx_ID tx' = tx_ID tx" "tx_Query tx' = tx_Query tx" "tx_Nonce tx' = tx_Nonce tx" "tx_State tx' = tx_State tx"
    "tx_ResponseDecryptionKey tx' = tx_ResponseDecryptionKey tx" "tx_Origin tx' = tx_Origin tx"
    by (auto simp: same_request_def)
  have "acceptVerified t tx' = acceptVerified t tx" by (rule ext) (simp only: acceptVerified_def fields)
  then show ?thesis by (simp only: tx_verify_def verifyParsed_def fields)
qed

lemma not_pending_plain: "checkPending now tx = Some e \<Longrightarrow> wallet_error e = None \<and> \<not> is_fault e"
  by (auto simp: checkPending_def split: if_splits)

text \<open>The answer to a request that isn't pending, and to the same request pending when the answer doesn't verify.\<close>

lemma refused_reply:
  assumes "tx_verify t tx jwe = Inl e"
    and "\<And>p e. dep t d_verifyResponse (tx_Query tx) p (tx_Nonce tx) (tx_ResponseDecryptionKey tx) (tx_Origin tx) = Inl e \<Longrightarrow>
      wallet_error e = None \<and> \<not> is_fault e"
    and "same_request tx tx'" and "wallet_error np = None" and "\<not> is_fault np"
  shows "reply_of (answer_refused t i tx e) = reply_of (answerNotPending t tx' jwe np)"
proof -
  from assms(3) have same: "tx_ResponseDecryptionKey tx' = tx_ResponseDecryptionKey tx" "tx_State tx' = tx_State tx"
    "tx_SameDevice tx' = tx_SameDevice tx" by (auto simp: same_request_def)
  show ?thesis
  proof (cases "ParseDirectPostJWTResponse (t_deps t) jwe (tx_ResponseDecryptionKey tx)")
    case (Inl p)
    have plain: "wallet_error p = None \<Longrightarrow> \<not> is_fault p"
      using Inl by (auto simp: ParseDirectPostJWTResponse_def split: option.splits if_splits)
    show ?thesis
      using assms(1,4,5) Inl same plain
      by (auto simp: tx_verify_def answer_refused_def answerNotPending_def reply_of_def error_redirect_def
        state_mismatch_def no_answer_def split: option.splits if_splits)
  next
    case (Inr p)
    have "wallet_error e = None \<and> \<not> is_fault e"
      using assms(1,2) Inr
      by (auto simp: tx_verify_def verifyParsed_def acceptVerified_def state_mismatch_def rbind_def
        split: if_splits sum.splits option.splits)
    with Inr assms(4,5) same show ?thesis
      by (auto simp: answer_refused_def answerNotPending_def reply_of_def)
  qed
qed

lemma fst_ResponseHandler:
  "fst (ResponseHandler ops t now now' rnd others response error state s) =
     (if response = [] \<and> error \<noteq> []
      then ReplyOK (an_RedirectURI (fst (HandleUnencryptedError ops t now error state s)))
      else reply_of (fst (HandleResponse ops t now now' rnd others response s)))"
  by (simp add: ResponseHandler_def split_beta)

text \<open>C19: the reply of the response endpoint to an answer that doesn't verify, or to an unencrypted error, is the same while its
  request is pending and at any other time while the store holds it, answered, closed or expired by then: it doesn't
  tell who holds the request whether its holder has presented.\<close>

theorem replies_oblivious:
  assumes "vs_lookup s i = Some tx" and "tx_ID tx = i"
    and "checkPending now tx = None" and "checkPending later tx' = Some np" and "same_request tx tx'"
    and "\<not> (response = [] \<and> error \<noteq> []) \<Longrightarrow>
      ResponseKeyID (t_deps t) response = Inr kid \<and> TxStore_IDByKeyID kid s = Inr i \<and> tx_verify t tx response = Inl e"
    and "\<And>p e. dep t d_verifyResponse (tx_Query tx) p (tx_Nonce tx) (tx_ResponseDecryptionKey tx) (tx_Origin tx) = Inl e \<Longrightarrow>
      wallet_error e = None \<and> \<not> is_fault e"
  shows "fst (ResponseHandler memory_store t now now1 rnd others response error state s) =
    fst (ResponseHandler memory_store t later now2 rnd' others' response error state
      (s \<lparr> vs_byID := gm_put i tx' (vs_byID s) \<rparr>))"
proof -
  let ?s' = "s \<lparr> vs_byID := gm_put i tx' (vs_byID s) \<rparr>"
  from assms(5) have same: "owns t tx' = owns t tx" "tx_Origin tx' = tx_Origin tx" "tx_State tx' = tx_State tx"
    "tx_SameDevice tx' = tx_SameDevice tx" by (auto simp: same_request_def owns_def)
  have get: "TxStore_Get i s = Inr tx" "TxStore_Get i ?s' = Inr tx'"
    and other: "j \<noteq> i \<Longrightarrow> TxStore_Get j ?s' = TxStore_Get j s" for j
    using assms(1) by (simp_all add: TxStore_Get_def vs_lookup_def)
  show ?thesis
  proof (cases "response = [] \<and> error \<noteq> []")
    case True
    have "fst (HandleUnencryptedError memory_store t now error state s) =
        fst (HandleUnencryptedError memory_store t later error state ?s')"
    proof (cases "cut_state state")
      case (Some j)
      then show ?thesis
        by (cases "j = i") (auto simp: HandleUnencryptedError_def tx_get_def rbind_def Let_def get other same split: sum.splits)
    qed (simp add: HandleUnencryptedError_def)
    with True show ?thesis by (simp add: fst_ResponseHandler)
  next
    case False
    from assms(6) [OF this] have route: "ResponseKeyID (t_deps t) response = Inr kid" "TxStore_IDByKeyID kid s = Inr i"
      "TxStore_IDByKeyID kid ?s' = Inr i" "tx_verify t tx response = Inl e" by (simp_all add: TxStore_IDByKeyID_def)
    note np = not_pending_plain [OF assms(4)]
    have "reply_of (answer_refused t i tx e) = reply_of (answerNotPending t tx' response np)"
      by (rule refused_reply [OF route(4) _ assms(5) conjunct1 [OF np] conjunct2 [OF np]]) (rule assms(7))
    then have "reply_of (fst (HandleResponse memory_store t now now1 rnd others response s)) =
        reply_of (fst (HandleResponse memory_store t later now2 rnd' others' response ?s'))"
      by (simp add: HandleResponse_def route tx_get_def rbind_def get same assms(3,4) Let_def)
    with False show ?thesis by (auto simp: fst_ResponseHandler)
  qed
qed

lemma replies_oblivious_witness:
  "fst (ResponseHandler memory_store (ex_t True) 1 1 None (\<lambda>s. s) ''no'' [] [] (ex_store True)) =
     ReplyOK ''cb?erroraccess_denied'' \<and>
   fst (ResponseHandler memory_store (ex_t True) 10 10 None (\<lambda>s. s) ''no'' [] []
      ((ex_store True) \<lparr> vs_byID := gm_put ''t'' (ex_tx True) (vs_byID (ex_store True)) \<rparr>)) =
     ReplyOK ''cb?erroraccess_denied''"
proof -
  let ?e = "WalletError \<lparr> re_Code = ''access_denied'', re_Description = [], re_State = ''t.s'' \<rparr>"
  have verify: "tx_verify (ex_t True) (ex_tx True) ''no'' = Inl ?e"
    by (simp add: tx_verify_def ParseDirectPostJWTResponse_def header_enc_def ex_defs)
  have route: "ResponseKeyID (t_deps (ex_t True)) ''no'' = Inr ''k''" "TxStore_IDByKeyID ''k'' (ex_store True) = Inr ''t''"
    "TxStore_Get ''t'' (ex_store True) = Inr (ex_tx True)" "vs_lookup (ex_store True) ''t'' = Some (ex_tx True)"
    by (simp_all add: ex_store ResponseKeyID_def TxStore_IDByKeyID_def TxStore_Get_def vs_lookup_def ex_t_def ex_deps_def)
  have tx: "owns (ex_t True) (ex_tx True)" "checkPending 1 (ex_tx True) = None" "tx_Origin (ex_tx True) = []"
    "checkPending 10 (ex_tx True) = Some ErrTransactionExpired" "tx_ID (ex_tx True) = ''t''"
    by (simp_all add: owns_def checkPending_def ex_tx_def ex_t_def)
  have "fst (HandleResponse memory_store (ex_t True) 1 1 None (\<lambda>s. s) ''no'' (ex_store True)) =
      answer_refused (ex_t True) ''t'' (ex_tx True) ?e"
    by (simp add: HandleResponse_def route tx tx_get_def verify Let_def)
  moreover have "reply_of (answer_refused (ex_t True) ''t'' (ex_tx True) ?e) = ReplyOK ''cb?erroraccess_denied''"
    by (simp add: answer_refused_def reply_of_def error_redirect_def errorCodeOf_def lower_def ex_defs)
  ultimately have first: "fst (ResponseHandler memory_store (ex_t True) 1 1 None (\<lambda>s. s) ''no'' [] [] (ex_store True)) =
     ReplyOK ''cb?erroraccess_denied''"
    by (simp add: fst_ResponseHandler)
  moreover have "fst (ResponseHandler memory_store (ex_t True) 1 1 None (\<lambda>s. s) ''no'' [] [] (ex_store True)) =
    fst (ResponseHandler memory_store (ex_t True) 10 10 None (\<lambda>s. s) ''no'' [] []
      ((ex_store True) \<lparr> vs_byID := gm_put ''t'' (ex_tx True) (vs_byID (ex_store True)) \<rparr>))"
  proof (rule replies_oblivious [OF route(4) tx(5) tx(2) tx(4), where kid = "''k''" and e = ?e])
    show "same_request (ex_tx True) (ex_tx True)" by (rule same_request_refl)
    show "wallet_error e = None \<and> \<not> is_fault e"
      if "dep (ex_t True) d_verifyResponse (tx_Query (ex_tx True)) p (tx_Nonce (ex_tx True))
        (tx_ResponseDecryptionKey (ex_tx True)) (tx_Origin (ex_tx True)) = Inl e" for p e
      using that by (simp add: ex_t_def ex_deps_def)
  qed (simp add: route verify)
  ultimately show ?thesis by simp
qed

section \<open>Refused answers end nothing\<close>

text \<open>The calls anyone can cause with the request alone: refused answers, wrong codes, polling, and whatever is done
  to other requests. New requests prune only what has expired.\<close>

fun harmless :: "('k, 'r) transaction \<Rightarrow> ('k, 'r) tx_call \<Rightarrow> bool" where
  "harmless tx (CallCreate now new) = (now \<le> tx_ExpiresAt tx)"
| "harmless tx (CallFail t i cause) = True"
| "harmless tx (CallRedeem t i now codeHash binding) = True"
| "harmless tx (CallTake t i) = True"
| "harmless tx c = (call_target c \<noteq> tx_ID tx)"

lemma make_room_keeps:
  assumes "tx_store_ok s" and "vs_lookup s i = Some tx" and "now \<le> tx_ExpiresAt tx"
  shows "vs_lookup (tx_make_room now s) i = Some tx"
  using assms dropExpired_get [of s now i]
  by (auto simp: tx_make_room_def Let_def vs_lookup_def tx_store_ok_def expired_def keep_until_def expiryGrace_def)

lemma pending_update:
  assumes "harmless tx c" and "call_target c = tx_ID tx" and "tx_Status tx = TransactionPending"
    and "call_update c tx = Inr (tx', x)"
  shows "\<exists>e. tx' = tx \<lparr> tx_LastError := e \<rparr>"
  using assms by (cases c) (auto simp: update_defs Let_def split: if_splits, metis transaction.surjective transaction.update_convs(18))

lemma harmless_step:
  assumes "tx_store_ok s" and "stored_ok vs_lookup s" and "vs_lookup s i = Some tx"
    and "tx_Status tx = TransactionPending" and "harmless tx c" and "tx_step memory_store c s = (r, s')"
  shows "\<exists>e. vs_lookup s' i = Some (tx \<lparr> tx_LastError := e \<rparr>)"
proof -
  have i: "tx_ID tx = i" using assms(2,3) by (simp add: stored_ok_def)
  have same: "\<exists>e. Some tx = Some (tx \<lparr> tx_LastError := e \<rparr>)" by (rule exI [of _ "tx_LastError tx"]) simp
  show ?thesis
  proof (cases "is_create c")
    case True
    then obtain now new where c: "c = CallCreate now new" by (cases c) auto
    with assms(6) have "s' = s \<or> (s' = tx_save new (tx_make_room now s) \<and> tx_ID new \<noteq> i)"
      using assms(3) by (auto simp: tx_step_def TxStore_Create_def vs_lookup_def Option.is_none_def split: if_splits)
    with make_room_keeps [OF assms(1,3), of now] assms(3,5) c same show ?thesis by auto
  next
    case False
    obtain q where q: "TxStore_Update (call_target c) (call_update c) s = (q, s')"
      using assms(6) tx_step_update [OF False, of memory_store s]
      by (cases "TxStore_Update (call_target c) (call_update c) s") auto
    then show ?thesis
    proof (cases rule: TxStore_Update_cases)
      case (failed e)
      with assms(3) same show ?thesis by simp
    next
      case (saved tx0 tx' y s1)
      have look: "vs_lookup s' = (vs_lookup s)(call_target c \<mapsto> tx'\<lparr> tx_ID := call_target c \<rparr>)"
        using saved(4,5) by (auto simp: vs_lookup_def fun_eq_iff)
      show ?thesis
      proof (cases "call_target c = i")
        case True
        with saved(1) assms(3) have "tx0 = tx" by simp
        with pending_update [OF assms(5) _ assms(4), of tx'] saved(2) True i obtain e where "tx' = tx \<lparr> tx_LastError := e \<rparr>"
          by auto
        with look True i have "vs_lookup s' i = Some (tx \<lparr> tx_LastError := e \<rparr>)" by (cases tx) simp
        then show ?thesis by blast
      next
        case False
        with look assms(3) same show ?thesis by simp
      qed
    qed
  qed
qed

lemma harmless_LastError: "harmless (tx \<lparr> tx_LastError := e \<rparr>) c = harmless tx c"
  by (cases c) simp_all

lemma harmless_calls:
  assumes "tx_store_ok s" and "stored_ok vs_lookup s" and "keys_ok s" and "vs_lookup s i = Some tx"
    and "tx_Status tx = TransactionPending" and "\<forall>c \<in> set cs. harmless tx c \<and> call_ok c"
  shows "\<exists>e. vs_lookup (calls_state (tx_step memory_store) cs s) i = Some (tx \<lparr> tx_LastError := e \<rparr>) \<and>
    tx_store_ok (calls_state (tx_step memory_store) cs s) \<and> keys_ok (calls_state (tx_step memory_store) cs s)"
  using assms
proof (induction cs arbitrary: s tx)
  case Nil
  then show ?case by (intro exI [of _ "tx_LastError tx"]) simp
next
  case (Cons c cs)
  obtain r s' where step: "tx_step memory_store c s = (r, s')" by (cases "tx_step memory_store c s")
  with Cons.prems obtain e where "vs_lookup s' i = Some (tx \<lparr> tx_LastError := e \<rparr>)"
    using harmless_step [of s i tx c r s'] by auto
  moreover have "tx_store_ok s'" "stored_ok vs_lookup s'" "keys_ok s'"
    using Cons.prems step txmem.step_ok txmem.step_stored_ok keys_step by (metis list.set_intros(1))+
  ultimately have "\<exists>e'. vs_lookup (calls_state (tx_step memory_store) cs s') i = Some (tx \<lparr> tx_LastError := e \<rparr> \<lparr> tx_LastError := e' \<rparr>) \<and>
    tx_store_ok (calls_state (tx_step memory_store) cs s') \<and> keys_ok (calls_state (tx_step memory_store) cs s')"
    using Cons.prems by (intro Cons.IH) (auto simp: harmless_LastError)
  with step show ?case by simp
qed

text \<open>C21: a pending request stays answerable through any sequence of refused answers, wrong codes, polling and
  calls on other requests: an answer that verifies before it expires then completes it, with its result.\<close>

theorem refusals_cancel_nothing:
  assumes "tx_store_ok s" and "stored_ok vs_lookup s" and "keys_ok s"
    and "vs_lookup s i = Some tx" and "tx_Status tx = TransactionPending"
    and "tx_Origin tx = []" and "tx_KeyID tx \<noteq> []" and "owns t tx"
    and "\<forall>c \<in> set cs. harmless tx c \<and> call_ok c"
    and "now < tx_ExpiresAt tx" and "now' < tx_ExpiresAt tx"
    and "ResponseKeyID (t_deps t) jwe = Inr (tx_KeyID tx)" and "tx_verify t tx jwe = Inr v"
  shows "\<exists>a s' tx'. HandleResponse memory_store t now now' (Some bs) (\<lambda>s. s) jwe (calls_state (tx_step memory_store) cs s) =
      ((a, None), s') \<and> an_ID a = i \<and> vs_lookup s' i = Some tx' \<and> tx_Result tx' = Some v \<and>
      tx_Status tx' = (if tx_SameDevice tx then TransactionAwaitingRedirect else TransactionDone)"
proof -
  define s0 where "s0 = calls_state (tx_step memory_store) cs s"
  obtain e where s0: "vs_lookup s0 i = Some (tx \<lparr> tx_LastError := e \<rparr>)" "tx_store_ok s0" "keys_ok s0"
    using harmless_calls [OF assms(1-5,9)] by (auto simp: s0_def)
  define cur where "cur = tx \<lparr> tx_LastError := e \<rparr>"
  have cur: "owns t cur" "checkPending n cur = checkPending n tx" "tx_Origin cur = []" "tx_SameDevice cur = tx_SameDevice tx"
    "tx_KeyID cur = tx_KeyID tx" "tx_Status cur = TransactionPending" for n
    using assms(5,6,8) by (simp_all add: cur_def owns_def checkPending_def)
  have pending: "checkPending now tx = None" "checkPending now' tx = None"
    using assms(5,10,11) by (simp_all add: checkPending_def)
  have "same_request tx cur"
    unfolding same_request_def cur_def
    by (rule exI [of _ "tx_Status tx"], rule exI [of _ "tx_ResponseCodeHash tx"], rule exI [of _ "tx_Result tx"],
      rule exI [of _ e]) simp
  with verify_progress [of cur tx t jwe] assms(13) have verify: "tx_verify t cur jwe = Inr v"
    by (simp add: cur_def)
  have "gm_get (vs_byKey s0) (tx_KeyID cur) = Some i"
    using s0(1,3) assms(7) cur(5) unfolding keys_ok_def cur_def by metis
  then have get: "TxStore_Get i s0 = Inr cur" "TxStore_IDByKeyID (tx_KeyID tx) s0 = Inr i"
    using s0(1) assms(7) cur(5) by (simp_all add: TxStore_Get_def TxStore_IDByKeyID_def vs_lookup_def cur_def)
  define code where "code = (if tx_SameDevice tx then EncodeToString bs else [])"
  obtain tx' where done': "complete_answer t now' v code cur = Inr (tx', NoCapture)" "tx_Result tx' = Some v"
    "tx_Status tx' = (if tx_SameDevice tx then TransactionAwaitingRedirect else TransactionDone)"
    using pending cur by (simp add: complete_answer_def Let_def)
  obtain q s' where upd: "tx_update memory_store t i (complete_answer t now' v code) s0 = (q, s')"
    by (cases "tx_update memory_store t i (complete_answer t now' v code) s0")
  have q: "q = Inr NoCapture" "vs_lookup s' i = Some (tx' \<lparr> tx_ID := i \<rparr>)"
    using upd s0(1) cur(1) done' by (auto simp: tx_update_def TxStore_Update_def vs_lookup_def owned_def cur_def Let_def
      tx_save_def split: if_splits)
  have "HandleResponse memory_store t now now' (Some bs) (\<lambda>s. s) jwe s0 =
      ((\<lparr> an_ID = i, an_RedirectURI = (if tx_SameDevice tx then dep t d_withQuery (conf t tc_RedirectURI) ''response_code'' code else []) \<rparr>,
        None), s')"
    using upd q(1) by (cases "tx_SameDevice tx") (simp_all add: HandleResponse_def assms(12) get tx_get_def cur pending verify randomToken_def code_def Let_def)
  with q done' show ?thesis by (auto simp: s0_def)
qed

lemma refusals_cancel_nothing_witness:
  "\<exists>a s' tx'. HandleResponse memory_store (ex_t True) 2 3 (Some [1, 2, 3]) (\<lambda>s. s) ''vp''
      (calls_state (tx_step memory_store)
        [CallFail (ex_t True) ''t'' ErrWrongBrowser, CallRedeem (ex_t True) ''t'' 1 ''x'' ''y'', CallClose (ex_t True) ''u''] (ex_store True)) =
      ((a, None), s') \<and> vs_lookup s' ''t'' = Some tx' \<and> tx_Result tx' = Some 7"
proof -
  have verify: "tx_verify (ex_t True) (ex_tx True) ''vp'' = Inr 7"
    by (simp add: tx_verify_def ParseDirectPostJWTResponse_def header_enc_def verifyParsed_def acceptVerified_def ex_defs)
  have keys: "keys_ok (ex_store True)" "vs_lookup (ex_store True) ''t'' = Some (ex_tx True)"
    by (auto simp: keys_ok_def ex_store vs_lookup_def ex_tx_def)
  show ?thesis
    using refusals_cancel_nothing [OF ex_store_ok keys, of "ex_t True" "[CallFail (ex_t True) ''t'' ErrWrongBrowser,
      CallRedeem (ex_t True) ''t'' 1 ''x'' ''y'', CallClose (ex_t True) ''u'']" 2 3 "''vp''" 7 "[1, 2, 3]"] verify
    by (simp add: ex_tx_def owns_def ex_t_def ResponseKeyID_def ex_deps_def) blast
qed

end
