(* ===== verification/Sdjwt_Resolve.thy ===== *)
theory Sdjwt_Resolve
  imports B64url
begin

text \<open>
  Disclosures and their resolution into an SD-JWT's payload: \<open>src/credential/sdjwtvc/resolve.go\<close>,
  \<open>disclosure.go\<close> and \<open>hash.go\<close>. The hash functions are a parameter, from an algorithm's name and the bytes
  hashed; a disclosure's \<open>encoded\<close> is what \<open>Encode\<close> returns, the string it was parsed from or made as. The maps
  the Go functions mutate are threaded: the digests \<open>seen\<close> and \<open>used\<close>. The depth is counted down: \<open>levels\<close> are those
  still allowed, \<open>maxDepth - depth + 1\<close>, and \<open>outer\<close> says the depth is zero.
\<close>

section \<open>Disclosures\<close>

record disclosure =
  di_Salt :: string
  di_Name :: string
  di_named :: bool
  di_Value :: goval
  di_encoded :: string

definition IsArrayElement :: "disclosure \<Rightarrow> bool" where
  "IsArrayElement d = (\<not> di_named d \<and> di_Name d = [])"

datatype sd_error =
    UnsupportedHash string
  | SameDigest string
  | TooDeep
  | NestedSdAlg
  | SdNotArray
  | SdNotString
  | DigestRepeated string
  | WrongKind string
  | ClaimExists string
  | RefNotString
  | Unreferenced nat
  | NotAnObject
  | BadSdAlg
  | BadDisclosure string
  | ReservedName string
  | NegativeElement int
  | NotObjectAt
  | NotArrayAt
  | BadComponent
  | NoFuel

type_synonym hash_fn = "string \<Rightarrow> string \<Rightarrow> nat list"

definition SHA256 :: string where "SHA256 = ''sha-256''"
definition SHA384 :: string where "SHA384 = ''sha-384''"
definition SHA512 :: string where "SHA512 = ''sha-512''"

definition hashString :: "hash_fn \<Rightarrow> string \<Rightarrow> string \<Rightarrow> sd_error + string" where
  "hashString h alg s =
     (if alg = SHA256 \<or> alg = SHA384 \<or> alg = SHA512 then Inr (EncodeToString (h alg s)) else Inl (UnsupportedHash alg))"

definition Digest :: "hash_fn \<Rightarrow> string \<Rightarrow> disclosure \<Rightarrow> sd_error + string" where
  "Digest h alg d = hashString h alg (di_encoded d)"

definition PayloadHashAlg :: "(string \<times> goval) list \<Rightarrow> string \<Rightarrow> sd_error + string" where
  "PayloadHashAlg payload fallback =
     (case gm_get payload ''_sd_alg'' of
        None \<Rightarrow> Inr fallback
      | Some raw \<Rightarrow>
          (case as_str raw of
             None \<Rightarrow> Inl BadSdAlg
           | Some declared \<Rightarrow> (if declared = [] then Inl BadSdAlg else Inr declared)))"

text \<open>\<open>ParseDisclosure\<close>, given base64url's and strict JSON's decoding of its elements: a string element is a
  JSON string.\<close>

definition ParseDisclosure :: "(nat list \<Rightarrow> goval list option) \<Rightarrow> string \<Rightarrow> sd_error + disclosure" where
  "ParseDisclosure json s =
     (case DecodeString s of
        Inl e \<Rightarrow> Inl (BadDisclosure ''decode'')
      | Inr raw \<Rightarrow>
          (case json raw of
             None \<Rightarrow> Inl (BadDisclosure ''unmarshal'')
           | Some arr \<Rightarrow>
               (case arr of
                  [salt, v] \<Rightarrow>
                    (case as_str salt of
                       None \<Rightarrow> Inl (BadDisclosure ''salt'')
                     | Some sl \<Rightarrow> Inr \<lparr> di_Salt = sl, di_Name = [], di_named = False, di_Value = v, di_encoded = s \<rparr>)
                | [salt, name, v] \<Rightarrow>
                    (case as_str salt of
                       None \<Rightarrow> Inl (BadDisclosure ''salt'')
                     | Some sl \<Rightarrow>
                         (case as_str name of
                            None \<Rightarrow> Inl (BadDisclosure ''name'')
                          | Some n \<Rightarrow>
                              (if n = ''_sd'' \<or> n = ''_sd_alg'' \<or> n = ''...'' then Inl (ReservedName n)
                               else Inr \<lparr> di_Salt = sl, di_Name = n, di_named = True, di_Value = v, di_encoded = s \<rparr>)))
                | _ \<Rightarrow> Inl (BadDisclosure ''elements''))))"

section \<open>Resolving\<close>

type_synonym by_digest = "(string, disclosure) gomap"

record marks =
  mk_used :: "string list"
  mk_seen :: "string list"

type_synonym resolver = "goval \<Rightarrow> marks \<Rightarrow> sd_error + goval \<times> marks"

definition mark_seen :: "string \<Rightarrow> marks \<Rightarrow> marks" where
  "mark_seen dg st = st \<lparr> mk_seen := mk_seen st @ [dg] \<rparr>"

definition mark_used :: "string \<Rightarrow> marks \<Rightarrow> marks" where
  "mark_used dg st = st \<lparr> mk_used := List.insert dg (mk_used st) \<rparr>"

text \<open>The members of an object but its own \<open>_sd\<close> and \<open>_sd_alg\<close>.\<close>

fun resolve_entries ::
  "resolver \<Rightarrow> bool \<Rightarrow> (string \<times> goval) list \<Rightarrow> (string, goval) gomap \<Rightarrow> marks \<Rightarrow> sd_error + (string, goval) gomap \<times> marks" where
  "resolve_entries rv outer [] out st = Inr (out, st)"
| "resolve_entries rv outer ((k, v) # m) out st =
     (if k = ''_sd_alg'' \<and> \<not> outer then Inl NestedSdAlg
      else if k = ''_sd'' \<or> k = ''_sd_alg'' then resolve_entries rv outer m out st
      else (case rv v st of
          Inl e \<Rightarrow> Inl e
        | Inr (r, st) \<Rightarrow> resolve_entries rv outer m (gm_put k r out) st))"

text \<open>The digests of its \<open>_sd\<close>.\<close>

fun resolveSDDigests ::
  "by_digest \<Rightarrow> resolver \<Rightarrow> goval list \<Rightarrow> (string, goval) gomap \<Rightarrow> marks \<Rightarrow> sd_error + (string, goval) gomap \<times> marks" where
  "resolveSDDigests B rv [] out st = Inr (out, st)"
| "resolveSDDigests B rv (item # items) out st =
     (case as_str item of
        None \<Rightarrow> Inl SdNotString
      | Some dg \<Rightarrow>
          (if dg \<in> set (mk_seen st) then Inl (DigestRepeated dg)
           else (let st = mark_seen dg st in
             (case gm_get B dg of
                None \<Rightarrow> resolveSDDigests B rv items out st
              | Some d \<Rightarrow>
                  (if IsArrayElement d then Inl (WrongKind dg)
                   else if gm_get out (di_Name d) \<noteq> None then Inl (ClaimExists (di_Name d))
                   else (case rv (di_Value d) (mark_used dg st) of
                       Inl e \<Rightarrow> Inl e
                     | Inr (r, st) \<Rightarrow> resolveSDDigests B rv items (gm_put (di_Name d) r out) st))))))"

definition resolveMap ::
  "by_digest \<Rightarrow> resolver \<Rightarrow> bool \<Rightarrow> (string \<times> goval) list \<Rightarrow> marks \<Rightarrow> sd_error + (string, goval) gomap \<times> marks" where
  "resolveMap B rv outer m st =
     (case resolve_entries rv outer m [] st of
        Inl e \<Rightarrow> Inl e
      | Inr (out, st) \<Rightarrow>
          (case gm_get m ''_sd'' of
             None \<Rightarrow> Inr (out, st)
           | Some sdRaw \<Rightarrow>
               (case as_arr sdRaw of
                  None \<Rightarrow> Inl SdNotArray
                | Some sdList \<Rightarrow> resolveSDDigests B rv sdList out st)))"

text \<open>An array element that is a reference: an object whose only member is "\<open>...\<close>".\<close>

definition ref_value :: "goval \<Rightarrow> goval option" where
  "ref_value el =
     (case as_obj el of
        Some [(k, v)] \<Rightarrow> (if k = ''...'' then Some v else None)
      | _ \<Rightarrow> None)"

fun resolveArray ::
  "by_digest \<Rightarrow> resolver \<Rightarrow> goval list \<Rightarrow> goval list \<Rightarrow> marks \<Rightarrow> sd_error + goval list \<times> marks" where
  "resolveArray B rv [] out st = Inr (out, st)"
| "resolveArray B rv (el # els) out st =
     (case ref_value el of
        Some raw \<Rightarrow>
          (case as_str raw of
             None \<Rightarrow> Inl RefNotString
           | Some dg \<Rightarrow>
               (if dg \<in> set (mk_seen st) then Inl (DigestRepeated dg)
                else (let st = mark_seen dg st in
                  (case gm_get B dg of
                     None \<Rightarrow> resolveArray B rv els out st
                   | Some d \<Rightarrow>
                       (if \<not> IsArrayElement d then Inl (WrongKind dg)
                        else (case rv (di_Value d) (mark_used dg st) of
                            Inl e \<Rightarrow> Inl e
                          | Inr (r, st) \<Rightarrow> resolveArray B rv els (out @ [r]) st))))))
      | None \<Rightarrow>
          (case rv el st of
             Inl e \<Rightarrow> Inl e
           | Inr (r, st) \<Rightarrow> resolveArray B rv els (out @ [r]) st))"

primrec resolveValue :: "by_digest \<Rightarrow> nat \<Rightarrow> bool \<Rightarrow> resolver" where
  "resolveValue B 0 outer v st = Inl TooDeep"
| "resolveValue B (Suc levels) outer v st =
     (case v of
        GObj m \<Rightarrow>
          (case resolveMap B (resolveValue B levels False) outer m st of
             Inl e \<Rightarrow> Inl e | Inr (out, st) \<Rightarrow> Inr (GObj out, st))
      | GArr els \<Rightarrow>
          (case resolveArray B (resolveValue B levels False) els [] st of
             Inl e \<Rightarrow> Inl e | Inr (out, st) \<Rightarrow> Inr (GArr out, st))
      | _ \<Rightarrow> Inr (v, st))"

definition MaxResolveDepth :: int where
  "MaxResolveDepth = 32"

fun index_disclosures :: "hash_fn \<Rightarrow> string \<Rightarrow> disclosure list \<Rightarrow> by_digest \<Rightarrow> sd_error + by_digest" where
  "index_disclosures h alg [] B = Inr B"
| "index_disclosures h alg (d # ds) B =
     (case Digest h alg d of
        Inl e \<Rightarrow> Inl e
      | Inr dg \<Rightarrow> (if gm_get B dg \<noteq> None then Inl (SameDigest dg) else index_disclosures h alg ds (gm_put dg d B)))"

definition levels_of :: "int \<Rightarrow> nat" where
  "levels_of maxDepth = nat (maxDepth + 1)"

definition ResolveDisclosuresMax ::
  "hash_fn \<Rightarrow> (string \<times> goval) list \<Rightarrow> string \<Rightarrow> disclosure list \<Rightarrow> int \<Rightarrow> sd_error + (string, goval) gomap" where
  "ResolveDisclosuresMax h payload alg disclosures maxDepth =
     (case index_disclosures h alg disclosures [] of
        Inl e \<Rightarrow> Inl e
      | Inr B \<Rightarrow>
          (case resolveValue B (levels_of maxDepth) True (GObj payload) \<lparr> mk_used = [], mk_seen = [] \<rparr> of
             Inl e \<Rightarrow> Inl e
           | Inr (resolved, st) \<Rightarrow>
               (case as_obj resolved of
                  None \<Rightarrow> Inl NotAnObject
                | Some resolvedMap \<Rightarrow>
                    (if length (mk_used st) \<noteq> length disclosures
                     then Inl (Unreferenced (length disclosures - length (mk_used st)))
                     else Inr resolvedMap))))"

definition ResolveDisclosures ::
  "hash_fn \<Rightarrow> (string \<times> goval) list \<Rightarrow> string \<Rightarrow> disclosure list \<Rightarrow> sd_error + (string, goval) gomap" where
  "ResolveDisclosures h payload alg disclosures = ResolveDisclosuresMax h payload alg disclosures MaxResolveDepth"

section \<open>The Processed Payload\<close>

text \<open>RFC 9901 section 7.1, step 3, as a relation: what a value stands for when the digests of \<open>B\<close> are disclosed. An
  object keeps its own members and gains one for each disclosed digest; an array drops the references with no
  Disclosure.\<close>

definition sd_digests :: "(string \<times> goval) list \<Rightarrow> string list" where
  "sd_digests m = (case gm_get m ''_sd'' of Some (GArr items) \<Rightarrow> List.map_filter as_str items | _ \<Rightarrow> [])"

definition own_name :: "string \<Rightarrow> bool" where
  "own_name k = (k \<noteq> ''_sd'' \<and> k \<noteq> ''_sd_alg'')"

definition is_scalar :: "goval \<Rightarrow> bool" where
  "is_scalar v = (as_obj v = None \<and> as_arr v = None)"

inductive processed :: "by_digest \<Rightarrow> goval \<Rightarrow> goval \<Rightarrow> bool"
  and processed_elements :: "by_digest \<Rightarrow> goval list \<Rightarrow> goval list \<Rightarrow> bool"
  for B :: by_digest where
  scalar: "is_scalar v \<Longrightarrow> processed B v v"
| object: "gm_ok out \<Longrightarrow>
    (\<And>k r. gm_get out k = Some r \<Longrightarrow>
       (own_name k \<and> (\<exists>v. gm_get m k = Some v \<and> processed B v r)) \<or>
       (\<exists>dg d. dg \<in> set (sd_digests m) \<and> gm_get B dg = Some d \<and> \<not> IsArrayElement d \<and> di_Name d = k \<and>
          (own_name k \<longrightarrow> gm_get m k = None) \<and> processed B (di_Value d) r)) \<Longrightarrow>
    (\<And>k. own_name k \<Longrightarrow> gm_get m k \<noteq> None \<Longrightarrow> gm_get out k \<noteq> None) \<Longrightarrow>
    (\<And>dg d. dg \<in> set (sd_digests m) \<Longrightarrow> gm_get B dg = Some d \<Longrightarrow> gm_get out (di_Name d) \<noteq> None) \<Longrightarrow>
    processed B (GObj m) (GObj out)"
| array: "processed_elements B els rs \<Longrightarrow> processed B (GArr els) (GArr rs)"
| no_elements: "processed_elements B [] []"
| dropped: "ref_value el = Some (GStr dg) \<Longrightarrow> gm_get B dg = None \<Longrightarrow> processed_elements B els rs \<Longrightarrow>
    processed_elements B (el # els) rs"
| disclosed: "ref_value el = Some (GStr dg) \<Longrightarrow> gm_get B dg = Some d \<Longrightarrow> IsArrayElement d \<Longrightarrow>
    processed B (di_Value d) r \<Longrightarrow> processed_elements B els rs \<Longrightarrow> processed_elements B (el # els) (r # rs)"
| plain: "ref_value el = None \<Longrightarrow> processed B el r \<Longrightarrow> processed_elements B els rs \<Longrightarrow>
    processed_elements B (el # els) (r # rs)"

text \<open>The digests a value embeds, those of the Disclosures they lead to included, to a depth.\<close>

definition below :: "by_digest \<Rightarrow> (goval \<Rightarrow> string list) \<Rightarrow> string \<Rightarrow> string list" where
  "below B F dg = dg # (case gm_get B dg of None \<Rightarrow> [] | Some d \<Rightarrow> F (di_Value d))"

definition element_digests :: "by_digest \<Rightarrow> (goval \<Rightarrow> string list) \<Rightarrow> goval \<Rightarrow> string list" where
  "element_digests B F el = (case ref_value el of Some (GStr dg) \<Rightarrow> below B F dg | _ \<Rightarrow> F el)"

primrec embedded :: "by_digest \<Rightarrow> nat \<Rightarrow> goval \<Rightarrow> string list" where
  "embedded B 0 v = []"
| "embedded B (Suc n) v =
     (case v of
        GObj m \<Rightarrow> concat (map (\<lambda>(k, w). if own_name k then embedded B n w else []) m) @
          concat (map (below B (embedded B n)) (sd_digests m))
      | GArr els \<Rightarrow> concat (map (element_digests B (embedded B n)) els)
      | _ \<Rightarrow> [])"

text \<open>How deep a value nests, and the member names that may stand in a resolved one.\<close>

primrec nests_within :: "nat \<Rightarrow> goval \<Rightarrow> bool" where
  "nests_within 0 v = False"
| "nests_within (Suc n) v =
     (case v of
        GObj m \<Rightarrow> list_all (\<lambda>(k, w). nests_within n w) m
      | GArr els \<Rightarrow> list_all (nests_within n) els
      | _ \<Rightarrow> True)"

fun names_ok :: "goval \<Rightarrow> bool" where
  "names_ok (GObj m) = (\<forall>kv \<in> set m. own_name (fst kv) \<and> names_ok (snd kv))"
| "names_ok (GArr els) = (\<forall>el \<in> set els. names_ok el)"
| "names_ok _ = True"

section \<open>What resolving does\<close>

text \<open>What the recursive calls of \<open>rv\<close> on \<open>v\<close> establish.\<close>

definition establishes :: "resolver \<Rightarrow> (goval \<Rightarrow> goval \<Rightarrow> bool) \<Rightarrow> goval \<Rightarrow> bool" where
  "establishes rv P v = (\<forall>st r st'. rv v st = Inr (r, st') \<longrightarrow> P v r)"

definition all_establish :: "resolver \<Rightarrow> (goval \<Rightarrow> goval \<Rightarrow> bool) \<Rightarrow> by_digest \<Rightarrow> bool" where
  "all_establish rv P B = (\<forall>dg d. gm_get B dg = Some d \<longrightarrow> establishes rv P (di_Value d))"

lemma all_establishD: "all_establish rv P B \<Longrightarrow> gm_get B dg = Some d \<Longrightarrow> establishes rv P (di_Value d)"
  by (auto simp: all_establish_def)

lemma establishesD: "establishes rv P v \<Longrightarrow> rv v st = Inr (r, st') \<Longrightarrow> P v r"
  by (auto simp: establishes_def)

text \<open>The loops, for any relation \<open>P\<close> their recursive calls establish.\<close>

lemma resolve_entries_rel:
  assumes "resolve_entries rv outer m out st = Inr (out', st')" and "gm_ok m"
    and "\<forall>kv \<in> set m. establishes rv P (snd kv)"
  shows "(gm_ok out \<longrightarrow> gm_ok out') \<and>
    ((\<exists>v r. own_name k \<and> gm_get m k = Some v \<and> P v r \<and> gm_get out' k = Some r) \<or>
     ((own_name k \<longrightarrow> gm_get m k = None) \<and> gm_get out' k = gm_get out k))"
  using assms
proof (induction m arbitrary: out st)
  case (Cons a m)
  obtain k' v where a: "a = (k', v)" by (cases a)
  have fresh: "gm_get m k' = None" using Cons.prems(2) by (auto simp: a map_of_eq_None_iff)
  have ok: "gm_ok m" using Cons.prems(2) by (simp add: a)
  have P: "\<forall>kv \<in> set m. establishes rv P (snd kv)" and Pv: "establishes rv P v"
    using Cons.prems(3) by (simp_all add: a)
  show ?case
  proof (cases "own_name k'")
    case False
    with Cons.prems(1) have "resolve_entries rv outer m out st = Inr (out', st')"
      by (auto simp: a own_name_def split: if_splits)
    from Cons.IH [OF this ok P] False fresh show ?thesis by (auto simp: a)
  next
    case True
    with Cons.prems(1) obtain r st1 where rv: "rv v st = Inr (r, st1)"
      and rest: "resolve_entries rv outer m (gm_put k' r out) st1 = Inr (out', st')"
      by (auto simp: a own_name_def split: if_splits sum.splits)
    have "P v r" using establishesD [OF Pv rv] .
    with Cons.IH [OF rest ok P] True fresh show ?thesis by (auto simp: a)
  qed
qed simp

lemma resolveSDDigests_rel:
  assumes "resolveSDDigests B rv items out st = Inr (out', st')"
    and "all_establish rv P B"
  shows "(gm_ok out \<longrightarrow> gm_ok out') \<and>
    (gm_get out' k = gm_get out k \<or>
     (gm_get out k = None \<and> (\<exists>dg d r. dg \<in> set (List.map_filter as_str items) \<and> gm_get B dg = Some d \<and>
        \<not> IsArrayElement d \<and> di_Name d = k \<and> P (di_Value d) r \<and> gm_get out' k = Some r))) \<and>
    (\<forall>dg d. dg \<in> set (List.map_filter as_str items) \<longrightarrow> gm_get B dg = Some d \<longrightarrow> gm_get out' (di_Name d) \<noteq> None)"
  using assms(1)
proof (induction items arbitrary: out st k)
  case (Cons item items)
  from Cons.prems obtain dg where item: "item = GStr dg" by (cases item) auto
  show ?case
  proof (cases "gm_get B dg")
    case None
    with Cons.prems item have "resolveSDDigests B rv items out (mark_seen dg st) = Inr (out', st')"
      by (auto simp: Let_def split: if_splits)
    from Cons.IH [OF this, of k] None item show ?thesis by (fastforce simp: map_filter_simps)
  next
    case (Some d)
    with Cons.prems item obtain r st1 where kind: "\<not> IsArrayElement d" "gm_get out (di_Name d) = None"
      and rv: "rv (di_Value d) (mark_used dg (mark_seen dg st)) = Inr (r, st1)"
      and rest: "resolveSDDigests B rv items (gm_put (di_Name d) r out) st1 = Inr (out', st')"
      by (auto simp: Let_def split: if_splits sum.splits)
    have P: "P (di_Value d) r" using establishesD [OF all_establishD [OF assms(2) Some] rv] .
    from Cons.IH [OF rest, of "di_Name d"] have name: "gm_get out' (di_Name d) = Some r" by auto
    show ?thesis
    proof (cases "k = di_Name d")
      case True
      with Cons.IH [OF rest, of k] name P Some item kind show ?thesis by (auto simp: map_filter_simps)
    next
      case False
      with Cons.IH [OF rest, of k] name Some item show ?thesis by (auto simp: map_filter_simps)
    qed
  qed
qed (simp add: map_filter_simps)

lemma resolveArray_rel:
  assumes "resolveArray B rv els out st = Inr (out', st')"
    and "\<forall>el \<in> set els. establishes rv (processed B) el"
    and "all_establish rv (processed B) B"
  shows "\<exists>rs. out' = out @ rs \<and> processed_elements B els rs"
  using assms(1,2)
proof (induction els arbitrary: out st)
  case Nil
  then show ?case by (auto intro: no_elements)
next
  case (Cons el els)
  have elems: "\<forall>el \<in> set els. establishes rv (processed B) el" and el: "establishes rv (processed B) el"
    using Cons.prems(2) by simp_all
  show ?case
  proof (cases "ref_value el")
    case None
    with Cons.prems(1) obtain r st1 where rv: "rv el st = Inr (r, st1)"
      and rest: "resolveArray B rv els (out @ [r]) st1 = Inr (out', st')" by (auto split: sum.splits)
    have "processed B el r" using establishesD [OF el rv] .
    with Cons.IH [OF rest elems] None show ?thesis by (auto intro: plain)
  next
    case (Some raw)
    with Cons.prems(1) obtain dg where raw: "raw = GStr dg" by (cases raw) auto
    show ?thesis
    proof (cases "gm_get B dg")
      case None
      with Cons.prems(1) Some raw have "resolveArray B rv els out (mark_seen dg st) = Inr (out', st')"
        by (auto simp: Let_def split: if_splits)
      from Cons.IH [OF this elems] None Some raw show ?thesis by (auto intro: dropped)
    next
      case d: (Some d)
      with Cons.prems(1) Some raw obtain r st1 where kind: "IsArrayElement d"
        and rv: "rv (di_Value d) (mark_used dg (mark_seen dg st)) = Inr (r, st1)"
        and rest: "resolveArray B rv els (out @ [r]) st1 = Inr (out', st')"
        by (auto simp: Let_def split: if_splits sum.splits)
      have "processed B (di_Value d) r" using establishesD [OF all_establishD [OF assms(3) d] rv] .
      with Cons.IH [OF rest elems] d Some raw kind show ?thesis by (auto intro: disclosed)
    qed
  qed
qed

text \<open>Every value the index holds is a decoded one.\<close>

definition values_ok :: "by_digest \<Rightarrow> bool" where
  "values_ok B = (\<forall>dg d. gm_get B dg = Some d \<longrightarrow> goval_ok (di_Value d))"

lemma resolveMap_processed:
  assumes "resolveMap B rv outer m st = Inr (out, st')" and "gm_ok m"
    and "\<forall>kv \<in> set m. establishes rv (processed B) (snd kv)"
    and "all_establish rv (processed B) B"
  shows "processed B (GObj m) (GObj out)"
proof -
  obtain out1 st1 where entries: "resolve_entries rv outer m [] st = Inr (out1, st1)"
    and sd: "gm_get m ''_sd'' = None \<and> out = out1 \<or>
      (\<exists>items. gm_get m ''_sd'' = Some (GArr items) \<and> resolveSDDigests B rv items out1 st1 = Inr (out, st'))"
    using assms(1) by (auto simp: resolveMap_def split: sum.splits option.splits)
  have own: "(gm_ok out1) \<and>
      ((\<exists>v r. own_name k \<and> gm_get m k = Some v \<and> processed B v r \<and> gm_get out1 k = Some r) \<or>
       ((own_name k \<longrightarrow> gm_get m k = None) \<and> gm_get out1 k = None))" for k
    using resolve_entries_rel [OF entries assms(2,3), of k] by auto
  from sd show ?thesis
  proof (elim disjE exE conjE)
    assume none: "gm_get m ''_sd'' = None" and out: "out = out1"
    show ?thesis unfolding out
    proof (rule object)
      show "gm_ok out1" using own by blast
      show "(own_name k \<and> (\<exists>v. gm_get m k = Some v \<and> processed B v r)) \<or>
         (\<exists>dg d. dg \<in> set (sd_digests m) \<and> gm_get B dg = Some d \<and> \<not> IsArrayElement d \<and> di_Name d = k \<and>
            (own_name k \<longrightarrow> gm_get m k = None) \<and> processed B (di_Value d) r)"
        if "gm_get out1 k = Some r" for k r
        using that own [of k] by auto
      show "gm_get out1 k \<noteq> None" if "own_name k" "gm_get m k \<noteq> None" for k
        using that own [of k] by auto
    qed (simp add: none sd_digests_def)
  next
    fix items
    assume items: "gm_get m ''_sd'' = Some (GArr items)" and run: "resolveSDDigests B rv items out1 st1 = Inr (out, st')"
    note digests = resolveSDDigests_rel [OF run assms(4)]
    have sd_items: "sd_digests m = List.map_filter as_str items" by (simp add: sd_digests_def items)
    show ?thesis
    proof (rule object)
      show "gm_ok out" using digests own by blast
      show "(own_name k \<and> (\<exists>v. gm_get m k = Some v \<and> processed B v r)) \<or>
         (\<exists>dg d. dg \<in> set (sd_digests m) \<and> gm_get B dg = Some d \<and> \<not> IsArrayElement d \<and> di_Name d = k \<and>
            (own_name k \<longrightarrow> gm_get m k = None) \<and> processed B (di_Value d) r)"
        if "gm_get out k = Some r" for k r
        using that digests [of k] own [of k] by (auto simp: sd_items)
      show "gm_get out k \<noteq> None" if "own_name k" "gm_get m k \<noteq> None" for k
        using that digests [of k] own [of k] by auto
      show "gm_get out (di_Name d) \<noteq> None" if "dg \<in> set (sd_digests m)" "gm_get B dg = Some d" for dg d
        using that digests by (auto simp: sd_items)
    qed
  qed
qed

lemma resolveValue_processed:
  assumes "values_ok B" and "resolveValue B levels outer v st = Inr (r, st')" and "goval_ok v"
  shows "processed B v r"
  using assms(2,3)
proof (induction levels arbitrary: outer v st r st')
  case (Suc levels)
  have below: "goval_ok w \<Longrightarrow> establishes (resolveValue B levels False) (processed B) w" for w
    using Suc.IH by (auto simp: establishes_def)
  then have disclosed: "all_establish (resolveValue B levels False) (processed B) B"
    using assms(1) by (auto simp: values_ok_def all_establish_def)
  show ?case
  proof (cases v)
    case (GObj m)
    with Suc.prems(1) obtain out where run: "resolveMap B (resolveValue B levels False) outer m st = Inr (out, st')" "r = GObj out"
      by (auto split: sum.splits)
    have "processed B (GObj m) (GObj out)"
    proof (rule resolveMap_processed [OF run(1)])
      show "gm_ok m" using Suc.prems(2) GObj by simp
      show "\<forall>kv \<in> set m. establishes (resolveValue B levels False) (processed B) (snd kv)"
        using below Suc.prems(2) GObj by auto
    qed (rule disclosed)
    with GObj run show ?thesis by simp
  next
    case (GArr els)
    with Suc.prems(1) obtain out where run: "resolveArray B (resolveValue B levels False) els [] st = Inr (out, st')" "r = GArr out"
      by (auto split: sum.splits)
    have "\<exists>rs. out = [] @ rs \<and> processed_elements B els rs"
    proof (rule resolveArray_rel [OF run(1)])
      show "\<forall>el \<in> set els. establishes (resolveValue B levels False) (processed B) el"
        using below Suc.prems(2) GArr by auto
    qed (rule disclosed)
    with GArr run show ?thesis by (auto intro: array)
  qed (use Suc.prems(1) in \<open>auto intro: scalar simp: is_scalar_def\<close>)
qed simp

section \<open>Bounds and names\<close>

lemma resolveArray_all:
  assumes "resolveArray B rv els out st = Inr (out', st')"
    and "\<forall>v st r st'. goval_ok v \<longrightarrow> rv v st = Inr (r, st') \<longrightarrow> Q r"
    and "\<forall>el \<in> set els. goval_ok el" and "values_ok B" and "\<forall>r \<in> set out. Q r"
  shows "\<forall>r \<in> set out'. Q r"
  using assms(1,3,5)
proof (induction els arbitrary: out st)
  case (Cons el els)
  from Cons.prems(1) consider st1 where "resolveArray B rv els out st1 = Inr (out', st')"
    | v r st0 st1 where "rv v st0 = Inr (r, st1)" "goval_ok v" "resolveArray B rv els (out @ [r]) st1 = Inr (out', st')"
    using Cons.prems(2) assms(4) by (auto simp: Let_def values_ok_def split: option.splits if_splits sum.splits)
  then show ?case
  proof cases
    case 1
    from Cons.IH [OF this] Cons.prems show ?thesis by simp
  next
    case 2
    from assms(2) 2(1,2) have "Q r" by blast
    with Cons.IH [OF 2(3)] Cons.prems show ?thesis by simp
  qed
qed simp

text \<open>A resolved value nests no deeper than the levels allowed.\<close>

lemma resolveMap_within:
  assumes "resolveMap B rv outer m st = Inr (out, st')" and "gm_ok m"
    and "\<forall>v st r st'. goval_ok v \<longrightarrow> rv v st = Inr (r, st') \<longrightarrow> Q r"
    and "\<forall>kv \<in> set m. goval_ok (snd kv)" and "values_ok B"
  shows "\<forall>kv \<in> set out. Q (snd kv)"
proof -
  have est: "establishes rv (\<lambda>v r. Q r) v" if "goval_ok v" for v
    using assms(3) that by (auto simp: establishes_def)
  have disclosed: "all_establish rv (\<lambda>v r. Q r) B"
    using est assms(5) by (auto simp: all_establish_def values_ok_def)
  obtain out1 st1 where entries: "resolve_entries rv outer m [] st = Inr (out1, st1)"
    and sd: "out = out1 \<or> (\<exists>items. resolveSDDigests B rv items out1 st1 = Inr (out, st'))"
    using assms(1) by (fastforce simp: resolveMap_def split: sum.splits option.splits)
  have members: "\<forall>kv \<in> set m. establishes rv (\<lambda>v r. Q r) (snd kv)" using est assms(4) by blast
  have own: "gm_ok out1 \<and> (gm_get out1 k = Some r \<longrightarrow> Q r)" for k r
    using resolve_entries_rel [OF entries assms(2) members, of k] by auto
  have "gm_ok out \<and> (gm_get out k = Some r \<longrightarrow> Q r)" for k r
    using sd
  proof (elim disjE exE)
    fix items assume "resolveSDDigests B rv items out1 st1 = Inr (out, st')"
    from resolveSDDigests_rel [OF this disclosed, of k] own [of k r] show ?thesis by auto
  qed (use own [of k r] in simp)
  then show ?thesis by (metis gm_ok_def map_of_is_SomeI prod.collapse)
qed

lemma resolveValue_within:
  assumes "values_ok B" and "resolveValue B levels outer v st = Inr (r, st')" and "goval_ok v"
  shows "nests_within levels r"
  using assms(2,3)
proof (induction levels arbitrary: outer v st r st')
  case (Suc n)
  have below: "\<forall>v st r st'. goval_ok v \<longrightarrow> resolveValue B n False v st = Inr (r, st') \<longrightarrow> nests_within n r"
    using Suc.IH by blast
  show ?case
  proof (cases v)
    case (GObj m)
    with Suc.prems(1) obtain out where run: "resolveMap B (resolveValue B n False) outer m st = Inr (out, st')" "r = GObj out"
      by (auto split: sum.splits)
    have "\<forall>kv \<in> set out. nests_within n (snd kv)"
      using resolveMap_within [OF run(1) _ below] Suc.prems(2) GObj assms(1) by simp
    with run(2) show ?thesis by (auto simp: list_all_iff)
  next
    case (GArr els)
    with Suc.prems(1) obtain out where run: "resolveArray B (resolveValue B n False) els [] st = Inr (out, st')" "r = GArr out"
      by (auto split: sum.splits)
    have "\<forall>el \<in> set out. nests_within n el"
      using resolveArray_all [OF run(1) below] Suc.prems(2) GArr assms(1) by simp
    with run(2) show ?thesis by (auto simp: list_all_iff)
  qed (use Suc.prems(1) in auto)
qed simp

text \<open>Given Disclosures whose names are none of the reserved ones, no \<open>_sd\<close> and no \<open>_sd_alg\<close> is left.\<close>

definition names_allowed :: "by_digest \<Rightarrow> bool" where
  "names_allowed B = (\<forall>dg d. gm_get B dg = Some d \<longrightarrow> IsArrayElement d \<or> own_name (di_Name d))"

lemma processed_names:
  assumes "names_allowed B"
  shows "processed B v r \<Longrightarrow> names_ok r" and "processed_elements B els rs \<Longrightarrow> \<forall>r \<in> set rs. names_ok r"
proof (induction rule: processed_processed_elements.inducts)
  case (scalar v)
  then show ?case by (cases v) (simp_all add: is_scalar_def)
next
  case (object out m)
  have "own_name k \<and> names_ok r" if "gm_get out k = Some r" for k r
    using object that assms by (fastforce simp: names_allowed_def)
  then show ?case using object.hyps(1) by (auto simp: gm_ok_def)
qed auto

lemma ParseDisclosure_name: "ParseDisclosure json s = Inr d \<Longrightarrow> IsArrayElement d \<or> own_name (di_Name d)"
  by (auto simp: ParseDisclosure_def IsArrayElement_def own_name_def split: sum.splits option.splits list.splits if_splits)

section \<open>Accounting for digests\<close>

text \<open>From \<open>st\<close> to \<open>st'\<close> exactly the digests \<open>E\<close> were met, none seen before, and the Disclosures among them used.\<close>

definition accounts :: "by_digest \<Rightarrow> marks \<Rightarrow> marks \<Rightarrow> string list \<Rightarrow> bool" where
  "accounts B st st' E =
     (mk_seen st' = mk_seen st @ E \<and> (distinct (mk_seen st) \<longrightarrow> distinct (mk_seen st')) \<and>
      set (mk_used st') = set (mk_used st) \<union> {dg \<in> set E. gm_get B dg \<noteq> None} \<and>
      (distinct (mk_used st) \<longrightarrow> distinct (mk_used st')))"

lemma accounts_refl: "accounts B st st []"
  by (simp add: accounts_def)

lemma accounts_trans: "accounts B st st1 E \<Longrightarrow> accounts B st1 st2 F \<Longrightarrow> accounts B st st2 (E @ F)"
  by (auto simp: accounts_def)

lemma accounts_seen: "dg \<notin> set (mk_seen st) \<Longrightarrow> gm_get B dg = None \<Longrightarrow> accounts B st (mark_seen dg st) [dg]"
  by (auto simp: accounts_def mark_seen_def)

lemma accounts_used:
  "dg \<notin> set (mk_seen st) \<Longrightarrow> gm_get B dg = Some d \<Longrightarrow> accounts B st (mark_used dg (mark_seen dg st)) [dg]"
  by (auto simp: accounts_def mark_seen_def mark_used_def)

definition accounted :: "by_digest \<Rightarrow> resolver \<Rightarrow> (goval \<Rightarrow> string list) \<Rightarrow> bool" where
  "accounted B rv F = (\<forall>v st r st'. rv v st = Inr (r, st') \<longrightarrow> accounts B st st' (F v))"

lemma accountedD: "accounted B rv F \<Longrightarrow> rv v st = Inr (r, st') \<Longrightarrow> accounts B st st' (F v)"
  by (auto simp: accounted_def)

lemma resolve_entries_accounts:
  assumes "accounted B rv F" and "resolve_entries rv outer m out st = Inr (out', st')"
  shows "accounts B st st' (concat (map (\<lambda>(k, w). if own_name k then F w else []) m))"
  using assms(2)
proof (induction m arbitrary: out st)
  case (Cons a m)
  obtain k v where a: "a = (k, v)" by (cases a)
  show ?case
  proof (cases "own_name k")
    case False
    with Cons.prems have "resolve_entries rv outer m out st = Inr (out', st')"
      by (auto simp: a own_name_def split: if_splits)
    from Cons.IH [OF this] False show ?thesis by (simp add: a)
  next
    case True
    with Cons.prems obtain r st1 where rv: "rv v st = Inr (r, st1)"
      and rest: "resolve_entries rv outer m (gm_put k r out) st1 = Inr (out', st')"
      by (auto simp: a own_name_def split: if_splits sum.splits)
    from accounts_trans [OF accountedD [OF assms(1) rv] Cons.IH [OF rest]] True show ?thesis by (simp add: a)
  qed
qed (simp add: accounts_refl)

lemma resolveSDDigests_accounts:
  assumes "accounted B rv F" and "resolveSDDigests B rv items out st = Inr (out', st')"
  shows "accounts B st st' (concat (map (below B F) (List.map_filter as_str items)))"
  using assms(2)
proof (induction items arbitrary: out st)
  case (Cons item items)
  from Cons.prems obtain dg where item: "item = GStr dg" by (cases item) auto
  with Cons.prems have new: "dg \<notin> set (mk_seen st)" by (auto split: if_splits)
  show ?case
  proof (cases "gm_get B dg")
    case None
    with Cons.prems item have "resolveSDDigests B rv items out (mark_seen dg st) = Inr (out', st')"
      by (auto simp: Let_def split: if_splits)
    from accounts_trans [OF accounts_seen [OF new None] Cons.IH [OF this]] None item show ?thesis
      by (simp add: map_filter_simps below_def)
  next
    case (Some d)
    with Cons.prems item obtain r st1 where rv: "rv (di_Value d) (mark_used dg (mark_seen dg st)) = Inr (r, st1)"
      and rest: "resolveSDDigests B rv items (gm_put (di_Name d) r out) st1 = Inr (out', st')"
      by (auto simp: Let_def split: if_splits sum.splits)
    from accounts_trans [OF accounts_trans [OF accounts_used [OF new Some] accountedD [OF assms(1) rv]] Cons.IH [OF rest]]
    show ?thesis using Some item by (simp add: map_filter_simps below_def)
  qed
qed (simp add: accounts_refl map_filter_simps)

lemma resolveArray_accounts:
  assumes "accounted B rv F" and "resolveArray B rv els out st = Inr (out', st')"
  shows "accounts B st st' (concat (map (element_digests B F) els))"
  using assms(2)
proof (induction els arbitrary: out st)
  case (Cons el els)
  show ?case
  proof (cases "ref_value el")
    case None
    with Cons.prems obtain r st1 where rv: "rv el st = Inr (r, st1)"
      and rest: "resolveArray B rv els (out @ [r]) st1 = Inr (out', st')" by (auto split: sum.splits)
    from accounts_trans [OF accountedD [OF assms(1) rv] Cons.IH [OF rest]] None show ?thesis
      by (simp add: element_digests_def)
  next
    case (Some raw)
    with Cons.prems obtain dg where raw: "raw = GStr dg" by (cases raw) auto
    with Some Cons.prems have new: "dg \<notin> set (mk_seen st)" by (auto split: if_splits)
    show ?thesis
    proof (cases "gm_get B dg")
      case None
      with Cons.prems Some raw have "resolveArray B rv els out (mark_seen dg st) = Inr (out', st')"
        by (auto simp: Let_def split: if_splits)
      from accounts_trans [OF accounts_seen [OF new None] Cons.IH [OF this]] None Some raw show ?thesis
        by (simp add: element_digests_def below_def)
    next
      case d: (Some d)
      with Cons.prems Some raw obtain r st1 where rv: "rv (di_Value d) (mark_used dg (mark_seen dg st)) = Inr (r, st1)"
        and rest: "resolveArray B rv els (out @ [r]) st1 = Inr (out', st')"
        by (auto simp: Let_def split: if_splits sum.splits)
      from accounts_trans [OF accounts_trans [OF accounts_used [OF new d] accountedD [OF assms(1) rv]] Cons.IH [OF rest]]
      show ?thesis using d Some raw by (simp add: element_digests_def below_def)
    qed
  qed
qed (simp add: accounts_refl)

lemma resolveValue_accounts: "accounted B (resolveValue B levels outer) (embedded B levels)"
proof (induction levels arbitrary: outer)
  case 0
  show ?case by (simp add: accounted_def)
next
  case (Suc n)
  show ?case unfolding accounted_def
  proof (intro allI impI)
    fix v st r st'
    assume run: "resolveValue B (Suc n) outer v st = Inr (r, st')"
    show "accounts B st st' (embedded B (Suc n) v)"
    proof (cases v)
      case (GObj m)
      with run obtain out where "resolveMap B (resolveValue B n False) outer m st = Inr (out, st')" by (auto split: sum.splits)
      then obtain out1 st1 where entries: "resolve_entries (resolveValue B n False) outer m [] st = Inr (out1, st1)"
        and sd: "gm_get m ''_sd'' = None \<and> st' = st1 \<or>
          (\<exists>items. gm_get m ''_sd'' = Some (GArr items) \<and> resolveSDDigests B (resolveValue B n False) items out1 st1 = Inr (out, st'))"
        by (auto simp: resolveMap_def split: sum.splits option.splits)
      note own = resolve_entries_accounts [OF Suc.IH entries]
      from sd show ?thesis
      proof (elim disjE exE conjE)
        assume "gm_get m ''_sd'' = None" "st' = st1"
        with own show ?thesis by (simp only: embedded.simps GObj) (simp add: sd_digests_def)
      next
        fix items
        assume items: "gm_get m ''_sd'' = Some (GArr items)"
          and run: "resolveSDDigests B (resolveValue B n False) items out1 st1 = Inr (out, st')"
        from accounts_trans [OF own resolveSDDigests_accounts [OF Suc.IH run]] show ?thesis
          by (simp only: embedded.simps GObj) (simp add: sd_digests_def items)
      qed
    next
      case (GArr els)
      with run obtain out where "resolveArray B (resolveValue B n False) els [] st = Inr (out, st')" by (auto split: sum.splits)
      from resolveArray_accounts [OF Suc.IH this] show ?thesis by (simp only: embedded.simps GArr) simp
    qed (use run in \<open>auto simp: accounts_refl\<close>)
  qed
qed

lemma index_disclosures:
  assumes "index_disclosures h alg ds B0 = Inr B" and "gm_ok B0"
  shows "gm_ok B \<and> length B = length B0 + length ds \<and>
    (\<forall>dg d. gm_get B dg = Some d \<longleftrightarrow> gm_get B0 dg = Some d \<or> (d \<in> set ds \<and> Digest h alg d = Inr dg)) \<and>
    (\<forall>d \<in> set ds. \<exists>dg. Digest h alg d = Inr dg \<and> gm_get B0 dg = None)"
  using assms
proof (induction ds arbitrary: B0)
  case (Cons d ds)
  then obtain dg where dg: "Digest h alg d = Inr dg" "gm_get B0 dg = None"
    and rest: "index_disclosures h alg ds (gm_put dg d B0) = Inr B" by (auto split: sum.splits if_splits)
  from Cons.IH [OF rest] Cons.prems(2) have IH: "gm_ok B" "length B = length (gm_put dg d B0) + length ds"
    "\<And>x y. gm_get B x = Some y \<longleftrightarrow> gm_get (gm_put dg d B0) x = Some y \<or> (y \<in> set ds \<and> Digest h alg y = Inr x)"
    "\<forall>y \<in> set ds. \<exists>x. Digest h alg y = Inr x \<and> gm_get (gm_put dg d B0) x = None" by auto
  have "length B = length B0 + length (d # ds)" using IH(2) gm_len_put [OF Cons.prems(2), of dg d] dg(2) by simp
  moreover have "gm_get B x = Some y \<longleftrightarrow> gm_get B0 x = Some y \<or> (y \<in> set (d # ds) \<and> Digest h alg y = Inr x)" for x y
    using IH(3) [of x y] dg by auto
  moreover have "\<forall>y \<in> set (d # ds). \<exists>x. Digest h alg y = Inr x \<and> gm_get B0 x = None"
  proof
    fix y assume "y \<in> set (d # ds)"
    then show "\<exists>x. Digest h alg y = Inr x \<and> gm_get B0 x = None"
      using dg IH(4) by (auto split: if_splits)
  qed
  ultimately show ?case using IH(1) by blast
qed simp

lemma resolved_max_cases:
  assumes "ResolveDisclosuresMax h payload alg ds maxDepth = Inr out"
  obtains B st where "index_disclosures h alg ds [] = Inr B"
    "resolveValue B (levels_of maxDepth) True (GObj payload) \<lparr> mk_used = [], mk_seen = [] \<rparr> = Inr (GObj out, st)"
    "length (mk_used st) = length ds"
proof -
  from assms obtain B v st where B: "index_disclosures h alg ds [] = Inr B"
    and run: "resolveValue B (levels_of maxDepth) True (GObj payload) \<lparr> mk_used = [], mk_seen = [] \<rparr> = Inr (v, st)"
    and rest: "(case as_obj v of None \<Rightarrow> Inl NotAnObject
        | Some resolvedMap \<Rightarrow>
            (if length (mk_used st) \<noteq> length ds then Inl (Unreferenced (length ds - length (mk_used st)))
             else Inr resolvedMap)) = Inr out"
    by (auto simp: ResolveDisclosuresMax_def split: sum.splits)
  from rest have "v = GObj out \<and> length (mk_used st) = length ds" by (cases v) (simp_all split: if_splits)
  with B run that show thesis by blast
qed

lemma resolved_cases:
  assumes "ResolveDisclosures h payload alg ds = Inr out"
  obtains B st where "index_disclosures h alg ds [] = Inr B"
    "resolveValue B 33 True (GObj payload) \<lparr> mk_used = [], mk_seen = [] \<rparr> = Inr (GObj out, st)"
    "length (mk_used st) = length ds"
proof -
  have "levels_of MaxResolveDepth = 33" by (simp add: levels_of_def MaxResolveDepth_def)
  with resolved_max_cases [OF assms [unfolded ResolveDisclosures_def]] that show thesis by metis
qed

lemma resolved_processed:
  assumes "ResolveDisclosures h payload alg ds = Inr out" and "index_disclosures h alg ds [] = Inr B"
    and "goval_ok (GObj payload)" and "\<forall>d \<in> set ds. goval_ok (di_Value d)"
  shows "processed B (GObj payload) (GObj out)"
proof -
  obtain st where run: "resolveValue B 33 True (GObj payload) \<lparr> mk_used = [], mk_seen = [] \<rparr> = Inr (GObj out, st)"
    using resolved_cases [OF assms(1)] assms(2) by (metis Inr_inject)
  have "values_ok B" using index_disclosures [OF assms(2)] assms(4) by (auto simp: values_ok_def)
  from resolveValue_processed [OF this run assms(3)] show ?thesis .
qed

section \<open>Properties\<close>

text \<open>C20: a payload resolves to its Processed Payload of RFC 9901 section 7.1: each of its own members and each
  array element, resolved, each disclosed claim added where its digest stands and nowhere else, each undisclosed one
  left out, in whatever order the maps are visited.\<close>

theorem resolve_processed:
  assumes "ResolveDisclosures h payload alg ds = Inr out"
    and "goval_ok (GObj payload)" and "\<forall>d \<in> set ds. goval_ok (di_Value d)"
  shows "\<exists>B. index_disclosures h alg ds [] = Inr B \<and> processed B (GObj payload) (GObj out)"
proof -
  obtain B where B: "index_disclosures h alg ds [] = Inr B" using resolved_cases [OF assms(1)] by metis
  with resolved_processed [OF assms(1) B] assms(2,3) show ?thesis by blast
qed

text \<open>C22: when a payload resolves, no digest stands in it twice, those of the Disclosures included, and every
  Disclosure presented is one a digest in it refers to.\<close>

theorem resolve_accounts_for_all:
  assumes "ResolveDisclosures h payload alg ds = Inr out"
  shows "\<exists>B. index_disclosures h alg ds [] = Inr B \<and> distinct (embedded B 33 (GObj payload)) \<and>
    (\<forall>d \<in> set ds. \<exists>dg. Digest h alg d = Inr dg \<and> dg \<in> set (embedded B 33 (GObj payload)))"
proof -
  obtain B st where B: "index_disclosures h alg ds [] = Inr B"
    and run: "resolveValue B 33 True (GObj payload) \<lparr> mk_used = [], mk_seen = [] \<rparr> = Inr (GObj out, st)"
    and used: "length (mk_used st) = length ds"
    using resolved_cases [OF assms(1)] by metis
  have acc: "mk_seen st = embedded B 33 (GObj payload) \<and> distinct (mk_seen st) \<and> distinct (mk_used st) \<and>
    set (mk_used st) = {dg \<in> set (embedded B 33 (GObj payload)). gm_get B dg \<noteq> None}"
    using accountedD [OF resolveValue_accounts run] unfolding accounts_def by auto
  then have acc: "mk_seen st = embedded B 33 (GObj payload)" "distinct (mk_seen st)" "distinct (mk_used st)"
    "set (mk_used st) = {dg \<in> set (embedded B 33 (GObj payload)). gm_get B dg \<noteq> None}" by blast+
  have idx: "gm_ok B" "length B = length ds" "\<And>dg d. gm_get B dg = Some d \<longleftrightarrow> d \<in> set ds \<and> Digest h alg d = Inr dg"
    "\<forall>d \<in> set ds. \<exists>dg. Digest h alg d = Inr dg"
    using index_disclosures [OF B] by auto
  have "card (set (mk_used st)) = card (dom (gm_get B))"
    using used idx(2) gm_len_card [OF idx(1)] acc(3) by (simp add: distinct_card)
  moreover have "set (mk_used st) \<subseteq> dom (gm_get B)" using acc(4) by auto
  ultimately have all: "set (mk_used st) = dom (gm_get B)" by (intro card_subset_eq finite_dom_map_of)
  have "\<exists>dg. Digest h alg d = Inr dg \<and> dg \<in> set (embedded B 33 (GObj payload))" if d: "d \<in> set ds" for d
  proof -
    obtain dg where dg: "Digest h alg d = Inr dg" using bspec [OF idx(4) d] by blast
    with idx(3) [of dg d] d have "gm_get B dg = Some d" by blast
    then have "dg \<in> set (mk_used st)" unfolding all by blast
    then have "dg \<in> {dg \<in> set (embedded B 33 (GObj payload)). gm_get B dg \<noteq> None}" by (subst acc(4) [symmetric])
    then have "dg \<in> set (embedded B 33 (GObj payload))" by (rule CollectE) (erule conjE)
    with dg show ?thesis by blast
  qed
  with B acc(1,2) show ?thesis by metis
qed

text \<open>A resolved payload carries no \<open>_sd\<close> and no \<open>_sd_alg\<close> anywhere and nests within the 33 levels the default
  limit of 32 allows, when the Disclosures are parsed ones.\<close>

theorem resolved_clean:
  assumes "ResolveDisclosures h payload alg ds = Inr out"
    and "goval_ok (GObj payload)" and "\<forall>d \<in> set ds. goval_ok (di_Value d)"
    and "\<forall>d \<in> set ds. \<exists>s. ParseDisclosure json s = Inr d"
  shows "names_ok (GObj out) \<and> nests_within 33 (GObj out)"
proof -
  obtain B st where B: "index_disclosures h alg ds [] = Inr B"
    and run: "resolveValue B 33 True (GObj payload) \<lparr> mk_used = [], mk_seen = [] \<rparr> = Inr (GObj out, st)"
    using resolved_cases [OF assms(1)] by metis
  have stored: "d \<in> set ds" if "gm_get B dg = Some d" for dg d using index_disclosures [OF B] that by auto
  have "values_ok B" using stored assms(3) by (auto simp: values_ok_def)
  moreover have "names_allowed B"
    using stored assms(4) by (metis ParseDisclosure_name names_allowed_def)
  ultimately show ?thesis
    using processed_names(1) resolveValue_processed [OF _ run assms(2)] resolveValue_within [OF _ run assms(2)] by blast
qed

text \<open>The hypotheses at an input: one claim disclosed, one decoy left out.\<close>

definition sample_hash :: hash_fn where
  "sample_hash alg s = (if length s = 1 then [1] else [])"

definition sample_payload :: "(string \<times> goval) list" where
  "sample_payload = [(''iss'', GStr ''i''), (''_sd'', GArr [GStr [], GStr ''x'']), (''_sd_alg'', GStr SHA256)]"

definition sample_disclosure :: disclosure where
  "sample_disclosure = \<lparr> di_Salt = ''salt'', di_Name = ''n'', di_named = True, di_Value = GArr [GBool True], di_encoded = ''AA'' \<rparr>"

definition sample_json :: "nat list \<Rightarrow> goval list option" where
  "sample_json raw = Some [GStr ''salt'', GStr ''n'', GArr [GBool True]]"

lemma sample_run:
  "ResolveDisclosures sample_hash sample_payload SHA256 [sample_disclosure] =
     Inr [(''iss'', GStr ''i''), (''n'', GArr [GBool True])]"
  by code_simp

lemma sample_ok: "goval_ok (GObj sample_payload)" "goval_ok (di_Value sample_disclosure)"
  by (simp_all add: sample_payload_def sample_disclosure_def)

lemma sample_parsed: "ParseDisclosure sample_json ''AA'' = Inr sample_disclosure"
  by code_simp

theorem resolve_processed_witness:
  "\<exists>B. index_disclosures sample_hash SHA256 [sample_disclosure] [] = Inr B \<and>
     processed B (GObj sample_payload) (GObj [(''iss'', GStr ''i''), (''n'', GArr [GBool True])])"
  using resolve_processed [OF sample_run] sample_ok by simp

theorem resolve_accounts_for_all_witness:
  "\<exists>dg. Digest sample_hash SHA256 sample_disclosure = Inr dg"
  using resolve_accounts_for_all [OF sample_run] by auto

theorem resolved_clean_witness:
  "nests_within 33 (GObj [(''iss'', GStr ''i''), (''n'', GArr [GBool True])])"
  using resolved_clean [OF sample_run] sample_ok sample_parsed by auto

end
