(* ===== verification/Jose.thy ===== *)
theory Jose
  imports B64url
begin

text \<open>
  Compact JWSs: \<open>src/internal/jose/jose.go\<close> and \<open>typ.go\<close>, with the fixed-width ECDSA signatures of
  \<open>src/internal/ecdsafixed/ecdsafixed.go\<close> and the small-order check of \<open>src/internal/jwk/smallorder.go\<close>.

  Parameters, in the record \<open>crypto\<close>: SHA-256, ECDSA and Ed25519 verification, \<open>encoding/asn1\<close> on an ECDSA
  signature, JSON marshalling of an object, and \<open>strictjson.Unmarshal\<close> into a \<open>map[string]any\<close>.
\<close>

section \<open>Splitting strings\<close>

text \<open>\<open>strings.Split\<close> at a separator of one byte.\<close>

fun split_on :: "char \<Rightarrow> string \<Rightarrow> string list" where
  "split_on c [] = [[]]"
| "split_on c (x # xs) =
     (if x = c then [] # split_on c xs
      else (case split_on c xs of [] \<Rightarrow> [[x]] | p # ps \<Rightarrow> (x # p) # ps))"

fun join_with :: "char \<Rightarrow> string list \<Rightarrow> string" where
  "join_with c [] = []"
| "join_with c [p] = p"
| "join_with c (p # q # ps) = p @ [c] @ join_with c (q # ps)"

lemma split_on_Cons: "\<exists>p ps. split_on c xs = p # ps"
  by (induction xs) (auto split: list.splits)

lemma split_on_not_Nil [simp]: "split_on c xs \<noteq> []"
  using split_on_Cons [of c xs] by auto

lemma split_on_free: "c \<notin> set p \<Longrightarrow> split_on c p = [p]"
  by (induction p) auto

lemma split_on_append: "c \<notin> set p \<Longrightarrow> split_on c (p @ c # xs) = p # split_on c xs"
  by (induction p) auto

lemma join_split: "join_with c (split_on c xs) = xs"
proof (induction xs)
  case (Cons x xs)
  obtain p ps where s: "split_on c xs = p # ps" using split_on_Cons by blast
  with Cons.IH show ?case by (cases ps) auto
qed simp

lemma split_join: "ps \<noteq> [] \<Longrightarrow> \<forall>p \<in> set ps. c \<notin> set p \<Longrightarrow> split_on c (join_with c ps) = ps"
  by (induction ps rule: join_with.induct) (auto simp: split_on_free split_on_append)

lemma split_on_parts_free: "p \<in> set (split_on c xs) \<Longrightarrow> c \<notin> set p"
proof (induction xs arbitrary: p)
  case (Cons x xs)
  obtain q qs where "split_on c xs = q # qs" using split_on_Cons by blast
  with Cons show ?case by (auto split: if_splits)
qed simp

lemma split_on_eq_iff:
  "split_on c xs = ps \<longleftrightarrow> ps \<noteq> [] \<and> xs = join_with c ps \<and> (\<forall>p \<in> set ps. c \<notin> set p)"
  using join_split [of c xs] split_join [of ps c] split_on_parts_free [of _ c xs] by fastforce

section \<open>Media types\<close>

definition lowerASCII :: "char \<Rightarrow> char" where
  "lowerASCII c = (let n = of_char c :: nat in if 65 \<le> n \<and> n \<le> 90 then char_of (n + 32) else c)"

definition asciiEqualFold :: "string \<Rightarrow> string \<Rightarrow> bool" where
  "asciiEqualFold a b = (length a = length b \<and> list_all2 (\<lambda>x y. lowerASCII x = lowerASCII y) a b)"

definition mediaType :: "string \<Rightarrow> string" where
  "mediaType typ = (if CHR ''/'' \<notin> set typ then ''application/'' @ typ else typ)"

definition TypeIs :: "string \<Rightarrow> string \<Rightarrow> bool" where
  "TypeIs typ want = asciiEqualFold (mediaType typ) (mediaType want)"

section \<open>Keys and cryptography\<close>

text \<open>A public key: an ECDSA one and whether its curve is P-256, the bytes of an Ed25519 one, or another.\<close>

datatype 'p public_key = ECKey bool 'p | EdKey "nat list" | OtherKey

record 'p crypto =
  cr_sha256 :: "nat list \<Rightarrow> nat list"
  cr_ecdsa :: "'p \<Rightarrow> nat list \<Rightarrow> nat list \<Rightarrow> bool"
  cr_ed25519 :: "nat list \<Rightarrow> nat list \<Rightarrow> nat list \<Rightarrow> bool"
  cr_asn1_unmarshal :: "nat list \<Rightarrow> ((int \<times> int) \<times> nat list) option"
  cr_asn1_marshal :: "int \<Rightarrow> int \<Rightarrow> nat list"
  cr_json :: "nat list \<Rightarrow> (string \<times> goval) list option"
  cr_marshal :: "(string \<times> goval) list \<Rightarrow> nat list option"

record 'p signer =
  sg_Public :: "'p public_key"
  sg_Sign :: "nat list \<Rightarrow> nat list option"

datatype jose_error =
    TooLarge nat
  | NotCompact nat
  | BadEncoding string
  | BadHeader
  | Critical
  | AlgMismatch string
  | WrongKey
  | SmallOrder
  | SignatureInvalid
  | UnsupportedAlg string
  | SignFailed
  | BadECDSA string

definition ES256 :: string where "ES256 = ''ES256''"
definition EdDSA :: string where "EdDSA = ''EdDSA''"

definition IsSupported :: "string \<Rightarrow> bool" where
  "IsSupported alg = (alg = ES256 \<or> alg = EdDSA)"

text \<open>Small-order points of Ed25519.\<close>

definition ed25519Near :: "nat \<Rightarrow> nat list" where
  "ed25519Near low = (replicate 32 255) [0 := low, 31 := 127]"

definition ed25519SmallOrder :: "nat list list" where
  "ed25519SmallOrder =
     [replicate 32 0,
      1 # replicate 31 0,
      [38, 232, 149, 143, 194, 178, 39, 176, 69, 195, 244, 137, 242, 239, 152, 240,
       213, 223, 172, 5, 211, 198, 51, 57, 177, 56, 2, 136, 109, 83, 252, 5],
      [199, 23, 106, 112, 61, 77, 216, 79, 186, 60, 11, 118, 13, 16, 103, 15,
       42, 32, 83, 250, 44, 57, 204, 198, 78, 199, 253, 119, 146, 172, 3, 122],
      ed25519Near 236, ed25519Near 237, ed25519Near 238]"

definition IsSmallOrderEd25519 :: "nat list \<Rightarrow> bool" where
  "IsSmallOrderEd25519 pub = (length pub = 32 \<and> pub[31 := pub ! 31 mod 128] \<in> set ed25519SmallOrder)"

text \<open>\<open>big.Int\<close>'s \<open>SetBytes\<close>, \<open>BitLen\<close> and \<open>FillBytes\<close> of a positive value: big-endian bytes.\<close>

fun SetBytes :: "nat list \<Rightarrow> nat" where
  "SetBytes bs = fold (\<lambda>b n. 256 * n + b) bs 0"

primrec FillBytes :: "nat \<Rightarrow> nat \<Rightarrow> nat list" where
  "FillBytes 0 n = []"
| "FillBytes (Suc k) n = FillBytes k (n div 256) @ [n mod 256]"

text \<open>\<open>BitLen v > 8 * sz\<close> of a positive \<open>v\<close> is \<open>v >= 256 ^ sz\<close>.\<close>

definition fits :: "nat \<Rightarrow> int \<Rightarrow> bool" where
  "fits sz v = (0 < v \<and> nat v < 256 ^ sz)"

definition ToFixed :: "'p crypto \<Rightarrow> nat list \<Rightarrow> nat \<Rightarrow> jose_error + nat list" where
  "ToFixed cr der sz =
     (case cr_asn1_unmarshal cr der of
        None \<Rightarrow> Inl (BadECDSA ''parse'')
      | Some ((r, s), rest) \<Rightarrow>
          (if rest \<noteq> [] then Inl (BadECDSA ''trailing bytes'')
           else if \<not> fits sz r \<or> \<not> fits sz s then Inl (BadECDSA ''out of range'')
           else Inr (FillBytes sz (nat r) @ FillBytes sz (nat s))))"

definition ToDER :: "'p crypto \<Rightarrow> nat list \<Rightarrow> nat \<Rightarrow> jose_error + nat list" where
  "ToDER cr fixed sz =
     (if length fixed \<noteq> 2 * sz then Inl (BadECDSA ''length'')
      else Inr (cr_asn1_marshal cr (int (SetBytes (take sz fixed))) (int (SetBytes (drop sz fixed)))))"

definition signBytes :: "'p crypto \<Rightarrow> string \<Rightarrow> 'p signer \<Rightarrow> nat list \<Rightarrow> jose_error + nat list" where
  "signBytes cr alg sk signingInput =
     (if alg = ES256 then
        (case sg_Public sk of
           ECKey True p \<Rightarrow>
             (case sg_Sign sk (cr_sha256 cr signingInput) of
                None \<Rightarrow> Inl SignFailed
              | Some der \<Rightarrow> ToFixed cr der 32)
         | _ \<Rightarrow> Inl WrongKey)
      else if alg = EdDSA then
        (case sg_Public sk of
           EdKey k \<Rightarrow> (case sg_Sign sk signingInput of None \<Rightarrow> Inl SignFailed | Some sig \<Rightarrow> Inr sig)
         | _ \<Rightarrow> Inl WrongKey)
      else Inl (UnsupportedAlg alg))"

definition verifyBytes :: "'p crypto \<Rightarrow> string \<Rightarrow> 'p public_key \<Rightarrow> nat list \<Rightarrow> nat list \<Rightarrow> jose_error option" where
  "verifyBytes cr alg pub signingInput sig =
     (if alg = ES256 then
        (case pub of
           ECKey True p \<Rightarrow>
             (case ToDER cr sig 32 of
                Inl e \<Rightarrow> Some e
              | Inr der \<Rightarrow>
                  (if \<not> cr_ecdsa cr p (cr_sha256 cr signingInput) der then Some SignatureInvalid else None))
         | _ \<Rightarrow> Some WrongKey)
      else if alg = EdDSA then
        (case pub of
           EdKey k \<Rightarrow>
             (if length k \<noteq> 32 then Some WrongKey
              else if IsSmallOrderEd25519 k then Some SmallOrder
              else if \<not> cr_ed25519 cr k signingInput sig then Some SignatureInvalid
              else None)
         | _ \<Rightarrow> Some WrongKey)
      else Some (UnsupportedAlg alg))"

section \<open>Compact serialization\<close>

definition str_bytes :: "string \<Rightarrow> nat list" where
  "str_bytes s = map of_char s"

definition jose_split :: "string \<Rightarrow> jose_error + string \<times> string \<times> string" where
  "jose_split jws =
     (case split_on (CHR ''.'') jws of
        [h, p, s] \<Rightarrow> Inr (h, p, s)
      | parts \<Rightarrow> Inl (NotCompact (length parts)))"

definition jose_header :: "'p crypto \<Rightarrow> string \<Rightarrow> jose_error + (string \<times> goval) list" where
  "jose_header cr encHeader =
     (case DecodeString encHeader of
        Inl _ \<Rightarrow> Inl (BadEncoding ''header'')
      | Inr raw \<Rightarrow>
          (case cr_json cr raw of
             None \<Rightarrow> Inl BadHeader
           | Some header \<Rightarrow> (if gm_get header ''crit'' \<noteq> None then Inl Critical else Inr header)))"

text \<open>\<open>s, _ := m[k].(string)\<close>.\<close>

definition str_member :: "(string \<times> goval) list \<Rightarrow> string \<Rightarrow> string" where
  "str_member m k = (case gm_get m k of Some (GStr s) \<Rightarrow> s | _ \<Rightarrow> [])"

definition VerifyMax ::
  "'p crypto \<Rightarrow> string \<Rightarrow> 'p public_key \<Rightarrow> string \<Rightarrow> nat \<Rightarrow> jose_error + (string \<times> goval) list \<times> nat list" where
  "VerifyMax cr alg pub jws maxBytes =
     (if length jws > maxBytes then Inl (TooLarge (length jws))
      else rbind (jose_split jws) (\<lambda>(h, encPayload, encSig).
        rbind (jose_header cr h) (\<lambda>header.
          if str_member header ''alg'' \<noteq> alg then Inl (AlgMismatch (str_member header ''alg''))
          else (case DecodeString encPayload of
              Inl _ \<Rightarrow> Inl (BadEncoding ''payload'')
            | Inr payload \<Rightarrow>
                (case DecodeString encSig of
                   Inl _ \<Rightarrow> Inl (BadEncoding ''signature'')
                 | Inr sig \<Rightarrow>
                     (case verifyBytes cr alg pub (str_bytes (h @ ''.'' @ encPayload)) sig of
                        Some e \<Rightarrow> Inl e
                      | None \<Rightarrow> Inr (header, payload)))))))"

definition MaxCompactBytes :: nat where
  "MaxCompactBytes = 65536"

definition Verify :: "'p crypto \<Rightarrow> string \<Rightarrow> 'p public_key \<Rightarrow> string \<Rightarrow> jose_error + (string \<times> goval) list \<times> nat list" where
  "Verify cr alg pub jws = VerifyMax cr alg pub jws MaxCompactBytes"

definition DecodeUnverifiedMax :: "'p crypto \<Rightarrow> string \<Rightarrow> nat \<Rightarrow> jose_error + (string \<times> goval) list \<times> nat list" where
  "DecodeUnverifiedMax cr jws maxBytes =
     (if length jws > maxBytes then Inl (TooLarge (length jws))
      else rbind (jose_split jws) (\<lambda>(h, encPayload, _).
        rbind (jose_header cr h) (\<lambda>header.
          (case DecodeString encPayload of
             Inl _ \<Rightarrow> Inl (BadEncoding ''payload'')
           | Inr payload \<Rightarrow> Inr (header, payload)))))"

definition DecodeUnverified :: "'p crypto \<Rightarrow> string \<Rightarrow> jose_error + (string \<times> goval) list \<times> nat list" where
  "DecodeUnverified cr jws = DecodeUnverifiedMax cr jws MaxCompactBytes"

definition Sign :: "'p crypto \<Rightarrow> string \<Rightarrow> 'p signer \<Rightarrow> (string \<times> goval) list \<Rightarrow> nat list \<Rightarrow> jose_error + string" where
  "Sign cr alg sk header payload =
     (case cr_marshal cr (gm_put ''alg'' (GStr alg) header) of
        None \<Rightarrow> Inl BadHeader
      | Some headerJSON \<Rightarrow>
          (let signingInput = EncodeToString headerJSON @ ''.'' @ EncodeToString payload in
           rbind (signBytes cr alg sk (str_bytes signingInput)) (\<lambda>sig.
             Inr (signingInput @ ''.'' @ EncodeToString sig))))"

section \<open>What verifying establishes\<close>

lemma dot_not_alphabet: "CHR ''.'' \<notin> set b64url_alphabet"
  by (simp add: b64url_alphabet_def)

lemma EncodeToString_free: "CHR ''.'' \<notin> set (EncodeToString bs)"
  using EncodeToString_alphabet dot_not_alphabet by blast

lemma DecodeString_iff: "DecodeString s = Inr bs \<longleftrightarrow> s = EncodeToString bs \<and> (\<forall>b \<in> set bs. b < 256)"
  using b64_encode_decode b64_decode_encode by metis

lemma split_compact_iff:
  "jose_split jws = Inr (h, p, s) \<longleftrightarrow>
     jws = h @ ''.'' @ p @ ''.'' @ s \<and> CHR ''.'' \<notin> set h \<and> CHR ''.'' \<notin> set p \<and> CHR ''.'' \<notin> set s"
proof -
  have "jose_split jws = Inr (h, p, s) \<longleftrightarrow> split_on (CHR ''.'') jws = [h, p, s]"
    by (auto simp: jose_split_def split: list.splits)
  then show ?thesis by (auto simp: split_on_eq_iff)
qed

lemma jose_header_iff:
  "jose_header cr h = Inr header \<longleftrightarrow>
     (\<exists>raw. h = EncodeToString raw \<and> (\<forall>b \<in> set raw. b < 256) \<and> cr_json cr raw = Some header \<and> gm_get header ''crit'' = None)"
proof -
  have "jose_header cr h = Inr header \<longleftrightarrow>
      (\<exists>raw. DecodeString h = Inr raw \<and> cr_json cr raw = Some header \<and> gm_get header ''crit'' = None)"
    by (auto simp: jose_header_def split: sum.splits option.splits if_splits)
  then show ?thesis unfolding DecodeString_iff by blast
qed

text \<open>Big-endian bytes.\<close>

lemma SetBytes_snoc: "SetBytes (bs @ [b]) = 256 * SetBytes bs + b"
  by simp

lemma SetBytes_FillBytes: "n < 256 ^ k \<Longrightarrow> SetBytes (FillBytes k n) = n"
proof (induction k arbitrary: n)
  case (Suc k)
  then have "n div 256 < 256 ^ k" by (simp add: less_mult_imp_div_less mult.commute)
  with Suc.IH show ?case by (simp add: SetBytes_snoc del: SetBytes.simps)
qed simp

lemma length_FillBytes [simp]: "length (FillBytes k n) = k"
  by (induction k arbitrary: n) simp_all

lemma FillBytes_bytes: "\<forall>b \<in> set (FillBytes k n). b < 256"
  by (induction k arbitrary: n) auto

lemma ToDER_ToFixed:
  assumes "ToFixed cr der sz = Inr fixed"
    and "\<And>r s. cr_asn1_unmarshal cr der = Some ((r, s), []) \<Longrightarrow> cr_asn1_marshal cr r s = der"
  shows "ToDER cr fixed sz = Inr der \<and> (\<forall>b \<in> set fixed. b < 256)"
proof -
  from assms(1) obtain r s where d: "cr_asn1_unmarshal cr der = Some ((r, s), [])" and f: "fits sz r" "fits sz s"
    and fixed: "fixed = FillBytes sz (nat r) @ FillBytes sz (nat s)"
    by (auto simp: ToFixed_def split: option.splits if_splits)
  then show ?thesis using assms(2) [OF d] FillBytes_bytes
    by (auto simp: ToDER_def fits_def SetBytes_FillBytes simp del: SetBytes.simps)
qed

lemma signBytes_verifies:
  assumes "signBytes cr alg sk m = Inr sig"
    and "\<forall>p m der r s. sg_Public sk = ECKey True p \<longrightarrow> sg_Sign sk (cr_sha256 cr m) = Some der \<longrightarrow>
      cr_asn1_unmarshal cr der = Some ((r, s), []) \<longrightarrow> cr_asn1_marshal cr r s = der \<and> cr_ecdsa cr p (cr_sha256 cr m) der"
    and "\<forall>k m sig. sg_Public sk = EdKey k \<longrightarrow> sg_Sign sk m = Some sig \<longrightarrow>
      length k = 32 \<and> \<not> IsSmallOrderEd25519 k \<and> (\<forall>b \<in> set sig. b < 256) \<and> cr_ed25519 cr k m sig"
  shows "verifyBytes cr alg (sg_Public sk) m sig = None \<and> (\<forall>b \<in> set sig. b < 256)"
proof (cases "alg = ES256")
  case True
  with assms(1) obtain p der where k: "sg_Public sk = ECKey True p" and der: "sg_Sign sk (cr_sha256 cr m) = Some der"
    and fixed: "ToFixed cr der 32 = Inr sig"
    by (auto simp: signBytes_def split: public_key.splits bool.splits option.splits)
  obtain r s where rs: "cr_asn1_unmarshal cr der = Some ((r, s), [])"
    using fixed by (auto simp: ToFixed_def split: option.splits if_splits)
  have laws: "cr_asn1_marshal cr r s = der" "cr_ecdsa cr p (cr_sha256 cr m) der"
    using assms(2) [rule_format, OF k der rs] by auto
  have "ToDER cr sig 32 = Inr der \<and> (\<forall>b \<in> set sig. b < 256)"
    by (rule ToDER_ToFixed [OF fixed]) (use laws rs in auto)
  with True k laws show ?thesis by (simp add: verifyBytes_def)
next
  case False
  with assms(1) obtain k where ed: "alg = EdDSA" and k: "sg_Public sk = EdKey k" "sg_Sign sk m = Some sig"
    by (auto simp: signBytes_def split: public_key.splits option.splits if_splits)
  from assms(3) [rule_format, OF k] False ed k show ?thesis by (simp add: verifyBytes_def)
qed

lemma verify_max_iff:
  "VerifyMax cr alg pub jws maxBytes = Inr (header, payload) \<longleftrightarrow>
     length jws \<le> maxBytes \<and>
     (\<exists>h p s sig. jose_split jws = Inr (h, p, s) \<and> jose_header cr h = Inr header \<and> str_member header ''alg'' = alg \<and>
        DecodeString p = Inr payload \<and> DecodeString s = Inr sig \<and>
        verifyBytes cr alg pub (str_bytes (h @ ''.'' @ p)) sig = None)"
  unfolding VerifyMax_def ok_iffs by (auto simp: ok_iffs split: prod.splits)

lemma verify_max_mono:
  "VerifyMax cr alg pub jws n = Inr r \<Longrightarrow> n \<le> m \<Longrightarrow> VerifyMax cr alg pub jws m = Inr r"
  by (cases r) (fastforce simp: verify_max_iff)

lemma VerifyMax_iff_serialization:
  "VerifyMax cr alg pub jws maxBytes = Inr (header, payload) \<longleftrightarrow>
     (\<exists>raw sig. (\<forall>b \<in> set raw \<union> set payload \<union> set sig. b < 256) \<and>
        jws = EncodeToString raw @ ''.'' @ EncodeToString payload @ ''.'' @ EncodeToString sig \<and>
        length jws \<le> maxBytes \<and> cr_json cr raw = Some header \<and> str_member header ''alg'' = alg \<and>
        gm_get header ''crit'' = None \<and>
        verifyBytes cr alg pub (str_bytes (EncodeToString raw @ ''.'' @ EncodeToString payload)) sig = None)"
  (is "?l \<longleftrightarrow> ?r")
proof
  assume ?l
  then obtain h p s sig raw where "length jws \<le> maxBytes" "jws = h @ ''.'' @ p @ ''.'' @ s" "h = EncodeToString raw"
    "p = EncodeToString payload" "s = EncodeToString sig" "\<forall>b \<in> set raw. b < 256" "\<forall>b \<in> set payload. b < 256"
    "\<forall>b \<in> set sig. b < 256" "cr_json cr raw = Some header" "gm_get header ''crit'' = None"
    "str_member header ''alg'' = alg" "verifyBytes cr alg pub (str_bytes (h @ ''.'' @ p)) sig = None"
    unfolding verify_max_iff split_compact_iff jose_header_iff DecodeString_iff by blast
  then show ?r by (intro exI [of _ raw] exI [of _ sig]) auto
next
  assume ?r
  then obtain raw sig where bytes: "\<forall>b \<in> set raw. b < 256" "\<forall>b \<in> set payload. b < 256" "\<forall>b \<in> set sig. b < 256"
    and jws: "jws = EncodeToString raw @ ''.'' @ EncodeToString payload @ ''.'' @ EncodeToString sig"
    and checks: "length jws \<le> maxBytes" "cr_json cr raw = Some header" "gm_get header ''crit'' = None"
      "str_member header ''alg'' = alg"
      "verifyBytes cr alg pub (str_bytes (EncodeToString raw @ ''.'' @ EncodeToString payload)) sig = None"
    unfolding ball_Un by blast
  have "jose_split jws = Inr (EncodeToString raw, EncodeToString payload, EncodeToString sig)"
    unfolding split_compact_iff using jws EncodeToString_free by simp
  moreover have "jose_header cr (EncodeToString raw) = Inr header"
    unfolding jose_header_iff using bytes(1) checks by blast
  moreover have "DecodeString (EncodeToString payload) = Inr payload" "DecodeString (EncodeToString sig) = Inr sig"
    unfolding DecodeString_iff using bytes by simp_all
  ultimately show ?l unfolding verify_max_iff using checks by blast
qed

lemma Sign_verifies:
  assumes "Sign cr alg sk header payload = Inr jws" and "length jws \<le> maxBytes"
    and "\<forall>b \<in> set payload. b < 256" and "gm_get header ''crit'' = None"
    and "\<forall>raw. cr_marshal cr (gm_put ''alg'' (GStr alg) header) = Some raw \<longrightarrow>
      (\<forall>b \<in> set raw. b < 256) \<and> cr_json cr raw = Some (gm_put ''alg'' (GStr alg) header)"
    and "\<forall>p m der r s. sg_Public sk = ECKey True p \<longrightarrow> sg_Sign sk (cr_sha256 cr m) = Some der \<longrightarrow>
      cr_asn1_unmarshal cr der = Some ((r, s), []) \<longrightarrow> cr_asn1_marshal cr r s = der \<and> cr_ecdsa cr p (cr_sha256 cr m) der"
    and "\<forall>k m sig. sg_Public sk = EdKey k \<longrightarrow> sg_Sign sk m = Some sig \<longrightarrow>
      length k = 32 \<and> \<not> IsSmallOrderEd25519 k \<and> (\<forall>b \<in> set sig. b < 256) \<and> cr_ed25519 cr k m sig"
  shows "VerifyMax cr alg (sg_Public sk) jws maxBytes = Inr (gm_put ''alg'' (GStr alg) header, payload)"
proof -
  obtain raw sig where raw: "cr_marshal cr (gm_put ''alg'' (GStr alg) header) = Some raw"
    and sig: "signBytes cr alg sk (str_bytes (EncodeToString raw @ ''.'' @ EncodeToString payload)) = Inr sig"
    and jws: "jws = EncodeToString raw @ ''.'' @ EncodeToString payload @ ''.'' @ EncodeToString sig"
    using assms(1) by (auto simp: Sign_def Let_def rbind_Inr_iff split: option.splits)
  have "verifyBytes cr alg (sg_Public sk) (str_bytes (EncodeToString raw @ ''.'' @ EncodeToString payload)) sig = None \<and>
      (\<forall>b \<in> set sig. b < 256)"
    using signBytes_verifies [OF sig assms(6,7)] .
  with raw jws assms(2,3,4,5) show ?thesis
    unfolding VerifyMax_iff_serialization by (intro exI [of _ raw] exI [of _ sig]) (auto simp: str_member_def)
qed

lemma Sign_alphabet:
  assumes "Sign cr alg sk header payload = Inr jws"
  shows "set jws \<subseteq> insert (CHR ''.'') (set b64url_alphabet)"
proof -
  obtain raw sig where "jws = EncodeToString raw @ ''.'' @ EncodeToString payload @ ''.'' @ EncodeToString sig"
    using assms by (auto simp: Sign_def Let_def rbind_Inr_iff split: option.splits)
  then show ?thesis using EncodeToString_alphabet by auto
qed

section \<open>Properties\<close>

text \<open>C26: a compact JWS verifies exactly when it is the serialization of a header, the payload and a signature whose
  header names the caller's algorithm and no critical extension and whose signature verifies over the first two
  parts: one header, payload and signature have one accepted serialization.\<close>

theorem verify_iff:
  "VerifyMax cr alg pub jws maxBytes = Inr (header, payload) \<longleftrightarrow>
     (\<exists>raw sig. list_all (\<lambda>b. b < 256) (raw @ payload @ sig) \<and>
        jws = EncodeToString raw @ ''.'' @ EncodeToString payload @ ''.'' @ EncodeToString sig \<and>
        length jws \<le> maxBytes \<and> cr_json cr raw = Some header \<and> str_member header ''alg'' = alg \<and>
        gm_get header ''crit'' = None \<and>
        verifyBytes cr alg pub (str_bytes (EncodeToString raw @ ''.'' @ EncodeToString payload)) sig = None)"
  unfolding list_all_iff set_append Un_assoc [symmetric] by (rule VerifyMax_iff_serialization)

text \<open>What a signer's key signs, that key verifies: header, \<open>alg\<close> set, and payload come back, when the signer's
  signatures are valid ones in DER, marshalling and parsing the header are inverse, and the result is within
  the bound.\<close>

theorem sign_verify:
  assumes "Sign cr alg sk header payload = Inr jws" and "length jws \<le> maxBytes"
    and "\<forall>b \<in> set payload. b < 256" and "gm_get header ''crit'' = None"
    and "\<forall>raw. cr_marshal cr (gm_put ''alg'' (GStr alg) header) = Some raw \<longrightarrow>
      (\<forall>b \<in> set raw. b < 256) \<and> cr_json cr raw = Some (gm_put ''alg'' (GStr alg) header)"
    and "\<forall>p m der r s. sg_Public sk = ECKey True p \<longrightarrow> sg_Sign sk (cr_sha256 cr m) = Some der \<longrightarrow>
      cr_asn1_unmarshal cr der = Some ((r, s), []) \<longrightarrow> cr_asn1_marshal cr r s = der \<and> cr_ecdsa cr p (cr_sha256 cr m) der"
    and "\<forall>k m sig. sg_Public sk = EdKey k \<longrightarrow> sg_Sign sk m = Some sig \<longrightarrow>
      length k = 32 \<and> \<not> IsSmallOrderEd25519 k \<and> (\<forall>b \<in> set sig. b < 256) \<and> cr_ed25519 cr k m sig"
  shows "VerifyMax cr alg (sg_Public sk) jws maxBytes = Inr (gm_put ''alg'' (GStr alg) header, payload)"
  using Sign_verifies [OF assms] .

definition sample_crypto :: "unit crypto" where
  "sample_crypto = \<lparr> cr_sha256 = (\<lambda>m. m), cr_ecdsa = (\<lambda>_ _ _. False), cr_ed25519 = (\<lambda>k m sig. sig = [1]),
     cr_asn1_unmarshal = (\<lambda>_. None), cr_asn1_marshal = (\<lambda>_ _. []),
     cr_json = (\<lambda>raw. Some [(''alg'', GStr EdDSA)]), cr_marshal = (\<lambda>h. Some [0]) \<rparr>"

definition sample_signer :: "unit signer" where
  "sample_signer = \<lparr> sg_Public = EdKey (replicate 32 7), sg_Sign = (\<lambda>m. Some [1]) \<rparr>"

theorem sign_verify_witness:
  "VerifyMax sample_crypto EdDSA (EdKey (replicate 32 7)) ''AA.Ag.AQ'' 100 = Inr ([(''alg'', GStr EdDSA)], [2])"
proof -
  have "Sign sample_crypto EdDSA sample_signer [] [2] = Inr ''AA.Ag.AQ''" by code_simp
  moreover have "\<not> IsSmallOrderEd25519 (replicate 32 7)" by code_simp
  ultimately show ?thesis
    using sign_verify [of sample_crypto EdDSA sample_signer "[]" "[2]" "''AA.Ag.AQ''" 100]
    by (simp add: sample_crypto_def sample_signer_def)
qed

end
