(* ===== verification/Jwt_Date.thy ===== *)
theory Jwt_Date
  imports Go_Prelude
begin

text \<open>
  JWT NumericDates and a token's freshness: \<open>src/internal/jwtdate/jwtdate.go\<close> and \<open>window.go\<close>. A \<open>time.Time\<close> and
  a \<open>time.Duration\<close> are counts of nanoseconds, as integers: the sums here stay far inside what Go's hold, which is
  what \<open>MaxDate\<close> is for.
\<close>

definition second :: int where
  "second = 1000000000"

datatype date_error = ErrOutOfRange | NotNumericDate

definition MaxDate :: int where
  "MaxDate = 253402300799"

definition FromUnix :: "int \<Rightarrow> date_error + int" where
  "FromUnix sec = (if sec < 0 \<or> sec > MaxDate then Inl ErrOutOfRange else Inr (sec * second))"

fun FromFloat :: "gofloat \<Rightarrow> date_error + int" where
  "FromFloat (Finite v) =
     (if v < 0 \<or> v > of_int MaxDate then Inl ErrOutOfRange else Inr (\<lfloor>v\<rfloor> * second))"
| "FromFloat _ = Inl ErrOutOfRange"

text \<open>A CBOR integer is an \<open>int64\<close> or a \<open>uint64\<close>.\<close>

fun FromCBOR :: "goval \<Rightarrow> date_error + int" where
  "FromCBOR (GInt n) = FromUnix n"
| "FromCBOR (GFloat f) = FromFloat f"
| "FromCBOR _ = Inl NotNumericDate"

record window =
  wi_MaxAge :: int
  wi_MaxClockSkew :: int
  wi_RequireExp :: bool

definition DefaultMaxClockSkew :: int where
  "DefaultMaxClockSkew = 60 * second"

definition DefaultMaxAgeWithoutExp :: int where
  "DefaultMaxAgeWithoutExp = 24 * 3600 * second"

datatype window_error =
    NegativeMaxAge
  | BadIat
  | IssuedInFuture
  | BadNbf
  | NotYetValid
  | MissingExp
  | TooOld
  | BadExp
  | ExpNotAfterIat
  | TokenExpired

definition checkFreshness :: "window \<Rightarrow> int \<Rightarrow> int option \<Rightarrow> int \<Rightarrow> window_error option" where
  "checkFreshness w issued ex now =
     (if ex = None \<and> wi_RequireExp w then Some MissingExp
      else (let maxAge = (if wi_MaxAge w = 0 \<and> ex = None then DefaultMaxAgeWithoutExp else wi_MaxAge w) in
        if maxAge > 0 \<and> issued < now - maxAge then Some TooOld
        else (case ex of
            None \<Rightarrow> None
          | Some e \<Rightarrow>
              (case FromUnix e of
                 Inl _ \<Rightarrow> Some BadExp
               | Inr expires \<Rightarrow>
                   (if \<not> issued < expires then Some ExpNotAfterIat
                    else if \<not> now < expires then Some TokenExpired
                    else None)))))"

definition window_check :: "window \<Rightarrow> int \<Rightarrow> int option \<Rightarrow> int option \<Rightarrow> int \<Rightarrow> window_error option" where
  "window_check w iat ex nbf now =
     (if wi_MaxAge w < 0 then Some NegativeMaxAge
      else (case FromUnix iat of
          Inl _ \<Rightarrow> Some BadIat
        | Inr issued \<Rightarrow>
            (if iat = 0 then Some BadIat
             else (let skew = (if wi_MaxClockSkew w = 0 then DefaultMaxClockSkew else wi_MaxClockSkew w) in
               if issued > now + skew then Some IssuedInFuture
               else (case nbf of
                   None \<Rightarrow> checkFreshness w issued ex now
                 | Some n \<Rightarrow>
                     (case FromUnix n of
                        Inl _ \<Rightarrow> Some BadNbf
                      | Inr notBefore \<Rightarrow>
                          (if notBefore > now + skew then Some NotYetValid
                           else checkFreshness w issued ex now)))))))"

section \<open>What is accepted\<close>

lemma FromUnix_Inr: "FromUnix sec = Inr t \<longleftrightarrow> 0 \<le> sec \<and> sec \<le> MaxDate \<and> t = sec * second"
  by (auto simp: FromUnix_def)

lemma FromFloat_Inr:
  "FromFloat f = Inr t \<longleftrightarrow> (\<exists>v. f = Finite v \<and> 0 \<le> v \<and> v \<le> of_int MaxDate \<and> t = \<lfloor>v\<rfloor> * second)"
  by (cases f) auto

lemma FromFloat_range: "FromFloat f = Inr t \<Longrightarrow> 0 \<le> t \<and> t \<le> MaxDate * second"
  by (auto simp: FromFloat_Inr second_def floor_le_iff)

text \<open>The longest ago a token accepted at \<open>now\<close> may have been issued.\<close>

definition age_bound :: "window \<Rightarrow> int option \<Rightarrow> int option" where
  "age_bound w ex =
     (if wi_MaxAge w > 0 then Some (wi_MaxAge w)
      else if ex = None then Some DefaultMaxAgeWithoutExp
      else None)"

definition skew_of :: "window \<Rightarrow> int" where
  "skew_of w = (if wi_MaxClockSkew w = 0 then DefaultMaxClockSkew else wi_MaxClockSkew w)"

definition date_in_range :: "int \<Rightarrow> bool" where
  "date_in_range sec = (0 \<le> sec \<and> sec \<le> MaxDate)"

lemma checkFreshness_None:
  assumes "wi_MaxAge w \<ge> 0"
  shows "checkFreshness w issued ex now = None \<longleftrightarrow>
    (if wi_RequireExp w then ex \<noteq> None else True) \<and>
    (case age_bound w ex of None \<Rightarrow> True | Some a \<Rightarrow> now - a \<le> issued) \<and>
    (case ex of None \<Rightarrow> True | Some e \<Rightarrow> date_in_range e \<and> issued < e * second \<and> now < e * second)"
  using assms
  by (auto simp: checkFreshness_def age_bound_def date_in_range_def FromUnix_def Let_def DefaultMaxAgeWithoutExp_def second_def
      split: option.splits if_splits)

text \<open>A status list token's times are accepted exactly when they describe a token in force: issued after 1970 and no
  later than the skew allows, not before its \<open>nbf\<close>, issued no longer ago than the bound, which is a day where neither
  the token nor the caller gives one, and before an \<open>exp\<close> that comes after its issuance.\<close>

theorem window_check_iff:
  "window_check w iat ex nbf now = None \<longleftrightarrow>
     wi_MaxAge w \<ge> 0 \<and> iat \<noteq> 0 \<and> date_in_range iat \<and> iat * second \<le> now + skew_of w \<and>
     (case nbf of None \<Rightarrow> True | Some n \<Rightarrow> date_in_range n \<and> n * second \<le> now + skew_of w) \<and>
     (if wi_RequireExp w then ex \<noteq> None else True) \<and>
     (case age_bound w ex of None \<Rightarrow> True | Some a \<Rightarrow> now - a \<le> iat * second) \<and>
     (case ex of None \<Rightarrow> True | Some e \<Rightarrow> date_in_range e \<and> iat < e \<and> now < e * second)"
proof (cases "wi_MaxAge w \<ge> 0")
  case True
  have lt: "iat * second < e * second \<longleftrightarrow> iat < e" for e by (simp add: second_def)
  show ?thesis using True
    unfolding window_check_def FromUnix_def date_in_range_def [of iat] skew_of_def
    by (auto simp: checkFreshness_None lt FromUnix_def date_in_range_def Let_def split: option.splits if_splits)
qed (simp add: window_check_def)

end
