(* ===== verification/Sdjwt_Verify.thy ===== *)
theory Sdjwt_Verify
  imports Sdjwt_Resolve Jose Jwt_Date
begin

text \<open>
  Presented SD-JWT VCs: \<open>src/credential/sdjwtvc/presentation.go\<close>, \<open>keybinding.go\<close>, \<open>aka_vcts.go\<close> and \<open>verify.go\<close>.
  \<open>cr_json\<close> decodes a payload as it decodes a header; \<open>json\<close> decodes a Disclosure's array. Where the code reads the
  clock more than once, each reading is an argument of its own.
\<close>

section \<open>Presentations\<close>

record presentation =
  pn_IssuerJWT :: string
  pn_Disclosures :: "disclosure list"
  pn_KeyBindingJWT :: string

definition HasKeyBinding :: "presentation \<Rightarrow> bool" where
  "HasKeyBinding p = (pn_KeyBindingJWT p \<noteq> [])"

datatype vc_error =
    Disclosing sd_error
  | Jws jose_error
  | TooLong
  | NotSDJWT
  | OptionMissing string
  | KeyBindingMissing
  | BadTyp string
  | BadPayload
  | BadClaim string
  | Expired
  | NotValidYet
  | AkaVCTs string
  | RegisteredDisclosable string
  | NotThisRequest string
  | SDHashMismatch
  | TooFarInFuture
  | TooOldBinding
  | KeyBindingFails vc_error

definition tilde :: char where "tilde = CHR ''~''"

fun parse_disclosures :: "(nat list \<Rightarrow> goval list option) \<Rightarrow> string list \<Rightarrow> vc_error + disclosure list" where
  "parse_disclosures json [] = Inr []"
| "parse_disclosures json (s # ss) =
     (case ParseDisclosure json s of
        Inl e \<Rightarrow> Inl (Disclosing e)
      | Inr d \<Rightarrow> rmap (\<lambda>ds. d # ds) (parse_disclosures json ss))"

definition ParseMax :: "(nat list \<Rightarrow> goval list option) \<Rightarrow> string \<Rightarrow> nat \<Rightarrow> vc_error + presentation" where
  "ParseMax json s maxBytes =
     (if length s > maxBytes then Inl TooLong
      else (let parts = split_on tilde s in
        if length parts < 2 then Inl NotSDJWT
        else (case parse_disclosures json (butlast (tl parts)) of
            Inl e \<Rightarrow> Inl e
          | Inr ds \<Rightarrow>
              Inr \<lparr> pn_IssuerJWT = hd parts, pn_Disclosures = ds, pn_KeyBindingJWT = last parts \<rparr>)))"

definition MaxBytes :: nat where
  "MaxBytes = 2 ^ 20"

definition Parse :: "(nat list \<Rightarrow> goval list option) \<Rightarrow> string \<Rightarrow> vc_error + presentation" where
  "Parse json s = ParseMax json s MaxBytes"

definition SDJWT :: "presentation \<Rightarrow> string" where
  "SDJWT p = pn_IssuerJWT p @ [tilde] @ concat (map (\<lambda>d. di_encoded d @ [tilde]) (pn_Disclosures p))"

definition SDHash :: "hash_fn \<Rightarrow> string \<Rightarrow> presentation \<Rightarrow> sd_error + string" where
  "SDHash h alg p = hashString h alg (SDJWT p)"

definition Compact :: "presentation \<Rightarrow> string" where
  "Compact p = SDJWT p @ pn_KeyBindingJWT p"

section \<open>Validity\<close>

definition TypHeader :: string where "TypHeader = ''dc+sd-jwt''"
definition LegacyTypHeader :: string where "LegacyTypHeader = ''vc+sd-jwt''"
definition KeyBindingTyp :: string where "KeyBindingTyp = ''kb+jwt''"

text \<open>A claim that, where present, must be a NumericDate.\<close>

definition date_claim :: "(string \<times> goval) list \<Rightarrow> string \<Rightarrow> vc_error + int option" where
  "date_claim claims k =
     (case gm_get claims k of
        None \<Rightarrow> Inr None
      | Some v \<Rightarrow>
          (case v of
             GFloat f \<Rightarrow> (case FromFloat f of Inl _ \<Rightarrow> Inl (BadClaim k) | Inr t \<Rightarrow> Inr (Some t))
           | _ \<Rightarrow> Inl (BadClaim k)))"

definition checkValidityWindow :: "(string \<times> goval) list \<Rightarrow> int \<Rightarrow> int \<Rightarrow> int \<Rightarrow> vc_error option" where
  "checkValidityWindow claims expNow nbfNow skew =
     (case date_claim claims ''exp'' of
        Inl e \<Rightarrow> Some e
      | Inr expires \<Rightarrow>
          (if (case expires of None \<Rightarrow> False | Some t \<Rightarrow> \<not> expNow - skew < t) then Some Expired
           else (case date_claim claims ''nbf'' of
               Inl e \<Rightarrow> Some e
             | Inr notBefore \<Rightarrow>
                 (if (case notBefore of None \<Rightarrow> False | Some t \<Rightarrow> nbfNow + skew < t) then Some NotValidYet else None))))"

section \<open>Key Binding JWTs\<close>

record key_binding_check =
  kc_ExpectedAudience :: string
  kc_ExpectedNonce :: string
  kc_ExpectedSDHash :: string
  kc_MaxClockSkew :: int
  kc_MaxAge :: int

definition VerifyKeyBindingJWT ::
  "'p crypto \<Rightarrow> int \<Rightarrow> string \<Rightarrow> 'p public_key \<Rightarrow> string \<Rightarrow> key_binding_check \<Rightarrow> vc_error + (string \<times> goval) list" where
  "VerifyKeyBindingJWT cr now kbJWT holderPub alg chk =
     (if kc_MaxAge chk \<le> 0 then Inl (OptionMissing ''MaxAge'')
      else if kc_MaxClockSkew chk < 0 then Inl (OptionMissing ''MaxClockSkew'')
      else if kc_ExpectedAudience chk = [] \<or> kc_ExpectedNonce chk = [] then Inl (OptionMissing ''ExpectedAudience and ExpectedNonce'')
      else (case Verify cr alg holderPub kbJWT of
          Inl e \<Rightarrow> Inl (Jws e)
        | Inr (header, raw) \<Rightarrow>
            (if \<not> TypeIs (str_member header ''typ'') KeyBindingTyp then Inl (BadTyp (str_member header ''typ''))
             else (case cr_json cr raw of
                 None \<Rightarrow> Inl BadPayload
               | Some claims \<Rightarrow>
                   (if str_member claims ''aud'' \<noteq> kc_ExpectedAudience chk then Inl (NotThisRequest ''aud'')
                    else if str_member claims ''nonce'' \<noteq> kc_ExpectedNonce chk then Inl (NotThisRequest ''nonce'')
                    else if str_member claims ''sd_hash'' \<noteq> kc_ExpectedSDHash chk then Inl SDHashMismatch
                    else (case date_claim claims ''iat'' of
                        Inl e \<Rightarrow> Inl e
                      | Inr None \<Rightarrow> Inl (BadClaim ''iat'')
                      | Inr (Some issued) \<Rightarrow>
                          (if issued > now + kc_MaxAge chk then Inl TooFarInFuture
                           else if issued < now - kc_MaxAge chk then Inl TooOldBinding
                           else (case checkValidityWindow claims now now (kc_MaxClockSkew chk) of
                               Some e \<Rightarrow> Inl e
                             | None \<Rightarrow> Inr claims))))))))"

section \<open>Checks on registered claims\<close>

definition nonDisclosableClaims :: "string list" where
  "nonDisclosableClaims = [''iss'', ''nbf'', ''exp'', ''cnf'', ''vct'', ''vct#integrity'', ''status'', ''aka_vcts'']"

fun first_registered :: "hash_fn \<Rightarrow> string \<Rightarrow> string list \<Rightarrow> disclosure list \<Rightarrow> vc_error option" where
  "first_registered h alg digests [] = None"
| "first_registered h alg digests (d # ds) =
     (if IsArrayElement d \<or> di_Name d \<notin> set nonDisclosableClaims then first_registered h alg digests ds
      else (case Digest h alg d of
          Inl e \<Rightarrow> Some (Disclosing e)
        | Inr dg \<Rightarrow>
            (if dg \<in> set digests then Some (RegisteredDisclosable (di_Name d)) else first_registered h alg digests ds)))"

definition checkNoRegisteredClaimDisclosed ::
  "hash_fn \<Rightarrow> (string \<times> goval) list \<Rightarrow> string \<Rightarrow> disclosure list \<Rightarrow> vc_error option" where
  "checkNoRegisteredClaimDisclosed h decoded alg ds =
     (case (case gm_get decoded ''_sd'' of Some (GArr items) \<Rightarrow> items | _ \<Rightarrow> []) of
        [] \<Rightarrow> None
      | topLevel \<Rightarrow> first_registered h alg (List.map_filter as_str topLevel) ds)"

fun hasDisclosureDigest :: "goval \<Rightarrow> bool" where
  "hasDisclosureDigest (GObj m) =
     (gm_get m ''_sd'' \<noteq> None \<or> (gm_get m ''...'' \<noteq> None \<and> length m = 1) \<or> (\<exists>kv \<in> set m. hasDisclosureDigest (snd kv)))"
| "hasDisclosureDigest (GArr els) = (\<exists>el \<in> set els. hasDisclosureDigest el)"
| "hasDisclosureDigest _ = False"

definition checkNoRegisteredSubClaimDisclosable :: "(string \<times> goval) list \<Rightarrow> vc_error option" where
  "checkNoRegisteredSubClaimDisclosable decoded =
     first_err (\<lambda>_ name.
       (case gm_get decoded name of
          Some v \<Rightarrow> (if hasDisclosureDigest v then Some (RegisteredDisclosable name) else None)
        | None \<Rightarrow> None)) 0 nonDisclosableClaims"

definition checkAkaVCTs :: "string \<Rightarrow> string list \<Rightarrow> vc_error option" where
  "checkAkaVCTs vct types =
     (if types = [] then Some (AkaVCTs ''non-empty array'')
      else if [] \<in> set types then Some (AkaVCTs ''empty type'')
      else if vct \<in> set types then Some (AkaVCTs ''own vct'')
      else None)"

definition checkAkaVCTsClaim :: "goval \<Rightarrow> goval \<Rightarrow> vc_error option" where
  "checkAkaVCTsClaim vctRaw raw =
     (case as_arr raw of
        None \<Rightarrow> Some (AkaVCTs ''array of strings'')
      | Some arr \<Rightarrow>
          (if (\<exists>v \<in> set arr. as_str v = None) then Some (AkaVCTs ''array of strings'')
           else checkAkaVCTs (case as_str vctRaw of Some s \<Rightarrow> s | None \<Rightarrow> []) (List.map_filter as_str arr)))"

section \<open>Verifying\<close>

datatype key_binding_requirement = KeyBindingRequired | KeyBindingNotRequired

record 'p verify_options =
  vo_HashAlg :: string
  vo_RequireKeyBinding :: "key_binding_requirement option"
  vo_HolderPublicKey :: "'p public_key option"
  vo_KeyBindingAlg :: string
  vo_ExpectedAudience :: string
  vo_ExpectedNonce :: string
  vo_MaxKeyBindingAge :: int
  vo_MaxClockSkew :: int
  vo_AcceptLegacyTyp :: bool

definition verifyKeyBindingIfRequired ::
  "'p crypto \<Rightarrow> hash_fn \<Rightarrow> int \<Rightarrow> presentation \<Rightarrow> 'p verify_options \<Rightarrow> string \<Rightarrow> vc_error option" where
  "verifyKeyBindingIfRequired cr h now pres opts hashAlg =
     (if vo_RequireKeyBinding opts \<noteq> Some KeyBindingRequired then None
      else (case vo_HolderPublicKey opts of
          None \<Rightarrow> Some (OptionMissing ''HolderPublicKey'')
        | Some holder \<Rightarrow>
            (case SDHash h hashAlg pres of
               Inl e \<Rightarrow> Some (Disclosing e)
             | Inr sdHash \<Rightarrow>
                 (case VerifyKeyBindingJWT cr now (pn_KeyBindingJWT pres) holder (vo_KeyBindingAlg opts)
                    \<lparr> kc_ExpectedAudience = vo_ExpectedAudience opts, kc_ExpectedNonce = vo_ExpectedNonce opts,
                      kc_ExpectedSDHash = sdHash, kc_MaxClockSkew = vo_MaxClockSkew opts,
                      kc_MaxAge = vo_MaxKeyBindingAge opts \<rparr> of
                    Inl e \<Rightarrow> Some (KeyBindingFails e)
                  | Inr _ \<Rightarrow> None))))"

definition DefaultHashAlg :: string where
  "DefaultHashAlg = SHA256"

text \<open>What \<open>Verify\<close> checks of the decoded payload, up to the algorithm it names.\<close>

definition accept_payload ::
  "hash_fn \<Rightarrow> int \<Rightarrow> int \<Rightarrow> 'p verify_options \<Rightarrow> presentation \<Rightarrow> (string \<times> goval) list \<Rightarrow> vc_error + string" where
  "accept_payload h expNow nbfNow opts pres decoded =
     (case gm_get decoded ''vct'' of
        Some (GStr vct) \<Rightarrow>
          (if vo_MaxClockSkew opts < 0 then Inl (OptionMissing ''MaxClockSkew'')
           else (case checkValidityWindow decoded expNow nbfNow (vo_MaxClockSkew opts) of
               Some e \<Rightarrow> Inl e
             | None \<Rightarrow>
                 (case PayloadHashAlg decoded (if vo_HashAlg opts = [] then DefaultHashAlg else vo_HashAlg opts) of
                    Inl e \<Rightarrow> Inl (Disclosing e)
                  | Inr hashAlg \<Rightarrow>
                      (case and_then
                         (case gm_get decoded ''aka_vcts'' of Some raw \<Rightarrow> checkAkaVCTsClaim (GStr vct) raw | None \<Rightarrow> None)
                         (and_then (checkNoRegisteredClaimDisclosed h decoded hashAlg (pn_Disclosures pres))
                            (checkNoRegisteredSubClaimDisclosable decoded)) of
                         Some e \<Rightarrow> Inl e
                       | None \<Rightarrow> Inr hashAlg))))
      | _ \<Rightarrow> Inl (BadClaim ''vct''))"

text \<open>\<open>sdjwtvc.Verify\<close>, with the clock's readings for \<open>exp\<close>, for \<open>nbf\<close> and for the Key Binding JWT.\<close>

definition VerifyVC ::
  "'p crypto \<Rightarrow> hash_fn \<Rightarrow> (nat list \<Rightarrow> goval list option) \<Rightarrow> int \<times> int \<times> int \<Rightarrow> string \<Rightarrow> 'p public_key \<Rightarrow> string
     \<Rightarrow> 'p verify_options \<Rightarrow> vc_error + (string, goval) gomap \<times> (string \<times> goval) list" where
  "VerifyVC cr h json clock s issuerPub issuerAlg opts =
     (case clock of (expNow, nbfNow, kbNow) \<Rightarrow>
        (if vo_RequireKeyBinding opts = None then Inl (OptionMissing ''RequireKeyBinding'')
         else (case Parse json s of
             Inl e \<Rightarrow> Inl e
           | Inr pres \<Rightarrow>
               (if vo_RequireKeyBinding opts = Some KeyBindingRequired \<and> \<not> HasKeyBinding pres then Inl KeyBindingMissing
                else (case Verify cr issuerAlg issuerPub (pn_IssuerJWT pres) of
                    Inl e \<Rightarrow> Inl (Jws e)
                  | Inr (header, rawPayload) \<Rightarrow>
                      (if \<not> TypeIs (str_member header ''typ'') TypHeader \<and>
                          (\<not> vo_AcceptLegacyTyp opts \<or> \<not> TypeIs (str_member header ''typ'') LegacyTypHeader)
                       then Inl (BadTyp (str_member header ''typ''))
                       else (case cr_json cr rawPayload of
                           None \<Rightarrow> Inl BadPayload
                         | Some decoded \<Rightarrow>
                             (case accept_payload h expNow nbfNow opts pres decoded of
                                Inl e \<Rightarrow> Inl e
                              | Inr hashAlg \<Rightarrow>
                                  (case ResolveDisclosures h decoded hashAlg (pn_Disclosures pres) of
                                     Inl e \<Rightarrow> Inl (Disclosing e)
                                   | Inr resolved \<Rightarrow>
                                       (case verifyKeyBindingIfRequired cr h kbNow pres opts hashAlg of
                                          Some e \<Rightarrow> Inl e
                                        | None \<Rightarrow> Inr (resolved, header)))))))))))"

section \<open>Presentations and their text\<close>

lemma tilde_not_alphabet: "tilde \<notin> set b64url_alphabet"
  by (simp add: tilde_def b64url_alphabet_def)

lemma ParseDisclosure_encoded: "ParseDisclosure json s = Inr d \<Longrightarrow> di_encoded d = s \<and> tilde \<notin> set s"
  using tilde_not_alphabet
  by (auto simp: ParseDisclosure_def DecodeString_Inr split: sum.splits option.splits list.splits if_splits)

lemma parse_disclosures_iff:
  "parse_disclosures json ss = Inr ds \<longleftrightarrow> ss = map di_encoded ds \<and> (\<forall>d \<in> set ds. ParseDisclosure json (di_encoded d) = Inr d)"
proof (induction ss arbitrary: ds)
  case (Cons s ss)
  show ?case
  proof (cases "ParseDisclosure json s")
    case (Inr d)
    have d: "d = d' \<longleftrightarrow> s = di_encoded d' \<and> ParseDisclosure json (di_encoded d') = Inr d'" for d'
    proof
      assume "d = d'"
      with Inr ParseDisclosure_encoded [OF Inr] show "s = di_encoded d' \<and> ParseDisclosure json (di_encoded d') = Inr d'"
        by simp
    next
      assume "s = di_encoded d' \<and> ParseDisclosure json (di_encoded d') = Inr d'"
      then have "ParseDisclosure json s = Inr d'" by simp
      with Inr show "d = d'" by simp
    qed
    show ?thesis
    proof (cases ds)
      case (Cons d' ds')
      have "parse_disclosures json (s # ss) = Inr ds \<longleftrightarrow> d = d' \<and> parse_disclosures json ss = Inr ds'"
        unfolding Cons using Inr by (auto simp: rmap_Inr_iff)
      then show ?thesis unfolding Cons Cons.IH d by auto
    qed (use Inr in \<open>auto simp: rmap_Inr_iff\<close>)
  qed auto
qed auto

lemma SDJWT_join: "SDJWT p @ kb = join_with tilde (pn_IssuerJWT p # map di_encoded (pn_Disclosures p) @ [kb])"
proof -
  have "j @ [tilde] @ concat (map (\<lambda>d. di_encoded d @ [tilde]) ds) @ kb = join_with tilde (j # map di_encoded ds @ [kb])"
    for j ds by (induction ds arbitrary: j) auto
  then show ?thesis by (simp add: SDJWT_def)
qed

lemma ParseMax_Inr:
  "ParseMax json s n = Inr p \<longleftrightarrow>
     length s \<le> n \<and> s = Compact p \<and> tilde \<notin> set (pn_IssuerJWT p) \<and> tilde \<notin> set (pn_KeyBindingJWT p) \<and>
     (\<forall>d \<in> set (pn_Disclosures p). ParseDisclosure json (di_encoded d) = Inr d)"
  (is "_ \<longleftrightarrow> ?r")
proof -
  have shape: "split_on tilde s = j # es @ [kb] \<longleftrightarrow>
      s = join_with tilde (j # es @ [kb]) \<and> tilde \<notin> set j \<and> tilde \<notin> set kb \<and> (\<forall>e \<in> set es. tilde \<notin> set e)" for j es kb
    by (auto simp: split_on_eq_iff)
  have free: "\<forall>e \<in> set (map di_encoded ds). tilde \<notin> set e"
    if "\<forall>d \<in> set ds. ParseDisclosure json (di_encoded d) = Inr d" for ds
  proof
    fix e assume "e \<in> set (map di_encoded ds)"
    then obtain d where "d \<in> set ds" "e = di_encoded d" by auto
    with that have "ParseDisclosure json e = Inr d" by simp
    from ParseDisclosure_encoded [OF this] show "tilde \<notin> set e" by blast
  qed
  have "ParseMax json s n = Inr p \<longleftrightarrow> length s \<le> n \<and>
      split_on tilde s = pn_IssuerJWT p # map di_encoded (pn_Disclosures p) @ [pn_KeyBindingJWT p] \<and>
      (\<forall>d \<in> set (pn_Disclosures p). ParseDisclosure json (di_encoded d) = Inr d)"
  proof (cases "length s > n \<or> length (split_on tilde s) < 2")
    case True
    then show ?thesis by (auto simp: ParseMax_def Let_def)
  next
    case False
    then obtain j es kb where s: "split_on tilde s = j # es @ [kb]"
      by (cases "split_on tilde s" rule: rev_cases) (auto simp: neq_Nil_conv Suc_le_eq numeral_2_eq_2 elim: list.set_cases
        intro: that dest: gr0_implies_Suc split: list.splits)
    with False have "ParseMax json s n =
        rmap (\<lambda>ds. \<lparr> pn_IssuerJWT = j, pn_Disclosures = ds, pn_KeyBindingJWT = kb \<rparr>) (parse_disclosures json es)"
      by (simp add: ParseMax_def rmap_def Let_def split: sum.splits)
    with s False show ?thesis
      by (cases p) (auto simp: rmap_Inr_iff parse_disclosures_iff)
  qed
  also have "\<dots> \<longleftrightarrow> ?r"
    unfolding shape Compact_def SDJWT_join using free by blast
  finally show ?thesis .
qed

section \<open>Registered claims\<close>

text \<open>A value that holds no digest resolves to itself.\<close>

definition keeps :: "resolver \<Rightarrow> goval \<Rightarrow> bool" where
  "keeps rv v = establishes rv (\<lambda>v r. r = v) v"

lemma keepsD: "keeps rv v \<Longrightarrow> rv v st = Inr (r, st') \<Longrightarrow> r = v"
  by (auto simp: keeps_def establishes_def)

lemma resolve_entries_keeps:
  assumes "resolve_entries rv False m out st = Inr (out', st')" and "gm_ok m" and "\<forall>kv \<in> set m. keeps rv (snd kv)"
    and "''_sd'' \<notin> fst ` set m" and "\<forall>kv \<in> set m. fst kv \<notin> fst ` set out"
  shows "out' = out @ m"
  using assms
proof (induction m arbitrary: out st)
  case (Cons a m)
  obtain k v where a: "a = (k, v)" by (cases a)
  with Cons.prems obtain r st1 where rv: "rv v st = Inr (r, st1)"
    and rest: "resolve_entries rv False m (gm_put k r out) st1 = Inr (out', st')"
    by (auto split: if_splits sum.splits)
  have "keeps rv v" using Cons.prems(3) a by simp
  then have "r = v" using rv by (rule keepsD)
  moreover have "k \<notin> fst ` set out" using Cons.prems(5) a by simp
  ultimately have put: "gm_put k r out = out @ [(k, v)]" by (simp add: update_fresh)
  have "out' = (out @ [(k, v)]) @ m"
  proof (rule Cons.IH [OF rest [unfolded put]])
    show "\<forall>kv \<in> set m. fst kv \<notin> fst ` set (out @ [(k, v)])"
    proof
      fix kv assume kv: "kv \<in> set m"
      then have "fst kv \<in> fst ` set m" by (rule imageI)
      moreover have "k \<notin> fst ` set m" using Cons.prems(2) a by simp
      ultimately have "fst kv \<noteq> k" by metis
      moreover have "fst kv \<notin> fst ` set out" using Cons.prems(5) kv by simp
      ultimately show "fst kv \<notin> fst ` set (out @ [(k, v)])" by simp
    qed
  qed (use Cons.prems a in auto)
  with a show ?case by simp
qed simp

lemma resolveArray_keeps:
  assumes "resolveArray B rv els out st = Inr (out', st')" and "\<forall>el \<in> set els. keeps rv el \<and> ref_value el = None"
  shows "out' = out @ els"
  using assms
proof (induction els arbitrary: out st)
  case (Cons el els)
  then obtain r st1 where rv: "rv el st = Inr (r, st1)" and rest: "resolveArray B rv els (out @ [r]) st1 = Inr (out', st')"
    by (auto split: sum.splits)
  have "keeps rv el" using Cons.prems(2) by simp
  then have "r = el" using rv by (rule keepsD)
  with Cons.IH [OF rest] Cons.prems(2) show ?case by simp
qed simp

lemma ref_value_digest: "ref_value el = Some w \<Longrightarrow> hasDisclosureDigest el"
  by (auto simp: ref_value_def split: option.splits list.splits if_splits)

lemma no_digest_keeps:
  "goval_ok v \<Longrightarrow> \<not> hasDisclosureDigest v \<Longrightarrow> keeps (resolveValue B levels False) v"
proof (induction levels arbitrary: v)
  case 0
  show ?case by (simp add: keeps_def establishes_def)
next
  case (Suc n)
  show ?case unfolding keeps_def establishes_def
  proof (intro allI impI)
    fix st r st' assume run: "resolveValue B (Suc n) False v st = Inr (r, st')"
    show "r = v"
    proof (cases v)
      case (GObj m)
      with run obtain out where m: "resolveMap B (resolveValue B n False) False m st = Inr (out, st')" and r: "r = GObj out"
        by (auto split: sum.splits)
      have no_sd: "gm_get m ''_sd'' = None" using Suc.prems(2) GObj by simp
      with m have entries: "resolve_entries (resolveValue B n False) False m [] st = Inr (out, st')"
        by (auto simp: resolveMap_def split: sum.splits)
      have kept: "\<forall>kv \<in> set m. keeps (resolveValue B n False) (snd kv)" using Suc GObj by auto
      have "out = [] @ m"
        by (rule resolve_entries_keeps [OF entries _ kept]) (use Suc.prems(1) no_sd GObj in \<open>auto simp: map_of_eq_None_iff\<close>)
      with r GObj show ?thesis by simp
    next
      case (GArr els)
      with run obtain out where m: "resolveArray B (resolveValue B n False) els [] st = Inr (out, st')" and r: "r = GArr out"
        by (auto split: sum.splits)
      have "\<forall>el \<in> set els. keeps (resolveValue B n False) el \<and> ref_value el = None"
        using Suc GArr ref_value_digest by fastforce
      from resolveArray_keeps [OF m this] r GArr show ?thesis by simp
    qed (use run in auto)
  qed
qed

lemma first_registered_None:
  "first_registered h alg digests ds = None \<Longrightarrow> d \<in> set ds \<Longrightarrow> \<not> IsArrayElement d \<Longrightarrow>
     di_Name d \<in> set nonDisclosableClaims \<Longrightarrow> \<exists>dg. Digest h alg d = Inr dg \<and> dg \<notin> set digests"
  by (induction ds) (auto split: if_splits sum.splits)

lemma checkNoRegisteredClaimDisclosed_None:
  assumes "checkNoRegisteredClaimDisclosed h decoded alg ds = None" and "d \<in> set ds" and "\<not> IsArrayElement d"
    and "Digest h alg d = Inr dg" and "dg \<in> set (sd_digests decoded)"
  shows "di_Name d \<notin> set nonDisclosableClaims"
proof
  assume name: "di_Name d \<in> set nonDisclosableClaims"
  obtain items where items: "gm_get decoded ''_sd'' = Some (GArr items)" "dg \<in> set (List.map_filter as_str items)"
    using assms(5) that by (cases "gm_get decoded ''_sd''"; cases "the (gm_get decoded ''_sd'')") (auto simp: sd_digests_def)
  then have "items \<noteq> []" by (auto simp: map_filter_simps)
  with assms(1) items have "first_registered h alg (List.map_filter as_str items) ds = None"
    by (auto simp: checkNoRegisteredClaimDisclosed_def split: list.splits)
  from first_registered_None [OF this assms(2,3) name] assms(4) items(2) show False by auto
qed

lemma registered_names: "name \<in> set nonDisclosableClaims \<Longrightarrow> own_name name"
  by (auto simp: nonDisclosableClaims_def own_name_def)

lemma registered_unchanged:
  assumes "ResolveDisclosures h decoded alg ds = Inr out" and "goval_ok (GObj decoded)"
    and "checkNoRegisteredClaimDisclosed h decoded alg ds = None" and "checkNoRegisteredSubClaimDisclosable decoded = None"
    and name: "name \<in> set nonDisclosableClaims"
  shows "gm_get out name = gm_get decoded name"
proof -
  obtain B st where B: "index_disclosures h alg ds [] = Inr B"
    and run: "resolveValue B 33 True (GObj decoded) \<lparr> mk_used = [], mk_seen = [] \<rparr> = Inr (GObj out, st)"
    using resolved_cases [OF assms(1)] by metis
  define rv where "rv = resolveValue B 32 False"
  have "33 = Suc 32" by simp
  from run [unfolded this resolveValue.simps, folded rv_def]
  have "resolveMap B rv True decoded \<lparr> mk_used = [], mk_seen = [] \<rparr> = Inr (out, st)"
    by (auto split: sum.splits)
  then obtain out1 st1 where entries: "resolve_entries rv True decoded [] \<lparr> mk_used = [], mk_seen = [] \<rparr> = Inr (out1, st1)"
    and sd: "gm_get decoded ''_sd'' = None \<and> out = out1 \<or>
      (\<exists>items. gm_get decoded ''_sd'' = Some (GArr items) \<and> resolveSDDigests B rv items out1 st1 = Inr (out, st))"
    by (auto simp: resolveMap_def split: sum.splits option.splits)
  have "\<forall>kv \<in> set decoded. establishes rv (\<lambda>v r. hasDisclosureDigest v \<or> r = v) (snd kv)"
    using no_digest_keeps [of _ B 32] assms(2) by (fastforce simp: rv_def keeps_def establishes_def)
  from resolve_entries_rel [OF entries _ this, of name] assms(2,4) name registered_names [OF name]
  have own: "gm_get out1 name = gm_get decoded name"
    by (auto simp: checkNoRegisteredSubClaimDisclosable_def first_err_label split: option.splits if_splits)
  have undisclosed: "\<nexists>dg d. dg \<in> set (sd_digests decoded) \<and> gm_get B dg = Some d \<and> \<not> IsArrayElement d \<and> di_Name d = name"
  proof
    assume "\<exists>dg d. dg \<in> set (sd_digests decoded) \<and> gm_get B dg = Some d \<and> \<not> IsArrayElement d \<and> di_Name d = name"
    then obtain dg d where d: "dg \<in> set (sd_digests decoded)" "gm_get B dg = Some d" "\<not> IsArrayElement d" "di_Name d = name"
      by blast
    then have "d \<in> set ds" "Digest h alg d = Inr dg" using index_disclosures [OF B] by auto
    from checkNoRegisteredClaimDisclosed_None [OF assms(3) this(1) d(3) this(2) d(1)] d(4) name show False by simp
  qed
  from sd show ?thesis
  proof (elim disjE exE conjE)
    fix items assume items: "gm_get decoded ''_sd'' = Some (GArr items)" and run: "resolveSDDigests B rv items out1 st1 = Inr (out, st)"
    have "all_establish rv (\<lambda>_ _. True) B" by (simp add: all_establish_def establishes_def)
    from resolveSDDigests_rel [OF run this, of name] undisclosed own items show ?thesis
      by (auto simp: sd_digests_def)
  qed (use own in simp)
qed

section \<open>What verifying establishes\<close>

lemma VerifyVC_Inr:
  assumes "VerifyVC cr h json (expNow, nbfNow, kbNow) s issuerPub issuerAlg opts = Inr (resolved, header)"
  obtains pres raw decoded hashAlg where "ParseMax json s MaxBytes = Inr pres"
    "Verify cr issuerAlg issuerPub (pn_IssuerJWT pres) = Inr (header, raw)" "cr_json cr raw = Some decoded"
    "TypeIs (str_member header ''typ'') TypHeader \<or> vo_AcceptLegacyTyp opts \<and> TypeIs (str_member header ''typ'') LegacyTypHeader"
    "accept_payload h expNow nbfNow opts pres decoded = Inr hashAlg"
    "ResolveDisclosures h decoded hashAlg (pn_Disclosures pres) = Inr resolved"
    "verifyKeyBindingIfRequired cr h kbNow pres opts hashAlg = None"
proof -
  have "\<exists>pres raw decoded hashAlg. ParseMax json s MaxBytes = Inr pres \<and>
    Verify cr issuerAlg issuerPub (pn_IssuerJWT pres) = Inr (header, raw) \<and> cr_json cr raw = Some decoded \<and>
    (TypeIs (str_member header ''typ'') TypHeader \<or> vo_AcceptLegacyTyp opts \<and> TypeIs (str_member header ''typ'') LegacyTypHeader) \<and>
    accept_payload h expNow nbfNow opts pres decoded = Inr hashAlg \<and>
    ResolveDisclosures h decoded hashAlg (pn_Disclosures pres) = Inr resolved \<and>
    verifyKeyBindingIfRequired cr h kbNow pres opts hashAlg = None"
    using assms unfolding VerifyVC_def Parse_def by (auto simp: ok_iffs)
  with that show thesis by blast
qed

lemma accept_payload_Inr:
  assumes "accept_payload h expNow nbfNow opts pres decoded = Inr hashAlg"
  shows "(\<exists>vct. gm_get decoded ''vct'' = Some (GStr vct)) \<and> 0 \<le> vo_MaxClockSkew opts \<and>
    checkValidityWindow decoded expNow nbfNow (vo_MaxClockSkew opts) = None \<and>
    checkNoRegisteredClaimDisclosed h decoded hashAlg (pn_Disclosures pres) = None \<and>
    checkNoRegisteredSubClaimDisclosable decoded = None"
  using assms by (auto simp: accept_payload_def split: option.splits goval.splits if_splits sum.splits)

lemma takeWhile_to: "c \<notin> set xs \<Longrightarrow> takeWhile (\<lambda>x. x \<noteq> c) (xs @ c # ys) = xs"
  by (induction xs) auto

lemma issuer_jwt_text: "ParseMax json s n = Inr p \<Longrightarrow> pn_IssuerJWT p = takeWhile (\<lambda>c. c \<noteq> tilde) s"
  by (auto simp: ParseMax_Inr Compact_def SDJWT_def takeWhile_to)

lemma str_member_Some: "str_member m k = s \<Longrightarrow> s \<noteq> [] \<Longrightarrow> gm_get m k = Some (GStr s)"
  by (auto simp: str_member_def split: option.splits goval.splits)

lemma VerifyKeyBindingJWT_Inr:
  assumes "VerifyKeyBindingJWT cr now kbJWT holder alg chk = Inr claims"
  shows "\<exists>header raw issued. Verify cr alg holder kbJWT = Inr (header, raw) \<and> cr_json cr raw = Some claims \<and>
    gm_get claims ''aud'' = Some (GStr (kc_ExpectedAudience chk)) \<and>
    gm_get claims ''nonce'' = Some (GStr (kc_ExpectedNonce chk)) \<and>
    str_member claims ''sd_hash'' = kc_ExpectedSDHash chk \<and>
    date_claim claims ''iat'' = Inr (Some issued) \<and> \<bar>issued - now\<bar> \<le> kc_MaxAge chk"
proof -
  obtain header raw where hr: "Verify cr alg holder kbJWT = Inr (header, raw)"
    using assms by (auto simp: VerifyKeyBindingJWT_def split: if_splits sum.splits)
  from assms have opt: "kc_ExpectedAudience chk \<noteq> []" "kc_ExpectedNonce chk \<noteq> []"
    by (auto simp: VerifyKeyBindingJWT_def split: if_splits)
  from assms hr have "cr_json cr raw = Some claims" "str_member claims ''aud'' = kc_ExpectedAudience chk"
    "str_member claims ''nonce'' = kc_ExpectedNonce chk" "str_member claims ''sd_hash'' = kc_ExpectedSDHash chk"
    "\<exists>issued. date_claim claims ''iat'' = Inr (Some issued) \<and> \<not> issued > now + kc_MaxAge chk \<and> \<not> issued < now - kc_MaxAge chk"
    by (auto simp: VerifyKeyBindingJWT_def split: if_splits option.splits sum.splits)
  with hr opt str_member_Some show ?thesis by (fastforce simp: abs_le_iff)
qed

text \<open>A claim that may be withheld by no holder: the issuer's own, or absent where the issuer has none.\<close>

lemma verified_registered:
  assumes "VerifyVC cr h json (expNow, nbfNow, kbNow) s issuerPub issuerAlg opts = Inr (resolved, header)"
    and "\<forall>raw m. cr_json cr raw = Some m \<longrightarrow> goval_ok (GObj m)"
  obtains raw decoded where "Verify cr issuerAlg issuerPub (takeWhile (\<lambda>c. c \<noteq> tilde) s) = Inr (header, raw)"
    "cr_json cr raw = Some decoded" "\<forall>name \<in> set nonDisclosableClaims. gm_get resolved name = gm_get decoded name"
    "checkValidityWindow decoded expNow nbfNow (vo_MaxClockSkew opts) = None"
  using VerifyVC_Inr [OF assms(1)] accept_payload_Inr registered_unchanged issuer_jwt_text assms(2) by metis

section \<open>Properties\<close>

text \<open>C33: a presentation parses exactly when it is the compact serialization of what it parses to, which nothing is lost
  from: the hash a Key Binding JWT signs is one of the very bytes presented.\<close>

theorem parse_compact_iff:
  "ParseMax json s n = Inr p \<longleftrightarrow>
     length s \<le> n \<and> s = Compact p \<and> tilde \<notin> set (pn_IssuerJWT p) \<and> tilde \<notin> set (pn_KeyBindingJWT p) \<and>
     list_all (\<lambda>d. ParseDisclosure json (di_encoded d) = Inr d) (pn_Disclosures p)"
  unfolding list_all_iff by (rule ParseMax_Inr)

text \<open>C12: the registered claims of a verified SD-JWT VC (issuer, validity, holder key, type and status among them) are
  those of the JWT its issuer signed: no Disclosure adds, changes or withholds one.\<close>

theorem registered_claims_signed:
  assumes "VerifyVC cr h json clock s issuerPub issuerAlg opts = Inr (resolved, header)"
    and "\<forall>raw m. cr_json cr raw = Some m \<longrightarrow> goval_ok (GObj m)"
  shows "\<exists>raw decoded. Verify cr issuerAlg issuerPub (takeWhile (\<lambda>c. c \<noteq> tilde) s) = Inr (header, raw) \<and>
    cr_json cr raw = Some decoded \<and> (\<forall>name \<in> set nonDisclosableClaims. gm_get resolved name = gm_get decoded name)"
proof (cases clock)
  case (fields expNow nbfNow kbNow)
  from verified_registered [OF assms(1) [unfolded fields] assms(2)] show ?thesis by metis
qed

text \<open>A verified SD-JWT VC is in force: a validity date among the claims returned is a NumericDate, its \<open>exp\<close> still
  to come and its \<open>nbf\<close> past, give or take the skew.\<close>

theorem verified_in_force:
  assumes "VerifyVC cr h json (expNow, nbfNow, kbNow) s issuerPub issuerAlg opts = Inr (resolved, header)"
    and "\<forall>raw m. cr_json cr raw = Some m \<longrightarrow> goval_ok (GObj m)"
  shows "(case gm_get resolved ''exp'' of None \<Rightarrow> True
      | Some v \<Rightarrow> \<exists>f t. v = GFloat f \<and> FromFloat f = Inr t \<and> expNow < t + vo_MaxClockSkew opts) \<and>
    (case gm_get resolved ''nbf'' of None \<Rightarrow> True
      | Some v \<Rightarrow> \<exists>f t. v = GFloat f \<and> FromFloat f = Inr t \<and> t \<le> nbfNow + vo_MaxClockSkew opts)"
proof -
  obtain decoded where same: "\<forall>name \<in> set nonDisclosableClaims. gm_get resolved name = gm_get decoded name"
    and window: "checkValidityWindow decoded expNow nbfNow (vo_MaxClockSkew opts) = None"
    using verified_registered [OF assms] by metis
  have "gm_get resolved ''exp'' = gm_get decoded ''exp''" "gm_get resolved ''nbf'' = gm_get decoded ''nbf''"
    using same by (simp_all add: nonDisclosableClaims_def)
  with window show ?thesis
    by (auto simp: checkValidityWindow_def date_claim_def not_less split: option.splits goval.splits sum.splits if_splits)
qed

lemma VerifyVC_holder_bound:
  assumes "VerifyVC cr h json (expNow, nbfNow, kbNow) s issuerPub issuerAlg opts = Inr (resolved, header)"
    and "vo_RequireKeyBinding opts = Some KeyBindingRequired"
  shows "\<exists>sdjwt kb holder kbHeader raw claims hashAlg issued.
    s = sdjwt @ kb \<and> last sdjwt = tilde \<and> tilde \<notin> set kb \<and> vo_HolderPublicKey opts = Some holder \<and>
    Verify cr (vo_KeyBindingAlg opts) holder kb = Inr (kbHeader, raw) \<and> cr_json cr raw = Some claims \<and>
    gm_get claims ''aud'' = Some (GStr (vo_ExpectedAudience opts)) \<and>
    gm_get claims ''nonce'' = Some (GStr (vo_ExpectedNonce opts)) \<and>
    hashString h hashAlg sdjwt = Inr (str_member claims ''sd_hash'') \<and>
    date_claim claims ''iat'' = Inr (Some issued) \<and> \<bar>issued - kbNow\<bar> \<le> vo_MaxKeyBindingAge opts"
proof -
  obtain pres hashAlg where pres: "ParseMax json s MaxBytes = Inr pres"
    and kb: "verifyKeyBindingIfRequired cr h kbNow pres opts hashAlg = None"
    using VerifyVC_Inr [OF assms(1)] by metis
  from kb assms(2) obtain holder sdHash claims where holder: "vo_HolderPublicKey opts = Some holder"
    and hash: "SDHash h hashAlg pres = Inr sdHash"
    and v: "VerifyKeyBindingJWT cr kbNow (pn_KeyBindingJWT pres) holder (vo_KeyBindingAlg opts)
       \<lparr> kc_ExpectedAudience = vo_ExpectedAudience opts, kc_ExpectedNonce = vo_ExpectedNonce opts,
         kc_ExpectedSDHash = sdHash, kc_MaxClockSkew = vo_MaxClockSkew opts, kc_MaxAge = vo_MaxKeyBindingAge opts \<rparr> = Inr claims"
    by (auto simp: verifyKeyBindingIfRequired_def split: option.splits sum.splits)
  from VerifyKeyBindingJWT_Inr [OF v] obtain kbHeader raw issued where
    "Verify cr (vo_KeyBindingAlg opts) holder (pn_KeyBindingJWT pres) = Inr (kbHeader, raw)" "cr_json cr raw = Some claims"
    "gm_get claims ''aud'' = Some (GStr (vo_ExpectedAudience opts))" "gm_get claims ''nonce'' = Some (GStr (vo_ExpectedNonce opts))"
    "str_member claims ''sd_hash'' = sdHash" "date_claim claims ''iat'' = Inr (Some issued)"
    "\<bar>issued - kbNow\<bar> \<le> vo_MaxKeyBindingAge opts" by auto
  moreover have "s = SDJWT pres @ pn_KeyBindingJWT pres" "tilde \<notin> set (pn_KeyBindingJWT pres)"
    using pres by (simp_all add: ParseMax_Inr Compact_def)
  moreover have "last (SDJWT pres) = tilde"
    by (cases "pn_Disclosures pres" rule: rev_cases) (simp_all add: SDJWT_def)
  ultimately show ?thesis using holder hash unfolding SDHash_def by blast
qed

text \<open>C17: where key binding is required, a verified presentation ends in a Key Binding JWT the holder's key signed, for
  the expected audience and nonce, over the hash of every byte before it, within the age allowed.\<close>

theorem verified_holder_bound:
  assumes "VerifyVC cr h json (expNow, nbfNow, kbNow) s issuerPub issuerAlg opts = Inr (resolved, header)"
    and "vo_RequireKeyBinding opts = Some KeyBindingRequired"
  shows "\<exists>sdjwt kb holder kbHeader raw claims hashAlg issued.
    s = sdjwt @ kb \<and> last sdjwt = tilde \<and> tilde \<notin> set kb \<and> vo_HolderPublicKey opts = Some holder \<and>
    Verify cr (vo_KeyBindingAlg opts) holder kb = Inr (kbHeader, raw) \<and> cr_json cr raw = Some claims \<and>
    gm_get claims ''aud'' = Some (GStr (vo_ExpectedAudience opts)) \<and>
    gm_get claims ''nonce'' = Some (GStr (vo_ExpectedNonce opts)) \<and>
    hashString h hashAlg sdjwt = Inr (str_member claims ''sd_hash'') \<and>
    date_claim claims ''iat'' = Inr (Some issued) \<and> \<bar>issued - kbNow\<bar> \<le> vo_MaxKeyBindingAge opts"
  using assms by (rule VerifyVC_holder_bound)

text \<open>The hypotheses at an input: a credential with no Disclosure, presented with a Key Binding JWT.\<close>

definition vc_crypto :: "unit crypto" where
  "vc_crypto = \<lparr> cr_sha256 = (\<lambda>m. m), cr_ecdsa = (\<lambda>_ _ _. False), cr_ed25519 = (\<lambda>k m sig. sig = [1]),
     cr_asn1_unmarshal = (\<lambda>_. None), cr_asn1_marshal = (\<lambda>_ _. []),
     cr_json = (\<lambda>raw.
       if raw = [0] then Some [(''alg'', GStr EdDSA), (''typ'', GStr TypHeader)]
       else if raw = [2] then Some [(''vct'', GStr ''v''), (''exp'', GFloat (Finite 100))]
       else if raw = [3] then Some [(''alg'', GStr EdDSA), (''typ'', GStr KeyBindingTyp)]
       else if raw = [4] then Some [(''aud'', GStr ''a''), (''nonce'', GStr ''n''), (''iat'', GFloat (Finite 50))]
       else None),
     cr_marshal = (\<lambda>h. None) \<rparr>"

definition vc_options :: "unit verify_options" where
  "vc_options = \<lparr> vo_HashAlg = [], vo_RequireKeyBinding = Some KeyBindingRequired,
     vo_HolderPublicKey = Some (EdKey (replicate 32 7)), vo_KeyBindingAlg = EdDSA, vo_ExpectedAudience = ''a'',
     vo_ExpectedNonce = ''n'', vo_MaxKeyBindingAge = 1000000000, vo_MaxClockSkew = 0, vo_AcceptLegacyTyp = False \<rparr>"

abbreviation vc_clock :: "int \<times> int \<times> int" where
  "vc_clock \<equiv> (50500000000, 50500000000, 50500000000)"

abbreviation vc_presented :: presentation where
  "vc_presented \<equiv> \<lparr> pn_IssuerJWT = ''AA.Ag.AQ'', pn_Disclosures = [], pn_KeyBindingJWT = ''Aw.BA.AQ'' \<rparr>"

lemma vc_parses: "Parse sample_json ''AA.Ag.AQ~Aw.BA.AQ'' = Inr vc_presented"
  unfolding Parse_def ParseMax_Inr by (simp add: Compact_def SDJWT_def tilde_def MaxBytes_def)

lemma vc_signed:
  "Verify vc_crypto EdDSA (EdKey (replicate 32 7)) ''AA.Ag.AQ'' = Inr ([(''alg'', GStr EdDSA), (''typ'', GStr TypHeader)], [2])"
  "Verify vc_crypto EdDSA (EdKey (replicate 32 7)) ''Aw.BA.AQ'' = Inr ([(''alg'', GStr EdDSA), (''typ'', GStr KeyBindingTyp)], [4])"
proof -
  have "VerifyMax vc_crypto EdDSA (EdKey (replicate 32 7)) ''AA.Ag.AQ'' 10 =
      Inr ([(''alg'', GStr EdDSA), (''typ'', GStr TypHeader)], [2])"
    and "VerifyMax vc_crypto EdDSA (EdKey (replicate 32 7)) ''Aw.BA.AQ'' 10 =
      Inr ([(''alg'', GStr EdDSA), (''typ'', GStr KeyBindingTyp)], [4])" by code_simp+
  then show "Verify vc_crypto EdDSA (EdKey (replicate 32 7)) ''AA.Ag.AQ'' =
      Inr ([(''alg'', GStr EdDSA), (''typ'', GStr TypHeader)], [2])"
    and "Verify vc_crypto EdDSA (EdKey (replicate 32 7)) ''Aw.BA.AQ'' =
      Inr ([(''alg'', GStr EdDSA), (''typ'', GStr KeyBindingTyp)], [4])"
    unfolding Verify_def by (auto intro: verify_max_mono simp: MaxCompactBytes_def)
qed

lemma vc_types: "TypeIs TypHeader TypHeader" "TypeIs KeyBindingTyp KeyBindingTyp"
  by code_simp+

lemma vc_bound: "verifyKeyBindingIfRequired vc_crypto sample_hash 50500000000 vc_presented vc_options SHA256 = None"
proof -
  have "SDHash sample_hash SHA256 vc_presented = Inr []" by code_simp
  moreover have "VerifyKeyBindingJWT vc_crypto 50500000000 ''Aw.BA.AQ'' (EdKey (replicate 32 7)) EdDSA
      \<lparr> kc_ExpectedAudience = ''a'', kc_ExpectedNonce = ''n'', kc_ExpectedSDHash = [], kc_MaxClockSkew = 0,
        kc_MaxAge = 1000000000 \<rparr> = Inr [(''aud'', GStr ''a''), (''nonce'', GStr ''n''), (''iat'', GFloat (Finite 50))]"
    by (simp add: VerifyKeyBindingJWT_def vc_signed str_member_def vc_types)
      (simp add: vc_crypto_def str_member_def date_claim_def checkValidityWindow_def MaxDate_def second_def)
  ultimately show ?thesis by (simp add: verifyKeyBindingIfRequired_def vc_options_def)
qed

lemma vc_accepted:
  "accept_payload sample_hash 50500000000 50500000000 vc_options vc_presented [(''vct'', GStr ''v''), (''exp'', GFloat (Finite 100))] =
     Inr SHA256"
  by (simp add: accept_payload_def vc_options_def checkValidityWindow_def date_claim_def MaxDate_def second_def PayloadHashAlg_def
      DefaultHashAlg_def checkNoRegisteredClaimDisclosed_def checkNoRegisteredSubClaimDisclosable_def nonDisclosableClaims_def)

lemma vc_verifies:
  "VerifyVC vc_crypto sample_hash sample_json vc_clock ''AA.Ag.AQ~Aw.BA.AQ'' (EdKey (replicate 32 7)) EdDSA vc_options =
     Inr ([(''vct'', GStr ''v''), (''exp'', GFloat (Finite 100))], [(''alg'', GStr EdDSA), (''typ'', GStr TypHeader)])"
proof -
  have "ResolveDisclosures sample_hash [(''vct'', GStr ''v''), (''exp'', GFloat (Finite 100))] SHA256 [] =
      Inr [(''vct'', GStr ''v''), (''exp'', GFloat (Finite 100))]" by code_simp
  moreover have "cr_json vc_crypto [2] = Some [(''vct'', GStr ''v''), (''exp'', GFloat (Finite 100))]"
    by (simp add: vc_crypto_def)
  moreover have "vo_RequireKeyBinding vc_options = Some KeyBindingRequired" by (simp add: vc_options_def)
  ultimately show ?thesis
    by (simp add: VerifyVC_def vc_parses vc_signed vc_types vc_bound vc_accepted HasKeyBinding_def str_member_def)
qed

lemma vc_decodes: "cr_json vc_crypto raw = Some m \<longrightarrow> goval_ok (GObj m)"
  by (auto simp: vc_crypto_def split: if_splits)

theorem registered_claims_signed_witness:
  "\<exists>raw decoded. Verify vc_crypto EdDSA (EdKey (replicate 32 7)) ''AA.Ag.AQ'' =
      Inr ([(''alg'', GStr EdDSA), (''typ'', GStr TypHeader)], raw) \<and> cr_json vc_crypto raw = Some decoded"
  using registered_claims_signed [OF vc_verifies] vc_decodes by (auto simp: tilde_def)

theorem verified_in_force_witness: "\<exists>t. FromFloat (Finite 100) = Inr t \<and> 50500000000 < t"
  using verified_in_force [OF vc_verifies] vc_decodes by (simp add: vc_options_def)

theorem verified_holder_bound_witness:
  "\<exists>sdjwt kb. ''AA.Ag.AQ~Aw.BA.AQ'' = sdjwt @ kb \<and> last sdjwt = tilde \<and> tilde \<notin> set kb"
  using verified_holder_bound [OF vc_verifies] by (fastforce simp: vc_options_def)

end
