(* ===== verification/Sdjwt_Select.thy ===== *)
theory Sdjwt_Select
  imports Sdjwt_Resolve Dcql_Query
begin

text \<open>
  Which Disclosures a Holder presents for the claims asked, \<open>src/credential/sdjwtvc/disclosure_selection.go\<close>, and the
  Verifier's check that no other was presented, \<open>checkRequestedDisclosures\<close> and \<open>checkRequestedElements\<close> of
  \<open>src/verifier/verify_response.go\<close>. The map \<open>selected\<close> is threaded. \<open>includeDisclosure\<close> recurses through Disclosures,
  which need not be a tree; it takes a bound on how many more it may select, and \<open>select_terminates\<close> shows the
  number of Disclosures there are is always enough.
\<close>

section \<open>Digests in a value\<close>

definition disclosureRefDigest :: "goval \<Rightarrow> string option" where
  "disclosureRefDigest el = (case ref_value el of Some (GStr dg) \<Rightarrow> Some dg | _ \<Rightarrow> None)"

text \<open>\<open>sdDigests\<close> is \<open>sd_digests\<close>: the strings of an object's \<open>_sd\<close> array.\<close>

section \<open>Including what a value references\<close>

type_synonym selection = "(string, disclosure) gomap"
type_synonym include_fn = "string \<Rightarrow> selection \<Rightarrow> sd_error + selection"

fun include_digests :: "include_fn \<Rightarrow> string list \<Rightarrow> selection \<Rightarrow> sd_error + selection" where
  "include_digests inc [] sel = Inr sel"
| "include_digests inc (dg # dgs) sel = rbind (inc dg sel) (include_digests inc dgs)"

fun includeAllDisclosures :: "include_fn \<Rightarrow> goval \<Rightarrow> selection \<Rightarrow> sd_error + selection"
  and include_members :: "include_fn \<Rightarrow> (string \<times> goval) list \<Rightarrow> selection \<Rightarrow> sd_error + selection"
  and include_elements :: "include_fn \<Rightarrow> goval list \<Rightarrow> selection \<Rightarrow> sd_error + selection" where
  "includeAllDisclosures inc (GObj m) sel = rbind (include_members inc m sel) (include_digests inc (sd_digests m))"
| "includeAllDisclosures inc (GArr els) sel = include_elements inc els sel"
| "includeAllDisclosures inc _ sel = Inr sel"
| "include_members inc [] sel = Inr sel"
| "include_members inc ((k, v) # m) sel =
     (if k = ''_sd'' \<or> k = ''_sd_alg'' then include_members inc m sel
      else rbind (includeAllDisclosures inc v sel) (include_members inc m))"
| "include_elements inc [] sel = Inr sel"
| "include_elements inc (el # els) sel =
     (case disclosureRefDigest el of
        Some dg \<Rightarrow> rbind (inc dg sel) (include_elements inc els)
      | None \<Rightarrow> rbind (includeAllDisclosures inc el sel) (include_elements inc els))"

primrec includeDisclosure :: "by_digest \<Rightarrow> nat \<Rightarrow> include_fn" where
  "includeDisclosure B 0 dg sel =
     (if gm_get sel dg \<noteq> None then Inr sel
      else (case gm_get B dg of None \<Rightarrow> Inr sel | Some d \<Rightarrow> Inl NoFuel))"
| "includeDisclosure B (Suc fuel) dg sel =
     (if gm_get sel dg \<noteq> None then Inr sel
      else (case gm_get B dg of
          None \<Rightarrow> Inr sel
        | Some d \<Rightarrow> includeAllDisclosures (includeDisclosure B fuel) (di_Value d) (gm_put dg d sel)))"

section \<open>Walking a path\<close>

text \<open>A path component: a string, an \<open>int\<close>, nil or a value of another type.\<close>

datatype component = CKey string | CIndex int | CAll | COther

type_synonym walk = "goval \<Rightarrow> selection \<Rightarrow> sd_error + selection"

fun first_named :: "by_digest \<Rightarrow> string \<Rightarrow> string list \<Rightarrow> (string \<times> disclosure) option" where
  "first_named B key [] = None"
| "first_named B key (dg # dgs) =
     (case gm_get B dg of
        None \<Rightarrow> first_named B key dgs
      | Some d \<Rightarrow> (if IsArrayElement d \<or> di_Name d \<noteq> key then first_named B key dgs else Some (dg, d)))"

definition selectMember :: "by_digest \<Rightarrow> string \<Rightarrow> walk \<Rightarrow> walk" where
  "selectMember B key rest node sel =
     (case as_obj node of
        None \<Rightarrow> Inl NotObjectAt
      | Some obj \<Rightarrow>
          (case gm_get obj key of
             Some child \<Rightarrow> rest child sel
           | None \<Rightarrow>
               (case first_named B key (sd_digests obj) of
                  None \<Rightarrow> Inr sel
                | Some (dg, d) \<Rightarrow> rest (di_Value d) (gm_put dg d sel))))"

text \<open>The elements the credential has, each with the digest of the Disclosure it came from, empty for none.\<close>

fun resolveElements :: "by_digest \<Rightarrow> goval list \<Rightarrow> (goval \<times> string) list" where
  "resolveElements B [] = []"
| "resolveElements B (el # els) =
     (case disclosureRefDigest el of
        None \<Rightarrow> (el, []) # resolveElements B els
      | Some ref \<Rightarrow>
          (case gm_get B ref of
             None \<Rightarrow> resolveElements B els
           | Some d \<Rightarrow> (di_Value d, ref) # resolveElements B els))"

text \<open>A digest is in \<open>B\<close> when an element carries it; Go's map would yield the zero Disclosure otherwise.\<close>

definition selectElement :: "by_digest \<Rightarrow> walk \<Rightarrow> goval \<times> string \<Rightarrow> selection \<Rightarrow> sd_error + selection" where
  "selectElement B rest el sel =
     (case el of (v, dg) \<Rightarrow>
        rest v (if dg \<noteq> [] then (case gm_get B dg of Some d \<Rightarrow> gm_put dg d sel | None \<Rightarrow> sel) else sel))"

definition walkable :: "goval \<Rightarrow> component list \<Rightarrow> bool" where
  "walkable v rest =
     (case rest of
        [] \<Rightarrow> True
      | CKey _ # _ \<Rightarrow> as_obj v \<noteq> None
      | _ \<Rightarrow> as_arr v \<noteq> None)"

fun select_walkable ::
  "by_digest \<Rightarrow> component list \<Rightarrow> walk \<Rightarrow> (goval \<times> string) list \<Rightarrow> selection \<Rightarrow> sd_error + selection" where
  "select_walkable B path rest [] sel = Inr sel"
| "select_walkable B path rest (el # els) sel =
     (if \<not> walkable (fst el) path then select_walkable B path rest els sel
      else rbind (selectElement B rest el sel) (select_walkable B path rest els))"

text \<open>\<open>None\<close> stands for the wildcard's \<open>-1\<close>.\<close>

definition selectElements :: "by_digest \<Rightarrow> nat option \<Rightarrow> component list \<Rightarrow> walk \<Rightarrow> walk" where
  "selectElements B index path rest node sel =
     (case as_arr node of
        None \<Rightarrow> Inl NotArrayAt
      | Some arr \<Rightarrow>
          (let elements = resolveElements B arr in
           case index of
             Some i \<Rightarrow> (if i \<ge> length elements then Inr sel else selectElement B rest (elements ! i) sel)
           | None \<Rightarrow> select_walkable B path rest elements sel))"

primrec selectPath :: "by_digest \<Rightarrow> nat \<Rightarrow> component list \<Rightarrow> walk" where
  "selectPath B fuel [] node sel = includeAllDisclosures (includeDisclosure B fuel) node sel"
| "selectPath B fuel (c # rest) node sel =
     (case c of
        CKey k \<Rightarrow> selectMember B k (selectPath B fuel rest) node sel
      | CIndex i \<Rightarrow>
          (if i < 0 then Inl (NegativeElement i)
           else selectElements B (Some (nat i)) rest (selectPath B fuel rest) node sel)
      | CAll \<Rightarrow> selectElements B None rest (selectPath B fuel rest) node sel
      | COther \<Rightarrow> Inl BadComponent)"

fun by_digest_of :: "hash_fn \<Rightarrow> string \<Rightarrow> disclosure list \<Rightarrow> by_digest \<Rightarrow> sd_error + by_digest" where
  "by_digest_of h alg [] B = Inr B"
| "by_digest_of h alg (d # ds) B = rbind (Digest h alg d) (\<lambda>dg. by_digest_of h alg ds (gm_put dg d B))"

fun select_paths :: "by_digest \<Rightarrow> goval \<Rightarrow> component list list \<Rightarrow> selection \<Rightarrow> sd_error + selection" where
  "select_paths B node [] sel = Inr sel"
| "select_paths B node (p # ps) sel = rbind (selectPath B (length B) p node sel) (select_paths B node ps)"

definition SelectDisclosuresAt ::
  "hash_fn \<Rightarrow> (string \<times> goval) list \<Rightarrow> string \<Rightarrow> disclosure list \<Rightarrow> component list list \<Rightarrow> sd_error + disclosure list" where
  "SelectDisclosuresAt h payload alg all paths =
     rbind (by_digest_of h alg all []) (\<lambda>B. rmap (map snd) (select_paths B (GObj payload) paths []))"

definition SelectDisclosures ::
  "hash_fn \<Rightarrow> (string \<times> goval) list \<Rightarrow> string \<Rightarrow> disclosure list \<Rightarrow> string list list \<Rightarrow> sd_error + disclosure list" where
  "SelectDisclosures h payload alg all paths = SelectDisclosuresAt h payload alg all (map (map CKey) paths)"

section \<open>The Verifier's check\<close>

datatype request_error =
    BadHash sd_error
  | NotSelectable sd_error
  | DigestFails sd_error
  | Unrequested "string list"
  | UnrequestedElements "(string \<times> string) list"

definition widened :: "path \<Rightarrow> component list" where
  "widened p = map (\<lambda>e. if IsKey e then CKey (Key e) else CAll) p"

fun digests_of :: "hash_fn \<Rightarrow> string \<Rightarrow> disclosure list \<Rightarrow> sd_error + string list" where
  "digests_of h alg [] = Inr []"
| "digests_of h alg (d # ds) = rbind (Digest h alg d) (\<lambda>dg. rmap (\<lambda>dgs. dg # dgs) (digests_of h alg ds))"

definition checkRequestedDisclosures ::
  "hash_fn \<Rightarrow> credential_query \<Rightarrow> (string \<times> goval) list \<Rightarrow> disclosure list \<Rightarrow> request_error option" where
  "checkRequestedDisclosures h cq payload disclosures =
     (case PayloadHashAlg payload SHA256 of
        Inl e \<Rightarrow> Some (BadHash e)
      | Inr hashAlg \<Rightarrow>
          (case SelectDisclosuresAt h payload hashAlg disclosures (map (\<lambda>cl. widened (cl_Path cl)) (elems (cq_Claims cq))) of
             Inl e \<Rightarrow> Some (NotSelectable e)
           | Inr selected \<Rightarrow>
               (case digests_of h hashAlg selected of
                  Inl e \<Rightarrow> Some (DigestFails e)
                | Inr requested \<Rightarrow>
                    (case digests_of h hashAlg disclosures of
                       Inl e \<Rightarrow> Some (DigestFails e)
                     | Inr presented \<Rightarrow>
                         (let unrequested = [d. (d, dg) \<leftarrow> zip disclosures presented, dg \<notin> set requested]
                          in if unrequested \<noteq> []
                             then Some (Unrequested (map (\<lambda>d. if IsArrayElement d then ''an array element'' else di_Name d) unrequested))
                             else None)))))"

definition checkRequestedElements ::
  "credential_query \<Rightarrow> (string, (string, goval) gomap) gomap \<Rightarrow> request_error option" where
  "checkRequestedElements cq disclosed =
     (let requested = List.map_filter (\<lambda>cl. MdocNamespaceAndElement (cl_Path cl)) (elems (cq_Claims cq));
          unrequested = [(ns, el). (ns, els) \<leftarrow> disclosed, (el, _) \<leftarrow> els, (ns, el) \<notin> set requested]
      in if unrequested \<noteq> [] then Some (UnrequestedElements unrequested) else None)"

section \<open>Including as a search\<close>

text \<open>The digests standing in a value, outside the values of Disclosures, in the order they are visited.\<close>

fun digests_in :: "goval \<Rightarrow> string list"
  and member_digests :: "(string \<times> goval) list \<Rightarrow> string list"
  and element_refs :: "goval list \<Rightarrow> string list" where
  "digests_in (GObj m) = member_digests m @ sd_digests m"
| "digests_in (GArr els) = element_refs els"
| "digests_in _ = []"
| "member_digests [] = []"
| "member_digests ((k, v) # m) = (if own_name k then digests_in v else []) @ member_digests m"
| "element_refs [] = []"
| "element_refs (el # els) =
     (case disclosureRefDigest el of Some dg \<Rightarrow> [dg] | None \<Rightarrow> digests_in el) @ element_refs els"

lemma include_digests_append:
  "include_digests inc (xs @ ys) sel = rbind (include_digests inc xs sel) (include_digests inc ys)"
proof (induction xs arbitrary: sel)
  case (Cons x xs)
  show ?case by (cases "inc x sel") (simp_all add: Cons.IH)
qed simp

lemma include_all_digests:
  "includeAllDisclosures inc v sel = include_digests inc (digests_in v) sel"
  "include_members inc m sel = include_digests inc (member_digests m) sel"
  "include_elements inc els sel = include_digests inc (element_refs els) sel"
proof (induction inc v sel and inc m sel and inc els sel
    rule: includeAllDisclosures_include_members_include_elements.induct)
  case (5 inc k v m sel)
  show ?case
  proof (cases "k = ''_sd'' \<or> k = ''_sd_alg''")
    case True
    with 5(1) show ?thesis by (auto simp: own_name_def)
  next
    case False
    have "rbind (includeAllDisclosures inc v sel) (include_members inc m) =
        rbind (includeAllDisclosures inc v sel) (include_digests inc (member_digests m))"
      using 5(3) False by (cases "includeAllDisclosures inc v sel") auto
    with 5(2) False show ?thesis by (simp add: include_digests_append own_name_def)
  qed
next
  case (7 inc el els sel)
  show ?case
  proof (cases "disclosureRefDigest el")
    case None
    with 7 have "include_elements inc els = include_digests inc (element_refs els)" by (intro ext) auto
    with 7 None show ?thesis by (simp add: include_digests_append)
  next
    case (Some dg)
    then show ?thesis using 7 by (cases "inc dg sel") (auto simp: include_digests_append)
  qed
qed (auto simp: include_digests_append rbind_def split: sum.splits)

lemmas include_value = include_all_digests(1)

text \<open>How many Disclosures are still to be selected.\<close>

definition unselected :: "by_digest \<Rightarrow> selection \<Rightarrow> nat" where
  "unselected B sel = card (dom (gm_get B) - dom (gm_get sel))"

definition grows :: "selection \<Rightarrow> selection \<Rightarrow> bool" where
  "grows sel sel' = (gm_get sel \<subseteq>\<^sub>m gm_get sel')"

lemma grows_refl [simp]: "grows sel sel"
  by (simp add: grows_def)

lemma growsD: "grows sel sel' \<Longrightarrow> gm_get sel k = Some d \<Longrightarrow> gm_get sel' k = Some d"
  by (auto simp: grows_def map_le_def dom_def)

lemma grows_trans: "grows a b \<Longrightarrow> grows b c \<Longrightarrow> grows a c"
  unfolding grows_def by (rule map_le_trans)

lemma grows_put: "gm_get sel dg = None \<or> gm_get sel dg = Some d \<Longrightarrow> grows sel (gm_put dg d sel)"
  by (auto simp: grows_def map_le_def dom_def)

lemma unselected_grows: "grows a b \<Longrightarrow> unselected B b \<le> unselected B a"
  unfolding unselected_def grows_def
  by (intro card_mono finite_Diff finite_dom_map_of) (auto dest: map_le_implies_dom_le)

lemma unselected_put:
  assumes "gm_get B dg = Some d" and "gm_get sel dg = None"
  shows "Suc (unselected B (gm_put dg d sel)) = unselected B sel"
proof -
  have "dom (gm_get B) - dom (gm_get sel) = insert dg (dom (gm_get B) - dom (gm_get (gm_put dg d sel)))"
    using assms by (auto simp: gm_get_put split: if_splits)
  moreover have "dg \<notin> dom (gm_get B) - dom (gm_get (gm_put dg d sel))" by (simp add: dom_def)
  ultimately show ?thesis
    unfolding unselected_def by (metis card_insert_disjoint finite_Diff finite_dom_map_of)
qed

text \<open>A step that may be taken whenever \<open>n\<close> more selections suffice: it succeeds and only adds.\<close>

definition total_within :: "by_digest \<Rightarrow> nat \<Rightarrow> include_fn \<Rightarrow> bool" where
  "total_within B n inc = (\<forall>dg sel. unselected B sel \<le> n \<longrightarrow> (\<exists>sel'. inc dg sel = Inr sel' \<and> grows sel sel'))"

lemma include_digests_total:
  assumes "total_within B n inc" and "unselected B sel \<le> n"
  shows "\<exists>sel'. include_digests inc dgs sel = Inr sel' \<and> grows sel sel'"
  using assms(2)
proof (induction dgs arbitrary: sel)
  case (Cons dg dgs)
  then obtain sel1 where step: "inc dg sel = Inr sel1" "grows sel sel1"
    using assms(1) unfolding total_within_def by blast
  then have "unselected B sel1 \<le> n" using unselected_grows [OF step(2), of B] Cons.prems by simp
  from Cons.IH [OF this] step show ?case by (auto intro: grows_trans)
qed simp

lemma includeDisclosure_total: "total_within B n (includeDisclosure B n)"
proof (induction n)
  case 0
  show ?case unfolding total_within_def
  proof (intro allI impI)
    fix dg sel assume "unselected B sel \<le> 0"
    then have "gm_get sel dg \<noteq> None" if "gm_get B dg \<noteq> None"
      using that by (fastforce simp: unselected_def finite_dom_map_of)
    then show "\<exists>sel'. includeDisclosure B 0 dg sel = Inr sel' \<and> grows sel sel'"
      by (cases "gm_get B dg") auto
  qed
next
  case (Suc n)
  show ?case unfolding total_within_def
  proof (intro allI impI)
    fix dg sel assume n: "unselected B sel \<le> Suc n"
    show "\<exists>sel'. includeDisclosure B (Suc n) dg sel = Inr sel' \<and> grows sel sel'"
    proof (cases "gm_get sel dg = None \<and> gm_get B dg \<noteq> None")
      case True
      then obtain d where d: "gm_get B dg = Some d" and new: "gm_get sel dg = None" by auto
      with n unselected_put [OF d new] have "unselected B (gm_put dg d sel) \<le> n" by simp
      from include_digests_total [OF Suc.IH this, of "digests_in (di_Value d)"] grows_put [of sel dg d] new d
      show ?thesis by (auto simp: include_value intro: grows_trans)
    qed (auto split: option.splits)
  qed
qed

lemma include_total:
  assumes "unselected B sel \<le> n"
  shows "\<exists>sel'. includeAllDisclosures (includeDisclosure B n) v sel = Inr sel' \<and> grows sel sel'"
  unfolding include_value by (rule include_digests_total [OF includeDisclosure_total assms])

text \<open>So more of the bound changes nothing: the search ends by itself.\<close>

lemma unselected_le: "unselected B sel \<le> length B"
proof -
  have "card (dom (gm_get B)) \<le> length B"
    by (metis card_length dom_map_of_conv_image_fst image_set length_map)
  moreover have "unselected B sel \<le> card (dom (gm_get B))"
    unfolding unselected_def by (intro card_mono finite_dom_map_of) blast
  ultimately show ?thesis by simp
qed

lemma selectPath_never_short:
  assumes "length B \<le> fuel"
  shows "selectPath B fuel path node sel \<noteq> Inl NoFuel"
proof (induction path arbitrary: node sel)
  case Nil
  have "unselected B sel \<le> fuel" using unselected_le assms order_trans by blast
  from include_total [OF this, of node] show ?case by auto
next
  case (Cons c rest)
  have el: "selectElement B (selectPath B fuel rest) e s \<noteq> Inl NoFuel" for e s
    using Cons.IH by (simp add: selectElement_def split: prod.splits)
  have els: "select_walkable B p (selectPath B fuel rest) es s \<noteq> Inl NoFuel" for p es s
  proof (induction es arbitrary: s)
    case (Cons e es)
    show ?case using Cons.IH el [of e s] by (cases "selectElement B (selectPath B fuel rest) e s") auto
  qed simp
  show ?case
    using Cons.IH el els
    by (auto simp: selectMember_def selectElements_def Let_def split: component.splits option.splits)
qed

lemma select_paths_never_short: "select_paths B node paths sel \<noteq> Inl NoFuel"
proof (induction paths arbitrary: sel)
  case (Cons p ps)
  show ?case using Cons.IH selectPath_never_short [of B "length B" p node sel]
    by (cases "selectPath B (length B) p node sel") auto
qed simp

lemma by_digest_of_never_short: "by_digest_of h alg ds B \<noteq> Inl NoFuel"
  by (induction ds arbitrary: B) (auto simp: rbind_def Digest_def hashString_def split: sum.splits)

section \<open>What a walk meets\<close>

text \<open>The selections a walk makes only from what it met: each Disclosure selected is the credential's and stands where
  \<open>stood\<close> says.\<close>

definition placed :: "(selection \<Rightarrow> string \<Rightarrow> bool) \<Rightarrow> by_digest \<Rightarrow> selection \<Rightarrow> bool" where
  "placed stood B sel = (gm_ok sel \<and> (\<forall>dg d. gm_get sel dg = Some d \<longrightarrow> gm_get B dg = Some d \<and> stood sel dg))"

definition places_from :: "(selection \<Rightarrow> string \<Rightarrow> bool) \<Rightarrow> by_digest \<Rightarrow> selection \<Rightarrow> selection \<Rightarrow> bool" where
  "places_from stood B sel sel' = (placed stood B sel' \<and> grows sel sel')"

lemma places_from_refl: "placed stood B sel \<Longrightarrow> places_from stood B sel sel"
  by (simp add: places_from_def)

lemma places_from_trans: "places_from stood B a b \<Longrightarrow> places_from stood B b c \<Longrightarrow> places_from stood B a c"
  by (auto simp: places_from_def intro: grows_trans)

text \<open>The interface between the walk and a notion of position: the values \<open>held\<close> and the digests that have \<open>stood\<close>
  under a selection, closed under what the walk does with them.\<close>

lemma first_named_Some:
  "first_named B key dgs = Some (dg, d) \<Longrightarrow> dg \<in> set dgs \<and> gm_get B dg = Some d"
  by (induction dgs) (auto split: option.splits if_splits)

lemma resolveElements_from:
  assumes "(v, dg) \<in> set (resolveElements B els)"
  shows "(dg = [] \<and> v \<in> set els \<and> disclosureRefDigest v = None) \<or>
    (\<exists>el d. el \<in> set els \<and> disclosureRefDigest el = Some dg \<and> gm_get B dg = Some d \<and> v = di_Value d)"
  using assms by (induction els) (auto split: option.splits)

locale disclosure_positions =
  fixes B :: by_digest and stood :: "selection \<Rightarrow> string \<Rightarrow> bool" and met :: "selection \<Rightarrow> goval \<Rightarrow> bool"
  assumes stood_grows: "stood sel dg \<Longrightarrow> grows sel sel' \<Longrightarrow> stood sel' dg"
    and met_grows: "met sel v \<Longrightarrow> grows sel sel' \<Longrightarrow> met sel' v"
    and met_own: "met sel (GObj m) \<Longrightarrow> (k, v) \<in> set m \<Longrightarrow> own_name k \<Longrightarrow> met sel v"
    and met_member: "met sel (GObj m) \<Longrightarrow> gm_get m k = Some v \<Longrightarrow> met sel v"
    and met_named: "met sel (GObj m) \<Longrightarrow> dg \<in> set (sd_digests m) \<Longrightarrow> stood sel dg"
    and met_element: "met sel (GArr els) \<Longrightarrow> el \<in> set els \<Longrightarrow> disclosureRefDigest el = None \<Longrightarrow> met sel el"
    and met_ref: "met sel (GArr els) \<Longrightarrow> el \<in> set els \<Longrightarrow> disclosureRefDigest el = Some dg \<Longrightarrow> stood sel dg"
    and met_value: "stood sel dg \<Longrightarrow> gm_get B dg = Some d \<Longrightarrow> gm_get sel dg = Some d \<Longrightarrow> met sel (di_Value d)"
begin

lemma met_digests:
  "met sel v \<Longrightarrow> \<forall>dg \<in> set (digests_in v). stood sel dg"
  "(\<forall>kv \<in> set m. own_name (fst kv) \<longrightarrow> met sel (snd kv)) \<Longrightarrow> \<forall>dg \<in> set (member_digests m). stood sel dg"
  "(\<forall>el \<in> set els. case disclosureRefDigest el of None \<Rightarrow> met sel el | Some dg \<Rightarrow> stood sel dg) \<Longrightarrow>
     \<forall>dg \<in> set (element_refs els). stood sel dg"
proof (induction v and m and els rule: digests_in_member_digests_element_refs.induct)
  case (1 m)
  have "\<forall>kv \<in> set m. own_name (fst kv) \<longrightarrow> met sel (snd kv)" using met_own [OF 1(2)] by force
  from 1(1) [OF this] met_named [OF 1(2)] show ?case by auto
next
  case (2 els)
  have "\<forall>el \<in> set els. case disclosureRefDigest el of None \<Rightarrow> met sel el | Some dg \<Rightarrow> stood sel dg"
    using met_element [OF 2(2)] met_ref [OF 2(2)] by (auto split: option.splits)
  from 2(1) [OF this] show ?case by simp
next
  case (7 el els)
  then show ?case by (cases "disclosureRefDigest el") auto
qed auto

lemma put_placed:
  assumes "placed stood B sel" and "gm_get B dg = Some d" and "stood sel dg"
  shows "places_from stood B sel (gm_put dg d sel)" and "met (gm_put dg d sel) (di_Value d)"
proof -
  have "gm_get sel dg = None \<or> gm_get sel dg = Some d"
    using assms(1,2) by (cases "gm_get sel dg") (auto simp: placed_def)
  then have g: "grows sel (gm_put dg d sel)" by (rule grows_put)
  with assms stood_grows [OF _ g] show "places_from stood B sel (gm_put dg d sel)" by (auto simp: placed_def places_from_def)
  show "met (gm_put dg d sel) (di_Value d)" using met_value [OF stood_grows [OF assms(3) g] assms(2)] by simp
qed


lemma include_digests_placed:
  assumes "\<And>dg sel sel'. inc dg sel = Inr sel' \<Longrightarrow> placed stood B sel \<Longrightarrow> stood sel dg \<Longrightarrow> places_from stood B sel sel'"
    and "include_digests inc dgs sel = Inr sel'" and "placed stood B sel" and "\<forall>dg \<in> set dgs. stood sel dg"
  shows "places_from stood B sel sel'"
  using assms(2,3,4)
proof (induction dgs arbitrary: sel)
  case (Cons dg dgs)
  then obtain sel1 where step: "inc dg sel = Inr sel1" and rest: "include_digests inc dgs sel1 = Inr sel'"
    by (auto simp: rbind_Inr_iff)
  have one: "places_from stood B sel sel1" using assms(1) [OF step] Cons.prems by simp
  then have "\<forall>dg \<in> set dgs. stood sel1 dg" "placed stood B sel1"
    using Cons.prems(3) stood_grows by (auto simp: places_from_def)
  from places_from_trans [OF one Cons.IH [OF rest this(2,1)]] show ?case .
qed (simp add: places_from_refl)

lemma includeDisclosure_placed:
  "includeDisclosure B n dg sel = Inr sel' \<Longrightarrow> placed stood B sel \<Longrightarrow> stood sel dg \<Longrightarrow> places_from stood B sel sel'"
proof (induction n arbitrary: dg sel sel')
  case 0
  then show ?case by (auto simp: places_from_refl split: if_splits option.splits)
next
  case (Suc n)
  show ?case
  proof (cases "gm_get sel dg = None \<and> gm_get B dg \<noteq> None")
    case True
    then obtain d where d: "gm_get B dg = Some d" by auto
    with True Suc.prems(1) have inner: "include_digests (includeDisclosure B n) (digests_in (di_Value d)) (gm_put dg d sel) = Inr sel'"
      by (simp add: include_value)
    note put = put_placed [OF Suc.prems(2) d Suc.prems(3)]
    from include_digests_placed [OF Suc.IH inner] put(1) met_digests(1) [OF put(2)] have "places_from stood B (gm_put dg d sel) sel'"
      by (simp add: places_from_def)
    with put(1) show ?thesis by (rule places_from_trans)
  qed (use Suc.prems in \<open>auto simp: places_from_refl split: option.splits\<close>)
qed

lemma selectElement_placed:
  assumes "\<And>v sel sel'. rest v sel = Inr sel' \<Longrightarrow> placed stood B sel \<Longrightarrow> met sel v \<Longrightarrow> places_from stood B sel sel'"
    and "gm_get B [] = None" and "el \<in> set (resolveElements B arr)" and "met sel (GArr arr)" and "placed stood B sel"
    and "selectElement B rest el sel = Inr sel'"
  shows "places_from stood B sel sel'"
proof -
  obtain v dg where el: "el = (v, dg)" by (cases el)
  from resolveElements_from [OF assms(3) [unfolded el]] show ?thesis
  proof (elim disjE exE conjE)
    assume v: "dg = []" "v \<in> set arr" "disclosureRefDigest v = None"
    with assms(6) el have run: "rest v sel = Inr sel'" by (simp add: selectElement_def)
    from assms(1) [OF run assms(5)] met_element [OF assms(4) v(2,3)] show ?thesis by blast
  next
    fix e d
    assume e: "e \<in> set arr" "disclosureRefDigest e = Some dg" and d: "gm_get B dg = Some d" "v = di_Value d"
    then have "dg \<noteq> []" using assms(2) by auto
    with assms(6) el d have run: "rest v (gm_put dg d sel) = Inr sel'" by (simp add: selectElement_def)
    note put = put_placed [OF assms(5) d(1) met_ref [OF assms(4) e]]
    from assms(1) [OF run] put d(2) have "places_from stood B (gm_put dg d sel) sel'" by (simp add: places_from_def)
    with put(1) show ?thesis by (rule places_from_trans)
  qed
qed

lemma select_walkable_placed:
  assumes "\<And>v sel sel'. rest v sel = Inr sel' \<Longrightarrow> placed stood B sel \<Longrightarrow> met sel v \<Longrightarrow> places_from stood B sel sel'"
    and "gm_get B [] = None" and "set els \<subseteq> set (resolveElements B arr)" and "met sel (GArr arr)" and "placed stood B sel"
    and "select_walkable B path rest els sel = Inr sel'"
  shows "places_from stood B sel sel'"
  using assms(3-6)
proof (induction els arbitrary: sel)
  case (Cons el els)
  show ?case
  proof (cases "walkable (fst el) path")
    case True
    with Cons.prems obtain sel1 where step: "selectElement B rest el sel = Inr sel1"
      and run: "select_walkable B path rest els sel1 = Inr sel'" by (auto simp: rbind_Inr_iff)
    have one: "places_from stood B sel sel1"
      using selectElement_placed [OF assms(1,2) _ Cons.prems(2,3) step] Cons.prems(1) by simp
    then have "met sel1 (GArr arr)" "placed stood B sel1" using met_grows [OF Cons.prems(2)] by (simp_all add: places_from_def)
    from places_from_trans [OF one Cons.IH [OF _ this run]] Cons.prems(1) show ?thesis by simp
  qed (use Cons in auto)
qed (simp add: places_from_refl)

lemma selectPath_placed:
  assumes "gm_get B [] = None"
  shows "selectPath B n path v sel = Inr sel' \<Longrightarrow> placed stood B sel \<Longrightarrow> met sel v \<Longrightarrow> places_from stood B sel sel'"
proof (induction path arbitrary: v sel sel')
  case Nil
  from include_digests_placed [OF includeDisclosure_placed Nil(1) [simplified include_value selectPath.simps]] Nil met_digests(1)
  show ?case by simp
next
  case (Cons c rest)
  note run = Cons.prems(1) and sel = Cons.prems(2) and v = Cons.prems(3)
  have elems: "places_from stood B sel sel'" if els: "selectElements B index rest (selectPath B n rest) v sel = Inr sel'" for index
  proof -
    from els obtain arr where arr: "v = GArr arr" by (auto simp: selectElements_def split: option.splits)
    show ?thesis
    proof (cases index)
      case None
      with els arr have "select_walkable B rest (selectPath B n rest) (resolveElements B arr) sel = Inr sel'"
        by (simp add: selectElements_def)
      from select_walkable_placed [OF Cons.IH assms order_refl _ sel this] v arr show ?thesis by simp
    next
      case (Some i)
      show ?thesis
      proof (cases "i < length (resolveElements B arr)")
        case True
        with els arr Some have step: "selectElement B (selectPath B n rest) (resolveElements B arr ! i) sel = Inr sel'"
          by (simp add: selectElements_def)
        from selectElement_placed [OF Cons.IH assms nth_mem [OF True] _ sel step] v arr show ?thesis by simp
      qed (use els arr Some sel in \<open>simp add: selectElements_def places_from_refl\<close>)
    qed
  qed
  show ?case
  proof (cases c)
    case (CKey key)
    with run obtain obj where obj: "v = GObj obj" by (auto simp: selectMember_def split: option.splits)
    show ?thesis
    proof (cases "gm_get obj key")
      case (Some child)
      with run CKey obj have rest: "selectPath B n rest child sel = Inr sel'" by (simp add: selectMember_def)
      from Cons.IH [OF rest sel] met_member [OF v [unfolded obj] Some] show ?thesis .
    next
      case None
      show ?thesis
      proof (cases "first_named B key (sd_digests obj)")
        case (Some p)
        obtain dg d where p: "p = (dg, d)" by (cases p)
        from first_named_Some [OF Some [unfolded p]] have dg: "dg \<in> set (sd_digests obj)" "gm_get B dg = Some d" by simp_all
        have rest: "selectPath B n rest (di_Value d) (gm_put dg d sel) = Inr sel'"
          using run CKey obj None Some p by (simp add: selectMember_def)
        note put = put_placed [OF sel dg(2) met_named [OF v [unfolded obj] dg(1)]]
        from Cons.IH [OF rest _ put(2)] put(1) have "places_from stood B (gm_put dg d sel) sel'" by (simp add: places_from_def)
        with put(1) show ?thesis by (rule places_from_trans)
      qed (use run CKey obj None sel in \<open>simp add: selectMember_def places_from_refl\<close>)
    qed
  qed (use run elems in \<open>auto split: if_splits\<close>)
qed

lemma select_paths_placed:
  assumes "gm_get B [] = None"
  shows "select_paths B node paths sel = Inr sel' \<Longrightarrow> placed stood B sel \<Longrightarrow> met sel node \<Longrightarrow> placed stood B sel'"
proof (induction paths arbitrary: sel)
  case (Cons p ps)
  then obtain sel1 where one: "selectPath B (length B) p node sel = Inr sel1" and rest: "select_paths B node ps sel1 = Inr sel'"
    by (auto simp: rbind_Inr_iff)
  from selectPath_placed [OF assms one Cons.prems(2,3)] met_grows [OF Cons.prems(3)] have "placed stood B sel1" "met sel1 node"
    by (simp_all add: places_from_def)
  from Cons.IH [OF rest this] show ?case .
qed simp

end

section \<open>What is selected\<close>

text \<open>The values inside a value, and the digests standing anywhere in one.\<close>

inductive inside :: "goval \<Rightarrow> goval \<Rightarrow> bool" where
  itself: "inside v v"
| in_member: "inside v (GObj m) \<Longrightarrow> (k, w) \<in> set m \<Longrightarrow> inside v w"
| in_element: "inside v (GArr els) \<Longrightarrow> w \<in> set els \<Longrightarrow> inside v w"

definition refers :: "goval \<Rightarrow> string \<Rightarrow> bool" where
  "refers w dg = ((\<exists>m. w = GObj m \<and> dg \<in> set (sd_digests m)) \<or> disclosureRefDigest w = Some dg)"

lemma inside_trans: "inside v w \<Longrightarrow> inside u v \<Longrightarrow> inside u w"
  by (induction rule: inside.induct) (auto intro: inside.intros)

text \<open>A digest is reached when it stands in the payload, or in the value of a Disclosure selected by a digest reached.\<close>

inductive reached :: "selection \<Rightarrow> goval \<Rightarrow> string \<Rightarrow> bool" for sel payload where
  in_payload: "inside payload w \<Longrightarrow> refers w dg \<Longrightarrow> reached sel payload dg"
| in_disclosure: "reached sel payload dg' \<Longrightarrow> gm_get sel dg' = Some d \<Longrightarrow> inside (di_Value d) w \<Longrightarrow> refers w dg \<Longrightarrow>
    reached sel payload dg"

definition held :: "selection \<Rightarrow> goval \<Rightarrow> goval \<Rightarrow> bool" where
  "held sel payload v =
     (inside payload v \<or> (\<exists>dg d. reached sel payload dg \<and> gm_get sel dg = Some d \<and> inside (di_Value d) v))"

lemma reached_grows: "reached sel payload dg \<Longrightarrow> grows sel sel' \<Longrightarrow> reached sel' payload dg"
proof (induction rule: reached.induct)
  case (in_disclosure dg' d w dg)
  then have "gm_get sel' dg' = Some d" by (auto simp: grows_def map_le_def dom_def)
  with in_disclosure show ?case by (blast intro: reached.in_disclosure)
qed (rule reached.in_payload)

lemma held_grows: "held sel payload v \<Longrightarrow> grows sel sel' \<Longrightarrow> held sel' payload v"
  unfolding held_def using reached_grows growsD by metis

lemma held_inside: "held sel payload v \<Longrightarrow> inside v w \<Longrightarrow> held sel payload w"
  unfolding held_def using inside_trans by blast

lemma held_refers: "held sel payload w \<Longrightarrow> refers w dg \<Longrightarrow> reached sel payload dg"
  unfolding held_def by (blast intro: reached.intros)

interpretation referenced: disclosure_positions B "\<lambda>sel. reached sel payload" "\<lambda>sel. held sel payload" for B payload
proof
  fix sel m k v assume "held sel payload (GObj m)" "(k, v) \<in> set m"
  then show "held sel payload v" using held_inside in_member [OF inside.itself] by blast
next
  fix sel m k v assume "held sel payload (GObj m)" "gm_get m k = Some v"
  then show "held sel payload v" using held_inside in_member [OF inside.itself] map_of_SomeD by fastforce
next
  fix sel els el assume "held sel payload (GArr els)" "el \<in> set els"
  then show "held sel payload el" using held_inside in_element [OF inside.itself] by blast
next
  fix sel els el dg assume "held sel payload (GArr els)" "el \<in> set els" "disclosureRefDigest el = Some dg"
  then show "reached sel payload dg" using held_inside in_element [OF inside.itself] held_refers unfolding refers_def by blast
next
  fix sel dg d assume "reached sel payload dg" "gm_get sel dg = Some d"
  then show "held sel payload (di_Value d)" unfolding held_def using inside.itself by blast
qed (auto simp: refers_def intro: reached_grows held_grows held_refers)

text \<open>The search is exact: from an empty selection it selects what is disclosable, no more and no less.\<close>

inductive disclosable :: "by_digest \<Rightarrow> goval \<Rightarrow> string \<Rightarrow> bool" for B v where
  stands: "dg \<in> set (digests_in v) \<Longrightarrow> gm_get B dg = Some d \<Longrightarrow> disclosable B v dg"
| stands_inside: "disclosable B v dg' \<Longrightarrow> gm_get B dg' = Some d' \<Longrightarrow> dg \<in> set (digests_in (di_Value d')) \<Longrightarrow>
    gm_get B dg = Some d \<Longrightarrow> disclosable B v dg"

definition includes_all :: "by_digest \<Rightarrow> selection \<Rightarrow> string list \<Rightarrow> bool" where
  "includes_all B sel dgs = (\<forall>dg \<in> set dgs. gm_get B dg \<noteq> None \<longrightarrow> gm_get sel dg \<noteq> None)"

text \<open>From \<open>sel\<close> to \<open>sel'\<close>: nothing is lost, and what a new Disclosure's value references is selected with it.\<close>

definition completes :: "by_digest \<Rightarrow> selection \<Rightarrow> selection \<Rightarrow> bool" where
  "completes B sel sel' =
     (grows sel sel' \<and>
      (\<forall>dg d. gm_get sel' dg = Some d \<longrightarrow> gm_get sel dg = None \<longrightarrow> includes_all B sel' (digests_in (di_Value d))))"

lemma includes_all_grows: "includes_all B sel dgs \<Longrightarrow> grows sel sel' \<Longrightarrow> includes_all B sel' dgs"
  unfolding includes_all_def using growsD by (metis option.exhaust)

lemma completes_trans: "completes B a b \<Longrightarrow> completes B b c \<Longrightarrow> completes B a c"
  unfolding completes_def
proof (elim conjE, intro conjI allI impI)
  assume ab: "grows a b" "\<forall>dg d. gm_get b dg = Some d \<longrightarrow> gm_get a dg = None \<longrightarrow> includes_all B b (digests_in (di_Value d))"
    and bc: "grows b c" "\<forall>dg d. gm_get c dg = Some d \<longrightarrow> gm_get b dg = None \<longrightarrow> includes_all B c (digests_in (di_Value d))"
  show "grows a c" using ab(1) bc(1) by (rule grows_trans)
  fix dg d assume c: "gm_get c dg = Some d" and a: "gm_get a dg = None"
  show "includes_all B c (digests_in (di_Value d))"
  proof (cases "gm_get b dg")
    case None
    with bc(2) c show ?thesis by blast
  next
    case (Some e)
    with growsD [OF bc(1) Some] c have "gm_get b dg = Some d" by simp
    with ab(2) a includes_all_grows [OF _ bc(1)] show ?thesis by blast
  qed
qed

definition good_search :: "by_digest \<Rightarrow> include_fn \<Rightarrow> bool" where
  "good_search B inc =
     (\<forall>dg sel sel'. inc dg sel = Inr sel' \<longrightarrow> completes B sel sel' \<and> includes_all B sel' [dg])"

lemma include_digests_search:
  assumes "good_search B inc" and "include_digests inc dgs sel = Inr sel'"
  shows "completes B sel sel' \<and> includes_all B sel' dgs"
  using assms(2)
proof (induction dgs arbitrary: sel)
  case Nil
  then show ?case by (simp add: completes_def includes_all_def)
next
  case (Cons dg dgs)
  then obtain sel1 where "inc dg sel = Inr sel1" and rest: "include_digests inc dgs sel1 = Inr sel'"
    by (auto simp: rbind_Inr_iff)
  then have one: "completes B sel sel1" "includes_all B sel1 [dg]" using assms(1) by (auto simp: good_search_def)
  from Cons.IH [OF rest] have two: "completes B sel1 sel'" "includes_all B sel' dgs" by simp_all
  have "completes B sel sel'" using one(1) two(1) by (rule completes_trans)
  moreover have "includes_all B sel' [dg]" using includes_all_grows [OF one(2)] two(1) by (simp add: completes_def)
  ultimately show ?case using two(2) by (simp add: includes_all_def)
qed

lemma includeDisclosure_search: "good_search B (includeDisclosure B n)"
proof (induction n)
  case 0
  show ?case by (auto simp: good_search_def completes_def includes_all_def split: if_splits option.splits)
next
  case (Suc n)
  show ?case unfolding good_search_def
  proof (intro allI impI)
    fix dg sel sel' assume run: "includeDisclosure B (Suc n) dg sel = Inr sel'"
    show "completes B sel sel' \<and> includes_all B sel' [dg]"
    proof (cases "gm_get sel dg = None \<and> gm_get B dg \<noteq> None")
      case True
      then obtain d where d: "gm_get B dg = Some d" and new: "gm_get sel dg = None" by auto
      with run have "include_digests (includeDisclosure B n) (digests_in (di_Value d)) (gm_put dg d sel) = Inr sel'"
        by (simp add: include_value)
      from include_digests_search [OF Suc.IH this] have inner: "completes B (gm_put dg d sel) sel'"
        "includes_all B sel' (digests_in (di_Value d))" by simp_all
      have at: "gm_get sel' dg = Some d" using inner(1) by (auto simp: completes_def grows_def map_le_def dom_def)
      have "completes B sel sel'"
        unfolding completes_def
      proof (intro conjI allI impI)
        show "grows sel sel'" using inner(1) grows_put [of sel dg d] new by (auto simp: completes_def intro: grows_trans)
        show "includes_all B sel' (digests_in (di_Value e))" if "gm_get sel' x = Some e" "gm_get sel x = None" for x e
          using inner that at by (cases "x = dg") (auto simp: completes_def)
      qed
      with at show ?thesis by (simp add: includes_all_def)
    qed (use run in \<open>auto simp: completes_def includes_all_def split: option.splits\<close>)
  qed
qed

text \<open>Nothing else is selected.\<close>

definition search_closed :: "by_digest \<Rightarrow> (string \<Rightarrow> bool) \<Rightarrow> bool" where
  "search_closed B Q = (\<forall>dg d dg'. Q dg \<longrightarrow> gm_get B dg = Some d \<longrightarrow> dg' \<in> set (digests_in (di_Value d)) \<longrightarrow> Q dg')"

definition only_from :: "by_digest \<Rightarrow> (string \<Rightarrow> bool) \<Rightarrow> selection \<Rightarrow> bool" where
  "only_from B Q sel = (gm_ok sel \<and> (\<forall>dg d. gm_get sel dg = Some d \<longrightarrow> Q dg \<and> gm_get B dg = Some d))"

definition stays_within :: "by_digest \<Rightarrow> (string \<Rightarrow> bool) \<Rightarrow> include_fn \<Rightarrow> bool" where
  "stays_within B Q inc = (\<forall>dg sel sel'. inc dg sel = Inr sel' \<longrightarrow> only_from B Q sel \<longrightarrow> Q dg \<longrightarrow> only_from B Q sel')"

lemma include_digests_within:
  assumes "stays_within B Q inc" and "\<forall>dg \<in> set dgs. Q dg"
  shows "include_digests inc dgs sel = Inr sel' \<Longrightarrow> only_from B Q sel \<Longrightarrow> only_from B Q sel'"
  using assms(2)
proof (induction dgs arbitrary: sel)
  case (Cons dg dgs)
  then show ?case using assms(1) unfolding stays_within_def by (auto simp: rbind_Inr_iff)
qed simp

lemma includeDisclosure_within: "search_closed B Q \<Longrightarrow> stays_within B Q (includeDisclosure B n)"
proof (induction n)
  case 0
  show ?case by (auto simp: stays_within_def split: if_splits option.splits)
next
  case (Suc n)
  show ?case unfolding stays_within_def
  proof (intro allI impI)
    fix dg sel sel'
    assume run: "includeDisclosure B (Suc n) dg sel = Inr sel'" and sel: "only_from B Q sel" and dg: "Q dg"
    show "only_from B Q sel'"
    proof (cases "gm_get sel dg = None \<and> gm_get B dg \<noteq> None")
      case True
      then obtain d where d: "gm_get B dg = Some d" by auto
      with True run have inner: "include_digests (includeDisclosure B n) (digests_in (di_Value d)) (gm_put dg d sel) = Inr sel'"
        by (simp add: include_value)
      have all: "\<forall>x \<in> set (digests_in (di_Value d)). Q x" using Suc.prems dg d unfolding search_closed_def by blast
      have "only_from B Q (gm_put dg d sel)" using sel d dg by (auto simp: only_from_def)
      from include_digests_within [OF Suc.IH [OF Suc.prems] all inner this] show ?thesis .
    qed (use run sel in \<open>auto split: option.splits\<close>)
  qed
qed

lemma include_all_exact:
  assumes "includeAllDisclosures (includeDisclosure B n) v [] = Inr sel"
  shows "gm_ok sel \<and> (\<forall>dg d. gm_get sel dg = Some d \<longleftrightarrow> gm_get B dg = Some d \<and> disclosable B v dg)"
proof -
  define Q where "Q dg = (gm_get B dg \<noteq> None \<longrightarrow> disclosable B v dg)" for dg
  have closed: "search_closed B Q" by (auto simp: search_closed_def Q_def intro: stands_inside)
  have stands: "\<forall>dg \<in> set (digests_in v). Q dg" by (auto simp: Q_def intro: disclosable.stands)
  have run: "include_digests (includeDisclosure B n) (digests_in v) [] = Inr sel" using assms by (simp add: include_value)
  have only: "only_from B Q sel"
    by (rule include_digests_within [OF includeDisclosure_within [OF closed] stands run]) (simp add: only_from_def)
  from include_digests_search [OF includeDisclosure_search run]
  have all: "includes_all B sel (digests_in v)"
    and inner: "gm_get sel dg = Some d \<Longrightarrow> includes_all B sel (digests_in (di_Value d))" for dg d
    by (simp_all add: completes_def)
  have "disclosable B v dg \<Longrightarrow> gm_get sel dg \<noteq> None" for dg
  proof (induction rule: disclosable.induct)
    case (stands dg d)
    with all show ?case by (auto simp: includes_all_def)
  next
    case (stands_inside dg' d' dg d)
    then obtain e where e: "gm_get sel dg' = Some e" by auto
    then have "e = d'" using only stands_inside.hyps(2) by (auto simp: only_from_def)
    with inner [OF e] stands_inside.hyps show ?case by (auto simp: includes_all_def)
  qed
  with only show ?thesis unfolding only_from_def Q_def by (metis option.distinct(1) option.exhaust)
qed

lemma by_digest_of_Inr:
  assumes "by_digest_of h alg ds B0 = Inr B" and "gm_get B dg = Some d"
  shows "gm_get B0 dg = Some d \<or> (d \<in> set ds \<and> Digest h alg d = Inr dg)"
  using assms
proof (induction ds arbitrary: B0)
  case (Cons a ds)
  then obtain x where "Digest h alg a = Inr x" "by_digest_of h alg ds (gm_put x a B0) = Inr B" by (auto simp: rbind_Inr_iff)
  with Cons.IH [OF this(2) Cons.prems(2)] show ?case by (auto split: if_splits)
qed simp

lemma EncodeToString_Nil [simp]: "EncodeToString bs = [] \<longleftrightarrow> bs = []"
  by (cases bs rule: EncodeToString.cases) auto

lemma gm_ok_values: "gm_ok m \<Longrightarrow> v \<in> set (map snd m) \<longleftrightarrow> (\<exists>k. gm_get m k = Some v)"
  by (force simp: gm_ok_def dest: map_of_SomeD)

section \<open>Properties\<close>

text \<open>C25: selecting Disclosures ends: the recursion through Disclosures, whose values may reference each other in any
  way, never outruns the number of Disclosures there are.\<close>

theorem select_terminates: "SelectDisclosuresAt h payload alg all paths \<noteq> Inl NoFuel"
  using by_digest_of_never_short [of h alg all "[]"] select_paths_never_short
  by (auto simp: SelectDisclosuresAt_def rbind_def rmap_def split: sum.splits)

text \<open>C29: no selected Disclosure is an orphan: the digest of each stands in the payload or in the value of another
  selected one, so what a Holder presents is never refused as unreferenced.\<close>

theorem selected_rooted:
  assumes "SelectDisclosuresAt h payload alg all paths = Inr out" and "\<forall>a s. h a s \<noteq> []"
  shows "\<exists>sel. out = map snd sel \<and> gm_ok sel \<and>
    (\<forall>dg d. gm_get sel dg = Some d \<longrightarrow> d \<in> set all \<and> Digest h alg d = Inr dg \<and> reached sel (GObj payload) dg)"
proof -
  obtain B sel where B: "by_digest_of h alg all [] = Inr B" and run: "select_paths B (GObj payload) paths [] = Inr sel"
    and out: "out = map snd sel"
    using assms(1) by (auto simp: SelectDisclosuresAt_def rbind_Inr_iff rmap_Inr_iff)
  have held: "d \<in> set all \<and> Digest h alg d = Inr dg" if "gm_get B dg = Some d" for dg d
    using by_digest_of_Inr [OF B that] by simp
  have "gm_get B [] = None"
  proof (cases "gm_get B []")
    case (Some d)
    with held [OF Some] assms(2) show ?thesis by (auto simp: Digest_def hashString_def split: if_splits)
  qed
  moreover have "held [] (GObj payload) (GObj payload)" by (simp add: held_def inside.itself)
  ultimately have "placed (\<lambda>sel. reached sel (GObj payload)) B sel"
    using referenced.select_paths_placed [OF _ run] by (simp add: placed_def)
  with out held show ?thesis unfolding placed_def by blast
qed

text \<open>C34: selecting the whole payload, nothing being selected yet, selects exactly the Disclosures it leads to, directly or through
  others: those whose digest it holds or the value of another one of them holds.\<close>

theorem select_all_exact:
  assumes "SelectDisclosuresAt h payload alg all [[]] = Inr out"
  shows "\<exists>B. by_digest_of h alg all [] = Inr B \<and>
    (\<forall>d. d \<in> set out \<longleftrightarrow> (\<exists>dg. gm_get B dg = Some d \<and> disclosable B (GObj payload) dg))"
proof -
  obtain B sel where B: "by_digest_of h alg all [] = Inr B" and out: "out = map snd sel"
    and run: "includeAllDisclosures (includeDisclosure B (length B)) (GObj payload) [] = Inr sel"
    using assms by (auto simp: SelectDisclosuresAt_def rbind_Inr_iff rmap_Inr_iff simp del: includeAllDisclosures.simps)
  from include_all_exact [OF run] gm_ok_values [of sel] B show ?thesis unfolding out by blast
qed

text \<open>The hypotheses at an input: a claim whose value holds a claim that holds two, each behind its own Disclosure.\<close>

definition copying_hash :: hash_fn where
  "copying_hash alg s = 1 # map of_char s"

definition nested_claim :: "string \<Rightarrow> string \<Rightarrow> goval \<Rightarrow> disclosure" where
  "nested_claim e n v = \<lparr> di_Salt = [], di_Name = n, di_named = True, di_Value = v, di_encoded = e \<rparr>"

definition nested_claims :: "disclosure list" where
  "nested_claims =
     [nested_claim ''A'' ''addr'' (GObj [(''_sd'', GArr [GStr ''AUI''])]),
      nested_claim ''B'' ''x'' (GObj [(''_sd'', GArr [GStr ''AUM'', GStr ''AUQ''])]),
      nested_claim ''C'' ''y'' (GBool True),
      nested_claim ''D'' ''z'' (GBool True)]"

definition nested_payload :: "(string \<times> goval) list" where
  "nested_payload = [(''_sd'', GArr [GStr ''AUE''])]"

lemma nested_all: "SelectDisclosuresAt copying_hash nested_payload SHA256 nested_claims [[]] = Inr nested_claims"
  by code_simp

theorem selected_rooted_witness:
  "\<exists>sel :: selection. nested_claims = map snd sel \<and> gm_ok sel"
proof -
  have "\<forall>a s. copying_hash a s \<noteq> []" by (simp add: copying_hash_def)
  from selected_rooted [OF nested_all this] show ?thesis by blast
qed

theorem select_all_exact_witness: "\<exists>B. by_digest_of copying_hash SHA256 nested_claims [] = Inr B"
  using select_all_exact [OF nested_all] by blast

definition nested_query :: credential_query where
  "nested_query =
     \<lparr> cq_ID = ''c'', cq_Format = ''dc+sd-jwt'', cq_Meta = MetaAbsent, cq_Multiple = False, cq_TrustedAuthorities = [],
       cq_RequireCryptographicHolderBinding = None,
       cq_Claims = Some
         [\<lparr> cl_ID = [], cl_Path = [PathKey ''addr'', PathKey ''x'', PathKey ''y''], cl_Values = None, cl_IntentToRetain = None \<rparr>,
          \<lparr> cl_ID = [], cl_Path = [PathKey ''addr''], cl_Values = None, cl_IntentToRetain = None \<rparr>],
       cq_ClaimSets = None \<rparr>"

text \<open>An example: what is selected depends on the order of the paths. \<open>includeDisclosure\<close> stops at a Disclosure that is already
  selected, even where an earlier path selected it only to walk through it: a claim asked for whole after a part of it
  comes without the rest, and the Verifier that asked in that order refuses a presentation of all of it.\<close>

lemma select_order_dependent:
  "SelectDisclosures copying_hash nested_payload SHA256 nested_claims [[''addr''], [''addr'', ''x'', ''y'']] = Inr nested_claims \<and>
   SelectDisclosures copying_hash nested_payload SHA256 nested_claims [[''addr'', ''x'', ''y''], [''addr'']] = Inr (take 3 nested_claims) \<and>
   checkRequestedDisclosures copying_hash nested_query nested_payload nested_claims = Some (Unrequested [''z''])"
  by (intro conjI) code_simp+

end
