(* ===== verification/Sdjwt_Resolvable.thy ===== *)
theory Sdjwt_Resolvable
  imports Sdjwt_Resolve "HOL-Library.Multiset"
begin

text \<open>
  When a payload resolves: the shape \<open>resolveValue\<close> of \<open>src/credential/sdjwtvc/resolve.go\<close> asks of a value, as a
  condition on the value alone, and that a value of this shape whose digests are all different does resolve.
\<close>

definition ref_shape :: "by_digest \<Rightarrow> (goval \<Rightarrow> bool) \<Rightarrow> goval \<Rightarrow> bool" where
  "ref_shape B P el =
     (case ref_value el of
        None \<Rightarrow> P el
      | Some raw \<Rightarrow>
          (case as_str raw of
             None \<Rightarrow> False
           | Some dg \<Rightarrow> (case gm_get B dg of None \<Rightarrow> True | Some d \<Rightarrow> IsArrayElement d \<and> P (di_Value d))))"

text \<open>The names an object gains, in the order its digests stand.\<close>

definition disclosed_names :: "by_digest \<Rightarrow> string list \<Rightarrow> string list" where
  "disclosed_names B dgs = List.map_filter (\<lambda>dg. map_option di_Name (gm_get B dg)) dgs"

definition own_names :: "(string \<times> goval) list \<Rightarrow> string list" where
  "own_names m = filter own_name (map fst m)"

definition sd_shape :: "by_digest \<Rightarrow> (goval \<Rightarrow> bool) \<Rightarrow> (string \<times> goval) list \<Rightarrow> bool" where
  "sd_shape B P m =
     (case gm_get m ''_sd'' of
        None \<Rightarrow> True
      | Some raw \<Rightarrow>
          (case as_arr raw of
             None \<Rightarrow> False
           | Some items \<Rightarrow>
               list_all (\<lambda>i. as_str i \<noteq> None) items \<and>
               list_all (\<lambda>dg. case gm_get B dg of None \<Rightarrow> True | Some d \<Rightarrow> \<not> IsArrayElement d \<and> P (di_Value d))
                 (sd_digests m) \<and>
               distinct (own_names m @ disclosed_names B (sd_digests m))))"

primrec resolvable :: "by_digest \<Rightarrow> nat \<Rightarrow> bool \<Rightarrow> goval \<Rightarrow> bool" where
  "resolvable B 0 outer v = False"
| "resolvable B (Suc n) outer v =
     (case v of
        GObj m \<Rightarrow>
          list_all (\<lambda>(k, w). (k = ''_sd_alg'' \<longrightarrow> outer) \<and> (own_name k \<longrightarrow> resolvable B n False w)) m \<and>
          sd_shape B (resolvable B n False) m
      | GArr els \<Rightarrow> list_all (ref_shape B (resolvable B n False)) els
      | _ \<Rightarrow> True)"

section \<open>Resolving such a value\<close>

text \<open>Resolving \<open>v\<close> succeeds when none of the digests \<open>E\<close> it meets was seen before or is met twice.\<close>

definition resolves_with :: "by_digest \<Rightarrow> resolver \<Rightarrow> (goval \<Rightarrow> string list) \<Rightarrow> goval \<Rightarrow> bool" where
  "resolves_with B rv F v =
     (\<forall>st. distinct (mk_seen st @ F v) \<longrightarrow> (\<exists>r st'. rv v st = Inr (r, st') \<and> mk_seen st' = mk_seen st @ F v))"

lemma resolves_withD:
  assumes "resolves_with B rv F v" and "distinct (mk_seen st @ F v @ E)"
  obtains r st' where "rv v st = Inr (r, st')" "mk_seen st' = mk_seen st @ F v" "distinct (mk_seen st' @ E)"
  using assms unfolding resolves_with_def by (metis append.assoc distinct_append)

lemma resolve_entries_resolves:
  assumes "\<forall>(k, w) \<in> set m. (k = ''_sd_alg'' \<longrightarrow> outer) \<and> (own_name k \<longrightarrow> resolves_with B rv F w)"
    and "distinct (mk_seen st @ concat (map (\<lambda>(k, w). if own_name k then F w else []) m) @ E)"
  shows "\<exists>out' st'. resolve_entries rv outer m out st = Inr (out', st') \<and>
    mk_seen st' = mk_seen st @ concat (map (\<lambda>(k, w). if own_name k then F w else []) m) \<and>
    (\<forall>k. gm_get out' k \<noteq> None \<longrightarrow> gm_get out k \<noteq> None \<or> k \<in> set (own_names m))"
  using assms
proof (induction m arbitrary: out st)
  case (Cons a m)
  obtain k w where a: "a = (k, w)" by (cases a)
  have rest: "\<forall>(k, w) \<in> set m. (k = ''_sd_alg'' \<longrightarrow> outer) \<and> (own_name k \<longrightarrow> resolves_with B rv F w)"
    using Cons.prems(1) by simp
  show ?case
  proof (cases "own_name k")
    case True
    with Cons.prems a have "resolves_with B rv F w"
      and "distinct (mk_seen st @ F w @ (concat (map (\<lambda>(k, w). if own_name k then F w else []) m) @ E))" by auto
    from resolves_withD [OF this] obtain r st1 where rv: "rv w st = Inr (r, st1)"
      and seen: "mk_seen st1 = mk_seen st @ F w"
      and d: "distinct (mk_seen st1 @ concat (map (\<lambda>(k, w). if own_name k then F w else []) m) @ E)" .
    from Cons.IH [OF rest d, of "gm_put k r out"] obtain out' st' where
      "resolve_entries rv outer m (gm_put k r out) st1 = Inr (out', st')"
      "mk_seen st' = mk_seen st1 @ concat (map (\<lambda>(k, w). if own_name k then F w else []) m)"
      "\<forall>x. gm_get out' x \<noteq> None \<longrightarrow> gm_get (gm_put k r out) x \<noteq> None \<or> x \<in> set (own_names m)" by blast
    with rv seen True a show ?thesis by (auto simp: own_name_def own_names_def split: if_splits)
  next
    case False
    with Cons.prems a have "distinct (mk_seen st @ concat (map (\<lambda>(k, w). if own_name k then F w else []) m) @ E)" by simp
    from Cons.IH [OF rest this, of out] obtain out' st' where
      "resolve_entries rv outer m out st = Inr (out', st')"
      "mk_seen st' = mk_seen st @ concat (map (\<lambda>(k, w). if own_name k then F w else []) m)"
      "\<forall>x. gm_get out' x \<noteq> None \<longrightarrow> gm_get out x \<noteq> None \<or> x \<in> set (own_names m)" by blast
    moreover have "k = ''_sd_alg'' \<longrightarrow> outer" using Cons.prems(1) a by simp
    ultimately show ?thesis using False a by (auto simp: own_name_def own_names_def)
  qed
qed simp

lemma resolveSDDigests_resolves:
  assumes "\<forall>i \<in> set items. as_str i \<noteq> None"
    and "\<forall>dg \<in> set (List.map_filter as_str items). \<forall>d. gm_get B dg = Some d \<longrightarrow>
      \<not> IsArrayElement d \<and> resolves_with B rv F (di_Value d)"
    and "distinct (mk_seen st @ concat (map (below B F) (List.map_filter as_str items)))"
    and "distinct (disclosed_names B (List.map_filter as_str items))"
    and "\<forall>k \<in> set (disclosed_names B (List.map_filter as_str items)). gm_get out k = None"
  shows "\<exists>out' st'. resolveSDDigests B rv items out st = Inr (out', st') \<and>
    mk_seen st' = mk_seen st @ concat (map (below B F) (List.map_filter as_str items))"
  using assms
proof (induction items arbitrary: out st)
  case (Cons i items)
  then obtain dg where i: "i = GStr dg" by (cases i) auto
  let ?E = "concat (map (below B F) (List.map_filter as_str items))"
  have rest: "\<forall>i \<in> set items. as_str i \<noteq> None"
    "\<forall>dg \<in> set (List.map_filter as_str items). \<forall>d. gm_get B dg = Some d \<longrightarrow>
      \<not> IsArrayElement d \<and> resolves_with B rv F (di_Value d)"
    using Cons.prems(1,2) by (auto simp: i map_filter_simps)
  have new: "dg \<notin> set (mk_seen st)" using Cons.prems(3) by (auto simp: i map_filter_simps below_def)
  show ?case
  proof (cases "gm_get B dg")
    case None
    have b: "below B F dg = [dg]" using None by (simp add: below_def)
    have "distinct (mk_seen (mark_seen dg st) @ ?E)"
      using Cons.prems(3) by (auto simp: i map_filter_simps b mark_seen_def)
    moreover have "disclosed_names B (List.map_filter as_str (i # items)) = disclosed_names B (List.map_filter as_str items)"
      using None by (simp add: i map_filter_simps disclosed_names_def)
    ultimately obtain out' st' where "resolveSDDigests B rv items out (mark_seen dg st) = Inr (out', st')"
      "mk_seen st' = mk_seen (mark_seen dg st) @ ?E"
      using Cons.IH [OF rest, of "mark_seen dg st" out] Cons.prems(4,5) by auto
    with None new i show ?thesis by (auto simp: map_filter_simps b mark_seen_def Let_def)
  next
    case (Some d)
    let ?st = "mark_used dg (mark_seen dg st)"
    have names: "disclosed_names B (List.map_filter as_str (i # items)) =
        di_Name d # disclosed_names B (List.map_filter as_str items)"
      using Some by (simp add: i map_filter_simps disclosed_names_def)
    have kind: "\<not> IsArrayElement d" "resolves_with B rv F (di_Value d)"
      using Cons.prems(2) Some by (auto simp: i map_filter_simps)
    have b: "below B F dg = dg # F (di_Value d)" using Some by (simp add: below_def)
    have "distinct (mk_seen ?st @ F (di_Value d) @ ?E)"
      using Cons.prems(3) by (auto simp: i map_filter_simps b mark_seen_def mark_used_def)
    from resolves_withD [OF kind(2) this] obtain r st1 where rv: "rv (di_Value d) ?st = Inr (r, st1)"
      and seen: "mk_seen st1 = mk_seen ?st @ F (di_Value d)" and dist: "distinct (mk_seen st1 @ ?E)" .
    have free: "\<forall>k \<in> set (disclosed_names B (List.map_filter as_str items)). gm_get (gm_put (di_Name d) r out) k = None"
      using Cons.prems(4,5) unfolding names by auto
    have "distinct (disclosed_names B (List.map_filter as_str items))" using Cons.prems(4) unfolding names by simp
    from Cons.IH [OF rest dist this free] obtain out' st' where
      "resolveSDDigests B rv items (gm_put (di_Name d) r out) st1 = Inr (out', st')" "mk_seen st' = mk_seen st1 @ ?E" by blast
    moreover have "gm_get out (di_Name d) = None" using Cons.prems(5) unfolding names by simp
    ultimately show ?thesis using Some new kind rv seen i
      by (auto simp: map_filter_simps b mark_seen_def mark_used_def Let_def)
  qed
qed (simp add: map_filter_simps)

lemma resolveArray_resolves:
  assumes "\<forall>el \<in> set els. ref_shape B (resolves_with B rv F) el"
    and "distinct (mk_seen st @ concat (map (element_digests B F) els))"
  shows "\<exists>out' st'. resolveArray B rv els out st = Inr (out', st') \<and>
    mk_seen st' = mk_seen st @ concat (map (element_digests B F) els)"
  using assms
proof (induction els arbitrary: out st)
  case (Cons el els)
  let ?E = "concat (map (element_digests B F) els)"
  have rest: "\<forall>el \<in> set els. ref_shape B (resolves_with B rv F) el" using Cons.prems(1) by simp
  have shape: "ref_shape B (resolves_with B rv F) el" using Cons.prems(1) by simp
  show ?case
  proof (cases "ref_value el")
    case None
    have E: "element_digests B F el = F el" using None by (simp add: element_digests_def)
    have "resolves_with B rv F el" using shape None by (simp add: ref_shape_def)
    moreover have "distinct (mk_seen st @ F el @ ?E)" using Cons.prems(2) by (simp add: E)
    ultimately obtain r st1 where rv: "rv el st = Inr (r, st1)"
      and seen: "mk_seen st1 = mk_seen st @ F el" and dist: "distinct (mk_seen st1 @ ?E)"
      by (rule resolves_withD)
    from Cons.IH [OF rest dist, of "out @ [r]"] rv seen None show ?thesis by (auto simp: E)
  next
    case (Some raw)
    with shape obtain dg where raw: "raw = GStr dg" by (cases raw) (auto simp: ref_shape_def)
    have E: "element_digests B F el = below B F dg" by (simp add: element_digests_def Some raw)
    have new: "dg \<notin> set (mk_seen st)" using Cons.prems(2) by (auto simp: E below_def)
    show ?thesis
    proof (cases "gm_get B dg")
      case None
      then have b: "element_digests B F el = [dg]" by (simp add: E below_def)
      have "distinct (mk_seen (mark_seen dg st) @ ?E)"
        using Cons.prems(2) by (auto simp: b mark_seen_def)
      from Cons.IH [OF rest this, of out] None new Some raw show ?thesis
        by (auto simp: b mark_seen_def Let_def)
    next
      case d: (Some d)
      let ?st = "mark_used dg (mark_seen dg st)"
      have kind: "IsArrayElement d" "resolves_with B rv F (di_Value d)" using shape Some raw d by (simp_all add: ref_shape_def)
      have b: "element_digests B F el = dg # F (di_Value d)" using d by (simp add: E below_def)
      have "distinct (mk_seen ?st @ F (di_Value d) @ ?E)"
        using Cons.prems(2) by (auto simp: b mark_seen_def mark_used_def)
      from resolves_withD [OF kind(2) this] obtain r st1 where rv: "rv (di_Value d) ?st = Inr (r, st1)"
        and seen: "mk_seen st1 = mk_seen ?st @ F (di_Value d)" and dist: "distinct (mk_seen st1 @ ?E)" .
      from Cons.IH [OF rest dist, of "out @ [r]"] d new Some raw kind rv seen show ?thesis
        by (auto simp: b mark_seen_def mark_used_def Let_def)
    qed
  qed
qed simp

lemma shape_mono: "sd_shape B P m \<Longrightarrow> (\<And>v. P v \<Longrightarrow> Q v) \<Longrightarrow> sd_shape B Q m"
  by (auto simp: sd_shape_def list_all_iff split: option.splits)

lemma ref_shape_mono: "ref_shape B P el \<Longrightarrow> (\<And>v. P v \<Longrightarrow> Q v) \<Longrightarrow> ref_shape B Q el"
  by (auto simp: ref_shape_def split: option.splits)

lemma resolvable_resolves: "resolvable B n outer v \<Longrightarrow> resolves_with B (resolveValue B n outer) (embedded B n) v"
proof (induction n arbitrary: outer v)
  case (Suc n)
  let ?rv = "resolveValue B n False" and ?F = "embedded B n"
  have IH: "resolvable B n False w \<Longrightarrow> resolves_with B ?rv ?F w" for w using Suc.IH .
  show ?case unfolding resolves_with_def
  proof (intro allI impI)
    fix st :: marks assume dist: "distinct (mk_seen st @ embedded B (Suc n) v)"
    show "\<exists>r st'. resolveValue B (Suc n) outer v st = Inr (r, st') \<and> mk_seen st' = mk_seen st @ embedded B (Suc n) v"
    proof (cases v)
      case (GObj m)
      let ?own = "concat (map (\<lambda>(k, w). if own_name k then ?F w else []) m)" and ?sd = "concat (map (below B ?F) (sd_digests m))"
      have E: "embedded B (Suc n) v = ?own @ ?sd" by (simp add: GObj)
      have members: "\<forall>(k, w) \<in> set m. (k = ''_sd_alg'' \<longrightarrow> outer) \<and> (own_name k \<longrightarrow> resolves_with B ?rv ?F w)"
        using Suc.prems IH by (auto simp: GObj list_all_iff)
      from resolve_entries_resolves [OF members dist [unfolded E]] obtain out st1 where
        entries: "resolve_entries ?rv outer m [] st = Inr (out, st1)" and seen: "mk_seen st1 = mk_seen st @ ?own"
        and names: "\<forall>k. gm_get out k \<noteq> None \<longrightarrow> k \<in> set (own_names m)" by (metis map_of.simps(1))
      show ?thesis
      proof (cases "gm_get m ''_sd''")
        case None
        then have "sd_digests m = []" by (simp add: sd_digests_def)
        with None entries seen GObj show ?thesis unfolding E by (simp add: resolveMap_def)
      next
        case (Some raw)
        have shape: "sd_shape B (resolves_with B ?rv ?F) m"
          using Suc.prems shape_mono [of B "resolvable B n False" m "resolves_with B ?rv ?F"] IH by (simp add: GObj)
        with Some obtain items where raw: "raw = GArr items" by (cases raw) (auto simp: sd_shape_def)
        then have sd: "sd_digests m = List.map_filter as_str items" by (simp add: sd_digests_def Some)
        from shape Some raw have "\<forall>i \<in> set items. as_str i \<noteq> None"
          "\<forall>dg \<in> set (List.map_filter as_str items). \<forall>d. gm_get B dg = Some d \<longrightarrow>
             \<not> IsArrayElement d \<and> resolves_with B ?rv ?F (di_Value d)"
          "distinct (own_names m @ disclosed_names B (List.map_filter as_str items))"
          by (auto simp: sd_shape_def list_all_iff sd split: option.splits)
        moreover from this(3) have "distinct (disclosed_names B (List.map_filter as_str items))"
          "\<forall>k \<in> set (disclosed_names B (List.map_filter as_str items)). gm_get out k = None"
          using names by auto
        moreover have "distinct (mk_seen st1 @ concat (map (below B ?F) (List.map_filter as_str items)))"
          using dist [unfolded E] seen by (simp add: sd)
        ultimately obtain out' st' where "resolveSDDigests B ?rv items out st1 = Inr (out', st')"
          "mk_seen st' = mk_seen st1 @ concat (map (below B ?F) (List.map_filter as_str items))"
          using resolveSDDigests_resolves [of items B ?rv ?F st1 out] by auto
        with entries seen Some raw sd GObj show ?thesis unfolding E by (simp add: resolveMap_def)
      qed
    next
      case (GArr els)
      have "\<forall>el \<in> set els. ref_shape B (resolves_with B ?rv ?F) el"
        using Suc.prems IH by (auto simp: GArr list_all_iff intro: ref_shape_mono)
      moreover have "distinct (mk_seen st @ concat (map (element_digests B ?F) els))" using dist by (simp add: GArr)
      ultimately obtain out st' where "resolveArray B ?rv els [] st = Inr (out, st')"
        "mk_seen st' = mk_seen st @ concat (map (element_digests B ?F) els)"
        using resolveArray_resolves by blast
      with GArr show ?thesis by simp
    qed simp_all
  qed
qed simp

lemma index_disclosures_succeeds:
  assumes "\<forall>d \<in> set ds. Digest h alg d = Inr (f d)" and "distinct (map f ds)" and "\<forall>d \<in> set ds. gm_get B0 (f d) = None"
  shows "\<exists>B. index_disclosures h alg ds B0 = Inr B"
  using assms
proof (induction ds arbitrary: B0)
  case (Cons d ds)
  have "\<forall>e \<in> set ds. gm_get (gm_put (f d) d B0) (f e) = None"
    using Cons.prems(2,3) by (force simp: image_iff)
  with Cons show ?case by auto
qed simp

text \<open>A payload of the shape resolving asks for, whose digests all differ and among them every Disclosure's, resolves.\<close>

lemma resolvable_succeeds:
  assumes "index_disclosures h alg ds [] = Inr B" and "resolvable B (levels_of maxDepth) True (GObj payload)"
    and "distinct (embedded B (levels_of maxDepth) (GObj payload))"
    and "\<forall>d \<in> set ds. \<exists>dg. Digest h alg d = Inr dg \<and> dg \<in> set (embedded B (levels_of maxDepth) (GObj payload))"
  shows "\<exists>out. ResolveDisclosuresMax h payload alg ds maxDepth = Inr out"
proof -
  let ?n = "levels_of maxDepth" and ?st = "\<lparr> mk_used = [], mk_seen = [] \<rparr>"
  obtain r st where run: "resolveValue B ?n True (GObj payload) ?st = Inr (r, st)"
    using resolvable_resolves [OF assms(2), unfolded resolves_with_def, rule_format, of ?st] assms(3) by auto
  obtain out where out: "r = GObj out"
    using run assms(2) by (cases ?n) (auto split: sum.splits)
  have "accounts B ?st st (embedded B ?n (GObj payload))" using accountedD [OF resolveValue_accounts run] .
  then have acc: "distinct (mk_used st)" "set (mk_used st) = {dg \<in> set (embedded B ?n (GObj payload)). gm_get B dg \<noteq> None}"
    by (auto simp: accounts_def)
  have idx: "gm_ok B" "length B = length ds" "\<And>dg d. gm_get B dg = Some d \<longleftrightarrow> d \<in> set ds \<and> Digest h alg d = Inr dg"
    using index_disclosures [OF assms(1)] by auto
  have "set (mk_used st) = dom (gm_get B)"
  proof
    show "set (mk_used st) \<subseteq> dom (gm_get B)" unfolding acc(2) by blast
    show "dom (gm_get B) \<subseteq> set (mk_used st)"
    proof
      fix dg assume "dg \<in> dom (gm_get B)"
      then obtain d where d: "gm_get B dg = Some d" by blast
      with idx(3) have "d \<in> set ds" "Digest h alg d = Inr dg" by simp_all
      with assms(4) have "dg \<in> set (embedded B ?n (GObj payload))" by fastforce
      with d show "dg \<in> set (mk_used st)" unfolding acc(2) by simp
    qed
  qed
  then have "length (mk_used st) = length ds"
    using distinct_card [OF acc(1)] gm_len_card [OF idx(1)] idx(2) by simp
  with run out assms(1) show ?thesis by (simp add: ResolveDisclosuresMax_def)
qed

end
