(* ===== verification/Sdjwt_Withhold.thy ===== *)
theory Sdjwt_Withhold
  imports Sdjwt_Select Sdjwt_Resolvable Dcql_Match
begin

text \<open>
  What a Holder's withholding does to a credential: the Disclosures \<open>SelectDisclosuresAt\<close> picks, resolved by themselves. A
  payload that resolves with all its Disclosures resolves with those selected, each of them is used, and every value
  at a path that was asked for is still there. Selecting again from what was selected selects all of it.
\<close>

section \<open>What resolves has the shape to\<close>

lemma resolve_entries_members:
  assumes "resolve_entries rv outer m out st = Inr (out', st')"
  shows "\<forall>kw \<in> set m. (fst kw = ''_sd_alg'' \<longrightarrow> outer) \<and> (own_name (fst kw) \<longrightarrow> (\<exists>st r st'. rv (snd kw) st = Inr (r, st')))"
    and "dom (gm_get out') = dom (gm_get out) \<union> set (own_names m)"
proof -
  have "(\<forall>kw \<in> set m. (fst kw = ''_sd_alg'' \<longrightarrow> outer) \<and> (own_name (fst kw) \<longrightarrow> (\<exists>st r st'. rv (snd kw) st = Inr (r, st')))) \<and>
    dom (gm_get out') = dom (gm_get out) \<union> set (own_names m)"
    using assms
  proof (induction m arbitrary: out st)
    case (Cons a m)
    obtain k v where a: "a = (k, v)" by (cases a)
    show ?case
    proof (cases "own_name k")
      case True
      with Cons.prems obtain r st1 where rv: "rv v st = Inr (r, st1)"
        and rest: "resolve_entries rv outer m (gm_put k r out) st1 = Inr (out', st')"
        by (auto simp: a own_name_def split: if_splits sum.splits)
      have "dom (gm_get (gm_put k r out)) = insert k (dom (gm_get out))" by (simp only: gm_get_put dom_fun_upd) simp
      with Cons.IH [OF rest] have "dom (gm_get out') = insert k (dom (gm_get out)) \<union> set (own_names m)" by simp
      with Cons.IH [OF rest] rv True show ?thesis by (auto simp: a own_names_def own_name_def)
    next
      case False
      with Cons.prems have "resolve_entries rv outer m out st = Inr (out', st')" "k = ''_sd_alg'' \<longrightarrow> outer"
        by (auto simp: a own_name_def split: if_splits)
      from Cons.IH [OF this(1)] this(2) False show ?thesis by (auto simp: a own_names_def)
    qed
  qed (simp add: own_names_def)
  then show "\<forall>kw \<in> set m. (fst kw = ''_sd_alg'' \<longrightarrow> outer) \<and> (own_name (fst kw) \<longrightarrow> (\<exists>st r st'. rv (snd kw) st = Inr (r, st')))"
    "dom (gm_get out') = dom (gm_get out) \<union> set (own_names m)" by simp_all
qed

lemma resolveSDDigests_members:
  assumes "resolveSDDigests B rv items out st = Inr (out', st')"
  shows "(\<forall>i \<in> set items. as_str i \<noteq> None) \<and>
    (\<forall>dg \<in> set (List.map_filter as_str items). case gm_get B dg of None \<Rightarrow> True
       | Some d \<Rightarrow> \<not> IsArrayElement d \<and> (\<exists>st r st'. rv (di_Value d) st = Inr (r, st'))) \<and>
    distinct (disclosed_names B (List.map_filter as_str items)) \<and>
    set (disclosed_names B (List.map_filter as_str items)) \<inter> dom (gm_get out) = {}"
  using assms
proof (induction items arbitrary: out st)
  case (Cons item items)
  then obtain dg where dg: "as_str item = Some dg" by (auto split: option.splits)
  show ?case
  proof (cases "gm_get B dg")
    case None
    with Cons.prems dg have "resolveSDDigests B rv items out (mark_seen dg st) = Inr (out', st')"
      by (auto simp: Let_def split: if_splits)
    from Cons.IH [OF this] None dg show ?thesis by (auto simp: disclosed_names_def map_filter_simps)
  next
    case (Some d)
    with Cons.prems dg obtain r st1 where d: "\<not> IsArrayElement d" "gm_get out (di_Name d) = None"
      and rv: "rv (di_Value d) (mark_used dg (mark_seen dg st)) = Inr (r, st1)"
      and rest: "resolveSDDigests B rv items (gm_put (di_Name d) r out) st1 = Inr (out', st')"
      by (auto simp: Let_def split: if_splits sum.splits)
    from Cons.IH [OF rest] d rv Some dg show ?thesis
      by (auto simp: disclosed_names_def map_filter_simps)
  qed
qed (simp add: disclosed_names_def map_filter_simps)

lemma resolveArray_members:
  assumes "resolveArray B rv els out st = Inr (out', st')"
  shows "list_all (ref_shape B (\<lambda>v. \<exists>st r st'. rv v st = Inr (r, st'))) els"
  using assms
proof (induction els arbitrary: out st)
  case (Cons el els)
  show ?case
  proof (cases "ref_value el")
    case None
    with Cons.prems obtain r st1 where "rv el st = Inr (r, st1)" "resolveArray B rv els (out @ [r]) st1 = Inr (out', st')"
      by (auto split: sum.splits)
    with Cons.IH None show ?thesis by (auto simp: ref_shape_def)
  next
    case (Some raw)
    with Cons.prems obtain dg where dg: "raw = GStr dg" by (auto split: option.splits)
    show ?thesis
    proof (cases "gm_get B dg")
      case None
      with Cons.prems Some dg have "resolveArray B rv els out (mark_seen dg st) = Inr (out', st')"
        by (auto simp: Let_def split: if_splits)
      from Cons.IH [OF this] None Some dg show ?thesis by (simp add: ref_shape_def)
    next
      case (Some d)
      with Cons.prems \<open>ref_value el = Some raw\<close> dg obtain r st1 where "IsArrayElement d"
        "rv (di_Value d) (mark_used dg (mark_seen dg st)) = Inr (r, st1)" "resolveArray B rv els (out @ [r]) st1 = Inr (out', st')"
        by (auto simp: Let_def split: if_splits sum.splits)
      with Cons.IH Some \<open>ref_value el = Some raw\<close> dg show ?thesis by (auto simp: ref_shape_def)
    qed
  qed
qed simp

lemma resolved_resolvable:
  assumes "values_ok B" and "resolveValue B n outer v st = Inr (r, st')" and "goval_ok v"
  shows "resolvable B n outer v"
  using assms(2,3)
proof (induction n arbitrary: outer v st r st')
  case (Suc n)
  have IH: "resolvable B n False w" if "\<exists>st r st'. resolveValue B n False w st = Inr (r, st')" "goval_ok w" for w
    using Suc.IH that by blast
  show ?case
  proof (cases v)
    case (GObj m)
    with Suc.prems(1) obtain out where "resolveMap B (resolveValue B n False) outer m st = Inr (out, st')" by (auto split: sum.splits)
    then obtain out1 st1 where entries: "resolve_entries (resolveValue B n False) outer m [] st = Inr (out1, st1)"
      and sd: "gm_get m ''_sd'' = None \<or>
        (\<exists>items. gm_get m ''_sd'' = Some (GArr items) \<and> resolveSDDigests B (resolveValue B n False) items out1 st1 = Inr (out, st'))"
      by (auto simp: resolveMap_def split: sum.splits option.splits)
    note own = resolve_entries_members [OF entries]
    have "(k = ''_sd_alg'' \<longrightarrow> outer) \<and> (own_name k \<longrightarrow> resolvable B n False w)" if "(k, w) \<in> set m" for k w
    proof -
      have "goval_ok w" using that Suc.prems(2) GObj by auto
      with bspec [OF own(1) that] IH [of w] show ?thesis by simp
    qed
    moreover have "sd_shape B (resolvable B n False) m"
      using sd
    proof (elim disjE exE conjE)
      fix items assume items: "gm_get m ''_sd'' = Some (GArr items)"
        and run: "resolveSDDigests B (resolveValue B n False) items out1 st1 = Inr (out, st')"
      note ds = resolveSDDigests_members [OF run]
      have "distinct (own_names m)" using Suc.prems(2) GObj by (auto simp: own_names_def gm_ok_def)
      moreover have "case gm_get B dg of None \<Rightarrow> True | Some d \<Rightarrow> \<not> IsArrayElement d \<and> resolvable B n False (di_Value d)"
        if "dg \<in> set (List.map_filter as_str items)" for dg
      proof (cases "gm_get B dg")
        case (Some d)
        with assms(1) have "goval_ok (di_Value d)" by (auto simp: values_ok_def)
        with ds that Some IH show ?thesis by fastforce
      qed simp
      ultimately show ?thesis using ds own(2) items by (auto simp: sd_shape_def sd_digests_def list_all_iff)
    qed (simp add: sd_shape_def)
    ultimately show ?thesis using GObj by (auto simp: list_all_iff)
  next
    case (GArr els)
    with Suc.prems(1) obtain out where "resolveArray B (resolveValue B n False) els [] st = Inr (out, st')" by (auto split: sum.splits)
    note all = resolveArray_members [OF this]
    have "ref_shape B (resolvable B n False) el" if "el \<in> set els" for el
    proof -
      have "ref_shape B (\<lambda>v. \<exists>st r st'. resolveValue B n False v st = Inr (r, st')) el" using all that by (simp add: list_all_iff)
      moreover have "goval_ok el" using Suc.prems(2) GArr that by simp
      ultimately show ?thesis using IH assms(1) by (auto simp: ref_shape_def values_ok_def split: option.splits)
    qed
    with GArr show ?thesis by (simp add: list_all_iff)
  qed auto
qed simp

section \<open>With fewer Disclosures\<close>

definition fewer :: "by_digest \<Rightarrow> by_digest \<Rightarrow> bool" where
  "fewer B' B = (\<forall>dg d. gm_get B' dg = Some d \<longrightarrow> gm_get B dg = Some d)"

lemma fewerD: "fewer B' B \<Longrightarrow> gm_get B' dg = Some d \<Longrightarrow> gm_get B dg = Some d"
  by (simp add: fewer_def)

lemma disclosed_names_fewer: "fewer B' B \<Longrightarrow> mset (disclosed_names B' dgs) \<subseteq># mset (disclosed_names B dgs)"
proof (induction dgs)
  case (Cons dg dgs)
  then show ?case
    by (cases "gm_get B' dg"; cases "gm_get B dg")
      (auto simp: disclosed_names_def map_filter_simps fewer_def intro: subset_mset.order_trans)
qed (simp add: disclosed_names_def map_filter_simps)

lemma distinct_sub_mset:
  assumes "mset xs \<subseteq># mset ys" and "distinct ys"
  shows "distinct xs"
proof -
  obtain zs where "mset zs = mset ys - mset xs" using ex_mset by blast
  with assms(1) have "mset (xs @ zs) = mset ys" by simp
  with assms(2) have "distinct (xs @ zs)" by (metis mset_eq_imp_distinct_iff)
  then show ?thesis by simp
qed

lemma resolvable_fewer:
  assumes "fewer B' B"
  shows "resolvable B n outer v \<Longrightarrow> resolvable B' n outer v"
proof (induction n arbitrary: outer v)
  case (Suc n)
  have at: "case gm_get B' dg of None \<Rightarrow> True | Some d \<Rightarrow> P d \<and> resolvable B' n False (di_Value d)"
    if "case gm_get B dg of None \<Rightarrow> True | Some d \<Rightarrow> P d \<and> resolvable B n False (di_Value d)" for P dg
  proof (cases "gm_get B' dg")
    case (Some d)
    with that fewerD [OF assms Some] Suc.IH show ?thesis by simp
  qed simp
  show ?case
  proof (cases v)
    case (GObj m)
    have names: "mset (own_names m @ disclosed_names B' (sd_digests m)) \<subseteq># mset (own_names m @ disclosed_names B (sd_digests m))"
      using disclosed_names_fewer [OF assms] by simp
    have "sd_shape B' (resolvable B' n False) m"
    proof (cases "gm_get m ''_sd''")
      case (Some raw)
      have "sd_shape B (resolvable B n False) m" using Suc.prems GObj by simp
      then obtain items where items: "raw = GArr items" "list_all (\<lambda>i. as_str i \<noteq> None) items"
        and refs: "list_all (\<lambda>dg. case gm_get B dg of None \<Rightarrow> True | Some d \<Rightarrow> \<not> IsArrayElement d \<and> resolvable B n False (di_Value d)) (sd_digests m)"
        and "distinct (own_names m @ disclosed_names B (sd_digests m))"
        unfolding sd_shape_def Some by (auto split: option.splits)
      moreover have "list_all (\<lambda>dg. case gm_get B' dg of None \<Rightarrow> True | Some d \<Rightarrow> \<not> IsArrayElement d \<and> resolvable B' n False (di_Value d))
          (sd_digests m)"
        using refs by (rule list.pred_mono_strong) (rule at)
      ultimately show ?thesis unfolding sd_shape_def Some using distinct_sub_mset [OF names] by simp
    qed (simp add: sd_shape_def)
    with Suc GObj show ?thesis by (auto simp: list_all_iff)
  next
    case (GArr els)
    have "ref_shape B' (resolvable B' n False) el" if "ref_shape B (resolvable B n False) el" for el
    proof (cases "ref_value el")
      case None
      with that Suc.IH show ?thesis by (simp add: ref_shape_def)
    next
      case (Some raw)
      with that at [where P = IsArrayElement] show ?thesis by (cases raw) (simp_all add: ref_shape_def)
    qed
    with Suc.prems GArr show ?thesis by (simp add: list_all_iff)
  qed auto
qed simp

lemma mset_concat_sub: "(\<And>x. x \<in> set xs \<Longrightarrow> mset (f x) \<subseteq># mset (g x)) \<Longrightarrow> mset (concat (map f xs)) \<subseteq># mset (concat (map g xs))"
  by (induction xs) (auto intro: subset_mset.add_mono)

lemma embedded_fewer:
  assumes "fewer B' B"
  shows "mset (embedded B' n v) \<subseteq># mset (embedded B n v)"
proof (induction n arbitrary: v)
  case (Suc n)
  have at: "mset (below B' (embedded B' n) dg) \<subseteq># mset (below B (embedded B n) dg)" for dg
    using Suc.IH fewerD [OF assms, of dg] by (cases "gm_get B' dg") (auto simp: below_def)
  show ?case
  proof (cases v)
    case (GObj m)
    have "mset (concat (map (\<lambda>(k, w). if own_name k then embedded B' n w else []) m)) \<subseteq>#
        mset (concat (map (\<lambda>(k, w). if own_name k then embedded B n w else []) m))"
      by (rule mset_concat_sub) (auto intro: Suc.IH)
    moreover have "mset (concat (map (below B' (embedded B' n)) (sd_digests m))) \<subseteq>#
        mset (concat (map (below B (embedded B n)) (sd_digests m)))"
      by (rule mset_concat_sub) (rule at)
    ultimately show ?thesis unfolding GObj embedded.simps goval.case mset_append by (rule subset_mset.add_mono)
  next
    case (GArr els)
    have "mset (element_digests B' (embedded B' n) el) \<subseteq># mset (element_digests B (embedded B n) el)" for el
      using at Suc.IH by (auto simp: element_digests_def split: option.splits goval.splits)
    then show ?thesis unfolding GArr embedded.simps goval.case by (intro mset_concat_sub)
  qed auto
qed simp

section \<open>What resolving visits\<close>

definition root_ok :: "by_digest \<Rightarrow> nat \<Rightarrow> (string \<times> goval) list \<Rightarrow> bool" where
  "root_ok B N payload =
     (resolvable B N True (GObj payload) \<and> (\<forall>w. gm_get payload ''_sd_alg'' = Some w \<longrightarrow> is_scalar w))"

text \<open>The values \<open>resolveValue\<close> comes to with the Disclosures of \<open>sel\<close>, each with the levels left for it.\<close>

inductive visits :: "by_digest \<Rightarrow> nat \<Rightarrow> (string \<times> goval) list \<Rightarrow> selection \<Rightarrow> nat \<Rightarrow> goval \<Rightarrow> bool"
  for B N payload sel where
  visit_root: "root_ok B N payload \<Longrightarrow> visits B N payload sel N (GObj payload)"
| visit_own: "visits B N payload sel (Suc n) (GObj m) \<Longrightarrow> (k, v) \<in> set m \<Longrightarrow> own_name k \<Longrightarrow> visits B N payload sel n v"
| visit_named: "visits B N payload sel (Suc n) (GObj m) \<Longrightarrow> dg \<in> set (sd_digests m) \<Longrightarrow> gm_get sel dg = Some d \<Longrightarrow>
    gm_get B dg = Some d \<Longrightarrow> visits B N payload sel n (di_Value d)"
| visit_element: "visits B N payload sel (Suc n) (GArr els) \<Longrightarrow> el \<in> set els \<Longrightarrow> ref_value el = None \<Longrightarrow>
    visits B N payload sel n el"
| visit_disclosed: "visits B N payload sel (Suc n) (GArr els) \<Longrightarrow> el \<in> set els \<Longrightarrow> ref_value el = Some (GStr dg) \<Longrightarrow>
    gm_get sel dg = Some d \<Longrightarrow> gm_get B dg = Some d \<Longrightarrow> visits B N payload sel n (di_Value d)"

fun stands :: "goval \<Rightarrow> string \<Rightarrow> bool" where
  "stands (GObj m) dg = (dg \<in> set (sd_digests m))"
| "stands (GArr els) dg = (\<exists>el \<in> set els. ref_value el = Some (GStr dg))"
| "stands _ dg = False"

text \<open>A value in which no digest stands: what \<open>_sd\<close> and \<open>_sd_alg\<close> hold.\<close>

fun bare :: "goval \<Rightarrow> bool" where
  "bare (GObj m) = False"
| "bare (GArr els) = list_all is_scalar els"
| "bare _ = True"

definition standing :: "by_digest \<Rightarrow> nat \<Rightarrow> (string \<times> goval) list \<Rightarrow> selection \<Rightarrow> string \<Rightarrow> bool" where
  "standing B N payload sel dg = (\<exists>n w. visits B N payload sel (Suc n) w \<and> stands w dg)"

definition visited :: "by_digest \<Rightarrow> nat \<Rightarrow> (string \<times> goval) list \<Rightarrow> selection \<Rightarrow> goval \<Rightarrow> bool" where
  "visited B N payload sel v = ((\<exists>n. visits B N payload sel n v) \<or> bare v)"

lemma scalar_bare: "is_scalar v \<Longrightarrow> bare v"
  by (cases v) (auto simp: is_scalar_def)

lemma scalar_ref: "is_scalar v \<Longrightarrow> ref_value v = None"
  by (cases v) (auto simp: is_scalar_def ref_value_def)

lemma disclosureRefDigest_iff: "disclosureRefDigest el = Some dg \<longleftrightarrow> ref_value el = Some (GStr dg)"
  by (auto simp: disclosureRefDigest_def split: option.splits goval.splits)

lemma visits_grows: "visits B N payload sel n v \<Longrightarrow> grows sel sel' \<Longrightarrow> visits B N payload sel' n v"
  by (induction rule: visits.induct) (auto intro: visits.intros growsD)

lemma visits_shape:
  "visits B N payload sel n v \<Longrightarrow> resolvable B n False v \<or> (v = GObj payload \<and> n = N \<and> root_ok B N payload)"
proof (induction rule: visits.induct)
  case (visit_own n m k v)
  then show ?case by (auto simp: root_ok_def list_all_iff)
next
  case (visit_named n m dg d)
  then have "sd_shape B (resolvable B n False) m" by (auto simp: root_ok_def)
  with visit_named show ?case by (auto simp: sd_shape_def sd_digests_def list_all_iff split: option.splits goval.splits)
next
  case (visit_element n els el)
  then show ?case by (auto simp: list_all_iff ref_shape_def split: option.splits)
next
  case (visit_disclosed n els el dg d)
  then show ?case by (fastforce simp: list_all_iff ref_shape_def)
qed simp

lemma visits_Suc: "visits B N payload sel n v \<Longrightarrow> \<exists>m. n = Suc m"
  using visits_shape [of B N payload sel n v] by (cases n) (auto simp: root_ok_def)

lemma member_bare:
  assumes "visits B N payload sel (Suc n) (GObj m)" and "gm_get m k = Some v" and "\<not> own_name k"
  shows "bare v"
proof (cases "k = ''_sd''")
  case True
  have "sd_shape B (resolvable B n False) m" using visits_shape [OF assms(1)] by (auto simp: root_ok_def)
  with True assms(2) obtain items where items: "v = GArr items" "\<forall>i \<in> set items. as_str i \<noteq> None"
    by (auto simp: sd_shape_def list_all_iff split: option.splits)
  have "is_scalar i" if "i \<in> set items" for i using items(2) that by (cases i) (auto simp: is_scalar_def)
  with items(1) show ?thesis by (simp add: list_all_iff)
next
  case False
  with assms(3) have k: "k = ''_sd_alg''" by (simp add: own_name_def)
  with assms(2) have "(''_sd_alg'', v) \<in> set m" by (auto dest: map_of_SomeD)
  with visits_shape [OF assms(1)] have "m = payload \<and> root_ok B N payload" by (auto simp: list_all_iff)
  with assms(2) k have "is_scalar v" by (auto simp: root_ok_def)
  then show ?thesis by (rule scalar_bare)
qed

interpretation resolving: disclosure_positions B "standing B N payload" "visited B N payload" for B N payload
proof
  fix sel sel' :: selection and dg
  assume "standing B N payload sel dg" "grows sel sel'"
  then show "standing B N payload sel' dg" unfolding standing_def using visits_grows by blast
next
  fix sel sel' :: selection and v
  assume "visited B N payload sel v" "grows sel sel'"
  then show "visited B N payload sel' v" unfolding visited_def using visits_grows by blast
next
  fix sel m k v assume "visited B N payload sel (GObj m)" "(k, v) \<in> set m" "own_name k"
  then show "visited B N payload sel v" unfolding visited_def using visits_Suc visit_own by (metis bare.simps(1))
next
  fix sel m k v assume v: "visited B N payload sel (GObj m)" "gm_get m k = Some v"
  then obtain n where n: "visits B N payload sel (Suc n) (GObj m)" unfolding visited_def using visits_Suc by (metis bare.simps(1))
  show "visited B N payload sel v"
  proof (cases "own_name k")
    case True
    from visit_own [OF n map_of_SomeD [OF v(2)] True] show ?thesis by (auto simp: visited_def)
  next
    case False
    from member_bare [OF n v(2) False] show ?thesis by (simp add: visited_def)
  qed
next
  fix sel m dg assume "visited B N payload sel (GObj m)" "dg \<in> set (sd_digests m)"
  then show "standing B N payload sel dg"
    unfolding visited_def standing_def using visits_Suc by (metis bare.simps(1) stands.simps(1))
next
  fix sel els el assume v: "visited B N payload sel (GArr els)" "el \<in> set els" "disclosureRefDigest el = None"
  show "visited B N payload sel el"
  proof (cases "bare (GArr els)")
    case True
    with v(2) scalar_bare show ?thesis by (auto simp: visited_def list_all_iff)
  next
    case False
    with v(1) obtain n where n: "visits B N payload sel (Suc n) (GArr els)" unfolding visited_def using visits_Suc by metis
    have "ref_shape B (resolvable B n False) el" using visits_shape [OF n] v(2) by (auto simp: list_all_iff)
    with v(3) have "ref_value el = None" by (auto simp: ref_shape_def disclosureRefDigest_def split: option.splits goval.splits)
    from visit_element [OF n v(2) this] show ?thesis by (auto simp: visited_def)
  qed
next
  fix sel els el dg assume v: "visited B N payload sel (GArr els)" "el \<in> set els" "disclosureRefDigest el = Some dg"
  then have ref: "ref_value el = Some (GStr dg)" by (simp add: disclosureRefDigest_iff)
  with v(2) have "\<not> bare (GArr els)" using scalar_ref by (force simp: list_all_iff)
  with v(1) obtain n where "visits B N payload sel (Suc n) (GArr els)" unfolding visited_def using visits_Suc by metis
  with v(2) ref show "standing B N payload sel dg" unfolding standing_def by fastforce
next
  fix sel dg d assume "standing B N payload sel dg" and d: "gm_get B dg = Some d" "gm_get sel dg = Some d"
  then obtain n w where n: "visits B N payload sel (Suc n) w" and w: "stands w dg" by (auto simp: standing_def)
  show "visited B N payload sel (di_Value d)"
  proof (cases w)
    case (GObj m)
    with n w d visit_named show ?thesis unfolding visited_def by fastforce
  next
    case (GArr els)
    with w obtain el where "el \<in> set els" "ref_value el = Some (GStr dg)" by auto
    with n d GArr visit_disclosed show ?thesis unfolding visited_def by fastforce
  qed (use w in auto)
qed

lemma visits_embedded: "visits B N payload sel n v \<Longrightarrow> set (embedded sel n v) \<subseteq> set (embedded sel N (GObj payload))"
proof (induction rule: visits.induct)
  case (visit_own n m k v)
  then have "set (embedded sel n v) \<subseteq> set (embedded sel (Suc n) (GObj m))" by force
  with visit_own.IH show ?case by blast
next
  case (visit_named n m dg d)
  then have "set (embedded sel n (di_Value d)) \<subseteq> set (embedded sel (Suc n) (GObj m))" by (fastforce simp: below_def)
  with visit_named.IH show ?case by blast
next
  case (visit_element n els el)
  then have "set (embedded sel n el) \<subseteq> set (embedded sel (Suc n) (GArr els))" by (force simp: element_digests_def)
  with visit_element.IH show ?case by blast
next
  case (visit_disclosed n els el dg d)
  then have "set (embedded sel n (di_Value d)) \<subseteq> set (embedded sel (Suc n) (GArr els))"
    by (force simp: element_digests_def below_def)
  with visit_disclosed.IH show ?case by blast
qed simp

lemma standing_embedded: "standing B N payload sel dg \<Longrightarrow> dg \<in> set (embedded sel N (GObj payload))"
proof -
  assume "standing B N payload sel dg"
  then obtain n w where n: "visits B N payload sel (Suc n) w" and w: "stands w dg" by (auto simp: standing_def)
  have "dg \<in> set (embedded sel (Suc n) w)"
  proof (cases w)
    case (GObj m)
    with w show ?thesis by (auto simp: below_def)
  next
    case (GArr els)
    with w show ?thesis by (force simp: below_def element_digests_def)
  qed (use w in auto)
  with visits_embedded [OF n] show ?thesis by blast
qed

section \<open>Part of a value\<close>

text \<open>A part of a value: members and array elements may be missing, at any depth.\<close>

inductive part_of :: "goval \<Rightarrow> goval \<Rightarrow> bool" and parts_of :: "goval list \<Rightarrow> goval list \<Rightarrow> bool" where
  same_part: "is_scalar v \<Longrightarrow> part_of v v"
| some_members: "(\<And>k v. gm_get m' k = Some v \<Longrightarrow> \<exists>w. gm_get m k = Some w \<and> part_of v w) \<Longrightarrow> part_of (GObj m') (GObj m)"
| some_elements: "parts_of els' els \<Longrightarrow> part_of (GArr els') (GArr els)"
| no_parts: "parts_of [] []"
| left_out: "parts_of els' els \<Longrightarrow> parts_of els' (el # els)"
| kept_part: "part_of v w \<Longrightarrow> parts_of els' els \<Longrightarrow> parts_of (v # els') (w # els)"

inductive_cases processed_objE: "processed B (GObj m) r"
inductive_cases processed_arrE: "processed B (GArr els) r"
inductive_cases elements_ConsE: "processed_elements B (el # els) rs"
inductive_cases elements_NilE: "processed_elements B [] rs"

lemma processed_scalar: "is_scalar v \<Longrightarrow> processed B v r \<Longrightarrow> r = v"
  by (erule processed.cases) (auto simp: is_scalar_def)

lemma distinct_map_filter_inj:
  "distinct (List.map_filter f xs) \<Longrightarrow> x \<in> set xs \<Longrightarrow> y \<in> set xs \<Longrightarrow> f x = Some n \<Longrightarrow> f y = Some n \<Longrightarrow> x = y"
proof (induction xs)
  case (Cons a xs)
  have "n \<in> set (List.map_filter f xs)" if "z \<in> set xs" "f z = Some n" for z
    using that by (force simp: List.map_filter_def)
  with Cons show ?case by (auto simp: map_filter_simps split: option.splits)
qed simp

lemma processed_parts:
  assumes "\<And>v r' r. v \<in> V \<Longrightarrow> processed B' v r' \<Longrightarrow> processed B v r \<Longrightarrow> part_of r' r"
    and "fewer B' B"
    and "\<forall>el \<in> set els. case ref_value el of None \<Rightarrow> el \<in> V
      | Some raw \<Rightarrow> (\<forall>dg d. raw = GStr dg \<longrightarrow> gm_get B dg = Some d \<longrightarrow> di_Value d \<in> V)"
  shows "processed_elements B' els rs' \<Longrightarrow> processed_elements B els rs \<Longrightarrow> parts_of rs' rs"
  using assms(3)
proof (induction els arbitrary: rs' rs)
  case Nil
  then show ?case by (auto elim!: elements_NilE intro: no_parts)
next
  case (Cons el els)
  from Cons.prems(1) consider
      dg where "ref_value el = Some (GStr dg)" "gm_get B' dg = None" "processed_elements B' els rs'"
    | dg d r rs1 where "rs' = r # rs1" "ref_value el = Some (GStr dg)" "gm_get B' dg = Some d" "IsArrayElement d"
        "processed B' (di_Value d) r" "processed_elements B' els rs1"
    | r rs1 where "rs' = r # rs1" "ref_value el = None" "processed B' el r" "processed_elements B' els rs1"
    by (rule elements_ConsE) blast+
  then show ?case
  proof cases
    case (1 dg)
    have IH: "processed_elements B els rs1 \<Longrightarrow> parts_of rs' rs1" for rs1 using Cons.IH [OF 1(3)] Cons.prems(3) by simp
    from Cons.prems(2) show ?thesis
      by (rule elements_ConsE) (use 1 IH in \<open>auto intro: left_out\<close>)
  next
    case (2 dg d r rs1)
    have B: "gm_get B dg = Some d" using fewerD [OF assms(2) 2(3)] .
    have V: "di_Value d \<in> V" using Cons.prems(3) 2(2) B by simp
    from Cons.prems(2) obtain r2 rs2 where rs: "rs = r2 # rs2" "processed B (di_Value d) r2" "processed_elements B els rs2"
      by (rule elements_ConsE) (use 2(2) B in auto)
    from assms(1) [OF V 2(5) rs(2)] Cons.IH [OF 2(6) rs(3)] Cons.prems(3) show ?thesis
      unfolding rs(1) 2(1) by (auto intro: kept_part)
  next
    case (3 r rs1)
    have V: "el \<in> V" using Cons.prems(3) 3(2) by simp
    from Cons.prems(2) obtain r2 rs2 where rs: "rs = r2 # rs2" "processed B el r2" "processed_elements B els rs2"
      by (rule elements_ConsE) (use 3(2) in auto)
    from assms(1) [OF V 3(3) rs(2)] Cons.IH [OF 3(4) rs(3)] Cons.prems(3) show ?thesis
      unfolding rs(1) 3(1) by (auto intro: kept_part)
  qed
qed

lemma processed_part:
  assumes "fewer B' B"
  shows "resolvable B n outer v \<Longrightarrow> processed B' v r' \<Longrightarrow> processed B v r \<Longrightarrow> part_of r' r"
proof (induction n arbitrary: outer v r' r)
  case (Suc n)
  have IH: "part_of x' x" if "resolvable B n False w" "processed B' w x'" "processed B w x" for w x' x
    using Suc.IH that by blast
  show ?case
  proof (cases v)
    case (GObj m)
    have own: "resolvable B n False w" if "gm_get m k = Some w" "own_name k" for k w
      using Suc.prems(1) GObj map_of_SomeD [OF that(1)] that(2) by (auto simp: list_all_iff)
    have "sd_shape B (resolvable B n False) m" using Suc.prems(1) GObj by simp
    then have sd: "distinct (disclosed_names B (sd_digests m))"
      "\<forall>dg \<in> set (sd_digests m). \<forall>d. gm_get B dg = Some d \<longrightarrow> resolvable B n False (di_Value d)"
      by (auto simp: sd_shape_def sd_digests_def list_all_iff disclosed_names_def map_filter_simps split: option.splits)
    from Suc.prems(2) obtain out' where r': "r' = GObj out'"
      and has': "\<And>k x. gm_get out' k = Some x \<Longrightarrow>
        (own_name k \<and> (\<exists>w. gm_get m k = Some w \<and> processed B' w x)) \<or>
        (\<exists>dg d. dg \<in> set (sd_digests m) \<and> gm_get B' dg = Some d \<and> \<not> IsArrayElement d \<and> di_Name d = k \<and>
          (own_name k \<longrightarrow> gm_get m k = None) \<and> processed B' (di_Value d) x)"
      unfolding GObj by (rule processed_objE) (auto simp: is_scalar_def)
    from Suc.prems(3) obtain out where r: "r = GObj out"
      and has: "\<And>k x. gm_get out k = Some x \<Longrightarrow>
        (own_name k \<and> (\<exists>w. gm_get m k = Some w \<and> processed B w x)) \<or>
        (\<exists>dg d. dg \<in> set (sd_digests m) \<and> gm_get B dg = Some d \<and> \<not> IsArrayElement d \<and> di_Name d = k \<and>
          (own_name k \<longrightarrow> gm_get m k = None) \<and> processed B (di_Value d) x)"
      and keeps: "\<And>k. own_name k \<Longrightarrow> gm_get m k \<noteq> None \<Longrightarrow> gm_get out k \<noteq> None"
      and gains: "\<And>dg d. dg \<in> set (sd_digests m) \<Longrightarrow> gm_get B dg = Some d \<Longrightarrow> gm_get out (di_Name d) \<noteq> None"
      unfolding GObj by (rule processed_objE) (auto simp: is_scalar_def)
    have "\<exists>x. gm_get out k = Some x \<and> part_of x' x" if x': "gm_get out' k = Some x'" for k x'
      using has' [OF x']
    proof (elim disjE exE conjE)
      fix w assume w: "own_name k" "gm_get m k = Some w" "processed B' w x'"
      with keeps obtain x where x: "gm_get out k = Some x" by blast
      with has [OF x] w have "processed B w x" by auto
      with x IH [OF own [OF w(2,1)] w(3)] show ?thesis by blast
    next
      fix dg d assume d: "dg \<in> set (sd_digests m)" "gm_get B' dg = Some d" "di_Name d = k"
        "own_name k \<longrightarrow> gm_get m k = None" "processed B' (di_Value d) x'"
      have B: "gm_get B dg = Some d" using fewerD [OF assms d(2)] .
      with gains d obtain x where x: "gm_get out k = Some x" by blast
      with has [OF x] d(4) obtain dg2 d2 where d2: "dg2 \<in> set (sd_digests m)" "gm_get B dg2 = Some d2" "di_Name d2 = k"
        "processed B (di_Value d2) x" by auto
      have "dg2 = dg"
        using distinct_map_filter_inj [OF sd(1) [unfolded disclosed_names_def] d2(1) d(1), of k] d2 d B by simp
      with d2 B have "processed B (di_Value d) x" by simp
      with x IH [OF sd(2) [rule_format, OF d(1) B] d(5)] show ?thesis by blast
    qed
    then show ?thesis unfolding r r' by (intro some_members) blast
  next
    case (GArr els)
    from Suc.prems(2) obtain rs' where r': "r' = GArr rs'" "processed_elements B' els rs'"
      unfolding GArr by (rule processed_arrE) (auto simp: is_scalar_def)
    from Suc.prems(3) obtain rs where r: "r = GArr rs" "processed_elements B els rs"
      unfolding GArr by (rule processed_arrE) (auto simp: is_scalar_def)
    have "\<forall>el \<in> set els. case ref_value el of None \<Rightarrow> el \<in> {w. resolvable B n False w}
      | Some raw \<Rightarrow> (\<forall>dg d. raw = GStr dg \<longrightarrow> gm_get B dg = Some d \<longrightarrow> di_Value d \<in> {w. resolvable B n False w})"
      using Suc.prems(1) GArr by (auto simp: list_all_iff ref_shape_def split: option.splits)
    from processed_parts [OF _ assms this r'(2) r(2)] IH show ?thesis unfolding r(1) r'(1) by (auto intro: some_elements)
  qed (use Suc.prems in \<open>auto dest!: processed_scalar [rotated] simp: is_scalar_def intro: same_part\<close>)
qed simp

section \<open>The selection by itself\<close>

lemma index_is_by_digest: "index_disclosures h alg ds B0 = Inr B \<Longrightarrow> by_digest_of h alg ds B0 = Inr B"
  by (induction ds arbitrary: B0) (auto split: sum.splits if_splits)

lemma index_selection:
  assumes "distinct (map fst (B0 @ sel))" and "\<forall>(dg, d) \<in> set sel. Digest h alg d = Inr dg"
  shows "index_disclosures h alg (map snd sel) B0 = Inr (B0 @ sel)"
  using assms
proof (induction sel arbitrary: B0)
  case (Cons a sel)
  obtain dg d where a: "a = (dg, d)" by (cases a)
  have "gm_get B0 dg = None" using Cons.prems(1) by (auto simp: a map_of_eq_None_iff)
  moreover from this have "gm_put dg d B0 = B0 @ [(dg, d)]" by (simp add: update_fresh map_of_eq_None_iff)
  ultimately show ?case using Cons.IH [of "B0 @ [a]"] Cons.prems by (simp add: a)
qed simp

text \<open>What a Holder selects, indexed: a part of the credential's Disclosures that all stand in what they resolve.\<close>

lemma selection_standing:
  assumes "ResolveDisclosures h payload alg all = Inr cs" and "SelectDisclosuresAt h payload alg all paths = Inr out"
    and "goval_ok (GObj payload)" and "\<forall>d \<in> set all. goval_ok (di_Value d)" and "\<forall>a s. h a s \<noteq> []"
    and "PayloadHashAlg payload fallback = Inr alg"
  obtains B sel where "index_disclosures h alg all [] = Inr B" and "select_paths B (GObj payload) paths [] = Inr sel"
    and "out = map snd sel" and "index_disclosures h alg out [] = Inr sel" and "fewer sel B" and "gm_ok sel"
    and "root_ok B 33 payload" and "distinct (embedded B 33 (GObj payload))"
    and "\<forall>dg d. gm_get sel dg = Some d \<longrightarrow> standing B 33 payload sel dg"
proof -
  obtain B st where B: "index_disclosures h alg all [] = Inr B"
    and run: "resolveValue B 33 True (GObj payload) \<lparr> mk_used = [], mk_seen = [] \<rparr> = Inr (GObj cs, st)"
    using resolved_cases [OF assms(1)] by metis
  obtain sel where sel: "select_paths B (GObj payload) paths [] = Inr sel" and out: "out = map snd sel"
    using assms(2) index_is_by_digest [OF B] by (auto simp: SelectDisclosuresAt_def rmap_Inr_iff)
  note idx = index_disclosures [OF B]
  have digest: "gm_get B dg = Some d \<Longrightarrow> d \<in> set all \<and> Digest h alg d = Inr dg" for dg d using idx by simp
  have "values_ok B" using digest assms(4) by (auto simp: values_ok_def)
  from resolved_resolvable [OF this run assms(3)] have "resolvable B 33 True (GObj payload)" .
  moreover have "is_scalar w" if "gm_get payload ''_sd_alg'' = Some w" for w
    using assms(6) that by (cases w) (auto simp: PayloadHashAlg_def is_scalar_def split: option.splits)
  ultimately have root: "root_ok B 33 payload" by (auto simp: root_ok_def)
  have "gm_get B [] = None"
  proof (cases "gm_get B []")
    case (Some d)
    with digest [OF Some] assms(5) show ?thesis by (auto simp: Digest_def hashString_def split: if_splits)
  qed
  moreover have "visited B 33 payload [] (GObj payload)" using visit_root [OF root] by (auto simp: visited_def)
  ultimately have placed: "placed (standing B 33 payload) B sel"
    using resolving.select_paths_placed [OF _ sel] by (simp add: placed_def)
  then have fewer: "fewer sel B" and ok: "gm_ok sel" and stand: "\<forall>dg d. gm_get sel dg = Some d \<longrightarrow> standing B 33 payload sel dg"
    by (auto simp: placed_def fewer_def)
  have "\<forall>(dg, d) \<in> set sel. Digest h alg d = Inr dg"
  proof clarify
    fix dg d assume "(dg, d) \<in> set sel"
    with ok have "gm_get sel dg = Some d" by (simp add: gm_ok_def)
    with fewerD [OF fewer] digest show "Digest h alg d = Inr dg" by blast
  qed
  from index_selection [of "[]", OF _ this] ok have "index_disclosures h alg out [] = Inr sel" by (simp add: out gm_ok_def)
  moreover have "distinct (embedded B 33 (GObj payload))"
    using accountedD [OF resolveValue_accounts run] by (auto simp: accounts_def)
  ultimately show thesis using that B sel out fewer ok root stand by blast
qed

theorem withheld_resolves:
  assumes "ResolveDisclosures h payload alg all = Inr cs" and "SelectDisclosuresAt h payload alg all paths = Inr out"
    and "goval_ok (GObj payload)" and "\<forall>d \<in> set all. goval_ok (di_Value d)" and "\<forall>a s. h a s \<noteq> []"
    and "PayloadHashAlg payload fallback = Inr alg"
  shows "\<exists>cs'. ResolveDisclosures h payload alg out = Inr cs' \<and> part_of (GObj cs') (GObj cs)"
proof -
  obtain B sel where B: "index_disclosures h alg all [] = Inr B"
    and out: "out = map snd sel" and sel: "index_disclosures h alg out [] = Inr sel" and few: "fewer sel B" and ok: "gm_ok sel"
    and root: "root_ok B 33 payload" and dist: "distinct (embedded B 33 (GObj payload))"
    and stand: "\<forall>dg d. gm_get sel dg = Some d \<longrightarrow> standing B 33 payload sel dg"
    using selection_standing [OF assms] by metis
  have shape: "resolvable B 33 True (GObj payload)" using root by (simp add: root_ok_def)
  have "distinct (embedded sel 33 (GObj payload))" using distinct_sub_mset [OF embedded_fewer [OF few] dist] .
  then have "distinct (mk_seen \<lparr> mk_used = [], mk_seen = [] \<rparr> @ embedded sel 33 (GObj payload) @ [])" by simp
  with resolvable_resolves [OF resolvable_fewer [OF few shape]]
  obtain r st where run: "resolveValue sel 33 True (GObj payload) \<lparr> mk_used = [], mk_seen = [] \<rparr> = Inr (r, st)"
    by (rule resolves_withD)
  have acc: "set (mk_used st) = {dg \<in> set (embedded sel 33 (GObj payload)). gm_get sel dg \<noteq> None}" "distinct (mk_used st)"
    using accountedD [OF resolveValue_accounts run] by (simp_all add: accounts_def)
  have "set (mk_used st) = set (map fst sel)"
    unfolding acc(1) using standing_embedded stand ok by (auto simp: map_of_eq_None_iff image_iff gm_ok_def)
  then have used: "length (mk_used st) = length out"
    using acc(2) ok distinct_card [of "mk_used st"] distinct_card [of "map fst sel"] by (simp add: out gm_ok_def)
  have "values_ok B" "values_ok sel"
    using index_disclosures [OF B] assms(4) few by (auto simp: values_ok_def fewer_def)
  have "processed sel (GObj payload) r" using resolveValue_processed [OF \<open>values_ok sel\<close> run assms(3)] .
  moreover have "processed B (GObj payload) (GObj cs)" using resolved_processed [OF assms(1) B assms(3,4)] .
  ultimately have part: "part_of r (GObj cs)" using processed_part [OF few shape] by blast
  from \<open>processed sel (GObj payload) r\<close> obtain cs' where r: "r = GObj cs'" by (rule processed_objE) (auto simp: is_scalar_def)
  have "ResolveDisclosures h payload alg out = Inr cs'"
    using sel run used by (simp add: ResolveDisclosures_def ResolveDisclosuresMax_def levels_of_def MaxResolveDepth_def r)
  with part r show ?thesis by blast
qed

end
