(* ===== verification/Sdjwt_Reselect.thy ===== *)
theory Sdjwt_Reselect
  imports Sdjwt_Withhold
begin

text \<open>
  Selecting among what was selected: a Verifier runs the Holder's \<open>SelectDisclosuresAt\<close> again, over the Disclosures it was
  presented, to see that none of them was unasked for. For paths without array indices it selects all of them; and what
  the paths select of the resolved claims is still there.
\<close>

section \<open>The bound\<close>

text \<open>A larger bound changes nothing where the smaller was not used up.\<close>

definition extends :: "('a \<Rightarrow> selection \<Rightarrow> sd_error + selection) \<Rightarrow> ('a \<Rightarrow> selection \<Rightarrow> sd_error + selection) \<Rightarrow> bool" where
  "extends f g = (\<forall>x sel. f x sel \<noteq> Inl NoFuel \<longrightarrow> g x sel = f x sel)"

lemma extendsD: "extends f g \<Longrightarrow> f x sel \<noteq> Inl NoFuel \<Longrightarrow> g x sel = f x sel"
  by (simp add: extends_def)

lemma rbind_extends:
  assumes "r \<noteq> Inl NoFuel \<Longrightarrow> r' = r" and "\<And>s. r = Inr s \<Longrightarrow> f s \<noteq> Inl NoFuel \<Longrightarrow> g s = f s" and "rbind r f \<noteq> Inl NoFuel"
  shows "rbind r' g = rbind r f"
  using assms by (cases r) auto

lemma include_digests_extends: "extends inc inc' \<Longrightarrow> extends (include_digests inc) (include_digests inc')"
proof -
  assume inc: "extends inc inc'"
  have "include_digests inc dgs sel \<noteq> Inl NoFuel \<Longrightarrow> include_digests inc' dgs sel = include_digests inc dgs sel" for dgs sel
  proof (induction dgs arbitrary: sel)
    case (Cons dg dgs)
    from rbind_extends [of "inc dg sel" "inc' dg sel", OF extendsD [OF inc] Cons.IH] Cons.prems show ?case by simp
  qed simp
  then show ?thesis by (simp add: extends_def)
qed

lemma includeDisclosure_new:
  "gm_get sel dg = None \<Longrightarrow> gm_get B dg = Some d \<Longrightarrow>
     includeDisclosure B (Suc n) dg sel = include_digests (includeDisclosure B n) (digests_in (di_Value d)) (gm_put dg d sel)"
  by (simp add: include_value)

lemma includeDisclosure_extends: "extends (includeDisclosure B n) (includeDisclosure B (Suc n))"
proof (induction n)
  case 0
  show ?case by (auto simp: extends_def split: option.splits)
next
  case (Suc n)
  show ?case unfolding extends_def
  proof (intro allI impI)
    fix dg sel assume run: "includeDisclosure B (Suc n) dg sel \<noteq> Inl NoFuel"
    show "includeDisclosure B (Suc (Suc n)) dg sel = includeDisclosure B (Suc n) dg sel"
    proof (cases "gm_get sel dg = None \<and> gm_get B dg \<noteq> None")
      case True
      then obtain d where d: "gm_get B dg = Some d" by auto
      with True run have "include_digests (includeDisclosure B n) (digests_in (di_Value d)) (gm_put dg d sel) \<noteq> Inl NoFuel"
        by (simp only: includeDisclosure_new) simp
      from extendsD [OF include_digests_extends [OF Suc] this] True d show ?thesis by (simp only: includeDisclosure_new)
    qed (auto split: option.splits)
  qed
qed

lemma includeDisclosure_extends_le: "n \<le> m \<Longrightarrow> extends (includeDisclosure B n) (includeDisclosure B m)"
proof (induction m)
  case (Suc m)
  show ?case
  proof (cases "n = Suc m")
    case False
    with Suc have "extends (includeDisclosure B n) (includeDisclosure B m)" by simp
    with includeDisclosure_extends [of B m] show ?thesis unfolding extends_def by metis
  qed (simp add: extends_def)
qed (simp add: extends_def)

lemma selectElement_extends: "extends f g \<Longrightarrow> extends (selectElement B f) (selectElement B g)"
  by (auto simp: extends_def selectElement_def split: prod.splits)

lemma select_walkable_extends:
  assumes "extends f g"
  shows "extends (select_walkable B path f) (select_walkable B path g)"
proof -
  have "select_walkable B path f els sel \<noteq> Inl NoFuel \<Longrightarrow> select_walkable B path g els sel = select_walkable B path f els sel" for els sel
  proof (induction els arbitrary: sel)
    case (Cons el els)
    from rbind_extends [of "selectElement B f el sel" "selectElement B g el sel",
        OF extendsD [OF selectElement_extends [OF assms]] Cons.IH] Cons.IH Cons.prems
    show ?case by (auto split: if_splits)
  qed simp
  then show ?thesis by (simp add: extends_def)
qed

lemma selectPath_extends:
  assumes "n \<le> m"
  shows "extends (selectPath B n path) (selectPath B m path)"
proof (induction path)
  case Nil
  from include_digests_extends [OF includeDisclosure_extends_le [OF assms]] show ?case
    by (simp add: extends_def include_value)
next
  case (Cons c rest)
  have "selectPath B m (c # rest) v sel = selectPath B n (c # rest) v sel"
    if run: "selectPath B n (c # rest) v sel \<noteq> Inl NoFuel" for v sel
  proof (cases c)
    case (CKey k)
    with run extendsD [OF Cons] show ?thesis by (auto simp: selectMember_def split: option.splits)
  next
    case (CIndex i)
    have "selectElement B (selectPath B m rest) el s = selectElement B (selectPath B n rest) el s"
      if "selectElement B (selectPath B n rest) el s \<noteq> Inl NoFuel" for el s
      using extendsD [OF selectElement_extends [OF Cons] that] .
    with run CIndex show ?thesis by (cases v) (simp_all add: selectElements_def Let_def split: if_splits)
  next
    case CAll
    with run extendsD [OF select_walkable_extends [OF Cons]] show ?thesis
      by (auto simp: selectElements_def Let_def split: option.splits)
  qed simp
  then show ?case by (simp add: extends_def)
qed

section \<open>The same walk among the selected\<close>

text \<open>With every position allowed, the walk's laws say that it only adds Disclosures of the credential.\<close>

abbreviation anywhere :: "selection \<Rightarrow> 'a \<Rightarrow> bool" where
  "anywhere \<equiv> \<lambda>_ _. True"

interpretation adding: disclosure_positions B anywhere anywhere for B
  by unfold_locales simp_all

lemma adding_includes:
  "include_digests (includeDisclosure B n) dgs sel = Inr sel' \<Longrightarrow> placed anywhere B sel \<Longrightarrow> places_from anywhere B sel sel'"
  by (rule adding.include_digests_placed) (auto dest: adding.includeDisclosure_placed)

lemma placed_anywhere: "placed anywhere B sel \<longleftrightarrow> gm_ok sel \<and> fewer sel B"
  by (auto simp: placed_def fewer_def)

text \<open>\<open>f'\<close> does what \<open>f\<close> does when all it selects is among \<open>F\<close>.\<close>

definition repeats :: "by_digest \<Rightarrow> selection \<Rightarrow> ('a \<Rightarrow> selection \<Rightarrow> sd_error + selection) \<Rightarrow> ('a \<Rightarrow> selection \<Rightarrow> sd_error + selection) \<Rightarrow> bool" where
  "repeats B F f f' =
     (\<forall>x sel sel'. f x sel = Inr sel' \<longrightarrow> placed anywhere B sel \<longrightarrow> grows sel' F \<longrightarrow> f' x sel = Inr sel' \<and> places_from anywhere B sel sel')"

lemma repeatsD:
  "repeats B F f f' \<Longrightarrow> f x sel = Inr sel' \<Longrightarrow> placed anywhere B sel \<Longrightarrow> grows sel' F \<Longrightarrow> f' x sel = Inr sel' \<and> places_from anywhere B sel sel'"
  by (simp add: repeats_def)

lemma include_digests_repeats:
  assumes "repeats B F inc inc'" and "\<And>dgs sel sel'. include_digests inc dgs sel = Inr sel' \<Longrightarrow> placed anywhere B sel \<Longrightarrow> places_from anywhere B sel sel'"
  shows "repeats B F (include_digests inc) (include_digests inc')"
  unfolding repeats_def
proof (intro allI impI conjI)
  fix dgs sel sel' assume run: "include_digests inc dgs sel = Inr sel'" "placed anywhere B sel" and F: "grows sel' F"
  then show "places_from anywhere B sel sel'" using assms(2) by blast
  from run show "include_digests inc' dgs sel = Inr sel'"
  proof (induction dgs arbitrary: sel)
    case (Cons dg dgs)
    then obtain sel1 where step: "inc dg sel = Inr sel1" and rest: "include_digests inc dgs sel1 = Inr sel'"
      by (auto simp: rbind_Inr_iff)
    from assms(2) [of "[dg]" sel sel1] step Cons.prems(2) have one: "places_from anywhere B sel sel1" by simp
    then have "places_from anywhere B sel1 sel'" using assms(2) [OF rest] by (simp add: places_from_def)
    then have "grows sel1 F" using F by (auto simp: places_from_def intro: grows_trans)
    from repeatsD [OF assms(1) step Cons.prems(2) this] Cons.IH [OF rest] one show ?case by (simp add: places_from_def)
  qed simp
qed

lemma includeDisclosure_repeats:
  assumes "fewer F B"
  shows "repeats B F (includeDisclosure B n) (includeDisclosure F n)"
proof (induction n)
  case 0
  have "gm_get F dg = None" if "gm_get B dg = None" for dg using assms that by (cases "gm_get F dg") (auto simp: fewer_def)
  then show ?case by (auto simp: repeats_def places_from_refl split: if_splits option.splits)
next
  case (Suc n)
  note all = adding_includes
  show ?case unfolding repeats_def
  proof (intro allI impI conjI)
    fix dg sel sel'
    assume run: "includeDisclosure B (Suc n) dg sel = Inr sel'" and sel: "placed anywhere B sel" and F: "grows sel' F"
    show "places_from anywhere B sel sel'" using adding.includeDisclosure_placed [OF run sel] by simp
    show "includeDisclosure F (Suc n) dg sel = Inr sel'"
    proof (cases "gm_get sel dg = None \<and> gm_get B dg \<noteq> None")
      case True
      then obtain d where d: "gm_get B dg = Some d" by auto
      with True run have inner: "include_digests (includeDisclosure B n) (digests_in (di_Value d)) (gm_put dg d sel) = Inr sel'"
        by (simp add: include_value)
      have put: "placed anywhere B (gm_put dg d sel)" using adding.put_placed(1) [OF sel d] by (simp add: places_from_def)
      then have "grows (gm_put dg d sel) F" using all [OF inner put] F by (auto simp: places_from_def intro: grows_trans)
      from growsD [OF this, of dg d] have "gm_get F dg = Some d" by simp
      with repeatsD [OF include_digests_repeats [OF Suc all] inner put F] True show ?thesis
        by (simp only: includeDisclosure_new)
    next
      case False
      have "gm_get F dg = None" if "gm_get B dg = None" using assms that by (cases "gm_get F dg") (auto simp: fewer_def)
      with False run show ?thesis by (auto split: option.splits)
    qed
  qed
qed

fun indexless :: "component list \<Rightarrow> bool" where
  "indexless [] = True"
| "indexless (CIndex i # cs) = False"
| "indexless (c # cs) = indexless cs"

lemma first_named_fewer:
  assumes "fewer F B"
  shows "first_named B key dgs = None \<Longrightarrow> first_named F key dgs = None"
    and "first_named B key dgs = Some (dg, d) \<Longrightarrow> gm_get F dg = Some d \<Longrightarrow> first_named F key dgs = Some (dg, d)"
proof (induction dgs)
  case (Cons a dgs)
  have F: "gm_get F a = None \<or> gm_get F a = gm_get B a" using fewerD [OF assms, of a] by (cases "gm_get F a") auto
  { case 1 with F Cons show ?case by (auto split: option.splits if_splits) }
  { case 2 with F Cons show ?case by (auto split: option.splits if_splits) }
qed simp_all

lemma select_walkable_repeats:
  assumes "fewer F B" and "gm_get B [] = None" and "repeats B F f f'"
    and "\<And>v sel sel'. f v sel = Inr sel' \<Longrightarrow> placed anywhere B sel \<Longrightarrow> places_from anywhere B sel sel'"
  shows "select_walkable B path f (resolveElements B arr) sel = Inr sel' \<Longrightarrow> placed anywhere B sel \<Longrightarrow> grows sel' F \<Longrightarrow>
    select_walkable F path f' (resolveElements F arr) sel = Inr sel'"
proof (induction arr arbitrary: sel)
  case (Cons el arr)
  have later: "places_from anywhere B s sel'"
    if "select_walkable B path f (resolveElements B arr) s = Inr sel'" "placed anywhere B s" for s
    using adding.select_walkable_placed [OF assms(4,2) order_refl _ that(2,1)] by simp
  have one: "\<exists>sel1. f v s = Inr sel1 \<and> f' v s = Inr sel1 \<and> places_from anywhere B s sel1 \<and>
      select_walkable F path f' (resolveElements F arr) sel1 = Inr sel'"
    if run: "rbind (f v s) (select_walkable B path f (resolveElements B arr)) = Inr sel'" and s: "placed anywhere B s" for v s
  proof -
    from run obtain sel1 where step: "f v s = Inr sel1" and rest: "select_walkable B path f (resolveElements B arr) sel1 = Inr sel'"
      by (auto simp: rbind_Inr_iff)
    from assms(4) [OF step s] have p: "places_from anywhere B s sel1" .
    then have ok: "placed anywhere B sel1" by (simp add: places_from_def)
    have "grows sel1 F" using later [OF rest ok] Cons.prems(3) by (auto simp: places_from_def intro: grows_trans)
    from repeatsD [OF assms(3) step s this] step p Cons.IH [OF rest ok Cons.prems(3)] show ?thesis by blast
  qed
  show ?case
  proof (cases "disclosureRefDigest el")
    case None
    show ?thesis
    proof (cases "walkable el path")
      case True
      with Cons.prems(1) None have "rbind (f el sel) (select_walkable B path f (resolveElements B arr)) = Inr sel'"
        by (simp add: selectElement_def)
      from one [OF this Cons.prems(2)] True None show ?thesis by (auto simp: selectElement_def)
    qed (use Cons None in auto)
  next
    case (Some ref)
    show ?thesis
    proof (cases "gm_get B ref")
      case None
      then have "gm_get F ref = None" using fewerD [OF assms(1)] by (cases "gm_get F ref") auto
      with None Some Cons show ?thesis by simp
    next
      case d: (Some d)
      have ref: "ref \<noteq> []" using d assms(2) by auto
      show ?thesis
      proof (cases "walkable (di_Value d) path")
        case True
        with Cons.prems(1) Some d ref
        have run: "rbind (f (di_Value d) (gm_put ref d sel)) (select_walkable B path f (resolveElements B arr)) = Inr sel'"
          by (simp add: selectElement_def)
        have put: "placed anywhere B (gm_put ref d sel)" using adding.put_placed(1) [OF Cons.prems(2) d] by (simp add: places_from_def)
        from one [OF run put] obtain sel1 where s1: "f (di_Value d) (gm_put ref d sel) = Inr sel1"
          "f' (di_Value d) (gm_put ref d sel) = Inr sel1" "places_from anywhere B (gm_put ref d sel) sel1"
          "select_walkable F path f' (resolveElements F arr) sel1 = Inr sel'" by blast
        have "places_from anywhere B sel1 sel'" using later run s1(1,3) by (simp add: places_from_def)
        then have "grows (gm_put ref d sel) F" using s1(3) Cons.prems(3) by (auto simp: places_from_def intro: grows_trans)
        from growsD [OF this, of ref d] have "gm_get F ref = Some d" by simp
        with True Some d ref s1 show ?thesis by (simp add: selectElement_def)
      next
        case False
        with Cons Some d fewerD [OF assms(1), of ref] show ?thesis by (cases "gm_get F ref") auto
      qed
    qed
  qed
qed simp

lemma selectPath_repeats:
  assumes "fewer F B" and "gm_get B [] = None" and "indexless path"
  shows "repeats B F (selectPath B n path) (selectPath F n path)"
  using assms(3)
proof (induction path)
  case Nil
  from include_digests_repeats [OF includeDisclosure_repeats [OF assms(1)] adding_includes] show ?case by (simp add: repeats_def include_value)
next
  case (Cons c path)
  have IH: "repeats B F (selectPath B n path) (selectPath F n path)" using Cons by (cases c) auto
  show ?case
  proof (cases c)
    case (CKey k)
    show ?thesis unfolding CKey repeats_def
    proof (intro allI impI conjI)
      fix v sel sel'
      assume run: "selectPath B n (CKey k # path) v sel = Inr sel'" and sel: "placed anywhere B sel" and F: "grows sel' F"
      show "places_from anywhere B sel sel'" using adding.selectPath_placed [OF assms(2) run sel] by simp
      from run obtain obj where obj: "v = GObj obj" by (auto simp: selectMember_def split: option.splits)
      show "selectPath F n (CKey k # path) v sel = Inr sel'"
      proof (cases "gm_get obj k")
        case (Some child)
        with run obj repeatsD [OF IH _ sel F] show ?thesis by (simp add: selectMember_def)
      next
        case None
        show ?thesis
        proof (cases "first_named B k (sd_digests obj)")
          case (Some p)
          obtain dg d where p: "p = (dg, d)" by (cases p)
          from first_named_Some [OF Some [unfolded p]] have d: "gm_get B dg = Some d" by simp
          have put: "placed anywhere B (gm_put dg d sel)" using adding.put_placed(1) [OF sel d] by (simp add: places_from_def)
          have rest: "selectPath B n path (di_Value d) (gm_put dg d sel) = Inr sel'"
            using run obj None Some p by (simp add: selectMember_def)
          from repeatsD [OF IH rest put F] have rest': "selectPath F n path (di_Value d) (gm_put dg d sel) = Inr sel'"
            and "grows (gm_put dg d sel) F" using F by (auto simp: places_from_def intro: grows_trans)
          from growsD [OF this(2), of dg d] have "gm_get F dg = Some d" by simp
          with first_named_fewer(2) [OF assms(1) Some [unfolded p]] rest' obj None show ?thesis by (simp add: selectMember_def)
        qed (use run obj None first_named_fewer(1) [OF assms(1)] in \<open>simp add: selectMember_def\<close>)
      qed
    qed
  next
    case CAll
    show ?thesis unfolding CAll repeats_def
    proof (intro allI impI conjI)
      fix v sel sel'
      assume run: "selectPath B n (CAll # path) v sel = Inr sel'" and sel: "placed anywhere B sel" and F: "grows sel' F"
      show "places_from anywhere B sel sel'" using adding.selectPath_placed [OF assms(2) run sel] by simp
      from run obtain arr where arr: "v = GArr arr" by (auto simp: selectElements_def split: option.splits)
      with run have "select_walkable B path (selectPath B n path) (resolveElements B arr) sel = Inr sel'" by (simp add: selectElements_def)
      from select_walkable_repeats [OF assms(1,2) IH _ this sel F] adding.selectPath_placed [OF assms(2)] arr
      show "selectPath F n (CAll # path) v sel = Inr sel'" by (simp add: selectElements_def)
    qed
  qed (use Cons.prems in \<open>simp_all add: repeats_def\<close>)
qed

lemma select_paths_grows:
  assumes "gm_get B [] = None"
  shows "select_paths B node paths sel = Inr sel' \<Longrightarrow> placed anywhere B sel \<Longrightarrow> grows sel sel'"
proof (induction paths arbitrary: sel)
  case (Cons p ps)
  then obtain sel1 where one: "selectPath B (length B) p node sel = Inr sel1"
    and rest: "select_paths B node ps sel1 = Inr sel'" by (auto simp: rbind_Inr_iff)
  from adding.selectPath_placed [OF assms one Cons.prems(2)] Cons.IH [OF rest] show ?case
    by (auto simp: places_from_def intro: grows_trans)
qed simp

lemma fewer_length: "fewer F B \<Longrightarrow> gm_ok F \<Longrightarrow> length F \<le> length B"
proof -
  assume "fewer F B" "gm_ok F"
  then have "set (map fst F) \<subseteq> set (map fst B)" "distinct (map fst F)"
    by (auto simp: fewer_def gm_ok_def dom_map_of_conv_image_fst [symmetric])
  then show ?thesis by (metis card_length card_mono distinct_card finite_set length_map order_trans)
qed

lemma select_paths_repeats:
  assumes "fewer F B" and "gm_get B [] = None" and "gm_ok F"
  shows "select_paths B node paths sel = Inr sel' \<Longrightarrow> placed anywhere B sel \<Longrightarrow> grows sel' F \<Longrightarrow> list_all indexless paths \<Longrightarrow>
    select_paths F node paths sel = Inr sel'"
proof (induction paths arbitrary: sel)
  case (Cons p ps)
  from Cons.prems(1) obtain sel1 where one: "selectPath B (length B) p node sel = Inr sel1"
    and rest: "select_paths B node ps sel1 = Inr sel'" by (auto simp: rbind_Inr_iff)
  from adding.selectPath_placed [OF assms(2) one Cons.prems(2)] have sel1: "placed anywhere B sel1" by (simp add: places_from_def)
  have "grows sel1 sel'" using select_paths_grows [OF assms(2) rest sel1] .
  then have "grows sel1 F" using Cons.prems(3) by (rule grows_trans)
  from repeatsD [OF selectPath_repeats [OF assms(1,2)] one Cons.prems(2) this] Cons.prems(4)
  have big: "selectPath F (length B) p node sel = Inr sel1" by simp
  have "length F \<le> length B" using fewer_length [OF assms(1,3)] .
  from extendsD [OF selectPath_extends [OF this] selectPath_never_short [OF order_refl]] big
  have "selectPath F (length F) p node sel = Inr sel1" by metis
  with Cons.IH [OF rest sel1 Cons.prems(3)] Cons.prems(4) show ?case by simp
qed simp

lemma selects_the_same:
  assumes "SelectDisclosuresAt h payload alg all paths = Inr out" and "list_all indexless paths" and "\<forall>a s. h a s \<noteq> []"
  shows "SelectDisclosuresAt h payload alg out paths = Inr out"
proof -
  obtain B sel where B: "by_digest_of h alg all [] = Inr B" and run: "select_paths B (GObj payload) paths [] = Inr sel"
    and out: "out = map snd sel"
    using assms(1) by (auto simp: SelectDisclosuresAt_def rbind_Inr_iff rmap_Inr_iff)
  have held: "Digest h alg d = Inr dg" if "gm_get B dg = Some d" for dg d
    using by_digest_of_Inr [OF B that] by simp
  have nil: "gm_get B [] = None"
  proof (cases "gm_get B []")
    case (Some d)
    with held [OF Some] assms(3) show ?thesis by (auto simp: Digest_def hashString_def split: if_splits)
  qed
  have "placed anywhere B []" by (simp add: placed_def)
  then have "placed anywhere B sel" using adding.select_paths_placed [OF nil run] by simp
  then have ok: "gm_ok sel" and few: "fewer sel B" by (simp_all add: placed_anywhere)
  have "\<forall>(dg, d) \<in> set sel. Digest h alg d = Inr dg"
    using ok fewerD [OF few] held by (auto simp: gm_ok_def)
  from index_selection [of "[]", OF _ this] ok have "by_digest_of h alg out [] = Inr sel"
    by (intro index_is_by_digest) (simp add: out gm_ok_def)
  moreover have "select_paths sel (GObj payload) paths [] = Inr sel"
    using select_paths_repeats [OF few nil ok run \<open>placed anywhere B []\<close> grows_refl assms(2)] .
  ultimately show ?thesis by (simp add: SelectDisclosuresAt_def out rmap_Inr_iff)
qed

section \<open>What the paths select\<close>

fun component_of :: "path_element \<Rightarrow> component" where
  "component_of (PathKey k) = CKey k"
| "component_of (PathIndex i) = CIndex i"
| "component_of Wildcard = CAll"

text \<open>Every value a step of the path is taken from has the shape for it.\<close>

fun fits_path :: "path \<Rightarrow> goval \<Rightarrow> bool" where
  "fits_path [] v = True"
| "fits_path (e # es) v = (shaped e v \<and> (\<forall>c \<in> set (children e v). fits_path es c))"

lemma shapes_fit: "shapes_ok p vs \<longleftrightarrow> (\<forall>v \<in> set vs. fits_path p v)"
  by (induction p arbitrary: vs) (auto simp: shapes_ok_Cons)

lemma indexless_components: "indexless (map component_of p) \<longleftrightarrow> (\<forall>e \<in> set p. \<not> IsIndex e)"
proof (induction p)
  case (Cons e p)
  then show ?case by (cases e) auto
qed simp

lemma first_named_None:
  "first_named B key dgs = None \<Longrightarrow> dg \<in> set dgs \<Longrightarrow> gm_get B dg = Some d \<Longrightarrow> IsArrayElement d \<or> di_Name d \<noteq> key"
  by (induction dgs) (auto split: option.splits if_splits)

lemma first_named_name: "first_named B key dgs = Some (dg, d) \<Longrightarrow> \<not> IsArrayElement d \<and> di_Name d = key"
  by (induction dgs) (auto split: option.splits if_splits)

lemma processed_members:
  assumes "processed B (GObj m) r" and "resolvable B (Suc n) outer (GObj m)" and "names_allowed B"
  obtains out where "r = GObj out"
    and "\<And>k w. gm_get m k = Some w \<Longrightarrow> own_name k \<Longrightarrow> \<exists>x. gm_get out k = Some x \<and> processed B w x"
    and "\<And>dg d. dg \<in> set (sd_digests m) \<Longrightarrow> gm_get B dg = Some d \<Longrightarrow> \<not> IsArrayElement d \<Longrightarrow>
      \<exists>x. gm_get out (di_Name d) = Some x \<and> processed B (di_Value d) x"
    and "\<And>k. gm_get out k \<noteq> None \<Longrightarrow> own_name k \<and> (gm_get m k \<noteq> None \<or>
      (\<exists>dg d. dg \<in> set (sd_digests m) \<and> gm_get B dg = Some d \<and> \<not> IsArrayElement d \<and> di_Name d = k))"
proof -
  have "sd_shape B (resolvable B n False) m" using assms(2) by simp
  then have distinct: "sd_digests m \<noteq> [] \<Longrightarrow> distinct (own_names m @ disclosed_names B (sd_digests m))"
    by (auto simp: sd_shape_def sd_digests_def split: option.splits)
  have name: "di_Name d \<in> set (disclosed_names B (sd_digests m))" if "dg \<in> set (sd_digests m)" "gm_get B dg = Some d" for dg d
    using that by (force simp: disclosed_names_def List.map_filter_def)
  from assms(1) obtain out where r: "r = GObj out"
    and has: "\<And>k x. gm_get out k = Some x \<Longrightarrow>
      (own_name k \<and> (\<exists>w. gm_get m k = Some w \<and> processed B w x)) \<or>
      (\<exists>dg d. dg \<in> set (sd_digests m) \<and> gm_get B dg = Some d \<and> \<not> IsArrayElement d \<and> di_Name d = k \<and>
        (own_name k \<longrightarrow> gm_get m k = None) \<and> processed B (di_Value d) x)"
    and keeps: "\<And>k. own_name k \<Longrightarrow> gm_get m k \<noteq> None \<Longrightarrow> gm_get out k \<noteq> None"
    and gains: "\<And>dg d. dg \<in> set (sd_digests m) \<Longrightarrow> gm_get B dg = Some d \<Longrightarrow> gm_get out (di_Name d) \<noteq> None"
    by (rule processed_objE) (auto simp: is_scalar_def)
  show thesis
  proof (rule that [OF r])
    fix k w assume w: "gm_get m k = Some w" "own_name k"
    with keeps obtain x where x: "gm_get out k = Some x" by blast
    with has [OF x] w show "\<exists>x. gm_get out k = Some x \<and> processed B w x" by auto
  next
    fix dg d assume d: "dg \<in> set (sd_digests m)" "gm_get B dg = Some d" "\<not> IsArrayElement d"
    with gains obtain x where x: "gm_get out (di_Name d) = Some x" by blast
    from d(1) have dist: "distinct (own_names m @ disclosed_names B (sd_digests m))" by (intro distinct) auto
    from has [OF x] show "\<exists>x. gm_get out (di_Name d) = Some x \<and> processed B (di_Value d) x"
    proof (elim disjE exE conjE)
      fix w assume "own_name (di_Name d)" "gm_get m (di_Name d) = Some w"
      then have "di_Name d \<in> set (own_names m)" by (force simp: own_names_def dest: map_of_SomeD)
      with dist name [OF d(1,2)] show ?thesis by auto
    next
      fix dg2 d2 assume d2: "dg2 \<in> set (sd_digests m)" "gm_get B dg2 = Some d2" "di_Name d2 = di_Name d" "processed B (di_Value d2) x"
      have "distinct (List.map_filter (\<lambda>dg. map_option di_Name (gm_get B dg)) (sd_digests m))"
        using dist by (simp add: disclosed_names_def)
      from distinct_map_filter_inj [OF this d2(1) d(1), of "di_Name d"] d2 d have "dg2 = dg" by simp
      with d2 d x show ?thesis by simp
    qed
  next
    fix k assume "gm_get out k \<noteq> None"
    then obtain x where "gm_get out k = Some x" by blast
    from has [OF this] assms(3) show "own_name k \<and> (gm_get m k \<noteq> None \<or>
      (\<exists>dg d. dg \<in> set (sd_digests m) \<and> gm_get B dg = Some d \<and> \<not> IsArrayElement d \<and> di_Name d = k))"
      unfolding names_allowed_def by blast
  qed
qed

lemma processed_kind:
  "processed B v (GObj out) \<Longrightarrow> \<exists>m. v = GObj m" "processed B v (GArr rs) \<Longrightarrow> \<exists>els. v = GArr els"
  by (erule processed.cases; auto simp: is_scalar_def)+

lemma fits_walkable:
  assumes "fits_path es x" and "processed B v x" and "\<forall>e \<in> set es. \<not> IsIndex e"
  shows "walkable v (map component_of es)"
proof (cases es)
  case (Cons e rest)
  have shaped: "shaped e x" using assms(1) by (simp add: Cons)
  show ?thesis
  proof (cases e)
    case (PathKey k)
    with shaped obtain out where "x = GObj out" by (cases x) simp_all
    with processed_kind(1) assms(2) obtain m where "v = GObj m" by blast
    with Cons PathKey show ?thesis by (simp add: walkable_def)
  next
    case Wildcard
    with shaped obtain out where "x = GArr out" by (cases x) simp_all
    with processed_kind(2) assms(2) obtain els where "v = GArr els" by blast
    with Cons Wildcard show ?thesis by (simp add: walkable_def)
  qed (use assms(3) Cons in simp)
qed (simp add: walkable_def)

lemma asked_elements:
  assumes IH: "\<And>v r' r s s'. resolvable B n False v \<Longrightarrow> processed F v r' \<Longrightarrow> processed B v r \<Longrightarrow>
      f v s = Inr s' \<Longrightarrow> placed anywhere B s \<Longrightarrow> grows s' F \<Longrightarrow> fits_path es r \<Longrightarrow>
      fits_path es r' \<and> list_all2 part_of (values_at es r') (values_at es r)"
    and add: "\<And>v s s'. f v s = Inr s' \<Longrightarrow> placed anywhere B s \<Longrightarrow> places_from anywhere B s s'"
    and "fewer F B" and "gm_get B [] = None" and idx: "\<forall>e \<in> set es. \<not> IsIndex e"
  shows "processed_elements F els rs' \<Longrightarrow> processed_elements B els rs \<Longrightarrow>
    select_walkable B (map component_of es) f (resolveElements B els) s = Inr s' \<Longrightarrow> placed anywhere B s \<Longrightarrow> grows s' F \<Longrightarrow>
    \<forall>r \<in> set rs. fits_path es r \<Longrightarrow> list_all (ref_shape B (resolvable B n False)) els \<Longrightarrow>
    (\<forall>r \<in> set rs'. fits_path es r) \<and> list_all2 part_of (concat (map (values_at es) rs')) (concat (map (values_at es) rs))"
proof (induction els arbitrary: rs' rs s)
  case Nil
  then show ?case by (auto elim!: elements_NilE)
next
  case (Cons el els)
  let ?w = "select_walkable B (map component_of es) f (resolveElements B els)"
  have later: "grows s1 s'" if "?w s1 = Inr s'" "placed anywhere B s1" for s1
    using adding.select_walkable_placed [OF add assms(4) order_refl _ that(2,1)] by (simp add: places_from_def)
  have step: "(\<forall>r \<in> set (x' # rs1'). fits_path es r) \<and> list_all2 part_of (concat (map (values_at es) (x' # rs1'))) (concat (map (values_at es) (x # rs1)))
      \<and> grows s0 F"
    if run: "rbind (f v s0) ?w = Inr s'" and s0: "placed anywhere B s0" and v: "resolvable B n False v"
      and p: "grows s0 F \<Longrightarrow> processed F v x'" "processed B v x" "processed_elements F els rs1'" "processed_elements B els rs1"
      and fit: "\<forall>r \<in> set (x # rs1). fits_path es r" for v s0 x x' rs1 rs1'
  proof -
    from run obtain s1 where one: "f v s0 = Inr s1" and rest: "?w s1 = Inr s'" by (auto simp: rbind_Inr_iff)
    have s1: "placed anywhere B s1" "grows s0 s1" using add [OF one s0] by (simp_all add: places_from_def)
    have F: "grows s1 F" "grows s0 F" using later [OF rest s1(1)] Cons.prems(5) s1(2) by (auto intro: grows_trans)
    have "(\<forall>r \<in> set rs1'. fits_path es r) \<and> list_all2 part_of (concat (map (values_at es) rs1')) (concat (map (values_at es) rs1))"
      using Cons.IH [OF p(3,4) rest s1(1) Cons.prems(5)] fit Cons.prems(7) by simp
    with IH [OF v p(1) [OF F(2)] p(2) one s0 F(1)] fit F(2) show ?thesis by (auto intro: list_all2_appendI)
  qed
  from Cons.prems(2) consider
      dg where "ref_value el = Some (GStr dg)" "gm_get B dg = None" "processed_elements B els rs"
    | dg d r rs1 where "rs = r # rs1" "ref_value el = Some (GStr dg)" "gm_get B dg = Some d" "IsArrayElement d"
        "processed B (di_Value d) r" "processed_elements B els rs1"
    | r rs1 where "rs = r # rs1" "ref_value el = None" "processed B el r" "processed_elements B els rs1"
    by (rule elements_ConsE) blast+
  then show ?case
  proof cases
    case (1 dg)
    then have ref: "disclosureRefDigest el = Some dg" by (simp add: disclosureRefDigest_iff)
    have "gm_get F dg = None" using fewerD [OF assms(3), of dg] 1(2) by (cases "gm_get F dg") auto
    then have "processed_elements F els rs'" using Cons.prems(1) 1(1) by (auto elim: elements_ConsE)
    with Cons 1 ref show ?thesis by simp
  next
    case (2 dg d r rs1)
    have ref: "disclosureRefDigest el = Some dg" using 2(2) by (simp add: disclosureRefDigest_iff)
    have ne: "dg \<noteq> []" using 2(3) assms(4) by auto
    have v: "resolvable B n False (di_Value d)" using Cons.prems(7) 2(2,3) by (simp add: ref_shape_def)
    have "walkable (di_Value d) (map component_of es)" using fits_walkable [OF _ 2(5) idx] Cons.prems(6) 2(1) by simp
    with Cons.prems(3) ref 2(3) ne have run: "rbind (f (di_Value d) (gm_put dg d s)) ?w = Inr s'" by (simp add: selectElement_def)
    have put: "placed anywhere B (gm_put dg d s)" using adding.put_placed(1) [OF Cons.prems(4) 2(3)] by (simp add: places_from_def)
    obtain s1 where s1: "f (di_Value d) (gm_put dg d s) = Inr s1" "?w s1 = Inr s'" using run by (auto simp: rbind_Inr_iff)
    from add [OF s1(1) put] later [OF s1(2)] Cons.prems(5)
    have "grows (gm_put dg d s) F" by (auto simp: places_from_def intro: grows_trans)
    from growsD [OF this, of dg d] have "gm_get F dg = Some d" by simp
    then obtain r' rs1' where r': "rs' = r' # rs1'" "processed F (di_Value d) r'" "processed_elements F els rs1'"
      using Cons.prems(1) 2(2) by (auto elim: elements_ConsE)
    from step [OF run put v r'(2) 2(5) r'(3) 2(6)] Cons.prems(6) show ?thesis by (simp add: r'(1) 2(1))
  next
    case (3 r rs1)
    have ref: "disclosureRefDigest el = None" using 3(2) by (simp add: disclosureRefDigest_def)
    have v: "resolvable B n False el" using Cons.prems(7) 3(2) by (simp add: ref_shape_def)
    have "walkable el (map component_of es)" using fits_walkable [OF _ 3(3) idx] Cons.prems(6) 3(1) by simp
    with Cons.prems(3) ref have run: "rbind (f el s) ?w = Inr s'" by (simp add: selectElement_def)
    obtain r' rs1' where r': "rs' = r' # rs1'" "processed F el r'" "processed_elements F els rs1'"
      using Cons.prems(1) 3(2) by (auto elim: elements_ConsE)
    from step [OF run Cons.prems(4) v r'(2) 3(3) r'(3) 3(4)] Cons.prems(6) show ?thesis by (simp add: r'(1) 3(1))
  qed
qed

lemma asked_values:
  assumes "fewer F B" and "gm_get B [] = None" and "names_allowed B"
  shows "\<forall>e \<in> set p. \<not> IsIndex e \<Longrightarrow> resolvable B n outer v \<Longrightarrow> processed F v r' \<Longrightarrow> processed B v r \<Longrightarrow>
    selectPath B fuel (map component_of p) v s = Inr s' \<Longrightarrow> placed anywhere B s \<Longrightarrow> grows s' F \<Longrightarrow> fits_path p r \<Longrightarrow>
    fits_path p r' \<and> list_all2 part_of (values_at p r') (values_at p r)"
proof (induction p arbitrary: n outer v r' r s s')
  case Nil
  with processed_part [OF assms(1) Nil(2-4)] show ?case by simp
next
  case (Cons e es)
  have names: "names_allowed F" using assms(1,3) by (auto simp: names_allowed_def fewer_def)
  have idx: "\<forall>e \<in> set es. \<not> IsIndex e" using Cons.prems(1) by simp
  obtain n' where n: "n = Suc n'" using Cons.prems(2) by (cases n) auto
  note shape = Cons.prems(2) [unfolded n]
  show ?case
  proof (cases e)
    case (PathKey k)
    with Cons.prems(8) obtain x where "r = GObj x" by auto
    with Cons.prems(4) processed_kind(1) obtain m where v: "v = GObj m" by blast
    from processed_members [OF Cons.prems(4) [unfolded v] shape [unfolded v] assms(3)] obtain out where out: "r = GObj out"
      "\<And>k w. gm_get m k = Some w \<Longrightarrow> own_name k \<Longrightarrow> \<exists>x. gm_get out k = Some x \<and> processed B w x"
      "\<And>dg d. dg \<in> set (sd_digests m) \<Longrightarrow> gm_get B dg = Some d \<Longrightarrow> \<not> IsArrayElement d \<Longrightarrow>
        \<exists>x. gm_get out (di_Name d) = Some x \<and> processed B (di_Value d) x"
      "\<And>k. gm_get out k \<noteq> None \<Longrightarrow> own_name k \<and> (gm_get m k \<noteq> None \<or>
        (\<exists>dg d. dg \<in> set (sd_digests m) \<and> gm_get B dg = Some d \<and> \<not> IsArrayElement d \<and> di_Name d = k))" by blast
    from processed_members [OF Cons.prems(3) [unfolded v] resolvable_fewer [OF assms(1) shape [unfolded v]] names] obtain out' where out': "r' = GObj out'"
      "\<And>k w. gm_get m k = Some w \<Longrightarrow> own_name k \<Longrightarrow> \<exists>x. gm_get out' k = Some x \<and> processed F w x"
      "\<And>dg d. dg \<in> set (sd_digests m) \<Longrightarrow> gm_get F dg = Some d \<Longrightarrow> \<not> IsArrayElement d \<Longrightarrow>
        \<exists>x. gm_get out' (di_Name d) = Some x \<and> processed F (di_Value d) x"
      "\<And>k. gm_get out' k \<noteq> None \<Longrightarrow> own_name k \<and> (gm_get m k \<noteq> None \<or>
        (\<exists>dg d. dg \<in> set (sd_digests m) \<and> gm_get F dg = Some d \<and> \<not> IsArrayElement d \<and> di_Name d = k))" by blast
    have absent: ?thesis if "gm_get out k = None" "gm_get out' k = None" using that PathKey out(1) out'(1) by simp
    show ?thesis
    proof (cases "gm_get m k")
      case (Some child)
      show ?thesis
      proof (cases "own_name k")
        case True
        from out(2) [OF Some True] out'(2) [OF Some True] obtain x x' where x: "gm_get out k = Some x" "processed B child x"
          "gm_get out' k = Some x'" "processed F child x'" by blast
        have run: "selectPath B fuel (map component_of es) child s = Inr s'"
          using Cons.prems(5) Some PathKey v by (simp add: selectMember_def)
        have "resolvable B n' False child" using shape v map_of_SomeD [OF Some] True by (auto simp: list_all_iff)
        from Cons.IH [OF idx this x(4,2) run Cons.prems(6,7)] Cons.prems(8) x PathKey out(1) out'(1) show ?thesis by simp
      qed (use absent out(4) [of k] out'(4) [of k] in blast)
    next
      case None
      show ?thesis
      proof (cases "first_named B k (sd_digests m)")
        case (Some q)
        obtain dg d where q: "q = (dg, d)" by (cases q)
        from first_named_Some [OF Some [unfolded q]] first_named_name [OF Some [unfolded q]]
        have d: "dg \<in> set (sd_digests m)" "gm_get B dg = Some d" "\<not> IsArrayElement d" "di_Name d = k" by simp_all
        have run: "selectPath B fuel (map component_of es) (di_Value d) (gm_put dg d s) = Inr s'"
          using Cons.prems(5) None Some q PathKey v by (simp add: selectMember_def)
        have put: "placed anywhere B (gm_put dg d s)" using adding.put_placed(1) [OF Cons.prems(6) d(2)] by (simp add: places_from_def)
        from adding.selectPath_placed [OF assms(2) run put] Cons.prems(7) have "grows (gm_put dg d s) F"
          by (auto simp: places_from_def intro: grows_trans)
        from growsD [OF this, of dg d] have F: "gm_get F dg = Some d" by simp
        from out(3) [OF d(1-3)] out'(3) [OF d(1) F d(3)] d(4) obtain x x' where x: "gm_get out k = Some x" "processed B (di_Value d) x"
          "gm_get out' k = Some x'" "processed F (di_Value d) x'" by blast
        have "sd_shape B (resolvable B n' False) m" using shape v by simp
        with d(1,2) have "resolvable B n' False (di_Value d)"
          by (auto simp: sd_shape_def sd_digests_def list_all_iff split: option.splits)
        from Cons.IH [OF idx this x(4,2) run put Cons.prems(7)] Cons.prems(8) x PathKey out(1) out'(1) show ?thesis by simp
      next
        case no: None
        have "gm_get out k = None" using out(4) [of k] None first_named_None [OF no] by blast
        moreover have "gm_get out' k = None" using out'(4) [of k] None first_named_None [OF no] fewerD [OF assms(1)] by blast
        ultimately show ?thesis by (rule absent)
      qed
    qed
  next
    case Wildcard
    with Cons.prems(8) obtain x where "r = GArr x" by auto
    with Cons.prems(4) processed_kind(2) obtain els where v: "v = GArr els" by blast
    obtain rs where r: "r = GArr rs" "processed_elements B els rs"
      using Cons.prems(4) unfolding v by (rule processed_arrE) (auto simp: is_scalar_def)
    obtain rs' where r': "r' = GArr rs'" "processed_elements F els rs'"
      using Cons.prems(3) unfolding v by (rule processed_arrE) (auto simp: is_scalar_def)
    have run: "select_walkable B (map component_of es) (selectPath B fuel (map component_of es)) (resolveElements B els) s = Inr s'"
      using Cons.prems(5) Wildcard v by (simp add: selectElements_def)
    have "list_all (ref_shape B (resolvable B n' False)) els" using shape v by simp
    with asked_elements [where f = "selectPath B fuel (map component_of es)", OF Cons.IH [OF idx] _ assms(1,2) idx r'(2) r(2) run Cons.prems(6,7)]
      adding.selectPath_placed [OF assms(2)] Cons.prems(8) r(1) r'(1) Wildcard
    show ?thesis by simp
  qed (use Cons.prems(1) in simp)
qed

lemma select_paths_step:
  assumes "gm_get B [] = None"
  shows "select_paths B node paths s = Inr s' \<Longrightarrow> placed anywhere B s \<Longrightarrow> p \<in> set paths \<Longrightarrow>
    \<exists>s1 s2. selectPath B (length B) p node s1 = Inr s2 \<and> placed anywhere B s1 \<and> grows s2 s'"
proof (induction paths arbitrary: s)
  case (Cons q ps)
  then obtain s1 where one: "selectPath B (length B) q node s = Inr s1" and rest: "select_paths B node ps s1 = Inr s'"
    by (auto simp: rbind_Inr_iff)
  from adding.selectPath_placed [OF assms one Cons.prems(2)] have s1: "placed anywhere B s1" by (simp add: places_from_def)
  from Cons.IH [OF rest s1] Cons.prems(2,3) one select_paths_grows [OF assms rest s1] show ?case by auto
qed simp

section \<open>Properties\<close>

text \<open>C35: what a Holder withholds does not hurt. Of a credential that resolves, the Disclosures selected for any paths
  resolve without the others, none of them unused, to a part of the claims; and what a path without array indices selects
  of the claims it still selects, each value in part or, a scalar, whole.\<close>

theorem withheld_keeps_asked:
  assumes "ResolveDisclosures h payload alg all = Inr cs"
    and "SelectDisclosuresAt h payload alg all (map (map component_of) paths) = Inr out"
    and "goval_ok (GObj payload)" and "\<forall>d \<in> set all. goval_ok (di_Value d) \<and> (IsArrayElement d \<or> own_name (di_Name d))"
    and "\<forall>a s. h a s \<noteq> []" and "PayloadHashAlg payload fallback = Inr alg"
  shows "\<exists>cs'. ResolveDisclosures h payload alg out = Inr cs' \<and> part_of (GObj cs') (GObj cs) \<and>
    (\<forall>p \<in> set paths. \<forall>vs. (\<forall>e \<in> set p. \<not> IsIndex e) \<longrightarrow> Path_Select p (GObj cs) = Inr vs \<longrightarrow>
      (\<exists>vs'. Path_Select p (GObj cs') = Inr vs' \<and> list_all2 part_of vs' vs))"
proof -
  have ok: "\<forall>d \<in> set all. goval_ok (di_Value d)" using assms(4) by blast
  obtain B sel where B: "index_disclosures h alg all [] = Inr B" and run: "select_paths B (GObj payload) (map (map component_of) paths) [] = Inr sel"
    and out: "out = map snd sel" and sel: "index_disclosures h alg out [] = Inr sel" and few: "fewer sel B" and gok: "gm_ok sel"
    and root: "root_ok B 33 payload"
    using selection_standing [OF assms(1,2,3) ok assms(5,6)] by metis
  obtain cs' where cs': "ResolveDisclosures h payload alg out = Inr cs'" and part: "part_of (GObj cs') (GObj cs)"
    using withheld_resolves [OF assms(1,2,3) ok assms(5,6)] by blast
  have held: "d \<in> set all \<and> Digest h alg d = Inr dg" if "gm_get B dg = Some d" for dg d
    using index_disclosures [OF B] that by simp
  have nil: "gm_get B [] = None"
  proof (cases "gm_get B []")
    case (Some d)
    with held [OF Some] assms(5) show ?thesis by (auto simp: Digest_def hashString_def split: if_splits)
  qed
  have names: "names_allowed B" using held assms(4) by (auto simp: names_allowed_def)
  have out_ok: "\<forall>d \<in> set out. goval_ok (di_Value d)"
    using gm_ok_values [OF gok] fewerD [OF few] held ok unfolding out by blast
  note proc = resolved_processed [OF cs' sel assms(3) out_ok] resolved_processed [OF assms(1) B assms(3) ok]
  have "\<exists>vs'. Path_Select p (GObj cs') = Inr vs' \<and> list_all2 part_of vs' vs"
    if p: "p \<in> set paths" "\<forall>e \<in> set p. \<not> IsIndex e" and vs: "Path_Select p (GObj cs) = Inr vs" for p vs
  proof -
    obtain s1 s2 where s: "selectPath B (length B) (map component_of p) (GObj payload) s1 = Inr s2" "placed anywhere B s1" "grows s2 sel"
      using select_paths_step [OF nil run, of "map component_of p"] p(1) by (auto simp: placed_def)
    from vs have vs: "p \<noteq> []" "vs = values_at p (GObj cs)" "vs \<noteq> []" "fits_path p (GObj cs)"
      by (auto simp: Path_Select_iff shapes_fit)
    from root have "resolvable B 33 True (GObj payload)" by (simp add: root_ok_def)
    from asked_values [OF few nil names p(2) this proc s vs(4)] vs(1-3) show ?thesis
      by (auto simp: Path_Select_iff shapes_fit)
  qed
  with cs' part show ?thesis by blast
qed

text \<open>Among what it was presented a Verifier selects, for paths without array indices, all of it: asked in the
  order the Holder selected in, no Disclosure is one too many.\<close>

lemma selected_again:
  assumes "SelectDisclosuresAt h payload alg all paths = Inr out" and "list_all indexless paths" and "\<forall>a s. h a s \<noteq> []"
  shows "SelectDisclosuresAt h payload alg out paths = Inr out"
  using assms by (rule selects_the_same)

text \<open>The hypotheses at an input: the claims of \<open>nested_claims\<close>, of which one is asked for.\<close>

definition asked_path :: path where
  "asked_path = [PathKey ''addr'', PathKey ''x'', PathKey ''y'']"

lemma nested_asked:
  "ResolveDisclosures copying_hash nested_payload SHA256 nested_claims =
     Inr [(''addr'', GObj [(''x'', GObj [(''y'', GBool True), (''z'', GBool True)])])]"
  "SelectDisclosuresAt copying_hash nested_payload SHA256 nested_claims (map (map component_of) [asked_path]) = Inr (take 3 nested_claims)"
  "ResolveDisclosures copying_hash nested_payload SHA256 (take 3 nested_claims) =
     Inr [(''addr'', GObj [(''x'', GObj [(''y'', GBool True)])])]"
  by code_simp+

lemma nested_fits:
  "goval_ok (GObj nested_payload)" "\<forall>d \<in> set nested_claims. goval_ok (di_Value d) \<and> (IsArrayElement d \<or> own_name (di_Name d))"
  "\<forall>a s. copying_hash a s \<noteq> []" "PayloadHashAlg nested_payload SHA256 = Inr SHA256"
  "Path_Select asked_path (GObj [(''addr'', GObj [(''x'', GObj [(''y'', GBool True), (''z'', GBool True)])])]) = Inr [GBool True]"
  by (simp_all add: nested_payload_def nested_claims_def nested_claim_def own_name_def copying_hash_def PayloadHashAlg_def
      asked_path_def Path_Select_def Path_Validate_def selectFrom_def)

theorem withheld_keeps_asked_witness:
  "\<exists>vs'. Path_Select asked_path (GObj [(''addr'', GObj [(''x'', GObj [(''y'', GBool True)])])]) = Inr vs' \<and> list_all2 part_of vs' [GBool True]"
  using withheld_keeps_asked [OF nested_asked(1,2) nested_fits(1-4)] nested_fits(5) nested_asked(3) by (auto simp: asked_path_def)

end
