(* ===== verification/Sdjwt_Seal.thy ===== *)
theory Sdjwt_Seal
  imports Sdjwt_Resolvable Sdjwt_Select "HOL-Library.Char_ord" "HOL-Library.List_Lexorder"
begin

text \<open>
  Sealing a tree of claims, \<open>src/credential/sdjwtvc/markers.go\<close>, with the making of Disclosures in \<open>disclosure.go\<close>.
  The random salts and what the caller's \<open>nestedDecoys\<close> returns are consumed from a state, which an error leaves
  behind; \<open>marshal\<close> is \<open>json.Marshal\<close> of a Disclosure's array. The reflection that sorts other Go values into the
  cases below, \<open>asGeneric\<close>, \<open>hasSDMarker\<close> and \<open>isJSONScalar\<close>, is the constructor a claim is given with.
\<close>

section \<open>Claims with markers\<close>

text \<open>A scalar; an object or array, typed or not; the markers; a value with an encoding of its own, as the tree it encodes
  to, or failing to; and a struct with a marker inside.\<close>

datatype claim =
    CVal goval
  | CObj "(string \<times> claim) list"
  | CArr "claim list"
  | CSD claim
  | CSDElement claim
  | CDecoys claim int
  | CEncoded "claim option"
  | CMarked

datatype seal_error =
    SealDisclosing sd_error
  | RandomFails
  | EncodeFails
  | ReservedClaim string
  | MisplacedMarker
  | DecoyCount int
  | DecoysNeedObject
  | DecoyCallFails

record sealer =
  sl_hash :: hash_fn
  sl_alg :: string
  sl_marshal :: "goval list \<Rightarrow> nat list option"
  sl_nested :: bool

record sealing =
  sg_salts :: "nat list option list"
  sg_counts :: "int option list"

definition MaxDecoys :: int where
  "MaxDecoys = 1000"

definition isReservedName :: "string \<Rightarrow> bool" where
  "isReservedName name = (name = ''_sd'' \<or> name = ''...'' \<or> name = ''_sd_alg'')"

definition newSalt :: "sealing \<Rightarrow> seal_error + string \<times> sealing" where
  "newSalt st =
     (case sg_salts st of
        Some bs # rest \<Rightarrow> Inr (EncodeToString bs, st \<lparr> sg_salts := rest \<rparr>)
      | _ \<Rightarrow> Inl RandomFails)"

definition disclosure_array :: "disclosure \<Rightarrow> goval list" where
  "disclosure_array d =
     (if IsArrayElement d then [GStr (di_Salt d), di_Value d] else [GStr (di_Salt d), GStr (di_Name d), di_Value d])"

definition encodeDisclosure :: "sealer \<Rightarrow> disclosure \<Rightarrow> seal_error + disclosure" where
  "encodeDisclosure s d =
     (case sl_marshal s (disclosure_array d) of
        None \<Rightarrow> Inl EncodeFails
      | Some raw \<Rightarrow> Inr (d \<lparr> di_encoded := EncodeToString raw \<rparr>))"

definition NewObjectDisclosure :: "sealer \<Rightarrow> string \<Rightarrow> goval \<Rightarrow> sealing \<Rightarrow> seal_error + disclosure \<times> sealing" where
  "NewObjectDisclosure s name v st =
     (if name = ''_sd'' \<or> name = ''_sd_alg'' \<or> name = ''...'' then Inl (ReservedClaim name)
      else rbind (newSalt st) (\<lambda>(salt, st).
        rmap (\<lambda>d. (d, st))
          (encodeDisclosure s \<lparr> di_Salt = salt, di_Name = name, di_named = True, di_Value = v, di_encoded = [] \<rparr>)))"

definition NewArrayElementDisclosure :: "sealer \<Rightarrow> goval \<Rightarrow> sealing \<Rightarrow> seal_error + disclosure \<times> sealing" where
  "NewArrayElementDisclosure s v st =
     rbind (newSalt st) (\<lambda>(salt, st).
       rmap (\<lambda>d. (d, st))
         (encodeDisclosure s \<lparr> di_Salt = salt, di_Name = [], di_named = False, di_Value = v, di_encoded = [] \<rparr>))"

definition seal_digest :: "sealer \<Rightarrow> disclosure \<Rightarrow> seal_error + string" where
  "seal_digest s d = wrap_err SealDisclosing (Digest (sl_hash s) (sl_alg s) d)"

primrec newDecoyDigests :: "sealer \<Rightarrow> nat \<Rightarrow> sealing \<Rightarrow> seal_error + string list \<times> sealing" where
  "newDecoyDigests s 0 st = Inr ([], st)"
| "newDecoyDigests s (Suc n) st =
     rbind (newSalt st) (\<lambda>(salt, st).
       rbind (wrap_err SealDisclosing (hashString (sl_hash s) (sl_alg s) salt)) (\<lambda>dg.
         rmap (\<lambda>(dgs, st). (dg # dgs, st)) (newDecoyDigests s n st)))"

text \<open>How many decoys an object gets: its own, and as many more as the caller says where it has an \<open>_sd\<close> at all.\<close>

definition decoy_count :: "sealer \<Rightarrow> bool \<Rightarrow> string list \<Rightarrow> int \<Rightarrow> sealing \<Rightarrow> seal_error + int \<times> sealing" where
  "decoy_count s nested digests decoys st =
     (if nested \<and> sl_nested s \<and> (digests \<noteq> [] \<or> decoys > 0) then
        (case sg_counts st of
           Some n # rest \<Rightarrow>
             (if n < 0 \<or> n > MaxDecoys then Inl (DecoyCount n) else Inr (decoys + n, st \<lparr> sg_counts := rest \<rparr>))
         | _ \<Rightarrow> Inl DecoyCallFails)
      else Inr (decoys, st))"

definition finish_object ::
  "sealer \<Rightarrow> bool \<Rightarrow> int \<Rightarrow> (string, goval) gomap \<Rightarrow> string list \<Rightarrow> sealing \<Rightarrow> seal_error + (string, goval) gomap \<times> sealing" where
  "finish_object s nested decoys out digests st =
     rbind (decoy_count s nested digests decoys st) (\<lambda>(n, st).
       rbind (newDecoyDigests s (nat n) st) (\<lambda>(decoyDigests, st).
         (let digests = digests @ decoyDigests in
          Inr (if digests \<noteq> [] then gm_put ''_sd'' (GArr (map GStr (sort digests))) out else out, st))))"

fun seal :: "sealer \<Rightarrow> claim \<Rightarrow> sealing \<Rightarrow> seal_error + (goval \<times> disclosure list) \<times> sealing"
  and seal_members :: "sealer \<Rightarrow> (string \<times> claim) list \<Rightarrow> sealing
     \<Rightarrow> seal_error + ((string, goval) gomap \<times> string list \<times> disclosure list) \<times> sealing"
  and seal_elements :: "sealer \<Rightarrow> claim list \<Rightarrow> sealing \<Rightarrow> seal_error + (goval list \<times> disclosure list) \<times> sealing" where
  "seal s (CVal v) st = Inr ((v, []), st)"
| "seal s (CObj m) st =
     rbind (seal_members s m st) (\<lambda>((out, digests, ds), st).
       rmap (\<lambda>(out, st). ((GObj out, ds), st)) (finish_object s True 0 out digests st))"
| "seal s (CArr els) st = rmap (\<lambda>((out, ds), st). ((GArr out, ds), st)) (seal_elements s els st)"
| "seal s (CSD c) st = Inl MisplacedMarker"
| "seal s (CSDElement c) st = Inl MisplacedMarker"
| "seal s (CDecoys c n) st =
     (if n < 0 \<or> n > MaxDecoys then Inl (DecoyCount n)
      else (case c of
          CObj m \<Rightarrow>
            rbind (seal_members s m st) (\<lambda>((out, digests, ds), st).
              rmap (\<lambda>(out, st). ((GObj out, ds), st)) (finish_object s True n out digests st))
        | _ \<Rightarrow> Inl DecoysNeedObject))"
| "seal s (CEncoded c) st = (case c of None \<Rightarrow> Inl EncodeFails | Some c \<Rightarrow> seal s c st)"
| "seal s CMarked st = Inl MisplacedMarker"
| "seal_members s [] st = Inr (([], [], []), st)"
| "seal_members s ((k, c) # m) st =
     (if isReservedName k then Inl (ReservedClaim k)
      else (case c of
          CSD w \<Rightarrow>
            rbind (seal s w st) (\<lambda>((sealed, inner), st).
              rbind (NewObjectDisclosure s k sealed st) (\<lambda>(d, st).
                rbind (seal_digest s d) (\<lambda>dg.
                  rmap (\<lambda>((out, digests, ds), st). ((out, dg # digests, d # inner @ ds), st)) (seal_members s m st))))
        | _ \<Rightarrow>
            rbind (seal s c st) (\<lambda>((sealed, inner), st).
              rmap (\<lambda>((out, digests, ds), st). (((k, sealed) # out, digests, inner @ ds), st)) (seal_members s m st))))"
| "seal_elements s [] st = Inr (([], []), st)"
| "seal_elements s (c # cs) st =
     (case c of
        CSDElement w \<Rightarrow>
          rbind (seal s w st) (\<lambda>((sealed, inner), st).
            rbind (NewArrayElementDisclosure s sealed st) (\<lambda>(d, st).
              rbind (seal_digest s d) (\<lambda>dg.
                rmap (\<lambda>((out, ds), st). ((GObj [(''...'', GStr dg)] # out, d # inner @ ds), st)) (seal_elements s cs st))))
      | _ \<Rightarrow>
          rbind (seal s c st) (\<lambda>((sealed, inner), st).
            rmap (\<lambda>((out, ds), st). ((sealed # out, inner @ ds), st)) (seal_elements s cs st)))"

definition sealObject ::
  "sealer \<Rightarrow> (string \<times> claim) list \<Rightarrow> int \<Rightarrow> bool \<Rightarrow> sealing \<Rightarrow> seal_error + ((string, goval) gomap \<times> disclosure list) \<times> sealing" where
  "sealObject s m decoys nested st =
     rbind (seal_members s m st) (\<lambda>((out, digests, ds), st).
       rmap (\<lambda>(out, st). ((out, ds), st)) (finish_object s nested decoys out digests st))"

definition addDecoys :: "sealer \<Rightarrow> int \<Rightarrow> (string, goval) gomap \<Rightarrow> sealing \<Rightarrow> seal_error + (string, goval) gomap \<times> sealing" where
  "addDecoys s n payload st =
     (if n < 0 \<or> n > MaxDecoys then Inl (DecoyCount n)
      else rmap (\<lambda>(decoys, st).
             (gm_put ''_sd'' (GArr (map GStr (sort (sd_digests payload @ decoys)))) payload, st))
           (newDecoyDigests s (nat n) st))"

section \<open>What sealing makes\<close>

text \<open>The names claims are given, each once per object, and scalars where the tree says so; the tree without its markers.\<close>

fun claim_ok :: "claim \<Rightarrow> bool" where
  "claim_ok (CVal v) = (is_scalar v \<and> goval_ok v)"
| "claim_ok (CObj m) = (distinct (map fst m) \<and> (\<forall>kc \<in> set m. claim_ok (snd kc)))"
| "claim_ok (CArr cs) = (\<forall>c \<in> set cs. claim_ok c)"
| "claim_ok (CSD c) = claim_ok c"
| "claim_ok (CSDElement c) = claim_ok c"
| "claim_ok (CDecoys c n) = claim_ok c"
| "claim_ok (CEncoded c) = (case c of None \<Rightarrow> True | Some c \<Rightarrow> claim_ok c)"
| "claim_ok CMarked = True"

fun plain :: "claim \<Rightarrow> goval"
  and plain_members :: "(string \<times> claim) list \<Rightarrow> (string \<times> goval) list"
  and plain_elements :: "claim list \<Rightarrow> goval list" where
  "plain (CVal v) = v"
| "plain (CObj m) = GObj (plain_members m)"
| "plain (CArr cs) = GArr (plain_elements cs)"
| "plain (CSD c) = plain c"
| "plain (CSDElement c) = plain c"
| "plain (CDecoys c n) = plain c"
| "plain (CEncoded c) = (case c of None \<Rightarrow> GNil | Some c \<Rightarrow> plain c)"
| "plain CMarked = GNil"
| "plain_members [] = []"
| "plain_members ((k, c) # m) = (k, plain c) # plain_members m"
| "plain_elements [] = []"
| "plain_elements (c # cs) = plain c # plain_elements cs"

text \<open>How deep a tree nests, markers not counted.\<close>

fun claim_depth :: "claim \<Rightarrow> nat"
  and members_depth :: "(string \<times> claim) list \<Rightarrow> nat"
  and elements_depth :: "claim list \<Rightarrow> nat" where
  "claim_depth (CVal v) = 1"
| "claim_depth (CObj m) = Suc (members_depth m)"
| "claim_depth (CArr cs) = Suc (elements_depth cs)"
| "claim_depth (CSD c) = claim_depth c"
| "claim_depth (CSDElement c) = claim_depth c"
| "claim_depth (CDecoys c n) = claim_depth c"
| "claim_depth (CEncoded c) = (case c of None \<Rightarrow> 1 | Some c \<Rightarrow> claim_depth c)"
| "claim_depth CMarked = 1"
| "members_depth [] = 0"
| "members_depth ((k, c) # m) = max (claim_depth c) (members_depth m)"
| "elements_depth [] = 0"
| "elements_depth (c # cs) = max (claim_depth c) (elements_depth cs)"

definition with_sd :: "string list \<Rightarrow> (string, goval) gomap \<Rightarrow> (string, goval) gomap" where
  "with_sd dgs out = (if dgs \<noteq> [] then gm_put ''_sd'' (GArr (map GStr dgs)) out else out)"

text \<open>A Disclosure that carries its own encoding.\<close>

definition encodes :: "sealer \<Rightarrow> disclosure \<Rightarrow> bool" where
  "encodes s d = (\<exists>raw. sl_marshal s (disclosure_array d) = Some raw \<and> di_encoded d = EncodeToString raw)"

text \<open>An object whose own members are \<open>out\<close> and whose \<open>_sd\<close> holds \<open>dgs\<close>.\<close>

definition carries :: "string list \<Rightarrow> (string, goval) gomap \<Rightarrow> (string, goval) gomap \<Rightarrow> bool" where
  "carries dgs out p =
     (gm_ok p \<and> filter (\<lambda>kv. own_name (fst kv)) p = out \<and>
      (gm_get p ''_sd'' = Some (GArr (map GStr dgs)) \<or> dgs = [] \<and> gm_get p ''_sd'' = None))"

text \<open>A claim, the value it is sealed to, the Disclosures made and the decoys added; for an object's members also the
  digests it gains with their Disclosures.\<close>

inductive sealed :: "sealer \<Rightarrow> claim \<Rightarrow> goval \<Rightarrow> disclosure list \<Rightarrow> string list \<Rightarrow> bool"
  and sealed_members :: "sealer \<Rightarrow> (string \<times> claim) list \<Rightarrow> (string, goval) gomap \<Rightarrow> (string \<times> disclosure) list
     \<Rightarrow> disclosure list \<Rightarrow> string list \<Rightarrow> bool"
  and sealed_elements :: "sealer \<Rightarrow> claim list \<Rightarrow> goval list \<Rightarrow> disclosure list \<Rightarrow> string list \<Rightarrow> bool" for s where
  s_val: "is_scalar v \<Longrightarrow> goval_ok v \<Longrightarrow> sealed s (CVal v) v [] []"
| s_obj: "sealed_members s m out here ds dec \<Longrightarrow> mset dgs = mset (map fst here @ decoys) \<Longrightarrow> carries dgs out p \<Longrightarrow>
    gm_get p ''_sd_alg'' = None \<Longrightarrow> sealed s (CObj m) (GObj p) ds (decoys @ dec)"
| s_arr: "sealed_elements s cs els ds dec \<Longrightarrow> sealed s (CArr cs) (GArr els) ds dec"
| s_decoys: "sealed s (CObj m) v ds dec \<Longrightarrow> sealed s (CDecoys (CObj m) n) v ds dec"
| s_encoded: "sealed s c v ds dec \<Longrightarrow> sealed s (CEncoded (Some c)) v ds dec"
| m_nil: "sealed_members s [] [] [] [] []"
| m_sd: "\<not> isReservedName k \<Longrightarrow> sealed s c v inner dec \<Longrightarrow> di_named d \<Longrightarrow> di_Name d = k \<Longrightarrow> di_Value d = v \<Longrightarrow>
    Digest (sl_hash s) (sl_alg s) d = Inr dg \<Longrightarrow> sealed_members s m out here ds dec' \<Longrightarrow> encodes s d \<Longrightarrow>
    sealed_members s ((k, CSD c) # m) out ((dg, d) # here) (d # inner @ ds) (dec @ dec')"
| m_own: "\<not> isReservedName k \<Longrightarrow> sealed s c v inner dec \<Longrightarrow> sealed_members s m out here ds dec' \<Longrightarrow>
    sealed_members s ((k, c) # m) ((k, v) # out) here (inner @ ds) (dec @ dec')"
| e_nil: "sealed_elements s [] [] [] []"
| e_sd: "sealed s c v inner dec \<Longrightarrow> IsArrayElement d \<Longrightarrow> di_Value d = v \<Longrightarrow>
    Digest (sl_hash s) (sl_alg s) d = Inr dg \<Longrightarrow> sealed_elements s cs els ds dec' \<Longrightarrow> encodes s d \<Longrightarrow> di_Name d = [] \<Longrightarrow>
    sealed_elements s (CSDElement c # cs) (GObj [(''...'', GStr dg)] # els) (d # inner @ ds) (dec @ dec')"
| e_own: "sealed s c v inner dec \<Longrightarrow> sealed_elements s cs els ds dec' \<Longrightarrow>
    sealed_elements s (c # cs) (v # els) (inner @ ds) (dec @ dec')"

lemma encodeDisclosure_Inr:
  "encodeDisclosure s d = Inr d' \<Longrightarrow> encodes s d' \<and> (\<exists>e. d' = d \<lparr> di_encoded := e \<rparr>)"
  by (auto simp: encodeDisclosure_def encodes_def disclosure_array_def IsArrayElement_def split: option.splits)

lemma NewObjectDisclosure_Inr:
  "NewObjectDisclosure s k v st = Inr (d, st') \<Longrightarrow> di_named d \<and> di_Name d = k \<and> di_Value d = v \<and> encodes s d"
  by (auto simp: NewObjectDisclosure_def ok_iffs dest!: encodeDisclosure_Inr)

lemma NewArrayElementDisclosure_Inr:
  "NewArrayElementDisclosure s v st = Inr (d, st') \<Longrightarrow> IsArrayElement d \<and> di_Name d = [] \<and> di_Value d = v \<and> encodes s d"
  by (auto simp: NewArrayElementDisclosure_def ok_iffs IsArrayElement_def dest!: encodeDisclosure_Inr)

lemma seal_digest_Inr: "seal_digest s d = Inr dg \<longleftrightarrow> Digest (sl_hash s) (sl_alg s) d = Inr dg"
  by (simp add: seal_digest_def)

lemma finish_object_Inr:
  assumes "finish_object s nested n out digests st = Inr (out', st')"
  shows "\<exists>dgs decoys. mset dgs = mset (digests @ decoys) \<and> out' = with_sd dgs out"
proof -
  obtain decoys where "out' = (if digests @ decoys \<noteq> [] then gm_put ''_sd'' (GArr (map GStr (sort (digests @ decoys)))) out else out)"
    using assms by (auto simp: finish_object_def Let_def rbind_Inr_iff)
  then have "out' = with_sd (sort (digests @ decoys)) out"
    using length_0_conv [of "sort (digests @ decoys)"] by (auto simp: with_sd_def)
  moreover have "mset (sort (digests @ decoys)) = mset (digests @ decoys)" by (rule mset_sort)
  ultimately show ?thesis by blast
qed

lemma sealed_members_names:
  "sealed_members s m out here ds dec \<Longrightarrow>
     mset (map fst m) = mset (map fst out) + mset (map (di_Name \<circ> snd) here) \<and>
     (\<forall>k \<in> set (map fst m). \<not> isReservedName k) \<and> (\<forall>dd \<in> set here. \<not> IsArrayElement (snd dd))"
proof (induction m arbitrary: out here ds dec)
  case Nil
  then show ?case by (auto elim: sealed_members.cases)
next
  case (Cons a m)
  from Cons.prems show ?case
    by (cases rule: sealed_members.cases) (fastforce dest!: Cons.IH simp: IsArrayElement_def)+
qed

lemma reserved_own: "\<not> isReservedName k \<Longrightarrow> own_name k"
  by (simp add: isReservedName_def own_name_def)

lemma with_sd_carries:
  assumes "gm_ok out" and "\<forall>k \<in> set (map fst out). \<not> isReservedName k"
  shows "carries dgs out (with_sd dgs out)" and "gm_get (with_sd dgs out) ''_sd_alg'' = None"
proof -
  have own: "filter (\<lambda>kv. own_name (fst kv)) out = out"
    using assms(2) by (auto simp: filter_id_conv reserved_own)
  have fresh: "''_sd'' \<notin> fst ` set out" "''_sd_alg'' \<notin> fst ` set out"
    using assms(2) by (auto simp: isReservedName_def)
  show "carries dgs out (with_sd dgs out)"
    using assms(1) own fresh(1) update_fresh [OF fresh(1)]
    by (auto simp: carries_def with_sd_def own_name_def map_of_eq_None_iff gm_ok_def)
  show "gm_get (with_sd dgs out) ''_sd_alg'' = None"
    using fresh(2) by (simp add: with_sd_def map_of_eq_None_iff dom_update)
qed

text \<open>A member or element that is no marker, sealed as itself.\<close>

lemma seal_members_own:
  "\<not> isReservedName k \<Longrightarrow> (\<forall>w. c \<noteq> CSD w) \<Longrightarrow>
     seal_members s ((k, c) # m) st =
       rbind (seal s c st) (\<lambda>((sealed, inner), st).
         rmap (\<lambda>((out, digests, ds), st). (((k, sealed) # out, digests, inner @ ds), st)) (seal_members s m st))"
  by (cases c) auto

lemma seal_elements_own:
  "(\<forall>w. c \<noteq> CSDElement w) \<Longrightarrow>
     seal_elements s (c # cs) st =
       rbind (seal s c st) (\<lambda>((sealed, inner), st).
         rmap (\<lambda>((out, ds), st). ((sealed # out, inner @ ds), st)) (seal_elements s cs st))"
  by (cases c) auto

lemma object_sealed:
  assumes "finish_object s nested n out (map fst here) st = Inr (p, st')" and "sealed_members s m out here ds dec"
    and "distinct (map fst m)"
  shows "\<exists>dec. sealed s (CObj m) (GObj p) ds dec"
proof -
  obtain dgs decoys where dgs: "mset dgs = mset (map fst here @ decoys)" and p: "p = with_sd dgs out"
    using finish_object_Inr [OF assms(1)] by blast
  have names: "mset (map fst m) = mset (map fst out) + mset (map (di_Name \<circ> snd) here)"
    "\<forall>k \<in> set (map fst m). \<not> isReservedName k"
    using sealed_members_names [OF assms(2)] by blast+
  have "mset (map fst m) = mset (map fst out @ map (di_Name \<circ> snd) here)" using names(1) by simp
  then have ok: "gm_ok out" and sub: "set (map fst out) \<subseteq> set (map fst m)"
    using assms(3) unfolding gm_ok_def by (metis distinct_append mset_eq_imp_distinct_iff, metis mset_eq_setD set_append Un_upper1)
  then have "\<forall>k \<in> set (map fst out). \<not> isReservedName k" using names(2) by blast
  from with_sd_carries [OF ok this, of dgs] s_obj [OF assms(2) dgs] show ?thesis unfolding p by blast
qed

text \<open>What sealing a claim, members or elements establishes.\<close>

definition seals :: "sealer \<Rightarrow> claim \<Rightarrow> bool" where
  "seals s c = (\<forall>st v ds st'. seal s c st = Inr ((v, ds), st') \<longrightarrow> claim_ok c \<longrightarrow> (\<exists>dec. sealed s c v ds dec))"

definition seals_members :: "sealer \<Rightarrow> (string \<times> claim) list \<Rightarrow> bool" where
  "seals_members s m =
     (\<forall>st out digests ds st'. seal_members s m st = Inr ((out, digests, ds), st') \<longrightarrow>
        (\<forall>kc \<in> set m. claim_ok (snd kc)) \<longrightarrow> (\<exists>here dec. digests = map fst here \<and> sealed_members s m out here ds dec))"

definition seals_elements :: "sealer \<Rightarrow> claim list \<Rightarrow> bool" where
  "seals_elements s cs =
     (\<forall>st els ds st'. seal_elements s cs st = Inr ((els, ds), st') \<longrightarrow> (\<forall>c \<in> set cs. claim_ok c) \<longrightarrow>
        (\<exists>dec. sealed_elements s cs els ds dec))"

definition seals_inside :: "sealer \<Rightarrow> claim \<Rightarrow> bool" where
  "seals_inside s c =
     (case c of CObj m \<Rightarrow> seals_members s m | CSD w \<Rightarrow> seals s w | CSDElement w \<Rightarrow> seals s w | _ \<Rightarrow> True)"

lemma seals_object:
  assumes "seals_members s m" shows "seals s (CObj m)" and "seals s (CDecoys (CObj m) n)"
  using assms unfolding seals_def seals_members_def
  by (auto simp: ok_iffs split: if_splits; blast dest: object_sealed intro: s_decoys)+

lemma seals_cons:
  assumes "seals s c" and "seals_inside s c" and "seals_members s m"
  shows "seals_members s ((k, c) # m)"
proof -
  have m: "\<exists>here dec. digests = map fst here \<and> sealed_members s m out here ds dec"
    if "seal_members s m st = Inr ((out, digests, ds), st')" "\<forall>kc \<in> set m. claim_ok (snd kc)" for out digests ds st st'
    using assms(3) that unfolding seals_members_def by blast
  show ?thesis unfolding seals_members_def
  proof (intro allI impI)
    fix st out digests ds st'
    assume run: "seal_members s ((k, c) # m) st = Inr ((out, digests, ds), st')"
      and ok: "\<forall>kc \<in> set ((k, c) # m). claim_ok (snd kc)"
    have k: "\<not> isReservedName k" using run by (auto split: if_splits)
    show "\<exists>here dec. digests = map fst here \<and> sealed_members s ((k, c) # m) out here ds dec"
    proof (cases "\<exists>w. c = CSD w")
      case True
      then obtain w where c: "c = CSD w" by blast
      from run k obtain v inner st1 d st2 dg out' digests' ds' where w: "seal s w st = Inr ((v, inner), st1)"
        and d: "NewObjectDisclosure s k v st1 = Inr (d, st2)" "seal_digest s d = Inr dg"
        and rest: "seal_members s m st2 = Inr ((out', digests', ds'), st')"
        and eq: "out = out'" "digests = dg # digests'" "ds = d # inner @ ds'"
        by (auto simp: c ok_iffs)
      obtain dec where "sealed s w v inner dec" using assms(2) w ok unfolding c seals_inside_def seals_def by fastforce
      moreover obtain here dec' where "digests' = map fst here" "sealed_members s m out' here ds' dec'"
        using m [OF rest] ok by auto
      ultimately have "dg # digests' = map fst ((dg, d) # here)"
        and "sealed_members s ((k, CSD w) # m) out' ((dg, d) # here) (d # inner @ ds') (dec @ dec')"
        using NewObjectDisclosure_Inr [OF d(1)] d(2) k m_sd [of k s w v inner dec d dg m out' here ds' dec']
        by (simp_all add: seal_digest_Inr)
      then show ?thesis unfolding c eq by (intro exI conjI)
    next
      case False
      with run k obtain v inner st1 out' digests' ds' where c: "seal s c st = Inr ((v, inner), st1)"
        and rest: "seal_members s m st1 = Inr ((out', digests', ds'), st')"
        and eq: "out = (k, v) # out'" "digests = digests'" "ds = inner @ ds'"
        by (auto simp: seal_members_own ok_iffs simp del: seal_members.simps)
      obtain dec where "sealed s c v inner dec" using assms(1) c ok unfolding seals_def by fastforce
      moreover obtain here dec' where "digests' = map fst here" "sealed_members s m out' here ds' dec'"
        using m [OF rest] ok by auto
      ultimately show ?thesis using k unfolding eq by (blast intro: m_own)
    qed
  qed
qed
lemma seals_elements_cons:
  assumes "seals s c" and "seals_inside s c" and "seals_elements s cs"
  shows "seals_elements s (c # cs)"
proof -
  have cs: "\<exists>dec. sealed_elements s cs els ds dec"
    if "seal_elements s cs st = Inr ((els, ds), st')" "\<forall>c \<in> set cs. claim_ok c" for els ds st st'
    using assms(3) that unfolding seals_elements_def by blast
  show ?thesis unfolding seals_elements_def
  proof (intro allI impI)
    fix st els ds st'
    assume run: "seal_elements s (c # cs) st = Inr ((els, ds), st')" and ok: "\<forall>c \<in> set (c # cs). claim_ok c"
    show "\<exists>dec. sealed_elements s (c # cs) els ds dec"
    proof (cases "\<exists>w. c = CSDElement w")
      case True
      then obtain w where c: "c = CSDElement w" by blast
      from run obtain v inner st1 d st2 dg els' ds' where w: "seal s w st = Inr ((v, inner), st1)"
        and d: "NewArrayElementDisclosure s v st1 = Inr (d, st2)" "seal_digest s d = Inr dg"
        and rest: "seal_elements s cs st2 = Inr ((els', ds'), st')"
        and eq: "els = GObj [(''...'', GStr dg)] # els'" "ds = d # inner @ ds'"
        by (auto simp: c ok_iffs)
      obtain dec where "sealed s w v inner dec" using assms(2) w ok unfolding c seals_inside_def seals_def by fastforce
      moreover obtain dec' where "sealed_elements s cs els' ds' dec'" using cs [OF rest] ok by auto
      ultimately show ?thesis
        using NewArrayElementDisclosure_Inr [OF d(1)] d(2) e_sd [of s w v inner dec d dg cs els' ds' dec']
        unfolding c eq seal_digest_Inr by blast
    next
      case False
      with run obtain v inner st1 els' ds' where c: "seal s c st = Inr ((v, inner), st1)"
        and rest: "seal_elements s cs st1 = Inr ((els', ds'), st')" and eq: "els = v # els'" "ds = inner @ ds'"
        by (auto simp: seal_elements_own ok_iffs simp del: seal_elements.simps)
      obtain dec where "sealed s c v inner dec" using assms(1) c ok unfolding seals_def by fastforce
      moreover obtain dec' where "sealed_elements s cs els' ds' dec'" using cs [OF rest] ok by auto
      ultimately show ?thesis unfolding eq by (blast intro: e_own)
    qed
  qed
qed

lemma seals_all: "seals s c \<and> seals_inside s c" "seals_members s m" "seals_elements s cs"
proof (induction c and m and cs rule: plain_plain_members_plain_elements.induct)
  case (2 m)
  then show ?case using seals_object(1) by (simp add: seals_inside_def)
next
  case (3 cs)
  then show ?case by (fastforce simp: seals_def seals_inside_def seals_elements_def ok_iffs intro: s_arr)
next
  case (6 c n)
  show ?case
  proof (cases "\<exists>m. c = CObj m")
    case True
    with 6 show ?thesis using seals_object(2) by (auto simp: seals_inside_def)
  next
    case False
    then show ?thesis by (cases c) (auto simp: seals_def seals_inside_def)
  qed
next
  case (7 c)
  then show ?case by (cases c) (fastforce simp: seals_def seals_inside_def intro: s_encoded)+
next
  case (10 k c m)
  then show ?case using seals_cons by blast
next
  case (12 c cs)
  then show ?case using seals_elements_cons by blast
qed (auto simp: seals_def seals_inside_def seals_members_def seals_elements_def ok_iffs
    intro: s_val m_nil e_nil)

lemma sealObject_sealed:
  assumes "sealObject s m n nested st = Inr ((p, ds), st')" and "claim_ok (CObj m)"
  shows "\<exists>dec. sealed s (CObj m) (GObj p) ds dec"
proof -
  from assms(1) obtain out digests st1 where run: "seal_members s m st = Inr ((out, digests, ds), st1)"
    and p: "finish_object s nested n out digests st1 = Inr (p, st')" by (auto simp: sealObject_def ok_iffs)
  obtain here dec where "digests = map fst here" "sealed_members s m out here ds dec"
    using seals_all(2) [unfolded seals_members_def] run assms(2) by fastforce
  with p assms(2) show ?thesis using object_sealed by auto
qed

end
