(* ===== verification/Sdjwt_Roundtrip.thy ===== *)
theory Sdjwt_Roundtrip
  imports Sdjwt_Seal
begin

text \<open>
  What sealing makes resolves: a sealed tree has the shape \<open>resolveValue\<close> asks for, embeds each Disclosure's digest and
  each decoy once, and stands for the tree without its markers.
\<close>

definition digest_of :: "sealer \<Rightarrow> disclosure \<Rightarrow> string" where
  "digest_of s d = (case Digest (sl_hash s) (sl_alg s) d of Inl _ \<Rightarrow> [] | Inr dg \<Rightarrow> dg)"

text \<open>\<open>B\<close> finds the Disclosures by their digests, and nothing by a decoy.\<close>

definition finds :: "sealer \<Rightarrow> by_digest \<Rightarrow> disclosure list \<Rightarrow> string list \<Rightarrow> bool" where
  "finds s B ds dec = ((\<forall>d \<in> set ds. gm_get B (digest_of s d) = Some d) \<and> (\<forall>dg \<in> set dec. gm_get B dg = None))"

lemma finds_simps [simp]:
  "finds s B (d # ds) dec \<longleftrightarrow> gm_get B (digest_of s d) = Some d \<and> finds s B ds dec"
  "finds s B (ds @ ds') (dec @ dec') \<longleftrightarrow> finds s B ds dec \<and> finds s B ds' dec'"
  "finds s B [] (dec @ dec') \<longleftrightarrow> finds s B [] dec \<and> finds s B [] dec'"
  by (auto simp: finds_def)

lemma finds_decoys: "finds s B ds (decoys @ dec) \<longleftrightarrow> (\<forall>dg \<in> set decoys. gm_get B dg = None) \<and> finds s B ds dec"
  by (auto simp: finds_def)

lemma digest_of_Inr [simp]: "Digest (sl_hash s) (sl_alg s) d = Inr dg \<Longrightarrow> digest_of s d = dg"
  by (simp add: digest_of_def)

lemma mset_concat_map: "mset xs = mset ys \<Longrightarrow> mset (concat (map f xs)) = mset (concat (map f ys))"
  by (metis mset_concat mset_map sum_mset_sum_list)

lemma mset_map_filter: "mset xs = mset ys \<Longrightarrow> mset (List.map_filter f xs) = mset (List.map_filter f ys)"
  unfolding List.map_filter_def by (metis mset_filter mset_map)

lemma map_filter_strings: "List.map_filter as_str (map GStr dgs) = dgs"
  by (induction dgs) (simp_all add: map_filter_simps)

lemma gm_get_own: "own_name k \<Longrightarrow> gm_get (filter (\<lambda>kv. own_name (fst kv)) p) k = gm_get p k"
  by (induction p) auto

lemma carries_sd_digests: "carries dgs out p \<Longrightarrow> sd_digests p = dgs"
  by (auto simp: carries_def sd_digests_def map_filter_strings)

lemma carries_own: "carries dgs out p \<Longrightarrow> own_name k \<Longrightarrow> gm_get p k = gm_get out k"
  by (auto simp: carries_def gm_get_own)

lemma concat_own:
  "concat (map (\<lambda>(k, w). if own_name k then F w else []) p) =
     concat (map (\<lambda>(k, w). if own_name k then F w else []) (filter (\<lambda>kv. own_name (fst kv)) p))"
  by (induction p) auto

lemma sealed_members_unreserved:
  assumes "sealed_members s m out here ds dec" and "kv \<in> set out"
  shows "own_name (fst kv)" and "fst kv \<noteq> ''...''"
proof -
  have "fst kv \<in># mset (map fst m)"
    using sealed_members_names [OF assms(1)] assms(2) by simp
  then have "\<not> isReservedName (fst kv)" using sealed_members_names [OF assms(1)] by auto
  then show "own_name (fst kv)" "fst kv \<noteq> ''...''" by (simp_all add: isReservedName_def own_name_def)
qed

lemma sealed_no_ref:
  "sealed s c v ds dec \<Longrightarrow> ref_value v = None"
  "sealed_members s m out here ds dec \<Longrightarrow> True" "sealed_elements s cs els ds dec \<Longrightarrow> True"
proof (induction rule: sealed_sealed_members_sealed_elements.inducts)
  case (s_obj m out here ds dec dgs decoys p)
  have "k \<noteq> ''...''" if "(k, v) \<in> set p" for k v
    using that s_obj sealed_members_unreserved(2) [OF s_obj(1), of "(k, v)"]
    unfolding carries_def own_name_def by fastforce
  then show ?case by (auto simp: ref_value_def split: list.splits)
qed (simp_all add: ref_value_def is_scalar_def)

text \<open>An object of own members \<open>out\<close> and digests \<open>dgs\<close>, those of the Disclosures \<open>here\<close> and the decoys.\<close>

lemma object_embedded:
  assumes "carries dgs out p" and "mset dgs = mset (map fst here @ decoys)" and "\<forall>dg \<in> set decoys. gm_get B dg = None"
  shows "mset (embedded B (Suc n) (GObj p)) =
    mset (concat (map (\<lambda>(k, w). if own_name k then embedded B n w else []) out)) +
    mset (concat (map (below B (embedded B n)) (map fst here))) + mset decoys"
proof -
  have "concat (map (below B (embedded B n)) decoys) = decoys"
    using assms(3) by (induction decoys) (auto simp: below_def)
  then have "mset (concat (map (below B (embedded B n)) dgs)) =
      mset (concat (map (below B (embedded B n)) (map fst here))) + mset decoys"
    using mset_concat_map [OF assms(2), of "below B (embedded B n)"] by simp
  then show ?thesis
    using assms(1) concat_own [of "embedded B n" p] carries_sd_digests [OF assms(1)] unfolding carries_def by simp
qed

lemma sealed_embedded:
  "sealed s c v ds dec \<Longrightarrow> finds s B ds dec \<Longrightarrow> claim_depth c \<le> n \<Longrightarrow>
     mset (embedded B n v) = mset (map (digest_of s) ds) + mset dec"
  "sealed_members s m out here ds dec \<Longrightarrow> finds s B ds dec \<Longrightarrow> members_depth m \<le> n \<Longrightarrow>
     mset (concat (map (\<lambda>(k, w). if own_name k then embedded B n w else []) out)) +
     mset (concat (map (below B (embedded B n)) (map fst here))) = mset (map (digest_of s) ds) + mset dec"
  "sealed_elements s cs els ds dec \<Longrightarrow> finds s B ds dec \<Longrightarrow> elements_depth cs \<le> n \<Longrightarrow>
     mset (concat (map (element_digests B (embedded B n)) els)) = mset (map (digest_of s) ds) + mset dec"
proof (induction arbitrary: n and n and n rule: sealed_sealed_members_sealed_elements.inducts)
  case (s_val v)
  then show ?case by (cases n; cases v) (auto simp: is_scalar_def)
next
  case (s_obj m out here ds dec dgs decoys p)
  then obtain n' where n: "n = Suc n'" and "members_depth m \<le> n'" by (cases n) auto
  with s_obj have "mset (concat (map (\<lambda>(k, w). if own_name k then embedded B n' w else []) out)) +
     mset (concat (map (below B (embedded B n')) (map fst here))) = mset (map (digest_of s) ds) + mset dec"
    by (simp add: finds_decoys)
  moreover have "\<forall>dg \<in> set decoys. gm_get B dg = None" using s_obj.prems(1) by (simp add: finds_decoys)
  ultimately show ?case unfolding n using object_embedded [OF s_obj(4,3), of B n'] by simp
next
  case (s_arr cs els ds dec)
  then show ?case by (cases n) auto
next
  case (m_sd k c v inner dec d dg m out here ds dec')
  then show ?case by (simp add: below_def ac_simps)
next
  case (m_own k c v inner dec m out here ds dec')
  have "own_name k" using m_own.hyps(1) by (rule reserved_own)
  with m_own show ?case by (simp add: ac_simps)
next
  case (e_sd c v inner dec d dg cs els ds dec')
  have "element_digests B (embedded B n) (GObj [(''...'', GStr dg)]) = dg # embedded B n v"
    using e_sd by (simp add: element_digests_def ref_value_def below_def)
  with e_sd show ?case by (simp add: ac_simps)
next
  case (e_own c v inner dec cs els ds dec')
  have "element_digests B (embedded B n) v = embedded B n v"
    using sealed_no_ref(1) [OF e_own(1)] by (simp add: element_digests_def)
  with e_own show ?case by (simp add: ac_simps)
qed simp_all

lemma mset_disclosed_names:
  assumes "\<forall>dd \<in> set here. gm_get B (fst dd) = Some (snd dd)" and "mset dgs = mset (map fst here @ decoys)"
    and "\<forall>dg \<in> set decoys. gm_get B dg = None"
  shows "mset (disclosed_names B dgs) = mset (map (di_Name \<circ> snd) here)"
proof -
  have "disclosed_names B (map fst here) = map (di_Name \<circ> snd) here"
    using assms(1) by (induction here) (auto simp: disclosed_names_def map_filter_simps)
  moreover have "disclosed_names B decoys = []"
    using assms(3) by (induction decoys) (auto simp: disclosed_names_def map_filter_simps)
  ultimately have "disclosed_names B (map fst here @ decoys) = map (di_Name \<circ> snd) here"
    by (simp add: disclosed_names_def List.map_filter_def)
  with mset_map_filter [OF assms(2)] show ?thesis unfolding disclosed_names_def by metis
qed

lemma object_resolvable:
  assumes p: "carries dgs out p" and dgs: "mset dgs = mset (map fst here @ decoys)"
    and free: "\<forall>dg \<in> set decoys. gm_get B dg = None"
    and names: "mset (map fst m) = mset (map fst out) + mset (map (di_Name \<circ> snd) here)" and "distinct (map fst m)"
    and own: "\<forall>kw \<in> set out. resolvable B n False (snd kw)"
    and here: "\<forall>dd \<in> set here. gm_get B (fst dd) = Some (snd dd) \<and> \<not> IsArrayElement (snd dd) \<and>
      resolvable B n False (di_Value (snd dd))"
    and outer: "gm_get p ''_sd_alg'' = None \<or> outer"
  shows "resolvable B (Suc n) outer (GObj p)"
proof -
  have members: "(k = ''_sd_alg'' \<longrightarrow> outer) \<and> (own_name k \<longrightarrow> resolvable B n False w)" if kw: "(k, w) \<in> set p" for k w
  proof (intro conjI impI)
    assume "k = ''_sd_alg''" then show outer using kw outer by (force simp: map_of_eq_None_iff)
  next
    assume "own_name k"
    then have "(k, w) \<in> set out" using kw p by (auto simp: carries_def)
    then show "resolvable B n False w" using own by auto
  qed
  have own_p: "own_names p = map fst out"
    using p unfolding carries_def own_names_def by (auto simp: filter_map comp_def)
  have "mset (own_names p @ disclosed_names B (sd_digests p)) = mset (map fst m)"
    using mset_disclosed_names [OF _ dgs free] here names by (simp add: own_p carries_sd_digests [OF p])
  then have "distinct (own_names p @ disclosed_names B (sd_digests p))"
    using \<open>distinct (map fst m)\<close> mset_eq_imp_distinct_iff by blast
  moreover have "case gm_get B dg of None \<Rightarrow> True | Some d \<Rightarrow> \<not> IsArrayElement d \<and> resolvable B n False (di_Value d)"
    if "dg \<in> set dgs" for dg
  proof -
    have "dg \<in> set (map fst here @ decoys)" using that dgs by (metis mset_eq_setD)
    then show ?thesis using here free by auto
  qed
  ultimately have "sd_shape B (resolvable B n False) p"
    using p carries_sd_digests [OF p] unfolding sd_shape_def carries_def by (auto simp: list_all_iff)
  with members show ?thesis by (auto simp: list_all_iff)
qed

lemma sealed_resolvable:
  "sealed s c v ds dec \<Longrightarrow> finds s B ds dec \<Longrightarrow> claim_ok c \<Longrightarrow> claim_depth c \<le> n \<Longrightarrow> resolvable B n outer v"
  "sealed_members s m out here ds dec \<Longrightarrow> finds s B ds dec \<Longrightarrow> \<forall>kc \<in> set m. claim_ok (snd kc) \<Longrightarrow> members_depth m \<le> n \<Longrightarrow>
     (\<forall>kw \<in> set out. resolvable B n False (snd kw)) \<and>
     (\<forall>dd \<in> set here. gm_get B (fst dd) = Some (snd dd) \<and> \<not> IsArrayElement (snd dd) \<and>
        resolvable B n False (di_Value (snd dd)))"
  "sealed_elements s cs els ds dec \<Longrightarrow> finds s B ds dec \<Longrightarrow> \<forall>c \<in> set cs. claim_ok c \<Longrightarrow> elements_depth cs \<le> n \<Longrightarrow>
     list_all (ref_shape B (resolvable B n False)) els"
proof (induction arbitrary: n outer and n and n rule: sealed_sealed_members_sealed_elements.inducts)
  case (s_val v)
  then show ?case by (cases n; cases v) (auto simp: is_scalar_def)
next
  case (s_obj m out here ds dec dgs decoys p)
  then obtain n' where n: "n = Suc n'" and "members_depth m \<le> n'" by (cases n) auto
  moreover have "\<forall>dg \<in> set decoys. gm_get B dg = None" using s_obj.prems(1) by (simp add: finds_decoys)
  ultimately show ?case unfolding n using s_obj sealed_members_names [OF s_obj(1)]
    by (intro object_resolvable [where m = m and here = here]) (auto simp: finds_decoys)
next
  case (s_arr cs els ds dec)
  then show ?case by (cases n) auto
next
  case (m_sd k c v inner dec d dg m out here ds dec')
  then have "finds s B ds dec'" "\<forall>kc \<in> set m. claim_ok (snd kc)" "members_depth m \<le> n" by simp_all
  then have "(\<forall>kw \<in> set out. resolvable B n False (snd kw)) \<and>
     (\<forall>dd \<in> set here. gm_get B (fst dd) = Some (snd dd) \<and> \<not> IsArrayElement (snd dd) \<and>
        resolvable B n False (di_Value (snd dd)))" by (rule m_sd(9))
  moreover have "gm_get B dg = Some d \<and> \<not> IsArrayElement d \<and> resolvable B n False (di_Value d)"
    using m_sd by (simp add: IsArrayElement_def)
  ultimately show ?case by simp
next
  case (m_own k c v inner dec m out here ds dec')
  then have "finds s B ds dec'" "\<forall>kc \<in> set m. claim_ok (snd kc)" "members_depth m \<le> n" by simp_all
  then have "(\<forall>kw \<in> set out. resolvable B n False (snd kw)) \<and>
     (\<forall>dd \<in> set here. gm_get B (fst dd) = Some (snd dd) \<and> \<not> IsArrayElement (snd dd) \<and>
        resolvable B n False (di_Value (snd dd)))" by (rule m_own(5))
  moreover have "resolvable B n False v" using m_own by simp
  ultimately show ?case by simp
next
  case (e_sd c v inner dec d dg cs els ds dec')
  then show ?case by (simp add: ref_shape_def ref_value_def)
next
  case (e_own c v inner dec cs els ds dec')
  then show ?case using sealed_no_ref(1) [OF e_own(1)] by (simp add: ref_shape_def)
qed simp_all

section \<open>What a sealed tree stands for\<close>

text \<open>Equal but for the order of an object's members, which a Go map has none of.\<close>

inductive same :: "goval \<Rightarrow> goval \<Rightarrow> bool" and same_elements :: "goval list \<Rightarrow> goval list \<Rightarrow> bool" where
  same_scalar: "is_scalar v \<Longrightarrow> same v v"
| same_object: "gm_ok a \<Longrightarrow> gm_ok b \<Longrightarrow> dom (gm_get a) = dom (gm_get b) \<Longrightarrow>
    (\<And>k x y. gm_get a k = Some x \<Longrightarrow> gm_get b k = Some y \<Longrightarrow> same x y) \<Longrightarrow> same (GObj a) (GObj b)"
| same_array: "same_elements xs ys \<Longrightarrow> same (GArr xs) (GArr ys)"
| same_none: "same_elements [] []"
| same_cons: "same x y \<Longrightarrow> same_elements xs ys \<Longrightarrow> same_elements (x # xs) (y # ys)"

inductive_cases processed_GObj [consumes 1, case_names scalar object]: "processed B (GObj m) r"
inductive_cases processed_GArr [consumes 1, case_names scalar array]: "processed B (GArr els) r"
inductive_cases processed_Nil [consumes 1]: "processed_elements B [] rs"
inductive_cases processed_Cons [consumes 1, case_names dropped disclosed plain]: "processed_elements B (el # els) rs"

lemma gm_get_plain: "gm_get (plain_members m) k = map_option plain (gm_get m k)"
  by (induction m) auto

lemma keys_plain: "map fst (plain_members m) = map fst m"
  by (induction m) auto

lemma plain_keys: "(k, v) \<in> set (plain_members m) \<Longrightarrow> k \<in> fst ` set m"
  by (metis fst_conv image_eqI keys_plain set_map)

text \<open>What the members an object keeps, and those it gains, stand for.\<close>

definition member_of :: "by_digest \<Rightarrow> (string, goval) gomap \<Rightarrow> (string \<times> disclosure) list \<Rightarrow> string \<Rightarrow> goval \<Rightarrow> bool" where
  "member_of B out here k r =
     ((\<exists>v. (k, v) \<in> set out \<and> processed B v r) \<or> (\<exists>dd \<in> set here. di_Name (snd dd) = k \<and> processed B (di_Value (snd dd)) r))"

lemma processed_object:
  assumes p: "carries dgs out p" and dgs: "mset dgs = mset (map fst here @ decoys)"
    and free: "\<forall>dg \<in> set decoys. gm_get B dg = None"
    and found: "\<forall>dd \<in> set here. gm_get B (fst dd) = Some (snd dd)"
    and r: "processed B (GObj p) r"
  obtains rs where "r = GObj rs" "gm_ok rs" "\<And>k x. gm_get rs k = Some x \<Longrightarrow> member_of B out here k x"
    "dom (gm_get rs) = set (map fst out) \<union> set (map (di_Name \<circ> snd) here)"
proof -
  have set_dgs: "set dgs = fst ` set here \<union> set decoys" using mset_eq_setD [OF dgs] by auto
  have ok: "gm_ok out" using p by (auto simp: carries_def)
  have own_out: "own_name k \<Longrightarrow> gm_get p k = gm_get out k" for k using carries_own [OF p] .
  have only_own: "gm_get out k = Some v \<Longrightarrow> own_name k" for k v
    using p by (auto simp: carries_def dest!: map_of_SomeD)
  have "\<exists>rs. r = GObj rs \<and> gm_ok rs \<and>
     (\<forall>k x. gm_get rs k = Some x \<longrightarrow> (own_name k \<and> (\<exists>v. gm_get p k = Some v \<and> processed B v x)) \<or>
       (\<exists>dg d. dg \<in> set dgs \<and> gm_get B dg = Some d \<and> di_Name d = k \<and> processed B (di_Value d) x)) \<and>
     (\<forall>k. own_name k \<longrightarrow> gm_get p k \<noteq> None \<longrightarrow> gm_get rs k \<noteq> None) \<and>
     (\<forall>dg d. dg \<in> set dgs \<longrightarrow> gm_get B dg = Some d \<longrightarrow> gm_get rs (di_Name d) \<noteq> None)"
    using r
  proof (cases rule: processed_GObj)
    case scalar
    then show ?thesis by (simp add: is_scalar_def)
  next
    case (object rs)
    note obj = object(2-5) [unfolded carries_sd_digests [OF p]]
    show ?thesis
      by (intro exI [of _ rs] conjI allI impI object(1) obj(1)) (use obj(2) in blast, use obj(3) in blast, use obj(4) in blast)
  qed
  then obtain rs where rs: "r = GObj rs" "gm_ok rs" and from_p: "\<forall>k x. gm_get rs k = Some x \<longrightarrow>
       (own_name k \<and> (\<exists>v. gm_get p k = Some v \<and> processed B v x)) \<or>
       (\<exists>dg d. dg \<in> set dgs \<and> gm_get B dg = Some d \<and> di_Name d = k \<and> processed B (di_Value d) x)"
    and keeps: "\<forall>k. own_name k \<longrightarrow> gm_get p k \<noteq> None \<longrightarrow> gm_get rs k \<noteq> None"
    and gains: "\<forall>dg d. dg \<in> set dgs \<longrightarrow> gm_get B dg = Some d \<longrightarrow> gm_get rs (di_Name d) \<noteq> None" by blast
  have member: "member_of B out here k x" if "gm_get rs k = Some x" for k x
    using from_p [rule_format, OF that] own_out free found unfolding member_of_def set_dgs by (fastforce dest: map_of_SomeD)
  moreover have "dom (gm_get rs) = set (map fst out) \<union> set (map (di_Name \<circ> snd) here)"
  proof (intro equalityI subsetI)
    fix k assume "k \<in> dom (gm_get rs)"
    then obtain x where "gm_get rs k = Some x" by auto
    from member [OF this] show "k \<in> set (map fst out) \<union> set (map (di_Name \<circ> snd) here)" unfolding member_of_def by force
  next
    fix k assume "k \<in> set (map fst out) \<union> set (map (di_Name \<circ> snd) here)"
    then consider v where "gm_get out k = Some v" | dd where "dd \<in> set here" "di_Name (snd dd) = k"
      using ok by (auto simp: gm_ok_def)
    then show "k \<in> dom (gm_get rs)"
    proof cases
      case 1
      with keeps only_own own_out show ?thesis by fastforce
    next
      case 2
      with gains [rule_format, of "fst dd" "snd dd"] found show ?thesis by (auto simp: set_dgs)
    qed
  qed
  ultimately show ?thesis using that rs by blast
qed

lemma same_of_members:
  assumes p: "carries dgs out p" and dgs: "mset dgs = mset (map fst here @ decoys)"
    and free: "\<forall>dg \<in> set decoys. gm_get B dg = None" and members: "sealed_members s m out here ds dec" and "distinct (map fst m)"
    and IH: "(\<forall>dd \<in> set here. gm_get B (fst dd) = Some (snd dd)) \<and>
      (\<forall>k x. member_of B out here k x \<longrightarrow> (\<exists>y. gm_get (plain_members m) k = Some y \<and> same x y))"
    and r: "processed B (GObj p) r"
  shows "same r (GObj (plain_members m))"
proof -
  obtain rs where r: "r = GObj rs" "gm_ok rs" and from_m: "\<And>k x. gm_get rs k = Some x \<Longrightarrow> member_of B out here k x"
    and dom: "dom (gm_get rs) = set (map fst out) \<union> set (map (di_Name \<circ> snd) here)"
    using processed_object [OF p dgs free _ r] IH by blast
  have "set (map fst m) = set (map fst out) \<union> set (map (di_Name \<circ> snd) here)"
    using sealed_members_names [OF members] by (metis mset_append mset_eq_setD set_append)
  moreover have "dom (gm_get (plain_members m)) = set (map fst m)"
    by (metis dom_map_of_conv_image_fst keys_plain set_map)
  ultimately have "dom (gm_get rs) = dom (gm_get (plain_members m))" unfolding dom by simp
  moreover have "gm_ok (plain_members m)" using assms(5) by (simp add: gm_ok_def keys_plain)
  moreover have "same x y" if "gm_get rs k = Some x" "gm_get (plain_members m) k = Some y" for k x y
    using IH from_m [OF that(1)] that(2) by fastforce
  ultimately show ?thesis unfolding r by (intro same_object r(2))
qed

lemma processed_own: "processed B v r \<Longrightarrow> is_scalar v \<Longrightarrow> r = v"
  by (erule processed.cases) (auto simp: is_scalar_def)

lemma sealed_same:
  "sealed s c v ds dec \<Longrightarrow> finds s B ds dec \<Longrightarrow> claim_ok c \<Longrightarrow> processed B v r \<Longrightarrow> same r (plain c)"
  "sealed_members s m out here ds dec \<Longrightarrow> finds s B ds dec \<Longrightarrow> distinct (map fst m) \<Longrightarrow> \<forall>kc \<in> set m. claim_ok (snd kc) \<Longrightarrow>
     (\<forall>dd \<in> set here. gm_get B (fst dd) = Some (snd dd)) \<and>
     (\<forall>k x. member_of B out here k x \<longrightarrow> (\<exists>y. gm_get (plain_members m) k = Some y \<and> same x y))"
  "sealed_elements s cs els ds dec \<Longrightarrow> finds s B ds dec \<Longrightarrow> \<forall>c \<in> set cs. claim_ok c \<Longrightarrow> processed_elements B els rs \<Longrightarrow>
     same_elements rs (plain_elements cs)"
proof (induction arbitrary: r and and rs rule: sealed_sealed_members_sealed_elements.inducts)
  case (s_val v)
  then show ?case using processed_own same_scalar by auto
next
  case (s_obj m out here ds dec dgs decoys p)
  have free: "\<forall>dg \<in> set decoys. gm_get B dg = None" using s_obj.prems(1) by (simp add: finds_decoys)
  have ok: "distinct (map fst m)" "\<forall>kc \<in> set m. claim_ok (snd kc)" using s_obj.prems(2) by simp_all
  have IH: "\<forall>dd \<in> set here. gm_get B (fst dd) = Some (snd dd)"
    "\<And>k x. member_of B out here k x \<Longrightarrow> \<exists>y. gm_get (plain_members m) k = Some y \<and> same x y"
    using s_obj ok by (auto simp: finds_decoys)
  show ?case unfolding plain.simps
    by (rule same_of_members [OF s_obj(4,3) free s_obj(1) ok(1) _ s_obj.prems(3)]) (use IH in blast)
next
  case (s_arr cs els ds dec)
  from s_arr.prems(3) show ?case
    by (cases rule: processed_GArr) (use s_arr in \<open>auto simp: is_scalar_def intro: same_array\<close>)
next
  case (m_sd k c v inner dec d dg m out here ds dec')
  have tl: "(\<forall>dd \<in> set here. gm_get B (fst dd) = Some (snd dd))"
     "\<And>k x. member_of B out here k x \<Longrightarrow> \<exists>y. gm_get (plain_members m) k = Some y \<and> same x y"
    using m_sd by auto
  have hd: "same x (plain c)" if "processed B v x" for x using m_sd that by simp
  have "\<exists>y. gm_get (plain_members ((k, CSD c) # m)) k' = Some y \<and> same x y" if "member_of B out ((dg, d) # here) k' x" for k' x
  proof (cases "k' = k \<and> processed B v x")
    case True
    then show ?thesis using hd by simp
  next
    case False
    then have "member_of B out here k' x" using that m_sd by (auto simp: member_of_def)
    moreover from tl(2) [OF this] have "k' \<noteq> k" using m_sd.prems(2) by (auto dest!: map_of_SomeD simp: plain_keys)
    ultimately show ?thesis using tl(2) by simp
  qed
  with tl(1) m_sd show ?case by simp
next
  case (m_own k c v inner dec m out here ds dec')
  have tl: "(\<forall>dd \<in> set here. gm_get B (fst dd) = Some (snd dd))"
     "\<And>k x. member_of B out here k x \<Longrightarrow> \<exists>y. gm_get (plain_members m) k = Some y \<and> same x y"
    using m_own by auto
  have hd: "same x (plain c)" if "processed B v x" for x using m_own that by simp
  have "\<exists>y. gm_get (plain_members ((k, c) # m)) k' = Some y \<and> same x y" if "member_of B ((k, v) # out) here k' x" for k' x
  proof (cases "k' = k \<and> processed B v x")
    case True
    then show ?thesis using hd by simp
  next
    case False
    then have "member_of B out here k' x" using that by (auto simp: member_of_def)
    moreover from tl(2) [OF this] have "k' \<noteq> k" using m_own.prems(2) by (auto dest!: map_of_SomeD simp: plain_keys)
    ultimately show ?thesis using tl(2) by simp
  qed
  with tl(1) show ?case by simp
next
  case (e_sd c v inner dec d dg cs els ds dec')
  have el: "ref_value (GObj [(''...'', GStr dg)]) = Some (GStr dg)" "gm_get B dg = Some d"
    using e_sd by (simp_all add: ref_value_def)
  from e_sd.prems(3) show ?case
    by (cases rule: processed_Cons) (use e_sd el in \<open>auto intro: same_cons\<close>)
next
  case (e_own c v inner dec cs els ds dec')
  from e_own.prems(3) show ?case
    by (cases rule: processed_Cons) (use e_own sealed_no_ref(1) [OF e_own(1)] in \<open>auto intro: same_cons\<close>)
qed (auto simp: member_of_def intro: same_none elim: processed_Nil)

section \<open>Sealing and resolving\<close>

lemma digest_of_iff: "(\<exists>dg. Digest (sl_hash s) (sl_alg s) d = Inr dg) \<longleftrightarrow> Digest (sl_hash s) (sl_alg s) d = Inr (digest_of s d)"
  by (auto simp: digest_of_def split: sum.splits)

lemma index_finds:
  assumes "index_disclosures (sl_hash s) (sl_alg s) ds [] = Inr B" and "set dec \<inter> digest_of s ` set ds = {}"
  shows "finds s B ds dec"
proof -
  have idx: "gm_get B dg = Some d \<longleftrightarrow> d \<in> set ds \<and> Digest (sl_hash s) (sl_alg s) d = Inr dg" for dg d
    using index_disclosures [OF assms(1)] by simp
  have "gm_get B (digest_of s d) = Some d" if d: "d \<in> set ds" for d
  proof -
    obtain dg where "Digest (sl_hash s) (sl_alg s) d = Inr dg" using index_disclosures [OF assms(1)] d by auto
    with idx [of dg d] d show ?thesis by simp
  qed
  moreover have "gm_get B dg = None" if "dg \<in> set dec" for dg
  proof (rule ccontr)
    assume "gm_get B dg \<noteq> None"
    then obtain d where "d \<in> set ds" "Digest (sl_hash s) (sl_alg s) d = Inr dg" using idx by blast
    then have "d \<in> set ds" "digest_of s d = dg" by simp_all
    with assms(2) that show False by blast
  qed
  ultimately show ?thesis by (simp add: finds_def)
qed

lemma sealed_digests:
  "sealed s c v ds dec \<Longrightarrow> \<forall>d \<in> set ds. \<exists>dg. Digest (sl_hash s) (sl_alg s) d = Inr dg"
  "sealed_members s m out here ds dec \<Longrightarrow> \<forall>d \<in> set ds. \<exists>dg. Digest (sl_hash s) (sl_alg s) d = Inr dg"
  "sealed_elements s cs els ds dec \<Longrightarrow> \<forall>d \<in> set ds. \<exists>dg. Digest (sl_hash s) (sl_alg s) d = Inr dg"
  by (induction rule: sealed_sealed_members_sealed_elements.inducts) auto

declare digest_of_Inr [simp del]

text \<open>Sealed values have each member once.\<close>

lemma object_goval_ok:
  assumes "carries dgs out p" and "\<forall>kw \<in> set out. goval_ok (snd kw)"
    and "\<And>a. gm_get p ''_sd_alg'' = Some a \<Longrightarrow> goval_ok a"
  shows "goval_ok (GObj p)"
proof -
  have ok: "gm_ok p" using assms(1) by (simp add: carries_def)
  have "goval_ok w" if kw: "(k, w) \<in> set p" for k w
  proof -
    have get: "gm_get p k = Some w" using ok kw by (simp add: gm_ok_def)
    consider "own_name k" | "k = ''_sd''" | "k = ''_sd_alg''" by (auto simp: own_name_def)
    then show ?thesis
    proof cases
      case 1
      then have "(k, w) \<in> set out" using kw assms(1) by (auto simp: carries_def)
      then show ?thesis using assms(2) by auto
    next
      case 2
      then show ?thesis using get assms(1) by (auto simp: carries_def)
    next
      case 3
      then show ?thesis using get assms(3) by simp
    qed
  qed
  then show ?thesis using ok by (auto simp: gm_ok_def)
qed

lemma sealed_goval_ok:
  "sealed s c v ds dec \<Longrightarrow> goval_ok v \<and> (\<forall>d \<in> set ds. goval_ok (di_Value d))"
  "sealed_members s m out here ds dec \<Longrightarrow> (\<forall>kw \<in> set out. goval_ok (snd kw)) \<and> (\<forall>d \<in> set ds. goval_ok (di_Value d))"
  "sealed_elements s cs els ds dec \<Longrightarrow> (\<forall>el \<in> set els. goval_ok el) \<and> (\<forall>d \<in> set ds. goval_ok (di_Value d))"
proof (induction rule: sealed_sealed_members_sealed_elements.inducts)
  case (s_obj m out here ds dec dgs decoys p)
  then show ?case using object_goval_ok [of dgs out p] by simp
qed auto

text \<open>An object of sealed members and the decoys beside them has the shape to resolve, and embeds each digest once.\<close>

lemma sealed_object_typed:
  assumes members: "sealed_members s m out here ds dec" and dgs: "mset dgs = mset (map fst here @ decoys)"
    and p: "carries dgs out p" and ok: "claim_ok (CObj m)" and depth: "claim_depth (CObj m) \<le> 33"
    and diff: "distinct (map (digest_of s) ds @ decoys @ dec)"
  obtains B where "index_disclosures (sl_hash s) (sl_alg s) ds [] = Inr B" "finds s B ds (decoys @ dec)"
    "resolvable B 33 True (GObj p)" "mset (embedded B 33 (GObj p)) = mset (map (digest_of s) ds @ decoys @ dec)"
proof -
  have digests: "\<forall>d \<in> set ds. Digest (sl_hash s) (sl_alg s) d = Inr (digest_of s d)"
    using sealed_digests(2) [OF members] unfolding digest_of_iff .
  have "distinct (map (digest_of s) ds)" using diff by simp
  then obtain B where B: "index_disclosures (sl_hash s) (sl_alg s) ds [] = Inr B"
    using index_disclosures_succeeds [OF digests, of "[]"] by auto
  have all: "finds s B ds (decoys @ dec)" using index_finds [OF B, of "decoys @ dec"] diff by (simp add: Int_commute)
  then have free: "\<forall>dg \<in> set decoys. gm_get B dg = None" and finds: "finds s B ds dec" by (simp_all add: finds_decoys)
  have m: "distinct (map fst m)" "\<forall>kc \<in> set m. claim_ok (snd kc)" "members_depth m \<le> 32" using ok depth by simp_all
  have "mset (embedded B 33 (GObj p)) = mset (map (digest_of s) ds @ decoys @ dec)"
    using object_embedded [OF p dgs free, of 32] sealed_embedded(2) [OF members finds m(3)] by (simp add: ac_simps)
  moreover have "resolvable B 33 True (GObj p)"
    using object_resolvable [OF p dgs free _ m(1), of 32 True] sealed_members_names [OF members]
      sealed_resolvable(2) [OF members finds m(2,3)] by simp
  ultimately show ?thesis using that B all by blast
qed

lemma sealed_object_resolves:
  assumes members: "sealed_members s m out here ds dec" and dgs: "mset dgs = mset (map fst here @ decoys)"
    and p: "carries dgs out p" and alg: "\<And>a. gm_get p ''_sd_alg'' = Some a \<Longrightarrow> goval_ok a"
    and ok: "claim_ok (CObj m)" and depth: "claim_depth (CObj m) \<le> 33"
    and diff: "distinct (map (digest_of s) ds @ decoys @ dec)"
  shows "\<exists>out. ResolveDisclosures (sl_hash s) p (sl_alg s) ds = Inr out \<and> same (GObj out) (plain (CObj m))"
proof -
  obtain B where B: "index_disclosures (sl_hash s) (sl_alg s) ds [] = Inr B" and all: "finds s B ds (decoys @ dec)"
    and typed: "resolvable B 33 True (GObj p)" and emb: "mset (embedded B 33 (GObj p)) = mset (map (digest_of s) ds @ decoys @ dec)"
    using sealed_object_typed [OF members dgs p ok depth diff] .
  have "distinct (embedded B 33 (GObj p))" using diff emb mset_eq_imp_distinct_iff by blast
  moreover have "\<forall>d \<in> set ds. \<exists>dg. Digest (sl_hash s) (sl_alg s) d = Inr dg \<and> dg \<in> set (embedded B 33 (GObj p))"
  proof
    fix d assume d: "d \<in> set ds"
    then have "digest_of s d \<in> set (embedded B 33 (GObj p))" unfolding mset_eq_setD [OF emb] by simp
    with d sealed_digests(2) [OF members] digest_of_iff
    show "\<exists>dg. Digest (sl_hash s) (sl_alg s) d = Inr dg \<and> dg \<in> set (embedded B 33 (GObj p))" by blast
  qed
  ultimately obtain rs where run: "ResolveDisclosures (sl_hash s) p (sl_alg s) ds = Inr rs"
    using typed resolvable_succeeds [OF B, of MaxResolveDepth p] unfolding ResolveDisclosures_def
    by (auto simp: levels_of_def MaxResolveDepth_def)
  have r: "processed B (GObj p) (GObj rs)"
    using resolved_processed [OF run B] object_goval_ok [OF p _ alg] sealed_goval_ok(2) [OF members] by blast
  have free: "\<forall>dg \<in> set decoys. gm_get B dg = None" and finds: "finds s B ds dec" using all by (simp_all add: finds_decoys)
  have m: "distinct (map fst m)" "\<forall>kc \<in> set m. claim_ok (snd kc)" using ok by simp_all
  have "same (GObj rs) (GObj (plain_members m))"
    using same_of_members [OF p dgs free members m(1) _ r] sealed_same(2) [OF members finds m] by blast
  with run show ?thesis by auto
qed

section \<open>The digests a sealed tree places\<close>

text \<open>Every digest in a value, the Disclosures' values not followed.\<close>

fun placed_digests :: "goval \<Rightarrow> string list"
  and placed_in_members :: "(string \<times> goval) list \<Rightarrow> string list"
  and placed_in_elements :: "goval list \<Rightarrow> string list" where
  "placed_digests (GObj m) = sd_digests m @ placed_in_members m"
| "placed_digests (GArr els) = placed_in_elements els"
| "placed_digests _ = []"
| "placed_in_members [] = []"
| "placed_in_members ((k, v) # m) = (if own_name k then placed_digests v else []) @ placed_in_members m"
| "placed_in_elements [] = []"
| "placed_in_elements (el # els) =
     (case ref_value el of Some (GStr dg) \<Rightarrow> [dg] | _ \<Rightarrow> placed_digests el) @ placed_in_elements els"

definition all_placed :: "(string, goval) gomap \<Rightarrow> disclosure list \<Rightarrow> string list" where
  "all_placed p ds = placed_digests (GObj p) @ concat (map (\<lambda>d. placed_digests (di_Value d)) ds)"

lemma placed_own: "placed_in_members (filter (\<lambda>kv. own_name (fst kv)) m) = placed_in_members m"
  by (induction m) auto

lemma carries_placed: "carries dgs out p \<Longrightarrow> placed_digests (GObj p) = dgs @ placed_in_members out"
  using placed_own [of p] by (simp add: carries_sd_digests) (simp add: carries_def)

lemma sealed_placed:
  "sealed s c v ds dec \<Longrightarrow>
     mset (placed_digests v @ concat (map (\<lambda>d. placed_digests (di_Value d)) ds)) = mset (map (digest_of s) ds @ dec)"
  "sealed_members s m out here ds dec \<Longrightarrow>
     mset (map fst here @ placed_in_members out @ concat (map (\<lambda>d. placed_digests (di_Value d)) ds)) =
     mset (map (digest_of s) ds @ dec)"
  "sealed_elements s cs els ds dec \<Longrightarrow>
     mset (placed_in_elements els @ concat (map (\<lambda>d. placed_digests (di_Value d)) ds)) = mset (map (digest_of s) ds @ dec)"
proof (induction rule: sealed_sealed_members_sealed_elements.inducts)
  case (s_val v)
  then show ?case by (cases v) (auto simp: is_scalar_def)
next
  case (s_obj m out here ds dec dgs decoys p)
  then show ?case using carries_placed [OF s_obj(4)] by (simp add: ac_simps)
next
  case (m_own k c v inner dec m out here ds dec')
  have "own_name k" using m_own(1) by (rule reserved_own)
  then show ?case using arg_cong2 [OF m_own(3,5), of "(+)"] by (simp add: ac_simps)
next
  case (e_sd c v inner dec d dg cs els ds dec')
  have "ref_value (GObj [(''...'', GStr dg)]) = Some (GStr dg)" by (simp add: ref_value_def)
  then show ?case using arg_cong2 [OF e_sd(2,5), of "(+)"] e_sd(8) digest_of_Inr [OF e_sd(3)] by (simp add: ac_simps)
next
  case (e_own c v inner dec cs els ds dec')
  show ?case using sealed_no_ref(1) [OF e_own(1)] arg_cong2 [OF e_own(2,4), of "(+)"] by (simp add: ac_simps)
next
  case (m_sd k c v inner dec d dg m out here ds dec')
  show ?case using arg_cong2 [OF m_sd(6,9), of "(+)"] m_sd(4) digest_of_Inr [OF m_sd(7)] by (simp add: ac_simps)
qed (simp_all add: ac_simps)

text \<open>With no two digests the same, what was sealed comes back.\<close>

lemma sealed_object_restores:
  assumes members: "sealed_members s m out here ds dec" and dgs: "mset dgs = mset (map fst here @ decoys)"
    and p: "carries dgs out p" and alg: "\<And>a. gm_get p ''_sd_alg'' = Some a \<Longrightarrow> goval_ok a"
    and ok: "claim_ok (CObj m)" and depth: "claim_depth (CObj m) \<le> 33" and diff: "distinct (all_placed p ds)"
  shows "distinct (map (digest_of s) ds @ decoys @ dec)"
    and "\<exists>out. ResolveDisclosures (sl_hash s) p (sl_alg s) ds = Inr out \<and> same (GObj out) (plain (CObj m))"
proof -
  have "mset (all_placed p ds) = mset (map (digest_of s) ds @ decoys @ dec)"
    using sealed_placed(2) [OF members] dgs by (simp add: all_placed_def carries_placed [OF p] ac_simps del: placed_digests.simps)
  with diff show d: "distinct (map (digest_of s) ds @ decoys @ dec)" using mset_eq_imp_distinct_iff by blast
  show "\<exists>out. ResolveDisclosures (sl_hash s) p (sl_alg s) ds = Inr out \<and> same (GObj out) (plain (CObj m))"
    by (rule sealed_object_resolves [OF members dgs p alg ok depth d])
qed

text \<open>The Disclosures made are ones that parse.\<close>

lemma sealed_encodes:
  "sealed s c v ds dec \<Longrightarrow> \<forall>d \<in> set ds. encodes s d \<and> (di_named d \<and> \<not> isReservedName (di_Name d) \<or> IsArrayElement d)"
  "sealed_members s m out here ds dec \<Longrightarrow>
     \<forall>d \<in> set ds. encodes s d \<and> (di_named d \<and> \<not> isReservedName (di_Name d) \<or> IsArrayElement d)"
  "sealed_elements s cs els ds dec \<Longrightarrow>
     \<forall>d \<in> set ds. encodes s d \<and> (di_named d \<and> \<not> isReservedName (di_Name d) \<or> IsArrayElement d)"
  by (induction rule: sealed_sealed_members_sealed_elements.inducts) auto

lemma encodes_parses:
  assumes "encodes s d" and "di_named d \<and> \<not> isReservedName (di_Name d) \<or> IsArrayElement d"
    and "\<forall>arr raw. sl_marshal s arr = Some raw \<longrightarrow> (\<forall>b \<in> set raw. b < 256) \<and> json raw = Some arr"
  shows "ParseDisclosure json (di_encoded d) = Inr d"
proof -
  obtain raw where raw: "sl_marshal s (disclosure_array d) = Some raw" "di_encoded d = EncodeToString raw"
    using assms(1) by (auto simp: encodes_def)
  have dec: "DecodeString (di_encoded d) = Inr raw" "json raw = Some (disclosure_array d)"
    using assms(3) raw by (auto simp: b64_decode_encode)
  show ?thesis
  proof (cases "IsArrayElement d")
    case True
    then have "disclosure_array d = [GStr (di_Salt d), di_Value d]" by (simp add: disclosure_array_def)
    with dec True show ?thesis by (simp add: ParseDisclosure_def IsArrayElement_def)
  next
    case False
    then have "disclosure_array d = [GStr (di_Salt d), GStr (di_Name d), di_Value d]" by (simp add: disclosure_array_def)
    with dec False assms(2) show ?thesis by (simp add: ParseDisclosure_def isReservedName_def)
  qed
qed

end
