(* ===== verification/Sdjwt_Issue.thy ===== *)
theory Sdjwt_Issue
  imports Sdjwt_Roundtrip Sdjwt_Verify
begin

text \<open>
  Issuing an SD-JWT VC, \<open>Issue\<close> of \<open>src/credential/sdjwtvc/issue.go\<close> with \<open>integrity.go\<close>, for an Issuer without a
  certificate and without Type Metadata to check against. \<open>Status\<close> and \<open>CNF\<close> are given as the JSON they encode to, so
  they hold no markers; an integer is the number JSON reads back; white space in integrity metadata is ASCII's.
\<close>

section \<open>Integrity metadata\<close>

fun fields_from :: "string \<Rightarrow> string \<Rightarrow> string list" where
  "fields_from cur [] = (if cur = [] then [] else [cur])"
| "fields_from cur (c # cs) =
     (if of_char c \<in> {9, 10, 11, 12, 13, 32 :: nat}
      then (if cur = [] then [] else [cur]) @ fields_from [] cs
      else fields_from (cur @ [c]) cs)"

definition Fields :: "string \<Rightarrow> string list" where
  "Fields s = fields_from [] s"

text \<open>\<open>strings.Cut\<close>: what is before the first \<open>sep\<close>, and after it where there is one.\<close>

fun Cut :: "string \<Rightarrow> char \<Rightarrow> string \<times> string option" where
  "Cut [] sep = ([], None)"
| "Cut (c # cs) sep = (if c = sep then ([], Some cs) else (case Cut cs sep of (before, after) \<Rightarrow> (c # before, after)))"

definition base64_alphabet :: string where
  "base64_alphabet = ''ABCDEFGHIJKLMNOPQRSTUVWXYZabcdefghijklmnopqrstuvwxyz0123456789+/''"

text \<open>The length \<open>base64.StdEncoding\<close> and \<open>RawStdEncoding\<close> decode a string without line breaks to.\<close>

definition unpadded_len :: "string \<Rightarrow> nat option" where
  "unpadded_len s =
     (if list_all (\<lambda>c. c \<in> set base64_alphabet) s \<and> length s mod 4 \<noteq> 1
      then Some (3 * (length s div 4) + (length s mod 4 - 1)) else None)"

definition StdEncoding_len :: "string \<Rightarrow> nat option" where
  "StdEncoding_len s =
     (let body = takeWhile (\<lambda>c. c \<noteq> CHR ''='') s; pad = dropWhile (\<lambda>c. c \<noteq> CHR ''='') s in
      if length s mod 4 = 0 \<and> (pad = [] \<or> pad = ''='' \<or> pad = ''=='') then unpadded_len body else None)"

definition integrityDigestSizes :: "(string, nat) gomap" where
  "integrityDigestSizes = [(''sha256'', 32), (''sha384'', 48), (''sha512'', 64)]"

definition integrity_expr :: "string \<Rightarrow> bool" where
  "integrity_expr field =
     (case Cut (fst (Cut field (CHR ''?''))) (CHR ''-'') of
        (alg, Some digest) \<Rightarrow>
          (case gm_get integrityDigestSizes alg of
             None \<Rightarrow> False
           | Some sz \<Rightarrow> (case StdEncoding_len digest of Some n \<Rightarrow> Some n | None \<Rightarrow> unpadded_len digest) = Some sz)
      | (_, None) \<Rightarrow> False)"

definition validateIntegrity :: "string \<Rightarrow> bool" where
  "validateIntegrity s = (Fields s \<noteq> [] \<and> list_all integrity_expr (Fields s))"

section \<open>Claims and options\<close>

record claims =
  cl_VCT :: string
  cl_AkaVCTs :: "string list option"
  cl_Iss :: string
  cl_Nbf :: "int option"
  cl_Exp :: "int option"
  cl_VCTIntegrity :: string
  cl_Status :: "(string, goval) gomap option"
  cl_CNF :: "(string, goval) gomap option"
  cl_Additional :: "(string \<times> claim) list"

record issue_options =
  io_HashAlg :: string
  io_Decoys :: int
  io_NestedDecoys :: bool
  io_KeyID :: string

datatype issue_error =
    IssueAka vc_error
  | ReservedInField string string
  | VCTRequired
  | BadIntegrity
  | BadDecoys int
  | MustBeClaims string
  | Sealing seal_error
  | CannotMarshal
  | Signing jose_error
  | JWTTooLong nat
  | SDJWTTooLong nat

definition day :: int where
  "day = 24 * 3600 * second"

definition RoundedExp :: "int \<Rightarrow> int \<Rightarrow> int" where
  "RoundedExp now lifetime = ((now - now mod day) + lifetime) div second"

definition reservedTopLevelClaims :: "string list" where
  "reservedTopLevelClaims =
     [''vct'', ''aka_vcts'', ''iss'', ''nbf'', ''exp'', ''vct#integrity'', ''status'', ''cnf'', ''_sd'', ''_sd_alg'', ''...'']"

fun reservedNameIn :: "goval \<Rightarrow> string option"
  and reserved_in_members :: "(string \<times> goval) list \<Rightarrow> string option"
  and reserved_in_elements :: "goval list \<Rightarrow> string option" where
  "reservedNameIn (GObj m) = reserved_in_members m"
| "reservedNameIn (GArr els) = reserved_in_elements els"
| "reservedNameIn _ = None"
| "reserved_in_members [] = None"
| "reserved_in_members ((k, child) # m) =
     (if isReservedName k then Some k
      else (case reservedNameIn child of Some name \<Rightarrow> Some name | None \<Rightarrow> reserved_in_members m))"
| "reserved_in_elements [] = None"
| "reserved_in_elements (child # els) =
     (case reservedNameIn child of Some name \<Rightarrow> Some name | None \<Rightarrow> reserved_in_elements els)"

definition checkNoReservedNames :: "string \<Rightarrow> (string, goval) gomap option \<Rightarrow> issue_error option" where
  "checkNoReservedNames field v =
     (case v of
        None \<Rightarrow> None
      | Some m \<Rightarrow> (case reservedNameIn (GObj m) of None \<Rightarrow> None | Some name \<Rightarrow> Some (ReservedInField field name)))"

definition checkIssueInputs :: "claims \<Rightarrow> issue_options \<Rightarrow> issue_error option" where
  "checkIssueInputs cl opts =
     and_then (case cl_AkaVCTs cl of None \<Rightarrow> None | Some aka \<Rightarrow> map_option IssueAka (checkAkaVCTs (cl_VCT cl) aka))
     (and_then (checkNoReservedNames ''Status'' (cl_Status cl))
     (and_then (checkNoReservedNames ''CNF'' (cl_CNF cl))
     (and_then (require (cl_VCT cl \<noteq> []) VCTRequired)
     (and_then (require (cl_VCTIntegrity cl = [] \<or> validateIntegrity (cl_VCTIntegrity cl)) BadIntegrity)
       (require (0 \<le> io_Decoys opts \<and> io_Decoys opts \<le> MaxDecoys) (BadDecoys (io_Decoys opts)))))))"

definition number :: "int \<Rightarrow> goval" where
  "number n = GFloat (Finite (of_int n))"

text \<open>The claims always signed in plaintext, in the order they are set.\<close>

definition plaintext_claims :: "claims \<Rightarrow> (string \<times> goval) list" where
  "plaintext_claims cl =
     [(''vct'', GStr (cl_VCT cl))] @
     (case cl_AkaVCTs cl of None \<Rightarrow> [] | Some aka \<Rightarrow> if aka = [] then [] else [(''aka_vcts'', GArr (map GStr aka))]) @
     (if cl_Iss cl \<noteq> [] then [(''iss'', GStr (cl_Iss cl))] else []) @
     (case cl_Nbf cl of None \<Rightarrow> [] | Some n \<Rightarrow> [(''nbf'', number n)]) @
     (case cl_Exp cl of None \<Rightarrow> [] | Some n \<Rightarrow> [(''exp'', number n)]) @
     (if cl_VCTIntegrity cl \<noteq> [] then [(''vct#integrity'', GStr (cl_VCTIntegrity cl))] else []) @
     (case cl_Status cl of None \<Rightarrow> [] | Some m \<Rightarrow> [(''status'', GObj m)]) @
     (case cl_CNF cl of None \<Rightarrow> [] | Some m \<Rightarrow> [(''cnf'', GObj m)])"

definition applyPlaintextClaims :: "(string, goval) gomap \<Rightarrow> claims \<Rightarrow> (string, goval) gomap" where
  "applyPlaintextClaims body cl = fold (\<lambda>(k, v). gm_put k v) (plaintext_claims cl) body"

definition issuerJWTHeader :: "issue_options \<Rightarrow> (string, goval) gomap" where
  "issuerJWTHeader opts =
     [(''typ'', GStr TypHeader)] @ (if io_KeyID opts \<noteq> [] then [(''kid'', GStr (io_KeyID opts))] else [])"

section \<open>Issuing\<close>

definition issue_sealer :: "hash_fn \<Rightarrow> (goval list \<Rightarrow> nat list option) \<Rightarrow> issue_options \<Rightarrow> sealer" where
  "issue_sealer h marshal opts =
     \<lparr> sl_hash = h, sl_alg = (if io_HashAlg opts = [] then DefaultHashAlg else io_HashAlg opts), sl_marshal = marshal,
       sl_nested = io_NestedDecoys opts \<rparr>"

text \<open>The payload \<open>Issue\<close> signs, and the Disclosures it makes.\<close>

definition issue_payload ::
  "sealer \<Rightarrow> claims \<Rightarrow> int \<Rightarrow> sealing \<Rightarrow> issue_error + ((string, goval) gomap \<times> disclosure list) \<times> sealing" where
  "issue_payload s cl decoys st =
     (case find (\<lambda>kc. fst kc \<in> set reservedTopLevelClaims) (cl_Additional cl) of
        Some kc \<Rightarrow> Inl (MustBeClaims (fst kc))
      | None \<Rightarrow>
          rbind (wrap_err Sealing (sealObject s (cl_Additional cl) 0 False st)) (\<lambda>((body, ds), st).
            (let body = applyPlaintextClaims body cl in
             rbind (if ds \<noteq> [] \<and> decoys > 0 then wrap_err Sealing (addDecoys s decoys body st) else Inr (body, st))
               (\<lambda>(body, st).
                 Inr ((if ds \<noteq> [] \<or> hasDisclosureDigest (GObj body) then gm_put ''_sd_alg'' (GStr (sl_alg s)) body else body,
                   ds), st)))))"

definition Issue ::
  "'p crypto \<Rightarrow> hash_fn \<Rightarrow> (goval list \<Rightarrow> nat list option) \<Rightarrow> 'p signer \<Rightarrow> string \<Rightarrow> claims \<Rightarrow> issue_options \<Rightarrow> sealing
     \<Rightarrow> issue_error + (string \<times> disclosure list) \<times> sealing" where
  "Issue cr h marshal sk alg cl opts st =
     (case checkIssueInputs cl opts of
        Some e \<Rightarrow> Inl e
      | None \<Rightarrow>
          rbind (issue_payload (issue_sealer h marshal opts) cl (io_Decoys opts) st) (\<lambda>((body, ds), st).
            (case cr_marshal cr body of
               None \<Rightarrow> Inl CannotMarshal
             | Some payload \<Rightarrow>
                 rbind (wrap_err Signing (Sign cr alg sk (issuerJWTHeader opts) payload)) (\<lambda>issuerJWT.
                   if length issuerJWT > MaxCompactBytes then Inl (JWTTooLong (length issuerJWT))
                   else (let out = SDJWT \<lparr> pn_IssuerJWT = issuerJWT, pn_Disclosures = ds, pn_KeyBindingJWT = [] \<rparr> in
                     if length out > MaxBytes then Inl (SDJWTTooLong (length out)) else Inr ((out, ds), st))))))"

section \<open>The payload stands for the claims\<close>

text \<open>A value without markers, as a claim.\<close>

fun unmarked :: "goval \<Rightarrow> claim"
  and unmarked_members :: "(string \<times> goval) list \<Rightarrow> (string \<times> claim) list"
  and unmarked_elements :: "goval list \<Rightarrow> claim list" where
  "unmarked (GObj m) = CObj (unmarked_members m)"
| "unmarked (GArr els) = CArr (unmarked_elements els)"
| "unmarked v = CVal v"
| "unmarked_members [] = []"
| "unmarked_members ((k, v) # m) = (k, unmarked v) # unmarked_members m"
| "unmarked_elements [] = []"
| "unmarked_elements (v # els) = unmarked v # unmarked_elements els"

lemma plain_unmarked:
  "plain (unmarked v) = v" "plain_members (unmarked_members m) = m" "plain_elements (unmarked_elements els) = els"
  by (induction v and m and els rule: unmarked_unmarked_members_unmarked_elements.induct) auto

lemma keys_unmarked: "map fst (unmarked_members m) = map fst m"
  by (induction m) auto

lemma unmarked_ok:
  "goval_ok v \<Longrightarrow> claim_ok (unmarked v)"
  "\<forall>kv \<in> set m. goval_ok (snd kv) \<Longrightarrow> \<forall>kc \<in> set (unmarked_members m). claim_ok (snd kc)"
  "\<forall>el \<in> set els. goval_ok el \<Longrightarrow> \<forall>c \<in> set (unmarked_elements els). claim_ok c"
  by (induction v and m and els rule: unmarked_unmarked_members_unmarked_elements.induct)
    (auto simp: keys_unmarked gm_ok_def is_scalar_def)

lemma sealed_unmarked:
  "goval_ok v \<Longrightarrow> reservedNameIn v = None \<Longrightarrow> sealed s (unmarked v) v [] []"
  "\<forall>kv \<in> set m. goval_ok (snd kv) \<Longrightarrow> reserved_in_members m = None \<Longrightarrow> sealed_members s (unmarked_members m) m [] [] []"
  "\<forall>el \<in> set els. goval_ok el \<Longrightarrow> reserved_in_elements els = None \<Longrightarrow> sealed_elements s (unmarked_elements els) els [] []"
proof (induction v and m and els rule: unmarked_unmarked_members_unmarked_elements.induct)
  case (1 m)
  then have members: "sealed_members s (unmarked_members m) m [] [] []" and ok: "gm_ok m" by simp_all
  have own: "\<forall>k \<in> set (map fst m). \<not> isReservedName k"
    using sealed_members_names [OF members] by (simp add: keys_unmarked)
  show ?case
    using s_obj [OF members, of "[]" "[]" m] with_sd_carries [OF ok own, of "[]"] by (simp add: with_sd_def)
next
  case (2 els)
  then show ?case by (simp add: s_arr)
next
  case (5 k v m)
  then show ?case using m_own [of k s "unmarked v" v "[]" "[]" "unmarked_members m" m "[]" "[]" "[]"]
    by (auto split: if_splits option.splits)
next
  case (7 v els)
  then show ?case using e_own [of s "unmarked v" v "[]" "[]" "unmarked_elements els" els "[]" "[]"]
    by (auto split: option.splits)
qed (auto intro: s_val m_nil e_nil simp: is_scalar_def)

lemma sealed_members_append:
  "sealed_members s m1 out1 here1 ds1 dec1 \<Longrightarrow> sealed_members s m2 out2 here2 ds2 dec2 \<Longrightarrow>
     sealed_members s (m1 @ m2) (out1 @ out2) (here1 @ here2) (ds1 @ ds2) (dec1 @ dec2)"
proof (induction m1 arbitrary: out1 here1 ds1 dec1)
  case Nil
  then show ?case by (auto elim: sealed_members.cases)
next
  case (Cons a m1)
  from Cons.prems(1) show ?case
    by (cases rule: sealed_members.cases) (use Cons.IH Cons.prems(2) in \<open>fastforce intro: m_sd m_own\<close>)+
qed

lemma filter_own_put: "\<not> own_name k \<Longrightarrow> filter (\<lambda>kv. own_name (fst kv)) (gm_put k v p) = filter (\<lambda>kv. own_name (fst kv)) p"
  by (induction p) auto

lemma not_own [simp]: "\<not> own_name ''_sd''" "\<not> own_name ''_sd_alg''"
  by (simp_all add: own_name_def)

lemma carries_put_sd: "carries dgs out p \<Longrightarrow> carries dgs' out (gm_put ''_sd'' (GArr (map GStr dgs')) p)"
  by (auto simp: carries_def filter_own_put)

lemma carries_put_alg: "carries dgs out p \<Longrightarrow> carries dgs out (gm_put ''_sd_alg'' v p)"
  by (auto simp: carries_def filter_own_put)

lemma disjoint_insert: "A \<inter> B = {} \<Longrightarrow> x \<notin> A \<Longrightarrow> C \<subseteq> insert x B \<Longrightarrow> A \<inter> C = {}"
  by blast

lemma carries_append:
  assumes "carries dgs out p" and "gm_ok (p @ m)" and "\<forall>kv \<in> set m. own_name (fst kv)"
  shows "carries dgs (out @ m) (p @ m)"
proof -
  have "gm_get m ''_sd'' = None" using assms(3) by (force simp: map_of_eq_None_iff)
  then show ?thesis using assms by (auto simp: carries_def map_add_def)
qed

lemma fold_put_fresh:
  "gm_ok m \<Longrightarrow> fst ` set m \<inter> fst ` set p = {} \<Longrightarrow> fold (\<lambda>(k, v). gm_put k v) m p = p @ m"
proof (induction m arbitrary: p)
  case (Cons kv m)
  obtain k v where kv: "kv = (k, v)" by (cases kv)
  have fresh: "k \<notin> fst ` set p" "gm_ok m" "fst ` set m \<inter> fst ` set (p @ [(k, v)]) = {}"
    using Cons.prems by (auto simp: kv)
  from Cons.IH [OF fresh(2,3)] show ?case by (simp add: kv update_fresh [OF fresh(1)])
qed simp

definition at_most_one :: "string \<Rightarrow> (string, goval) gomap \<Rightarrow> bool" where
  "at_most_one k m = (m = [] \<or> (\<exists>v. m = [(k, v)]))"

lemma at_most_one_append:
  "at_most_one k m \<Longrightarrow> gm_ok rest \<and> fst ` set rest \<subseteq> set ks \<Longrightarrow> k \<notin> set ks \<Longrightarrow>
     gm_ok (m @ rest) \<and> fst ` set (m @ rest) \<subseteq> set (k # ks)"
  by (auto simp: at_most_one_def)

lemma at_most_one_last: "at_most_one k m \<Longrightarrow> gm_ok m \<and> fst ` set m \<subseteq> set [k]"
  by (auto simp: at_most_one_def)

lemma plaintext_names: "gm_ok (plaintext_claims cl)" "fst ` set (plaintext_claims cl) \<subseteq> set nonDisclosableClaims"
proof -
  have "gm_ok (plaintext_claims cl) \<and> fst ` set (plaintext_claims cl) \<subseteq>
      set [''vct'', ''aka_vcts'', ''iss'', ''nbf'', ''exp'', ''vct#integrity'', ''status'', ''cnf'']"
    unfolding plaintext_claims_def
    by (intro at_most_one_append at_most_one_last) (simp_all add: at_most_one_def split: option.split)
  then show "gm_ok (plaintext_claims cl)" "fst ` set (plaintext_claims cl) \<subseteq> set nonDisclosableClaims"
    unfolding nonDisclosableClaims_def by auto
qed

lemma nonDisclosable_reserved: "set nonDisclosableClaims \<subseteq> set reservedTopLevelClaims"
  by (simp add: nonDisclosableClaims_def reservedTopLevelClaims_def)

lemma nonDisclosable_unreserved: "k \<in> set nonDisclosableClaims \<Longrightarrow> \<not> isReservedName k \<and> own_name k"
  by (auto simp: nonDisclosableClaims_def isReservedName_def own_name_def)

text \<open>The claims a credential carries, \<open>cl\<close>'s own and its additional ones, without their markers.\<close>

definition issued_tree :: "claims \<Rightarrow> (string \<times> claim) list" where
  "issued_tree cl = cl_Additional cl @ unmarked_members (plaintext_claims cl)"

definition objects_ok :: "claims \<Rightarrow> bool" where
  "objects_ok cl =
     (claim_ok (CObj (cl_Additional cl)) \<and> (case cl_Status cl of None \<Rightarrow> True | Some m \<Rightarrow> goval_ok (GObj m)) \<and>
      (case cl_CNF cl of None \<Rightarrow> True | Some m \<Rightarrow> goval_ok (GObj m)))"

lemma plaintext_values:
  assumes "objects_ok cl" and "checkIssueInputs cl opts = None"
  shows "\<forall>kv \<in> set (plaintext_claims cl). goval_ok (snd kv) \<and> reservedNameIn (snd kv) = None"
    and "reserved_in_members (plaintext_claims cl) = None"
proof -
  have strs: "reserved_in_elements (map GStr aka) = None" for aka by (induction aka) auto
  have field: "reserved_in_members m = None" if "checkNoReservedNames f (Some m) = None" for f m
    using that by (auto simp: checkNoReservedNames_def split: option.splits)
  have status: "goval_ok (GObj m) \<and> reserved_in_members m = None" if "cl_Status cl = Some m" for m
    using assms that field by (auto simp: objects_ok_def checkIssueInputs_def)
  have cnf: "goval_ok (GObj m) \<and> reserved_in_members m = None" if "cl_CNF cl = Some m" for m
    using assms that field by (auto simp: objects_ok_def checkIssueInputs_def)
  show all: "\<forall>kv \<in> set (plaintext_claims cl). goval_ok (snd kv) \<and> reservedNameIn (snd kv) = None"
    unfolding plaintext_claims_def set_append ball_Un number_def
    by (intro conjI) (auto simp: strs dest: status [OF sym] cnf [OF sym] split: option.splits)
  have "reserved_in_members m = None" if "\<forall>kv \<in> set m. reservedNameIn (snd kv) = None \<and> \<not> isReservedName (fst kv)" for m
    using that by (induction m) auto
  then show "reserved_in_members (plaintext_claims cl) = None"
    using all plaintext_names(2) nonDisclosable_unreserved by blast
qed

lemma issued_tree_ok:
  assumes "objects_ok cl" and "checkIssueInputs cl opts = None"
    and "find (\<lambda>kc. fst kc \<in> set reservedTopLevelClaims) (cl_Additional cl) = None"
  shows "claim_ok (CObj (issued_tree cl))"
proof -
  have "\<forall>kc \<in> set (unmarked_members (plaintext_claims cl)). claim_ok (snd kc)"
    using unmarked_ok(2) plaintext_values(1) [OF assms(1,2)] by blast
  moreover have "fst ` set (cl_Additional cl) \<inter> fst ` set (plaintext_claims cl) = {}"
    using assms(3) plaintext_names(2) nonDisclosable_reserved unfolding find_None_iff by blast
  then have "distinct (map fst (issued_tree cl))"
    using assms(1) plaintext_names(1) by (auto simp: issued_tree_def keys_unmarked gm_ok_def objects_ok_def)
  ultimately show ?thesis using assms(1) by (auto simp: issued_tree_def objects_ok_def)
qed

lemma issue_payload_names:
  "issue_payload s cl n st = Inr r \<Longrightarrow> find (\<lambda>kc. fst kc \<in> set reservedTopLevelClaims) (cl_Additional cl) = None"
  by (auto simp: issue_payload_def split: option.splits)

lemma issue_payload_carries:
  assumes run: "issue_payload s cl n st = Inr ((P, ds), st')"
    and ok: "objects_ok cl" and inputs: "checkIssueInputs cl opts = None"
  obtains out here dec decoys dgs where
    "sealed_members s (issued_tree cl) (out @ plaintext_claims cl) here ds dec"
    "mset dgs = mset (map fst here @ decoys)" "carries dgs (out @ plaintext_claims cl) P"
    "gm_get P ''_sd_alg'' = Some (GStr (sl_alg s)) \<or>
      gm_get P ''_sd_alg'' = None \<and> ds = [] \<and> \<not> hasDisclosureDigest (GObj P)"
proof -
  let ?regs = "plaintext_claims cl"
  from run obtain p0 st1 where none: "find (\<lambda>kc. fst kc \<in> set reservedTopLevelClaims) (cl_Additional cl) = None"
    and p0: "sealObject s (cl_Additional cl) 0 False st = Inr ((p0, ds), st1)"
    and rest: "rbind (if ds \<noteq> [] \<and> n > 0 then wrap_err Sealing (addDecoys s n (applyPlaintextClaims p0 cl) st1)
        else Inr (applyPlaintextClaims p0 cl, st1)) (\<lambda>(body, st).
          Inr ((if ds \<noteq> [] \<or> hasDisclosureDigest (GObj body) then gm_put ''_sd_alg'' (GStr (sl_alg s)) body else body, ds), st))
        = Inr ((P, ds), st')"
    by (auto simp: issue_payload_def ok_iffs Let_def split: option.splits)
  obtain out digests st0 where members: "seal_members s (cl_Additional cl) st = Inr ((out, digests, ds), st0)"
    and fin: "finish_object s False 0 out digests st0 = Inr (p0, st1)" using p0 by (auto simp: sealObject_def ok_iffs)
  obtain here dec where here: "digests = map fst here" and sealed: "sealed_members s (cl_Additional cl) out here ds dec"
    using seals_all(2) [unfolded seals_members_def] members ok by (fastforce simp: objects_ok_def)
  have tree: "sealed_members s (issued_tree cl) (out @ ?regs) here ds dec"
    using sealed_members_append [OF sealed sealed_unmarked(2) [OF _ plaintext_values(2) [OF ok inputs]]]
      plaintext_values(1) [OF ok inputs] by (simp add: issued_tree_def)
  have names: "mset (map fst (issued_tree cl)) = mset (map fst (out @ ?regs)) + mset (map (di_Name \<circ> snd) here)"
    using sealed_members_names [OF tree] by simp
  have "distinct (map fst (issued_tree cl))" using issued_tree_ok [OF ok inputs none] by simp
  then have dist: "distinct (map fst (out @ ?regs))" and sub: "set (map fst (out @ ?regs)) \<subseteq> set (map fst (issued_tree cl))"
    using names by (metis distinct_append mset_append mset_eq_imp_distinct_iff, metis Un_upper1 mset_append mset_eq_setD set_append)
  obtain dgs0 decoys0 where dgs0: "mset dgs0 = mset (map fst here @ decoys0)" and p0': "p0 = with_sd dgs0 out"
    using finish_object_Inr [OF fin] unfolding here by blast
  have "gm_ok out" using dist by (simp add: gm_ok_def)
  moreover have "\<forall>k \<in> set (map fst (issued_tree cl)). \<not> isReservedName k" using sealed_members_names [OF tree] by blast
  then have "\<forall>k \<in> set (map fst out). \<not> isReservedName k" using sub unfolding map_append set_append by blast
  ultimately have own: "gm_ok out" "\<forall>k \<in> set (map fst out). \<not> isReservedName k" by blast+
  have p0_carries: "carries dgs0 out p0" "gm_get p0 ''_sd_alg'' = None" using with_sd_carries [OF own] unfolding p0' by blast+
  have keys: "fst ` set p0 \<subseteq> insert ''_sd'' (set (map fst out))"
    unfolding p0' with_sd_def by (auto simp: dom_update split: if_splits)
  have regs_own: "\<forall>kv \<in> set ?regs. own_name (fst kv) \<and> \<not> isReservedName (fst kv)"
    using plaintext_names(2) nonDisclosable_unreserved by blast
  have "fst ` set ?regs \<inter> set (map fst out) = {}" using dist by auto
  moreover have "''_sd'' \<notin> fst ` set ?regs"
  proof
    assume "''_sd'' \<in> fst ` set ?regs"
    then obtain kv where "kv \<in> set ?regs" "fst kv = ''_sd''" by auto
    with regs_own have "own_name ''_sd''" by metis
    then show False by simp
  qed
  ultimately have disj: "fst ` set ?regs \<inter> fst ` set p0 = {}" by (rule disjoint_insert [OF _ _ keys])
  have p1: "applyPlaintextClaims p0 cl = p0 @ ?regs"
    unfolding applyPlaintextClaims_def by (rule fold_put_fresh [OF plaintext_names(1) disj])
  have "gm_ok (p0 @ ?regs)"
    using p0_carries(1) plaintext_names(1) disj unfolding gm_ok_def carries_def map_append distinct_append set_map by blast
  then have p1_carries: "carries dgs0 (out @ ?regs) (p0 @ ?regs)"
    using carries_append [OF p0_carries(1)] regs_own by blast
  have "gm_get ?regs ''_sd_alg'' = None" using regs_own by (force simp: map_of_eq_None_iff)
  then have p1_alg: "gm_get (p0 @ ?regs) ''_sd_alg'' = None" using p0_carries(2) by (simp add: map_add_def)
  obtain body st2 where body: "(if ds \<noteq> [] \<and> n > 0 then wrap_err Sealing (addDecoys s n (p0 @ ?regs) st1) else Inr (p0 @ ?regs, st1))
      = Inr (body, st2)" and P: "P = (if ds \<noteq> [] \<or> hasDisclosureDigest (GObj body) then gm_put ''_sd_alg'' (GStr (sl_alg s)) body else body)"
    using rest unfolding p1 by (auto simp: ok_iffs)
  have "\<exists>dgs decoys. mset dgs = mset (map fst here @ decoys) \<and> carries dgs (out @ ?regs) body \<and> gm_get body ''_sd_alg'' = None"
  proof (cases "ds \<noteq> [] \<and> n > 0")
    case True
    with body obtain decoys where b: "body = gm_put ''_sd'' (GArr (map GStr (sort (dgs0 @ decoys)))) (p0 @ ?regs)"
      by (auto simp: addDecoys_def carries_sd_digests [OF p1_carries] ok_iffs split: if_splits)
    have "mset (sort (dgs0 @ decoys)) = mset (map fst here @ decoys0 @ decoys)" using dgs0 by simp
    moreover have "carries (sort (dgs0 @ decoys)) (out @ ?regs) body" unfolding b by (rule carries_put_sd [OF p1_carries])
    moreover have "gm_get body ''_sd_alg'' = None" using p1_alg unfolding b gm_get_put by simp
    ultimately show ?thesis by blast
  next
    case False
    with body have "body = p0 @ ?regs" by auto
    with dgs0 p1_carries p1_alg show ?thesis by blast
  qed
  then obtain dgs decoys where dgs: "mset dgs = mset (map fst here @ decoys)" and c: "carries dgs (out @ ?regs) body"
    and alg: "gm_get body ''_sd_alg'' = None" by blast
  have "carries dgs (out @ ?regs) P" using c carries_put_alg [OF c] unfolding P by simp
  moreover have "gm_get P ''_sd_alg'' = Some (GStr (sl_alg s)) \<or>
      gm_get P ''_sd_alg'' = None \<and> ds = [] \<and> \<not> hasDisclosureDigest (GObj P)"
    using alg unfolding P by auto
  ultimately show ?thesis using that [OF tree dgs] by blast
qed

section \<open>What verifying asks of the payload\<close>

lemma no_reserved_no_digest:
  "reservedNameIn v = None \<Longrightarrow> \<not> hasDisclosureDigest v"
  "reserved_in_members m = None \<Longrightarrow> \<forall>kv \<in> set m. \<not> isReservedName (fst kv) \<and> \<not> hasDisclosureDigest (snd kv)"
  "reserved_in_elements els = None \<Longrightarrow> \<forall>el \<in> set els. \<not> hasDisclosureDigest el"
proof (induction v and m and els rule: reservedNameIn_reserved_in_members_reserved_in_elements.induct)
  case (1 m)
  then have names: "\<forall>kv \<in> set m. \<not> isReservedName (fst kv) \<and> \<not> hasDisclosureDigest (snd kv)" by simp
  then have "gm_get m ''_sd'' = None" "gm_get m ''...'' = None"
    by (force simp: map_of_eq_None_iff isReservedName_def)+
  with names show ?case by simp
qed (auto split: if_splits option.splits)

lemma resolve_nothing: "ResolveDisclosures h p alg [] = ResolveDisclosures h p alg' []"
  by (simp add: ResolveDisclosures_def ResolveDisclosuresMax_def)

lemma payload_member:
  assumes "carries dgs (out @ regs) p" and "name \<in> fst ` set regs" and "\<forall>kv \<in> set regs. own_name (fst kv)"
  shows "gm_get p name = gm_get regs name"
proof -
  have "distinct (map fst (out @ regs))"
    using assms(1) gm_ok_filter [of p "\<lambda>kv. own_name (fst kv)"] by (auto simp: carries_def gm_ok_def)
  then have "name \<notin> fst ` set out" using assms(2) by auto
  then have "gm_get out name = None" by (simp add: map_of_eq_None_iff)
  moreover have "own_name name" using assms(2,3) by auto
  ultimately show ?thesis using carries_own [OF assms(1), of name] by (simp add: map_add_def)
qed

lemma payload_no_member:
  assumes "carries dgs out p" and "own_name name" and "name \<notin> fst ` set out"
  shows "gm_get p name = None"
  using carries_own [OF assms(1,2)] assms(3) by (simp add: map_of_eq_None_iff)

text \<open>A registered claim a payload has is one of those in plaintext, as \<open>cl\<close> gives it.\<close>

lemma issued_member:
  assumes "carries dgs (out @ plaintext_claims cl) P" and "name \<in> set nonDisclosableClaims"
    and "set (map fst (out @ plaintext_claims cl)) \<subseteq> set (map fst (issued_tree cl))"
    and "find (\<lambda>kc. fst kc \<in> set reservedTopLevelClaims) (cl_Additional cl) = None"
  shows "gm_get P name = gm_get (plaintext_claims cl) name"
proof (cases "name \<in> fst ` set (plaintext_claims cl)")
  case True
  then show ?thesis using payload_member [OF assms(1) True] plaintext_names(2) nonDisclosable_unreserved by blast
next
  case False
  have "name \<notin> fst ` set (cl_Additional cl)"
    using assms(2,4) nonDisclosable_reserved unfolding find_None_iff by blast
  with False have "name \<notin> fst ` set (out @ plaintext_claims cl)"
    using assms(3) by (auto simp: issued_tree_def keys_unmarked)
  moreover have "own_name name" using nonDisclosable_unreserved assms(2) by blast
  ultimately have "gm_get P name = None" using payload_no_member [OF assms(1)] by blast
  moreover have "gm_get (plaintext_claims cl) name = None" using False unfolding map_of_eq_None_iff .
  ultimately show ?thesis by simp
qed

lemma sealed_here: "sealed_members s m out here ds dec \<Longrightarrow> dd \<in> set here \<Longrightarrow> snd dd \<in> set ds \<and> digest_of s (snd dd) = fst dd"
proof (induction m arbitrary: out here ds dec)
  case (Cons a m)
  from Cons.prems(1) show ?case
    by (cases rule: sealed_members.cases) (use Cons.IH Cons.prems(2) in \<open>auto dest: digest_of_Inr\<close>)
qed (auto elim: sealed_members.cases)

lemma plaintext_get:
  "gm_get (plaintext_claims cl) ''vct'' = Some (GStr (cl_VCT cl))"
  "gm_get (plaintext_claims cl) ''aka_vcts'' =
     (case cl_AkaVCTs cl of None \<Rightarrow> None | Some aka \<Rightarrow> if aka = [] then None else Some (GArr (map GStr aka)))"
  "gm_get (plaintext_claims cl) ''nbf'' = map_option number (cl_Nbf cl)"
  "gm_get (plaintext_claims cl) ''exp'' = map_option number (cl_Exp cl)"
  by (simp_all add: plaintext_claims_def map_add_def split: option.split)

text \<open>Now is inside the validity the claims give.\<close>

definition valid_at :: "claims \<Rightarrow> int \<Rightarrow> int \<Rightarrow> int \<Rightarrow> bool" where
  "valid_at cl expNow nbfNow skew =
     ((case cl_Exp cl of None \<Rightarrow> True | Some e \<Rightarrow> 0 \<le> e \<and> e \<le> MaxDate \<and> expNow - skew < e * second) \<and>
      (case cl_Nbf cl of None \<Rightarrow> True | Some n \<Rightarrow> 0 \<le> n \<and> n \<le> MaxDate \<and> n * second \<le> nbfNow + skew))"

lemma FromFloat_number: "0 \<le> n \<Longrightarrow> n \<le> MaxDate \<Longrightarrow> FromFloat (Finite (of_int n)) = Inr (n * second)"
  by simp

lemma issued_window:
  assumes "gm_get P ''exp'' = map_option number (cl_Exp cl)" and "gm_get P ''nbf'' = map_option number (cl_Nbf cl)"
    and "valid_at cl expNow nbfNow skew"
  shows "checkValidityWindow P expNow nbfNow skew = None"
proof -
  have date: "date_claim P k = Inr (map_option (\<lambda>n. n * second) t)"
    if "gm_get P k = map_option number t" "case t of None \<Rightarrow> True | Some n \<Rightarrow> 0 \<le> n \<and> n \<le> MaxDate" for k t
    using that FromFloat_number by (cases t) (auto simp: date_claim_def number_def)
  have "date_claim P ''exp'' = Inr (map_option (\<lambda>n. n * second) (cl_Exp cl))"
    and "date_claim P ''nbf'' = Inr (map_option (\<lambda>n. n * second) (cl_Nbf cl))"
    using date [OF assms(1)] date [OF assms(2)] assms(3) by (auto simp: valid_at_def split: option.splits)
  then show ?thesis using assms(3)
    by (auto simp: checkValidityWindow_def valid_at_def split: option.splits)
qed

lemma issued_aka:
  assumes "gm_get P ''aka_vcts'' = (case cl_AkaVCTs cl of None \<Rightarrow> None | Some aka \<Rightarrow> if aka = [] then None else Some (GArr (map GStr aka)))"
    and "checkIssueInputs cl opts = None"
  shows "(case gm_get P ''aka_vcts'' of Some raw \<Rightarrow> checkAkaVCTsClaim (GStr (cl_VCT cl)) raw | None \<Rightarrow> None) = None"
proof (cases "cl_AkaVCTs cl")
  case (Some aka)
  then have "checkAkaVCTs (cl_VCT cl) aka = None" using assms(2) by (simp add: checkIssueInputs_def)
  with Some assms(1) show ?thesis by (auto simp: checkAkaVCTsClaim_def map_filter_strings)
qed (use assms(1) in simp)

text \<open>No Disclosure at the top level is a registered claim's: their digests stand elsewhere, as they are all different.\<close>

lemma issued_not_disclosed:
  assumes "sealed_members s m out here ds dec" and "mset dgs = mset (map fst here @ decoys)" and "sd_digests P = dgs"
    and "distinct (map (digest_of s) ds @ decoys @ dec)" and "\<forall>dd \<in> set here. di_Name (snd dd) \<notin> set nonDisclosableClaims"
  shows "checkNoRegisteredClaimDisclosed (sl_hash s) P (sl_alg s) ds = None"
proof -
  have digests: "\<forall>d \<in> set ds. Digest (sl_hash s) (sl_alg s) d = Inr (digest_of s d)"
    using sealed_digests(2) [OF assms(1)] unfolding digest_of_iff .
  have "digest_of s d \<notin> set dgs" if d: "d \<in> set ds" "di_Name d \<in> set nonDisclosableClaims" for d
  proof
    assume "digest_of s d \<in> set dgs"
    then have "digest_of s d \<in> fst ` set here \<union> set decoys" using mset_eq_setD [OF assms(2)] by simp
    moreover have "digest_of s d \<notin> set decoys" using assms(4) d(1) by auto
    ultimately obtain dd where dd: "dd \<in> set here" "digest_of s d = fst dd" by auto
    have "snd dd \<in> set ds \<and> digest_of s (snd dd) = fst dd" using sealed_here [OF assms(1) dd(1)] .
    moreover have "inj_on (digest_of s) (set ds)" using assms(4) by (simp add: distinct_map)
    ultimately have "snd dd = d" using dd(2) d(1) by (metis inj_onD)
    with assms(5) dd(1) d(2) show False by auto
  qed
  then have free: "\<forall>d \<in> set ds. di_Name d \<in> set nonDisclosableClaims \<longrightarrow> digest_of s d \<notin> set dgs" by blast
  have "first_registered (sl_hash s) (sl_alg s) dgs es = None" if "set es \<subseteq> set ds" for es
    using that
  proof (induction es)
    case (Cons d es)
    have "d \<in> set ds" using Cons.prems by simp
    then have "Digest (sl_hash s) (sl_alg s) d = Inr (digest_of s d)" by (rule bspec [OF digests])
    moreover have "di_Name d \<in> set nonDisclosableClaims \<longrightarrow> digest_of s d \<notin> set dgs" using Cons.prems free by simp
    moreover have "first_registered (sl_hash s) (sl_alg s) dgs es = None" using Cons by simp
    ultimately show ?case unfolding first_registered.simps by (cases "di_Name d \<in> set nonDisclosableClaims") simp_all
  qed simp
  then have "first_registered (sl_hash s) (sl_alg s) (sd_digests P) ds = None" using assms(3) by simp
  then show ?thesis
    by (auto simp: checkNoRegisteredClaimDisclosed_def sd_digests_def split: option.splits goval.splits list.splits)
qed

lemma issued_sub_claims:
  assumes "\<And>name. name \<in> set nonDisclosableClaims \<Longrightarrow> gm_get P name = gm_get regs name"
    and "\<forall>kv \<in> set regs. reservedNameIn (snd kv) = None"
  shows "checkNoRegisteredSubClaimDisclosable P = None"
proof -
  have "\<not> hasDisclosureDigest v" if "name \<in> set nonDisclosableClaims" "gm_get P name = Some v" for name v
  proof -
    have "gm_get regs name = Some v" using assms(1) [OF that(1)] that(2) by simp
    then have "(name, v) \<in> set regs" by (rule map_of_SomeD)
    then show ?thesis using assms(2) no_reserved_no_digest(1) by force
  qed
  then show ?thesis
    unfolding checkNoRegisteredSubClaimDisclosable_def first_err_None_iff
    by (auto split: option.splits dest: nth_mem)
qed

text \<open>What verifying checks of the payload \<open>Issue\<close> signs, and what it resolves to.\<close>

lemma issued_payload_verifies:
  assumes run: "issue_payload s cl n st = Inr ((P, ds), st')" and ok: "objects_ok cl"
    and inputs: "checkIssueInputs cl opts = None" and depth: "members_depth (issued_tree cl) \<le> 32"
    and diff: "distinct (all_placed P ds)" and pres: "pn_Disclosures pres = ds"
    and supported: "sl_alg s \<noteq> []"
    and valid: "valid_at cl expNow nbfNow (vo_MaxClockSkew vopts)" and skew: "0 \<le> vo_MaxClockSkew vopts"
  shows "\<exists>alg out. accept_payload (sl_hash s) expNow nbfNow vopts pres P = Inr alg \<and>
    ResolveDisclosures (sl_hash s) P alg ds = Inr out \<and> same (GObj out) (plain (CObj (issued_tree cl)))"
proof -
  let ?regs = "plaintext_claims cl"
  obtain out here dec decoys dgs where members: "sealed_members s (issued_tree cl) (out @ ?regs) here ds dec"
    and dgs: "mset dgs = mset (map fst here @ decoys)" and P: "carries dgs (out @ ?regs) P"
    and alg: "gm_get P ''_sd_alg'' = Some (GStr (sl_alg s)) \<or>
      gm_get P ''_sd_alg'' = None \<and> ds = [] \<and> \<not> hasDisclosureDigest (GObj P)"
    by (rule issue_payload_carries [OF run ok inputs])
  have none: "find (\<lambda>kc. fst kc \<in> set reservedTopLevelClaims) (cl_Additional cl) = None"
    using run by (rule issue_payload_names)
  have tree: "claim_ok (CObj (issued_tree cl))" using issued_tree_ok [OF ok inputs none] .
  have depth': "claim_depth (CObj (issued_tree cl)) \<le> 33" using depth by simp
  have alg_ok: "goval_ok a" if "gm_get P ''_sd_alg'' = Some a" for a using alg that by auto
  note restored = sealed_object_restores [OF members dgs P alg_ok tree depth' diff]
  have dist: "distinct (map (digest_of s) ds @ decoys @ dec)" by (rule restored(1))
  have restores: "\<exists>out. ResolveDisclosures (sl_hash s) P (sl_alg s) ds = Inr out \<and> same (GObj out) (plain (CObj (issued_tree cl)))"
    by (rule restored(2))
  have names: "mset (map fst (issued_tree cl)) = mset (map fst (out @ ?regs)) + mset (map (di_Name \<circ> snd) here)"
    using sealed_members_names [OF members] by blast
  have sub: "set (map fst (out @ ?regs)) \<subseteq> set (map fst (issued_tree cl))"
    using names by (metis Un_upper1 mset_append mset_eq_setD set_append)
  have member: "gm_get P name = gm_get ?regs name" if "name \<in> set nonDisclosableClaims" for name
    by (rule issued_member [OF P that sub none])
  have subs: "checkNoRegisteredSubClaimDisclosable P = None"
    using issued_sub_claims [OF member] plaintext_values(1) [OF ok inputs] by blast
  have "distinct (map fst (issued_tree cl))" using tree by simp
  then have "distinct (map fst (out @ ?regs) @ map (di_Name \<circ> snd) here)"
    using names by (metis mset_append mset_eq_imp_distinct_iff)
  then have here_dist: "distinct (map fst out @ map fst ?regs @ map (di_Name \<circ> snd) here)" by simp
  have "set (map (di_Name \<circ> snd) here) \<subseteq> set (map fst (issued_tree cl))"
    using names by (metis Un_upper2 mset_append mset_eq_setD set_append)
  moreover have "set (map fst (issued_tree cl)) \<inter> set nonDisclosableClaims \<subseteq> fst ` set ?regs"
  proof
    fix k assume k: "k \<in> set (map fst (issued_tree cl)) \<inter> set nonDisclosableClaims"
    have "k \<notin> fst ` set (cl_Additional cl)"
      using k none nonDisclosable_reserved unfolding find_None_iff by blast
    with k show "k \<in> fst ` set ?regs" by (auto simp: issued_tree_def keys_unmarked)
  qed
  moreover have "fst ` set ?regs \<inter> set (map (di_Name \<circ> snd) here) = {}" using here_dist by auto
  ultimately have "set (map (di_Name \<circ> snd) here) \<inter> set nonDisclosableClaims = {}" by blast
  then have here_names: "\<forall>dd \<in> set here. di_Name (snd dd) \<notin> set nonDisclosableClaims" by auto
  have vct: "gm_get P ''vct'' = Some (GStr (cl_VCT cl))"
    and exp: "gm_get P ''exp'' = map_option number (cl_Exp cl)" and nbf: "gm_get P ''nbf'' = map_option number (cl_Nbf cl)"
    and aka: "gm_get P ''aka_vcts'' = (case cl_AkaVCTs cl of None \<Rightarrow> None | Some aka \<Rightarrow> if aka = [] then None else Some (GArr (map GStr aka)))"
    by (simp_all add: member nonDisclosableClaims_def plaintext_get)
  let ?fallback = "if vo_HashAlg vopts = [] then DefaultHashAlg else vo_HashAlg vopts"
  show ?thesis
  proof (cases "gm_get P ''_sd_alg''")
    case None
    then have "ds = []" using alg by simp
    have "PayloadHashAlg P ?fallback = Inr ?fallback" using None by (simp add: PayloadHashAlg_def)
    moreover have "checkNoRegisteredClaimDisclosed (sl_hash s) P ?fallback ds = None"
      using \<open>ds = []\<close> by (simp add: checkNoRegisteredClaimDisclosed_def split: list.split)
    ultimately have "accept_payload (sl_hash s) expNow nbfNow vopts pres P = Inr ?fallback"
      using vct issued_window [OF exp nbf valid] issued_aka [OF aka inputs] subs skew pres by (simp add: accept_payload_def)
    moreover have "ResolveDisclosures (sl_hash s) P ?fallback ds = ResolveDisclosures (sl_hash s) P (sl_alg s) ds"
      unfolding \<open>ds = []\<close> by (rule resolve_nothing)
    ultimately show ?thesis using restores by auto
  next
    case (Some a)
    then have "a = GStr (sl_alg s)" using alg by simp
    then have "PayloadHashAlg P ?fallback = Inr (sl_alg s)" using Some supported by (simp add: PayloadHashAlg_def)
    moreover have "checkNoRegisteredClaimDisclosed (sl_hash s) P (sl_alg s) ds = None"
      using issued_not_disclosed [OF members dgs carries_sd_digests [OF P] dist here_names] .
    ultimately have "accept_payload (sl_hash s) expNow nbfNow vopts pres P = Inr (sl_alg s)"
      using vct issued_window [OF exp nbf valid] issued_aka [OF aka inputs] subs skew pres by (simp add: accept_payload_def)
    then show ?thesis using restores by auto
  qed
qed

lemma issued_parses:
  assumes "issue_payload s cl n st = Inr ((P, ds), st')" and "objects_ok cl" and "checkIssueInputs cl opts = None"
    and "\<forall>arr raw. sl_marshal s arr = Some raw \<longrightarrow> (\<forall>b \<in> set raw. b < 256) \<and> json raw = Some arr"
  shows "\<forall>d \<in> set ds. ParseDisclosure json (di_encoded d) = Inr d"
proof -
  obtain out here dec where "sealed_members s (issued_tree cl) out here ds dec"
    using issue_payload_carries [OF assms(1-3)] by metis
  from sealed_encodes(2) [OF this] encodes_parses [OF _ _ assms(4)] show ?thesis by blast
qed

section \<open>Properties\<close>

lemma issue_sealer_alg: "sl_alg (issue_sealer h marshal opts) \<noteq> []"
  by (simp add: issue_sealer_def DefaultHashAlg_def SHA256_def)

lemma TypeIs_TypHeader: "TypeIs TypHeader TypHeader"
  by code_simp

lemma plain_members_append: "plain_members (a @ b) = plain_members a @ plain_members b"
  by (induction a) auto

lemma plain_issued: "plain_members (issued_tree cl) = plain_members (cl_Additional cl) @ plaintext_claims cl"
  by (simp add: issued_tree_def plain_members_append plain_unmarked)

lemma tilde_not_dot: "tilde \<notin> insert (CHR ''.'') (set b64url_alphabet)"
  using tilde_not_alphabet by (simp add: tilde_def)

lemma Issue_Inr:
  assumes "Issue cr h marshal sk alg cl opts st = Inr ((sdjwt, ds), st')"
  obtains P st1 payload jwt where "checkIssueInputs cl opts = None"
    "issue_payload (issue_sealer h marshal opts) cl (io_Decoys opts) st = Inr ((P, ds), st')"
    "cr_marshal cr P = Some payload" "Sign cr alg sk (issuerJWTHeader opts) payload = Inr jwt"
    "length jwt \<le> MaxCompactBytes" "sdjwt = SDJWT \<lparr> pn_IssuerJWT = jwt, pn_Disclosures = ds, pn_KeyBindingJWT = [] \<rparr>"
    "length sdjwt \<le> MaxBytes"
  using assms by (auto simp: Issue_def ok_iffs Let_def split: option.splits if_splits)

lemma issuer_header:
  "gm_get (issuerJWTHeader opts) ''crit'' = None"
  "str_member (gm_put ''alg'' (GStr alg) (issuerJWTHeader opts)) ''typ'' = TypHeader"
  by (simp_all add: issuerJWTHeader_def str_member_def)

text \<open>C3: what \<open>Issue\<close> signs, \<open>Verify\<close> accepts under the Issuer's key, and the claims it then returns are those issued,
  each marker gone: every claim given in plaintext or selectively disclosable at any depth, and nothing else. It asks
  of the claims that they nest within the 33 levels \<open>Verify\<close> resolves and that now is inside their validity; of the
  hash that no two digests placed are the same; and of JSON and the signature scheme that each reads back what it wrote.\<close>

theorem issued_verifies:
  assumes "Issue cr h marshal sk alg cl opts st = Inr ((sdjwt, ds), st')" and "objects_ok cl"
    and "members_depth (issued_tree cl) \<le> 32"
    and "\<forall>P. issue_payload (issue_sealer h marshal opts) cl (io_Decoys opts) st = Inr ((P, ds), st') \<longrightarrow> distinct (all_placed P ds)"
    and "vo_RequireKeyBinding vopts = Some KeyBindingNotRequired" and "0 \<le> vo_MaxClockSkew vopts"
    and "valid_at cl expNow nbfNow (vo_MaxClockSkew vopts)"
    and "\<forall>arr raw. marshal arr = Some raw \<longrightarrow> (\<forall>b \<in> set raw. b < 256) \<and> json raw = Some arr"
    and "\<forall>m raw. cr_marshal cr m = Some raw \<longrightarrow> (\<forall>b \<in> set raw. b < 256) \<and> cr_json cr raw = Some m"
    and "\<forall>p m der r s. sg_Public sk = ECKey True p \<longrightarrow> sg_Sign sk (cr_sha256 cr m) = Some der \<longrightarrow>
      cr_asn1_unmarshal cr der = Some ((r, s), []) \<longrightarrow> cr_asn1_marshal cr r s = der \<and> cr_ecdsa cr p (cr_sha256 cr m) der"
    and "\<forall>k m sig. sg_Public sk = EdKey k \<longrightarrow> sg_Sign sk m = Some sig \<longrightarrow>
      length k = 32 \<and> \<not> IsSmallOrderEd25519 k \<and> (\<forall>b \<in> set sig. b < 256) \<and> cr_ed25519 cr k m sig"
  shows "\<exists>out header. VerifyVC cr h json (expNow, nbfNow, kbNow) sdjwt (sg_Public sk) alg vopts = Inr (out, header) \<and>
    same (GObj out) (GObj (plain_members (cl_Additional cl) @ plaintext_claims cl))"
proof -
  let ?s = "issue_sealer h marshal opts"
  obtain P payload jwt where inputs: "checkIssueInputs cl opts = None"
    and run: "issue_payload ?s cl (io_Decoys opts) st = Inr ((P, ds), st')"
    and payload: "cr_marshal cr P = Some payload" and jwt: "Sign cr alg sk (issuerJWTHeader opts) payload = Inr jwt"
      "length jwt \<le> MaxCompactBytes" and sdjwt: "sdjwt = SDJWT \<lparr> pn_IssuerJWT = jwt, pn_Disclosures = ds, pn_KeyBindingJWT = [] \<rparr>"
      "length sdjwt \<le> MaxBytes"
    using assms(1) by (rule Issue_Inr)
  let ?pres = "\<lparr> pn_IssuerJWT = jwt, pn_Disclosures = ds, pn_KeyBindingJWT = [] \<rparr>"
  let ?header = "gm_put ''alg'' (GStr alg) (issuerJWTHeader opts)"
  have diff: "distinct (all_placed P ds)" using assms(4) run by blast
  have laws: "\<forall>b \<in> set payload. b < 256" "cr_json cr payload = Some P" using assms(9) payload by blast+
  have parsed: "Parse json sdjwt = Inr ?pres"
    using issued_parses [OF run assms(2) inputs] Sign_alphabet [OF jwt(1)] tilde_not_dot sdjwt assms(8)
    unfolding Parse_def ParseMax_Inr by (auto simp: Compact_def issue_sealer_def)
  have verified: "Verify cr alg (sg_Public sk) jwt = Inr (?header, payload)"
    unfolding Verify_def using Sign_verifies [OF jwt laws(1) issuer_header(1) _ assms(10,11)] assms(9) by blast
  obtain hashAlg out where "accept_payload h expNow nbfNow vopts ?pres P = Inr hashAlg"
    "ResolveDisclosures h P hashAlg ds = Inr out" "same (GObj out) (plain (CObj (issued_tree cl)))"
    using issued_payload_verifies [OF run assms(2) inputs assms(3) diff _ issue_sealer_alg assms(7,6), of ?pres]
    by (auto simp: issue_sealer_def)
  then show ?thesis using parsed verified laws(2) assms(5)
    by (auto simp: VerifyVC_def issuer_header(2) verifyKeyBindingIfRequired_def TypeIs_TypHeader plain_issued)
qed

text \<open>C27: the payload \<open>Issue\<close> signs has the shape \<open>resolveValue\<close> asks for, with its Disclosures found by
  their digests: each \<open>_sd\<close> an array of strings, each digest leading to a Disclosure of the kind its place needs, to a
  value of that shape again, and no claim name twice.\<close>

theorem issued_payload_typed:
  assumes "issue_payload s cl n st = Inr ((P, ds), st')" and "objects_ok cl" and "checkIssueInputs cl opts = None"
    and "members_depth (issued_tree cl) \<le> 32" and "distinct (all_placed P ds)"
  shows "\<exists>B. index_disclosures (sl_hash s) (sl_alg s) ds [] = Inr B \<and> resolvable B 33 True (GObj P)"
proof -
  obtain out here dec decoys dgs where members: "sealed_members s (issued_tree cl) (out @ plaintext_claims cl) here ds dec"
    and dgs: "mset dgs = mset (map fst here @ decoys)" and P: "carries dgs (out @ plaintext_claims cl) P"
    and alg: "gm_get P ''_sd_alg'' = Some (GStr (sl_alg s)) \<or>
      gm_get P ''_sd_alg'' = None \<and> ds = [] \<and> \<not> hasDisclosureDigest (GObj P)"
    by (rule issue_payload_carries [OF assms(1-3)])
  have tree: "claim_ok (CObj (issued_tree cl))" by (rule issued_tree_ok [OF assms(2,3) issue_payload_names [OF assms(1)]])
  have depth: "claim_depth (CObj (issued_tree cl)) \<le> 33" using assms(4) by simp
  have "goval_ok a" if "gm_get P ''_sd_alg'' = Some a" for a using alg that by auto
  from sealed_object_restores(1) [OF members dgs P this tree depth assms(5)]
  have "distinct (map (digest_of s) ds @ decoys @ dec)" .
  from sealed_object_typed [OF members dgs P tree depth this] show ?thesis by metis
qed

text \<open>The hypotheses at an input: one claim in plaintext and one selectively disclosable.\<close>

definition issue_hash :: hash_fn where
  "issue_hash = (\<lambda>_ s. str_bytes s)"

definition issue_marshal :: "goval list \<Rightarrow> nat list option" where
  "issue_marshal arr = (if arr = [GStr ''AQ'', GStr ''a'', GStr ''x''] then Some [10] else None)"

definition issue_json :: "nat list \<Rightarrow> goval list option" where
  "issue_json raw = (if raw = [10] then Some [GStr ''AQ'', GStr ''a'', GStr ''x''] else None)"

definition issue_claims :: claims where
  "issue_claims = \<lparr> cl_VCT = ''v'', cl_AkaVCTs = None, cl_Iss = [], cl_Nbf = None, cl_Exp = Some 100, cl_VCTIntegrity = [],
     cl_Status = None, cl_CNF = None, cl_Additional = [(''a'', CSD (CVal (GStr ''x''))), (''b'', CVal GNil)] \<rparr>"

definition issue_opts :: issue_options where
  "issue_opts = \<lparr> io_HashAlg = [], io_Decoys = 0, io_NestedDecoys = False, io_KeyID = [] \<rparr>"

definition issue_state :: sealing where
  "issue_state = \<lparr> sg_salts = [Some [1]], sg_counts = [] \<rparr>"

abbreviation issued_payload :: "(string, goval) gomap" where
  "issued_payload \<equiv> [(''b'', GNil), (''_sd'', GArr [GStr ''Q2c'']), (''vct'', GStr ''v''), (''exp'', GFloat (Finite 100)),
     (''_sd_alg'', GStr ''sha-256'')]"

abbreviation issued_disclosure :: disclosure where
  "issued_disclosure \<equiv> \<lparr> di_Salt = ''AQ'', di_Name = ''a'', di_named = True, di_Value = GStr ''x'', di_encoded = ''Cg'' \<rparr>"

abbreviation issued_header :: "(string, goval) gomap" where
  "issued_header \<equiv> [(''typ'', GStr TypHeader), (''alg'', GStr EdDSA)]"

definition issue_crypto :: "unit crypto" where
  "issue_crypto = \<lparr> cr_sha256 = (\<lambda>m. m), cr_ecdsa = (\<lambda>_ _ _. False), cr_ed25519 = (\<lambda>k m sig. sig = [1]),
     cr_asn1_unmarshal = (\<lambda>_. None), cr_asn1_marshal = (\<lambda>_ _. []),
     cr_json = (\<lambda>raw. if raw = [0] then Some issued_header else if raw = [2] then Some issued_payload else None),
     cr_marshal = (\<lambda>m. if m = issued_header then Some [0] else if m = issued_payload then Some [2] else None) \<rparr>"

definition verify_opts :: "unit verify_options" where
  "verify_opts = vc_options \<lparr> vo_RequireKeyBinding := Some KeyBindingNotRequired \<rparr>"

lemma issue_run:
  "issue_payload (issue_sealer issue_hash issue_marshal issue_opts) issue_claims (io_Decoys issue_opts) issue_state =
     Inr ((issued_payload, [issued_disclosure]), \<lparr> sg_salts = [], sg_counts = [] \<rparr>)"
  by code_simp

lemma issued: "Issue issue_crypto issue_hash issue_marshal sample_signer EdDSA issue_claims issue_opts issue_state =
  Inr ((''AA.Ag.AQ~Cg~'', [issued_disclosure]), \<lparr> sg_salts = [], sg_counts = [] \<rparr>)"
proof -
  have "checkIssueInputs issue_claims issue_opts = None" by code_simp
  moreover have "Sign issue_crypto EdDSA sample_signer (issuerJWTHeader issue_opts) [2] = Inr ''AA.Ag.AQ''" by code_simp
  moreover have "cr_marshal issue_crypto issued_payload = Some [2]" by code_simp
  moreover have "SDJWT \<lparr> pn_IssuerJWT = ''AA.Ag.AQ'', pn_Disclosures = [issued_disclosure], pn_KeyBindingJWT = [] \<rparr> = ''AA.Ag.AQ~Cg~''"
    by code_simp
  ultimately show ?thesis by (simp add: Issue_def issue_run MaxCompactBytes_def MaxBytes_def)
qed

theorem issued_verifies_witness:
  "\<exists>out header. VerifyVC issue_crypto issue_hash issue_json (50500000000, 50500000000, 0) ''AA.Ag.AQ~Cg~'' (sg_Public sample_signer) EdDSA
      verify_opts = Inr (out, header) \<and>
    same (GObj out) (GObj [(''a'', GStr ''x''), (''b'', GNil), (''vct'', GStr ''v''), (''exp'', GFloat (Finite 100))])"
proof -
  have "members_depth (issued_tree issue_claims) \<le> 32" "distinct (all_placed issued_payload [issued_disclosure])"
    "objects_ok issue_claims" by code_simp+
  moreover have "\<not> IsSmallOrderEd25519 (replicate 32 7)" by code_simp
  moreover have "plain_members (cl_Additional issue_claims) @ plaintext_claims issue_claims =
      [(''a'', GStr ''x''), (''b'', GNil), (''vct'', GStr ''v''), (''exp'', GFloat (Finite 100))]" by code_simp
  moreover have "valid_at issue_claims 50500000000 50500000000 0" by code_simp
  ultimately show ?thesis
    using issued_verifies [OF issued, of verify_opts 50500000000 50500000000 issue_json 0] issue_run
    by (simp add: verify_opts_def vc_options_def sample_signer_def issue_marshal_def issue_json_def issue_crypto_def)
qed

theorem issued_payload_typed_witness:
  "\<exists>B. index_disclosures issue_hash SHA256 [issued_disclosure] [] = Inr B \<and> resolvable B 33 True (GObj issued_payload)"
proof -
  have "members_depth (issued_tree issue_claims) \<le> 32" "distinct (all_placed issued_payload [issued_disclosure])"
    "objects_ok issue_claims" "checkIssueInputs issue_claims issue_opts = None" by code_simp+
  then show ?thesis
    using issued_payload_typed [OF issue_run, of issue_opts] by (simp add: issue_sealer_def issue_opts_def DefaultHashAlg_def)
qed

section \<open>Expiry and depth\<close>

lemma RoundedExp_day: "RoundedExp now lifetime = (day * (now div day) + lifetime) div second"
  by (simp add: RoundedExp_def minus_mod_eq_mult_div)

text \<open>Credentials issued on one UTC day carry one \<open>exp\<close>, at most a day and a second short of the lifetime asked for
  and never past it.\<close>

lemma rounded_exp_bounds:
  "now div day = now' div day \<Longrightarrow> RoundedExp now lifetime = RoundedExp now' lifetime"
  "RoundedExp now lifetime * second \<le> now + lifetime"
  "now + lifetime < RoundedExp now lifetime * second + day + second"
proof -
  have d: "day * (now div day) \<le> now" "now < day * (now div day) + day"
    using mult_div_mod_eq [of day now] pos_mod_bound [of day now] pos_mod_sign [of day now]
    by (auto simp: day_def second_def)
  have s: "e div second * second \<le> e" "e < e div second * second + second" for e :: int
    using div_mult_mod_eq [of e second] pos_mod_bound [of second e] pos_mod_sign [of second e]
    by (auto simp: second_def)
  show "now div day = now' div day \<Longrightarrow> RoundedExp now lifetime = RoundedExp now' lifetime" by (simp add: RoundedExp_day)
  show "RoundedExp now lifetime * second \<le> now + lifetime" "now + lifetime < RoundedExp now lifetime * second + day + second"
    using d s [of "day * (now div day) + lifetime"] unfolding RoundedExp_day by linarith+
qed

text \<open>Claims nested deeper than \<open>Verify\<close> resolves are signed all the same.\<close>

primrec deep :: "nat \<Rightarrow> claim" where
  "deep 0 = CVal GNil"
| "deep (Suc n) = CArr [deep n]"

lemma deep_unmarked: "\<forall>w. deep n \<noteq> CSD w" "\<forall>w. deep n \<noteq> CSDElement w"
  by (cases n; simp)+

lemma seal_deep: "seal s (deep n) st = Inr ((plain (deep n), []), st)"
proof (induction n)
  case (Suc n)
  then show ?case using seal_elements_own [OF deep_unmarked(2), of s n "[]" st] by simp
qed simp

lemma plain_deep_obj [simp]: "as_obj (plain (deep n)) = None"
  by (cases n) simp_all

lemma resolve_deep: "levels \<le> n \<Longrightarrow> resolveValue B levels outer (plain (deep n)) st = Inl TooDeep"
proof (induction n arbitrary: levels outer st)
  case (Suc n)
  then show ?case by (cases levels) (auto simp: ref_value_def plain_deep_obj)
qed simp

lemma resolve_deep_member:
  "resolveValue B k False v st = Inl TooDeep \<Longrightarrow> resolveValue B (Suc k) True (GObj ((''a'', v) # m)) st = Inl TooDeep"
  by (simp add: resolveMap_def)

lemma deep_claims_unresolvable:
  assumes "32 \<le> n"
  shows "\<exists>P. issue_payload s (issue_claims \<lparr> cl_Additional := [(''a'', deep n)] \<rparr>) decoys st = Inr ((P, []), st) \<and>
    ResolveDisclosures h P alg [] = Inl TooDeep"
proof -
  let ?P = "[(''a'', plain (deep n)), (''vct'', GStr ''v''), (''exp'', GFloat (Finite 100))]"
  have "issue_payload s (issue_claims \<lparr> cl_Additional := [(''a'', deep n)] \<rparr>) decoys st = Inr ((?P, []), st)"
  proof -
    have "seal_members s [(''a'', deep n)] st = Inr (([(''a'', plain (deep n))], [], []), st)"
      using seal_members_own [OF _ deep_unmarked(1), of "''a''" s n "[]" st] by (simp add: seal_deep isReservedName_def)
    then have "sealObject s [(''a'', deep n)] 0 False st = Inr (([(''a'', plain (deep n))], []), st)"
      by (simp add: sealObject_def finish_object_def decoy_count_def)
    moreover have "\<not> hasDisclosureDigest (plain (deep n))" by (induction n) auto
    moreover have "plaintext_claims (issue_claims \<lparr> cl_Additional := [(''a'', deep n)] \<rparr>) =
        [(''vct'', GStr ''v''), (''exp'', GFloat (Finite 100))]"
      by (simp add: plaintext_claims_def issue_claims_def number_def)
    ultimately show ?thesis
      by (simp add: issue_payload_def reservedTopLevelClaims_def applyPlaintextClaims_def)
  qed
  moreover have "resolveValue [] (Suc 32) True (GObj ?P) \<lparr> mk_used = [], mk_seen = [] \<rparr> = Inl TooDeep"
    by (rule resolve_deep_member [OF resolve_deep [OF assms]])
  then have "ResolveDisclosures h ?P alg [] = Inl TooDeep"
    by (simp add: ResolveDisclosures_def ResolveDisclosuresMax_def levels_of_def MaxResolveDepth_def)
  ultimately show ?thesis by blast
qed

end
