(* ===== verification/Issuer_Nonce.thy ===== *)
theory Issuer_Nonce
  imports Storage Jose Jwt_Date
begin

text \<open>
  The c_nonces of an Issuer: \<open>src/issuer/nonce_endpoint.go\<close>, \<open>nonce.go\<close>, \<open>stateless_nonce.go\<close>, \<open>random_id.go\<close>,
  \<open>owns\<close> (here \<open>issuer_owns\<close>) of \<open>store_owner.go\<close>, and \<open>consumeNonce\<close> and \<open>checkProofNonce\<close> of \<open>proofs.go\<close>.

  An Issuer keeps its nonces in a store, of which it calls three operations (\<open>nonce_ops\<close>), or, with nonce keys,
  issues them statelessly: a nonce is then its expiry, random bytes and a MAC, and only its being spent is stored.
  HMAC-SHA256 is the parameter \<open>hmac\<close>; a source of randomness is the bytes it has left. Times are nanoseconds since
  1970, and \<open>store_time\<close> counts them from the zero \<open>time.Time\<close>, as the stores do.
\<close>

section \<open>Errors\<close>

text \<open>The error codes of \<open>errors.go\<close>, and the refusals that carry them: one constructor for each \<open>newError\<close>.\<close>

datatype error_code =
    ErrorInvalidCredentialRequest
  | ErrorUnknownCredentialConfig
  | ErrorUnknownCredentialIdentifier
  | ErrorInvalidProof
  | ErrorInvalidNonce
  | ErrorCredentialRequestDenied
  | ErrorInvalidEncryptionParameters
  | ErrorInvalidTransactionID
  | ErrorInvalidNotificationID
  | ErrorInvalidNotificationRequest
  | ErrorInvalidTokenRequest
  | ErrorInvalidGrant
  | ErrorInvalidAuthorizationDetails
  | ErrorInsufficientScope

datatype open_error = NonceMalformed | NonceForged | NonceExpiryOutOfRange

text \<open>Why a nonce is not accepted: what the Wallet is told is the same for all but an expired one.\<close>

datatype nonce_refusal =
    NonceNotOpened open_error
  | NonceNoKeys
  | NonceNotHeld
  | NonceNotOurs
  | NonceExpired
  | NonceOutlives
  | NonceRequired nat
  | NonceDiffers nat

datatype nonce_store_error = StoreUnknownNonce | StoreFails

datatype nonce_failure =
    Refuses nonce_refusal
  | ConsumeFails
  | SpendFails
  | NotSpender

fun nonce_error_code :: "nonce_refusal \<Rightarrow> error_code" where
  "nonce_error_code (NonceRequired i) = ErrorInvalidProof"
| "nonce_error_code _ = ErrorInvalidNonce"

section \<open>The Issuer and its store\<close>

record nonce_issuer =
  is_Issuer :: string
  is_production :: bool
  is_NonceEndpoint :: bool
  is_NonceLifetime :: int
  is_NonceKeys :: "nat list list"

definition storeOwner :: "('a) nonce_issuer_scheme \<Rightarrow> string" where
  "storeOwner iss = is_Issuer iss"

definition issuer_owns :: "('a) nonce_issuer_scheme \<Rightarrow> string \<Rightarrow> bool" where
  "issuer_owns iss owner = (if owner = [] then \<not> is_production iss else owner = storeOwner iss)"

text \<open>The store, over any state. \<open>no_Spend\<close> is missing where it is no \<open>NonceSpender\<close>. Each call is told the time by the
  store's own clock, which pruning may read.\<close>

record 's nonce_ops =
  no_Issue :: "int \<Rightarrow> nonce_issuance \<Rightarrow> 's \<Rightarrow> nonce_store_error option \<times> 's"
  no_Consume :: "int \<Rightarrow> nonce_consumption \<Rightarrow> 's \<Rightarrow> (nonce_store_error + nonce_record) \<times> 's"
  no_Spend :: "(int \<Rightarrow> nonce_issuance \<Rightarrow> 's \<Rightarrow> nonce_store_error option \<times> 's) option"

text \<open>The seconds from the zero \<open>time.Time\<close> to 1970.\<close>

definition store_time :: "int \<Rightarrow> int" where
  "store_time t = t + 62135596800 * second"

definition MinNonceKeyBytes :: nat where "MinNonceKeyBytes = 32"
definition MaxNonceKeys :: nat where "MaxNonceKeys = 8"

datatype nonce_keys_error = TooManyNonceKeys | NonceKeyTooShort nat | StoreCannotSpend

definition validateNonceKeys :: "nat list list \<Rightarrow> 's nonce_ops \<Rightarrow> nonce_keys_error option" where
  "validateNonceKeys keys ops =
     (if keys = [] then None
      else if MaxNonceKeys < length keys then Some TooManyNonceKeys
      else and_then
        (first_err (\<lambda>i key. require (MinNonceKeyBytes \<le> length key) (NonceKeyTooShort i)) 0 keys)
        (require (no_Spend ops \<noteq> None) StoreCannotSpend))"

section \<open>Stateless nonces\<close>

text \<open>\<open>io.ReadFull\<close> of \<open>n\<close> bytes.\<close>

definition ReadFull :: "nat list \<Rightarrow> nat \<Rightarrow> (nat list \<times> nat list) option" where
  "ReadFull source n = (if length source < n then None else Some (take n source, drop n source))"

definition randomID :: "nat list \<Rightarrow> nat \<Rightarrow> (string \<times> nat list) option" where
  "randomID random n = map_option (\<lambda>(raw, rest). (EncodeToString raw, rest)) (ReadFull random n)"

definition nonceEntropyBytes :: nat where "nonceEntropyBytes = 32"

definition statelessNoncePrefix :: string where "statelessNoncePrefix = ''s1.''"

definition statelessNonceExpBytes :: nat where "statelessNonceExpBytes = 8"
definition statelessNonceRandomBytes :: nat where "statelessNonceRandomBytes = 16"
definition statelessNonceTagBytes :: nat where "statelessNonceTagBytes = 32"

definition statelessNonceBytes :: nat where
  "statelessNonceBytes = statelessNonceExpBytes + statelessNonceRandomBytes + statelessNonceTagBytes"

definition statelessNonceDomain :: "nat list" where
  "statelessNonceDomain = str_bytes ''oid4vcgo issuer c_nonce s1'' @ [0]"

type_synonym mac = "nat list \<Rightarrow> nat list \<Rightarrow> nat list"

definition statelessNonceTag :: "mac \<Rightarrow> nat list \<Rightarrow> string \<Rightarrow> nat list \<Rightarrow> nat list" where
  "statelessNonceTag hmac key owner body = hmac key (statelessNonceDomain @ str_bytes owner @ [0] @ body)"

text \<open>\<open>t.Unix()\<close>, and its conversion to \<open>uint64\<close>.\<close>

definition Unix :: "int \<Rightarrow> int" where
  "Unix t = t div second"

definition uint64 :: "int \<Rightarrow> nat" where
  "uint64 n = nat (n mod 2 ^ 64)"

definition statelessNonce :: "mac \<Rightarrow> nat list \<Rightarrow> nat list \<Rightarrow> string \<Rightarrow> int \<Rightarrow> (string \<times> nat list) option" where
  "statelessNonce hmac random key owner exp_at =
     (case ReadFull random statelessNonceRandomBytes of
        None \<Rightarrow> None
      | Some (r, rest) \<Rightarrow>
          (let body = FillBytes statelessNonceExpBytes (uint64 (Unix exp_at)) @ r in
           Some (statelessNoncePrefix @ EncodeToString (body @ statelessNonceTag hmac key owner body), rest)))"

definition isStatelessNonce :: "string \<Rightarrow> bool" where
  "isStatelessNonce nonce = (take (length statelessNoncePrefix) nonce = statelessNoncePrefix)"

definition TrimPrefix :: "string \<Rightarrow> string \<Rightarrow> string" where
  "TrimPrefix s prefix = (if take (length prefix) s = prefix then drop (length prefix) s else s)"

text \<open>\<open>base64.RawURLEncoding.Strict().DecodeString\<close> on any string: it passes over line breaks, which
  \<open>DecodeString\<close> of \<open>internal/b64url\<close> refuses before it calls it.\<close>

definition StrictDecodeString :: "string \<Rightarrow> b64_error + nat list" where
  "StrictDecodeString s =
     (let s = filter (\<lambda>c. \<not> line_break c) s in
      if list_all isAlphabet s then strict_decode (map b64_index s) else Inl CorruptInput)"

definition maxUnixSeconds :: nat where "maxUnixSeconds = 253402300799"

fun open_with :: "mac \<Rightarrow> nat list list \<Rightarrow> string \<Rightarrow> nat list \<Rightarrow> nat list \<Rightarrow> open_error + int" where
  "open_with hmac [] owner body tag = Inl NonceForged"
| "open_with hmac (key # keys) owner body tag =
     (if tag = statelessNonceTag hmac key owner body
      then (let e = SetBytes (take statelessNonceExpBytes body) in
            if maxUnixSeconds < e then Inl NonceExpiryOutOfRange else Inr (int e * second))
      else open_with hmac keys owner body tag)"

definition openStatelessNonce :: "mac \<Rightarrow> nat list list \<Rightarrow> string \<Rightarrow> string \<Rightarrow> open_error + int" where
  "openStatelessNonce hmac keys owner nonce =
     (case StrictDecodeString (TrimPrefix nonce statelessNoncePrefix) of
        Inl e \<Rightarrow> Inl NonceMalformed
      | Inr raw \<Rightarrow>
          (if length raw \<noteq> statelessNonceBytes then Inl NonceMalformed
           else (let n = statelessNonceExpBytes + statelessNonceRandomBytes in
                 open_with hmac keys owner (take n raw) (drop n raw))))"

definition spentNonceMargin :: int where
  "spentNonceMargin = 300 * second"

definition spentNonceOwner :: "string \<Rightarrow> string" where
  "spentNonceOwner owner = ''c_nonce spent by '' @ owner"

text \<open>\<open>t.Sub(u)\<close>: a \<open>Duration\<close> is an \<open>int64\<close>, and saturates.\<close>

definition time_Sub :: "int \<Rightarrow> int \<Rightarrow> int" where
  "time_Sub t u = max (- (2 ^ 63)) (min (2 ^ 63 - 1) (t - u))"

section \<open>Issuing and consuming\<close>

text \<open>\<open>sclock\<close> is the clock of the store, \<open>now\<close> the Issuer's.\<close>

definition spendStatelessNonce ::
  "mac \<Rightarrow> ('a) nonce_issuer_scheme \<Rightarrow> 's nonce_ops \<Rightarrow> int \<Rightarrow> int \<Rightarrow> string \<Rightarrow> 's \<Rightarrow> nonce_failure option \<times> 's" where
  "spendStatelessNonce hmac iss ops sclock now nonce s =
     (case openStatelessNonce hmac (is_NonceKeys iss) (storeOwner iss) nonce of
        Inl e \<Rightarrow> (Some (Refuses (NonceNotOpened e)), s)
      | Inr e \<Rightarrow>
          (if now > e then (Some (Refuses NonceExpired), s)
           else if time_Sub e now > is_NonceLifetime iss then (Some (Refuses NonceOutlives), s)
           else (case no_Spend ops of
               None \<Rightarrow> (Some NotSpender, s)
             | Some spend \<Rightarrow>
                 (case spend sclock \<lparr> ni_Nonce = nonce, ni_Owner = spentNonceOwner (storeOwner iss),
                      ni_ExpiresAt = store_time (e + spentNonceMargin) \<rparr> s of
                    (None, s') \<Rightarrow> (None, s')
                  | (Some StoreUnknownNonce, s') \<Rightarrow> (Some (Refuses NonceNotHeld), s')
                  | (Some StoreFails, s') \<Rightarrow> (Some SpendFails, s')))))"

definition consumeNonce ::
  "mac \<Rightarrow> ('a) nonce_issuer_scheme \<Rightarrow> 's nonce_ops \<Rightarrow> int \<Rightarrow> int \<Rightarrow> string \<Rightarrow> 's \<Rightarrow> nonce_failure option \<times> 's" where
  "consumeNonce hmac iss ops sclock now nonce s =
     (if isStatelessNonce nonce then
        (if is_NonceKeys iss = [] then (Some (Refuses NonceNoKeys), s)
         else spendStatelessNonce hmac iss ops sclock now nonce s)
      else (case no_Consume ops sclock \<lparr> nc_Nonce = nonce, nc_Owner = storeOwner iss \<rparr> s of
          (Inl StoreUnknownNonce, s') \<Rightarrow> (Some (Refuses NonceNotHeld), s')
        | (Inl StoreFails, s') \<Rightarrow> (Some ConsumeFails, s')
        | (Inr r, s') \<Rightarrow>
            (if \<not> issuer_owns iss (nr_Owner r) then (Some (Refuses NonceNotOurs), s')
             else if store_time now > nr_ExpiresAt r then (Some (Refuses NonceExpired), s')
             else (None, s'))))"

text \<open>The nonce of the \<open>i\<close>-th proof of a request, \<open>expected\<close> the nonce the first one carried.\<close>

definition checkProofNonce ::
  "mac \<Rightarrow> ('a) nonce_issuer_scheme \<Rightarrow> 's nonce_ops \<Rightarrow> int \<Rightarrow> int \<Rightarrow> nat \<Rightarrow> string \<Rightarrow> string \<times> 's
     \<Rightarrow> nonce_failure option \<times> string \<times> 's" where
  "checkProofNonce hmac iss ops sclock now i nonce st =
     (case st of (expected, s) \<Rightarrow>
        if \<not> is_NonceEndpoint iss then (None, expected, s)
        else if nonce = [] then (Some (Refuses (NonceRequired i)), expected, s)
        else if i = 0 then
          (case consumeNonce hmac iss ops sclock now nonce s of
             (Some e, s') \<Rightarrow> (Some e, expected, s')
           | (None, s') \<Rightarrow> (None, nonce, s'))
        else if nonce \<noteq> expected then (Some (Refuses (NonceDiffers i)), expected, s)
        else (None, expected, s))"

datatype request_nonce_error = NoNonceEndpoint | GenerateNonceFails | PersistNonceFails | DPoPNonceFails

definition issueNonce ::
  "mac \<Rightarrow> ('a) nonce_issuer_scheme \<Rightarrow> 's nonce_ops \<Rightarrow> nat list \<Rightarrow> int \<Rightarrow> int \<Rightarrow> 's
     \<Rightarrow> (request_nonce_error + string) \<times> 's" where
  "issueNonce hmac iss ops random sclock now s =
     (let e = now + is_NonceLifetime iss in
      case is_NonceKeys iss of
        key # _ \<Rightarrow>
          (case statelessNonce hmac random key (storeOwner iss) e of
             None \<Rightarrow> (Inl GenerateNonceFails, s)
           | Some (nonce, _) \<Rightarrow> (Inr nonce, s))
      | [] \<Rightarrow>
          (case randomID random nonceEntropyBytes of
             None \<Rightarrow> (Inl GenerateNonceFails, s)
           | Some (nonce, _) \<Rightarrow>
               (case no_Issue ops sclock
                   \<lparr> ni_Nonce = nonce, ni_Owner = storeOwner iss, ni_ExpiresAt = store_time e \<rparr> s of
                  (Some _, s') \<Rightarrow> (Inl PersistNonceFails, s')
                | (None, s') \<Rightarrow> (Inr nonce, s'))))"

record nonce_result =
  nr_CNonce :: string
  nr_DPoPNonce :: string

text \<open>\<open>dpop\<close> is what \<open>CredentialDPoPNonces\<close> answers, when there is one.\<close>

definition RequestNonce ::
  "mac \<Rightarrow> ('a) nonce_issuer_scheme \<Rightarrow> 's nonce_ops \<Rightarrow> nat list \<Rightarrow> int \<Rightarrow> int \<Rightarrow> (unit + string) option \<Rightarrow> 's
     \<Rightarrow> (request_nonce_error + nonce_result) \<times> 's" where
  "RequestNonce hmac iss ops random sclock now dpop s =
     (if \<not> is_NonceEndpoint iss then (Inl NoNonceEndpoint, s)
      else (case issueNonce hmac iss ops random sclock now s of
          (Inl e, s') \<Rightarrow> (Inl e, s')
        | (Inr nonce, s') \<Rightarrow>
            (case dpop of
               None \<Rightarrow> (Inr \<lparr> nr_CNonce = nonce, nr_DPoPNonce = [] \<rparr>, s')
             | Some (Inl _) \<Rightarrow> (Inl DPoPNonceFails, s')
             | Some (Inr d) \<Rightarrow> (Inr \<lparr> nr_CNonce = nonce, nr_DPoPNonce = d \<rparr>, s'))))"

section \<open>What opens\<close>

text \<open>A MAC as HMAC-SHA256 is one: 32 bytes, whatever the key and message.\<close>

definition mac_ok :: "mac \<Rightarrow> bool" where
  "mac_ok hmac = (\<forall>key msg. length (hmac key msg) = statelessNonceTagBytes \<and> (\<forall>b \<in> set (hmac key msg). b < 256))"

lemmas nonce_sizes = statelessNonceBytes_def statelessNonceExpBytes_def statelessNonceRandomBytes_def
  statelessNonceTagBytes_def

lemma line_break_not_alphabet: "isAlphabet c \<Longrightarrow> \<not> line_break c"
  by (auto simp: isAlphabet_def line_break_def)

lemma no_line_breaks: "set s \<subseteq> set b64url_alphabet \<Longrightarrow> filter (\<lambda>c. \<not> line_break c) s = s"
  using line_break_not_alphabet by (auto simp: filter_id_conv isAlphabet_iff)

lemma encoded_no_breaks [simp]: "filter (\<lambda>c. \<not> line_break c) (EncodeToString bs) = EncodeToString bs"
  by (rule no_line_breaks [OF EncodeToString_alphabet])

lemma prefix_no_breaks [simp]: "filter (\<lambda>c. \<not> line_break c) statelessNoncePrefix = statelessNoncePrefix"
  by (simp add: statelessNoncePrefix_def line_break_def)

text \<open>What the library's decoder accepts is what the strict codec accepts once the line breaks are gone.\<close>

lemma StrictDecodeString_iff:
  "StrictDecodeString s = Inr bs \<longleftrightarrow> DecodeString (filter (\<lambda>c. \<not> line_break c) s) = Inr bs"
  by (auto simp: StrictDecodeString_def DecodeString_Inr Let_def list_all_iff isAlphabet_iff)

lemma StrictDecodeString_encoded:
  "StrictDecodeString s = Inr bs \<longleftrightarrow>
     (\<forall>b \<in> set bs. b < 256) \<and> filter (\<lambda>c. \<not> line_break c) s = EncodeToString bs"
  using b64_encode_decode b64_decode_encode unfolding StrictDecodeString_iff by metis

lemma StrictDecodeString_break:
  "line_break c \<Longrightarrow> StrictDecodeString (a @ [c] @ b) = StrictDecodeString (a @ b)"
  by (simp add: StrictDecodeString_def)

lemma TrimPrefix_append [simp]: "TrimPrefix (p @ s) p = s"
  by (simp add: TrimPrefix_def)

lemma isStatelessNonce_iff: "isStatelessNonce n \<longleftrightarrow> (\<exists>s. n = statelessNoncePrefix @ s)"
  unfolding isStatelessNonce_def by (metis append_eq_conv_conj append_take_drop_id)

text \<open>An identifier of the alphabet is never taken for a stateless nonce.\<close>

lemma encoded_not_stateless: "\<not> isStatelessNonce (EncodeToString bs)"
proof
  assume "isStatelessNonce (EncodeToString bs)"
  then have "CHR ''.'' \<in> set (EncodeToString bs)"
    by (auto simp: isStatelessNonce_iff statelessNoncePrefix_def)
  with EncodeToString_alphabet have "isAlphabet (CHR ''.'')" by (auto simp: isAlphabet_iff)
  then show False by (simp add: isAlphabet_def)
qed

lemma open_with_iff:
  "open_with hmac keys owner body tag = Inr e \<longleftrightarrow>
     (\<exists>key \<in> set keys. tag = statelessNonceTag hmac key owner body) \<and>
     SetBytes (take statelessNonceExpBytes body) \<le> maxUnixSeconds \<and>
     e = int (SetBytes (take statelessNonceExpBytes body)) * second"
  by (induction keys) (auto simp: Let_def simp del: SetBytes.simps)

lemma open_expiry:
  "openStatelessNonce hmac keys owner nonce = Inr e \<Longrightarrow>
     \<exists>raw. StrictDecodeString (TrimPrefix nonce statelessNoncePrefix) = Inr raw \<and>
       e = int (SetBytes (take statelessNonceExpBytes raw)) * second"
  by (auto simp: openStatelessNonce_def ok_iffs open_with_iff Let_def nonce_sizes
    simp del: SetBytes.simps split: sum.splits if_splits)

lemma statelessNonceTag_bytes:
  assumes "mac_ok hmac"
  shows "length (statelessNonceTag hmac key owner body) = statelessNonceTagBytes"
    "\<forall>b \<in> set (statelessNonceTag hmac key owner body). b < 256"
  using assms by (auto simp: mac_ok_def statelessNonceTag_def)

text \<open>The time a body of expiry and randomness carries, and whether it may.\<close>

definition body_expiry :: "nat list \<Rightarrow> int" where
  "body_expiry body = int (SetBytes (take statelessNonceExpBytes body)) * second"

definition nonce_body :: "nat list \<Rightarrow> bool" where
  "nonce_body body =
     (length body = statelessNonceExpBytes + statelessNonceRandomBytes \<and> (\<forall>b \<in> set body. b < 256) \<and>
      SetBytes (take statelessNonceExpBytes body) \<le> maxUnixSeconds)"

lemma open_iff:
  assumes "mac_ok hmac" and "isStatelessNonce nonce"
  shows "openStatelessNonce hmac keys owner nonce = Inr e \<longleftrightarrow>
    (\<exists>key \<in> set keys. \<exists>body. nonce_body body \<and> e = body_expiry body \<and>
       filter (\<lambda>c. \<not> line_break c) nonce =
         statelessNoncePrefix @ EncodeToString (body @ statelessNonceTag hmac key owner body))"
proof -
  obtain s where nonce: "nonce = statelessNoncePrefix @ s"
    using assms(2) by (auto simp: isStatelessNonce_iff)
  have filt: "filter (\<lambda>c. \<not> line_break c) nonce = statelessNoncePrefix @ filter (\<lambda>c. \<not> line_break c) s"
    by (simp add: nonce)
  let ?n = "statelessNonceExpBytes + statelessNonceRandomBytes"
  have "openStatelessNonce hmac keys owner nonce = Inr e \<longleftrightarrow>
      (\<exists>raw. StrictDecodeString s = Inr raw \<and> length raw = statelessNonceBytes \<and>
        open_with hmac keys owner (take ?n raw) (drop ?n raw) = Inr e)"
    by (auto simp: openStatelessNonce_def nonce ok_iffs Let_def split: sum.splits)
  also have "\<dots> \<longleftrightarrow> (\<exists>body tag. StrictDecodeString s = Inr (body @ tag) \<and> length body = ?n \<and>
        length tag = statelessNonceTagBytes \<and> open_with hmac keys owner body tag = Inr e)" (is "?l \<longleftrightarrow> ?r")
  proof
    assume ?l
    then obtain raw where raw: "StrictDecodeString s = Inr raw" "length raw = statelessNonceBytes"
      "open_with hmac keys owner (take ?n raw) (drop ?n raw) = Inr e" by auto
    then show ?r
      by (intro exI [of _ "take ?n raw"] exI [of _ "drop ?n raw"]) (simp add: nonce_sizes)
  next
    assume ?r
    then obtain body tag where "StrictDecodeString s = Inr (body @ tag)" "length body = ?n"
      "length tag = statelessNonceTagBytes" "open_with hmac keys owner body tag = Inr e" by auto
    then show ?l by (intro exI [of _ "body @ tag"]) (simp add: statelessNonceBytes_def)
  qed
  also have "\<dots> \<longleftrightarrow> (\<exists>key \<in> set keys. \<exists>body. nonce_body body \<and> e = body_expiry body \<and>
      filter (\<lambda>c. \<not> line_break c) s = EncodeToString (body @ statelessNonceTag hmac key owner body))"
    unfolding StrictDecodeString_encoded open_with_iff nonce_body_def body_expiry_def
    using statelessNonceTag_bytes [OF assms(1)] by (fastforce simp del: SetBytes.simps)
  finally show ?thesis by (simp add: filt)
qed

text \<open>What \<open>statelessNonce\<close> makes opens, to the second its lifetime ends in, under any key list that still holds its key.\<close>

lemma issued_nonce_opens:
  assumes mac: "mac_ok hmac" and random: "\<forall>b \<in> set random. b < 256"
    and time: "0 \<le> Unix e" "Unix e \<le> int maxUnixSeconds" and key: "key \<in> set keys"
    and issued: "statelessNonce hmac random key owner e = Some (nonce, rest)"
  shows "openStatelessNonce hmac keys owner nonce = Inr (Unix e * second)"
proof -
  obtain r where r: "ReadFull random statelessNonceRandomBytes = Some (r, rest)"
    and nonce: "nonce = statelessNoncePrefix @ EncodeToString ((FillBytes statelessNonceExpBytes (uint64 (Unix e)) @ r) @
      statelessNonceTag hmac key owner (FillBytes statelessNonceExpBytes (uint64 (Unix e)) @ r))"
    using issued by (auto simp: statelessNonce_def Let_def split: option.splits)
  let ?body = "FillBytes statelessNonceExpBytes (uint64 (Unix e)) @ r"
  have u: "uint64 (Unix e) = nat (Unix e)" "nat (Unix e) < 256 ^ statelessNonceExpBytes"
    using time by (simp_all add: uint64_def maxUnixSeconds_def nonce_sizes)
  have "length r = statelessNonceRandomBytes" "set r \<subseteq> set random"
    using r by (auto simp: ReadFull_def dest: in_set_takeD split: if_splits)
  then have body: "nonce_body ?body" "body_expiry ?body = Unix e * second"
    using random time u FillBytes_bytes
    by (auto simp: nonce_body_def body_expiry_def SetBytes_FillBytes simp del: SetBytes.simps)
  have "filter (\<lambda>c. \<not> line_break c) nonce = nonce"
    by (simp add: nonce del: append_assoc)
  moreover have "isStatelessNonce nonce" by (auto simp: nonce isStatelessNonce_iff)
  ultimately show ?thesis
    using body key nonce by (intro open_iff [OF mac, THEN iffD2] bexI [of _ key] exI [of _ ?body]) simp_all
qed

section \<open>Issuers sharing a store in memory\<close>

definition mem_error :: "nonce_error option \<Rightarrow> nonce_store_error option" where
  "mem_error e = map_option (\<lambda>_. StoreUnknownNonce) e"

definition mem_nonce_ops :: "nonce_store nonce_ops" where
  "mem_nonce_ops =
     \<lparr> no_Issue = (\<lambda>now i s. case NonceStore_Issue now i s of (r, s') \<Rightarrow> (mem_error r, s')),
       no_Consume = (\<lambda>now c s. case NonceStore_Consume c s of (r, s') \<Rightarrow> (wrap_err (\<lambda>_. StoreUnknownNonce) r, s')),
       no_Spend = Some (\<lambda>now i s. case NonceStore_Spend now i s of (r, s') \<Rightarrow> (mem_error r, s')) \<rparr>"

text \<open>What any Issuer sharing the store does with it: replicas with keys of their own, or none, and other tenants.\<close>

datatype issuer_call =
    RequestNonceCall nonce_issuer "nat list" int int "(unit + string) option"
  | AcceptNonceCall nonce_issuer int int string

datatype issuer_outcome =
    NonceRequested "request_nonce_error + nonce_result"
  | NonceChecked "nonce_failure option"

fun issuer_step :: "mac \<Rightarrow> issuer_call \<Rightarrow> nonce_store \<Rightarrow> issuer_outcome \<times> nonce_store" where
  "issuer_step hmac (RequestNonceCall iss random sclock now dpop) s =
     (case RequestNonce hmac iss mem_nonce_ops random sclock now dpop s of (r, s') \<Rightarrow> (NonceRequested r, s'))"
| "issuer_step hmac (AcceptNonceCall iss sclock now nonce) s =
     (case consumeNonce hmac iss mem_nonce_ops sclock now nonce s of (r, s') \<Rightarrow> (NonceChecked r, s'))"

fun store_clock :: "issuer_call \<Rightarrow> int" where
  "store_clock (RequestNonceCall iss random sclock now dpop) = sclock"
| "store_clock (AcceptNonceCall iss sclock now nonce) = sclock"

fun issuer_clock :: "issuer_call \<Rightarrow> int" where
  "issuer_clock (RequestNonceCall iss random sclock now dpop) = now"
| "issuer_clock (AcceptNonceCall iss sclock now nonce) = now"

text \<open>No store clock runs more than \<open>spentNonceMargin\<close> ahead of an Issuer's, then or later.\<close>

fun clocks_agree :: "issuer_call list \<Rightarrow> bool" where
  "clocks_agree [] = True"
| "clocks_agree (c # cs) =
     (list_all (\<lambda>d. store_clock c \<le> store_time (issuer_clock d + spentNonceMargin)) (c # cs) \<and> clocks_agree cs)"

definition accepts :: "string \<Rightarrow> issuer_call \<Rightarrow> issuer_outcome \<Rightarrow> bool" where
  "accepts n c r = (r = NonceChecked None \<and> (\<exists>iss sclock now. c = AcceptNonceCall iss sclock now n))"

text \<open>The expiry a stateless nonce carries, whoever opens it.\<close>

definition carried_expiry :: "string \<Rightarrow> int" where
  "carried_expiry n =
     (case StrictDecodeString (TrimPrefix n statelessNoncePrefix) of
        Inl _ \<Rightarrow> 0
      | Inr raw \<Rightarrow> int (SetBytes (take statelessNonceExpBytes raw)) * second)"

definition record_until :: "string \<Rightarrow> int" where
  "record_until n = store_time (carried_expiry n + spentNonceMargin)"

lemma open_carried: "openStatelessNonce hmac keys owner n = Inr e \<Longrightarrow> carried_expiry n = e"
  by (auto dest!: open_expiry simp: carried_expiry_def)

lemma mem_error_None [simp]: "mem_error e = None \<longleftrightarrow> e = None"
  by (simp add: mem_error_def)

lemma mem_error_StoreFails [simp]: "mem_error e \<noteq> Some StoreFails"
  by (cases e) (simp_all add: mem_error_def)

text \<open>What checking a stateless nonce does: nothing to the store, or one \<open>Spend\<close>.\<close>

lemma spendStateless_mem:
  assumes "spendStatelessNonce hmac iss mem_nonce_ops sclock now n s = (r, s')"
  obtains (refused) f where "r = Some f" "s' = s"
  | (spent) owner res where
      "NonceStore_Spend sclock \<lparr> ni_Nonce = n, ni_Owner = owner, ni_ExpiresAt = record_until n \<rparr> s = (res, s')"
      "r = None \<longleftrightarrow> res = None" "now \<le> carried_expiry n"
proof (cases "openStatelessNonce hmac (is_NonceKeys iss) (storeOwner iss) n")
  case (Inl e)
  with assms have "\<exists>f. r = Some f \<and> s' = s" by (auto simp: spendStatelessNonce_def)
  then show thesis using refused by blast
next
  case (Inr e)
  let ?i = "\<lparr> ni_Nonce = n, ni_Owner = spentNonceOwner (storeOwner iss), ni_ExpiresAt = record_until n \<rparr>"
  show thesis
  proof (cases "now > e \<or> time_Sub e now > is_NonceLifetime iss")
    case True
    with Inr assms have "\<exists>f. r = Some f \<and> s' = s" by (auto simp: spendStatelessNonce_def split: if_splits)
    then show thesis using refused by blast
  next
    case False
    obtain res s1 where sp: "NonceStore_Spend sclock ?i s = (res, s1)" by (cases "NonceStore_Spend sclock ?i s")
    then have "res = None \<or> res = Some NonceUnknown" by (auto simp: NonceStore_Spend_def split: if_splits)
    with sp False Inr assms have "s' = s1" "r = None \<longleftrightarrow> res = None"
      by (auto simp: spendStatelessNonce_def mem_nonce_ops_def record_until_def open_carried [OF Inr] mem_error_def)
    with sp False open_carried [OF Inr] show thesis by (intro spent [of _ res]) auto
  qed
qed

text \<open>Each call is at most one call on the store, one that forgets a stateless nonce only once the store's clock
  has passed the time it is recorded until.\<close>

lemma issuer_step_mem:
  assumes "isStatelessNonce n" and "issuer_step hmac c s = (r, s')"
  shows "s' = s \<and> \<not> accepts n c r \<or>
    (\<exists>k res. nonce_step k s = (res, s') \<and> (accepts n c r \<longrightarrow> spends n (record_until n) k res) \<and>
      (store_clock c \<le> record_until n \<longrightarrow> frees_nonce n (record_until n) k = 0))"
proof (cases c)
  case (RequestNonceCall iss random sclock now dpop)
  have no: "\<not> accepts n c r" by (simp add: RequestNonceCall accepts_def)
  obtain r1 where r1: "RequestNonce hmac iss mem_nonce_ops random sclock now dpop s = (r1, s')"
    using assms(2) RequestNonceCall by (auto split: prod.splits)
  have "s' = s \<or> (\<exists>bs owner e. NonceStore_Issue sclock \<lparr> ni_Nonce = EncodeToString bs, ni_Owner = owner, ni_ExpiresAt = e \<rparr> s
      = (None, s'))"
    using r1 by (auto simp: RequestNonce_def issueNonce_def mem_nonce_ops_def randomID_def NonceStore_Issue_def Let_def
      split: if_splits list.splits option.splits sum.splits prod.splits)
  then show ?thesis
  proof
    assume "\<exists>bs owner e. NonceStore_Issue sclock \<lparr> ni_Nonce = EncodeToString bs, ni_Owner = owner, ni_ExpiresAt = e \<rparr> s
      = (None, s')"
    then obtain bs owner e where issue:
      "NonceStore_Issue sclock \<lparr> ni_Nonce = EncodeToString bs, ni_Owner = owner, ni_ExpiresAt = e \<rparr> s = (None, s')"
      by blast
    have "EncodeToString bs \<noteq> n" using assms(1) encoded_not_stateless by blast
    with no issue RequestNonceCall show ?thesis
      by (intro disjI2 exI [of _ "CIssue sclock \<lparr> ni_Nonce = EncodeToString bs, ni_Owner = owner, ni_ExpiresAt = e \<rparr>"]
        exI [of _ "NDone None"]) simp
  qed (use no in blast)
next
  case (AcceptNonceCall iss sclock now m)
  obtain r1 where r1: "consumeNonce hmac iss mem_nonce_ops sclock now m s = (r1, s')" "r = NonceChecked r1"
    using assms(2) AcceptNonceCall by (auto split: prod.splits)
  show ?thesis
  proof (cases "isStatelessNonce m")
    case True
    show ?thesis
    proof (cases "is_NonceKeys iss = []")
      case False
      with True r1 have "spendStatelessNonce hmac iss mem_nonce_ops sclock now m s = (r1, s')"
        by (simp add: consumeNonce_def)
      then show ?thesis
      proof (cases rule: spendStateless_mem)
        case (spent owner res)
        with r1 AcceptNonceCall show ?thesis
          by (intro disjI2 exI [of _ "CSpend sclock \<lparr> ni_Nonce = m, ni_Owner = owner, ni_ExpiresAt = record_until m \<rparr>"]
            exI [of _ "NDone res"]) (auto simp: accepts_def spends_def)
      qed (use r1 in \<open>simp add: accepts_def\<close>)
    qed (use r1 True in \<open>auto simp: consumeNonce_def accepts_def\<close>)
  next
    case False
    with assms(1) have "m \<noteq> n" by blast
    obtain res s1 where consume: "NonceStore_Consume \<lparr> nc_Nonce = m, nc_Owner = storeOwner iss \<rparr> s = (res, s1)"
      by (cases "NonceStore_Consume \<lparr> nc_Nonce = m, nc_Owner = storeOwner iss \<rparr> s")
    have "s1 = s'"
      using r1(1) consume False
      by (auto simp: consumeNonce_def mem_nonce_ops_def wrap_err_def split: sum.splits if_splits)
    with consume \<open>m \<noteq> n\<close> AcceptNonceCall show ?thesis
      by (intro disjI2 exI [of _ "CConsume \<lparr> nc_Nonce = m, nc_Owner = storeOwner iss \<rparr>"] exI [of _ "NRecord res"])
        (simp add: accepts_def)
  qed
qed

text \<open>A nonce past its expiry is refused, whatever the store says.\<close>

lemma expired_not_accepted:
  assumes "isStatelessNonce n" and "issuer_step hmac c s = (r, s')" and "carried_expiry n < issuer_clock c"
  shows "\<not> accepts n c r"
proof
  assume "accepts n c r"
  then obtain iss sclock now where c: "c = AcceptNonceCall iss sclock now n" and r: "r = NonceChecked None"
    by (auto simp: accepts_def)
  with assms(1,2) have "spendStatelessNonce hmac iss mem_nonce_ops sclock now n s = (None, s')"
    by (auto simp: consumeNonce_def split: prod.splits if_splits)
  then show False
    by (cases rule: spendStateless_mem) (use assms(3) c in auto)
qed

lemma none_accepted_late:
  "isStatelessNonce n \<Longrightarrow> list_all (\<lambda>d. carried_expiry n < issuer_clock d) cs \<Longrightarrow>
     grant_count (accepts n) (call_trace (issuer_step hmac) cs s) = 0"
proof (induction cs arbitrary: s)
  case (Cons c cs)
  obtain r s' where step: "issuer_step hmac c s = (r, s')" by (cases "issuer_step hmac c s")
  with Cons expired_not_accepted [OF Cons.prems(1) step] show ?case by simp
qed simp

lemma accepted_within:
  "isStatelessNonce n \<Longrightarrow> nonce_ok s \<Longrightarrow> clocks_agree cs \<Longrightarrow>
     grant_count (accepts n) (call_trace (issuer_step hmac) cs s) \<le> unspent n (record_until n) s"
proof (induction cs arbitrary: s)
  case (Cons c cs)
  obtain r s' where step: "issuer_step hmac c s = (r, s')" by (cases "issuer_step hmac c s")
  show ?case
  proof (cases "store_clock c \<le> record_until n")
    case True
    have "nonce_ok s' \<and> unspent n (record_until n) s' + (if accepts n c r then 1 else 0) \<le> unspent n (record_until n) s"
      using issuer_step_mem [OF Cons.prems(1) step]
    proof
      assume "\<exists>k res. nonce_step k s = (res, s') \<and> (accepts n c r \<longrightarrow> spends n (record_until n) k res) \<and>
        (store_clock c \<le> record_until n \<longrightarrow> frees_nonce n (record_until n) k = 0)"
      then obtain k res where "nonce_step k s = (res, s')" "accepts n c r \<longrightarrow> spends n (record_until n) k res"
        "frees_nonce n (record_until n) k = 0"
        using True by blast
      with spend.step_ok [OF Cons.prems(2)] spend.step_budget [OF Cons.prems(2), of k res s' n "record_until n"]
      show ?thesis by (auto split: if_splits)
    qed (use Cons.prems(2) in simp)
    with Cons.IH [of s'] Cons.prems step show ?thesis by simp
  next
    case False
    have "record_until n < store_time (issuer_clock d + spentNonceMargin)" if "d \<in> set (c # cs)" for d
      using False Cons.prems(3) that by (fastforce simp: list_all_iff)
    then have "list_all (\<lambda>d. carried_expiry n < issuer_clock d) (c # cs)"
      by (force simp: list_all_iff record_until_def store_time_def)
    from none_accepted_late [OF Cons.prems(1) this] show ?thesis by simp
  qed
qed simp

text \<open>When a stateless nonce is accepted.\<close>

lemma accept_stateless_iff:
  assumes "isStatelessNonce n"
  shows "consumeNonce hmac iss mem_nonce_ops sclock now n s = (None, s') \<longleftrightarrow>
    (is_NonceKeys iss \<noteq> [] \<and>
     (\<exists>e. openStatelessNonce hmac (is_NonceKeys iss) (storeOwner iss) n = Inr e \<and> now \<le> e \<and>
        time_Sub e now \<le> is_NonceLifetime iss \<and> gm_get (ns_issued s) n = None \<and>
        s' = nonce_add sclock \<lparr> ni_Nonce = n, ni_Owner = spentNonceOwner (storeOwner iss),
          ni_ExpiresAt = store_time (e + spentNonceMargin) \<rparr> s))"
  using assms
  by (auto simp: consumeNonce_def spendStatelessNonce_def mem_nonce_ops_def NonceStore_Spend_def mem_error_def
    split: sum.splits if_splits)

lemma open_break:
  assumes "line_break c"
  shows "openStatelessNonce hmac keys owner (statelessNoncePrefix @ a @ [c] @ b) =
    openStatelessNonce hmac keys owner (statelessNoncePrefix @ a @ b)"
  unfolding openStatelessNonce_def TrimPrefix_append StrictDecodeString_break [OF assms] ..

lemma nonce_add_absent:
  assumes "nonce_ok s" and "n \<noteq> ni_Nonce i" and "gm_get (ns_issued s) n = None"
  shows "gm_get (ns_issued (nonce_add now i s)) n = None"
  using nonce_add_get(2) [OF assms(1,2), of now] assms(3) by auto

lemma replayed:
  assumes accepted: "consumeNonce hmac iss mem_nonce_ops sclock now (statelessNoncePrefix @ a @ b) s = (None, s')"
    and "nonce_ok s" and c: "line_break c" and absent: "gm_get (ns_issued s) (statelessNoncePrefix @ a @ [c] @ b) = None"
    and time: "now \<le> now'" "now' \<le> carried_expiry (statelessNoncePrefix @ a @ b)"
  shows "fst (consumeNonce hmac iss mem_nonce_ops sclock' now' (statelessNoncePrefix @ a @ [c] @ b) s') = None"
proof -
  have stateless: "isStatelessNonce (statelessNoncePrefix @ t)" for t by (auto simp: isStatelessNonce_iff)
  from accepted obtain e where keys: "is_NonceKeys iss \<noteq> []"
    and e: "openStatelessNonce hmac (is_NonceKeys iss) (storeOwner iss) (statelessNoncePrefix @ a @ b) = Inr e"
    and live: "time_Sub e now \<le> is_NonceLifetime iss"
    and s': "s' = nonce_add sclock \<lparr> ni_Nonce = statelessNoncePrefix @ a @ b, ni_Owner = spentNonceOwner (storeOwner iss),
      ni_ExpiresAt = store_time (e + spentNonceMargin) \<rparr> s"
    unfolding accept_stateless_iff [OF stateless] by blast
  have "a @ [c] @ b \<noteq> a @ b" by simp
  with nonce_add_absent [OF assms(2) _ absent] have "gm_get (ns_issued s') (statelessNoncePrefix @ a @ [c] @ b) = None"
    by (simp add: s')
  moreover have "now' \<le> e" "time_Sub e now' \<le> is_NonceLifetime iss"
    using time live open_carried [OF e] by (auto simp: time_Sub_def)
  moreover note open_break [OF c, of hmac "is_NonceKeys iss" "storeOwner iss" a b] e keys
  ultimately have "\<exists>s''. consumeNonce hmac iss mem_nonce_ops sclock' now' (statelessNoncePrefix @ a @ [c] @ b) s' = (None, s'')"
    unfolding accept_stateless_iff [OF stateless] by auto
  then show ?thesis by auto
qed

section \<open>Properties\<close>

text \<open>C31: \<open>openStatelessNonce\<close> opens a string exactly when, its line breaks aside, it is the one encoding of a body
  tagged by one of the keys for this owner, and gives the expiry of that body.\<close>

theorem stateless_nonce_iff:
  assumes "mac_ok hmac" and "isStatelessNonce nonce"
  shows "openStatelessNonce hmac keys owner nonce = Inr e \<longleftrightarrow>
    (\<exists>key \<in> set keys. \<exists>body. nonce_body body \<and> e = body_expiry body \<and>
       filter (\<lambda>c. \<not> line_break c) nonce =
         statelessNoncePrefix @ EncodeToString (body @ statelessNonceTag hmac key owner body))"
  using assms by (rule open_iff)

definition sample_mac :: mac where
  "sample_mac key msg = replicate 32 (sum_list (key @ msg) mod 256)"

lemma sample_mac_ok: "mac_ok sample_mac"
  by (auto simp: mac_ok_def sample_mac_def statelessNonceTagBytes_def)

definition sample_body :: "nat list" where
  "sample_body = [0, 0, 0, 0, 0, 0, 0, 100, 1, 2, 3, 4, 5, 6, 7, 8, 9, 10, 11, 12, 13, 14, 15, 16]"

definition sample_nonce :: string where
  "sample_nonce = statelessNoncePrefix @ EncodeToString (sample_body @ statelessNonceTag sample_mac [7] ''i'' sample_body)"

lemma sample_nonce_stateless: "isStatelessNonce sample_nonce"
  by (auto simp: sample_nonce_def isStatelessNonce_iff)

lemma sample_body_ok: "nonce_body sample_body" "body_expiry sample_body = 100 * second"
  by (simp_all add: nonce_body_def body_expiry_def sample_body_def nonce_sizes maxUnixSeconds_def)

theorem stateless_nonce_iff_witness: "openStatelessNonce sample_mac [[9], [7]] ''i'' sample_nonce = Inr (100 * second)"
proof (rule stateless_nonce_iff [OF sample_mac_ok sample_nonce_stateless, THEN iffD2], intro bexI exI conjI)
  show "filter (\<lambda>c. \<not> line_break c) sample_nonce =
      statelessNoncePrefix @ EncodeToString (sample_body @ statelessNonceTag sample_mac [7] ''i'' sample_body)"
    by (simp add: sample_nonce_def del: append_assoc)
qed (simp_all add: sample_body_ok)

text \<open>C13: A stateless nonce, as a string, is accepted at most once, whatever the Issuers sharing the store do in between,
  replicas and other tenants alike, while no store clock runs more than five minutes ahead of theirs.\<close>

theorem stateless_nonce_accepted_once:
  assumes "isStatelessNonce n" and "nonce_ok s" and "clocks_agree cs"
  shows "grant_count (accepts n) (call_trace (issuer_step hmac) cs s) \<le> 1"
  using accepted_within [OF assms] unspent_le order_trans by blast

definition sample_issuer :: nonce_issuer where
  "sample_issuer = \<lparr> is_Issuer = ''i'', is_production = True, is_NonceEndpoint = True,
     is_NonceLifetime = 300 * second, is_NonceKeys = [[9], [7]] \<rparr>"

definition empty_nonces :: nonce_store where
  "empty_nonces = \<lparr> ns_issued = [], ns_prune = \<lparr> pr_at = 0 \<rparr> \<rparr>"

lemma empty_nonces_ok: "nonce_ok empty_nonces"
  by (simp add: empty_nonces_def nonce_ok_def)

theorem stateless_nonce_accepted_once_witness:
  "grant_count (accepts sample_nonce) (call_trace (issuer_step sample_mac)
      [AcceptNonceCall sample_issuer (store_time (20 * second)) (10 * second) sample_nonce,
       RequestNonceCall sample_issuer (replicate 16 1) (store_time 0) (30 * second) None,
       AcceptNonceCall sample_issuer (store_time (330 * second)) (99 * second) sample_nonce] empty_nonces) \<le> 1"
  by (rule stateless_nonce_accepted_once [OF sample_nonce_stateless empty_nonces_ok])
    (simp add: store_time_def spentNonceMargin_def second_def)

text \<open>C32: A stateless nonce is spent by its string, and its string can be changed: with a line break put anywhere after its
  prefix it is accepted again, until it expires.\<close>

theorem line_break_replay:
  assumes "consumeNonce hmac iss mem_nonce_ops sclock now (statelessNoncePrefix @ a @ b) s = (None, s')"
    and "nonce_ok s" and "line_break c" and "gm_get (ns_issued s) (statelessNoncePrefix @ a @ [c] @ b) = None"
    and "now \<le> now'" and "now' \<le> carried_expiry (statelessNoncePrefix @ a @ b)"
  shows "fst (consumeNonce hmac iss mem_nonce_ops sclock' now' (statelessNoncePrefix @ a @ [c] @ b) s') = None"
  using assms by (rule replayed)

lemma sample_opens: "openStatelessNonce sample_mac [[9], [7]] ''i'' sample_nonce = Inr (100 * second)"
  by (rule open_iff [OF sample_mac_ok sample_nonce_stateless, THEN iffD2])
    (auto simp: sample_nonce_def sample_body_ok simp del: append_assoc
      intro!: exI [of _ sample_body])

definition sample_tail :: string where
  "sample_tail = EncodeToString (sample_body @ statelessNonceTag sample_mac [7] ''i'' sample_body)"

lemma sample_nonce_tail: "sample_nonce = statelessNoncePrefix @ [] @ sample_tail"
  by (simp add: sample_nonce_def sample_tail_def)

lemma sample_accepted:
  "consumeNonce sample_mac sample_issuer mem_nonce_ops 0 (10 * second) sample_nonce empty_nonces =
     (None, nonce_add 0 \<lparr> ni_Nonce = sample_nonce, ni_Owner = spentNonceOwner ''i'',
       ni_ExpiresAt = store_time (100 * second + spentNonceMargin) \<rparr> empty_nonces)"
  unfolding accept_stateless_iff [OF sample_nonce_stateless]
  by (simp add: sample_issuer_def storeOwner_def sample_opens empty_nonces_def) (simp add: second_def time_Sub_def)

theorem line_break_replay_witness:
  "\<exists>s'. consumeNonce sample_mac sample_issuer mem_nonce_ops 0 (10 * second) sample_nonce empty_nonces = (None, s') \<and>
     fst (consumeNonce sample_mac sample_issuer mem_nonce_ops 0 (20 * second)
       (statelessNoncePrefix @ [CHR 0x0A] @ sample_tail) s') = None"
proof -
  have "20 * second \<le> carried_expiry sample_nonce"
    by (simp add: open_carried [OF sample_opens] second_def)
  then have "fst (consumeNonce sample_mac sample_issuer mem_nonce_ops 0 (20 * second)
      (statelessNoncePrefix @ [] @ [CHR 0x0A] @ sample_tail) (nonce_add 0 \<lparr> ni_Nonce = sample_nonce,
       ni_Owner = spentNonceOwner ''i'', ni_ExpiresAt = store_time (100 * second + spentNonceMargin) \<rparr> empty_nonces)) = None"
    by (intro line_break_replay [OF sample_accepted [unfolded sample_nonce_tail] empty_nonces_ok, folded sample_nonce_tail])
      (simp_all add: line_break_def empty_nonces_def second_def)
  with sample_accepted show ?thesis by simp
qed

end
