(* ===== verification/Strict_Json.thy ===== *)
theory Strict_Json
  imports Jose
begin

text \<open>
  Decoding a JSON object into a Go struct, as \<open>src/internal/strictjson/strictjson.go\<close> does it: \<open>checkStructCase\<close>, which
  refuses a member that names a field but for its case, and the fields \<open>encoding/json\<close> then sets. The object has been
  parsed, and its text, with duplicate members and lone surrogates, refused before; a JSON \<open>null\<close> leaves a field as
  it is.
\<close>

definition checkStructCase :: "string list \<Rightarrow> (string \<times> goval) list \<Rightarrow> bool" where
  "checkStructCase names members =
     list_all (\<lambda>(m, v). m \<in> set names \<or> \<not> list_ex (EqualFold m) names) members"

text \<open>Fields by their Go type: \<open>string\<close>, \<open>*float64\<close>, \<open>[]string\<close>, \<open>[]json.RawMessage\<close> and \<open>map[string]any\<close>. \<open>None\<close> is a
  value of another type.\<close>

fun str_value :: "goval \<Rightarrow> string option" where
  "str_value (GStr s) = Some s"
| "str_value GNil = Some []"
| "str_value _ = None"

fun num_value :: "goval \<Rightarrow> gofloat option option" where
  "num_value (GFloat x) = Some (Some x)"
| "num_value GNil = Some None"
| "num_value _ = None"

fun all_some :: "'a option list \<Rightarrow> 'a list option" where
  "all_some [] = Some []"
| "all_some (x # xs) = (case x of None \<Rightarrow> None | Some v \<Rightarrow> map_option (Cons v) (all_some xs))"

fun strs_value :: "goval \<Rightarrow> string list option" where
  "strs_value (GArr vs) = all_some (map str_value vs)"
| "strs_value GNil = Some []"
| "strs_value _ = None"

fun raws_value :: "goval \<Rightarrow> goval list option" where
  "raws_value (GArr vs) = Some vs"
| "raws_value GNil = Some []"
| "raws_value _ = None"

fun map_value :: "goval \<Rightarrow> (string \<times> goval) list option option" where
  "map_value (GObj kvs) = Some (Some kvs)"
| "map_value GNil = Some None"
| "map_value _ = None"

definition field :: "(goval \<Rightarrow> 'a option) \<Rightarrow> 'a \<Rightarrow> (string \<times> goval) list \<Rightarrow> string \<Rightarrow> 'a option" where
  "field decode zero members name = (case gm_get members name of None \<Rightarrow> Some zero | Some v \<Rightarrow> decode v)"

lemma field_simps [simp]:
  "gm_get m n = None \<Longrightarrow> field d z m n = Some z"
  "gm_get m n = Some v \<Longrightarrow> field d z m n = d v"
  by (simp_all add: field_def)

lemma all_some_map [simp]: "all_some (map (\<lambda>x. Some (f x)) xs) = Some (map f xs)"
  by (induction xs) simp_all

end
