(* ===== verification/Jwk.thy ===== *)
theory Jwk
  imports Strict_Json
begin

text \<open>
  JSON Web Keys, \<open>src/internal/jwk/jwk.go\<close>: P-256 and Ed25519 public keys as JWKs. The encoding of a curve point and the
  check that one lies on the curve are parameters, as is SHA-256. A JWK as JSON is the decoded value of its text.
\<close>

record jwk =
  jk_Kty :: string
  jk_Crv :: string
  jk_X :: string
  jk_Y :: string
  jk_D :: string

text \<open>\<open>certchain.SameKey\<close>.\<close>

definition SameKey :: "'p public_key \<Rightarrow> 'p public_key \<Rightarrow> bool" where
  "SameKey a b = (a = b \<and> a \<noteq> OtherKey)"

text \<open>\<open>crypto/ecdsa\<close>: \<open>PublicKey.Bytes\<close> and \<open>ParseUncompressedPublicKey\<close> for P-256.\<close>

record 'p ec =
  ec_Bytes :: "'p \<Rightarrow> nat list option"
  ec_Parse :: "nat list \<Rightarrow> 'p option"

datatype jwk_error =
    UnsupportedCurve string
  | EncodeKey
  | UnsupportedKeyType
  | DecodeX b64_error
  | DecodeY b64_error
  | CoordinateLength
  | DecodeECKey
  | Ed25519Length nat
  | Ed25519SmallOrder
  | UnsupportedKty string
  | UnmarshalJWK
  | PrivateKeyInPublic

definition jwk_Marshal :: "'p ec \<Rightarrow> 'p public_key \<Rightarrow> jwk_error + jwk" where
  "jwk_Marshal ec pub =
     (case pub of
        ECKey p256 k \<Rightarrow>
          (if \<not> p256 then Inl (UnsupportedCurve [])
           else (case ec_Bytes ec k of
               None \<Rightarrow> Inl EncodeKey
             | Some raw \<Rightarrow>
                 (let n = (length raw - 1) div 2 in
                  Inr \<lparr> jk_Kty = ''EC'', jk_Crv = ''P-256'', jk_X = EncodeToString (take n (drop 1 raw)),
                        jk_Y = EncodeToString (drop (1 + n) raw), jk_D = [] \<rparr>)))
      | EdKey k \<Rightarrow> Inr \<lparr> jk_Kty = ''OKP'', jk_Crv = ''Ed25519'', jk_X = EncodeToString k, jk_Y = [], jk_D = [] \<rparr>
      | OtherKey \<Rightarrow> Inl UnsupportedKeyType)"

definition jwk_PublicKey :: "'p ec \<Rightarrow> jwk \<Rightarrow> jwk_error + 'p public_key" where
  "jwk_PublicKey ec k =
     (if jk_Kty k = ''EC'' then
        (if jk_Crv k \<noteq> ''P-256'' then Inl (UnsupportedCurve (jk_Crv k))
         else rbind (wrap_err DecodeX (DecodeString (jk_X k))) (\<lambda>x.
           rbind (wrap_err DecodeY (DecodeString (jk_Y k))) (\<lambda>y.
             if length x \<noteq> 32 \<or> length y \<noteq> 32 then Inl CoordinateLength
             else (case ec_Parse ec ([4] @ x @ y) of
                 None \<Rightarrow> Inl DecodeECKey
               | Some p \<Rightarrow> Inr (ECKey True p)))))
      else if jk_Kty k = ''OKP'' then
        (if jk_Crv k \<noteq> ''Ed25519'' then Inl (UnsupportedCurve (jk_Crv k))
         else rbind (wrap_err DecodeX (DecodeString (jk_X k))) (\<lambda>x.
           if length x \<noteq> 32 then Inl (Ed25519Length (length x))
           else if IsSmallOrderEd25519 x then Inl Ed25519SmallOrder
           else Inr (EdKey x)))
      else Inl (UnsupportedKty (jk_Kty k)))"

text \<open>\<open>strictjson.Unmarshal\<close> into a \<open>JWK\<close>, and \<open>json.Marshal\<close> of one, with its \<open>omitempty\<close>.\<close>

definition jwk_fields :: "string list" where
  "jwk_fields = [''kty'', ''crv'', ''x'', ''y'', ''d'']"

fun unmarshal_jwk :: "goval \<Rightarrow> jwk option" where
  "unmarshal_jwk (GObj kvs) =
     (if \<not> checkStructCase jwk_fields kvs then None
      else (case (field str_value [] kvs ''kty'', field str_value [] kvs ''crv'', field str_value [] kvs ''x'',
            field str_value [] kvs ''y'', field str_value [] kvs ''d'') of
          (Some kty, Some crv, Some x, Some y, Some d) \<Rightarrow>
            Some \<lparr> jk_Kty = kty, jk_Crv = crv, jk_X = x, jk_Y = y, jk_D = d \<rparr>
        | _ \<Rightarrow> None))"
| "unmarshal_jwk GNil = Some \<lparr> jk_Kty = [], jk_Crv = [], jk_X = [], jk_Y = [], jk_D = [] \<rparr>"
| "unmarshal_jwk _ = None"

definition omit_empty :: "string \<Rightarrow> string \<Rightarrow> (string \<times> goval) list" where
  "omit_empty name s = (if s = [] then [] else [(name, GStr s)])"

definition jwk_json :: "jwk \<Rightarrow> goval" where
  "jwk_json k = GObj ([(''kty'', GStr (jk_Kty k))] @ omit_empty ''crv'' (jk_Crv k) @ omit_empty ''x'' (jk_X k) @
     omit_empty ''y'' (jk_Y k) @ omit_empty ''d'' (jk_D k))"

definition ParsePublicKey :: "'p ec \<Rightarrow> goval \<Rightarrow> jwk_error + 'p public_key" where
  "ParsePublicKey ec raw =
     (case unmarshal_jwk raw of
        None \<Rightarrow> Inl UnmarshalJWK
      | Some k \<Rightarrow> if jk_D k \<noteq> [] then Inl PrivateKeyInPublic else jwk_PublicKey ec k)"

definition jwk_Matches :: "'p ec \<Rightarrow> goval \<Rightarrow> 'p public_key \<Rightarrow> jwk_error + bool" where
  "jwk_Matches ec raw pub =
     rbind (jwk_Marshal ec pub) (\<lambda>candidate.
       case unmarshal_jwk raw of
         None \<Rightarrow> Inl UnmarshalJWK
       | Some want \<Rightarrow>
           (if jk_D want \<noteq> [] then Inl PrivateKeyInPublic
            else (case jwk_PublicKey ec want of
                Inl _ \<Rightarrow> Inr False
              | Inr parsed \<Rightarrow>
                  (case jwk_Marshal ec parsed of
                     Inl _ \<Rightarrow> Inr False
                   | Inr want \<Rightarrow> Inr (want = candidate)))))"

text \<open>\<open>Thumbprint\<close> of a public key: of a JWK that \<open>Marshal\<close> made, whose members \<open>%q\<close> quotes as they are.\<close>

definition quoted :: "string \<Rightarrow> string" where
  "quoted s = CHR 0x22 # s @ [CHR 0x22]"

definition thumbprint_input :: "jwk \<Rightarrow> string" where
  "thumbprint_input k =
     (if jk_Kty k = ''EC''
      then ''{'' @ quoted ''crv'' @ '':'' @ quoted ''P-256'' @ '','' @ quoted ''kty'' @ '':'' @ quoted ''EC'' @ '','' @
        quoted ''x'' @ '':'' @ quoted (jk_X k) @ '','' @ quoted ''y'' @ '':'' @ quoted (jk_Y k) @ ''}''
      else ''{'' @ quoted ''crv'' @ '':'' @ quoted ''Ed25519'' @ '','' @ quoted ''kty'' @ '':'' @ quoted ''OKP'' @ '','' @
        quoted ''x'' @ '':'' @ quoted (jk_X k) @ ''}'')"

definition jwk_Thumbprint :: "'p crypto \<Rightarrow> 'p ec \<Rightarrow> 'p public_key \<Rightarrow> jwk_error + nat list" where
  "jwk_Thumbprint cr ec pub =
     rbind (jwk_Marshal ec pub) (\<lambda>j.
       wrap_err DecodeX (DecodeString (EncodeToString (cr_sha256 cr (str_bytes (thumbprint_input j))))))"

section \<open>Keys as JWKs\<close>

text \<open>\<open>crypto/ecdsa\<close>: an uncompressed point is 65 bytes, starts with 4 and parses back; what parses is encoded as it was.\<close>

definition ec_ok :: "'p ec \<Rightarrow> bool" where
  "ec_ok ec =
     ((\<forall>p raw. ec_Bytes ec p = Some raw \<longrightarrow>
        length raw = 65 \<and> hd raw = 4 \<and> (\<forall>b \<in> set raw. b < 256) \<and> ec_Parse ec raw = Some p) \<and>
      (\<forall>raw p. ec_Parse ec raw = Some p \<longrightarrow> ec_Bytes ec p = Some raw))"

definition ed_ok :: "'p public_key \<Rightarrow> bool" where
  "ed_ok pub = (case pub of EdKey k \<Rightarrow> length k = 32 \<and> \<not> IsSmallOrderEd25519 k \<and> (\<forall>b \<in> set k. b < 256) | _ \<Rightarrow> True)"

lemma ec_Bytes_ok:
  assumes "ec_ok ec" and "ec_Bytes ec p = Some raw"
  shows "length raw = 65" "hd raw = 4" "\<forall>b \<in> set raw. b < 256" "ec_Parse ec raw = Some p"
  using assms unfolding ec_ok_def by blast+

lemma ec_Parse_ok: "ec_ok ec \<Longrightarrow> ec_Parse ec raw = Some p \<Longrightarrow> ec_Bytes ec p = Some raw"
  unfolding ec_ok_def by blast

lemma EncodeToString_empty [simp]: "EncodeToString bs = [] \<longleftrightarrow> bs = []"
  by (cases bs rule: EncodeToString.cases) simp_all

lemma unmarshal_jwk_json [simp]: "unmarshal_jwk (jwk_json k) = Some k"
  by (cases k) (simp add: jwk_json_def omit_empty_def checkStructCase_def jwk_fields_def)

lemma Marshal_public: "jwk_Marshal ec pub = Inr j \<Longrightarrow> jk_D j = []"
  by (auto simp: jwk_Marshal_def Let_def split: public_key.splits option.splits if_splits)

text \<open>What \<open>Marshal\<close> writes, \<open>ParsePublicKey\<close> reads back.\<close>

lemma Marshal_PublicKey:
  assumes "ec_ok ec" and "ed_ok pub" and "jwk_Marshal ec pub = Inr j"
  shows "jwk_PublicKey ec j = Inr pub"
proof (cases pub)
  case (ECKey p256 p)
  with assms(3) obtain raw where raw: "ec_Bytes ec p = Some raw" and p256: "p256"
    and j: "j = \<lparr> jk_Kty = ''EC'', jk_Crv = ''P-256'', jk_X = EncodeToString (take ((length raw - 1) div 2) (drop 1 raw)),
        jk_Y = EncodeToString (drop (1 + (length raw - 1) div 2) raw), jk_D = [] \<rparr>"
    by (auto simp: jwk_Marshal_def Let_def split: option.splits if_splits)
  note bytes = ec_Bytes_ok [OF assms(1) raw]
  obtain r where r: "raw = 4 # r" "length r = 64" using bytes(1,2) by (cases raw) auto
  have raw_eq: "[4] @ take 32 (drop 1 raw) @ drop 33 raw = raw" by (simp add: r)
  have "\<forall>b \<in> set (take 32 (drop 1 raw)). b < 256" "\<forall>b \<in> set (drop 33 raw). b < 256"
    using bytes(3) by (auto dest: in_set_takeD in_set_dropD)
  then have decode: "DecodeString (jk_X j) = Inr (take 32 (drop 1 raw))" "DecodeString (jk_Y j) = Inr (drop 33 raw)"
    by (simp_all add: j bytes(1) b64_decode_encode del: drop_Suc_Cons)
  have "length (take 32 (drop 1 raw)) = 32" "length (drop 33 raw) = 32" by (simp_all add: r)
  moreover have "jk_Kty j = ''EC''" "jk_Crv j = ''P-256''" by (simp_all add: j)
  ultimately have "jwk_PublicKey ec j =
      (case ec_Parse ec ([4] @ take 32 (drop 1 raw) @ drop 33 raw) of None \<Rightarrow> Inl DecodeECKey | Some p \<Rightarrow> Inr (ECKey True p))"
    using decode by (simp add: jwk_PublicKey_def del: append_Cons append_Nil)
  with ECKey p256 show ?thesis unfolding raw_eq bytes(4) by simp
next
  case (EdKey k)
  with assms show ?thesis
    by (auto simp: jwk_Marshal_def jwk_PublicKey_def ed_ok_def b64_decode_encode)
qed (use assms in \<open>simp add: jwk_Marshal_def\<close>)

lemma Marshal_Parse:
  assumes "ec_ok ec" and "ed_ok pub" and "jwk_Marshal ec pub = Inr j"
  shows "ParsePublicKey ec (jwk_json j) = Inr pub"
  using Marshal_PublicKey [OF assms] Marshal_public [OF assms(3)] by (simp add: ParsePublicKey_def)

text \<open>A key that was parsed is one of the two kinds, and can be written.\<close>

lemma PublicKey_ok:
  assumes "ec_ok ec" and "jwk_PublicKey ec k = Inr pub"
  shows "ed_ok pub" and "\<exists>j. jwk_Marshal ec pub = Inr j"
proof -
  have "(\<exists>p raw. pub = ECKey True p \<and> ec_Bytes ec p = Some raw) \<or>
      (\<exists>x. pub = EdKey x \<and> length x = 32 \<and> \<not> IsSmallOrderEd25519 x \<and> (\<forall>b \<in> set x. b < 256))"
  proof (cases "jk_Kty k = ''EC''")
    case True
    with assms(2) obtain raw p where "ec_Parse ec raw = Some p" "pub = ECKey True p"
      by (auto simp: jwk_PublicKey_def rbind_Inr_iff if_Inr_iff split: option.splits)
    with ec_Parse_ok [OF assms(1)] show ?thesis by blast
  next
    case False
    with assms(2) obtain x where "DecodeString (jk_X k) = Inr x" "length x = 32" "\<not> IsSmallOrderEd25519 x" "pub = EdKey x"
      by (auto simp: jwk_PublicKey_def rbind_Inr_iff if_Inr_iff split: if_splits)
    moreover from this b64_encode_decode have "\<forall>b \<in> set x. b < 256" by blast
    ultimately show ?thesis by blast
  qed
  then show "ed_ok pub" "\<exists>j. jwk_Marshal ec pub = Inr j"
    by (auto simp: ed_ok_def jwk_Marshal_def Let_def)
qed

text \<open>Two keys with one JWK are one key.\<close>

lemma Marshal_inj:
  assumes "ec_ok ec" and "ed_ok a" and "ed_ok b" and "jwk_Marshal ec a = Inr j" and "jwk_Marshal ec b = Inr j"
  shows "a = b"
  using Marshal_PublicKey [OF assms(1,2,4)] Marshal_PublicKey [OF assms(1,3,5)] by simp

text \<open>\<open>Matches\<close> is equality of keys.\<close>

lemma Matches_iff:
  assumes "ec_ok ec" and "ed_ok pub" and "jwk_Matches ec raw pub = Inr b"
  shows "b \<longleftrightarrow> ParsePublicKey ec raw = Inr pub"
proof -
  obtain candidate want where c: "jwk_Marshal ec pub = Inr candidate" and w: "unmarshal_jwk raw = Some want" "jk_D want = []"
    and b: "(case jwk_PublicKey ec want of Inl _ \<Rightarrow> Inr False
        | Inr parsed \<Rightarrow> (case jwk_Marshal ec parsed of Inl _ \<Rightarrow> Inr False | Inr w \<Rightarrow> Inr (w = candidate))) = (Inr b :: jwk_error + bool)"
    using assms(3) by (auto simp: jwk_Matches_def ok_iffs)
  have parse: "ParsePublicKey ec raw = jwk_PublicKey ec want" by (simp add: ParsePublicKey_def w)
  show ?thesis
  proof (cases "jwk_PublicKey ec want")
    case (Inl e)
    with b parse show ?thesis by simp
  next
    case (Inr parsed)
    from PublicKey_ok [OF assms(1) Inr] obtain w' where p: "ed_ok parsed" "jwk_Marshal ec parsed = Inr w'" by blast
    with b Inr have "b \<longleftrightarrow> w' = candidate" by auto
    with Marshal_inj [OF assms(1) p(1) assms(2) p(2)] c p(2) Inr parse show ?thesis by auto
  qed
qed

section \<open>A key by example\<close>

definition no_ec :: "unit ec" where
  "no_ec = \<lparr> ec_Bytes = (\<lambda>_. None), ec_Parse = (\<lambda>_. None) \<rparr>"

definition wallet_key :: "nat list" where "wallet_key = replicate 32 9"

definition wallet_jwk :: goval where
  "wallet_jwk = GObj [(''kty'', GStr ''OKP''), (''crv'', GStr ''Ed25519''), (''x'', GStr (EncodeToString wallet_key))]"

lemma wallet_key_fine: "\<not> IsSmallOrderEd25519 wallet_key" "length wallet_key = 32" "DecodeString (EncodeToString wallet_key) = Inr wallet_key"
  by code_simp+

lemma wallet_jwk_parses: "ParsePublicKey ec wallet_jwk = Inr (EdKey wallet_key)"
  by (simp add: wallet_jwk_def ParsePublicKey_def checkStructCase_def jwk_fields_def jwk_PublicKey_def wallet_key_fine)

end
