(* ===== verification/Key_Attestation.thy ===== *)
theory Key_Attestation
  imports Jwk Jwt_Date
begin

text \<open>
  Key Attestation JWTs as an Issuer reads them: \<open>Parse\<close>, \<open>Verify\<close> and \<open>KeyAttested\<close> of
  \<open>src/attestation/keyattestation.go\<close>, with \<open>matchesPublicKey\<close> of \<open>jwk.go\<close>. An attested key is the decoded JSON of its JWK.
\<close>

definition AttestationTyp :: string where "AttestationTyp = ''key-attestation+jwt''"

record attestation_claims =
  ac_Issuer :: string
  ac_IssuedAt :: int
  ac_ExpiresAt :: "int option"
  ac_AttestedKeys :: "goval list"
  ac_KeyStorage :: "string list"
  ac_UserAuthentication :: "string list"
  ac_Certification :: string
  ac_Nonce :: string
  ac_Status :: "(string \<times> goval) list option"

record key_attestation =
  ka_header :: "(string \<times> goval) list"
  ka_compact :: string
  ka_claims :: attestation_claims

datatype attestation_error =
    AttestationJOSE jose_error
  | AttestationUnmarshal
  | AttestationNoIat
  | AttestationIat date_error
  | AttestationExp date_error
  | AttestationNoKeys
  | AttestationWrongTyp string
  | AttestationNowRequired
  | AttestationExpired
  | AttestationNoExpiry
  | AttestationNonceDiffers

definition wire_fields :: "string list" where
  "wire_fields = [''iss'', ''iat'', ''exp'', ''attested_keys'', ''key_storage'', ''user_authentication'',
     ''certification'', ''nonce'', ''status'']"

text \<open>The members a payload sets, with \<open>iat\<close> and \<open>exp\<close> still numbers.\<close>

record wire_claims =
  wc_Issuer :: string
  wc_IssuedAt :: "gofloat option"
  wc_ExpiresAt :: "gofloat option"
  wc_AttestedKeys :: "goval list"
  wc_KeyStorage :: "string list"
  wc_UserAuthentication :: "string list"
  wc_Certification :: string
  wc_Nonce :: string
  wc_Status :: "(string \<times> goval) list option"

definition unmarshal_wire :: "(string \<times> goval) list \<Rightarrow> wire_claims option" where
  "unmarshal_wire kvs =
     (if \<not> checkStructCase wire_fields kvs then None
      else Option.bind (field str_value [] kvs ''iss'') (\<lambda>issuer.
        Option.bind (field num_value None kvs ''iat'') (\<lambda>iat.
        Option.bind (field num_value None kvs ''exp'') (\<lambda>expires.
        Option.bind (field raws_value [] kvs ''attested_keys'') (\<lambda>attested.
        Option.bind (field strs_value [] kvs ''key_storage'') (\<lambda>storage.
        Option.bind (field strs_value [] kvs ''user_authentication'') (\<lambda>user.
        Option.bind (field str_value [] kvs ''certification'') (\<lambda>certification.
        Option.bind (field str_value [] kvs ''nonce'') (\<lambda>nonce.
        Option.bind (field map_value None kvs ''status'') (\<lambda>status.
          Some \<lparr> wc_Issuer = issuer, wc_IssuedAt = iat, wc_ExpiresAt = expires, wc_AttestedKeys = attested,
            wc_KeyStorage = storage, wc_UserAuthentication = user, wc_Certification = certification,
            wc_Nonce = nonce, wc_Status = status \<rparr>))))))))))"

text \<open>An \<open>iat\<close> that is missing, or zero.\<close>

definition is_zero :: "gofloat option \<Rightarrow> bool" where
  "is_zero x = (x = None \<or> x = Some (Finite 0))"

text \<open>\<open>jwtdate.FromFloat(v)\<close>, then \<open>Unix()\<close>.\<close>

definition float_unix :: "gofloat \<Rightarrow> date_error + int" where
  "float_unix x = rmap (\<lambda>t. t div second) (FromFloat x)"

definition attestation_Parse :: "'p crypto \<Rightarrow> string \<Rightarrow> attestation_error + key_attestation" where
  "attestation_Parse cr jws =
     rbind (wrap_err AttestationJOSE (DecodeUnverified cr jws)) (\<lambda>(header, payload).
       case Option.bind (cr_json cr payload) unmarshal_wire of
         None \<Rightarrow> Inl AttestationUnmarshal
       | Some w \<Rightarrow>
           (if is_zero (wc_IssuedAt w) then Inl AttestationNoIat
            else rbind (wrap_err AttestationIat (float_unix (the (wc_IssuedAt w)))) (\<lambda>iat.
              rbind (case wc_ExpiresAt w of
                  None \<Rightarrow> Inr None
                | Some x \<Rightarrow> wrap_err AttestationExp (rmap Some (float_unix x))) (\<lambda>expires.
                if wc_AttestedKeys w = [] then Inl AttestationNoKeys
                else Inr \<lparr> ka_header = header, ka_compact = jws, ka_claims =
                  \<lparr> ac_Issuer = wc_Issuer w, ac_IssuedAt = iat, ac_ExpiresAt = expires,
                    ac_AttestedKeys = wc_AttestedKeys w, ac_KeyStorage = wc_KeyStorage w,
                    ac_UserAuthentication = wc_UserAuthentication w, ac_Certification = wc_Certification w,
                    ac_Nonce = wc_Nonce w, ac_Status = wc_Status w \<rparr> \<rparr>))))"

definition attestation_KeyID :: "key_attestation \<Rightarrow> string" where
  "attestation_KeyID a = str_member (ka_header a) ''kid''"

text \<open>The strings among the elements of an array.\<close>

fun stringSlice :: "goval option \<Rightarrow> string list" where
  "stringSlice (Some (GArr vs)) = List.map_filter as_str vs"
| "stringSlice _ = []"

definition attestation_X5C :: "key_attestation \<Rightarrow> string list" where
  "attestation_X5C a = stringSlice (gm_get (ka_header a) ''x5c'')"

definition attestation_TrustChain :: "key_attestation \<Rightarrow> string list" where
  "attestation_TrustChain a = stringSlice (gm_get (ka_header a) ''trust_chain'')"

record attestation_options =
  ao_Now :: int
  ao_ExpectedNonce :: string
  ao_RequireExpiry :: bool

record verified_claims =
  va_Issuer :: string
  va_IssuedAt :: int
  va_ExpiresAt :: "int option"
  va_AttestedKeys :: "goval list"
  va_KeyStorage :: "string list"
  va_UserAuthentication :: "string list"
  va_Certification :: string
  va_Nonce :: string
  va_Status :: "(string \<times> goval) list option"

text \<open>The zero \<open>time.Time\<close>, counted from 1970.\<close>

definition zero_time :: int where
  "zero_time = - 62135596800 * second"

definition attestation_expiry :: "attestation_claims \<Rightarrow> attestation_options \<Rightarrow> attestation_error + int option" where
  "attestation_expiry c opts =
     (case ac_ExpiresAt c of
        Some x \<Rightarrow>
          rbind (wrap_err AttestationExp (FromUnix x)) (\<lambda>t.
            if ao_Now opts = zero_time then Inl AttestationNowRequired
            else if \<not> ao_Now opts < t then Inl AttestationExpired
            else Inr (Some t))
      | None \<Rightarrow> if ao_RequireExpiry opts then Inl AttestationNoExpiry else Inr None)"

definition attestation_Verify ::
  "'p crypto \<Rightarrow> key_attestation \<Rightarrow> 'p public_key \<Rightarrow> string \<Rightarrow> attestation_options \<Rightarrow> attestation_error + verified_claims" where
  "attestation_Verify cr a pub alg opts =
     (if \<not> TypeIs (str_member (ka_header a) ''typ'') AttestationTyp
      then Inl (AttestationWrongTyp (str_member (ka_header a) ''typ''))
      else rbind (wrap_err AttestationJOSE (Verify cr alg pub (ka_compact a))) (\<lambda>_.
        (let c = ka_claims a in
         rbind (attestation_expiry c opts) (\<lambda>expires.
           if ao_ExpectedNonce opts \<noteq> [] \<and> ac_Nonce c \<noteq> ao_ExpectedNonce opts then Inl AttestationNonceDiffers
           else rbind (wrap_err AttestationIat (FromUnix (ac_IssuedAt c))) (\<lambda>issued.
             Inr \<lparr> va_Issuer = ac_Issuer c, va_IssuedAt = issued, va_ExpiresAt = expires,
               va_AttestedKeys = ac_AttestedKeys c, va_KeyStorage = ac_KeyStorage c,
               va_UserAuthentication = ac_UserAuthentication c, va_Certification = ac_Certification c,
               va_Nonce = ac_Nonce c, va_Status = ac_Status c \<rparr>)))))"

text \<open>An attested key that cannot be read is no match.\<close>

definition KeyAttested :: "'p ec \<Rightarrow> verified_claims \<Rightarrow> 'p public_key \<Rightarrow> bool" where
  "KeyAttested ec v pub = list_ex (\<lambda>k. jwk_Matches ec k pub = Inr True) (va_AttestedKeys v)"

lemma KeyAttested_iff:
  assumes "ec_ok ec" and "ed_ok pub" and "jwk_Marshal ec pub = Inr j"
  shows "KeyAttested ec v pub \<longleftrightarrow> (\<exists>k \<in> set (va_AttestedKeys v). ParsePublicKey ec k = Inr pub)"
proof -
  have "jwk_Matches ec k pub = Inr True \<longleftrightarrow> ParsePublicKey ec k = Inr pub" for k
  proof
    assume "jwk_Matches ec k pub = Inr True"
    with Matches_iff [OF assms(1,2)] show "ParsePublicKey ec k = Inr pub" by blast
  next
    assume "ParsePublicKey ec k = Inr pub"
    then obtain w where "unmarshal_jwk k = Some w" "jk_D w = []" "jwk_PublicKey ec w = Inr pub"
      by (auto simp: ParsePublicKey_def split: option.splits if_splits)
    with assms(3) show "jwk_Matches ec k pub = Inr True" by (simp add: jwk_Matches_def)
  qed
  then show ?thesis by (simp add: KeyAttested_def list_ex_iff)
qed

end
