(* ===== verification/Issuer_Proofs.thy ===== *)
theory Issuer_Proofs
  imports Issuer_Nonce Key_Attestation
begin

text \<open>
  The key proofs of a Credential Request, \<open>src/issuer/proofs.go\<close>: \<open>jwt\<close> proofs with the key they declare, with or without
  a key attestation, and \<open>attestation\<close> proofs. What a deployment plugs in is in \<open>proof_deps\<close>: whose \<open>kid\<close>, \<open>x5c\<close> and
  attestations to trust, and whether an attestation has been revoked. One reading of the clock serves a request.
\<close>

section \<open>Dependencies, errors and keys\<close>

text \<open>An error of a resolver, as \<open>trustUndecided\<close> sorts it.\<close>

datatype trust_error = Untrusted | TrustUndecided

datatype status_verdict = KeyAttestationRevoked | StatusUnknown

record 'p proof_deps =
  pd_crypto :: "'p crypto"
  pd_ec :: "'p ec"
  pd_ProofBindingKeys :: "(int \<Rightarrow> (string \<times> goval) list \<Rightarrow> trust_error + 'p public_key \<times> string) option"
  pd_AttestationVerifier :: "(int \<Rightarrow> key_attestation \<Rightarrow> trust_error + 'p public_key \<times> string) option"
  pd_AttestationStatus :: "(verified_claims \<Rightarrow> 'p public_key \<Rightarrow> key_attestation \<Rightarrow> status_verdict option) option"

record proof_issuer = nonce_issuer +
  is_BatchSize :: "int option"
  is_MaxProofAge :: int

record key_attestation_requirement =
  kr_KeyStorage :: "string list"
  kr_UserAuthentication :: "string list"

record proof_type_config =
  pt_Algs :: "string list"
  pt_KeyAttestationsRequired :: "key_attestation_requirement option"

record 'p resolved_key =
  rk_Public :: "'p public_key"
  rk_JWK :: jwk
  rk_KeyAttestation :: string
  rk_ProofKeyHeader :: "(string \<times> goval) list option"

datatype binding_error =
    NotOneKey
  | ProofJWK jwk_error
  | NoProofBindingKeys
  | BindingTrust trust_error
  | BindingJWK jwk_error

text \<open>One constructor for each \<open>newError\<close> of the file, with the number of the proof it is about.\<close>

datatype proof_refusal =
    ProofMalformed nat
  | ProofTyp nat
  | ProofAlg nat
  | ProofKeyUnresolved nat binding_error
  | ProofSignature nat jose_error
  | ProofBody nat
  | ProofAud nat
  | ProofIatRequired nat
  | ProofIat nat
  | ProofAge nat
  | ProofIss nat
  | KeyAttestationNotJWT nat
  | KeyAttestationUnsupported nat
  | KeyAttestationRequired nat
  | KeyAttestationNoExp nat
  | KeyAttestationNonce nat
  | ProofKeyNotAttested nat
  | AttestationMalformed nat attestation_error
  | AttestationUntrusted nat
  | AttestationAlg nat
  | AttestationUnverified nat attestation_error
  | AttestationLevel nat
  | AttestationRevoked nat
  | AttestedKeyJWK nat nat jwk_error
  | TooManyAttestedKeys nat
  | TooManyKeys nat
  | KidNotAttested nat
  | AttestationsUnsupported
  | NotOneAttestation
  | NoAttestedKeys
  | ProofTypeUnsupported
  | SameKeyTwice nat nat

text \<open>A refusal is answered by its code; every other error is a server error.\<close>

datatype proof_error =
    Refused proof_refusal
  | NonceFails nonce_failure
  | TrustUndecidedNow nat
  | AttestationStatusUnknown nat

fun refusal_code :: "proof_refusal \<Rightarrow> error_code" where
  "refusal_code (KeyAttestationNonce i) = ErrorInvalidNonce"
| "refusal_code _ = ErrorInvalidProof"

fun proof_error_code :: "proof_error \<Rightarrow> error_code option" where
  "proof_error_code (Refused r) = Some (refusal_code r)"
| "proof_error_code (NonceFails (Refuses r)) = Some (nonce_error_code r)"
| "proof_error_code _ = None"

definition maxBatchSize :: "('a) proof_issuer_scheme \<Rightarrow> int" where
  "maxBatchSize iss = (case is_BatchSize iss of Some b \<Rightarrow> b | None \<Rightarrow> 1)"

section \<open>The key of a proof\<close>

definition jwtProofTyp :: string where "jwtProofTyp = ''openid4vci-proof+jwt''"

definition has :: "(string \<times> goval) list \<Rightarrow> string \<Rightarrow> bool" where
  "has header k = (gm_get header k \<noteq> None)"

definition resolveProofKey ::
  "'p proof_deps \<Rightarrow> int \<Rightarrow> (string \<times> goval) list \<Rightarrow> binding_error + 'p public_key \<times> string" where
  "resolveProofKey d now header =
     (if length (filter id [has header ''jwk'', has header ''kid'', has header ''x5c'']) \<noteq> 1 then Inl NotOneKey
      else (case gm_get header ''jwk'' of
          Some v \<Rightarrow>
            rmap (\<lambda>pub. (pub, str_member header ''alg'')) (wrap_err ProofJWK (ParsePublicKey (pd_ec d) v))
        | None \<Rightarrow>
            (case pd_ProofBindingKeys d of
               None \<Rightarrow> Inl NoProofBindingKeys
             | Some resolve \<Rightarrow> wrap_err BindingTrust (resolve now header))))"

definition resolveProofBindingKey ::
  "'p proof_deps \<Rightarrow> int \<Rightarrow> (string \<times> goval) list \<Rightarrow> binding_error + 'p public_key \<times> string \<times> jwk" where
  "resolveProofBindingKey d now header =
     rbind (resolveProofKey d now header) (\<lambda>(pub, alg).
       rmap (\<lambda>j. (pub, alg, j)) (wrap_err BindingJWK (jwk_Marshal (pd_ec d) pub)))"

definition namesAttestedKey :: "(string \<times> goval) list \<Rightarrow> bool" where
  "namesAttestedKey header = (has header ''kid'' \<and> \<not> has header ''jwk'' \<and> \<not> has header ''x5c'')"

text \<open>The public key of a JWK, with the JWK written again from it.\<close>

definition bindingKeyFromJWK :: "'p ec \<Rightarrow> goval \<Rightarrow> jwk_error + 'p resolved_key" where
  "bindingKeyFromJWK ec raw =
     rbind (ParsePublicKey ec raw) (\<lambda>pub.
       rmap (\<lambda>j. \<lparr> rk_Public = pub, rk_JWK = j, rk_KeyAttestation = [], rk_ProofKeyHeader = None \<rparr>)
         (jwk_Marshal ec pub))"

definition checkProofAge :: "('a) proof_issuer_scheme \<Rightarrow> int \<Rightarrow> int \<Rightarrow> nat \<Rightarrow> proof_error option" where
  "checkProofAge iss now iat i =
     (if is_NonceEndpoint iss then None
      else (case FromUnix iat of
          Inl _ \<Rightarrow> Some (Refused (ProofAge i))
        | Inr issued \<Rightarrow>
            (if issued > now + is_MaxProofAge iss \<or> issued < now - is_MaxProofAge iss
             then Some (Refused (ProofAge i)) else None)))"

section \<open>Attestations\<close>

record 'p verified_key_attestation =
  vk_Claims :: verified_claims
  vk_SignerKey :: "'p public_key"
  vk_parsed :: key_attestation

definition verifyOneAttestation ::
  "'p proof_deps \<Rightarrow> string \<Rightarrow> nat \<Rightarrow> int \<Rightarrow> string list \<Rightarrow> proof_error + 'p verified_key_attestation" where
  "verifyOneAttestation d raw i now algs =
     rbind (wrap_err (Refused \<circ> AttestationMalformed i) (attestation_Parse (pd_crypto d) raw)) (\<lambda>parsed.
       case pd_AttestationVerifier d of
         None \<Rightarrow> Inl (Refused AttestationsUnsupported)
       | Some resolve \<Rightarrow>
           (case resolve now parsed of
              Inl TrustUndecided \<Rightarrow> Inl (TrustUndecidedNow i)
            | Inl Untrusted \<Rightarrow> Inl (Refused (AttestationUntrusted i))
            | Inr (pub, alg) \<Rightarrow>
                (if alg \<notin> set algs then Inl (Refused (AttestationAlg i))
                 else rmap (\<lambda>verified. \<lparr> vk_Claims = verified, vk_SignerKey = pub, vk_parsed = parsed \<rparr>)
                   (wrap_err (Refused \<circ> AttestationUnverified i)
                     (attestation_Verify (pd_crypto d) parsed pub alg
                       \<lparr> ao_Now = now, ao_ExpectedNonce = [], ao_RequireExpiry = False \<rparr>)))))"

definition meets_level :: "string list \<Rightarrow> string list \<Rightarrow> bool" where
  "meets_level accepted asserted = (accepted = [] \<or> list_ex (\<lambda>l. l \<in> set accepted) asserted)"

definition meetsKeyAttestationRequirement ::
  "verified_claims \<Rightarrow> key_attestation_requirement option \<Rightarrow> nat \<Rightarrow> proof_error option" where
  "meetsKeyAttestationRequirement verified req i =
     (case req of
        None \<Rightarrow> None
      | Some r \<Rightarrow>
          require (meets_level (kr_KeyStorage r) (va_KeyStorage verified) \<and>
            meets_level (kr_UserAuthentication r) (va_UserAuthentication verified)) (Refused (AttestationLevel i)))"

definition requestAttestationStatus :: "'p proof_deps \<Rightarrow> 'p verified_key_attestation \<Rightarrow> nat \<Rightarrow> proof_error option" where
  "requestAttestationStatus d v i =
     (case pd_AttestationStatus d of
        None \<Rightarrow> None
      | Some check \<Rightarrow>
          (case check (vk_Claims v) (vk_SignerKey v) (vk_parsed v) of
             None \<Rightarrow> None
           | Some KeyAttestationRevoked \<Rightarrow> Some (Refused (AttestationRevoked i))
           | Some StatusUnknown \<Rightarrow> Some (AttestationStatusUnknown i)))"

fun append_attested ::
  "'p ec \<Rightarrow> string \<Rightarrow> nat \<Rightarrow> int \<Rightarrow> nat \<Rightarrow> goval list \<Rightarrow> 'p resolved_key list \<Rightarrow> proof_error + 'p resolved_key list" where
  "append_attested ec jws i maxKeys j [] keys = Inr keys"
| "append_attested ec jws i maxKeys j (raw # raws) keys =
     (if int (length keys) \<ge> maxKeys then Inl (Refused (TooManyAttestedKeys i))
      else rbind (wrap_err (Refused \<circ> AttestedKeyJWK i j) (bindingKeyFromJWK ec raw)) (\<lambda>key.
        append_attested ec jws i maxKeys (Suc j) raws (keys @ [key \<lparr> rk_KeyAttestation := jws \<rparr>])))"

definition appendAttestedKeys ::
  "'p ec \<Rightarrow> 'p resolved_key list \<Rightarrow> verified_claims \<Rightarrow> string \<Rightarrow> nat \<Rightarrow> int \<Rightarrow> proof_error + 'p resolved_key list" where
  "appendAttestedKeys ec keys verified jws i maxKeys =
     append_attested ec jws i maxKeys 0 (va_AttestedKeys verified) keys"

fun appendUniqueKeys :: "'p resolved_key list \<Rightarrow> 'p resolved_key list \<Rightarrow> 'p resolved_key list" where
  "appendUniqueKeys keys [] = keys"
| "appendUniqueKeys keys (k # add) =
     appendUniqueKeys (if list_ex (\<lambda>have. rk_JWK have = rk_JWK k) keys then keys else keys @ [k]) add"

text \<open>The attested key a proof names by its \<open>kid\<close>; otherwise the one it verifies under. A key names itself only when its
  JWK is an object in which no two members share a name.\<close>

definition has_kid :: "string \<Rightarrow> goval \<Rightarrow> bool" where
  "has_kid kid raw = (kid \<noteq> [] \<and> (case raw of GObj kvs \<Rightarrow> gm_get kvs ''kid'' = Some (GStr kid) | _ \<Rightarrow> False))"

fun find_attested ::
  "'p ec \<Rightarrow> string \<Rightarrow> nat \<Rightarrow> nat \<Rightarrow> goval list \<Rightarrow> 'p resolved_key list
     \<Rightarrow> proof_error + 'p resolved_key + 'p resolved_key list" where
  "find_attested ec kid i j [] tried = Inr (Inr tried)"
| "find_attested ec kid i j (raw # raws) tried =
     rbind (wrap_err (Refused \<circ> AttestedKeyJWK i j) (bindingKeyFromJWK ec raw)) (\<lambda>key.
       if has_kid kid raw then Inr (Inl key)
       else find_attested ec kid i (Suc j) raws (tried @ [key]))"

definition attestedProofKey ::
  "'p proof_deps \<Rightarrow> ('a) proof_issuer_scheme \<Rightarrow> int \<Rightarrow> (string \<times> goval) list \<Rightarrow> string \<Rightarrow> string \<Rightarrow> nat
     \<Rightarrow> proof_type_config \<Rightarrow> proof_error + 'p public_key \<times> jwk" where
  "attestedProofKey d iss now header jws raw i ptc =
     rbind (verifyOneAttestation d jws i now (pt_Algs ptc)) (\<lambda>signed.
       let attested = va_AttestedKeys (vk_Claims signed) in
       if int (length attested) > maxBatchSize iss then Inl (Refused (TooManyAttestedKeys i))
       else rbind (find_attested (pd_ec d) (str_member header ''kid'') i 0 attested []) (\<lambda>found.
         case found of
           Inl key \<Rightarrow> Inr (rk_Public key, rk_JWK key)
         | Inr tried \<Rightarrow>
             (case find (\<lambda>key. is_ok (Verify (pd_crypto d) (str_member header ''alg'') (rk_Public key) raw)) tried of
                Some key \<Rightarrow> Inr (rk_Public key, rk_JWK key)
              | None \<Rightarrow> Inl (Refused (KidNotAttested i)))))"

section \<open>A jwt proof\<close>

definition body_fields :: "string list" where
  "body_fields = [''iss'', ''aud'', ''iat'', ''nonce'']"

definition unmarshal_body :: "(string \<times> goval) list \<Rightarrow> (string \<times> string \<times> gofloat option \<times> string) option" where
  "unmarshal_body kvs =
     (if \<not> checkStructCase body_fields kvs then None
      else (case (field str_value [] kvs ''iss'', field str_value [] kvs ''aud'', field num_value None kvs ''iat'',
            field str_value [] kvs ''nonce'') of
          (Some issuer, Some aud, Some iat, Some nonce) \<Rightarrow> Some (issuer, aud, iat, nonce)
        | _ \<Rightarrow> None))"

text \<open>\<open>client\<close> is \<open>auth.ClientID()\<close>. The nonce of the body is returned with the key.\<close>

definition verifyJWTProofBody ::
  "'p proof_deps \<Rightarrow> ('a) proof_issuer_scheme \<Rightarrow> int \<Rightarrow> string \<Rightarrow> string \<Rightarrow> string \<Rightarrow> 'p public_key \<Rightarrow> jwk \<Rightarrow> nat
     \<Rightarrow> proof_error + 'p public_key \<times> jwk \<times> string" where
  "verifyJWTProofBody d iss now client raw alg pub j i =
     rbind (wrap_err (Refused \<circ> ProofSignature i) (Verify (pd_crypto d) alg pub raw)) (\<lambda>(_, payload).
       case Option.bind (cr_json (pd_crypto d) payload) unmarshal_body of
         None \<Rightarrow> Inl (Refused (ProofBody i))
       | Some (issuer, aud, iat, nonce) \<Rightarrow>
           (if aud \<noteq> is_Issuer iss then Inl (Refused (ProofAud i))
            else if is_zero iat then Inl (Refused (ProofIatRequired i))
            else (case float_unix (the iat) of
                Inl _ \<Rightarrow> Inl (Refused (ProofIat i))
              | Inr issued \<Rightarrow>
                  (case checkProofAge iss now issued i of
                     Some e \<Rightarrow> Inl e
                   | None \<Rightarrow>
                       (if issuer \<noteq> [] \<and> client \<noteq> [] \<and> issuer \<noteq> client then Inl (Refused (ProofIss i))
                        else Inr (pub, j, nonce))))))"

definition verifyJWTProof ::
  "'p proof_deps \<Rightarrow> ('a) proof_issuer_scheme \<Rightarrow> int \<Rightarrow> string \<Rightarrow> string \<Rightarrow> nat \<Rightarrow> proof_type_config
     \<Rightarrow> proof_error + 'p public_key \<times> jwk \<times> string" where
  "verifyJWTProof d iss now client raw i ptc =
     (case DecodeUnverified (pd_crypto d) raw of
        Inl _ \<Rightarrow> Inl (Refused (ProofMalformed i))
      | Inr (header, _) \<Rightarrow>
          (let alg = str_member header ''alg'' in
           if \<not> TypeIs (str_member header ''typ'') jwtProofTyp then Inl (Refused (ProofTyp i))
           else if alg \<notin> set (pt_Algs ptc) then Inl (Refused (ProofAlg i))
           else (case (gm_get header ''key_attestation'', namesAttestedKey header \<and> pd_AttestationVerifier d \<noteq> None) of
               (Some (GStr jws), True) \<Rightarrow>
                 rbind (attestedProofKey d iss now header jws raw i ptc) (\<lambda>(pub, j).
                   verifyJWTProofBody d iss now client raw alg pub j i)
             | _ \<Rightarrow>
                 (case resolveProofBindingKey d now header of
                    Inl (BindingTrust TrustUndecided) \<Rightarrow> Inl (TrustUndecidedNow i)
                  | Inl e \<Rightarrow> Inl (Refused (ProofKeyUnresolved i e))
                  | Inr (pub, alg, j) \<Rightarrow> verifyJWTProofBody d iss now client raw alg pub j i))))"

definition proofHeader :: "'p proof_deps \<Rightarrow> string \<Rightarrow> nat \<Rightarrow> proof_error + (string \<times> goval) list" where
  "proofHeader d raw i =
     rmap fst (wrap_err (\<lambda>_. Refused (ProofMalformed i)) (DecodeUnverified (pd_crypto d) raw))"

definition proofKeyHeader :: "(string \<times> goval) list \<Rightarrow> (string \<times> goval) list option" where
  "proofKeyHeader header = (if \<not> has header ''kid'' \<and> \<not> has header ''x5c'' then None else Some header)"

definition keyAttestationHeader :: "(string \<times> goval) list \<Rightarrow> nat \<Rightarrow> proof_error + string" where
  "keyAttestationHeader header i =
     (case gm_get header ''key_attestation'' of
        None \<Rightarrow> Inr []
      | Some (GStr s) \<Rightarrow> (if s = [] then Inl (Refused (KeyAttestationNotJWT i)) else Inr s)
      | Some _ \<Rightarrow> Inl (Refused (KeyAttestationNotJWT i)))"

definition resolveKeyAttestationHeader ::
  "'p proof_deps \<Rightarrow> ('a) proof_issuer_scheme \<Rightarrow> int \<Rightarrow> string \<Rightarrow> 'p public_key \<Rightarrow> string \<Rightarrow> nat \<Rightarrow> proof_type_config
     \<Rightarrow> proof_error + 'p resolved_key list" where
  "resolveKeyAttestationHeader d iss now jws proofKey nonce i ptc =
     (if pd_AttestationVerifier d = None then Inl (Refused (KeyAttestationUnsupported i))
      else rbind (verifyOneAttestation d jws i now (pt_Algs ptc)) (\<lambda>signed.
        let verified = vk_Claims signed in
        if va_ExpiresAt verified = None then Inl (Refused (KeyAttestationNoExp i))
        else if is_NonceEndpoint iss \<and> va_Nonce verified \<noteq> nonce then Inl (Refused (KeyAttestationNonce i))
        else if \<not> KeyAttested (pd_ec d) verified proofKey then Inl (Refused (ProofKeyNotAttested i))
        else (case meetsKeyAttestationRequirement verified (pt_KeyAttestationsRequired ptc) i of
            Some e \<Rightarrow> Inl e
          | None \<Rightarrow>
              (case requestAttestationStatus d signed i of
                 Some e \<Rightarrow> Inl e
               | None \<Rightarrow> appendAttestedKeys (pd_ec d) [] verified jws i (maxBatchSize iss)))))"

text \<open>The keys one verified proof adds.\<close>

definition proof_keys ::
  "'p proof_deps \<Rightarrow> ('a) proof_issuer_scheme \<Rightarrow> int \<Rightarrow> string \<Rightarrow> 'p public_key \<Rightarrow> jwk \<Rightarrow> string \<Rightarrow> nat \<Rightarrow> proof_type_config
     \<Rightarrow> 'p resolved_key list \<Rightarrow> proof_error + 'p resolved_key list" where
  "proof_keys d iss now raw pub j nonce i ptc keys =
     rbind (proofHeader d raw i) (\<lambda>header.
       rbind (keyAttestationHeader header i) (\<lambda>jws.
         let own = keys @ [\<lparr> rk_Public = pub, rk_JWK = j, rk_KeyAttestation = [], rk_ProofKeyHeader = proofKeyHeader header \<rparr>] in
         if jws \<noteq> [] \<and> pd_AttestationVerifier d = None \<and> pt_KeyAttestationsRequired ptc = None then Inr own
         else if jws \<noteq> [] then
           rmap (appendUniqueKeys keys) (resolveKeyAttestationHeader d iss now jws pub nonce i ptc)
         else if pt_KeyAttestationsRequired ptc \<noteq> None then Inl (Refused (KeyAttestationRequired i))
         else Inr own))"

section \<open>All proofs of a request\<close>

fun resolveJWTProofKeys ::
  "mac \<Rightarrow> 'p proof_deps \<Rightarrow> ('a) proof_issuer_scheme \<Rightarrow> 's nonce_ops \<Rightarrow> int \<Rightarrow> int \<Rightarrow> string \<Rightarrow> proof_type_config
     \<Rightarrow> nat \<Rightarrow> string list \<Rightarrow> 'p resolved_key list \<Rightarrow> string \<times> 's
     \<Rightarrow> (proof_error + 'p resolved_key list) \<times> 's" where
  "resolveJWTProofKeys hmac d iss ops sclock now client ptc i [] keys st = (Inr keys, snd st)"
| "resolveJWTProofKeys hmac d iss ops sclock now client ptc i (raw # values) keys st =
     (case verifyJWTProof d iss now client raw i ptc of
        Inl e \<Rightarrow> (Inl e, snd st)
      | Inr (pub, j, nonce) \<Rightarrow>
          (case checkProofNonce hmac iss ops sclock now i nonce st of
             (Some e, st') \<Rightarrow> (Inl (NonceFails e), snd st')
           | (None, st') \<Rightarrow>
               (case proof_keys d iss now raw pub j (fst st') i ptc keys of
                  Inl e \<Rightarrow> (Inl e, snd st')
                | Inr keys' \<Rightarrow>
                    (if int (length keys') > maxBatchSize iss then (Inl (Refused (TooManyKeys i)), snd st')
                     else resolveJWTProofKeys hmac d iss ops sclock now client ptc (Suc i) values keys' st'))))"

definition resolveAttestationProofKeys ::
  "mac \<Rightarrow> 'p proof_deps \<Rightarrow> ('a) proof_issuer_scheme \<Rightarrow> 's nonce_ops \<Rightarrow> int \<Rightarrow> int \<Rightarrow> proof_type_config
     \<Rightarrow> string list \<Rightarrow> 's \<Rightarrow> (proof_error + 'p resolved_key list) \<times> 's" where
  "resolveAttestationProofKeys hmac d iss ops sclock now ptc values s =
     (if pd_AttestationVerifier d = None then (Inl (Refused AttestationsUnsupported), s)
      else (case values of
          [raw] \<Rightarrow>
            (case verifyOneAttestation d raw 0 now (pt_Algs ptc) of
               Inl e \<Rightarrow> (Inl e, s)
             | Inr signed \<Rightarrow>
                 (let verified = vk_Claims signed in
                  case checkProofNonce hmac iss ops sclock now 0 (va_Nonce verified) ([], s) of
                    (Some e, st) \<Rightarrow> (Inl (NonceFails e), snd st)
                  | (None, st) \<Rightarrow>
                      ((case checkProofAge iss now (va_IssuedAt verified div second) 0 of
                          Some e \<Rightarrow> Inl e
                        | None \<Rightarrow>
                            (case meetsKeyAttestationRequirement verified (pt_KeyAttestationsRequired ptc) 0 of
                               Some e \<Rightarrow> Inl e
                             | None \<Rightarrow>
                                 (case requestAttestationStatus d signed 0 of
                                    Some e \<Rightarrow> Inl e
                                  | None \<Rightarrow>
                                      rbind (appendAttestedKeys (pd_ec d) [] verified raw 0 (maxBatchSize iss)) (\<lambda>keys.
                                        if keys = [] then Inl (Refused NoAttestedKeys) else Inr keys)))), snd st)))
        | _ \<Rightarrow> (Inl (Refused NotOneAttestation), s)))"

fun first_same :: "'p public_key \<Rightarrow> nat \<Rightarrow> 'p public_key list \<Rightarrow> nat option" where
  "first_same k j [] = None"
| "first_same k j (x # xs) = (if SameKey k x then Some j else first_same k (Suc j) xs)"

definition checkDistinctKeys :: "'p resolved_key list \<Rightarrow> proof_error option" where
  "checkDistinctKeys keys =
     first_err (\<lambda>i k. map_option (\<lambda>j. Refused (SameKeyTwice j i)) (first_same (rk_Public k) 0 (map rk_Public (take i keys))))
       0 keys"

definition resolveProofKeys ::
  "mac \<Rightarrow> 'p proof_deps \<Rightarrow> ('a) proof_issuer_scheme \<Rightarrow> 's nonce_ops \<Rightarrow> int \<Rightarrow> int \<Rightarrow> string \<Rightarrow> string \<Rightarrow> string list
     \<Rightarrow> proof_type_config \<Rightarrow> 's \<Rightarrow> (proof_error + 'p resolved_key list) \<times> 's" where
  "resolveProofKeys hmac d iss ops sclock now client proofType values ptc s =
     (case (if proofType = ''jwt'' then resolveJWTProofKeys hmac d iss ops sclock now client ptc 0 values [] ([], s)
            else if proofType = ''attestation'' then resolveAttestationProofKeys hmac d iss ops sclock now ptc values s
            else (Inl (Refused ProofTypeUnsupported), s)) of
        (Inl e, s') \<Rightarrow> (Inl e, s')
      | (Inr keys, s') \<Rightarrow>
          (case checkDistinctKeys keys of Some e \<Rightarrow> (Inl e, s') | None \<Rightarrow> (Inr keys, s')))"

section \<open>What a resolved key rests on\<close>

text \<open>A proof that a key signed, for this Issuer, with the nonce \<open>n\<close> where the Issuer hands nonces out.\<close>

definition signed_proof ::
  "'p proof_deps \<Rightarrow> ('a) proof_issuer_scheme \<Rightarrow> string \<Rightarrow> string \<Rightarrow> 'p public_key \<Rightarrow> string \<Rightarrow> bool" where
  "signed_proof d iss client n pub raw =
     (\<exists>alg header payload kvs issuer iat nonce.
        Verify (pd_crypto d) alg pub raw = Inr (header, payload) \<and>
        TypeIs (str_member header ''typ'') jwtProofTyp \<and>
        cr_json (pd_crypto d) payload = Some kvs \<and> unmarshal_body kvs = Some (issuer, is_Issuer iss, iat, nonce) \<and>
        (is_NonceEndpoint iss \<longrightarrow> nonce = n) \<and> (issuer = [] \<or> client = [] \<or> issuer = client))"

text \<open>An attestation that lists a key: signed by a key the deployment trusts with an algorithm the configuration allows,
  with the levels it requires, not known to be revoked.\<close>

definition attested_key ::
  "'p proof_deps \<Rightarrow> ('a) proof_issuer_scheme \<Rightarrow> int \<Rightarrow> proof_type_config \<Rightarrow> string \<Rightarrow> 'p resolved_key \<Rightarrow> bool" where
  "attested_key d iss now ptc n k =
     (\<exists>i signed. verifyOneAttestation d (rk_KeyAttestation k) i now (pt_Algs ptc) = Inr signed \<and>
        (\<exists>raw \<in> set (va_AttestedKeys (vk_Claims signed)). ParsePublicKey (pd_ec d) raw = Inr (rk_Public k)) \<and>
        (is_NonceEndpoint iss \<longrightarrow> va_Nonce (vk_Claims signed) = n) \<and>
        meetsKeyAttestationRequirement (vk_Claims signed) (pt_KeyAttestationsRequired ptc) i = None \<and>
        requestAttestationStatus d signed i = None)"

text \<open>A key with its JWK written again from it, that is in one way or the other the Wallet's.\<close>

definition vouched ::
  "'p proof_deps \<Rightarrow> ('a) proof_issuer_scheme \<Rightarrow> int \<Rightarrow> string \<Rightarrow> proof_type_config \<Rightarrow> string list \<Rightarrow> string \<Rightarrow> 'p resolved_key \<Rightarrow> bool"
  where
  "vouched d iss now client ptc values n k =
     (jwk_Marshal (pd_ec d) (rk_Public k) = Inr (rk_JWK k) \<and>
      (list_ex (signed_proof d iss client n (rk_Public k)) values \<or> attested_key d iss now ptc n k))"

lemma bindingKey_ok:
  "bindingKeyFromJWK ec raw = Inr k \<Longrightarrow>
     ParsePublicKey ec raw = Inr (rk_Public k) \<and> jwk_Marshal ec (rk_Public k) = Inr (rk_JWK k)"
  by (auto simp: bindingKeyFromJWK_def ok_iffs)

definition key_written :: "'p ec \<Rightarrow> 'p resolved_key \<Rightarrow> bool" where
  "key_written ec k = (jwk_Marshal ec (rk_Public k) = Inr (rk_JWK k))"

lemma bindingKey_written: "bindingKeyFromJWK ec raw = Inr k \<Longrightarrow> key_written ec k"
  by (auto simp: key_written_def dest: bindingKey_ok)

lemma find_attested_ok:
  "find_attested ec kid i j raws tried = Inr found \<Longrightarrow> \<forall>k \<in> set tried. key_written ec k \<Longrightarrow>
     (case found of Inl k \<Rightarrow> key_written ec k | Inr ks \<Rightarrow> \<forall>k \<in> set ks. key_written ec k)"
proof (induction raws arbitrary: j tried)
  case (Cons raw raws)
  then obtain k where k: "bindingKeyFromJWK ec raw = Inr k" by (auto simp: ok_iffs)
  note kw = bindingKey_written [OF k]
  show ?case
  proof (cases "has_kid kid raw")
    case True
    with Cons.prems(1) k kw show ?thesis by auto
  next
    case False
    with Cons.prems(1) k have "find_attested ec kid i (Suc j) raws (tried @ [k]) = Inr found" by simp
    with Cons.IH Cons.prems(2) kw show ?thesis by simp
  qed
qed auto

lemma attestedProofKey_ok:
  assumes "attestedProofKey d iss now header jws raw i ptc = Inr (pub, j)"
  shows "jwk_Marshal (pd_ec d) pub = Inr j"
proof -
  from assms obtain raws found where f: "find_attested (pd_ec d) (str_member header ''kid'') i 0 raws [] = Inr found"
    and r: "(case found of Inl key \<Rightarrow> Inr (rk_Public key, rk_JWK key)
       | Inr tried \<Rightarrow>
           (case find (\<lambda>key. is_ok (Verify (pd_crypto d) (str_member header ''alg'') (rk_Public key) raw)) tried of
              Some key \<Rightarrow> Inr (rk_Public key, rk_JWK key)
            | None \<Rightarrow> Inl (Refused (KidNotAttested i)))) = Inr (pub, j)"
    by (auto simp: attestedProofKey_def ok_iffs Let_def split: if_splits)
  from find_attested_ok [OF f] r show ?thesis
    by (auto simp: key_written_def find_Some_iff split: sum.splits option.splits)
qed

lemma verifyJWTProofBody_ok:
  assumes "verifyJWTProofBody d iss now client raw alg pub j i = Inr (pub', j', nonce)"
  shows "pub' = pub" "j' = j"
    "\<exists>header payload kvs issuer iat. Verify (pd_crypto d) alg pub raw = Inr (header, payload) \<and>
       cr_json (pd_crypto d) payload = Some kvs \<and> unmarshal_body kvs = Some (issuer, is_Issuer iss, iat, nonce) \<and>
       (issuer = [] \<or> client = [] \<or> issuer = client)"
  using assms by (auto simp: verifyJWTProofBody_def ok_iffs bind_eq_Some_conv split: option.splits if_splits)

text \<open>The header read before verifying is the header verified.\<close>

lemma Verify_DecodeUnverified:
  "Verify cr alg pub raw = Inr (header, payload) \<Longrightarrow> DecodeUnverified cr raw = Inr (header, payload)"
  by (auto simp: Verify_def VerifyMax_def DecodeUnverified_def DecodeUnverifiedMax_def ok_iffs
    split: sum.splits if_splits option.splits)

lemma verifyJWTProof_ok:
  assumes "verifyJWTProof d iss now client raw i ptc = Inr (pub, j, nonce)"
  shows "jwk_Marshal (pd_ec d) pub = Inr j" "signed_proof d iss client nonce pub raw"
proof -
  obtain header payload where h: "DecodeUnverified (pd_crypto d) raw = Inr (header, payload)"
    and is_typ: "TypeIs (str_member header ''typ'') jwtProofTyp"
    using assms by (auto simp: verifyJWTProof_def Let_def split: sum.splits if_splits)
  have "\<exists>alg. jwk_Marshal (pd_ec d) pub = Inr j \<and>
      verifyJWTProofBody d iss now client raw alg pub j i = Inr (pub, j, nonce)"
  proof (cases "\<exists>jws. gm_get header ''key_attestation'' = Some (GStr jws) \<and> namesAttestedKey header \<and>
      pd_AttestationVerifier d \<noteq> None")
    case True
    then obtain jws where "gm_get header ''key_attestation'' = Some (GStr jws)" "namesAttestedKey header"
      "pd_AttestationVerifier d \<noteq> None" by blast
    with assms h obtain pub' j' where "attestedProofKey d iss now header jws raw i ptc = Inr (pub', j')"
      "verifyJWTProofBody d iss now client raw (str_member header ''alg'') pub' j' i = Inr (pub, j, nonce)"
      by (auto simp: verifyJWTProof_def ok_iffs Let_def split: if_splits)
    with attestedProofKey_ok verifyJWTProofBody_ok(1,2) show ?thesis by metis
  next
    case False
    with assms h have "(case resolveProofBindingKey d now header of
        Inl (BindingTrust TrustUndecided) \<Rightarrow> Inl (TrustUndecidedNow i)
      | Inl e \<Rightarrow> Inl (Refused (ProofKeyUnresolved i e))
      | Inr (pub, alg, j) \<Rightarrow> verifyJWTProofBody d iss now client raw alg pub j i) = Inr (pub, j, nonce)"
      by (auto simp: verifyJWTProof_def Let_def split: if_splits option.splits goval.splits bool.splits)
    then obtain pub' alg j' where "resolveProofBindingKey d now header = Inr (pub', alg, j')"
      "verifyJWTProofBody d iss now client raw alg pub' j' i = Inr (pub, j, nonce)"
      by (auto split: sum.splits binding_error.splits trust_error.splits)
    moreover from this have "jwk_Marshal (pd_ec d) pub' = Inr j'"
      by (auto simp: resolveProofBindingKey_def ok_iffs)
    ultimately show ?thesis using verifyJWTProofBody_ok(1,2) by metis
  qed
  then obtain alg where key: "jwk_Marshal (pd_ec d) pub = Inr j"
    and body: "verifyJWTProofBody d iss now client raw alg pub j i = Inr (pub, j, nonce)" by blast
  show "jwk_Marshal (pd_ec d) pub = Inr j" by (rule key)
  from verifyJWTProofBody_ok(3) [OF body] obtain header' payload' kvs issuer iat where
    v: "Verify (pd_crypto d) alg pub raw = Inr (header', payload')"
    and b: "cr_json (pd_crypto d) payload' = Some kvs" "unmarshal_body kvs = Some (issuer, is_Issuer iss, iat, nonce)"
      "issuer = [] \<or> client = [] \<or> issuer = client"
    by blast
  from Verify_DecodeUnverified [OF v] h have "header' = header" by simp
  with v b is_typ show "signed_proof d iss client nonce pub raw"
    unfolding signed_proof_def by blast
qed

lemma append_attested_ok:
  assumes "append_attested ec jws i maxKeys j raws keys = Inr res"
  shows "int (length res) \<le> max maxKeys (int (length keys))"
    "k \<in> set res \<Longrightarrow> k \<in> set keys \<or>
      (rk_KeyAttestation k = jws \<and> jwk_Marshal ec (rk_Public k) = Inr (rk_JWK k) \<and>
       (\<exists>raw \<in> set raws. ParsePublicKey ec raw = Inr (rk_Public k)))"
  using assms
proof (induction raws arbitrary: j keys)
  case (Cons raw raws)
  {
    case 1
    then obtain key where "int (length keys) < maxKeys"
      "append_attested ec jws i maxKeys (Suc j) raws (keys @ [key \<lparr> rk_KeyAttestation := jws \<rparr>]) = Inr res"
      by (auto simp: ok_iffs split: if_splits)
    with Cons.IH(1) [of "Suc j" "keys @ [key \<lparr> rk_KeyAttestation := jws \<rparr>]"] show ?case by simp
  next
    case 2
    then obtain key where key: "bindingKeyFromJWK ec raw = Inr key"
      and rest: "append_attested ec jws i maxKeys (Suc j) raws (keys @ [key \<lparr> rk_KeyAttestation := jws \<rparr>]) = Inr res"
      by (auto simp: ok_iffs split: if_splits)
    from Cons.IH(2) [OF 2(1) rest] bindingKey_ok [OF key] show ?case by auto
  }
qed simp_all

lemma appendUniqueKeys_set: "set (appendUniqueKeys keys add) \<subseteq> set keys \<union> set add"
proof (induction add arbitrary: keys)
  case (Cons k add)
  from Cons.IH [of "if list_ex (\<lambda>have. rk_JWK have = rk_JWK k) keys then keys else keys @ [k]"]
  show ?case by (auto split: if_splits)
qed simp

lemma proof_keys_ok:
  assumes keys': "proof_keys d iss now raw pub j n i ptc keys = Inr keys'"
    and pub: "jwk_Marshal (pd_ec d) pub = Inr j" "signed_proof d iss client n pub raw" "raw \<in> set values"
    and keys: "\<forall>k \<in> set keys. vouched d iss now client ptc values n k"
  shows "\<forall>k \<in> set keys'. vouched d iss now client ptc values n k"
proof -
  obtain header jws where "proofHeader d raw i = Inr header" and jws: "keyAttestationHeader header i = Inr jws"
    and cases: "keys' = keys @ [\<lparr> rk_Public = pub, rk_JWK = j, rk_KeyAttestation = [], rk_ProofKeyHeader = proofKeyHeader header \<rparr>] \<or>
      (\<exists>add. resolveKeyAttestationHeader d iss now jws pub n i ptc = Inr add \<and> keys' = appendUniqueKeys keys add)"
    using keys' by (auto simp: proof_keys_def ok_iffs Let_def split: if_splits)
  have own: "vouched d iss now client ptc values n
      \<lparr> rk_Public = pub, rk_JWK = j, rk_KeyAttestation = [], rk_ProofKeyHeader = h \<rparr>" for h
    using pub by (auto simp: vouched_def list_ex_iff)
  from cases show ?thesis
  proof
    assume "\<exists>add. resolveKeyAttestationHeader d iss now jws pub n i ptc = Inr add \<and> keys' = appendUniqueKeys keys add"
    then obtain add where add: "resolveKeyAttestationHeader d iss now jws pub n i ptc = Inr add"
      and eq: "keys' = appendUniqueKeys keys add" by blast
    from add obtain signed where signed: "verifyOneAttestation d jws i now (pt_Algs ptc) = Inr signed"
      "is_NonceEndpoint iss \<longrightarrow> va_Nonce (vk_Claims signed) = n"
      "meetsKeyAttestationRequirement (vk_Claims signed) (pt_KeyAttestationsRequired ptc) i = None"
      "requestAttestationStatus d signed i = None"
      and app: "append_attested (pd_ec d) jws i (maxBatchSize iss) 0 (va_AttestedKeys (vk_Claims signed)) [] = Inr add"
      by (auto simp: resolveKeyAttestationHeader_def appendAttestedKeys_def ok_iffs Let_def split: if_splits option.splits)
    have "vouched d iss now client ptc values n k" if "k \<in> set add" for k
      using append_attested_ok(2) [OF app that] signed unfolding vouched_def attested_key_def by auto
    with keys appendUniqueKeys_set [of keys add] show ?thesis unfolding eq by blast
  qed (use keys own in auto)
qed

lemma checkProofNonce_ok:
  assumes "checkProofNonce hmac iss ops sclock now i nonce st = (None, st')"
  shows "\<not> is_NonceEndpoint iss \<Longrightarrow> st' = st"
    "is_NonceEndpoint iss \<Longrightarrow> fst st' = nonce"
    "is_NonceEndpoint iss \<Longrightarrow> 0 < i \<Longrightarrow> st' = st"
    "is_NonceEndpoint iss \<Longrightarrow> i = 0 \<Longrightarrow> nonce \<noteq> [] \<and> consumeNonce hmac iss ops sclock now nonce (snd st) = (None, snd st')"
  using assms by (auto simp: checkProofNonce_def split: prod.splits if_splits option.splits)

lemma signed_proof_nonce:
  "signed_proof d iss client nonce pub raw \<Longrightarrow> (is_NonceEndpoint iss \<Longrightarrow> nonce = n) \<Longrightarrow> signed_proof d iss client n pub raw"
  unfolding signed_proof_def by blast

lemma jwt_keys_later:
  assumes "resolveJWTProofKeys hmac d iss ops sclock now client ptc i vs keys st = (Inr res, s')"
    and "set vs \<subseteq> set values" and "is_NonceEndpoint iss \<Longrightarrow> 0 < i"
    and "\<forall>k \<in> set keys. vouched d iss now client ptc values (fst st) k"
    and "int (length keys) \<le> maxBatchSize iss"
  shows "(\<forall>k \<in> set res. vouched d iss now client ptc values (fst st) k) \<and> s' = snd st \<and> int (length res) \<le> maxBatchSize iss"
  using assms
proof (induction vs arbitrary: i keys)
  case (Cons raw vs)
  from Cons.prems(1) obtain pub j nonce st' keys' where
    v: "verifyJWTProof d iss now client raw i ptc = Inr (pub, j, nonce)"
    and c: "checkProofNonce hmac iss ops sclock now i nonce st = (None, st')"
    and k: "proof_keys d iss now raw pub j (fst st') i ptc keys = Inr keys'" "int (length keys') \<le> maxBatchSize iss"
    and rest: "resolveJWTProofKeys hmac d iss ops sclock now client ptc (Suc i) vs keys' st' = (Inr res, s')"
    by (auto split: sum.splits option.splits prod.splits if_splits)
  have st': "st' = st" using checkProofNonce_ok [OF c] Cons.prems(3) by blast
  have "signed_proof d iss client (fst st) pub raw"
    using signed_proof_nonce verifyJWTProof_ok(2) [OF v] checkProofNonce_ok(2) [OF c] st' by blast
  from proof_keys_ok [OF k(1) [unfolded st'] verifyJWTProof_ok(1) [OF v] this _ Cons.prems(4)] Cons.prems(2)
  have "\<forall>k \<in> set keys'. vouched d iss now client ptc values (fst st) k" by simp
  with Cons.IH [OF rest [unfolded st']] Cons.prems(2) k(2) show ?case by simp
qed simp

lemma jwt_keys_ok:
  assumes "resolveJWTProofKeys hmac d iss ops sclock now client ptc 0 values [] ([], s) = (Inr res, s')" and "values \<noteq> []"
  shows "\<exists>n. (\<forall>k \<in> set res. vouched d iss now client ptc values n k) \<and> int (length res) \<le> maxBatchSize iss \<and>
    (if is_NonceEndpoint iss then n \<noteq> [] \<and> consumeNonce hmac iss ops sclock now n s = (None, s') else s' = s)"
proof -
  obtain raw vs where vals: "values = raw # vs" using assms(2) by (cases "values") auto
  from assms(1) obtain pub j nonce st' keys' where
    v: "verifyJWTProof d iss now client raw 0 ptc = Inr (pub, j, nonce)"
    and c: "checkProofNonce hmac iss ops sclock now 0 nonce ([], s) = (None, st')"
    and k: "proof_keys d iss now raw pub j (fst st') 0 ptc [] = Inr keys'" "int (length keys') \<le> maxBatchSize iss"
    and rest: "resolveJWTProofKeys hmac d iss ops sclock now client ptc (Suc 0) vs keys' st' = (Inr res, s')"
    unfolding vals by (auto split: sum.splits option.splits prod.splits if_splits)
  have "signed_proof d iss client (fst st') pub raw"
    using signed_proof_nonce verifyJWTProof_ok(2) [OF v] checkProofNonce_ok(2) [OF c] by blast
  from proof_keys_ok [OF k(1) verifyJWTProof_ok(1) [OF v] this, of "values"] vals
  have "\<forall>k \<in> set keys'. vouched d iss now client ptc values (fst st') k" by simp
  from jwt_keys_later [OF rest _ _ this k(2)] vals
  have "\<forall>k \<in> set res. vouched d iss now client ptc values (fst st') k" "s' = snd st'"
    "int (length res) \<le> maxBatchSize iss" by auto
  with checkProofNonce_ok [OF c] show ?thesis by (intro exI [of _ "fst st'"]) auto
qed

lemma attestation_keys_ok:
  assumes "resolveAttestationProofKeys hmac d iss ops sclock now ptc values s = (Inr res, s')"
  shows "\<exists>n. (\<forall>k \<in> set res. vouched d iss now client ptc values n k) \<and> int (length res) \<le> maxBatchSize iss \<and>
    (if is_NonceEndpoint iss then n \<noteq> [] \<and> consumeNonce hmac iss ops sclock now n s = (None, s') else s' = s)"
proof -
  from assms obtain raw signed st where
    signed: "verifyOneAttestation d raw 0 now (pt_Algs ptc) = Inr signed"
    and c: "checkProofNonce hmac iss ops sclock now 0 (va_Nonce (vk_Claims signed)) ([], s) = (None, st)" "s' = snd st"
    and m: "meetsKeyAttestationRequirement (vk_Claims signed) (pt_KeyAttestationsRequired ptc) 0 = None"
      "requestAttestationStatus d signed 0 = None"
    and app: "append_attested (pd_ec d) raw 0 (maxBatchSize iss) 0 (va_AttestedKeys (vk_Claims signed)) [] = Inr res"
      "res \<noteq> []"
    by (auto simp: resolveAttestationProofKeys_def appendAttestedKeys_def ok_iffs Let_def
      split: if_splits list.splits sum.splits prod.splits option.splits)
  have "vouched d iss now client ptc values (va_Nonce (vk_Claims signed)) k" if "k \<in> set res" for k
    using append_attested_ok(2) [OF app(1) that] signed m unfolding vouched_def attested_key_def by auto
  moreover have "int (length res) \<le> maxBatchSize iss"
    using append_attested_ok(1) [OF app(1)] app(2) by (cases res) (auto simp: max_def split: if_splits)
  ultimately show ?thesis using checkProofNonce_ok [OF c(1)] c(2)
    by (intro exI [of _ "va_Nonce (vk_Claims signed)"]) auto
qed

lemma first_same_None: "first_same k j xs = None \<longleftrightarrow> (\<forall>x \<in> set xs. \<not> SameKey k x)"
  by (induction xs arbitrary: j) auto

lemma checkDistinctKeys_ok:
  assumes "checkDistinctKeys keys = None" and "\<forall>k \<in> set keys. rk_Public k \<noteq> OtherKey"
  shows "distinct (map rk_Public keys)"
proof -
  have "rk_Public (keys ! j) \<noteq> rk_Public (keys ! i)" if "j < i" "i < length keys" for i j
  proof -
    have "keys ! j \<in> set (take i keys)" using that by (metis in_set_conv_nth length_take min.absorb2 nth_take order.strict_implies_order)
    moreover have "\<forall>x \<in> set (take i keys). \<not> SameKey (rk_Public (keys ! i)) (rk_Public x)"
      using assms(1) that(2) by (auto simp: checkDistinctKeys_def first_err_None_iff first_same_None)
    ultimately have "\<not> SameKey (rk_Public (keys ! i)) (rk_Public (keys ! j))" by blast
    moreover have "rk_Public (keys ! i) \<noteq> OtherKey" using assms(2) that(2) by simp
    ultimately show ?thesis by (auto simp: SameKey_def)
  qed
  then show ?thesis by (auto simp: distinct_conv_nth) (metis linorder_neqE_nat)
qed

text \<open>What a request's proofs resolve to.\<close>

lemma resolved_keys:
  assumes "resolveProofKeys hmac d iss ops sclock now client proofType values ptc s = (Inr keys, s')" and "values \<noteq> []"
  shows "\<exists>n. (\<forall>k \<in> set keys. vouched d iss now client ptc values n k) \<and> distinct (map rk_Public keys) \<and>
    int (length keys) \<le> maxBatchSize iss \<and>
    (if is_NonceEndpoint iss then n \<noteq> [] \<and> consumeNonce hmac iss ops sclock now n s = (None, s') else s' = s)"
proof -
  from assms(1) have distinct: "checkDistinctKeys keys = None"
    and "resolveJWTProofKeys hmac d iss ops sclock now client ptc 0 values [] ([], s) = (Inr keys, s') \<or>
      resolveAttestationProofKeys hmac d iss ops sclock now ptc values s = (Inr keys, s')"
    by (auto simp: resolveProofKeys_def split: prod.splits sum.splits option.splits if_splits)
  then have "\<exists>n. (\<forall>k \<in> set keys. vouched d iss now client ptc values n k) \<and> int (length keys) \<le> maxBatchSize iss \<and>
    (if is_NonceEndpoint iss then n \<noteq> [] \<and> consumeNonce hmac iss ops sclock now n s = (None, s') else s' = s)"
    by (elim disjE) (rule jwt_keys_ok [OF _ assms(2)], assumption, rule attestation_keys_ok, assumption)
  then obtain n where n: "\<forall>k \<in> set keys. vouched d iss now client ptc values n k" "int (length keys) \<le> maxBatchSize iss"
    "if is_NonceEndpoint iss then n \<noteq> [] \<and> consumeNonce hmac iss ops sclock now n s = (None, s') else s' = s"
    by (elim exE conjE)
  have "\<forall>k \<in> set keys. rk_Public k \<noteq> OtherKey"
    using n(1) by (auto simp: vouched_def jwk_Marshal_def)
  from checkDistinctKeys_ok [OF distinct this] n show ?thesis by (intro exI [of _ n] conjI)
qed

end
