(* ===== verification/Issuer_Batch.thy ===== *)
theory Issuer_Batch
  imports Issuer_Proofs Sdjwt_Issue Status_Bits
begin

text \<open>
  What a Credential Request asks for and what is issued for it, \<open>src/issuer/credential_endpoint.go\<close>: whether an access
  token grants a credential configuration, and the batch of SD-JWT VCs issued for the keys a request proved. With
  \<open>IssueNotificationID\<close> of \<open>notification_endpoint.go\<close>, the checks of a request's encryption in \<open>encryption.go\<close>, and
  \<open>checkOwnerKept\<close> of \<open>store_owner.go\<close>. The configurations are those of SD-JWT VCs without Type Metadata or mandatory
  claims; any other format is one \<open>newCredentialInstance\<close> does not know.
\<close>

section \<open>Configuration and requests\<close>

datatype client_identity = KnownClientID string | NoClientIdentity

record authorization_detail =
  ad_Type :: string
  ad_CredentialConfigurationID :: string
  ad_CredentialIdentifiers :: "string list"
  ad_Locations :: "string list"
  ad_Claims :: "goval list"

record authorized_request =
  au_ClientIdentity :: "client_identity option"
  au_Subject :: string
  au_Scopes :: "string list"
  au_AuthorizationDetails :: "authorization_detail list"

record credential_configuration =
  cc_Format :: string
  cc_VCT :: string
  cc_Scope :: string
  cc_ProofTypesSupported :: "(string, proof_type_config) gomap"

record response_encryption_support =
  re_Required :: bool
  re_EncValuesSupported :: "string list"
  re_ZipValuesSupported :: "string list"

record response_encryption_request =
  rq_Enc :: string
  rq_Zip :: string
  rq_JWK :: goval

record credential_issuer = proof_issuer +
  is_AuthorizationServers :: "string list"
  is_Configurations :: "(string, credential_configuration) gomap"
  is_RequestEncryption :: "bool option"
  is_ResponseEncryption :: "response_encryption_support option"
  is_NotificationEndpoint :: bool
  is_DeferredEndpoint :: bool
  is_NotificationLifetime :: int
  is_DeferredLifetime :: int
  is_PollInterval :: int

text \<open>A credential of a batch before it is signed. \<open>None\<close> is claims a callback removed.\<close>

record 'p credential_instance =
  ci_Index :: nat
  ci_BindingKey :: "'p public_key"
  ci_SDJWTClaims :: "claims option"

text \<open>A callback sets an instance's fields in place, so \<open>PerBatch\<close> gives a new value for each place of the batch.\<close>

record 'p credential_content =
  ct_SDJWTClaims :: "claims option"
  ct_PerCredential :: "('p credential_instance \<Rightarrow> unit + 'p credential_instance) option"
  ct_PerBatch :: "('p credential_instance list \<Rightarrow> unit + (nat \<Rightarrow> 'p credential_instance)) option"

record 'p credential_request =
  cq_CredentialConfigurationID :: string
  cq_CredentialIdentifier :: string
  cq_ResolvedConfigurationID :: string
  cq_AuthorizedClaims :: "goval list"
  cq_Proofs :: "(string, string list) gomap"
  cq_content :: "'p credential_content"
  cq_Defer :: "string option"
  cq_ResponseEncryption :: "response_encryption_request option"
  cq_RequestWasEncrypted :: bool

text \<open>The signer, its hash and encoding; the JSON text of a value, and \<open>strictjson\<close>'s reading of one; whether decoys are
  drawn.\<close>

record 'p issuer_deps = "'p proof_deps" +
  id_Signer :: "'p signer"
  id_Alg :: string
  id_KeyID :: string
  id_hash :: hash_fn
  id_sd_marshal :: "goval list \<Rightarrow> nat list option"
  id_json :: "goval \<Rightarrow> string"
  id_parse :: "string \<Rightarrow> goval option"
  id_Decoys :: bool
  id_NestedDecoys :: bool

text \<open>What an Issuer changes: its stores, and the randomness it has left, for identifiers, decoy counts and salts.\<close>

record issuer_state =
  st_nonces :: nonce_store
  st_deferred :: deferred_store
  st_notifications :: notification_store
  st_random :: "nat list"
  st_decoys :: "int option list"
  st_sealing :: sealing
  st_deferred_kept :: bool
  st_notification_kept :: bool

datatype cred_refusal =
    BothIdentifiers
  | NoIdentifier
  | UnknownIdentifier
  | UnsupportedAuthorized
  | UnknownConfiguration
  | UseIdentifier
  | InsufficientScope
  | NoBinding
  | ProofsRequired
  | ManyProofTypes
  | EmptyProofs
  | BatchTooLarge
  | ProofTypeNotConfigured
  | RequestNotEncrypted
  | ResponseNeedsRequest
  | ResponseNotEncrypted
  | ResponseEncryptionUnsupported
  | EncRequired
  | EncUnsupported
  | ZipUnsupported
  | EncryptionJWK
  | EncryptionKeyNotEC
  | EncryptionAlg
  | IssuanceDenied
  | TransactionIDMissing
  | TransactionUnknown
  | TransactionDenied

datatype issuer_failure =
    ClientIdentityRequired
  | DeferralUnavailable
  | SubjectRequired
  | PrepareFails string
  | PerCredentialFails
  | PerBatchFails
  | ClaimsReplaced nat
  | SameStatus nat nat
  | WrongVCT nat
  | BadStatus nat claim_error
  | DecoyDrawFails
  | IssueFails issue_error
  | NotificationFails
  | OwnerDropped
  | TransactionIDFails
  | CreateFails deferred_error
  | StoreError deferred_error
  | NotDeferred
  | DeferredBindingKey nat jwk_error
  | DeferredResolved
  | DeferredKeyAttestation
  | DeferredProofKey
  | DeferredUndecided

datatype cred_error =
    ProofFails proof_error
  | CredRefused cred_refusal
  | IssuerFails issuer_failure

fun cred_refusal_code :: "cred_refusal \<Rightarrow> error_code" where
  "cred_refusal_code UnknownIdentifier = ErrorUnknownCredentialIdentifier"
| "cred_refusal_code UnsupportedAuthorized = ErrorUnknownCredentialConfig"
| "cred_refusal_code UnknownConfiguration = ErrorUnknownCredentialConfig"
| "cred_refusal_code InsufficientScope = ErrorInsufficientScope"
| "cred_refusal_code ProofsRequired = ErrorInvalidProof"
| "cred_refusal_code BatchTooLarge = ErrorInvalidProof"
| "cred_refusal_code RequestNotEncrypted = ErrorInvalidEncryptionParameters"
| "cred_refusal_code ResponseNeedsRequest = ErrorInvalidEncryptionParameters"
| "cred_refusal_code ResponseNotEncrypted = ErrorInvalidEncryptionParameters"
| "cred_refusal_code ResponseEncryptionUnsupported = ErrorInvalidEncryptionParameters"
| "cred_refusal_code EncRequired = ErrorInvalidEncryptionParameters"
| "cred_refusal_code EncUnsupported = ErrorInvalidEncryptionParameters"
| "cred_refusal_code ZipUnsupported = ErrorInvalidEncryptionParameters"
| "cred_refusal_code EncryptionJWK = ErrorInvalidEncryptionParameters"
| "cred_refusal_code EncryptionKeyNotEC = ErrorInvalidEncryptionParameters"
| "cred_refusal_code EncryptionAlg = ErrorInvalidEncryptionParameters"
| "cred_refusal_code IssuanceDenied = ErrorCredentialRequestDenied"
| "cred_refusal_code TransactionUnknown = ErrorInvalidTransactionID"
| "cred_refusal_code TransactionDenied = ErrorCredentialRequestDenied"
| "cred_refusal_code _ = ErrorInvalidCredentialRequest"

text \<open>What \<open>WriteError\<close> answers: a refusal's status and code, or 500 for any other error.\<close>

definition error_status :: "error_code \<Rightarrow> nat" where
  "error_status c = (if c = ErrorInsufficientScope then 403 else 400)"

fun cred_error_code :: "cred_error \<Rightarrow> error_code option" where
  "cred_error_code (ProofFails e) = proof_error_code e"
| "cred_error_code (CredRefused r) = Some (cred_refusal_code r)"
| "cred_error_code (IssuerFails f) = None"

definition WriteError :: "cred_error \<Rightarrow> nat \<times> error_code option" where
  "WriteError e = (case cred_error_code e of None \<Rightarrow> (500, None) | Some c \<Rightarrow> (error_status c, Some c))"

text \<open>\<open>errorDescription\<close>: what \<open>error_description\<close> may hold, of a description given as its runes.\<close>

definition errorDescription :: "nat list \<Rightarrow> nat list" where
  "errorDescription = map (\<lambda>r. if r = 34 then 39 else if r = 92 \<or> r < 32 \<or> r > 126 then 63 else r)"

section \<open>Who a request is from\<close>

definition ClientID :: "authorized_request \<Rightarrow> string" where
  "ClientID auth = (case au_ClientIdentity auth of Some (KnownClientID s) \<Rightarrow> s | _ \<Rightarrow> [])"

definition requireClientIdentityDecision :: "authorized_request \<Rightarrow> cred_error option" where
  "requireClientIdentityDecision auth = require (au_ClientIdentity auth \<noteq> None) (IssuerFails ClientIdentityRequired)"

section \<open>What an access token grants\<close>

definition credentialDetail :: "('a) credential_issuer_scheme \<Rightarrow> authorization_detail \<Rightarrow> bool" where
  "credentialDetail iss ad =
     (if ad_Type ad \<noteq> ''openid_credential'' then False
      else if ad_Locations ad = [] then is_AuthorizationServers iss = []
      else is_Issuer iss \<in> set (ad_Locations ad))"

definition scope_grants :: "authorized_request \<Rightarrow> credential_configuration \<Rightarrow> bool" where
  "scope_grants auth cc = (cc_Scope cc \<noteq> [] \<and> cc_Scope cc \<in> set (au_Scopes auth))"

definition grantsConfiguration ::
  "('a) credential_issuer_scheme \<Rightarrow> authorized_request \<Rightarrow> string \<Rightarrow> credential_configuration \<Rightarrow> bool" where
  "grantsConfiguration iss auth i cc =
     (list_ex (\<lambda>ad. credentialDetail iss ad \<and> ad_CredentialConfigurationID ad = i) (au_AuthorizationDetails auth) \<or>
      scope_grants auth cc)"

definition authorizeCredentialConfigurationID ::
  "('a) credential_issuer_scheme \<Rightarrow> authorized_request \<Rightarrow> string \<Rightarrow> credential_configuration \<Rightarrow> cred_error option" where
  "authorizeCredentialConfigurationID iss auth i cc =
     (case find (\<lambda>ad. credentialDetail iss ad \<and> ad_CredentialConfigurationID ad = i) (au_AuthorizationDetails auth) of
        Some ad \<Rightarrow> require (ad_CredentialIdentifiers ad = []) (CredRefused UseIdentifier)
      | None \<Rightarrow> require (scope_grants auth cc) (CredRefused InsufficientScope))"

definition resolveCredentialIdentifier ::
  "('a) credential_issuer_scheme \<Rightarrow> authorization_detail list \<Rightarrow> string \<Rightarrow> cred_error + string" where
  "resolveCredentialIdentifier iss details identifier =
     (case find (\<lambda>ad. credentialDetail iss ad \<and> identifier \<in> set (ad_CredentialIdentifiers ad)) details of
        Some ad \<Rightarrow> Inr (ad_CredentialConfigurationID ad)
      | None \<Rightarrow> Inl (CredRefused UnknownIdentifier))"

definition resolveCredentialConfiguration ::
  "('a) credential_issuer_scheme \<Rightarrow> authorized_request \<Rightarrow> 'p credential_request
     \<Rightarrow> cred_error + string \<times> credential_configuration" where
  "resolveCredentialConfiguration iss auth req =
     (if cq_CredentialIdentifier req \<noteq> [] \<and> cq_CredentialConfigurationID req \<noteq> [] then Inl (CredRefused BothIdentifiers)
      else if cq_CredentialIdentifier req \<noteq> [] then
        rbind (resolveCredentialIdentifier iss (au_AuthorizationDetails auth) (cq_CredentialIdentifier req)) (\<lambda>i.
          case gm_get (is_Configurations iss) i of
            None \<Rightarrow> Inl (CredRefused UnsupportedAuthorized)
          | Some cc \<Rightarrow> Inr (i, cc))
      else if cq_CredentialConfigurationID req \<noteq> [] then
        (case gm_get (is_Configurations iss) (cq_CredentialConfigurationID req) of
           None \<Rightarrow> Inl (CredRefused UnknownConfiguration)
         | Some cc \<Rightarrow>
             (case authorizeCredentialConfigurationID iss auth (cq_CredentialConfigurationID req) cc of
                Some e \<Rightarrow> Inl e
              | None \<Rightarrow> Inr (cq_CredentialConfigurationID req, cc)))
      else Inl (CredRefused NoIdentifier))"

text \<open>The claims asked for; none is every claim.\<close>

fun authorized_claims ::
  "('a) credential_issuer_scheme \<Rightarrow> string \<Rightarrow> string \<Rightarrow> authorization_detail list \<Rightarrow> goval list \<Rightarrow> goval list" where
  "authorized_claims iss identifier i [] acc = acc"
| "authorized_claims iss identifier i (ad # ads) acc =
     (if \<not> credentialDetail iss ad \<or> ad_CredentialConfigurationID ad \<noteq> i then authorized_claims iss identifier i ads acc
      else if identifier \<noteq> [] \<and> identifier \<notin> set (ad_CredentialIdentifiers ad) then authorized_claims iss identifier i ads acc
      else if ad_Claims ad = [] then []
      else authorized_claims iss identifier i ads (acc @ ad_Claims ad))"

definition authorizedClaims ::
  "('a) credential_issuer_scheme \<Rightarrow> authorized_request \<Rightarrow> 'p credential_request \<Rightarrow> string \<Rightarrow> goval list" where
  "authorizedClaims iss auth req i =
     authorized_claims iss (cq_CredentialIdentifier req) i (au_AuthorizationDetails auth) []"

section \<open>Proofs and encryption of a request\<close>

text \<open>A map of one entry is visited in the one order there is.\<close>

definition singleProofType ::
  "(string, string list) gomap \<Rightarrow> credential_configuration \<Rightarrow> cred_error + string \<times> string list" where
  "singleProofType proofs cc =
     (if cc_ProofTypesSupported cc = [] then Inl (CredRefused NoBinding)
      else (case proofs of
          [] \<Rightarrow> Inl (CredRefused ProofsRequired)
        | [(pt, v)] \<Rightarrow> if v = [] then Inl (CredRefused EmptyProofs) else Inr (pt, v)
        | _ \<Rightarrow> Inl (CredRefused ManyProofTypes)))"

definition checkBatchSize :: "('a) proof_issuer_scheme \<Rightarrow> string list \<Rightarrow> cred_error option" where
  "checkBatchSize iss values = require (int (length values) \<le> maxBatchSize iss) (CredRefused BatchTooLarge)"

definition requireRequestEncryption ::
  "('a) credential_issuer_scheme \<Rightarrow> bool \<Rightarrow> bool \<Rightarrow> cred_error option" where
  "requireRequestEncryption iss wasEncrypted wantsEncryptedResponse =
     (if wasEncrypted then None
      else if is_RequestEncryption iss = Some True then Some (CredRefused RequestNotEncrypted)
      else if wantsEncryptedResponse then Some (CredRefused ResponseNeedsRequest)
      else None)"

text \<open>The key to encrypt to, and the \<open>kid\<close> to name it by.\<close>

definition responseEncryptionKey ::
  "'p ec \<Rightarrow> ('a) credential_issuer_scheme \<Rightarrow> response_encryption_request \<Rightarrow> cred_error + 'p \<times> string" where
  "responseEncryptionKey ec iss req =
     (case is_ResponseEncryption iss of
        None \<Rightarrow> Inl (CredRefused ResponseEncryptionUnsupported)
      | Some re \<Rightarrow>
          (if rq_Enc req = [] then Inl (CredRefused EncRequired)
           else if rq_Enc req \<notin> set (re_EncValuesSupported re) then Inl (CredRefused EncUnsupported)
           else if rq_Zip req \<noteq> [] \<and> rq_Zip req \<notin> set (re_ZipValuesSupported re) then Inl (CredRefused ZipUnsupported)
           else (case ParsePublicKey ec (rq_JWK req) of
               Inl _ \<Rightarrow> Inl (CredRefused EncryptionJWK)
             | Inr (ECKey _ p) \<Rightarrow>
                 (case rq_JWK req of
                    GObj kvs \<Rightarrow>
                      (if \<not> checkStructCase [''kid'', ''alg''] kvs then Inl (CredRefused EncryptionJWK)
                       else (case (field str_value [] kvs ''kid'', field str_value [] kvs ''alg'') of
                           (Some kid, Some alg) \<Rightarrow>
                             if alg \<noteq> ''ECDH-ES'' then Inl (CredRefused EncryptionAlg) else Inr (p, kid)
                         | _ \<Rightarrow> Inl (CredRefused EncryptionJWK)))
                  | _ \<Rightarrow> Inl (CredRefused EncryptionJWK))
             | Inr _ \<Rightarrow> Inl (CredRefused EncryptionKeyNotEC))))"

definition requireResponseEncryption ::
  "'p ec \<Rightarrow> ('a) credential_issuer_scheme \<Rightarrow> response_encryption_request option \<Rightarrow> cred_error option" where
  "requireResponseEncryption ec iss req =
     (case req of
        None \<Rightarrow>
          (case is_ResponseEncryption iss of
             Some re \<Rightarrow> require (\<not> re_Required re) (CredRefused ResponseNotEncrypted)
           | None \<Rightarrow> None)
      | Some r \<Rightarrow> (case responseEncryptionKey ec iss r of Inl e \<Rightarrow> Some e | Inr _ \<Rightarrow> None))"

section \<open>Issuing a batch\<close>

definition CredentialFormat :: string where "CredentialFormat = ''dc+sd-jwt''"

definition newCredentialInstance ::
  "credential_configuration \<Rightarrow> 'p credential_content \<Rightarrow> nat \<Rightarrow> 'p resolved_key \<Rightarrow> cred_error + 'p credential_instance" where
  "newCredentialInstance cc content i key =
     (if cc_Format cc \<noteq> CredentialFormat then Inl (CredRefused IssuanceDenied)
      else (case ct_SDJWTClaims content of
          None \<Rightarrow> Inl (CredRefused IssuanceDenied)
        | Some cl \<Rightarrow> Inr \<lparr> ci_Index = i, ci_BindingKey = rk_Public key, ci_SDJWTClaims = Some cl \<rparr>))"

fun new_instances ::
  "credential_configuration \<Rightarrow> 'p credential_content \<Rightarrow> nat \<Rightarrow> 'p resolved_key list
     \<Rightarrow> cred_error + 'p credential_instance list" where
  "new_instances cc content i [] = Inr []"
| "new_instances cc content i (key # keys) =
     rbind (newCredentialInstance cc content i key) (\<lambda>ci.
       rbind (case ct_PerCredential content of
           None \<Rightarrow> Inr ci
         | Some f \<Rightarrow> wrap_err (\<lambda>_. IssuerFails PerCredentialFails) (f ci)) (\<lambda>ci.
         rmap (Cons ci) (new_instances cc content (Suc i) keys)))"

definition per_batch ::
  "'p credential_content \<Rightarrow> 'p credential_instance list \<Rightarrow> cred_error + 'p credential_instance list" where
  "per_batch content batch =
     (case ct_PerBatch content of
        None \<Rightarrow> Inr batch
      | Some f \<Rightarrow> rmap (\<lambda>g. map g [0..<length batch]) (wrap_err (\<lambda>_. IssuerFails PerBatchFails) (f batch)))"

definition statusRef :: "('p, 'a) issuer_deps_scheme \<Rightarrow> 'p credential_instance \<Rightarrow> string option" where
  "statusRef d ci =
     (case ci_SDJWTClaims ci of
        Some cl \<Rightarrow>
          (case cl_Status cl of
             Some m \<Rightarrow> if m = [] then None else Some (id_json d (GObj m))
           | None \<Rightarrow> None)
      | None \<Rightarrow> None)"

definition checkStatusClaim :: "(string, goval) gomap option \<Rightarrow> claim_error option" where
  "checkStatusClaim status =
     (case status of
        None \<Rightarrow> None
      | Some m \<Rightarrow> (case ParseStatusClaim m of Inl e \<Rightarrow> Some e | Inr _ \<Rightarrow> None))"

definition checkInstanceType :: "credential_configuration \<Rightarrow> nat \<Rightarrow> claims \<Rightarrow> cred_error option" where
  "checkInstanceType cc i cl =
     and_then (require (cl_VCT cl = cc_VCT cc) (IssuerFails (WrongVCT i)))
       (map_option (\<lambda>e. IssuerFails (BadStatus i e)) (checkStatusClaim (cl_Status cl)))"

text \<open>\<open>DecoyRange.count\<close>: no decoys are drawn without a range.\<close>

definition draw_decoys :: "bool \<Rightarrow> int option list \<Rightarrow> (int \<times> int option list) option" where
  "draw_decoys drawn draws =
     (if \<not> drawn then Some (0, draws)
      else (case draws of Some n # rest \<Rightarrow> Some (n, rest) | _ \<Rightarrow> None))"

text \<open>The claims with the key they are bound to, and the Issuer where they name none.\<close>

definition bind_claims :: "('a) nonce_issuer_scheme \<Rightarrow> jwk \<Rightarrow> claims \<Rightarrow> claims" where
  "bind_claims iss j cl =
     cl \<lparr> cl_CNF := Some [(''jwk'', jwk_json j)], cl_Iss := (if cl_Iss cl = [] then is_Issuer iss else cl_Iss cl) \<rparr>"

definition signer_options :: "('p, 'a) issuer_deps_scheme \<Rightarrow> int \<Rightarrow> issue_options" where
  "signer_options d decoys =
     \<lparr> io_HashAlg = [], io_Decoys = decoys, io_NestedDecoys = id_NestedDecoys d, io_KeyID = id_KeyID d \<rparr>"

definition issueSDJWT ::
  "('p, 'a) issuer_deps_scheme \<Rightarrow> ('b) nonce_issuer_scheme \<Rightarrow> claims \<Rightarrow> jwk \<Rightarrow> issuer_state
     \<Rightarrow> cred_error + string \<times> issuer_state" where
  "issueSDJWT d iss cl j st =
     (case draw_decoys (id_Decoys d) (st_decoys st) of
        None \<Rightarrow> Inl (IssuerFails DecoyDrawFails)
      | Some (n, rest) \<Rightarrow>
          rmap (\<lambda>((sdjwt, _), sealing). (sdjwt, st \<lparr> st_decoys := rest, st_sealing := sealing \<rparr>))
            (wrap_err (\<lambda>e. IssuerFails (IssueFails e))
              (Issue (pd_crypto d) (id_hash d) (id_sd_marshal d) (id_Signer d) (id_Alg d) (bind_claims iss j cl)
                (signer_options d n) (st_sealing st))))"

text \<open>\<open>seen\<close> are the status references before this credential, with the place each is at.\<close>

fun issue_instances ::
  "('p, 'a) issuer_deps_scheme \<Rightarrow> ('b) nonce_issuer_scheme \<Rightarrow> credential_configuration \<Rightarrow> nat
     \<Rightarrow> ('p credential_instance \<times> 'p resolved_key) list \<Rightarrow> (string, nat) gomap \<Rightarrow> issuer_state
     \<Rightarrow> cred_error + string list \<times> issuer_state" where
  "issue_instances d iss cc i [] seen st = Inr ([], st)"
| "issue_instances d iss cc i ((ci, key) # rest) seen st =
     (case ci_SDJWTClaims ci of
        None \<Rightarrow> Inl (IssuerFails (ClaimsReplaced i))
      | Some cl \<Rightarrow>
          (case Option.bind (statusRef d ci) (gm_get seen) of
             Some first \<Rightarrow> Inl (IssuerFails (SameStatus first i))
           | None \<Rightarrow>
               (let seen = (case statusRef d ci of None \<Rightarrow> seen | Some ref \<Rightarrow> gm_put ref i seen) in
                case checkInstanceType cc i cl of
                  Some e \<Rightarrow> Inl e
                | None \<Rightarrow>
                    rbind (issueSDJWT d iss cl (rk_JWK key) st) (\<lambda>(sdjwt, st).
                      rmap (\<lambda>(sdjwts, st). (sdjwt # sdjwts, st))
                        (issue_instances d iss cc (Suc i) rest seen st)))))"

definition issueBatch ::
  "('p, 'a) issuer_deps_scheme \<Rightarrow> ('b) nonce_issuer_scheme \<Rightarrow> credential_configuration \<Rightarrow> 'p credential_content
     \<Rightarrow> 'p resolved_key list \<Rightarrow> issuer_state \<Rightarrow> cred_error + string list \<times> issuer_state" where
  "issueBatch d iss cc content keys st =
     rbind (new_instances cc content 0 keys) (\<lambda>batch.
       rbind (per_batch content batch) (\<lambda>batch.
         issue_instances d iss cc 0 (zip batch keys) [] st))"

section \<open>Notification identifiers\<close>

text \<open>\<open>checkOwnerKept\<close>: \<open>read\<close> is the owner a record just saved reads back with.\<close>

definition checkOwnerKept :: "('a) nonce_issuer_scheme \<Rightarrow> bool \<Rightarrow> string option \<Rightarrow> cred_error + bool" where
  "checkOwnerKept iss kept read =
     (if \<not> is_production iss \<or> kept then Inr kept
      else if read = Some (storeOwner iss) then Inr True
      else Inl (IssuerFails OwnerDropped))"

definition notificationIDEntropyBytes :: nat where "notificationIDEntropyBytes = 32"

definition IssueNotificationID ::
  "('a) credential_issuer_scheme \<Rightarrow> int \<Rightarrow> authorized_request \<Rightarrow> issuer_state \<Rightarrow> (cred_error + string) \<times> issuer_state" where
  "IssueNotificationID iss now auth st =
     (case requireClientIdentityDecision auth of
        Some e \<Rightarrow> (Inl e, st)
      | None \<Rightarrow>
          (case randomID (st_random st) notificationIDEntropyBytes of
             None \<Rightarrow> (Inl (IssuerFails NotificationFails), st)
           | Some (i, rest) \<Rightarrow>
               (let record = \<lparr> no_Owner = storeOwner iss, no_ClientID = ClientID auth, no_Subject = au_Subject auth,
                      no_ExpiresAt = (if is_NotificationLifetime iss > 0
                        then store_time (now + is_NotificationLifetime iss) else 0) \<rparr>;
                    store = NotificationStore_Issue (store_time now) i record (st_notifications st);
                    st' = st \<lparr> st_notifications := store, st_random := rest \<rparr> in
                case checkOwnerKept iss (st_notification_kept st) (map_option no_Owner (NotificationStore_Get i store)) of
                  Inl e \<Rightarrow> (Inl e, st')
                | Inr kept \<Rightarrow> (Inr i, st' \<lparr> st_notification_kept := kept \<rparr>))))"

section \<open>What a batch is\<close>

definition status_text :: "('p, 'a) issuer_deps_scheme \<Rightarrow> claims \<Rightarrow> string option" where
  "status_text d cl = (case cl_Status cl of Some m \<Rightarrow> if m = [] then None else Some (id_json d (GObj m)) | None \<Rightarrow> None)"

lemma statusRef_text: "ci_SDJWTClaims ci = Some cl \<Longrightarrow> statusRef d ci = status_text d cl"
  by (simp add: statusRef_def status_text_def)

text \<open>\<open>sdjwt\<close> is what \<open>Issue\<close> signs for the configuration's type with these claims, bound to \<open>key\<close>.\<close>

definition issued_as ::
  "('p, 'a) issuer_deps_scheme \<Rightarrow> ('b) nonce_issuer_scheme \<Rightarrow> credential_configuration \<Rightarrow> 'p resolved_key \<Rightarrow> claims \<Rightarrow> string \<Rightarrow> bool"
  where
  "issued_as d iss cc key cl sdjwt =
     (cl_VCT cl = cc_VCT cc \<and> checkStatusClaim (cl_Status cl) = None \<and>
      (\<exists>n s s' ds. Issue (pd_crypto d) (id_hash d) (id_sd_marshal d) (id_Signer d) (id_Alg d)
         (bind_claims iss (rk_JWK key) cl) (signer_options d n) s = Inr ((sdjwt, ds), s')))"

text \<open>A batch of credentials: one for each key, no two with the same status reference.\<close>

definition batch_for ::
  "('p, 'a) issuer_deps_scheme \<Rightarrow> ('b) nonce_issuer_scheme \<Rightarrow> credential_configuration \<Rightarrow> 'p resolved_key list \<Rightarrow> string list \<Rightarrow> bool"
  where
  "batch_for d iss cc keys sdjwts =
     (\<exists>cls. length cls = length keys \<and> length sdjwts = length keys \<and>
        (\<forall>i < length keys. issued_as d iss cc (keys ! i) (cls ! i) (sdjwts ! i)) \<and>
        distinct (List.map_filter (status_text d) cls))"

text \<open>What issuing changes of the Issuer's state.\<close>

definition only_issued :: "issuer_state \<Rightarrow> issuer_state \<Rightarrow> bool" where
  "only_issued st st' = (\<exists>ds s. st' = st \<lparr> st_decoys := ds, st_sealing := s \<rparr>)"

lemma only_issued_refl [simp]: "only_issued st st"
  by (auto simp: only_issued_def intro!: exI [of _ "st_decoys st"] exI [of _ "st_sealing st"])

lemma only_issued_trans: "only_issued a b \<Longrightarrow> only_issued b c \<Longrightarrow> only_issued a c"
  unfolding only_issued_def by (elim exE, hypsubst, intro exI) simp

lemma only_issued_stores:
  assumes "only_issued st st'"
  shows "st_nonces st' = st_nonces st" "st_deferred st' = st_deferred st" "st_notifications st' = st_notifications st"
    "st_random st' = st_random st"
  using assms by (auto simp: only_issued_def)

lemma issueSDJWT_ok:
  assumes "issueSDJWT d iss cl j st = Inr (sdjwt, st')"
  shows "only_issued st st'"
    "\<exists>n s s' ds. Issue (pd_crypto d) (id_hash d) (id_sd_marshal d) (id_Signer d) (id_Alg d)
       (bind_claims iss j cl) (signer_options d n) s = Inr ((sdjwt, ds), s')"
  using assms by (auto simp: issueSDJWT_def ok_iffs only_issued_def split: option.splits)

lemma checkInstanceType_ok:
  "checkInstanceType cc i cl = None \<longleftrightarrow> cl_VCT cl = cc_VCT cc \<and> checkStatusClaim (cl_Status cl) = None"
  by (auto simp: checkInstanceType_def)

lemma issue_instances_ok:
  "issue_instances d iss cc i bs seen st = Inr (sdjwts, st') \<Longrightarrow>
     only_issued st st' \<and>
     (\<exists>cls. length cls = length bs \<and> length sdjwts = length bs \<and>
        (\<forall>k < length bs. issued_as d iss cc (snd (bs ! k)) (cls ! k) (sdjwts ! k)) \<and>
        distinct (List.map_filter (status_text d) cls) \<and>
        (\<forall>ref \<in> set (List.map_filter (status_text d) cls). gm_get seen ref = None))"
proof (induction bs arbitrary: i seen st sdjwts)
  case (Cons b bs)
  obtain ci key where b: "b = (ci, key)" by (cases b)
  with Cons.prems obtain cl where cl: "ci_SDJWTClaims ci = Some cl"
    and fresh: "Option.bind (status_text d cl) (gm_get seen) = None"
    and typed: "checkInstanceType cc i cl = None"
    by (auto simp: statusRef_text ok_iffs Let_def split: option.splits)
  let ?seen = "case status_text d cl of None \<Rightarrow> seen | Some ref \<Rightarrow> gm_put ref i seen"
  from Cons.prems b cl fresh typed obtain sdjwt st1 rest where
    first: "issueSDJWT d iss cl (rk_JWK key) st = Inr (sdjwt, st1)" and sdjwts: "sdjwts = sdjwt # rest"
    and later: "issue_instances d iss cc (Suc i) bs ?seen st1 = Inr (rest, st')"
    by (auto simp: statusRef_text ok_iffs Let_def split: option.splits)
  from Cons.IH [OF later] obtain cls where cls: "only_issued st1 st'" "length cls = length bs" "length rest = length bs"
    "\<forall>k < length bs. issued_as d iss cc (snd (bs ! k)) (cls ! k) (rest ! k)"
    "distinct (List.map_filter (status_text d) cls)"
    "\<forall>ref \<in> set (List.map_filter (status_text d) cls). gm_get ?seen ref = None"
    by blast
  have "issued_as d iss cc key cl sdjwt"
    using typed issueSDJWT_ok(2) [OF first] by (simp add: issued_as_def checkInstanceType_ok)
  then have "\<forall>k < length (b # bs). issued_as d iss cc (snd ((b # bs) ! k)) ((cl # cls) ! k) (sdjwts ! k)"
    using cls(4) b sdjwts by (auto simp: less_Suc_eq_0_disj)
  moreover have "distinct (List.map_filter (status_text d) (cl # cls)) \<and>
      (\<forall>ref \<in> set (List.map_filter (status_text d) (cl # cls)). gm_get seen ref = None)"
    using cls(5,6) fresh by (cases "status_text d cl") (auto simp: List.map_filter_simps split: if_splits)
  moreover have "only_issued st st'" using issueSDJWT_ok(1) [OF first] cls(1) by (rule only_issued_trans)
  ultimately show ?case using cls(2,3) sdjwts by (intro conjI exI [of _ "cl # cls"]) auto
qed (simp add: List.map_filter_simps)

lemma new_instances_length: "new_instances cc content i keys = Inr batch \<Longrightarrow> length batch = length keys"
  by (induction keys arbitrary: i batch) (auto simp: ok_iffs)

lemma issueBatch_ok:
  assumes "issueBatch d iss cc content keys st = Inr (sdjwts, st')"
  shows "only_issued st st'" "batch_for d iss cc keys sdjwts"
proof -
  obtain made batch where made: "new_instances cc content 0 keys = Inr made" and batch: "per_batch content made = Inr batch"
    and issue: "issue_instances d iss cc 0 (zip batch keys) [] st = Inr (sdjwts, st')"
    using assms unfolding issueBatch_def rbind_Inr_iff by blast
  have len: "length batch = length keys"
    using batch new_instances_length [OF made] by (auto simp: per_batch_def ok_iffs split: option.splits)
  from issue_instances_ok [OF issue] len show "only_issued st st'" "batch_for d iss cc keys sdjwts"
    unfolding batch_for_def by auto
qed

text \<open>What a resolved configuration rests on.\<close>

definition config_granted :: "('a) credential_issuer_scheme \<Rightarrow> authorized_request \<Rightarrow> 'p credential_request \<Rightarrow> string \<Rightarrow> credential_configuration \<Rightarrow> bool"
  where
  "config_granted iss auth req i cc =
     (gm_get (is_Configurations iss) i = Some cc \<and>
      ((\<exists>ad \<in> set (au_AuthorizationDetails auth). credentialDetail iss ad \<and> ad_CredentialConfigurationID ad = i \<and>
         (if cq_CredentialIdentifier req = [] then cq_CredentialConfigurationID req = i \<and> ad_CredentialIdentifiers ad = []
          else cq_CredentialIdentifier req \<in> set (ad_CredentialIdentifiers ad))) \<or>
       cq_CredentialIdentifier req = [] \<and> cq_CredentialConfigurationID req = i \<and> scope_grants auth cc))"

lemma resolveCredentialConfiguration_ok:
  assumes "resolveCredentialConfiguration iss auth req = Inr (i, cc)"
  shows "config_granted iss auth req i cc"
proof (cases "cq_CredentialIdentifier req = []")
  case False
  with assms obtain ad where "find (\<lambda>ad. credentialDetail iss ad \<and> cq_CredentialIdentifier req \<in> set (ad_CredentialIdentifiers ad))
      (au_AuthorizationDetails auth) = Some ad" "ad_CredentialConfigurationID ad = i" "gm_get (is_Configurations iss) i = Some cc"
    by (auto simp: resolveCredentialConfiguration_def resolveCredentialIdentifier_def ok_iffs split: if_splits option.splits)
  with False show ?thesis unfolding config_granted_def by (auto simp: find_Some_iff intro!: bexI [of _ ad])
next
  case True
  with assms have i: "cq_CredentialConfigurationID req = i" "gm_get (is_Configurations iss) i = Some cc"
    and auth: "authorizeCredentialConfigurationID iss auth i cc = None"
    by (auto simp: resolveCredentialConfiguration_def split: if_splits option.splits)
  show ?thesis
  proof (cases "find (\<lambda>ad. credentialDetail iss ad \<and> ad_CredentialConfigurationID ad = i) (au_AuthorizationDetails auth)")
    case None
    with auth True i show ?thesis by (simp add: config_granted_def authorizeCredentialConfigurationID_def)
  next
    case (Some ad)
    with auth have "ad_CredentialIdentifiers ad = []" by (simp add: authorizeCredentialConfigurationID_def)
    with Some True i show ?thesis unfolding config_granted_def by (auto simp: find_Some_iff intro!: bexI [of _ ad])
  qed
qed

lemma config_granted_grants: "config_granted iss auth req i cc \<Longrightarrow> grantsConfiguration iss auth i cc"
  by (auto simp: config_granted_def grantsConfiguration_def list_ex_iff)

end
