(* ===== verification/Issuer_Deferral.thy ===== *)
theory Issuer_Deferral
  imports Issuer_Batch
begin

text \<open>
  Deferred issuance: \<open>src/issuer/deferral.go\<close> and the Deferred Credential Endpoint of
  \<open>deferred_credential_endpoint.go\<close>, over the store in memory. A transaction begins pending; the deployment issues or
  denies it, after the trust in its keys has been checked again, and the Wallet it was created for collects the
  credentials once. A record keeps its binding keys and proof headers as JSON text, \<open>[]\<close> for none.
\<close>

section \<open>Beginning a transaction\<close>

record credential_response =
  rs_Credentials :: "string list"
  rs_NotificationID :: string
  rs_TransactionID :: string
  rs_Interval :: int

definition transactionIDEntropyBytes :: nat where "transactionIDEntropyBytes = 32"

definition requireDeferral :: "('a) credential_issuer_scheme \<Rightarrow> authorized_request \<Rightarrow> cred_error option" where
  "requireDeferral iss auth =
     and_then (require (is_DeferredEndpoint iss) (IssuerFails DeferralUnavailable))
       (require (au_Subject auth \<noteq> []) (IssuerFails SubjectRequired))"

text \<open>Division of a \<open>Duration\<close> truncates towards zero.\<close>

definition pollIntervalSeconds :: "int \<Rightarrow> int" where
  "pollIntervalSeconds t = (let n = t + second - 1 in if n < 0 then - ((- n) div second) else n div second)"

fun distinct_attestations :: "'p resolved_key list \<Rightarrow> string list \<Rightarrow> string list" where
  "distinct_attestations [] acc = acc"
| "distinct_attestations (k # ks) acc =
     distinct_attestations ks
       (if rk_KeyAttestation k \<noteq> [] \<and> rk_KeyAttestation k \<notin> set acc then acc @ [rk_KeyAttestation k] else acc)"

definition proof_key_headers :: "('p, 'a) issuer_deps_scheme \<Rightarrow> 'p resolved_key list \<Rightarrow> string list" where
  "proof_key_headers d keys =
     (if list_all (\<lambda>k. rk_ProofKeyHeader k = None) keys then []
      else map (\<lambda>k. case rk_ProofKeyHeader k of None \<Rightarrow> [] | Some h \<Rightarrow> id_json d (GObj h)) keys)"

definition deferred_record_of ::
  "('p, 'a) issuer_deps_scheme \<Rightarrow> ('b) credential_issuer_scheme \<Rightarrow> int \<Rightarrow> authorized_request \<Rightarrow> string \<Rightarrow> 'p resolved_key list
     \<Rightarrow> string \<Rightarrow> deferred_record" where
  "deferred_record_of d iss now auth configID keys reference =
     \<lparr> dr_Owner = storeOwner iss, dr_ClientID = ClientID auth, dr_Subject = au_Subject auth, dr_Status = DeferredPending,
       dr_Credentials = [], dr_NotificationID = [], dr_CredentialConfigurationID = configID,
       dr_BindingKeys = map (\<lambda>k. id_json d (jwk_json (rk_JWK k))) keys,
       dr_ExpiresAt = store_time (now + is_DeferredLifetime iss),
       dr_KeyAttestations = distinct_attestations keys [], dr_ProofKeyHeaders = proof_key_headers d keys,
       dr_Reference = reference \<rparr>"

definition startDeferral ::
  "('p, 'a) issuer_deps_scheme \<Rightarrow> ('b) credential_issuer_scheme \<Rightarrow> int \<Rightarrow> authorized_request \<Rightarrow> string \<Rightarrow> 'p resolved_key list
     \<Rightarrow> string \<Rightarrow> issuer_state \<Rightarrow> (cred_error + credential_response) \<times> issuer_state" where
  "startDeferral d iss now auth configID keys reference st =
     (case randomID (st_random st) transactionIDEntropyBytes of
        None \<Rightarrow> (Inl (IssuerFails TransactionIDFails), st)
      | Some (i, rest) \<Rightarrow>
          (let st = st \<lparr> st_random := rest \<rparr> in
           case DeferredStore_Create (store_time now) i (deferred_record_of d iss now auth configID keys reference)
               (st_deferred st) of
             (Some e, s') \<Rightarrow> (Inl (IssuerFails (CreateFails e)), st \<lparr> st_deferred := s' \<rparr>)
           | (None, s') \<Rightarrow>
               (let st = st \<lparr> st_deferred := s' \<rparr> in
                case checkOwnerKept iss (st_deferred_kept st)
                    (case DeferredStore_Get i s' of Inl _ \<Rightarrow> None | Inr r \<Rightarrow> Some (dr_Owner r)) of
                  Inl e \<Rightarrow> (Inl e, st)
                | Inr kept \<Rightarrow>
                    (Inr \<lparr> rs_Credentials = [], rs_NotificationID = [], rs_TransactionID = i,
                       rs_Interval = pollIntervalSeconds (is_PollInterval iss) \<rparr>,
                     st \<lparr> st_deferred_kept := kept \<rparr>))))"

section \<open>Whose a transaction is, and whether it is pending\<close>

definition deferredExpired :: "int \<Rightarrow> deferred_record \<Rightarrow> bool" where
  "deferredExpired now r = (dr_ExpiresAt r \<noteq> 0 \<and> \<not> store_time now < dr_ExpiresAt r)"

definition checkDeferredPending :: "('a) nonce_issuer_scheme \<Rightarrow> int \<Rightarrow> deferred_record \<Rightarrow> cred_error option" where
  "checkDeferredPending iss now r =
     (if \<not> issuer_owns iss (dr_Owner r) then Some (IssuerFails (StoreError DeferredTransactionUnknown))
      else if dr_Status r \<noteq> DeferredPending \<or> deferredExpired now r then Some (IssuerFails DeferredResolved)
      else None)"

definition pendingDeferredTransaction ::
  "('a) nonce_issuer_scheme \<Rightarrow> int \<Rightarrow> string \<Rightarrow> deferred_store \<Rightarrow> cred_error + deferred_record" where
  "pendingDeferredTransaction iss now i s =
     rbind (wrap_err (\<lambda>e. IssuerFails (StoreError e)) (DeferredStore_Get i s)) (\<lambda>r.
       case checkDeferredPending iss now r of Some e \<Rightarrow> Inl e | None \<Rightarrow> Inr r)"

definition isDeferredOwner :: "deferred_record \<Rightarrow> authorized_request \<Rightarrow> bool" where
  "isDeferredOwner r auth =
     ((dr_ClientID r = [] \<or> ClientID auth = dr_ClientID r) \<and> (dr_Subject r = [] \<or> au_Subject auth = dr_Subject r))"

text \<open>A configuration that is no longer there has no scope.\<close>

definition no_configuration :: credential_configuration where
  "no_configuration = \<lparr> cc_Format = [], cc_VCT = [], cc_Scope = [], cc_ProofTypesSupported = [] \<rparr>"

definition deferredAuthorized ::
  "('a) credential_issuer_scheme \<Rightarrow> deferred_record \<Rightarrow> authorized_request \<Rightarrow> bool" where
  "deferredAuthorized iss r auth =
     (isDeferredOwner r auth \<and>
      (dr_CredentialConfigurationID r = [] \<or>
       grantsConfiguration iss auth (dr_CredentialConfigurationID r)
         (case gm_get (is_Configurations iss) (dr_CredentialConfigurationID r) of None \<Rightarrow> no_configuration | Some cc \<Rightarrow> cc)))"

definition deferredClient :: "deferred_record \<Rightarrow> authorized_request" where
  "deferredClient r =
     \<lparr> au_ClientIdentity = Some (if dr_ClientID r = [] then NoClientIdentity else KnownClientID (dr_ClientID r)),
       au_Subject = dr_Subject r, au_Scopes = [], au_AuthorizationDetails = [] \<rparr>"

section \<open>Trust in a transaction's keys, checked again\<close>

text \<open>Each check says that a key is no longer trusted, that it cannot be decided now, or nothing; the first that is
  decided wins.\<close>

definition attestation_verdict ::
  "('p, 'a) proof_deps_scheme \<Rightarrow> int \<Rightarrow> string list \<Rightarrow> nat \<Rightarrow> string \<Rightarrow> trust_error option" where
  "attestation_verdict d now algs i jws =
     (case verifyOneAttestation (proof_deps.truncate d) jws i now algs of
        Inl (TrustUndecidedNow _) \<Rightarrow> Some TrustUndecided
      | Inl _ \<Rightarrow> Some Untrusted
      | Inr v \<Rightarrow>
          (case pd_AttestationStatus d of
             None \<Rightarrow> None
           | Some check \<Rightarrow>
               (case check (vk_Claims v) (vk_SignerKey v) (vk_parsed v) of
                  None \<Rightarrow> None
                | Some KeyAttestationRevoked \<Rightarrow> Some Untrusted
                | Some StatusUnknown \<Rightarrow> Some TrustUndecided)))"

text \<open>The loop over verdicts: the first refusal is returned at once; otherwise one undecided is remembered.\<close>

fun worst :: "trust_error option list \<Rightarrow> trust_error option" where
  "worst [] = None"
| "worst (Some Untrusted # vs) = Some Untrusted"
| "worst (Some TrustUndecided # vs) =
     (case worst vs of Some Untrusted \<Rightarrow> Some Untrusted | _ \<Rightarrow> Some TrustUndecided)"
| "worst (None # vs) = worst vs"

definition recheckKeyAttestations ::
  "('p, 'a) proof_deps_scheme \<Rightarrow> int \<Rightarrow> credential_configuration \<Rightarrow> deferred_record \<Rightarrow> trust_error option" where
  "recheckKeyAttestations d now cc r =
     (if dr_KeyAttestations r = [] then None
      else if pd_AttestationVerifier d = None then Some Untrusted
      else (let algs = concat (map (pt_Algs \<circ> snd) (cc_ProofTypesSupported cc)) in
            worst (map (\<lambda>(i, jws). attestation_verdict d now algs i jws) (enumerate 0 (dr_KeyAttestations r)))))"

text \<open>\<open>sameKey\<close>: one public key, by the JWKs.\<close>

definition same_jwk :: "'p ec \<Rightarrow> 'p public_key \<Rightarrow> 'p public_key \<Rightarrow> bool" where
  "same_jwk ec a b = (\<exists>j. jwk_Marshal ec a = Inr j \<and> jwk_Marshal ec b = Inr j)"

lemma same_jwk_code [code]:
  "same_jwk ec a b = (case (jwk_Marshal ec a, jwk_Marshal ec b) of (Inr i, Inr j) \<Rightarrow> i = j | _ \<Rightarrow> False)"
  by (auto simp: same_jwk_def split: sum.splits)

definition header_verdict ::
  "('p, 'a) issuer_deps_scheme \<Rightarrow> (int \<Rightarrow> (string \<times> goval) list \<Rightarrow> trust_error + 'p public_key \<times> string) \<Rightarrow> int
     \<Rightarrow> string \<times> 'p resolved_key \<Rightarrow> trust_error option" where
  "header_verdict d resolve now hk =
     (case hk of (raw, key) \<Rightarrow>
        if raw = [] \<or> raw = ''null'' then None
        else (case id_parse d raw of
            Some (GObj header) \<Rightarrow>
              (case resolve now header of
                 Inl e \<Rightarrow> Some e
               | Inr (pub, _) \<Rightarrow> if same_jwk (pd_ec d) pub (rk_Public key) then None else Some Untrusted)
          | _ \<Rightarrow> Some Untrusted))"

definition recheckProofKeys ::
  "('p, 'a) issuer_deps_scheme \<Rightarrow> int \<Rightarrow> deferred_record \<Rightarrow> 'p resolved_key list \<Rightarrow> trust_error option" where
  "recheckProofKeys d now r keys =
     (if dr_ProofKeyHeaders r = [] then None
      else if length (dr_ProofKeyHeaders r) \<noteq> length keys then Some Untrusted
      else (case pd_ProofBindingKeys d of
          None \<Rightarrow> Some Untrusted
        | Some resolve \<Rightarrow> worst (map (header_verdict d resolve now) (zip (dr_ProofKeyHeaders r) keys))))"

definition recheckDeferredTrust ::
  "('p, 'a) issuer_deps_scheme \<Rightarrow> int \<Rightarrow> credential_configuration \<Rightarrow> deferred_record \<Rightarrow> 'p resolved_key list
     \<Rightarrow> issuer_failure option" where
  "recheckDeferredTrust d now cc r keys =
     (let attestations = recheckKeyAttestations d now cc r; proofKeys = recheckProofKeys d now r keys in
      if attestations = Some Untrusted then Some DeferredKeyAttestation
      else if proofKeys = Some Untrusted then Some DeferredProofKey
      else if attestations = None \<and> proofKeys = None then None
      else Some DeferredUndecided)"

section \<open>Resolving a transaction\<close>

text \<open>The functions \<open>Update\<close> is called with. Their errors are those of \<open>checkDeferredPending\<close>.\<close>

definition pending_update ::
  "('a) nonce_issuer_scheme \<Rightarrow> int \<Rightarrow> (deferred_record \<Rightarrow> deferred_record) \<Rightarrow> deferred_record \<Rightarrow> string + deferred_record" where
  "pending_update iss now f cur =
     (case checkDeferredPending iss now cur of
        None \<Rightarrow> Inr (f cur)
      | Some (IssuerFails DeferredResolved) \<Rightarrow> Inl ''resolved''
      | Some _ \<Rightarrow> Inl ''unknown'')"

definition mark_denied :: "deferred_record \<Rightarrow> deferred_record" where
  "mark_denied cur = cur \<lparr> dr_Status := DeferredDenied \<rparr>"

definition mark_issued ::
  "('a) credential_issuer_scheme \<Rightarrow> int \<Rightarrow> string list \<Rightarrow> string \<Rightarrow> deferred_record \<Rightarrow> deferred_record" where
  "mark_issued iss now credentials notificationID cur =
     cur \<lparr> dr_Status := DeferredIssued, dr_Credentials := map GStr credentials, dr_NotificationID := notificationID,
       dr_ExpiresAt := (if dr_ExpiresAt cur = 0 then 0 else store_time (now + is_DeferredLifetime iss)) \<rparr>"

definition update_error :: "deferred_error option \<Rightarrow> cred_error option" where
  "update_error e =
     (case e of
        None \<Rightarrow> None
      | Some (UpdateFn w) \<Rightarrow>
          Some (IssuerFails (if w = ''resolved'' then DeferredResolved else StoreError DeferredTransactionUnknown))
      | Some e \<Rightarrow> Some (IssuerFails (StoreError e)))"

definition denyPending ::
  "('a) nonce_issuer_scheme \<Rightarrow> int \<Rightarrow> string \<Rightarrow> issuer_state \<Rightarrow> cred_error option \<times> issuer_state" where
  "denyPending iss now i st =
     (case DeferredStore_Update i (pending_update iss now mark_denied) (st_deferred st) of
        (e, s') \<Rightarrow> (update_error e, st \<lparr> st_deferred := s' \<rparr>))"

definition DenyDeferredCredential ::
  "('a) nonce_issuer_scheme \<Rightarrow> int \<Rightarrow> string \<Rightarrow> issuer_state \<Rightarrow> cred_error option \<times> issuer_state" where
  "DenyDeferredCredential iss now i st = denyPending iss now i st"

definition abandon :: "('a) nonce_issuer_scheme \<Rightarrow> deferred_record \<Rightarrow> string + deferred_record" where
  "abandon iss cur = Inr (if dr_Status cur = DeferredPending \<and> issuer_owns iss (dr_Owner cur) then mark_denied cur else cur)"

definition abandonDeferral :: "('a) nonce_issuer_scheme \<Rightarrow> string \<Rightarrow> issuer_state \<Rightarrow> issuer_state" where
  "abandonDeferral iss i st = st \<lparr> st_deferred := snd (DeferredStore_Update i (abandon iss) (st_deferred st)) \<rparr>"

fun binding_keys ::
  "('p, 'a) issuer_deps_scheme \<Rightarrow> nat \<Rightarrow> string list \<Rightarrow> cred_error + 'p resolved_key list" where
  "binding_keys d i [] = Inr []"
| "binding_keys d i (raw # raws) =
     (case id_parse d raw of
        None \<Rightarrow> Inl (IssuerFails (DeferredBindingKey i UnmarshalJWK))
      | Some v \<Rightarrow>
          rbind (wrap_err (\<lambda>e. IssuerFails (DeferredBindingKey i e)) (ParsePublicKey (pd_ec d) v)) (\<lambda>pub.
            case unmarshal_jwk v of
              None \<Rightarrow> Inl (IssuerFails (DeferredBindingKey i UnmarshalJWK))
            | Some j \<Rightarrow>
                rmap (Cons \<lparr> rk_Public = pub, rk_JWK = j, rk_KeyAttestation = [], rk_ProofKeyHeader = None \<rparr>)
                  (binding_keys d (Suc i) raws)))"

text \<open>\<open>notify\<close>: an identifier where the Issuer has a Notification Endpoint.\<close>

definition notify ::
  "('a) credential_issuer_scheme \<Rightarrow> int \<Rightarrow> authorized_request \<Rightarrow> issuer_state \<Rightarrow> (cred_error + string) \<times> issuer_state" where
  "notify iss now auth st = (if is_NotificationEndpoint iss then IssueNotificationID iss now auth st else (Inr [], st))"

definition IssueDeferredCredential ::
  "('p, 'a) issuer_deps_scheme \<Rightarrow> ('b) credential_issuer_scheme \<Rightarrow> int \<Rightarrow> string \<Rightarrow> 'p credential_content \<Rightarrow> issuer_state
     \<Rightarrow> cred_error option \<times> issuer_state" where
  "IssueDeferredCredential d iss now i content st =
     (case pendingDeferredTransaction iss now i (st_deferred st) of
        Inl e \<Rightarrow> (Some e, st)
      | Inr r \<Rightarrow>
          (case gm_get (is_Configurations iss) (dr_CredentialConfigurationID r) of
             None \<Rightarrow> (Some (IssuerFails NotDeferred), st)
           | Some cc \<Rightarrow>
               (if dr_BindingKeys r = [] then (Some (IssuerFails NotDeferred), st)
                else (case binding_keys d 0 (dr_BindingKeys r) of
                    Inl e \<Rightarrow> (Some e, st)
                  | Inr keys \<Rightarrow>
                      (case recheckDeferredTrust d now cc r keys of
                         Some DeferredUndecided \<Rightarrow> (Some (IssuerFails DeferredUndecided), st)
                       | Some f \<Rightarrow>
                           (case denyPending iss now i st of
                              (Some e, st') \<Rightarrow> (Some e, st')
                            | (None, st') \<Rightarrow> (Some (IssuerFails f), st'))
                       | None \<Rightarrow>
                           (case issueBatch d iss cc content keys st of
                              Inl e \<Rightarrow> (Some e, st)
                            | Inr (credentials, st) \<Rightarrow>
                                (case notify iss now (deferredClient r) st of
                                   (Inl e, st) \<Rightarrow> (Some e, st)
                                 | (Inr notificationID, st) \<Rightarrow>
                                     (case DeferredStore_Update i
                                         (pending_update iss now (mark_issued iss now credentials notificationID))
                                         (st_deferred st) of
                                        (e, s') \<Rightarrow> (update_error e, st \<lparr> st_deferred := s' \<rparr>)))))))))"

section \<open>Collecting\<close>

record deferred_request =
  df_TransactionID :: string
  df_ResponseEncryption :: "response_encryption_request option"
  df_RequestWasEncrypted :: bool

record deferred_result =
  de_Credentials :: "goval list"
  de_NotificationID :: string
  de_TransactionID :: string
  de_Interval :: int

definition checkDeferredCredentialRequest ::
  "'p ec \<Rightarrow> ('a) credential_issuer_scheme \<Rightarrow> authorized_request \<Rightarrow> deferred_request \<Rightarrow> cred_error option" where
  "checkDeferredCredentialRequest ec iss auth req =
     and_then (requireClientIdentityDecision auth)
     (and_then (require (df_TransactionID req \<noteq> []) (CredRefused TransactionIDMissing))
     (and_then (requireRequestEncryption iss (df_RequestWasEncrypted req) (df_ResponseEncryption req \<noteq> None))
       (requireResponseEncryption ec iss (df_ResponseEncryption req))))"

definition deferredStoreError :: "deferred_error \<Rightarrow> cred_error" where
  "deferredStoreError e =
     (if e = DeferredTransactionUnknown then CredRefused TransactionUnknown else IssuerFails (StoreError e))"

text \<open>The answer to a request that has read the record \<open>r\<close> and been let through. Other calls may use the store in between.\<close>

definition answer_deferred ::
  "int \<Rightarrow> deferred_request \<Rightarrow> deferred_record \<Rightarrow> deferred_store \<Rightarrow> (cred_error + deferred_result) \<times> deferred_store" where
  "answer_deferred interval req r s =
     (case dr_Status r of
        DeferredPending \<Rightarrow>
          (Inr \<lparr> de_Credentials = [], de_NotificationID = [], de_TransactionID = df_TransactionID req, de_Interval = interval \<rparr>, s)
      | DeferredDenied \<Rightarrow> (Inl (CredRefused TransactionDenied), s)
      | DeferredIssued \<Rightarrow>
          (case DeferredStore_Invalidate (df_TransactionID req) s of
             (Some e, s') \<Rightarrow> (Inl (deferredStoreError e), s')
           | (None, s') \<Rightarrow>
               (Inr \<lparr> de_Credentials = dr_Credentials r, de_NotificationID = dr_NotificationID r,
                  de_TransactionID = [], de_Interval = 0 \<rparr>, s')))"

definition RequestDeferredCredential ::
  "'p ec \<Rightarrow> ('a) credential_issuer_scheme \<Rightarrow> int \<Rightarrow> authorized_request \<Rightarrow> deferred_request \<Rightarrow> deferred_store
     \<Rightarrow> (cred_error + deferred_result) \<times> deferred_store" where
  "RequestDeferredCredential ec iss now auth req s =
     (case checkDeferredCredentialRequest ec iss auth req of
        Some e \<Rightarrow> (Inl e, s)
      | None \<Rightarrow>
          (case DeferredStore_Get (df_TransactionID req) s of
             Inl e \<Rightarrow> (Inl (deferredStoreError e), s)
           | Inr r \<Rightarrow>
               (if \<not> issuer_owns iss (dr_Owner r) \<or> deferredExpired now r \<or> \<not> deferredAuthorized iss r auth
                then (Inl (CredRefused TransactionUnknown), s)
                else answer_deferred (is_PollInterval iss) req r s)))"

text \<open>The status and body of the response.\<close>

definition deferred_wire :: "deferred_result \<Rightarrow> nat \<times> (string \<times> goval) list" where
  "deferred_wire r =
     (if de_Credentials r \<noteq> []
      then (200, [(''credentials'', GArr (map (\<lambda>c. GObj [(''credential'', c)]) (de_Credentials r)))] @
        omit_empty ''notification_id'' (de_NotificationID r))
      else (202, [(''transaction_id'', GStr (de_TransactionID r)), (''interval'', number (pollIntervalSeconds (de_Interval r)))]))"

section \<open>The life of a transaction\<close>

text \<open>The calls the operations above make on the store, by any Issuer sharing it and in any order.\<close>

definition issuer_makes :: "deferred_call \<Rightarrow> bool" where
  "issuer_makes c =
     (case c of
        DPut now i r \<Rightarrow> False
      | DCreate now i r \<Rightarrow> dr_Status r = DeferredPending
      | DUpdate i fn \<Rightarrow>
          (\<exists>iss :: nonce_issuer. fn = abandon iss \<or> (\<exists>now f. fn = pending_update iss now f))
      | DInvalidate i \<Rightarrow> True)"

lemma owns_truncate: "issuer_owns (nonce_issuer.truncate iss) o1 = issuer_owns iss o1"
  by (simp add: issuer_owns_def storeOwner_def nonce_issuer.truncate_def)

lemma pending_update_truncate: "pending_update (nonce_issuer.truncate iss) now f = pending_update iss now f"
  by (rule ext) (simp add: pending_update_def checkDeferredPending_def owns_truncate)

lemma abandon_truncate: "abandon (nonce_issuer.truncate iss) = abandon iss"
  by (rule ext) (simp add: abandon_def owns_truncate)

text \<open>No update changes a record that is no longer pending.\<close>

lemma resolved_update:
  assumes "issuer_makes (DUpdate i fn)" and "dr_Status r \<noteq> DeferredPending" and "fn r = Inr r'"
  shows "r' = r"
  using assms by (auto simp: issuer_makes_def abandon_def pending_update_def checkDeferredPending_def split: if_splits)

text \<open>A resolved transaction stays as it is until it is collected or pruned.\<close>

definition holds_still :: "string \<Rightarrow> deferred_record \<Rightarrow> deferred_store \<Rightarrow> bool" where
  "holds_still i r s = (DeferredStore_Get i s = Inr r \<or> DeferredStore_Get i s = Inl DeferredTransactionUnknown)"

lemma Get_cases:
  "DeferredStore_Get i s = (if is_invalidated s i then Inl DeferredTransactionUnknown
     else (case gm_get (ds_records s) i of None \<Rightarrow> Inl DeferredTransactionUnknown | Some r \<Rightarrow> Inr r))"
  by (simp add: DeferredStore_Get_def)

lemma Get_pruned:
  assumes "deferred_ok s"
  shows "DeferredStore_Get i (pruneExpired now s) = DeferredStore_Get i s \<or>
    DeferredStore_Get i (pruneExpired now s) = Inl DeferredTransactionUnknown"
  using pruneExpired_get(2) [OF assms, of now i] by (auto simp: Get_cases)

lemma is_invalidated_records [simp]: "is_invalidated (s \<lparr> ds_records := m \<rparr>) i = is_invalidated s i"
  by (simp add: is_invalidated_def)

lemma step_holds_still:
  assumes ok: "deferred_ok s" and still: "holds_still i r s" and res: "dr_Status r \<noteq> DeferredPending"
    and makes: "issuer_makes c" and other: "\<forall>now r'. c \<noteq> DCreate now i r'" and step: "deferred_step c s = (e, s')"
  shows "holds_still i r s'"
proof (cases c)
  case (DCreate now j rec)
  with other have "j \<noteq> i" by auto
  with DCreate step have "DeferredStore_Get i s' = DeferredStore_Get i (pruneExpired now s) \<or> s' = s"
    by (auto simp: DeferredStore_Create_def Get_cases Let_def split: if_splits)
  with Get_pruned [OF ok, of i now] still show ?thesis by (auto simp: holds_still_def)
next
  case (DUpdate j fn)
  show ?thesis
  proof (cases "j = i")
    case False
    with DUpdate step have "DeferredStore_Get i s' = DeferredStore_Get i s"
      by (auto simp: DeferredStore_Update_def Get_cases split: option.splits sum.splits if_splits)
    with still show ?thesis by (simp add: holds_still_def)
  next
    case True
    with DUpdate step still resolved_update [OF makes [unfolded DUpdate] res] show ?thesis
      by (auto simp: DeferredStore_Update_def holds_still_def Get_cases split: option.splits sum.splits if_splits)
  qed
next
  case (DInvalidate j)
  with step still show ?thesis
    by (cases "j = i") (auto simp: DeferredStore_Invalidate_def holds_still_def Get_cases is_invalidated_def
      split: option.splits if_splits)
qed (use makes in \<open>simp add: issuer_makes_def\<close>)

lemma calls_hold_still:
  assumes "deferred_ok s" and "holds_still i r s" and "dr_Status r \<noteq> DeferredPending"
    and "list_all (\<lambda>c. issuer_makes c \<and> (\<forall>now r'. c \<noteq> DCreate now i r')) cs"
  shows "holds_still i r (calls_state deferred_step cs s)"
  using assms
proof (induction cs arbitrary: s)
  case (Cons c cs)
  obtain e s' where step: "deferred_step c s = (e, s')" by (cases "deferred_step c s")
  have "deferred_ok s'" using collect.step_ok [OF Cons.prems(1) step] .
  with Cons step_holds_still [OF Cons.prems(1,2,3) _ _ step] show ?case by (simp add: step)
qed simp

text \<open>These are the calls the operations make.\<close>

lemma operations_make:
  "issuer_makes (DUpdate i (pending_update iss now f))"
  "issuer_makes (DUpdate i (abandon iss))"
  "issuer_makes (DCreate t i (deferred_record_of d iss' now auth configID keys reference))"
  "issuer_makes (DInvalidate i)"
  unfolding issuer_makes_def deferred_call.case
  using pending_update_truncate [of iss now f] abandon_truncate [of iss]
  by (metis, metis, simp add: deferred_record_of_def, simp)

section \<open>Properties\<close>

text \<open>C14: A deferred transaction, once issued or denied, is never changed again: whatever the Issuers sharing the store do,
  it reads as it was resolved, or is gone.\<close>

theorem resolved_is_final:
  assumes "deferred_ok s" and "DeferredStore_Get i s = Inr r" and "dr_Status r \<noteq> DeferredPending"
    and "list_all (\<lambda>c. issuer_makes c \<and> (\<forall>now r'. c \<noteq> DCreate now i r')) cs"
  shows "DeferredStore_Get i (calls_state deferred_step cs s) = Inr r \<or>
    DeferredStore_Get i (calls_state deferred_step cs s) = Inl DeferredTransactionUnknown"
  using calls_hold_still [OF assms(1) _ assms(3,4)] assms(2) by (simp add: holds_still_def)

definition sample_record :: deferred_record where
  "sample_record = \<lparr> dr_Owner = ''i'', dr_ClientID = ''w'', dr_Subject = ''u'', dr_Status = DeferredIssued,
     dr_Credentials = [GStr ''c''], dr_NotificationID = [], dr_CredentialConfigurationID = ''pid'',
     dr_BindingKeys = [''k''], dr_ExpiresAt = 0, dr_KeyAttestations = [], dr_ProofKeyHeaders = [], dr_Reference = [] \<rparr>"

definition sample_deferred :: deferred_store where
  "sample_deferred = \<lparr> ds_records = [(''t'', sample_record)], ds_invalidated = [], ds_prune = \<lparr> pr_at = 0 \<rparr> \<rparr>"

lemma sample_deferred_ok: "deferred_ok sample_deferred" "DeferredStore_Get ''t'' sample_deferred = Inr sample_record"
  by (simp_all add: sample_deferred_def deferred_ok_def is_invalidated_def DeferredStore_Get_def)

theorem resolved_is_final_witness:
  "DeferredStore_Get ''t'' (calls_state deferred_step
      [DUpdate ''t'' (pending_update sample_issuer 0 mark_denied), DUpdate ''t'' (abandon sample_issuer), DInvalidate ''z'']
      sample_deferred) = Inr sample_record \<or>
   DeferredStore_Get ''t'' (calls_state deferred_step
      [DUpdate ''t'' (pending_update sample_issuer 0 mark_denied), DUpdate ''t'' (abandon sample_issuer), DInvalidate ''z'']
      sample_deferred) = Inl DeferredTransactionUnknown"
  by (rule resolved_is_final [OF sample_deferred_ok]) (simp_all add: sample_record_def operations_make)

section \<open>Collecting once\<close>

text \<open>
  Several requests may have read one transaction before any of them invalidates it: a step is a call on the store, or the rest of a
  request that read its record some time before. Credentials handed out are paid for by the transaction being put in the store.
\<close>

datatype deferred_event = StoreCall deferred_call | Answer int deferred_request deferred_record

fun deferred_event_step :: "deferred_event \<Rightarrow> deferred_store \<Rightarrow> deferred_result option \<times> deferred_store" where
  "deferred_event_step (StoreCall c) s = (None, snd (deferred_step c s))"
| "deferred_event_step (Answer interval req r) s =
     (case answer_deferred interval req r s of (Inr res, s') \<Rightarrow> (Some res, s') | (Inl _, s') \<Rightarrow> (None, s'))"

definition handed_out :: "string \<Rightarrow> deferred_event \<Rightarrow> deferred_result option \<Rightarrow> bool" where
  "handed_out i e res =
     (case (e, res) of (Answer interval req r, Some x) \<Rightarrow> df_TransactionID req = i \<and> de_Credentials x \<noteq> [] | _ \<Rightarrow> False)"

text \<open>A call that puts a transaction in the store under \<open>i\<close>.\<close>

fun puts :: "string \<Rightarrow> deferred_event \<Rightarrow> bool" where
  "puts i (StoreCall (DPut now j r)) = (j = i)"
| "puts i (StoreCall (DCreate now j r)) = (j = i)"
| "puts i _ = False"

lemma answer_deferred_cases:
  assumes "answer_deferred interval req r s = (result, s')"
  obtains (collected) "deferred_step (DInvalidate (df_TransactionID req)) s = (None, s')" "dr_Status r = DeferredIssued"
      "result = Inr \<lparr> de_Credentials = dr_Credentials r, de_NotificationID = dr_NotificationID r, de_TransactionID = [], de_Interval = 0 \<rparr>"
    | (failed) e where "deferred_step (DInvalidate (df_TransactionID req)) s = (Some e, s')" "result = Inl (deferredStoreError e)"
    | (nothing) "s' = s" "\<forall>res. result = Inr res \<longrightarrow> de_Credentials res = []"
  using assms by (auto simp: answer_deferred_def split: deferred_status.splits prod.splits option.splits)

interpretation handed: call_budget deferred_event_step deferred_ok "handed_out i" "collectable i" "\<lambda>e. if puts i e then 1 else 0"
proof
  fix s :: deferred_store and e res s'
  assume ok: "deferred_ok s" and step: "deferred_event_step e s = (res, s')"
  have "deferred_ok s' \<and> collectable i s' + (if handed_out i e res then 1 else 0) \<le> collectable i s + (if puts i e then 1 else 0)"
  proof (cases e)
    case (StoreCall c)
    obtain r where run: "deferred_step c s = (r, s')" using step StoreCall by (metis deferred_event_step.simps(1) prod.collapse snd_conv)
    have "deferred_new i c = (if puts i e then 1 else 0)" using StoreCall by (cases c) auto
    moreover have "\<not> handed_out i e res" using StoreCall by (simp add: handed_out_def)
    ultimately show ?thesis using collect.step_ok [OF ok run] collect.step_budget [OF ok run, of i] by auto
  next
    case (Answer interval req r)
    obtain result where run: "answer_deferred interval req r s = (result, s')"
      and res: "res = (case result of Inr x \<Rightarrow> Some x | Inl _ \<Rightarrow> None)"
      using step Answer by (auto split: prod.splits sum.splits)
    from run show ?thesis
    proof (cases rule: answer_deferred_cases)
      case collected
      from collect.step_ok [OF ok collected(1)] collect.step_budget [OF ok collected(1), of i] show ?thesis
        by (auto simp: handed_out_def Answer collects_def res split: option.splits sum.splits if_splits)
    next
      case (failed e)
      from collect.step_ok [OF ok failed(1)] collect.step_budget [OF ok failed(1), of i] failed(2) show ?thesis
        by (simp add: handed_out_def Answer collects_def res)
    next
      case nothing
      with ok show ?thesis by (auto simp: handed_out_def Answer res split: option.splits sum.splits)
    qed
  qed
  then show "deferred_ok s'"
    "collectable i s' + (if handed_out i e res then 1 else 0) \<le> collectable i s + (if puts i e then 1 else 0)" by auto
qed

lemma sum_list_count: "sum_list (map (\<lambda>x. if P x then 1 else 0 :: nat) xs) = length (filter P xs)"
  by (induction xs) auto

text \<open>C7: Deferred credentials go only to the client and the subject of their transaction (a transaction without a client, or
  without a subject, asks for none), with a token that still grants its configuration (where it has one), from the Issuer that created it
  and before it expires (where it does). And then the transaction is gone: whatever is done with the store after that, by requests that had already read the
  transaction too, its credentials are handed out at most once for each time it is put in the store again.\<close>

theorem deferred_collected_bound:
  assumes "RequestDeferredCredential ec iss now auth req s = (Inr res, s')" and "de_Credentials res \<noteq> []" "deferred_ok s"
  shows "\<exists>r. DeferredStore_Get (df_TransactionID req) s = Inr r \<and> dr_Status r = DeferredIssued \<and>
      de_Credentials res = dr_Credentials r \<and> issuer_owns iss (dr_Owner r) \<and>
      (dr_ClientID r \<noteq> [] \<longrightarrow> ClientID auth = dr_ClientID r) \<and> (dr_Subject r \<noteq> [] \<longrightarrow> au_Subject auth = dr_Subject r) \<and>
      (dr_CredentialConfigurationID r \<noteq> [] \<longrightarrow>
         grantsConfiguration iss auth (dr_CredentialConfigurationID r)
           (case gm_get (is_Configurations iss) (dr_CredentialConfigurationID r) of None \<Rightarrow> no_configuration | Some cc \<Rightarrow> cc)) \<and>
      (dr_ExpiresAt r \<noteq> 0 \<longrightarrow> store_time now < dr_ExpiresAt r) \<and>
      DeferredStore_Get (df_TransactionID req) s' = Inl DeferredTransactionUnknown \<and>
      (\<forall>es. grant_count (handed_out (df_TransactionID req)) (call_trace deferred_event_step es s') \<le>
         length (filter (puts (df_TransactionID req)) es))"
proof -
  let ?i = "df_TransactionID req"
  from assms(1) obtain r where r: "DeferredStore_Get ?i s = Inr r" "issuer_owns iss (dr_Owner r)"
      "\<not> deferredExpired now r" "deferredAuthorized iss r auth"
    and answer: "answer_deferred (is_PollInterval iss) req r s = (Inr res, s')"
    by (auto simp: RequestDeferredCredential_def split: option.splits sum.splits if_splits)
  from answer assms(2) have run: "deferred_step (DInvalidate ?i) s = (None, s')" and issued: "dr_Status r = DeferredIssued"
    and res: "de_Credentials res = dr_Credentials r"
    by (auto elim: answer_deferred_cases)
  then have gone: "DeferredStore_Get ?i s' = Inl DeferredTransactionUnknown"
    by (auto simp: DeferredStore_Invalidate_def DeferredStore_Get_def is_invalidated_def split: option.splits if_splits)
  have "collectable ?i s' = 0" using collect.step_budget [OF assms(3) run, of ?i] collectable_le [of ?i s]
    by (simp add: collects_def)
  then have "grant_count (handed_out ?i) (call_trace deferred_event_step es s') \<le> length (filter (puts ?i) es)" for es
    using handed.grants_bounded [OF collect.step_ok [OF assms(3) run], of ?i es] by (simp add: sum_list_count)
  with r gone issued res show ?thesis
    by (auto simp: deferredAuthorized_def isDeferredOwner_def deferredExpired_def)
qed

definition sample_credential_issuer :: credential_issuer where
  "sample_credential_issuer = \<lparr> is_Issuer = ''i'', is_production = True, is_NonceEndpoint = True,
     is_NonceLifetime = 300 * second, is_NonceKeys = [], is_BatchSize = Some 2, is_MaxProofAge = 300 * second,
     is_AuthorizationServers = [],
     is_Configurations = [(''pid'', \<lparr> cc_Format = CredentialFormat, cc_VCT = ''v'', cc_Scope = ''s'',
       cc_ProofTypesSupported = [(''jwt'', \<lparr> pt_Algs = [EdDSA], pt_KeyAttestationsRequired = None \<rparr>)] \<rparr>)],
     is_RequestEncryption = None, is_ResponseEncryption = None, is_NotificationEndpoint = False,
     is_DeferredEndpoint = True, is_NotificationLifetime = 0, is_DeferredLifetime = 1000 * second,
     is_PollInterval = 5 * second \<rparr>"

definition sample_auth :: authorized_request where
  "sample_auth = \<lparr> au_ClientIdentity = Some (KnownClientID ''w''), au_Subject = ''u'', au_Scopes = [''s''],
     au_AuthorizationDetails = [] \<rparr>"

definition sample_poll :: deferred_request where
  "sample_poll = \<lparr> df_TransactionID = ''t'', df_ResponseEncryption = None, df_RequestWasEncrypted = False \<rparr>"

theorem deferred_collected_bound_witness:
  "\<exists>r s'. fst (RequestDeferredCredential no_ec sample_credential_issuer 0 sample_auth sample_poll sample_deferred) =
      Inr \<lparr> de_Credentials = [GStr ''c''], de_NotificationID = [], de_TransactionID = [], de_Interval = 0 \<rparr> \<and>
    DeferredStore_Get ''t'' sample_deferred = Inr r \<and> au_Subject sample_auth = dr_Subject r \<and>
    DeferredStore_Get ''t'' s' = Inl DeferredTransactionUnknown \<and>
    grant_count (handed_out ''t'') (call_trace deferred_event_step [Answer 0 sample_poll r] s') \<le> 0"
proof -
  obtain s' where run: "RequestDeferredCredential no_ec sample_credential_issuer 0 sample_auth sample_poll sample_deferred =
      (Inr \<lparr> de_Credentials = [GStr ''c''], de_NotificationID = [], de_TransactionID = [], de_Interval = 0 \<rparr>, s')"
    by (simp add: RequestDeferredCredential_def answer_deferred_def checkDeferredCredentialRequest_def requireClientIdentityDecision_def
      sample_auth_def sample_poll_def sample_credential_issuer_def sample_deferred_def sample_record_def
      requireRequestEncryption_def requireResponseEncryption_def DeferredStore_Get_def is_invalidated_def
      DeferredStore_Invalidate_def issuer_owns_def storeOwner_def deferredExpired_def deferredAuthorized_def isDeferredOwner_def
      ClientID_def grantsConfiguration_def scope_grants_def)
  have i: "df_TransactionID sample_poll = ''t''" and none: "filter (puts ''t'') [Answer 0 sample_poll r] = []" for r
    by (simp_all add: sample_poll_def)
  from deferred_collected_bound [OF run _ sample_deferred_ok(1)] obtain r where
    r: "DeferredStore_Get ''t'' sample_deferred = Inr r" "dr_Subject r \<noteq> [] \<longrightarrow> au_Subject sample_auth = dr_Subject r"
      "DeferredStore_Get ''t'' s' = Inl DeferredTransactionUnknown"
    and once: "\<forall>es. grant_count (handed_out ''t'') (call_trace deferred_event_step es s') \<le> length (filter (puts ''t'') es)"
    unfolding i by auto
  have "r = sample_record" using r(1) sample_deferred_ok(2) by simp
  then have "dr_Subject r \<noteq> []" by (simp add: sample_record_def)
  moreover have "grant_count (handed_out ''t'') (call_trace deferred_event_step [Answer 0 sample_poll r] s') \<le> 0"
    using once [THEN spec, of "[Answer 0 sample_poll r]"] unfolding none by (simp only: list.size)
  moreover have "fst (RequestDeferredCredential no_ec sample_credential_issuer 0 sample_auth sample_poll sample_deferred) =
      Inr \<lparr> de_Credentials = [GStr ''c''], de_NotificationID = [], de_TransactionID = [], de_Interval = 0 \<rparr>"
    using run by simp
  ultimately show ?thesis using r by blast
qed

end
