(* ===== verification/Issuer_Request.thy ===== *)
theory Issuer_Request
  imports Issuer_Deferral
begin

text \<open>
  The Credential Endpoint: \<open>requestCredential\<close> of \<open>src/issuer/credential_endpoint.go\<close>, over the stores in memory, and the
  Notification Endpoint of \<open>notification_endpoint.go\<close>. What a deployment decides after the proofs are verified, the claims
  to issue or a deferral, is the function \<open>prepare\<close>.
\<close>

section \<open>A Credential Request\<close>

definition with_nonces :: "nonce_store \<Rightarrow> issuer_state \<Rightarrow> issuer_state" where
  "with_nonces s st = st \<lparr> st_nonces := s \<rparr>"

definition run_prepare ::
  "('p credential_request \<Rightarrow> string + 'p credential_request) option \<Rightarrow> ('b) credential_issuer_scheme \<Rightarrow> authorized_request
     \<Rightarrow> string \<Rightarrow> 'p credential_request \<Rightarrow> cred_error + 'p credential_request" where
  "run_prepare prepare iss auth configID req =
     (case prepare of
        None \<Rightarrow> Inr req
      | Some f \<Rightarrow>
          rbind (wrap_err (\<lambda>e. IssuerFails (PrepareFails e))
              (f (req \<lparr> cq_ResolvedConfigurationID := configID, cq_AuthorizedClaims := authorizedClaims iss auth req configID \<rparr>)))
            (\<lambda>req. case (if cq_Defer req \<noteq> None then requireDeferral iss auth else None) of
               Some e \<Rightarrow> Inl e
             | None \<Rightarrow> Inr req))"

text \<open>The checks before any proof is looked at: the configuration, and the proofs with their type's configuration.\<close>

definition check_request ::
  "'p ec \<Rightarrow> ('b) credential_issuer_scheme \<Rightarrow> authorized_request \<Rightarrow> 'p credential_request
     \<Rightarrow> cred_error + string \<times> credential_configuration \<times> string \<times> string list \<times> proof_type_config" where
  "check_request ec iss auth req =
     (case and_then (requireClientIdentityDecision auth)
         (and_then (requireRequestEncryption iss (cq_RequestWasEncrypted req) (cq_ResponseEncryption req \<noteq> None))
           (requireResponseEncryption ec iss (cq_ResponseEncryption req))) of
        Some e \<Rightarrow> Inl e
      | None \<Rightarrow>
          rbind (resolveCredentialConfiguration iss auth req) (\<lambda>(configID, cc).
            case (if cq_Defer req \<noteq> None then requireDeferral iss auth else None) of
              Some e \<Rightarrow> Inl e
            | None \<Rightarrow>
                rbind (singleProofType (cq_Proofs req) cc) (\<lambda>(proofType, values).
                  case checkBatchSize iss values of
                    Some e \<Rightarrow> Inl e
                  | None \<Rightarrow>
                      (case gm_get (cc_ProofTypesSupported cc) proofType of
                         None \<Rightarrow> Inl (CredRefused ProofTypeNotConfigured)
                       | Some ptc \<Rightarrow> Inr (configID, cc, proofType, values, ptc)))))"

definition requestCredential ::
  "mac \<Rightarrow> ('p, 'a) issuer_deps_scheme \<Rightarrow> ('b) credential_issuer_scheme \<Rightarrow> int \<Rightarrow> int \<Rightarrow> authorized_request
     \<Rightarrow> ('p credential_request \<Rightarrow> string + 'p credential_request) option \<Rightarrow> 'p credential_request \<Rightarrow> issuer_state
     \<Rightarrow> (cred_error + credential_response) \<times> issuer_state" where
  "requestCredential hmac d iss sclock now auth prepare req st =
     (case check_request (pd_ec d) iss auth req of
        Inl e \<Rightarrow> (Inl e, st)
      | Inr (configID, cc, proofType, values, ptc) \<Rightarrow>
          (case resolveProofKeys hmac (proof_deps.truncate d) iss mem_nonce_ops sclock now (ClientID auth) proofType values ptc
              (st_nonces st) of
             (Inl e, s') \<Rightarrow> (Inl (ProofFails e), with_nonces s' st)
           | (Inr keys, s') \<Rightarrow>
               (let st = with_nonces s' st in
                case run_prepare prepare iss auth configID req of
                  Inl e \<Rightarrow> (Inl e, st)
                | Inr req \<Rightarrow>
                    (case cq_Defer req of
                       Some reference \<Rightarrow> startDeferral d iss now auth configID keys reference st
                     | None \<Rightarrow>
                         (case issueBatch d iss cc (cq_content req) keys st of
                            Inl e \<Rightarrow> (Inl e, st)
                          | Inr (credentials, st) \<Rightarrow>
                              (case notify iss now auth st of
                                 (Inl e, st) \<Rightarrow> (Inl e, st)
                               | (Inr notificationID, st) \<Rightarrow>
                                   (Inr \<lparr> rs_Credentials = credentials, rs_NotificationID = notificationID,
                                      rs_TransactionID = [], rs_Interval = 0 \<rparr>, st)))))))"

definition credentialResponseStatus :: "credential_response \<Rightarrow> nat" where
  "credentialResponseStatus r = (if rs_TransactionID r \<noteq> [] then 202 else 200)"

section \<open>Notifications\<close>

datatype notification_error =
    NotifyNotConfigured
  | NotifyClientIdentity
  | NotificationIDRequired
  | NotificationEvent
  | EventDescription
  | NotificationUnknown
  | HandlerFails string

definition validateEventDescription :: "nat list \<Rightarrow> bool" where
  "validateEventDescription runes = list_all (\<lambda>r. \<not> (r < 32 \<or> r > 126 \<or> r = 34 \<or> r = 92)) runes"

definition notification_events :: "string list" where
  "notification_events = [''credential_accepted'', ''credential_deleted'', ''credential_failure'']"

text \<open>\<open>handle\<close> is the deployment's handler, where it has one; the description is given as its runes.\<close>

definition RequestNotification ::
  "('b) nonce_issuer_scheme \<Rightarrow> int \<Rightarrow> authorized_request \<Rightarrow> (string \<Rightarrow> string \<Rightarrow> nat list \<Rightarrow> string option) option
     \<Rightarrow> string \<Rightarrow> string \<Rightarrow> nat list \<Rightarrow> notification_store \<Rightarrow> notification_error option" where
  "RequestNotification iss now auth handle i event description s =
     (if au_ClientIdentity auth = None then Some NotifyClientIdentity
      else if i = [] then Some NotificationIDRequired
      else if event \<notin> set notification_events then Some NotificationEvent
      else if \<not> validateEventDescription description then Some EventDescription
      else (case NotificationStore_Get i s of
          None \<Rightarrow> Some NotificationUnknown
        | Some r \<Rightarrow>
            (if \<not> issuer_owns iss (no_Owner r) then Some NotificationUnknown
             else if no_ExpiresAt r \<noteq> 0 \<and> \<not> store_time now < no_ExpiresAt r then Some NotificationUnknown
             else if no_ClientID r \<noteq> [] \<and> ClientID auth \<noteq> no_ClientID r \<or>
               no_Subject r \<noteq> [] \<and> au_Subject auth \<noteq> no_Subject r then Some NotificationUnknown
             else (case handle of
                 None \<Rightarrow> None
               | Some f \<Rightarrow> map_option HandlerFails (f i event description)))))"

section \<open>What a response rests on\<close>

lemma check_request_ok:
  assumes "check_request ec iss auth req = Inr (configID, cc, proofType, vs, ptc)"
  shows "config_granted iss auth req configID cc" "gm_get (cc_ProofTypesSupported cc) proofType = Some ptc"
    "vs \<noteq> []" "cq_Proofs req = [(proofType, vs)]" "int (length vs) \<le> maxBatchSize iss" "au_ClientIdentity auth \<noteq> None"
proof -
  from assms have identity: "requireClientIdentityDecision auth = None"
    and cc: "resolveCredentialConfiguration iss auth req = Inr (configID, cc)"
    and single: "singleProofType (cq_Proofs req) cc = Inr (proofType, vs)"
    and size: "checkBatchSize iss vs = None" and ptc: "gm_get (cc_ProofTypesSupported cc) proofType = Some ptc"
    by (auto simp: check_request_def ok_iffs split: option.splits)
  show "config_granted iss auth req configID cc" by (rule resolveCredentialConfiguration_ok [OF cc])
  show "gm_get (cc_ProofTypesSupported cc) proofType = Some ptc" by (rule ptc)
  show "vs \<noteq> []" "cq_Proofs req = [(proofType, vs)]"
    using single by (auto simp: singleProofType_def split: if_splits list.splits)
  show "int (length vs) \<le> maxBatchSize iss" using size by (simp add: checkBatchSize_def)
  show "au_ClientIdentity auth \<noteq> None" using identity by (simp add: requireClientIdentityDecision_def)
qed

lemma IssueNotificationID_state:
  "IssueNotificationID iss now auth st = (r, st') \<Longrightarrow> st_nonces st' = st_nonces st \<and> st_deferred st' = st_deferred st"
  by (auto simp: IssueNotificationID_def Let_def split: option.splits sum.splits prod.splits)

lemma notify_state:
  "notify iss now auth st = (r, st') \<Longrightarrow> st_nonces st' = st_nonces st \<and> st_deferred st' = st_deferred st"
  by (auto simp: notify_def dest: IssueNotificationID_state split: if_splits)

lemma startDeferral_state:
  "startDeferral d iss now auth i keys reference st = (r, st') \<Longrightarrow> st_nonces st' = st_nonces st"
  by (auto simp: startDeferral_def Let_def split: option.splits prod.splits sum.splits)

text \<open>The keys a response is for.\<close>

definition proved_keys ::
  "mac \<Rightarrow> ('p, 'a) issuer_deps_scheme \<Rightarrow> ('b) credential_issuer_scheme \<Rightarrow> int \<Rightarrow> int \<Rightarrow> authorized_request
     \<Rightarrow> proof_type_config \<Rightarrow> string list \<Rightarrow> nonce_store \<Rightarrow> nonce_store \<Rightarrow> 'p resolved_key list \<Rightarrow> bool" where
  "proved_keys hmac d iss sclock now auth ptc values s s' keys =
     (\<exists>n. list_all (vouched (proof_deps.truncate d) iss now (ClientID auth) ptc values n) keys \<and>
        distinct (map rk_Public keys) \<and> int (length keys) \<le> maxBatchSize iss \<and>
        (if is_NonceEndpoint iss then n \<noteq> [] \<and> consumeNonce hmac iss mem_nonce_ops sclock now n s = (None, s') else s' = s))"

lemma requestCredential_ok:
  assumes "requestCredential hmac d iss sclock now auth prepare req st = (Inr resp, st')"
  shows "\<exists>configID cc proofType vs ptc keys. config_granted iss auth req configID cc \<and> cq_Proofs req = [(proofType, vs)] \<and>
    gm_get (cc_ProofTypesSupported cc) proofType = Some ptc \<and>
    proved_keys hmac d iss sclock now auth ptc vs (st_nonces st) (st_nonces st') keys \<and>
    (if rs_TransactionID resp = [] then batch_for d iss cc keys (rs_Credentials resp)
     else rs_Credentials resp = [] \<and>
       (\<exists>reference. DeferredStore_Get (rs_TransactionID resp) (st_deferred st') =
          Inr (deferred_record_of d iss now auth configID keys reference)))"
proof -
  from assms obtain configID cc proofType vs ptc keys s1 where
    check: "check_request (pd_ec d) iss auth req = Inr (configID, cc, proofType, vs, ptc)"
    and keys: "resolveProofKeys hmac (proof_deps.truncate d) iss mem_nonce_ops sclock now (ClientID auth) proofType vs ptc
        (st_nonces st) = (Inr keys, s1)"
    by (auto simp: requestCredential_def split: sum.splits prod.splits)
  note c = check_request_ok [OF check]
  have proved: "proved_keys hmac d iss sclock now auth ptc vs (st_nonces st) s1 keys"
    using resolved_keys [OF keys c(3)] unfolding proved_keys_def list_all_iff by blast
  let ?st = "with_nonces s1 st"
  from assms check keys obtain req' where "run_prepare prepare iss auth configID req = Inr req'"
    and rest: "(case cq_Defer req' of
         Some reference \<Rightarrow> startDeferral d iss now auth configID keys reference ?st
       | None \<Rightarrow>
           (case issueBatch d iss cc (cq_content req') keys ?st of
              Inl e \<Rightarrow> (Inl e, ?st)
            | Inr (credentials, st2) \<Rightarrow>
                (case notify iss now auth st2 of
                   (Inl e, st) \<Rightarrow> (Inl e, st)
                 | (Inr notificationID, st) \<Rightarrow>
                     (Inr \<lparr> rs_Credentials = credentials, rs_NotificationID = notificationID,
                        rs_TransactionID = [], rs_Interval = 0 \<rparr>, st)))) = (Inr resp, st')"
    by (auto simp: requestCredential_def Let_def split: sum.splits prod.splits)
  have "st_nonces st' = s1 \<and>
    (if rs_TransactionID resp = [] then batch_for d iss cc keys (rs_Credentials resp)
     else rs_Credentials resp = [] \<and>
       (\<exists>reference. DeferredStore_Get (rs_TransactionID resp) (st_deferred st') =
          Inr (deferred_record_of d iss now auth configID keys reference)))"
  proof (cases "cq_Defer req'")
    case None
    with rest obtain credentials st2 notificationID where
      issue: "issueBatch d iss cc (cq_content req') keys ?st = Inr (credentials, st2)"
      and n: "notify iss now auth st2 = (Inr notificationID, st')"
      and resp: "resp = \<lparr> rs_Credentials = credentials, rs_NotificationID = notificationID, rs_TransactionID = [], rs_Interval = 0 \<rparr>"
      by (auto split: sum.splits prod.splits)
    with issueBatch_ok [OF issue] only_issued_stores [OF issueBatch_ok(1) [OF issue]] notify_state [OF n]
    show ?thesis by (simp add: with_nonces_def)
  next
    case (Some reference)
    with rest have start: "startDeferral d iss now auth configID keys reference ?st = (Inr resp, st')" by simp
    then obtain i rest' s' where create: "DeferredStore_Create (store_time now) i
        (deferred_record_of d iss now auth configID keys reference) (st_deferred ?st) = (None, s')"
      and resp: "rs_TransactionID resp = i" "rs_Credentials resp = []" "st_deferred st' = s'"
      by (auto simp: startDeferral_def Let_def split: option.splits prod.splits sum.splits)
    from create have "i \<noteq> []" "DeferredStore_Get i s' = Inr (deferred_record_of d iss now auth configID keys reference)"
      by (auto simp: DeferredStore_Create_def DeferredStore_Get_def is_invalidated_def Let_def split: if_splits)
    with resp startDeferral_state [OF start] show ?thesis by (auto simp: with_nonces_def)
  qed
  with c proved show ?thesis by blast
qed

section \<open>A request by example\<close>

text \<open>An Ed25519 key proved in one \<open>jwt\<close> proof, for a configuration granted by scope.\<close>

definition request_crypto :: "unit crypto" where
  "request_crypto = sample_crypto \<lparr> cr_json := (\<lambda>raw.
     if raw = [1] then Some [(''typ'', GStr jwtProofTyp), (''alg'', GStr EdDSA), (''jwk'', wallet_jwk)]
     else Some [(''aud'', GStr ''i''), (''iat'', GFloat (Finite 100)), (''nonce'', GStr ''n'')]) \<rparr>"

definition request_deps :: "unit issuer_deps" where
  "request_deps = \<lparr> pd_crypto = request_crypto, pd_ec = no_ec, pd_ProofBindingKeys = None, pd_AttestationVerifier = None,
     pd_AttestationStatus = None, id_Signer = sample_signer, id_Alg = EdDSA, id_KeyID = [], id_hash = issue_hash,
     id_sd_marshal = (\<lambda>_. None), id_json = (\<lambda>_. ''j''), id_parse = (\<lambda>_. Some wallet_jwk), id_Decoys = False,
     id_NestedDecoys = False \<rparr>"

definition request_state :: issuer_state where
  "request_state = \<lparr> st_nonces = \<lparr> ns_issued = [(''n'', \<lparr> nr_Owner = ''i'', nr_ExpiresAt = store_time (200 * second) \<rparr>)],
       ns_prune = \<lparr> pr_at = 0 \<rparr> \<rparr>, st_deferred = sample_deferred,
     st_notifications = \<lparr> nt_records = [], nt_prune = \<lparr> pr_at = 0 \<rparr> \<rparr>, st_random = replicate 32 1, st_decoys = [],
     st_sealing = \<lparr> sg_salts = [], sg_counts = [] \<rparr>, st_deferred_kept = False, st_notification_kept = False \<rparr>"

definition sample_claims :: claims where
  "sample_claims = \<lparr> cl_VCT = ''v'', cl_AkaVCTs = None, cl_Iss = [], cl_Nbf = None, cl_Exp = Some 1000, cl_VCTIntegrity = [],
     cl_Status = None, cl_CNF = None, cl_Additional = [] \<rparr>"

definition sample_request :: "string option \<Rightarrow> unit credential_request" where
  "sample_request later = \<lparr> cq_CredentialConfigurationID = ''pid'', cq_CredentialIdentifier = [], cq_ResolvedConfigurationID = [],
     cq_AuthorizedClaims = [], cq_Proofs = [(''jwt'', [''AQ.Ag.AQ''])],
     cq_content = \<lparr> ct_SDJWTClaims = Some sample_claims, ct_PerCredential = None, ct_PerBatch = None \<rparr>,
     cq_Defer = later, cq_ResponseEncryption = None, cq_RequestWasEncrypted = False \<rparr>"

definition sample_run :: "string option \<Rightarrow> (cred_error + credential_response) \<times> issuer_state" where
  "sample_run later = requestCredential sample_mac request_deps sample_credential_issuer 0 (100 * second) sample_auth None
     (sample_request later) request_state"

definition sample_header :: "(string \<times> goval) list" where
  "sample_header = [(''typ'', GStr jwtProofTyp), (''alg'', GStr EdDSA), (''jwk'', wallet_jwk)]"

definition sample_key :: "unit resolved_key" where
  "sample_key = \<lparr> rk_Public = EdKey wallet_key, rk_JWK = \<lparr> jk_Kty = ''OKP'', jk_Crv = ''Ed25519'', jk_X = EncodeToString wallet_key,
     jk_Y = [], jk_D = [] \<rparr>, rk_KeyAttestation = [], rk_ProofKeyHeader = None \<rparr>"

lemma sample_split: "jose_split ''AQ.Ag.AQ'' = Inr (''AQ'', ''Ag'', ''AQ'')" "DecodeString ''AQ'' = Inr [1]" "DecodeString ''Ag'' = Inr [2]"
  by code_simp+

lemma sample_decoded:
  "DecodeUnverified request_crypto ''AQ.Ag.AQ'' = Inr (sample_header, [2])"
  "Verify request_crypto EdDSA (EdKey wallet_key) ''AQ.Ag.AQ'' = Inr (sample_header, [2])"
  by (simp_all add: DecodeUnverified_def DecodeUnverifiedMax_def Verify_def VerifyMax_def MaxCompactBytes_def sample_split
    jose_header_def request_crypto_def sample_header_def str_member_def verifyBytes_def wallet_key_fine sample_crypto_def
    EdDSA_def ES256_def)

lemma sample_binding:
  "resolveProofBindingKey (proof_deps.truncate request_deps) now sample_header = Inr (EdKey wallet_key, EdDSA, rk_JWK sample_key)"
  by (simp add: resolveProofBindingKey_def resolveProofKey_def has_def sample_header_def proof_deps.truncate_def request_deps_def
    wallet_jwk_def ParsePublicKey_def checkStructCase_def jwk_fields_def jwk_PublicKey_def wallet_key_fine str_member_def
    jwk_Marshal_def sample_key_def)

abbreviation "sample_deps \<equiv> proof_deps.truncate request_deps"

definition sample_ptc :: proof_type_config where
  "sample_ptc = \<lparr> pt_Algs = [EdDSA], pt_KeyAttestationsRequired = None \<rparr>"

lemma sample_pd [simp]: "pd_crypto sample_deps = request_crypto" "pd_AttestationVerifier sample_deps = None"
  by (simp_all add: proof_deps.truncate_def request_deps_def)

lemma sample_header_members [simp]:
  "str_member sample_header ''alg'' = EdDSA" "str_member sample_header ''typ'' = jwtProofTyp"
  "gm_get sample_header ''key_attestation'' = None" "proofKeyHeader sample_header = None"
  by (simp_all add: sample_header_def str_member_def proofKeyHeader_def has_def)

lemma sample_body_json: "cr_json request_crypto [2] =
    Some [(''aud'', GStr ''i''), (''iat'', GFloat (Finite 100)), (''nonce'', GStr ''n'')]"
  by (simp add: request_crypto_def)

lemma sample_body_members:
  "unmarshal_body [(''aud'', GStr ''i''), (''iat'', GFloat (Finite 100)), (''nonce'', GStr ''n'')] =
     Some ([], ''i'', Some (Finite 100), ''n'')"
  by (simp add: unmarshal_body_def checkStructCase_def body_fields_def)

lemma sample_proof:
  "verifyJWTProof sample_deps sample_credential_issuer (100 * second) ''w'' ''AQ.Ag.AQ'' 0 sample_ptc =
     Inr (EdKey wallet_key, rk_JWK sample_key, ''n'')"
proof -
  have "TypeIs jwtProofTyp jwtProofTyp" by code_simp
  moreover have "verifyJWTProofBody sample_deps sample_credential_issuer (100 * second) ''w'' ''AQ.Ag.AQ'' EdDSA (EdKey wallet_key)
      (rk_JWK sample_key) 0 = Inr (EdKey wallet_key, rk_JWK sample_key, ''n'')"
    by (simp add: verifyJWTProofBody_def sample_decoded sample_body_json sample_body_members is_zero_def float_unix_def
      checkProofAge_def sample_credential_issuer_def MaxDate_def)
  ultimately show ?thesis
    by (simp add: verifyJWTProof_def sample_decoded sample_ptc_def sample_binding)
qed

definition spent_nonces :: nonce_store where
  "spent_nonces = \<lparr> ns_issued = [], ns_prune = \<lparr> pr_at = 0 \<rparr> \<rparr>"

lemma sample_nonce_consumed:
  "consumeNonce sample_mac sample_credential_issuer mem_nonce_ops 0 (100 * second) ''n'' (st_nonces request_state) = (None, spent_nonces)"
  by (simp add: consumeNonce_def isStatelessNonce_def statelessNoncePrefix_def mem_nonce_ops_def NonceStore_Consume_def
    request_state_def sample_credential_issuer_def storeOwner_def issuer_owns_def spent_nonces_def)
    (simp add: store_time_def second_def)

lemma sample_keys:
  "resolveProofKeys sample_mac sample_deps sample_credential_issuer mem_nonce_ops 0 (100 * second) ''w'' ''jwt'' [''AQ.Ag.AQ'']
     sample_ptc (st_nonces request_state) = (Inr [sample_key], spent_nonces)"
proof -
  have "checkProofNonce sample_mac sample_credential_issuer mem_nonce_ops 0 (100 * second) 0 ''n'' ([], st_nonces request_state) =
      (None, ''n'', spent_nonces)"
    using sample_nonce_consumed by (simp add: checkProofNonce_def) (simp add: sample_credential_issuer_def)
  moreover have "proof_keys sample_deps sample_credential_issuer (100 * second) ''AQ.Ag.AQ'' (EdKey wallet_key) (rk_JWK sample_key)
      ''n'' 0 sample_ptc [] = Inr [sample_key]"
    by (simp add: proof_keys_def proofHeader_def sample_decoded keyAttestationHeader_def sample_ptc_def sample_key_def)
  moreover have "maxBatchSize sample_credential_issuer = 2" by (simp add: maxBatchSize_def sample_credential_issuer_def)
  moreover have "checkDistinctKeys [sample_key] = None" by (simp add: checkDistinctKeys_def)
  ultimately show ?thesis by (simp add: resolveProofKeys_def sample_proof)
qed

lemma sample_check:
  "check_request no_ec sample_credential_issuer sample_auth (sample_request later) =
     Inr (''pid'', \<lparr> cc_Format = CredentialFormat, cc_VCT = ''v'', cc_Scope = ''s'',
       cc_ProofTypesSupported = [(''jwt'', sample_ptc)] \<rparr>, ''jwt'', [''AQ.Ag.AQ''], sample_ptc)"
  by (simp add: check_request_def requireClientIdentityDecision_def requireRequestEncryption_def requireResponseEncryption_def
    resolveCredentialConfiguration_def authorizeCredentialConfigurationID_def scope_grants_def singleProofType_def checkBatchSize_def
    maxBatchSize_def requireDeferral_def sample_request_def sample_credential_issuer_def sample_auth_def sample_ptc_def)

lemma wallet_cnf: "\<not> hasDisclosureDigest (jwk_json (rk_JWK sample_key))" "signer_options request_deps 0 = \<lparr> io_HashAlg = [], io_Decoys = 0,
    io_NestedDecoys = False, io_KeyID = [] \<rparr>"
  by (simp_all add: sample_key_def jwk_json_def omit_empty_def signer_options_def request_deps_def)

lemma sample_signed:
  "Issue request_crypto issue_hash (\<lambda>_. None) sample_signer EdDSA (bind_claims sample_credential_issuer (rk_JWK sample_key) sample_claims)
     (signer_options request_deps 0) (st_sealing request_state) = Inr ((''AA.AA.AQ~'', []), st_sealing request_state)"
proof -
  let ?cl = "bind_claims sample_credential_issuer (rk_JWK sample_key) sample_claims"
  have "checkIssueInputs ?cl (signer_options request_deps 0) = None" by code_simp
  moreover have "\<exists>P. issue_payload (issue_sealer issue_hash (\<lambda>_. None) (signer_options request_deps 0)) ?cl
      (io_Decoys (signer_options request_deps 0)) (st_sealing request_state) = Inr ((P, []), st_sealing request_state)"
    by (simp add: issue_payload_def sealObject_def finish_object_def Sdjwt_Seal.decoy_count_def signer_options_def bind_claims_def
      sample_claims_def applyPlaintextClaims_def plaintext_claims_def wallet_cnf Let_def)
  moreover have "Sign request_crypto EdDSA sample_signer (issuerJWTHeader (signer_options request_deps 0)) [0] = Inr ''AA.AA.AQ''" by code_simp
  moreover have "cr_marshal request_crypto m = Some [0]" for m by (simp add: request_crypto_def sample_crypto_def)
  moreover have "SDJWT \<lparr> pn_IssuerJWT = ''AA.AA.AQ'', pn_Disclosures = [], pn_KeyBindingJWT = [] \<rparr> = ''AA.AA.AQ~''" by code_simp
  ultimately show ?thesis by (auto simp: Issue_def MaxCompactBytes_def MaxBytes_def)
qed

text \<open>The request runs to its credential, and deferred to its transaction.\<close>

lemma sample_issued:
  "fst (sample_run None) = Inr \<lparr> rs_Credentials = [''AA.AA.AQ~''], rs_NotificationID = [], rs_TransactionID = [], rs_Interval = 0 \<rparr>"
proof -
  have w: "ClientID sample_auth = ''w''" "pd_ec request_deps = no_ec" by (simp_all add: ClientID_def sample_auth_def request_deps_def)
  have content: "cq_content (sample_request None) = \<lparr> ct_SDJWTClaims = Some sample_claims, ct_PerCredential = None, ct_PerBatch = None \<rparr>"
    "cq_Defer (sample_request None) = None" by (simp_all add: sample_request_def)
  have "issueSDJWT request_deps sample_credential_issuer sample_claims (rk_JWK sample_key) (with_nonces spent_nonces request_state) =
      Inr (''AA.AA.AQ~'', with_nonces spent_nonces request_state)"
    using sample_signed unfolding issueSDJWT_def
    by (simp add: draw_decoys_def request_deps_def with_nonces_def request_state_def)
  then have "issueBatch request_deps sample_credential_issuer \<lparr> cc_Format = CredentialFormat, cc_VCT = ''v'', cc_Scope = ''s'',
       cc_ProofTypesSupported = [(''jwt'', sample_ptc)] \<rparr> (cq_content (sample_request None)) [sample_key]
       (with_nonces spent_nonces request_state) = Inr ([''AA.AA.AQ~''], with_nonces spent_nonces request_state)"
    unfolding content
    by (simp add: issueBatch_def newCredentialInstance_def per_batch_def statusRef_def sample_claims_def
      checkInstanceType_def checkStatusClaim_def)
  then show ?thesis
    by (simp add: sample_run_def requestCredential_def sample_check sample_keys run_prepare_def notify_def w content)
      (simp add: sample_credential_issuer_def)
qed

section \<open>Properties\<close>

text \<open>C1: Credentials are issued only for a configuration the access token grants, in the way the request names it; each is
  bound to a key of its own, no two alike and no more than a batch allows, that signed a proof for this Issuer or is listed
  in an attestation it trusts; the proofs carry the one nonce the request consumed, where the Issuer hands nonces out; and no
  two credentials carry one status reference. A deferred request keeps the same keys.\<close>

theorem credentials_for_proved_keys:
  assumes "requestCredential hmac d iss sclock now auth prepare req st = (Inr resp, st')"
  shows "\<exists>configID cc proofType vs ptc keys. config_granted iss auth req configID cc \<and> cq_Proofs req = [(proofType, vs)] \<and>
    gm_get (cc_ProofTypesSupported cc) proofType = Some ptc \<and>
    proved_keys hmac d iss sclock now auth ptc vs (st_nonces st) (st_nonces st') keys \<and>
    (if rs_TransactionID resp = [] then batch_for d iss cc keys (rs_Credentials resp)
     else rs_Credentials resp = [] \<and>
       (\<exists>reference. DeferredStore_Get (rs_TransactionID resp) (st_deferred st') =
          Inr (deferred_record_of d iss now auth configID keys reference)))"
  using assms by (rule requestCredential_ok)

theorem credentials_for_proved_keys_witness:
  "\<exists>cc ptc keys st'. sample_run None = (Inr \<lparr> rs_Credentials = [''AA.AA.AQ~''], rs_NotificationID = [], rs_TransactionID = [],
      rs_Interval = 0 \<rparr>, st') \<and>
    proved_keys sample_mac request_deps sample_credential_issuer 0 (100 * second) sample_auth ptc [''AQ.Ag.AQ'']
      (st_nonces request_state) (st_nonces st') keys \<and>
    batch_for request_deps sample_credential_issuer cc keys [''AA.AA.AQ~'']"
proof -
  obtain st' where run: "sample_run None = (Inr \<lparr> rs_Credentials = [''AA.AA.AQ~''], rs_NotificationID = [],
      rs_TransactionID = [], rs_Interval = 0 \<rparr>, st')"
    using sample_issued by (cases "sample_run None") simp
  from credentials_for_proved_keys [OF run [unfolded sample_run_def]] run show ?thesis
    by (auto simp: sample_request_def)
qed

end
