(* ===== verification/Issuer_Codes.thy ===== *)
theory Issuer_Codes
  imports Issuer_Batch Go_Text
begin

text \<open>
  Credential Offers and the pre-authorized codes they carry: \<open>credential_offer.go\<close>, \<open>credential_offer_endpoint.go\<close>,
  \<open>pre_authorized_offer.go\<close>, \<open>pre_authorized_code_key.go\<close> and \<open>pre_authorized_code_endpoint.go\<close> of \<open>src/issuer\<close>, with
  \<open>src/credential_offer.go\<close>. An Issuer makes an offer and stores its code's record; a Token Request redeems the code for
  an access token. The store is any \<open>PreAuthorizedCodeStore\<close>: \<open>code_ops\<close>, with the contract the interface documents as
  the locale \<open>code_store\<close>, which the store in memory keeps. SHA-256, HMAC, \<open>net/url\<close>, the JSON encoding of an offer and
  the access tokens are parameters. A clock read is an argument, in nanoseconds since 1970.
\<close>

section \<open>The keys of the store\<close>

definition preAuthorizedCodeKey :: "(nat list \<Rightarrow> nat list) \<Rightarrow> string \<Rightarrow> string \<Rightarrow> string" where
  "preAuthorizedCodeKey sha256 owner code = EncodeToString (sha256 (bytes_of (len_parts [owner, code])))"

definition txCodeHash :: "mac \<Rightarrow> string \<Rightarrow> string \<Rightarrow> string" where
  "txCodeHash hmac code txCode = (if txCode = [] then [] else EncodeToString (hmac (bytes_of code) (bytes_of txCode)))"

section \<open>Credential Offers\<close>

record tx_code =
  txc_InputMode :: string
  txc_Length :: int
  txc_Description :: string

record grant_authorization_code =
  gac_IssuerState :: string
  gac_AuthorizationServer :: string

record grant_pre_authorized_code =
  gpc_PreAuthorizedCode :: string
  gpc_TxCode :: "tx_code option"
  gpc_AuthorizationServer :: string

record grants =
  gr_AuthorizationCode :: "grant_authorization_code option"
  gr_PreAuthorizedCode :: "grant_pre_authorized_code option"

record credential_offer =
  cof_CredentialIssuer :: string
  cof_CredentialConfigurationIDs :: "string list"
  cof_Grants :: "grants option"

datatype tx_code_error = TxInputMode | TxLengthNegative | TxDescriptionLong

datatype offer_error =
    OfferNoIssuer
  | OfferIssuerURL
  | OfferNoConfigurations
  | OfferDuplicate string
  | OfferNoCode
  | OfferTxCode tx_code_error
  | OfferUnknown string
  | OfferNoGrant
  | OfferServerSet
  | OfferServerUnknown string

definition TxCodeInputModeNumeric :: string where "TxCodeInputModeNumeric = ''numeric''"
definition TxCodeInputModeText :: string where "TxCodeInputModeText = ''text''"
definition maxTxCodeDescriptionLength :: nat where "maxTxCodeDescriptionLength = 300"

text \<open>\<open>utf8.RuneCountInString\<close>.\<close>

definition rune_count :: "string \<Rightarrow> nat" where
  "rune_count s = length (runes_of (bytes_of s))"

definition TxCode_Validate :: "tx_code \<Rightarrow> tx_code_error option" where
  "TxCode_Validate t =
     (if txc_InputMode t \<notin> {[], TxCodeInputModeNumeric, TxCodeInputModeText} then Some TxInputMode
      else if txc_Length t < 0 then Some TxLengthNegative
      else if rune_count (txc_Description t) > maxTxCodeDescriptionLength then Some TxDescriptionLong
      else None)"

definition GrantPreAuthorizedCode_Validate :: "grant_pre_authorized_code \<Rightarrow> offer_error option" where
  "GrantPreAuthorizedCode_Validate g =
     (if gpc_PreAuthorizedCode g = [] then Some OfferNoCode
      else (case gpc_TxCode g of None \<Rightarrow> None | Some t \<Rightarrow> map_option OfferTxCode (TxCode_Validate t)))"

definition Grants_Validate :: "grants \<Rightarrow> offer_error option" where
  "Grants_Validate g = (case gr_PreAuthorizedCode g of None \<Rightarrow> None | Some c \<Rightarrow> GrantPreAuthorizedCode_Validate c)"

fun first_repeated :: "string list \<Rightarrow> string list \<Rightarrow> string option" where
  "first_repeated seen [] = None"
| "first_repeated seen (i # ids) = (if i \<in> set seen then Some i else first_repeated (i # seen) ids)"

text \<open>\<open>issuer_url\<close> is what \<open>url.Parse\<close> says: an absolute URL without query or fragment.\<close>

definition CredentialOffer_Validate :: "(string \<Rightarrow> bool) \<Rightarrow> credential_offer \<Rightarrow> offer_error option" where
  "CredentialOffer_Validate issuer_url offer =
     (if cof_CredentialIssuer offer = [] then Some OfferNoIssuer
      else if \<not> issuer_url (cof_CredentialIssuer offer) \<or> CHR ''#'' \<in> set (cof_CredentialIssuer offer) then Some OfferIssuerURL
      else if cof_CredentialConfigurationIDs offer = [] then Some OfferNoConfigurations
      else (case first_repeated [] (cof_CredentialConfigurationIDs offer) of
          Some i \<Rightarrow> Some (OfferDuplicate i)
        | None \<Rightarrow> (case cof_Grants offer of None \<Rightarrow> None | Some g \<Rightarrow> Grants_Validate g)))"

definition checkGrantAuthorizationServer :: "string \<Rightarrow> string list \<Rightarrow> offer_error option" where
  "checkGrantAuthorizationServer v servers =
     (if v = [] then None
      else if length servers < 2 then Some OfferServerSet
      else if v \<in> set servers then None
      else Some (OfferServerUnknown v))"

datatype code_authentication = AnonymousPreAuthorizedCode | VerifiedPreAuthorizedCode

record code_issuer = credential_issuer +
  is_CodeAuthentication :: "code_authentication option"
  is_MaxTxCodeAttempts :: int
  is_AccessTokenLifetime :: int
  is_OfferEndpoint :: "string option"
  is_OfferLifetime :: int

definition validateCredentialOffer :: "(string \<Rightarrow> bool) \<Rightarrow> ('a) code_issuer_scheme \<Rightarrow> credential_offer \<Rightarrow> offer_error option" where
  "validateCredentialOffer issuer_url iss offer =
     and_then (CredentialOffer_Validate issuer_url offer)
     (and_then (map_option OfferUnknown
         (find (\<lambda>i. gm_get (is_Configurations iss) i = None) (cof_CredentialConfigurationIDs offer)))
       (case cof_Grants offer of
          None \<Rightarrow> None
        | Some g \<Rightarrow>
            (if gr_AuthorizationCode g = None \<and> gr_PreAuthorizedCode g = None then Some OfferNoGrant
             else and_then
               (case gr_AuthorizationCode g of
                  None \<Rightarrow> None
                | Some c \<Rightarrow> checkGrantAuthorizationServer (gac_AuthorizationServer c) (is_AuthorizationServers iss))
               (case gr_PreAuthorizedCode g of
                  None \<Rightarrow> None
                | Some c \<Rightarrow> checkGrantAuthorizationServer (gpc_AuthorizationServer c) (is_AuthorizationServers iss)))))"

section \<open>The store and what else an Issuer uses\<close>

text \<open>
  A \<open>PreAuthorizedCodeStore\<close> over any state. \<open>Issue\<close> is told the time by the store's own clock, and says whether it
  succeeded; \<open>Consume\<close> gives, beside its result, the record it last called \<open>accept\<close> with, which is how the caller's
  closure learns of it.
\<close>

datatype code_failure = CodeFails pre_authorized_error | CodeStoreFails

record 's code_ops =
  po_Issue :: "int \<Rightarrow> string \<Rightarrow> pre_authorized_record \<Rightarrow> 's \<Rightarrow> bool \<times> 's"
  po_Consume :: "string \<Rightarrow> string \<Rightarrow> int \<Rightarrow> (pre_authorized_record \<Rightarrow> string option) \<Rightarrow> 's
    \<Rightarrow> (code_failure \<times> int + pre_authorized_record) \<times> pre_authorized_record option \<times> 's"
  po_Invalidate :: "string \<Rightarrow> 's \<Rightarrow> bool \<times> 's"

record token_params =
  tp_Scope :: "string list"
  tp_Thumbprint :: string
  tp_Subject :: string
  tp_ClientID :: string
  tp_Issuer :: string
  tp_Audience :: string
  tp_Now :: int
  tp_Lifetime :: int
  tp_AuthorizationDetails :: "authorization_detail list"

record offer_deps =
  kd_sha256 :: "nat list \<Rightarrow> nat list"
  kd_hmac :: mac
  kd_issuer_url :: "string \<Rightarrow> bool"
  kd_offer_json :: "credential_offer \<Rightarrow> string"
  kd_QueryEscape :: "string \<Rightarrow> string"
  kd_JoinPath :: "string \<Rightarrow> string \<Rightarrow> string"
  kd_AccessTokens :: "(token_params \<Rightarrow> string option) option"

record 's code_state =
  ks_codes :: 's
  ks_random :: "nat list"
  ks_kept :: bool
  ks_offers :: "credential_offer offer_store option"

section \<open>Making an offer\<close>

record offer_request =
  or_CredentialConfigurationIDs :: "string list"
  or_Grants :: "grants option"
  or_ByReference :: bool

record offer_result =
  ox_Offer :: credential_offer
  ox_URI :: string
  ox_Reference :: string

datatype offer_failure =
    OfferRefused offer_error
  | OfferInProduction
  | OfferNoEndpoint
  | OfferReferenceFails
  | OfferNoStore
  | OfferNoIDs
  | OfferNoLifetime
  | OfferNoSubject
  | OfferWouldntGrant string
  | OfferTxCodeContradicts
  | OfferTxCodeShort
  | OfferTxCodeRequired
  | OfferLifetimeLong
  | OfferDescriptionAlone
  | OfferCodeFails
  | OfferStoreFails
  | OfferReadBackFails
  | OfferCodeMissing
  | OfferHashGiven

definition credentialOfferReferenceEntropyBytes :: nat where "credentialOfferReferenceEntropyBytes = 32"
definition credentialOfferScheme :: string where "credentialOfferScheme = ''openid-credential-offer://''"

definition AppendToURL :: "offer_deps \<Rightarrow> credential_offer \<Rightarrow> string \<Rightarrow> string" where
  "AppendToURL d offer base =
     base @ (if CHR ''?'' \<in> set base then ''&'' else ''?'') @ ''credential_offer='' @ kd_QueryEscape d (kd_offer_json d offer)"

text \<open>\<open>New\<close> refuses an endpoint without a store for the offers.\<close>

definition createCredentialOfferByReference ::
  "('a) code_issuer_scheme \<Rightarrow> offer_deps \<Rightarrow> int \<Rightarrow> int \<Rightarrow> credential_offer \<Rightarrow> 's code_state
     \<Rightarrow> (offer_failure + offer_result) \<times> 's code_state" where
  "createCredentialOfferByReference iss d now sclock offer st =
     (case (is_OfferEndpoint iss, ks_offers st) of
        (Some endpoint, Some offers) \<Rightarrow>
          (case randomID (ks_random st) credentialOfferReferenceEntropyBytes of
             None \<Rightarrow> (Inl OfferReferenceFails, st)
           | Some (reference, rest) \<Rightarrow>
               (Inr \<lparr> ox_Offer = offer,
                  ox_URI = credentialOfferScheme @ ''?credential_offer_uri='' @ kd_QueryEscape d (kd_JoinPath d endpoint reference),
                  ox_Reference = reference \<rparr>,
                st \<lparr> ks_random := rest,
                  ks_offers := Some (OfferStore_Store sclock
                    \<lparr> co_Reference = reference, co_Offer = offer, co_ExpiresAt = store_time (now + is_OfferLifetime iss) \<rparr>
                    offers) \<rparr>))
      | _ \<Rightarrow> (Inl OfferNoEndpoint, st))"

definition createCredentialOffer ::
  "('a) code_issuer_scheme \<Rightarrow> offer_deps \<Rightarrow> int \<Rightarrow> int \<Rightarrow> offer_request \<Rightarrow> 's code_state
     \<Rightarrow> (offer_failure + offer_result) \<times> 's code_state" where
  "createCredentialOffer iss d now sclock req st =
     (let offer = \<lparr> cof_CredentialIssuer = is_Issuer iss,
                    cof_CredentialConfigurationIDs = or_CredentialConfigurationIDs req, cof_Grants = or_Grants req \<rparr>
      in case validateCredentialOffer (kd_issuer_url d) iss offer of
           Some e \<Rightarrow> (Inl (OfferRefused e), st)
         | None \<Rightarrow>
             (if \<not> or_ByReference req
              then (Inr \<lparr> ox_Offer = offer, ox_URI = AppendToURL d offer credentialOfferScheme, ox_Reference = [] \<rparr>, st)
              else createCredentialOfferByReference iss d now sclock offer st))"

definition CreateCredentialOffer ::
  "('a) code_issuer_scheme \<Rightarrow> offer_deps \<Rightarrow> int \<Rightarrow> int \<Rightarrow> offer_request \<Rightarrow> 's code_state
     \<Rightarrow> (offer_failure + offer_result) \<times> 's code_state" where
  "CreateCredentialOffer iss d now sclock req st =
     (if is_production iss \<and> (case or_Grants req of Some g \<Rightarrow> gr_PreAuthorizedCode g \<noteq> None | None \<Rightarrow> False)
      then (Inl OfferInProduction, st)
      else createCredentialOffer iss d now sclock req st)"

datatype get_offer_error = OffersNotConfigured | OfferNotHeld | OfferExpired

definition GetCredentialOffer :: "int \<Rightarrow> string \<Rightarrow> 's code_state \<Rightarrow> get_offer_error + credential_offer" where
  "GetCredentialOffer now reference st =
     (case ks_offers st of
        None \<Rightarrow> Inl OffersNotConfigured
      | Some offers \<Rightarrow>
          (case OfferStore_Get reference offers of
             None \<Rightarrow> Inl OfferNotHeld
           | Some r \<Rightarrow> (if \<not> store_time now < co_ExpiresAt r then Inl OfferExpired else Inr (co_Offer r))))"

section \<open>An offer with a pre-authorized code\<close>

record code_offer_request =
  cr_CredentialConfigurationIDs :: "string list"
  cr_Scopes :: "string list"
  cr_CredentialIdentifiers :: bool
  cr_Subject :: string
  cr_TxCode :: string
  cr_NoTxCode :: bool
  cr_TxCodeDescription :: string
  cr_Lifetime :: int
  cr_AuthorizationServer :: string
  cr_ByReference :: bool

definition preAuthorizedCodeBytes :: nat where "preAuthorizedCodeBytes = 32"
definition MinProductionTxCodeLength :: nat where "MinProductionTxCodeLength = 6"
definition MaxProductionPreAuthorizedLifetime :: int where
  "MaxProductionPreAuthorizedLifetime = 7 * 24 * 3600 * second"

definition txCodeFor :: "string \<Rightarrow> string \<Rightarrow> tx_code" where
  "txCodeFor txCode description =
     \<lparr> txc_InputMode = (if list_all (\<lambda>r. 48 \<le> r \<and> r \<le> 57) (runes_of (bytes_of txCode))
         then TxCodeInputModeNumeric else TxCodeInputModeText),
       txc_Length = int (rune_count txCode), txc_Description = description \<rparr>"

text \<open>A configuration the code's token would not grant; an id that is not supported has no scope.\<close>

definition grants_offered :: "('a) code_issuer_scheme \<Rightarrow> code_offer_request \<Rightarrow> string \<Rightarrow> bool" where
  "grants_offered iss req i =
     (cr_CredentialIdentifiers req \<or>
      (case gm_get (is_Configurations iss) i of
         Some cc \<Rightarrow> cc_Scope cc \<noteq> [] \<and> cc_Scope cc \<in> set (cr_Scopes req)
       | None \<Rightarrow> False))"

definition checkPreAuthorizedGrant :: "('a) code_issuer_scheme \<Rightarrow> code_offer_request \<Rightarrow> offer_failure option" where
  "checkPreAuthorizedGrant iss req =
     and_then (map_option OfferWouldntGrant (find (\<lambda>i. \<not> grants_offered iss req i) (cr_CredentialConfigurationIDs req)))
     (if cr_NoTxCode req \<and> cr_TxCode req \<noteq> [] then Some OfferTxCodeContradicts
      else if \<not> is_production iss then None
      else if cr_TxCode req \<noteq> [] \<and> rune_count (cr_TxCode req) < MinProductionTxCodeLength then Some OfferTxCodeShort
      else if is_CodeAuthentication iss = Some AnonymousPreAuthorizedCode \<and> cr_TxCode req = [] \<and> \<not> cr_NoTxCode req
      then Some OfferTxCodeRequired
      else if cr_Lifetime req > MaxProductionPreAuthorizedLifetime then Some OfferLifetimeLong
      else None)"

text \<open>
  The read-back, when it is due: a \<open>Consume\<close> whose \<open>accept\<close> refuses leaves the code, and tells the record's \<open>Owner\<close>. A code
  whose record lost it is invalidated.
\<close>

definition storePreAuthorizedCode ::
  "('a) code_issuer_scheme \<Rightarrow> offer_deps \<Rightarrow> 's code_ops \<Rightarrow> int \<Rightarrow> string \<Rightarrow> string \<Rightarrow> pre_authorized_record
     \<Rightarrow> 's code_state \<Rightarrow> offer_failure option \<times> 's code_state" where
  "storePreAuthorizedCode iss d ops sclock code txCode rec st =
     (let rec = rec \<lparr> pa_Owner := storeOwner iss, pa_TxCodeHash := txCodeHash (kd_hmac d) code txCode \<rparr>;
          key = preAuthorizedCodeKey (kd_sha256 d) (pa_Owner rec) code in
      case po_Issue ops sclock key rec (ks_codes st) of
        (False, s) \<Rightarrow> (Some OfferStoreFails, st \<lparr> ks_codes := s \<rparr>)
      | (True, s) \<Rightarrow>
          (if \<not> is_production iss \<or> ks_kept st then (None, st \<lparr> ks_codes := s \<rparr>)
           else (case po_Consume ops key (pa_TxCodeHash rec) 0 (\<lambda>_. Some ''reading the record back'') s of (result, called, s) \<Rightarrow>
             (let owner = (case result of
                  Inl (CodeFails (NotAccepted e), _) \<Rightarrow> Some (case called of Some r \<Rightarrow> pa_Owner r | None \<Rightarrow> [])
                | _ \<Rightarrow> None) in
              case checkOwnerKept iss (ks_kept st) owner of
                Inr kept \<Rightarrow> (None, st \<lparr> ks_codes := s, ks_kept := kept \<rparr>)
              | Inl _ \<Rightarrow> (Some OfferReadBackFails, st \<lparr> ks_codes := snd (po_Invalidate ops key s) \<rparr>)))))"

definition code_record :: "code_offer_request \<Rightarrow> int \<Rightarrow> pre_authorized_record" where
  "code_record req now =
     \<lparr> pa_Owner = [], pa_TxCodeHash = [], pa_Scopes = cr_Scopes req,
       pa_CredentialConfigurationIDs = (if cr_CredentialIdentifiers req then cr_CredentialConfigurationIDs req else []),
       pa_ExpiresAt = store_time (now + cr_Lifetime req), pa_Subject = cr_Subject req \<rparr>"

definition code_grants :: "code_offer_request \<Rightarrow> string \<Rightarrow> grants" where
  "code_grants req code =
     \<lparr> gr_AuthorizationCode = None,
       gr_PreAuthorizedCode = Some
         \<lparr> gpc_PreAuthorizedCode = code,
           gpc_TxCode = (if cr_TxCode req \<noteq> [] then Some (txCodeFor (cr_TxCode req) (cr_TxCodeDescription req)) else None),
           gpc_AuthorizationServer = cr_AuthorizationServer req \<rparr> \<rparr>"

text \<open>\<open>now\<close> and \<open>now'\<close> are the two readings of the Issuer's clock, \<open>sclock\<close> the stores'.\<close>

definition CreatePreAuthorizedOffer ::
  "('a) code_issuer_scheme \<Rightarrow> offer_deps \<Rightarrow> 's code_ops option \<Rightarrow> int \<Rightarrow> int \<Rightarrow> int \<Rightarrow> code_offer_request \<Rightarrow> 's code_state
     \<Rightarrow> (offer_failure + offer_result) \<times> 's code_state" where
  "CreatePreAuthorizedOffer iss d store now sclock now' req st =
     (case store of
        None \<Rightarrow> (Inl OfferNoStore, st)
      | Some ops \<Rightarrow>
          (if cr_CredentialConfigurationIDs req = [] then (Inl OfferNoIDs, st)
           else if cr_Lifetime req \<le> 0 then (Inl OfferNoLifetime, st)
           else if cr_Subject req = [] then (Inl OfferNoSubject, st)
           else (case checkPreAuthorizedGrant iss req of
               Some e \<Rightarrow> (Inl e, st)
             | None \<Rightarrow>
                 (if cr_TxCode req = [] \<and> cr_TxCodeDescription req \<noteq> [] then (Inl OfferDescriptionAlone, st)
                  else (case randomID (ks_random st) preAuthorizedCodeBytes of
                      None \<Rightarrow> (Inl OfferCodeFails, st)
                    | Some (code, rest) \<Rightarrow>
                        (let st = st \<lparr> ks_random := rest \<rparr>;
                             offer = \<lparr> cof_CredentialIssuer = is_Issuer iss,
                                       cof_CredentialConfigurationIDs = cr_CredentialConfigurationIDs req,
                                       cof_Grants = Some (code_grants req code) \<rparr> in
                         case validateCredentialOffer (kd_issuer_url d) iss offer of
                           Some e \<Rightarrow> (Inl (OfferRefused e), st)
                         | None \<Rightarrow>
                             (case storePreAuthorizedCode iss d ops sclock code (cr_TxCode req) (code_record req now) st of
                                (Some e, st) \<Rightarrow> (Inl e, st)
                              | (None, st) \<Rightarrow>
                                  createCredentialOffer iss d now' sclock
                                    \<lparr> or_CredentialConfigurationIDs = cr_CredentialConfigurationIDs req,
                                      or_Grants = Some (code_grants req code), or_ByReference = cr_ByReference req \<rparr> st)))))))"

definition IssuePreAuthorizedCode ::
  "('a) code_issuer_scheme \<Rightarrow> offer_deps \<Rightarrow> 's code_ops option \<Rightarrow> int \<Rightarrow> string \<Rightarrow> string \<Rightarrow> pre_authorized_record
     \<Rightarrow> 's code_state \<Rightarrow> offer_failure option \<times> 's code_state" where
  "IssuePreAuthorizedCode iss d store sclock code txCode rec st =
     (if is_production iss then (Some OfferInProduction, st)
      else (case store of
          None \<Rightarrow> (Some OfferNoStore, st)
        | Some ops \<Rightarrow>
            (if code = [] then (Some OfferCodeMissing, st)
             else if pa_TxCodeHash rec \<noteq> [] then (Some OfferHashGiven, st)
             else storePreAuthorizedCode iss d ops sclock code txCode rec st)))"

section \<open>Redeeming a code\<close>

record verified_token_request =
  vt_ClientID :: string
  vt_DPoPThumbprint :: string
  vt_NextDPoPNonce :: string

record exchange_request =
  er_PreAuthorizedCode :: string
  er_TxCode :: string
  er_Verified :: "verified_token_request option"
  er_AuthorizationDetails :: "authorization_detail list"

datatype detail_problem =
    DetailType
  | DetailUnsupported
  | DetailTwice
  | DetailIdentifiers
  | DetailLocations
  | DetailNoLocations

datatype token_refusal =
    DetailsMalformed
  | CodeRequired
  | CodeUnknown
  | CodeNotOurs
  | CodeExpired
  | CodeNotGranting string
  | BadDetail nat detail_problem
  | TxCodeMissing
  | TxCodeNotExpected
  | TxCodeTooMany
  | TxCodeWrong

datatype token_failure =
    NoAccessTokens
  | NoCodeStore
  | NotVerifiedGrant
  | NoThumbprint
  | NoClientID
  | ClientIDSet
  | MintUnsupported string
  | MintFails
  | ConsumedUnasked
  | InvalidateFails
  | CodeStoreError
  | AccessTokenFails

datatype token_error = TokenRefused token_refusal | TokenFails token_failure

fun token_refusal_code :: "token_refusal \<Rightarrow> error_code" where
  "token_refusal_code DetailsMalformed = ErrorInvalidAuthorizationDetails"
| "token_refusal_code (CodeNotGranting i) = ErrorInvalidAuthorizationDetails"
| "token_refusal_code (BadDetail n problem) = ErrorInvalidAuthorizationDetails"
| "token_refusal_code CodeRequired = ErrorInvalidTokenRequest"
| "token_refusal_code TxCodeMissing = ErrorInvalidTokenRequest"
| "token_refusal_code TxCodeNotExpected = ErrorInvalidTokenRequest"
| "token_refusal_code _ = ErrorInvalidGrant"

definition ParseAuthorizationDetails ::
  "(string \<Rightarrow> authorization_detail list option) \<Rightarrow> string \<Rightarrow> token_error + authorization_detail list" where
  "ParseAuthorizationDetails decode v =
     (if v = [] then Inr []
      else (case decode v of
          None \<Rightarrow> Inl (TokenRefused DetailsMalformed)
        | Some details \<Rightarrow> (if details = [] then Inl (TokenRefused DetailsMalformed) else Inr details)))"

definition preAuthorizedBinding :: "('a) code_issuer_scheme \<Rightarrow> exchange_request \<Rightarrow> token_error + verified_token_request" where
  "preAuthorizedBinding iss req =
     (case er_Verified req of
        None \<Rightarrow> Inl (TokenFails NoThumbprint)
      | Some v \<Rightarrow>
          (let verified = is_CodeAuthentication iss = Some VerifiedPreAuthorizedCode in
           if vt_DPoPThumbprint v = [] then Inl (TokenFails NoThumbprint)
           else if verified \<and> vt_ClientID v = [] then Inl (TokenFails NoClientID)
           else if \<not> verified \<and> vt_ClientID v \<noteq> [] then Inl (TokenFails ClientIDSet)
           else Inr v))"

definition detail_problem :: "('a) code_issuer_scheme \<Rightarrow> string list \<Rightarrow> authorization_detail \<Rightarrow> detail_problem option" where
  "detail_problem iss ids ad =
     (if ad_Type ad \<noteq> ''openid_credential'' then Some DetailType
      else if gm_get (is_Configurations iss) (ad_CredentialConfigurationID ad) = None then Some DetailUnsupported
      else if ad_CredentialConfigurationID ad \<in> set ids then Some DetailTwice
      else if ad_CredentialIdentifiers ad \<noteq> [] then Some DetailIdentifiers
      else if ad_Locations ad \<noteq> [] \<and> is_Issuer iss \<notin> set (ad_Locations ad) then Some DetailLocations
      else if ad_Locations ad = [] \<and> is_AuthorizationServers iss \<noteq> [] then Some DetailNoLocations
      else None)"

fun requested_ids ::
  "('a) code_issuer_scheme \<Rightarrow> nat \<Rightarrow> string list \<Rightarrow> authorization_detail list \<Rightarrow> token_error + string list" where
  "requested_ids iss n ids [] = Inr ids"
| "requested_ids iss n ids (ad # ads) =
     (case detail_problem iss ids ad of
        Some problem \<Rightarrow> Inl (TokenRefused (BadDetail n problem))
      | None \<Rightarrow> requested_ids iss (Suc n) (ids @ [ad_CredentialConfigurationID ad]) ads)"

text \<open>\<open>None\<close> is the nil slice: nothing requested.\<close>

definition requestedConfigurations ::
  "('a) code_issuer_scheme \<Rightarrow> authorization_detail list \<Rightarrow> token_error + string list option" where
  "requestedConfigurations iss details = (if details = [] then Inr None else rmap Some (requested_ids iss 0 [] details))"

definition recordGrants :: "('a) code_issuer_scheme \<Rightarrow> pre_authorized_record \<Rightarrow> string \<Rightarrow> bool" where
  "recordGrants iss rec i =
     (i \<in> set (pa_CredentialConfigurationIDs rec) \<or>
      (case gm_get (is_Configurations iss) i of
         Some cc \<Rightarrow> cc_Scope cc \<noteq> [] \<and> cc_Scope cc \<in> set (pa_Scopes rec)
       | None \<Rightarrow> False))"

definition minted_detail :: "('a) code_issuer_scheme \<Rightarrow> string \<Rightarrow> string \<Rightarrow> authorization_detail" where
  "minted_detail iss i identifier =
     \<lparr> ad_Type = ''openid_credential'', ad_CredentialConfigurationID = i, ad_CredentialIdentifiers = [identifier],
       ad_Locations = (if is_AuthorizationServers iss \<noteq> [] then [is_Issuer iss] else []), ad_Claims = [] \<rparr>"

text \<open>The details, and the randomness left.\<close>

fun mintAuthorizationDetails ::
  "('a) code_issuer_scheme \<Rightarrow> nat list \<Rightarrow> string list \<Rightarrow> (token_error + authorization_detail list) \<times> nat list" where
  "mintAuthorizationDetails iss random [] = (Inr [], random)"
| "mintAuthorizationDetails iss random (i # ids) =
     (if gm_get (is_Configurations iss) i = None then (Inl (TokenFails (MintUnsupported i)), random)
      else (case randomID random nonceEntropyBytes of
          None \<Rightarrow> (Inl (TokenFails MintFails), random)
        | Some (identifier, rest) \<Rightarrow>
            (case mintAuthorizationDetails iss rest ids of
               (r, left) \<Rightarrow> (rmap ((#) (minted_detail iss i identifier)) r, left))))"

definition acceptPreAuthorizedCode ::
  "('a) code_issuer_scheme \<Rightarrow> pre_authorized_record \<Rightarrow> string list option \<Rightarrow> int \<Rightarrow> nat list
     \<Rightarrow> (token_error + authorization_detail list) \<times> nat list" where
  "acceptPreAuthorizedCode iss rec requested now random =
     (if store_time now > pa_ExpiresAt rec then (Inl (TokenRefused CodeExpired), random)
      else (case requested of
          None \<Rightarrow> mintAuthorizationDetails iss random (pa_CredentialConfigurationIDs rec)
        | Some ids \<Rightarrow>
            (case find (\<lambda>i. \<not> recordGrants iss rec i) ids of
               Some i \<Rightarrow> (Inl (TokenRefused (CodeNotGranting i)), random)
             | None \<Rightarrow> mintAuthorizationDetails iss random ids)))"

text \<open>
  \<open>accept\<close> is what the closure given to \<open>Consume\<close> does with a record after the check of its \<open>Owner\<close>; what it captured is
  what it said of the record it was last called with.
\<close>

definition owned_accept ::
  "('a) code_issuer_scheme \<Rightarrow> (pre_authorized_record \<Rightarrow> (token_error + 'd) \<times> nat list) \<Rightarrow> nat list
     \<Rightarrow> pre_authorized_record \<Rightarrow> (token_error + 'd) \<times> nat list" where
  "owned_accept iss accept random rec =
     (if \<not> issuer_owns iss (pa_Owner rec) then (Inl (TokenRefused CodeNotOurs), random) else accept rec)"

definition consumePreAuthorizedCode ::
  "('a) code_issuer_scheme \<Rightarrow> offer_deps \<Rightarrow> 's code_ops \<Rightarrow> exchange_request
     \<Rightarrow> (pre_authorized_record \<Rightarrow> (token_error + 'd) \<times> nat list) \<Rightarrow> 's code_state
     \<Rightarrow> (token_error + pre_authorized_record \<times> 'd) \<times> 's code_state" where
  "consumePreAuthorizedCode iss d ops req accept st =
     (let key = preAuthorizedCodeKey (kd_sha256 d) (storeOwner iss) (er_PreAuthorizedCode req);
          want = txCodeHash (kd_hmac d) (er_PreAuthorizedCode req) (er_TxCode req);
          check = owned_accept iss accept (ks_random st) in
      case po_Consume ops key want (is_MaxTxCodeAttempts iss)
          (\<lambda>r. case fst (check r) of Inl _ \<Rightarrow> Some ''refused'' | Inr _ \<Rightarrow> None) (ks_codes st) of
        (result, called, s) \<Rightarrow>
          (let st = st \<lparr> ks_codes := s, ks_random := (case called of Some r \<Rightarrow> snd (check r) | None \<Rightarrow> ks_random st) \<rparr>;
               captured = map_option (\<lambda>r. fst (check r)) called in
           case result of
             Inr rec \<Rightarrow>
               (case captured of
                  Some (Inr x) \<Rightarrow> (Inr (rec, x), st)
                | _ \<Rightarrow> (Inl (TokenFails ConsumedUnasked), st))
           | Inl (CodeFails (NotAccepted what), n) \<Rightarrow>
               (case captured of
                  Some (Inl e) \<Rightarrow> (Inl e, st)
                | _ \<Rightarrow> (Inl (TokenFails CodeStoreError), st))
           | Inl (CodeFails TxCodeRequired, n) \<Rightarrow> (Inl (TokenRefused TxCodeMissing), st)
           | Inl (CodeFails TxCodeUnexpected, n) \<Rightarrow> (Inl (TokenRefused TxCodeNotExpected), st)
           | Inl (CodeFails TooManyTxCodeAttempts, n) \<Rightarrow> (Inl (TokenRefused TxCodeTooMany), st)
           | Inl (CodeFails WrongTxCode, n) \<Rightarrow>
               (if n \<ge> is_MaxTxCodeAttempts iss
                then (case po_Invalidate ops key (ks_codes st) of
                    (True, s) \<Rightarrow> (Inl (TokenRefused TxCodeTooMany), st \<lparr> ks_codes := s \<rparr>)
                  | (False, s) \<Rightarrow> (Inl (TokenFails InvalidateFails), st \<lparr> ks_codes := s \<rparr>))
                else (Inl (TokenRefused (if er_TxCode req = [] then TxCodeMissing else TxCodeWrong)), st))
           | Inl (CodeFails PreAuthorizedCodeUnknown, n) \<Rightarrow> (Inl (TokenRefused CodeUnknown), st)
           | Inl (CodeStoreFails, n) \<Rightarrow> (Inl (TokenFails CodeStoreError), st)))"

record redeemed_code =
  rc_ClientID :: string
  rc_Subject :: string
  rc_Scope :: "string list"
  rc_AuthorizationDetails :: "authorization_detail list"
  rc_binding :: verified_token_request
  rc_record :: pre_authorized_record

definition redeemPreAuthorizedCode ::
  "('a) code_issuer_scheme \<Rightarrow> offer_deps \<Rightarrow> 's code_ops option \<Rightarrow> int \<Rightarrow> exchange_request \<Rightarrow> 's code_state
     \<Rightarrow> (token_error + redeemed_code) \<times> 's code_state" where
  "redeemPreAuthorizedCode iss d store now req st =
     (case store of
        None \<Rightarrow> (Inl (TokenFails NoCodeStore), st)
      | Some ops \<Rightarrow>
          (if er_PreAuthorizedCode req = [] then (Inl (TokenRefused CodeRequired), st)
           else (case preAuthorizedBinding iss req of
               Inl e \<Rightarrow> (Inl e, st)
             | Inr binding \<Rightarrow>
                 (case requestedConfigurations iss (er_AuthorizationDetails req) of
                    Inl e \<Rightarrow> (Inl e, st)
                  | Inr requested \<Rightarrow>
                      (case consumePreAuthorizedCode iss d ops req
                              (\<lambda>r. acceptPreAuthorizedCode iss r requested now (ks_random st)) st of
                         (Inl e, st) \<Rightarrow> (Inl e, st)
                       | (Inr (rec, details), st) \<Rightarrow>
                           (Inr \<lparr> rc_ClientID = vt_ClientID binding, rc_Subject = pa_Subject rec, rc_Scope = pa_Scopes rec,
                                  rc_AuthorizationDetails = details, rc_binding = binding, rc_record = rec \<rparr>, st))))))"

definition RedeemPreAuthorizedCode ::
  "('a) code_issuer_scheme \<Rightarrow> offer_deps \<Rightarrow> 's code_ops option \<Rightarrow> int \<Rightarrow> exchange_request \<Rightarrow> 's code_state
     \<Rightarrow> (token_error + redeemed_code) \<times> 's code_state" where
  "RedeemPreAuthorizedCode iss d store now req st =
     (if is_CodeAuthentication iss \<noteq> Some VerifiedPreAuthorizedCode then (Inl (TokenFails NotVerifiedGrant), st)
      else redeemPreAuthorizedCode iss d store now req st)"

record exchange_result =
  xr_AccessToken :: string
  xr_TokenType :: string
  xr_ExpiresIn :: int
  xr_NextDPoPNonce :: string
  xr_AuthorizationDetails :: "authorization_detail list"
  xr_Subject :: string
  xr_Scope :: "string list"

definition access_token_params :: "('a) code_issuer_scheme \<Rightarrow> int \<Rightarrow> redeemed_code \<Rightarrow> token_params" where
  "access_token_params iss now redeemed =
     \<lparr> tp_Scope = pa_Scopes (rc_record redeemed), tp_Thumbprint = vt_DPoPThumbprint (rc_binding redeemed),
       tp_Subject = pa_Subject (rc_record redeemed), tp_ClientID = vt_ClientID (rc_binding redeemed),
       tp_Issuer = is_Issuer iss, tp_Audience = is_Issuer iss, tp_Now = now, tp_Lifetime = is_AccessTokenLifetime iss,
       tp_AuthorizationDetails = rc_AuthorizationDetails redeemed \<rparr>"

definition ExchangePreAuthorizedCode ::
  "('a) code_issuer_scheme \<Rightarrow> offer_deps \<Rightarrow> 's code_ops option \<Rightarrow> int \<Rightarrow> exchange_request \<Rightarrow> 's code_state
     \<Rightarrow> (token_error + exchange_result) \<times> 's code_state" where
  "ExchangePreAuthorizedCode iss d store now req st =
     (if store \<noteq> None \<and> kd_AccessTokens d = None then (Inl (TokenFails NoAccessTokens), st)
      else (case redeemPreAuthorizedCode iss d store now req st of
          (Inl e, st) \<Rightarrow> (Inl e, st)
        | (Inr redeemed, st) \<Rightarrow>
            (case Option.bind (kd_AccessTokens d) (\<lambda>f. f (access_token_params iss now redeemed)) of
               None \<Rightarrow> (Inl (TokenFails AccessTokenFails), st)
             | Some tok \<Rightarrow>
                 (Inr \<lparr> xr_AccessToken = tok, xr_TokenType = ''DPoP'', xr_ExpiresIn = is_AccessTokenLifetime iss,
                        xr_NextDPoPNonce = vt_NextDPoPNonce (rc_binding redeemed),
                        xr_AuthorizationDetails = rc_AuthorizationDetails redeemed,
                        xr_Subject = rc_Subject redeemed, xr_Scope = rc_Scope redeemed \<rparr>, st))))"

end
