(* ===== verification/Issuer_Code_Props.thy ===== *)
theory Issuer_Code_Props
  imports Issuer_Codes
begin

text \<open>
  What redeeming a pre-authorized code grants, and that an offer can be redeemed: for any store that keeps the contract of
  \<open>PreAuthorizedCodeStore\<close>, the locale \<open>code_store\<close>, and so for the store in memory, which is its interpretation.
\<close>

section \<open>The contract of the store\<close>

text \<open>\<open>stored_as s key\<close> is the record kept under a key, with the wrong Transaction Codes counted against it.\<close>

locale code_store =
  fixes ops :: "'s code_ops" and stored_as :: "'s \<Rightarrow> string \<Rightarrow> (pre_authorized_record \<times> int) option" and ok :: "'s \<Rightarrow> bool"
  assumes issue_ok: "ok s \<Longrightarrow> po_Issue ops now k r s = (b, s') \<Longrightarrow> ok s'"
    and issue_saves: "ok s \<Longrightarrow> po_Issue ops now k r s = (True, s') \<Longrightarrow> stored_as s k = None \<Longrightarrow> stored_as s' k = Some (r, 0)"
    and issue_keeps: "ok s \<Longrightarrow> po_Issue ops now k r s = (b, s') \<Longrightarrow> k' \<noteq> k \<Longrightarrow> stored_as s k' = Some (r', n) \<Longrightarrow>
      \<not> expired now (pa_ExpiresAt r') \<Longrightarrow> stored_as s' k' = Some (r', n)"
    and consume_ok: "ok s \<Longrightarrow> po_Consume ops k want m accept s = (result, called, s') \<Longrightarrow> ok s'"
    and consume_keeps: "ok s \<Longrightarrow> po_Consume ops k want m accept s = (result, called, s') \<Longrightarrow> k' \<noteq> k \<Longrightarrow>
      stored_as s' k' = stored_as s k'"
    and consume_redeems: "ok s \<Longrightarrow> po_Consume ops k want m accept s = (Inr r, called, s') \<Longrightarrow>
      called = Some r \<and> accept r = None \<and> pa_TxCodeHash r = want \<and> (\<exists>n. stored_as s k = Some (r, n)) \<and> stored_as s' k = None"
    and consume_called: "ok s \<Longrightarrow> stored_as s k = Some (r, n) \<Longrightarrow> pa_TxCodeHash r = want \<Longrightarrow> m \<le> 0 \<or> n < m \<Longrightarrow>
      po_Consume ops k want m accept s = (result, called, s') \<Longrightarrow>
      called = Some r \<and> (case accept r of
        None \<Rightarrow> result = Inr r
      | Some e \<Rightarrow> result = Inl (CodeFails (NotAccepted e), 0) \<and> stored_as s' k = stored_as s k)"
    and consume_refuses: "ok s \<Longrightarrow> stored_as s k = Some (r, n) \<Longrightarrow> pa_TxCodeHash r \<noteq> want \<Longrightarrow>
      n + (if want = [] then 0 else 1) < m \<Longrightarrow> po_Consume ops k want m accept s = (result, called, s') \<Longrightarrow>
      (\<exists>n' \<le> n + (if want = [] then 0 else 1). stored_as s' k = Some (r, n')) \<and>
      (\<exists>e c. result = Inl (CodeFails e, c) \<and> (e = WrongTxCode \<longrightarrow> c < m))"
    and invalidate_ok: "ok s \<Longrightarrow> po_Invalidate ops k s = (b, s') \<Longrightarrow> ok s'"
    and invalidate_keeps: "ok s \<Longrightarrow> po_Invalidate ops k s = (b, s') \<Longrightarrow> k' \<noteq> k \<Longrightarrow> stored_as s' k' = stored_as s k'"

section \<open>The store in memory\<close>

definition memory_called :: "string \<Rightarrow> pre_authorized_store \<Rightarrow> (pre_authorized_error \<times> int + pre_authorized_record)
  \<Rightarrow> pre_authorized_record option" where
  "memory_called k s result =
     (case result of
        Inr r \<Rightarrow> Some r
      | Inl (NotAccepted e, _) \<Rightarrow> gm_get (ps_issued s) k
      | Inl _ \<Rightarrow> None)"

definition memory_codes :: "pre_authorized_store code_ops" where
  "memory_codes =
     \<lparr> po_Issue = (\<lambda>now k r s. (True, PreAuthorizedCodeStore_Issue now k r s)),
       po_Consume = (\<lambda>k want m accept s.
         case PreAuthorizedCodeStore_Consume k want m accept s of (result, s') \<Rightarrow>
           (case result of Inl (e, n) \<Rightarrow> Inl (CodeFails e, n) | Inr r \<Rightarrow> Inr r, memory_called k s result, s')),
       po_Invalidate = (\<lambda>k s. (True, PreAuthorizedCodeStore_Invalidate k s)) \<rparr>"

definition memory_held :: "pre_authorized_store \<Rightarrow> string \<Rightarrow> (pre_authorized_record \<times> int) option" where
  "memory_held s k = map_option (\<lambda>r. (r, code_attempts s k)) (gm_get (ps_issued s) k)"

lemma memory_held_forget [simp]: "memory_held (forget_code k s) k' = (if k' = k then None else memory_held s k')"
  by (simp add: memory_held_def)

lemma memory_held_counted [simp]:
  "memory_held (s \<lparr> ps_attempts := gm_put k n (ps_attempts s) \<rparr>) k' =
     (if k' = k then map_option (\<lambda>r. (r, n)) (gm_get (ps_issued s) k) else memory_held s k')"
  by (simp add: memory_held_def)

lemma memory_issue_keeps:
  assumes "codes_ok s" "k' \<noteq> k" "memory_held s k' = Some (r', n)" "\<not> expired now (pa_ExpiresAt r')"
  shows "memory_held (PreAuthorizedCodeStore_Issue now k r s) k' = Some (r', n)"
proof -
  have "gm_ok (ps_issued s)" "gm_ok (ps_attempts s)" using assms(1) by (simp_all add: codes_ok_def)
  with assms show ?thesis
    by (auto simp: memory_held_def PreAuthorizedCodeStore_Issue_def Let_def gm_get_pruneMap live_attempts_get code_attempts_def)
qed

lemma memory_issue_saves:
  assumes "codes_ok s" "memory_held s k = None"
  shows "memory_held (PreAuthorizedCodeStore_Issue now k r s) k = Some (r, 0)"
proof -
  have "gm_ok (ps_issued s)" "gm_ok (ps_attempts s)" "gm_get (ps_issued s) k = None" "gm_get (ps_attempts s) k = None"
    using assms by (auto simp: codes_ok_def memory_held_def)
  then show ?thesis
    by (auto simp: memory_held_def PreAuthorizedCodeStore_Issue_def Let_def gm_get_pruneMap live_attempts_get code_attempts_def)
qed

lemma memory_consume_called:
  assumes "memory_held s k = Some (r, n)" "pa_TxCodeHash r = want" "m \<le> 0 \<or> n < m"
  shows "PreAuthorizedCodeStore_Consume k want m accept s =
    (case accept r of None \<Rightarrow> (Inr r, forget_code k s) | Some e \<Rightarrow> (Inl (NotAccepted e, 0), s))"
proof -
  have "gm_get (ps_issued s) k = Some r" "code_attempts s k = n" using assms(1) by (auto simp: memory_held_def)
  with assms(2,3) show ?thesis by (auto simp: PreAuthorizedCodeStore_Consume_def Let_def)
qed

lemma memory_consume:
  assumes "po_Consume memory_codes k want m accept s = (result, called, s')"
  obtains r where "PreAuthorizedCodeStore_Consume k want m accept s = (r, s')" "called = memory_called k s r"
    "result = (case r of Inl (e, n) \<Rightarrow> Inl (CodeFails e, n) | Inr r \<Rightarrow> Inr r)"
  using assms by (auto simp: memory_codes_def split: prod.splits)

lemma memory_consume_keeps:
  assumes "PreAuthorizedCodeStore_Consume k want m accept s = (r, s')" "k' \<noteq> k"
  shows "memory_held s' k' = memory_held s k'"
  using assms(1)
proof (cases rule: Consume_cases)
  case (wrong rec)
  with assms(2) show ?thesis by (simp add: Let_def)
qed (use assms(2) in auto)

lemma memory_consume_refuses:
  assumes "memory_held s k = Some (r, n)" "pa_TxCodeHash r \<noteq> want" "n + (if want = [] then 0 else 1) < m"
    and "PreAuthorizedCodeStore_Consume k want m accept s = (result, s')"
  shows "(\<exists>n' \<le> n + (if want = [] then 0 else 1). memory_held s' k = Some (r, n')) \<and>
    (\<exists>e c. result = Inl (e, c) \<and> (e = WrongTxCode \<longrightarrow> c < m))"
proof -
  have r: "gm_get (ps_issued s) k = Some r" and n: "code_attempts s k = n" using assms(1) by (auto simp: memory_held_def)
  from assms(4) show ?thesis
  proof (cases rule: Consume_cases)
    case (wrong rec)
    have "want \<noteq> []"
    proof
      assume "want = []"
      with assms(2,3,4) r n have "result = Inl (TxCodeRequired, 0)"
        by (auto simp: PreAuthorizedCodeStore_Consume_def Let_def)
      with wrong(1) show False by simp
    qed
    with wrong assms(1,3) r n show ?thesis by (auto simp: Let_def)
  qed (use assms r n in \<open>auto split: if_splits\<close>)
qed

interpretation memcodes: code_store memory_codes memory_held codes_ok
proof
  fix s :: pre_authorized_store and now k r b s' want m accept result called k' r' n
  show "codes_ok s'" if "codes_ok s" "po_Issue memory_codes now k r s = (b, s')"
    using that Issue_get(1) by (auto simp: memory_codes_def)
  show "memory_held s' k = Some (r, 0)" if "codes_ok s" "po_Issue memory_codes now k r s = (True, s')" "memory_held s k = None"
    using that memory_issue_saves by (auto simp: memory_codes_def)
  show "memory_held s' k' = Some (r', n)" if "codes_ok s" "po_Issue memory_codes now k r s = (b, s')" "k' \<noteq> k"
    "memory_held s k' = Some (r', n)" "\<not> expired now (pa_ExpiresAt r')"
    using that memory_issue_keeps by (auto simp: memory_codes_def)
  show "codes_ok s'" if "codes_ok s" "po_Consume memory_codes k want m accept s = (result, called, s')"
    using that(2) code_step_ok [OF that(1), of "CodeConsume k want m accept"] by (auto elim: memory_consume)
  show "memory_held s' k' = memory_held s k'" if "codes_ok s" "po_Consume memory_codes k want m accept s = (result, called, s')"
    "k' \<noteq> k"
    using that(2,3) memory_consume_keeps by (auto elim: memory_consume)
  show "codes_ok s'" if "codes_ok s" "po_Invalidate memory_codes k s = (b, s')"
    using that forget_code_ok by (auto simp: memory_codes_def PreAuthorizedCodeStore_Invalidate_def)
  show "memory_held s' k' = memory_held s k'" if "codes_ok s" "po_Invalidate memory_codes k s = (b, s')" "k' \<noteq> k"
    using that by (auto simp: memory_codes_def PreAuthorizedCodeStore_Invalidate_def)
next
  fix s :: pre_authorized_store and k want m accept r called s'
  assume run: "po_Consume memory_codes k want m accept s = (Inr r, called, s')"
  obtain q where q: "PreAuthorizedCodeStore_Consume k want m accept s = (q, s')" "called = memory_called k s q" "q = Inr r"
    using run by (rule memory_consume) (auto split: sum.splits prod.splits)
  from q(1) show "called = Some r \<and> accept r = None \<and> pa_TxCodeHash r = want \<and> (\<exists>n. memory_held s k = Some (r, n)) \<and> memory_held s' k = None"
    by (cases rule: Consume_cases) (use q in \<open>auto simp: memory_called_def memory_held_def\<close>)
next
  fix s :: pre_authorized_store and k r n want m accept result called s'
  assume stored_as: "memory_held s k = Some (r, n)" "pa_TxCodeHash r = want" "m \<le> 0 \<or> n < m"
    and run: "po_Consume memory_codes k want m accept s = (result, called, s')"
  have "gm_get (ps_issued s) k = Some r" using stored_as(1) by (auto simp: memory_held_def)
  with run memory_consume_called [OF stored_as, of accept] show "called = Some r \<and> (case accept r of
        None \<Rightarrow> result = Inr r
      | Some e \<Rightarrow> result = Inl (CodeFails (NotAccepted e), 0) \<and> memory_held s' k = memory_held s k)"
    by (auto simp: memory_codes_def memory_called_def split: option.splits)
next
  fix s :: pre_authorized_store and k r n want m accept result called s'
  assume refused: "memory_held s k = Some (r, n)" "pa_TxCodeHash r \<noteq> want" "n + (if want = [] then 0 else 1) < m"
    and run: "po_Consume memory_codes k want m accept s = (result, called, s')"
  obtain q where q: "PreAuthorizedCodeStore_Consume k want m accept s = (q, s')"
    "result = (case q of Inl (e, n) \<Rightarrow> Inl (CodeFails e, n) | Inr r \<Rightarrow> Inr r)"
    using run by (rule memory_consume)
  from memory_consume_refuses [OF refused q(1)] q(2)
  show "(\<exists>n' \<le> n + (if want = [] then 0 else 1). memory_held s' k = Some (r, n')) \<and>
      (\<exists>e c. result = Inl (CodeFails e, c) \<and> (e = WrongTxCode \<longrightarrow> c < m))"
    by auto
qed

section \<open>What is minted\<close>

lemma mint_ok:
  assumes "mintAuthorizationDetails iss random ids = (Inr details, rest)"
  shows "map ad_CredentialConfigurationID details = ids \<and>
    (\<forall>ad \<in> set details. ad_Type ad = ''openid_credential'' \<and> gm_get (is_Configurations iss) (ad_CredentialConfigurationID ad) \<noteq> None \<and>
      ad_Locations ad = (if is_AuthorizationServers iss \<noteq> [] then [is_Issuer iss] else []) \<and>
      (\<exists>cid. ad_CredentialIdentifiers ad = [cid]))"
  using assms
proof (induction ids arbitrary: random details)
  case (Cons i ids)
  then obtain cid more ds where "mintAuthorizationDetails iss more ids = (Inr ds, rest)"
    "details = minted_detail iss i cid # ds" "gm_get (is_Configurations iss) i \<noteq> None"
    by (auto simp: rmap_Inr_iff split: if_splits option.splits prod.splits)
  with Cons.IH [of more ds] show ?case by (auto simp: minted_detail_def)
qed simp


text \<open>What a code that is accepted grants.\<close>

lemma accept_ok:
  assumes "acceptPreAuthorizedCode iss rec requested now random = (Inr details, rest)"
  shows "store_time now \<le> pa_ExpiresAt rec \<and>
    map ad_CredentialConfigurationID details = (case requested of None \<Rightarrow> pa_CredentialConfigurationIDs rec | Some ids \<Rightarrow> ids) \<and>
    (\<forall>ad \<in> set details. ad_Type ad = ''openid_credential'' \<and> gm_get (is_Configurations iss) (ad_CredentialConfigurationID ad) \<noteq> None \<and>
      ad_Locations ad = (if is_AuthorizationServers iss \<noteq> [] then [is_Issuer iss] else []) \<and>
      recordGrants iss rec (ad_CredentialConfigurationID ad) \<and> (\<exists>cid. ad_CredentialIdentifiers ad = [cid]))"
proof -
  let ?ids = "case requested of None \<Rightarrow> pa_CredentialConfigurationIDs rec | Some ids \<Rightarrow> ids"
  have mint: "mintAuthorizationDetails iss random ?ids = (Inr details, rest)" "store_time now \<le> pa_ExpiresAt rec"
    and grants: "\<forall>i \<in> set ?ids. recordGrants iss rec i"
    using assms by (auto simp: acceptPreAuthorizedCode_def recordGrants_def find_None_iff split: if_splits option.splits)
  from mint_ok [OF mint(1)] have ids: "map ad_CredentialConfigurationID details = ?ids" by blast
  have "recordGrants iss rec (ad_CredentialConfigurationID ad)" if "ad \<in> set details" for ad
    using that grants ids by (metis image_eqI list.set_map)
  with mint(2) mint_ok [OF mint(1)] show ?thesis by blast
qed

section \<open>Redeeming, over any store\<close>

abbreviation code_key :: "offer_deps \<Rightarrow> ('a) code_issuer_scheme \<Rightarrow> string \<Rightarrow> string" where
  "code_key d iss code \<equiv> preAuthorizedCodeKey (kd_sha256 d) (storeOwner iss) code"

text \<open>A code redeemed: its record was this Issuer's, held until now under the code, with the request's Transaction Code, and it
  grants what the token will carry.\<close>

definition redeemed_for ::
  "('s \<Rightarrow> string \<Rightarrow> (pre_authorized_record \<times> int) option) \<Rightarrow> offer_deps \<Rightarrow> ('a) code_issuer_scheme \<Rightarrow> int \<Rightarrow> exchange_request
     \<Rightarrow> 's \<Rightarrow> 's \<Rightarrow> pre_authorized_record \<Rightarrow> authorization_detail list \<Rightarrow> bool" where
  "redeemed_for stored_as d iss now req s s' rec details =
     ((\<exists>n. stored_as s (code_key d iss (er_PreAuthorizedCode req)) = Some (rec, n)) \<and>
      stored_as s' (code_key d iss (er_PreAuthorizedCode req)) = None \<and>
      issuer_owns iss (pa_Owner rec) \<and> store_time now \<le> pa_ExpiresAt rec \<and>
      pa_TxCodeHash rec = txCodeHash (kd_hmac d) (er_PreAuthorizedCode req) (er_TxCode req) \<and>
      (\<forall>ad \<in> set details. recordGrants iss rec (ad_CredentialConfigurationID ad)) \<and>
      (er_AuthorizationDetails req \<noteq> [] \<longrightarrow>
        map ad_CredentialConfigurationID details = map ad_CredentialConfigurationID (er_AuthorizationDetails req)))"

lemma requested_ids_ok: "requested_ids iss n ids details = Inr ids' \<Longrightarrow> ids' = ids @ map ad_CredentialConfigurationID details"
  by (induction iss n ids details rule: requested_ids.induct) (auto split: option.splits)

context code_store
begin

lemma consume_ok_result:
  assumes "ok (ks_codes st)" "consumePreAuthorizedCode iss d ops req accept st = (Inr (rec, x), st')"
  shows "fst (accept rec) = Inr x \<and> issuer_owns iss (pa_Owner rec) \<and>
    pa_TxCodeHash rec = txCodeHash (kd_hmac d) (er_PreAuthorizedCode req) (er_TxCode req) \<and>
    (\<exists>n. stored_as (ks_codes st) (code_key d iss (er_PreAuthorizedCode req)) = Some (rec, n)) \<and>
    stored_as (ks_codes st') (code_key d iss (er_PreAuthorizedCode req)) = None"
proof -
  let ?check = "owned_accept iss accept (ks_random st)"
  obtain called s where run: "po_Consume ops (code_key d iss (er_PreAuthorizedCode req))
      (txCodeHash (kd_hmac d) (er_PreAuthorizedCode req) (er_TxCode req)) (is_MaxTxCodeAttempts iss)
      (\<lambda>r. case fst (?check r) of Inl _ \<Rightarrow> Some ''refused'' | Inr _ \<Rightarrow> None) (ks_codes st) = (Inr rec, called, s)"
    and captured: "map_option (\<lambda>r. fst (?check r)) called = Some (Inr x)" and s: "ks_codes st' = s"
    using assms(2) unfolding consumePreAuthorizedCode_def Let_def
    by (auto split: prod.splits sum.splits code_failure.splits pre_authorized_error.splits option.splits if_splits bool.splits)
  from consume_redeems [OF assms(1) run] captured have "fst (?check rec) = Inr x" by auto
  then have "fst (accept rec) = Inr x" "issuer_owns iss (pa_Owner rec)" by (auto simp: owned_accept_def split: if_splits)
  with consume_redeems [OF assms(1) run] s show ?thesis by blast
qed

lemma redeem_ok:
  assumes "ok (ks_codes st)" "redeemPreAuthorizedCode iss d (Some ops) now req st = (Inr rc, st')"
  shows "redeemed_for stored_as d iss now req (ks_codes st) (ks_codes st') (rc_record rc) (rc_AuthorizationDetails rc) \<and>
    preAuthorizedBinding iss req = Inr (rc_binding rc) \<and> rc_Subject rc = pa_Subject (rc_record rc) \<and>
    rc_Scope rc = pa_Scopes (rc_record rc) \<and> rc_ClientID rc = vt_ClientID (rc_binding rc)"
proof -
  obtain binding requested rec details where binding: "preAuthorizedBinding iss req = Inr binding"
    and requested: "requestedConfigurations iss (er_AuthorizationDetails req) = Inr requested"
    and run: "consumePreAuthorizedCode iss d ops req (\<lambda>r. acceptPreAuthorizedCode iss r requested now (ks_random st)) st =
        (Inr (rec, details), st')"
    and rc: "rc = \<lparr> rc_ClientID = vt_ClientID binding, rc_Subject = pa_Subject rec, rc_Scope = pa_Scopes rec,
      rc_AuthorizationDetails = details, rc_binding = binding, rc_record = rec \<rparr>"
    using assms(2) by (auto simp: redeemPreAuthorizedCode_def split: if_splits sum.splits prod.splits)
  note c = consume_ok_result [OF assms(1) run]
  then obtain rest where "acceptPreAuthorizedCode iss rec requested now (ks_random st) = (Inr details, rest)"
    by (metis prod.collapse)
  note a = accept_ok [OF this]
  have "map ad_CredentialConfigurationID details = map ad_CredentialConfigurationID (er_AuthorizationDetails req)"
    if "er_AuthorizationDetails req \<noteq> []"
  proof -
    from requested that obtain ids where "requested = Some ids" "requested_ids iss 0 [] (er_AuthorizationDetails req) = Inr ids"
      by (auto simp: requestedConfigurations_def rmap_Inr_iff)
    with requested_ids_ok a show ?thesis by fastforce
  qed
  with c a binding rc show ?thesis by (simp add: redeemed_for_def)
qed

end

section \<open>What other uses of the store leave alone\<close>




text \<open>A call that uses the store, with the rest of the state of the Issuer that makes it.\<close>

datatype ('a, 's) code_use =
    OfferUse "'a code_issuer_scheme" int int int code_offer_request "'s code_state"
  | StoreUse "'a code_issuer_scheme" int string string pre_authorized_record "'s code_state"
  | ExchangeUse "'a code_issuer_scheme" int exchange_request "'s code_state"
  | RedeemUse "'a code_issuer_scheme" int exchange_request "'s code_state"

fun use_store :: "offer_deps \<Rightarrow> 's code_ops \<Rightarrow> ('a, 's) code_use \<Rightarrow> 's \<Rightarrow> 's" where
  "use_store d ops (OfferUse iss now sclock now' req st) s =
     ks_codes (snd (CreatePreAuthorizedOffer iss d (Some ops) now sclock now' req (st \<lparr> ks_codes := s \<rparr>)))"
| "use_store d ops (StoreUse iss sclock code txCode rec st) s =
     ks_codes (snd (IssuePreAuthorizedCode iss d (Some ops) sclock code txCode rec (st \<lparr> ks_codes := s \<rparr>)))"
| "use_store d ops (ExchangeUse iss now req st) s =
     ks_codes (snd (ExchangePreAuthorizedCode iss d (Some ops) now req (st \<lparr> ks_codes := s \<rparr>)))"
| "use_store d ops (RedeemUse iss now req st) s =
     ks_codes (snd (RedeemPreAuthorizedCode iss d (Some ops) now req (st \<lparr> ks_codes := s \<rparr>)))"

text \<open>The Issuer and the code a use is about, and the store's clock where it may prune.\<close>

fun use_target :: "('a, 's) code_use \<Rightarrow> (string \<times> string) option" where
  "use_target (OfferUse iss now sclock now' req st) =
     map_option (\<lambda>(code, _). (storeOwner iss, code)) (randomID (ks_random st) preAuthorizedCodeBytes)"
| "use_target (StoreUse iss sclock code txCode rec st) = Some (storeOwner iss, code)"
| "use_target (ExchangeUse iss now req st) = Some (storeOwner iss, er_PreAuthorizedCode req)"
| "use_target (RedeemUse iss now req st) = Some (storeOwner iss, er_PreAuthorizedCode req)"

fun use_clock :: "('a, 's) code_use \<Rightarrow> int option" where
  "use_clock (OfferUse iss now sclock now' req st) = Some sclock"
| "use_clock (StoreUse iss sclock code txCode rec st) = Some sclock"
| "use_clock _ = None"

fun use_request :: "('a, 's) code_use \<Rightarrow> ('a code_issuer_scheme \<times> exchange_request) option" where
  "use_request (ExchangeUse iss now req st) = Some (iss, req)"
| "use_request (RedeemUse iss now req st) = Some (iss, req)"
| "use_request _ = None"

text \<open>
  A use that leaves the code redeemable: one about another code or another Issuer, that prunes only what has expired; and a Token
  Request with this very code at this Issuer whose Transaction Code is wrong or missing, or that is not authenticated. Of those, the ones with a
  Transaction Code count as guesses.
\<close>

definition wrong_request :: "offer_deps \<Rightarrow> int \<Rightarrow> string \<Rightarrow> string \<Rightarrow> 'a code_issuer_scheme \<Rightarrow> exchange_request \<Rightarrow> bool" where
  "wrong_request d maxAttempts code txCode iss req =
     (is_MaxTxCodeAttempts iss = maxAttempts \<and>
      (txCodeHash (kd_hmac d) code (er_TxCode req) \<noteq> txCodeHash (kd_hmac d) code txCode \<or> (\<exists>e. preAuthorizedBinding iss req = Inl e)))"

definition spares ::
  "offer_deps \<Rightarrow> int \<Rightarrow> int \<Rightarrow> string \<Rightarrow> string \<Rightarrow> string \<Rightarrow> ('a, 's) code_use \<Rightarrow> bool" where
  "spares d maxAttempts expiry owner code txCode u =
     ((case use_clock u of Some t \<Rightarrow> \<not> expired t expiry | None \<Rightarrow> True) \<and>
      (use_target u = Some (owner, code) \<longrightarrow>
         (case use_request u of Some (iss, req) \<Rightarrow> wrong_request d maxAttempts code txCode iss req | None \<Rightarrow> False)))"

definition guesses :: "string \<Rightarrow> string \<Rightarrow> ('a, 's) code_use \<Rightarrow> bool" where
  "guesses owner code u =
     (use_target u = Some (owner, code) \<and> (case use_request u of Some (_, req) \<Rightarrow> er_TxCode req \<noteq> [] | None \<Rightarrow> False))"

lemma createCredentialOffer_codes: "ks_codes (snd (createCredentialOffer iss d now sclock req st)) = ks_codes st"
  by (auto simp: createCredentialOffer_def createCredentialOfferByReference_def Let_def split: option.splits prod.splits)

context code_store
begin

text \<open>An operation on one key leaves the others.\<close>

definition spares_others :: "'s \<Rightarrow> 's \<Rightarrow> string \<Rightarrow> bool" where
  "spares_others s s' k = (ok s' \<and> (\<forall>k' r n. k' \<noteq> k \<longrightarrow> stored_as s k' = Some (r, n) \<longrightarrow> stored_as s' k' = Some (r, n)))"

lemma consume_spares: "ok s \<Longrightarrow> po_Consume ops k want m accept s = (result, called, s') \<Longrightarrow> spares_others s s' k"
  using consume_ok consume_keeps by (metis spares_others_def)

lemma invalidate_spares: "ok s \<Longrightarrow> spares_others s (snd (po_Invalidate ops k s)) k"
  using invalidate_ok invalidate_keeps by (metis spares_others_def prod.collapse)

lemma spares_others_trans: "spares_others s s' k \<Longrightarrow> spares_others s' s'' k \<Longrightarrow> spares_others s s'' k"
  by (simp add: spares_others_def)

lemma spares_others_refl: "ok s \<Longrightarrow> spares_others s s k"
  by (simp add: spares_others_def)

lemma consumePreAuthorizedCode_spares:
  assumes "ok (ks_codes st)"
  shows "spares_others (ks_codes st) (ks_codes (snd (consumePreAuthorizedCode iss d ops req accept st)))
    (code_key d iss (er_PreAuthorizedCode req))"
proof -
  let ?key = "code_key d iss (er_PreAuthorizedCode req)"
  obtain result called s where run: "po_Consume ops ?key
      (txCodeHash (kd_hmac d) (er_PreAuthorizedCode req) (er_TxCode req)) (is_MaxTxCodeAttempts iss)
      (\<lambda>r. case fst (owned_accept iss accept (ks_random st) r) of Inl _ \<Rightarrow> Some ''refused'' | Inr _ \<Rightarrow> None) (ks_codes st) =
      (result, called, s)"
    by (metis prod_cases3)
  note c = consume_spares [OF assms run]
  then have i: "spares_others (ks_codes st) (snd (po_Invalidate ops ?key s)) ?key"
    using invalidate_spares spares_others_trans by (metis spares_others_def)
  have "ks_codes (snd (consumePreAuthorizedCode iss d ops req accept st)) \<in> {s, snd (po_Invalidate ops ?key s)}"
    unfolding consumePreAuthorizedCode_def Let_def run
    by (auto split: prod.splits sum.splits code_failure.splits pre_authorized_error.splits option.splits if_splits bool.splits)
  with c i show ?thesis by auto
qed

lemma redeem_spares:
  assumes "ok (ks_codes st)"
  shows "spares_others (ks_codes st) (ks_codes (snd (redeemPreAuthorizedCode iss d (Some ops) now req st)))
    (code_key d iss (er_PreAuthorizedCode req))"
proof -
  have "spares_others (ks_codes st) (ks_codes st') (code_key d iss (er_PreAuthorizedCode req))"
    if "consumePreAuthorizedCode iss d ops req accept st = (r, st')" for accept r st'
    using consumePreAuthorizedCode_spares [OF assms, of iss d req accept] that by simp
  then show ?thesis
    using spares_others_refl [OF assms] by (auto simp: redeemPreAuthorizedCode_def split: sum.splits prod.splits)
qed

text \<open>Storing a code leaves the others that have not expired.\<close>

lemma store_spares:
  assumes "ok (ks_codes st)" "storePreAuthorizedCode iss d ops sclock code txCode rec st = (r, st')"
  shows "ok (ks_codes st') \<and> (\<forall>k' r' n. k' \<noteq> code_key d iss code \<longrightarrow> stored_as (ks_codes st) k' = Some (r', n) \<longrightarrow>
    \<not> expired sclock (pa_ExpiresAt r') \<longrightarrow> stored_as (ks_codes st') k' = Some (r', n))"
proof -
  define rec' where "rec' = rec \<lparr> pa_Owner := storeOwner iss, pa_TxCodeHash := txCodeHash (kd_hmac d) code txCode \<rparr>"
  let ?key = "code_key d iss code"
  obtain b s where issue: "po_Issue ops sclock ?key rec' (ks_codes st) = (b, s)" by fastforce
  obtain result called s2 where run: "po_Consume ops ?key (pa_TxCodeHash rec') 0 (\<lambda>_. Some ''reading the record back'') s = (result, called, s2)"
    by (metis prod_cases3)
  have ok: "ok s" using issue_ok [OF assms(1) issue] .
  have "spares_others s s2 ?key" using consume_spares [OF ok run] .
  moreover then have "spares_others s (snd (po_Invalidate ops ?key s2)) ?key"
    using invalidate_spares spares_others_trans by (metis spares_others_def)
  moreover have "ks_codes st' \<in> {s, s2, snd (po_Invalidate ops ?key s2)}"
    using assms(2) issue run unfolding storePreAuthorizedCode_def Let_def rec'_def [symmetric]
    by (auto simp: rec'_def split: bool.splits if_splits sum.splits prod.splits)
  ultimately have "spares_others s (ks_codes st') ?key" using spares_others_refl [OF ok] by auto
  with issue_keeps [OF assms(1) issue] show ?thesis by (auto simp: spares_others_def)
qed

end

lemma offer_stores:
  assumes "CreatePreAuthorizedOffer iss d (Some ops) now sclock now' req st = (r, st')"
  obtains "ks_codes st' = ks_codes st"
  | code rest q st1 where "randomID (ks_random st) preAuthorizedCodeBytes = Some (code, rest)"
    "storePreAuthorizedCode iss d ops sclock code (cr_TxCode req) (code_record req now) (st \<lparr> ks_random := rest \<rparr>) = (q, st1)"
    "ks_codes st' = ks_codes st1"
proof (cases "randomID (ks_random st) preAuthorizedCodeBytes")
  case None
  with assms have "ks_codes st' = ks_codes st"
    by (auto simp: CreatePreAuthorizedOffer_def split: if_splits option.splits)
  then show ?thesis by (rule that(1))
next
  case (Some cr)
  obtain code rest where cr: "cr = (code, rest)" by fastforce
  obtain q st1 where store: "storePreAuthorizedCode iss d ops sclock code (cr_TxCode req) (code_record req now) (st \<lparr> ks_random := rest \<rparr>) = (q, st1)"
    by fastforce
  let ?offer = "\<lparr> or_CredentialConfigurationIDs = cr_CredentialConfigurationIDs req, or_Grants = Some (code_grants req code),
      or_ByReference = cr_ByReference req \<rparr>"
  have "ks_codes st' = ks_codes st \<or> ks_codes st' = ks_codes st1"
    using assms Some cr store createCredentialOffer_codes [of iss d now' sclock ?offer st1]
    by (auto simp: CreatePreAuthorizedOffer_def Let_def split: if_splits option.splits)
  with that Some cr store show ?thesis by metis
qed

context code_store
begin

text \<open>A wrong request with the code itself leaves its record, with one more guess counted at most.\<close>

definition still_held :: "'s \<Rightarrow> string \<Rightarrow> pre_authorized_record \<Rightarrow> int \<Rightarrow> bool" where
  "still_held s k rec n = (ok s \<and> (\<exists>n' \<le> n. stored_as s k = Some (rec, n')))"

lemma consume_wrong:
  assumes "ok (ks_codes st)" "stored_as (ks_codes st) (code_key d iss (er_PreAuthorizedCode req)) = Some (rec, n)"
    and "pa_TxCodeHash rec \<noteq> txCodeHash (kd_hmac d) (er_PreAuthorizedCode req) (er_TxCode req)"
    and "n + (if er_TxCode req = [] then 0 else 1) < is_MaxTxCodeAttempts iss"
    and "consumePreAuthorizedCode iss d ops req accept st = (r, st')"
  shows "(\<exists>e. r = Inl e) \<and> still_held (ks_codes st') (code_key d iss (er_PreAuthorizedCode req)) rec (n + (if er_TxCode req = [] then 0 else 1))"
proof -
  let ?want = "txCodeHash (kd_hmac d) (er_PreAuthorizedCode req) (er_TxCode req)" and ?guess = "if er_TxCode req = [] then 0 else 1 :: int"
  obtain result called s where run: "po_Consume ops (code_key d iss (er_PreAuthorizedCode req)) ?want (is_MaxTxCodeAttempts iss)
      (\<lambda>r. case fst (owned_accept iss accept (ks_random st) r) of Inl _ \<Rightarrow> Some ''refused'' | Inr _ \<Rightarrow> None) (ks_codes st) =
      (result, called, s)"
    by (metis prod_cases3)
  have less: "(if ?want = [] then 0 else 1) \<le> ?guess" by (simp add: txCodeHash_def)
  with assms(4) have "n + (if ?want = [] then 0 else 1) < is_MaxTxCodeAttempts iss" by linarith
  note c = consume_refuses [OF assms(1,2,3) this run]
  then obtain n' where n': "n' \<le> n + (if ?want = [] then 0 else 1)"
    "stored_as s (code_key d iss (er_PreAuthorizedCode req)) = Some (rec, n')" by blast
  from c obtain e k where result: "result = Inl (CodeFails e, k)" "e = WrongTxCode \<longrightarrow> k < is_MaxTxCodeAttempts iss" by blast
  then have "(\<exists>e. r = Inl e) \<and> ks_codes st' = s"
    using assms(5) run unfolding consumePreAuthorizedCode_def Let_def
    by (auto split: pre_authorized_error.splits option.splits sum.splits if_splits)
  moreover have "n' \<le> n + ?guess" using n'(1) less by linarith
  ultimately show ?thesis using n'(2) consume_ok [OF assms(1) run] by (auto simp: still_held_def)
qed

lemma redeem_wrong:
  assumes "ok (ks_codes st)" "stored_as (ks_codes st) (code_key d iss (er_PreAuthorizedCode req)) = Some (rec, n)"
    and "wrong_request d (is_MaxTxCodeAttempts iss) (er_PreAuthorizedCode req) txCode iss req"
    and "pa_TxCodeHash rec = txCodeHash (kd_hmac d) (er_PreAuthorizedCode req) txCode"
    and "n + (if er_TxCode req = [] then 0 else 1) < is_MaxTxCodeAttempts iss"
    and "redeemPreAuthorizedCode iss d (Some ops) now req st = (r, st')"
  shows "(\<exists>e. r = Inl e) \<and> still_held (ks_codes st') (code_key d iss (er_PreAuthorizedCode req)) rec (n + (if er_TxCode req = [] then 0 else 1))"
proof -
  let ?held = "still_held (ks_codes st) (code_key d iss (er_PreAuthorizedCode req)) rec (n + (if er_TxCode req = [] then 0 else 1))"
  have here: ?held using assms(1,2) by (auto simp: still_held_def)
  show ?thesis
  proof (cases "\<exists>e. preAuthorizedBinding iss req = Inl e")
    case True
    with assms(6) here show ?thesis by (auto simp: redeemPreAuthorizedCode_def split: if_splits)
  next
    case False
    with assms(3,4) have "pa_TxCodeHash rec \<noteq> txCodeHash (kd_hmac d) (er_PreAuthorizedCode req) (er_TxCode req)"
      by (auto simp: wrong_request_def)
    note wrong = consume_wrong [OF assms(1,2) this assms(5)]
    show ?thesis
      using assms(6) here unfolding redeemPreAuthorizedCode_def
      by (auto split: if_splits sum.splits prod.splits dest: wrong)
  qed
qed

lemma use_keeps:
  assumes "ok s" "stored_as s (preAuthorizedCodeKey (kd_sha256 d) owner code) = Some (rec, n)"
    and "spares d m (pa_ExpiresAt rec) owner code txCode u" "pa_TxCodeHash rec = txCodeHash (kd_hmac d) code txCode"
    and "n + (if guesses owner code u then 1 else 0) < m"
    and key: "\<And>o1 c1. preAuthorizedCodeKey (kd_sha256 d) o1 c1 = preAuthorizedCodeKey (kd_sha256 d) owner code \<Longrightarrow>
      o1 = owner \<and> c1 = code"
  shows "still_held (use_store d ops u s) (preAuthorizedCodeKey (kd_sha256 d) owner code) rec (n + (if guesses owner code u then 1 else 0))"
proof -
  let ?key = "preAuthorizedCodeKey (kd_sha256 d) owner code"
  have kept: "still_held s' ?key rec (n + (if guesses owner code u then 1 else 0))"
    if "ok s'" "stored_as s' ?key = Some (rec, n)" for s'
    using that by (auto simp: still_held_def)
  have token: "still_held (ks_codes st') ?key rec (n + (if guesses owner code u then 1 else 0))"
    if u: "use_request u = Some (iss, req)" "use_target u = Some (storeOwner iss, er_PreAuthorizedCode req)"
      and run: "redeemPreAuthorizedCode iss d (Some ops) now req (st \<lparr> ks_codes := s \<rparr>) = (r, st')" for iss now req st r st'
  proof (cases "storeOwner iss = owner \<and> er_PreAuthorizedCode req = code")
    case True
    with assms(3) u have wrong: "wrong_request d m code txCode iss req" by (auto simp: spares_def)
    then have "m = is_MaxTxCodeAttempts iss" by (simp add: wrong_request_def)
    moreover have "(if guesses owner code u then 1 else 0) = (if er_TxCode req = [] then 0 else 1 :: int)"
      using True u by (simp add: guesses_def)
    ultimately show ?thesis
      using redeem_wrong [of "st \<lparr> ks_codes := s \<rparr>" d iss req rec n txCode now r st'] True assms(1,2,4,5) wrong run by simp
  next
    case False
    then have "?key \<noteq> code_key d iss (er_PreAuthorizedCode req)" using key [of "storeOwner iss" "er_PreAuthorizedCode req"] by auto
    with redeem_spares [of "st \<lparr> ks_codes := s \<rparr>" iss d now req] assms(1,2) run show ?thesis
      by (intro kept) (simp_all add: spares_others_def)
  qed
  show ?thesis
  proof (cases u)
    case (OfferUse iss now sclock now' req st)
    obtain r st' where run: "CreatePreAuthorizedOffer iss d (Some ops) now sclock now' req (st \<lparr> ks_codes := s \<rparr>) = (r, st')" by fastforce
    from run have "ok (ks_codes st') \<and> stored_as (ks_codes st') ?key = Some (rec, n)"
    proof (cases rule: offer_stores)
      case 1
      with assms show ?thesis by simp
    next
      case (2 c rest q st1)
      have "?key \<noteq> code_key d iss c"
        using key [of "storeOwner iss" c] assms(3) OfferUse 2(1) by (auto simp: spares_def)
      moreover have "\<not> expired sclock (pa_ExpiresAt rec)" using assms(3) OfferUse by (simp add: spares_def)
      moreover note store_spares [OF _ 2(2)]
      ultimately show ?thesis using assms(1,2) 2(3) by simp
    qed
    with OfferUse run kept show ?thesis by simp
  next
    case (StoreUse iss sclock c txc r st)
    obtain q st1 where run: "storePreAuthorizedCode iss d ops sclock c txc r (st \<lparr> ks_codes := s \<rparr>) = (q, st1)" by fastforce
    have "?key \<noteq> code_key d iss c"
      using key [of "storeOwner iss" c] assms(3) StoreUse by (auto simp: spares_def)
    moreover have "\<not> expired sclock (pa_ExpiresAt rec)" using assms(3) StoreUse by (simp add: spares_def)
    moreover note store_spares [OF _ run]
    ultimately show ?thesis using assms(1,2) StoreUse run kept by (auto simp: IssuePreAuthorizedCode_def)
  next
    case (ExchangeUse iss now req st)
    obtain r st' where run: "redeemPreAuthorizedCode iss d (Some ops) now req (st \<lparr> ks_codes := s \<rparr>) = (r, st')" by fastforce
    have "ks_codes (snd (ExchangePreAuthorizedCode iss d (Some ops) now req (st \<lparr> ks_codes := s \<rparr>))) \<in> {s, ks_codes st'}"
      using run by (auto simp: ExchangePreAuthorizedCode_def split: sum.splits option.splits)
    with token [OF _ _ run] kept [OF assms(1,2)] ExchangeUse show ?thesis by auto
  next
    case (RedeemUse iss now req st)
    obtain r st' where run: "redeemPreAuthorizedCode iss d (Some ops) now req (st \<lparr> ks_codes := s \<rparr>) = (r, st')" by fastforce
    have "ks_codes (snd (RedeemPreAuthorizedCode iss d (Some ops) now req (st \<lparr> ks_codes := s \<rparr>))) \<in> {s, ks_codes st'}"
      using run by (auto simp: RedeemPreAuthorizedCode_def)
    with token [OF _ _ run] kept [OF assms(1,2)] RedeemUse show ?thesis by auto
  qed
qed

lemma uses_keep:
  assumes "ok s" "stored_as s (preAuthorizedCodeKey (kd_sha256 d) owner code) = Some (rec, n)"
    and "\<forall>u \<in> set us. spares d m (pa_ExpiresAt rec) owner code txCode u"
    and "pa_TxCodeHash rec = txCodeHash (kd_hmac d) code txCode" "n + int (length (filter (guesses owner code) us)) < m"
    and key: "\<And>o1 c1. preAuthorizedCodeKey (kd_sha256 d) o1 c1 = preAuthorizedCodeKey (kd_sha256 d) owner code \<Longrightarrow>
      o1 = owner \<and> c1 = code"
  shows "ok (fold (use_store d ops) us s) \<and>
    (\<exists>n' < m. stored_as (fold (use_store d ops) us s) (preAuthorizedCodeKey (kd_sha256 d) owner code) = Some (rec, n'))"
  using assms(1,2,3,5)
proof (induction us arbitrary: s n)
  case (Cons u us)
  have "n + (if guesses owner code u then 1 else 0) < m" using Cons.prems(4) by (auto split: if_splits)
  from use_keeps [OF Cons.prems(1,2) _ assms(4) this key] Cons.prems(3)
  obtain n' where n': "ok (use_store d ops u s)" "n' \<le> n + (if guesses owner code u then 1 else 0)"
    "stored_as (use_store d ops u s) (preAuthorizedCodeKey (kd_sha256 d) owner code) = Some (rec, n')"
    by (auto simp: still_held_def)
  have "n' + int (length (filter (guesses owner code) us)) < m" using n'(2) Cons.prems(4) by (auto split: if_splits)
  from Cons.IH [OF n'(1,3) _ this] Cons.prems(3) show ?case by simp
qed auto

lemma store_saves:
  assumes "ok (ks_codes st)" "storePreAuthorizedCode iss d ops sclock code txCode rec st = (None, st')"
    and "stored_as (ks_codes st) (code_key d iss code) = None"
  shows "stored_as (ks_codes st') (code_key d iss code) =
    Some (rec \<lparr> pa_Owner := storeOwner iss, pa_TxCodeHash := txCodeHash (kd_hmac d) code txCode \<rparr>, 0)"
proof -
  define rec' where "rec' = rec \<lparr> pa_Owner := storeOwner iss, pa_TxCodeHash := txCodeHash (kd_hmac d) code txCode \<rparr>"
  let ?key = "code_key d iss code"
  obtain b s where issue: "po_Issue ops sclock ?key rec' (ks_codes st) = (b, s)" by fastforce
  obtain result called s2 where run: "po_Consume ops ?key (pa_TxCodeHash rec') 0 (\<lambda>_. Some ''reading the record back'') s = (result, called, s2)"
    by (metis prod_cases3)
  have b: "b" using assms(2) issue by (auto simp: storePreAuthorizedCode_def Let_def rec'_def split: bool.splits)
  have saved: "stored_as s ?key = Some (rec', 0)" using issue_saves [OF assms(1) _ assms(3)] issue b by simp
  moreover have "stored_as s2 ?key = stored_as s ?key"
    using consume_called [OF issue_ok [OF assms(1) issue] saved _ _ run] by simp
  moreover have "ks_codes st' \<in> {s, s2}"
    using assms(2) issue run b unfolding storePreAuthorizedCode_def Let_def
    by (auto simp: rec'_def split: if_splits sum.splits)
  ultimately show ?thesis by (auto simp: rec'_def)
qed

lemma redeem_succeeds:
  assumes "ok (ks_codes st)" "stored_as (ks_codes st) (code_key d iss (er_PreAuthorizedCode req)) = Some (rec, n)"
    and "pa_TxCodeHash rec = txCodeHash (kd_hmac d) (er_PreAuthorizedCode req) (er_TxCode req)"
    and "is_MaxTxCodeAttempts iss \<le> 0 \<or> n < is_MaxTxCodeAttempts iss" "issuer_owns iss (pa_Owner rec)"
    and "er_PreAuthorizedCode req \<noteq> []" "preAuthorizedBinding iss req = Inr v"
    and "requestedConfigurations iss (er_AuthorizationDetails req) = Inr requested"
    and "acceptPreAuthorizedCode iss rec requested now (ks_random st) = (Inr details, rest)"
  shows "\<exists>st'. redeemPreAuthorizedCode iss d (Some ops) now req st =
    (Inr \<lparr> rc_ClientID = vt_ClientID v, rc_Subject = pa_Subject rec, rc_Scope = pa_Scopes rec,
      rc_AuthorizationDetails = details, rc_binding = v, rc_record = rec \<rparr>, st')"
proof -
  let ?accept = "\<lambda>r. acceptPreAuthorizedCode iss r requested now (ks_random st)"
  let ?check = "owned_accept iss ?accept (ks_random st)"
  have check: "?check rec = (Inr details, rest)" using assms(5,9) by (simp add: owned_accept_def)
  obtain result called s where run: "po_Consume ops (code_key d iss (er_PreAuthorizedCode req))
      (txCodeHash (kd_hmac d) (er_PreAuthorizedCode req) (er_TxCode req)) (is_MaxTxCodeAttempts iss)
      (\<lambda>r. case fst (?check r) of Inl _ \<Rightarrow> Some ''refused'' | Inr _ \<Rightarrow> None) (ks_codes st) = (result, called, s)"
    by (metis prod_cases3)
  from consume_called [OF assms(1,2,3,4) run] check have "called = Some rec" "result = Inr rec" by auto
  with run check have "\<exists>st'. consumePreAuthorizedCode iss d ops req ?accept st = (Inr (rec, details), st')"
    by (simp add: consumePreAuthorizedCode_def Let_def)
  then show ?thesis using assms(6,7,8) by (auto simp: redeemPreAuthorizedCode_def)
qed

end





text \<open>The record of an offer, as the store keeps it.\<close>

definition offered_record :: "offer_deps \<Rightarrow> ('a) code_issuer_scheme \<Rightarrow> int \<Rightarrow> code_offer_request \<Rightarrow> string \<Rightarrow> pre_authorized_record" where
  "offered_record d iss now req code =
     (code_record req now) \<lparr> pa_Owner := storeOwner iss, pa_TxCodeHash := txCodeHash (kd_hmac d) code (cr_TxCode req) \<rparr>"

lemma offered_record_fields [simp]:
  "pa_ExpiresAt (offered_record d iss now req code) = store_time (now + cr_Lifetime req)"
  "pa_Owner (offered_record d iss now req code) = storeOwner iss" "pa_Subject (offered_record d iss now req code) = cr_Subject req"
  "pa_Scopes (offered_record d iss now req code) = cr_Scopes req"
  "pa_TxCodeHash (offered_record d iss now req code) = txCodeHash (kd_hmac d) code (cr_TxCode req)"
  "pa_CredentialConfigurationIDs (offered_record d iss now req code) =
     (if cr_CredentialIdentifiers req then cr_CredentialConfigurationIDs req else [])"
  by (simp_all add: offered_record_def code_record_def)




section \<open>Properties\<close>

text \<open>C5: An access token is issued only for a code of this Issuer's that was in the store and now is not, not expired, with the
  Transaction Code it was issued with; it is for the record's subject and scopes, its authorization details name only
  configurations the record grants, and it is bound to the DPoP key, and under \<open>VerifiedPreAuthorizedCode\<close> the client, the
  Authorization Server verified.\<close>

theorem code_exchanged:
  assumes "codes_ok (ks_codes st)" "ExchangePreAuthorizedCode iss d (Some memory_codes) now req st = (Inr res, st')"
  shows "\<exists>rec v issue. redeemed_for memory_held d iss now req (ks_codes st) (ks_codes st') rec (xr_AuthorizationDetails res) \<and>
    xr_Subject res = pa_Subject rec \<and> xr_Scope res = pa_Scopes rec \<and> er_Verified req = Some v \<and> vt_DPoPThumbprint v \<noteq> [] \<and>
    (is_CodeAuthentication iss = Some VerifiedPreAuthorizedCode \<longleftrightarrow> vt_ClientID v \<noteq> []) \<and> kd_AccessTokens d = Some issue \<and>
    issue \<lparr> tp_Scope = pa_Scopes rec, tp_Thumbprint = vt_DPoPThumbprint v, tp_Subject = pa_Subject rec,
      tp_ClientID = vt_ClientID v, tp_Issuer = is_Issuer iss, tp_Audience = is_Issuer iss, tp_Now = now,
      tp_Lifetime = is_AccessTokenLifetime iss, tp_AuthorizationDetails = xr_AuthorizationDetails res \<rparr> = Some (xr_AccessToken res)"
proof -
  obtain rc issue where redeem: "redeemPreAuthorizedCode iss d (Some memory_codes) now req st = (Inr rc, st')"
    and issue: "kd_AccessTokens d = Some issue" "issue (access_token_params iss now rc) = Some (xr_AccessToken res)"
    and res: "xr_AuthorizationDetails res = rc_AuthorizationDetails rc" "xr_Subject res = rc_Subject rc" "xr_Scope res = rc_Scope rc"
    using assms(2) by (auto simp: ExchangePreAuthorizedCode_def split: if_splits sum.splits prod.splits option.splits bind_splits)
  note r = memcodes.redeem_ok [OF assms(1) redeem]
  then have "er_Verified req = Some (rc_binding rc)" "vt_DPoPThumbprint (rc_binding rc) \<noteq> []"
    "is_CodeAuthentication iss = Some VerifiedPreAuthorizedCode \<longleftrightarrow> vt_ClientID (rc_binding rc) \<noteq> []"
    by (auto simp: preAuthorizedBinding_def Let_def split: option.splits if_splits)
  with r issue res show ?thesis
    by (intro exI [of _ "rc_record rc"] exI [of _ "rc_binding rc"] exI [of _ issue]) (simp add: access_token_params_def)
qed


text \<open>At an input: an offer with a Transaction Code, which another Issuer then tries to redeem.\<close>

definition code_config :: credential_configuration where
  "code_config = \<lparr> cc_Format = CredentialFormat, cc_VCT = ''v'', cc_Scope = ''pid'', cc_ProofTypesSupported = [] \<rparr>"

definition code_sample_issuer :: "string \<Rightarrow> code_issuer" where
  "code_sample_issuer i = \<lparr> is_Issuer = i, is_production = True, is_NonceEndpoint = True, is_NonceLifetime = 0, is_NonceKeys = [],
     is_BatchSize = None, is_MaxProofAge = 0, is_AuthorizationServers = [], is_Configurations = [(''pid'', code_config)], is_RequestEncryption = None,
     is_ResponseEncryption = None, is_NotificationEndpoint = False, is_DeferredEndpoint = False, is_NotificationLifetime = 0,
     is_DeferredLifetime = 0, is_PollInterval = 0, is_CodeAuthentication = Some AnonymousPreAuthorizedCode,
     is_MaxTxCodeAttempts = 5, is_AccessTokenLifetime = 60, is_OfferEndpoint = None, is_OfferLifetime = 0 \<rparr>"

definition code_sample_deps :: offer_deps where
  "code_sample_deps = \<lparr> kd_sha256 = map (\<lambda>b. b mod 256), kd_hmac = (\<lambda>k m. m), kd_issuer_url = (\<lambda>_. True), kd_offer_json = (\<lambda>_. []),
     kd_QueryEscape = (\<lambda>s. s), kd_JoinPath = (\<lambda>u p. u @ p), kd_AccessTokens = Some (\<lambda>p. Some ''token'') \<rparr>"

definition code_sample_state :: "pre_authorized_store code_state" where
  "code_sample_state = \<lparr> ks_codes = \<lparr> ps_issued = [], ps_attempts = [], ps_prune = \<lparr> pr_at = 0 \<rparr> \<rparr>, ks_random = replicate 64 1,
     ks_kept = False, ks_offers = None \<rparr>"


definition sample_code :: string where "sample_code = EncodeToString (replicate 32 1)"

definition code_token_request :: exchange_request where
  "code_token_request = \<lparr> er_PreAuthorizedCode = sample_code, er_TxCode = ''123456'',
     er_Verified = Some \<lparr> vt_ClientID = [], vt_DPoPThumbprint = ''jkt'', vt_NextDPoPNonce = [] \<rparr>, er_AuthorizationDetails = [] \<rparr>"


lemma sample_code_nonempty: "sample_code \<noteq> []"
  by (simp add: sample_code_def EncodeToString_empty)








text \<open>And a code without one, redeemed.\<close>

definition code_sample_record :: pre_authorized_record where
  "code_sample_record = \<lparr> pa_Owner = ''https://i'', pa_TxCodeHash = [], pa_Scopes = [''pid''], pa_CredentialConfigurationIDs = [],
     pa_ExpiresAt = store_time 100, pa_Subject = ''u'' \<rparr>"

definition code_stored :: "pre_authorized_store code_state" where
  "code_stored = code_sample_state \<lparr> ks_codes := \<lparr> ps_issued =
     [(preAuthorizedCodeKey (kd_sha256 code_sample_deps) ''https://i'' sample_code, code_sample_record)],
     ps_attempts = [], ps_prune = \<lparr> pr_at = 0 \<rparr> \<rparr> \<rparr>"

lemma code_exchanged_witness:
  "\<exists>(rec :: pre_authorized_record) v. er_Verified (code_token_request \<lparr> er_TxCode := [] \<rparr>) = Some v \<and> vt_DPoPThumbprint v \<noteq> [] \<and> ''u'' = pa_Subject rec"
proof -
  let ?iss = "code_sample_issuer ''https://i''" and ?req = "code_token_request \<lparr> er_TxCode := [] \<rparr>"
  have binding: "preAuthorizedBinding ?iss ?req = Inr \<lparr> vt_ClientID = [], vt_DPoPThumbprint = ''jkt'', vt_NextDPoPNonce = [] \<rparr>"
    by (simp add: preAuthorizedBinding_def code_sample_issuer_def code_token_request_def)
  have ok: "codes_ok (ks_codes code_stored)" by (simp add: codes_ok_def code_stored_def code_attempts_def)
  have key: "memory_held (ks_codes code_stored) (code_key code_sample_deps ?iss (er_PreAuthorizedCode ?req)) = Some (code_sample_record, 0)"
    by (simp add: memory_held_def code_stored_def storeOwner_def code_attempts_def code_token_request_def code_sample_issuer_def)
  have "\<exists>st'. redeemPreAuthorizedCode ?iss code_sample_deps (Some memory_codes) 50 ?req code_stored =
      (Inr \<lparr> rc_ClientID = [], rc_Subject = ''u'', rc_Scope = [''pid''], rc_AuthorizationDetails = [],
        rc_binding = \<lparr> vt_ClientID = [], vt_DPoPThumbprint = ''jkt'', vt_NextDPoPNonce = [] \<rparr>, rc_record = code_sample_record \<rparr>, st')"
    using memcodes.redeem_succeeds [OF ok key _ _ _ _ binding, of None 50 "[]" "ks_random code_stored"] sample_code_nonempty
    by (simp add: code_sample_record_def code_token_request_def txCodeHash_def code_sample_issuer_def issuer_owns_def storeOwner_def
      requestedConfigurations_def acceptPreAuthorizedCode_def store_time_def)
  then obtain res st' where run: "ExchangePreAuthorizedCode ?iss code_sample_deps (Some memory_codes) 50 ?req code_stored = (Inr res, st')"
    and subject: "xr_Subject res = ''u''"
    by (auto simp: ExchangePreAuthorizedCode_def code_sample_deps_def)
  from code_exchanged [OF ok run] show ?thesis unfolding subject by blast
qed

end
