(* ===== verification/Status_Policy.thy ===== *)
theory Status_Policy
  imports Status_Bits Jwk
begin

text \<open>
  A Verifier's revocation decision: \<open>src/verifier/status_policy.go\<close> and \<open>status_ref.go\<close>. Which reference a verified
  credential carries, and whose signature its list needs: the credential's issuer, the certificate an mdoc names, or a
  Status Issuer the deployment accepts. Fetching and verifying a list (\<open>src/statuslist\<close>, \<open>src/identifierlist\<close>), parsing
  certificates and ISO/IEC 18013-5's rule for the signer of an mdoc's list (\<open>mdoc.StatusTrust\<close>) are parameters.
\<close>

section \<open>Verified credentials\<close>

record 'p cert =
  ce_Key :: "'p public_key"
  ce_Raw :: "nat list"
  ce_URIs :: "string list"

record mdoc_list_ref =
  ml_Idx :: nat
  ml_URI :: string
  ml_Certificate :: "nat list"

record mdoc_identifier_ref =
  mi_ID :: "nat list"
  mi_URI :: string
  mi_Certificate :: "nat list"

record mdoc_status =
  mst_IdentifierList :: "mdoc_identifier_ref option"
  mst_StatusList :: "mdoc_list_ref option"

record verified_credential =
  vcr_CredentialQueryID :: string
  vcr_Claims :: "(string, goval) gomap"
  vcr_MdocStatus :: "mdoc_status option"
  vcr_IssuerChain :: "nat list list"

datatype status_error =
    OnlyIdentifierList
  | NoMechanism
  | StatusNotObject
  | StatusClaim claim_error
  | NoReference string
  | UnboundSigner
  | IssuerChainParse
  | StatusTrustFails
  | StatusRefused string

text \<open>The reference, and whether its list is a CWT; \<open>None\<close> is \<open>ok\<close> false.\<close>

definition StatusListRef :: "verified_credential \<Rightarrow> status_error + (status_list_ref \<times> bool) option" where
  "StatusListRef vc =
     (case vcr_MdocStatus vc of
        Some st \<Rightarrow>
          (case mst_StatusList st of
             None \<Rightarrow> Inl (if mst_IdentifierList st \<noteq> None then OnlyIdentifierList else NoMechanism)
           | Some sl \<Rightarrow> Inr (Some (\<lparr> ref_Idx = ml_Idx sl, ref_URI = ml_URI sl \<rparr>, True)))
      | None \<Rightarrow>
          (case gm_get (vcr_Claims vc) ''status'' of
             None \<Rightarrow> Inr None
           | Some (GObj status) \<Rightarrow> rmap (\<lambda>ref. Some (ref, False)) (wrap_err StatusClaim (ParseStatusClaim status))
           | Some _ \<Rightarrow> Inl StatusNotObject))"

definition has_identifier_list :: "verified_credential \<Rightarrow> bool" where
  "has_identifier_list vc = (case vcr_MdocStatus vc of Some st \<Rightarrow> mst_IdentifierList st \<noteq> None | None \<Rightarrow> False)"

definition requireReferences :: "verified_credential list \<Rightarrow> status_error option" where
  "requireReferences vcs =
     first_err (\<lambda>_ vc.
        if (case StatusListRef vc of Inr (Some _) \<Rightarrow> False | _ \<Rightarrow> True) \<and> \<not> has_identifier_list vc
        then Some (NoReference (vcr_CredentialQueryID vc)) else None) 0 vcs"

section \<open>Whose list\<close>

type_synonym 'p signer_policy = "'p cert \<Rightarrow> 'p cert list list \<Rightarrow> bool"
type_synonym 'p issuer_policy = "string \<Rightarrow> 'p signer_policy"

text \<open>
  The signer a list needs: \<open>Options.Issuer\<close> and \<open>IssuerKey\<close>, an \<open>Options.UnboundSigner\<close> that decides, or any signer under
  the one certificate an mdoc names.
\<close>

datatype 'p list_signer =
    IssuerOrKey string "'p public_key option"
  | DecidedBy "'p signer_policy"
  | NamedRoot "nat list"

datatype 'p status_trust = TrustRoot "nat list" | TrustLeaf "'p signer_policy"

record 'p status_deps =
  sd_ParseCertificate :: "nat list \<Rightarrow> 'p cert option"
  sd_NamesIssuer :: "'p cert \<Rightarrow> string \<Rightarrow> bool"
  sd_StatusTrust :: "mdoc_list_ref option \<Rightarrow> 'p cert list \<Rightarrow> 'p status_trust option"

text \<open>A \<open>statuslist.Checker\<close>: what it says of a list and an index, or of an identifier, for a signer.\<close>

record 'p status_checker =
  sc_HasRoots :: bool
  sc_Hardened :: bool
  sc_Revocation :: bool
  sc_RequireValid :: "'p list_signer \<Rightarrow> status_list_ref \<Rightarrow> bool \<Rightarrow> string option"
  sc_NotRevoked :: "'p signer_policy option \<Rightarrow> mdoc_identifier_ref \<Rightarrow> 'p cert list \<Rightarrow> string option"

record 'p status_policy =
  sp_Checker :: "'p status_checker"
  sp_StatusIssuers :: "'p issuer_policy option"
  sp_RequireReference :: bool

definition AnyStatusListSigner :: "'p issuer_policy" where
  "AnyStatusListSigner = (\<lambda>issuer leaf chains. True)"

definition issuerName :: "'p status_deps \<Rightarrow> verified_credential \<Rightarrow> string" where
  "issuerName d vc =
     (let iss = (case gm_get (vcr_Claims vc) ''iss'' of Some (GStr s) \<Rightarrow> s | _ \<Rightarrow> []) in
      if iss \<noteq> [] then iss
      else (case vcr_IssuerChain vc of
          [] \<Rightarrow> []
        | der # _ \<Rightarrow>
            (case sd_ParseCertificate d der of
               None \<Rightarrow> []
             | Some leaf \<Rightarrow> (case ce_URIs leaf of [] \<Rightarrow> [] | uri # _ \<Rightarrow> uri))))"

definition issuerKey :: "'p status_deps \<Rightarrow> verified_credential \<Rightarrow> 'p public_key option" where
  "issuerKey d vc =
     (case vcr_IssuerChain vc of [] \<Rightarrow> None | der # _ \<Rightarrow> map_option ce_Key (sd_ParseCertificate d der))"

fun parse_path :: "'p status_deps \<Rightarrow> nat list list \<Rightarrow> status_error + 'p cert list" where
  "parse_path d [] = Inr []"
| "parse_path d (der # ders) =
     (case sd_ParseCertificate d der of
        None \<Rightarrow> Inl IssuerChainParse
      | Some c \<Rightarrow> rmap ((#) c) (parse_path d ders))"

definition issuerPath :: "'p status_deps \<Rightarrow> verified_credential \<Rightarrow> status_error + 'p cert list" where
  "issuerPath d vc = parse_path d (vcr_IssuerChain vc)"

definition unnamedStatusIssuer :: "'p issuer_policy \<Rightarrow> 'p signer_policy" where
  "unnamedStatusIssuer statusIssuers = statusIssuers []"

text \<open>\<open>SameKey\<close> takes a nil key as no key's.\<close>

definition statusOptionsFor ::
  "'p status_deps \<Rightarrow> string \<Rightarrow> 'p public_key option \<Rightarrow> 'p issuer_policy option \<Rightarrow> status_error + 'p list_signer" where
  "statusOptionsFor d issuer key statusIssuers =
     (case statusIssuers of
        None \<Rightarrow> (if issuer = [] \<and> key = None then Inl UnboundSigner else Inr (IssuerOrKey issuer key))
      | Some accepts \<Rightarrow>
          Inr (DecidedBy (\<lambda>leaf chains.
            (case key of Some k \<Rightarrow> SameKey (ce_Key leaf) k | None \<Rightarrow> False) \<or>
            issuer \<noteq> [] \<and> sd_NamesIssuer d leaf issuer \<or> accepts issuer leaf chains)))"

definition own_list_ref :: "verified_credential \<Rightarrow> mdoc_list_ref option" where
  "own_list_ref vc = (case vcr_MdocStatus vc of Some st \<Rightarrow> mst_StatusList st | None \<Rightarrow> None)"

definition mdocStatusChecker ::
  "'p status_deps \<Rightarrow> verified_credential \<Rightarrow> 'p issuer_policy option \<Rightarrow> status_error + 'p list_signer" where
  "mdocStatusChecker d vc statusIssuers =
     (let ref = own_list_ref vc in
      rbind (issuerPath d vc) (\<lambda>path.
        if (case ref of None \<Rightarrow> True | Some r \<Rightarrow> ml_Certificate r = []) \<and> path = [] then
          (case statusIssuers of None \<Rightarrow> Inl UnboundSigner | Some accepts \<Rightarrow> Inr (DecidedBy (unnamedStatusIssuer accepts)))
        else (case sd_StatusTrust d ref path of
            None \<Rightarrow> Inl StatusTrustFails
          | Some (TrustRoot c) \<Rightarrow> Inr (NamedRoot c)
          | Some (TrustLeaf policy) \<Rightarrow>
              Inr (DecidedBy (\<lambda>leaf chains. policy leaf chains \<or>
                (case statusIssuers of Some accepts \<Rightarrow> accepts [] leaf chains | None \<Rightarrow> False))))))"

definition requireNotOnIdentifierList ::
  "'p status_deps \<Rightarrow> 'p status_checker \<Rightarrow> 'p issuer_policy option \<Rightarrow> verified_credential \<Rightarrow> mdoc_identifier_ref
     \<Rightarrow> status_error option" where
  "requireNotOnIdentifierList d c statusIssuers vc ref =
     (case issuerPath d vc of
        Inl e \<Rightarrow> Some e
      | Inr path \<Rightarrow>
          (if path = [] \<and> mi_Certificate ref = [] then
             (case statusIssuers of
                None \<Rightarrow> Some UnboundSigner
              | Some accepts \<Rightarrow> map_option StatusRefused (sc_NotRevoked c (Some (unnamedStatusIssuer accepts)) ref path))
           else map_option StatusRefused (sc_NotRevoked c None ref path)))"

section \<open>Checking\<close>

text \<open>What is left once an identifier list has been checked.\<close>

definition require_list_valid ::
  "'p status_deps \<Rightarrow> 'p status_checker \<Rightarrow> 'p issuer_policy option \<Rightarrow> verified_credential \<Rightarrow> status_error option" where
  "require_list_valid d c statusIssuers vc =
     (case StatusListRef vc of
        Inl e \<Rightarrow> Some e
      | Inr None \<Rightarrow> None
      | Inr (Some (ref, cwt)) \<Rightarrow>
          (case (if cwt then mdocStatusChecker d vc statusIssuers
                 else statusOptionsFor d (issuerName d vc) (issuerKey d vc) statusIssuers) of
             Inl e \<Rightarrow> Some e
           | Inr signer \<Rightarrow> map_option StatusRefused (sc_RequireValid c signer ref cwt)))"

definition requireValid ::
  "'p status_deps \<Rightarrow> 'p status_checker \<Rightarrow> 'p issuer_policy option \<Rightarrow> verified_credential \<Rightarrow> status_error option" where
  "requireValid d c statusIssuers vc =
     (case vcr_MdocStatus vc of
        Some st \<Rightarrow>
          (case mst_IdentifierList st of
             Some ref \<Rightarrow>
               and_then (requireNotOnIdentifierList d c statusIssuers vc ref)
                 (if mst_StatusList st = None then None else require_list_valid d c statusIssuers vc)
           | None \<Rightarrow> require_list_valid d c statusIssuers vc)
      | None \<Rightarrow> require_list_valid d c statusIssuers vc)"

definition StatusPolicy_Check :: "'p status_deps \<Rightarrow> 'p status_policy \<Rightarrow> verified_credential list \<Rightarrow> status_error option" where
  "StatusPolicy_Check d p vcs =
     and_then (if sp_RequireReference p then requireReferences vcs else None)
       (first_err (\<lambda>_ vc. requireValid d (sp_Checker p) (sp_StatusIssuers p) vc) 0 vcs)"

datatype assurance = AssuranceDevelopment | AssuranceProduction

datatype decision_error = NoRoots | NotHardened | NoRevocation | StatusAndNoCheck | StatusUndecided

definition StatusPolicy_validate :: "'p status_policy \<Rightarrow> assurance \<Rightarrow> decision_error option" where
  "StatusPolicy_validate p level =
     (let c = sp_Checker p in
      if \<not> sc_HasRoots c then Some NoRoots
      else if level \<noteq> AssuranceProduction then None
      else if \<not> sc_Hardened c then Some NotHardened
      else if \<not> sc_Revocation c then Some NoRevocation
      else None)"

definition CheckStatusDecision :: "assurance \<Rightarrow> 'p status_policy option \<Rightarrow> bool \<Rightarrow> decision_error option" where
  "CheckStatusDecision level status noStatusCheck =
     (case status of
        Some p \<Rightarrow> (if noStatusCheck then Some StatusAndNoCheck else StatusPolicy_validate p level)
      | None \<Rightarrow> (if \<not> noStatusCheck \<and> level = AssuranceProduction then Some StatusUndecided else None))"

text \<open>\<open>Chain\<close>, over any answer.\<close>

fun accept_chain :: "(string \<Rightarrow> 'r \<Rightarrow> string option) option list \<Rightarrow> string \<Rightarrow> 'r \<Rightarrow> string option" where
  "accept_chain [] i result = None"
| "accept_chain (None # accepts) i result = accept_chain accepts i result"
| "accept_chain (Some accept # accepts) i result = and_then (accept i result) (accept_chain accepts i result)"

section \<open>What a passed check means\<close>

text \<open>
  A signer bound to the credential: its issuer by name or key, the certificate its MSO names, the document signer's
  rule, or a Status Issuer the deployment accepts. Never any signer under the roots.
\<close>

definition accepted_signer :: "'p status_deps \<Rightarrow> 'p issuer_policy option \<Rightarrow> verified_credential \<Rightarrow> 'p signer_policy" where
  "accepted_signer d statusIssuers vc leaf paths =
     ((\<exists>accepts. statusIssuers = Some accepts \<and> (accepts (issuerName d vc) leaf paths \<or> accepts [] leaf paths)) \<or>
      (\<exists>k. issuerKey d vc = Some k \<and> SameKey (ce_Key leaf) k) \<or>
      (issuerName d vc \<noteq> [] \<and> sd_NamesIssuer d leaf (issuerName d vc)) \<or>
      (\<exists>path rule. issuerPath d vc = Inr path \<and> sd_StatusTrust d (own_list_ref vc) path = Some (TrustLeaf rule) \<and>
         rule leaf paths))"

definition bound_signer :: "'p status_deps \<Rightarrow> 'p issuer_policy option \<Rightarrow> verified_credential \<Rightarrow> 'p list_signer \<Rightarrow> bool" where
  "bound_signer d statusIssuers vc signer =
     (case signer of
        IssuerOrKey issuer key \<Rightarrow>
          issuer = issuerName d vc \<and> key = issuerKey d vc \<and> (issuer \<noteq> [] \<or> key \<noteq> None)
      | NamedRoot c \<Rightarrow>
          (\<exists>path. issuerPath d vc = Inr path \<and> sd_StatusTrust d (own_list_ref vc) path = Some (TrustRoot c))
      | DecidedBy policy \<Rightarrow> (\<forall>leaf chains. policy leaf chains \<longrightarrow> accepted_signer d statusIssuers vc leaf chains))"

text \<open>
  A device is not on the identifier list its MSO names. Where the mdoc has an issuer chain or its MSO names a certificate, the list's
  signer is the one ISO/IEC 18013-5 12.3.6.2 ties to them, which the Checker enforces when no other policy decides; else it is
  one the deployment's policy accepts for an unnamed issuer, and there must be such a policy.
\<close>

definition not_on_identifier_list ::
  "'p status_deps \<Rightarrow> 'p status_checker \<Rightarrow> 'p issuer_policy option \<Rightarrow> verified_credential \<Rightarrow> mdoc_identifier_ref \<Rightarrow> bool" where
  "not_on_identifier_list d c statusIssuers vc ref =
     (\<exists>path. issuerPath d vc = Inr path \<and>
        (if path \<noteq> [] \<or> mi_Certificate ref \<noteq> [] then sc_NotRevoked c None ref path = None
         else \<exists>accepts policy. statusIssuers = Some accepts \<and> (\<forall>leaf chains. policy leaf chains \<longrightarrow> accepts [] leaf chains) \<and>
           sc_NotRevoked c (Some policy) ref path = None))"

text \<open>The status of a credential is settled: every reference it carries was read and found good under a bound signer.\<close>

definition status_settled ::
  "'p status_deps \<Rightarrow> 'p status_checker \<Rightarrow> 'p issuer_policy option \<Rightarrow> verified_credential \<Rightarrow> bool" where
  "status_settled d c statusIssuers vc =
     ((case StatusListRef vc of
         Inl e \<Rightarrow> e = OnlyIdentifierList
       | Inr None \<Rightarrow> True
       | Inr (Some (ref, cwt)) \<Rightarrow>
           \<exists>signer. bound_signer d statusIssuers vc signer \<and> sc_RequireValid c signer ref cwt = None) \<and>
      (\<forall>st ref. vcr_MdocStatus vc = Some st \<and> mst_IdentifierList st = Some ref \<longrightarrow>
         not_on_identifier_list d c statusIssuers vc ref))"

lemma statusOptionsFor_bound:
  "statusOptionsFor d (issuerName d vc) (issuerKey d vc) si = Inr signer \<Longrightarrow> bound_signer d si vc signer"
  by (auto simp: statusOptionsFor_def bound_signer_def accepted_signer_def split: option.splits if_splits)

lemma mdocStatusChecker_bound:
  assumes "mdocStatusChecker d vc si = Inr signer"
  shows "bound_signer d si vc signer"
proof -
  from assms obtain path where path: "issuerPath d vc = Inr path"
    by (auto simp: mdocStatusChecker_def rbind_Inr_iff Let_def)
  consider accepts where "si = Some accepts" "signer = DecidedBy (unnamedStatusIssuer accepts)"
    | c where "sd_StatusTrust d (own_list_ref vc) path = Some (TrustRoot c)" "signer = NamedRoot c"
    | policy where "sd_StatusTrust d (own_list_ref vc) path = Some (TrustLeaf policy)"
        "signer = DecidedBy (\<lambda>leaf chains. policy leaf chains \<or> (case si of Some accepts \<Rightarrow> accepts [] leaf chains | None \<Rightarrow> False))"
    using assms path by (auto simp: mdocStatusChecker_def Let_def split: option.splits if_splits status_trust.splits)
  then show ?thesis
  proof cases
    case 1
    then show ?thesis by (simp add: bound_signer_def accepted_signer_def unnamedStatusIssuer_def)
  next
    case 2
    with path show ?thesis by (simp add: bound_signer_def)
  next
    case 3
    with path show ?thesis by (simp add: bound_signer_def accepted_signer_def split: option.splits)
  qed
qed

lemma require_list_valid_None:
  assumes "require_list_valid d c si vc = None"
  shows "case StatusListRef vc of Inl e \<Rightarrow> False | Inr None \<Rightarrow> True
    | Inr (Some (ref, cwt)) \<Rightarrow> \<exists>signer. bound_signer d si vc signer \<and> sc_RequireValid c signer ref cwt = None"
proof -
  have "\<exists>signer. bound_signer d si vc signer \<and> sc_RequireValid c signer ref cwt = None"
    if "StatusListRef vc = Inr (Some (ref, cwt))" for ref cwt
  proof -
    from assms that obtain signer where "sc_RequireValid c signer ref cwt = None"
      and "(if cwt then mdocStatusChecker d vc si else statusOptionsFor d (issuerName d vc) (issuerKey d vc) si) = Inr signer"
      by (auto simp: require_list_valid_def split: sum.splits)
    then show ?thesis using statusOptionsFor_bound mdocStatusChecker_bound by (metis (full_types))
  qed
  with assms show ?thesis by (auto simp: require_list_valid_def split: sum.splits option.splits)
qed

lemma requireNotOnIdentifierList_None:
  assumes "requireNotOnIdentifierList d c si vc ref = None"
  shows "not_on_identifier_list d c si vc ref"
  using assms
  by (auto simp: requireNotOnIdentifierList_def not_on_identifier_list_def unnamedStatusIssuer_def split: sum.splits option.splits if_splits)

lemma requireValid_settled:
  assumes "requireValid d c si vc = None"
  shows "status_settled d c si vc"
proof (cases "vcr_MdocStatus vc")
  case None
  with assms have "require_list_valid d c si vc = None" by (simp add: requireValid_def)
  from require_list_valid_None [OF this] None show ?thesis
    by (auto simp: status_settled_def split: sum.splits option.splits)
next
  case (Some st)
  show ?thesis
  proof (cases "mst_IdentifierList st")
    case None
    with assms Some have "require_list_valid d c si vc = None" by (simp add: requireValid_def)
    from require_list_valid_None [OF this] None Some show ?thesis
      by (auto simp: status_settled_def split: sum.splits option.splits)
  next
    case ident: (Some ref)
    with assms Some have *: "requireNotOnIdentifierList d c si vc ref = None"
      and list: "mst_StatusList st \<noteq> None \<Longrightarrow> require_list_valid d c si vc = None"
      by (auto simp: requireValid_def split: if_splits)
    have "case StatusListRef vc of Inl e \<Rightarrow> e = OnlyIdentifierList | Inr None \<Rightarrow> True
      | Inr (Some (ref, cwt)) \<Rightarrow> \<exists>signer. bound_signer d si vc signer \<and> sc_RequireValid c signer ref cwt = None"
    proof (cases "mst_StatusList st")
      case None
      with Some ident show ?thesis by (simp add: StatusListRef_def)
    next
      case (Some sl)
      with require_list_valid_None [OF list] show ?thesis by (auto split: sum.splits option.splits)
    qed
    with requireNotOnIdentifierList_None [OF *] Some ident show ?thesis by (simp add: status_settled_def)
  qed
qed

lemma requireReferences_None:
  "requireReferences vcs = None \<longleftrightarrow>
     (\<forall>vc \<in> set vcs. (\<exists>ref. StatusListRef vc = Inr (Some ref)) \<or> has_identifier_list vc)"
proof -
  have "first_err (\<lambda>_. f) k vcs = None \<longleftrightarrow> (\<forall>vc \<in> set vcs. f vc = None)" for k and f :: "_ \<Rightarrow> status_error option"
    by (induction vcs arbitrary: k) (auto split: option.splits)
  moreover have "(case r of Inr (Some _) \<Rightarrow> False | _ \<Rightarrow> True) \<longleftrightarrow> (\<nexists>ref. r = Inr (Some ref))"
    for r :: "status_error + (status_list_ref \<times> bool) option"
    by (simp split: sum.splits option.splits)
  ultimately show ?thesis by (simp add: requireReferences_def)
qed

lemma StatusPolicy_Check_settles:
  assumes "StatusPolicy_Check d p vcs = None" and "vc \<in> set vcs"
  shows "status_settled d (sp_Checker p) (sp_StatusIssuers p) vc \<and>
    (sp_RequireReference p \<longrightarrow> (\<exists>ref. StatusListRef vc = Inr (Some ref)) \<or> has_identifier_list vc)"
proof
  from assms have "requireValid d (sp_Checker p) (sp_StatusIssuers p) vc = None"
    by (auto simp: StatusPolicy_Check_def first_err_None_iff in_set_conv_nth)
  then show "status_settled d (sp_Checker p) (sp_StatusIssuers p) vc" by (rule requireValid_settled)
  show "sp_RequireReference p \<longrightarrow> (\<exists>ref. StatusListRef vc = Inr (Some ref)) \<or> has_identifier_list vc"
    using assms by (simp add: StatusPolicy_Check_def requireReferences_None split: if_splits)
qed

text \<open>C15: A status policy that passes an answer has settled the status of each of its credentials: a reference was read, not
  skipped, and its list found it valid under a signer tied to that credential's issuer, or to a Status Issuer the deployment
  accepts; an mdoc with an identifier list is not on it, its signer the one its issuer chain or the named certificate fixes, or, where there is neither,
  a Status Issuer the deployment accepts; under \<open>RequireReference\<close> each has a reference.\<close>

theorem status_policy_settles:
  assumes "StatusPolicy_Check d p vcs = None" and "vc \<in> set vcs"
  shows "status_settled d (sp_Checker p) (sp_StatusIssuers p) vc \<and>
    (sp_RequireReference p \<longrightarrow> (\<exists>ref. StatusListRef vc = Inr (Some ref)) \<or> has_identifier_list vc)"
  using assms by (rule StatusPolicy_Check_settles)

text \<open>At an input: an SD-JWT VC that names its issuer and a list on which it is valid.\<close>

definition sample_status_deps :: "unit status_deps" where
  "sample_status_deps = \<lparr> sd_ParseCertificate = (\<lambda>_. None), sd_NamesIssuer = (\<lambda>_ _. False), sd_StatusTrust = (\<lambda>_ _. None) \<rparr>"

definition sample_checker :: "unit status_checker" where
  "sample_checker = \<lparr> sc_HasRoots = True, sc_Hardened = True, sc_Revocation = True,
     sc_RequireValid = (\<lambda>signer ref cwt.
       case signer of IssuerOrKey issuer _ \<Rightarrow> (if issuer = ''https://i'' \<and> ref_Idx ref = 7 then None else Some ''INVALID'')
       | _ \<Rightarrow> Some ''signer''),
     sc_NotRevoked = (\<lambda>_ _ _. Some ''revoked'') \<rparr>"

definition sample_policy :: "unit status_policy" where
  "sample_policy = \<lparr> sp_Checker = sample_checker, sp_StatusIssuers = None, sp_RequireReference = True \<rparr>"

definition sample_verified :: verified_credential where
  "sample_verified = \<lparr> vcr_CredentialQueryID = ''pid'',
     vcr_Claims = [(''iss'', GStr ''https://i''),
       (''status'', GObj [(''status_list'', GObj [(''idx'', GFloat (Finite 7)), (''uri'', GStr ''u'')])])],
     vcr_MdocStatus = None, vcr_IssuerChain = [] \<rparr>"

lemma sample_policy_passes: "StatusPolicy_Check sample_status_deps sample_policy [sample_verified] = None"
  by (simp add: StatusPolicy_Check_def sample_policy_def requireReferences_def StatusListRef_def sample_verified_def
      ParseStatusClaim_def requireValid_def require_list_valid_def issuerName_def issuerKey_def statusOptionsFor_def
      sample_checker_def)

theorem status_policy_settles_witness:
  "status_settled sample_status_deps sample_checker None sample_verified"
  using status_policy_settles [OF sample_policy_passes, of sample_verified] by (simp add: sample_policy_def)

end
