(* ===== verification/Verify_Response.thy ===== *)
theory Verify_Response
  imports Status_Policy Transactions Sdjwt_Verify Sdjwt_Select Dcql_Match Dcql_Answered
begin

text \<open>
  \<open>VerifyResponse\<close>, \<open>src/verifier/verify_response.go\<close> with \<open>issuer_authorization.go\<close> and \<open>issuer_chain.go\<close>: the
  presentations of an answer, each verified under the key its issuer resolves to and the nonce of this request, matched
  with the query, counted once, and what is left of the answer when some are discarded.

  Resolving an issuer's key (certificate paths), the \<open>trusted_authorities\<close> check and the deployment's callbacks are
  arguments. So are the packages \<open>oid4vpmdoc\<close>, \<open>credential/mdoc\<close> and \<open>internal/cose\<close>, of which \<open>verifyMdocPresentation\<close>
  calls the operations in \<open>mdoc_ops\<close>; its own decisions are modelled.
\<close>

section \<open>Requests, resolvers and results\<close>

text \<open>
  An \<open>*Error\<close> with its reason, and whether it wraps \<open>errNotThisRequest\<close>; any other error is the deployment's.
\<close>

datatype presentation_error = Refusal bool Reason string | Fault string

abbreviation failed :: "Reason \<Rightarrow> string \<Rightarrow> presentation_error" where
  "failed \<equiv> Refusal False"

text \<open>
  An \<open>SDJWTVCIssuerKeyResolver\<close>: an \<open>X5CIssuerKeyResolver\<close>, which verifies a chain once for the key and the paths; one
  that is also an \<open>SDJWTVCIssuerChainResolver\<close>; any other. The remaining fields are what the interfaces it implements say: its \<open>Validate\<close>, where it has one, \<open>LiveFetchHardened\<close>,
  \<open>BindsIssuerName\<close>, and whether it trusts a system pool.
\<close>

datatype 'p sdjwt_resolver =
    X5CResolver "claims \<Rightarrow> claims \<Rightarrow> ('p public_key \<times> string \<times> 'p cert list list) option"
  | ChainResolver "claims \<Rightarrow> claims \<Rightarrow> ('p public_key \<times> string) option" "claims \<Rightarrow> 'p cert list list option"
  | KeyResolver "claims \<Rightarrow> claims \<Rightarrow> ('p public_key \<times> string) option"

record 'p sdjwt_keys =
  sk_Resolver :: "'p sdjwt_resolver"
  sk_BindsIssuerName :: bool
  sk_Validate :: "bool option"
  sk_Hardened :: bool
  sk_SystemPool :: bool

text \<open>An \<open>MdocIssuerKeyResolver\<close>: an \<open>X5ChainIssuerKeyResolver\<close>, or any other.\<close>

datatype 'p mdoc_resolver =
    X5ChainResolver "nat list list \<Rightarrow> string \<Rightarrow> ('p public_key \<times> 'p cert list list) option"
  | OtherMdocResolver "nat list list \<Rightarrow> string \<Rightarrow> ('p public_key \<times> int) option"

text \<open>
  The layers of such a resolver, the outermost first, each \<open>Unwrap\<close> of the one before it: whether its \<open>Validate\<close>, if it has
  one, passes, whether it trusts a system pool, and its \<open>ResolveIssuerChains\<close> if it is an \<open>MdocIssuerChainResolver\<close>.
\<close>

record 'p resolver_layer =
  rl_Validate :: "bool option"
  rl_SystemPool :: bool
  rl_ResolveChains :: "(nat list list \<Rightarrow> string \<Rightarrow> 'p cert list list option) option"

record 'p mdoc_keys =
  mk_Resolver :: "'p mdoc_resolver"
  mk_Hardened :: bool
  mk_Layers :: "'p resolver_layer list"

text \<open>How many layers the checks of a resolver look through.\<close>

definition max_layers :: nat where "max_layers = 16"

definition mdocChainResolver ::
  "'p resolver_layer list \<Rightarrow> (nat list list \<Rightarrow> string \<Rightarrow> 'p cert list list option) option" where
  "mdocChainResolver layers =
     (case List.map_filter rl_ResolveChains (take max_layers layers) of [] \<Rightarrow> None | resolve # _ \<Rightarrow> Some resolve)"

record issuer_authorization =
  ia_CredentialQueryID :: string
  ia_Format :: string
  ia_Type :: string
  ia_AkaTypes :: "string list"
  ia_RequestedTypes :: "string list"
  ia_Issuer :: string
  ia_ClaimedIssuer :: string
  ia_MatchedTypes :: "string list"
  ia_IssuerChain :: "nat list list"
  ia_Claims :: claims

record discarded_presentation =
  dp_CredentialQueryID :: string
  dp_Code :: Reason
  dp_Reason :: string

record verify_result =
  vr_Credentials :: "verified_credential list"
  vr_Discarded :: "discarded_presentation list"

record ('p, 'k) vp_request =
  rq_Query :: query
  rq_VPToken :: "(string, string list) gomap"
  rq_ExpectedNonce :: string
  rq_IssuerKeys :: "'p sdjwt_keys option"
  rq_MaxClockSkew :: int
  rq_MaxKeyBindingAge :: int
  rq_MdocIssuerKeys :: "'p mdoc_keys option"
  rq_AuthoritiesChecker :: authorities_checker
  rq_CheckTrustedAuthorities :: "trusted_authorities_query list \<Rightarrow> nat list list \<Rightarrow> bool"
  rq_IssuerAuthorized :: "(issuer_authorization \<Rightarrow> bool) option"
  rq_AnyIssuerForAnyType :: bool
  rq_DistinctCredentials :: bool
  rq_Status :: "'p status_policy option"
  rq_NoStatusCheck :: bool
  rq_AllowUnrequestedClaims :: bool
  rq_Accept :: "(string \<Rightarrow> verify_result \<Rightarrow> string option) option"
  rq_statusByTransactions :: bool
  rq_ResponseEncryptionKey :: "'k option"
  rq_Origin :: string
  rq_ExpectedOrigins :: "string list"

text \<open>What \<open>mdoc.Verify\<close> returns of an MSO.\<close>

record 'p verified_mso =
  vm_DocType :: string
  vm_DeviceKey :: "'p public_key"
  vm_NameSpaces :: namespaces
  vm_Status :: "mdoc_status option"

record ('p, 'k, 'x) mdoc_ops =
  mo_UnmarshalDeviceResponse :: "nat list \<Rightarrow> 'x option"
  mo_IssuerAuth :: "'x \<Rightarrow> (nat list list \<times> nat list) option"
  mo_DocType :: "'x \<Rightarrow> string"
  mo_Verify :: "'x \<Rightarrow> 'p public_key \<Rightarrow> int \<Rightarrow> int \<Rightarrow> int \<Rightarrow> 'p verified_mso option"
  mo_CheckDocumentSigner :: "'p verified_mso \<Rightarrow> 'p cert list list \<Rightarrow> 'p cert list option"
  mo_DeviceSignature :: "'x \<Rightarrow> bool"
  mo_AlgForKey :: "'p public_key \<Rightarrow> int option"
  mo_VerifyDeviceSignature :: "'x \<Rightarrow> 'p public_key \<Rightarrow> int \<Rightarrow> nat list \<Rightarrow> bool"
  mo_CheckKeyAuthorizations :: "'x \<Rightarrow> 'p verified_mso \<Rightarrow> bool"
  mo_PublicKey :: "'k \<Rightarrow> 'p public_key"
  mo_Transcript :: "string \<Rightarrow> string \<Rightarrow> string \<Rightarrow> nat list \<Rightarrow> nat list option"
  mo_DCAPITranscript :: "string \<Rightarrow> string \<Rightarrow> nat list \<Rightarrow> nat list option"

text \<open>
  The package's dependencies, and the \<open>Verifier\<close>. \<open>vd_clock\<close> gives the three readings of the clock (for \<open>exp\<close>, \<open>nbf\<close> and
  the Key Binding JWT) while the n-th presentation for a credential query is verified.
\<close>

record ('p, 'k, 'x) vp_deps =
  vd_crypto :: "'p crypto"
  vd_ec :: "'p ec"
  vd_hash :: hash_fn
  vd_json :: "nat list \<Rightarrow> goval list option"
  vd_ratOf :: "string \<Rightarrow> rat option"
  vd_clock :: "string \<Rightarrow> nat \<Rightarrow> int \<times> int \<times> int"
  vd_status :: "'p status_deps"
  vd_X5CDERsFromHeader :: "claims \<Rightarrow> nat list list option"
  vd_OriginOK :: "string \<Rightarrow> bool"
  vd_mdoc :: "('p, 'k, 'x) mdoc_ops"
  vd_clientID :: string
  vd_ResponseURI :: string
  vd_Assurance :: assurance

section \<open>Issuers\<close>

text \<open>\<open>Equal\<close> of the first certificate's key with the key the credential verified with.\<close>

definition keyBoundChain :: "'p status_deps \<Rightarrow> nat list list \<Rightarrow> 'p public_key \<Rightarrow> nat list list" where
  "keyBoundChain d ders issuerPub =
     (case ders of
        [] \<Rightarrow> []
      | der # _ \<Rightarrow>
          (case sd_ParseCertificate d der of
             None \<Rightarrow> []
           | Some leaf \<Rightarrow> (if SameKey (ce_Key leaf) issuerPub then ders else [])))"

fun verifiedPath :: "'p cert list list \<Rightarrow> 'p public_key \<Rightarrow> nat list list" where
  "verifiedPath [] issuerPub = []"
| "verifiedPath ([] # paths) issuerPub = verifiedPath paths issuerPub"
| "verifiedPath ((leaf # rest) # paths) issuerPub =
     (if \<not> SameKey (ce_Key leaf) issuerPub then verifiedPath paths issuerPub
      else map ce_Raw (if rest \<noteq> [] then butlast (leaf # rest) else [leaf]))"

definition checkDocumentSignerPaths ::
  "('p, 'k, 'x) mdoc_ops \<Rightarrow> 'p cert list list \<Rightarrow> 'p public_key \<Rightarrow> 'p verified_mso \<Rightarrow> nat list list option" where
  "checkDocumentSignerPaths mo paths issuerPub verified =
     (case mo_CheckDocumentSigner mo verified paths of
        None \<Rightarrow> None
      | Some path \<Rightarrow> (let trusted = verifiedPath [path] issuerPub in if trusted = [] then None else Some trusted))"

definition CheckMdocIssuer ::
  "'p status_deps \<Rightarrow> ('p, 'k, 'x) mdoc_ops \<Rightarrow> (nat list list \<Rightarrow> string \<Rightarrow> 'p cert list list option) option \<Rightarrow> nat list list
     \<Rightarrow> string \<Rightarrow> 'p public_key \<Rightarrow> 'p verified_mso \<Rightarrow> nat list list option" where
  "CheckMdocIssuer d mo chainResolver x5chain docType issuerPub verified =
     (case chainResolver of
        None \<Rightarrow> Some []
      | Some resolve \<Rightarrow>
          (if keyBoundChain d x5chain issuerPub = [] then None
           else (case resolve x5chain docType of
               None \<Rightarrow> None
             | Some paths \<Rightarrow> checkDocumentSignerPaths mo paths issuerPub verified)))"

record 'p mdoc_issuer =
  mis_Key :: "'p public_key"
  mis_Alg :: int
  mis_Chains :: "'p cert list list option"

definition ResolveMdocIssuer ::
  "('p, 'k, 'x) mdoc_ops \<Rightarrow> 'p mdoc_resolver \<Rightarrow> nat list list \<Rightarrow> string \<Rightarrow> 'p mdoc_issuer option" where
  "ResolveMdocIssuer mo resolver x5chain docType =
     (case resolver of
        X5ChainResolver verify \<Rightarrow>
          (case verify x5chain docType of
             None \<Rightarrow> None
           | Some (key, paths) \<Rightarrow>
               map_option (\<lambda>alg. \<lparr> mis_Key = key, mis_Alg = alg, mis_Chains = Some paths \<rparr>) (mo_AlgForKey mo key))
      | OtherMdocResolver resolve \<Rightarrow>
          map_option (\<lambda>(key, alg). \<lparr> mis_Key = key, mis_Alg = alg, mis_Chains = None \<rparr>) (resolve x5chain docType))"

text \<open>\<open>MdocIssuer.Check\<close>.\<close>

definition mdoc_issuer_check ::
  "'p status_deps \<Rightarrow> ('p, 'k, 'x) mdoc_ops \<Rightarrow> 'p resolver_layer list \<Rightarrow> nat list list \<Rightarrow> string \<Rightarrow> 'p mdoc_issuer
     \<Rightarrow> 'p verified_mso \<Rightarrow> nat list list option" where
  "mdoc_issuer_check d mo layers x5chain docType issuer verified =
     (case mis_Chains issuer of
        None \<Rightarrow> CheckMdocIssuer d mo (mdocChainResolver layers) x5chain docType (mis_Key issuer) verified
      | Some paths \<Rightarrow>
          (if keyBoundChain d x5chain (mis_Key issuer) = [] then None
           else checkDocumentSignerPaths mo paths (mis_Key issuer) verified))"

section \<open>Which issuer may issue what\<close>

definition strings_of :: "goval list \<Rightarrow> string list" where
  "strings_of vs = List.map_filter as_str vs"

definition str_claim :: "claims \<Rightarrow> string \<Rightarrow> string" where
  "str_claim cs name = (case gm_get cs name of Some (GStr s) \<Rightarrow> s | _ \<Rightarrow> [])"

text \<open>The last loop of \<open>setSDJWTVCTypes\<close>.\<close>

fun matched_types :: "string list \<Rightarrow> string list \<Rightarrow> string list \<Rightarrow> string list" where
  "matched_types requested [] matched = matched"
| "matched_types requested (t # ts) matched =
     matched_types requested ts
       (if t \<noteq> [] \<and> t \<in> set requested \<and> t \<notin> set matched then matched @ [t] else matched)"

definition setSDJWTVCTypes :: "bool \<Rightarrow> credential_query \<Rightarrow> claims \<Rightarrow> issuer_authorization \<Rightarrow> issuer_authorization" where
  "setSDJWTVCTypes binds cq cs a =
     (let typ = str_claim cs ''vct''; iss = str_claim cs ''iss'';
          aka = (case gm_get cs ''aka_vcts'' of Some (GArr vs) \<Rightarrow> strings_of vs | _ \<Rightarrow> []);
          requested = (case SDJWTVCMeta cq of Inr vcts \<Rightarrow> vcts | Inl _ \<Rightarrow> [])
      in a \<lparr> ia_Type := typ, ia_ClaimedIssuer := iss, ia_Issuer := (if binds then iss else []), ia_AkaTypes := aka,
             ia_RequestedTypes := requested, ia_MatchedTypes := matched_types requested (typ # aka) [] \<rparr>)"

definition authorizeIssuer ::
  "('p, 'k) vp_request \<Rightarrow> credential_query \<Rightarrow> claims \<Rightarrow> nat list list \<Rightarrow> presentation_error option" where
  "authorizeIssuer req cq cs chain =
     (case rq_IssuerAuthorized req of
        None \<Rightarrow> None
      | Some authorized \<Rightarrow>
          (let a = \<lparr> ia_CredentialQueryID = cq_ID cq, ia_Format = cq_Format cq, ia_Type = [], ia_AkaTypes = [],
                     ia_RequestedTypes = [], ia_Issuer = [], ia_ClaimedIssuer = [], ia_MatchedTypes = [],
                     ia_IssuerChain = chain, ia_Claims = cs \<rparr>;
               a = (if cq_Format cq = formatSDJWTVC
                    then setSDJWTVCTypes (case rq_IssuerKeys req of Some k \<Rightarrow> sk_BindsIssuerName k | None \<Rightarrow> False) cq cs a
                    else if cq_Format cq = formatMdoc
                    then (case MdocMeta cq of
                        Inr t \<Rightarrow> a \<lparr> ia_Type := t, ia_RequestedTypes := [t], ia_MatchedTypes := [t] \<rparr>
                      | Inl _ \<Rightarrow> a)
                    else a)
           in if authorized a then None else Some (failed ReasonUntrustedIssuer ''issuer authorization'')))"

section \<open>One SD-JWT VC presentation\<close>

fun sdjwtvcAlgForKey :: "'p public_key \<Rightarrow> string option" where
  "sdjwtvcAlgForKey (ECKey p256 k) = Some ES256"
| "sdjwtvcAlgForKey (EdKey k) = Some EdDSA"
| "sdjwtvcAlgForKey OtherKey = None"

definition holderPublicKeyFromCNF :: "'p ec \<Rightarrow> goval option \<Rightarrow> ('p public_key \<times> string) option" where
  "holderPublicKeyFromCNF ec cnf =
     (case cnf of
        Some (GObj kvs) \<Rightarrow>
          (case gm_get kvs ''jwk'' of
             None \<Rightarrow> None
           | Some raw \<Rightarrow>
               (case ParsePublicKey ec raw of
                  Inl _ \<Rightarrow> None
                | Inr pub \<Rightarrow> map_option (Pair pub) (sdjwtvcAlgForKey pub)))
      | _ \<Rightarrow> None)"

definition expectedAudience :: "('p, 'k, 'x) vp_deps \<Rightarrow> string \<Rightarrow> string" where
  "expectedAudience d origin = (if origin \<noteq> [] then ''origin:'' @ origin else vd_clientID d)"

definition resolve_issuer ::
  "'p sdjwt_resolver \<Rightarrow> claims \<Rightarrow> claims \<Rightarrow> ('p public_key \<times> string \<times> 'p cert list list) option" where
  "resolve_issuer r header payload =
     (case r of
        X5CResolver resolve \<Rightarrow> resolve header payload
      | ChainResolver resolve _ \<Rightarrow> map_option (\<lambda>(pub, alg). (pub, alg, [])) (resolve header payload)
      | KeyResolver resolve \<Rightarrow> map_option (\<lambda>(pub, alg). (pub, alg, [])) (resolve header payload))"

text \<open>The key binding that is asked, with the holder's key from the issuer-signed \<open>cnf\<close>.\<close>

definition requiresHolderBinding :: "credential_query \<Rightarrow> claims \<Rightarrow> bool" where
  "requiresHolderBinding cq payload = (RequiresCryptographicHolderBinding cq \<or> gm_get payload ''cnf'' \<noteq> None)"

definition holder_binding ::
  "'p ec \<Rightarrow> credential_query \<Rightarrow> claims \<Rightarrow> presentation_error + ('p public_key \<times> string) option" where
  "holder_binding ec cq payload =
     (if requiresHolderBinding cq payload then
        (case holderPublicKeyFromCNF ec (gm_get payload ''cnf'') of
           None \<Rightarrow> Inl (failed ReasonHolderBinding ''resolve holder binding key'')
         | Some h \<Rightarrow> Inr (Some h))
      else Inr None)"

definition sdjwt_options ::
  "('p, 'k, 'x) vp_deps \<Rightarrow> ('p, 'k) vp_request \<Rightarrow> ('p public_key \<times> string) option \<Rightarrow> 'p verify_options" where
  "sdjwt_options d req holder =
     \<lparr> vo_HashAlg = [],
       vo_RequireKeyBinding = Some (if holder \<noteq> None then KeyBindingRequired else KeyBindingNotRequired),
       vo_HolderPublicKey = map_option fst holder,
       vo_KeyBindingAlg = (case holder of Some (_, alg) \<Rightarrow> alg | None \<Rightarrow> []),
       vo_ExpectedAudience = expectedAudience d (rq_Origin req), vo_ExpectedNonce = rq_ExpectedNonce req,
       vo_MaxKeyBindingAge = rq_MaxKeyBindingAge req, vo_MaxClockSkew = rq_MaxClockSkew req,
       vo_AcceptLegacyTyp = False \<rparr>"

fun verify_failure :: "vc_error \<Rightarrow> presentation_error" where
  "verify_failure (KeyBindingFails (NotThisRequest what)) = Refusal True ReasonHolderBinding ''verify''"
| "verify_failure (KeyBindingFails e) = failed ReasonHolderBinding ''verify''"
| "verify_failure e = failed ReasonInvalidCredential ''verify''"

fun request_failure :: "request_error \<Rightarrow> presentation_error" where
  "request_failure (BadHash e) = failed ReasonInvalidCredential ''hash algorithm''"
| "request_failure (NotSelectable e) = failed ReasonNotAnswered ''select requested disclosures''"
| "request_failure (DigestFails e) = failed ReasonMalformed ''disclosure digest''"
| "request_failure (Unrequested names) =
     failed ReasonUnrequestedClaims ''the presentation discloses claims the query didn't ask for''"
| "request_failure (UnrequestedElements names) =
     failed ReasonUnrequestedClaims ''the presentation discloses data elements the query didn't ask for''"

definition sdjwt_chain ::
  "('p, 'k, 'x) vp_deps \<Rightarrow> 'p sdjwt_resolver \<Rightarrow> claims \<Rightarrow> 'p public_key \<Rightarrow> 'p cert list list
     \<Rightarrow> presentation_error + nat list list" where
  "sdjwt_chain d r header issuerPub paths =
     (case r of
        X5CResolver _ \<Rightarrow> Inr (verifiedPath paths issuerPub)
      | ChainResolver _ resolve \<Rightarrow>
          (case resolve header of
             None \<Rightarrow> Inl (failed ReasonUntrustedIssuer ''resolve issuer chain'')
           | Some paths \<Rightarrow> Inr (verifiedPath paths issuerPub))
      | KeyResolver _ \<Rightarrow>
          Inr (keyBoundChain (vd_status d)
            (case vd_X5CDERsFromHeader d header of Some ders \<Rightarrow> ders | None \<Rightarrow> []) issuerPub))"

definition check_authorities ::
  "('p, 'k) vp_request \<Rightarrow> credential_query \<Rightarrow> nat list list \<Rightarrow> presentation_error option" where
  "check_authorities req cq chain =
     (if cq_TrustedAuthorities cq \<noteq> [] \<and> \<not> rq_CheckTrustedAuthorities req (cq_TrustedAuthorities cq) chain
      then Some (failed ReasonUntrustedIssuer ''trusted authorities'') else None)"

definition verifySDJWTVCPresentation ::
  "('p, 'k, 'x) vp_deps \<Rightarrow> ('p, 'k) vp_request \<Rightarrow> credential_query \<Rightarrow> int \<times> int \<times> int \<Rightarrow> string
     \<Rightarrow> presentation_error + claims \<times> nat list list" where
  "verifySDJWTVCPresentation d req cq clock presented =
     (case rq_IssuerKeys req of
        None \<Rightarrow> Inl (Fault ''issuer_keys is required'')
      | Some keys \<Rightarrow>
          (case Parse (vd_json d) presented of
             Inl _ \<Rightarrow> Inl (failed ReasonMalformed ''parse presentation'')
           | Inr pres \<Rightarrow>
               (case DecodeUnverified (vd_crypto d) (pn_IssuerJWT pres) of
                  Inl _ \<Rightarrow> Inl (failed ReasonMalformed ''decode issuer jwt'')
                | Inr (header, raw) \<Rightarrow>
                    (case cr_json (vd_crypto d) raw of
                       None \<Rightarrow> Inl (failed ReasonMalformed ''unmarshal issuer jwt payload'')
                     | Some payload \<Rightarrow>
                         (case resolve_issuer (sk_Resolver keys) header payload of
                            None \<Rightarrow> Inl (failed ReasonUntrustedIssuer ''resolve issuer key'')
                          | Some (issuerPub, issuerAlg, paths) \<Rightarrow>
                              (case holder_binding (vd_ec d) cq payload of
                                 Inl e \<Rightarrow> Inl e
                               | Inr holder \<Rightarrow>
                                   (case VerifyVC (vd_crypto d) (vd_hash d) (vd_json d) clock presented issuerPub issuerAlg
                                           (sdjwt_options d req holder) of
                                      Inl e \<Rightarrow> Inl (verify_failure e)
                                    | Inr (cs, _) \<Rightarrow>
                                        (if SatisfiedBySDJWTVCPresentation (vd_ratOf d) cq cs \<noteq> None
                                         then Inl (failed ReasonNotAnswered ''satisfied by sdjwtvc claims'')
                                         else (case (if rq_AllowUnrequestedClaims req then None
                                                  else checkRequestedDisclosures (vd_hash d) cq payload (pn_Disclosures pres)) of
                                             Some e \<Rightarrow> Inl (request_failure e)
                                           | None \<Rightarrow>
                                               (case sdjwt_chain d (sk_Resolver keys) header issuerPub paths of
                                                  Inl e \<Rightarrow> Inl e
                                                | Inr chain \<Rightarrow>
                                                    (case check_authorities req cq chain of
                                                       Some e \<Rightarrow> Inl e
                                                     | None \<Rightarrow> Inr (cs, chain))))))))))))"

definition sdjwtvcSignedPart :: "string \<Rightarrow> string" where
  "sdjwtvcSignedPart presented =
     (let jwt = takeWhile (\<lambda>c. c \<noteq> tilde) presented
      in if CHR ''.'' \<in> set jwt then rev (tl (dropWhile (\<lambda>c. c \<noteq> CHR ''.'') (rev jwt))) else jwt)"

section \<open>One mdoc presentation\<close>

definition buildMdocSessionTranscriptBytes ::
  "('p, 'k, 'x) vp_deps \<Rightarrow> ('p, 'k) vp_request \<Rightarrow> nat list \<Rightarrow> nat list option" where
  "buildMdocSessionTranscriptBytes d req thumbprint =
     (if rq_Origin req \<noteq> [] then mo_DCAPITranscript (vd_mdoc d) (rq_Origin req) (rq_ExpectedNonce req) thumbprint
      else mo_Transcript (vd_mdoc d) (vd_clientID d) (rq_ExpectedNonce req) (vd_ResponseURI d) thumbprint)"

text \<open>From the verified MSO to the device's signature and the claims.\<close>

definition verify_device ::
  "('p, 'k, 'x) vp_deps \<Rightarrow> ('p, 'k) vp_request \<Rightarrow> credential_query \<Rightarrow> 'k \<Rightarrow> 'x \<Rightarrow> 'p verified_mso
     \<Rightarrow> presentation_error option" where
  "verify_device d req cq key doc verified =
     (let mo = vd_mdoc d in
      case jwk_Thumbprint (vd_crypto d) (vd_ec d) (mo_PublicKey mo key) of
        Inl _ \<Rightarrow> Some (Fault ''response encryption key'')
      | Inr thumbprint \<Rightarrow>
          (case buildMdocSessionTranscriptBytes d req thumbprint of
             None \<Rightarrow> Some (Fault ''build session transcript'')
           | Some transcript \<Rightarrow>
               (if \<not> mo_DeviceSignature mo doc then Some (failed ReasonHolderBinding ''device authentication type'')
                else (case mo_AlgForKey mo (vm_DeviceKey verified) of
                    None \<Rightarrow> Some (failed ReasonHolderBinding ''device key'')
                  | Some alg \<Rightarrow>
                      (if \<not> mo_VerifyDeviceSignature mo doc (vm_DeviceKey verified) alg transcript
                       then Some (Refusal True ReasonHolderBinding ''verify device signature'')
                       else if \<not> mo_CheckKeyAuthorizations mo doc verified
                       then Some (failed ReasonHolderBinding ''check key authorizations'')
                       else if SatisfiedByMdocClaims (vd_ratOf d) cq (vm_DocType verified) (vm_NameSpaces verified) \<noteq> None
                       then Some (failed ReasonNotAnswered ''satisfied by mdoc claims'')
                       else if rq_AllowUnrequestedClaims req then None
                       else map_option request_failure (checkRequestedElements cq (vm_NameSpaces verified)))))))"

definition verifyMdocPresentation ::
  "('p, 'k, 'x) vp_deps \<Rightarrow> ('p, 'k) vp_request \<Rightarrow> credential_query \<Rightarrow> int \<times> int \<times> int \<Rightarrow> string
     \<Rightarrow> presentation_error + claims \<times> mdoc_status option \<times> nat list list \<times> nat list" where
  "verifyMdocPresentation d req cq clock presented =
     (let mo = vd_mdoc d in
      case rq_MdocIssuerKeys req of
        None \<Rightarrow> Inl (Fault ''mdoc_issuer_keys is required'')
      | Some keys \<Rightarrow>
          (case rq_ResponseEncryptionKey req of
             None \<Rightarrow> Inl (Fault ''response_encryption_key is required'')
           | Some key \<Rightarrow>
               (case RawURLDecode presented of
                  None \<Rightarrow> Inl (failed ReasonMalformed ''decode device response'')
                | Some raw \<Rightarrow>
                    (case mo_UnmarshalDeviceResponse mo raw of
                       None \<Rightarrow> Inl (failed ReasonMalformed ''unmarshal device response'')
                     | Some doc \<Rightarrow>
                         (case mo_IssuerAuth mo doc of
                            None \<Rightarrow> Inl (failed ReasonMalformed ''decode issuer auth'')
                          | Some (x5chain, mso) \<Rightarrow>
                              (case ResolveMdocIssuer mo (mk_Resolver keys) x5chain (mo_DocType mo doc) of
                                 None \<Rightarrow> Inl (failed ReasonUntrustedIssuer ''resolve issuer key'')
                               | Some issuer \<Rightarrow>
                                   (case mo_Verify mo doc (mis_Key issuer) (mis_Alg issuer) (fst clock) (rq_MaxClockSkew req) of
                                      None \<Rightarrow> Inl (failed ReasonInvalidCredential ''verify issuer signed'')
                                    | Some verified \<Rightarrow>
                                        (case mdoc_issuer_check (vd_status d) mo (mk_Layers keys) x5chain (mo_DocType mo doc)
                                                issuer verified of
                                           None \<Rightarrow> Inl (failed ReasonUntrustedIssuer ''check document signer'')
                                         | Some chain \<Rightarrow>
                                             (case and_then (verify_device d req cq key doc verified)
                                                     (check_authorities req cq chain) of
                                                Some e \<Rightarrow> Inl e
                                              | None \<Rightarrow>
                                                  Inr (map (\<lambda>(ns, els). (ns, GObj els)) (vm_NameSpaces verified),
                                                    vm_Status verified, chain, mso))))))))))"

section \<open>The presentations for one credential query\<close>

definition MaxPresentationsPerQuery :: nat where "MaxPresentationsPerQuery = 32"

text \<open>A verified and authorized presentation, with the part of it the issuer signed.\<close>

definition verify_presentation ::
  "('p, 'k, 'x) vp_deps \<Rightarrow> ('p, 'k) vp_request \<Rightarrow> credential_query \<Rightarrow> nat \<Rightarrow> string
     \<Rightarrow> presentation_error + verified_credential \<times> nat list" where
  "verify_presentation d req cq n presented =
     rbind
       (if cq_Format cq = formatSDJWTVC then
          rmap (\<lambda>(cs, chain). (cs, None, chain, str_bytes (sdjwtvcSignedPart presented)))
            (verifySDJWTVCPresentation d req cq (vd_clock d (cq_ID cq) n) presented)
        else if cq_Format cq = formatMdoc then verifyMdocPresentation d req cq (vd_clock d (cq_ID cq) n) presented
        else Inl (Fault ''format is not yet supported''))
       (\<lambda>(cs, status, chain, signedPart).
          case authorizeIssuer req cq cs chain of
            Some e \<Rightarrow> Inl e
          | None \<Rightarrow> Inr (\<lparr> vcr_CredentialQueryID = cq_ID cq, vcr_Claims = cs, vcr_MdocStatus = status, vcr_IssuerChain = chain \<rparr>,
              signedPart))"

definition discarded_as :: "credential_query \<Rightarrow> Reason \<Rightarrow> discarded_presentation" where
  "discarded_as cq r = \<lparr> dp_CredentialQueryID = cq_ID cq, dp_Code = r, dp_Reason = reason_description r \<rparr>"

type_synonym seen = "(nat list, string) gomap"

definition seen_before :: "('p, 'k) vp_request \<Rightarrow> credential_query \<Rightarrow> nat list \<Rightarrow> seen \<Rightarrow> bool" where
  "seen_before req cq identity seen =
     (case gm_get seen identity of
        None \<Rightarrow> False
      | Some other \<Rightarrow> other = cq_ID cq \<or> rq_DistinctCredentials req)"

text \<open>The loop over the presentations, from the n-th: what verified, what is discarded, the first failure.\<close>

fun verify_presentations ::
  "('p, 'k, 'x) vp_deps \<Rightarrow> ('p, 'k) vp_request \<Rightarrow> credential_query \<Rightarrow> nat \<Rightarrow> seen \<Rightarrow> string list
     \<Rightarrow> presentation_error + verified_credential list \<times> discarded_presentation list \<times> presentation_error option \<times> seen" where
  "verify_presentations d req cq n seen [] = Inr ([], [], None, seen)"
| "verify_presentations d req cq n seen (p # ps) =
     (case verify_presentation d req cq n p of
        Inl (Refusal False r what) \<Rightarrow>
          rmap (\<lambda>(vcs, ds, _, seen). (vcs, discarded_as cq r # ds, Some (Refusal False r what), seen))
            (verify_presentations d req cq (Suc n) seen ps)
      | Inl e \<Rightarrow> Inl e
      | Inr (vc, signedPart) \<Rightarrow>
          (let identity = cr_sha256 (vd_crypto d) signedPart in
           if seen_before req cq identity seen
           then Inl (failed ReasonMalformed ''the same credential was presented more than once'')
           else rmap (\<lambda>(vcs, ds, e, seen). (vc # vcs, ds, e, seen))
                  (verify_presentations d req cq (Suc n) (gm_put identity (cq_ID cq) seen) ps)))"

definition presented_for :: "('p, 'k) vp_request \<Rightarrow> string \<Rightarrow> string list" where
  "presented_for req i = (case gm_get (rq_VPToken req) i of Some ps \<Rightarrow> ps | None \<Rightarrow> [])"

text \<open>The last component is the \<open>discardedError\<close> of a query nothing verified for.\<close>

definition verifyCredentialQuery ::
  "('p, 'k, 'x) vp_deps \<Rightarrow> ('p, 'k) vp_request \<Rightarrow> credential_query \<Rightarrow> seen
     \<Rightarrow> presentation_error + verified_credential list \<times> discarded_presentation list \<times> presentation_error option \<times> seen" where
  "verifyCredentialQuery d req cq seen =
     (let ps = presented_for req (cq_ID cq) in
      if length ps = 0 then Inl (failed ReasonMalformed ''no presentation returned'')
      else if length ps > 1 \<and> \<not> cq_Multiple cq
      then Inl (failed ReasonMalformed ''multiple presentations were returned but multiple is not requested'')
      else if length ps > MaxPresentationsPerQuery
      then Inl (failed ReasonMalformed ''too many presentations for one credential query'')
      else rmap (\<lambda>(vcs, ds, e, seen). (vcs, ds, if vcs = [] then e else None, seen))
             (verify_presentations d req cq 0 seen ps))"

section \<open>The answer\<close>

record answer_state =
  as_Result :: verify_result
  as_Verified :: "(string, bool) gomap"
  as_Failure :: "presentation_error option"
  as_Seen :: seen

fun verify_queries ::
  "('p, 'k, 'x) vp_deps \<Rightarrow> ('p, 'k) vp_request \<Rightarrow> (string, bool) gomap \<Rightarrow> credential_query list \<Rightarrow> answer_state
     \<Rightarrow> presentation_error + answer_state" where
  "verify_queries d req answered [] st = Inr st"
| "verify_queries d req answered (cq # cqs) st =
     (if \<not> flag answered (cq_ID cq) then verify_queries d req answered cqs st
      else (case verifyCredentialQuery d req cq (as_Seen st) of
          Inl e \<Rightarrow> Inl e
        | Inr (vcs, ds, allFailed, seen) \<Rightarrow>
            verify_queries d req answered cqs
              \<lparr> as_Result = \<lparr> vr_Credentials = vr_Credentials (as_Result st) @ vcs, vr_Discarded = vr_Discarded (as_Result st) @ ds \<rparr>,
                as_Verified = gm_put (cq_ID cq) (vcs \<noteq> []) (as_Verified st),
                as_Failure = (if as_Failure st = None then allFailed else as_Failure st), as_Seen = seen \<rparr>))"

definition not_answered :: "string \<Rightarrow> discarded_presentation" where
  "not_answered i =
     \<lparr> dp_CredentialQueryID = i, dp_Code = ReasonNotAnswered, dp_Reason = reason_description ReasonNotAnswered \<rparr>"

definition keepCompleteOptions ::
  "query \<Rightarrow> verify_result \<Rightarrow> (string, bool) gomap \<Rightarrow> verify_result \<times> (string, bool) gomap" where
  "keepCompleteOptions q result verified =
     (let kept = fold (\<lambda>cs. fold mark (whole_options verified (cs_Options cs))) (q_CredentialSets q) [];
          keeps = (\<lambda>vc. flag kept (vcr_CredentialQueryID vc))
      in (\<lparr> vr_Credentials = filter keeps (vr_Credentials result),
            vr_Discarded = vr_Discarded result @
              map (\<lambda>vc. not_answered (vcr_CredentialQueryID vc)) (filter (\<lambda>vc. \<not> keeps vc) (vr_Credentials result)) \<rparr>,
          kept))"

text \<open>What is left when presentations were discarded must still answer the query.\<close>

definition settle_answer :: "query \<Rightarrow> answer_state \<Rightarrow> presentation_error + verify_result" where
  "settle_answer q st =
     (if vr_Discarded (as_Result st) = [] then Inr (as_Result st)
      else (let (result, verified) =
            (if CheckAnswered q (as_Verified st) \<noteq> None \<and> q_CredentialSets q \<noteq> []
             then keepCompleteOptions q (as_Result st) (as_Verified st)
             else (as_Result st, as_Verified st))
          in if CheckAnswered q verified \<noteq> None
             then Inl (case as_Failure st of
                 Some e \<Rightarrow> e
               | None \<Rightarrow> failed ReasonNotAnswered ''what verified doesn't answer the query as it asks'')
             else Inr result))"

text \<open>One hour, in nanoseconds.\<close>

definition MaxAllowedClockSkew :: int where "MaxAllowedClockSkew = 3600000000000"
definition MaxAllowedKeyBindingAge :: int where "MaxAllowedKeyBindingAge = 3600000000000"

definition checkTimeBounds :: "('p, 'k) vp_request \<Rightarrow> tx_error option" where
  "checkTimeBounds req =
     (if rq_MaxClockSkew req < 0 \<or> rq_MaxClockSkew req > MaxAllowedClockSkew
      then Some (OtherError ''max_clock_skew'')
      else if rq_MaxKeyBindingAge req < 0 \<or> rq_MaxKeyBindingAge req > MaxAllowedKeyBindingAge
      then Some (OtherError ''max_key_binding_age'')
      else None)"

definition checkIssuerKeysValid :: "('p, 'k) vp_request \<Rightarrow> tx_error option" where
  "checkIssuerKeysValid req =
     (if (case rq_IssuerKeys req of Some k \<Rightarrow> sk_Validate k = Some False | None \<Rightarrow> False) then Some (OtherError ''issuer_keys'')
      else (case rq_MdocIssuerKeys req of
          None \<Rightarrow> None
        | Some k \<Rightarrow>
            (if list_ex (\<lambda>l. rl_Validate l = Some False) (take max_layers (mk_Layers k))
             then Some (OtherError ''mdoc_issuer_keys'') else None)))"

definition checkProductionKeySources :: "('p, 'k) vp_request \<Rightarrow> tx_error option" where
  "checkProductionKeySources req =
     (if (case rq_IssuerKeys req of Some k \<Rightarrow> \<not> sk_Hardened k | None \<Rightarrow> False)
      then Some (OtherError ''issuer_keys must declare LiveFetchHardened'')
      else if (case rq_MdocIssuerKeys req of Some k \<Rightarrow> \<not> mk_Hardened k | None \<Rightarrow> False)
      then Some (OtherError ''mdoc_issuer_keys must declare LiveFetchHardened'')
      else if (case rq_MdocIssuerKeys req of Some k \<Rightarrow> mdocChainResolver (mk_Layers k) = None | None \<Rightarrow> False)
      then Some (OtherError ''mdoc_issuer_keys must verify issuer chains'')
      else if (case rq_IssuerKeys req of Some k \<Rightarrow> sk_SystemPool k | None \<Rightarrow> False)
      then Some (OtherError ''issuer_keys: Roots is the system root pool'')
      else if (case rq_MdocIssuerKeys req of
          Some k \<Rightarrow> list_ex rl_SystemPool (take max_layers (mk_Layers k)) | None \<Rightarrow> False)
      then Some (OtherError ''mdoc_issuer_keys: Roots is the system root pool'')
      else None)"

definition checkProductionDecisions :: "('p, 'k) vp_request \<Rightarrow> tx_error option" where
  "checkProductionDecisions req =
     (if rq_IssuerAuthorized req = None \<and> \<not> rq_AnyIssuerForAnyType req
      then Some (OtherError ''set issuer_authorized or any_issuer_for_any_type'') else None)"

text \<open>The checks of a request before anything of its answer is looked at, in the order of the code.\<close>

definition check_vp_request :: "('p, 'k, 'x) vp_deps \<Rightarrow> ('p, 'k) vp_request \<Rightarrow> tx_error option" where
  "check_vp_request d req =
     and_then (if Query_Validate (rq_Query req) \<noteq> None then Some (OtherError ''query'') else None)
     (and_then (if rq_ExpectedNonce req = [] then Some (OtherError ''expected_nonce is required'') else None)
     (and_then (if rq_Origin req \<noteq> [] \<and> \<not> vd_OriginOK d (rq_Origin req) then Some (OtherError ''origin'') else None)
     (and_then (if rq_Origin req \<noteq> [] \<and> rq_Origin req \<notin> set (rq_ExpectedOrigins req)
        then Some (OtherError ''origin isn't one of the request's expected_origins'') else None)
     (and_then (checkMaxKeyBindingAgeRequired (rq_MaxKeyBindingAge req) (rq_Query req))
     (and_then (checkTimeBounds req)
     (and_then (checkTrustedAuthoritiesConfigured (rq_AuthoritiesChecker req) (rq_Query req))
     (and_then (checkIssuerKeysValid req)
     (and_then (if vd_Assurance d = AssuranceProduction
        then and_then (checkProductionKeySources req) (checkProductionDecisions req) else None)
        (if \<not> rq_statusByTransactions req \<and> CheckStatusDecision (vd_Assurance d) (rq_Status req) (rq_NoStatusCheck req) \<noteq> None
         then Some (OtherError ''status decision'') else None)))))))))"

fun vp_error :: "presentation_error \<Rightarrow> tx_error" where
  "vp_error (Refusal notThis r what) = VerifyError r what"
| "vp_error (Fault what) = OtherError what"

text \<open>\<open>Status\<close>, then \<open>Accept\<close>; \<open>Transactions\<close> runs its own.\<close>

definition accept_result :: "('p, 'k, 'x) vp_deps \<Rightarrow> ('p, 'k) vp_request \<Rightarrow> verify_result \<Rightarrow> tx_error option" where
  "accept_result d req result =
     (if rq_statusByTransactions req then None
      else and_then
        (case rq_Status req of
           None \<Rightarrow> None
         | Some p \<Rightarrow> (if StatusPolicy_Check (vd_status d) p (vr_Credentials result) \<noteq> None
             then Some (OtherError ''credential status'') else None))
        (case rq_Accept req of None \<Rightarrow> None | Some accept \<Rightarrow> map_option OtherError (accept [] result)))"

definition no_answers :: answer_state where
  "no_answers = \<lparr> as_Result = \<lparr> vr_Credentials = [], vr_Discarded = [] \<rparr>, as_Verified = [], as_Failure = None, as_Seen = [] \<rparr>"

definition VerifyResponse :: "('p, 'k, 'x) vp_deps \<Rightarrow> ('p, 'k) vp_request \<Rightarrow> tx_error + verify_result" where
  "VerifyResponse d req =
     (case check_vp_request d req of
        Some e \<Rightarrow> Inl e
      | None \<Rightarrow>
          (let answered = map (\<lambda>(i, _). (i, True)) (rq_VPToken req) in
           if CheckAnswered (rq_Query req) answered \<noteq> None
           then Inl (VerifyError ReasonNotAnswered ''the vp_token doesn't answer the query as it asks'')
           else (case rbind (verify_queries d req answered (q_Credentials (rq_Query req)) no_answers) (settle_answer (rq_Query req)) of
               Inl e \<Rightarrow> Inl (vp_error e)
             | Inr result \<Rightarrow> (case accept_result d req result of Some e \<Rightarrow> Inl e | None \<Rightarrow> Inr result))))"

section \<open>What was verified\<close>

text \<open>A credential of an answer, with the part of its presentation the issuer signed.\<close>

definition presented_as ::
  "('p, 'k, 'x) vp_deps \<Rightarrow> ('p, 'k) vp_request \<Rightarrow> credential_query \<Rightarrow> verified_credential \<times> nat list \<Rightarrow> bool" where
  "presented_as d req cq x =
     (\<exists>n < length (presented_for req (cq_ID cq)).
        verify_presentation d req cq n (presented_for req (cq_ID cq) ! n) = Inr x)"

definition identity_of :: "('p, 'k, 'x) vp_deps \<Rightarrow> verified_credential \<times> nat list \<Rightarrow> nat list" where
  "identity_of d x = cr_sha256 (vd_crypto d) (snd x)"

text \<open>No credential twice under one query, and under \<open>DistinctCredentials\<close> none twice at all.\<close>

definition counted_once ::
  "('p, 'k, 'x) vp_deps \<Rightarrow> ('p, 'k) vp_request \<Rightarrow> (verified_credential \<times> nat list) list \<Rightarrow> bool" where
  "counted_once d req xs =
     (distinct (map (\<lambda>x. (vcr_CredentialQueryID (fst x), identity_of d x)) xs) \<and>
      (rq_DistinctCredentials req \<longrightarrow> distinct (map (identity_of d) xs)))"

text \<open>Every presentation was verified, or failed for a reason of its own: none was for another request.\<close>

definition own_outcome :: "('p, 'k, 'x) vp_deps \<Rightarrow> ('p, 'k) vp_request \<Rightarrow> credential_query \<Rightarrow> nat \<Rightarrow> string \<Rightarrow> bool" where
  "own_outcome d req cq n p =
     (case verify_presentation d req cq n p of Inr _ \<Rightarrow> True | Inl (Refusal notThis r what) \<Rightarrow> \<not> notThis | Inl (Fault _) \<Rightarrow> False)"

lemma verify_presentation_query:
  "verify_presentation d req cq n p = Inr x \<Longrightarrow> vcr_CredentialQueryID (fst x) = cq_ID cq"
  by (auto simp: verify_presentation_def rbind_Inr_iff split: prod.splits option.splits)

text \<open>What the seen identities record of the credentials taken so far, while query \<open>i\<close> is verified.\<close>

definition seen_ok :: "('p, 'k, 'x) vp_deps \<Rightarrow> string \<Rightarrow> (verified_credential \<times> nat list) list \<Rightarrow> seen \<Rightarrow> bool" where
  "seen_ok d i xs seen =
     (\<forall>x \<in> set xs. gm_get seen (identity_of d x) \<noteq> None \<and>
        (vcr_CredentialQueryID (fst x) = i \<longrightarrow> gm_get seen (identity_of d x) = Some i))"

lemma seen_ok_take:
  assumes "seen_ok d (cq_ID cq) xs seen" "counted_once d req xs"
    and "\<not> seen_before req cq (identity_of d x) seen" "vcr_CredentialQueryID (fst x) = cq_ID cq"
  shows "seen_ok d (cq_ID cq) (xs @ [x]) (gm_put (identity_of d x) (cq_ID cq) seen)" "counted_once d req (xs @ [x])"
proof -
  show "seen_ok d (cq_ID cq) (xs @ [x]) (gm_put (identity_of d x) (cq_ID cq) seen)"
    using assms(1) by (auto simp: seen_ok_def)
  have "(cq_ID cq, identity_of d x) \<noteq> (vcr_CredentialQueryID (fst y), identity_of d y)" if "y \<in> set xs" for y
    using that assms(1,3) by (auto simp: seen_ok_def seen_before_def split: option.splits)
  moreover have "identity_of d x \<noteq> identity_of d y" if "y \<in> set xs" "rq_DistinctCredentials req" for y
    using that assms(1,3) by (auto simp: seen_ok_def seen_before_def split: option.splits)
  ultimately show "counted_once d req (xs @ [x])"
    using assms(2,4) by (auto simp: counted_once_def)
qed

lemma verify_presentations_ok:
  assumes "verify_presentations d req cq n seen ps = Inr (vcs, ds, e, seen')"
    and "seen_ok d (cq_ID cq) xs seen" "counted_once d req xs"
  shows "\<exists>ys. map fst ys = vcs \<and> seen_ok d (cq_ID cq) (xs @ ys) seen' \<and> counted_once d req (xs @ ys) \<and>
    (\<forall>y \<in> set ys. \<exists>i < length ps. verify_presentation d req cq (n + i) (ps ! i) = Inr y) \<and>
    (\<forall>i < length ps. own_outcome d req cq (n + i) (ps ! i)) \<and> length vcs + length ds = length ps"
  using assms
proof (induction ps arbitrary: n seen vcs ds e xs)
  case Nil
  then show ?case by (intro exI [of _ "[]"]) auto
next
  case (Cons p ps)
  show ?case
  proof (cases "verify_presentation d req cq n p")
    case (Inl err)
    with Cons.prems(1) obtain r what where err: "err = Refusal False r what"
      by (cases err) (auto split: bool.splits)
    with Inl Cons.prems(1) obtain ds' e' where rest: "verify_presentations d req cq (Suc n) seen ps = Inr (vcs, ds', e', seen')"
      and ds: "ds = discarded_as cq r # ds'"
      by (auto simp: rmap_Inr_iff)
    from Cons.IH [OF rest Cons.prems(2,3)] obtain ys where ys: "map fst ys = vcs"
      "seen_ok d (cq_ID cq) (xs @ ys) seen'" "counted_once d req (xs @ ys)"
      and from_ps: "\<forall>y \<in> set ys. \<exists>i < length ps. verify_presentation d req cq (Suc n + i) (ps ! i) = Inr y"
      and own: "\<forall>i < length ps. own_outcome d req cq (Suc n + i) (ps ! i)"
      and len: "length vcs + length ds' = length ps" by blast
    have "\<forall>y \<in> set ys. \<exists>i < length (p # ps). verify_presentation d req cq (n + i) ((p # ps) ! i) = Inr y"
      using from_ps by (metis Suc_less_eq add_Suc_shift length_Cons nth_Cons_Suc)
    moreover have "\<forall>i < length (p # ps). own_outcome d req cq (n + i) ((p # ps) ! i)"
      using own Inl err by (auto simp: less_Suc_eq_0_disj own_outcome_def)
    ultimately show ?thesis using ys len ds by auto
  next
    case (Inr x)
    obtain vc part where x: "x = (vc, part)" by (cases x)
    from Inr x Cons.prems(1) have new: "\<not> seen_before req cq (identity_of d x) seen"
      by (auto simp: identity_of_def Let_def split: if_splits)
    with Inr x Cons.prems(1) obtain vcs' where
      rest: "verify_presentations d req cq (Suc n) (gm_put (identity_of d x) (cq_ID cq) seen) ps = Inr (vcs', ds, e, seen')"
      and vcs: "vcs = vc # vcs'"
      by (auto simp: rmap_Inr_iff identity_of_def Let_def)
    note taken = seen_ok_take [OF Cons.prems(2,3) new verify_presentation_query [OF Inr]]
    from Cons.IH [OF rest taken] obtain ys where ys: "map fst ys = vcs'"
      "seen_ok d (cq_ID cq) ((xs @ [x]) @ ys) seen'" "counted_once d req ((xs @ [x]) @ ys)"
      and from_ps: "\<forall>y \<in> set ys. \<exists>i < length ps. verify_presentation d req cq (Suc n + i) (ps ! i) = Inr y"
      and own: "\<forall>i < length ps. own_outcome d req cq (Suc n + i) (ps ! i)"
      and len: "length vcs' + length ds = length ps" by blast
    have "\<exists>i < length (p # ps). verify_presentation d req cq (n + i) ((p # ps) ! i) = Inr y" if "y \<in> set (x # ys)" for y
    proof (cases "y = x")
      case True
      with Inr show ?thesis by (intro exI [of _ 0]) simp
    next
      case False
      with that from_ps obtain i where "i < length ps" "verify_presentation d req cq (Suc n + i) (ps ! i) = Inr y" by auto
      then show ?thesis by (intro exI [of _ "Suc i"]) simp
    qed
    moreover have "\<forall>i < length (p # ps). own_outcome d req cq (n + i) ((p # ps) ! i)"
      using own Inr by (auto simp: less_Suc_eq_0_disj own_outcome_def)
    moreover have "map fst (x # ys) = vcs" using ys(1) vcs x by simp
    moreover have "xs @ x # ys = (xs @ [x]) @ ys" by simp
    ultimately show ?thesis using ys(2,3) len vcs
      by (intro exI [of _ "x # ys"]) (simp del: verify_presentations.simps)
  qed
qed

lemma verifyCredentialQuery_ok:
  assumes "verifyCredentialQuery d req cq seen = Inr (vcs, ds, e, seen')"
    and "seen_ok d (cq_ID cq) xs seen" "counted_once d req xs"
  shows "\<exists>ys. map fst ys = vcs \<and> seen_ok d (cq_ID cq) (xs @ ys) seen' \<and> counted_once d req (xs @ ys) \<and>
    (\<forall>y \<in> set ys. presented_as d req cq y) \<and>
    (\<forall>i < length (presented_for req (cq_ID cq)). own_outcome d req cq i (presented_for req (cq_ID cq) ! i)) \<and>
    (vcs = [] \<longrightarrow> ds \<noteq> [])"
proof -
  from assms(1) obtain e0 where *: "verify_presentations d req cq 0 seen (presented_for req (cq_ID cq)) = Inr (vcs, ds, e0, seen')"
    and some: "presented_for req (cq_ID cq) \<noteq> []"
    by (auto simp: verifyCredentialQuery_def Let_def rmap_Inr_iff split: if_splits)
  from verify_presentations_ok [OF * assms(2,3)] obtain ys where "map fst ys = vcs"
    "seen_ok d (cq_ID cq) (xs @ ys) seen'" "counted_once d req (xs @ ys)"
    "\<forall>y \<in> set ys. presented_as d req cq y"
    "\<forall>i < length (presented_for req (cq_ID cq)). own_outcome d req cq i (presented_for req (cq_ID cq) ! i)"
    "length vcs + length ds = length (presented_for req (cq_ID cq))"
    by (auto simp: presented_as_def)
  with some show ?thesis by (intro exI [of _ ys]) auto
qed

lemma presented_as_query: "presented_as d req cq x \<Longrightarrow> vcr_CredentialQueryID (fst x) = cq_ID cq"
  using verify_presentation_query unfolding presented_as_def by blast

definition credential_for :: "(verified_credential \<times> nat list) list \<Rightarrow> string \<Rightarrow> bool" where
  "credential_for xs i = (\<exists>x \<in> set xs. vcr_CredentialQueryID (fst x) = i)"

definition answer_inv ::
  "('p, 'k, 'x) vp_deps \<Rightarrow> ('p, 'k) vp_request \<Rightarrow> (verified_credential \<times> nat list) list \<Rightarrow> answer_state \<Rightarrow> bool" where
  "answer_inv d req xs st =
     (map fst xs = vr_Credentials (as_Result st) \<and> counted_once d req xs \<and> gm_ok (as_Verified st) \<and>
      (\<forall>x \<in> set xs. gm_get (as_Seen st) (identity_of d x) \<noteq> None) \<and>
      (\<forall>i. flag (as_Verified st) i \<longleftrightarrow> credential_for xs i))"

lemma flag_put: "flag (gm_put k b m) i = (if i = k then b else flag m i)"
  by (simp add: flag_def)

lemma answer_inv_query:
  assumes "answer_inv d req xs st" "\<forall>x \<in> set xs. vcr_CredentialQueryID (fst x) \<noteq> cq_ID cq"
    and "verifyCredentialQuery d req cq (as_Seen st) = Inr (vcs, ds, e, seen)"
    and st': "st' = \<lparr> as_Result = \<lparr> vr_Credentials = vr_Credentials (as_Result st) @ vcs, vr_Discarded = vr_Discarded (as_Result st) @ ds \<rparr>,
      as_Verified = gm_put (cq_ID cq) (vcs \<noteq> []) (as_Verified st), as_Failure = failure, as_Seen = seen \<rparr>"
  shows "\<exists>ys. answer_inv d req (xs @ ys) st' \<and> (\<forall>y \<in> set ys. presented_as d req cq y) \<and>
    (\<forall>i < length (presented_for req (cq_ID cq)). own_outcome d req cq i (presented_for req (cq_ID cq) ! i)) \<and>
    (flag (as_Verified st') (cq_ID cq) \<or> vr_Discarded (as_Result st') \<noteq> [])"
proof -
  have "seen_ok d (cq_ID cq) xs (as_Seen st)" "counted_once d req xs"
    using assms(1,2) by (auto simp: answer_inv_def seen_ok_def)
  from verifyCredentialQuery_ok [OF assms(3) this] obtain ys where ys: "map fst ys = vcs"
    "seen_ok d (cq_ID cq) (xs @ ys) seen" "counted_once d req (xs @ ys)"
    and from_answer: "\<forall>y \<in> set ys. presented_as d req cq y"
    and own: "\<forall>i < length (presented_for req (cq_ID cq)). own_outcome d req cq i (presented_for req (cq_ID cq) ! i)"
    and some: "vcs = [] \<longrightarrow> ds \<noteq> []" by blast
  have query: "vcr_CredentialQueryID (fst y) = cq_ID cq" if "y \<in> set ys" for y
    using from_answer that presented_as_query by blast
  have "flag (as_Verified st') i \<longleftrightarrow> credential_for (xs @ ys) i" for i
  proof (cases "i = cq_ID cq")
    case True
    have "vcs \<noteq> [] \<longleftrightarrow> ys \<noteq> []" using ys(1) by auto
    also have "\<dots> \<longleftrightarrow> credential_for (xs @ ys) i"
      using query assms(2) True by (cases ys) (auto simp: credential_for_def)
    finally show ?thesis by (simp add: st' flag_put True)
  next
    case False
    then have "flag (as_Verified st') i = flag (as_Verified st) i" by (simp add: st' flag_put)
    moreover have "credential_for (xs @ ys) i \<longleftrightarrow> credential_for xs i"
      using query False by (auto simp: credential_for_def)
    ultimately show ?thesis using assms(1) by (simp add: answer_inv_def)
  qed
  moreover have "map fst (xs @ ys) = vr_Credentials (as_Result st')" "gm_ok (as_Verified st')"
    using assms(1) ys(1) by (simp_all add: answer_inv_def st')
  moreover have "\<forall>x \<in> set (xs @ ys). gm_get (as_Seen st') (identity_of d x) \<noteq> None"
    using ys(2) by (simp add: seen_ok_def st')
  ultimately have "answer_inv d req (xs @ ys) st'" using ys(3) unfolding answer_inv_def by blast
  moreover have "flag (as_Verified st') (cq_ID cq) \<or> vr_Discarded (as_Result st') \<noteq> []"
    using some by (auto simp: st' flag_put)
  ultimately show ?thesis using from_answer own by blast
qed

lemma verify_queries_ok:
  assumes "verify_queries d req answered cqs st = Inr st'" "answer_inv d req xs st" "distinct (map cq_ID cqs)"
    and "\<forall>x \<in> set xs. vcr_CredentialQueryID (fst x) \<notin> cq_ID ` set cqs"
  shows "\<exists>ys. answer_inv d req (xs @ ys) st' \<and>
    (\<forall>y \<in> set ys. \<exists>cq \<in> set cqs. flag answered (cq_ID cq) \<and> presented_as d req cq y) \<and>
    (\<forall>cq \<in> set cqs. flag answered (cq_ID cq) \<longrightarrow>
       (\<forall>i < length (presented_for req (cq_ID cq)). own_outcome d req cq i (presented_for req (cq_ID cq) ! i)) \<and>
       (flag (as_Verified st') (cq_ID cq) \<or> vr_Discarded (as_Result st') \<noteq> [])) \<and>
    (vr_Discarded (as_Result st) \<noteq> [] \<longrightarrow> vr_Discarded (as_Result st') \<noteq> [])"
  using assms
proof (induction cqs arbitrary: st xs)
  case Nil
  then show ?case by (intro exI [of _ "[]"]) auto
next
  case (Cons cq cqs)
  show ?case
  proof (cases "flag answered (cq_ID cq)")
    case False
    with Cons.prems(1) have rest: "verify_queries d req answered cqs st = Inr st'" by simp
    have "distinct (map cq_ID cqs)" "\<forall>x \<in> set xs. vcr_CredentialQueryID (fst x) \<notin> cq_ID ` set cqs"
      using Cons.prems(3,4) by auto
    from Cons.IH [OF rest Cons.prems(2) this] False show ?thesis by fastforce
  next
    case True
    with Cons.prems(1) obtain vcs ds e seen where v: "verifyCredentialQuery d req cq (as_Seen st) = Inr (vcs, ds, e, seen)"
      by (auto split: sum.splits)
    define st1 where "st1 = \<lparr> as_Result = \<lparr> vr_Credentials = vr_Credentials (as_Result st) @ vcs,
        vr_Discarded = vr_Discarded (as_Result st) @ ds \<rparr>,
      as_Verified = gm_put (cq_ID cq) (vcs \<noteq> []) (as_Verified st),
      as_Failure = (if as_Failure st = None then e else as_Failure st), as_Seen = seen \<rparr>"
    have rest: "verify_queries d req answered cqs st1 = Inr st'" using True v Cons.prems(1) by (simp add: st1_def)
    have fresh: "\<forall>x \<in> set xs. vcr_CredentialQueryID (fst x) \<noteq> cq_ID cq" using Cons.prems(4) by auto
    from answer_inv_query [OF Cons.prems(2) fresh v st1_def] obtain ys where
      ys: "answer_inv d req (xs @ ys) st1" "\<forall>y \<in> set ys. presented_as d req cq y"
      and own: "\<forall>i < length (presented_for req (cq_ID cq)). own_outcome d req cq i (presented_for req (cq_ID cq) ! i)"
      and some: "flag (as_Verified st1) (cq_ID cq) \<or> vr_Discarded (as_Result st1) \<noteq> []" by blast
    have query: "vcr_CredentialQueryID (fst y) = cq_ID cq" if "y \<in> set ys" for y
      using ys(2) that presented_as_query by blast
    have "distinct (map cq_ID cqs)" "\<forall>x \<in> set (xs @ ys). vcr_CredentialQueryID (fst x) \<notin> cq_ID ` set cqs"
      using Cons.prems(3,4) query by auto
    from Cons.IH [OF rest ys(1) this] obtain zs where zs: "answer_inv d req ((xs @ ys) @ zs) st'"
      and from_zs: "\<forall>y \<in> set zs. \<exists>cq \<in> set cqs. flag answered (cq_ID cq) \<and> presented_as d req cq y"
      and others: "\<forall>cq \<in> set cqs. flag answered (cq_ID cq) \<longrightarrow>
        (\<forall>i < length (presented_for req (cq_ID cq)). own_outcome d req cq i (presented_for req (cq_ID cq) ! i)) \<and>
        (flag (as_Verified st') (cq_ID cq) \<or> vr_Discarded (as_Result st') \<noteq> [])"
      and mono: "vr_Discarded (as_Result st1) \<noteq> [] \<longrightarrow> vr_Discarded (as_Result st') \<noteq> []" by blast
    have "flag (as_Verified st') (cq_ID cq) \<or> vr_Discarded (as_Result st') \<noteq> []"
    proof (cases "vr_Discarded (as_Result st1) = []")
      case True
      with some ys(1) have "credential_for (xs @ ys) (cq_ID cq)" by (simp add: answer_inv_def)
      then have "credential_for ((xs @ ys) @ zs) (cq_ID cq)" by (auto simp: credential_for_def)
      with zs show ?thesis by (simp add: answer_inv_def)
    qed (use mono in simp)
    moreover have "vr_Discarded (as_Result st) \<noteq> [] \<longrightarrow> vr_Discarded (as_Result st') \<noteq> []"
      using mono by (simp add: st1_def)
    moreover have "\<forall>y \<in> set (ys @ zs). \<exists>cq' \<in> set (cq # cqs). flag answered (cq_ID cq') \<and> presented_as d req cq' y"
      using ys(2) from_zs True by auto
    ultimately show ?thesis using zs own others by (intro exI [of _ "ys @ zs"]) auto
  qed
qed

definition queries_done ::
  "('p, 'k, 'x) vp_deps \<Rightarrow> ('p, 'k) vp_request \<Rightarrow> (string, bool) gomap \<Rightarrow> credential_query list \<Rightarrow> answer_state
     \<Rightarrow> (verified_credential \<times> nat list) list \<Rightarrow> bool" where
  "queries_done d req answered cqs st xs =
     (answer_inv d req xs st \<and>
      (\<forall>x \<in> set xs. \<exists>cq \<in> set cqs. flag answered (cq_ID cq) \<and> presented_as d req cq x) \<and>
      (\<forall>cq \<in> set cqs. flag answered (cq_ID cq) \<longrightarrow>
         (\<forall>i < length (presented_for req (cq_ID cq)). own_outcome d req cq i (presented_for req (cq_ID cq) ! i)) \<and>
         (flag (as_Verified st) (cq_ID cq) \<or> vr_Discarded (as_Result st) \<noteq> [])))"

lemma queries_doneD:
  assumes "queries_done d req answered cqs st xs"
  shows "answer_inv d req xs st"
    and "\<forall>x \<in> set xs. \<exists>cq \<in> set cqs. flag answered (cq_ID cq) \<and> presented_as d req cq x"
    and "\<forall>cq \<in> set cqs. flag answered (cq_ID cq) \<longrightarrow>
      (\<forall>i < length (presented_for req (cq_ID cq)). own_outcome d req cq i (presented_for req (cq_ID cq) ! i)) \<and>
      (flag (as_Verified st) (cq_ID cq) \<or> vr_Discarded (as_Result st) \<noteq> [])"
proof -
  note d = assms [unfolded queries_done_def]
  show "answer_inv d req xs st" by (rule conjunct1 [OF d])
  note d = conjunct2 [OF d]
  show "\<forall>x \<in> set xs. \<exists>cq \<in> set cqs. flag answered (cq_ID cq) \<and> presented_as d req cq x" by (rule conjunct1 [OF d])
  show "\<forall>cq \<in> set cqs. flag answered (cq_ID cq) \<longrightarrow>
      (\<forall>i < length (presented_for req (cq_ID cq)). own_outcome d req cq i (presented_for req (cq_ID cq) ! i)) \<and>
      (flag (as_Verified st) (cq_ID cq) \<or> vr_Discarded (as_Result st) \<noteq> [])" by (rule conjunct2 [OF d])
qed

lemma verify_queries_done:
  assumes "verify_queries d req answered cqs no_answers = Inr st" "distinct (map cq_ID cqs)"
  shows "\<exists>xs. queries_done d req answered cqs st xs"
proof -
  have "answer_inv d req [] no_answers"
    by (simp add: answer_inv_def no_answers_def counted_once_def flag_def credential_for_def)
  from verify_queries_ok [OF assms(1) this assms(2)] show ?thesis
    unfolding queries_done_def by (simp only: list.set append_Nil) blast
qed

text \<open>
  A presentation made for another request. Of an SD-JWT VC: its issuer's key resolves, and everything about it verifies once the
  Key Binding JWT is asked for another audience or another nonce than this request's. Of an mdoc: everything the issuer signed
  verifies, the device's signature does not, over this request's session transcript.
\<close>

definition sdjwt_for_another :: "('p, 'k, 'x) vp_deps \<Rightarrow> ('p, 'k) vp_request \<Rightarrow> credential_query \<Rightarrow> nat \<Rightarrow> string \<Rightarrow> bool" where
  "sdjwt_for_another d req cq n p =
     (\<exists>keys pres header raw payload pub alg paths holder holderAlg aud nonce verified.
        rq_IssuerKeys req = Some keys \<and> Parse (vd_json d) p = Inr pres \<and>
        DecodeUnverified (vd_crypto d) (pn_IssuerJWT pres) = Inr (header, raw) \<and> cr_json (vd_crypto d) raw = Some payload \<and>
        resolve_issuer (sk_Resolver keys) header payload = Some (pub, alg, paths) \<and>
        (RequiresCryptographicHolderBinding cq \<or> gm_get payload ''cnf'' \<noteq> None) \<and>
        holderPublicKeyFromCNF (vd_ec d) (gm_get payload ''cnf'') = Some (holder, holderAlg) \<and>
        VerifyVC (vd_crypto d) (vd_hash d) (vd_json d) (vd_clock d (cq_ID cq) n) p pub alg
          ((sdjwt_options d req (Some (holder, holderAlg))) \<lparr> vo_ExpectedAudience := aud, vo_ExpectedNonce := nonce \<rparr>) = Inr verified \<and>
        (aud \<noteq> expectedAudience d (rq_Origin req) \<or> nonce \<noteq> rq_ExpectedNonce req))"

definition mdoc_for_another :: "('p, 'k, 'x) vp_deps \<Rightarrow> ('p, 'k) vp_request \<Rightarrow> credential_query \<Rightarrow> nat \<Rightarrow> string \<Rightarrow> bool" where
  "mdoc_for_another d req cq n p =
     (\<exists>keys key raw doc x5chain mso issuer verified chain thumbprint transcript alg.
        rq_MdocIssuerKeys req = Some keys \<and> rq_ResponseEncryptionKey req = Some key \<and> RawURLDecode p = Some raw \<and>
        mo_UnmarshalDeviceResponse (vd_mdoc d) raw = Some doc \<and> mo_IssuerAuth (vd_mdoc d) doc = Some (x5chain, mso) \<and>
        ResolveMdocIssuer (vd_mdoc d) (mk_Resolver keys) x5chain (mo_DocType (vd_mdoc d) doc) = Some issuer \<and>
        mo_Verify (vd_mdoc d) doc (mis_Key issuer) (mis_Alg issuer) (fst (vd_clock d (cq_ID cq) n)) (rq_MaxClockSkew req)
          = Some verified \<and>
        mdoc_issuer_check (vd_status d) (vd_mdoc d) (mk_Layers keys) x5chain (mo_DocType (vd_mdoc d) doc) issuer verified
          = Some chain \<and>
        jwk_Thumbprint (vd_crypto d) (vd_ec d) (mo_PublicKey (vd_mdoc d) key) = Inr thumbprint \<and>
        buildMdocSessionTranscriptBytes d req thumbprint = Some transcript \<and>
        mo_DeviceSignature (vd_mdoc d) doc \<and> mo_AlgForKey (vd_mdoc d) (vm_DeviceKey verified) = Some alg \<and>
        \<not> mo_VerifyDeviceSignature (vd_mdoc d) doc (vm_DeviceKey verified) alg transcript)"

definition for_another_request ::
  "('p, 'k, 'x) vp_deps \<Rightarrow> ('p, 'k) vp_request \<Rightarrow> credential_query \<Rightarrow> nat \<Rightarrow> string \<Rightarrow> bool" where
  "for_another_request d req cq n p =
     (cq_Format cq = formatSDJWTVC \<and> sdjwt_for_another d req cq n p \<or>
      cq_Format cq = formatMdoc \<and> mdoc_for_another d req cq n p)"

lemma VerifyKeyBindingJWT_other_request:
  assumes "VerifyKeyBindingJWT cr now kb holder alg (chk \<lparr> kc_ExpectedAudience := aud, kc_ExpectedNonce := nonce \<rparr>) = Inr cs"
    and "aud \<noteq> kc_ExpectedAudience chk \<or> nonce \<noteq> kc_ExpectedNonce chk"
    and "kc_ExpectedAudience chk \<noteq> []" "kc_ExpectedNonce chk \<noteq> []"
  shows "\<exists>what. VerifyKeyBindingJWT cr now kb holder alg chk = Inl (NotThisRequest what)"
proof -
  from assms(1) obtain header raw body where "Verify cr alg holder kb = Inr (header, raw)" "cr_json cr raw = Some body"
    "TypeIs (str_member header ''typ'') KeyBindingTyp" "str_member body ''aud'' = aud" "str_member body ''nonce'' = nonce"
    "\<not> kc_MaxAge chk \<le> 0" "\<not> kc_MaxClockSkew chk < 0"
    unfolding VerifyKeyBindingJWT_def by (simp split: if_splits sum.splits option.splits prod.splits)
  with assms(2-4) show ?thesis by (auto simp: VerifyKeyBindingJWT_def)
qed

lemma verifyKeyBindingIfRequired_other_request:
  assumes "verifyKeyBindingIfRequired cr h now pres (opts \<lparr> vo_ExpectedAudience := aud, vo_ExpectedNonce := nonce \<rparr>) hashAlg = None"
    and "vo_RequireKeyBinding opts = Some KeyBindingRequired"
    and "aud \<noteq> vo_ExpectedAudience opts \<or> nonce \<noteq> vo_ExpectedNonce opts"
    and "vo_ExpectedAudience opts \<noteq> []" "vo_ExpectedNonce opts \<noteq> []"
  shows "\<exists>what. verifyKeyBindingIfRequired cr h now pres opts hashAlg = Some (KeyBindingFails (NotThisRequest what))"
proof -
  from assms(1,2) obtain holder sdHash cs where at: "vo_HolderPublicKey opts = Some holder" "SDHash h hashAlg pres = Inr sdHash"
    and "VerifyKeyBindingJWT cr now (pn_KeyBindingJWT pres) holder (vo_KeyBindingAlg opts)
       (\<lparr> kc_ExpectedAudience = vo_ExpectedAudience opts, kc_ExpectedNonce = vo_ExpectedNonce opts,
         kc_ExpectedSDHash = sdHash, kc_MaxClockSkew = vo_MaxClockSkew opts, kc_MaxAge = vo_MaxKeyBindingAge opts \<rparr>
         \<lparr> kc_ExpectedAudience := aud, kc_ExpectedNonce := nonce \<rparr>) = Inr cs"
    unfolding verifyKeyBindingIfRequired_def by (simp split: option.splits sum.splits)
  from VerifyKeyBindingJWT_other_request [OF this(3)] assms(3-5) at assms(2) show ?thesis
    by (auto simp: verifyKeyBindingIfRequired_def)
qed

lemma VerifyVC_other_request:
  assumes "VerifyVC cr h json clock p pub alg (opts \<lparr> vo_ExpectedAudience := aud, vo_ExpectedNonce := nonce \<rparr>) = Inr verified"
    and "vo_RequireKeyBinding opts = Some KeyBindingRequired"
    and "aud \<noteq> vo_ExpectedAudience opts \<or> nonce \<noteq> vo_ExpectedNonce opts"
    and "vo_ExpectedAudience opts \<noteq> []" "vo_ExpectedNonce opts \<noteq> []"
  shows "\<exists>what. VerifyVC cr h json clock p pub alg opts = Inl (KeyBindingFails (NotThisRequest what))"
proof -
  let ?other = "opts \<lparr> vo_ExpectedAudience := aud, vo_ExpectedNonce := nonce \<rparr>"
  obtain expNow nbfNow kbNow where clock: "clock = (expNow, nbfNow, kbNow)" by (cases clock)
  have "vo_HashAlg ?other = vo_HashAlg opts" "vo_MaxClockSkew ?other = vo_MaxClockSkew opts" by simp_all
  then have accept: "accept_payload h expNow nbfNow ?other pres decoded = accept_payload h expNow nbfNow opts pres decoded" for pres decoded
    by (simp only: accept_payload_def)
  from assms(1,2) obtain pres header raw decoded hashAlg resolved where at: "Parse json p = Inr pres" "HasKeyBinding pres"
    "Verify cr alg pub (pn_IssuerJWT pres) = Inr (header, raw)" "cr_json cr raw = Some decoded"
    "TypeIs (str_member header ''typ'') TypHeader \<or> vo_AcceptLegacyTyp opts \<and> TypeIs (str_member header ''typ'') LegacyTypHeader"
    "accept_payload h expNow nbfNow opts pres decoded = Inr hashAlg"
    "ResolveDisclosures h decoded hashAlg (pn_Disclosures pres) = Inr resolved"
    and kb: "verifyKeyBindingIfRequired cr h kbNow pres ?other hashAlg = None"
    unfolding VerifyVC_def clock prod.case accept
    by (simp split: if_splits sum.splits option.splits prod.splits)
  from verifyKeyBindingIfRequired_other_request [OF kb assms(2-5)] at assms(2) show ?thesis
    unfolding VerifyVC_def clock prod.case by auto
qed

lemma sdjwt_for_another_refused:
  assumes "sdjwt_for_another d req cq n p" "expectedAudience d (rq_Origin req) \<noteq> []" "rq_ExpectedNonce req \<noteq> []"
  shows "verifySDJWTVCPresentation d req cq (vd_clock d (cq_ID cq) n) p = Inl (Refusal True ReasonHolderBinding ''verify'')"
proof -
  from assms(1) obtain keys pres header raw payload pub alg paths holder holderAlg aud nonce verified where
    at: "rq_IssuerKeys req = Some keys" "Parse (vd_json d) p = Inr pres"
      "DecodeUnverified (vd_crypto d) (pn_IssuerJWT pres) = Inr (header, raw)" "cr_json (vd_crypto d) raw = Some payload"
      "resolve_issuer (sk_Resolver keys) header payload = Some (pub, alg, paths)"
    and holder: "RequiresCryptographicHolderBinding cq \<or> gm_get payload ''cnf'' \<noteq> None"
      "holderPublicKeyFromCNF (vd_ec d) (gm_get payload ''cnf'') = Some (holder, holderAlg)"
    and v: "VerifyVC (vd_crypto d) (vd_hash d) (vd_json d) (vd_clock d (cq_ID cq) n) p pub alg
        ((sdjwt_options d req (Some (holder, holderAlg))) \<lparr> vo_ExpectedAudience := aud, vo_ExpectedNonce := nonce \<rparr>) = Inr verified"
    and other: "aud \<noteq> expectedAudience d (rq_Origin req) \<or> nonce \<noteq> rq_ExpectedNonce req"
    unfolding sdjwt_for_another_def by blast
  have binding: "holder_binding (vd_ec d) cq payload = Inr (Some (holder, holderAlg))"
    using holder by (simp add: holder_binding_def requiresHolderBinding_def)
  obtain what where "VerifyVC (vd_crypto d) (vd_hash d) (vd_json d) (vd_clock d (cq_ID cq) n) p pub alg
      (sdjwt_options d req (Some (holder, holderAlg))) = Inl (KeyBindingFails (NotThisRequest what))"
    using VerifyVC_other_request [OF v] other assms(2,3) by (auto simp: sdjwt_options_def)
  then show ?thesis by (simp add: verifySDJWTVCPresentation_def at binding)
qed

lemma mdoc_for_another_refused:
  assumes "mdoc_for_another d req cq n p"
  shows "verifyMdocPresentation d req cq (vd_clock d (cq_ID cq) n) p =
    Inl (Refusal True ReasonHolderBinding ''verify device signature'')"
  using assms unfolding mdoc_for_another_def
  by (elim exE conjE) (simp add: verifyMdocPresentation_def verify_device_def Let_def)

lemma for_another_not_own:
  assumes "for_another_request d req cq n p" "vd_clientID d \<noteq> []" "rq_ExpectedNonce req \<noteq> []"
  shows "\<not> own_outcome d req cq n p"
proof -
  have formats: "formatMdoc \<noteq> formatSDJWTVC" by (simp add: formatMdoc_def formatSDJWTVC_def)
  have "expectedAudience d (rq_Origin req) \<noteq> []" using assms(2) by (simp add: expectedAudience_def)
  from assms(1) show ?thesis unfolding for_another_request_def
  proof (elim disjE conjE)
    assume "cq_Format cq = formatSDJWTVC" "sdjwt_for_another d req cq n p"
    with sdjwt_for_another_refused [OF _ \<open>expectedAudience d (rq_Origin req) \<noteq> []\<close> assms(3)] show ?thesis
      by (simp add: own_outcome_def verify_presentation_def)
  next
    assume "cq_Format cq = formatMdoc" "mdoc_for_another d req cq n p"
    with mdoc_for_another_refused [of d req cq n p] formats show ?thesis by (simp add: own_outcome_def verify_presentation_def)
  qed
qed

text \<open>
  What an answer comes to: its credentials answer the query, each is one of the presentations sent for its credential
  query and verified, each is counted once, and none of the presentations sent is for another request (a Verifier without a
  \<open>client_id\<close> has no audience to ask for).
\<close>

definition answered_by ::
  "('p, 'k, 'x) vp_deps \<Rightarrow> ('p, 'k) vp_request \<Rightarrow> (verified_credential \<times> nat list) list \<Rightarrow> bool" where
  "answered_by d req xs =
     (answer_ok (rq_Query req) (credential_for xs) \<and>
      (\<forall>x \<in> set xs. \<exists>cq \<in> set (q_Credentials (rq_Query req)). presented_as d req cq x) \<and>
      counted_once d req xs \<and>
      (vd_clientID d \<noteq> [] \<longrightarrow>
         (\<forall>cq \<in> set (q_Credentials (rq_Query req)). \<forall>i < length (presented_for req (cq_ID cq)).
            \<not> for_another_request d req cq i (presented_for req (cq_ID cq) ! i))))"

lemma counted_once_filter: "counted_once d req xs \<Longrightarrow> counted_once d req (filter P xs)"
  by (simp add: counted_once_def distinct_map_filter)

lemma flag_answered: "flag (map (\<lambda>(i, _). (i, True)) m) i \<longleftrightarrow> gm_get m i \<noteq> None"
  by (induction m) (auto simp: flag_def)

lemma gm_ok_answered: "gm_ok m \<Longrightarrow> gm_ok (map (\<lambda>(i, _). (i, True)) m)"
  by (simp add: gm_ok_def comp_def case_prod_unfold)

lemma gm_ok_marks: "gm_ok m \<Longrightarrow> gm_ok (fold (\<lambda>cs. fold mark (f cs)) sets m)"
proof (induction sets arbitrary: m)
  case (Cons cs sets)
  have "gm_ok (mark option m)" if "gm_ok m" for option m
    using that unfolding mark_def by (induction option arbitrary: m) auto
  then have "gm_ok (fold mark options m)" if "gm_ok m" for options m
    using that by (induction options arbitrary: m) auto
  with Cons show ?case by simp
qed simp

text \<open>Keeping whole options keeps a credential for each id that is kept, and only those.\<close>

lemma keepCompleteOptions_kept:
  assumes "keepCompleteOptions q result verified = (result', kept)" "map fst xs = vr_Credentials result"
    and "\<forall>i. flag verified i \<longleftrightarrow> credential_for xs i"
  shows "\<exists>ys. set ys \<subseteq> set xs \<and> map fst ys = vr_Credentials result' \<and> gm_ok kept \<and>
    (\<forall>i. flag kept i \<longleftrightarrow> credential_for ys i) \<and>
    (counted_once d req xs \<longrightarrow> counted_once d req ys)"
proof -
  define ys where "ys = filter (\<lambda>x. flag kept (vcr_CredentialQueryID (fst x))) xs"
  have kept: "kept = fold (\<lambda>cs. fold mark (whole_options verified (cs_Options cs))) (q_CredentialSets q) []"
    using assms(1) by (simp add: keepCompleteOptions_def Let_def)
  have "flag kept i \<Longrightarrow> flag verified i" for i
    by (auto simp: kept flag_reachable set_choices_def set_whole_options flag_def [of "[]"] split: if_splits)
  then have "flag kept i \<longleftrightarrow> credential_for ys i" for i
    using assms(3) unfolding credential_for_def ys_def set_filter by (metis (mono_tags, lifting) mem_Collect_eq)
  moreover have "map fst ys = vr_Credentials result'"
    using assms(1) by (auto simp: keepCompleteOptions_def Let_def ys_def filter_map comp_def assms(2) [symmetric])
  moreover have "gm_ok kept" unfolding kept by (rule gm_ok_marks) simp
  moreover have "set ys \<subseteq> set xs" by (auto simp: ys_def)
  moreover have "counted_once d req xs \<longrightarrow> counted_once d req ys" unfolding ys_def using counted_once_filter by blast
  ultimately show ?thesis by (intro exI [of _ ys]) simp
qed

lemma settle_answer_ok:
  assumes "settle_answer q st = Inr result" "answer_inv d req xs st"
    and "vr_Discarded (as_Result st) = [] \<longrightarrow> answer_ok q (flag (as_Verified st))"
  shows "\<exists>ys. set ys \<subseteq> set xs \<and> map fst ys = vr_Credentials result \<and> counted_once d req ys \<and>
    answer_ok q (credential_for ys)"
proof -
  have inv: "map fst xs = vr_Credentials (as_Result st)" "counted_once d req xs" "gm_ok (as_Verified st)"
    "\<forall>i. flag (as_Verified st) i \<longleftrightarrow> credential_for xs i"
    using assms(2) by (simp_all add: answer_inv_def)
  then have flags: "flag (as_Verified st) = credential_for xs" by (simp add: fun_eq_iff)
  have sound: "CheckAnswered q m = None \<Longrightarrow> gm_ok m \<Longrightarrow> answer_ok q (flag m)" for m
    using CheckAnswered_exact [of m q] by simp
  consider "vr_Discarded (as_Result st) = []" "result = as_Result st"
    | "result = as_Result st" "CheckAnswered q (as_Verified st) = None"
    | kept where "keepCompleteOptions q (as_Result st) (as_Verified st) = (result, kept)" "CheckAnswered q kept = None"
    using assms(1) by (auto simp: settle_answer_def Let_def split: if_splits prod.splits)
  then show ?thesis
  proof cases
    case 1
    with assms(3) inv(1,2) flags show ?thesis by (intro exI [of _ xs]) simp
  next
    case 2
    with sound [OF 2(2) inv(3)] inv(1,2) flags show ?thesis by (intro exI [of _ xs]) simp
  next
    case 3
    from keepCompleteOptions_kept [OF 3(1) inv(1,4), of d req] obtain ys where ys: "set ys \<subseteq> set xs"
      "map fst ys = vr_Credentials result" "gm_ok kept"
      "\<forall>i. flag kept i \<longleftrightarrow> credential_for ys i" "counted_once d req ys"
      using inv(2) by blast
    from ys(4) have "flag kept = credential_for ys" by (simp add: fun_eq_iff)
    with sound [OF 3(2) ys(3)] ys show ?thesis by auto
  qed
qed

lemma VerifyResponse_answers:
  assumes "VerifyResponse d req = Inr result" "gm_ok (rq_VPToken req)"
  shows "\<exists>xs. map fst xs = vr_Credentials result \<and> answered_by d req xs"
proof -
  let ?q = "rq_Query req" and ?answered = "map (\<lambda>(i, _). (i, True)) (rq_VPToken req)"
  from assms(1) obtain st where check: "check_vp_request d req = None" and ok: "CheckAnswered ?q ?answered = None"
    and queries: "verify_queries d req ?answered (q_Credentials ?q) no_answers = Inr st"
    and settle: "settle_answer ?q st = Inr result"
    by (auto simp: VerifyResponse_def Let_def rbind_Inr_iff split: option.splits if_splits sum.splits)
  from check have "Query_Validate ?q = None" by (simp add: check_vp_request_def split: if_splits)
  then have "distinct (map cq_ID (q_Credentials ?q))" by (simp add: Query_Validate_wf query_wf_def)
  from verify_queries_done [OF queries this] obtain xs where xs: "queries_done d req ?answered (q_Credentials ?q) st xs" ..
  note inv = queries_doneD(1) [OF xs] and from_answer = queries_doneD(2) [OF xs] and each = queries_doneD(3) [OF xs]
  have sound: "answer_ok ?q (flag ?answered)"
    using ok CheckAnswered_exact [OF gm_ok_answered [OF assms(2)], of ?q] by simp
  have "answer_ok ?q (flag (as_Verified st))" if "vr_Discarded (as_Result st) = []"
  proof -
    have "flag (as_Verified st) i = flag ?answered i" for i
    proof
      assume "flag (as_Verified st) i"
      with inv obtain x where "x \<in> set xs" "vcr_CredentialQueryID (fst x) = i" by (auto simp: answer_inv_def credential_for_def)
      with from_answer presented_as_query show "flag ?answered i" by metis
    next
      assume i: "flag ?answered i"
      with sound obtain cq where "cq \<in> set (q_Credentials ?q)" "cq_ID cq = i" by (auto simp: answer_ok_def)
      with each i that show "flag (as_Verified st) i" by auto
    qed
    then have "flag (as_Verified st) = flag ?answered" by (simp add: fun_eq_iff)
    with sound show ?thesis by simp
  qed
  with settle_answer_ok [OF settle inv] obtain ys where ys: "set ys \<subseteq> set xs" "map fst ys = vr_Credentials result"
    "counted_once d req ys" "answer_ok ?q (credential_for ys)" by blast
  have own: "\<forall>i < length (presented_for req (cq_ID cq)). own_outcome d req cq i (presented_for req (cq_ID cq) ! i)"
    if "cq \<in> set (q_Credentials ?q)" for cq
  proof (cases "flag ?answered (cq_ID cq)")
    case False
    then show ?thesis by (simp add: flag_answered presented_for_def)
  qed (use each that in blast)
  have "rq_ExpectedNonce req \<noteq> []" using check by (auto simp: check_vp_request_def split: if_splits)
  then have "\<not> for_another_request d req cq i (presented_for req (cq_ID cq) ! i)"
    if "cq \<in> set (q_Credentials ?q)" "i < length (presented_for req (cq_ID cq))" "vd_clientID d \<noteq> []" for cq i
    using own that for_another_not_own by blast
  with ys from_answer have "answered_by d req ys" unfolding answered_by_def by blast
  with ys(2) show ?thesis by blast
qed

section \<open>Who signed a presentation\<close>

text \<open>Its issuer: the key the resolver gives for the JWT's own header and payload, whose registered claims are the
  credential's.\<close>

definition signed_by_issuer :: "('p, 'k, 'x) vp_deps \<Rightarrow> 'p sdjwt_keys \<Rightarrow> string \<Rightarrow> claims \<Rightarrow> bool" where
  "signed_by_issuer d keys p cs =
     (\<exists>header raw payload pub alg paths.
        Verify (vd_crypto d) alg pub (takeWhile (\<lambda>c. c \<noteq> tilde) p) = Inr (header, raw) \<and>
        cr_json (vd_crypto d) raw = Some payload \<and> resolve_issuer (sk_Resolver keys) header payload = Some (pub, alg, paths) \<and>
        (\<forall>name \<in> set nonDisclosableClaims. gm_get cs name = gm_get payload name))"

text \<open>Its holder: the key of the credential's own \<open>cnf\<close>, for this Verifier and this request's nonce, over every byte before
  the Key Binding JWT, within the age allowed.\<close>

definition signed_by_holder :: "('p, 'k, 'x) vp_deps \<Rightarrow> ('p, 'k) vp_request \<Rightarrow> int \<Rightarrow> string \<Rightarrow> claims \<Rightarrow> bool" where
  "signed_by_holder d req now p cs =
     (\<exists>sdjwt kb holder alg header raw body hashAlg issued.
        p = sdjwt @ kb \<and> last sdjwt = tilde \<and> tilde \<notin> set kb \<and>
        holderPublicKeyFromCNF (vd_ec d) (gm_get cs ''cnf'') = Some (holder, alg) \<and>
        Verify (vd_crypto d) alg holder kb = Inr (header, raw) \<and> cr_json (vd_crypto d) raw = Some body \<and>
        gm_get body ''aud'' = Some (GStr (expectedAudience d (rq_Origin req))) \<and>
        gm_get body ''nonce'' = Some (GStr (rq_ExpectedNonce req)) \<and>
        hashString (vd_hash d) hashAlg sdjwt = Inr (str_member body ''sd_hash'') \<and>
        date_claim body ''iat'' = Inr (Some issued) \<and> \<bar>issued - now\<bar> \<le> rq_MaxKeyBindingAge req)"

lemma DecodeUnverified_Verify:
  assumes "DecodeUnverified cr jws = Inr x" "Verify cr alg pub jws = Inr y"
  shows "x = y"
  using assms by (auto simp: DecodeUnverified_def DecodeUnverifiedMax_def Verify_def VerifyMax_def rbind_Inr_iff
      split: if_splits sum.splits option.splits)

lemma verifySDJWTVCPresentation_ok:
  assumes "verifySDJWTVCPresentation d req cq clock p = Inr (cs, chain)"
  obtains keys pres header raw payload pub alg paths holder hd where "rq_IssuerKeys req = Some keys"
    "Parse (vd_json d) p = Inr pres" "DecodeUnverified (vd_crypto d) (pn_IssuerJWT pres) = Inr (header, raw)"
    "cr_json (vd_crypto d) raw = Some payload" "resolve_issuer (sk_Resolver keys) header payload = Some (pub, alg, paths)"
    "holder_binding (vd_ec d) cq payload = Inr holder"
    "VerifyVC (vd_crypto d) (vd_hash d) (vd_json d) clock p pub alg (sdjwt_options d req holder) = Inr (cs, hd)"
    "SatisfiedBySDJWTVCPresentation (vd_ratOf d) cq cs = None"
    "\<not> rq_AllowUnrequestedClaims req \<longrightarrow> checkRequestedDisclosures (vd_hash d) cq payload (pn_Disclosures pres) = None"
    "check_authorities req cq chain = None"
proof -
  from assms obtain keys pres header raw payload pub alg paths holder hd where "rq_IssuerKeys req = Some keys"
    "Parse (vd_json d) p = Inr pres" "DecodeUnverified (vd_crypto d) (pn_IssuerJWT pres) = Inr (header, raw)"
    "cr_json (vd_crypto d) raw = Some payload" "resolve_issuer (sk_Resolver keys) header payload = Some (pub, alg, paths)"
    "holder_binding (vd_ec d) cq payload = Inr holder"
    "VerifyVC (vd_crypto d) (vd_hash d) (vd_json d) clock p pub alg (sdjwt_options d req holder) = Inr (cs, hd)"
    "SatisfiedBySDJWTVCPresentation (vd_ratOf d) cq cs = None"
    "(if rq_AllowUnrequestedClaims req then None
      else checkRequestedDisclosures (vd_hash d) cq payload (pn_Disclosures pres)) = None"
    "check_authorities req cq chain = None"
    unfolding verifySDJWTVCPresentation_def
    by (elim case_option_Inr_iff [THEN iffD1, elim_format] case_sum_Inr_iff [THEN iffD1, elim_format] exE conjE)
      (auto simp: ok_iffs)
  then show thesis by (intro that) auto
qed

lemma sdjwt_presentation_signed:
  assumes "verifySDJWTVCPresentation d req cq clock p = Inr (cs, chain)"
    and "\<forall>raw m. cr_json (vd_crypto d) raw = Some m \<longrightarrow> goval_ok (GObj m)"
  shows "\<exists>keys. rq_IssuerKeys req = Some keys \<and> signed_by_issuer d keys p cs"
    and "requiresHolderBinding cq cs \<Longrightarrow> signed_by_holder d req (snd (snd clock)) p cs"
proof -
  obtain expNow nbfNow kbNow where clock: "clock = (expNow, nbfNow, kbNow)" by (cases clock)
  obtain keys pres header raw payload pub alg paths holder hd where keys: "rq_IssuerKeys req = Some keys"
    and parse: "Parse (vd_json d) p = Inr pres"
    and decode: "DecodeUnverified (vd_crypto d) (pn_IssuerJWT pres) = Inr (header, raw)" "cr_json (vd_crypto d) raw = Some payload"
    and resolve: "resolve_issuer (sk_Resolver keys) header payload = Some (pub, alg, paths)"
    and holder: "holder_binding (vd_ec d) cq payload = Inr holder"
    and v: "VerifyVC (vd_crypto d) (vd_hash d) (vd_json d) (expNow, nbfNow, kbNow) p pub alg (sdjwt_options d req holder) = Inr (cs, hd)"
    using verifySDJWTVCPresentation_ok [OF assms(1) [unfolded clock]] by metis
  from verified_registered [OF v assms(2)] obtain raw' payload' where
    verified: "Verify (vd_crypto d) alg pub (takeWhile (\<lambda>c. c \<noteq> tilde) p) = Inr (hd, raw')"
      "cr_json (vd_crypto d) raw' = Some payload'"
    and same: "\<forall>name \<in> set nonDisclosableClaims. gm_get cs name = gm_get payload' name" by metis
  have "takeWhile (\<lambda>c. c \<noteq> tilde) p = pn_IssuerJWT pres"
    using parse issuer_jwt_text unfolding Parse_def by metis
  with DecodeUnverified_Verify [OF decode(1)] verified(1) have "hd = header" "raw' = raw" by auto
  with verified decode(2) have bytes: "Verify (vd_crypto d) alg pub (takeWhile (\<lambda>c. c \<noteq> tilde) p) = Inr (header, raw)"
    "payload' = payload" by auto
  with same resolve decode(2) keys show "\<exists>keys. rq_IssuerKeys req = Some keys \<and> signed_by_issuer d keys p cs"
    unfolding signed_by_issuer_def by blast
  have cnf: "gm_get cs ''cnf'' = gm_get payload ''cnf''" using same bytes(2) by (simp add: nonDisclosableClaims_def)
  assume "requiresHolderBinding cq cs"
  then have "requiresHolderBinding cq payload" using cnf by (simp add: requiresHolderBinding_def)
  with holder have binding: "(case holderPublicKeyFromCNF (vd_ec d) (gm_get payload ''cnf'') of
      None \<Rightarrow> Inl (failed ReasonHolderBinding ''resolve holder binding key'') | Some h \<Rightarrow> Inr (Some h)) = Inr holder"
    by (simp add: holder_binding_def)
  obtain key kalg where "holderPublicKeyFromCNF (vd_ec d) (gm_get payload ''cnf'') = Some (key, kalg)"
    using binding by (cases "holderPublicKeyFromCNF (vd_ec d) (gm_get payload ''cnf'')") auto
  moreover from this binding have "holder = Some (key, kalg)" by simp
  ultimately have key: "holder = Some (key, kalg)"
    "holderPublicKeyFromCNF (vd_ec d) (gm_get payload ''cnf'') = Some (key, kalg)" by simp_all
  then have "vo_RequireKeyBinding (sdjwt_options d req holder) = Some KeyBindingRequired" by (simp add: sdjwt_options_def)
  from VerifyVC_holder_bound [OF v this] have "signed_by_holder d req kbNow p cs"
    unfolding signed_by_holder_def cnf using key by (simp add: sdjwt_options_def)
  then show "signed_by_holder d req (snd (snd clock)) p cs" by (simp add: clock)
qed

lemma verify_presentation_sdjwt:
  assumes "verify_presentation d req cq n p = Inr x" "cq_Format cq = formatSDJWTVC"
  obtains chain where "verifySDJWTVCPresentation d req cq (vd_clock d (cq_ID cq) n) p = Inr (vcr_Claims (fst x), chain)"
    "snd x = str_bytes (sdjwtvcSignedPart p)"
  using assms by (auto simp: verify_presentation_def rbind_Inr_iff rmap_Inr_iff split: option.splits prod.splits)

section \<open>Properties\<close>

text \<open>C2: An answer \<open>VerifyResponse\<close> accepts answers the query: its credentials make up a selection OpenID4VP 6.4.2 allows, also
  after some were discarded. Each of them is one of the presentations sent for its credential query, verified; no
  credential is counted twice under one query, nor at all where distinct ones are asked. And no presentation sent for the
  query, returned or discarded, is one that verifies but for its request: an SD-JWT VC from a resolved issuer whose Key Binding JWT
  passes for another audience or nonce, or an mdoc whose issuer-signed part verifies and whose device signature does not verify over
  this request's transcript (a presentation that fails before that, of an unresolved issuer say, may be discarded).\<close>

theorem response_answers:
  assumes "VerifyResponse d req = Inr result" "gm_ok (rq_VPToken req)"
  shows "\<exists>xs. map fst xs = vr_Credentials result \<and> answered_by d req xs"
  using assms by (rule VerifyResponse_answers)

text \<open>C4: An SD-JWT VC in an accepted answer was signed by the issuer its own header and payload resolve to, with the registered
  claims returned; and where it names a holder key, or the query asks for holder binding, its presentation was signed by the
  key in its own \<open>cnf\<close> for this Verifier, with this request's nonce, within the age allowed at the clock's reading for it.\<close>

theorem response_bound:
  assumes "VerifyResponse d req = Inr result" "gm_ok (rq_VPToken req)"
    and "\<forall>raw m. cr_json (vd_crypto d) raw = Some m \<longrightarrow> goval_ok (GObj m)"
    and "vc \<in> set (vr_Credentials result)"
  shows "\<exists>cq \<in> set (q_Credentials (rq_Query req)). cq_ID cq = vcr_CredentialQueryID vc \<and>
    (cq_Format cq = formatSDJWTVC \<longrightarrow>
       (\<exists>n < length (presented_for req (cq_ID cq)).
          (\<exists>keys. rq_IssuerKeys req = Some keys \<and> signed_by_issuer d keys (presented_for req (cq_ID cq) ! n) (vcr_Claims vc)) \<and>
          (RequiresCryptographicHolderBinding cq \<or> gm_get (vcr_Claims vc) ''cnf'' \<noteq> None \<longrightarrow>
             signed_by_holder d req (snd (snd (vd_clock d (cq_ID cq) n))) (presented_for req (cq_ID cq) ! n) (vcr_Claims vc))))"
proof -
  obtain xs where xs: "map fst xs = vr_Credentials result" "answered_by d req xs"
    using VerifyResponse_answers [OF assms(1,2)] by blast
  with assms(4) obtain x where x: "x \<in> set xs" "fst x = vc" by (metis in_set_conv_nth length_map nth_map nth_mem)
  with xs(2) obtain cq where cq: "cq \<in> set (q_Credentials (rq_Query req))" "presented_as d req cq x"
    unfolding answered_by_def by blast
  then obtain n where n: "n < length (presented_for req (cq_ID cq))"
    "verify_presentation d req cq n (presented_for req (cq_ID cq) ! n) = Inr x" unfolding presented_as_def by blast
  let ?p = "presented_for req (cq_ID cq) ! n"
  have "(\<exists>keys. rq_IssuerKeys req = Some keys \<and> signed_by_issuer d keys ?p (vcr_Claims vc)) \<and>
      (RequiresCryptographicHolderBinding cq \<or> gm_get (vcr_Claims vc) ''cnf'' \<noteq> None \<longrightarrow>
         signed_by_holder d req (snd (snd (vd_clock d (cq_ID cq) n))) ?p (vcr_Claims vc))"
    if sdjwt: "cq_Format cq = formatSDJWTVC"
  proof -
    from verify_presentation_sdjwt [OF n(2) sdjwt] obtain chain where
      "verifySDJWTVCPresentation d req cq (vd_clock d (cq_ID cq) n) ?p = Inr (vcr_Claims vc, chain)" using x(2) by metis
    from sdjwt_presentation_signed [OF this assms(3)] show ?thesis unfolding requiresHolderBinding_def by blast
  qed
  moreover have "cq_ID cq = vcr_CredentialQueryID vc" using presented_as_query [OF cq(2)] x(2) by simp
  ultimately show ?thesis using cq(1) n(1) by blast
qed

section \<open>An answer by example\<close>

text \<open>One credential, bound to an Ed25519 key and presented with a Key Binding JWT for this request, one of a transaction's.\<close>

definition vp_payload :: claims where
  "vp_payload = [(''vct'', GStr ''v''), (''cnf'', GObj [(''jwk'', wallet_jwk)])]"

definition vp_header :: claims where
  "vp_header = [(''alg'', GStr EdDSA), (''typ'', GStr TypHeader)]"

definition vp_kb_header :: claims where
  "vp_kb_header = [(''alg'', GStr EdDSA), (''typ'', GStr KeyBindingTyp)]"

definition vp_kb :: claims where
  "vp_kb = [(''aud'', GStr ''verifier''), (''nonce'', GStr ''n''), (''iat'', GFloat (Finite 50))]"

definition vp_crypto :: "unit crypto" where
  "vp_crypto = vc_crypto \<lparr> cr_json := (\<lambda>raw.
     if raw = [0] then Some vp_header else if raw = [2] then Some vp_payload
     else if raw = [3] then Some vp_kb_header else if raw = [4] then Some vp_kb else None) \<rparr>"

definition no_mdoc :: "(unit, unit, unit) mdoc_ops" where
  "no_mdoc = \<lparr> mo_UnmarshalDeviceResponse = (\<lambda>_. None), mo_IssuerAuth = (\<lambda>_. None), mo_DocType = (\<lambda>_. []),
     mo_Verify = (\<lambda>_ _ _ _ _. None), mo_CheckDocumentSigner = (\<lambda>_ _. None), mo_DeviceSignature = (\<lambda>_. False),
     mo_AlgForKey = (\<lambda>_. None), mo_VerifyDeviceSignature = (\<lambda>_ _ _ _. False), mo_CheckKeyAuthorizations = (\<lambda>_ _. False),
     mo_PublicKey = (\<lambda>_. OtherKey), mo_Transcript = (\<lambda>_ _ _ _. None), mo_DCAPITranscript = (\<lambda>_ _ _. None) \<rparr>"

definition vp_sample_deps :: "(unit, unit, unit) vp_deps" where
  "vp_sample_deps = \<lparr> vd_crypto = vp_crypto, vd_ec = no_ec, vd_hash = sample_hash, vd_json = sample_json, vd_ratOf = (\<lambda>_. None),
     vd_clock = (\<lambda>_ _. vc_clock), vd_status = sample_status_deps, vd_X5CDERsFromHeader = (\<lambda>_. None), vd_OriginOK = (\<lambda>_. False),
     vd_mdoc = no_mdoc, vd_clientID = ''verifier'', vd_ResponseURI = ''https://v/r'', vd_Assurance = AssuranceDevelopment \<rparr>"

definition vp_issuer_key :: "unit public_key" where "vp_issuer_key = EdKey (replicate 32 7)"

definition vp_keys :: "unit sdjwt_keys" where
  "vp_keys = \<lparr> sk_Resolver = KeyResolver (\<lambda>_ _. Some (vp_issuer_key, EdDSA)), sk_BindsIssuerName = False, sk_Validate = Some True,
     sk_Hardened = True, sk_SystemPool = False \<rparr>"

definition vp_presented :: string where "vp_presented = ''AA.Ag.AQ~Aw.BA.AQ''"

definition vp_query :: credential_query where "vp_query = SDJWTVCQuery ''pid'' ''v'' []"

definition vp_sample_request :: "(unit, unit) vp_request" where
  "vp_sample_request = \<lparr> rq_Query = \<lparr> q_Credentials = [vp_query], q_CredentialSets = [] \<rparr>,
     rq_VPToken = [(''pid'', [vp_presented])], rq_ExpectedNonce = ''n'', rq_IssuerKeys = Some vp_keys, rq_MaxClockSkew = 0,
     rq_MaxKeyBindingAge = 1000000000, rq_MdocIssuerKeys = None, rq_AuthoritiesChecker = NoChecker,
     rq_CheckTrustedAuthorities = (\<lambda>_ _. False), rq_IssuerAuthorized = None, rq_AnyIssuerForAnyType = True,
     rq_DistinctCredentials = False, rq_Status = None, rq_NoStatusCheck = True, rq_AllowUnrequestedClaims = False,
     rq_Accept = None, rq_statusByTransactions = True, rq_ResponseEncryptionKey = Some (), rq_Origin = [], rq_ExpectedOrigins = [] \<rparr>"

lemma vp_parses: "Parse sample_json vp_presented = Inr vc_presented"
  unfolding vp_presented_def by (rule vc_parses)

lemma vp_pieces: "jose_split ''AA.Ag.AQ'' = Inr (''AA'', ''Ag'', ''AQ'')" "jose_split ''Aw.BA.AQ'' = Inr (''Aw'', ''BA'', ''AQ'')"
  "DecodeString ''AA'' = Inr [0]" "DecodeString ''Ag'' = Inr [2]" "DecodeString ''Aw'' = Inr [3]" "DecodeString ''BA'' = Inr [4]"
  "DecodeString ''AQ'' = Inr [1]" "\<not> IsSmallOrderEd25519 (replicate 32 7)"
  by code_simp+

lemma vp_signed:
  "DecodeUnverified vp_crypto ''AA.Ag.AQ'' = Inr (vp_header, [2])"
  "Verify vp_crypto EdDSA vp_issuer_key ''AA.Ag.AQ'' = Inr (vp_header, [2])"
  "Verify vp_crypto EdDSA (EdKey wallet_key) ''Aw.BA.AQ'' = Inr (vp_kb_header, [4])"
  by (simp_all add: DecodeUnverified_def DecodeUnverifiedMax_def Verify_def VerifyMax_def MaxCompactBytes_def vp_pieces
    jose_header_def vp_crypto_def vc_crypto_def vp_header_def vp_kb_header_def vp_issuer_key_def str_member_def verifyBytes_def
    wallet_key_fine EdDSA_def ES256_def)

lemma vp_holder: "holder_binding no_ec vp_query vp_payload = Inr (Some (EdKey wallet_key, EdDSA))"
  by (simp add: holder_binding_def requiresHolderBinding_def vp_query_def SDJWTVCQuery_def newCredentialQuery_def
    RequiresCryptographicHolderBinding_def holderPublicKeyFromCNF_def vp_payload_def wallet_jwk_parses)

abbreviation "vp_options \<equiv> sdjwt_options vp_sample_deps vp_sample_request (Some (EdKey wallet_key, EdDSA))"

lemma vp_option_fields [simp]:
  "vo_RequireKeyBinding vp_options = Some KeyBindingRequired" "vo_HolderPublicKey vp_options = Some (EdKey wallet_key)"
  "vo_KeyBindingAlg vp_options = EdDSA" "vo_ExpectedAudience vp_options = ''verifier''" "vo_ExpectedNonce vp_options = ''n''"
  "vo_MaxKeyBindingAge vp_options = 1000000000" "vo_MaxClockSkew vp_options = 0" "vo_HashAlg vp_options = []"
  by (simp_all add: sdjwt_options_def expectedAudience_def vp_sample_request_def vp_sample_deps_def)

lemma vp_bound: "verifyKeyBindingIfRequired vp_crypto sample_hash 50500000000 vc_presented vp_options SHA256 = None"
proof -
  have "SDHash sample_hash SHA256 vc_presented = Inr []" by code_simp
  moreover have "VerifyKeyBindingJWT vp_crypto 50500000000 ''Aw.BA.AQ'' (EdKey wallet_key) EdDSA
      \<lparr> kc_ExpectedAudience = ''verifier'', kc_ExpectedNonce = ''n'', kc_ExpectedSDHash = [], kc_MaxClockSkew = 0,
        kc_MaxAge = 1000000000 \<rparr> = Inr vp_kb"
    by (simp add: VerifyKeyBindingJWT_def vp_signed vp_kb_header_def str_member_def vc_types)
      (simp add: vp_crypto_def vp_kb_def str_member_def date_claim_def checkValidityWindow_def MaxDate_def second_def)
  ultimately show ?thesis by (simp add: verifyKeyBindingIfRequired_def)
qed

lemma vp_accepted: "accept_payload sample_hash 50500000000 50500000000 vp_options vc_presented vp_payload = Inr SHA256"
  by (simp add: accept_payload_def vp_payload_def checkValidityWindow_def date_claim_def PayloadHashAlg_def DefaultHashAlg_def
      checkNoRegisteredClaimDisclosed_def checkNoRegisteredSubClaimDisclosable_def nonDisclosableClaims_def wallet_jwk_def)

lemma vp_verifies:
  "VerifyVC vp_crypto sample_hash sample_json vc_clock vp_presented vp_issuer_key EdDSA vp_options = Inr (vp_payload, vp_header)"
proof -
  have "ResolveDisclosures sample_hash vp_payload SHA256 [] = Inr vp_payload" by code_simp
  moreover have "cr_json vp_crypto [2] = Some vp_payload" by (simp add: vp_crypto_def)
  ultimately show ?thesis
    by (simp add: VerifyVC_def vp_parses vp_signed vp_bound vp_accepted HasKeyBinding_def)
      (simp add: vp_header_def str_member_def vc_types)
qed

lemma vp_satisfies: "SatisfiedBySDJWTVCPresentation (\<lambda>_. None) vp_query vp_payload = None"
  by (simp add: SatisfiedBySDJWTVCPresentation_None checkVCT_def vp_query_def SDJWTVCQuery_def newCredentialQuery_def
    SDJWTVCMeta_def dec_field_def case_clash_def credentialTypes_def selectedClaimPaths_def vp_payload_def)

lemma vp_requested: "checkRequestedDisclosures sample_hash vp_query vp_payload [] = None"
proof -
  have "cq_Claims vp_query = None" by (simp add: vp_query_def SDJWTVCQuery_def newCredentialQuery_def)
  moreover have "PayloadHashAlg vp_payload SHA256 = Inr SHA256" by (simp add: PayloadHashAlg_def vp_payload_def)
  moreover have "SelectDisclosuresAt sample_hash vp_payload SHA256 [] [] = Inr []"
    by (simp add: SelectDisclosuresAt_def)
  ultimately show ?thesis by (simp add: checkRequestedDisclosures_def)
qed

lemma vp_presentation:
  "verifySDJWTVCPresentation vp_sample_deps vp_sample_request vp_query vc_clock vp_presented = Inr (vp_payload, [])"
proof -
  have "cr_json vp_crypto [2] = Some vp_payload" by (simp add: vp_crypto_def)
  moreover have "rq_IssuerKeys vp_sample_request = Some vp_keys" "\<not> rq_AllowUnrequestedClaims vp_sample_request"
    by (simp_all add: vp_sample_request_def)
  moreover have "check_authorities vp_sample_request vp_query [] = None"
    by (simp add: check_authorities_def vp_query_def SDJWTVCQuery_def newCredentialQuery_def)
  moreover have "sdjwt_chain vp_sample_deps (sk_Resolver vp_keys) vp_header vp_issuer_key [] = Inr []"
    by (simp add: sdjwt_chain_def vp_keys_def vp_sample_deps_def keyBoundChain_def)
  moreover have "resolve_issuer (sk_Resolver vp_keys) vp_header vp_payload = Some (vp_issuer_key, EdDSA, [])"
    by (simp add: resolve_issuer_def vp_keys_def)
  moreover have "vd_crypto vp_sample_deps = vp_crypto" "vd_hash vp_sample_deps = sample_hash" "vd_json vp_sample_deps = sample_json"
    "vd_ec vp_sample_deps = no_ec" "vd_ratOf vp_sample_deps = (\<lambda>_. None)" by (simp_all add: vp_sample_deps_def)
  ultimately show ?thesis
    by (simp add: verifySDJWTVCPresentation_def vp_parses vp_signed vp_holder vp_verifies vp_satisfies vp_requested)
qed

definition vp_credential :: verified_credential where
  "vp_credential = \<lparr> vcr_CredentialQueryID = ''pid'', vcr_Claims = vp_payload, vcr_MdocStatus = None, vcr_IssuerChain = [] \<rparr>"

lemma vp_query_fields [simp]: "cq_ID vp_query = ''pid''" "cq_Format vp_query = formatSDJWTVC" "cq_TrustedAuthorities vp_query = []"
  by (simp_all add: vp_query_def SDJWTVCQuery_def newCredentialQuery_def)

lemma vp_one: "verify_presentation vp_sample_deps vp_sample_request vp_query 0 vp_presented =
    Inr (vp_credential, str_bytes (sdjwtvcSignedPart vp_presented))"
proof -
  have "vd_clock vp_sample_deps ''pid'' 0 = vc_clock" by (simp add: vp_sample_deps_def)
  moreover have "authorizeIssuer vp_sample_request vp_query vp_payload [] = None"
    by (simp add: authorizeIssuer_def vp_sample_request_def)
  ultimately show ?thesis by (simp add: verify_presentation_def vp_presentation vp_credential_def)
qed

text \<open>The same presentation, sent for a request with another nonce, is one made for another request.\<close>

lemma vp_for_another:
  "for_another_request vp_sample_deps (vp_sample_request \<lparr> rq_ExpectedNonce := ''m'' \<rparr>) vp_query 0 vp_presented"
proof -
  let ?req = "vp_sample_request \<lparr> rq_ExpectedNonce := ''m'' \<rparr>" and ?holder = "(EdKey wallet_key, EdDSA)"
  have same: "(sdjwt_options vp_sample_deps ?req (Some ?holder)) \<lparr> vo_ExpectedAudience := ''verifier'', vo_ExpectedNonce := ''n'' \<rparr>
      = vp_options"
    by (simp add: sdjwt_options_def expectedAudience_def vp_sample_request_def vp_sample_deps_def)
  have deps: "vd_crypto vp_sample_deps = vp_crypto" "vd_hash vp_sample_deps = sample_hash" "vd_json vp_sample_deps = sample_json"
    "vd_ec vp_sample_deps = no_ec" "vd_clock vp_sample_deps ''pid'' 0 = vc_clock" by (simp_all add: vp_sample_deps_def)
  have req: "rq_IssuerKeys ?req = Some vp_keys" "rq_ExpectedNonce ?req = ''m''" by (simp_all add: vp_sample_request_def)
  have decode: "DecodeUnverified vp_crypto (pn_IssuerJWT vc_presented) = Inr (vp_header, [2])" using vp_signed(1) by simp
  have payload: "cr_json vp_crypto [2] = Some vp_payload" by (simp add: vp_crypto_def)
  have issuer: "resolve_issuer (sk_Resolver vp_keys) vp_header vp_payload = Some (vp_issuer_key, EdDSA, [])"
    by (simp add: resolve_issuer_def vp_keys_def)
  have cnf: "gm_get vp_payload ''cnf'' \<noteq> None" by (simp add: vp_payload_def)
  have holder: "holderPublicKeyFromCNF no_ec (gm_get vp_payload ''cnf'') = Some ?holder"
    by (simp add: vp_payload_def holderPublicKeyFromCNF_def wallet_jwk_parses)
  have verifies: "VerifyVC vp_crypto sample_hash sample_json vc_clock vp_presented vp_issuer_key EdDSA
      ((sdjwt_options vp_sample_deps ?req (Some ?holder)) \<lparr> vo_ExpectedAudience := ''verifier'', vo_ExpectedNonce := ''n'' \<rparr>)
      = Inr (vp_payload, vp_header)"
    unfolding same by (rule vp_verifies)
  have "''n'' \<noteq> ''m''" by simp
  then have "sdjwt_for_another vp_sample_deps ?req vp_query 0 vp_presented"
    unfolding sdjwt_for_another_def req deps vp_query_fields
    using vp_parses decode payload issuer cnf holder verifies by blast
  then show ?thesis by (simp add: for_another_request_def)
qed

lemma vp_checked: "check_vp_request vp_sample_deps vp_sample_request = None"
proof -
  have "Query_Validate \<lparr> q_Credentials = [vp_query], q_CredentialSets = [] \<rparr> = None"
    by (simp add: Query_Validate_wf query_wf_def credential_wf_def credential_sized_def meta_wf_def vp_query_def SDJWTVCQuery_def
      newCredentialQuery_def SDJWTVCMeta_def dec_field_def case_clash_def max_defs idPattern_def id_chars_def claim_ids_def
      formatSDJWTVC_def formatMdoc_def)
  then show ?thesis
    by (simp add: check_vp_request_def vp_sample_request_def vp_sample_deps_def checkMaxKeyBindingAgeRequired_def checkTimeBounds_def
      MaxAllowedKeyBindingAge_def MaxAllowedClockSkew_def checkTrustedAuthoritiesConfigured_def checkIssuerKeysValid_def vp_keys_def
      CheckStatusDecision_def)
qed

lemma vp_run: "VerifyResponse vp_sample_deps vp_sample_request = Inr \<lparr> vr_Credentials = [vp_credential], vr_Discarded = [] \<rparr>"
proof -
  have query: "rq_Query vp_sample_request = \<lparr> q_Credentials = [vp_query], q_CredentialSets = [] \<rparr>"
    "rq_VPToken vp_sample_request = [(''pid'', [vp_presented])]" by (simp_all add: vp_sample_request_def)
  have "CheckAnswered \<lparr> q_Credentials = [vp_query], q_CredentialSets = [] \<rparr> [(''pid'', True)] = None"
    by (simp add: CheckAnswered_def sortedIDs_def checkAllAnswered_def flag_def)
  moreover have "presented_for vp_sample_request ''pid'' = [vp_presented]" by (simp add: presented_for_def query)
  then have "verifyCredentialQuery vp_sample_deps vp_sample_request vp_query [] =
      Inr ([vp_credential], [], None, [(cr_sha256 vp_crypto (str_bytes (sdjwtvcSignedPart vp_presented)), ''pid'')])"
    by (simp add: verifyCredentialQuery_def MaxPresentationsPerQuery_def vp_one seen_before_def Let_def)
      (simp add: vp_sample_deps_def)
  then have "verify_queries vp_sample_deps vp_sample_request [(''pid'', True)] [vp_query] no_answers =
      Inr \<lparr> as_Result = \<lparr> vr_Credentials = [vp_credential], vr_Discarded = [] \<rparr>, as_Verified = [(''pid'', True)],
        as_Failure = None, as_Seen = [(cr_sha256 vp_crypto (str_bytes (sdjwtvcSignedPart vp_presented)), ''pid'')] \<rparr>"
    by (simp add: no_answers_def flag_def)
  moreover have "accept_result vp_sample_deps vp_sample_request r = None" for r
    by (simp add: accept_result_def vp_sample_request_def)
  ultimately show ?thesis by (simp add: VerifyResponse_def vp_checked query settle_answer_def)
qed

theorem response_answers_witness:
  "\<exists>part. answered_by vp_sample_deps vp_sample_request [(vp_credential, part)]"
proof -
  have "gm_ok (rq_VPToken vp_sample_request)" by (simp add: vp_sample_request_def)
  from response_answers [OF vp_run this] show ?thesis by (auto simp: map_eq_Cons_conv)
qed

theorem response_bound_witness:
  "signed_by_issuer vp_sample_deps vp_keys vp_presented vp_payload \<and>
    signed_by_holder vp_sample_deps vp_sample_request 50500000000 vp_presented vp_payload"
proof -
  have ok: "gm_ok (rq_VPToken vp_sample_request)" by (simp add: vp_sample_request_def)
  have maps: "\<forall>raw m. cr_json (vd_crypto vp_sample_deps) raw = Some m \<longrightarrow> goval_ok (GObj m)"
    by (auto simp: vp_sample_deps_def vp_crypto_def vp_header_def vp_payload_def vp_kb_header_def vp_kb_def wallet_jwk_def)
  have "rq_Query vp_sample_request = \<lparr> q_Credentials = [vp_query], q_CredentialSets = [] \<rparr>"
    "presented_for vp_sample_request ''pid'' = [vp_presented]" "rq_IssuerKeys vp_sample_request = Some vp_keys"
    by (simp_all add: vp_sample_request_def presented_for_def)
  moreover have "gm_get vp_payload ''cnf'' \<noteq> None" "vd_clock vp_sample_deps ''pid'' n = (50500000000, 50500000000, 50500000000)" for n
    by (simp_all add: vp_payload_def vp_sample_deps_def)
  ultimately show ?thesis using response_bound [OF vp_run ok maps, of vp_credential] by (auto simp: vp_credential_def)
qed

end
