(* ===== verification/Verified_Flow.thy ===== *)
theory Verified_Flow
  imports Verify_Response Tx_Props
begin

text \<open>
  \<open>Transactions\<close> over \<open>VerifyResponse\<close>: the request \<open>verifyParsed\<close> makes of the configuration and a transaction, and what it
  means for an answer that completes one.
\<close>

definition request_for ::
  "('p, 'k) vp_request \<Rightarrow> query \<Rightarrow> parsed_response \<Rightarrow> string \<Rightarrow> 'k option \<Rightarrow> string \<Rightarrow> ('p, 'k) vp_request" where
  "request_for base q parsed nonce key origin =
     (let req = base \<lparr> rq_Query := q, rq_VPToken := pr_VPToken parsed, rq_ExpectedNonce := nonce,
                       rq_ResponseEncryptionKey := key, rq_statusByTransactions := True \<rparr>
      in if origin \<noteq> [] then req \<lparr> rq_Origin := origin, rq_ExpectedOrigins := [origin] \<rparr> else req)"

text \<open>A \<open>Transactions\<close> whose verifier is \<open>VerifyResponse\<close>, with \<open>TransactionsConfig.Verify\<close> as the base.\<close>

definition verifies_with ::
  "('p, 'k, 'x) vp_deps \<Rightarrow> ('p, 'k) vp_request \<Rightarrow> ('k, verify_result) transactions \<Rightarrow> bool" where
  "verifies_with d base t =
     (dep t d_verifyResponse = (\<lambda>q parsed nonce key origin. VerifyResponse d (request_for base q parsed nonce key origin)))"

abbreviation tx_request :: "('p, 'k) vp_request \<Rightarrow> ('k, 'r) transaction \<Rightarrow> parsed_response \<Rightarrow> ('p, 'k) vp_request" where
  "tx_request base tx parsed \<equiv>
     request_for base (tx_Query tx) parsed (tx_Nonce tx) (tx_ResponseDecryptionKey tx) (tx_Origin tx)"

lemma request_for_fields [simp]:
  "rq_Query (request_for base q parsed nonce key origin) = q"
  "rq_VPToken (request_for base q parsed nonce key origin) = pr_VPToken parsed"
  "rq_ExpectedNonce (request_for base q parsed nonce key origin) = nonce"
  "rq_IssuerKeys (request_for base q parsed nonce key origin) = rq_IssuerKeys base"
  by (simp_all add: request_for_def Let_def)

lemma request_for_origin [simp]:
  "rq_Origin (request_for base q parsed nonce key origin) = (if origin \<noteq> [] then origin else rq_Origin base)"
  by (simp add: request_for_def Let_def)

text \<open>An answer that was verified for a transaction, and passed the deployment's status check and \<open>Accept\<close>.\<close>

definition verified_for ::
  "('p, 'k, 'x) vp_deps \<Rightarrow> ('p, 'k) vp_request \<Rightarrow> ('k, verify_result) transactions \<Rightarrow> ('k, verify_result) transaction
     \<Rightarrow> parsed_response \<Rightarrow> verify_result \<Rightarrow> bool" where
  "verified_for d base t tx parsed result =
     (pr_State parsed = tx_State tx \<and> VerifyResponse d (tx_request base tx parsed) = Inr result \<and>
      (\<forall>check. dep t d_status = Some check \<longrightarrow> check result = None) \<and>
      (\<forall>accept. dep t d_accept = Some accept \<longrightarrow> accept (tx_ID tx) result = None))"

lemma tx_verify_verified:
  assumes "verifies_with d base t" "tx_verify t tx jwe = Inr result"
  obtains parsed where "ParseDirectPostJWTResponse (t_deps t) jwe (tx_ResponseDecryptionKey tx) = Inr parsed"
    "verified_for d base t tx parsed result"
proof -
  from assms(2) obtain parsed where parsed: "ParseDirectPostJWTResponse (t_deps t) jwe (tx_ResponseDecryptionKey tx) = Inr parsed"
    and state: "pr_State parsed = tx_State tx" and v: "verifyParsed t tx parsed = Inr result"
    by (auto simp: tx_verify_def split: sum.splits option.splits if_splits)
  from v assms(1) have "VerifyResponse d (tx_request base tx parsed) = Inr result" "acceptVerified t tx result = Inr result"
    by (auto simp: verifyParsed_def verifies_with_def rbind_Inr_iff acceptVerified_def split: option.splits)
  with state have "verified_for d base t tx parsed result"
    by (auto simp: verified_for_def acceptVerified_def split: option.splits)
  with parsed show thesis by (rule that)
qed

lemma complete_answer_result:
  assumes "complete_answer t now result code cur = Inr (cur', c)"
  shows "tx_Result cur' = Some result \<and> tx_Nonce cur' = tx_Nonce cur \<and>
    tx_Status cur' \<in> {TransactionAwaitingRedirect, TransactionDone} \<and> tx_Status cur = TransactionPending"
  using assms by (auto simp: complete_answer_def checkPending_def Let_def split: if_splits option.splits)

lemma tx_update_saves:
  assumes "transaction_store ops lookup ok" "ok s" "tx_update ops t i fn s = (Inr c, s')"
  obtains cur cur' where "lookup s i = Some cur" "fn cur = Inr (cur', c)" "lookup s' = (lookup s)(i \<mapsto> cur'\<lparr> tx_ID := i \<rparr>)"
    "owns t cur"
proof -
  from assms(3) have "ts_Update ops i (owned t fn) s = (Inr c, s')" by (simp add: tx_update_def)
  from transaction_store.update_saves [OF assms(1,2) this] that show thesis
    by (auto simp: owned_def split: if_splits)
qed

lemma HandleResponse_completes:
  assumes "transaction_store ops lookup ok" "ok (others s)"
    and "HandleResponse ops t now now' rnd others jwe s = ((a, None), s')"
  obtains i tx result code c where "tx_get ops t i s = Inr tx" "an_ID a = i" "checkPending now tx = None" "tx_Origin tx = []"
    "tx_verify t tx jwe = Inr result" "tx_update ops t i (complete_answer t now' result code) (others s) = (Inr c, s')"
proof -
  from assms(3) obtain kid where kid: "ResponseKeyID (t_deps t) jwe = Inr kid"
    by (auto simp: HandleResponse_def split: sum.splits)
  with assms(3) obtain i where i: "ts_IDByKeyID ops kid s = Inr i" by (auto simp: HandleResponse_def split: sum.splits)
  with kid assms(3) obtain tx where tx: "tx_get ops t i s = Inr tx" by (auto simp: HandleResponse_def split: sum.splits)
  have *: "(if tx_Origin tx \<noteq> [] then ((no_answer, Some ErrTransactionUnknown), s)
      else case checkPending now tx of Some e \<Rightarrow> (answerNotPending t tx jwe e, s)
        | None \<Rightarrow> (let s = others s in
            case tx_verify t tx jwe of Inl e \<Rightarrow> (answer_refused t i tx e, recordFailure ops t i e s)
            | Inr result \<Rightarrow> (case (if tx_SameDevice tx then randomToken rnd else Inr []) of
                Inl e \<Rightarrow> ((no_answer, Some (ServerFault e)), s)
              | Inr code \<Rightarrow> (case tx_update ops t i (complete_answer t now' result code) s of
                  (Inl e, s) \<Rightarrow> ((no_answer, Some (storeFault e)), s)
                | (Inr _, s) \<Rightarrow> ((\<lparr> an_ID = i, an_RedirectURI = (if tx_SameDevice tx
                      then dep t d_withQuery (conf t tc_RedirectURI) ''response_code'' code else []) \<rparr>, None), s))))) =
      ((a, None), s')"
    using assms(3) kid i tx by (simp add: HandleResponse_def)
  then have origin: "tx_Origin tx = []" by (simp split: if_splits)
  have pending: "checkPending now tx = None"
  proof (cases "checkPending now tx")
    case (Some e)
    with * origin have "snd (answerNotPending t tx jwe e) = None" by simp
    then show ?thesis by (auto simp: answerNotPending_def split: option.splits if_splits sum.splits)
  qed
  have "\<exists>result. tx_verify t tx jwe = Inr result"
  proof (cases "tx_verify t tx jwe")
    case (Inl e)
    with * origin pending have "snd (answer_refused t i tx e) = None" by (simp add: Let_def)
    then show ?thesis by (auto simp: answer_refused_def split: option.splits if_splits)
  qed auto
  then obtain result where v: "tx_verify t tx jwe = Inr result" ..
  with * origin pending obtain code c where "tx_update ops t i (complete_answer t now' result code) (others s) = (Inr c, s')"
    "an_ID a = i"
    by (auto simp: Let_def split: sum.splits prod.splits)
  with that tx pending origin v show thesis by blast
qed

text \<open>C8: A direct post is acknowledged only once the transaction it is routed to keeps a verified answer: decrypted under that
  transaction's own key, with its state, accepted by \<open>VerifyResponse\<close> for its query and its nonce, and past the status
  check and \<open>Accept\<close>. Until then the transaction was pending.\<close>

theorem handled_answer_verified:
  assumes "transaction_store ops lookup ok" "ok (others s)" "verifies_with d base t"
    and "HandleResponse ops t now now' rnd others jwe s = ((a, None), s')"
  shows "\<exists>tx parsed result cur cur'. tx_get ops t (an_ID a) s = Inr tx \<and> tx_Status tx = TransactionPending \<and>
    ParseDirectPostJWTResponse (t_deps t) jwe (tx_ResponseDecryptionKey tx) = Inr parsed \<and>
    verified_for d base t tx parsed result \<and>
    lookup (others s) (an_ID a) = Some cur \<and> tx_Status cur = TransactionPending \<and>
    lookup s' (an_ID a) = Some cur' \<and> tx_Result cur' = Some result \<and>
    tx_Status cur' \<in> {TransactionAwaitingRedirect, TransactionDone}"
proof -
  obtain i tx result code c where tx: "tx_get ops t i s = Inr tx" "an_ID a = i" "checkPending now tx = None"
    and v: "tx_verify t tx jwe = Inr result"
    and upd: "tx_update ops t i (complete_answer t now' result code) (others s) = (Inr c, s')"
    using HandleResponse_completes [OF assms(1,2,4)] by metis
  obtain parsed where parsed: "ParseDirectPostJWTResponse (t_deps t) jwe (tx_ResponseDecryptionKey tx) = Inr parsed"
    "verified_for d base t tx parsed result"
    using tx_verify_verified [OF assms(3) v] by metis
  obtain cur cur' where cur: "lookup (others s) i = Some cur" "complete_answer t now' result code cur = Inr (cur', c)"
    "lookup s' = (lookup (others s))(i \<mapsto> cur'\<lparr> tx_ID := i \<rparr>)"
    using tx_update_saves [OF assms(1,2) upd] by metis
  have "tx_Status tx = TransactionPending" using tx(3) by (simp add: checkPending_def split: if_splits)
  moreover have "tx_Result (cur'\<lparr> tx_ID := i \<rparr>) = Some result"
    "tx_Status (cur'\<lparr> tx_ID := i \<rparr>) \<in> {TransactionAwaitingRedirect, TransactionDone}" "tx_Status cur = TransactionPending"
    using complete_answer_result [OF cur(2)] by simp_all
  ultimately show ?thesis using tx parsed cur by auto
qed

section \<open>A transaction by example\<close>

text \<open>The transaction of \<open>Tx_Props\<close>, for the request of \<open>vp_sample_request\<close>.\<close>

definition flow_deps :: "(unit, verify_result) deps" where
  "flow_deps = \<lparr> d_sha256 = (\<lambda>bs. bs), d_isPrint = (\<lambda>r. 32 \<le> r), d_withQuery = (\<lambda>u k v. u @ k @ v),
     d_encodeQuery = (\<lambda>kvs. []), d_jweHeader = (\<lambda>j. Some [(''kid'', GStr ''k''), (''enc'', GStr ''A128GCM'')]),
     d_jweDecrypt = (\<lambda>k j. Some j), d_answer = (\<lambda>p. Some \<lparr> aw_VPToken = [(''pid'', [vp_presented])], aw_State = ''t.s'',
       aw_Error = [], aw_ErrorDescription = [] \<rparr>), d_dcapiAnswer = (\<lambda>j. None), d_encValues = [''A128GCM''],
     d_clientID = ''verifier'', d_responseURI = ''https://v/r'', d_build = (\<lambda>q st. Inl (OtherError [])),
     d_buildDCAPI = (\<lambda>q os. Inl (OtherError [])), d_normalizeOrigin = (\<lambda>u. u), d_checkPage = (\<lambda>u b. None),
     d_verifyResponse = (\<lambda>q parsed nonce key origin.
       VerifyResponse vp_sample_deps (request_for vp_sample_request q parsed nonce key origin)),
     d_status = None, d_accept = None \<rparr>"

definition flow_t :: "(unit, verify_result) transactions" where
  "flow_t = \<lparr> t_cfg = ex_cfg False, t_owner = ''scope:s'', t_derived = False, t_Production = False, t_deps = flow_deps \<rparr>"

definition flow_tx :: "(unit, verify_result) transaction" where
  "flow_tx = \<lparr> tx_ID = ''t'', tx_KeyID = ''k'', tx_State = ''t.s'', tx_Nonce = ''n'', tx_Query = rq_Query vp_sample_request,
     tx_ResponseDecryptionKey = Some (), tx_RequestObject = ''jwt'', tx_Origin = [], tx_MdocEncryptionInfo = [],
     tx_Owner = ''scope:s'', tx_BrowserBindingHash = bytes_of ''cookie'', tx_SameDevice = False,
     tx_ExpiresAt = 10, tx_RetainUntil = 20, tx_Status = TransactionPending, tx_ResponseCodeHash = [],
     tx_Result = None, tx_LastError = [] \<rparr>"

definition flow_store :: "(unit, verify_result) tx_store" where
  "flow_store = \<lparr> vs_byID = [(''t'', flow_tx)], vs_byKey = [(''k'', ''t'')], vs_byCode = [], vs_prune = \<lparr> pr_at = 0 \<rparr> \<rparr>"

definition flow_parsed :: parsed_response where
  "flow_parsed = \<lparr> pr_VPToken = [(''pid'', [vp_presented])], pr_State = ''t.s'' \<rparr>"

lemma flow_request: "request_for vp_sample_request (tx_Query flow_tx) flow_parsed ''n'' (Some ()) [] = vp_sample_request"
  by (simp add: request_for_def flow_tx_def flow_parsed_def vp_sample_request_def)

lemma flow_fields [simp]:
  "tx_State flow_tx = ''t.s''" "tx_Nonce flow_tx = ''n''" "tx_ResponseDecryptionKey flow_tx = Some ()" "tx_Origin flow_tx = []"
  "tx_SameDevice flow_tx = False" "tx_ID flow_tx = ''t''" "pr_State flow_parsed = ''t.s''" "dep flow_t d_status = None"
  "dep flow_t d_accept = None" "owns flow_t flow_tx" "checkPending 2 flow_tx = None"
  by (simp_all add: flow_tx_def flow_parsed_def flow_t_def flow_deps_def owns_def checkPending_def)

lemma flow_verify: "tx_verify flow_t flow_tx ''jwe'' = Inr \<lparr> vr_Credentials = [vp_credential], vr_Discarded = [] \<rparr>"
proof -
  have parsed: "ParseDirectPostJWTResponse (t_deps flow_t) ''jwe'' (Some ()) = Inr flow_parsed"
    by (simp add: ParseDirectPostJWTResponse_def header_enc_def flow_t_def flow_deps_def flow_parsed_def)
  have response: "dep flow_t d_verifyResponse (tx_Query flow_tx) flow_parsed ''n'' (Some ()) [] =
      Inr \<lparr> vr_Credentials = [vp_credential], vr_Discarded = [] \<rparr>"
    by (simp add: flow_t_def flow_deps_def flow_request vp_run)
  show ?thesis by (simp add: tx_verify_def verifyParsed_def acceptVerified_def parsed response)
qed

theorem handled_answer_verified_witness:
  "\<exists>parsed result. verified_for vp_sample_deps vp_sample_request flow_t flow_tx parsed result"
proof -
  have ok: "tx_store_ok flow_store"
    by (auto simp: flow_store_def tx_store_ok_def code_indexed_def flow_tx_def)
  have over: "verifies_with vp_sample_deps vp_sample_request flow_t"
    by (simp add: verifies_with_def flow_t_def flow_deps_def)
  have route: "ResponseKeyID (t_deps flow_t) ''jwe'' = Inr ''k''" "TxStore_IDByKeyID ''k'' flow_store = Inr ''t''"
    "TxStore_Get ''t'' flow_store = Inr flow_tx" "gm_get (vs_byID flow_store) ''t'' = Some flow_tx"
    by (simp_all add: flow_store_def ResponseKeyID_def TxStore_IDByKeyID_def TxStore_Get_def flow_t_def flow_deps_def)
  obtain cur where cur: "complete_answer flow_t 3 \<lparr> vr_Credentials = [vp_credential], vr_Discarded = [] \<rparr> [] flow_tx = Inr (cur, NoCapture)"
    by (simp add: complete_answer_def checkPending_def flow_tx_def Let_def)
  have "\<exists>s'. HandleResponse memory_store flow_t 2 3 None (\<lambda>s. s) ''jwe'' flow_store =
      ((\<lparr> an_ID = ''t'', an_RedirectURI = [] \<rparr>, None), s')"
    by (simp add: HandleResponse_def route tx_get_def rbind_def flow_verify tx_update_def TxStore_Update_def owned_def cur Let_def)
  then obtain s' where run: "HandleResponse memory_store flow_t 2 3 None (\<lambda>s. s) ''jwe'' flow_store =
      ((\<lparr> an_ID = ''t'', an_RedirectURI = [] \<rparr>, None), s')" ..
  have get: "tx_get memory_store flow_t ''t'' flow_store = Inr flow_tx" by (simp add: tx_get_def route rbind_def)
  from handled_answer_verified [OF txmem.transaction_store_axioms ok over run] get show ?thesis by auto
qed

end
