(* ===== verification/Wallet_Match.thy ===== *)
theory Wallet_Match
  imports Sdjwt_Verify Dcql_Match Dcql_Answered
begin

text \<open>
  The Wallet's choice of credentials for a DCQL query: \<open>MatchDCQLQuery\<close> and its \<open>matcher\<close> of \<open>src/wallet/presentation.go\<close>, which
  decodes each candidate once and keeps each Credential Query's outcome, and \<open>ValidateSelection\<close>, \<open>DefaultSelection\<close> of
  \<open>src/wallet/selection.go\<close>. The lemmas give the search its meaning without that memory, and show that what the Wallet
  chooses itself it would accept from the holder.
\<close>

section \<open>Held credentials\<close>

record 'p held_credential =
  hc_Format :: string
  hc_Credential :: string
  hc_HolderKey :: "'p signer option"
  hc_HolderKeyAlg :: string
  hc_withoutKeyBinding :: bool
  hc_MdocDocType :: string

text \<open>An mdoc's \<open>IssuerSigned\<close>, with the encoded items it keeps beside the decoded ones.\<close>

record issuer_signed_item =
  it_DigestID :: nat
  it_Random :: "nat list"
  it_ElementIdentifier :: string
  it_ElementValue :: goval

record issuer_signed =
  is_NameSpaces :: "(string, issuer_signed_item list) gomap"
  is_IssuerAuth :: "nat list"
  is_rawItems :: "(string, nat list list) gomap"

text \<open>
  What the package calls of others: JOSE, the hash functions, strict JSON of a Disclosure, the numbers of \<open>math/big\<close>,
  \<open>certchain.X5CDERsFromHeader\<close>, \<open>mdoc.UnmarshalIssuerSigned\<close>, and \<open>cose\<close>'s decoding of an \<open>IssuerAuth\<close> with its x5chain.
\<close>

record 'p wallet_deps =
  wd_crypto :: "'p crypto"
  wd_hash :: hash_fn
  wd_json :: "nat list \<Rightarrow> goval list option"
  wd_ratOf :: "string \<Rightarrow> rat option"
  wd_X5CDERsFromHeader :: "claims \<Rightarrow> nat list list option"
  wd_UnmarshalIssuerSigned :: "nat list \<Rightarrow> issuer_signed option"
  wd_X5Chain :: "nat list \<Rightarrow> nat list list option"

datatype wallet_error =
    InvalidQuery dcql_error
  | TrustedAuthoritiesMissing
  | NoMatchingCredential
  | FormatNotSupported string
  | ContextDone
  | AtQuery string wallet_error
  | CredentialSetFails wallet_error
  | NoOptionSatisfied "wallet_error option"
  | InvalidSelection string "wallet_error option"
  | NotAnswered answered_error
  | HeldVC vc_error
  | HeldJWT jose_error
  | HeldPayload
  | HeldDisclosures sd_error
  | HeldFormat string
  | HeldDocType
  | HeldMdoc
  | NotSelected match_error
  | NotMdocPaths
  | NoHolderKey
  | MissingInput string
  | SigningFails jose_error

text \<open>\<open>resolveHeldSDJWTVC\<close>: the parsed credential, its hash algorithm and the claims it discloses.\<close>

definition resolveHeldSDJWTVC ::
  "'p wallet_deps \<Rightarrow> string \<Rightarrow> wallet_error + presentation \<times> string \<times> claims" where
  "resolveHeldSDJWTVC d credential =
     (case Parse (wd_json d) credential of
        Inl e \<Rightarrow> Inl (HeldVC e)
      | Inr pres \<Rightarrow>
          (case DecodeUnverified (wd_crypto d) (pn_IssuerJWT pres) of
             Inl e \<Rightarrow> Inl (HeldJWT e)
           | Inr (_, rawPayload) \<Rightarrow>
               (case cr_json (wd_crypto d) rawPayload of
                  None \<Rightarrow> Inl HeldPayload
                | Some payload \<Rightarrow>
                    (case PayloadHashAlg payload DefaultHashAlg of
                       Inl e \<Rightarrow> Inl (HeldDisclosures e)
                     | Inr hashAlg \<Rightarrow>
                         (case ResolveDisclosures (wd_hash d) payload hashAlg (pn_Disclosures pres) of
                            Inl e \<Rightarrow> Inl (HeldDisclosures e)
                          | Inr cs \<Rightarrow> Inr (pres, hashAlg, cs))))))"

text \<open>A later item of an identifier replaces an earlier one.\<close>

definition resolveHeldMdocNameSpaces :: "issuer_signed \<Rightarrow> namespaces" where
  "resolveHeldMdocNameSpaces s =
     map (\<lambda>(namespace, items).
       (namespace, fold (\<lambda>item. gm_put (it_ElementIdentifier item) (it_ElementValue item)) items [])) (is_NameSpaces s)"

section \<open>The matcher\<close>

text \<open>A candidate that decodes: the claims and header of an SD-JWT VC, or the name spaces and x5chain of an mdoc.\<close>

datatype decoded_candidate = DecodedSDJWT claims claims | DecodedMdoc namespaces "nat list list"

definition decode_candidate :: "'p wallet_deps \<Rightarrow> 'p held_credential \<Rightarrow> decoded_candidate option" where
  "decode_candidate d cand =
     (if hc_Format cand = formatSDJWTVC then
        (case resolveHeldSDJWTVC d (hc_Credential cand) of
           Inl _ \<Rightarrow> None
         | Inr (pres, _, cs) \<Rightarrow>
             (case DecodeUnverified (wd_crypto d) (pn_IssuerJWT pres) of
                Inl _ \<Rightarrow> None
              | Inr (header, _) \<Rightarrow> Some (DecodedSDJWT cs header)))
      else if hc_Format cand = formatMdoc then
        (case RawURLDecode (hc_Credential cand) of
           None \<Rightarrow> None
         | Some raw \<Rightarrow>
             (case wd_UnmarshalIssuerSigned d raw of
                None \<Rightarrow> None
              | Some s \<Rightarrow>
                  (case wd_X5Chain d (is_IssuerAuth s) of
                     None \<Rightarrow> None
                   | Some chain \<Rightarrow> Some (DecodedMdoc (resolveHeldMdocNameSpaces s) chain))))
      else None)"

text \<open>
  \<open>TrustedAuthoritiesChecker\<close>: whether a chain satisfies the authorities. A nil one is never called, which
  \<open>MatchDCQLQuery\<close> and \<open>satisfies\<close> see to.
\<close>

type_synonym authorities = "(trusted_authorities_query list \<Rightarrow> nat list list \<Rightarrow> bool) option"

definition candidateSatisfiesTrustedAuthorities ::
  "credential_query \<Rightarrow> authorities \<Rightarrow> nat list list option \<Rightarrow> bool" where
  "candidateSatisfiesTrustedAuthorities cq ta chain =
     (if length (cq_TrustedAuthorities cq) = 0 then True
      else (case chain of
          None \<Rightarrow> False
        | Some issuerChain \<Rightarrow> (case ta of None \<Rightarrow> False | Some check \<Rightarrow> check (cq_TrustedAuthorities cq) issuerChain)))"

fun sdjwtvcSatisfies :: "'p wallet_deps \<Rightarrow> authorities \<Rightarrow> credential_query \<Rightarrow> decoded_candidate \<Rightarrow> bool" where
  "sdjwtvcSatisfies d ta cq (DecodedSDJWT cs header) =
     (if SatisfiedBySDJWTVCClaims (wd_ratOf d) cq cs \<noteq> None then False
      else if gm_get cs ''cnf'' = None \<and> RequiresCryptographicHolderBinding cq then False
      else candidateSatisfiesTrustedAuthorities cq ta (wd_X5CDERsFromHeader d header))"
| "sdjwtvcSatisfies d ta cq (DecodedMdoc ns chain) = False"

fun mdocSatisfies ::
  "'p wallet_deps \<Rightarrow> authorities \<Rightarrow> credential_query \<Rightarrow> 'p held_credential \<Rightarrow> decoded_candidate \<Rightarrow> bool" where
  "mdocSatisfies d ta cq cand (DecodedMdoc ns chain) =
     (if SatisfiedByMdocClaims (wd_ratOf d) cq (hc_MdocDocType cand) ns \<noteq> None then False
      else candidateSatisfiesTrustedAuthorities cq ta (Some chain))"
| "mdocSatisfies d ta cq cand (DecodedSDJWT cs header) = False"

text \<open>
  The matcher's candidates, checker and context are fixed; \<open>mt_polls\<close> counts the calls of \<open>ctx.Err\<close>, of which
  \<open>done n\<close> says whether the n-th finds the context done.
\<close>

type_synonym 'p match_result = "wallet_error + 'p held_credential list"

record 'p matcher =
  mt_decoded :: "(nat, decoded_candidate option) gomap"
  mt_decodes :: nat
  mt_results :: "(string, 'p match_result) gomap"
  mt_polls :: nat

text \<open>A new matcher, where the context was polled \<open>n\<close> times before.\<close>

definition newMatcher :: "nat \<Rightarrow> 'p matcher" where
  "newMatcher n = \<lparr> mt_decoded = [], mt_decodes = 0, mt_results = [], mt_polls = n \<rparr>"

definition matcher_decode ::
  "'p wallet_deps \<Rightarrow> nat \<Rightarrow> 'p held_credential \<Rightarrow> 'p matcher \<Rightarrow> decoded_candidate option \<times> 'p matcher" where
  "matcher_decode d i cand m =
     (case gm_get (mt_decoded m) i of
        Some r \<Rightarrow> (r, m)
      | None \<Rightarrow>
          (let r = decode_candidate d cand in
           (r, m \<lparr> mt_decodes := Suc (mt_decodes m), mt_decoded := gm_put i r (mt_decoded m) \<rparr>)))"

text \<open>\<open>matchAll\<close>, from candidate \<open>i\<close>: None where the context is done.\<close>

fun matchAll ::
  "'p wallet_deps \<Rightarrow> (nat \<Rightarrow> bool) \<Rightarrow> string \<Rightarrow> ('p held_credential \<Rightarrow> decoded_candidate \<Rightarrow> bool) \<Rightarrow> nat
     \<Rightarrow> 'p held_credential list \<Rightarrow> 'p matcher \<Rightarrow> 'p held_credential list option \<times> 'p matcher" where
  "matchAll d done format satisfiedBy i [] m = (Some [], m)"
| "matchAll d done format satisfiedBy i (cand # cands) m =
     (let stop = done (mt_polls m); m = m \<lparr> mt_polls := Suc (mt_polls m) \<rparr> in
      if stop then (None, m)
      else if hc_Format cand \<noteq> format then matchAll d done format satisfiedBy (Suc i) cands m
      else (case matcher_decode d i cand m of
          (None, m) \<Rightarrow> matchAll d done format satisfiedBy (Suc i) cands m
        | (Some dc, m) \<Rightarrow>
            (if satisfiedBy cand dc
             then (case matchAll d done format satisfiedBy (Suc i) cands m of (r, m) \<Rightarrow> (map_option (\<lambda>ms. cand # ms) r, m))
             else matchAll d done format satisfiedBy (Suc i) cands m)))"

definition satisfied_by ::
  "'p wallet_deps \<Rightarrow> authorities \<Rightarrow> credential_query \<Rightarrow> ('p held_credential \<Rightarrow> decoded_candidate \<Rightarrow> bool) option" where
  "satisfied_by d ta cq =
     (if cq_Format cq = formatSDJWTVC then Some (\<lambda>cand. sdjwtvcSatisfies d ta cq)
      else if cq_Format cq = formatMdoc then Some (mdocSatisfies d ta cq)
      else None)"

text \<open>The outcome of a Credential Query, of its matches.\<close>

definition match_outcome :: "credential_query \<Rightarrow> 'p held_credential list \<Rightarrow> 'p match_result" where
  "match_outcome cq matches =
     (if length matches = 0 then Inl NoMatchingCredential
      else if \<not> cq_Multiple cq then Inr (take 1 matches) else Inr matches)"

text \<open>\<open>matcher.match\<close>.\<close>

definition matcher_match ::
  "'p wallet_deps \<Rightarrow> (nat \<Rightarrow> bool) \<Rightarrow> authorities \<Rightarrow> 'p held_credential list \<Rightarrow> credential_query \<Rightarrow> 'p matcher
     \<Rightarrow> 'p match_result \<times> 'p matcher" where
  "matcher_match d done ta cands cq m =
     (case gm_get (mt_results m) (cq_ID cq) of
        Some r \<Rightarrow> (r, m)
      | None \<Rightarrow>
          (case satisfied_by d ta cq of
             None \<Rightarrow> (Inl (FormatNotSupported (cq_Format cq)), m)
           | Some satisfiedBy \<Rightarrow>
               (case matchAll d done (cq_Format cq) satisfiedBy 0 cands m of
                  (None, m) \<Rightarrow> (Inl ContextDone, m)
                | (Some matches, m) \<Rightarrow>
                    (let r = match_outcome cq matches in (r, m \<lparr> mt_results := gm_put (cq_ID cq) r (mt_results m) \<rparr>)))))"

section \<open>Credential sets\<close>

text \<open>A map from Credential Query id to the credentials chosen to answer it.\<close>

type_synonym 'p chosen = "(string, 'p held_credential list) gomap"

fun by_id :: "credential_query list \<Rightarrow> (string, credential_query) gomap \<Rightarrow> (string, credential_query) gomap" where
  "by_id [] m = m"
| "by_id (cq # cqs) m = by_id cqs (gm_put (cq_ID cq) cq m)"

text \<open>The zero \<open>CredentialQuery\<close>, which indexing the map yields for an id it lacks.\<close>

definition zero_query :: credential_query where
  "zero_query = \<lparr> cq_ID = [], cq_Format = [], cq_Meta = MetaAbsent, cq_Multiple = False, cq_TrustedAuthorities = [],
     cq_RequireCryptographicHolderBinding = None, cq_Claims = None, cq_ClaimSets = None \<rparr>"

definition query_named :: "(string, credential_query) gomap \<Rightarrow> string \<Rightarrow> credential_query" where
  "query_named byID i = (case gm_get byID i of None \<Rightarrow> zero_query | Some cq \<Rightarrow> cq)"

text \<open>A poll of the context.\<close>

definition poll :: "(nat \<Rightarrow> bool) \<Rightarrow> 'p matcher \<Rightarrow> bool \<times> 'p matcher" where
  "poll done m = (done (mt_polls m), m \<lparr> mt_polls := Suc (mt_polls m) \<rparr>)"

text \<open>The ids of one option: what they matched, or the first that fails and whether the context is what ended it.\<close>

fun match_option ::
  "'p wallet_deps \<Rightarrow> (nat \<Rightarrow> bool) \<Rightarrow> authorities \<Rightarrow> 'p held_credential list \<Rightarrow> (string, credential_query) gomap
     \<Rightarrow> string list \<Rightarrow> 'p chosen \<Rightarrow> 'p matcher \<Rightarrow> (bool \<times> wallet_error + 'p chosen) \<times> 'p matcher" where
  "match_option d done ta cands byID [] matched m = (Inr matched, m)"
| "match_option d done ta cands byID (i # ids) matched m =
     (case matcher_match d done ta cands (query_named byID i) m of
        (Inl e, m) \<Rightarrow>
          (case poll done m of (stop, m) \<Rightarrow> (Inl (stop, if stop then e else AtQuery i e), m))
      | (Inr ms, m) \<Rightarrow> match_option d done ta cands byID ids (gm_put i ms matched) m)"

fun match_options ::
  "'p wallet_deps \<Rightarrow> (nat \<Rightarrow> bool) \<Rightarrow> authorities \<Rightarrow> 'p held_credential list \<Rightarrow> (string, credential_query) gomap
     \<Rightarrow> wallet_error option \<Rightarrow> string list list \<Rightarrow> 'p matcher \<Rightarrow> (wallet_error + 'p chosen) \<times> 'p matcher" where
  "match_options d done ta cands byID lastErr [] m = (Inl (NoOptionSatisfied lastErr), m)"
| "match_options d done ta cands byID lastErr (option # options) m =
     (case match_option d done ta cands byID option [] m of
        (Inr matched, m) \<Rightarrow> (Inr matched, m)
      | (Inl (stop, e), m) \<Rightarrow>
          (if stop then (Inl e, m) else match_options d done ta cands byID (Some e) options m))"

definition satisfiableCredentialSetOption ::
  "'p wallet_deps \<Rightarrow> (nat \<Rightarrow> bool) \<Rightarrow> authorities \<Rightarrow> 'p held_credential list \<Rightarrow> (string, credential_query) gomap
     \<Rightarrow> credential_set_query \<Rightarrow> 'p matcher \<Rightarrow> (wallet_error + 'p chosen) \<times> 'p matcher" where
  "satisfiableCredentialSetOption d done ta cands byID cs m = match_options d done ta cands byID None (cs_Options cs) m"

fun match_each ::
  "'p wallet_deps \<Rightarrow> (nat \<Rightarrow> bool) \<Rightarrow> authorities \<Rightarrow> 'p held_credential list \<Rightarrow> credential_query list
     \<Rightarrow> 'p chosen \<Rightarrow> 'p matcher \<Rightarrow> (wallet_error + 'p chosen) \<times> 'p matcher" where
  "match_each d done ta cands [] matches m = (Inr matches, m)"
| "match_each d done ta cands (cq # cqs) matches m =
     (case matcher_match d done ta cands cq m of
        (Inl e, m) \<Rightarrow> (Inl (AtQuery (cq_ID cq) e), m)
      | (Inr ms, m) \<Rightarrow> match_each d done ta cands cqs (gm_put (cq_ID cq) ms matches) m)"

definition put_all :: "'p chosen \<Rightarrow> 'p chosen \<Rightarrow> 'p chosen" where
  "put_all option matches = fold (\<lambda>(i, ms). gm_put i ms) option matches"

fun match_sets ::
  "'p wallet_deps \<Rightarrow> (nat \<Rightarrow> bool) \<Rightarrow> authorities \<Rightarrow> 'p held_credential list \<Rightarrow> (string, credential_query) gomap
     \<Rightarrow> credential_set_query list \<Rightarrow> 'p chosen \<Rightarrow> 'p matcher \<Rightarrow> (wallet_error + 'p chosen) \<times> 'p matcher" where
  "match_sets d done ta cands byID [] matches m = (Inr matches, m)"
| "match_sets d done ta cands byID (cs # sets) matches m =
     (case satisfiableCredentialSetOption d done ta cands byID cs m of
        (r, m) \<Rightarrow>
          (case poll done m of (stop, m) \<Rightarrow>
             (if stop then (Inl ContextDone, m)
              else (case r of
                  Inl e \<Rightarrow>
                    (if IsRequired cs then (Inl (CredentialSetFails e), m)
                     else match_sets d done ta cands byID sets matches m)
                | Inr option \<Rightarrow> match_sets d done ta cands byID sets (put_all option matches) m))))"

definition matchQuery ::
  "'p wallet_deps \<Rightarrow> (nat \<Rightarrow> bool) \<Rightarrow> authorities \<Rightarrow> 'p held_credential list \<Rightarrow> query \<Rightarrow> 'p matcher
     \<Rightarrow> (wallet_error + 'p chosen) \<times> 'p matcher" where
  "matchQuery d done ta cands q m =
     (if length (q_CredentialSets q) = 0 then match_each d done ta cands (q_Credentials q) [] m
      else match_sets d done ta cands (by_id (q_Credentials q) []) (q_CredentialSets q) [] m)"

definition MatchDCQLQuery ::
  "'p wallet_deps \<Rightarrow> (nat \<Rightarrow> bool) \<Rightarrow> query \<Rightarrow> 'p held_credential list \<Rightarrow> authorities \<Rightarrow> wallet_error + 'p chosen" where
  "MatchDCQLQuery d done q cands ta =
     (case Query_Validate q of
        Some e \<Rightarrow> Inl (InvalidQuery e)
      | None \<Rightarrow>
          (if ta = None \<and> list_ex (\<lambda>cq. length (cq_TrustedAuthorities cq) > 0) (q_Credentials q)
           then Inl TrustedAuthoritiesMissing
           else fst (matchQuery d done ta cands q (newMatcher 0))))"

section \<open>Selections\<close>

text \<open>\<open>satisfies\<close>: None where \<open>held\<close> answers \<open>cq\<close> on its own; with the polls of the context, \<open>n\<close> before it.\<close>

definition satisfies ::
  "'p wallet_deps \<Rightarrow> (nat \<Rightarrow> bool) \<Rightarrow> credential_query \<Rightarrow> 'p held_credential \<Rightarrow> authorities \<Rightarrow> nat
     \<Rightarrow> wallet_error option \<times> nat" where
  "satisfies d done cq held ta n =
     (if ta = None \<and> length (cq_TrustedAuthorities cq) > 0 then (Some TrustedAuthoritiesMissing, n)
      else (case matcher_match d done ta [held] cq (newMatcher n) of
          (Inl e, m) \<Rightarrow> (Some e, mt_polls m)
        | (Inr _, m) \<Rightarrow> (None, mt_polls m)))"

fun all_satisfy ::
  "'p wallet_deps \<Rightarrow> (nat \<Rightarrow> bool) \<Rightarrow> credential_query \<Rightarrow> authorities \<Rightarrow> 'p held_credential list \<Rightarrow> nat
     \<Rightarrow> wallet_error option \<times> nat" where
  "all_satisfy d done cq ta [] n = (None, n)"
| "all_satisfy d done cq ta (held # helds) n =
     (case satisfies d done cq held ta n of
        (Some e, n) \<Rightarrow> (Some (InvalidSelection (cq_ID cq) (Some e)), n)
      | (None, n) \<Rightarrow> all_satisfy d done cq ta helds n)"

definition sortedKeys :: "(string \<times> 'v) list \<Rightarrow> string list" where
  "sortedKeys m = sort (map fst m)"

definition chosen_for :: "'p chosen \<Rightarrow> string \<Rightarrow> 'p held_credential list" where
  "chosen_for sel i = (case gm_get sel i of None \<Rightarrow> [] | Some helds \<Rightarrow> helds)"

fun check_ids ::
  "'p wallet_deps \<Rightarrow> (nat \<Rightarrow> bool) \<Rightarrow> (string, credential_query) gomap \<Rightarrow> 'p chosen \<Rightarrow> authorities \<Rightarrow> string list
     \<Rightarrow> nat \<Rightarrow> wallet_error option" where
  "check_ids d done byID sel ta [] n = None"
| "check_ids d done byID sel ta (i # ids) n =
     (case gm_get byID i of
        None \<Rightarrow> Some (InvalidSelection i None)
      | Some cq \<Rightarrow>
          (if length (chosen_for sel i) = 0 then Some (InvalidSelection i None)
           else if length (chosen_for sel i) > 1 \<and> \<not> cq_Multiple cq then Some (InvalidSelection i None)
           else (case all_satisfy d done cq ta (chosen_for sel i) n of
               (Some e, n) \<Rightarrow> Some e
             | (None, n) \<Rightarrow> check_ids d done byID sel ta ids n)))"

definition answered_ids :: "'p chosen \<Rightarrow> (string, bool) gomap" where
  "answered_ids sel = map (\<lambda>(i, helds). (i, length helds > 0)) sel"

definition checkCredentialSets :: "query \<Rightarrow> 'p chosen \<Rightarrow> wallet_error option" where
  "checkCredentialSets q sel = map_option NotAnswered (CheckAnswered q (answered_ids sel))"

definition ValidateSelection ::
  "'p wallet_deps \<Rightarrow> (nat \<Rightarrow> bool) \<Rightarrow> query \<Rightarrow> 'p chosen \<Rightarrow> authorities \<Rightarrow> wallet_error option" where
  "ValidateSelection d done q sel ta =
     (case Query_Validate q of
        Some e \<Rightarrow> Some (InvalidQuery e)
      | None \<Rightarrow>
          (case check_ids d done (by_id (q_Credentials q) []) sel ta (sortedKeys sel) 0 of
             Some e \<Rightarrow> Some e
           | None \<Rightarrow> checkCredentialSets q sel))"

definition DefaultSelection ::
  "'p wallet_deps \<Rightarrow> (nat \<Rightarrow> bool) \<Rightarrow> query \<Rightarrow> 'p held_credential list \<Rightarrow> authorities \<Rightarrow> wallet_error + 'p chosen" where
  "DefaultSelection d done q cands ta =
     rmap (map (\<lambda>(i, helds). (i, take 1 helds))) (MatchDCQLQuery d done q cands ta)"

section \<open>What the matcher computes\<close>

text \<open>A candidate answers a Credential Query; what the query's outcome is, with nothing remembered.\<close>

definition answers :: "'p wallet_deps \<Rightarrow> authorities \<Rightarrow> credential_query \<Rightarrow> 'p held_credential \<Rightarrow> bool" where
  "answers d ta cq cand =
     (hc_Format cand = cq_Format cq \<and>
      (case (decode_candidate d cand, satisfied_by d ta cq) of (Some dc, Some s) \<Rightarrow> s cand dc | _ \<Rightarrow> False))"

definition outcome ::
  "'p wallet_deps \<Rightarrow> authorities \<Rightarrow> 'p held_credential list \<Rightarrow> credential_query \<Rightarrow> 'p match_result" where
  "outcome d ta cands cq =
     (if satisfied_by d ta cq = None then Inl (FormatNotSupported (cq_Format cq))
      else match_outcome cq (filter (answers d ta cq) cands))"

text \<open>What the matcher remembers is right, and it decodes no candidate twice.\<close>

definition decodes_ok :: "'p wallet_deps \<Rightarrow> 'p held_credential list \<Rightarrow> 'p matcher \<Rightarrow> bool" where
  "decodes_ok d cands m =
     (gm_ok (mt_decoded m) \<and> mt_decodes m = length (mt_decoded m) \<and>
      (\<forall>i r. gm_get (mt_decoded m) i = Some r \<longrightarrow> i < length cands \<and> r = decode_candidate d (cands ! i)))"

definition matcher_ok ::
  "'p wallet_deps \<Rightarrow> authorities \<Rightarrow> 'p held_credential list \<Rightarrow> credential_query set \<Rightarrow> 'p matcher \<Rightarrow> bool" where
  "matcher_ok d ta cands qs m =
     (decodes_ok d cands m \<and>
      (\<forall>i r. gm_get (mt_results m) i = Some r \<longrightarrow> (\<exists>cq \<in> qs. cq_ID cq = i \<and> r = outcome d ta cands cq)))"

lemma decodes_ok_polls [simp]: "decodes_ok d cands (m \<lparr> mt_polls := n \<rparr>) = decodes_ok d cands m"
  "decodes_ok d cands (m \<lparr> mt_results := r \<rparr>) = decodes_ok d cands m"
  by (simp_all add: decodes_ok_def)

lemma newMatcher_ok [simp]: "matcher_ok d ta cands qs (newMatcher n)"
  by (simp add: matcher_ok_def decodes_ok_def newMatcher_def)

lemma matcher_decode_ok:
  assumes "decodes_ok d cands m" and "i < length cands"
  obtains m' where "matcher_decode d i (cands ! i) m = (decode_candidate d (cands ! i), m')" "decodes_ok d cands m'"
    "mt_results m' = mt_results m"
proof (cases "gm_get (mt_decoded m) i")
  case None
  let ?r = "decode_candidate d (cands ! i)"
  let ?m = "m \<lparr> mt_decodes := Suc (mt_decodes m), mt_decoded := gm_put i ?r (mt_decoded m) \<rparr>"
  have "gm_put i ?r (mt_decoded m) = mt_decoded m @ [(i, ?r)]"
    using None by (simp add: update_fresh map_of_eq_None_iff)
  then have "length (gm_put i ?r (mt_decoded m)) = Suc (length (mt_decoded m))" by simp
  then have "decodes_ok d cands ?m" using assms by (auto simp: decodes_ok_def)
  with None that [of ?m] show thesis by (simp add: matcher_decode_def Let_def)
next
  case (Some r)
  with assms that [of m] show thesis by (auto simp: matcher_decode_def decodes_ok_def)
qed

lemma matchAll_ok:
  assumes "\<forall>n. \<not> done n" and "decodes_ok d cands m" and "i \<le> length cands"
  shows "\<exists>m'. matchAll d done format s i (drop i cands) m =
      (Some (filter (\<lambda>c. hc_Format c = format \<and> (case decode_candidate d c of None \<Rightarrow> False | Some dc \<Rightarrow> s c dc)) (drop i cands)), m')
    \<and> decodes_ok d cands m' \<and> mt_results m' = mt_results m"
  using assms(2,3)
proof (induction "length cands - i" arbitrary: i m)
  case (Suc n)
  then have i: "i < length cands" by simp
  then have cands: "drop i cands = cands ! i # drop (Suc i) cands" by (simp add: Cons_nth_drop_Suc)
  let ?m = "m \<lparr> mt_polls := Suc (mt_polls m) \<rparr>"
  have ok: "decodes_ok d cands ?m" using Suc.prems by simp
  have IH: "\<exists>m'. matchAll d done format s (Suc i) (drop (Suc i) cands) m2 =
      (Some (filter (\<lambda>c. hc_Format c = format \<and> (case decode_candidate d c of None \<Rightarrow> False | Some dc \<Rightarrow> s c dc)) (drop (Suc i) cands)), m')
    \<and> decodes_ok d cands m' \<and> mt_results m' = mt_results m2" if "decodes_ok d cands m2" for m2
    using Suc.hyps(1) [of "Suc i" m2] Suc.hyps(2) i that by simp
  show ?case
  proof (cases "hc_Format (cands ! i) = format")
    case True
    obtain m2 where run: "matcher_decode d i (cands ! i) ?m = (decode_candidate d (cands ! i), m2)"
      and m2: "decodes_ok d cands m2" "mt_results m2 = mt_results ?m" using matcher_decode_ok [OF ok i] by metis
    from IH [OF m2(1)] obtain m' where "matchAll d done format s (Suc i) (drop (Suc i) cands) m2 =
      (Some (filter (\<lambda>c. hc_Format c = format \<and> (case decode_candidate d c of None \<Rightarrow> False | Some dc \<Rightarrow> s c dc)) (drop (Suc i) cands)), m')"
      "decodes_ok d cands m'" "mt_results m' = mt_results m2" by blast
    with True run m2(2) assms(1) show ?thesis
      unfolding cands by (cases "decode_candidate d (cands ! i)") (auto simp: Let_def)
  next
    case False
    with IH [OF ok] assms(1) show ?thesis unfolding cands by (auto simp: Let_def)
  qed
qed simp

lemma outcome_of_answers:
  "satisfied_by d ta cq = Some s \<Longrightarrow>
     outcome d ta cands cq = match_outcome cq (filter (\<lambda>c. hc_Format c = cq_Format cq \<and>
       (case decode_candidate d c of None \<Rightarrow> False | Some dc \<Rightarrow> s c dc)) cands)"
  unfolding outcome_def answers_def [abs_def] by (auto split: option.splits intro!: arg_cong [of _ _ "match_outcome cq"] filter_cong)

text \<open>A match is the query's outcome, remembered or not.\<close>

lemma matcher_match_ok:
  assumes "\<forall>n. \<not> done n" and "matcher_ok d ta cands qs m" and "cq \<in> qs" and "inj_on cq_ID qs"
  obtains m' where "matcher_match d done ta cands cq m = (outcome d ta cands cq, m')" "matcher_ok d ta cands qs m'"
proof (cases "gm_get (mt_results m) (cq_ID cq)")
  case None
  show thesis
  proof (cases "satisfied_by d ta cq")
    case (Some s)
    have "decodes_ok d cands m" using assms(2) by (simp add: matcher_ok_def)
    from matchAll_ok [OF assms(1) this, of 0 "cq_Format cq" s] obtain m' where
      run: "matchAll d done (cq_Format cq) s 0 cands m = (Some (filter (\<lambda>c. hc_Format c = cq_Format cq \<and>
       (case decode_candidate d c of None \<Rightarrow> False | Some dc \<Rightarrow> s c dc)) cands), m')"
      and m': "decodes_ok d cands m'" "mt_results m' = mt_results m" by auto
    let ?m = "m' \<lparr> mt_results := gm_put (cq_ID cq) (outcome d ta cands cq) (mt_results m') \<rparr>"
    have "matcher_ok d ta cands qs ?m" using assms(2,3) m' by (auto simp: matcher_ok_def)
    moreover have "matcher_match d done ta cands cq m = (outcome d ta cands cq, ?m)"
      using None Some run by (simp add: matcher_match_def outcome_of_answers Let_def)
    ultimately show thesis by (rule that [rotated])
  qed (use that None assms(2) in \<open>simp add: matcher_match_def outcome_def\<close>)
next
  case (Some r)
  then obtain cq' where "cq' \<in> qs" "cq_ID cq' = cq_ID cq" "r = outcome d ta cands cq'"
    using assms(2) unfolding matcher_ok_def by blast
  with assms(3,4) have "r = outcome d ta cands cq" by (auto dest: inj_onD)
  with Some that assms(2) show thesis by (simp add: matcher_match_def)
qed

section \<open>What the search over credential sets computes\<close>

definition match_of :: "'p wallet_deps \<Rightarrow> authorities \<Rightarrow> 'p held_credential list \<Rightarrow> credential_query \<Rightarrow> 'p held_credential list" where
  "match_of d ta cands cq = (case outcome d ta cands cq of Inl _ \<Rightarrow> [] | Inr ms \<Rightarrow> ms)"

text \<open>The first option of a credential set whose every query has an outcome.\<close>

definition matched_option ::
  "'p wallet_deps \<Rightarrow> authorities \<Rightarrow> 'p held_credential list \<Rightarrow> (string, credential_query) gomap \<Rightarrow> credential_set_query
     \<Rightarrow> string list option" where
  "matched_option d ta cands byID cs =
     List.find (\<lambda>ids. list_all (\<lambda>i. is_ok (outcome d ta cands (query_named byID i))) ids) (cs_Options cs)"

definition put_matches ::
  "'p wallet_deps \<Rightarrow> authorities \<Rightarrow> 'p held_credential list \<Rightarrow> (string, credential_query) gomap \<Rightarrow> string list
     \<Rightarrow> 'p chosen \<Rightarrow> 'p chosen" where
  "put_matches d ta cands byID ids = fold (\<lambda>i. gm_put i (match_of d ta cands (query_named byID i))) ids"

lemma put_matches_simps [simp]:
  "put_matches d ta cands byID [] m = m"
  "put_matches d ta cands byID (i # ids) m =
     put_matches d ta cands byID ids (gm_put i (match_of d ta cands (query_named byID i)) m)"
  by (simp_all add: put_matches_def)

lemma put_matches_ok: "gm_ok m \<Longrightarrow> gm_ok (put_matches d ta cands byID ids m)"
  by (induction ids arbitrary: m) auto

lemma put_matches_get:
  "gm_get (put_matches d ta cands byID ids m) i =
     (if i \<in> set ids then Some (match_of d ta cands (query_named byID i)) else gm_get m i)"
  by (induction ids arbitrary: m) auto

lemma by_id_get: "gm_get (by_id cqs m) i = (case List.find (\<lambda>cq. cq_ID cq = i) (rev cqs) of None \<Rightarrow> gm_get m i | Some cq \<Rightarrow> Some cq)"
proof (induction cqs arbitrary: m)
  case (Cons cq cqs)
  show ?case by (simp add: Cons.IH find_append split: option.splits)
qed simp

lemma by_id_named:
  assumes "distinct (map cq_ID cqs)"
  shows "gm_get (by_id cqs []) i = Some cq \<longleftrightarrow> cq \<in> set cqs \<and> cq_ID cq = i"
proof -
  have "List.find (\<lambda>cq. cq_ID cq = i) (rev cqs) = Some cq \<longleftrightarrow> cq \<in> set cqs \<and> cq_ID cq = i"
  proof
    assume "List.find (\<lambda>cq. cq_ID cq = i) (rev cqs) = Some cq"
    then show "cq \<in> set cqs \<and> cq_ID cq = i" by (auto simp: find_Some_iff rev_nth)
  next
    assume cq: "cq \<in> set cqs \<and> cq_ID cq = i"
    then obtain cq' where found: "List.find (\<lambda>cq. cq_ID cq = i) (rev cqs) = Some cq'"
      by (cases "List.find (\<lambda>cq. cq_ID cq = i) (rev cqs)") (auto simp: find_None_iff)
    then have "cq' \<in> set cqs \<and> cq_ID cq' = i" by (auto simp: find_Some_iff rev_nth)
    with cq assms have "cq' = cq" by (auto simp: distinct_map dest: inj_onD)
    with found show "List.find (\<lambda>cq. cq_ID cq = i) (rev cqs) = Some cq" by simp
  qed
  then show ?thesis by (cases "List.find (\<lambda>cq. cq_ID cq = i) (rev cqs)") (simp_all add: by_id_get)
qed

lemma poll_alive: "\<forall>n. \<not> done n \<Longrightarrow> poll done m = (False, m \<lparr> mt_polls := Suc (mt_polls m) \<rparr>)"
  by (simp add: poll_def)

text \<open>An id known is one of the query's.\<close>

definition known :: "(string, credential_query) gomap \<Rightarrow> credential_query set \<Rightarrow> string list \<Rightarrow> bool" where
  "known byID qs ids = list_all (\<lambda>i. query_named byID i \<in> qs) ids"

lemma known_simps [simp]:
  "known byID qs []" "known byID qs (i # ids) \<longleftrightarrow> query_named byID i \<in> qs \<and> known byID qs ids"
  by (simp_all add: known_def)

lemma match_each_ok:
  assumes "\<forall>n. \<not> done n" and "inj_on cq_ID qs" and "matcher_ok d ta cands qs m" and "set cqs \<subseteq> qs"
  shows "\<exists>r m'. match_each d done ta cands cqs sel m = (r, m') \<and>
    (is_ok r \<longleftrightarrow> (\<forall>cq \<in> set cqs. is_ok (outcome d ta cands cq))) \<and>
    (\<forall>sel'. r = Inr sel' \<longrightarrow> sel' = fold (\<lambda>cq. gm_put (cq_ID cq) (match_of d ta cands cq)) cqs sel)"
  using assms(3,4)
proof (induction cqs arbitrary: sel m)
  case (Cons cq cqs)
  obtain m' where "matcher_match d done ta cands cq m = (outcome d ta cands cq, m')" "matcher_ok d ta cands qs m'"
    using matcher_match_ok [OF assms(1) Cons.prems(1) _ assms(2)] Cons.prems(2) by (metis list.set_intros(1) subsetD)
  with Cons.IH [OF this(2)] Cons.prems(2) show ?case
    by (cases "outcome d ta cands cq") (auto simp: match_of_def)
qed simp

lemma match_option_ok:
  assumes "\<forall>n. \<not> done n" and "inj_on cq_ID qs" and "matcher_ok d ta cands qs m" and "known byID qs ids"
  shows "\<exists>r m'. match_option d done ta cands byID ids sel m = (r, m') \<and> matcher_ok d ta cands qs m' \<and>
    (if list_all (\<lambda>i. is_ok (outcome d ta cands (query_named byID i))) ids
     then r = Inr (put_matches d ta cands byID ids sel) else \<exists>e. r = Inl (False, e))"
  using assms(3,4)
proof (induction ids arbitrary: sel m)
  case (Cons i ids)
  let ?cq = "query_named byID i"
  obtain m' where run: "matcher_match d done ta cands ?cq m = (outcome d ta cands ?cq, m')" and m': "matcher_ok d ta cands qs m'"
    using matcher_match_ok [OF assms(1) Cons.prems(1) _ assms(2)] Cons.prems(2) by (metis known_simps(2))
  show ?case
  proof (cases "outcome d ta cands ?cq")
    case (Inl e)
    have "matcher_ok d ta cands qs (m' \<lparr> mt_polls := Suc (mt_polls m') \<rparr>)" using m' by (simp add: matcher_ok_def)
    with run Inl show ?thesis by (auto simp: poll_alive [OF assms(1)])
  next
    case (Inr ms)
    have "known byID qs ids" using Cons.prems(2) by simp
    from Cons.IH [OF m' this, of "gm_put i ms sel"] obtain r m2 where
      rest: "match_option d done ta cands byID ids (gm_put i ms sel) m' = (r, m2)" "matcher_ok d ta cands qs m2"
      and r: "if list_all (\<lambda>i. is_ok (outcome d ta cands (query_named byID i))) ids
        then r = Inr (put_matches d ta cands byID ids (gm_put i ms sel)) else \<exists>e. r = Inl (False, e)" by blast
    show ?thesis
      by (rule exI [of _ r], rule exI [of _ m2]) (use rest r run Inr in \<open>simp add: match_of_def\<close>)
  qed
qed simp

lemma match_options_ok:
  assumes "\<forall>n. \<not> done n" and "inj_on cq_ID qs" and "matcher_ok d ta cands qs m" and "\<forall>ids \<in> set options. known byID qs ids"
  shows "\<exists>r m'. match_options d done ta cands byID err options m = (r, m') \<and> matcher_ok d ta cands qs m' \<and>
    (case List.find (\<lambda>ids. list_all (\<lambda>i. is_ok (outcome d ta cands (query_named byID i))) ids) options of
       None \<Rightarrow> \<exists>e. r = Inl e
     | Some ids \<Rightarrow> r = Inr (put_matches d ta cands byID ids []))"
  using assms(3,4)
proof (induction options arbitrary: err m)
  case (Cons ids options)
  obtain r m' where run: "match_option d done ta cands byID ids [] m = (r, m')" and m': "matcher_ok d ta cands qs m'"
    and r: "if list_all (\<lambda>i. is_ok (outcome d ta cands (query_named byID i))) ids
     then r = Inr (put_matches d ta cands byID ids []) else \<exists>e. r = Inl (False, e)"
    using match_option_ok [OF assms(1,2) Cons.prems(1), of byID ids "[]"] Cons.prems(2) by auto
  show ?case
  proof (cases "list_all (\<lambda>i. is_ok (outcome d ta cands (query_named byID i))) ids")
    case True
    with run m' r show ?thesis by simp
  next
    case False
    with r obtain e where "r = Inl (False, e)" by auto
    with run False Cons.IH [OF m', of "Some e"] Cons.prems(2) show ?thesis by simp
  qed
qed simp

definition put_option ::
  "'p wallet_deps \<Rightarrow> authorities \<Rightarrow> 'p held_credential list \<Rightarrow> (string, credential_query) gomap \<Rightarrow> credential_set_query
     \<Rightarrow> 'p chosen \<Rightarrow> 'p chosen" where
  "put_option d ta cands byID cs sel =
     (case matched_option d ta cands byID cs of
        None \<Rightarrow> sel
      | Some ids \<Rightarrow> put_all (put_matches d ta cands byID ids []) sel)"

lemma match_sets_ok:
  assumes "\<forall>n. \<not> done n" and "inj_on cq_ID qs" and "matcher_ok d ta cands qs m"
    and "\<forall>cs \<in> set sets. \<forall>ids \<in> set (cs_Options cs). known byID qs ids"
  shows "\<exists>r m'. match_sets d done ta cands byID sets sel m = (r, m') \<and>
    (is_ok r \<longleftrightarrow> (\<forall>cs \<in> set sets. IsRequired cs \<longrightarrow> matched_option d ta cands byID cs \<noteq> None)) \<and>
    (\<forall>sel'. r = Inr sel' \<longrightarrow> sel' = fold (put_option d ta cands byID) sets sel)"
  using assms(3,4)
proof (induction sets arbitrary: sel m)
  case (Cons cs sets)
  obtain r m' where run: "satisfiableCredentialSetOption d done ta cands byID cs m = (r, m')" and m': "matcher_ok d ta cands qs m'"
    and r: "case matched_option d ta cands byID cs of None \<Rightarrow> \<exists>e. r = Inl e | Some ids \<Rightarrow> r = Inr (put_matches d ta cands byID ids [])"
    using match_options_ok [OF assms(1,2) Cons.prems(1), of "cs_Options cs" byID None] Cons.prems(2)
    unfolding satisfiableCredentialSetOption_def matched_option_def by auto
  let ?m = "m' \<lparr> mt_polls := Suc (mt_polls m') \<rparr>"
  have m: "matcher_ok d ta cands qs ?m" using m' by (simp add: matcher_ok_def)
  have rest: "\<forall>cs \<in> set sets. \<forall>ids \<in> set (cs_Options cs). known byID qs ids" using Cons.prems(2) by simp
  show ?case
  proof (cases "matched_option d ta cands byID cs")
    case None
    with r obtain e where "r = Inl e" by auto
    moreover have "put_option d ta cands byID cs sel = sel" using None by (simp add: put_option_def)
    ultimately show ?thesis using run None Cons.IH [OF m rest, of sel] by (auto simp: poll_alive [OF assms(1)])
  next
    case (Some ids)
    with r have "r = Inr (put_matches d ta cands byID ids [])" by simp
    moreover have "put_option d ta cands byID cs sel = put_all (put_matches d ta cands byID ids []) sel"
      using Some by (simp add: put_option_def)
    ultimately show ?thesis using run Some Cons.IH [OF m rest, of "put_option d ta cands byID cs sel"]
      by (auto simp: poll_alive [OF assms(1)])
  qed
qed simp

section \<open>What the Wallet chooses\<close>

text \<open>The checker a query asks for is there.\<close>

definition checker_there :: "query \<Rightarrow> authorities \<Rightarrow> bool" where
  "checker_there q ta = (ta = None \<longrightarrow> (\<forall>cq \<in> set (q_Credentials q). cq_TrustedAuthorities cq = []))"

text \<open>The ids of the queries that are answered: all, or those of the option of each credential set that is matched first.\<close>

definition answered_queries :: "'p wallet_deps \<Rightarrow> authorities \<Rightarrow> 'p held_credential list \<Rightarrow> query \<Rightarrow> string set" where
  "answered_queries d ta cands q =
     (if q_CredentialSets q = [] then cq_ID ` set (q_Credentials q)
      else {i. \<exists>cs \<in> set (q_CredentialSets q). \<exists>ids. matched_option d ta cands (by_id (q_Credentials q) []) cs = Some ids \<and> i \<in> set ids})"

definition answerable :: "'p wallet_deps \<Rightarrow> authorities \<Rightarrow> 'p held_credential list \<Rightarrow> query \<Rightarrow> bool" where
  "answerable d ta cands q =
     (if q_CredentialSets q = [] then \<forall>cq \<in> set (q_Credentials q). is_ok (outcome d ta cands cq)
      else \<forall>cs \<in> set (q_CredentialSets q). IsRequired cs \<longrightarrow> matched_option d ta cands (by_id (q_Credentials q) []) cs \<noteq> None)"

lemma query_ids: "query_wf q \<Longrightarrow> inj_on cq_ID (set (q_Credentials q)) \<and> distinct (map cq_ID (q_Credentials q))"
  by (simp add: query_wf_def distinct_map)

lemma query_named_known:
  assumes "query_wf q" and "i \<in> cq_ID ` set (q_Credentials q)"
  shows "query_named (by_id (q_Credentials q) []) i \<in> set (q_Credentials q)"
    and "cq_ID (query_named (by_id (q_Credentials q) []) i) = i"
proof -
  obtain cq where cq: "cq \<in> set (q_Credentials q)" "cq_ID cq = i" using assms(2) by auto
  then have "gm_get (by_id (q_Credentials q) []) i = Some cq" using query_ids [OF assms(1)] by (simp add: by_id_named)
  with cq show "query_named (by_id (q_Credentials q) []) i \<in> set (q_Credentials q)"
    "cq_ID (query_named (by_id (q_Credentials q) []) i) = i" by (simp_all add: query_named_def)
qed

lemma query_named_eq: "query_wf q \<Longrightarrow> cq \<in> set (q_Credentials q) \<Longrightarrow> query_named (by_id (q_Credentials q) []) (cq_ID cq) = cq"
  using query_named_known [of q "cq_ID cq"] query_ids by (auto dest: inj_onD)

lemma options_known:
  assumes "query_wf q" and "cs \<in> set (q_CredentialSets q)" and "ids \<in> set (cs_Options cs)"
  shows "set ids \<subseteq> cq_ID ` set (q_Credentials q)" and "known (by_id (q_Credentials q) []) (set (q_Credentials q)) ids"
proof -
  show ids: "set ids \<subseteq> cq_ID ` set (q_Credentials q)" using assms by (auto simp: query_wf_def refs_wf_def)
  then show "known (by_id (q_Credentials q) []) (set (q_Credentials q)) ids"
    using query_named_known(1) [OF assms(1)] unfolding known_def list_all_iff by blast
qed

lemma matched_option_Some:
  "matched_option d ta cands byID cs = Some ids \<Longrightarrow>
     ids \<in> set (cs_Options cs) \<and> (\<forall>i \<in> set ids. is_ok (outcome d ta cands (query_named byID i)))"
  by (auto simp: matched_option_def find_Some_iff list_all_iff)

lemma put_all_ok: "gm_ok sel \<Longrightarrow> gm_ok (put_all option sel)"
  unfolding put_all_def by (induction option arbitrary: sel) auto

lemma put_all_get: "gm_ok option \<Longrightarrow> gm_get (put_all option sel) i = (case gm_get option i of None \<Rightarrow> gm_get sel i | Some ms \<Rightarrow> Some ms)"
  unfolding put_all_def
proof (induction option arbitrary: sel)
  case (Cons a option)
  obtain k ms where a: "a = (k, ms)" by (cases a)
  have "gm_get option k = None" using Cons.prems by (auto simp: a map_of_eq_None_iff)
  with Cons a show ?case by (auto split: option.splits)
qed simp

lemma put_options:
  "gm_ok sel \<Longrightarrow> gm_ok (fold (put_option d ta cands byID) sets sel) \<and>
     gm_get (fold (put_option d ta cands byID) sets sel) i =
       (if \<exists>cs \<in> set sets. \<exists>ids. matched_option d ta cands byID cs = Some ids \<and> i \<in> set ids
        then Some (match_of d ta cands (query_named byID i)) else gm_get sel i)"
proof (induction sets arbitrary: sel)
  case (Cons cs sets)
  have "gm_ok (put_option d ta cands byID cs sel)"
    using Cons.prems by (simp add: put_option_def put_all_ok split: option.splits)
  from Cons.IH [OF this] show ?case
    by (cases "matched_option d ta cands byID cs") (auto simp: put_option_def put_all_get put_matches_get put_matches_ok)
qed simp

lemma put_each:
  "gm_ok sel \<Longrightarrow> gm_ok (fold (\<lambda>cq. gm_put (cq_ID cq) (match_of d ta cands cq)) cqs sel)"
  "distinct (map cq_ID cqs) \<Longrightarrow> gm_get (fold (\<lambda>cq. gm_put (cq_ID cq) (match_of d ta cands cq)) cqs sel) i =
     (case List.find (\<lambda>cq. cq_ID cq = i) cqs of None \<Rightarrow> gm_get sel i | Some cq \<Rightarrow> Some (match_of d ta cands cq))"
proof (induction cqs arbitrary: sel)
  case (Cons cq cqs)
  { case 1 with Cons show ?case by simp }
  { case 2
    then have "List.find (\<lambda>c. cq_ID c = cq_ID cq) cqs = None"
      unfolding find_None_iff by simp (metis image_eqI)
    with 2 Cons show ?case by (auto split: option.splits) }
qed simp_all

text \<open>The search finds a selection where the query is answerable, and it is the one described.\<close>

lemma MatchDCQLQuery_ok:
  assumes alive: "\<forall>n. \<not> done n" and wf: "query_wf q" and there: "checker_there q ta"
  shows "is_ok (MatchDCQLQuery d done q cands ta) \<longleftrightarrow> answerable d ta cands q"
    and "MatchDCQLQuery d done q cands ta = Inr sel \<Longrightarrow> gm_ok sel \<and>
      (\<forall>i. gm_get sel i = (if i \<in> answered_queries d ta cands q
         then Some (match_of d ta cands (query_named (by_id (q_Credentials q) []) i)) else None))"
proof -
  let ?qs = "set (q_Credentials q)" and ?byID = "by_id (q_Credentials q) []"
  have ids: "inj_on cq_ID ?qs" "distinct (map cq_ID (q_Credentials q))" using query_ids [OF wf] by simp_all
  have run: "MatchDCQLQuery d done q cands ta = fst (matchQuery d done ta cands q (newMatcher 0))"
  proof -
    have "Query_Validate q = None" using wf by (simp add: Query_Validate_wf)
    moreover have "\<not> (ta = None \<and> list_ex (\<lambda>cq. length (cq_TrustedAuthorities cq) > 0) (q_Credentials q))"
      using there by (auto simp: checker_there_def list_ex_iff)
    ultimately show ?thesis by (simp only: MatchDCQLQuery_def option.case if_False)
  qed
  have start: "matcher_ok d ta cands ?qs (newMatcher 0)" by simp
  have "is_ok (MatchDCQLQuery d done q cands ta) = answerable d ta cands q \<and>
    (\<forall>sel. MatchDCQLQuery d done q cands ta = Inr sel \<longrightarrow> gm_ok sel \<and>
      (\<forall>i. gm_get sel i = (if i \<in> answered_queries d ta cands q
         then Some (match_of d ta cands (query_named ?byID i)) else None)))"
  proof (cases "q_CredentialSets q = []")
    case True
    from match_each_ok [OF alive ids(1) start subset_refl, of "[]"]
    obtain r m' where r: "match_each d done ta cands (q_Credentials q) [] (newMatcher 0) = (r, m')"
      "is_ok r \<longleftrightarrow> (\<forall>cq \<in> ?qs. is_ok (outcome d ta cands cq))"
      "\<forall>sel'. r = Inr sel' \<longrightarrow> sel' = fold (\<lambda>cq. gm_put (cq_ID cq) (match_of d ta cands cq)) (q_Credentials q) []"
      by blast
    have found: "List.find (\<lambda>cq. cq_ID cq = i) (q_Credentials q) =
        (if i \<in> cq_ID ` ?qs then Some (query_named ?byID i) else None)" for i
    proof (cases "List.find (\<lambda>cq. cq_ID cq = i) (q_Credentials q)")
      case (Some cq)
      then have "cq \<in> ?qs" "cq_ID cq = i" by (auto simp: find_Some_iff)
      moreover from this have "i \<in> cq_ID ` ?qs" by blast
      ultimately show ?thesis using Some query_named_eq [OF wf, of cq] by simp
    qed (auto simp: find_None_iff)
    have eq: "MatchDCQLQuery d done q cands ta = r" using r(1) True by (simp add: run matchQuery_def)
    have set: "answered_queries d ta cands q = cq_ID ` ?qs" "answerable d ta cands q = (\<forall>cq \<in> ?qs. is_ok (outcome d ta cands cq))"
      using True by (simp_all add: answered_queries_def answerable_def)
    have get: "gm_get (fold (\<lambda>cq. gm_put (cq_ID cq) (match_of d ta cands cq)) (q_Credentials q) []) i =
        (if i \<in> cq_ID ` ?qs then Some (match_of d ta cands (query_named ?byID i)) else None)" for i
      unfolding put_each(2) [OF ids(2)] found by simp
    have ok: "gm_ok (fold (\<lambda>cq. gm_put (cq_ID cq) (match_of d ta cands cq)) (q_Credentials q) [])" by (rule put_each(1)) simp
    show ?thesis unfolding eq set using r(2,3) get ok by blast
  next
    case False
    have "\<forall>cs \<in> set (q_CredentialSets q). \<forall>ids \<in> set (cs_Options cs). known ?byID ?qs ids"
      using options_known(2) [OF wf] by blast
    from match_sets_ok [OF alive ids(1) start this, of "[]"] obtain r m' where r: "match_sets d done ta cands ?byID (q_CredentialSets q) [] (newMatcher 0) = (r, m')"
      "is_ok r \<longleftrightarrow> (\<forall>cs \<in> set (q_CredentialSets q). IsRequired cs \<longrightarrow> matched_option d ta cands ?byID cs \<noteq> None)"
      "\<forall>sel'. r = Inr sel' \<longrightarrow> sel' = fold (put_option d ta cands ?byID) (q_CredentialSets q) []"
      by blast
    have eq: "MatchDCQLQuery d done q cands ta = r" using r(1) False by (simp add: run matchQuery_def)
    have set: "answered_queries d ta cands q =
        {i. \<exists>cs \<in> set (q_CredentialSets q). \<exists>ids. matched_option d ta cands ?byID cs = Some ids \<and> i \<in> set ids}"
      "answerable d ta cands q =
        (\<forall>cs \<in> set (q_CredentialSets q). IsRequired cs \<longrightarrow> matched_option d ta cands ?byID cs \<noteq> None)"
      using False by (simp_all add: answered_queries_def answerable_def)
    have "gm_ok []" by simp
    note put = put_options [OF this, of d ta cands ?byID "q_CredentialSets q"]
    show ?thesis unfolding eq
    proof (intro conjI allI impI)
      show "is_ok r = answerable d ta cands q" using r(2) unfolding set .
      fix sel i assume "r = Inr sel"
      with r(3) have sel: "sel = fold (put_option d ta cands ?byID) (q_CredentialSets q) []" by blast
      show "gm_ok sel" unfolding sel using put by blast
      show "gm_get sel i = (if i \<in> answered_queries d ta cands q then Some (match_of d ta cands (query_named ?byID i)) else None)"
        unfolding sel set mem_Collect_eq put [THEN conjunct2] by simp
    qed
  qed
  then show "is_ok (MatchDCQLQuery d done q cands ta) \<longleftrightarrow> answerable d ta cands q"
    "MatchDCQLQuery d done q cands ta = Inr sel \<Longrightarrow> gm_ok sel \<and>
      (\<forall>i. gm_get sel i = (if i \<in> answered_queries d ta cands q
         then Some (match_of d ta cands (query_named ?byID i)) else None))" by blast+
qed

section \<open>What the Wallet accepts\<close>

lemma outcome_Inr:
  assumes "outcome d ta cands cq = Inr ms"
  shows "ms \<noteq> []" and "\<forall>h \<in> set ms. h \<in> set cands \<and> answers d ta cq h" and "length ms > 1 \<longrightarrow> cq_Multiple cq"
proof -
  have "ms \<noteq> [] \<and> (\<forall>h \<in> set ms. h \<in> set cands \<and> answers d ta cq h) \<and> (length ms > 1 \<longrightarrow> cq_Multiple cq)"
    using assms unfolding outcome_def match_outcome_def by (auto split: if_splits dest: in_set_takeD)
  then show "ms \<noteq> []" "\<forall>h \<in> set ms. h \<in> set cands \<and> answers d ta cq h" "length ms > 1 \<longrightarrow> cq_Multiple cq" by auto
qed

lemma match_of_ok: "is_ok (outcome d ta cands cq) \<Longrightarrow> outcome d ta cands cq = Inr (match_of d ta cands cq)"
  by (auto simp: match_of_def is_ok_iff)

text \<open>One credential on its own is judged as it is among others.\<close>

lemma satisfies_ok:
  assumes "\<forall>n. \<not> done n" and "answers d ta cq held" and "ta = None \<longrightarrow> cq_TrustedAuthorities cq = []"
  shows "\<exists>n'. satisfies d done cq held ta n = (None, n')"
proof -
  have ok: "matcher_ok d ta [held] {cq} (newMatcher n)" by simp
  obtain m where "matcher_match d done ta [held] cq (newMatcher n) = (outcome d ta [held] cq, m)"
    by (rule matcher_match_ok [OF assms(1) ok]) simp_all
  moreover have "satisfied_by d ta cq \<noteq> None" using assms(2) by (auto simp: answers_def split: option.splits)
  then have "outcome d ta [held] cq = Inr [held]" using assms(2) by (simp add: outcome_def match_outcome_def)
  ultimately show ?thesis using assms(3) by (auto simp: satisfies_def)
qed

lemma all_satisfy_ok:
  assumes "\<forall>n. \<not> done n" and "ta = None \<longrightarrow> cq_TrustedAuthorities cq = []"
  shows "\<forall>h \<in> set helds. answers d ta cq h \<Longrightarrow> \<exists>n'. all_satisfy d done cq ta helds n = (None, n')"
proof (induction helds arbitrary: n)
  case (Cons h helds)
  then have "answers d ta cq h" by simp
  from satisfies_ok [OF assms(1) this assms(2)] obtain n' where "satisfies d done cq h ta n = (None, n')" by blast
  with Cons show ?case by simp
qed simp

lemma check_ids_ok:
  assumes "\<forall>n. \<not> done n"
    and "\<forall>i \<in> set ids. \<exists>cq. gm_get byID i = Some cq \<and> (ta = None \<longrightarrow> cq_TrustedAuthorities cq = []) \<and> chosen_for sel i \<noteq> [] \<and>
      (length (chosen_for sel i) > 1 \<longrightarrow> cq_Multiple cq) \<and> (\<forall>h \<in> set (chosen_for sel i). answers d ta cq h)"
  shows "check_ids d done byID sel ta ids n = None"
  using assms(2)
proof (induction ids arbitrary: n)
  case (Cons i ids)
  then obtain cq where cq: "gm_get byID i = Some cq" "ta = None \<longrightarrow> cq_TrustedAuthorities cq = []" "chosen_for sel i \<noteq> []"
    "length (chosen_for sel i) > 1 \<longrightarrow> cq_Multiple cq" "\<forall>h \<in> set (chosen_for sel i). answers d ta cq h" by auto
  obtain n' where "all_satisfy d done cq ta (chosen_for sel i) n = (None, n')"
    using all_satisfy_ok [OF assms(1) cq(2,5)] by blast
  with cq Cons show ?case by auto
qed simp

lemma answered_ids_flag: "gm_ok sel \<Longrightarrow> flag (answered_ids sel) i \<longleftrightarrow> chosen_for sel i \<noteq> []"
proof (induction sel)
  case (Cons a sel)
  obtain k ms where "a = (k, ms)" by (cases a)
  with Cons show ?case by (auto simp: flag_def answered_ids_def chosen_for_def)
qed (simp add: flag_def answered_ids_def chosen_for_def)

lemma answered_ids_ok: "gm_ok sel \<Longrightarrow> gm_ok (answered_ids sel)"
  by (simp add: answered_ids_def gm_ok_def comp_def case_prod_unfold)

text \<open>The option of each credential set that is answered, the empty one for a set left out.\<close>

lemma answered_options_choice:
  assumes "answerable d ta cands q" and "q_CredentialSets q \<noteq> []"
  defines "option_of \<equiv> \<lambda>cs. case matched_option d ta cands (by_id (q_Credentials q) []) cs of None \<Rightarrow> [] | Some ids \<Rightarrow> ids"
  shows "list_all2 set_choice (q_CredentialSets q) (map option_of (q_CredentialSets q))"
    and "i \<in> answered_queries d ta cands q \<longleftrightarrow> (\<exists>option \<in> set (map option_of (q_CredentialSets q)). i \<in> set option)"
proof -
  have "set_choice cs (option_of cs)" if "cs \<in> set (q_CredentialSets q)" for cs
    using assms(1,2) that matched_option_Some [of d ta cands _ cs]
    by (cases "matched_option d ta cands (by_id (q_Credentials q) []) cs") (auto simp: answerable_def option_of_def set_choice_def)
  then show "list_all2 set_choice (q_CredentialSets q) (map option_of (q_CredentialSets q))"
    by (simp add: list_all2_map2 list.rel_refl_strong)
  show "i \<in> answered_queries d ta cands q \<longleftrightarrow> (\<exists>option \<in> set (map option_of (q_CredentialSets q)). i \<in> set option)"
  proof
    assume "i \<in> answered_queries d ta cands q"
    then obtain cs ids where "cs \<in> set (q_CredentialSets q)" "i \<in> set ids"
      "matched_option d ta cands (by_id (q_Credentials q) []) cs = Some ids" using assms(2) by (auto simp: answered_queries_def)
    then show "\<exists>option \<in> set (map option_of (q_CredentialSets q)). i \<in> set option" by (auto simp: option_of_def intro!: bexI [of _ cs])
  next
    assume "\<exists>option \<in> set (map option_of (q_CredentialSets q)). i \<in> set option"
    then obtain cs where cs: "cs \<in> set (q_CredentialSets q)" "i \<in> set (option_of cs)" by auto
    then obtain ids where "matched_option d ta cands (by_id (q_Credentials q) []) cs = Some ids" "i \<in> set ids"
      by (cases "matched_option d ta cands (by_id (q_Credentials q) []) cs") (simp_all add: option_of_def)
    with cs(1) assms(2) show "i \<in> answered_queries d ta cands q" by (auto simp: answered_queries_def)
  qed
qed

lemma answered_known: "query_wf q \<Longrightarrow> i \<in> answered_queries d ta cands q \<Longrightarrow> i \<in> cq_ID ` set (q_Credentials q)"
  using options_known(1) matched_option_Some by (fastforce simp: answered_queries_def split: if_splits)

lemma answered_outcome:
  assumes "query_wf q" and "answerable d ta cands q" and "i \<in> answered_queries d ta cands q"
  shows "is_ok (outcome d ta cands (query_named (by_id (q_Credentials q) []) i))"
proof (cases "q_CredentialSets q = []")
  case True
  with assms query_named_eq [OF assms(1)] show ?thesis by (auto simp: answerable_def answered_queries_def)
next
  case False
  with assms(3) show ?thesis by (auto simp: answered_queries_def dest!: matched_option_Some)
qed

text \<open>Accepted, unless the search over the credential sets gives up, which it does only past its bound on the combinations.\<close>

definition accepts_or_gives_up :: "query \<Rightarrow> wallet_error option \<Rightarrow> bool" where
  "accepts_or_gives_up q e =
     (e = None \<or> e = Some (NotAnswered TooManyCombinations) \<and> maxOptionCombinations < set_combinations (q_CredentialSets q))"

lemma selection_valid:
  assumes alive: "\<forall>n. \<not> done n" and wf: "query_wf q" and there: "checker_there q ta" and "answerable d ta cands q"
    and sel: "gm_ok sel" "\<And>i. chosen_for sel i \<noteq> [] \<longleftrightarrow> i \<in> answered_queries d ta cands q" "\<And>i. gm_get sel i \<noteq> Some []"
    and part: "\<And>i cq. gm_get (by_id (q_Credentials q) []) i = Some cq \<Longrightarrow>
      (length (chosen_for sel i) > 1 \<longrightarrow> cq_Multiple cq) \<and> (\<forall>h \<in> set (chosen_for sel i). answers d ta cq h)"
  shows "accepts_or_gives_up q (ValidateSelection d done q sel ta)"
proof -
  have "\<exists>cq. gm_get (by_id (q_Credentials q) []) i = Some cq \<and> (ta = None \<longrightarrow> cq_TrustedAuthorities cq = []) \<and> chosen_for sel i \<noteq> [] \<and>
      (length (chosen_for sel i) > 1 \<longrightarrow> cq_Multiple cq) \<and> (\<forall>h \<in> set (chosen_for sel i). answers d ta cq h)"
    if "i \<in> set (sortedKeys sel)" for i
  proof -
    have "i \<in> dom (gm_get sel)" using that by (simp add: sortedKeys_def dom_map_of_conv_image_fst)
    then obtain helds where "gm_get sel i = Some helds" by auto
    with sel(3) have ne: "chosen_for sel i \<noteq> []" by (auto simp: chosen_for_def)
    then have "i \<in> cq_ID ` set (q_Credentials q)" using answered_known [OF wf] sel(2) by blast
    then obtain cq where cq: "gm_get (by_id (q_Credentials q) []) i = Some cq" "cq \<in> set (q_Credentials q)"
      using query_ids [OF wf] by (auto simp: by_id_named)
    with ne there part [OF cq(1)] show ?thesis by (auto simp: checker_there_def)
  qed
  then have "check_ids d done (by_id (q_Credentials q) []) sel ta (sortedKeys sel) 0 = None" by (intro check_ids_ok [OF alive]) blast
  moreover have "answer_ok q (flag (answered_ids sel))"
  proof (cases "q_CredentialSets q = []")
    case True
    then show ?thesis using answered_ids_flag [OF sel(1)] sel(2) by (auto simp: answer_ok_def answered_queries_def)
  next
    case False
    show ?thesis
    proof (rule answer_ok_setsI [OF answered_options_choice(1) [OF assms(4) False] _ _ False])
      show "\<forall>i. flag (answered_ids sel) i \<longrightarrow> i \<in> cq_ID ` set (q_Credentials q)"
        unfolding answered_ids_flag [OF sel(1)] sel(2) using answered_known [OF wf] by blast
    qed (unfold answered_ids_flag [OF sel(1)] sel(2), intro allI answered_options_choice(2) [OF assms(4) False])
  qed
  then have "CheckAnswered q (answered_ids sel) = None \<or> CheckAnswered q (answered_ids sel) = Some TooManyCombinations \<and>
      maxOptionCombinations < set_combinations (q_CredentialSets q)"
    using CheckAnswered_exact [OF answered_ids_ok [OF sel(1)]] CheckAnswered_not_too_many [of q] by (meson linorder_not_le)
  ultimately show ?thesis
    using wf by (auto simp: accepts_or_gives_up_def ValidateSelection_def checkCredentialSets_def Query_Validate_wf [symmetric])
qed

lemma MatchDCQLQuery_Inr:
  assumes "MatchDCQLQuery d done q cands ta = Inr sel"
  shows "query_wf q" and "checker_there q ta"
proof -
  have "query_wf q \<and> checker_there q ta"
    using assms by (auto simp: MatchDCQLQuery_def Query_Validate_wf checker_there_def list_ex_iff split: option.splits if_splits)
  then show "query_wf q" "checker_there q ta" by simp_all
qed

text \<open>A part of what the search finds, with something of every query, is accepted.\<close>

lemma part_accepted:
  assumes alive: "\<forall>n. \<not> done n" and run: "MatchDCQLQuery d done q cands ta = Inr sel"
    and "\<And>helds. helds \<noteq> [] \<Longrightarrow> part helds \<noteq> [] \<and> set (part helds) \<subseteq> set helds \<and> length (part helds) \<le> length helds"
  shows "accepts_or_gives_up q (ValidateSelection d done q (map (\<lambda>(i, helds). (i, part helds)) sel) ta)"
proof -
  note wf = MatchDCQLQuery_Inr(1) [OF run] and there = MatchDCQLQuery_Inr(2) [OF run]
  let ?byID = "by_id (q_Credentials q) []" and ?sel = "map (\<lambda>(i, helds). (i, part helds)) sel"
  have ans: "answerable d ta cands q" using MatchDCQLQuery_ok(1) [OF alive wf there] run by (metis is_ok_iff)
  have sel: "gm_ok sel" and get: "\<And>i. gm_get sel i = (if i \<in> answered_queries d ta cands q
         then Some (match_of d ta cands (query_named ?byID i)) else None)"
    using MatchDCQLQuery_ok(2) [OF alive wf there run] by blast+
  have ok: "outcome d ta cands (query_named ?byID i) = Inr (match_of d ta cands (query_named ?byID i))"
    if "i \<in> answered_queries d ta cands q" for i
    using match_of_ok [OF answered_outcome [OF wf ans that]] .
  have get': "gm_get ?sel i = (if i \<in> answered_queries d ta cands q
         then Some (part (match_of d ta cands (query_named ?byID i))) else None)" for i
    by (simp add: map_of_map get)
  show ?thesis
  proof (rule selection_valid [OF alive wf there ans])
    show "gm_ok ?sel" using sel by (simp add: gm_ok_def comp_def case_prod_unfold)
    show "chosen_for ?sel i \<noteq> [] \<longleftrightarrow> i \<in> answered_queries d ta cands q" "gm_get ?sel i \<noteq> Some []" for i
      using outcome_Inr(1) [OF ok] assms(3) unfolding chosen_for_def get' by auto
    fix i cq assume cq: "gm_get ?byID i = Some cq"
    then have "query_named ?byID i = cq" by (simp add: query_named_def)
    then show "(length (chosen_for ?sel i) > 1 \<longrightarrow> cq_Multiple cq) \<and> (\<forall>h \<in> set (chosen_for ?sel i). answers d ta cq h)"
      using outcome_Inr [OF ok, of i] assms(3) [of "match_of d ta cands cq"] unfolding chosen_for_def get' by auto
  qed
qed

section \<open>Properties\<close>

text \<open>C9: the Wallet's search, which decodes each credential once and remembers each query's outcome, finds what a search
  without that memory would: a selection where the query can be answered, and then every query's own matches for the
  first option of each credential set that can be, and for no other query.\<close>

theorem matching_exact:
  assumes "\<forall>n. \<not> done n" and "Query_Validate q = None" and "checker_there q ta"
  shows "if answerable d ta cands q
    then \<exists>sel. MatchDCQLQuery d done q cands ta = Inr sel \<and> gm_ok sel \<and>
      (\<forall>i. gm_get sel i = (if i \<in> answered_queries d ta cands q
         then Some (match_of d ta cands (query_named (by_id (q_Credentials q) []) i)) else None))
    else \<exists>e. MatchDCQLQuery d done q cands ta = Inl e"
proof -
  have wf: "query_wf q" using assms(2) by (simp add: Query_Validate_wf)
  show ?thesis using MatchDCQLQuery_ok [OF assms(1) wf assms(3), of d cands]
    by (cases "MatchDCQLQuery d done q cands ta") auto
qed

text \<open>C10: what the Wallet would choose itself, all the matches or the first of each, \<open>ValidateSelection\<close> accepts from the holder, whose
  search over the credential sets is another one. It can refuse it in one way only: that search gives up, where the credential sets have
  more combinations than its bound allows.\<close>

theorem own_choice_accepted:
  assumes "\<forall>n. \<not> done n"
    and "MatchDCQLQuery d done q cands ta = Inr sel \<or> DefaultSelection d done q cands ta = Inr sel"
  shows "ValidateSelection d done q sel ta = None \<or>
    ValidateSelection d done q sel ta = Some (NotAnswered TooManyCombinations) \<and>
    maxOptionCombinations < set_combinations (q_CredentialSets q)"
  using assms(2)
proof
  assume run: "MatchDCQLQuery d done q cands ta = Inr sel"
  have "accepts_or_gives_up q (ValidateSelection d done q (map (\<lambda>(i, helds). (i, helds)) sel) ta)"
    by (rule part_accepted [OF assms(1) run]) simp
  then show ?thesis by (simp add: accepts_or_gives_up_def)
next
  assume "DefaultSelection d done q cands ta = Inr sel"
  then obtain all where run: "MatchDCQLQuery d done q cands ta = Inr all" and sel: "sel = map (\<lambda>(i, helds). (i, take 1 helds)) all"
    by (auto simp: DefaultSelection_def rmap_Inr_iff)
  have "accepts_or_gives_up q (ValidateSelection d done q sel ta)"
    unfolding sel by (rule part_accepted [OF assms(1) run]) (auto dest: in_set_takeD)
  then show ?thesis by (simp add: accepts_or_gives_up_def)
qed

text \<open>The hypotheses at an input: two credentials held, a query that either answers.\<close>

definition sample_wallet :: "unit wallet_deps" where
  "sample_wallet = \<lparr> wd_crypto = vc_crypto, wd_hash = sample_hash, wd_json = sample_json, wd_ratOf = (\<lambda>_. None),
     wd_X5CDERsFromHeader = (\<lambda>_. None), wd_UnmarshalIssuerSigned = (\<lambda>_. None), wd_X5Chain = (\<lambda>_. None) \<rparr>"

definition sample_held :: "string \<Rightarrow> unit held_credential" where
  "sample_held kb = \<lparr> hc_Format = formatSDJWTVC, hc_Credential = ''AA.Ag.AQ~'' @ kb, hc_HolderKey = None, hc_HolderKeyAlg = [],
     hc_withoutKeyBinding = False, hc_MdocDocType = [] \<rparr>"

definition sample_query :: query where
  "sample_query = \<lparr> q_Credentials = [SDJWTVCQuery ''q'' ''v'' [] \<lparr> cq_RequireCryptographicHolderBinding := Some False \<rparr>],
     q_CredentialSets = [] \<rparr>"

lemma sample_decoded_jwt: "DecodeUnverified vc_crypto ''AA.Ag.AQ'' = Inr ([(''alg'', GStr EdDSA), (''typ'', GStr TypHeader)], [2])"
proof -
  have "DecodeUnverifiedMax vc_crypto ''AA.Ag.AQ'' 10 = Inr ([(''alg'', GStr EdDSA), (''typ'', GStr TypHeader)], [2])" by code_simp
  then show ?thesis by (simp add: DecodeUnverified_def DecodeUnverifiedMax_def MaxCompactBytes_def)
qed

lemma sample_resolved:
  assumes "tilde \<notin> set kb" and "length kb < 100"
  shows "resolveHeldSDJWTVC sample_wallet (''AA.Ag.AQ~'' @ kb) =
    Inr (\<lparr> pn_IssuerJWT = ''AA.Ag.AQ'', pn_Disclosures = [], pn_KeyBindingJWT = kb \<rparr>, SHA256,
      [(''vct'', GStr ''v''), (''exp'', GFloat (Finite 100))])"
proof -
  have "Parse sample_json (''AA.Ag.AQ~'' @ kb) = Inr \<lparr> pn_IssuerJWT = ''AA.Ag.AQ'', pn_Disclosures = [], pn_KeyBindingJWT = kb \<rparr>"
    unfolding Parse_def ParseMax_Inr using assms by (simp add: Compact_def SDJWT_def tilde_def MaxBytes_def)
  moreover have "cr_json vc_crypto [2] = Some [(''vct'', GStr ''v''), (''exp'', GFloat (Finite 100))]" by (simp add: vc_crypto_def)
  moreover have "ResolveDisclosures sample_hash [(''vct'', GStr ''v''), (''exp'', GFloat (Finite 100))] SHA256 [] =
      Inr [(''vct'', GStr ''v''), (''exp'', GFloat (Finite 100))]" by code_simp
  ultimately show ?thesis
    by (simp add: resolveHeldSDJWTVC_def sample_wallet_def sample_decoded_jwt PayloadHashAlg_def DefaultHashAlg_def)
qed

definition sample_cands :: "unit held_credential list" where
  "sample_cands = [sample_held [], sample_held ''x'']"

lemma sample_answers:
  assumes "h \<in> set sample_cands" and "cq \<in> set (q_Credentials sample_query)"
  shows "answers sample_wallet None cq h"
proof -
  obtain kb where h: "h = sample_held kb" "tilde \<notin> set kb" "length kb < 100"
    using assms(1) by (auto simp: sample_cands_def tilde_def)
  have "decode_candidate sample_wallet h =
      Some (DecodedSDJWT [(''vct'', GStr ''v''), (''exp'', GFloat (Finite 100))] [(''alg'', GStr EdDSA), (''typ'', GStr TypHeader)])"
    using sample_resolved [OF h(2,3)] by (simp add: h(1) decode_candidate_def sample_held_def) (simp add: sample_wallet_def sample_decoded_jwt)
  moreover have "cq = SDJWTVCQuery ''q'' ''v'' [] \<lparr> cq_RequireCryptographicHolderBinding := Some False \<rparr>"
    using assms(2) by (simp add: sample_query_def)
  ultimately show ?thesis
    by (simp add: answers_def h(1) sample_held_def satisfied_by_def SDJWTVCQuery_def newCredentialQuery_def formatSDJWTVC_def
      SatisfiedBySDJWTVCClaims_None checkVCT_def SDJWTVCMeta_def dec_field_def case_clash_def credentialTypes_def
      selectedClaimPaths_def RequiresCryptographicHolderBinding_def candidateSatisfiesTrustedAuthorities_def)
qed

lemma sample_query_wf: "Query_Validate sample_query = None" "checker_there sample_query None"
proof -
  have "Query_Validate \<lparr> q_Credentials = [SDJWTVCQuery ''q'' ''v'' [] \<lparr> cq_RequireCryptographicHolderBinding := Some False \<rparr>],
      q_CredentialSets = [] \<rparr> = None"
    by (simp add: Query_Validate_wf query_wf_def credential_wf_def credential_sized_def meta_wf_def claim_ids_def idPattern_def id_chars_def
      formatSDJWTVC_def formatMdoc_def SDJWTVCQuery_def newCredentialQuery_def SDJWTVCMeta_def dec_field_def case_clash_def max_defs)
  then show "Query_Validate sample_query = None" by (simp add: sample_query_def)
  show "checker_there sample_query None" by (simp add: checker_there_def sample_query_def SDJWTVCQuery_def newCredentialQuery_def)
qed

lemma sample_answerable: "answerable sample_wallet None sample_cands sample_query"
proof -
  have "is_ok (outcome sample_wallet None sample_cands cq)" if "cq \<in> set (q_Credentials sample_query)" for cq
  proof -
    have "filter (answers sample_wallet None cq) sample_cands = sample_cands" using sample_answers that by simp
    moreover have "satisfied_by sample_wallet None cq \<noteq> None"
      using that by (simp add: satisfied_by_def sample_query_def SDJWTVCQuery_def newCredentialQuery_def)
    ultimately show ?thesis by (simp add: outcome_def match_outcome_def sample_cands_def)
  qed
  then show ?thesis by (simp add: answerable_def sample_query_def)
qed

theorem matching_exact_witness:
  "\<exists>sel. MatchDCQLQuery sample_wallet (\<lambda>_. False) sample_query sample_cands None = Inr sel \<and> gm_ok sel"
  using matching_exact [of "\<lambda>_. False", OF _ sample_query_wf, of sample_wallet sample_cands] sample_answerable by auto

theorem own_choice_accepted_witness:
  "\<exists>sel. DefaultSelection sample_wallet (\<lambda>_. False) sample_query sample_cands None = Inr sel \<and>
     ValidateSelection sample_wallet (\<lambda>_. False) sample_query sel None = None"
proof -
  have "query_wf sample_query" using sample_query_wf by (simp add: Query_Validate_wf)
  from MatchDCQLQuery_ok(1) [OF _ this sample_query_wf(2), of "\<lambda>_. False" sample_wallet sample_cands] sample_answerable
  obtain sel where run: "DefaultSelection sample_wallet (\<lambda>_. False) sample_query sample_cands None = Inr sel"
    by (auto simp: DefaultSelection_def is_ok_iff)
  have "set_combinations (q_CredentialSets sample_query) \<le> maxOptionCombinations"
    by (simp add: sample_query_def set_combinations_def)
  with own_choice_accepted [of "\<lambda>_. False" sample_wallet sample_query sample_cands None sel] run
  have "ValidateSelection sample_wallet (\<lambda>_. False) sample_query sel None = None" by auto
  with run show ?thesis by blast
qed

end
