(* ===== verification/Spec2Isabelle.thy ===== *)
theory Spec2Isabelle
  imports Go_Prelude Go_Text Dcql_Path Dcql_Query Dcql_Match Dcql_Answered B64url Status_Bits Status_Store Status_Allocator Call_Budget Storage Tx_Store Failure_Text Transactions Tx_Life Tx_Props Sdjwt_Resolve Jose Jwt_Date Sdjwt_Verify Sdjwt_Select Sdjwt_Resolvable Sdjwt_Withhold Sdjwt_Reselect Sdjwt_Seal Sdjwt_Roundtrip Sdjwt_Issue Issuer_Nonce Strict_Json Jwk Key_Attestation Issuer_Proofs Issuer_Batch Issuer_Deferral Issuer_Request Issuer_Codes Issuer_Code_Props Status_Policy Verify_Response Verified_Flow Wallet_Match
begin

text \<open>
  A verification development for OID4VCgo, a Go library for OpenID for Verifiable Credentials: an Issuer, a Wallet and a
  Verifier, the credential formats they exchange, the query language a Verifier asks in, and the status lists by which
  an Issuer revokes. The development models the parts that decide: what is accepted, what is released and to whom, how
  often a code or a nonce is worth anything, which claims a credential holds and which of them are shown.

  \<^bold>\<open>How the program is put together.\<close> An Issuer (\<open>src/issuer\<close>) keeps c_nonces, pre-authorized codes, deferred
  transactions and notifications in stores (\<open>src/storage\<close>), takes a status index for each credential
  (\<open>src/statuslist\<close>) and signs SD-JWT VCs (\<open>src/credential/sdjwtvc\<close>). A Verifier (\<open>src/verifier\<close>) builds a DCQL query
  (\<open>src/dcql\<close>), keeps one transaction for each request, verifies the credentials of the answer, checks their status and
  matches them against the query. Both stand on compact JWSs, base64url and JWT dates (\<open>src/internal\<close>).

  \<^bold>\<open>How Go is read.\<close> A \<open>(value, error)\<close> result is a sum, \<open>Inl\<close> the error; an error-only result is an option; a nil pointer
  is \<open>None\<close>; a \<open>map\<close> is an association list without repeated keys (\<open>gomap\<close> of \<open>Go_Prelude\<close>), of which only lookups
  matter, since Go iterates in no fixed order. A string is a list of bytes as characters. A \<open>time.Time\<close> is an integer
  count, of nanoseconds where fractions matter, and zero is the zero time. A JSON value is the datatype \<open>json\<close>, a number in
  it its literal. A method that holds its object's lock is one step; goroutines and processes are sequences of steps.
  Errors are values of one datatype for each component, so every refusal is a branch.

  \<^bold>\<open>What is a parameter.\<close> Hash functions, signature primitives, the \<open>json\<close> codec, zlib, the clock, random bytes, \<open>net/url\<close> and
  the stores and callbacks a deployment plugs in are arguments of the definitions that use them. What a property needs
  of one is a named hypothesis (that a decoder reads back what the encoder wrote, that a signature by a key verifies
  under it, that no two Disclosures collide), and its witness applies it with a concrete function.

  \<^bold>\<open>The theories.\<close>

  \<^item> \<open>Go_Prelude\<close>: results, maps, JSON, and the lemma collections the rest uses (\<open>ok_iffs\<close> opens a chain of fallible
    steps). \<open>Go_Text\<close>: UTF-8 and length-prefixed text. \<open>Call_Budget\<close>: the locale that counts the grants of a sequence of calls by what the state still allows.

  \<^item> \<open>Dcql_Path\<close>, \<open>Dcql_Query\<close>, \<open>Dcql_Match\<close>, \<open>Dcql_Answered\<close> (\<open>src/dcql\<close>): paths and what they select; validation, equal to the
    declarative rules of OpenID4VP 6; matching of credentials; whether an answer's selection of credentials is one the
    query allows, equal to the rule of 6.4.2 unless the bounded search gives up.

  \<^item> \<open>B64url\<close>, \<open>Jose\<close>, \<open>Jwt_Date\<close> (\<open>src/internal\<close>): base64url with its decoder, compact JWSs (signing, verifying, the critical
    header, low-order keys, fixed-width ECDSA), NumericDates and token windows.

  \<^item> \<open>Status_Bits\<close>, \<open>Status_Store\<close>, \<open>Status_Allocator\<close> (\<open>src/statuslist\<close>): the packed list and the check of one status; the index
    stores with the contract they keep (locales \<open>index_store\<close>, \<open>batch_index_store\<close>, interpreted by the store in memory);
    the allocator that draws indices at random from any store that keeps the contract.

  \<^item> \<open>Storage\<close> (\<open>src/storage\<close>): the stores of an Issuer. What each promises to grant once is an interpretation of
    \<open>call_budget\<close>.

  \<^item> \<open>Tx_Store\<close>, \<open>Transactions\<close>, \<open>Tx_Life\<close>, \<open>Tx_Props\<close>, \<open>Failure_Text\<close> (\<open>src/verifier\<close>, \<open>src/storage\<close>): a Verifier's transactions.
    \<open>Tx_Store\<close> has the record, the interface as a locale and the store in memory; \<open>Transactions\<close> every operation over any
    store; \<open>Tx_Life\<close> the abstract life of one request, an inductive step relation, and the locale that maps a store's
    steps to it; \<open>Tx_Props\<close> the refinement for the store in memory, and the properties of sequences of calls.

  \<^item> \<open>Sdjwt_Resolve\<close>, \<open>Sdjwt_Verify\<close>, \<open>Sdjwt_Select\<close> (\<open>src/credential/sdjwtvc\<close>, reading): Disclosures, resolution of a payload
    against the Processed Payload of RFC 9901 as a relation; presentations, key binding and verification; the choice of the
    Disclosures to present for the paths a query asks.

  \<^item> \<open>Sdjwt_Withhold\<close>, \<open>Sdjwt_Reselect\<close> (\<open>src/credential/sdjwtvc\<close>, \<open>src/dcql\<close>): what a Holder's selection does. The Disclosures picked for a
    query's paths resolve without the others, to a part of the claims in which the paths find what they did; selecting among them
    again, as a Verifier does, selects all of them.

  \<^item> \<open>Sdjwt_Resolvable\<close>, \<open>Sdjwt_Seal\<close>, \<open>Sdjwt_Roundtrip\<close>, \<open>Sdjwt_Issue\<close> (\<open>src/credential/sdjwtvc\<close>, writing): the shape of a resolvable
    value, sealing a tree of claims with its Disclosures, that what is sealed resolves to the tree, and \<open>Issue\<close>, whose
    credential \<open>Verify\<close> accepts with the claims issued.

  \<^item> \<open>Strict_Json\<close>, \<open>Jwk\<close>, \<open>Key_Attestation\<close> (\<open>src/internal/strictjson\<close>, \<open>src/internal/jwk\<close>, \<open>src/attestation\<close>): member names read
    exactly, public keys as JWKs and back, parsing and verification of key attestations.

  \<^item> \<open>Issuer_Nonce\<close>, \<open>Issuer_Proofs\<close>, \<open>Issuer_Batch\<close>, \<open>Issuer_Deferral\<close>, \<open>Issuer_Request\<close> (\<open>src/issuer\<close>): the credential
    endpoint. \<open>Issuer_Nonce\<close> has both kinds of c_nonce, stateless ones down to the bytes of their tag; \<open>Issuer_Proofs\<close> the key
    proofs and what each credential is bound to; \<open>Issuer_Batch\<close> the authorization of a request and the batch issued;
    \<open>Issuer_Deferral\<close> deferred transactions from the request to their collection; \<open>Issuer_Request\<close> the whole handler, over
    the parts before it, and the notification endpoint. Sequences of calls, of one process or several over one store, are
    counted by \<open>call_budget\<close>.

  \<^item> \<open>Issuer_Codes\<close>, \<open>Issuer_Code_Props\<close> (\<open>src/issuer\<close>, \<open>src/credential_offer.go\<close>): Credential Offers and the pre-authorized codes
    in them, from the offer to the access token, over any store with the contract of the locale \<open>code_store\<close>, which the store
    of \<open>Storage\<close> interprets.

  \<^item> \<open>Status_Policy\<close>, \<open>Verify_Response\<close>, \<open>Verified_Flow\<close> (\<open>src/verifier\<close>): the verification of an answer. \<open>Status_Policy\<close> has the
    status a credential must have and whose signature its list needs; \<open>Verify_Response\<close> the whole of \<open>VerifyResponse\<close>, both
    credential formats, with \<open>dcql\<close>, \<open>sdjwtvc\<close> and the status policy as modelled in their own theories and the mdoc
    packages as an argument (\<open>mdoc_ops\<close>); \<open>Verified_Flow\<close> puts it under the transactions, for what an acknowledged answer
    means.

  \<^item> \<open>Wallet_Match\<close> (\<open>src/wallet\<close>): which credentials a Wallet presents. The matcher of \<open>MatchDCQLQuery\<close> with what it remembers
    of credentials decoded and queries answered, equal to the search without that memory; the check of a holder's own
    choice, over the same matcher and the \<open>CheckAnswered\<close> the Verifier uses.

  \<^bold>\<open>Bounds and fuel.\<close> \<open>resolveValue\<close> carries the depth the code carries and fails past 33 levels, so its recursion is the
    code's own. The selection of Disclosures follows references that may form any graph; its fuel is the number of
    Disclosures not yet selected, and \<open>select_terminates\<close> shows it is never used up. \<open>CheckAnswered\<close> carries the code's own
    attempt budget. The allocator's probing is bounded by the code's own number of draws. All other recursions are on
  data.

  \<^bold>\<open>Not modelled.\<close> The mdoc format: its CBOR, COSE and device authentication (\<open>src/credential/mdoc\<close>, \<open>src/internal/cose\<close>,
  \<open>src/oid4vpmdoc\<close>, \<open>src/proximity\<close>) enter \<open>VerifyResponse\<close> as arguments. X.509 paths and revocation
  (\<open>src/internal/certchain\<close>, \<open>src/certrevocation\<close>), JWE, the fetching and caching of lists and Type Metadata, which rest on
  \<open>crypto\<close> and \<open>net/http\<close>. Of the Wallet (\<open>src/wallet\<close>, \<open>src/walletflow\<close>) all but the choice of credentials: a client that
  drives these protocols over HTTP, and its provider. HTTP handlers where they only encode and decode, configuration, audit records, SQL storage, the
  conformance suites, commands, mobile bindings and examples.
\<close>

end
